(* ===== verification/Prelude.thy ===== *)
theory Prelude
  imports Complex_Main "HOL-Library.Word" "HOL-Library.AList"
begin

text \<open>
  What every component of the model shares: the types that stand for Python's values
  (bytes, seconds, raised exceptions), the byte-level operations the protocol code uses
  (\<open>int.to_bytes\<close>, \<open>int.from_bytes\<close>, indexing and item assignment), the first-minimum
  search of \<open>min(..., key=...)\<close>, and the lemma collections the component proofs use.
\<close>

unbundle bit_operations_syntax

section \<open>Lemma collections\<close>

named_theorems py_eval \<open>definitions a concrete run unfolds\<close>
named_theorems inv_intro \<open>an operation keeps its component's invariant\<close>

section \<open>Values\<close>

type_synonym byte = "8 word"
type_synonym bytes = "byte list"

text \<open>Python's float seconds are rationals: the source's constants (0.750, 1.050, ...) are
  exact, and rounding of \<open>now - last\<close> is not modelled.\<close>

type_synonym seconds = rat

text \<open>A raised exception is a value; \<open>SafetyError\<close> and \<open>SecurityError\<close> carry the code the source
  gives them, \<open>StructError\<close> is \<open>struct.error\<close>, the
  ISO-TP errors (\<open>src/core/exceptions.py\<close>) the fields a caller branches on: the timer that ran
  out, the flow status, the expected and the received sequence number.\<close>

datatype py_error =
    ValueError | TypeError | KeyError | IndexError | OverflowError | RuntimeError
  | NotImplementedError | PermissionError | TimeoutError | SafetyError string
  | IsoTpError | IsoTpPayloadTooLargeError | IsoTpBufferOverflowError | IsoTpInvalidPduError
  | IsoTpTimeoutError string | IsoTpFlowControlError int | IsoTpSequenceError int int
  | StructError | SecurityError string

type_synonym 'a py = "py_error + 'a"

definition py_bind :: "'a py \<Rightarrow> ('a \<Rightarrow> 'b py) \<Rightarrow> 'b py" where
  "py_bind m f = (case m of Inl e \<Rightarrow> Inl e | Inr x \<Rightarrow> f x)"

lemma py_bind_simps [simp]:
  "py_bind (Inl e) f = Inl e"
  "py_bind (Inr x) f = f x"
  by (simp_all add: py_bind_def)

lemma py_bind_Inr_iff: "py_bind m f = Inr y \<longleftrightarrow> (\<exists>x. m = Inr x \<and> f x = Inr y)"
  by (cases m) simp_all

lemma py_bind_Inl_iff: "py_bind m f = Inl e \<longleftrightarrow> m = Inl e \<or> (\<exists>x. m = Inr x \<and> f x = Inl e)"
  by (cases m) simp_all

text \<open>A stateful operation returns the new state with its result: what it changed before it
  raised stays changed. \<open>act_bind\<close> runs the rest of a method after one such call.\<close>

definition act_bind :: "'s \<times> 'a py \<Rightarrow> ('s \<Rightarrow> 'a \<Rightarrow> 's \<times> 'b py) \<Rightarrow> 's \<times> 'b py" where
  "act_bind m f = (case m of (s, Inl e) \<Rightarrow> (s, Inl e) | (s, Inr x) \<Rightarrow> f s x)"

lemma act_bind_simps [simp]:
  "act_bind (s, Inl e) f = (s, Inl e)"
  "act_bind (s, Inr x) f = f s x"
  by (simp_all add: act_bind_def)

lemma act_bind_Inr:
  "act_bind m f = (s, Inr y) \<longleftrightarrow> (\<exists>s1 x. m = (s1, Inr x) \<and> f s1 x = (s, Inr y))"
  by (auto simp: act_bind_def split: prod.splits sum.splits)

text \<open>A predicate on the state an operation leaves behind, whether it returned or raised.\<close>

lemma act_bind_fst:
  assumes "P (fst m)" "\<And>s x. m = (s, Inr x) \<Longrightarrow> P (fst (f s x))"
  shows "P (fst (act_bind m f))"
proof -
  obtain s r where m: "m = (s, r)" by (cases m)
  show ?thesis using assms by (cases r) (simp_all add: m)
qed

section \<open>Indexing\<close>

text \<open>Where \<open>xs[i]\<close> points in a sequence of \<open>n\<close> elements: a negative index counts from the end,
  and one that is still outside is refused.\<close>

definition py_index :: "nat \<Rightarrow> int \<Rightarrow> nat option" where
  "py_index n i =
     (if 0 \<le> i \<and> i < int n then Some (nat i)
      else if - int n \<le> i \<and> i < 0 then Some (nat (int n + i))
      else None)"

lemma py_index_in [simp]: "0 \<le> i \<Longrightarrow> i < int n \<Longrightarrow> py_index n i = Some (nat i)"
  by (simp add: py_index_def)

text \<open>Reading and assigning at an index; IndexError when it is refused.\<close>

definition py_get :: "'a list \<Rightarrow> int \<Rightarrow> 'a py" where
  "py_get xs i = (case py_index (length xs) i of Some k \<Rightarrow> Inr (xs ! k) | None \<Rightarrow> Inl IndexError)"

definition py_set :: "'a list \<Rightarrow> int \<Rightarrow> 'a \<Rightarrow> 'a list py" where
  "py_set xs i v = (case py_index (length xs) i of Some k \<Rightarrow> Inr (xs[k := v]) | None \<Rightarrow> Inl IndexError)"

lemma py_get_in [simp]: "0 \<le> i \<Longrightarrow> i < int (length xs) \<Longrightarrow> py_get xs i = Inr (xs ! nat i)"
  by (simp add: py_get_def)

lemma py_set_in [simp]: "0 \<le> i \<Longrightarrow> i < int (length xs) \<Longrightarrow> py_set xs i v = Inr (xs[nat i := v])"
  by (simp add: py_set_def)

text \<open>\<open>xs[a:b]\<close> for bounds that are not negative.\<close>

definition py_slice :: "'a list \<Rightarrow> int \<Rightarrow> int \<Rightarrow> 'a list" where
  "py_slice xs a b = take (nat (b - a)) (drop (nat a) xs)"

text \<open>\<open>xs[:n]\<close>; a negative bound counts from the end.\<close>

definition py_prefix :: "'a list \<Rightarrow> int \<Rightarrow> 'a list" where
  "py_prefix xs n = (if 0 \<le> n then take (nat n) xs else take (nat (int (length xs) + n)) xs)"

lemma py_prefix_take [simp]: "0 \<le> n \<Longrightarrow> py_prefix xs n = take (nat n) xs"
  by (simp add: py_prefix_def)

lemma py_prefix_int [simp]: "py_prefix xs (int n) = take n xs"
  by (simp add: py_prefix_def)

section \<open>Bytes and integers\<close>

text \<open>\<open>data[i]\<close> as the integer it is, at an index the code has checked.\<close>

abbreviation byte_at :: "bytes \<Rightarrow> nat \<Rightarrow> int" where
  "byte_at d i \<equiv> uint (d ! i)"

lemma uint_byte_bounds [simp]: "0 \<le> uint (b :: byte)" "uint (b :: byte) < 256" "uint (b :: byte) \<le> 255"
  using uint_lt2p [of b] by simp_all

lemma uint_of_int_byte [simp]:
  "0 \<le> x \<Longrightarrow> x < 256 \<Longrightarrow> uint (word_of_int x :: byte) = x"
  by (simp add: uint_word_of_int)

text \<open>\<open>buf[i] = x\<close> on a bytearray takes 0..255 and raises ValueError otherwise.\<close>

definition byte_of :: "int \<Rightarrow> byte py" where
  "byte_of x = (if 0 \<le> x \<and> x < 256 then Inr (word_of_int x) else Inl ValueError)"

lemma byte_of_ok [simp]: "0 \<le> x \<Longrightarrow> x < 256 \<Longrightarrow> byte_of x = Inr (word_of_int x)"
  by (simp add: byte_of_def)

text \<open>\<open>int.from_bytes(bs, "little")\<close> and \<open>x.to_bytes(n, "little")\<close>, which raises
  OverflowError for a negative value and for one that needs more than \<open>n\<close> bytes.\<close>

fun from_le :: "bytes \<Rightarrow> int" where
  "from_le [] = 0"
| "from_le (b # bs) = uint b + 256 * from_le bs"

fun le_bytes :: "nat \<Rightarrow> int \<Rightarrow> bytes" where
  "le_bytes 0 x = []"
| "le_bytes (Suc n) x = word_of_int (x mod 256) # le_bytes n (x div 256)"

definition to_le :: "nat \<Rightarrow> int \<Rightarrow> bytes py" where
  "to_le n x = (if 0 \<le> x \<and> x < 256 ^ n then Inr (le_bytes n x) else Inl OverflowError)"

definition from_be :: "bytes \<Rightarrow> int" where
  "from_be bs = from_le (rev bs)"

definition to_be :: "nat \<Rightarrow> int \<Rightarrow> bytes py" where
  "to_be n x = (if 0 \<le> x \<and> x < 256 ^ n then Inr (rev (le_bytes n x)) else Inl OverflowError)"

lemma length_le_bytes [simp]: "length (le_bytes n x) = n"
  by (induction n arbitrary: x) simp_all

lemma from_le_nonneg [simp]: "0 \<le> from_le bs"
  by (induction bs) simp_all

lemma from_le_bound: "from_le bs < 256 ^ length bs"
proof (induction bs)
  case (Cons b bs)
  have "from_le bs + 1 \<le> 256 ^ length bs" using Cons by simp
  then have "uint b + 256 * from_le bs < 256 * 256 ^ length bs"
    using uint_byte_bounds(2) [of b] by linarith
  then show ?case by simp
qed simp

lemma from_le_le_bytes: "0 \<le> x \<Longrightarrow> x < 256 ^ n \<Longrightarrow> from_le (le_bytes n x) = x"
proof (induction n arbitrary: x)
  case (Suc n)
  then have "x div 256 < 256 ^ n" by (simp add: div_less_iff_less_mult mult.commute)
  then have "from_le (le_bytes n (x div 256)) = x div 256"
    using Suc by (simp add: pos_imp_zdiv_nonneg_iff)
  then show ?case by simp
qed simp

lemma le_bytes_from_le: "le_bytes (length bs) (from_le bs) = bs"
  by (induction bs) simp_all

lemma to_le_Inr: "to_le n x = Inr bs \<longleftrightarrow> 0 \<le> x \<and> x < 256 ^ n \<and> bs = le_bytes n x"
  by (auto simp: to_le_def)

lemma le_bytes_numeral_3 [simp]:
  "le_bytes 3 x = [word_of_int (x mod 256), word_of_int (x div 256 mod 256),
     word_of_int (x div 65536 mod 256)]"
  by (simp add: numeral_3_eq_3 zdiv_zmult2_eq [symmetric])

lemma le_bytes_numeral_2 [simp]:
  "le_bytes 2 x = [word_of_int (x mod 256), word_of_int (x div 256 mod 256)]"
  by (simp add: numeral_2_eq_2)

section \<open>Shifts and masks as arithmetic\<close>

text \<open>The source packs fields with \<open>(x << n) | y\<close> and reads them with \<open>(v >> n) & mask\<close>.\<close>

lemma push_or: "0 \<le> y \<Longrightarrow> y < 2 ^ n \<Longrightarrow> push_bit n x OR y = x * 2 ^ n + (y :: int)"
proof -
  assume y: "0 \<le> y" "y < 2 ^ n"
  have "push_bit n x OR y = concat_bit n y x"
    using y by (simp add: concat_bit_def take_bit_int_eq_self or.commute)
  also have "\<dots> = take_bit n y + push_bit n x" by (simp add: concat_bit_eq)
  finally show ?thesis using y by (simp add: take_bit_int_eq_self push_bit_eq_mult)
qed

lemma and_mask_mod: "(x :: int) AND (2 ^ n - 1) = x mod 2 ^ n"
  by (metis mask_eq_exp_minus_1 take_bit_eq_mask take_bit_eq_mod)

lemma and_masks [simp]:
  "(x :: int) AND 0x01 = x mod 2"
  "(x :: int) AND 0x07 = x mod 8"
  "(x :: int) AND 0x0F = x mod 16"
  "(x :: int) AND 0x1F = x mod 32"
  "(x :: int) AND 0xFF = x mod 256"
  "(x :: int) AND 0xFFFF = x mod 65536"
  "(x :: int) AND 0x3FFFF = x mod 262144"
proof -
  show "x AND 0x01 = x mod 2" using and_mask_mod [of x 1] by simp
  show "x AND 0x07 = x mod 8" using and_mask_mod [of x 3] by simp
  show "x AND 0x0F = x mod 16" using and_mask_mod [of x 4] by simp
  show "x AND 0x1F = x mod 32" using and_mask_mod [of x 5] by simp
  show "x AND 0xFF = x mod 256" using and_mask_mod [of x 8] by simp
  show "x AND 0xFFFF = x mod 65536" using and_mask_mod [of x 16] by simp
  show "x AND 0x3FFFF = x mod 262144" using and_mask_mod [of x 18] by simp
qed

section \<open>The first minimum\<close>

text \<open>\<open>min(xs, key=f)\<close> returns the first of the minimal elements; None stands for the
  ValueError on an empty sequence.\<close>

fun first_min :: "('a \<Rightarrow> 'b::linorder) \<Rightarrow> 'a list \<Rightarrow> 'a option" where
  "first_min f [] = None"
| "first_min f (x # xs) =
     (case first_min f xs of None \<Rightarrow> Some x | Some y \<Rightarrow> if f x \<le> f y then Some x else Some y)"

lemma first_min_None [simp]: "first_min f xs = None \<longleftrightarrow> xs = []"
  by (cases xs) (auto split: option.splits)

lemma first_min_in: "first_min f xs = Some x \<Longrightarrow> x \<in> set xs"
  by (induction xs arbitrary: x) (auto split: option.splits if_splits)

lemma first_min_le: "first_min f xs = Some x \<Longrightarrow> y \<in> set xs \<Longrightarrow> f x \<le> f y"
proof (induction xs arbitrary: x)
  case (Cons a xs)
  then show ?case
    by (cases "first_min f xs") (fastforce split: if_splits)+
qed simp

end
