(* ===== verification/PyDict.thy ===== *)
theory PyDict
  imports Prelude
begin

text \<open>
  Python dicts as association lists with distinct keys, in insertion order: the source
  depends on that order (\<open>min(d, key=...)\<close> and the first entry of a comprehension take the
  oldest entry among equals). \<open>AList.update\<close> overwrites in place and appends a new key, as
  \<open>d[k] = v\<close> does; \<open>AList.delete\<close> is \<open>d.pop(k, None)\<close>.
  The session tables of the protocol engines use a dict through the interface
  \<open>keyed_table\<close> below: its laws are proved here for association lists, and the bounds on
  table sizes and per-source quotas are proved once from the laws.
\<close>

type_synonym ('k, 'v) dict = "('k \<times> 'v) list"

abbreviation dget :: "('k, 'v) dict \<Rightarrow> 'k \<Rightarrow> 'v option" where
  "dget \<equiv> map_of"

abbreviation dset :: "'k \<Rightarrow> 'v \<Rightarrow> ('k, 'v) dict \<Rightarrow> ('k, 'v) dict" where
  "dset \<equiv> AList.update"

abbreviation dpop :: "'k \<Rightarrow> ('k, 'v) dict \<Rightarrow> ('k, 'v) dict" where
  "dpop \<equiv> AList.delete"

abbreviation dkeys :: "('k, 'v) dict \<Rightarrow> 'k list" where
  "dkeys d \<equiv> map fst d"

abbreviation dwf :: "('k, 'v) dict \<Rightarrow> bool" where
  "dwf d \<equiv> distinct (map fst d)"

text \<open>\<open>for k in ks: d.pop(k, None)\<close>\<close>

definition dpop_all :: "'k list \<Rightarrow> ('k, 'v) dict \<Rightarrow> ('k, 'v) dict" where
  "dpop_all ks d = fold dpop ks d"

section \<open>The interface of a keyed table\<close>

locale keyed_table =
  fixes lookup :: "'t \<Rightarrow> 'k \<Rightarrow> 'v option"
    and store :: "'k \<Rightarrow> 'v \<Rightarrow> 't \<Rightarrow> 't"
    and discard :: "'k \<Rightarrow> 't \<Rightarrow> 't"
    and keys :: "'t \<Rightarrow> 'k list"
    and wf :: "'t \<Rightarrow> bool"
  assumes lookup_store: "lookup (store k v t) = (lookup t)(k \<mapsto> v)"
    and lookup_discard: "lookup (discard k t) = (lookup t)(k := None)"
    and keys_set: "set (keys t) = dom (lookup t)"
    and keys_distinct: "wf t \<Longrightarrow> distinct (keys t)"
    and wf_store: "wf t \<Longrightarrow> wf (store k v t)"
    and wf_discard: "wf t \<Longrightarrow> wf (discard k t)"
begin

lemma count_card: "wf t \<Longrightarrow> length (filter P (keys t)) = card {k \<in> dom (lookup t). P k}"
proof -
  assume "wf t"
  then have "length (filter P (keys t)) = card (set (filter P (keys t)))"
    by (simp add: keys_distinct distinct_card [symmetric])
  then show ?thesis by (simp add: keys_set)
qed

lemma finite_dom_lookup: "finite (dom (lookup t))"
  by (metis keys_set finite_set)

lemma count_store_old:
  assumes "wf t" "k \<in> dom (lookup t)"
  shows "length (filter P (keys (store k v t))) = length (filter P (keys t))"
  using assms by (simp add: count_card wf_store lookup_store insert_absorb)

lemma count_store_new:
  assumes "wf t" "k \<notin> dom (lookup t)"
  shows "length (filter P (keys (store k v t))) =
    length (filter P (keys t)) + (if P k then 1 else 0)"
proof -
  have "{x \<in> dom (lookup (store k v t)). P x} =
      (if P k then insert k {x \<in> dom (lookup t). P x} else {x \<in> dom (lookup t). P x})"
    by (auto simp: lookup_store)
  then show ?thesis
    using assms finite_dom_lookup [of t] by (auto simp: count_card wf_store)
qed

lemma count_discard:
  assumes "wf t" "k \<in> dom (lookup t)"
  shows "length (filter P (keys t)) =
    length (filter P (keys (discard k t))) + (if P k then 1 else 0)"
proof -
  have "{x \<in> dom (lookup (discard k t)). P x} = {x \<in> dom (lookup t). P x} - {k}"
    by (auto simp: lookup_discard)
  moreover have "finite {x \<in> dom (lookup t). P x}"
    using finite_dom_lookup [of t] by simp
  ultimately show ?thesis
    using assms by (auto simp: count_card wf_discard card_Diff_singleton_if
        intro!: Suc_pred [symmetric] card_gt_0_iff [THEN iffD2])
qed

lemma count_discard_le:
  assumes "wf t"
  shows "length (filter P (keys (discard k t))) \<le> length (filter P (keys t))"
proof -
  have "{x \<in> dom (lookup (discard k t)). P x} \<subseteq> {x \<in> dom (lookup t). P x}"
    by (auto simp: lookup_discard)
  then show ?thesis
    using assms finite_dom_lookup [of t] by (simp add: count_card wf_discard card_mono)
qed

lemma size_count: "length (keys t) = length (filter (\<lambda>_. True) (keys t))"
  by simp

text \<open>Storing after evicting one entry of a full table keeps the table within its cap.\<close>

lemma size_store_le:
  assumes "wf t" "length (keys t) < cap"
  shows "length (keys (store k v t)) \<le> cap"
proof (cases "k \<in> dom (lookup t)")
  case True
  then show ?thesis
    using count_store_old [OF assms(1) True, of "\<lambda>_. True" v] assms(2) by simp
next
  case False
  then show ?thesis
    using count_store_new [OF assms(1) False, of "\<lambda>_. True" v] assms(2) by simp
qed

lemma size_evict:
  assumes "wf t" "victim \<in> dom (lookup t)"
  shows "length (keys (discard victim t)) < length (keys t)"
  using count_discard [OF assms, of "\<lambda>_. True"] by simp

end

interpretation dict: keyed_table "dget :: ('k, 'v) dict \<Rightarrow> 'k \<Rightarrow> 'v option" dset dpop dkeys dwf
proof unfold_locales
  fix t :: "('k, 'v) dict" and k v
  show "dget (dset k v t) = (dget t)(k \<mapsto> v)" by (rule AList.update_conv')
  show "dget (dpop k t) = (dget t)(k := None)" by (rule AList.delete_conv')
  show "set (dkeys t) = dom (dget t)" by (simp add: dom_map_of_conv_image_fst)
  show "dwf t \<Longrightarrow> distinct (dkeys t)" .
  show "dwf t \<Longrightarrow> dwf (dset k v t)" by (rule AList.distinct_update)
  show "dwf t \<Longrightarrow> dwf (dpop k t)" by (rule AList.distinct_delete)
qed

lemmas dict_laws [simp] = dict.lookup_store dict.lookup_discard

section \<open>Sweeps\<close>

lemma dwf_dpop_all [simp]: "dwf d \<Longrightarrow> dwf (dpop_all ks d)"
  unfolding dpop_all_def by (induction ks arbitrary: d) (simp_all add: dict.wf_discard)

lemma dget_dpop_all [simp]:
  "dget (dpop_all ks d) k = (if k \<in> set ks then None else dget d k)"
  unfolding dpop_all_def by (induction ks arbitrary: d) auto

lemma count_dpop_all_le:
  "dwf d \<Longrightarrow> length (filter P (dkeys (dpop_all ks d))) \<le> length (filter P (dkeys d))"
  unfolding dpop_all_def
proof (induction ks arbitrary: d)
  case (Cons k ks)
  have "length (filter P (dkeys (fold dpop ks (dpop k d)))) \<le> length (filter P (dkeys (dpop k d)))"
    by (rule Cons.IH [OF dict.wf_discard [OF Cons.prems]])
  also have "\<dots> \<le> length (filter P (dkeys d))"
    by (rule dict.count_discard_le [OF Cons.prems])
  finally show ?case by (simp only: fold_Cons comp_apply)
qed (simp only: fold_Nil id_apply order_refl)

lemma in_set_dget: "dwf d \<Longrightarrow> (k, v) \<in> set d \<longleftrightarrow> dget d k = Some v"
  by (metis map_of_SomeD map_of_is_SomeI)

text \<open>The keys of the entries that satisfy a predicate, as the source's comprehensions
  \<open>[k for k, v in d.items() if ...]\<close> list them.\<close>

definition dkeys_where :: "('k \<Rightarrow> 'v \<Rightarrow> bool) \<Rightarrow> ('k, 'v) dict \<Rightarrow> 'k list" where
  "dkeys_where P d = map fst (filter (\<lambda>(k, v). P k v) d)"

lemma set_dkeys_where: "dwf d \<Longrightarrow> k \<in> set (dkeys_where P d) \<longleftrightarrow> (\<exists>v. dget d k = Some v \<and> P k v)"
proof -
  assume "dwf d"
  have "k \<in> set (dkeys_where P d) \<longleftrightarrow> (\<exists>v. (k, v) \<in> set d \<and> P k v)"
    by (auto simp: dkeys_where_def image_iff)
  then show ?thesis by (simp only: in_set_dget [OF \<open>dwf d\<close>])
qed

lemma dget_sweep:
  "dwf d \<Longrightarrow> dget (dpop_all (dkeys_where P d) d) k =
     (case dget d k of None \<Rightarrow> None | Some v \<Rightarrow> if P k v then None else Some v)"
  by (simp only: dget_dpop_all set_dkeys_where) (cases "dget d k"; simp)


text \<open>Dropping the oldest entries: \<open>for k in list(d)[:n]: d.pop(k)\<close>.\<close>

lemma dpop_all_Cons [simp]: "dpop_all (k # ks) d = dpop_all ks (dpop k d)"
  by (simp add: dpop_all_def)

lemma dpop_all_Nil [simp]: "dpop_all [] d = d"
  by (simp add: dpop_all_def)

lemma dpop_all_take: "dwf d \<Longrightarrow> dpop_all (take n (dkeys d)) d = drop n d"
proof (induction n arbitrary: d)
  case (Suc n)
  show ?case
  proof (cases d)
    case (Cons kv d')
    then have "dpop (fst kv) d = d'" using Suc.prems by (auto simp: delete_id)
    then show ?thesis using Cons Suc by simp
  qed simp
qed simp

lemma length_dpop_all_le: "length (dpop_all ks d) \<le> length d"
proof (induction ks arbitrary: d)
  case (Cons k ks)
  then show ?case using AList.length_delete_le [of k d] order_trans by fastforce
qed simp

lemma dget_dset_Some: "dget (dset k v d) k' = Some x \<longleftrightarrow> (if k' = k then x = v else dget d k' = Some x)"
  by auto

lemma length_dset_le: "length (dset k v d) \<le> Suc (length d)"
  by (induction d) auto

lemma length_dset_new: "k \<notin> dom (dget d) \<Longrightarrow> length (dset k v d) = Suc (length d)"
  by (induction d) (auto simp: dom_map_of_conv_image_fst)

lemma length_dset_old: "k \<in> dom (dget d) \<Longrightarrow> length (dset k v d) = length d"
  by (induction d) (auto split: if_splits)


section \<open>Predicates on the entries and on the keys\<close>

text \<open>\<open>dall P d\<close>: every entry satisfies \<open>P\<close>. \<open>dquota g n d\<close>: at most \<open>n\<close> keys fall in any
  class of \<open>g\<close> (a per-source quota). Both are opaque to the simplifier, so that keys which are
  tuples stay whole.\<close>

definition dall :: "('k \<Rightarrow> 'v \<Rightarrow> bool) \<Rightarrow> ('k, 'v) dict \<Rightarrow> bool" where
  "dall P d \<longleftrightarrow> (\<forall>k v. dget d k = Some v \<longrightarrow> P k v)"

definition dquota :: "('k \<Rightarrow> 'c) \<Rightarrow> nat \<Rightarrow> ('k, 'v) dict \<Rightarrow> bool" where
  "dquota g n d \<longleftrightarrow> (\<forall>c. length (filter (\<lambda>k. g k = c) (dkeys d)) \<le> n)"

lemma dall_Nil [simp]: "dall P []"
  by (simp add: dall_def)

lemma dquota_Nil [simp]: "dquota g n []"
  by (simp add: dquota_def)

lemma dallD: "dall P d \<Longrightarrow> dget d k = Some v \<Longrightarrow> P k v"
  by (simp add: dall_def)

lemma dquotaD: "dquota g n d \<Longrightarrow> length (filter (\<lambda>k. g k = c) (dkeys d)) \<le> n"
  by (simp only: dquota_def)

lemma dall_dset [inv_intro]: "dall P d \<Longrightarrow> P k v \<Longrightarrow> dall P (dset k v d)"
  by (simp add: dall_def)

lemma dall_dpop [inv_intro]: "dall P d \<Longrightarrow> dall P (dpop k d)"
  by (simp add: dall_def)

lemma dall_dpop_all [inv_intro]: "dall P d \<Longrightarrow> dall P (dpop_all ks d)"
  by (simp add: dall_def)

lemma dall_drop: "dwf d \<Longrightarrow> dall P d \<Longrightarrow> dall P (drop n d)"
  by (metis dall_dpop_all dpop_all_take)

lemma dquota_dpop [inv_intro]: "dwf d \<Longrightarrow> dquota g n d \<Longrightarrow> dquota g n (dpop k d)"
  unfolding dquota_def by (blast intro: order_trans [OF dict.count_discard_le])

lemma dquota_dpop_all [inv_intro]: "dwf d \<Longrightarrow> dquota g n d \<Longrightarrow> dquota g n (dpop_all ks d)"
  unfolding dquota_def by (blast intro: order_trans [OF count_dpop_all_le])

lemma dquota_dset_old: "dwf d \<Longrightarrow> k \<in> dom (dget d) \<Longrightarrow> dquota g n d \<Longrightarrow> dquota g n (dset k v d)"
  unfolding dquota_def by (simp only: dict.count_store_old simp_thms)

lemma dquota_dset_new:
  assumes "dwf d" "k \<notin> dom (dget d)" "dquota g n d"
    and "length (filter (\<lambda>k'. g k' = g k) (dkeys d)) < n"
  shows "dquota g n (dset k v d)"
  unfolding dquota_def
proof
  fix c
  show "length (filter (\<lambda>k. g k = c) (dkeys (dset k v d))) \<le> n"
    using dict.count_store_new [OF assms(1,2), of "\<lambda>k. g k = c" v] dquotaD [OF assms(3), of c]
      assms(4) by (cases "g k = c") simp_all
qed


section \<open>Evicting the stalest entry of a full table\<close>

text \<open>\<open>oldest = min(d.keys(), key=lambda k: age(d[k]))\<close>: the first key, in insertion order, of
  the entries of least age. \<open>make_room\<close> pops it when the table has reached its cap.\<close>

definition oldest_key :: "('v \<Rightarrow> 'a::linorder) \<Rightarrow> ('k, 'v) dict \<Rightarrow> 'k option" where
  "oldest_key age d = map_option fst (first_min (\<lambda>(k, v). age v) d)"

definition make_room :: "nat \<Rightarrow> ('v \<Rightarrow> 'a::linorder) \<Rightarrow> ('k, 'v) dict \<Rightarrow> ('k, 'v) dict" where
  "make_room cap age d =
     (if length d \<ge> cap
      then (case oldest_key age d of Some k \<Rightarrow> dpop k d | None \<Rightarrow> d)
      else d)"

lemma oldest_key_None: "oldest_key age d = None \<longleftrightarrow> d = []"
  by (simp add: oldest_key_def)

lemma oldest_key_Some:
  assumes "oldest_key age d = Some k" "dwf d"
  obtains v where "dget d k = Some v" "\<And>k' v'. dget d k' = Some v' \<Longrightarrow> age v \<le> age v'"
proof -
  from assms(1) obtain v where min: "first_min (\<lambda>(k, v). age v) d = Some (k, v)"
    by (auto simp: oldest_key_def)
  have "dget d k = Some v"
    by (rule map_of_is_SomeI [OF assms(2) first_min_in [OF min]])
  moreover have "age v \<le> age v'" if "dget d k' = Some v'" for k' v'
    using first_min_le [OF min map_of_SomeD [OF that]] by simp
  ultimately show thesis by (rule that)
qed

lemma make_room_cases:
  assumes "dwf d"
  obtains (Room) "length d < cap" "make_room cap age d = d"
  | (Empty) "d = []" "make_room cap age d = d"
  | (Evict) k v where "cap \<le> length d" "dget d k = Some v" "make_room cap age d = dpop k d"
      "\<And>k' v'. dget d k' = Some v' \<Longrightarrow> age v \<le> age v'"
proof (cases "length d < cap")
  case True
  then show ?thesis by (intro Room) (simp_all add: make_room_def)
next
  case False
  show ?thesis
  proof (cases "oldest_key age d")
    case None
    then show ?thesis by (intro Empty) (simp_all add: oldest_key_None make_room_def oldest_key_def)
  next
    case (Some k)
    obtain v where v: "dget d k = Some v" "\<And>k' v'. dget d k' = Some v' \<Longrightarrow> age v \<le> age v'"
      using oldest_key_Some [OF Some assms] by metis
    show ?thesis
      by (rule Evict [OF _ v(1) _ v(2)]) (use False Some in \<open>simp_all add: make_room_def\<close>)
  qed
qed

lemma make_room_size:
  assumes "dwf d" "length d \<le> cap" "0 < cap"
  shows "length (make_room cap age d) < cap"
  using assms(1)
proof (cases rule: make_room_cases [of d cap age])
  case (Evict k v)
  then have "length (dkeys (dpop k d)) < length (dkeys d)"
    using assms(1) by (intro dict.size_evict) auto
  then show ?thesis using Evict assms by simp
qed (use assms in simp_all)

lemma make_room_dget: "dget (make_room cap age d) k = Some v \<Longrightarrow> dget d k = Some v"
  by (auto simp: make_room_def split: if_splits option.splits)

lemma make_room_wf [inv_intro]: "dwf d \<Longrightarrow> dwf (make_room cap age d)"
  by (auto simp: make_room_def dict.wf_discard split: option.splits)

lemma make_room_dall [inv_intro]: "dall P d \<Longrightarrow> dall P (make_room cap age d)"
  by (auto simp: make_room_def dall_dpop split: option.splits)

lemma make_room_count:
  "dwf d \<Longrightarrow> length (filter P (dkeys (make_room cap age d))) \<le> length (filter P (dkeys d))"
  unfolding make_room_def using dict.count_discard_le [of d P]
  by (simp del: filter_map split: option.split)

lemma make_room_dquota [inv_intro]: "dwf d \<Longrightarrow> dquota g n d \<Longrightarrow> dquota g n (make_room cap age d)"
  unfolding dquota_def by (blast intro: order_trans [OF make_room_count])

lemma make_room_not_full [simp]: "length d < cap \<Longrightarrow> make_room cap age d = d"
  by (simp add: make_room_def)

end
