(* ===== verification/CanFrame.thy ===== *)
theory CanFrame
  imports PyDict
begin

text \<open>
  \<open>src/core/models/can_frame.py\<close>: the DLC tables, payload padding, the canonical CAN / CAN-FD
  frame with the checks of \<open>__post_init__\<close>, and the factory \<open>CanFrame.create\<close>.
  A Python \<open>int\<close> is an \<open>int\<close>, \<open>bytes\<close> a list of 8-bit words, a \<open>str\<close> a character list; the
  type checks of the source (\<open>isinstance\<close>) are HOL's types.
\<close>

section \<open>DLC tables\<close>

definition DLC_TO_LENGTH :: "int list" where
  "DLC_TO_LENGTH = [0, 1, 2, 3, 4, 5, 6, 7, 8, 12, 16, 20, 24, 32, 48, 64]"

definition LENGTH_TO_DLC :: "int list" where
  "LENGTH_TO_DLC =
    [0, 1, 2, 3, 4, 5, 6, 7, 8,
     9, 9, 9, 9,
     10, 10, 10, 10,
     11, 11, 11, 11,
     12, 12, 12, 12,
     13, 13, 13, 13, 13, 13, 13, 13,
     14, 14, 14, 14, 14, 14, 14, 14, 14, 14, 14, 14, 14, 14, 14, 14,
     15, 15, 15, 15, 15, 15, 15, 15, 15, 15, 15, 15, 15, 15, 15, 15]"

definition dlc_to_length :: "int \<Rightarrow> int py" where
  "dlc_to_length dlc =
     (if 0 \<le> dlc \<and> dlc \<le> 15 then py_get DLC_TO_LENGTH dlc else Inl ValueError)"

definition length_to_dlc :: "int \<Rightarrow> int py" where
  "length_to_dlc n =
     (if 0 \<le> n \<and> n \<le> 64 then py_get LENGTH_TO_DLC n else Inl ValueError)"

definition pad_payload :: "bytes \<Rightarrow> int \<Rightarrow> int \<Rightarrow> bytes py" where
  "pad_payload d dlc pad_byte =
     (if \<not> (0 \<le> pad_byte \<and> pad_byte \<le> 0xFF) then Inl ValueError
      else py_bind (dlc_to_length dlc) (\<lambda>expected_len.
        let data_len = int (length d) in
        if data_len > expected_len then Inl ValueError
        else if data_len = expected_len then Inr d
        else Inr (d @ replicate (nat (expected_len - data_len)) (word_of_int pad_byte))))"

definition get_hardware_crc_type :: "bool \<Rightarrow> int \<Rightarrow> string" where
  "get_hardware_crc_type fd payload_len =
     (if \<not> fd then ''CRC-15''
      else if payload_len \<le> 16 then ''CRC-17''
      else ''CRC-21'')"

section \<open>The frame\<close>

record can_frame =
  frame_channel_id :: string
  frame_arbitration_id :: int
  frame_dlc :: int
  frame_data :: bytes
  frame_is_extended :: bool
  frame_is_fd :: bool
  frame_brs :: bool
  frame_esi :: bool
  frame_direction :: string
  frame_timestamp_ns :: int
  frame_hardware_timestamp_ns :: "int option"
  frame_host_timestamp_ns :: "int option"
  frame_sequence :: int
  frame_error_state :: string
  frame_source :: string

definition VALID_DIRECTIONS :: "string list" where
  "VALID_DIRECTIONS = [''rx'', ''tx'']"

definition VALID_ERROR_STATES :: "string list" where
  "VALID_ERROR_STATES = [''active'', ''passive'', ''bus_off'']"

definition VALID_SOURCES :: "string list" where
  "VALID_SOURCES = [''physical'', ''replay'', ''virtual'', ''injected'', ''synthetic'']"

text \<open>\<open>re.fullmatch(r"[A-Za-z0-9_:\-]{1,64}", channel_id)\<close>\<close>

definition CHANNEL_ID_CHARS :: string where
  "CHANNEL_ID_CHARS =
     ''ABCDEFGHIJKLMNOPQRSTUVWXYZabcdefghijklmnopqrstuvwxyz0123456789_:-''"

definition channel_id_ok :: "string \<Rightarrow> bool" where
  "channel_id_ok s \<longleftrightarrow>
     1 \<le> length s \<and> length s \<le> 64 \<and> list_all (\<lambda>c. c \<in> set CHANNEL_ID_CHARS) s"

text \<open>\<open>__post_init__\<close>: every failing check raises ValueError, in the source's order.\<close>

definition can_frame_init :: "can_frame \<Rightarrow> can_frame py" where
  "can_frame_init f =
     (let max_id = (if frame_is_extended f then 0x1FFFFFFF else 0x7FF);
          n = int (length (frame_data f)) in
      if \<not> channel_id_ok (frame_channel_id f) then Inl ValueError
      else if \<not> (0 \<le> frame_dlc f \<and> frame_dlc f \<le> 15) then Inl ValueError
      else if \<not> (0 \<le> frame_arbitration_id f \<and> frame_arbitration_id f \<le> max_id)
        then Inl ValueError
      else if \<not> frame_is_fd f \<and> frame_dlc f > 8 then Inl ValueError
      else if \<not> frame_is_fd f \<and> (frame_brs f \<or> frame_esi f) then Inl ValueError
      else py_bind (py_get DLC_TO_LENGTH (frame_dlc f)) (\<lambda>expected_len.
        if frame_is_fd f \<and> frame_dlc f \<ge> 9 \<and> \<not> (0 < n \<and> n \<le> expected_len)
          then Inl ValueError
        else if \<not> (frame_is_fd f \<and> frame_dlc f \<ge> 9) \<and> n \<noteq> expected_len
          then Inl ValueError
        else if frame_direction f \<notin> set VALID_DIRECTIONS then Inl ValueError
        else if frame_error_state f \<notin> set VALID_ERROR_STATES then Inl ValueError
        else if frame_source f \<notin> set VALID_SOURCES then Inl ValueError
        else Inr f))"

definition crc_type :: "can_frame \<Rightarrow> string py" where
  "crc_type f =
     py_bind (py_get DLC_TO_LENGTH (frame_dlc f)) (\<lambda>n.
       Inr (get_hardware_crc_type (frame_is_fd f) n))"

definition padded_data :: "can_frame \<Rightarrow> bytes py" where
  "padded_data f = pad_payload (frame_data f) (frame_dlc f) 0xCC"

text \<open>\<open>CanFrame.create\<close>; \<open>now\<close> is \<open>time.monotonic_ns()\<close>.\<close>

definition can_frame_create ::
  "string \<Rightarrow> int \<Rightarrow> bytes \<Rightarrow> bool option \<Rightarrow> bool \<Rightarrow> bool \<Rightarrow> bool \<Rightarrow> int option \<Rightarrow> string \<Rightarrow>
   int option \<Rightarrow> string \<Rightarrow> string \<Rightarrow> int \<Rightarrow> can_frame py" where
  "can_frame_create ch arb d ext_arg fd bit_rate_switch err_ind dlc_arg dir ts_arg src err now =
     (let ext = (case ext_arg of None \<Rightarrow> arb > 0x7FF | Some b \<Rightarrow> b) in
      if \<not> fd \<and> length d > 8 then Inl ValueError
      else py_bind (case dlc_arg of None \<Rightarrow> length_to_dlc (int (length d)) | Some c \<Rightarrow> Inr c)
        (\<lambda>dlc. can_frame_init
          \<lparr>frame_channel_id = ch, frame_arbitration_id = arb, frame_dlc = dlc, frame_data = d,
           frame_is_extended = ext, frame_is_fd = fd, frame_brs = bit_rate_switch,
           frame_esi = err_ind, frame_direction = dir,
           frame_timestamp_ns = (case ts_arg of Some ts \<Rightarrow> ts | None \<Rightarrow> now),
           frame_hardware_timestamp_ns = None, frame_host_timestamp_ns = None,
           frame_sequence = 0, frame_error_state = err, frame_source = src\<rparr>))"

text \<open>The call the protocol engines make for a frame they emit:
  \<open>CanFrame.create(channel_id=..., arbitration_id=..., data=..., is_extended=True,
  direction="tx")\<close>.\<close>

definition create_tx :: "string \<Rightarrow> int \<Rightarrow> bytes \<Rightarrow> int \<Rightarrow> can_frame py" where
  "create_tx ch arb d now =
     can_frame_create ch arb d (Some True) False False False None ''tx'' None ''physical'' ''active'' now"


section \<open>The DLC tables agree\<close>

lemma dlc_to_length_Inr_range: "dlc_to_length c = Inr m \<Longrightarrow> 0 \<le> c \<and> c \<le> 15"
  by (simp add: dlc_to_length_def split: if_splits)

lemma dlc_to_length_total: "0 \<le> c \<Longrightarrow> c \<le> 15 \<Longrightarrow> \<exists>m. dlc_to_length c = Inr m"
  by (simp add: dlc_to_length_def DLC_TO_LENGTH_def)

text \<open>A fact about every length or code of a table is a finite check.\<close>

lemma upto_all: "list_all P [lo..hi] \<Longrightarrow> lo \<le> x \<Longrightarrow> x \<le> hi \<Longrightarrow> P x"
  by (simp add: list_all_iff)

definition not_below :: "int \<Rightarrow> int \<Rightarrow> int \<Rightarrow> bool" where
  "not_below n c c' =
     (case dlc_to_length c' of Inl _ \<Rightarrow> False | Inr m' \<Rightarrow> if n \<le> m' then c \<le> c' else True)"

definition least_dlc_check :: "int \<Rightarrow> bool" where
  "least_dlc_check n =
     (case length_to_dlc n of Inl _ \<Rightarrow> False | Inr c \<Rightarrow>
       (case dlc_to_length c of Inl _ \<Rightarrow> False | Inr m \<Rightarrow>
         n \<le> m \<and> list_all (not_below n c) [0..15]))"

lemma least_dlc_check_all: "list_all least_dlc_check [0..64]"
  by code_simp

lemma length_to_dlc_least:
  assumes "length_to_dlc n = Inr c"
  shows "\<exists>m. dlc_to_length c = Inr m \<and> n \<le> m" and
    "dlc_to_length c' = Inr m' \<Longrightarrow> n \<le> m' \<Longrightarrow> c \<le> c'"
proof -
  have n: "0 \<le> n" "n \<le> 64"
    using assms by (auto simp: length_to_dlc_def split: if_splits)
  have chk: "least_dlc_check n"
    by (rule upto_all [OF least_dlc_check_all n])
  show "\<exists>m. dlc_to_length c = Inr m \<and> n \<le> m"
    using chk assms by (auto simp: least_dlc_check_def split: sum.splits)
  assume m': "dlc_to_length c' = Inr m'" "n \<le> m'"
  from chk assms have "list_all (not_below n c) [0..15]"
    by (simp add: least_dlc_check_def split: sum.splits)
  from upto_all [OF this, of c'] show "c \<le> c'"
    using dlc_to_length_Inr_range [OF m'(1)] m' by (simp add: not_below_def)
qed

lemma length_to_dlc_total: "0 \<le> n \<Longrightarrow> n \<le> 64 \<Longrightarrow> \<exists>c. length_to_dlc n = Inr c"
  by (simp add: length_to_dlc_def LENGTH_TO_DLC_def)

lemma length_to_dlc_8 [simp]: "length_to_dlc 8 = Inr 8"
  by (simp add: length_to_dlc_def LENGTH_TO_DLC_def)

lemma dlc_to_length_small: "0 \<le> c \<Longrightarrow> c \<le> 8 \<Longrightarrow> dlc_to_length c = Inr c"
proof -
  assume c: "0 \<le> c" "c \<le> 8"
  have "list_all (\<lambda>c. dlc_to_length c = Inr c) [0..8]" by code_simp
  from upto_all [OF this c] show ?thesis .
qed

lemma length_to_dlc_small: "0 \<le> n \<Longrightarrow> n \<le> 8 \<Longrightarrow> length_to_dlc n = Inr n"
proof -
  assume n: "0 \<le> n" "n \<le> 8"
  have "list_all (\<lambda>n. length_to_dlc n = Inr n) [0..8]" by code_simp
  from upto_all [OF this n] show ?thesis .
qed

lemma dlc_to_length_get:
  "0 \<le> c \<Longrightarrow> c \<le> 15 \<Longrightarrow> py_get DLC_TO_LENGTH c = dlc_to_length c"
  by (simp add: dlc_to_length_def)

section \<open>Accepted frames\<close>

text \<open>What \<open>__post_init__\<close> guarantees, as a reader would state it.\<close>

definition frame_wf :: "can_frame \<Rightarrow> bool" where
  "frame_wf f \<longleftrightarrow>
     channel_id_ok (frame_channel_id f) \<and>
     0 \<le> frame_dlc f \<and> frame_dlc f \<le> (if frame_is_fd f then 15 else 8) \<and>
     0 \<le> frame_arbitration_id f \<and>
     frame_arbitration_id f < (if frame_is_extended f then 2 ^ 29 else 2 ^ 11) \<and>
     (frame_brs f \<or> frame_esi f \<longrightarrow> frame_is_fd f) \<and>
     (if frame_dlc f \<le> 8 then int (length (frame_data f)) = frame_dlc f
      else frame_data f \<noteq> [] \<and>
        (\<exists>m. dlc_to_length (frame_dlc f) = Inr m \<and> int (length (frame_data f)) \<le> m)) \<and>
     frame_direction f \<in> set VALID_DIRECTIONS \<and>
     frame_error_state f \<in> set VALID_ERROR_STATES \<and>
     frame_source f \<in> set VALID_SOURCES"

lemma can_frame_init_Inr: "can_frame_init f = Inr g \<longleftrightarrow> g = f \<and> frame_wf f"
proof (cases "0 \<le> frame_dlc f \<and> frame_dlc f \<le> 15")
  case True
  then obtain m where m: "dlc_to_length (frame_dlc f) = Inr m"
    using dlc_to_length_total by blast
  have get: "py_get DLC_TO_LENGTH (frame_dlc f) = Inr m"
    using True m by (simp add: dlc_to_length_get)
  have small: "frame_dlc f \<le> 8 \<Longrightarrow> m = frame_dlc f"
    using True m dlc_to_length_small by simp
  show ?thesis
    unfolding can_frame_init_def frame_wf_def Let_def get py_bind_simps m
    using True small by (auto split: if_splits)
next
  case False
  then show ?thesis by (auto simp: can_frame_init_def frame_wf_def Let_def split: if_splits)
qed

lemma can_frame_init_ok [simp]: "frame_wf f \<Longrightarrow> can_frame_init f = Inr f"
  by (simp add: can_frame_init_Inr)

lemma create_Inr:
  assumes "can_frame_create ch arb d ext fd b e dlc dir ts src err now = Inr f"
  shows "frame_wf f" "frame_data f = d" "frame_channel_id f = ch" "frame_arbitration_id f = arb"
    "frame_is_fd f = fd" "frame_direction f = dir" "frame_source f = src"
    "ext = Some x \<Longrightarrow> frame_is_extended f = x"
    "dlc = Some c \<Longrightarrow> frame_dlc f = c"
    "dlc = None \<Longrightarrow> length_to_dlc (int (length d)) = Inr (frame_dlc f)"
  using assms
  by (auto simp: can_frame_create_def Let_def py_bind_Inr_iff can_frame_init_Inr split: if_splits)

lemma wf_capacity:
  assumes "frame_wf f"
  obtains m where "dlc_to_length (frame_dlc f) = Inr m" "int (length (frame_data f)) \<le> m"
proof (cases "frame_dlc f \<le> 8")
  case True
  then show ?thesis using assms that dlc_to_length_small [of "frame_dlc f"]
    by (simp add: frame_wf_def)
next
  case False
  then show ?thesis using assms that by (auto simp: frame_wf_def)
qed

section \<open>Padding\<close>

lemma pad_payload_Inr:
  assumes "pad_payload d c p = Inr r"
  shows "\<exists>m. dlc_to_length c = Inr m \<and> int (length r) = m \<and> length d \<le> length r \<and>
    r = d @ replicate (length r - length d) (word_of_int p)"
proof -
  from assms obtain m where m: "dlc_to_length c = Inr m"
    and le: "int (length d) \<le> m"
    and r: "r = d @ replicate (nat (m - int (length d))) (word_of_int p)"
    by (auto simp: pad_payload_def py_bind_Inr_iff Let_def split: if_splits)
  have "int (length r) = m" using r le by simp
  then show ?thesis using m le r by auto
qed

lemma pad_payload_ok:
  "dlc_to_length c = Inr m \<Longrightarrow> int (length d) \<le> m \<Longrightarrow> 0 \<le> p \<Longrightarrow> p \<le> 255 \<Longrightarrow>
   \<exists>r. pad_payload d c p = Inr r"
  by (simp add: pad_payload_def Let_def)

section \<open>Frames the engines emit\<close>

lemma create_tx_ok:
  assumes "channel_id_ok ch" "0 \<le> arb" "arb < 2 ^ 29" "length d \<le> 8"
  shows "create_tx ch arb d now = Inr
    \<lparr>frame_channel_id = ch, frame_arbitration_id = arb, frame_dlc = int (length d),
     frame_data = d, frame_is_extended = True, frame_is_fd = False, frame_brs = False,
     frame_esi = False, frame_direction = ''tx'', frame_timestamp_ns = now,
     frame_hardware_timestamp_ns = None, frame_host_timestamp_ns = None,
     frame_sequence = 0, frame_error_state = ''active'', frame_source = ''physical''\<rparr>"
proof -
  have "length_to_dlc (int (length d)) = Inr (int (length d))"
    using assms(4) length_to_dlc_small by simp
  then show ?thesis
    using assms
    by (simp add: create_tx_def can_frame_create_def can_frame_init_Inr frame_wf_def
        VALID_DIRECTIONS_def VALID_ERROR_STATES_def VALID_SOURCES_def)
qed

text \<open>A ten-byte FD frame, for the witness below.\<close>

definition fd_frame_demo :: can_frame where
  "fd_frame_demo =
    \<lparr>frame_channel_id = ''can0'', frame_arbitration_id = 0x123, frame_dlc = 9,
     frame_data = [1, 2, 3, 4, 5, 6, 7, 8, 9, 10], frame_is_extended = False, frame_is_fd = True,
     frame_brs = True, frame_esi = False, frame_direction = ''rx'', frame_timestamp_ns = 7,
     frame_hardware_timestamp_ns = None, frame_host_timestamp_ns = None,
     frame_sequence = 0, frame_error_state = ''active'', frame_source = ''virtual''\<rparr>"

section \<open>Properties\<close>

text \<open>
  The two DLC tables agree: every payload length from 0 to 64 has a DLC whose capacity holds
  it, and no smaller DLC does.
\<close>

theorem length_to_dlc_minimal:
  assumes "0 \<le> n" "n \<le> 64"
  shows "\<exists>c m. length_to_dlc n = Inr c \<and> dlc_to_length c = Inr m \<and> n \<le> m \<and>
    (\<forall>c' m'. dlc_to_length c' = Inr m' \<longrightarrow> n \<le> m' \<longrightarrow> c \<le> c')"
  using length_to_dlc_total [OF assms] length_to_dlc_least by metis

theorem length_to_dlc_minimal_witness:
  "\<exists>c m. length_to_dlc 13 = Inr c \<and> dlc_to_length c = Inr m \<and> 13 \<le> m \<and>
    (\<forall>c' m'. dlc_to_length c' = Inr m' \<longrightarrow> 13 \<le> m' \<longrightarrow> c \<le> c')"
  by (rule length_to_dlc_minimal) simp_all

text \<open>
  A frame the factory accepts is well formed, carries the payload it was given, and its
  padded form extends that payload with 0xCC to the exact capacity of the frame's DLC.
\<close>

theorem create_padded:
  assumes "can_frame_create ch arb d ext fd b e dlc dir ts src err now = Inr f"
  shows "frame_wf f \<and> frame_data f = d \<and>
    (\<exists>n m. padded_data f = Inr (d @ replicate n 0xCC) \<and> dlc_to_length (frame_dlc f) = Inr m \<and>
      int (length d + n) = m)"
proof -
  note f = create_Inr(1,2) [OF assms]
  obtain m where m: "dlc_to_length (frame_dlc f) = Inr m" "int (length (frame_data f)) \<le> m"
    using wf_capacity [OF f(1)] .
  then obtain r where r: "padded_data f = Inr r"
    using pad_payload_ok [OF m, of "0xCC"] by (auto simp: padded_data_def)
  from pad_payload_Inr [OF r [unfolded padded_data_def]] show ?thesis
    using f m r by (intro conjI exI [of _ "length r - length d"] exI [of _ m]) auto
qed

theorem create_padded_witness:
  "frame_wf fd_frame_demo \<and> frame_data fd_frame_demo = [1, 2, 3, 4, 5, 6, 7, 8, 9, 10] \<and>
    (\<exists>n m. padded_data fd_frame_demo = Inr ([1, 2, 3, 4, 5, 6, 7, 8, 9, 10] @ replicate n 0xCC) \<and>
      dlc_to_length (frame_dlc fd_frame_demo) = Inr m \<and>
      int (length [1, 2, 3, 4, 5, 6, 7, 8, 9, 10 :: byte] + n) = m)"
  by (rule create_padded [of "''can0''" "0x123" _ None True True False None "''rx''" "Some 7"
        "''virtual''" "''active''" 0]) code_simp

end
