(* ===== verification/J1939Id.thy ===== *)
theory J1939Id
  imports CanFrame
begin

text \<open>
  The 29-bit J1939 identifier: \<open>parse_j1939_id\<close> and \<open>build_j1939_id\<close> of
  \<open>src/protocols/j1939/oem/registry.py\<close>, which \<open>src/protocols/j1939/pgn.py\<close> re-exports
  together with \<open>pgn_from_id\<close>. The lemmas show that the two are inverse to each other on
  29-bit identifiers and on well-formed components.
\<close>

definition parse_j1939_id :: "int \<Rightarrow> int \<times> int \<times> int option \<times> int" where
  "parse_j1939_id arb =
     (let priority = drop_bit 26 arb AND 0x07;
          edp = drop_bit 25 arb AND 0x01;
          dp = drop_bit 24 arb AND 0x01;
          pf = drop_bit 16 arb AND 0xFF;
          ps = drop_bit 8 arb AND 0xFF;
          sa = arb AND 0xFF in
      if pf < 240
      then (push_bit 17 edp OR push_bit 16 dp OR push_bit 8 pf, sa, Some ps, priority)
      else (push_bit 17 edp OR push_bit 16 dp OR push_bit 8 pf OR ps, sa, None, priority))"

definition build_j1939_id :: "int \<Rightarrow> int \<Rightarrow> int option \<Rightarrow> int \<Rightarrow> int" where
  "build_j1939_id pgn sa da prio =
     (let priority = prio AND 0x07;
          edp = drop_bit 17 pgn AND 0x01;
          dp = drop_bit 16 pgn AND 0x01;
          pf = drop_bit 8 pgn AND 0xFF;
          ps = pgn AND 0xFF in
      if pf < 240
      then let target_da = (case da of Some d \<Rightarrow> d | None \<Rightarrow> 0xFF) AND 0xFF in
        push_bit 26 priority OR push_bit 25 edp OR push_bit 24 dp OR push_bit 16 pf
          OR push_bit 8 target_da OR (sa AND 0xFF)
      else
        push_bit 26 priority OR push_bit 25 edp OR push_bit 24 dp OR push_bit 16 pf
          OR push_bit 8 ps OR (sa AND 0xFF))"

definition pgn_from_id :: "int \<Rightarrow> int" where
  "pgn_from_id arb = (case parse_j1939_id arb of (pgn, sa, da, priority) \<Rightarrow> pgn)"

section \<open>The packed fields as arithmetic\<close>

lemma pack_pgn:
  assumes "0 \<le> f" "f < 256" "0 \<le> s" "s < 256" "0 \<le> d" "d < 2"
  shows "push_bit 17 e OR push_bit 16 d OR push_bit 8 f OR s =
    e * 131072 + d * 65536 + f * 256 + (s :: int)"
proof -
  have 1: "push_bit 8 f OR s = f * 256 + s" using push_or [of s 8 f] assms by simp
  have 2: "push_bit 16 d OR (f * 256 + s) = d * 65536 + f * 256 + s"
    using push_or [of "f * 256 + s" 16 d] assms by simp
  have 3: "push_bit 17 e OR (d * 65536 + f * 256 + s) = e * 131072 + d * 65536 + f * 256 + s"
    using push_or [of "d * 65536 + f * 256 + s" 17 e] assms by simp
  show ?thesis by (simp only: or.assoc 1 2 3)
qed

lemma pack_id:
  assumes "0 \<le> e" "e < 2" "0 \<le> d" "d < 2" "0 \<le> f" "f < 256" "0 \<le> s" "s < 256" "0 \<le> a" "a < 256"
  shows "push_bit 26 p OR push_bit 25 e OR push_bit 24 d OR push_bit 16 f OR push_bit 8 s OR a =
    p * 67108864 + e * 33554432 + d * 16777216 + f * 65536 + s * 256 + (a :: int)"
proof -
  have 1: "push_bit 8 s OR a = s * 256 + a" using push_or [of a 8 s] assms by simp
  have 2: "push_bit 16 f OR (s * 256 + a) = f * 65536 + s * 256 + a"
    using push_or [of "s * 256 + a" 16 f] assms by simp
  have 3: "push_bit 24 d OR (f * 65536 + s * 256 + a) = d * 16777216 + f * 65536 + s * 256 + a"
    using push_or [of "f * 65536 + s * 256 + a" 24 d] assms by simp
  have 4: "push_bit 25 e OR (d * 16777216 + f * 65536 + s * 256 + a) =
      e * 33554432 + d * 16777216 + f * 65536 + s * 256 + a"
    using push_or [of "d * 16777216 + f * 65536 + s * 256 + a" 25 e] assms by simp
  have 5: "push_bit 26 p OR (e * 33554432 + d * 16777216 + f * 65536 + s * 256 + a) =
      p * 67108864 + e * 33554432 + d * 16777216 + f * 65536 + s * 256 + a"
    using push_or [of "e * 33554432 + d * 16777216 + f * 65536 + s * 256 + a" 26 p] assms by simp
  show ?thesis by (simp only: or.assoc 1 2 3 4 5)
qed

lemma parse_arith:
  "parse_j1939_id arb =
     (let pf = arb div 65536 mod 256; ps = arb div 256 mod 256;
          hi = arb div 33554432 mod 2 * 131072 + arb div 16777216 mod 2 * 65536 + pf * 256 in
      if pf < 240 then (hi, arb mod 256, Some ps, arb div 67108864 mod 8)
      else (hi + ps, arb mod 256, None, arb div 67108864 mod 8))"
proof -
  let ?e = "arb div 33554432 mod 2" and ?d = "arb div 16777216 mod 2"
    and ?f = "arb div 65536 mod 256" and ?s = "arb div 256 mod 256"
  have 1: "push_bit 17 ?e OR push_bit 16 ?d OR push_bit 8 ?f = ?e * 131072 + ?d * 65536 + ?f * 256"
    using pack_pgn [of ?f 0 ?d ?e] by simp
  have 2: "push_bit 17 ?e OR push_bit 16 ?d OR push_bit 8 ?f OR ?s =
      ?e * 131072 + ?d * 65536 + ?f * 256 + ?s"
    by (rule pack_pgn) simp_all
  show ?thesis
    unfolding parse_j1939_id_def Let_def and_masks drop_bit_eq_div
    using 1 2 by simp
qed

lemma build_arith:
  "build_j1939_id pgn sa da prio =
     (let pf = pgn div 256 mod 256;
          low = (if pf < 240 then (case da of Some d \<Rightarrow> d | None \<Rightarrow> 255) mod 256 else pgn mod 256) in
      prio mod 8 * 67108864 + pgn div 131072 mod 2 * 33554432 + pgn div 65536 mod 2 * 16777216
        + pf * 65536 + low * 256 + sa mod 256)"
  unfolding build_j1939_id_def Let_def and_masks drop_bit_eq_div
  by (simp add: pack_id)

section \<open>Horner form\<close>

text \<open>An identifier and a PGN as nested byte strings, on which division by a power of two
  peels one digit after the other.\<close>

definition id_of :: "int \<Rightarrow> int \<Rightarrow> int \<Rightarrow> int \<Rightarrow> int \<Rightarrow> int \<Rightarrow> int" where
  "id_of p e d f s a = ((((p * 2 + e) * 2 + d) * 256 + f) * 256 + s) * 256 + a"

definition pgn_of :: "int \<Rightarrow> int \<Rightarrow> int \<Rightarrow> int \<Rightarrow> int" where
  "pgn_of e d f g = ((e * 2 + d) * 256 + f) * 256 + g"

lemma div_chain:
  "(x :: int) div 65536 = x div 256 div 256"
  "x div 16777216 = x div 256 div 256 div 256"
  "x div 33554432 = x div 256 div 256 div 256 div 2"
  "x div 67108864 = x div 256 div 256 div 256 div 2 div 2"
  "x div 131072 = x div 256 div 256 div 2"
  by (simp_all add: zdiv_zmult2_eq [symmetric])

lemma peel:
  assumes "0 \<le> r" "r < (m :: int)"
  shows "(q * m + r) div m = q" "(q * m + r) mod m = r"
  using assms by (simp_all add: div_add1_eq)

lemma id_of_digits:
  assumes "0 \<le> e" "e < 2" "0 \<le> d" "d < 2" "0 \<le> f" "f < 256" "0 \<le> s" "s < 256" "0 \<le> a" "a < 256"
    "0 \<le> p" "p < 8"
  shows "id_of p e d f s a mod 256 = a" "id_of p e d f s a div 256 mod 256 = s"
    "id_of p e d f s a div 65536 mod 256 = f" "id_of p e d f s a div 16777216 mod 2 = d"
    "id_of p e d f s a div 33554432 mod 2 = e" "id_of p e d f s a div 67108864 mod 8 = p"
proof -
  have 1: "id_of p e d f s a div 256 = (((p * 2 + e) * 2 + d) * 256 + f) * 256 + s"
    unfolding id_of_def using assms(9,10) by (rule peel(1))
  have 2: "id_of p e d f s a div 256 div 256 = ((p * 2 + e) * 2 + d) * 256 + f"
    unfolding 1 using assms(7,8) by (rule peel(1))
  have 3: "id_of p e d f s a div 256 div 256 div 256 = (p * 2 + e) * 2 + d"
    unfolding 2 using assms(5,6) by (rule peel(1))
  have 4: "id_of p e d f s a div 256 div 256 div 256 div 2 = p * 2 + e"
    unfolding 3 using assms(3,4) by (rule peel(1))
  have 5: "id_of p e d f s a div 256 div 256 div 256 div 2 div 2 = p"
    unfolding 4 using assms(1,2) by (rule peel(1))
  show "id_of p e d f s a mod 256 = a" unfolding id_of_def using assms(9,10) by (rule peel(2))
  show "id_of p e d f s a div 256 mod 256 = s" unfolding 1 using assms(7,8) by (rule peel(2))
  show "id_of p e d f s a div 65536 mod 256 = f"
    unfolding div_chain 2 using assms(5,6) by (rule peel(2))
  show "id_of p e d f s a div 16777216 mod 2 = d"
    unfolding div_chain 3 using assms(3,4) by (rule peel(2))
  show "id_of p e d f s a div 33554432 mod 2 = e"
    unfolding div_chain 4 using assms(1,2) by (rule peel(2))
  show "id_of p e d f s a div 67108864 mod 8 = p"
    unfolding div_chain 5 using assms(11,12) by simp
qed

lemma pgn_of_digits:
  assumes "0 \<le> e" "e < 2" "0 \<le> d" "d < 2" "0 \<le> f" "f < 256" "0 \<le> g" "g < 256"
  shows "pgn_of e d f g mod 256 = g" "pgn_of e d f g div 256 mod 256 = f"
    "pgn_of e d f g div 65536 mod 2 = d" "pgn_of e d f g div 131072 mod 2 = e"
    "0 \<le> pgn_of e d f g" "pgn_of e d f g < 2 ^ 18"
proof -
  have 1: "pgn_of e d f g div 256 = (e * 2 + d) * 256 + f"
    unfolding pgn_of_def using assms(7,8) by (rule peel(1))
  have 2: "pgn_of e d f g div 256 div 256 = e * 2 + d"
    unfolding 1 using assms(5,6) by (rule peel(1))
  have 3: "pgn_of e d f g div 256 div 256 div 2 = e"
    unfolding 2 using assms(3,4) by (rule peel(1))
  show "pgn_of e d f g mod 256 = g" unfolding pgn_of_def using assms(7,8) by (rule peel(2))
  show "pgn_of e d f g div 256 mod 256 = f" unfolding 1 using assms(5,6) by (rule peel(2))
  show "pgn_of e d f g div 65536 mod 2 = d"
    unfolding div_chain 2 using assms(3,4) by (rule peel(2))
  show "pgn_of e d f g div 131072 mod 2 = e" unfolding div_chain 3 using assms(1,2) by simp
  show "0 \<le> pgn_of e d f g" "pgn_of e d f g < 2 ^ 18"
    unfolding pgn_of_def using assms by simp_all
qed

lemma parse_id_of:
  assumes "0 \<le> e" "e < 2" "0 \<le> d" "d < 2" "0 \<le> f" "f < 256" "0 \<le> s" "s < 256" "0 \<le> a" "a < 256"
    "0 \<le> p" "p < 8"
  shows "parse_j1939_id (id_of p e d f s a) =
    (if f < 240 then (pgn_of e d f 0, a, Some s, p) else (pgn_of e d f s, a, None, p))"
  unfolding parse_arith Let_def id_of_digits [OF assms] by (simp add: pgn_of_def)

lemma build_pgn_of:
  assumes "0 \<le> e" "e < 2" "0 \<le> d" "d < 2" "0 \<le> f" "f < 256" "0 \<le> g" "g < 256" "0 \<le> a" "a < 256"
    "0 \<le> p" "p < 8"
  shows "build_j1939_id (pgn_of e d f g) a da p =
    id_of p e d f (if f < 240 then (case da of Some t \<Rightarrow> t | None \<Rightarrow> 255) mod 256 else g) a"
  unfolding build_arith Let_def pgn_of_digits [OF assms(1-8)]
  using assms by (simp add: id_of_def)

lemma id_of_cases:
  assumes "0 \<le> arb" "arb < 2 ^ 29"
  obtains p e d f s a where "arb = id_of p e d f s a"
    "0 \<le> e" "e < 2" "0 \<le> d" "d < 2" "0 \<le> f" "f < 256" "0 \<le> s" "s < 256" "0 \<le> a" "a < 256"
    "0 \<le> p" "p < 8"
proof -
  let ?q1 = "arb div 256"
  let ?q2 = "?q1 div 256"
  let ?q3 = "?q2 div 256"
  let ?q4 = "?q3 div 2"
  have eq: "arb = id_of (?q4 div 2) (?q4 mod 2) (?q3 mod 2) (?q2 mod 256) (?q1 mod 256) (arb mod 256)"
    by (simp add: id_of_def)
  have "?q4 div 2 = arb div 67108864" by (simp add: div_chain)
  moreover have "arb div 67108864 < 8" "0 \<le> arb div 67108864"
    using assms by (simp_all add: div_less_iff_less_mult pos_imp_zdiv_nonneg_iff)
  ultimately have p: "0 \<le> ?q4 div 2" "?q4 div 2 < 8" by linarith+
  show ?thesis
    by (rule that [OF eq _ _ _ _ _ _ _ _ _ _ p]) (rule pos_mod_sign pos_mod_bound, simp)+
qed

lemma pgn_of_cases:
  assumes "0 \<le> pgn" "pgn < 2 ^ 18"
  obtains e d f g where "pgn = pgn_of e d f g"
    "0 \<le> e" "e < 2" "0 \<le> d" "d < 2" "0 \<le> f" "f < 256" "0 \<le> g" "g < 256"
proof -
  let ?q1 = "pgn div 256"
  let ?q2 = "?q1 div 256"
  have eq: "pgn = pgn_of (?q2 div 2) (?q2 mod 2) (?q1 mod 256) (pgn mod 256)"
    by (simp add: pgn_of_def)
  have "?q2 div 2 = pgn div 131072" by (simp add: div_chain)
  moreover have "pgn div 131072 < 2" "0 \<le> pgn div 131072"
    using assms by (simp_all add: div_less_iff_less_mult pos_imp_zdiv_nonneg_iff)
  ultimately have p: "0 \<le> ?q2 div 2" "?q2 div 2 < 2" by linarith+
  show ?thesis
    by (rule that [OF eq p]) (rule pos_mod_sign pos_mod_bound, simp)+
qed

lemma id_of_range:
  assumes "0 \<le> e" "e < 2" "0 \<le> d" "d < 2" "0 \<le> f" "f < 256" "0 \<le> s" "s < 256" "0 \<le> a" "a < 256"
    "0 \<le> p" "p < 8"
  shows "0 \<le> id_of p e d f s a" "id_of p e d f s a < 2 ^ 29"
  using assms by (simp_all add: id_of_def)

section \<open>Round trips\<close>

lemma parse_range:
  assumes "0 \<le> arb" "arb < 2 ^ 29" "parse_j1939_id arb = (pgn, sa, da, prio)"
  shows "0 \<le> pgn" "pgn < 2 ^ 18" "0 \<le> sa" "sa < 256" "0 \<le> prio" "prio < 8"
    "da = Some t \<Longrightarrow> 0 \<le> t \<and> t < 256"
proof -
  obtain p e d f s a where *: "arb = id_of p e d f s a"
    and r: "0 \<le> e" "e < 2" "0 \<le> d" "d < 2" "0 \<le> f" "f < 256" "0 \<le> s" "s < 256" "0 \<le> a" "a < 256"
      "0 \<le> p" "p < 8"
    using assms(1,2) by (rule id_of_cases)
  note parsed = assms(3) [unfolded * parse_id_of [OF r]]
  show "0 \<le> pgn" "pgn < 2 ^ 18" "0 \<le> sa" "sa < 256" "0 \<le> prio" "prio < 8"
    "da = Some t \<Longrightarrow> 0 \<le> t \<and> t < 256"
    using parsed r pgn_of_digits(5,6) [OF r(1-6), of 0] pgn_of_digits(5,6) [OF r(1-8)]
    by (auto split: if_splits)
qed

lemma build_range:
  assumes "0 \<le> pgn" "pgn < 2 ^ 18" "0 \<le> sa" "sa < 256" "0 \<le> prio" "prio < 8"
  shows "0 \<le> build_j1939_id pgn sa da prio \<and> build_j1939_id pgn sa da prio < 2 ^ 29"
proof -
  obtain e d f g where *: "pgn = pgn_of e d f g"
      "0 \<le> e" "e < 2" "0 \<le> d" "d < 2" "0 \<le> f" "f < 256" "0 \<le> g" "g < 256"
    using assms(1,2) by (rule pgn_of_cases)
  then show ?thesis
    using assms id_of_range [of e d f "if f < 240 then (case da of Some t \<Rightarrow> t | None \<Rightarrow> 255) mod 256 else g" sa prio]
    by (simp add: build_pgn_of)
qed

text \<open>
  Parsing inverts building: an 18-bit PGN, an 8-bit source and a 3-bit priority come back
  from the 29-bit identifier. A destination-specific PGN (PF below 240) comes back with its
  group-extension byte cleared and the destination address in its place; a broadcast PGN comes
  back whole and with no destination.
\<close>

theorem parse_build:
  assumes "0 \<le> pgn" "pgn < 2 ^ 18" "0 \<le> sa" "sa < 256" "0 \<le> prio" "prio < 8"
    and "0 \<le> t" "t < 256"
  shows "parse_j1939_id (build_j1939_id pgn sa (Some t) prio) =
    (if pgn div 256 mod 256 < 240 then (pgn - pgn mod 256, sa, Some t, prio)
     else (pgn, sa, None, prio))"
proof -
  obtain e d f g where *: "pgn = pgn_of e d f g"
      "0 \<le> e" "e < 2" "0 \<le> d" "d < 2" "0 \<le> f" "f < 256" "0 \<le> g" "g < 256"
    using assms(1,2) by (rule pgn_of_cases)
  have "pgn_of e d f g - g = pgn_of e d f 0" by (simp add: pgn_of_def)
  then show ?thesis using * assms by (simp add: build_pgn_of parse_id_of pgn_of_digits)
qed

theorem parse_build_witness:
  "parse_j1939_id (build_j1939_id 0xEF21 0x17 (Some 0x33) 6) = (0xEF00, 0x17, Some 0x33, 6)"
  using parse_build [of "0xEF21" "0x17" 6 "0x33"] by simp

text \<open>
  Building inverts parsing: every 29-bit identifier is rebuilt exactly from the PGN, source,
  destination and priority that \<open>parse_j1939_id\<close> reads from it, so no bit (EDP and DP
  included) is lost.
\<close>

theorem build_parse:
  assumes "0 \<le> arb" "arb < 2 ^ 29" and "parse_j1939_id arb = (pgn, sa, da, prio)"
  shows "build_j1939_id pgn sa da prio = arb"
proof -
  obtain p e d f s a where *: "arb = id_of p e d f s a"
      "0 \<le> e" "e < 2" "0 \<le> d" "d < 2" "0 \<le> f" "f < 256" "0 \<le> s" "s < 256" "0 \<le> a" "a < 256"
      "0 \<le> p" "p < 8"
    using assms(1,2) by (rule id_of_cases)
  then show ?thesis
    using assms(3) by (cases "f < 240") (auto simp: parse_id_of build_pgn_of)
qed

theorem build_parse_witness:
  "build_j1939_id 0x3EF00 0x17 (Some 0x33) 6 = 0x1BEF3317"
  using build_parse [of "0x1BEF3317" "0x3EF00" "0x17" "Some 0x33" 6]
  by (simp add: parse_arith)

end
