(* ===== verification/RateGate.thy ===== *)
theory RateGate
  imports PyDict
begin

text \<open>
  The burst gate that two protocol engines implement with the same contract:
  \<open>Nmea2000FastPacketDecoder._check_restart_rate_limit\<close> and
  \<open>J1939TransportProtocol._check_prefix_collision_rate\<close>. Each keeps, per key, a mark
  [window start, count]; the interface \<open>rate_gate\<close> states the four cases of a call, and the
  bound on how often a key may pass within one window is proved from them once.
\<close>

type_synonym 'k marks = "('k, seconds \<times> int) dict"

text \<open>A run of calls for one key: how many pass, and the marks left behind.\<close>

fun gate_run ::
  "('k marks \<Rightarrow> 'k \<Rightarrow> seconds \<Rightarrow> bool \<times> 'k marks) \<Rightarrow> 'k marks \<Rightarrow> 'k \<Rightarrow> seconds list \<Rightarrow> nat \<times> 'k marks"
  where
  "gate_run gate m k [] = (0, m)"
| "gate_run gate m k (t # ts) =
     (case gate m k t of (ok, m') \<Rightarrow>
       (case gate_run gate m' k ts of (n, m'') \<Rightarrow> ((if ok then Suc n else n), m'')))"

locale rate_gate =
  fixes gate :: "'k marks \<Rightarrow> 'k \<Rightarrow> seconds \<Rightarrow> bool \<times> 'k marks"
    and window :: seconds
    and burst :: int
  assumes fresh: "dget m k = None \<Longrightarrow> gate m k now = (True, dset k (now, 1) m)"
    and rollover: "dget m k = Some (w, c) \<Longrightarrow> now - w > window \<Longrightarrow>
      gate m k now = (True, dset k (now, 1) m)"
    and exhausted: "dget m k = Some (w, c) \<Longrightarrow> \<not> now - w > window \<Longrightarrow> c \<ge> burst \<Longrightarrow>
      gate m k now = (False, m)"
    and spend: "dget m k = Some (w, c) \<Longrightarrow> \<not> now - w > window \<Longrightarrow> \<not> c \<ge> burst \<Longrightarrow>
      gate m k now = (True, dset k (w, c + 1) m)"
    and burst_pos: "1 \<le> burst"
begin

lemma gate_cases:
  obtains (Fresh) "dget m k = None" "gate m k now = (True, dset k (now, 1) m)"
  | (Rollover) w c where "dget m k = Some (w, c)" "now - w > window"
      "gate m k now = (True, dset k (now, 1) m)"
  | (Exhausted) w c where "dget m k = Some (w, c)" "\<not> now - w > window" "c \<ge> burst"
      "gate m k now = (False, m)"
  | (Spend) w c where "dget m k = Some (w, c)" "\<not> now - w > window" "c < burst"
      "gate m k now = (True, dset k (w, c + 1) m)"
proof (cases "dget m k")
  case None
  then show ?thesis using fresh Fresh by blast
next
  case (Some wc)
  obtain w c where wc: "wc = (w, c)" by (cases wc)
  note Some' = Some [unfolded wc]
  show ?thesis
    using Some' rollover [OF Some', of now] exhausted [OF Some', of now] spend [OF Some', of now]
      Rollover Exhausted Spend by (meson not_le_imp_less)
qed

lemma gate_frame: "snd (gate m k now) = m' \<Longrightarrow> k' \<noteq> k \<Longrightarrow> dget m' k' = dget m k'"
  by (rule gate_cases [of m k now]) auto

lemma gate_wf: "dwf m \<Longrightarrow> dwf (snd (gate m k now))"
  by (rule gate_cases [of m k now]) (auto intro: dict.wf_store)

text \<open>The count of a mark never passes the burst.\<close>

definition marks_ok :: "'k marks \<Rightarrow> bool" where
  "marks_ok m \<longleftrightarrow> dall (\<lambda>k (w, c). 1 \<le> c \<and> c \<le> burst) m"

lemma gate_marks_ok: "marks_ok m \<Longrightarrow> marks_ok (snd (gate m k now))"
proof (rule gate_cases [of m k now])
  fix w c
  assume ok: "marks_ok m" and mk: "dget m k = Some (w, c)" and lt: "c < burst"
    and eq: "gate m k now = (True, dset k (w, c + 1) m)"
  from ok mk have "1 \<le> c" by (auto simp: marks_ok_def dest: dallD)
  with ok lt show ?thesis by (auto simp: eq marks_ok_def intro: dall_dset)
qed (use burst_pos in \<open>auto simp: marks_ok_def intro: dall_dset\<close>)

lemma marks_ok_dpop_all: "marks_ok m \<Longrightarrow> marks_ok (dpop_all ks m)"
  by (simp add: marks_ok_def dall_dpop_all)

lemma marks_ok_Nil: "marks_ok []"
  by (simp add: marks_ok_def)

lemma gate_denied_unchanged: "fst (gate m k now) = False \<Longrightarrow> snd (gate m k now) = m"
  by (rule gate_cases [of m k now]) auto

text \<open>Within the window of a mark, what is left of the burst bounds the calls that pass, and
  every call beyond it is refused.\<close>

lemma gate_run_spend:
  assumes "dget m k = Some (w, c)" and "c \<le> burst" and "\<And>t. t \<in> set ts \<Longrightarrow> \<not> t - w > window"
  shows "int (fst (gate_run gate m k ts)) = min (int (length ts)) (burst - c)"
  using assms
proof (induction ts arbitrary: m c)
  case (Cons t ts)
  have t: "\<not> t - w > window" using Cons.prems(3) by simp
  show ?case
  proof (cases "c \<ge> burst")
    case True
    then show ?thesis
      using Cons.prems Cons.IH [of m c] exhausted [OF Cons.prems(1) t True]
      by (auto split: prod.splits)
  next
    case False
    define m' where "m' = dset k (w, c + 1) m"
    have "dget m' k = Some (w, c + 1)" by (simp add: m'_def)
    then have "int (fst (gate_run gate m' k ts)) = min (int (length ts)) (burst - (c + 1))"
      using Cons.prems(3) False by (intro Cons.IH) auto
    moreover have "gate m k t = (True, m')"
      unfolding m'_def by (rule spend [OF Cons.prems(1) t False])
    ultimately show ?thesis using False by (auto split: prod.splits)
  qed
qed simp

lemma gate_burst_bound:
  assumes "dget m k = None" and "\<And>t. t \<in> set ts \<Longrightarrow> \<not> t - t0 > window"
  shows "int (fst (gate_run gate m k (t0 # ts))) = min (int (length (t0 # ts))) burst"
proof -
  define m' where "m' = dset k (t0, 1) m"
  have "dget m' k = Some (t0, 1)" by (simp add: m'_def)
  then have "int (fst (gate_run gate m' k ts)) = min (int (length ts)) (burst - 1)"
    using assms(2) burst_pos by (intro gate_run_spend)
  moreover have "gate m k t0 = (True, m')" unfolding m'_def by (rule fresh [OF assms(1)])
  ultimately show ?thesis by (auto split: prod.splits)
qed

end

end
