(* ===== verification/FastPacket.thy ===== *)
theory FastPacket
  imports J1939Id RateGate
begin

text \<open>
  \<open>src/protocols/nmea2000/fast_packet.py\<close>: the NMEA 2000 Fast Packet reassembler
  \<open>Nmea2000FastPacketDecoder\<close>. Its state is the session table and the restart marks;
  \<open>handle_rx_frame\<close> takes the state, the frame and \<open>time.monotonic()\<close>, and returns the new
  state and the completed message, if any. The lock makes each call atomic and logging has no
  effect on the state, so neither appears.
\<close>

section \<open>State\<close>

text \<open>The PGNs that use Fast Packet framing, in the source's order.\<close>

definition FAST_PACKET_PGNS :: "int list" where
  "FAST_PACKET_PGNS =
    [126208, 126464, 126720, 126983, 126984, 126985, 126986, 126987, 126988,
     126996, 126998, 127233, 127237, 127489, 127490, 127491, 127494, 127495,
     127496, 127497, 127498, 127503, 127504, 127506, 127507, 127509, 127510,
     127511, 127512, 127513, 127514, 128275, 128520, 128538, 129029, 129038,
     129039, 129040, 129041, 129044, 129045, 129284, 129285, 129301, 129302,
     129538, 129540, 129541, 129542, 129545, 129547, 129549, 129551, 129556,
     129792, 129793, 129794, 129795, 129796, 129797, 129798, 129799, 129800,
     129801, 129802, 129803, 129804, 129805, 129806, 129807, 129808, 129809,
     129810, 129811, 129812, 129813, 129814, 129815, 129816, 130052, 130053,
     130054, 130060, 130061, 130064, 130065, 130066, 130067, 130068, 130069,
     130070, 130071, 130072, 130073, 130074, 130320, 130321, 130322, 130323,
     130324, 130329, 130330, 130561, 130562, 130563, 130564, 130565, 130566,
     130567, 130568, 130569, 130570, 130571, 130572, 130573, 130574, 130575,
     130577, 130578, 130580, 130581, 130583, 130584, 130586, 130816, 130817,
     130818, 130819, 130820, 130821, 130822, 130823, 130824, 130825, 130826,
     130827, 130828, 130829, 130830, 130831, 130832, 130833, 130834, 130835,
     130836, 130837, 130838, 130839, 130840, 130841, 130842, 130843, 130844,
     130845, 130846, 130847, 130848, 130849, 130850, 130851, 130852, 130856,
     130860, 130880, 130881, 130900, 130910, 130911, 130912, 130913, 130918,
     130921, 130939, 130944, 130945, 130946, 130947, 130951, 131008, 131011,
     131012]"

record fp_session =
  fps_source_address :: int
  fps_pgn :: int
  fps_sequence_id :: int
  fps_total_bytes :: int
  fps_destination_address :: int
  fps_expected_frame_index :: int
  fps_received_bytes :: bytes
  fps_last_activity_time :: seconds
  fps_channel_id :: string

record n2k_message =
  n2k_source_address :: int
  n2k_pgn :: int
  n2k_data :: bytes
  n2k_timestamp_ns :: int
  n2k_channel_id :: string
  n2k_destination_address :: int

text \<open>(source, effective destination, PGN, sequence id, channel)\<close>

type_synonym fp_key = "int \<times> int \<times> int \<times> int \<times> string"

record fp_decoder =
  fp_sessions :: "(fp_key, fp_session) dict"
  fp_restart_marks :: "(int \<times> int \<times> int) marks"

definition TIMEOUT_SEC :: seconds where "TIMEOUT_SEC = 1 / 2"
definition MAX_CONCURRENT :: nat where "MAX_CONCURRENT = 256"
definition MAX_PER_SA :: nat where "MAX_PER_SA = 32"
definition RESTART_RATE_LIMIT_S :: seconds where "RESTART_RATE_LIMIT_S = 1 / 20"
definition RESTART_BURST :: int where "RESTART_BURST = 4"

lemmas fp_limits = TIMEOUT_SEC_def MAX_CONCURRENT_def MAX_PER_SA_def
  RESTART_RATE_LIMIT_S_def RESTART_BURST_def

definition fp_init :: fp_decoder where
  "fp_init = \<lparr>fp_sessions = [], fp_restart_marks = []\<rparr>"

section \<open>Operations\<close>

definition check_restart_rate_limit ::
  "(int \<times> int \<times> int) marks \<Rightarrow> (int \<times> int \<times> int) \<Rightarrow> seconds \<Rightarrow> bool \<times> (int \<times> int \<times> int) marks" where
  "check_restart_rate_limit marks key now =
     (case dget marks key of
        None \<Rightarrow> (True, dset key (now, 1) marks)
      | Some (window_start, count) \<Rightarrow>
          if now - window_start > RESTART_RATE_LIMIT_S then (True, dset key (now, 1) marks)
          else if count \<ge> RESTART_BURST then (False, marks)
          else (True, dset key (window_start, count + 1) marks))"

definition fp_clean_marks ::
  "(int \<times> int \<times> int) marks \<Rightarrow> seconds \<Rightarrow> (int \<times> int \<times> int) marks" where
  "fp_clean_marks marks now =
     (let kept = dpop_all
            (dkeys_where (\<lambda>k (start, c). now - start > max TIMEOUT_SEC 1) marks) marks in
      if length kept > MAX_CONCURRENT * 2
      then dpop_all (take (length kept - MAX_CONCURRENT * 2) (dkeys kept)) kept
      else kept)"

definition fp_clean_expired :: "fp_decoder \<Rightarrow> seconds \<Rightarrow> fp_decoder" where
  "fp_clean_expired d now = d\<lparr>
     fp_sessions := dpop_all
       (dkeys_where (\<lambda>k s. now - fps_last_activity_time s > TIMEOUT_SEC) (fp_sessions d))
       (fp_sessions d),
     fp_restart_marks := fp_clean_marks (fp_restart_marks d) now\<rparr>"

text \<open>The session a first frame opens.\<close>

definition fp_new_session :: "can_frame \<Rightarrow> int \<Rightarrow> int \<Rightarrow> int \<Rightarrow> int \<Rightarrow> seconds \<Rightarrow> fp_session" where
  "fp_new_session frame seq sa da pgn now =
     \<lparr>fps_source_address = sa, fps_pgn = pgn, fps_sequence_id = seq,
      fps_total_bytes = byte_at (frame_data frame) 1, fps_destination_address = da,
      fps_expected_frame_index = 1,
      fps_received_bytes = py_slice (frame_data frame) 2 8,
      fps_last_activity_time = now, fps_channel_id = frame_channel_id frame\<rparr>"

text \<open>The first frame, once a stale session under its key is gone: length, width, per-source
  quota and table cap are checked in this order.\<close>

definition fp_open_session ::
  "fp_decoder \<Rightarrow> can_frame \<Rightarrow> int \<Rightarrow> int \<Rightarrow> int \<Rightarrow> int \<Rightarrow> fp_key \<Rightarrow> seconds \<Rightarrow> fp_decoder" where
  "fp_open_session d frame seq sa da pgn key now =
     (let total_bytes = byte_at (frame_data frame) 1; tab = fp_sessions d in
      if \<not> (9 \<le> total_bytes \<and> total_bytes \<le> 223) then d
      else if length (frame_data frame) \<noteq> 8 then d
      else if dget tab key = None
        \<and> length (filter (\<lambda>k. fst k = sa) (dkeys tab)) \<ge> MAX_PER_SA then d
      else
        let room =
              (if dget tab key = None then make_room MAX_CONCURRENT fps_last_activity_time tab
               else tab)
        in d\<lparr>fp_sessions := dset key (fp_new_session frame seq sa da pgn now) room\<rparr>)"

definition fp_first_frame ::
  "fp_decoder \<Rightarrow> can_frame \<Rightarrow> int \<Rightarrow> int \<Rightarrow> int \<Rightarrow> int \<Rightarrow> fp_key \<Rightarrow> seconds \<Rightarrow> fp_decoder" where
  "fp_first_frame d frame seq sa da pgn key now =
     (case dget (fp_sessions d) key of
        None \<Rightarrow> fp_open_session d frame seq sa da pgn key now
      | Some stale \<Rightarrow>
          (case check_restart_rate_limit (fp_restart_marks d) (sa, pgn, seq) now of
             (ok, marks) \<Rightarrow>
               if \<not> ok then d\<lparr>fp_restart_marks := marks\<rparr>
               else fp_open_session
                 (d\<lparr>fp_restart_marks := marks, fp_sessions := dpop key (fp_sessions d)\<rparr>)
                 frame seq sa da pgn key now))"

definition fp_consecutive_frame ::
  "fp_decoder \<Rightarrow> can_frame \<Rightarrow> int \<Rightarrow> fp_key \<Rightarrow> seconds \<Rightarrow> fp_decoder \<times> n2k_message option" where
  "fp_consecutive_frame d frame frame_index key now =
     (case dget (fp_sessions d) key of
        None \<Rightarrow> (d, None)
      | Some s \<Rightarrow>
          let dropped = d\<lparr>fp_sessions := dpop key (fp_sessions d)\<rparr>;
              n = length (frame_data frame) in
          if fps_channel_id s \<noteq> frame_channel_id frame then (dropped, None)
          else if frame_index \<noteq> fps_expected_frame_index s then (dropped, None)
          else if n \<noteq> 8 \<and> int (length (fps_received_bytes s)) + 7 < fps_total_bytes s
            then (dropped, None)
          else
            let payload = py_slice (frame_data frame) 1 8;
                needed = fps_total_bytes s - int (length (fps_received_bytes s));
                s' = s\<lparr>fps_received_bytes := fps_received_bytes s @ py_prefix payload needed,
                       fps_expected_frame_index := fps_expected_frame_index s + 1,
                       fps_last_activity_time := now\<rparr> in
            if int (length (fps_received_bytes s')) \<ge> fps_total_bytes s'
            then (dropped, Some
              \<lparr>n2k_source_address = fps_source_address s', n2k_pgn = fps_pgn s',
               n2k_data = py_prefix (fps_received_bytes s') (fps_total_bytes s'),
               n2k_timestamp_ns = frame_timestamp_ns frame,
               n2k_channel_id = frame_channel_id frame,
               n2k_destination_address = fps_destination_address s'\<rparr>)
            else (d\<lparr>fp_sessions := dset key s' (fp_sessions d)\<rparr>, None))"

definition fp_handle_locked ::
  "fp_decoder \<Rightarrow> can_frame \<Rightarrow> int \<Rightarrow> int \<Rightarrow> int \<Rightarrow> int \<Rightarrow> int \<Rightarrow> fp_key \<Rightarrow> seconds \<Rightarrow>
   fp_decoder \<times> n2k_message option" where
  "fp_handle_locked d frame frame_index seq sa da pgn key now =
     (if frame_index = 0 then (fp_first_frame d frame seq sa da pgn key now, None)
      else fp_consecutive_frame d frame frame_index key now)"

definition fp_handle_rx_frame ::
  "fp_decoder \<Rightarrow> can_frame \<Rightarrow> seconds \<Rightarrow> fp_decoder \<times> n2k_message option" where
  "fp_handle_rx_frame d frame now =
     (if \<not> frame_is_extended frame \<or> length (frame_data frame) < 2 then (d, None)
      else if frame_is_fd frame \<or> frame_dlc frame > 8 then (d, None)
      else if frame_dlc frame \<noteq> int (length (frame_data frame)) \<or> frame_dlc frame > 8
        then (d, None)
      else (case parse_j1939_id (frame_arbitration_id frame) of (pgn, sa, da, priority) \<Rightarrow>
        if pgn < 65536 then (d, None)
        else if pgn \<notin> set FAST_PACKET_PGNS then (d, None)
        else
          let header_byte = byte_at (frame_data frame) 0;
              sequence_id = drop_bit 5 header_byte AND 0x07;
              frame_index = header_byte AND 0x1F;
              pf = drop_bit 8 pgn AND 0xFF;
              effective_da = (case da of Some t \<Rightarrow> if pf < 240 then t else 0xFF | None \<Rightarrow> 0xFF);
              session_key = (sa, effective_da, pgn, sequence_id, frame_channel_id frame)
          in fp_handle_locked (fp_clean_expired d now) frame frame_index sequence_id sa
               effective_da pgn session_key now))"


section \<open>The restart gate\<close>

interpretation restart: rate_gate check_restart_rate_limit RESTART_RATE_LIMIT_S RESTART_BURST
  by unfold_locales (simp_all add: check_restart_rate_limit_def RESTART_BURST_def)

section \<open>Invariant\<close>

text \<open>A session agrees with its key, declares a legal length, and is not yet complete.\<close>

definition fp_session_ok :: "fp_key \<Rightarrow> fp_session \<Rightarrow> bool" where
  "fp_session_ok k s \<longleftrightarrow>
     k = (fps_source_address s, fps_destination_address s, fps_pgn s, fps_sequence_id s,
          fps_channel_id s) \<and>
     fps_pgn s \<in> set FAST_PACKET_PGNS \<and>
     9 \<le> fps_total_bytes s \<and> fps_total_bytes s \<le> 223 \<and> 1 \<le> fps_expected_frame_index s \<and>
     6 \<le> length (fps_received_bytes s) \<and>
     int (length (fps_received_bytes s)) < fps_total_bytes s"

definition fp_table_ok :: "(fp_key, fp_session) dict \<Rightarrow> bool" where
  "fp_table_ok tab \<longleftrightarrow>
     dwf tab \<and> length tab \<le> MAX_CONCURRENT \<and> dquota fst MAX_PER_SA tab \<and> dall fp_session_ok tab"

definition fp_marks_ok :: "nat \<Rightarrow> (int \<times> int \<times> int) marks \<Rightarrow> bool" where
  "fp_marks_ok n m \<longleftrightarrow> dwf m \<and> restart.marks_ok m \<and> length m \<le> n"

definition fp_inv :: "fp_decoder \<Rightarrow> bool" where
  "fp_inv d \<longleftrightarrow> fp_table_ok (fp_sessions d) \<and> fp_marks_ok (MAX_CONCURRENT * 2 + 1) (fp_restart_marks d)"

lemma fp_inv_init: "fp_inv fp_init"
  by (simp add: fp_inv_def fp_init_def fp_table_ok_def fp_marks_ok_def restart.marks_ok_Nil)

lemma fp_table_ok_pop [inv_intro]: "fp_table_ok tab \<Longrightarrow> fp_table_ok (dpop k tab)"
  using AList.length_delete_le [of k tab]
  by (auto simp: fp_table_ok_def intro: dict.wf_discard dquota_dpop dall_dpop)

lemma fp_table_ok_pop_all [inv_intro]: "fp_table_ok tab \<Longrightarrow> fp_table_ok (dpop_all ks tab)"
  by (induction ks arbitrary: tab) (simp_all add: fp_table_ok_pop)

lemma fp_table_ok_replace:
  "fp_table_ok tab \<Longrightarrow> k \<in> dom (dget tab) \<Longrightarrow> fp_session_ok k s \<Longrightarrow> fp_table_ok (dset k s tab)"
  unfolding fp_table_ok_def
  by (simp only: length_dset_old dict.wf_store dquota_dset_old dall_dset)

lemma fp_table_ok_add:
  assumes "fp_table_ok tab" "k \<notin> dom (dget tab)" "fp_session_ok k s" "length tab < MAX_CONCURRENT"
    and "length (filter (\<lambda>k'. fst k' = fst k) (dkeys tab)) < MAX_PER_SA"
  shows "fp_table_ok (dset k s tab)"
  using assms unfolding fp_table_ok_def
  by (blast intro: dict.wf_store dall_dset dquota_dset_new length_dset_new [THEN eq_refl, THEN order_trans] Suc_leI)

lemma fp_marks_ok_pop_all: "fp_marks_ok n m \<Longrightarrow> fp_marks_ok n (dpop_all ks m)"
  using length_dpop_all_le [of ks m]
  by (simp add: fp_marks_ok_def restart.marks_ok_dpop_all)

lemma fp_marks_ok_gate:
  assumes "fp_marks_ok n m"
  shows "fp_marks_ok (Suc n) (snd (check_restart_rate_limit m k now))"
proof -
  have "length (snd (check_restart_rate_limit m k now)) \<le> Suc (length m)"
    by (rule restart.gate_cases [of m k now]) (simp_all add: length_dset_le)
  then show ?thesis
    using assms by (simp add: fp_marks_ok_def restart.gate_wf restart.gate_marks_ok)
qed

lemma fp_clean_marks_ok:
  assumes "fp_marks_ok n m"
  shows "fp_marks_ok (MAX_CONCURRENT * 2) (fp_clean_marks m now)"
proof -
  define kept where
    "kept = dpop_all (dkeys_where (\<lambda>k (start, c). now - start > max TIMEOUT_SEC 1) m) m"
  have kept: "fp_marks_ok n kept" unfolding kept_def by (rule fp_marks_ok_pop_all [OF assms])
  define old where "old = take (length kept - MAX_CONCURRENT * 2) (dkeys kept)"
  have "fp_marks_ok n (dpop_all old kept)" by (rule fp_marks_ok_pop_all [OF kept])
  moreover have "length (dpop_all old kept) \<le> MAX_CONCURRENT * 2"
    if "length kept > MAX_CONCURRENT * 2"
    using kept that by (simp add: old_def dpop_all_take fp_marks_ok_def)
  ultimately show ?thesis
    using kept unfolding fp_clean_marks_def kept_def [symmetric] old_def [symmetric] Let_def
    by (auto simp: fp_marks_ok_def)
qed


lemma fp_clean_expired_marks:
  "fp_restart_marks (fp_clean_expired d now) = fp_clean_marks (fp_restart_marks d) now"
  by (simp add: fp_clean_expired_def)

lemma fp_clean_expired_sessions:
  "fp_sessions (fp_clean_expired d now) =
     dpop_all (dkeys_where (\<lambda>k s. now - fps_last_activity_time s > TIMEOUT_SEC) (fp_sessions d))
       (fp_sessions d)"
  by (simp add: fp_clean_expired_def)

lemma fp_clean_inv [inv_intro]: "fp_inv d \<Longrightarrow> fp_inv (fp_clean_expired d now)"
  using fp_clean_marks_ok [of "MAX_CONCURRENT * 2 + 1" "fp_restart_marks d" now]
  by (simp add: fp_inv_def fp_clean_expired_def fp_table_ok_pop_all fp_marks_ok_def)

lemma fp_clean_marks_512:
  "fp_inv d \<Longrightarrow> fp_marks_ok (MAX_CONCURRENT * 2) (fp_restart_marks (fp_clean_expired d now))"
  unfolding fp_clean_expired_marks
  by (rule fp_clean_marks_ok [of "MAX_CONCURRENT * 2 + 1"]) (simp add: fp_inv_def)

lemma fp_table_ok_room [inv_intro]:
  "fp_table_ok tab \<Longrightarrow> fp_table_ok (make_room cap age tab)"
  unfolding make_room_def by (simp add: fp_table_ok_pop split: option.split)

lemma fp_open_cases:
  obtains (Rejected) "fp_open_session d frame seq sa da pgn key now = d"
  | (Opened) room where "9 \<le> byte_at (frame_data frame) 1" "byte_at (frame_data frame) 1 \<le> 223"
      "length (frame_data frame) = 8"
      "dget (fp_sessions d) key = None \<Longrightarrow>
        length (filter (\<lambda>k. fst k = sa) (dkeys (fp_sessions d))) < MAX_PER_SA"
      "room = (if dget (fp_sessions d) key = None
        then make_room MAX_CONCURRENT fps_last_activity_time (fp_sessions d) else fp_sessions d)"
      "fp_open_session d frame seq sa da pgn key now =
        d\<lparr>fp_sessions := dset key (fp_new_session frame seq sa da pgn now) room\<rparr>"
proof (cases "(9 \<le> byte_at (frame_data frame) 1 \<and> byte_at (frame_data frame) 1 \<le> 223) \<and>
    length (frame_data frame) = 8 \<and> \<not> (dget (fp_sessions d) key = None \<and>
      length (filter (\<lambda>k. fst k = sa) (dkeys (fp_sessions d))) \<ge> MAX_PER_SA)")
  case True
  show ?thesis
    by (rule Opened [OF _ _ _ _ refl])
      (use True in \<open>auto simp: fp_open_session_def Let_def simp del: filter_map\<close>)
next
  case False
  then show ?thesis
    by (intro Rejected) (auto simp: fp_open_session_def Let_def simp del: filter_map)
qed

lemma fp_open_table:
  assumes tab: "fp_table_ok (fp_sessions d)"
    and key: "key = (sa, da, pgn, seq, frame_channel_id frame)" "pgn \<in> set FAST_PACKET_PGNS"
  shows "fp_table_ok (fp_sessions (fp_open_session d frame seq sa da pgn key now))"
proof (cases rule: fp_open_cases [of d frame seq sa da pgn key now])
  case (Opened room)
  have s: "fp_session_ok key (fp_new_session frame seq sa da pgn now)"
    using Opened(1-3) by (simp add: fp_session_ok_def py_slice_def fp_new_session_def key)
  have "fp_table_ok (dset key (fp_new_session frame seq sa da pgn now) room)"
  proof (cases "dget (fp_sessions d) key = None")
    case False
    then show ?thesis using Opened(5) fp_table_ok_replace [OF tab _ s] by auto
  next
    case True
    have wf: "dwf (fp_sessions d)" and len: "length (fp_sessions d) \<le> MAX_CONCURRENT"
      using tab by (simp_all add: fp_table_ok_def)
    have room: "room = make_room MAX_CONCURRENT fps_last_activity_time (fp_sessions d)"
      using True Opened(5) by simp
    show ?thesis
    proof (rule fp_table_ok_add [OF _ _ s])
      show "fp_table_ok room" unfolding room by (rule fp_table_ok_room [OF tab])
      show "key \<notin> dom (dget room)" using True make_room_dget unfolding room by fastforce
      show "length room < MAX_CONCURRENT"
        unfolding room by (rule make_room_size [OF wf len]) (simp add: MAX_CONCURRENT_def)
      show "length (filter (\<lambda>k'. fst k' = fst key) (dkeys room)) < MAX_PER_SA"
        unfolding room using Opened(4) [OF True] make_room_count [OF wf] le_less_trans
        by (simp add: key del: filter_map) blast
    qed
  qed
  then show ?thesis using Opened(6) by simp
qed (use tab in simp)


lemma fp_open_marks [simp]:
  "fp_restart_marks (fp_open_session d frame seq sa da pgn key now) = fp_restart_marks d"
  by (rule fp_open_cases [of d frame seq sa da pgn key now]) simp_all

lemma fp_first_inv:
  assumes "fp_table_ok (fp_sessions d)" "fp_marks_ok (MAX_CONCURRENT * 2) (fp_restart_marks d)"
    and key: "key = (sa, da, pgn, seq, frame_channel_id frame)" "pgn \<in> set FAST_PACKET_PGNS"
  shows "fp_inv (fp_first_frame d frame seq sa da pgn key now)"
proof (cases "dget (fp_sessions d) key")
  case None
  then show ?thesis
    using assms(2) fp_open_table [OF assms(1) key, of now]
    by (simp add: fp_first_frame_def fp_inv_def fp_marks_ok_def)
next
  case (Some stale)
  obtain ok marks where gate: "check_restart_rate_limit (fp_restart_marks d) (sa, pgn, seq) now = (ok, marks)"
    by (cases "check_restart_rate_limit (fp_restart_marks d) (sa, pgn, seq) now")
  have marks: "fp_marks_ok (MAX_CONCURRENT * 2 + 1) marks"
    using fp_marks_ok_gate [OF assms(2), of "(sa, pgn, seq)" now] by (simp add: gate)
  show ?thesis
  proof (cases ok)
    case True
    let ?d = "d\<lparr>fp_restart_marks := marks, fp_sessions := dpop key (fp_sessions d)\<rparr>"
    have "fp_table_ok (fp_sessions ?d)" using fp_table_ok_pop [OF assms(1)] by simp
    from fp_open_table [OF this key, of now] show ?thesis
      using Some gate True marks by (simp add: fp_first_frame_def fp_inv_def)
  next
    case False
    then show ?thesis using Some gate marks assms(1) by (simp add: fp_first_frame_def fp_inv_def)
  qed
qed

text \<open>The three outcomes of a consecutive frame whose session exists.\<close>

lemma fp_consec_cases:
  assumes s: "dget (fp_sessions d) key = Some s"
  obtains (Dropped) "fp_consecutive_frame d frame idx key now =
        (d\<lparr>fp_sessions := dpop key (fp_sessions d)\<rparr>, None)"
  | (Done) s' where
      "s' = s\<lparr>fps_received_bytes := fps_received_bytes s @ py_prefix (py_slice (frame_data frame) 1 8)
                 (fps_total_bytes s - int (length (fps_received_bytes s))),
              fps_expected_frame_index := fps_expected_frame_index s + 1,
              fps_last_activity_time := now\<rparr>"
      "int (length (fps_received_bytes s')) \<ge> fps_total_bytes s"
      "fps_channel_id s = frame_channel_id frame" "idx = fps_expected_frame_index s"
      "fp_consecutive_frame d frame idx key now =
        (d\<lparr>fp_sessions := dpop key (fp_sessions d)\<rparr>, Some
          \<lparr>n2k_source_address = fps_source_address s, n2k_pgn = fps_pgn s,
           n2k_data = py_prefix (fps_received_bytes s') (fps_total_bytes s),
           n2k_timestamp_ns = frame_timestamp_ns frame, n2k_channel_id = frame_channel_id frame,
           n2k_destination_address = fps_destination_address s\<rparr>)"
  | (More) s' where
      "s' = s\<lparr>fps_received_bytes := fps_received_bytes s @ py_prefix (py_slice (frame_data frame) 1 8)
                 (fps_total_bytes s - int (length (fps_received_bytes s))),
              fps_expected_frame_index := fps_expected_frame_index s + 1,
              fps_last_activity_time := now\<rparr>"
      "int (length (fps_received_bytes s')) < fps_total_bytes s"
      "fp_consecutive_frame d frame idx key now =
        (d\<lparr>fp_sessions := dset key s' (fp_sessions d)\<rparr>, None)"
proof -
  define s' where
    "s' = s\<lparr>fps_received_bytes := fps_received_bytes s @ py_prefix (py_slice (frame_data frame) 1 8)
                 (fps_total_bytes s - int (length (fps_received_bytes s))),
            fps_expected_frame_index := fps_expected_frame_index s + 1,
            fps_last_activity_time := now\<rparr>"
  note unfold = fp_consecutive_frame_def s option.case Let_def s'_def [symmetric]
  show thesis
  proof (cases "fps_channel_id s \<noteq> frame_channel_id frame \<or> idx \<noteq> fps_expected_frame_index s \<or>
      length (frame_data frame) \<noteq> 8 \<and> int (length (fps_received_bytes s)) + 7 < fps_total_bytes s")
    case True
    then show thesis by (intro Dropped) (auto simp: unfold)
  next
    case False
    show thesis
    proof (cases "int (length (fps_received_bytes s')) \<ge> fps_total_bytes s")
      case True
      show thesis
        by (rule Done [OF s'_def True])
          (use False True in \<open>simp_all add: unfold del: py_prefix_take\<close>, auto simp: s'_def)
    next
      case more: False
      show thesis
        by (rule More [OF s'_def])
          (use False more in \<open>simp_all add: unfold del: py_prefix_take\<close>, auto simp: s'_def simp del: py_prefix_take)
    qed
  qed
qed

lemma fp_consec_inv:
  assumes "fp_inv d"
  shows "fp_inv (fst (fp_consecutive_frame d frame idx key now))"
proof (cases "dget (fp_sessions d) key")
  case None
  then show ?thesis using assms by (simp add: fp_consecutive_frame_def)
next
  case (Some s)
  from assms have tab: "fp_table_ok (fp_sessions d)" by (simp add: fp_inv_def)
  have s: "fp_session_ok key s"
    using tab Some by (auto simp: fp_table_ok_def dest: dallD)
  from Some show ?thesis
  proof (cases rule: fp_consec_cases [where frame = frame and idx = idx and now = now])
    case (More s')
    have "fp_session_ok key s'"
      using s More(2) by (auto simp: fp_session_ok_def More(1))
    then show ?thesis
      using assms fp_table_ok_replace [OF tab, of key s'] Some More(3) by (auto simp: fp_inv_def)
  qed (use assms in \<open>simp_all add: fp_inv_def fp_table_ok_pop\<close>)
qed

text \<open>The session key the decoder files a frame under.\<close>

definition fp_frame_key :: "can_frame \<Rightarrow> fp_key" where
  "fp_frame_key frame =
     (case parse_j1939_id (frame_arbitration_id frame) of (pgn, sa, da, priority) \<Rightarrow>
       (sa, (case da of Some t \<Rightarrow> if drop_bit 8 pgn AND 0xFF < 240 then t else 0xFF | None \<Rightarrow> 0xFF),
        pgn, drop_bit 5 (byte_at (frame_data frame) 0) AND 0x07, frame_channel_id frame))"

text \<open>A frame is ignored, or filed under its key.\<close>

definition fp_relevant :: "can_frame \<Rightarrow> bool" where
  "fp_relevant frame \<longleftrightarrow> frame_is_extended frame \<and> 2 \<le> length (frame_data frame) \<and>
     \<not> frame_is_fd frame \<and> frame_dlc frame \<le> 8 \<and>
     frame_dlc frame = int (length (frame_data frame)) \<and>
     pgn_from_id (frame_arbitration_id frame) \<in> set FAST_PACKET_PGNS"

lemma fast_packet_pgn_range: "pgn \<in> set FAST_PACKET_PGNS \<Longrightarrow> 65536 \<le> pgn"
proof -
  have "list_all (\<lambda>p. 65536 \<le> p) FAST_PACKET_PGNS" by code_simp
  then show "pgn \<in> set FAST_PACKET_PGNS \<Longrightarrow> 65536 \<le> pgn" by (simp add: list_all_iff)
qed

lemma fp_handle_ignored: "\<not> fp_relevant frame \<Longrightarrow> fp_handle_rx_frame d frame now = (d, None)"
  by (auto simp: fp_handle_rx_frame_def fp_relevant_def pgn_from_id_def split: prod.splits)

lemma fp_handle_relevant:
  assumes "fp_relevant frame" "fp_frame_key frame = (sa, da, pgn, seq, ch)"
  shows "pgn \<in> set FAST_PACKET_PGNS" "ch = frame_channel_id frame"
    "fp_handle_rx_frame d frame now =
      fp_handle_locked (fp_clean_expired d now) frame (byte_at (frame_data frame) 0 AND 0x1F) seq sa da
        pgn (sa, da, pgn, seq, ch) now"
proof -
  obtain pgn' sa' da' prio where parse: "parse_j1939_id (frame_arbitration_id frame) = (pgn', sa', da', prio)"
    using prod_cases4 by blast
  have pgn': "pgn' \<in> set FAST_PACKET_PGNS" "\<not> pgn' < 65536"
    using assms(1) fast_packet_pgn_range [of pgn'] by (auto simp: fp_relevant_def pgn_from_id_def parse)
  show "pgn \<in> set FAST_PACKET_PGNS" "ch = frame_channel_id frame"
    using assms(2) pgn' unfolding fp_frame_key_def parse prod.case prod.inject by simp_all
  have "sa' = sa" "(case da' of Some t \<Rightarrow> if drop_bit 8 pgn' AND 0xFF < 240 then t else 0xFF | None \<Rightarrow> 0xFF) = da"
    "pgn' = pgn" "drop_bit 5 (byte_at (frame_data frame) 0) AND 0x07 = seq" "frame_channel_id frame = ch"
    using assms(2) unfolding fp_frame_key_def parse prod.case prod.inject by blast+
  note eqs = this
  show "fp_handle_rx_frame d frame now =
      fp_handle_locked (fp_clean_expired d now) frame (byte_at (frame_data frame) 0 AND 0x1F) seq sa da
        pgn (sa, da, pgn, seq, ch) now"
    unfolding fp_handle_rx_frame_def parse prod.case Let_def eqs eqs(2) [unfolded eqs(3)]
    using assms(1) pgn' unfolding fp_relevant_def eqs eqs(2) [unfolded eqs(3)] by simp
qed

lemma fp_handle_inv [inv_intro]:
  assumes "fp_inv d"
  shows "fp_inv (fst (fp_handle_rx_frame d frame now))"
proof (cases "fp_relevant frame")
  case False
  then show ?thesis using assms by (simp add: fp_handle_ignored)
next
  case True
  obtain sa da pgn seq ch where key: "fp_frame_key frame = (sa, da, pgn, seq, ch)"
    using prod_cases5 by blast
  have clean: "fp_inv (fp_clean_expired d now)" by (rule fp_clean_inv [OF assms])
  have "fp_inv (fp_first_frame (fp_clean_expired d now) frame seq sa da pgn (sa, da, pgn, seq, ch) now)"
    using clean fp_handle_relevant [OF True key]
    by (intro fp_first_inv fp_clean_marks_512 assms) (auto simp: fp_inv_def)
  then show ?thesis
    using fp_consec_inv [OF clean] by (simp add: fp_handle_relevant(3) [OF True key] fp_handle_locked_def)
qed


section \<open>Runs\<close>

text \<open>The decoder on a sequence of frames with their arrival times: the final state and the
  messages completed on the way.\<close>

fun fp_run :: "fp_decoder \<Rightarrow> (can_frame \<times> seconds) list \<Rightarrow> fp_decoder \<times> n2k_message list" where
  "fp_run d [] = (d, [])"
| "fp_run d ((f, t) # evs) =
     (case fp_handle_rx_frame d f t of (d', m) \<Rightarrow>
       (case fp_run d' evs of (d'', ms) \<Rightarrow>
         (d'', (case m of None \<Rightarrow> ms | Some x \<Rightarrow> x # ms))))"

lemma fp_run_inv: "fp_inv d \<Longrightarrow> fp_inv (fst (fp_run d evs))"
proof (induction evs arbitrary: d)
  case (Cons ev evs)
  obtain f t where ev: "ev = (f, t)" by (cases ev)
  have "fp_inv (fst (fp_handle_rx_frame d f t))" by (rule fp_handle_inv [OF Cons.prems])
  from Cons.IH [OF this] show ?case by (auto simp: ev split: prod.splits)
qed simp

text \<open>
  From an empty decoder, any sequence of frames, hostile ones included, leaves at most 256
  sessions, at most 32 of them from any one source address, and at most 513 restart marks.
\<close>

theorem fp_run_bounded:
  "length (fp_sessions (fst (fp_run fp_init evs))) \<le> 256 \<and>
   length (filter (\<lambda>k. fst k = sa) (dkeys (fp_sessions (fst (fp_run fp_init evs))))) \<le> 32 \<and>
   length (fp_restart_marks (fst (fp_run fp_init evs))) \<le> 513"
proof -
  have inv: "fp_inv (fst (fp_run fp_init evs))" by (rule fp_run_inv [OF fp_inv_init])
  then have "length (filter (\<lambda>k. fst k = sa) (dkeys (fp_sessions (fst (fp_run fp_init evs))))) \<le> MAX_PER_SA"
    unfolding fp_inv_def fp_table_ok_def by (blast intro: dquotaD)
  with inv show ?thesis
    by (simp add: fp_inv_def fp_table_ok_def fp_marks_ok_def fp_limits del: filter_map)
qed

lemma fp_handle_message:
  assumes "fp_inv d" "fp_handle_rx_frame d frame now = (d', Some m)"
  shows "int (length (n2k_data m)) \<in> {9..223} \<and> n2k_pgn m \<in> set FAST_PACKET_PGNS \<and>
    n2k_channel_id m = frame_channel_id frame"
proof -
  have rel: "fp_relevant frame" using assms(2) fp_handle_ignored [of frame d now] by force
  obtain sa da pgn seq ch where key: "fp_frame_key frame = (sa, da, pgn, seq, ch)"
    using prod_cases5 by blast
  let ?d = "fp_clean_expired d now" and ?key = "(sa, da, pgn, seq, ch)"
  let ?idx = "byte_at (frame_data frame) 0 AND 0x1F"
  have clean: "fp_inv ?d" by (rule fp_clean_inv [OF assms(1)])
  have run: "fp_consecutive_frame ?d frame ?idx ?key now = (d', Some m)"
    using assms(2) unfolding fp_handle_relevant(3) [OF rel key] fp_handle_locked_def
    by (simp split: if_splits)
  then obtain s where s: "dget (fp_sessions ?d) ?key = Some s"
    by (cases "dget (fp_sessions ?d) ?key") (simp_all add: fp_consecutive_frame_def)
  have ok: "fp_session_ok ?key s"
    using clean s by (auto simp: fp_inv_def fp_table_ok_def dest: dallD)
  from s show ?thesis
  proof (cases rule: fp_consec_cases [where frame = frame and idx = ?idx and now = now])
    case (Done s')
    have "n2k_data m = take (nat (fps_total_bytes s)) (fps_received_bytes s')"
      "n2k_pgn m = fps_pgn s" "n2k_channel_id m = frame_channel_id frame"
      using run Done(5) ok by (auto simp: fp_session_ok_def)
    then show ?thesis using ok Done(2) by (auto simp: fp_session_ok_def)
  qed (use run in simp_all)
qed

lemma fp_run_messages:
  "fp_inv d \<Longrightarrow> m \<in> set (snd (fp_run d evs)) \<Longrightarrow>
   9 \<le> length (n2k_data m) \<and> length (n2k_data m) \<le> 223 \<and> n2k_pgn m \<in> set FAST_PACKET_PGNS"
proof (induction evs arbitrary: d)
  case (Cons ev evs)
  obtain f t where ev: "ev = (f, t)" by (cases ev)
  obtain d' om where h: "fp_handle_rx_frame d f t = (d', om)" by (cases "fp_handle_rx_frame d f t")
  have "fp_inv d'" using fp_handle_inv [OF Cons.prems(1), of f t] by (simp add: h)
  from Cons.IH [OF this] Cons.prems(2) fp_handle_message [OF Cons.prems(1)] h show ?case
    by (fastforce simp: ev split: prod.splits option.splits)
qed simp

text \<open>
  Every message the decoder delivers carries between 9 and 223 bytes and a PGN that NMEA
  2000 frames as Fast Packet, whatever frames it was fed.
\<close>

theorem fp_messages_wellformed:
  assumes "m \<in> set (snd (fp_run fp_init evs))"
  shows "9 \<le> length (n2k_data m) \<and> length (n2k_data m) \<le> 223 \<and> n2k_pgn m \<in> set FAST_PACKET_PGNS"
  using fp_run_messages [OF fp_inv_init assms] .

section \<open>Reassembly\<close>

text \<open>The standard's segmentation, as the reference: frame 0 carries the length and six payload
  bytes, every later frame seven, the last one padded with 0xFF.\<close>

definition fp_wire :: "int \<Rightarrow> bytes \<Rightarrow> nat \<Rightarrow> bytes" where
  "fp_wire seq p i =
     (if i = 0 then word_of_int (seq * 32) # word_of_int (int (length p)) # take 6 p
      else word_of_int (seq * 32 + int i) # take 7 (drop (7 * i - 1) p @ replicate 7 0xFF))"

definition fp_send :: "can_frame \<Rightarrow> int \<Rightarrow> bytes \<Rightarrow> nat \<Rightarrow> can_frame" where
  "fp_send base seq p i = base\<lparr>frame_data := fp_wire seq p i, frame_dlc := 8\<rparr>"

definition fp_carrier :: "can_frame \<Rightarrow> bool" where
  "fp_carrier base \<longleftrightarrow> frame_is_extended base \<and> \<not> frame_is_fd base \<and>
     pgn_from_id (frame_arbitration_id base) \<in> set FAST_PACKET_PGNS"

lemma fp_wire_simps:
  assumes "0 \<le> seq" "seq < 8" "i < 32"
  shows "length p \<ge> 6 \<Longrightarrow> length (fp_wire seq p i) = 8"
    "byte_at (fp_wire seq p i) 0 AND 0x1F = int i"
    "drop_bit 5 (byte_at (fp_wire seq p i) 0) AND 0x07 = seq"
proof -
  have range: "0 \<le> seq * 32 + int i" "seq * 32 + int i < 256" using assms by linarith+
  have "fp_wire seq p i ! 0 = word_of_int (seq * 32 + int i)" by (simp add: fp_wire_def)
  then have hd: "byte_at (fp_wire seq p i) 0 = seq * 32 + int i"
    by (simp only: uint_of_int_byte [OF range])
  show "length p \<ge> 6 \<Longrightarrow> length (fp_wire seq p i) = 8"
    by (simp add: fp_wire_def min_def)
  show "byte_at (fp_wire seq p i) 0 AND 0x1F = int i"
    unfolding hd and_masks using assms by simp
  show "drop_bit 5 (byte_at (fp_wire seq p i) 0) AND 0x07 = seq"
    unfolding hd and_masks drop_bit_eq_div using assms by simp
qed

lemma fp_send_relevant:
  assumes "fp_carrier base" "0 \<le> seq" "seq < 8" "i < 32" "length p \<ge> 6"
  shows "fp_relevant (fp_send base seq p i)"
  using assms fp_wire_simps(1) [of seq i p] by (simp add: fp_relevant_def fp_send_def fp_carrier_def)

lemma fp_send_key:
  assumes "0 \<le> seq" "seq < 8" "i < 32"
    and "parse_j1939_id (frame_arbitration_id base) = (pgn, sa, da, prio)"
  shows "fp_frame_key (fp_send base seq p i) =
    (sa, (case da of Some t \<Rightarrow> if drop_bit 8 pgn AND 0xFF < 240 then t else 0xFF | None \<Rightarrow> 0xFF),
     pgn, seq, frame_channel_id base)"
  unfolding fp_frame_key_def fp_send_def using assms(4) fp_wire_simps(3) [OF assms(1-3), of p] by simp


text \<open>The session after the first \<open>i\<close> frames of a payload.\<close>

definition fp_progress :: "can_frame \<Rightarrow> fp_key \<Rightarrow> bytes \<Rightarrow> nat \<Rightarrow> seconds \<Rightarrow> fp_session \<Rightarrow> bool" where
  "fp_progress base key p i t s \<longleftrightarrow>
     key = (fps_source_address s, fps_destination_address s, fps_pgn s, fps_sequence_id s,
            fps_channel_id s) \<and>
     fps_channel_id s = frame_channel_id base \<and>
     fps_total_bytes s = int (length p) \<and> fps_expected_frame_index s = int i \<and>
     fps_received_bytes s = take (7 * i - 1) p \<and> fps_last_activity_time s = t"

lemma fp_clean_keeps:
  assumes "fp_inv d" "dget (fp_sessions d) key = Some s" "\<not> now - fps_last_activity_time s > TIMEOUT_SEC"
  shows "dget (fp_sessions (fp_clean_expired d now)) key = Some s"
proof -
  have wf: "dwf (fp_sessions d)" using assms(1) by (simp add: fp_inv_def fp_table_ok_def)
  show ?thesis
    unfolding fp_clean_expired_sessions dget_sweep [OF wf] assms(2) using assms(3) by simp
qed

definition n2k_message_of :: "can_frame \<Rightarrow> fp_key \<Rightarrow> bytes \<Rightarrow> n2k_message" where
  "n2k_message_of base key p = (case key of (sa, da, pgn, seq, ch) \<Rightarrow>
     \<lparr>n2k_source_address = sa, n2k_pgn = pgn, n2k_data = p,
      n2k_timestamp_ns = frame_timestamp_ns base, n2k_channel_id = ch,
      n2k_destination_address = da\<rparr>)"

lemma take_pad: "take (length xs) (take 7 (xs @ replicate 7 v)) = take 7 xs"
  by (cases "length xs \<le> 7") simp_all

lemma take_wire:
  assumes "1 \<le> i" "7 * i - 1 \<le> length p"
  shows "take (7 * i - 1) p @ take (length p - (7 * i - 1)) (py_slice (fp_wire seq p i) 1 8) =
    take (7 * Suc i - 1) p"
proof -
  have "py_slice (fp_wire seq p i) 1 8 = take 7 (drop (7 * i - 1) p @ replicate 7 0xFF)"
    using assms(1) by (simp add: py_slice_def fp_wire_def)
  then have "take (length p - (7 * i - 1)) (py_slice (fp_wire seq p i) 1 8) = take 7 (drop (7 * i - 1) p)"
    using take_pad [of "drop (7 * i - 1) p" "0xFF"] by (simp only: length_drop)
  moreover have "7 * Suc i - 1 = (7 * i - 1) + 7" using assms(1) by simp
  ultimately show ?thesis by (simp only: take_add)
qed

lemma fp_step:
  assumes inv: "fp_inv d" and carrier: "fp_carrier base" and seq: "0 \<le> seq" "seq < 8"
    and key: "fp_frame_key (fp_send base seq p i) = key"
    and s: "dget (fp_sessions d) key = Some s" "fp_progress base key p i t s"
    and i: "1 \<le> i" "7 * i - 1 < length p" "length p \<le> 223"
    and now: "\<not> now - t > TIMEOUT_SEC"
  shows "if 7 * Suc i - 1 < length p
    then snd (fp_handle_rx_frame d (fp_send base seq p i) now) = None \<and>
      (\<exists>s'. dget (fp_sessions (fst (fp_handle_rx_frame d (fp_send base seq p i) now))) key = Some s' \<and>
        fp_progress base key p (Suc i) now s')
    else snd (fp_handle_rx_frame d (fp_send base seq p i) now) = Some (n2k_message_of base key p)"
proof -
  obtain sa da pgn q ch where k: "key = (sa, da, pgn, q, ch)" using prod_cases5 by blast
  have i32: "i < 32" using i by linarith
  let ?f = "fp_send base seq p i" and ?d = "fp_clean_expired d now"
  have len: "length (fp_wire seq p i) = 8" using fp_wire_simps(1) [OF seq i32] i by simp
  have rel: "fp_relevant ?f" using fp_send_relevant [OF carrier seq i32] i by simp
  have idx: "byte_at (frame_data ?f) 0 AND 0x1F = int i"
    using fp_wire_simps(2) [OF seq i32] by (simp add: fp_send_def)
  note prog = s(2) [unfolded fp_progress_def]
  have keep: "dget (fp_sessions ?d) key = Some s"
    using fp_clean_keeps [OF inv s(1)] prog now by blast
  define s' where "s' = s\<lparr>fps_received_bytes := take (7 * Suc i - 1) p,
    fps_expected_frame_index := int (Suc i), fps_last_activity_time := now\<rparr>"
  have recv: "length (fps_received_bytes s) = 7 * i - 1" using prog i by simp
  have extend: "fps_received_bytes s @ py_prefix (py_slice (frame_data ?f) 1 8)
      (fps_total_bytes s - int (length (fps_received_bytes s))) = take (7 * Suc i - 1) p"
  proof -
    have need: "fps_total_bytes s - int (length (fps_received_bytes s)) = int (length p - (7 * i - 1))"
      using prog recv i by (simp add: of_nat_diff)
    show ?thesis
      unfolding need py_prefix_int using take_wire [of i p seq] i prog by (simp add: fp_send_def)
  qed
  have "fp_handle_rx_frame d ?f now = fp_consecutive_frame ?d ?f (int i) key now"
    using fp_handle_relevant(3) [OF rel key [unfolded k]] i(1)
    unfolding fp_handle_locked_def idx k by simp
  moreover have "fp_consecutive_frame ?d ?f (int i) key now =
      (if int (length (take (7 * Suc i - 1) p)) \<ge> int (length p)
       then (?d\<lparr>fp_sessions := dpop key (fp_sessions ?d)\<rparr>, Some (n2k_message_of base key p))
       else (?d\<lparr>fp_sessions := dset key s' (fp_sessions ?d)\<rparr>, None))"
    unfolding fp_consecutive_frame_def keep option.case Let_def extend
    using prog len by (simp add: s'_def fp_send_def n2k_message_of_def add.commute)
  moreover have "fp_progress base key p (Suc i) now s'"
    using prog unfolding fp_progress_def s'_def by simp
  ultimately show ?thesis by (auto simp: min_def not_less)
qed


lemma fp_run_Cons_None:
  "snd (fp_handle_rx_frame d f t) = None \<Longrightarrow>
   snd (fp_run d ((f, t) # evs)) = snd (fp_run (fst (fp_handle_rx_frame d f t)) evs)"
  by (cases "fp_handle_rx_frame d f t") (simp split: prod.split)

lemma fp_run_Cons_Some:
  "snd (fp_handle_rx_frame d f t) = Some m \<Longrightarrow>
   snd (fp_run d ((f, t) # evs)) = m # snd (fp_run (fst (fp_handle_rx_frame d f t)) evs)"
  by (cases "fp_handle_rx_frame d f t") (simp split: prod.split)

lemma fp_rest:
  assumes carrier: "fp_carrier base" and seq: "0 \<le> seq" "seq < 8" and p: "length p \<le> 223"
    and key: "\<And>j. j < 32 \<Longrightarrow> fp_frame_key (fp_send base seq p j) = key"
    and gaps: "\<And>j. ts (Suc j) - ts j \<le> TIMEOUT_SEC"
  shows "fp_inv d \<Longrightarrow> dget (fp_sessions d) key = Some s \<Longrightarrow> fp_progress base key p (Suc i) (ts i) s \<Longrightarrow>
    7 * Suc i - 1 < length p \<Longrightarrow> n = length p div 7 - Suc i \<Longrightarrow>
    snd (fp_run d (map (\<lambda>j. (fp_send base seq p j, ts j)) [Suc i..<Suc (length p div 7)])) =
      [n2k_message_of base key p]"
proof (induction n arbitrary: d s i)
  case step: 0
  have last: "[Suc i..<Suc (length p div 7)] = [Suc i]"
  proof -
    have "Suc i * 7 \<le> length p" using step.prems(4) by linarith
    then have "Suc i \<le> length p div 7" by (simp only: less_eq_div_iff_mult_less_eq)
    then show ?thesis using step.prems(5) by (simp add: upt_rec)
  qed
  have "length p div 7 < Suc (Suc i)" using step.prems(5) by simp
  then have "length p < Suc (Suc i) * 7" by (simp only: div_less_iff_less_mult)
  then have "\<not> 7 * Suc (Suc i) - 1 < length p" by linarith
  moreover have "Suc i < 32" using step.prems(4) p by arith
  ultimately have final: "snd (fp_handle_rx_frame d (fp_send base seq p (Suc i)) (ts (Suc i))) =
      Some (n2k_message_of base key p)"
    using fp_step [OF step.prems(1) carrier seq key step.prems(2,3) _ step.prems(4) p, of "ts (Suc i)"]
      gaps [of i] by simp
  show ?case unfolding last list.map fp_run_Cons_Some [OF final] by simp
next
  case step: (Suc n)
  let ?h = "fp_handle_rx_frame d (fp_send base seq p (Suc i)) (ts (Suc i))"
  have "Suc (Suc i) \<le> length p div 7" using step.prems(5) by linarith
  then have "Suc (Suc i) * 7 \<le> length p" by (simp only: less_eq_div_iff_mult_less_eq)
  then have more: "7 * Suc (Suc i) - 1 < length p" by arith
  have next_frames: "[Suc i..<Suc (length p div 7)] = Suc i # [Suc (Suc i)..<Suc (length p div 7)]"
    using step.prems(5) by (simp add: upt_rec)
  have "Suc i < 32" using step.prems(4) p by arith
  then obtain s' where none: "snd ?h = None" and s': "dget (fp_sessions (fst ?h)) key = Some s'"
    "fp_progress base key p (Suc (Suc i)) (ts (Suc i)) s'"
    using fp_step [OF step.prems(1) carrier seq key step.prems(2,3) _ step.prems(4) p, of "ts (Suc i)"]
      gaps [of i] more by auto
  have "snd (fp_run (fst ?h) (map (\<lambda>j. (fp_send base seq p j, ts j))
      [Suc (Suc i)..<Suc (length p div 7)])) = [n2k_message_of base key p]"
    by (rule step.IH [OF fp_handle_inv [OF step.prems(1)] s' more]) (use step.prems(5) in simp)
  then show ?case by (simp only: next_frames list.map fp_run_Cons_None [OF none])
qed

lemma fp_first:
  assumes inv: "fp_inv d" and carrier: "fp_carrier base" and seq: "0 \<le> seq" "seq < 8"
    and p: "9 \<le> length p" "length p \<le> 223"
    and key: "fp_frame_key (fp_send base seq p 0) = key"
    and free: "dget (fp_sessions d) key = None"
    and quota: "length (filter (\<lambda>k. fst k = fst key) (dkeys (fp_sessions d))) < MAX_PER_SA"
  shows "snd (fp_handle_rx_frame d (fp_send base seq p 0) now) = None"
    "\<exists>s. dget (fp_sessions (fst (fp_handle_rx_frame d (fp_send base seq p 0) now))) key = Some s \<and>
      fp_progress base key p 1 now s"
proof -
  obtain sa da pgn q ch where k: "key = (sa, da, pgn, q, ch)" using prod_cases5 by blast
  let ?f = "fp_send base seq p 0" and ?d = "fp_clean_expired d now"
  let ?s = "fp_new_session ?f q sa da pgn now"
  have len: "length (fp_wire seq p 0) = 8" using fp_wire_simps(1) [OF seq, of 0 p] p by simp
  have rel: "fp_relevant ?f" using fp_send_relevant [OF carrier seq, of 0 p] p by simp
  have idx: "byte_at (frame_data ?f) 0 AND 0x1F = 0"
    using fp_wire_simps(2) [OF seq, of 0 p] by (simp add: fp_send_def)
  have "fp_wire seq p 0 ! 1 = word_of_int (int (length p))" by (simp add: fp_wire_def)
  then have total: "byte_at (fp_wire seq p 0) 1 = int (length p)"
    using p by (simp only: uint_of_int_byte)
  have wf: "dwf (fp_sessions d)" using inv by (simp add: fp_inv_def fp_table_ok_def)
  have free': "dget (fp_sessions ?d) key = None"
    unfolding fp_clean_expired_sessions dget_dpop_all using free by simp
  have "length (filter (\<lambda>k. fst k = sa) (dkeys (fp_sessions ?d))) < MAX_PER_SA"
    unfolding fp_clean_expired_sessions
    using count_dpop_all_le [OF wf] quota k le_less_trans by (simp only: fst_conv) blast
  then have opened: "fp_open_session ?d ?f q sa da pgn key now =
      ?d\<lparr>fp_sessions := dset key ?s (make_room MAX_CONCURRENT fps_last_activity_time (fp_sessions ?d))\<rparr>"
    unfolding fp_open_session_def Let_def using free' total len p
    by (simp add: fp_send_def del: filter_map)
  have run: "fp_handle_rx_frame d ?f now =
      (?d\<lparr>fp_sessions := dset key ?s (make_room MAX_CONCURRENT fps_last_activity_time (fp_sessions ?d))\<rparr>,
       None)"
    using fp_handle_relevant(3) [OF rel key [unfolded k]] free' opened
    unfolding fp_handle_locked_def idx fp_first_frame_def k by simp
  have "q = seq" "ch = frame_channel_id base"
    using key fp_wire_simps(3) [OF seq, of 0 p] unfolding fp_frame_key_def k fp_send_def
    by (auto split: prod.splits)
  then have "fp_progress base key p 1 now ?s"
    using total by (simp add: fp_progress_def fp_new_session_def fp_send_def k py_slice_def fp_wire_def)
  then show "snd (fp_handle_rx_frame d ?f now) = None"
    "\<exists>s. dget (fp_sessions (fst (fp_handle_rx_frame d ?f now))) key = Some s \<and> fp_progress base key p 1 now s"
    by (simp_all add: run)
qed

text \<open>
  C19. The decoder inverts the standard's segmentation: in any reachable state with no transfer
  open under the key and quota left for the source, the frames of a payload of 9 to 223 bytes,
  each at most 500 ms after the one before, yield exactly one message and its data is the
  payload.
\<close>

theorem fp_reassembles:
  assumes inv: "fp_inv d" and carrier: "fp_carrier base" and seq: "0 \<le> seq" "seq < 8"
    and p: "9 \<le> length p" "length p \<le> 223"
    and key: "fp_frame_key (fp_send base seq p 0) = key"
    and free: "dget (fp_sessions d) key = None"
    and quota: "length (filter (\<lambda>k. fst k = fst key) (dkeys (fp_sessions d))) < MAX_PER_SA"
    and gaps: "\<And>j. ts (Suc j) - ts j \<le> TIMEOUT_SEC"
  shows "snd (fp_run d (map (\<lambda>j. (fp_send base seq p j, ts j)) [0..<Suc (length p div 7)])) =
    [n2k_message_of base key p]"
proof -
  obtain pgn sa da prio where parse: "parse_j1939_id (frame_arbitration_id base) = (pgn, sa, da, prio)"
    using prod_cases4 by blast
  have keys: "fp_frame_key (fp_send base seq p j) = key" if "j < 32" for j
    using fp_send_key [OF seq that parse] fp_send_key [OF seq _ parse, of 0] key by simp
  let ?h = "fp_handle_rx_frame d (fp_send base seq p 0) (ts 0)"
  obtain s where none: "snd ?h = None" and s: "dget (fp_sessions (fst ?h)) key = Some s"
    "fp_progress base key p (Suc 0) (ts 0) s"
    using fp_first [OF inv carrier seq p key free quota, of "ts 0"] by auto
  have frames: "[0..<Suc (length p div 7)] = 0 # [Suc 0..<Suc (length p div 7)]"
    by (simp add: upt_rec)
  have "snd (fp_run (fst ?h) (map (\<lambda>j. (fp_send base seq p j, ts j)) [Suc 0..<Suc (length p div 7)])) =
      [n2k_message_of base key p]"
    by (rule fp_rest [OF carrier seq p(2) keys gaps fp_handle_inv [OF inv] s _ refl]) (use p in simp_all)
  then show ?thesis by (simp only: frames list.map fp_run_Cons_None [OF none])
qed

text \<open>A concrete carrier for the runs below: GNSS position data (PGN 129029) from source 0x10.\<close>

definition fp_demo :: can_frame where
  "fp_demo = \<lparr>frame_channel_id = ''can0'', frame_arbitration_id = 0x0DF80510, frame_dlc = 8,
     frame_data = replicate 8 0, frame_is_extended = True, frame_is_fd = False, frame_brs = False,
     frame_esi = False, frame_direction = ''rx'', frame_timestamp_ns = 0,
     frame_hardware_timestamp_ns = None, frame_host_timestamp_ns = None, frame_sequence = 0,
     frame_error_state = ''active'', frame_source = ''physical''\<rparr>"

lemma fp_demo_key: "fp_frame_key (fp_send fp_demo 2 p 0) = (0x10, 0xFF, 129029, 2, ''can0'')"
proof -
  have parse: "parse_j1939_id (frame_arbitration_id fp_demo) = (129029, 0x10, None, 3)" by code_simp
  have "drop_bit 5 (byte_at (fp_wire 2 p 0) 0) AND 0x07 = 2" by (rule fp_wire_simps) simp_all
  then show ?thesis
    unfolding fp_frame_key_def fp_send_def by (simp add: parse) (simp add: fp_demo_def)
qed

lemma fp_demo_carrier: "fp_carrier fp_demo"
  by code_simp

theorem fp_reassembles_witness:
  "snd (fp_run fp_init
     (map (\<lambda>j. (fp_send fp_demo 2 (replicate 20 7) j, of_nat j / 10)) [0..<Suc (length (replicate 20 (7::byte)) div 7)])) =
    [n2k_message_of fp_demo (0x10, 0xFF, 129029, 2, ''can0'') (replicate 20 7)]"
  by (rule fp_reassembles [OF fp_inv_init fp_demo_carrier _ _ _ _ fp_demo_key])
    (simp_all add: fp_init_def fp_limits field_simps)

theorem fp_messages_wellformed_witness:
  "9 \<le> length (n2k_data (n2k_message_of fp_demo (0x10, 0xFF, 129029, 2, ''can0'') (replicate 20 7))) \<and>
   length (n2k_data (n2k_message_of fp_demo (0x10, 0xFF, 129029, 2, ''can0'') (replicate 20 7))) \<le> 223 \<and>
   n2k_pgn (n2k_message_of fp_demo (0x10, 0xFF, 129029, 2, ''can0'') (replicate 20 7)) \<in> set FAST_PACKET_PGNS"
  by (rule fp_messages_wellformed [where
        evs = "map (\<lambda>j. (fp_send fp_demo 2 (replicate 20 7) j, of_nat j / 10)) [0..<3]"])
    code_simp

section \<open>Isolation, restarts and a truncated last frame\<close>

lemma fp_first_frame_other:
  assumes "key' \<noteq> key" "length (fp_sessions d) < MAX_CONCURRENT"
  shows "dget (fp_sessions (fp_first_frame d frame seq sa da pgn key now)) key' =
    dget (fp_sessions d) key'"
proof -
  have opened: "dget (fp_sessions (fp_open_session d' frame seq sa da pgn key now)) key' =
      dget (fp_sessions d') key'" if "length (fp_sessions d') < MAX_CONCURRENT" for d'
    by (rule fp_open_cases [of d' frame seq sa da pgn key now]) (use that assms(1) in auto)
  have "length (dpop key (fp_sessions d)) < MAX_CONCURRENT"
    using AList.length_delete_le [of key "fp_sessions d"] assms(2) by simp
  then show ?thesis
    using assms by (auto simp: fp_first_frame_def opened split: option.split prod.split)
qed

lemma fp_consecutive_other:
  "key' \<noteq> key \<Longrightarrow> dget (fp_sessions (fst (fp_consecutive_frame d frame idx key now))) key' =
    dget (fp_sessions d) key'"
  by (auto simp: fp_consecutive_frame_def Let_def split: option.split)

text \<open>
  Transfers do not disturb each other: while the table has room, a frame filed under another
  key (another source, destination, PGN, sequence counter or channel) leaves a live session as
  it is.
\<close>

theorem fp_isolation:
  assumes inv: "fp_inv d" and other: "fp_frame_key frame \<noteq> key"
    and s: "dget (fp_sessions d) key = Some s" "\<not> now - fps_last_activity_time s > TIMEOUT_SEC"
    and room: "length (fp_sessions d) < MAX_CONCURRENT"
  shows "dget (fp_sessions (fst (fp_handle_rx_frame d frame now))) key = Some s"
proof (cases "fp_relevant frame")
  case True
  obtain sa da pgn seq ch where k: "fp_frame_key frame = (sa, da, pgn, seq, ch)"
    using prod_cases5 by blast
  let ?d = "fp_clean_expired d now"
  have keep: "dget (fp_sessions ?d) key = Some s" by (rule fp_clean_keeps [OF inv s])
  have "length (fp_sessions ?d) < MAX_CONCURRENT"
    unfolding fp_clean_expired_sessions using length_dpop_all_le le_less_trans room by blast
  then show ?thesis
    using fp_first_frame_other [of key "(sa, da, pgn, seq, ch)" ?d] fp_consecutive_other other keep
    unfolding fp_handle_relevant(3) [OF True k] fp_handle_locked_def k by simp
qed (use s in \<open>simp add: fp_handle_ignored\<close>)

theorem fp_isolation_witness:
  "dget (fp_sessions (fst (fp_handle_rx_frame
       (fst (fp_handle_rx_frame fp_init (fp_send fp_demo 2 (replicate 20 7) 0) 0))
       (fp_send (fp_demo\<lparr>frame_arbitration_id := 0x0DF80511\<rparr>) 2 (replicate 20 9) 0) (1 / 10))))
     (0x10, 0xFF, 129029, 2, ''can0'') =
   Some (fp_new_session (fp_send fp_demo 2 (replicate 20 7) 0) 2 0x10 0xFF 129029 0)"
  by (rule fp_isolation [OF fp_handle_inv [OF fp_inv_init]]) code_simp+

text \<open>
  Of the restarts of one (source, PGN, sequence) within 50 ms of the first, exactly four are
  let through, however many first frames arrive.
\<close>

theorem fp_restart_burst:
  assumes "dget m k = None" "\<And>t. t \<in> set ts \<Longrightarrow> \<not> t - t0 > RESTART_RATE_LIMIT_S"
  shows "int (fst (gate_run check_restart_rate_limit m k (t0 # ts))) = min (int (length (t0 # ts))) 4"
  using restart.gate_burst_bound [OF assms] by (simp add: RESTART_BURST_def)

theorem fp_restart_burst_witness:
  "int (fst (gate_run check_restart_rate_limit [] (0x10, 129029, 2) (0 # replicate 9 (1 / 100)))) =
     min (int (length (0 # replicate 9 (1 / 100 :: rat)))) 4"
  by (rule fp_restart_burst) (simp_all add: RESTART_RATE_LIMIT_S_def)

text \<open>
  A truncated last frame is taken, and the transfer goes on: of a declared 20 bytes the third
  frame brings only two of seven, yet the session stays open, and a fourth frame, which no
  20-byte transfer has, fills the gap. The message is delivered with bytes that stand five
  places before where their sender put them. The source's comment says that only the final
  frame may be short; the code's test asks only whether the frame could have been the final one.
\<close>

theorem fp_truncated_final_accepted:
  "map n2k_data (snd (fp_run fp_init
     [(fp_demo\<lparr>frame_data := [64, 20, 1, 2, 3, 4, 5, 6]\<rparr>, 0),
      (fp_demo\<lparr>frame_data := [65, 7, 8, 9, 10, 11, 12, 13]\<rparr>, 1 / 100),
      (fp_demo\<lparr>frame_data := [66, 14, 15], frame_dlc := 3\<rparr>, 2 / 100),
      (fp_demo\<lparr>frame_data := [67, 101, 102, 103, 104, 105, 106, 107]\<rparr>, 3 / 100)])) =
   [[1, 2, 3, 4, 5, 6, 7, 8, 9, 10, 11, 12, 13, 14, 15, 101, 102, 103, 104, 105]]"
  by code_simp

end
