(* ===== verification/TpTable.thy ===== *)
theory TpTable
  imports J1939Id RateGate
begin

text \<open>
  \<open>src/protocols/j1939/transport.py\<close>, the RX session table \<open>_PgnScopedSessionTable\<close>: a dict
  keyed by (source, destination, channel, PGN) that also answers three-part legacy keys when
  they name exactly one entry. A key of either form is a \<open>tab_key\<close>. \<open>None\<close> is the KeyError (or the
  caller's default) of the source.
\<close>

record rsession =
  rs_source_address :: int
  rs_destination_address :: int
  rs_target_pgn :: int
  rs_total_bytes :: int
  rs_total_packets :: int
  rs_is_bam :: bool
  rs_expected_sequence :: int
  rs_received_bytes :: bytes
  rs_last_activity_time :: seconds
  rs_channel_id :: string
  rs_rx_cts_window :: int
  rs_max_packets_per_cts :: int

type_synonym rx_key = "int \<times> int \<times> string \<times> int"
type_synonym rx_prefix = "int \<times> int \<times> string"
type_synonym rx_table = "(rx_key, rsession) dict"

datatype tab_key = Full rx_key | Legacy rx_prefix

definition prefix_of :: "rx_key \<Rightarrow> rx_prefix" where
  "prefix_of k = (case k of (sa, da, ch, pgn) \<Rightarrow> (sa, da, ch))"

definition session_key :: "rsession \<Rightarrow> rx_key" where
  "session_key s =
     (rs_source_address s, rs_destination_address s, rs_channel_id s, rs_target_pgn s)"

section \<open>Operations\<close>

definition resolve_legacy :: "rx_table \<Rightarrow> rx_prefix \<Rightarrow> rx_key option" where
  "resolve_legacy t p =
     (case filter (\<lambda>k. prefix_of k = p) (dkeys t) of [k] \<Rightarrow> Some k | _ \<Rightarrow> None)"

definition tab_resolve :: "rx_table \<Rightarrow> tab_key \<Rightarrow> rx_key option" where
  "tab_resolve t key =
     (case key of
        Full k \<Rightarrow> if dget t k = None then None else Some k
      | Legacy p \<Rightarrow> resolve_legacy t p)"

definition tab_contains :: "rx_table \<Rightarrow> tab_key \<Rightarrow> bool" where
  "tab_contains t key \<longleftrightarrow> tab_resolve t key \<noteq> None"

definition tab_get :: "rx_table \<Rightarrow> tab_key \<Rightarrow> rsession option" where
  "tab_get t key = (case tab_resolve t key of None \<Rightarrow> None | Some k \<Rightarrow> dget t k)"

definition tab_getitem :: "rx_table \<Rightarrow> tab_key \<Rightarrow> rsession py" where
  "tab_getitem t key = (case tab_get t key of None \<Rightarrow> Inl KeyError | Some s \<Rightarrow> Inr s)"

text \<open>\<open>pop(key, None)\<close>: the removed session, if any, and the table without it.\<close>

definition tab_pop :: "rx_table \<Rightarrow> tab_key \<Rightarrow> rsession option \<times> rx_table" where
  "tab_pop t key =
     (case tab_resolve t key of None \<Rightarrow> (None, t) | Some k \<Rightarrow> (dget t k, dpop k t))"

definition tab_delitem :: "rx_table \<Rightarrow> tab_key \<Rightarrow> rx_table py" where
  "tab_delitem t key =
     (case tab_resolve t key of None \<Rightarrow> Inl KeyError | Some k \<Rightarrow> Inr (dpop k t))"

definition tab_setitem :: "rx_table \<Rightarrow> tab_key \<Rightarrow> rsession \<Rightarrow> rx_table" where
  "tab_setitem t key s =
     (case key of
        Full k \<Rightarrow> dset k s t
      | Legacy (sa, da, ch) \<Rightarrow> dset (sa, da, ch, rs_target_pgn s) s t)"

section \<open>Full keys are those of a plain dict\<close>

lemma tab_full [simp]:
  "tab_get t (Full k) = dget t k"
  "tab_contains t (Full k) \<longleftrightarrow> dget t k \<noteq> None"
  "tab_setitem t (Full k) s = dset k s t"
  unfolding tab_get_def tab_resolve_def tab_contains_def tab_setitem_def tab_key.case
  by (cases "dget t k"; simp only: if_True if_False option.case option.distinct simp_thms)+

lemma tab_pop_full [simp]: "tab_pop t (Full k) = (dget t k, dpop k t)"
proof (cases "dget t k")
  case None
  then have "dpop k t = t" by (simp add: AList.delete_id dom_map_of_conv_image_fst map_of_eq_None_iff)
  then show ?thesis using None by (simp add: tab_pop_def tab_resolve_def)
qed (simp add: tab_pop_def tab_resolve_def)

interpretation full_keys: keyed_table
  "\<lambda>t k. tab_get t (Full k)" "\<lambda>k s t. tab_setitem t (Full k) s" "\<lambda>k t. snd (tab_pop t (Full k))"
  "dkeys :: rx_table \<Rightarrow> rx_key list" dwf
  by unfold_locales (auto simp: dom_map_of_conv_image_fst intro: dict.wf_store dict.wf_discard)

section \<open>Legacy keys\<close>

lemma resolve_legacy_Some:
  assumes "resolve_legacy t p = Some k"
  shows "k \<in> dom (dget t)" "prefix_of k = p"
    "dwf t \<Longrightarrow> k' \<in> dom (dget t) \<Longrightarrow> prefix_of k' = p \<Longrightarrow> k' = k"
proof -
  have one: "filter (\<lambda>k. prefix_of k = p) (dkeys t) = [k]"
    using assms by (auto simp: resolve_legacy_def split: list.splits)
  then have "set (filter (\<lambda>k. prefix_of k = p) (dkeys t)) = {k}" by (simp only: list.set)
  then have mem: "k' \<in> set (dkeys t) \<and> prefix_of k' = p \<longleftrightarrow> k' = k" for k'
    unfolding set_filter by blast
  then show "k \<in> dom (dget t)" "prefix_of k = p" "k' \<in> dom (dget t) \<Longrightarrow> prefix_of k' = p \<Longrightarrow> k' = k"
    unfolding dict.keys_set by blast+
qed

lemma prefix_of_session [simp]: "prefix_of (sa, da, ch, pgn) = (sa, da, ch)"
  by (simp add: prefix_of_def)

text \<open>
  A legacy write can be read back through the legacy key as long as no other PGN is in
  flight between the two addresses on that channel; when one is, the legacy read finds no unique
  entry and answers nothing, rather than the wrong session.
\<close>

theorem legacy_write_read:
  assumes "dwf t"
  shows "tab_get (tab_setitem t (Legacy p) s) (Legacy p) =
    (if filter (\<lambda>k. prefix_of k = p \<and> k \<noteq> (fst p, fst (snd p), snd (snd p), rs_target_pgn s)) (dkeys t) = []
     then Some s else None)"
proof -
  obtain sa da ch where p: "p = (sa, da, ch)" by (cases p)
  define key where "key = (sa, da, ch, rs_target_pgn s)"
  let ?t = "dset key s t"
  have key: "prefix_of key = p" by (simp add: key_def p)
  have wf: "dwf ?t" by (rule dict.wf_store [OF assms])
  have set_eq: "tab_setitem t (Legacy p) s = ?t" by (simp add: tab_setitem_def p key_def)
  have dom: "dom (dget ?t) = insert key (dom (dget t))" by simp
  let ?others = "filter (\<lambda>k. prefix_of k = p \<and> k \<noteq> key) (dkeys t)"
  have others: "?others = [] \<longleftrightarrow> (\<forall>k\<in>dom (dget t). prefix_of k = p \<longrightarrow> k = key)"
    unfolding filter_empty_conv dict.keys_set by blast
  have "tab_get ?t (Legacy p) = (if ?others = [] then Some s else None)"
  proof (cases "resolve_legacy ?t p")
    case (Some k)
    from resolve_legacy_Some [OF this] wf key have "k = key" "\<forall>k'\<in>dom (dget t). prefix_of k' = p \<longrightarrow> k' = key"
      unfolding dom by blast+
    then show ?thesis unfolding others tab_get_def tab_resolve_def using Some by simp
  next
    case None
    have "?others \<noteq> []"
    proof
      assume "?others = []"
      then have "{k \<in> dom (dget ?t). prefix_of k = p} = {key}" unfolding others dom using key by blast
      then have "length (filter (\<lambda>k. prefix_of k = p) (dkeys ?t)) = 1"
        by (simp only: dict.count_card [OF wf]) simp
      then obtain k where "filter (\<lambda>k. prefix_of k = p) (dkeys ?t) = [k]"
        by (auto simp only: One_nat_def length_Suc_conv length_0_conv)
      then show False using None by (simp only: resolve_legacy_def list.case option.distinct)
    qed
    then show ?thesis using None by (simp add: tab_get_def tab_resolve_def)
  qed
  then show ?thesis by (simp only: set_eq) (simp add: key_def p)
qed

definition rs_demo :: rsession where
  "rs_demo =
    \<lparr>rs_source_address = 1, rs_destination_address = 2, rs_target_pgn = 0xFECA, rs_total_bytes = 10,
     rs_total_packets = 2, rs_is_bam = False, rs_expected_sequence = 1, rs_received_bytes = [],
     rs_last_activity_time = 0, rs_channel_id = ''can0'', rs_rx_cts_window = 0,
     rs_max_packets_per_cts = 255\<rparr>"

theorem legacy_write_read_witness:
  "tab_get (tab_setitem [] (Legacy (1, 2, ''can0'')) rs_demo) (Legacy (1, 2, ''can0'')) = Some rs_demo"
  using legacy_write_read [of "[]" "(1, 2, ''can0'')" rs_demo] by simp

end
