(* ===== verification/Transport.thy ===== *)
theory Transport
  imports CanFrame TpTable
begin

text \<open>
  \<open>src/protocols/j1939/transport.py\<close>: the state and the receiving operations of
  \<open>J1939TransportProtocol\<close>. Every operation takes the engine's state and a reading of the clocks
  (one per call: \<open>_get_now()\<close> in seconds, \<open>monotonic_ns()\<close> for the frames it builds) and returns
  the state with its result or the exception it raised; what was changed before a raise stays
  changed. The lock makes each call atomic and logging changes no state, so neither appears.
\<close>

section \<open>Constants\<close>

definition PGN_TP_CM :: int where "PGN_TP_CM = 60416"
definition PGN_TP_DT :: int where "PGN_TP_DT = 60160"
definition TP_CTRL_RTS :: int where "TP_CTRL_RTS = 0x10"
definition TP_CTRL_CTS :: int where "TP_CTRL_CTS = 0x11"
definition TP_CTRL_ACK :: int where "TP_CTRL_ACK = 0x13"
definition TP_CTRL_BAM :: int where "TP_CTRL_BAM = 0x20"
definition TP_CTRL_ABORT :: int where "TP_CTRL_ABORT = 0xFF"
definition ABORT_REASON_SEQUENCE_ERROR :: int where "ABORT_REASON_SEQUENCE_ERROR = 1"
definition ABORT_REASON_SESSION_COLLISION :: int where "ABORT_REASON_SESSION_COLLISION = 2"
definition ABORT_REASON_TIMEOUT :: int where "ABORT_REASON_TIMEOUT = 3"
definition ABORT_REASON_UNEXPECTED_CONTROL :: int where "ABORT_REASON_UNEXPECTED_CONTROL = 4"
definition MAX_CTS_PACKET_COUNT :: int where "MAX_CTS_PACKET_COUNT = 16"
definition T1_TIMEOUT_SEC :: seconds where "T1_TIMEOUT_SEC = 3 / 4"
definition T2_TIMEOUT_SEC :: seconds where "T2_TIMEOUT_SEC = 5 / 4"
definition T3_TIMEOUT_SEC :: seconds where "T3_TIMEOUT_SEC = 5 / 4"
definition T4_TIMEOUT_SEC :: seconds where "T4_TIMEOUT_SEC = 21 / 20"
definition MAX_CONCURRENT_SESSIONS :: nat where "MAX_CONCURRENT_SESSIONS = 512"
definition MAX_SESSIONS_PER_SA :: int where "MAX_SESSIONS_PER_SA = 4"
definition MAX_TX_SESSIONS :: nat where "MAX_TX_SESSIONS = 256"
definition MAX_HOLD_CTS :: int where "MAX_HOLD_CTS = 8"
definition HOLD_WINDOW_S :: seconds where "HOLD_WINDOW_S = 2"
definition MAX_REWIND_DEPTH :: int where "MAX_REWIND_DEPTH = 2"
definition PREFIX_COLLISION_BURST :: int where "PREFIX_COLLISION_BURST = 3"
definition PREFIX_COLLISION_WINDOW_S :: seconds where "PREFIX_COLLISION_WINDOW_S = 1"

lemmas tp_ctrl = TP_CTRL_RTS_def TP_CTRL_CTS_def TP_CTRL_ACK_def TP_CTRL_BAM_def TP_CTRL_ABORT_def
lemmas tp_reasons = ABORT_REASON_SEQUENCE_ERROR_def ABORT_REASON_SESSION_COLLISION_def
  ABORT_REASON_TIMEOUT_def ABORT_REASON_UNEXPECTED_CONTROL_def

section \<open>State\<close>

record completed_message =
  cm_source_address :: int
  cm_destination_address :: int
  cm_pgn :: int
  cm_data :: bytes
  cm_timestamp_ns :: int
  cm_channel_id :: string

record tp_metrics =
  tm_rx_abort :: int
  tm_rx_rts :: int
  tm_rx_bam :: int
  tm_rx_cts :: int
  tm_rx_unsolicited_cts :: int
  tm_tx_abort_emitted :: int
  tm_dropped_fd_tp_frames :: int
  tm_ambiguous_dt_drop :: int

datatype tx_state = WAIT_CTS | GRANTED | WAIT_ACK

record tx_session =
  ts_source_address :: int
  ts_destination_address :: int
  ts_target_pgn :: int
  ts_total_bytes :: int
  ts_total_packets :: int
  ts_data :: bytes
  ts_channel_id :: string
  ts_state :: tx_state
  ts_cts_window :: int
  ts_next_sequence :: int
  ts_last_activity_time :: seconds
  ts_hold_count :: int
  ts_hold_window_start :: seconds

type_synonym tx_key = "int \<times> int \<times> int \<times> string"

text \<open>\<open>_per_sa_sessions\<close> is a Counter keyed by \<open>str(sa)\<close>; the decimal string of an int determines
  it, so the key here is the int.\<close>

record tp =
  tp_my_address :: int
  tp_channel_id :: string
  tp_rx_cts_window :: int
  tp_bam_pacing_interval_s :: seconds
  tp_prefix_marks :: "rx_prefix marks"
  tp_rx_sessions :: rx_table
  tp_tx_sessions :: "(tx_key, tx_session) dict"
  tp_pending_tx_frames :: "can_frame list"
  tp_per_sa :: "(int, int) dict"
  tp_metrics_of :: tp_metrics

record tick =
  tk_now :: seconds
  tk_ns :: int

definition tx_key :: "tx_session \<Rightarrow> tx_key" where
  "tx_key s = (ts_source_address s, ts_destination_address s, ts_target_pgn s, ts_channel_id s)"

definition metrics_init :: tp_metrics where
  "metrics_init = \<lparr>tm_rx_abort = 0, tm_rx_rts = 0, tm_rx_bam = 0, tm_rx_cts = 0,
     tm_rx_unsolicited_cts = 0, tm_tx_abort_emitted = 0, tm_dropped_fd_tp_frames = 0,
     tm_ambiguous_dt_drop = 0\<rparr>"

definition tp_init :: "int \<Rightarrow> string \<Rightarrow> int \<Rightarrow> tp" where
  "tp_init my_address channel_id rx_cts_window =
     \<lparr>tp_my_address = my_address, tp_channel_id = channel_id, tp_rx_cts_window = rx_cts_window,
      tp_bam_pacing_interval_s = 1 / 20, tp_prefix_marks = [], tp_rx_sessions = [],
      tp_tx_sessions = [], tp_pending_tx_frames = [], tp_per_sa = [],
      tp_metrics_of = metrics_init\<rparr>"

section \<open>Anomaly metrics\<close>

definition abort_ratio :: "tp_metrics \<Rightarrow> rat" where
  "abort_ratio m =
     (let total = tm_rx_abort m + tm_rx_rts m + tm_rx_cts m in
      if total = 0 then 0 else of_int (tm_rx_abort m) / of_int total)"

definition is_suspect :: "tp_metrics \<Rightarrow> int \<Rightarrow> rat \<Rightarrow> bool" where
  "is_suspect m min_frames ratio_threshold =
     (if tm_rx_unsolicited_cts m > 0 then True
      else if tm_rx_abort m + tm_rx_rts m + tm_rx_cts m < min_frames then False
      else abort_ratio m > ratio_threshold)"

text \<open>\<open>self.anomaly_metrics.<counter> += 1\<close>\<close>

definition count_metric :: "(tp_metrics \<Rightarrow> tp_metrics) \<Rightarrow> tp \<Rightarrow> tp" where
  "count_metric f st = st\<lparr>tp_metrics_of := f (tp_metrics_of st)\<rparr>"

section \<open>Addresses and frame classification\<close>

definition set_my_address :: "tp \<Rightarrow> int \<Rightarrow> tp \<times> unit py" where
  "set_my_address st a =
     (if \<not> (0 \<le> a \<and> a \<le> 0xFF) then (st, Inl ValueError)
      else (st\<lparr>tp_my_address := a\<rparr>, Inr ()))"

definition ctrl_targets_sender :: "can_frame \<Rightarrow> bool" where
  "ctrl_targets_sender frame =
     (if length (frame_data frame) < 1 then False
      else byte_at (frame_data frame) 0 \<in> {TP_CTRL_CTS, TP_CTRL_ACK, TP_CTRL_ABORT})"

definition pgn_from_tp_cm :: "can_frame \<Rightarrow> int" where
  "pgn_from_tp_cm frame =
     (if length (frame_data frame) < 8 then 0 else from_le (py_slice (frame_data frame) 5 8))"

section \<open>Session slots\<close>

text \<open>\<open>self._per_sa_sessions[str(sa)]\<close>: a Counter answers 0 for a missing key.\<close>

definition counter_get :: "('k, int) dict \<Rightarrow> 'k \<Rightarrow> int" where
  "counter_get c k = (case dget c k of None \<Rightarrow> 0 | Some n \<Rightarrow> n)"

abbreviation per_sa :: "tp \<Rightarrow> int \<Rightarrow> int" where
  "per_sa st sa \<equiv> counter_get (tp_per_sa st) sa"

definition drop_slot :: "tp \<Rightarrow> int \<Rightarrow> tp" where
  "drop_slot st sa =
     (if per_sa st sa \<le> 1 then st\<lparr>tp_per_sa := dpop sa (tp_per_sa st)\<rparr>
      else st\<lparr>tp_per_sa := dset sa (per_sa st sa - 1) (tp_per_sa st)\<rparr>)"

definition release_session_slot :: "tp \<Rightarrow> tab_key \<Rightarrow> rsession option \<Rightarrow> tp" where
  "release_session_slot st key session =
     (case session of
        None \<Rightarrow> st\<lparr>tp_rx_sessions := snd (tab_pop (tp_rx_sessions st) key)\<rparr>
      | Some s \<Rightarrow>
          (case tab_pop (tp_rx_sessions st) (Full (session_key s)) of
             (Some removed, t) \<Rightarrow> drop_slot (st\<lparr>tp_rx_sessions := t\<rparr>) (rs_source_address s)
           | (None, _) \<Rightarrow>
               (case tab_pop (tp_rx_sessions st) key of
                  (Some removed, t) \<Rightarrow> drop_slot (st\<lparr>tp_rx_sessions := t\<rparr>) (rs_source_address s)
                | (None, _) \<Rightarrow> st)))"

definition rx_expired :: "seconds \<Rightarrow> rsession \<Rightarrow> bool" where
  "rx_expired now s \<longleftrightarrow>
     now - rs_last_activity_time s > (if \<not> rs_is_bam s then T4_TIMEOUT_SEC else T1_TIMEOUT_SEC)"

definition reap_stale_sessions :: "tp \<Rightarrow> seconds \<Rightarrow> tp \<times> nat" where
  "reap_stale_sessions st now =
     (let expired = dkeys_where (\<lambda>k s. rx_expired now s) (tp_rx_sessions st) in
      (fold (\<lambda>k st. release_session_slot st (Full k) (tab_get (tp_rx_sessions st) (Full k))) expired st,
       length expired))"

text \<open>\<open>live_prefix\<close> and the candidates of a data packet: the entries of one (source,
  destination, channel), in insertion order.\<close>

definition prefix_sessions :: "rx_table \<Rightarrow> rx_prefix \<Rightarrow> (rx_key \<times> rsession) list" where
  "prefix_sessions t p = filter (\<lambda>(k, s). prefix_of k = p) t"

definition check_prefix_collision_rate ::
  "rx_prefix marks \<Rightarrow> rx_prefix \<Rightarrow> seconds \<Rightarrow> bool \<times> rx_prefix marks" where
  "check_prefix_collision_rate marks p now =
     (case dget marks p of
        None \<Rightarrow> (True, dset p (now, 1) marks)
      | Some (window_start, count) \<Rightarrow>
          if now - window_start > PREFIX_COLLISION_WINDOW_S then (True, dset p (now, 1) marks)
          else if count \<ge> PREFIX_COLLISION_BURST then (False, marks)
          else (True, dset p (window_start, count + 1) marks))"

definition evict_oldest :: "tp \<Rightarrow> rx_key \<Rightarrow> tp" where
  "evict_oldest st key =
     (if length (tp_rx_sessions st) \<ge> MAX_CONCURRENT_SESSIONS
        \<and> \<not> tab_contains (tp_rx_sessions st) (Full key)
      then (case oldest_key rs_last_activity_time (tp_rx_sessions st) of
              None \<Rightarrow> st
            | Some k \<Rightarrow> release_session_slot st (Full k) (tab_get (tp_rx_sessions st) (Full k)))
      else st)"

definition quota_exceeded :: "tp \<Rightarrow> rx_key \<Rightarrow> int \<Rightarrow> bool" where
  "quota_exceeded st key sa \<longleftrightarrow>
     \<not> tab_contains (tp_rx_sessions st) (Full key) \<and> per_sa st sa \<ge> MAX_SESSIONS_PER_SA"

definition open_slot :: "tp \<Rightarrow> rx_key \<Rightarrow> rsession \<Rightarrow> int \<Rightarrow> tp" where
  "open_slot st key s sa =
     st\<lparr>tp_rx_sessions := tab_setitem (tp_rx_sessions st) (Full key) s,
        tp_per_sa := dset sa (per_sa st sa + 1) (tp_per_sa st)\<rparr>"

section \<open>Frames the receiver sends\<close>

definition rx_reply :: "tp \<Rightarrow> int \<Rightarrow> string \<Rightarrow> bytes \<Rightarrow> tick \<Rightarrow> can_frame py" where
  "rx_reply st peer ch d now =
     create_tx ch (0x1CEC0000 OR push_bit 8 peer OR (tp_my_address st AND 0xFF)) d (tk_ns now)"

text \<open>\<open>ctrl, b1, b2, 0xFF, 0xFF, pgn\<close>: the bytes of a TP.CM_CTS.\<close>

definition cts_bytes :: "int \<Rightarrow> int \<Rightarrow> int \<Rightarrow> bytes py" where
  "cts_bytes grant seq pgn =
     py_bind (byte_of grant) (\<lambda>g. py_bind (byte_of seq) (\<lambda>n. py_bind (to_le 3 pgn) (\<lambda>p.
       Inr ([word_of_int TP_CTRL_CTS, g, n, 0xFF, 0xFF] @ p))))"

definition create_cts_frame :: "tp \<Rightarrow> rsession \<Rightarrow> tick \<Rightarrow> can_frame py" where
  "create_cts_frame st s now =
     (let grant = rs_total_packets s;
          grant = (if rs_max_packets_per_cts s > 0 \<and> rs_max_packets_per_cts s < rs_total_packets s
                   then min grant (rs_max_packets_per_cts s) else grant);
          rx_window = rs_rx_cts_window s;
          grant = (if rx_window > 0 then min grant rx_window else grant);
          grant = min grant MAX_CTS_PACKET_COUNT in
      py_bind (cts_bytes (max 1 grant) (rs_expected_sequence s) (rs_target_pgn s)) (\<lambda>d.
        rx_reply st (rs_source_address s) (rs_channel_id s) d now))"

definition abort_bytes :: "int \<Rightarrow> int \<Rightarrow> bytes py" where
  "abort_bytes reason pgn =
     py_bind (byte_of reason) (\<lambda>r. py_bind (to_le 3 pgn) (\<lambda>p.
       Inr ([word_of_int TP_CTRL_ABORT, r, 0xFF, 0xFF, 0xFF] @ p)))"

definition create_abort_frame :: "tp \<Rightarrow> rsession \<Rightarrow> int \<Rightarrow> tick \<Rightarrow> tp \<times> can_frame option py" where
  "create_abort_frame st s reason now =
     (if rs_is_bam s then (st, Inr None)
      else
        let st = count_metric (\<lambda>m. m\<lparr>tm_tx_abort_emitted := tm_tx_abort_emitted m + 1\<rparr>) st in
        (st, py_bind (abort_bytes reason (rs_target_pgn s)) (\<lambda>d.
               py_bind (rx_reply st (rs_source_address s) (rs_channel_id s) d now) (\<lambda>f.
                 Inr (Some f)))))"

type_synonym rx_result = "completed_message option \<times> can_frame option"

section \<open>TP.CM: announcements, requests and aborts\<close>

definition new_rsession ::
  "int \<Rightarrow> int \<Rightarrow> int \<Rightarrow> int \<Rightarrow> int \<Rightarrow> bool \<Rightarrow> string \<Rightarrow> int \<Rightarrow> int \<Rightarrow> seconds \<Rightarrow> rsession" where
  "new_rsession sa da pgn total_bytes total_packets bam ch window max_cts now =
     \<lparr>rs_source_address = sa, rs_destination_address = da, rs_target_pgn = pgn,
      rs_total_bytes = total_bytes, rs_total_packets = total_packets, rs_is_bam = bam,
      rs_expected_sequence = 1, rs_received_bytes = [], rs_last_activity_time = now,
      rs_channel_id = ch, rs_rx_cts_window = window, rs_max_packets_per_cts = max_cts\<rparr>"

text \<open>What an announcement does with the sessions it collides with; \<open>False\<close> when the collision
  gate protects the live session and the newcomer is dropped.\<close>

definition bam_collision :: "tp \<Rightarrow> rx_key \<Rightarrow> seconds \<Rightarrow> tp \<times> bool" where
  "bam_collision st key now =
     (case tab_get (tp_rx_sessions st) (Full key) of
        Some old_bam \<Rightarrow> (release_session_slot st (Full key) (Some old_bam), True)
      | None \<Rightarrow>
          (case prefix_sessions (tp_rx_sessions st) (prefix_of key) of
             [] \<Rightarrow> (st, True)
           | (live_key, live) # _ \<Rightarrow>
               (case check_prefix_collision_rate (tp_prefix_marks st) (prefix_of key) now of
                  (ok, marks) \<Rightarrow>
                    if \<not> ok then (st\<lparr>tp_prefix_marks := marks\<rparr>, False)
                    else (release_session_slot (st\<lparr>tp_prefix_marks := marks\<rparr>) (Full live_key)
                            (Some live), True))))"

definition handle_bam ::
  "tp \<Rightarrow> string \<Rightarrow> int \<Rightarrow> int \<Rightarrow> int \<Rightarrow> int \<Rightarrow> int \<Rightarrow> tick \<Rightarrow> tp" where
  "handle_bam st ch sa da total_bytes total_packets target_pgn now =
     (let st = count_metric (\<lambda>m. m\<lparr>tm_rx_bam := tm_rx_bam m + 1\<rparr>) st;
          key = (sa, da, ch, target_pgn) in
      if da \<noteq> 255 then st
      else (case bam_collision st key (tk_now now) of (st, proceed) \<Rightarrow>
        if \<not> proceed then st
        else if quota_exceeded st key sa then st
        else open_slot (evict_oldest st key) key
               (new_rsession sa da target_pgn total_bytes total_packets True ch 0 0xFF (tk_now now))
               sa))"

text \<open>The same for a request to send: the session that loses is aborted, and a protected one
  has the newcomer aborted (\<open>Inr\<close> of the bool tells whether the request goes on).\<close>

definition rts_collision ::
  "tp \<Rightarrow> rx_key \<Rightarrow> int \<Rightarrow> int \<Rightarrow> tick \<Rightarrow> tp \<times> (bool \<times> can_frame option) py" where
  "rts_collision st key total_bytes total_packets now =
     (case tab_get (tp_rx_sessions st) (Full key) of
        Some old \<Rightarrow>
          act_bind (create_abort_frame st old ABORT_REASON_SESSION_COLLISION now) (\<lambda>st abort_frame.
            (release_session_slot st (Full key) (Some old), Inr (True, abort_frame)))
      | None \<Rightarrow>
          (case prefix_sessions (tp_rx_sessions st) (prefix_of key) of
             [] \<Rightarrow> (st, Inr (True, None))
           | (live_key, live) # _ \<Rightarrow>
               (case check_prefix_collision_rate (tp_prefix_marks st) (prefix_of key) (tk_now now) of
                  (ok, marks) \<Rightarrow>
                    let st = st\<lparr>tp_prefix_marks := marks\<rparr> in
                    if \<not> ok then
                      (case key of (sa, da, ch, pgn) \<Rightarrow>
                        act_bind (create_abort_frame st
                            (new_rsession sa da pgn total_bytes total_packets False ch 0 0xFF (tk_now now))
                            ABORT_REASON_SESSION_COLLISION now)
                          (\<lambda>st storm_abort. (st, Inr (False, storm_abort))))
                    else
                      act_bind (create_abort_frame st live ABORT_REASON_SESSION_COLLISION now)
                        (\<lambda>st abort_frame.
                          (release_session_slot st (Full live_key) (Some live),
                           Inr (True, abort_frame))))))"

text \<open>The new session and its first grant; when a session was aborted for it, the abort takes the
  response slot and the grant is queued.\<close>

definition grant_rts ::
  "tp \<Rightarrow> can_frame \<Rightarrow> int \<Rightarrow> int \<Rightarrow> int \<Rightarrow> int \<Rightarrow> int \<Rightarrow> can_frame option \<Rightarrow> tick \<Rightarrow> tp \<times> rx_result py"
  where
  "grant_rts st frame sa da total_bytes total_packets target_pgn abort_frame now =
     (let ch = frame_channel_id frame; key = (sa, da, ch, target_pgn);
          st = evict_oldest st key;
          max_cts = (if length (frame_data frame) \<ge> 5 \<and> byte_at (frame_data frame) 4 > 0
                     then byte_at (frame_data frame) 4 else 0xFF);
          s = new_rsession sa da target_pgn total_bytes total_packets False ch
                (tp_rx_cts_window st) max_cts (tk_now now);
          st = open_slot st key s sa in
      case create_cts_frame st s now of
        Inl e \<Rightarrow> (st, Inl e)
      | Inr cts \<Rightarrow>
          (case abort_frame of
             Some a \<Rightarrow>
               (st\<lparr>tp_pending_tx_frames := tp_pending_tx_frames st @ [cts]\<rparr>, Inr (None, Some a))
           | None \<Rightarrow> (st, Inr (None, Some cts))))"

definition handle_rts ::
  "tp \<Rightarrow> can_frame \<Rightarrow> int \<Rightarrow> int \<Rightarrow> int \<Rightarrow> int \<Rightarrow> int \<Rightarrow> tick \<Rightarrow> tp \<times> rx_result py" where
  "handle_rts st frame sa da total_bytes total_packets target_pgn now =
     (let st = count_metric (\<lambda>m. m\<lparr>tm_rx_rts := tm_rx_rts m + 1\<rparr>) st;
          key = (sa, da, frame_channel_id frame, target_pgn) in
      if da = 255 \<or> da \<noteq> tp_my_address st then (st, Inr (None, None))
      else act_bind (rts_collision st key total_bytes total_packets now) (\<lambda>st (proceed, abort_frame).
        if \<not> proceed then (st, Inr (None, abort_frame))
        else if quota_exceeded st key sa then (st, Inr (None, abort_frame))
        else grant_rts st frame sa da total_bytes total_packets target_pgn abort_frame now))"

definition handle_cm_abort :: "tp \<Rightarrow> rx_key \<Rightarrow> tp" where
  "handle_cm_abort st key =
     (let st = count_metric (\<lambda>m. m\<lparr>tm_rx_abort := tm_rx_abort m + 1\<rparr>) st in
      release_session_slot st (Full key) (tab_get (tp_rx_sessions st) (Full key)))"

text \<open>The length checks an announcement or a request has to pass.\<close>

definition tp_length_ok :: "int \<Rightarrow> int \<Rightarrow> bool" where
  "tp_length_ok total_bytes total_packets \<longleftrightarrow>
     1 \<le> total_bytes \<and> total_bytes \<le> 1785 \<and> total_packets \<noteq> 0 \<and>
     total_packets = (total_bytes + 6) div 7"

definition handle_tp_cm :: "tp \<Rightarrow> can_frame \<Rightarrow> int \<Rightarrow> int \<Rightarrow> tick \<Rightarrow> tp \<times> rx_result py" where
  "handle_tp_cm st frame sa da now =
     (let d = frame_data frame;
          ctrl = byte_at d 0;
          total_bytes = from_le (py_slice d 1 3);
          total_packets = byte_at d 3;
          target_pgn = from_le (py_slice d 5 8);
          key = (sa, da, frame_channel_id frame, target_pgn) in
      if ctrl \<in> {TP_CTRL_BAM, TP_CTRL_RTS} \<and> \<not> tp_length_ok total_bytes total_packets
        then (st, Inr (None, None))
      else
        let st = fst (reap_stale_sessions st (tk_now now)) in
        if ctrl = TP_CTRL_BAM then
          (handle_bam st (frame_channel_id frame) sa da total_bytes total_packets target_pgn now,
           Inr (None, None))
        else if ctrl = TP_CTRL_RTS then
          handle_rts st frame sa da total_bytes total_packets target_pgn now
        else if ctrl = TP_CTRL_ABORT then (handle_cm_abort st key, Inr (None, None))
        else (st, Inr (None, None)))"

section \<open>TP.DT: data packets\<close>

definition release_all :: "tp \<Rightarrow> (rx_key \<times> rsession) list \<Rightarrow> tp" where
  "release_all st cs = fold (\<lambda>(k, s) st. release_session_slot st (Full k) (Some s)) cs st"

definition drop_ambiguous :: "tp \<Rightarrow> (rx_key \<times> rsession) list \<Rightarrow> tp" where
  "drop_ambiguous st cs =
     release_all (count_metric (\<lambda>m. m\<lparr>tm_ambiguous_dt_drop := tm_ambiguous_dt_drop m + 1\<rparr>) st) cs"

text \<open>The candidates are the entries of the prefix; more than one, and the sequence number
  decides; if it does not, all that match are dropped.\<close>

definition lookup_dt_session ::
  "tp \<Rightarrow> int \<Rightarrow> int \<Rightarrow> string \<Rightarrow> int option \<Rightarrow> tp \<times> (rx_key \<times> rsession) option" where
  "lookup_dt_session st sa da ch seq_num =
     (case prefix_sessions (tp_rx_sessions st) (sa, da, ch) of
        [] \<Rightarrow> (st, None)
      | [c] \<Rightarrow> (st, Some c)
      | candidates \<Rightarrow>
          (case seq_num of
             None \<Rightarrow> (drop_ambiguous st candidates, None)
           | Some n \<Rightarrow>
               (case filter (\<lambda>(k, s). rs_expected_sequence s = n) candidates of
                  [] \<Rightarrow> (st, None)
                | [c] \<Rightarrow> (st, Some c)
                | seq_matches \<Rightarrow> (drop_ambiguous st seq_matches, None))))"

definition ack_bytes :: "int \<Rightarrow> int \<Rightarrow> int \<Rightarrow> bytes py" where
  "ack_bytes total_bytes total_packets pgn =
     py_bind (to_le 2 total_bytes) (\<lambda>n. py_bind (byte_of total_packets) (\<lambda>k.
       py_bind (to_le 3 pgn) (\<lambda>p. Inr ([word_of_int TP_CTRL_ACK] @ n @ [k, 0xFF] @ p))))"

text \<open>The session is an object of the table: what the code assigns to it stays assigned even if
  building the reply raises.\<close>

definition append_packet :: "rsession \<Rightarrow> bytes \<Rightarrow> seconds \<Rightarrow> rsession" where
  "append_packet s payload now =
     s\<lparr>rs_received_bytes := rs_received_bytes s @
         py_prefix payload (rs_total_bytes s - int (length (rs_received_bytes s))),
       rs_expected_sequence := rs_expected_sequence s + 1,
       rs_last_activity_time := now\<rparr>"

definition transfer_complete :: "rsession \<Rightarrow> bool" where
  "transfer_complete s \<longleftrightarrow>
     rs_expected_sequence s > rs_total_packets s \<or>
     int (length (rs_received_bytes s)) \<ge> rs_total_bytes s"

definition complete_transfer ::
  "tp \<Rightarrow> can_frame \<Rightarrow> rx_key \<Rightarrow> rsession \<Rightarrow> tick \<Rightarrow> tp \<times> rx_result py" where
  "complete_transfer st frame key s now =
     (let msg = \<lparr>cm_source_address = rs_source_address s,
                 cm_destination_address = rs_destination_address s, cm_pgn = rs_target_pgn s,
                 cm_data = py_prefix (rs_received_bytes s) (rs_total_bytes s),
                 cm_timestamp_ns = frame_timestamp_ns frame,
                 cm_channel_id = frame_channel_id frame\<rparr>;
          resp = (if \<not> rs_is_bam s \<and> rs_destination_address s = tp_my_address st
                  then py_bind (ack_bytes (rs_total_bytes s) (rs_total_packets s) (rs_target_pgn s))
                         (\<lambda>d. py_bind (rx_reply st (rs_source_address s) (frame_channel_id frame) d now)
                           (\<lambda>f. Inr (Some f)))
                  else Inr None) in
      (case resp of
         Inl e \<Rightarrow> (st, Inl e)
       | Inr r \<Rightarrow> (release_session_slot st (Full key) (Some s), Inr (Some msg, r))))"

text \<open>The follow-up grant: none in the middle of a window.\<close>

definition next_cts ::
  "tp \<Rightarrow> can_frame \<Rightarrow> rsession \<Rightarrow> tick \<Rightarrow> can_frame option py" where
  "next_cts st frame s now =
     (if \<not> rs_is_bam s \<and> rs_destination_address s = tp_my_address st then
        let rx_window = (if rs_rx_cts_window s \<noteq> 0 then rs_rx_cts_window s
                         else MAX_CTS_PACKET_COUNT) in
        if rx_window > 0 \<and> (rs_expected_sequence s - 1) mod rx_window = 0 then
          let remaining = rs_total_packets s - (rs_expected_sequence s - 1);
              grant = min (min rx_window remaining) MAX_CTS_PACKET_COUNT in
          py_bind (cts_bytes grant (rs_expected_sequence s) (rs_target_pgn s)) (\<lambda>d.
            py_bind (rx_reply st (rs_source_address s) (frame_channel_id frame) d now) (\<lambda>f.
              Inr (Some f)))
        else Inr None
      else Inr None)"

definition handle_tp_dt :: "tp \<Rightarrow> can_frame \<Rightarrow> int \<Rightarrow> int \<Rightarrow> tick \<Rightarrow> tp \<times> rx_result py" where
  "handle_tp_dt st frame sa da now =
     (let seq_num = byte_at (frame_data frame) 0;
          payload = py_slice (frame_data frame) 1 8 in
      case lookup_dt_session st sa da (frame_channel_id frame) (Some seq_num) of
        (st, None) \<Rightarrow> (st, Inr (None, None))
      | (st, Some (key, s)) \<Rightarrow>
          if rx_expired (tk_now now) s then
            act_bind (create_abort_frame (release_session_slot st (Full key) (Some s)) s
                ABORT_REASON_TIMEOUT now) (\<lambda>st f. (st, Inr (None, f)))
          else if seq_num \<noteq> rs_expected_sequence s then
            act_bind (create_abort_frame (release_session_slot st (Full key) (Some s)) s
                ABORT_REASON_SEQUENCE_ERROR now) (\<lambda>st f. (st, Inr (None, f)))
          else
            let s = append_packet s payload (tk_now now);
                st = st\<lparr>tp_rx_sessions := tab_setitem (tp_rx_sessions st) (Full key) s\<rparr> in
            if transfer_complete s then complete_transfer st frame key s now
            else (st, py_bind (next_cts st frame s now) (\<lambda>f. Inr (None, f))))"

section \<open>Reset and statistics\<close>

definition reset_sessions :: "tp \<Rightarrow> tp" where
  "reset_sessions st = st\<lparr>tp_rx_sessions := [], tp_tx_sessions := [], tp_per_sa := [],
     tp_pending_tx_frames := [], tp_prefix_marks := []\<rparr>"

definition session_count :: "tp \<Rightarrow> nat" where
  "session_count st = length (tp_rx_sessions st)"

definition take_pending_tx_frames :: "tp \<Rightarrow> tp \<times> can_frame list" where
  "take_pending_tx_frames st = (st\<lparr>tp_pending_tx_frames := []\<rparr>, tp_pending_tx_frames st)"

section \<open>The collision gate\<close>

interpretation collision: rate_gate check_prefix_collision_rate PREFIX_COLLISION_WINDOW_S PREFIX_COLLISION_BURST
  by unfold_locales (simp_all add: check_prefix_collision_rate_def PREFIX_COLLISION_BURST_def)

end
