(* ===== verification/TransportRx.thy ===== *)
theory TransportRx
  imports Transport
begin

text \<open>
  The receiver of \<open>src/protocols/j1939/transport.py\<close>: the identifiers of the frames it sends, the
  invariant of its session table and of the per-source counters, and what every handler does to
  them.
\<close>

section \<open>Identifiers\<close>

lemma or_low:
  "0 \<le> x \<Longrightarrow> x < 2 ^ n \<Longrightarrow> (a * 2 ^ n) OR x = a * 2 ^ n + (x :: int)"
  using push_or [of x n a] by (simp add: push_bit_eq_mult)

lemma tp_ids:
  assumes "0 \<le> da" "da < 256" "0 \<le> sa" "sa < 256"
  shows "0x1CEC0000 OR push_bit 8 da OR sa = id_of 7 0 0 0xEC da sa"
    "0x1CEB0000 OR push_bit 8 da OR sa = id_of 7 0 0 0xEB da sa"
    "0x1CECFF00 OR sa = id_of 7 0 0 0xEC 255 sa"
    "0x1CEBFF00 OR sa = id_of 7 0 0 0xEB 255 sa"
proof -
  have low: "push_bit 8 da OR sa = da * 256 + sa" using push_or [of sa 8 da] assms by simp
  have "(0x1CEC * 2 ^ 16) OR (da * 256 + sa) = 0x1CEC * 2 ^ 16 + (da * 256 + sa)"
    "(0x1CEB * 2 ^ 16) OR (da * 256 + sa) = 0x1CEB * 2 ^ 16 + (da * 256 + sa)"
    "(0x1CECFF * 2 ^ 8) OR sa = 0x1CECFF * 2 ^ 8 + sa"
    "(0x1CEBFF * 2 ^ 8) OR sa = 0x1CEBFF * 2 ^ 8 + sa"
    using assms by (intro or_low; simp)+
  then show "0x1CEC0000 OR push_bit 8 da OR sa = id_of 7 0 0 0xEC da sa"
    "0x1CEB0000 OR push_bit 8 da OR sa = id_of 7 0 0 0xEB da sa"
    "0x1CECFF00 OR sa = id_of 7 0 0 0xEC 255 sa"
    "0x1CEBFF00 OR sa = id_of 7 0 0 0xEB 255 sa"
    by (simp_all add: or.assoc low id_of_def)
qed

lemma parse_tp_id:
  assumes "0 \<le> da" "da < 256" "0 \<le> sa" "sa < 256"
  shows "parse_j1939_id (id_of 7 0 0 0xEC da sa) = (PGN_TP_CM, sa, Some da, 7)"
    "parse_j1939_id (id_of 7 0 0 0xEB da sa) = (PGN_TP_DT, sa, Some da, 7)"
  using assms by (simp_all add: parse_id_of pgn_of_def PGN_TP_CM_def PGN_TP_DT_def)

section \<open>Frames\<close>

text \<open>The frame the source's \<open>CanFrame.create\<close> builds, once its arguments pass the checks.\<close>

definition tx_frame :: "string \<Rightarrow> int \<Rightarrow> bytes \<Rightarrow> int \<Rightarrow> can_frame" where
  "tx_frame ch arb d ns =
    \<lparr>frame_channel_id = ch, frame_arbitration_id = arb, frame_dlc = int (length d),
     frame_data = d, frame_is_extended = True, frame_is_fd = False, frame_brs = False,
     frame_esi = False, frame_direction = ''tx'', frame_timestamp_ns = ns,
     frame_hardware_timestamp_ns = None, frame_host_timestamp_ns = None,
     frame_sequence = 0, frame_error_state = ''active'', frame_source = ''physical''\<rparr>"

lemma create_tx_frame:
  "channel_id_ok ch \<Longrightarrow> 0 \<le> arb \<Longrightarrow> arb < 2 ^ 29 \<Longrightarrow> length d \<le> 8 \<Longrightarrow>
   create_tx ch arb d ns = Inr (tx_frame ch arb d ns)"
  unfolding tx_frame_def by (rule create_tx_ok)

lemma tx_frame_simps [simp]:
  "frame_channel_id (tx_frame ch arb d ns) = ch"
  "frame_arbitration_id (tx_frame ch arb d ns) = arb"
  "frame_data (tx_frame ch arb d ns) = d"
  "frame_is_extended (tx_frame ch arb d ns)"
  "\<not> frame_is_fd (tx_frame ch arb d ns)"
  "frame_dlc (tx_frame ch arb d ns) = int (length d)"
  "frame_timestamp_ns (tx_frame ch arb d ns) = ns"
  by (simp_all add: tx_frame_def)

lemma tx_frame_wf:
  "channel_id_ok ch \<Longrightarrow> 0 \<le> arb \<Longrightarrow> arb < 2 ^ 29 \<Longrightarrow> length d \<le> 8 \<Longrightarrow> frame_wf (tx_frame ch arb d ns)"
  using create_tx_frame [of ch arb d ns] create_Inr(1)
  unfolding create_tx_def by blast

text \<open>Every frame the engine sends: well formed, eight bytes, from its own address, priority 7.\<close>

definition tp_sends :: "int \<Rightarrow> int \<Rightarrow> can_frame \<Rightarrow> bool" where
  "tp_sends my ctrl f \<longleftrightarrow> frame_wf f \<and> length (frame_data f) = 8 \<and>
     byte_at (frame_data f) 0 = ctrl \<and>
     (\<exists>peer. parse_j1939_id (frame_arbitration_id f) = (PGN_TP_CM, my mod 256, Some peer, 7))"

text \<open>The reply the receiver builds, when nothing it is built from is out of range.\<close>

definition rx_reply_frame :: "tp \<Rightarrow> int \<Rightarrow> string \<Rightarrow> bytes \<Rightarrow> tick \<Rightarrow> can_frame" where
  "rx_reply_frame st peer ch d now =
     tx_frame ch (id_of 7 0 0 0xEC peer (tp_my_address st mod 256)) d (tk_ns now)"

lemma rx_reply_ok:
  assumes "0 \<le> peer" "peer < 256" "channel_id_ok ch" "length d = 8"
  shows "rx_reply st peer ch d now = Inr (rx_reply_frame st peer ch d now)"
  unfolding rx_reply_def rx_reply_frame_def and_masks
  using assms id_of_range [of 0 0 "0xEC" peer "tp_my_address st mod 256" 7]
  by (simp add: tp_ids create_tx_frame)

lemma rx_reply_sends:
  assumes "0 \<le> peer" "peer < 256" "channel_id_ok ch" "length d = 8" "byte_at d 0 = ctrl"
  shows "tp_sends (tp_my_address st) ctrl (rx_reply_frame st peer ch d now)"
  unfolding tp_sends_def rx_reply_frame_def
  using assms id_of_range [of 0 0 "0xEC" peer "tp_my_address st mod 256" 7]
  by (simp add: parse_tp_id tx_frame_wf)

section \<open>The invariant\<close>

text \<open>A live session agrees with its key, declares a legal transfer and has received all the
  packets before the expected one, seven bytes each.\<close>

definition rsession_ok :: "rx_key \<Rightarrow> rsession \<Rightarrow> bool" where
  "rsession_ok k s \<longleftrightarrow>
     k = session_key s \<and>
     0 \<le> rs_source_address s \<and> rs_source_address s < 256 \<and>
     0 \<le> rs_target_pgn s \<and> rs_target_pgn s < 2 ^ 24 \<and> channel_id_ok (rs_channel_id s) \<and>
     tp_length_ok (rs_total_bytes s) (rs_total_packets s) \<and>
     1 \<le> rs_expected_sequence s \<and> rs_expected_sequence s \<le> rs_total_packets s \<and>
     int (length (rs_received_bytes s)) = 7 * (rs_expected_sequence s - 1) \<and>
     1 \<le> rs_max_packets_per_cts s"

definition counts_agree :: "rx_table \<Rightarrow> (int, int) dict \<Rightarrow> bool" where
  "counts_agree t c \<longleftrightarrow>
     (\<forall>sa. counter_get c sa = int (length (filter (\<lambda>k. fst k = sa) (dkeys t))))"

definition slots_ok :: "rx_table \<Rightarrow> (int, int) dict \<Rightarrow> bool" where
  "slots_ok t c \<longleftrightarrow>
     dwf t \<and> length t \<le> MAX_CONCURRENT_SESSIONS \<and> dquota fst (nat MAX_SESSIONS_PER_SA) t \<and>
     dall rsession_ok t \<and> counts_agree t c"

definition rx_inv :: "tp \<Rightarrow> bool" where
  "rx_inv st \<longleftrightarrow> slots_ok (tp_rx_sessions st) (tp_per_sa st)"

lemma rx_inv_wf: "rx_inv st \<Longrightarrow> dwf (tp_rx_sessions st)"
  by (simp add: rx_inv_def slots_ok_def)

lemma rx_inv_session: "rx_inv st \<Longrightarrow> dget (tp_rx_sessions st) k = Some s \<Longrightarrow> rsession_ok k s"
  by (auto simp: rx_inv_def slots_ok_def dest: dallD)

lemma rsession_ok_key: "rsession_ok k s \<Longrightarrow> session_key s = k \<and> fst k = rs_source_address s"
  by (simp add: rsession_ok_def session_key_def)

lemma counter_get_dset: "counter_get (dset k n c) = (counter_get c)(k := n)"
  by (auto simp: counter_get_def fun_eq_iff)

lemma counter_get_dpop: "counter_get (dpop k c) = (counter_get c)(k := 0)"
  by (auto simp: counter_get_def fun_eq_iff)

lemma counts_agree_release:
  assumes "dwf t" "k \<in> dom (dget t)" "counts_agree t c" "fst k = sa"
  shows "counts_agree (dpop k t)
    (if counter_get c sa \<le> 1 then dpop sa c else dset sa (counter_get c sa - 1) c)"
  unfolding counts_agree_def
proof
  fix x
  let ?n = "\<lambda>t x. length (filter (\<lambda>k. fst k = x) (dkeys t))"
  have c: "counter_get c x = int (?n t x)" "counter_get c sa = int (?n t sa)"
    using assms(3) by (simp_all only: counts_agree_def)
  have n: "?n t x = ?n (dpop k t) x + (if fst k = x then 1 else 0)"
    by (rule dict.count_discard [OF assms(1,2)])
  show "counter_get (if counter_get c sa \<le> 1 then dpop sa c else dset sa (counter_get c sa - 1) c) x =
      int (?n (dpop k t) x)"
    using c n assms(4) by (cases "x = sa") (simp_all add: counter_get_dset counter_get_dpop del: filter_map)
qed

lemma counts_agree_open:
  assumes "dwf t" "k \<notin> dom (dget t)" "counts_agree t c" "fst k = sa"
  shows "counts_agree (dset k s t) (dset sa (counter_get c sa + 1) c)"
  unfolding counts_agree_def
proof
  fix x
  let ?n = "\<lambda>t x. length (filter (\<lambda>k. fst k = x) (dkeys t))"
  have c: "counter_get c x = int (?n t x)" using assms(3) by (simp only: counts_agree_def)
  have "?n (dset k s t) x = ?n t x + (if fst k = x then 1 else 0)"
    by (rule dict.count_store_new [OF assms(1,2)])
  then show "counter_get (dset sa (counter_get c sa + 1) c) x = int (?n (dset k s t) x)"
    using c assms(4) by (auto simp: counter_get_dset simp del: filter_map)
qed

lemma counts_agree_replace:
  assumes "dwf t" "k \<in> dom (dget t)" "counts_agree t c"
  shows "counts_agree (dset k s t) c"
  using assms(3) unfolding counts_agree_def dict.count_store_old [OF assms(1,2)] .

lemma slots_ok_release:
  assumes "slots_ok t c" "k \<in> dom (dget t)" "fst k = sa"
  shows "slots_ok (dpop k t)
    (if counter_get c sa \<le> 1 then dpop sa c else dset sa (counter_get c sa - 1) c)"
  using assms counts_agree_release [of t k c sa] AList.length_delete_le [of k t]
  by (simp add: slots_ok_def dict.wf_discard dquota_dpop dall_dpop)

lemma slots_ok_open:
  assumes ok: "slots_ok t c" and k: "k \<notin> dom (dget t)" "fst k = sa"
    and "length t < MAX_CONCURRENT_SESSIONS" "counter_get c sa < MAX_SESSIONS_PER_SA"
    and s: "rsession_ok k s"
  shows "slots_ok (dset k s t) (dset sa (counter_get c sa + 1) c)"
proof -
  have wf: "dwf t" and agree: "counts_agree t c" and quota: "dquota fst (nat MAX_SESSIONS_PER_SA) t"
    using ok by (simp_all add: slots_ok_def)
  have "length (filter (\<lambda>k'. fst k' = fst k) (dkeys t)) < nat MAX_SESSIONS_PER_SA"
    using agree assms(5) k(2) unfolding counts_agree_def by (simp del: filter_map)
  then show ?thesis
    using ok s assms(4) dquota_dset_new [OF wf k(1) quota] counts_agree_open [OF wf k(1) agree k(2)]
    by (simp add: slots_ok_def dict.wf_store dall_dset length_dset_new [OF k(1)] del: filter_map)
qed

lemma slots_ok_replace:
  assumes "slots_ok t c" "k \<in> dom (dget t)" "rsession_ok k s"
  shows "slots_ok (dset k s t) c"
  using assms counts_agree_replace [of t k c s]
  by (simp add: slots_ok_def dict.wf_store dall_dset length_dset_old dquota_dset_old)

section \<open>Releasing, reaping, evicting\<close>

text \<open>What a slot operation leaves alone.\<close>

definition rx_frame :: "tp \<Rightarrow> tp \<Rightarrow> bool" where
  "rx_frame st st' \<longleftrightarrow>
     tp_my_address st' = tp_my_address st \<and> tp_channel_id st' = tp_channel_id st \<and>
     tp_rx_cts_window st' = tp_rx_cts_window st \<and> tp_tx_sessions st' = tp_tx_sessions st \<and>
     tp_pending_tx_frames st' = tp_pending_tx_frames st"

lemma rx_frame_refl [simp]: "rx_frame st st"
  by (simp add: rx_frame_def)

lemma rx_frame_trans: "rx_frame a b \<Longrightarrow> rx_frame b c \<Longrightarrow> rx_frame a c"
  by (simp add: rx_frame_def)

lemma drop_slot_fields [simp]:
  "tp_rx_sessions (drop_slot st sa) = tp_rx_sessions st"
  "tp_prefix_marks (drop_slot st sa) = tp_prefix_marks st"
  "tp_per_sa (drop_slot st sa) =
    (if per_sa st sa \<le> 1 then dpop sa (tp_per_sa st) else dset sa (per_sa st sa - 1) (tp_per_sa st))"
  "rx_frame st0 (drop_slot st sa) \<longleftrightarrow> rx_frame st0 st"
  by (simp_all add: drop_slot_def rx_frame_def)

lemma release_eq:
  "session_key s = k \<Longrightarrow> dget (tp_rx_sessions st) k = Some s' \<Longrightarrow>
   release_session_slot st (Full k) (Some s) =
     drop_slot (st\<lparr>tp_rx_sessions := dpop k (tp_rx_sessions st)\<rparr>) (rs_source_address s)"
  by (simp add: release_session_slot_def)

lemma release_inv:
  assumes "rx_inv st" "dget (tp_rx_sessions st) k = Some s'" "session_key s = k"
  shows "rx_inv (release_session_slot st (Full k) (Some s))"
    "tp_rx_sessions (release_session_slot st (Full k) (Some s)) = dpop k (tp_rx_sessions st)"
    "rx_frame st (release_session_slot st (Full k) (Some s))"
    "tp_prefix_marks (release_session_slot st (Full k) (Some s)) = tp_prefix_marks st"
proof -
  note eq = release_eq [OF assms(3,2)]
  have "fst k = rs_source_address s" using assms(3) by (auto simp: session_key_def)
  then show "rx_inv (release_session_slot st (Full k) (Some s))"
    using assms slots_ok_release [of "tp_rx_sessions st" "tp_per_sa st" k "rs_source_address s"]
    unfolding eq rx_inv_def by (cases "per_sa st (rs_source_address s) \<le> 1") (simp_all add: domI)
  show "tp_rx_sessions (release_session_slot st (Full k) (Some s)) = dpop k (tp_rx_sessions st)"
    "tp_prefix_marks (release_session_slot st (Full k) (Some s)) = tp_prefix_marks st"
    unfolding eq by simp_all
  show "rx_frame st (release_session_slot st (Full k) (Some s))"
    unfolding eq drop_slot_fields by (simp add: rx_frame_def)
qed

lemma dpop_missing: "dget d k = None \<Longrightarrow> dpop k d = d"
  by (simp add: AList.delete_id dom_map_of_conv_image_fst map_of_eq_None_iff)

text \<open>The same for a key that may be absent, as the reaper and a peer's abort use it.\<close>

lemma release_key:
  assumes "rx_inv st"
  shows "rx_inv (release_session_slot st (Full k) (dget (tp_rx_sessions st) k))"
    "tp_rx_sessions (release_session_slot st (Full k) (dget (tp_rx_sessions st) k)) =
      dpop k (tp_rx_sessions st)"
    "rx_frame st (release_session_slot st (Full k) (dget (tp_rx_sessions st) k))"
    "tp_prefix_marks (release_session_slot st (Full k) (dget (tp_rx_sessions st) k)) =
      tp_prefix_marks st"
proof -
  let ?r = "release_session_slot st (Full k) (dget (tp_rx_sessions st) k)"
  have "rx_inv ?r \<and> tp_rx_sessions ?r = dpop k (tp_rx_sessions st) \<and> rx_frame st ?r \<and>
      tp_prefix_marks ?r = tp_prefix_marks st"
  proof (cases "dget (tp_rx_sessions st) k")
    case None
    then show ?thesis
      using assms by (simp add: release_session_slot_def dpop_missing rx_inv_def rx_frame_def)
  next
    case (Some s)
    have "session_key s = k" using rx_inv_session [OF assms Some] by (simp add: rsession_ok_def)
    then show ?thesis unfolding Some using release_inv [OF assms Some] by blast
  qed
  then show "rx_inv ?r" "tp_rx_sessions ?r = dpop k (tp_rx_sessions st)" "rx_frame st ?r"
    "tp_prefix_marks ?r = tp_prefix_marks st" by blast+
qed

lemma reap_fold:
  "rx_inv st \<Longrightarrow>
   rx_inv (fold (\<lambda>k st. release_session_slot st (Full k) (dget (tp_rx_sessions st) k)) ks st) \<and>
   tp_rx_sessions (fold (\<lambda>k st. release_session_slot st (Full k) (dget (tp_rx_sessions st) k)) ks st) =
     dpop_all ks (tp_rx_sessions st) \<and>
   rx_frame st (fold (\<lambda>k st. release_session_slot st (Full k) (dget (tp_rx_sessions st) k)) ks st) \<and>
   tp_prefix_marks (fold (\<lambda>k st. release_session_slot st (Full k) (dget (tp_rx_sessions st) k)) ks st) =
     tp_prefix_marks st"
proof (induction ks arbitrary: st)
  case (Cons k ks)
  let ?st = "release_session_slot st (Full k) (dget (tp_rx_sessions st) k)"
  note step = release_key [OF Cons.prems, of k]
  show ?case
    using Cons.IH [OF step(1)] step(2-4) rx_frame_trans [OF step(3)]
    by (simp only: fold_Cons comp_apply dpop_all_Cons)
qed simp

lemma reap_inv:
  assumes "rx_inv st"
  shows "rx_inv (fst (reap_stale_sessions st now))"
    "tp_rx_sessions (fst (reap_stale_sessions st now)) =
      dpop_all (dkeys_where (\<lambda>k s. rx_expired now s) (tp_rx_sessions st)) (tp_rx_sessions st)"
    "rx_frame st (fst (reap_stale_sessions st now))"
    "tp_prefix_marks (fst (reap_stale_sessions st now)) = tp_prefix_marks st"
  unfolding reap_stale_sessions_def Let_def fst_conv tab_full using reap_fold [OF assms] by blast+

lemma evict_inv:
  assumes "rx_inv st" "dget (tp_rx_sessions st) key = None"
  shows "rx_inv (evict_oldest st key)"
    "tp_rx_sessions (evict_oldest st key) =
      make_room MAX_CONCURRENT_SESSIONS rs_last_activity_time (tp_rx_sessions st)"
    "rx_frame st (evict_oldest st key)"
proof -
  let ?t = "tp_rx_sessions st"
  have "rx_inv (evict_oldest st key) \<and>
      tp_rx_sessions (evict_oldest st key) = make_room MAX_CONCURRENT_SESSIONS rs_last_activity_time ?t \<and>
      rx_frame st (evict_oldest st key)"
  proof (cases "length ?t \<ge> MAX_CONCURRENT_SESSIONS")
    case full: True
    show ?thesis
    proof (cases "oldest_key rs_last_activity_time ?t")
      case None
      then show ?thesis using full assms by (simp add: evict_oldest_def make_room_def)
    next
      case (Some k)
      then show ?thesis
        using full release_key [OF assms(1), of k] assms(2)
        by (simp add: evict_oldest_def make_room_def)
    qed
  qed (use assms in \<open>simp add: evict_oldest_def\<close>)
  then show "rx_inv (evict_oldest st key)"
    "tp_rx_sessions (evict_oldest st key) = make_room MAX_CONCURRENT_SESSIONS rs_last_activity_time ?t"
    "rx_frame st (evict_oldest st key)" by blast+
qed

lemma open_inv:
  assumes inv: "rx_inv st" and new: "dget (tp_rx_sessions st) key = None" "fst key = sa"
    and quota: "\<not> quota_exceeded st key sa" and s: "rsession_ok key s"
  shows "rx_inv (open_slot (evict_oldest st key) key s sa)"
proof -
  let ?st = "evict_oldest st key"
  note ev = evict_inv [OF inv new(1)]
  have len: "length (tp_rx_sessions st) \<le> MAX_CONCURRENT_SESSIONS" and wf: "dwf (tp_rx_sessions st)"
    using inv by (simp_all add: rx_inv_def slots_ok_def)
  have free: "key \<notin> dom (dget (tp_rx_sessions ?st))"
    using make_room_dget new(1) unfolding ev(2) by fastforce
  have room: "length (tp_rx_sessions ?st) < MAX_CONCURRENT_SESSIONS"
    unfolding ev(2) by (rule make_room_size [OF wf len]) (simp add: MAX_CONCURRENT_SESSIONS_def)
  have agree: "per_sa x sa = int (length (filter (\<lambda>k. fst k = sa) (dkeys (tp_rx_sessions x))))"
    if "rx_inv x" for x
    using that unfolding rx_inv_def slots_ok_def counts_agree_def by blast
  have "per_sa ?st sa \<le> per_sa st sa"
    unfolding agree [OF ev(1)] agree [OF inv] ev(2) using make_room_count [OF wf] by (simp del: filter_map)
  then have "per_sa ?st sa < MAX_SESSIONS_PER_SA"
    using quota new(1) by (simp add: quota_exceeded_def)
  from slots_ok_open [OF ev(1) [unfolded rx_inv_def] free new(2) room this s] show ?thesis
    by (simp add: open_slot_def rx_inv_def)
qed

section \<open>Replies\<close>

lemma cts_bytes_ok:
  assumes "0 \<le> g" "g < 256" "0 \<le> n" "n < 256" "0 \<le> pgn" "pgn < 2 ^ 24"
  shows "cts_bytes g n pgn =
    Inr ([word_of_int TP_CTRL_CTS, word_of_int g, word_of_int n, 0xFF, 0xFF] @ le_bytes 3 pgn)"
  using assms by (simp add: cts_bytes_def to_le_def del: le_bytes_numeral_3)

lemma abort_bytes_ok:
  assumes "0 \<le> r" "r < 256" "0 \<le> pgn" "pgn < 2 ^ 24"
  shows "abort_bytes r pgn =
    Inr ([word_of_int TP_CTRL_ABORT, word_of_int r, 0xFF, 0xFF, 0xFF] @ le_bytes 3 pgn)"
  using assms by (simp add: abort_bytes_def to_le_def del: le_bytes_numeral_3)

lemma ack_bytes_ok:
  assumes "0 \<le> n" "n < 65536" "0 \<le> k" "k < 256" "0 \<le> pgn" "pgn < 2 ^ 24"
  shows "ack_bytes n k pgn =
    Inr ([word_of_int TP_CTRL_ACK] @ le_bytes 2 n @ [word_of_int k, 0xFF] @ le_bytes 3 pgn)"
  using assms by (simp add: ack_bytes_def to_le_def del: le_bytes_numeral_3 le_bytes_numeral_2)

text \<open>The number of packets the first CTS grants.\<close>

definition first_grant :: "rsession \<Rightarrow> int" where
  "first_grant s =
     max 1 (min (min (min (rs_total_packets s)
         (if rs_max_packets_per_cts s > 0 then rs_max_packets_per_cts s else rs_total_packets s))
       (if rs_rx_cts_window s > 0 then rs_rx_cts_window s else rs_total_packets s))
       MAX_CTS_PACKET_COUNT)"

lemma first_grant_range: "1 \<le> first_grant s" "first_grant s \<le> MAX_CTS_PACKET_COUNT"
  by (simp_all add: first_grant_def MAX_CTS_PACKET_COUNT_def)

lemma packets_range:
  "tp_length_ok n k \<Longrightarrow> 1 \<le> k \<and> k \<le> 255 \<and> 1 \<le> n \<and> n \<le> 1785 \<and> 7 * k < n + 7 \<and> n \<le> 7 * k"
  unfolding tp_length_ok_def by presburger

lemma create_cts_ok:
  assumes "rsession_ok k s"
  shows "create_cts_frame st s now = Inr (rx_reply_frame st (rs_source_address s) (rs_channel_id s)
      ([word_of_int TP_CTRL_CTS, word_of_int (first_grant s), word_of_int (rs_expected_sequence s), 0xFF, 0xFF]
        @ le_bytes 3 (rs_target_pgn s)) now)"
proof -
  have s: "0 \<le> rs_target_pgn s" "rs_target_pgn s < 2 ^ 24" "1 \<le> rs_expected_sequence s"
    "rs_expected_sequence s < 256" "1 \<le> rs_total_packets s"
    using assms packets_range [of "rs_total_bytes s" "rs_total_packets s"] by (auto simp: rsession_ok_def)
  have grant: "max 1 (min (if rs_rx_cts_window s > 0
        then min (if rs_max_packets_per_cts s > 0 \<and> rs_max_packets_per_cts s < rs_total_packets s
                  then min (rs_total_packets s) (rs_max_packets_per_cts s) else rs_total_packets s)
               (rs_rx_cts_window s)
        else (if rs_max_packets_per_cts s > 0 \<and> rs_max_packets_per_cts s < rs_total_packets s
              then min (rs_total_packets s) (rs_max_packets_per_cts s) else rs_total_packets s))
      MAX_CTS_PACKET_COUNT) = first_grant s"
    by (simp add: first_grant_def)
  show ?thesis
    unfolding create_cts_frame_def Let_def grant
    using assms s first_grant_range [of s]
    by (simp add: cts_bytes_ok rx_reply_ok rsession_ok_def MAX_CTS_PACKET_COUNT_def del: le_bytes_numeral_3)
qed

lemma create_abort_ok:
  assumes "0 \<le> rs_source_address s" "rs_source_address s < 256"
    "0 \<le> rs_target_pgn s" "rs_target_pgn s < 2 ^ 24" "channel_id_ok (rs_channel_id s)"
    "0 \<le> reason" "reason < 256"
  obtains st' f where "create_abort_frame st s reason now = (st', Inr f)"
    "rx_frame st st'" "tp_rx_sessions st' = tp_rx_sessions st" "tp_per_sa st' = tp_per_sa st"
    "tp_prefix_marks st' = tp_prefix_marks st"
    "\<And>g. f = Some g \<Longrightarrow> tp_sends (tp_my_address st) TP_CTRL_ABORT g"
proof (cases "rs_is_bam s")
  case True
  then show thesis by (intro that [of st None]) (simp_all add: create_abort_frame_def)
next
  case False
  define st' where "st' = count_metric (\<lambda>m. m\<lparr>tm_tx_abort_emitted := tm_tx_abort_emitted m + 1\<rparr>) st"
  define d where "d = [word_of_int TP_CTRL_ABORT, word_of_int reason, 0xFF, 0xFF, 0xFF] @ le_bytes 3 (rs_target_pgn s)"
  have d: "abort_bytes reason (rs_target_pgn s) = Inr d" "length d = 8" "byte_at d 0 = TP_CTRL_ABORT"
    using assms by (simp_all add: d_def abort_bytes_ok TP_CTRL_ABORT_def del: le_bytes_numeral_3)
  have same: "tp_my_address st' = tp_my_address st" by (simp add: st'_def count_metric_def)
  show thesis
  proof (rule that)
    show "create_abort_frame st s reason now =
        (st', Inr (Some (rx_reply_frame st' (rs_source_address s) (rs_channel_id s) d now)))"
      using False assms d by (simp add: create_abort_frame_def st'_def [symmetric] rx_reply_ok)
    show "tp_sends (tp_my_address st) TP_CTRL_ABORT g"
      if "Some (rx_reply_frame st' (rs_source_address s) (rs_channel_id s) d now) = Some g" for g
      using that rx_reply_sends [OF assms(1,2,5) d(2,3), of st' now] same by simp
  qed (simp_all add: st'_def count_metric_def rx_frame_def)
qed

lemma rx_inv_cong:
  "tp_rx_sessions st' = tp_rx_sessions st \<Longrightarrow> tp_per_sa st' = tp_per_sa st \<Longrightarrow> rx_inv st' = rx_inv st"
  by (simp add: rx_inv_def)

lemma count_metric_fields [simp]:
  "tp_my_address (count_metric f st) = tp_my_address st"
  "tp_channel_id (count_metric f st) = tp_channel_id st"
  "tp_rx_cts_window (count_metric f st) = tp_rx_cts_window st"
  "tp_prefix_marks (count_metric f st) = tp_prefix_marks st"
  "tp_rx_sessions (count_metric f st) = tp_rx_sessions st"
  "tp_tx_sessions (count_metric f st) = tp_tx_sessions st"
  "tp_pending_tx_frames (count_metric f st) = tp_pending_tx_frames st"
  "tp_per_sa (count_metric f st) = tp_per_sa st"
  "rx_inv (count_metric f st) = rx_inv st"
  "rx_frame st0 (count_metric f st) = rx_frame st0 st"
  by (simp_all add: count_metric_def rx_inv_def rx_frame_def)

lemma marks_update_fields [simp]:
  "rx_inv (st\<lparr>tp_prefix_marks := m\<rparr>) = rx_inv st"
  "rx_frame st0 (st\<lparr>tp_prefix_marks := m\<rparr>) = rx_frame st0 st"
  by (simp_all add: rx_inv_def rx_frame_def)

section \<open>Announcements and requests\<close>

text \<open>What the bytes of an 8-byte frame from a 29-bit identifier can hold.\<close>

definition cm_args_ok :: "int \<Rightarrow> string \<Rightarrow> int \<Rightarrow> bool" where
  "cm_args_ok sa ch pgn \<longleftrightarrow> 0 \<le> sa \<and> sa < 256 \<and> channel_id_ok ch \<and> 0 \<le> pgn \<and> pgn < 2 ^ 24"

lemma prefix_sessions_hd:
  assumes "dwf t" "prefix_sessions t p = (k, s) # rest"
  shows "dget t k = Some s" "prefix_of k = p"
proof -
  have "(k, s) \<in> set (prefix_sessions t p)" unfolding assms(2) by (rule list.set_intros(1))
  then have "(k, s) \<in> set t \<and> prefix_of k = p"
    unfolding prefix_sessions_def set_filter mem_Collect_eq prod.case .
  then show "dget t k = Some s" "prefix_of k = p" by (simp_all only: in_set_dget [OF assms(1)])
qed

lemma new_rsession_ok:
  assumes "cm_args_ok sa ch pgn" "tp_length_ok total_bytes total_packets" "1 \<le> max_cts"
  shows "rsession_ok (sa, da, ch, pgn)
    (new_rsession sa da pgn total_bytes total_packets bam ch window max_cts now)"
  using assms packets_range [OF assms(2)]
  by (simp add: rsession_ok_def new_rsession_def session_key_def cm_args_ok_def)

lemma bam_collision_inv:
  assumes "rx_inv st"
  obtains st' ok where "bam_collision st key now = (st', ok)" "rx_inv st'" "rx_frame st st'"
    "ok \<Longrightarrow> dget (tp_rx_sessions st') key = None"
proof (cases "dget (tp_rx_sessions st) key")
  case (Some old)
  have sk: "session_key old = key" using rx_inv_session [OF assms Some] by (simp add: rsession_ok_def)
  note rel = release_inv [OF assms Some sk]
  show thesis
    by (rule that [OF _ rel(1,3)]) (use Some rel(2) in \<open>simp_all add: bam_collision_def\<close>)
next
  case None
  show thesis
  proof (cases "prefix_sessions (tp_rx_sessions st) (prefix_of key)")
    case Nil
    then show thesis using None assms by (intro that [of st True]) (simp_all add: bam_collision_def)
  next
    case (Cons ks rest)
    obtain k live where ks: "ks = (k, live)" by (cases ks)
    obtain ok marks where gate: "check_prefix_collision_rate (tp_prefix_marks st) (prefix_of key) now = (ok, marks)"
      by (cases "check_prefix_collision_rate (tp_prefix_marks st) (prefix_of key) now")
    let ?st = "st\<lparr>tp_prefix_marks := marks\<rparr>"
    note hd = prefix_sessions_hd [OF rx_inv_wf [OF assms] Cons [unfolded ks]]
    have inv: "rx_inv ?st" using assms by simp
    have sk: "session_key live = k" using rx_inv_session [OF assms hd(1)] by (simp add: rsession_ok_def)
    have live: "dget (tp_rx_sessions ?st) k = Some live" using hd by simp
    note rel = release_inv [OF inv live sk]
    have eq: "bam_collision st key now =
        (if ok then (release_session_slot ?st (Full k) (Some live), True) else (?st, False))"
      by (simp add: bam_collision_def None Cons ks gate)
    have keep: "rx_frame st (release_session_slot ?st (Full k) (Some live))"
      by (rule rx_frame_trans [OF _ rel(3)]) simp
    show thesis
    proof (cases ok)
      case True
      show thesis by (rule that [OF _ rel(1) keep]) (use True None rel(2) eq in simp_all)
    next
      case False
      show thesis by (rule that [of ?st False]) (use False eq inv in simp_all)
    qed
  qed
qed

lemma handle_bam_inv:
  assumes "rx_inv st" "cm_args_ok sa ch pgn" "tp_length_ok total_bytes total_packets"
  shows "rx_inv (handle_bam st ch sa da total_bytes total_packets pgn now)"
    "rx_frame st (handle_bam st ch sa da total_bytes total_packets pgn now)"
proof -
  define st0 where "st0 = count_metric (\<lambda>m. m\<lparr>tm_rx_bam := tm_rx_bam m + 1\<rparr>) st"
  let ?key = "(sa, da, ch, pgn)"
  have st0: "rx_inv st0" "rx_frame st st0" using assms(1) by (simp_all add: st0_def)
  obtain st1 ok where coll: "bam_collision st0 ?key (tk_now now) = (st1, ok)" "rx_inv st1" "rx_frame st0 st1"
    "ok \<Longrightarrow> dget (tp_rx_sessions st1) ?key = None"
    by (rule bam_collision_inv [OF st0(1), of ?key "tk_now now"]) (rule that)
  have s: "rsession_ok ?key (new_rsession sa da pgn total_bytes total_packets True ch 0 0xFF (tk_now now))"
    by (rule new_rsession_ok [OF assms(2,3)]) simp
  have eq: "handle_bam st ch sa da total_bytes total_packets pgn now =
      (if da \<noteq> 255 then st0 else if \<not> ok then st1 else if quota_exceeded st1 ?key sa then st1
       else open_slot (evict_oldest st1 ?key) ?key
         (new_rsession sa da pgn total_bytes total_packets True ch 0 0xFF (tk_now now)) sa)"
    unfolding handle_bam_def st0_def [symmetric] Let_def coll(1) by simp
  have "rx_inv (open_slot (evict_oldest st1 ?key) ?key
      (new_rsession sa da pgn total_bytes total_packets True ch 0 0xFF (tk_now now)) sa)"
    if "ok" "\<not> quota_exceeded st1 ?key sa"
    by (rule open_inv [OF coll(2) coll(4) [OF that(1)] _ that(2) s]) simp
  then show "rx_inv (handle_bam st ch sa da total_bytes total_packets pgn now)"
    unfolding eq using st0(1) coll(2) by (simp only: split: if_split) blast
  have "rx_frame st1 (open_slot (evict_oldest st1 ?key) ?key s' sa)" if ok for s'
    using evict_inv(3) [OF coll(2) coll(4) [OF that]] by (simp add: open_slot_def rx_frame_def)
  then show "rx_frame st (handle_bam st ch sa da total_bytes total_packets pgn now)"
    unfolding eq using rx_frame_trans [OF st0(2) coll(3)] rx_frame_trans [of st st1] st0(2)
    by (simp only: split: if_split) blast
qed

lemma rts_collision_inv:
  assumes inv: "rx_inv st" and key: "key = (sa, da, ch, pgn)" "cm_args_ok sa ch pgn"
  obtains st' ok ab where "rts_collision st key total_bytes total_packets now = (st', Inr (ok, ab))"
    "rx_inv st'" "rx_frame st st'" "ok \<Longrightarrow> dget (tp_rx_sessions st') key = None"
    "\<And>f. ab = Some f \<Longrightarrow> tp_sends (tp_my_address st) TP_CTRL_ABORT f"
proof (cases "dget (tp_rx_sessions st) key")
  case (Some old)
  have old: "rsession_ok key old" by (rule rx_inv_session [OF inv Some])
  have sk: "session_key old = key" using old by (simp add: rsession_ok_def)
  obtain st1 f where ab: "create_abort_frame st old ABORT_REASON_SESSION_COLLISION now = (st1, Inr f)"
    "rx_frame st st1" "tp_rx_sessions st1 = tp_rx_sessions st" "tp_per_sa st1 = tp_per_sa st"
    "\<And>g. f = Some g \<Longrightarrow> tp_sends (tp_my_address st) TP_CTRL_ABORT g"
    by (rule create_abort_ok [of old ABORT_REASON_SESSION_COLLISION st now])
      (use old in \<open>simp_all add: rsession_ok_def ABORT_REASON_SESSION_COLLISION_def\<close>)
  have inv1: "rx_inv st1" using rx_inv_cong [OF ab(3,4)] inv by simp
  have some1: "dget (tp_rx_sessions st1) key = Some old" using ab(3) Some by simp
  note rel = release_inv [OF inv1 some1 sk]
  show thesis
    by (rule that [OF _ rel(1) rx_frame_trans [OF ab(2) rel(3)] _ ab(5)])
      (use Some ab(1) rel(2) in \<open>simp_all add: rts_collision_def\<close>)
next
  case None
  show thesis
  proof (cases "prefix_sessions (tp_rx_sessions st) (prefix_of key)")
    case Nil
    then show thesis using None inv by (intro that [of st True None]) (simp_all add: rts_collision_def)
  next
    case (Cons ks rest)
    obtain k live where ks: "ks = (k, live)" by (cases ks)
    obtain ok marks where gate:
      "check_prefix_collision_rate (tp_prefix_marks st) (prefix_of key) (tk_now now) = (ok, marks)"
      by (cases "check_prefix_collision_rate (tp_prefix_marks st) (prefix_of key) (tk_now now)")
    let ?st = "st\<lparr>tp_prefix_marks := marks\<rparr>"
    note hd = prefix_sessions_hd [OF rx_inv_wf [OF inv] Cons [unfolded ks]]
    have live: "rsession_ok k live" by (rule rx_inv_session [OF inv hd(1)])
    have sk: "session_key live = k" using live by (simp add: rsession_ok_def)
    define newcomer where "newcomer = new_rsession sa da pgn total_bytes total_packets False ch 0 0xFF (tk_now now)"
    define target where "target = (if ok then live else newcomer)"
    have target: "0 \<le> rs_source_address target \<and> rs_source_address target < 256 \<and>
        0 \<le> rs_target_pgn target \<and> rs_target_pgn target < 2 ^ 24 \<and> channel_id_ok (rs_channel_id target)"
      using live key(2) by (simp add: target_def newcomer_def new_rsession_def rsession_ok_def cm_args_ok_def)
    obtain st1 f where ab: "create_abort_frame ?st target ABORT_REASON_SESSION_COLLISION now = (st1, Inr f)"
      "rx_frame ?st st1" "tp_rx_sessions st1 = tp_rx_sessions ?st" "tp_per_sa st1 = tp_per_sa ?st"
      "\<And>g. f = Some g \<Longrightarrow> tp_sends (tp_my_address ?st) TP_CTRL_ABORT g"
      by (rule create_abort_ok [of target ABORT_REASON_SESSION_COLLISION ?st now])
        (use target in \<open>simp_all add: ABORT_REASON_SESSION_COLLISION_def\<close>)
    have inv1: "rx_inv st1" using rx_inv_cong [OF ab(3,4)] inv by simp
    have keep: "rx_frame st st1" using ab(2) by (simp add: rx_frame_def)
    have some1: "dget (tp_rx_sessions st1) k = Some live" using ab(3) hd(1) by simp
    note rel = release_inv [OF inv1 some1 sk]
    have eq: "rts_collision st key total_bytes total_packets now =
        (if ok then (release_session_slot st1 (Full k) (Some live), Inr (True, f))
         else (st1, Inr (False, f)))"
      by (cases ok) (use ab(1) None Cons ks gate key in
        \<open>simp_all add: rts_collision_def target_def newcomer_def\<close>)
    show thesis
    proof (cases ok)
      case True
      show thesis
        by (rule that [OF _ rel(1) rx_frame_trans [OF keep rel(3)] _ ab(5) [simplified]])
          (use True None rel(2) eq ab(3) in simp_all)
    next
      case False
      show thesis by (rule that [of st1 False f]) (use False eq inv1 keep ab(5) in simp_all)
    qed
  qed
qed

section \<open>What a handler may do\<close>

text \<open>A reply is a CTS granting 1 to 16 packets, an acknowledgement or an abort.\<close>

definition tp_reply :: "int \<Rightarrow> can_frame \<Rightarrow> bool" where
  "tp_reply my f \<longleftrightarrow> tp_sends my TP_CTRL_ACK f \<or> tp_sends my TP_CTRL_ABORT f \<or>
     tp_sends my TP_CTRL_CTS f \<and> 1 \<le> byte_at (frame_data f) 1 \<and>
     byte_at (frame_data f) 1 \<le> MAX_CTS_PACKET_COUNT"

definition opt_all :: "('a \<Rightarrow> bool) \<Rightarrow> 'a option \<Rightarrow> bool" where
  "opt_all P x = (case x of None \<Rightarrow> True | Some y \<Rightarrow> P y)"

lemma opt_all_simps [simp]: "opt_all P None" "opt_all P (Some x) = P x"
  by (simp_all add: opt_all_def)

lemma opt_all_intro: "(\<And>y. x = Some y \<Longrightarrow> P y) \<Longrightarrow> opt_all P x"
  by (cases x) simp_all

definition message_ok :: "completed_message \<Rightarrow> bool" where
  "message_ok m \<longleftrightarrow> 1 \<le> length (cm_data m) \<and> length (cm_data m) \<le> 1785 \<and>
     0 \<le> cm_pgn m \<and> cm_pgn m < 2 ^ 24"

text \<open>The engine's identity and its sending side stay as they are, and what is queued are
  replies.\<close>

definition rx_keeps :: "tp \<Rightarrow> tp \<Rightarrow> bool" where
  "rx_keeps st st' \<longleftrightarrow>
     tp_my_address st' = tp_my_address st \<and> tp_channel_id st' = tp_channel_id st \<and>
     tp_rx_cts_window st' = tp_rx_cts_window st \<and> tp_tx_sessions st' = tp_tx_sessions st \<and>
     (\<exists>extra. tp_pending_tx_frames st' = tp_pending_tx_frames st @ extra \<and>
       list_all (tp_reply (tp_my_address st)) extra)"

lemma rx_keeps_frame: "rx_frame st st' \<Longrightarrow> rx_keeps st st'"
  unfolding rx_frame_def rx_keeps_def by (intro conjI exI [of _ "[]"]) simp_all

definition queue_cts :: "tp \<Rightarrow> can_frame \<Rightarrow> tp" where
  "queue_cts st f = st\<lparr>tp_pending_tx_frames := tp_pending_tx_frames st @ [f]\<rparr>"

definition rx_good :: "tp \<Rightarrow> tp \<times> rx_result py \<Rightarrow> bool" where
  "rx_good st r \<longleftrightarrow>
     (case r of
        (st', Inl e) \<Rightarrow> False
      | (st', Inr (msg, resp)) \<Rightarrow> rx_inv st' \<and> rx_keeps st st' \<and>
          opt_all message_ok msg \<and> opt_all (tp_reply (tp_my_address st)) resp)"

lemma rx_good_quiet: "rx_inv st' \<Longrightarrow> rx_frame st st' \<Longrightarrow> rx_good st (st', Inr (None, None))"
  by (simp add: rx_good_def rx_keeps_frame)

lemma rx_good_abort:
  "rx_inv st' \<Longrightarrow> rx_frame st st' \<Longrightarrow>
   (\<And>f. ab = Some f \<Longrightarrow> tp_sends (tp_my_address st) TP_CTRL_ABORT f) \<Longrightarrow>
   rx_good st (st', Inr (None, ab))"
  by (cases ab) (simp_all add: rx_good_def rx_keeps_frame tp_reply_def)

lemma rx_good_start: "rx_good st0 r \<Longrightarrow> rx_frame st st0 \<Longrightarrow> rx_good st r"
  by (auto simp: rx_good_def rx_frame_def rx_keeps_def split: sum.splits)

lemma cts_frame_reply:
  assumes "0 \<le> peer" "peer < 256" "channel_id_ok ch" "1 \<le> g" "g \<le> MAX_CTS_PACKET_COUNT"
  shows "tp_reply (tp_my_address st) (rx_reply_frame st peer ch
    ([word_of_int TP_CTRL_CTS, word_of_int g, word_of_int n, 0xFF, 0xFF] @ le_bytes 3 pgn) now)"
proof -
  let ?d = "[word_of_int TP_CTRL_CTS, word_of_int g, word_of_int n, 0xFF, 0xFF] @ le_bytes 3 pgn"
  have "tp_sends (tp_my_address st) TP_CTRL_CTS (rx_reply_frame st peer ch ?d now)"
    by (rule rx_reply_sends [OF assms(1-3)]) (simp_all add: TP_CTRL_CTS_def del: le_bytes_numeral_3)
  moreover have "byte_at ?d 1 = g"
    using assms(4,5) by (simp add: MAX_CTS_PACKET_COUNT_def del: le_bytes_numeral_3)
  ultimately show ?thesis using assms(4,5) by (simp add: tp_reply_def rx_reply_frame_def)
qed

lemma grant_rts_good:
  assumes inv: "rx_inv st" and args: "cm_args_ok sa (frame_channel_id frame) pgn"
    "tp_length_ok total_bytes total_packets"
    and free: "dget (tp_rx_sessions st) (sa, da, frame_channel_id frame, pgn) = None"
    and quota: "\<not> quota_exceeded st (sa, da, frame_channel_id frame, pgn) sa"
    and ab: "\<And>f. ab = Some f \<Longrightarrow> tp_sends (tp_my_address st) TP_CTRL_ABORT f"
  shows "rx_good st (grant_rts st frame sa da total_bytes total_packets pgn ab now)"
proof -
  let ?key = "(sa, da, frame_channel_id frame, pgn)"
  define mc where "mc = (if length (frame_data frame) \<ge> 5 \<and> byte_at (frame_data frame) 4 > 0
    then byte_at (frame_data frame) 4 else 0xFF)"
  define s where "s = new_rsession sa da pgn total_bytes total_packets False (frame_channel_id frame)
    (tp_rx_cts_window (evict_oldest st ?key)) mc (tk_now now)"
  define st' where "st' = open_slot (evict_oldest st ?key) ?key s sa"
  have s: "rsession_ok ?key s" unfolding s_def by (rule new_rsession_ok [OF args]) (simp add: mc_def)
  have inv': "rx_inv st'" unfolding st'_def by (rule open_inv [OF inv free _ quota s]) simp
  have keep: "rx_frame st st'"
    using evict_inv(3) [OF inv free] by (simp add: st'_def open_slot_def rx_frame_def)
  define cts where "cts = rx_reply_frame st' (rs_source_address s) (rs_channel_id s)
    ([word_of_int TP_CTRL_CTS, word_of_int (first_grant s), word_of_int (rs_expected_sequence s), 0xFF, 0xFF]
      @ le_bytes 3 (rs_target_pgn s)) now"
  have cts: "create_cts_frame st' s now = Inr cts" unfolding cts_def by (rule create_cts_ok [OF s])
  have my: "tp_my_address st' = tp_my_address st" using keep by (simp add: rx_frame_def)
  have reply: "tp_reply (tp_my_address st) cts"
    unfolding cts_def my [symmetric]
    by (rule cts_frame_reply) (use s first_grant_range [of s] in \<open>simp_all add: rsession_ok_def\<close>)
  have eq: "grant_rts st frame sa da total_bytes total_packets pgn ab now =
      (case ab of Some a \<Rightarrow> (queue_cts st' cts, Inr (None, Some a)) | None \<Rightarrow> (st', Inr (None, Some cts)))"
    unfolding grant_rts_def Let_def mc_def [symmetric] s_def [symmetric] st'_def [symmetric] cts sum.case
      queue_cts_def ..
  show ?thesis
  proof (cases ab)
    case None
    then show ?thesis unfolding eq using inv' keep reply by (simp add: rx_good_def rx_keeps_frame)
  next
    case (Some a)
    have "rx_keeps st (queue_cts st' cts)"
      using keep reply by (simp add: rx_keeps_def rx_frame_def queue_cts_def)
    moreover have "rx_inv (queue_cts st' cts)" using inv' by (simp add: rx_inv_def queue_cts_def)
    ultimately show ?thesis unfolding eq using Some ab by (simp add: rx_good_def tp_reply_def)
  qed
qed

lemma handle_rts_good:
  assumes inv: "rx_inv st" and args: "cm_args_ok sa (frame_channel_id frame) pgn"
    "tp_length_ok total_bytes total_packets"
  shows "rx_good st (handle_rts st frame sa da total_bytes total_packets pgn now)"
proof -
  let ?key = "(sa, da, frame_channel_id frame, pgn)"
  define st0 where "st0 = count_metric (\<lambda>m. m\<lparr>tm_rx_rts := tm_rx_rts m + 1\<rparr>) st"
  have st0: "rx_inv st0" "rx_frame st st0" "tp_my_address st0 = tp_my_address st"
    using inv by (simp_all add: st0_def)
  obtain st1 ok ab where coll:
    "rts_collision st0 ?key total_bytes total_packets now = (st1, Inr (ok, ab))" "rx_inv st1"
    "rx_frame st0 st1" "ok \<Longrightarrow> dget (tp_rx_sessions st1) ?key = None"
    "\<And>f. ab = Some f \<Longrightarrow> tp_sends (tp_my_address st) TP_CTRL_ABORT f"
    by (rule rts_collision_inv [OF st0(1) refl args(1), of da total_bytes total_packets now, unfolded st0(3)])
      (rule that)
  have keep1: "rx_frame st st1" by (rule rx_frame_trans [OF st0(2) coll(3)])
  have my: "tp_my_address st1 = tp_my_address st" using keep1 by (simp add: rx_frame_def)
  have quiet: "rx_good st (st0, Inr (None, None))" by (rule rx_good_quiet [OF st0(1,2)])
  have refused: "rx_good st (st1, Inr (None, ab))" by (rule rx_good_abort [OF coll(2) keep1 coll(5)])
  have granted: "rx_good st (grant_rts st1 frame sa da total_bytes total_packets pgn ab now)"
    if "ok" "\<not> quota_exceeded st1 ?key sa"
    by (rule rx_good_start [OF grant_rts_good [OF coll(2) args coll(4) [OF that(1)] that(2)] keep1])
      (use coll(5) my in simp)
  show ?thesis
    unfolding handle_rts_def Let_def st0_def [symmetric] coll(1) act_bind_simps prod.case
    using quiet refused granted by (simp only: split: if_split) blast
qed

lemma from_le_slice_bounds:
  "0 \<le> from_le (py_slice d 5 8)" "from_le (py_slice d 5 8) < 2 ^ 24"
proof -
  have "from_le (py_slice d 5 8) < 256 ^ length (py_slice d 5 8)" by (rule from_le_bound)
  also have "\<dots> \<le> 256 ^ 3" by (rule power_increasing) (simp_all add: py_slice_def)
  finally show "from_le (py_slice d 5 8) < 2 ^ 24" by simp
qed simp

lemma handle_tp_cm_good:
  assumes inv: "rx_inv st" and sa: "0 \<le> sa" "sa < 256" and ch: "channel_id_ok (frame_channel_id frame)"
  shows "rx_good st (handle_tp_cm st frame sa da now)"
proof -
  let ?d = "frame_data frame"
  let ?total = "from_le (py_slice ?d 1 3)" and ?packets = "byte_at ?d 3" and ?pgn = "from_le (py_slice ?d 5 8)"
  define st0 where "st0 = fst (reap_stale_sessions st (tk_now now))"
  have st0: "rx_inv st0" "rx_frame st st0" unfolding st0_def using reap_inv [OF inv] by simp_all
  have args: "cm_args_ok sa (frame_channel_id frame) ?pgn"
    using sa ch from_le_slice_bounds [of ?d] by (simp add: cm_args_ok_def)
  have bam: "rx_good st (handle_bam st0 (frame_channel_id frame) sa da ?total ?packets ?pgn now,
      Inr (None, None))" if "tp_length_ok ?total ?packets"
    using handle_bam_inv [OF st0(1) args that] rx_frame_trans [OF st0(2)] rx_good_quiet by blast
  have rts: "rx_good st (handle_rts st0 frame sa da ?total ?packets ?pgn now)"
    if "tp_length_ok ?total ?packets"
    by (rule rx_good_start [OF handle_rts_good [OF st0(1) args that] st0(2)])
  have abort: "rx_good st (handle_cm_abort st0 (sa, da, frame_channel_id frame, ?pgn), Inr (None, None))"
  proof (rule rx_good_quiet)
    let ?st = "count_metric (\<lambda>m. m\<lparr>tm_rx_abort := tm_rx_abort m + 1\<rparr>) st0"
    have inv': "rx_inv ?st" using st0 by simp
    show "rx_inv (handle_cm_abort st0 (sa, da, frame_channel_id frame, ?pgn))"
      unfolding handle_cm_abort_def Let_def tab_full by (rule release_key [OF inv'])
    have "rx_frame st ?st" using st0 by simp
    then show "rx_frame st (handle_cm_abort st0 (sa, da, frame_channel_id frame, ?pgn))"
      unfolding handle_cm_abort_def Let_def tab_full using release_key(3) [OF inv'] by (rule rx_frame_trans)
  qed
  have quiet: "rx_good st (st, Inr (None, None))" "rx_good st (st0, Inr (None, None))"
    using rx_good_quiet [OF inv] rx_good_quiet [OF st0] by simp_all
  show ?thesis
    unfolding handle_tp_cm_def Let_def st0_def [symmetric]
    using bam rts abort quiet by (simp only: split: if_split) blast
qed

section \<open>Data packets\<close>

lemma release_all_inv:
  assumes "rx_inv st" "distinct (map fst cs)" "\<And>k s. (k, s) \<in> set cs \<Longrightarrow> dget (tp_rx_sessions st) k = Some s"
  shows "rx_inv (release_all st cs) \<and> rx_frame st (release_all st cs) \<and>
    tp_rx_sessions (release_all st cs) = dpop_all (map fst cs) (tp_rx_sessions st)"
  using assms
proof (induction cs arbitrary: st)
  case Nil
  then show ?case by (simp add: release_all_def)
next
  case (Cons c cs)
  obtain k s where c: "c = (k, s)" by (cases c)
  have k: "dget (tp_rx_sessions st) k = Some s" using Cons.prems(3) c by simp
  have sk: "session_key s = k" using rx_inv_session [OF Cons.prems(1) k] by (simp add: rsession_ok_def)
  note rel = release_inv [OF Cons.prems(1) k sk]
  let ?st = "release_session_slot st (Full k) (Some s)"
  have "rx_inv (release_all ?st cs) \<and> rx_frame ?st (release_all ?st cs) \<and>
      tp_rx_sessions (release_all ?st cs) = dpop_all (map fst cs) (tp_rx_sessions ?st)"
  proof (rule Cons.IH [OF rel(1)])
    show "distinct (map fst cs)" using Cons.prems(2) by simp
    fix k' s'
    assume in_cs: "(k', s') \<in> set cs"
    then have "k' \<noteq> k" using Cons.prems(2) c by force
    then show "dget (tp_rx_sessions ?st) k' = Some s'"
      using in_cs Cons.prems(3) by (simp add: rel(2))
  qed
  then show ?case
    using rx_frame_trans [OF rel(3)] by (simp add: c release_all_def rel(2))
qed

lemma distinct_fst_filter: "distinct (map fst d) \<Longrightarrow> distinct (map fst (filter P d))"
  by (simp add: distinct_map_filter)

lemma drop_ambiguous_inv:
  assumes "rx_inv st" "cs = filter P (tp_rx_sessions st)"
  shows "rx_inv (drop_ambiguous st cs)" "rx_frame st (drop_ambiguous st cs)"
    "tp_rx_sessions (drop_ambiguous st cs) = dpop_all (map fst cs) (tp_rx_sessions st)"
proof -
  define st0 where "st0 = count_metric (\<lambda>m. m\<lparr>tm_ambiguous_dt_drop := tm_ambiguous_dt_drop m + 1\<rparr>) st"
  have st0: "rx_inv st0" "tp_rx_sessions st0 = tp_rx_sessions st" "rx_frame st st0"
    using assms(1) by (simp_all add: st0_def)
  have wf: "dwf (tp_rx_sessions st)" by (rule rx_inv_wf [OF assms(1)])
  have "rx_inv (release_all st0 cs) \<and> rx_frame st0 (release_all st0 cs) \<and>
    tp_rx_sessions (release_all st0 cs) = dpop_all (map fst cs) (tp_rx_sessions st0)"
  proof (rule release_all_inv [OF st0(1)])
    show "distinct (map fst cs)" unfolding assms(2) by (rule distinct_fst_filter [OF wf])
    show "dget (tp_rx_sessions st0) k = Some s" if "(k, s) \<in> set cs" for k s
      using that unfolding assms(2) st0(2) by (simp only: set_filter mem_Collect_eq in_set_dget [OF wf])
  qed
  then show "rx_inv (drop_ambiguous st cs)" "rx_frame st (drop_ambiguous st cs)"
    "tp_rx_sessions (drop_ambiguous st cs) = dpop_all (map fst cs) (tp_rx_sessions st)"
    unfolding drop_ambiguous_def st0_def [symmetric] using rx_frame_trans [OF st0(3)] st0(2) by simp_all
qed

text \<open>The lookup of a data packet either finds a live session of its prefix in an unchanged
  state, or finds none.\<close>

lemma lookup_dt_cases:
  assumes inv: "rx_inv st"
  obtains (Found) k s where "lookup_dt_session st sa da ch sn = (st, Some (k, s))"
      "dget (tp_rx_sessions st) k = Some s" "prefix_of k = (sa, da, ch)"
  | (None) st' where "lookup_dt_session st sa da ch sn = (st', None)" "rx_inv st'" "rx_frame st st'"
proof -
  let ?cs = "prefix_sessions (tp_rx_sessions st) (sa, da, ch)"
  have wf: "dwf (tp_rx_sessions st)" by (rule rx_inv_wf [OF inv])
  have found: "dget (tp_rx_sessions st) k = Some s \<and> prefix_of k = (sa, da, ch)" if "(k, s) \<in> set ?cs" for k s
    using that unfolding prefix_sessions_def set_filter mem_Collect_eq prod.case
    by (simp only: in_set_dget [OF wf])
  consider "?cs = []" | c where "?cs = [c]" | c1 c2 cs where "?cs = c1 # c2 # cs"
    by (metis neq_Nil_conv)
  then show thesis
  proof cases
    case 1
    then show thesis using inv by (intro None [of st]) (simp_all add: lookup_dt_session_def)
  next
    case (2 c)
    obtain k s where c: "c = (k, s)" by (cases c)
    from found [of k s] have "dget (tp_rx_sessions st) k = Some s" "prefix_of k = (sa, da, ch)"
      by (simp_all add: 2 c)
    then show thesis by (intro Found [of k s]) (simp_all add: lookup_dt_session_def 2 c)
  next
    case (3 c1 c2 cs)
    show thesis
    proof (cases sn)
      case sn: None
      have eq: "lookup_dt_session st sa da ch sn = (drop_ambiguous st ?cs, None)"
        by (simp add: lookup_dt_session_def 3 sn)
      show thesis
        by (rule None [OF eq]) (rule drop_ambiguous_inv [OF inv], simp only: prefix_sessions_def)+
    next
      case sn: (Some n)
      let ?ms = "filter (\<lambda>(k, s). rs_expected_sequence s = n) ?cs"
      have eq: "lookup_dt_session st sa da ch sn =
          (case ?ms of [] \<Rightarrow> (st, None) | [c] \<Rightarrow> (st, Some c) | ms \<Rightarrow> (drop_ambiguous st ms, None))"
        unfolding lookup_dt_session_def 3 list.case sn option.case ..
      have ms: "?ms = filter (\<lambda>x. (case x of (k, s) \<Rightarrow> rs_expected_sequence s = n) \<and>
          (case x of (k, s) \<Rightarrow> prefix_of k = (sa, da, ch))) (tp_rx_sessions st)"
        unfolding prefix_sessions_def filter_filter by (simp only: conj_commute)
      consider "?ms = []" | c where "?ms = [c]" | c1 c2 cs where "?ms = c1 # c2 # cs"
        by (metis neq_Nil_conv)
      then show thesis
      proof cases
        case 1
        then show thesis using inv eq by (intro None [of st]) simp_all
      next
        case (2 c)
        obtain k s where c: "c = (k, s)" by (cases c)
        have "(k, s) \<in> set ?ms" by (simp only: 2 c list.set_intros)
        then have "(k, s) \<in> set ?cs" by (simp only: set_filter mem_Collect_eq)
        from found [OF this] show thesis using eq 2 c by (intro Found [of k s]) simp_all
      next
        case (3 c1 c2 cs)
        have eq': "lookup_dt_session st sa da ch sn = (drop_ambiguous st ?ms, None)"
          unfolding eq 3 list.case ..
        show thesis by (rule None [OF eq']) (rule drop_ambiguous_inv [OF inv ms])+
      qed
    qed
  qed
qed

lemma append_packet_fields [simp]:
  "session_key (append_packet s p t) = session_key s"
  "rs_total_bytes (append_packet s p t) = rs_total_bytes s"
  "rs_total_packets (append_packet s p t) = rs_total_packets s"
  "rs_expected_sequence (append_packet s p t) = rs_expected_sequence s + 1"
  "rs_is_bam (append_packet s p t) = rs_is_bam s"
  "rs_source_address (append_packet s p t) = rs_source_address s"
  "rs_destination_address (append_packet s p t) = rs_destination_address s"
  "rs_target_pgn (append_packet s p t) = rs_target_pgn s"
  "rs_channel_id (append_packet s p t) = rs_channel_id s"
  "rs_last_activity_time (append_packet s p t) = t"
  "rs_rx_cts_window (append_packet s p t) = rs_rx_cts_window s"
  "rs_max_packets_per_cts (append_packet s p t) = rs_max_packets_per_cts s"
  by (simp_all add: append_packet_def session_key_def)

lemma append_packet_length:
  assumes "rsession_ok k s" "length p = 7"
  shows "int (length (rs_received_bytes (append_packet s p t))) =
    min (7 * rs_expected_sequence s) (rs_total_bytes s)"
proof -
  have "int (length (rs_received_bytes s)) = 7 * (rs_expected_sequence s - 1)"
    "int (length (rs_received_bytes s)) < rs_total_bytes s"
    using assms(1) packets_range [of "rs_total_bytes s" "rs_total_packets s"] by (auto simp: rsession_ok_def)
  then show ?thesis using assms(2) by (simp add: append_packet_def min_def) arith
qed

lemma append_packet_cases:
  assumes ok: "rsession_ok k s" and len: "length p = 7"
  obtains (Last) "rs_expected_sequence s = rs_total_packets s" "transfer_complete (append_packet s p t)"
      "int (length (rs_received_bytes (append_packet s p t))) = rs_total_bytes s"
  | (More) "rs_expected_sequence s < rs_total_packets s" "\<not> transfer_complete (append_packet s p t)"
      "rsession_ok k (append_packet s p t)"
proof -
  have r: "7 * rs_total_packets s < rs_total_bytes s + 7" "rs_total_bytes s \<le> 7 * rs_total_packets s"
    "rs_expected_sequence s \<le> rs_total_packets s"
    using ok packets_range [of "rs_total_bytes s" "rs_total_packets s"] by (auto simp: rsession_ok_def)
  note l = append_packet_length [OF ok len, of t]
  show thesis
  proof (cases "rs_expected_sequence s = rs_total_packets s")
    case True
    then show thesis using l r by (intro Last) (simp_all add: transfer_complete_def)
  next
    case False
    then have lt: "rs_expected_sequence s < rs_total_packets s" using r by simp
    then have "7 * rs_expected_sequence s < rs_total_bytes s" using r by simp
    then show thesis
      using l lt ok by (intro More) (simp_all add: transfer_complete_def rsession_ok_def)
  qed
qed

lemma next_cts_good:
  assumes ok: "rsession_ok k s" and ch: "channel_id_ok (frame_channel_id frame)"
  obtains f where "next_cts st frame s now = Inr f" "opt_all (tp_reply (tp_my_address st)) f"
proof -
  define w where "w = (if rs_rx_cts_window s \<noteq> 0 then rs_rx_cts_window s else MAX_CTS_PACKET_COUNT)"
  define g where "g = min (min w (rs_total_packets s - (rs_expected_sequence s - 1))) MAX_CTS_PACKET_COUNT"
  show thesis
  proof (cases "\<not> rs_is_bam s \<and> rs_destination_address s = tp_my_address st \<and> w > 0 \<and>
      (rs_expected_sequence s - 1) mod w = 0")
    case False
    then have "next_cts st frame s now = Inr None" by (auto simp: next_cts_def w_def [symmetric])
    then show thesis by (rule that) simp
  next
    case True
    have s: "0 \<le> rs_source_address s" "rs_source_address s < 256" "0 \<le> rs_target_pgn s"
      "rs_target_pgn s < 2 ^ 24" "1 \<le> rs_expected_sequence s" "rs_expected_sequence s < 256"
      "rs_expected_sequence s \<le> rs_total_packets s"
      using ok packets_range [of "rs_total_bytes s" "rs_total_packets s"] by (auto simp: rsession_ok_def)
    have g: "1 \<le> g" "g \<le> MAX_CTS_PACKET_COUNT" "0 \<le> g" "g < 256"
      using True s(7) by (auto simp: g_def MAX_CTS_PACKET_COUNT_def)
    let ?d = "[word_of_int TP_CTRL_CTS, word_of_int g, word_of_int (rs_expected_sequence s), 0xFF, 0xFF]
      @ le_bytes 3 (rs_target_pgn s)"
    have d: "cts_bytes g (rs_expected_sequence s) (rs_target_pgn s) = Inr ?d"
      using s g by (intro cts_bytes_ok) simp_all
    have r: "rx_reply st (rs_source_address s) (frame_channel_id frame) ?d now =
        Inr (rx_reply_frame st (rs_source_address s) (frame_channel_id frame) ?d now)"
      by (rule rx_reply_ok [OF s(1,2) ch]) (simp del: le_bytes_numeral_3)
    have "next_cts st frame s now =
        Inr (Some (rx_reply_frame st (rs_source_address s) (frame_channel_id frame) ?d now))"
      unfolding next_cts_def Let_def w_def [symmetric] g_def [symmetric] d py_bind_simps r
      using True by simp
    then show thesis
      by (rule that) (simp only: opt_all_simps cts_frame_reply [OF s(1,2) ch g(1,2)])
  qed
qed

lemma store_fields:
  "rx_frame st (st\<lparr>tp_rx_sessions := t\<rparr>)"
  "rx_inv (st\<lparr>tp_rx_sessions := t\<rparr>) = slots_ok t (tp_per_sa st)"
  by (simp_all add: rx_frame_def rx_inv_def)

lemma release_stored:
  assumes "dget (tp_rx_sessions st) k = Some s0" "session_key s0 = k" "session_key s = k"
  shows "release_session_slot (st\<lparr>tp_rx_sessions := dset k s (tp_rx_sessions st)\<rparr>) (Full k) (Some s) =
    release_session_slot st (Full k) (Some s0)"
proof -
  have "rs_source_address s = rs_source_address s0"
    using assms(2,3) by (auto simp: session_key_def)
  moreover have "dget (tp_rx_sessions (st\<lparr>tp_rx_sessions := dset k s (tp_rx_sessions st)\<rparr>)) k = Some s"
    by simp
  ultimately show ?thesis
    using release_eq [OF assms(2,1)] release_eq [OF assms(3)] by (simp add: AList.delete_update_same)
qed

text \<open>The last packet: the message is delivered and the slot is free again; \<open>s\<close> is the session with
  the packet appended, \<open>s0\<close> the one the table held before.\<close>

lemma complete_transfer_good:
  assumes inv: "rx_inv st" and k: "dget (tp_rx_sessions st) k = Some s0" and sk: "session_key s = k"
    and ch: "channel_id_ok (frame_channel_id frame)" and len: "int (length (rs_received_bytes s)) = rs_total_bytes s"
    and s: "tp_length_ok (rs_total_bytes s) (rs_total_packets s)" "0 \<le> rs_source_address s"
      "rs_source_address s < 256" "0 \<le> rs_target_pgn s" "rs_target_pgn s < 2 ^ 24"
  obtains st' msg resp where
    "complete_transfer (st\<lparr>tp_rx_sessions := dset k s (tp_rx_sessions st)\<rparr>) frame k s now =
      (st', Inr (Some msg, resp))"
    "rx_inv st'" "rx_frame st st'" "tp_rx_sessions st' = dpop k (tp_rx_sessions st)"
    "opt_all (tp_sends (tp_my_address st) TP_CTRL_ACK) resp"
    "resp = None \<longleftrightarrow> rs_is_bam s \<or> rs_destination_address s \<noteq> tp_my_address st"
    "msg = \<lparr>cm_source_address = rs_source_address s, cm_destination_address = rs_destination_address s,
      cm_pgn = rs_target_pgn s, cm_data = rs_received_bytes s, cm_timestamp_ns = frame_timestamp_ns frame,
      cm_channel_id = frame_channel_id frame\<rparr>" "message_ok msg"
proof -
  define msg where "msg = \<lparr>cm_source_address = rs_source_address s, cm_destination_address = rs_destination_address s,
      cm_pgn = rs_target_pgn s, cm_data = rs_received_bytes s, cm_timestamp_ns = frame_timestamp_ns frame,
      cm_channel_id = frame_channel_id frame\<rparr>"
  have all: "py_prefix (rs_received_bytes s) (rs_total_bytes s) = rs_received_bytes s"
    unfolding len [symmetric] by simp
  note range = packets_range [OF s(1)]
  have msg: "message_ok msg" using len range s by (simp add: message_ok_def msg_def)
  let ?d = "[word_of_int TP_CTRL_ACK] @ le_bytes 2 (rs_total_bytes s) @ [word_of_int (rs_total_packets s), 0xFF]
    @ le_bytes 3 (rs_target_pgn s)"
  have d: "ack_bytes (rs_total_bytes s) (rs_total_packets s) (rs_target_pgn s) = Inr ?d"
    using range s by (intro ack_bytes_ok) simp_all
  let ?f = "rx_reply_frame st (rs_source_address s) (frame_channel_id frame) ?d now"
  have len8: "length ?d = 8" by (simp del: le_bytes_numeral_3 le_bytes_numeral_2)
  have r: "rx_reply st (rs_source_address s) (frame_channel_id frame) ?d now = Inr ?f"
    by (rule rx_reply_ok [OF s(2,3) ch len8])
  have sends: "tp_sends (tp_my_address st) TP_CTRL_ACK ?f"
    by (rule rx_reply_sends [OF s(2,3) ch len8])
      (simp add: TP_CTRL_ACK_def del: le_bytes_numeral_3 le_bytes_numeral_2)
  define resp where "resp = (if \<not> rs_is_bam s \<and> rs_destination_address s = tp_my_address st then Some ?f else None)"
  have sk0: "session_key s0 = k" using rx_inv_session [OF inv k] by (simp add: rsession_ok_def)
  note rel = release_inv [OF inv k sk0]
  let ?st = "st\<lparr>tp_rx_sessions := dset k s (tp_rx_sessions st)\<rparr>"
  have r': "rx_reply ?st (rs_source_address s) (frame_channel_id frame) ?d now = Inr ?f"
    unfolding r [symmetric] rx_reply_def by simp
  have "complete_transfer ?st frame k s now = (release_session_slot st (Full k) (Some s0), Inr (Some msg, resp))"
    unfolding complete_transfer_def Let_def all msg_def [symmetric] d py_bind_simps r' resp_def
      release_stored [OF k sk0 sk]
    by (simp del: le_bytes_numeral_3 le_bytes_numeral_2)
  then show thesis
    by (rule that [OF _ rel(1) rel(3) rel(2) _ _ msg_def msg]) (use sends in \<open>simp_all add: resp_def del: le_bytes_numeral_3 le_bytes_numeral_2\<close>)
qed

lemma handle_tp_dt_good:
  assumes inv: "rx_inv st" and ch: "channel_id_ok (frame_channel_id frame)" and len: "8 \<le> length (frame_data frame)"
  shows "rx_good st (handle_tp_dt st frame sa da now)"
proof -
  let ?sn = "byte_at (frame_data frame) 0" and ?p = "py_slice (frame_data frame) 1 8"
  have payload: "length ?p = 7" using len by (simp add: py_slice_def)
  show ?thesis
    using inv
  proof (cases rule: lookup_dt_cases [where sa = sa and da = da and ch = "frame_channel_id frame" and sn = "Some ?sn"])
    case (None st')
    have "handle_tp_dt st frame sa da now = (st', Inr (None, None))"
      unfolding handle_tp_dt_def Let_def None(1) by simp
    then show ?thesis using rx_good_quiet [OF None(2,3)] by simp
  next
    case (Found k s)
    have s: "rsession_ok k s" by (rule rx_inv_session [OF inv Found(2)])
    have sk: "session_key s = k" using s by (simp add: rsession_ok_def)
    note rel = release_inv [OF inv Found(2) sk]
    let ?rel = "release_session_slot st (Full k) (Some s)"
    have my: "tp_my_address ?rel = tp_my_address st" using rel(3) by (simp add: rx_frame_def)
    have aborted: "rx_good st (act_bind (create_abort_frame ?rel s reason now) (\<lambda>st f. (st, Inr (None, f))))"
      if r: "0 \<le> reason" "reason < 256" for reason
    proof -
      obtain st1 f where ab: "create_abort_frame ?rel s reason now = (st1, Inr f)" "rx_frame ?rel st1"
        "tp_rx_sessions st1 = tp_rx_sessions ?rel" "tp_per_sa st1 = tp_per_sa ?rel"
        "\<And>g. f = Some g \<Longrightarrow> tp_sends (tp_my_address ?rel) TP_CTRL_ABORT g"
        by (rule create_abort_ok [of s reason ?rel now]) (use s r in \<open>simp_all add: rsession_ok_def\<close>)
      have "rx_inv st1" using rx_inv_cong [OF ab(3,4)] rel(1) by simp
      then show ?thesis
        unfolding ab(1) act_bind_simps
        using rx_good_abort [OF _ rx_frame_trans [OF rel(3) ab(2)] ab(5) [unfolded my]] by simp
    qed
    define s' where "s' = append_packet s ?p (tk_now now)"
    define st' where "st' = st\<lparr>tp_rx_sessions := dset k s' (tp_rx_sessions st)\<rparr>"
    have keep: "rx_frame st st'" by (simp add: st'_def store_fields)
    have appended: "rx_good st (if transfer_complete s' then complete_transfer st' frame k s' now
        else (st', py_bind (next_cts st' frame s' now) (\<lambda>f. Inr (None, f))))"
      using s payload
    proof (cases rule: append_packet_cases [where t = "tk_now now"])
      case More
      have ok': "rsession_ok k s'" using More(3) by (simp add: s'_def)
      have inv': "rx_inv st'"
        using inv slots_ok_replace [of "tp_rx_sessions st" "tp_per_sa st" k s'] Found(2) ok'
        by (simp add: st'_def store_fields rx_inv_def domI)
      obtain f where f: "next_cts st' frame s' now = Inr f" "opt_all (tp_reply (tp_my_address st')) f"
        by (rule next_cts_good [OF ok' ch])
      show ?thesis
        using More(2) inv' keep f by (simp add: s'_def [symmetric] rx_good_def rx_keeps_frame rx_frame_def)
    next
      case Last
      have sk': "session_key s' = k" using sk by (simp add: s'_def)
      have len': "int (length (rs_received_bytes s')) = rs_total_bytes s'" using Last(3) by (simp add: s'_def)
      have s': "tp_length_ok (rs_total_bytes s') (rs_total_packets s')" "0 \<le> rs_source_address s'"
        "rs_source_address s' < 256" "0 \<le> rs_target_pgn s'" "rs_target_pgn s' < 2 ^ 24"
        using s by (simp_all add: s'_def rsession_ok_def)
      obtain st2 msg resp where final: "complete_transfer st' frame k s' now = (st2, Inr (Some msg, resp))"
        "rx_inv st2" "rx_frame st st2" "opt_all (tp_sends (tp_my_address st) TP_CTRL_ACK) resp" "message_ok msg"
        unfolding st'_def
        by (rule complete_transfer_good [OF inv Found(2) sk' ch len' s', of now]) blast
      then show ?thesis
        using Last(2) by (cases resp) (simp_all add: s'_def [symmetric] rx_good_def rx_keeps_frame tp_reply_def)
    qed
    show ?thesis
      unfolding handle_tp_dt_def Let_def Found(1) prod.case option.case tab_full s'_def [symmetric] st'_def [symmetric]
      using appended aborted [of ABORT_REASON_TIMEOUT] aborted [of ABORT_REASON_SEQUENCE_ERROR]
      by (simp add: tp_reasons)
  qed
qed

end
