(* ===== verification/TransportTx.thy ===== *)
theory TransportTx
  imports Transport
begin

text \<open>
  \<open>src/protocols/j1939/transport.py\<close>, the sending side: BAM segmentation, the CMDT sender's
  state machine (\<open>WAIT_CTS\<close>, \<open>GRANTED\<close>, \<open>WAIT_ACK\<close>), its timeouts and abuse limits, and the
  dispatcher \<open>handle_rx_frame\<close> that ties both sides together.
\<close>

section \<open>Segmentation\<close>

definition MAX_TP_BYTES :: nat where "MAX_TP_BYTES = 1785"

text \<open>\<open>ctrl, total (two bytes), packets, 0xFF, pgn (three bytes)\<close>: TP.CM_BAM and TP.CM_RTS.\<close>

definition cm_bytes :: "int \<Rightarrow> bytes \<Rightarrow> int \<Rightarrow> bytes py" where
  "cm_bytes ctrl data pgn =
     (let total_bytes = int (length data); total_packets = (total_bytes + 6) div 7 in
      py_bind (to_le 2 total_bytes) (\<lambda>n. py_bind (byte_of total_packets) (\<lambda>k.
        py_bind (to_le 3 pgn) (\<lambda>p. Inr ([word_of_int ctrl] @ n @ [k, 0xFF] @ p)))))"

text \<open>Packet \<open>seq\<close>: the sequence number, seven bytes of the payload, 0xFF where it has ended.\<close>

definition dt_bytes :: "bytes \<Rightarrow> int \<Rightarrow> bytes py" where
  "dt_bytes data seq =
     py_bind (byte_of seq) (\<lambda>n.
       let chunk = py_slice data ((seq - 1) * 7) (seq * 7) in
       Inr (n # chunk @ replicate (7 - length chunk) 0xFF))"

fun dt_frames :: "string \<Rightarrow> int \<Rightarrow> bytes \<Rightarrow> int list \<Rightarrow> int \<Rightarrow> can_frame list py" where
  "dt_frames ch can_id data [] ns = Inr []"
| "dt_frames ch can_id data (seq # seqs) ns =
     py_bind (dt_bytes data seq) (\<lambda>d. py_bind (create_tx ch can_id d ns) (\<lambda>f.
       py_bind (dt_frames ch can_id data seqs ns) (\<lambda>fs. Inr (f # fs))))"

text \<open>\<open>channel_id or self.channel_id\<close>: None and the empty string fall back.\<close>

definition or_channel :: "tp \<Rightarrow> string option \<Rightarrow> string" where
  "or_channel st ch = (case ch of Some c \<Rightarrow> if c \<noteq> [] then c else tp_channel_id st
                       | None \<Rightarrow> tp_channel_id st)"

definition start_tp_bam :: "tp \<Rightarrow> int \<Rightarrow> bytes \<Rightarrow> string option \<Rightarrow> tick \<Rightarrow> can_frame list py" where
  "start_tp_bam st pgn data channel_id now =
     (if \<not> (1 \<le> length data \<and> length data \<le> MAX_TP_BYTES) then Inl ValueError
      else
        let ch = or_channel st channel_id;
            total_packets = (int (length data) + 6) div 7 in
        py_bind (cm_bytes TP_CTRL_BAM data pgn) (\<lambda>d.
          py_bind (create_tx ch (0x1CECFF00 OR (tp_my_address st AND 0xFF)) d (tk_ns now)) (\<lambda>cm.
            py_bind (dt_frames ch (0x1CEBFF00 OR (tp_my_address st AND 0xFF)) data
                [1..total_packets] (tk_ns now)) (\<lambda>dts. Inr (cm # dts)))))"

text \<open>The due times: \<open>next_due\<close> advances after every frame but the first.\<close>

fun pace :: "seconds \<Rightarrow> seconds \<Rightarrow> bool \<Rightarrow> can_frame list \<Rightarrow> (can_frame \<times> seconds) list" where
  "pace next_due interval is_first [] = []"
| "pace next_due interval is_first (f # fs) =
     (f, next_due) # pace (if is_first then next_due else next_due + interval) interval False fs"

definition start_tp_bam_paced ::
  "tp \<Rightarrow> int \<Rightarrow> bytes \<Rightarrow> string option \<Rightarrow> seconds option \<Rightarrow> tick \<Rightarrow> (can_frame \<times> seconds) list py" where
  "start_tp_bam_paced st pgn data channel_id interval_s now =
     py_bind (start_tp_bam st pgn data channel_id now) (\<lambda>frames.
       let interval = (case interval_s of None \<Rightarrow> tp_bam_pacing_interval_s st | Some i \<Rightarrow> i) in
       if \<not> (1 / 20 \<le> interval \<and> interval \<le> 1 / 5) then Inl ValueError
       else Inr (pace (tk_now now) interval True frames))"

definition cm_id_to :: "tp \<Rightarrow> int \<Rightarrow> int" where
  "cm_id_to st target = 0x1CEC0000 OR push_bit 8 (target AND 0xFF) OR (tp_my_address st AND 0xFF)"

definition start_tp_cm_dt ::
  "tp \<Rightarrow> int \<Rightarrow> int \<Rightarrow> bytes \<Rightarrow> string option \<Rightarrow> tick \<Rightarrow> can_frame list py" where
  "start_tp_cm_dt st target_address pgn data channel_id now =
     (if \<not> (1 \<le> length data \<and> length data \<le> MAX_TP_BYTES) then Inl ValueError
      else py_bind (cm_bytes TP_CTRL_RTS data pgn) (\<lambda>d.
        py_bind (create_tx (or_channel st channel_id) (cm_id_to st target_address) d (tk_ns now))
          (\<lambda>f. Inr [f])))"

section \<open>The sender's sessions\<close>

definition create_tx_abort_frame :: "tp \<Rightarrow> tx_session \<Rightarrow> int \<Rightarrow> tick \<Rightarrow> tp \<times> can_frame py" where
  "create_tx_abort_frame st s reason now =
     (let st = count_metric (\<lambda>m. m\<lparr>tm_tx_abort_emitted := tm_tx_abort_emitted m + 1\<rparr>) st in
      (st, py_bind (abort_bytes reason (ts_target_pgn s)) (\<lambda>d.
             create_tx (ts_channel_id s) (cm_id_to st (ts_destination_address s)) d (tk_ns now))))"

definition tx_expired :: "seconds \<Rightarrow> tx_session \<Rightarrow> bool" where
  "tx_expired now s \<longleftrightarrow>
     ts_state s = WAIT_CTS \<and> now - ts_last_activity_time s > T2_TIMEOUT_SEC \<or>
     ts_state s = WAIT_ACK \<and> now - ts_last_activity_time s > T3_TIMEOUT_SEC"

fun reap_tx_keys :: "tx_key list \<Rightarrow> tp \<Rightarrow> tick \<Rightarrow> tp \<times> can_frame list py" where
  "reap_tx_keys [] st now = (st, Inr [])"
| "reap_tx_keys (k # ks) st now =
     (case dget (tp_tx_sessions st) k of
        None \<Rightarrow> (st, Inl KeyError)
      | Some s \<Rightarrow>
          act_bind (create_tx_abort_frame (st\<lparr>tp_tx_sessions := dpop k (tp_tx_sessions st)\<rparr>) s
              ABORT_REASON_TIMEOUT now) (\<lambda>st f.
            act_bind (reap_tx_keys ks st now) (\<lambda>st fs. (st, Inr (f # fs)))))"

definition reap_stale_tx_sessions :: "tp \<Rightarrow> tick \<Rightarrow> tp \<times> can_frame list py" where
  "reap_stale_tx_sessions st now =
     reap_tx_keys (dkeys_where (\<lambda>k s. tx_expired (tk_now now) s) (tp_tx_sessions st)) st now"

definition poll_cmdt_timeouts :: "tp \<Rightarrow> tick \<Rightarrow> tp \<times> can_frame list py" where
  "poll_cmdt_timeouts st now = reap_stale_tx_sessions st now"

definition queue_frames :: "can_frame list \<Rightarrow> tp \<Rightarrow> tp" where
  "queue_frames fs st = st\<lparr>tp_pending_tx_frames := tp_pending_tx_frames st @ fs\<rparr>"

text \<open>A full table loses its stalest session; the peer's abort is queued.\<close>

definition evict_tx :: "tp \<Rightarrow> tick \<Rightarrow> tp \<times> unit py" where
  "evict_tx st now =
     (if length (tp_tx_sessions st) \<ge> MAX_TX_SESSIONS then
        (case oldest_key ts_last_activity_time (tp_tx_sessions st) of
           None \<Rightarrow> (st, Inl ValueError)
         | Some k \<Rightarrow>
             (case dget (tp_tx_sessions st) k of
                None \<Rightarrow> (st, Inl KeyError)
              | Some evicted \<Rightarrow>
                  act_bind (create_tx_abort_frame (st\<lparr>tp_tx_sessions := dpop k (tp_tx_sessions st)\<rparr>)
                      evicted ABORT_REASON_TIMEOUT now)
                    (\<lambda>st f. (queue_frames [f] st, Inr ()))))
      else (st, Inr ()))"

definition new_tx_session ::
  "tp \<Rightarrow> int \<Rightarrow> int \<Rightarrow> bytes \<Rightarrow> string \<Rightarrow> seconds \<Rightarrow> tx_session" where
  "new_tx_session st target pgn data ch now =
     \<lparr>ts_source_address = tp_my_address st, ts_destination_address = target, ts_target_pgn = pgn,
      ts_total_bytes = int (length data), ts_total_packets = (int (length data) + 6) div 7,
      ts_data = data, ts_channel_id = ch, ts_state = WAIT_CTS, ts_cts_window = 0,
      ts_next_sequence = 1, ts_last_activity_time = now, ts_hold_count = 0,
      ts_hold_window_start = 0\<rparr>"

definition start_cmdt_transfer ::
  "tp \<Rightarrow> int \<Rightarrow> int \<Rightarrow> bytes \<Rightarrow> string option \<Rightarrow> tick \<Rightarrow> tp \<times> can_frame py" where
  "start_cmdt_transfer st target_address pgn data channel_id now =
     (if \<not> (1 \<le> length data \<and> length data \<le> MAX_TP_BYTES) then (st, Inl ValueError)
      else
        let ch = or_channel st channel_id;
            s = new_tx_session st target_address pgn data ch (tk_now now) in
        act_bind (reap_stale_tx_sessions st now) (\<lambda>st aborts.
          act_bind (evict_tx (queue_frames aborts st) now) (\<lambda>st _.
            let st = st\<lparr>tp_tx_sessions := dset (tx_key s) s (tp_tx_sessions st)\<rparr> in
            (st, py_bind (cm_bytes TP_CTRL_RTS data pgn) (\<lambda>d.
                   create_tx ch (cm_id_to st target_address) d (tk_ns now))))))"

section \<open>Emitting a window\<close>

text \<open>The \<open>while\<close> loop; a raise leaves the session as far as it got.\<close>

function emit_loop ::
  "string \<Rightarrow> int \<Rightarrow> int \<Rightarrow> tick \<Rightarrow> tx_session \<Rightarrow> tx_session \<times> can_frame list py" where
  "emit_loop ch can_id window_end now s =
     (if ts_next_sequence s \<le> window_end then
        (case py_bind (dt_bytes (ts_data s) (ts_next_sequence s))
                (\<lambda>d. create_tx ch can_id d (tk_ns now)) of
           Inl e \<Rightarrow> (s, Inl e)
         | Inr f \<Rightarrow>
             act_bind (emit_loop ch can_id window_end now
                 (s\<lparr>ts_next_sequence := ts_next_sequence s + 1, ts_last_activity_time := tk_now now\<rparr>))
               (\<lambda>s fs. (s, Inr (f # fs))))
      else (s, Inr []))"
  by pat_completeness auto

termination
  by (relation "measure (\<lambda>(ch, can_id, window_end, now, s). nat (window_end + 1 - ts_next_sequence s))")
    auto

declare emit_loop.simps [simp del]

definition emit_dt_window :: "tp \<Rightarrow> tx_session \<Rightarrow> tick \<Rightarrow> tx_session \<times> can_frame list py" where
  "emit_dt_window st s now =
     (let window_end = min (ts_next_sequence s + ts_cts_window s - 1) (ts_total_packets s);
          can_id = 0x1CEB0000 OR push_bit 8 (ts_destination_address s AND 0xFF)
                     OR (tp_my_address st AND 0xFF) in
      act_bind (emit_loop (ts_channel_id s) can_id window_end now s) (\<lambda>s fs.
        (s\<lparr>ts_state := (if ts_next_sequence s > ts_total_packets s then WAIT_ACK else WAIT_CTS),
           ts_last_activity_time := tk_now now\<rparr>, Inr fs)))"

definition store_tx :: "tx_key \<Rightarrow> tx_session \<Rightarrow> tp \<Rightarrow> tp" where
  "store_tx key s st = st\<lparr>tp_tx_sessions := dset key s (tp_tx_sessions st)\<rparr>"

definition drop_tx :: "tx_key \<Rightarrow> tp \<Rightarrow> tp" where
  "drop_tx key st = st\<lparr>tp_tx_sessions := dpop key (tp_tx_sessions st)\<rparr>"

type_synonym tx_result = "can_frame list \<times> can_frame option"

text \<open>\<open>abort = self._create_tx_abort_frame(session, reason); self._tx_sessions.pop(key, None);
  return [], abort\<close>\<close>

definition abort_tx :: "tp \<Rightarrow> tx_key \<Rightarrow> tx_session \<Rightarrow> int \<Rightarrow> tick \<Rightarrow> tp \<times> tx_result py" where
  "abort_tx st key s reason now =
     act_bind (create_tx_abort_frame st s reason now) (\<lambda>st f. (drop_tx key st, Inr ([], Some f)))"

definition emit_stored :: "tp \<Rightarrow> tx_key \<Rightarrow> tx_session \<Rightarrow> tick \<Rightarrow> tp \<times> tx_result py" where
  "emit_stored st key s now =
     (case emit_dt_window st s now of (s, r) \<Rightarrow>
       (store_tx key s st, py_bind r (\<lambda>fs. Inr (fs, None))))"

definition advance_cmdt_transfer ::
  "tp \<Rightarrow> int \<Rightarrow> int \<Rightarrow> string option \<Rightarrow> tick \<Rightarrow> tp \<times> tx_result py" where
  "advance_cmdt_transfer st target_address pgn channel_id now =
     (let ch = or_channel st channel_id; key = (tp_my_address st, target_address, pgn, ch) in
      case dget (tp_tx_sessions st) key of
        None \<Rightarrow> (st, Inr ([], None))
      | Some s \<Rightarrow>
          (case ts_state s of
             WAIT_CTS \<Rightarrow>
               if tk_now now - ts_last_activity_time s > T2_TIMEOUT_SEC
               then abort_tx st key s ABORT_REASON_TIMEOUT now
               else (st, Inr ([], None))
           | WAIT_ACK \<Rightarrow>
               if tk_now now - ts_last_activity_time s > T3_TIMEOUT_SEC
               then abort_tx st key s ABORT_REASON_TIMEOUT now
               else (st, Inr ([], None))
           | GRANTED \<Rightarrow> emit_stored st key s now))"

section \<open>What the peer answers\<close>

definition tx_hold :: "tp \<Rightarrow> tx_key \<Rightarrow> tx_session \<Rightarrow> tick \<Rightarrow> tp \<times> tx_result py" where
  "tx_hold st key s now =
     (let s = (if ts_hold_window_start s = 0
                 \<or> tk_now now - ts_hold_window_start s > HOLD_WINDOW_S
               then s\<lparr>ts_hold_window_start := tk_now now, ts_hold_count := 0\<rparr> else s);
          s = s\<lparr>ts_hold_count := ts_hold_count s + 1\<rparr> in
      if ts_hold_count s > MAX_HOLD_CTS
      then abort_tx (store_tx key s st) key s ABORT_REASON_UNEXPECTED_CONTROL now
      else (store_tx key (s\<lparr>ts_state := WAIT_CTS, ts_last_activity_time := tk_now now\<rparr>) st,
            Inr ([], None)))"

definition tx_grant ::
  "tp \<Rightarrow> tx_key \<Rightarrow> tx_session \<Rightarrow> int \<Rightarrow> int \<Rightarrow> tick \<Rightarrow> tp \<times> tx_result py" where
  "tx_grant st key s packet_count next_seq now =
     (if next_seq < ts_next_sequence s \<and> ts_next_sequence s - next_seq > MAX_REWIND_DEPTH
      then abort_tx st key s ABORT_REASON_UNEXPECTED_CONTROL now
      else emit_stored st key
             (s\<lparr>ts_cts_window := packet_count, ts_next_sequence := next_seq, ts_state := GRANTED,
                ts_hold_count := 0, ts_hold_window_start := 0,
                ts_last_activity_time := tk_now now\<rparr>) now)"

definition tx_cts ::
  "tp \<Rightarrow> tx_key \<Rightarrow> tx_session \<Rightarrow> int \<Rightarrow> int \<Rightarrow> tick \<Rightarrow> tp \<times> tx_result py" where
  "tx_cts st key s packet_count next_seq now =
     (if next_seq = 0 \<or> next_seq > ts_total_packets s \<or> next_seq > ts_next_sequence s
      then abort_tx st key s ABORT_REASON_UNEXPECTED_CONTROL now
      else if packet_count > MAX_CTS_PACKET_COUNT
      then abort_tx st key s ABORT_REASON_UNEXPECTED_CONTROL now
      else if packet_count = 0 then tx_hold st key s now
      else tx_grant st key s packet_count next_seq now)"

definition tx_ack :: "tp \<Rightarrow> tx_key \<Rightarrow> tx_session \<Rightarrow> bytes \<Rightarrow> tick \<Rightarrow> tp \<times> tx_result py" where
  "tx_ack st key s d now =
     (if ts_state s \<noteq> WAIT_ACK \<or> from_le (py_slice d 1 3) \<noteq> ts_total_bytes s
        \<or> byte_at d 3 \<noteq> ts_total_packets s \<or> from_le (py_slice d 5 8) \<noteq> ts_target_pgn s
      then abort_tx st key s ABORT_REASON_UNEXPECTED_CONTROL now
      else (drop_tx key st, Inr ([], None)))"

definition handle_tx_cm :: "tp \<Rightarrow> can_frame \<Rightarrow> int \<Rightarrow> int \<Rightarrow> tick \<Rightarrow> tp \<times> tx_result py" where
  "handle_tx_cm st frame sa da now =
     (let d = frame_data frame;
          ctrl = byte_at d 0;
          target_pgn = from_le (py_slice d 5 8);
          key = (tp_my_address st, sa, target_pgn, frame_channel_id frame);
          count_cts = count_metric (\<lambda>m. m\<lparr>tm_rx_cts := tm_rx_cts m + 1\<rparr>);
          count_unsolicited =
            count_metric (\<lambda>m. m\<lparr>tm_rx_unsolicited_cts := tm_rx_unsolicited_cts m + 1\<rparr>) in
      case dget (tp_tx_sessions st) key of
        None \<Rightarrow>
          if ctrl = TP_CTRL_CTS then (count_unsolicited (count_cts st), Inr ([], None))
          else (st, Inr ([], None))
      | Some s \<Rightarrow>
          if ctrl = TP_CTRL_CTS then tx_cts (count_cts st) key s (byte_at d 1) (byte_at d 2) now
          else if ctrl = TP_CTRL_ACK then tx_ack st key s d now
          else if ctrl = TP_CTRL_ABORT then (drop_tx key st, Inr ([], None))
          else (st, Inr ([], None)))"

section \<open>Dispatch\<close>

text \<open>The first data packet rides the response slot, the rest are queued.\<close>

definition tx_response :: "tp \<Rightarrow> tx_result \<Rightarrow> tp \<times> rx_result py" where
  "tx_response st r =
     (case r of
        ([], err) \<Rightarrow> (st, Inr (None, err))
      | (f # fs, err) \<Rightarrow>
          (queue_frames (fs @ (case err of None \<Rightarrow> [] | Some e \<Rightarrow> [e])) st, Inr (None, Some f)))"

definition handle_rx_frame_pdu :: "tp \<Rightarrow> can_frame \<Rightarrow> tick \<Rightarrow> tp \<times> rx_result py" where
  "handle_rx_frame_pdu st frame now =
     (let d = frame_data frame;
          fd_tp = frame_is_fd frame \<and> (frame_dlc frame > 8 \<or> length d > 8) in
      if \<not> frame_is_extended frame \<or> length d < 8 \<or> fd_tp then
        (if fd_tp
         then (count_metric (\<lambda>m. m\<lparr>tm_dropped_fd_tp_frames := tm_dropped_fd_tp_frames m + 1\<rparr>) st,
               Inr (None, None))
         else (st, Inr (None, None)))
      else (case parse_j1939_id (frame_arbitration_id frame) of (pgn, sa, da_opt, priority) \<Rightarrow>
        let da = (case da_opt of Some t \<Rightarrow> t | None \<Rightarrow> 255) in
        if pgn = PGN_TP_CM then
          let probe_key = (tp_my_address st, sa, pgn_from_tp_cm frame, frame_channel_id frame) in
          if da = tp_my_address st \<and> ctrl_targets_sender frame
            \<and> (dget (tp_tx_sessions st) probe_key \<noteq> None \<or> byte_at d 0 \<noteq> TP_CTRL_ABORT)
          then act_bind (handle_tx_cm st frame sa da now) tx_response
          else handle_tp_cm st frame sa da now
        else if pgn = PGN_TP_DT then handle_tp_dt st frame sa da now
        else (st, Inr (None, None))))"

definition tp_handle_rx_frame :: "tp \<Rightarrow> can_frame \<Rightarrow> bool \<Rightarrow> tick \<Rightarrow> tp \<times> rx_result py" where
  "tp_handle_rx_frame st frame suppress_tx_responses now =
     act_bind (handle_rx_frame_pdu st frame now) (\<lambda>st (completed, resp).
       if \<not> suppress_tx_responses then (st, Inr (completed, resp))
       else (st\<lparr>tp_pending_tx_frames := []\<rparr>, Inr (completed, None)))"

end
