(* ===== verification/TransportRun.thy ===== *)
theory TransportRun
  imports TransportRx TransportTx
begin

text \<open>
  The engine of \<open>src/protocols/j1939/transport.py\<close> as a whole: the invariant of the sending
  side, every call as a step of a transition relation, and what holds in every state the calls
  can reach.
\<close>

section \<open>The data packets of a payload\<close>

definition dt_payload :: "bytes \<Rightarrow> int \<Rightarrow> bytes" where
  "dt_payload data q =
     (let chunk = take 7 (drop (nat ((q - 1) * 7)) data) in
      word_of_int q # chunk @ replicate (7 - length chunk) 0xFF)"

lemma length_dt_payload [simp]: "length (dt_payload data q) = 8"
  by (simp add: dt_payload_def Let_def)

lemma byte_at_dt_payload: "0 \<le> q \<Longrightarrow> q < 256 \<Longrightarrow> byte_at (dt_payload data q) 0 = q"
  by (simp add: dt_payload_def Let_def)

lemma dt_bytes_ok: "1 \<le> q \<Longrightarrow> q < 256 \<Longrightarrow> dt_bytes data q = Inr (dt_payload data q)"
proof -
  have "nat (q * 7 - (q - 1) * 7) = 7" by simp
  then show "1 \<le> q \<Longrightarrow> q < 256 \<Longrightarrow> ?thesis"
    by (simp add: dt_bytes_def dt_payload_def py_slice_def Let_def)
qed

lemma dt_frames_ok:
  assumes "channel_id_ok ch" "0 \<le> can_id" "can_id < 2 ^ 29"
  shows "list_all (\<lambda>q. 1 \<le> q \<and> q < 256) qs \<Longrightarrow>
    dt_frames ch can_id data qs ns = Inr (map (\<lambda>q. tx_frame ch can_id (dt_payload data q) ns) qs)"
  by (induction qs) (simp_all add: dt_bytes_ok create_tx_frame [OF assms])

definition cm_payload :: "int \<Rightarrow> bytes \<Rightarrow> int \<Rightarrow> bytes" where
  "cm_payload ctrl data pgn =
     [word_of_int ctrl] @ le_bytes 2 (int (length data)) @
     [word_of_int ((int (length data) + 6) div 7), 0xFF] @ le_bytes 3 pgn"

lemma length_cm_payload [simp]: "length (cm_payload ctrl data pgn) = 8"
  by (simp add: cm_payload_def del: le_bytes_numeral_2 le_bytes_numeral_3)

lemma cm_bytes_ok:
  assumes "length data \<le> MAX_TP_BYTES" "0 \<le> pgn" "pgn < 2 ^ 24"
  shows "cm_bytes ctrl data pgn = Inr (cm_payload ctrl data pgn)"
proof -
  have "(int (length data) + 6) div 7 < 256" using assms(1) by (simp add: MAX_TP_BYTES_def)
  then show ?thesis
    using assms
    by (simp add: cm_bytes_def cm_payload_def to_le_def MAX_TP_BYTES_def Let_def
        del: le_bytes_numeral_2 le_bytes_numeral_3)
qed

section \<open>The sender's invariant\<close>

definition tx_session_ok :: "tx_key \<Rightarrow> tx_session \<Rightarrow> bool" where
  "tx_session_ok k s \<longleftrightarrow>
     k = tx_key s \<and> 0 \<le> ts_target_pgn s \<and> ts_target_pgn s < 2 ^ 24 \<and>
     channel_id_ok (ts_channel_id s) \<and>
     ts_total_bytes s = int (length (ts_data s)) \<and>
     tp_length_ok (ts_total_bytes s) (ts_total_packets s) \<and>
     1 \<le> ts_next_sequence s \<and> ts_next_sequence s \<le> ts_total_packets s + 1 \<and>
     0 \<le> ts_hold_count s \<and> ts_hold_count s \<le> MAX_HOLD_CTS \<and>
     ts_state s \<noteq> GRANTED \<and>
     (ts_state s = WAIT_ACK \<longrightarrow> ts_next_sequence s = ts_total_packets s + 1)"

definition tx_inv :: "tp \<Rightarrow> bool" where
  "tx_inv st \<longleftrightarrow>
     dwf (tp_tx_sessions st) \<and> length (tp_tx_sessions st) \<le> MAX_TX_SESSIONS \<and>
     dall tx_session_ok (tp_tx_sessions st) \<and> channel_id_ok (tp_channel_id st)"

lemma tx_inv_session: "tx_inv st \<Longrightarrow> dget (tp_tx_sessions st) k = Some s \<Longrightarrow> tx_session_ok k s"
  by (auto simp: tx_inv_def dest: dallD)

text \<open>What a sender operation leaves alone, the queue of outgoing frames aside.\<close>

definition tx_keeps :: "tp \<Rightarrow> tp \<Rightarrow> bool" where
  "tx_keeps st st' \<longleftrightarrow>
     tp_my_address st' = tp_my_address st \<and> tp_channel_id st' = tp_channel_id st \<and>
     tp_rx_cts_window st' = tp_rx_cts_window st \<and> tp_rx_sessions st' = tp_rx_sessions st \<and>
     tp_per_sa st' = tp_per_sa st \<and> tp_prefix_marks st' = tp_prefix_marks st"

definition tx_frame_keeps :: "tp \<Rightarrow> tp \<Rightarrow> bool" where
  "tx_frame_keeps st st' \<longleftrightarrow> tx_keeps st st' \<and> tp_pending_tx_frames st' = tp_pending_tx_frames st"

lemma tx_keeps_refl [simp]: "tx_keeps st st" "tx_frame_keeps st st"
  by (simp_all add: tx_keeps_def tx_frame_keeps_def)

lemma tx_keeps_trans: "tx_frame_keeps a b \<Longrightarrow> tx_frame_keeps b c \<Longrightarrow> tx_frame_keeps a c"
  by (simp add: tx_keeps_def tx_frame_keeps_def)

lemma cm_id_to_eq: "cm_id_to st target = id_of 7 0 0 0xEC (target mod 256) (tp_my_address st mod 256)"
  unfolding cm_id_to_def and_masks by (rule tp_ids) simp_all

lemma tp_id_range:
  "0 \<le> id_of 7 0 0 0xEC (a mod 256) (b mod 256) \<and> id_of 7 0 0 0xEC (a mod 256) (b mod 256) < 2 ^ 29"
  "0 \<le> id_of 7 0 0 0xEB (a mod 256) (b mod 256) \<and> id_of 7 0 0 0xEB (a mod 256) (b mod 256) < 2 ^ 29"
  "0 \<le> id_of 7 0 0 0xEC 255 (b mod 256) \<and> id_of 7 0 0 0xEC 255 (b mod 256) < 2 ^ 29"
  "0 \<le> id_of 7 0 0 0xEB 255 (b mod 256) \<and> id_of 7 0 0 0xEB 255 (b mod 256) < 2 ^ 29"
  using id_of_range [of 0 0 "0xEC" "a mod 256" "b mod 256" 7]
    id_of_range [of 0 0 "0xEB" "a mod 256" "b mod 256" 7]
    id_of_range [of 0 0 "0xEC" 255 "b mod 256" 7] id_of_range [of 0 0 "0xEB" 255 "b mod 256" 7]
  by simp_all

text \<open>An abort of one of our transfers.\<close>

lemma create_tx_abort_ok:
  assumes s: "0 \<le> ts_target_pgn s" "ts_target_pgn s < 2 ^ 24" "channel_id_ok (ts_channel_id s)"
    and "0 \<le> reason" "reason < 256"
  obtains st' f where "create_tx_abort_frame st s reason now = (st', Inr f)"
    "tx_frame_keeps st st'" "tp_tx_sessions st' = tp_tx_sessions st"
    "tp_sends (tp_my_address st) TP_CTRL_ABORT f"
proof -
  define st' where "st' = count_metric (\<lambda>m. m\<lparr>tm_tx_abort_emitted := tm_tx_abort_emitted m + 1\<rparr>) st"
  define d where "d = [word_of_int TP_CTRL_ABORT, word_of_int reason, 0xFF, 0xFF, 0xFF] @ le_bytes 3 (ts_target_pgn s)"
  have d: "abort_bytes reason (ts_target_pgn s) = Inr d" "length d = 8" "byte_at d 0 = TP_CTRL_ABORT"
    using assms s by (simp_all add: d_def abort_bytes_ok TP_CTRL_ABORT_def del: le_bytes_numeral_3)
  let ?id = "id_of 7 0 0 0xEC (ts_destination_address s mod 256) (tp_my_address st mod 256)"
  note id = tp_id_range(1) [of "ts_destination_address s" "tp_my_address st"]
  let ?f = "tx_frame (ts_channel_id s) ?id d (tk_ns now)"
  show thesis
  proof (rule that)
    have "cm_id_to st' (ts_destination_address s) = ?id" by (simp add: cm_id_to_eq st'_def)
    then show "create_tx_abort_frame st s reason now = (st', Inr ?f)"
      unfolding create_tx_abort_frame_def Let_def st'_def [symmetric] d py_bind_simps
      using id s(3) d(2) by (simp add: create_tx_frame)
    show "tp_sends (tp_my_address st) TP_CTRL_ABORT ?f"
      using id s(3) d by (simp add: tp_sends_def tx_frame_wf parse_tp_id)
  qed (simp_all add: st'_def tx_frame_keeps_def tx_keeps_def)
qed

section \<open>A window of packets\<close>

lemma emit_loop_eq:
  assumes "channel_id_ok ch" "0 \<le> can_id" "can_id < 2 ^ 29" "1 \<le> ts_next_sequence s" "window_end < 256"
  shows "emit_loop ch can_id window_end now s =
    ((if ts_next_sequence s \<le> window_end
      then s\<lparr>ts_next_sequence := window_end + 1, ts_last_activity_time := tk_now now\<rparr> else s),
     Inr (map (\<lambda>q. tx_frame ch can_id (dt_payload (ts_data s) q) (tk_ns now))
       [ts_next_sequence s..window_end]))"
  using assms
proof (induction ch can_id window_end now s rule: emit_loop.induct)
  case (1 ch can_id window_end now s)
  show ?case
  proof (cases "ts_next_sequence s \<le> window_end")
    case True
    let ?s = "s\<lparr>ts_next_sequence := ts_next_sequence s + 1, ts_last_activity_time := tk_now now\<rparr>"
    let ?f = "tx_frame ch can_id (dt_payload (ts_data s) (ts_next_sequence s)) (tk_ns now)"
    have dt: "dt_bytes (ts_data s) (ts_next_sequence s) = Inr (dt_payload (ts_data s) (ts_next_sequence s))"
      using True "1.prems" by (intro dt_bytes_ok) simp_all
    have f: "py_bind (dt_bytes (ts_data s) (ts_next_sequence s)) (\<lambda>d. create_tx ch can_id d (tk_ns now)) = Inr ?f"
      unfolding dt py_bind_simps by (rule create_tx_frame [OF 1(2-4)]) simp
    have ih: "emit_loop ch can_id window_end now ?s =
        ((if ts_next_sequence ?s \<le> window_end
          then ?s\<lparr>ts_next_sequence := window_end + 1, ts_last_activity_time := tk_now now\<rparr> else ?s),
         Inr (map (\<lambda>q. tx_frame ch can_id (dt_payload (ts_data ?s) q) (tk_ns now))
           [ts_next_sequence ?s..window_end]))"
      by (rule 1(1) [OF True f]) (use 1(2-6) in simp_all)
    show ?thesis
      unfolding emit_loop.simps [of ch can_id window_end now s] f sum.case ih
      using True upto_rec1 [OF True] by auto
  next
    case False
    then show ?thesis unfolding emit_loop.simps [of ch can_id window_end now s] by simp
  qed
qed

text \<open>What a granted window puts on the bus: the packets from the next sequence number on, as
  many as were granted and as there are.\<close>

definition window_end :: "tx_session \<Rightarrow> int" where
  "window_end s = min (ts_next_sequence s + ts_cts_window s - 1) (ts_total_packets s)"

definition dt_frame_of :: "tp \<Rightarrow> tx_session \<Rightarrow> int \<Rightarrow> tick \<Rightarrow> can_frame" where
  "dt_frame_of st s q now =
     tx_frame (ts_channel_id s)
       (id_of 7 0 0 0xEB (ts_destination_address s mod 256) (tp_my_address st mod 256))
       (dt_payload (ts_data s) q) (tk_ns now)"

definition after_window :: "tx_session \<Rightarrow> tick \<Rightarrow> tx_session" where
  "after_window s now =
     s\<lparr>ts_next_sequence := window_end s + 1,
       ts_state := (if window_end s = ts_total_packets s then WAIT_ACK else WAIT_CTS),
       ts_last_activity_time := tk_now now\<rparr>"

lemma emit_dt_window_eq:
  assumes "channel_id_ok (ts_channel_id s)" "tp_length_ok (ts_total_bytes s) (ts_total_packets s)"
    "1 \<le> ts_next_sequence s" "ts_next_sequence s \<le> ts_total_packets s" "1 \<le> ts_cts_window s"
  shows "emit_dt_window st s now =
    (after_window s now, Inr (map (\<lambda>q. dt_frame_of st s q now) [ts_next_sequence s..window_end s]))"
proof -
  let ?id = "id_of 7 0 0 0xEB (ts_destination_address s mod 256) (tp_my_address st mod 256)"
  have id: "0x1CEB0000 OR push_bit 8 (ts_destination_address s AND 0xFF) OR (tp_my_address st AND 0xFF) = ?id"
    unfolding and_masks by (rule tp_ids) simp_all
  have w: "window_end s < 256" "ts_next_sequence s \<le> window_end s"
    using packets_range [OF assms(2)] assms(3-5) by (auto simp: window_end_def)
  note range = tp_id_range(2) [of "ts_destination_address s" "tp_my_address st"]
  have loop: "emit_loop (ts_channel_id s) ?id (window_end s) now s =
      (s\<lparr>ts_next_sequence := window_end s + 1, ts_last_activity_time := tk_now now\<rparr>,
       Inr (map (\<lambda>q. dt_frame_of st s q now) [ts_next_sequence s..window_end s]))"
    using emit_loop_eq [OF assms(1) _ _ assms(3) w(1), of ?id now] range w(2)
    by (simp add: dt_frame_of_def)
  have "(window_end s + 1 > ts_total_packets s) = (window_end s = ts_total_packets s)"
    by (auto simp: window_end_def)
  then show ?thesis
    unfolding emit_dt_window_def Let_def id window_end_def [symmetric] loop act_bind_simps
    by (simp add: after_window_def)
qed

section \<open>The sender's operations keep the invariant\<close>

definition dt_sends :: "int \<Rightarrow> can_frame \<Rightarrow> bool" where
  "dt_sends my f \<longleftrightarrow> frame_wf f \<and> length (frame_data f) = 8 \<and>
     (\<exists>peer. parse_j1939_id (frame_arbitration_id f) = (PGN_TP_DT, my mod 256, Some peer, 7))"

lemma dt_frame_sends: "channel_id_ok (ts_channel_id s) \<Longrightarrow> dt_sends (tp_my_address st) (dt_frame_of st s q now)"
  using tp_id_range(2) [of "ts_destination_address s" "tp_my_address st"]
  by (simp add: dt_sends_def dt_frame_of_def tx_frame_wf parse_tp_id)

definition tx_good :: "tp \<Rightarrow> tp \<times> tx_result py \<Rightarrow> bool" where
  "tx_good st r \<longleftrightarrow>
     (case r of
        (st', Inl e) \<Rightarrow> False
      | (st', Inr (fs, err)) \<Rightarrow> tx_inv st' \<and> tx_frame_keeps st st' \<and>
          int (length fs) \<le> MAX_CTS_PACKET_COUNT \<and> list_all (dt_sends (tp_my_address st)) fs \<and>
          opt_all (tp_sends (tp_my_address st) TP_CTRL_ABORT) err)"

lemma tx_good_quiet: "tx_inv st \<Longrightarrow> tx_good st (st, Inr ([], None))"
  by (simp add: tx_good_def MAX_CTS_PACKET_COUNT_def)

lemma tx_good_start: "tx_good st0 r \<Longrightarrow> tx_frame_keeps st st0 \<Longrightarrow> tx_good st r"
  by (auto simp: tx_good_def tx_frame_keeps_def tx_keeps_def split: sum.splits)

lemma store_drop_keeps [simp]:
  "tx_frame_keeps st (store_tx k s st)" "tx_frame_keeps st (drop_tx k st)"
  "tp_my_address (store_tx k s st) = tp_my_address st"
  by (simp_all add: store_tx_def drop_tx_def tx_frame_keeps_def tx_keeps_def)

lemma tx_inv_drop: "tx_inv st \<Longrightarrow> tx_inv (drop_tx k st)"
  using AList.length_delete_le [of k "tp_tx_sessions st"]
  by (simp add: tx_inv_def drop_tx_def dict.wf_discard dall_dpop)

lemma tx_inv_store:
  assumes "tx_inv st" "dget (tp_tx_sessions st) k = Some s0" "tx_session_ok k s"
  shows "tx_inv (store_tx k s st)"
  using assms(1,3) length_dset_old [of k "tp_tx_sessions st" s, OF domI, OF assms(2)]
  by (simp add: tx_inv_def store_tx_def dict.wf_store dall_dset)

lemma tx_inv_cong:
  "tp_tx_sessions st' = tp_tx_sessions st \<Longrightarrow> tp_channel_id st' = tp_channel_id st \<Longrightarrow>
   tx_inv st' = tx_inv st"
  by (simp add: tx_inv_def)

lemma abort_tx_good:
  assumes inv: "tx_inv (drop_tx k st)" and s: "0 \<le> ts_target_pgn s" "ts_target_pgn s < 2 ^ 24"
    "channel_id_ok (ts_channel_id s)" and r: "0 \<le> reason" "reason < 256"
  obtains st' f where "abort_tx st k s reason now = (st', Inr ([], Some f))"
    "tp_tx_sessions st' = dpop k (tp_tx_sessions st)" "tx_good st (abort_tx st k s reason now)"
    "tp_sends (tp_my_address st) TP_CTRL_ABORT f"
proof -
  obtain st1 f where ab: "create_tx_abort_frame st s reason now = (st1, Inr f)"
    "tx_frame_keeps st st1" "tp_tx_sessions st1 = tp_tx_sessions st"
    "tp_sends (tp_my_address st) TP_CTRL_ABORT f"
    by (rule create_tx_abort_ok [OF s r, of st now]) (rule that)
  have eq: "abort_tx st k s reason now = (drop_tx k st1, Inr ([], Some f))"
    by (simp add: abort_tx_def ab(1))
  have "tx_inv (drop_tx k st1)"
    using inv tx_inv_cong [of "drop_tx k st1" "drop_tx k st"] ab(2,3)
    by (simp add: drop_tx_def tx_frame_keeps_def tx_keeps_def)
  then show thesis
    by (intro that [OF eq _ _ ab(4)])
      (use ab in \<open>simp_all add: eq tx_good_def MAX_CTS_PACKET_COUNT_def drop_tx_def tx_frame_keeps_def tx_keeps_def\<close>)
qed

lemma abort_session_good:
  assumes "tx_inv st" "tx_session_ok k s" "0 \<le> reason" "reason < 256"
  shows "tx_good st (abort_tx st k s reason now)"
  by (rule abort_tx_good [OF tx_inv_drop [OF assms(1)] _ _ _ assms(3,4), where k = k and s = s and now = now])
    (use assms(2) in \<open>simp_all add: tx_session_ok_def\<close>)

text \<open>A session that has just been granted packets.\<close>

definition tx_ready :: "tx_key \<Rightarrow> tx_session \<Rightarrow> bool" where
  "tx_ready k s \<longleftrightarrow> tx_session_ok k (s\<lparr>ts_state := WAIT_CTS\<rparr>) \<and>
     ts_next_sequence s \<le> ts_total_packets s \<and>
     1 \<le> ts_cts_window s \<and> ts_cts_window s \<le> MAX_CTS_PACKET_COUNT"

lemma tx_ready_facts:
  assumes "tx_ready k s"
  shows "channel_id_ok (ts_channel_id s)" "tp_length_ok (ts_total_bytes s) (ts_total_packets s)"
    "1 \<le> ts_next_sequence s" "ts_next_sequence s \<le> ts_total_packets s" "1 \<le> ts_cts_window s"
    "window_end s + 1 - ts_next_sequence s \<le> MAX_CTS_PACKET_COUNT"
proof -
  have ok: "tx_session_ok k (s\<lparr>ts_state := WAIT_CTS\<rparr>)" and rest:
    "ts_next_sequence s \<le> ts_total_packets s" "1 \<le> ts_cts_window s" "ts_cts_window s \<le> MAX_CTS_PACKET_COUNT"
    using assms by (simp_all add: tx_ready_def)
  show "channel_id_ok (ts_channel_id s)" "tp_length_ok (ts_total_bytes s) (ts_total_packets s)"
    "1 \<le> ts_next_sequence s"
    using ok unfolding tx_session_ok_def by auto
  show "window_end s + 1 - ts_next_sequence s \<le> MAX_CTS_PACKET_COUNT"
    using rest unfolding window_end_def by linarith
qed (use assms in \<open>simp_all add: tx_ready_def\<close>)

lemma after_window_ok: "tx_ready k s \<Longrightarrow> tx_session_ok k (after_window s now)"
  by (auto simp: tx_ready_def tx_session_ok_def after_window_def window_end_def tx_key_def)

lemma emit_stored_eq:
  assumes "tx_ready k s"
  shows "emit_stored st k s now = (store_tx k (after_window s now) st,
    Inr (map (\<lambda>q. dt_frame_of st s q now) [ts_next_sequence s..window_end s], None))"
proof -
  have "emit_dt_window st s now =
      (after_window s now, Inr (map (\<lambda>q. dt_frame_of st s q now) [ts_next_sequence s..window_end s]))"
    by (rule emit_dt_window_eq) (rule tx_ready_facts [OF assms])+
  then show ?thesis by (simp add: emit_stored_def)
qed

lemma emit_stored_good:
  assumes "tx_inv st" "dget (tp_tx_sessions st) k = Some s0" "tx_ready k s"
  shows "tx_good st (emit_stored st k s now)"
proof -
  have "int (length [ts_next_sequence s..window_end s]) \<le> MAX_CTS_PACKET_COUNT"
    using tx_ready_facts(6) [OF assms(3)] by (simp add: MAX_CTS_PACKET_COUNT_def)
  moreover have "channel_id_ok (ts_channel_id s)" by (rule tx_ready_facts [OF assms(3)])
  ultimately show ?thesis
    using tx_inv_store [OF assms(1,2) after_window_ok [OF assms(3)]]
    by (simp add: emit_stored_eq [OF assms(3)] tx_good_def list_all_iff dt_frame_sends)
qed

lemma tx_hold_good:
  assumes inv: "tx_inv st" and k: "dget (tp_tx_sessions st) k = Some s"
  shows "tx_good st (tx_hold st k s now)"
proof -
  have s: "tx_session_ok k s" by (rule tx_inv_session [OF inv k])
  define s1 where "s1 = (if ts_hold_window_start s = 0 \<or> tk_now now - ts_hold_window_start s > HOLD_WINDOW_S
    then s\<lparr>ts_hold_window_start := tk_now now, ts_hold_count := 0\<rparr> else s)"
  define s2 where "s2 = s1\<lparr>ts_hold_count := ts_hold_count s1 + 1\<rparr>"
  have s2: "0 \<le> ts_target_pgn s2" "ts_target_pgn s2 < 2 ^ 24" "channel_id_ok (ts_channel_id s2)"
    "ts_hold_count s2 \<le> MAX_HOLD_CTS \<Longrightarrow> tx_session_ok k (s2\<lparr>ts_state := WAIT_CTS, ts_last_activity_time := tk_now now\<rparr>)"
    using s by (auto simp: tx_session_ok_def s2_def s1_def tx_key_def)
  have eq: "tx_hold st k s now = (if ts_hold_count s2 > MAX_HOLD_CTS
      then abort_tx (store_tx k s2 st) k s2 ABORT_REASON_UNEXPECTED_CONTROL now
      else (store_tx k (s2\<lparr>ts_state := WAIT_CTS, ts_last_activity_time := tk_now now\<rparr>) st, Inr ([], None)))"
    unfolding tx_hold_def Let_def s1_def [symmetric] s2_def [symmetric] ..
  show ?thesis
  proof (cases "ts_hold_count s2 > MAX_HOLD_CTS")
    case True
    have drop: "tx_inv (drop_tx k (store_tx k s2 st))"
      using tx_inv_drop [OF inv, of k] tx_inv_cong [of "drop_tx k (store_tx k s2 st)" "drop_tx k st"]
      by (simp add: drop_tx_def store_tx_def AList.delete_update_same)
    have "tx_good (store_tx k s2 st) (abort_tx (store_tx k s2 st) k s2 ABORT_REASON_UNEXPECTED_CONTROL now)"
      by (rule abort_tx_good [OF drop s2(1-3), of ABORT_REASON_UNEXPECTED_CONTROL now]) (simp_all add: tp_reasons)
    then show ?thesis unfolding eq using True tx_good_start by simp
  next
    case False
    then show ?thesis
      unfolding eq using tx_inv_store [OF inv k s2(4)] by (simp add: tx_good_def MAX_CTS_PACKET_COUNT_def)
  qed
qed

lemma tx_grant_ready:
  assumes "tx_session_ok k s" "1 \<le> next_seq" "next_seq \<le> ts_total_packets s"
    "1 \<le> count" "count \<le> MAX_CTS_PACKET_COUNT"
  shows "tx_ready k (s\<lparr>ts_cts_window := count, ts_next_sequence := next_seq, ts_state := GRANTED,
    ts_hold_count := 0, ts_hold_window_start := 0, ts_last_activity_time := t\<rparr>)"
  using assms by (auto simp: tx_ready_def tx_session_ok_def tx_key_def MAX_HOLD_CTS_def)

lemma tx_cts_good:
  assumes inv: "tx_inv st" and k: "dget (tp_tx_sessions st) k = Some s"
    and "0 \<le> next_seq" "0 \<le> count"
  shows "tx_good st (tx_cts st k s count next_seq now)"
proof -
  have s: "tx_session_ok k s" by (rule tx_inv_session [OF inv k])
  have aborts: "tx_good st (abort_tx st k s ABORT_REASON_UNEXPECTED_CONTROL now)"
    by (rule abort_session_good [OF inv s]) (simp_all add: tp_reasons)
  have granted: "tx_good st (tx_grant st k s count next_seq now)"
    if "next_seq \<noteq> 0" "next_seq \<le> ts_total_packets s" "count \<le> MAX_CTS_PACKET_COUNT" "count \<noteq> 0"
    unfolding tx_grant_def using aborts emit_stored_good [OF inv k tx_grant_ready [OF s]] that assms(3,4) by simp
  show ?thesis
    unfolding tx_cts_def using aborts granted tx_hold_good [OF inv k] by simp
qed

lemma handle_tx_cm_good:
  assumes inv: "tx_inv st"
  shows "tx_good st (handle_tx_cm st frame sa da now)"
proof -
  let ?d = "frame_data frame"
  let ?k = "(tp_my_address st, sa, from_le (py_slice ?d 5 8), frame_channel_id frame)"
  have counted: "tx_inv (count_metric f st)" "tx_frame_keeps st (count_metric f st)" for f
    using inv by (simp_all add: tx_inv_def tx_frame_keeps_def tx_keeps_def)
  have counted2: "tx_inv (count_metric g (count_metric f st))" "tx_frame_keeps st (count_metric g (count_metric f st))" for f g
    using inv by (simp_all add: tx_inv_def tx_frame_keeps_def tx_keeps_def)
  show ?thesis
  proof (cases "dget (tp_tx_sessions st) ?k")
    case None
    have "tx_good st (st, Inr ([], None))" "tx_good st (count_metric g (count_metric f st), Inr ([], None))" for f g
      using tx_good_quiet [OF inv] tx_good_start [OF tx_good_quiet [OF counted2(1)] counted2(2)] by simp_all
    then show ?thesis unfolding handle_tx_cm_def Let_def None option.case by simp
  next
    case (Some s)
    have s: "tx_session_ok ?k s" by (rule tx_inv_session [OF inv Some])
    define st1 where "st1 = count_metric (\<lambda>m. m\<lparr>tm_rx_cts := tm_rx_cts m + 1\<rparr>) st"
    have some1: "dget (tp_tx_sessions st1) ?k = Some s" using Some by (simp add: st1_def)
    have cts: "tx_good st (tx_cts st1 ?k s (byte_at ?d 1) (byte_at ?d 2) now)"
      by (rule tx_good_start [OF tx_cts_good [OF _ some1]]) (simp_all add: st1_def counted)
    have dropped: "tx_good st (drop_tx ?k st, Inr ([], None))"
      using tx_inv_drop [OF inv] by (simp add: tx_good_def MAX_CTS_PACKET_COUNT_def)
    have ack: "tx_good st (tx_ack st ?k s ?d now)"
    proof -
      have "tx_good st (abort_tx st ?k s ABORT_REASON_UNEXPECTED_CONTROL now)"
        by (rule abort_session_good [OF inv s]) (simp_all add: tp_reasons)
      then show ?thesis unfolding tx_ack_def using dropped by (simp only: split: if_split) blast
    qed
    show ?thesis
      unfolding handle_tx_cm_def Let_def Some option.case st1_def [symmetric]
      using cts ack dropped tx_good_quiet [OF inv] by (simp only: split: if_split) blast
  qed
qed

section \<open>Opening, advancing and reaping transfers\<close>

text \<open>Operations that give a list of frames or nothing else.\<close>

definition tx_frames_good :: "tp \<Rightarrow> tp \<times> can_frame list py \<Rightarrow> bool" where
  "tx_frames_good st r \<longleftrightarrow>
     (case r of
        (st', Inl e) \<Rightarrow> False
      | (st', Inr fs) \<Rightarrow> tx_inv st' \<and> tx_frame_keeps st st' \<and>
          list_all (tp_sends (tp_my_address st) TP_CTRL_ABORT) fs)"

lemma reap_tx_keys_good:
  "tx_inv st \<Longrightarrow> distinct ks \<Longrightarrow> set ks \<subseteq> dom (dget (tp_tx_sessions st)) \<Longrightarrow>
   tx_frames_good st (reap_tx_keys ks st now) \<and>
   tp_tx_sessions (fst (reap_tx_keys ks st now)) = dpop_all ks (tp_tx_sessions st)"
proof (induction ks arbitrary: st)
  case Nil
  then show ?case by (simp add: tx_frames_good_def)
next
  case (Cons k ks)
  obtain s where k: "dget (tp_tx_sessions st) k = Some s" using Cons.prems(3) by auto
  have s: "tx_session_ok k s" by (rule tx_inv_session [OF Cons.prems(1) k])
  let ?st = "st\<lparr>tp_tx_sessions := dpop k (tp_tx_sessions st)\<rparr>"
  obtain st1 f where ab: "create_tx_abort_frame ?st s ABORT_REASON_TIMEOUT now = (st1, Inr f)"
    "tx_frame_keeps ?st st1" "tp_tx_sessions st1 = tp_tx_sessions ?st"
    "tp_sends (tp_my_address ?st) TP_CTRL_ABORT f"
    by (rule create_tx_abort_ok [of s ABORT_REASON_TIMEOUT ?st now])
      (use s in \<open>simp_all add: tx_session_ok_def ABORT_REASON_TIMEOUT_def\<close>)
  have keep: "tx_frame_keeps st st1" using ab(2) by (simp add: tx_frame_keeps_def tx_keeps_def)
  have inv1: "tx_inv st1"
    using tx_inv_drop [OF Cons.prems(1), of k] tx_inv_cong [of st1 "drop_tx k st"] ab(3) keep
    by (simp add: drop_tx_def tx_frame_keeps_def tx_keeps_def)
  have "set ks \<subseteq> dom (dget (tp_tx_sessions st1))" using Cons.prems(2,3) ab(3) by auto
  from Cons.IH [OF inv1 _ this] Cons.prems(2)
  have ih: "tx_frames_good st1 (reap_tx_keys ks st1 now)"
    "tp_tx_sessions (fst (reap_tx_keys ks st1 now)) = dpop_all ks (tp_tx_sessions st1)" by simp_all
  then obtain st2 fs where r: "reap_tx_keys ks st1 now = (st2, Inr fs)" "tx_inv st2" "tx_frame_keeps st1 st2"
    "list_all (tp_sends (tp_my_address st1) TP_CTRL_ABORT) fs"
    by (auto simp: tx_frames_good_def split: prod.splits sum.splits)
  have "reap_tx_keys (k # ks) st now = (st2, Inr (f # fs))"
    by (simp add: k ab(1) r(1))
  moreover have "tp_my_address st1 = tp_my_address st" using keep by (simp add: tx_frame_keeps_def tx_keeps_def)
  ultimately show ?case
    using r ih(2) ab(3,4) tx_keeps_trans [OF keep r(3)] by (simp add: tx_frames_good_def)
qed

lemma reap_tx_good: "tx_inv st \<Longrightarrow> tx_frames_good st (reap_stale_tx_sessions st now)"
proof -
  assume inv: "tx_inv st"
  let ?ks = "dkeys_where (\<lambda>k s. tx_expired (tk_now now) s) (tp_tx_sessions st)"
  have wf: "dwf (tp_tx_sessions st)" using inv by (simp add: tx_inv_def)
  have "distinct ?ks" unfolding dkeys_where_def by (rule distinct_fst_filter [OF wf])
  moreover have "set ?ks \<subseteq> dom (dget (tp_tx_sessions st))" using set_dkeys_where [OF wf] by blast
  ultimately show ?thesis
    unfolding reap_stale_tx_sessions_def using reap_tx_keys_good [OF inv] by blast
qed

text \<open>Appending to the queue of outgoing frames.\<close>

lemma queue_frames_simps [simp]:
  "tx_inv (queue_frames fs st) = tx_inv st" "tx_keeps st0 (queue_frames fs st) = tx_keeps st0 st"
  "tp_pending_tx_frames (queue_frames fs st) = tp_pending_tx_frames st @ fs"
  "tp_tx_sessions (queue_frames fs st) = tp_tx_sessions st"
  "tp_my_address (queue_frames fs st) = tp_my_address st"
  by (simp_all add: queue_frames_def tx_inv_def tx_keeps_def)

definition tx_queued :: "tp \<Rightarrow> tp \<Rightarrow> bool" where
  "tx_queued st st' \<longleftrightarrow> tx_inv st' \<and> tx_keeps st st' \<and>
     (\<exists>fs. tp_pending_tx_frames st' = tp_pending_tx_frames st @ fs \<and>
       list_all (tp_sends (tp_my_address st) TP_CTRL_ABORT) fs)"

lemma tx_queued_intro:
  assumes "tx_inv st1" "tx_frame_keeps st st1" "list_all (tp_sends (tp_my_address st) TP_CTRL_ABORT) fs"
  shows "tx_queued st (queue_frames fs st1)"
  using assms by (simp add: tx_queued_def tx_frame_keeps_def)

lemma tx_queued_trans: "tx_queued a b \<Longrightarrow> tx_queued b c \<Longrightarrow> tx_queued a c"
  by (auto simp: tx_queued_def tx_keeps_def)

lemma evict_tx_ok:
  assumes inv: "tx_inv st"
  obtains st' where "evict_tx st now = (st', Inr ())" "tx_queued st st'"
    "length (tp_tx_sessions st') < MAX_TX_SESSIONS"
proof (cases "length (tp_tx_sessions st) \<ge> MAX_TX_SESSIONS")
  case False
  then show thesis
    using inv by (intro that [of st]) (simp_all add: evict_tx_def tx_queued_def)
next
  case full: True
  have wf: "dwf (tp_tx_sessions st)" and len: "length (tp_tx_sessions st) \<le> MAX_TX_SESSIONS"
    using inv by (simp_all add: tx_inv_def)
  have "tp_tx_sessions st \<noteq> []" using full by (auto simp: MAX_TX_SESSIONS_def)
  then have "oldest_key ts_last_activity_time (tp_tx_sessions st) \<noteq> None"
    unfolding oldest_key_None .
  then obtain k where k: "oldest_key ts_last_activity_time (tp_tx_sessions st) = Some k" by blast
  obtain s where s: "dget (tp_tx_sessions st) k = Some s" using oldest_key_Some [OF k wf] by blast
  let ?st = "drop_tx k st"
  obtain st1 f where ab: "create_tx_abort_frame ?st s ABORT_REASON_TIMEOUT now = (st1, Inr f)"
    "tx_frame_keeps ?st st1" "tp_tx_sessions st1 = tp_tx_sessions ?st"
    "tp_sends (tp_my_address ?st) TP_CTRL_ABORT f"
    by (rule create_tx_abort_ok [of s ABORT_REASON_TIMEOUT ?st now])
      (use tx_inv_session [OF inv s] in \<open>simp_all add: tx_session_ok_def ABORT_REASON_TIMEOUT_def\<close>)
  have keep: "tx_frame_keeps st st1" by (rule tx_keeps_trans [OF _ ab(2)]) simp
  have inv1: "tx_inv st1"
    using tx_inv_drop [OF inv, of k] tx_inv_cong [of st1 ?st] ab(2,3) by (simp add: tx_frame_keeps_def tx_keeps_def)
  have eq: "evict_tx st now = (queue_frames [f] st1, Inr ())"
    using full ab(1) by (simp add: evict_tx_def k s drop_tx_def)
  show thesis
  proof (rule that [OF eq])
    show "tx_queued st (queue_frames [f] st1)"
      using ab(4) by (intro tx_queued_intro [OF inv1 keep]) (simp add: drop_tx_def)
    have "length (dkeys (dpop k (tp_tx_sessions st))) < length (dkeys (tp_tx_sessions st))"
      using s by (intro dict.size_evict [OF wf]) auto
    then show "length (tp_tx_sessions (queue_frames [f] st1)) < MAX_TX_SESSIONS"
      using ab(3) len by (simp add: drop_tx_def)
  qed
qed

lemma start_cmdt_ok:
  assumes inv: "tx_inv st" and len: "1 \<le> length data" "length data \<le> MAX_TP_BYTES"
    and pgn: "0 \<le> pgn" "pgn < 2 ^ 24" and ch: "channel_id_ok (or_channel st channel_id)"
  obtains st' where "start_cmdt_transfer st target pgn data channel_id now =
      (st', Inr (tx_frame (or_channel st channel_id) (cm_id_to st target) (cm_payload TP_CTRL_RTS data pgn) (tk_ns now)))"
    "tx_queued st st'"
    "dget (tp_tx_sessions st') (tp_my_address st, target, pgn, or_channel st channel_id) =
      Some (new_tx_session st target pgn data (or_channel st channel_id) (tk_now now))"
proof -
  let ?ch = "or_channel st channel_id"
  let ?s = "new_tx_session st target pgn data ?ch (tk_now now)"
  obtain st1 fs where reap: "reap_stale_tx_sessions st now = (st1, Inr fs)" "tx_inv st1"
    "tx_frame_keeps st st1" "list_all (tp_sends (tp_my_address st) TP_CTRL_ABORT) fs"
    using reap_tx_good [OF inv, of now] by (auto simp: tx_frames_good_def split: prod.splits sum.splits)
  have q1: "tx_queued st (queue_frames fs st1)" by (rule tx_queued_intro [OF reap(2-4)])
  then have inv1: "tx_inv (queue_frames fs st1)" by (simp add: tx_queued_def)
  obtain st2 where ev: "evict_tx (queue_frames fs st1) now = (st2, Inr ())" "tx_queued (queue_frames fs st1) st2"
    "length (tp_tx_sessions st2) < MAX_TX_SESSIONS"
    by (rule evict_tx_ok [OF inv1])
  have q2: "tx_queued st st2" by (rule tx_queued_trans [OF q1 ev(2)])
  have key: "tx_key ?s = (tp_my_address st, target, pgn, ?ch)" by (simp add: tx_key_def new_tx_session_def)
  have "(int (length data) + 6) div 7 \<noteq> 0" using len(1) by simp
  then have s: "tx_session_ok (tx_key ?s) ?s"
    using len pgn ch
    by (auto simp: tx_session_ok_def new_tx_session_def tx_key_def tp_length_ok_def MAX_TP_BYTES_def MAX_HOLD_CTS_def)
  let ?st = "store_tx (tx_key ?s) ?s st2"
  have "length (dset (tx_key ?s) ?s (tp_tx_sessions st2)) \<le> MAX_TX_SESSIONS"
    using length_dset_le [of "tx_key ?s" ?s "tp_tx_sessions st2"] ev(3) by simp
  then have inv': "tx_inv ?st"
    using q2 s by (simp add: tx_queued_def tx_inv_def store_tx_def dict.wf_store dall_dset)
  have my: "tp_my_address st2 = tp_my_address st" using q2 by (simp add: tx_queued_def tx_keeps_def)
  have id: "cm_id_to ?st target = cm_id_to st target" by (simp add: cm_id_to_eq my)
  have range: "0 \<le> cm_id_to st target" "cm_id_to st target < 2 ^ 29"
    unfolding cm_id_to_eq using tp_id_range(1) [of target "tp_my_address st"] by simp_all
  show thesis
  proof (rule that [of ?st])
    show "start_cmdt_transfer st target pgn data channel_id now =
        (?st, Inr (tx_frame ?ch (cm_id_to st target) (cm_payload TP_CTRL_RTS data pgn) (tk_ns now)))"
      unfolding start_cmdt_transfer_def Let_def reap(1) act_bind_simps ev(1) store_tx_def [symmetric]
        cm_bytes_ok [OF len(2) pgn] py_bind_simps id
      using len create_tx_frame [OF ch range, of "cm_payload TP_CTRL_RTS data pgn"] by simp
    show "tx_queued st ?st"
      using inv' q2 by (simp add: tx_queued_def tx_keeps_def store_tx_def)
    show "dget (tp_tx_sessions ?st) (tp_my_address st, target, pgn, ?ch) = Some ?s"
      by (simp add: store_tx_def key)
  qed
qed

lemma advance_good:
  assumes inv: "tx_inv st"
  shows "tx_good st (advance_cmdt_transfer st target pgn channel_id now)"
proof -
  let ?k = "(tp_my_address st, target, pgn, or_channel st channel_id)"
  show ?thesis
  proof (cases "dget (tp_tx_sessions st) ?k")
    case None
    then show ?thesis using tx_good_quiet [OF inv] by (simp add: advance_cmdt_transfer_def)
  next
    case (Some s)
    have s: "tx_session_ok ?k s" by (rule tx_inv_session [OF inv Some])
    then have "ts_state s \<noteq> GRANTED" by (simp add: tx_session_ok_def)
    then show ?thesis
      using tx_good_quiet [OF inv] abort_session_good [OF inv s, of ABORT_REASON_TIMEOUT now]
      by (cases "ts_state s") (simp_all add: advance_cmdt_transfer_def Some ABORT_REASON_TIMEOUT_def)
  qed
qed

section \<open>One received frame\<close>

definition tp_inv :: "tp \<Rightarrow> bool" where
  "tp_inv st \<longleftrightarrow> rx_inv st \<and> tx_inv st"

text \<open>What the engine may put on the bus: a control reply, or a data packet of a transfer of its
  own.\<close>

definition tp_out :: "int \<Rightarrow> can_frame \<Rightarrow> bool" where
  "tp_out my f \<longleftrightarrow> tp_reply my f \<or> dt_sends my f"

lemma tp_out_intros:
  "tp_reply my f \<Longrightarrow> tp_out my f" "dt_sends my f \<Longrightarrow> tp_out my f"
  "tp_sends my TP_CTRL_ABORT f \<Longrightarrow> tp_out my f"
  by (simp_all add: tp_out_def tp_reply_def)

lemma opt_all_mono: "opt_all P x \<Longrightarrow> (\<And>y. P y \<Longrightarrow> Q y) \<Longrightarrow> opt_all Q x"
  by (cases x) simp_all

lemma list_all_mono': "list_all P xs \<Longrightarrow> (\<And>y. P y \<Longrightarrow> Q y) \<Longrightarrow> list_all Q xs"
  by (simp add: list_all_iff)

definition pdu_good :: "tp \<Rightarrow> tp \<times> rx_result py \<Rightarrow> bool" where
  "pdu_good st r \<longleftrightarrow>
     (case r of
        (st', Inl e) \<Rightarrow> False
      | (st', Inr (msg, resp)) \<Rightarrow> tp_inv st' \<and> tp_my_address st' = tp_my_address st \<and>
          opt_all message_ok msg \<and> opt_all (tp_out (tp_my_address st)) resp \<and>
          (\<exists>extra. tp_pending_tx_frames st' = tp_pending_tx_frames st @ extra \<and>
            list_all (tp_out (tp_my_address st)) extra))"

lemma pdu_good_quiet: "tp_inv st \<Longrightarrow> pdu_good st (st, Inr (None, None))"
  by (simp add: pdu_good_def)

lemma tp_reply_outs:
  "opt_all (tp_reply my) x \<Longrightarrow> opt_all (tp_out my) x" "list_all (tp_reply my) xs \<Longrightarrow> list_all (tp_out my) xs"
  by (rule opt_all_mono [OF _ tp_out_intros(1)], assumption+)
    (rule list_all_mono' [OF _ tp_out_intros(1)], assumption+)

lemma pdu_good_rx: "tx_inv st \<Longrightarrow> rx_good st r \<Longrightarrow> pdu_good st r"
  unfolding pdu_good_def rx_good_def rx_keeps_def tp_inv_def
  by (auto simp: tx_inv_def tp_reply_outs split: sum.splits)

lemma pdu_good_tx:
  assumes "rx_inv st" "tx_good st r"
  shows "pdu_good st (act_bind r tx_response)"
proof -
  obtain st' fs err where r: "r = (st', Inr (fs, err))" "tx_inv st'" "tx_frame_keeps st st'"
    "list_all (dt_sends (tp_my_address st)) fs" "opt_all (tp_sends (tp_my_address st) TP_CTRL_ABORT) err"
    using assms(2) by (auto simp: tx_good_def split: prod.splits sum.splits)
  have keep: "rx_inv st'" "tp_my_address st' = tp_my_address st" "tp_pending_tx_frames st' = tp_pending_tx_frames st"
    using assms(1) r(3) by (simp_all add: tx_frame_keeps_def tx_keeps_def rx_inv_def)
  have fs: "list_all (tp_out (tp_my_address st)) fs" by (rule list_all_mono' [OF r(4) tp_out_intros(2)])
  have err: "opt_all (tp_out (tp_my_address st)) err" by (rule opt_all_mono [OF r(5) tp_out_intros(3)])
  have inv: "tp_inv (queue_frames xs st')" for xs
    using keep r(2) by (simp add: tp_inv_def rx_inv_def queue_frames_def tx_inv_def)
  show ?thesis
  proof (cases fs)
    case Nil
    then show ?thesis
      using keep err r(2) by (simp add: r(1) tx_response_def pdu_good_def tp_inv_def)
  next
    case (Cons f fs')
    have "list_all (tp_out (tp_my_address st)) (case err of None \<Rightarrow> [] | Some e \<Rightarrow> [e])"
      using err by (cases err) simp_all
    then show ?thesis
      using keep fs inv by (simp add: r(1) tx_response_def pdu_good_def Cons)
  qed
qed

lemma count_metric_tp_inv: "tp_inv st \<Longrightarrow> tp_inv (count_metric f st)"
  by (simp add: tp_inv_def tx_inv_def)

lemma handle_pdu_good:
  assumes inv: "tp_inv st" and wf: "frame_wf frame"
  shows "pdu_good st (handle_rx_frame_pdu st frame now)"
proof -
  let ?d = "frame_data frame"
  have rx: "rx_inv st" and tx: "tx_inv st" using inv by (simp_all add: tp_inv_def)
  have ch: "channel_id_ok (frame_channel_id frame)" using wf by (simp add: frame_wf_def)
  show ?thesis
  proof (cases "\<not> frame_is_extended frame \<or> length ?d < 8 \<or>
      frame_is_fd frame \<and> (frame_dlc frame > 8 \<or> length ?d > 8)")
    case True
    have "pdu_good st (st, Inr (None, None))" "pdu_good st (count_metric f st, Inr (None, None))" for f
      using inv count_metric_tp_inv [OF inv, of f] by (simp_all add: pdu_good_def)
    then show ?thesis unfolding handle_rx_frame_pdu_def Let_def using True by simp
  next
    case False
    obtain pgn sa da prio where parse: "parse_j1939_id (frame_arbitration_id frame) = (pgn, sa, da, prio)"
      using prod_cases4 by blast
    have arb: "0 \<le> frame_arbitration_id frame" "frame_arbitration_id frame < 2 ^ 29"
      using wf False by (simp_all add: frame_wf_def)
    have sa: "0 \<le> sa" "sa < 256" using parse_range [OF arb parse] by simp_all
    define da' where "da' = (case da of Some t \<Rightarrow> t | None \<Rightarrow> 255)"
    have len: "8 \<le> length ?d" using False by simp
    have tp_cm: "pdu_good st (handle_tp_cm st frame sa da' now)"
      by (rule pdu_good_rx [OF tx handle_tp_cm_good [OF rx sa ch]])
    have tp_dt: "pdu_good st (handle_tp_dt st frame sa da' now)"
      by (rule pdu_good_rx [OF tx handle_tp_dt_good [OF rx ch len]])
    have tx_cm: "pdu_good st (act_bind (handle_tx_cm st frame sa da' now) tx_response)"
      by (rule pdu_good_tx [OF rx handle_tx_cm_good [OF tx]])
    have skip: "(\<not> frame_is_extended frame \<or> length ?d < 8 \<or>
        frame_is_fd frame \<and> (frame_dlc frame > 8 \<or> length ?d > 8)) = False"
      using False by blast
    show ?thesis
      unfolding handle_rx_frame_pdu_def Let_def skip if_False parse prod.case da'_def [symmetric]
      using tp_cm tp_dt tx_cm pdu_good_quiet [OF inv] by (simp only: split: if_split) blast
  qed
qed

lemma handle_rx_frame_ok:
  assumes "tp_inv st" "frame_wf frame"
  obtains st' msg resp where "tp_handle_rx_frame st frame suppress now = (st', Inr (msg, resp))"
    "tp_inv st'" "tp_my_address st' = tp_my_address st" "opt_all message_ok msg"
    "opt_all (tp_out (tp_my_address st)) resp"
    "suppress \<Longrightarrow> resp = None \<and> tp_pending_tx_frames st' = []"
    "list_all (tp_out (tp_my_address st)) (drop (length (tp_pending_tx_frames st)) (tp_pending_tx_frames st'))"
proof -
  obtain st1 msg resp where r: "handle_rx_frame_pdu st frame now = (st1, Inr (msg, resp))" "tp_inv st1"
    "tp_my_address st1 = tp_my_address st" "opt_all message_ok msg" "opt_all (tp_out (tp_my_address st)) resp"
    "list_all (tp_out (tp_my_address st)) (drop (length (tp_pending_tx_frames st)) (tp_pending_tx_frames st1))"
    using handle_pdu_good [OF assms, of now]
    by (auto simp: pdu_good_def split: prod.splits sum.splits)
  show thesis
  proof (cases suppress)
    case False
    then show thesis using r by (intro that [of st1 msg resp]) (simp_all add: tp_handle_rx_frame_def)
  next
    case True
    have "tp_inv (st1\<lparr>tp_pending_tx_frames := []\<rparr>)"
      using r(2) by (simp add: tp_inv_def rx_inv_def tx_inv_def)
    then show thesis
      using r True by (intro that [of "st1\<lparr>tp_pending_tx_frames := []\<rparr>" msg None])
        (simp_all add: tp_handle_rx_frame_def)
  qed
qed

section \<open>Every call\<close>

text \<open>The calls of the engine's interface, in any order and with any timing. A transfer is opened
  with a PGN of at most 24 bits and a channel id a frame can carry.\<close>

inductive tp_step :: "tp \<Rightarrow> tp \<Rightarrow> bool" where
  step_rx: "frame_wf frame \<Longrightarrow> tp_handle_rx_frame st frame suppress now = (st', r) \<Longrightarrow> tp_step st st'"
| step_start: "0 \<le> pgn \<Longrightarrow> pgn < 2 ^ 24 \<Longrightarrow> channel_id_ok (or_channel st ch) \<Longrightarrow>
    start_cmdt_transfer st target pgn data ch now = (st', rts) \<Longrightarrow> tp_step st st'"
| step_advance: "advance_cmdt_transfer st target pgn ch now = (st', res) \<Longrightarrow> tp_step st st'"
| step_poll: "poll_cmdt_timeouts st now = (st', aborts) \<Longrightarrow> tp_step st st'"
| step_reap: "reap_stale_sessions st t = (st', n) \<Longrightarrow> tp_step st st'"
| step_address: "set_my_address st a = (st', u) \<Longrightarrow> tp_step st st'"
| step_take: "take_pending_tx_frames st = (st', fs) \<Longrightarrow> tp_step st st'"
| step_reset: "tp_step st (reset_sessions st)"

inductive tp_reach :: "tp \<Rightarrow> bool" where
  reach_init: "channel_id_ok ch \<Longrightarrow> tp_reach (tp_init my ch w)"
| reach_step: "tp_reach st \<Longrightarrow> tp_step st st' \<Longrightarrow> tp_reach st'"

lemma tp_inv_init: "channel_id_ok ch \<Longrightarrow> tp_inv (tp_init my ch w)"
  by (simp add: tp_inv_def rx_inv_def tx_inv_def tp_init_def slots_ok_def counts_agree_def counter_get_def)

lemma start_cmdt_inv:
  assumes "tx_inv st" "0 \<le> pgn" "pgn < 2 ^ 24" "channel_id_ok (or_channel st ch)"
  shows "tx_inv (fst (start_cmdt_transfer st target pgn data ch now)) \<and>
    tx_keeps st (fst (start_cmdt_transfer st target pgn data ch now))"
proof (cases "1 \<le> length data \<and> length data \<le> MAX_TP_BYTES")
  case True
  then have len: "1 \<le> length data" "length data \<le> MAX_TP_BYTES" by simp_all
  obtain st' f where r: "start_cmdt_transfer st target pgn data ch now = (st', Inr f)" "tx_queued st st'"
    by (rule start_cmdt_ok [OF assms(1) len assms(2-4), of target now]) (rule that)
  then show ?thesis by (simp add: tx_queued_def)
next
  case False
  then show ?thesis using assms(1) by (auto simp: start_cmdt_transfer_def)
qed

lemma tp_inv_keeps: "rx_inv st \<Longrightarrow> tx_inv st' \<Longrightarrow> tx_keeps st st' \<Longrightarrow> tp_inv st'"
  by (simp add: tp_inv_def tx_keeps_def rx_inv_def)

lemma tp_step_inv:
  assumes "tp_step st st'" "tp_inv st"
  shows "tp_inv st'"
  using assms(1)
proof cases
  case (step_rx frame suppress now r)
  show ?thesis
    by (rule handle_rx_frame_ok [OF assms(2) step_rx(1), of suppress now]) (simp add: step_rx(2))
next
  case (step_start pgn ch target data now r)
  then show ?thesis
    using start_cmdt_inv [of st pgn ch target data now] tp_inv_keeps [of st st'] assms(2)
    by (simp add: tp_inv_def [of st])
next
  case (step_advance target pgn ch now r)
  then have "tx_good st (st', r)"
    using advance_good [of st target pgn ch now] assms(2) by (simp add: tp_inv_def)
  then show ?thesis
    using tp_inv_keeps [of st st'] assms(2)
    by (auto simp: tx_good_def tx_frame_keeps_def tp_inv_def [of st] split: sum.splits)
next
  case (step_poll now r)
  then have "tx_frames_good st (st', r)"
    using reap_tx_good [of st now] assms(2) by (simp add: tp_inv_def poll_cmdt_timeouts_def)
  then show ?thesis
    using tp_inv_keeps [of st st'] assms(2)
    by (auto simp: tx_frames_good_def tx_frame_keeps_def tp_inv_def [of st] split: sum.splits)
next
  case (step_reap t n)
  then have "rx_inv st'" "rx_frame st st'"
    using reap_inv [of st t] assms(2) by (simp_all add: tp_inv_def)
  then show ?thesis using assms(2) by (simp add: tp_inv_def rx_frame_def tx_inv_def)
next
  case (step_address a u)
  then show ?thesis
    using assms(2) by (auto simp: set_my_address_def tp_inv_def rx_inv_def tx_inv_def split: if_splits)
next
  case (step_take fs)
  then show ?thesis using assms(2) by (auto simp: take_pending_tx_frames_def tp_inv_def rx_inv_def tx_inv_def)
next
  case step_reset
  then show ?thesis
    using assms(2)
    by (simp add: reset_sessions_def tp_inv_def rx_inv_def tx_inv_def slots_ok_def counts_agree_def counter_get_def)
qed

lemma tp_reach_inv: "tp_reach st \<Longrightarrow> tp_inv st"
  by (induction rule: tp_reach.induct) (auto intro: tp_inv_init tp_step_inv)

end
