(* ===== verification/TransportFlow.thy ===== *)
theory TransportFlow
  imports TransportRun
begin

text \<open>
  Whole transfers over the engine of \<open>src/protocols/j1939/transport.py\<close>: what one data packet
  does to the session that expects it, runs of packets, and the two directions of the protocol
  put together: a broadcast announcement read back by a receiver.
\<close>

section \<open>One expected packet\<close>

lemma dall_mono: "dall P d \<Longrightarrow> (\<And>k v. P k v \<Longrightarrow> Q k v) \<Longrightarrow> dall Q d"
  unfolding dall_def by blast

definition only_session :: "rx_table \<Rightarrow> rx_key \<Rightarrow> bool" where
  "only_session t key \<longleftrightarrow> dall (\<lambda>k s. prefix_of k = prefix_of key \<longrightarrow> k = key) t"

lemma only_session_prefix:
  assumes "dwf t" "dget t key = Some s" "only_session t key"
  shows "prefix_sessions t (prefix_of key) = [(key, s)]"
proof -
  let ?P = "\<lambda>x. case x of (k, s) \<Rightarrow> prefix_of k = prefix_of key"
  have "x \<in> set (filter ?P t) \<longleftrightarrow> x = (key, s)" for x
  proof -
    obtain k s' where x: "x = (k, s')" by (cases x)
    have "(k, s') \<in> set t \<longleftrightarrow> dget t k = Some s'" by (rule in_set_dget [OF assms(1)])
    then show ?thesis
      unfolding x set_filter mem_Collect_eq prod.case prod.inject
      using assms(2,3) dallD [OF assms(3) [unfolded only_session_def], of k s'] by auto
  qed
  then have "set (filter ?P t) = {(key, s)}" by blast
  moreover have "distinct (filter ?P t)"
    using assms(1) by (simp add: distinct_map)
  ultimately show ?thesis
    unfolding prefix_sessions_def using distinct_card [of "filter ?P t"]
    by (cases "filter ?P t" rule: remdups_adj.cases) auto
qed

text \<open>After \<open>i\<close> packets of \<open>data\<close>.\<close>

definition rx_progress :: "tp \<Rightarrow> rx_key \<Rightarrow> rsession \<Rightarrow> bytes \<Rightarrow> nat \<Rightarrow> seconds \<Rightarrow> bool" where
  "rx_progress st key s data i t \<longleftrightarrow>
     tp_inv st \<and> dget (tp_rx_sessions st) key = Some s \<and> only_session (tp_rx_sessions st) key \<and>
     rs_total_bytes s = int (length data) \<and> rs_expected_sequence s = int i + 1 \<and>
     rs_received_bytes s = take (7 * i) data \<and> rs_last_activity_time s = t"

text \<open>A frame that carries packet \<open>q\<close> of \<open>data\<close> under the key.\<close>

definition carries :: "can_frame \<Rightarrow> rx_key \<Rightarrow> bytes \<Rightarrow> nat \<Rightarrow> bool" where
  "carries f key data q \<longleftrightarrow>
     frame_wf f \<and> frame_is_extended f \<and> \<not> frame_is_fd f \<and> frame_data f = dt_payload data (int q) \<and>
     (case key of (sa, da, ch, pgn) \<Rightarrow> frame_channel_id f = ch \<and>
        (\<exists>prio. parse_j1939_id (frame_arbitration_id f) = (PGN_TP_DT, sa, Some da, prio)))"

lemma take_chunk:
  "take (length xs) (take 7 xs @ replicate (7 - length (take 7 xs)) v) = take 7 xs"
  by (cases "length xs \<le> 7") simp_all

lemma append_progress:
  assumes s: "rsession_ok key s" and "rs_total_bytes s = int (length data)"
    "rs_expected_sequence s = int i + 1" "rs_received_bytes s = take (7 * i) data"
  shows "rs_received_bytes (append_packet s (py_slice (dt_payload data (int (Suc i))) 1 8) t) =
    take (7 * Suc i) data"
proof -
  have "rs_expected_sequence s \<le> rs_total_packets s" "7 * rs_total_packets s < rs_total_bytes s + 7"
    using s packets_range [of "rs_total_bytes s" "rs_total_packets s"] by (simp_all add: rsession_ok_def)
  then have i: "7 * i < length data" using assms(2,3) by linarith
  let ?rest = "drop (7 * i) data"
  have payload: "py_slice (dt_payload data (int (Suc i))) 1 8 =
      take 7 ?rest @ replicate (7 - length (take 7 ?rest)) 0xFF"
  proof -
    have "nat ((int (Suc i) - 1) * 7) = 7 * i" by simp
    then show ?thesis by (simp add: py_slice_def dt_payload_def Let_def)
  qed
  have need: "rs_total_bytes s - int (length (rs_received_bytes s)) = int (length ?rest)"
    using assms(2,4) i by (simp add: of_nat_diff)
  have "7 * Suc i = 7 * i + 7" by simp
  then have "take (7 * Suc i) data = take (7 * i) data @ take 7 ?rest" by (simp only: take_add)
  moreover have "py_prefix (py_slice (dt_payload data (int (Suc i))) 1 8)
      (rs_total_bytes s - int (length (rs_received_bytes s))) = take 7 ?rest"
    unfolding need payload py_prefix_int take_chunk ..
  ultimately show ?thesis by (simp add: append_packet_def assms(4))
qed

lemma rx_dt_step:
  assumes prog: "rx_progress st key s data i t" and f: "carries f key data (Suc i)"
    and fresh: "\<not> rx_expired (tk_now now) s"
  defines "s' \<equiv> append_packet s (py_slice (frame_data f) 1 8) (tk_now now)"
  defines "st' \<equiv> st\<lparr>tp_rx_sessions := dset key s' (tp_rx_sessions st)\<rparr>"
  shows "int (Suc i) < rs_total_packets s \<Longrightarrow> rx_progress st' key s' data (Suc i) (tk_now now) \<and>
      handle_rx_frame_pdu st f now = (st', py_bind (next_cts st' f s' now) (\<lambda>r. Inr (None, r)))"
    "int (Suc i) = rs_total_packets s \<Longrightarrow> handle_rx_frame_pdu st f now = complete_transfer st' f key s' now \<and>
      rs_received_bytes s' = data"
proof -
  obtain sa da ch pgn where key: "key = (sa, da, ch, pgn)" using prod_cases4 by blast
  note p = prog [unfolded rx_progress_def]
  have rx: "rx_inv st" using p by (simp add: tp_inv_def)
  have s: "rsession_ok key s" using rx_inv_session [OF rx] p by blast
  obtain prio where parse: "parse_j1939_id (frame_arbitration_id f) = (PGN_TP_DT, sa, Some da, prio)"
    and ch: "frame_channel_id f = ch" and fd: "frame_is_extended f" "\<not> frame_is_fd f"
    and d: "frame_data f = dt_payload data (int (Suc i))" and wf: "frame_wf f"
    using f by (auto simp: carries_def key)
  have seq: "byte_at (frame_data f) 0 = rs_expected_sequence s"
  proof -
    have "int (Suc i) < 256"
      using p s packets_range [of "rs_total_bytes s" "rs_total_packets s"] by (auto simp: rsession_ok_def)
    then show ?thesis using p byte_at_dt_payload [of "int (Suc i)" data] by (simp add: d)
  qed
  have "prefix_sessions (tp_rx_sessions st) (sa, da, ch) = [(key, s)]"
    using only_session_prefix [OF rx_inv_wf [OF rx], of key s] p by (simp add: key)
  then have look: "lookup_dt_session st sa da (frame_channel_id f) (Some (byte_at (frame_data f) 0)) = (st, Some (key, s))"
    by (simp add: lookup_dt_session_def ch)
  have skip: "(\<not> frame_is_extended f \<or> length (frame_data f) < 8 \<or>
      frame_is_fd f \<and> (frame_dlc f > 8 \<or> length (frame_data f) > 8)) = False"
    using fd by (simp add: d)
  have other: "(PGN_TP_DT = PGN_TP_CM) = False" by (simp add: PGN_TP_DT_def PGN_TP_CM_def)
  have handled: "handle_rx_frame_pdu st f now = (if transfer_complete s' then complete_transfer st' f key s' now
      else (st', py_bind (next_cts st' f s' now) (\<lambda>r. Inr (None, r))))"
    unfolding handle_rx_frame_pdu_def Let_def skip if_False parse prod.case option.case other
      handle_tp_dt_def look tab_full s'_def [symmetric] st'_def [symmetric]
    using fresh seq by simp
  have recv: "rs_received_bytes s' = take (7 * Suc i) data"
    unfolding s'_def d by (rule append_progress [OF s]) (use p in simp_all)
  have payload: "length (py_slice (frame_data f) 1 8) = 7" by (simp add: d py_slice_def)
  show "rx_progress st' key s' data (Suc i) (tk_now now) \<and>
      handle_rx_frame_pdu st f now = (st', py_bind (next_cts st' f s' now) (\<lambda>r. Inr (None, r)))"
    if more: "int (Suc i) < rs_total_packets s"
  using s payload
  proof (cases rule: append_packet_cases [where t = "tk_now now"])
    case More
    have ok': "rsession_ok key s'" using More(3) by (simp add: s'_def)
    have "rx_inv st'"
      using rx slots_ok_replace [of "tp_rx_sessions st" "tp_per_sa st" key s'] p ok'
      by (simp add: st'_def store_fields rx_inv_def domI)
    then have "tp_inv st'" using p by (simp add: tp_inv_def st'_def tx_inv_def)
    moreover have "only_session (dset key s' (tp_rx_sessions st)) key"
      using p by (simp add: only_session_def dall_dset)
    ultimately show ?thesis
      using handled More(2) p recv by (simp add: rx_progress_def s'_def [symmetric]) (simp add: s'_def st'_def)
  next
    case Last
    then show ?thesis using more p by simp
  qed
  show "handle_rx_frame_pdu st f now = complete_transfer st' f key s' now \<and> rs_received_bytes s' = data"
    if last: "int (Suc i) = rs_total_packets s"
  using s payload
  proof (cases rule: append_packet_cases [where t = "tk_now now"])
    case Last
    have "int (length (rs_received_bytes s')) = int (length data)" using Last(3) p by (simp add: s'_def)
    then have "length data \<le> 7 * Suc i" using recv by (simp add: min_def split: if_splits)
    then show ?thesis using handled Last(2) recv by (simp add: s'_def [symmetric])
  next
    case More
    then show ?thesis using last p by simp
  qed
qed

section \<open>An announcement\<close>

lemma cm_payload_fields:
  assumes "0 \<le> ctrl" "ctrl < 256" "1 \<le> length data" "length data \<le> MAX_TP_BYTES" "0 \<le> pgn" "pgn < 2 ^ 24"
  shows "byte_at (cm_payload ctrl data pgn) 0 = ctrl"
    "from_le (py_slice (cm_payload ctrl data pgn) 1 3) = int (length data)"
    "byte_at (cm_payload ctrl data pgn) 3 = (int (length data) + 6) div 7"
    "byte_at (cm_payload ctrl data pgn) 4 = 255"
    "from_le (py_slice (cm_payload ctrl data pgn) 5 8) = pgn"
    "tp_length_ok (int (length data)) ((int (length data) + 6) div 7)"
proof -
  let ?n = "le_bytes 2 (int (length data))" and ?k = "(int (length data) + 6) div 7" and ?p = "le_bytes 3 pgn"
  have k: "0 \<le> ?k" "?k < 256" "1 \<le> ?k" using assms(3,4) by (simp_all add: MAX_TP_BYTES_def)
  have whole: "cm_payload ctrl data pgn = [word_of_int ctrl] @ ?n @ [word_of_int ?k, 0xFF] @ ?p"
    by (rule cm_payload_def)
  show "byte_at (cm_payload ctrl data pgn) 0 = ctrl" using assms(1,2) unfolding whole by simp
  have "py_slice (cm_payload ctrl data pgn) 1 3 = ?n" unfolding whole by (simp add: py_slice_def del: le_bytes_numeral_2 le_bytes_numeral_3)
  then show "from_le (py_slice (cm_payload ctrl data pgn) 1 3) = int (length data)"
    using assms(4) from_le_le_bytes [of "int (length data)" 2] by (simp add: MAX_TP_BYTES_def del: le_bytes_numeral_2)
  show "byte_at (cm_payload ctrl data pgn) 3 = ?k" "byte_at (cm_payload ctrl data pgn) 4 = 255"
    using k unfolding whole by simp_all
  have "py_slice (cm_payload ctrl data pgn) 5 8 = ?p" unfolding whole by (simp add: py_slice_def del: le_bytes_numeral_2 le_bytes_numeral_3)
  then show "from_le (py_slice (cm_payload ctrl data pgn) 5 8) = pgn"
    using assms(5,6) from_le_le_bytes [of pgn 3] by (simp del: le_bytes_numeral_3)
  show "tp_length_ok (int (length data)) ?k"
    using assms(3,4) k by (auto simp: tp_length_ok_def MAX_TP_BYTES_def)
qed

text \<open>No session between the two addresses on the channel.\<close>

definition no_prefix :: "rx_table \<Rightarrow> rx_prefix \<Rightarrow> bool" where
  "no_prefix t p \<longleftrightarrow> dall (\<lambda>k s. prefix_of k \<noteq> p) t"

lemma no_prefix_sessions: "dwf t \<Longrightarrow> no_prefix t p \<Longrightarrow> prefix_sessions t p = []"
proof (rule ccontr)
  assume wf: "dwf t" and none: "no_prefix t p" and "prefix_sessions t p \<noteq> []"
  then obtain k s rest where "prefix_sessions t p = (k, s) # rest" by (cases "prefix_sessions t p") auto
  from prefix_sessions_hd [OF wf this] none show False by (auto simp: no_prefix_def dest: dallD)
qed

lemma no_prefix_key: "no_prefix t p \<Longrightarrow> prefix_of k = p \<Longrightarrow> dget t k = None"
  by (cases "dget t k") (auto simp: no_prefix_def dest: dallD)

lemma no_prefix_only: "no_prefix t (prefix_of k) \<Longrightarrow> only_session (dset k s t) k"
  unfolding only_session_def no_prefix_def by (rule dall_dset, erule dall_mono) simp_all

lemma reap_quota:
  assumes "rx_inv st"
  shows "per_sa (fst (reap_stale_sessions st t)) sa \<le> per_sa st sa"
proof -
  note reap = reap_inv [OF assms, of t]
  have "per_sa x sa = int (length (filter (\<lambda>k. fst k = sa) (dkeys (tp_rx_sessions x))))" if "rx_inv x" for x
    using that unfolding rx_inv_def slots_ok_def counts_agree_def by blast
  from this [OF assms] this [OF reap(1)] show ?thesis
    unfolding reap(2) using count_dpop_all_le [OF rx_inv_wf [OF assms]] by (simp del: filter_map)
qed

lemma bam_announce:
  assumes inv: "tp_inv st" and data: "1 \<le> length data" "length data \<le> MAX_TP_BYTES" and pgn: "0 \<le> pgn" "pgn < 2 ^ 24"
    and f: "frame_wf f" "frame_is_extended f" "\<not> frame_is_fd f" "frame_data f = cm_payload TP_CTRL_BAM data pgn"
      "frame_channel_id f = ch" "parse_j1939_id (frame_arbitration_id f) = (PGN_TP_CM, sa, Some 255, prio)"
    and free: "no_prefix (tp_rx_sessions st) (sa, 255, ch)" and quota: "per_sa st sa < MAX_SESSIONS_PER_SA"
  shows "\<exists>st' s. handle_rx_frame_pdu st f now = (st', Inr (None, None)) \<and>
    rx_progress st' (sa, 255, ch, pgn) s data 0 (tk_now now) \<and> rs_is_bam s"
proof -
  let ?key = "(sa, 255, ch, pgn)"
  have "(0::int) \<le> TP_CTRL_BAM" "TP_CTRL_BAM < 256" by (simp_all add: TP_CTRL_BAM_def)
  note fields = cm_payload_fields [OF this data pgn]
  have rx: "rx_inv st" using inv by (simp add: tp_inv_def)
  define st0 where "st0 = fst (reap_stale_sessions st (tk_now now))"
  have st0: "rx_inv st0" unfolding st0_def by (rule reap_inv [OF rx])
  have free0: "no_prefix (tp_rx_sessions st0) (sa, 255, ch)"
    using free unfolding st0_def reap_inv(2) [OF rx] no_prefix_def by (rule dall_dpop_all)
  have quota0: "per_sa st0 sa < MAX_SESSIONS_PER_SA"
    using reap_quota [OF rx, of "tk_now now" sa] quota by (simp add: st0_def)
  define st1 where "st1 = count_metric (\<lambda>m. m\<lparr>tm_rx_bam := tm_rx_bam m + 1\<rparr>) st0"
  have none: "dget (tp_rx_sessions st1) ?key = None"
    using no_prefix_key [OF free0, of ?key] by (simp add: st1_def)
  have inv1: "rx_inv st1" using st0 by (simp add: st1_def)
  have coll: "bam_collision st1 ?key (tk_now now) = (st1, True)"
    using none no_prefix_sessions [OF rx_inv_wf [OF st0] free0] by (simp add: bam_collision_def st1_def)
  define s where "s = new_rsession sa 255 pgn (int (length data)) ((int (length data) + 6) div 7) True ch 0 0xFF (tk_now now)"
  define st' where "st' = open_slot (evict_oldest st1 ?key) ?key s sa"
  have q: "\<not> quota_exceeded st1 ?key sa" using quota0 by (simp add: quota_exceeded_def st1_def)
  have bam: "handle_bam st0 ch sa 255 (int (length data)) ((int (length data) + 6) div 7) pgn now = st'"
    unfolding handle_bam_def Let_def st1_def [symmetric] coll prod.case st'_def s_def using q by simp
  have skip: "(\<not> frame_is_extended f \<or> length (frame_data f) < 8 \<or>
      frame_is_fd f \<and> (frame_dlc f > 8 \<or> length (frame_data f) > 8)) = False"
    using f by simp
  have ctrl: "ctrl_targets_sender f = False"
    using fields(1) f(4) by (simp add: ctrl_targets_sender_def tp_ctrl)
  have run: "handle_rx_frame_pdu st f now = (st', Inr (None, None))"
    unfolding handle_rx_frame_pdu_def Let_def skip if_False f(6) prod.case option.case ctrl
      handle_tp_cm_def
    unfolding f(4,5) fields(1,2,3,5) st0_def [symmetric] bam
    using fields(6) by simp
  have "tp_inv st'" using handle_pdu_good [OF inv f(1), of now] by (simp add: run pdu_good_def)
  moreover have "tp_rx_sessions st' = dset ?key s (make_room MAX_CONCURRENT_SESSIONS rs_last_activity_time (tp_rx_sessions st0))"
    using evict_inv(2) [OF inv1 none] by (simp add: st'_def open_slot_def st1_def)
  moreover have "no_prefix (make_room MAX_CONCURRENT_SESSIONS rs_last_activity_time (tp_rx_sessions st0)) (prefix_of ?key)"
    using free0 by (simp add: no_prefix_def make_room_dall)
  ultimately have "rx_progress st' ?key s data 0 (tk_now now)"
    using no_prefix_only by (simp add: rx_progress_def s_def new_rsession_def)
  then show ?thesis using run by (intro exI [of _ st'] exI [of _ s]) (simp add: s_def new_rsession_def)
qed

section \<open>A broadcast transfer\<close>

fun tp_run :: "tp \<Rightarrow> (can_frame \<times> tick) list \<Rightarrow> tp \<times> rx_result py list" where
  "tp_run st [] = (st, [])"
| "tp_run st ((f, t) # evs) =
     (case tp_handle_rx_frame st f False t of (st', r) \<Rightarrow>
       (case tp_run st' evs of (st'', rs) \<Rightarrow> (st'', r # rs)))"

lemma tp_handle_unsuppressed: "tp_handle_rx_frame st f False now = handle_rx_frame_pdu st f now"
proof -
  obtain st' r where "handle_rx_frame_pdu st f now = (st', r)" by (cases "handle_rx_frame_pdu st f now")
  then show ?thesis by (cases r) (auto simp: tp_handle_rx_frame_def)
qed

lemma tp_run_Cons:
  "handle_rx_frame_pdu st f t = (st', r) \<Longrightarrow>
   fst (tp_run st ((f, t) # evs)) = fst (tp_run st' evs) \<and>
   snd (tp_run st ((f, t) # evs)) = r # snd (tp_run st' evs)"
  by (simp add: tp_handle_unsuppressed split: prod.split)

text \<open>The message a receiver delivers for \<open>data\<close>; its timestamp is that of the last packet.\<close>

definition delivered :: "rx_key \<Rightarrow> bytes \<Rightarrow> int \<Rightarrow> completed_message" where
  "delivered key data ns = (case key of (sa, da, ch, pgn) \<Rightarrow>
     \<lparr>cm_source_address = sa, cm_destination_address = da, cm_pgn = pgn, cm_data = data,
      cm_timestamp_ns = ns, cm_channel_id = ch\<rparr>)"

lemma complete_progress:
  assumes prog: "rx_progress st key s data i t" and f: "carries f key data (Suc i)"
    and last: "int (Suc i) = rs_total_packets s" and fresh: "\<not> rx_expired (tk_now now) s"
  obtains st' resp where
    "handle_rx_frame_pdu st f now = (st', Inr (Some (delivered key data (frame_timestamp_ns f)), resp))"
    "tp_inv st'" "tp_rx_sessions st' = dpop key (tp_rx_sessions st)" "rx_frame st st'"
    "opt_all (tp_sends (tp_my_address st) TP_CTRL_ACK) resp"
    "resp = None \<longleftrightarrow> rs_is_bam s \<or> rs_destination_address s \<noteq> tp_my_address st"
proof -
  note p = prog [unfolded rx_progress_def]
  have rx: "rx_inv st" and tx: "tx_inv st" using p by (simp_all add: tp_inv_def)
  have s: "rsession_ok key s" using rx_inv_session [OF rx] p by blast
  have ch: "channel_id_ok (frame_channel_id f)" "frame_channel_id f = rs_channel_id s"
    using f s by (auto simp: carries_def frame_wf_def rsession_ok_def session_key_def)
  let ?s' = "append_packet s (py_slice (frame_data f) 1 8) (tk_now now)"
  have run: "handle_rx_frame_pdu st f now =
      complete_transfer (st\<lparr>tp_rx_sessions := dset key ?s' (tp_rx_sessions st)\<rparr>) f key ?s' now"
    and recv: "rs_received_bytes ?s' = data"
    using rx_dt_step(2) [OF prog f fresh last] by simp_all
  have key: "session_key ?s' = key" "delivered key data (frame_timestamp_ns f) =
      \<lparr>cm_source_address = rs_source_address ?s', cm_destination_address = rs_destination_address ?s',
       cm_pgn = rs_target_pgn ?s', cm_data = rs_received_bytes ?s', cm_timestamp_ns = frame_timestamp_ns f,
       cm_channel_id = frame_channel_id f\<rparr>"
    using s recv ch(2) by (simp_all add: rsession_ok_def session_key_def delivered_def)
  have args: "int (length (rs_received_bytes ?s')) = rs_total_bytes ?s'"
    "tp_length_ok (rs_total_bytes ?s') (rs_total_packets ?s')" "0 \<le> rs_source_address ?s'"
    "rs_source_address ?s' < 256" "0 \<le> rs_target_pgn ?s'" "rs_target_pgn ?s' < 2 ^ 24"
    using s recv p by (simp_all add: rsession_ok_def)
  show thesis
  proof (rule complete_transfer_good [OF rx _ key(1) ch(1) args, where now = now])
    show "dget (tp_rx_sessions st) key = Some s" using p by simp
  next
    fix st' msg resp
    assume r: "complete_transfer (st\<lparr>tp_rx_sessions := dset key ?s' (tp_rx_sessions st)\<rparr>) f key ?s' now =
        (st', Inr (Some msg, resp))"
      and "rx_inv st'" "rx_frame st st'" "tp_rx_sessions st' = dpop key (tp_rx_sessions st)"
        "opt_all (tp_sends (tp_my_address st) TP_CTRL_ACK) resp"
        "(resp = None) = (rs_is_bam ?s' \<or> rs_destination_address ?s' \<noteq> tp_my_address st)"
      and msg: "msg = \<lparr>cm_source_address = rs_source_address ?s', cm_destination_address = rs_destination_address ?s',
       cm_pgn = rs_target_pgn ?s', cm_data = rs_received_bytes ?s', cm_timestamp_ns = frame_timestamp_ns f,
       cm_channel_id = frame_channel_id f\<rparr>"
    moreover have "tp_inv st'"
      using tx \<open>rx_inv st'\<close> \<open>rx_frame st st'\<close> by (simp add: tp_inv_def tx_inv_def rx_frame_def)
    ultimately show thesis
      by (intro that [of st' resp]) (simp_all only: run r msg key(2) append_packet_fields)
  qed
qed

lemma bam_packets:
  assumes "\<And>q. 1 \<le> q \<Longrightarrow> q \<le> n \<Longrightarrow> carries (f q) key data q"
    and "\<And>q. tk_now (ts (Suc q)) - tk_now (ts q) \<le> T1_TIMEOUT_SEC"
  shows "rx_progress st key s data i (tk_now (ts i)) \<Longrightarrow> rs_is_bam s \<Longrightarrow> rs_total_packets s = int n \<Longrightarrow>
    i < n \<Longrightarrow> m = n - Suc i \<Longrightarrow>
    snd (tp_run st (map (\<lambda>q. (f q, ts q)) [Suc i..<Suc n])) =
      replicate m (Inr (None, None)) @ [Inr (Some (delivered key data (frame_timestamp_ns (f n))), None)]"
proof (induction m arbitrary: st s i)
  case base: 0
  then have i: "Suc i = n" by simp
  have fresh: "\<not> rx_expired (tk_now (ts (Suc i))) s"
    using base.prems(1,2) assms(2) [of i] by (simp add: rx_expired_def rx_progress_def)
  have carr: "carries (f (Suc i)) key data (Suc i)" using assms(1) [of "Suc i"] i by simp
  have last: "int (Suc i) = rs_total_packets s" using base.prems(3) i by simp
  obtain st' resp where r: "handle_rx_frame_pdu st (f (Suc i)) (ts (Suc i)) =
      (st', Inr (Some (delivered key data (frame_timestamp_ns (f (Suc i)))), resp))"
    "resp = None \<longleftrightarrow> rs_is_bam s \<or> rs_destination_address s \<noteq> tp_my_address st"
    by (rule complete_progress [OF base.prems(1) carr last fresh])
  have "[Suc i..<Suc n] = [Suc i]" using i by simp
  then show ?case using tp_run_Cons [OF r(1), of "[]"] r(2) base.prems(2) i by simp
next
  case step: (Suc m)
  have fresh: "\<not> rx_expired (tk_now (ts (Suc i))) s"
    using step.prems(1,2) assms(2) [of i] by (simp add: rx_expired_def rx_progress_def)
  have carr: "carries (f (Suc i)) key data (Suc i)" using assms(1) [of "Suc i"] step.prems(4,5) by simp
  have more: "int (Suc i) < rs_total_packets s" using step.prems(3,5) by simp
  let ?s' = "append_packet s (py_slice (frame_data (f (Suc i))) 1 8) (tk_now (ts (Suc i)))"
  let ?st' = "st\<lparr>tp_rx_sessions := dset key ?s' (tp_rx_sessions st)\<rparr>"
  have prog: "rx_progress ?st' key ?s' data (Suc i) (tk_now (ts (Suc i)))"
    and r: "handle_rx_frame_pdu st (f (Suc i)) (ts (Suc i)) = (?st', Inr (None, None))"
    using rx_dt_step(1) [OF step.prems(1) carr fresh more] step.prems(2) by (simp_all add: next_cts_def)
  have ih: "snd (tp_run ?st' (map (\<lambda>q. (f q, ts q)) [Suc (Suc i)..<Suc n])) =
      replicate m (Inr (None, None)) @ [Inr (Some (delivered key data (frame_timestamp_ns (f n))), None)]"
    by (rule step.IH [OF prog]) (use step.prems in simp_all)
  have "[Suc i..<Suc n] = Suc i # [Suc (Suc i)..<Suc n]" using step.prems(4) by (simp add: upt_rec)
  then show ?case using tp_run_Cons [OF r] ih by simp
qed

lemma map_int_upto: "[int a..int b] = map int [a..<Suc b]"
proof (induction "Suc b - a" arbitrary: a)
  case (Suc n)
  have "[int a..int b] = int a # [int (Suc a)..int b]" using Suc(2) upto_rec1 [of "int a" "int b"] by (simp add: add.commute)
  moreover have "[a..<Suc b] = a # [Suc a..<Suc b]" using Suc(2) by (simp add: upt_rec)
  ultimately show ?case using Suc(1) [of "Suc a"] Suc(2) by (simp del: upt_Suc)
qed simp

text \<open>The frames of an announcement, once its arguments pass the checks.\<close>

definition bam_packet_count :: "bytes \<Rightarrow> nat" where
  "bam_packet_count data = nat ((int (length data) + 6) div 7)"

definition bam_frame :: "tp \<Rightarrow> int \<Rightarrow> bytes \<Rightarrow> string \<Rightarrow> int \<Rightarrow> nat \<Rightarrow> can_frame" where
  "bam_frame st pgn data ch ns q =
     (if q = 0 then tx_frame ch (id_of 7 0 0 0xEC 255 (tp_my_address st mod 256)) (cm_payload TP_CTRL_BAM data pgn) ns
      else tx_frame ch (id_of 7 0 0 0xEB 255 (tp_my_address st mod 256)) (dt_payload data (int q)) ns)"

lemma start_tp_bam_eq:
  assumes len: "1 \<le> length data" "length data \<le> MAX_TP_BYTES" and pgn: "0 \<le> pgn" "pgn < 2 ^ 24"
    and ch: "channel_id_ok (or_channel st channel_id)"
  shows "start_tp_bam st pgn data channel_id now =
    Inr (map (bam_frame st pgn data (or_channel st channel_id) (tk_ns now)) [0..<Suc (bam_packet_count data)])"
proof -
  let ?n = "(int (length data) + 6) div 7" and ?ch = "or_channel st channel_id"
  let ?cm = "id_of 7 0 0 0xEC 255 (tp_my_address st mod 256)" and ?dt = "id_of 7 0 0 0xEB 255 (tp_my_address st mod 256)"
  have ids: "0x1CECFF00 OR (tp_my_address st AND 0xFF) = ?cm" "0x1CEBFF00 OR (tp_my_address st AND 0xFF) = ?dt"
    unfolding and_masks by (intro conjI tp_ids(3,4) [of 0]; simp)+
  have cm: "create_tx ?ch ?cm (cm_payload TP_CTRL_BAM data pgn) (tk_ns now) =
      Inr (tx_frame ?ch ?cm (cm_payload TP_CTRL_BAM data pgn) (tk_ns now))"
    using tp_id_range(3) [of "tp_my_address st"] ch by (simp add: create_tx_frame)
  have "list_all (\<lambda>q. 1 \<le> q \<and> q < 256) [1..?n]"
    using len by (auto simp: list_all_iff MAX_TP_BYTES_def)
  then have dts: "dt_frames ?ch ?dt data [1..?n] (tk_ns now) =
      Inr (map (\<lambda>q. tx_frame ?ch ?dt (dt_payload data q) (tk_ns now)) [1..?n])"
    using tp_id_range(4) [of "tp_my_address st"] ch by (simp add: dt_frames_ok)
  have ints: "[1..?n] = map int [1..<Suc (bam_packet_count data)]"
    using map_int_upto [of 1 "bam_packet_count data"]
    by (simp add: bam_packet_count_def pos_imp_zdiv_nonneg_iff del: upt_Suc)
  have "[0..<Suc (bam_packet_count data)] = 0 # [1..<Suc (bam_packet_count data)]"
    by (simp add: upt_rec)
  then show ?thesis
    unfolding start_tp_bam_def Let_def ids cm_bytes_ok [OF len(2) pgn] py_bind_simps cm dts
    using len by (simp add: bam_frame_def ints del: upt_Suc)
qed

end
