(* ===== verification/TransportSpec.thy ===== *)
theory TransportSpec
  imports TransportFlow
begin

text \<open>
  The properties of the J1939-21 transport engine, \<open>src/protocols/j1939/transport.py\<close>: what
  holds in every state its calls can reach, the round trip of a broadcast, the limits of the
  sender's state machine, and three places where the code falls short of its comments.
\<close>

section \<open>Reachable states\<close>

text \<open>
  C21. However the engine is driven, whichever frames it is fed, it never holds more than 512
  receive sessions, nor more than 4 from one source address, nor more than 256 sender sessions;
  and the per-source counter that enforces the quota always equals the number of sessions of
  that source.
\<close>

theorem tp_reach_bounded:
  assumes "tp_reach st"
  shows "length (tp_rx_sessions st) \<le> 512 \<and>
    length (filter (\<lambda>k. fst k = sa) (dkeys (tp_rx_sessions st))) \<le> 4 \<and>
    per_sa st sa = int (length (filter (\<lambda>k. fst k = sa) (dkeys (tp_rx_sessions st)))) \<and>
    length (tp_tx_sessions st) \<le> 256"
proof -
  have inv: "rx_inv st" "tx_inv st" using tp_reach_inv [OF assms] by (simp_all add: tp_inv_def)
  have "length (filter (\<lambda>k. fst k = sa) (dkeys (tp_rx_sessions st))) \<le> nat MAX_SESSIONS_PER_SA"
    using inv(1) unfolding rx_inv_def slots_ok_def by (blast intro: dquotaD)
  moreover have "per_sa st sa = int (length (filter (\<lambda>k. fst k = sa) (dkeys (tp_rx_sessions st))))"
    using inv(1) unfolding rx_inv_def slots_ok_def counts_agree_def by blast
  ultimately show ?thesis
    using inv by (simp add: rx_inv_def slots_ok_def tx_inv_def MAX_SESSIONS_PER_SA_def
        MAX_CONCURRENT_SESSIONS_def MAX_TX_SESSIONS_def del: filter_map)
qed

lemma reach_demo: "tp_reach (tp_init 0xF9 ''can0'' 0)"
  by (rule reach_init) code_simp

theorem tp_reach_bounded_witness:
  "length (tp_rx_sessions (tp_init 0xF9 ''can0'' 0)) \<le> 512 \<and>
    length (filter (\<lambda>k. fst k = 0x10) (dkeys (tp_rx_sessions (tp_init 0xF9 ''can0'' 0)))) \<le> 4 \<and>
    per_sa (tp_init 0xF9 ''can0'' 0) 0x10 =
      int (length (filter (\<lambda>k. fst k = 0x10) (dkeys (tp_rx_sessions (tp_init 0xF9 ''can0'' 0))))) \<and>
    length (tp_tx_sessions (tp_init 0xF9 ''can0'' 0)) \<le> 256"
  by (rule tp_reach_bounded [OF reach_demo])

text \<open>
  C22. In every reachable state, handling a received frame raises nothing. Every message it
  delivers carries 1 to 1785 bytes and a 24-bit PGN; every frame it answers with or queues is
  a legal frame of priority 7 from the engine's own address: a CTS that grants 1 to 16 packets,
  an acknowledgement, an abort, or a data packet. Under \<open>suppress_tx_responses\<close> it answers and
  queues nothing.
\<close>

theorem tp_rx_total:
  assumes "tp_reach st" "frame_wf frame"
  shows "\<exists>st' msg resp. tp_handle_rx_frame st frame suppress now = (st', Inr (msg, resp)) \<and>
    opt_all message_ok msg \<and> opt_all (tp_out (tp_my_address st)) resp \<and>
    list_all (tp_out (tp_my_address st)) (drop (length (tp_pending_tx_frames st)) (tp_pending_tx_frames st')) \<and>
    (suppress \<longrightarrow> resp = None \<and> tp_pending_tx_frames st' = [])"
  using handle_rx_frame_ok [OF tp_reach_inv [OF assms(1)] assms(2), of suppress now] by metis

definition tk_demo :: "nat \<Rightarrow> tick" where
  "tk_demo i = \<lparr>tk_now = of_nat i / 10, tk_ns = int i * 100000000\<rparr>"

theorem tp_rx_total_witness:
  "\<exists>st' msg resp. tp_handle_rx_frame (tp_init 0xF9 ''can0'' 0)
      (tx_frame ''can0'' 0x1CECF910 (cm_payload TP_CTRL_RTS (replicate 20 7) 0xFECA) 0) True (tk_demo 0) =
        (st', Inr (msg, resp)) \<and>
    opt_all message_ok msg \<and> opt_all (tp_out (tp_my_address (tp_init 0xF9 ''can0'' 0))) resp \<and>
    list_all (tp_out (tp_my_address (tp_init 0xF9 ''can0'' 0)))
      (drop (length (tp_pending_tx_frames (tp_init 0xF9 ''can0'' 0))) (tp_pending_tx_frames st')) \<and>
    (True \<longrightarrow> resp = None \<and> tp_pending_tx_frames st' = [])"
proof (rule tp_rx_total [OF reach_demo])
  have "channel_id_ok ''can0''" by code_simp
  then show "frame_wf (tx_frame ''can0'' 0x1CECF910 (cm_payload TP_CTRL_RTS (replicate 20 7) 0xFECA) 0)"
    by (simp add: tx_frame_wf)
qed

section \<open>Broadcast\<close>

lemma bam_frame_carries:
  assumes "channel_id_ok ch" "1 \<le> q"
  shows "carries (bam_frame st pgn data ch ns q) (tp_my_address st mod 256, 255, ch, pgn) data q"
  using assms tp_id_range(4) [of "tp_my_address st"] parse_tp_id(2) [of 255 "tp_my_address st mod 256"]
  by (simp add: carries_def bam_frame_def tx_frame_wf)

text \<open>
  C20. A broadcast arrives: the frames \<open>start_tp_bam\<close> makes of 1 to 1785 bytes, each received at
  most 750 ms after the one before, give nothing until the last, which delivers exactly the
  bytes sent, under the sender's address and PGN. The receiver is in any reachable state with
  quota left for the sender and no other transfer from it in flight.
\<close>

theorem bam_roundtrip:
  assumes len: "1 \<le> length data" "length data \<le> 1785" and pgn: "0 \<le> pgn" "pgn < 2 ^ 24"
    and ch: "channel_id_ok (or_channel tx ch)" and reach: "tp_reach rx"
    and free: "no_prefix (tp_rx_sessions rx) (tp_my_address tx mod 256, 255, or_channel tx ch)"
    and quota: "per_sa rx (tp_my_address tx mod 256) < MAX_SESSIONS_PER_SA"
    and gaps: "\<And>q. tk_now (ts (Suc q)) - tk_now (ts q) \<le> T1_TIMEOUT_SEC"
  shows "\<exists>frames. start_tp_bam tx pgn data ch now = Inr frames \<and>
    snd (tp_run rx (zip frames (map ts [0..<length frames]))) =
      replicate (length frames - 1) (Inr (None, None)) @
      [Inr (Some (delivered (tp_my_address tx mod 256, 255, or_channel tx ch, pgn) data (tk_ns now)), None)]"
proof -
  let ?ch = "or_channel tx ch" and ?n = "bam_packet_count data" and ?sa = "tp_my_address tx mod 256"
  let ?key = "(?sa, 255, ?ch, pgn)"
  let ?f = "bam_frame tx pgn data ?ch (tk_ns now)"
  have len': "length data \<le> MAX_TP_BYTES" using len by (simp add: MAX_TP_BYTES_def)
  have n: "1 \<le> ?n" "(int (length data) + 6) div 7 = int ?n" using len by (simp_all add: bam_packet_count_def)
  have inv: "tp_inv rx" by (rule tp_reach_inv [OF reach])
  have f0: "frame_wf (?f 0)" "frame_is_extended (?f 0)" "\<not> frame_is_fd (?f 0)"
    "frame_data (?f 0) = cm_payload TP_CTRL_BAM data pgn" "frame_channel_id (?f 0) = ?ch"
    "parse_j1939_id (frame_arbitration_id (?f 0)) = (PGN_TP_CM, ?sa, Some 255, 7)"
    using tp_id_range(3) [of "tp_my_address tx"] ch by (simp_all add: bam_frame_def tx_frame_wf parse_tp_id)
  obtain st1 s where r: "handle_rx_frame_pdu rx (?f 0) (ts 0) = (st1, Inr (None, None))"
    "rx_progress st1 ?key s data 0 (tk_now (ts 0))" "rs_is_bam s"
    using bam_announce [OF inv len(1) len' pgn f0 free quota, of "ts 0"] by blast
  have "rsession_ok ?key s" using rx_inv_session r(2) by (auto simp: rx_progress_def tp_inv_def)
  then have packets: "rs_total_packets s = int ?n"
    using r(2) n(2) by (simp add: rsession_ok_def tp_length_ok_def rx_progress_def)
  have "snd (tp_run st1 (map (\<lambda>q. (?f q, ts q)) [Suc 0..<Suc ?n])) =
      replicate (?n - Suc 0) (Inr (None, None)) @ [Inr (Some (delivered ?key data (frame_timestamp_ns (?f ?n))), None)]"
    by (rule bam_packets [where f = ?f and n = ?n, OF bam_frame_carries [OF ch] gaps r(2,3) packets _ refl])
      (use n in simp_all)
  moreover have "frame_timestamp_ns (?f ?n) = tk_ns now" by (simp add: bam_frame_def)
  moreover have "map (\<lambda>q. (?f q, ts q)) [0..<Suc ?n] = (?f 0, ts 0) # map (\<lambda>q. (?f q, ts q)) [Suc 0..<Suc ?n]"
    by (simp add: upt_rec [of 0] del: upt_Suc)
  moreover have "replicate ?n x = x # replicate (?n - Suc 0) x" for x :: "rx_result py"
    using n(1) by (cases ?n) simp_all
  ultimately have run: "snd (tp_run rx (map (\<lambda>q. (?f q, ts q)) [0..<Suc ?n])) =
      replicate ?n (Inr (None, None)) @ [Inr (Some (delivered ?key data (tk_ns now)), None)]"
    using tp_run_Cons [OF r(1)] by (simp del: upt_Suc tp_run.simps)
  have "zip (map ?f [0..<Suc ?n]) (map ts [0..<Suc ?n]) = map (\<lambda>q. (?f q, ts q)) [0..<Suc ?n]"
    by (simp add: zip_map_map zip_same_conv_map split_def del: upt_Suc)
  then show ?thesis
    using run start_tp_bam_eq [OF len(1) len' pgn ch, of now]
    by (intro exI [of _ "map ?f [0..<Suc ?n]"]) (simp del: upt_Suc)
qed

theorem bam_roundtrip_witness:
  "\<exists>frames. start_tp_bam (tp_init 0x10 ''can0'' 0) 0xFECA (replicate 20 7) None (tk_demo 0) = Inr frames \<and>
    snd (tp_run (tp_init 0xF9 ''can0'' 0) (zip frames (map tk_demo [0..<length frames]))) =
      replicate (length frames - 1) (Inr (None, None)) @
      [Inr (Some (delivered (tp_my_address (tp_init 0x10 ''can0'' 0) mod 256, 255,
         or_channel (tp_init 0x10 ''can0'' 0) None, 0xFECA) (replicate 20 7) (tk_ns (tk_demo 0))), None)]"
proof (rule bam_roundtrip [OF _ _ _ _ _ reach_demo])
  show "channel_id_ok (or_channel (tp_init 0x10 ''can0'' 0) None)" by code_simp
qed (simp_all add: tp_init_def no_prefix_def counter_get_def MAX_SESSIONS_PER_SA_def tk_demo_def
      T1_TIMEOUT_SEC_def add_divide_distrib)

section \<open>The sender's state machine\<close>

text \<open>
  C23. A grant is honoured exactly: a CTS for 1 to 16 packets from a sequence number that the
  transfer has reached, at most two packets back, makes the sender emit those packets of the
  payload in order, no more than were granted and none past the last, and leaves the session
  waiting for the acknowledgement if the last one went out, for the next CTS otherwise.
\<close>

theorem cts_grants_window:
  assumes "tp_reach st" "dget (tp_tx_sessions st) key = Some s"
    and "1 \<le> next_seq" "next_seq \<le> ts_total_packets s" "next_seq \<le> ts_next_sequence s"
    and "ts_next_sequence s - next_seq \<le> MAX_REWIND_DEPTH" "1 \<le> count" "count \<le> MAX_CTS_PACKET_COUNT"
  shows "\<exists>s'. tx_cts st key s count next_seq now =
      (store_tx key s' st,
       Inr (map (\<lambda>q. dt_frame_of st s q now) [next_seq..min (next_seq + count - 1) (ts_total_packets s)], None)) \<and>
    ts_next_sequence s' = min (next_seq + count - 1) (ts_total_packets s) + 1 \<and>
    ts_state s' = (if next_seq + count - 1 \<ge> ts_total_packets s then WAIT_ACK else WAIT_CTS) \<and>
    ts_data s' = ts_data s \<and> ts_hold_count s' = 0"
proof -
  have inv: "tx_inv st" using tp_reach_inv [OF assms(1)] by (simp add: tp_inv_def)
  have s: "tx_session_ok key s" by (rule tx_inv_session [OF inv assms(2)])
  define g where "g = s\<lparr>ts_cts_window := count, ts_next_sequence := next_seq, ts_state := GRANTED,
    ts_hold_count := 0, ts_hold_window_start := 0, ts_last_activity_time := tk_now now\<rparr>"
  have ready: "tx_ready key g" unfolding g_def by (rule tx_grant_ready [OF s assms(3,4,7,8)])
  have g: "window_end g = min (next_seq + count - 1) (ts_total_packets s)" "ts_next_sequence g = next_seq"
    "ts_total_packets g = ts_total_packets s" "ts_data g = ts_data s" "ts_hold_count g = 0"
    "dt_frame_of st g q now = dt_frame_of st s q now" for q
    by (simp_all add: g_def window_end_def dt_frame_of_def)
  have "tx_cts st key s count next_seq now = emit_stored st key g now"
    using assms by (simp add: tx_cts_def tx_grant_def g_def)
  then show ?thesis
    unfolding emit_stored_eq [OF ready] g
    by (intro exI [of _ "after_window g now"]) (auto simp: after_window_def g)
qed

text \<open>The sender of the witnesses: a transfer of 20 bytes to 0xF9, just opened.\<close>

definition tx_demo :: tp where
  "tx_demo = fst (start_cmdt_transfer (tp_init 0x10 ''can0'' 0) 0xF9 0xFECA (replicate 20 7) None (tk_demo 1))"

definition tx_session_demo :: tx_session where
  "tx_session_demo = new_tx_session (tp_init 0x10 ''can0'' 0) 0xF9 0xFECA (replicate 20 7) ''can0'' (tk_now (tk_demo 1))"

lemma channel_demo: "channel_id_ok ''can0''"
  by code_simp

lemma reach_tx_demo:
  "tp_reach tx_demo" "dget (tp_tx_sessions tx_demo) (0x10, 0xF9, 0xFECA, ''can0'') = Some tx_session_demo"
proof -
  have init: "tp_reach (tp_init 0x10 ''can0'' 0)" by (rule reach_init [OF channel_demo])
  have ch: "or_channel (tp_init 0x10 ''can0'' 0) None = ''can0''" by (simp add: or_channel_def tp_init_def)
  then have chok: "channel_id_ok (or_channel (tp_init 0x10 ''can0'' 0) None)" by (simp only: channel_demo)
  show "tp_reach tx_demo"
    unfolding tx_demo_def
    by (rule reach_step [OF init step_start [where pgn = "0xFECA" and ch = None and target = "0xF9"
          and data = "replicate 20 7" and now = "tk_demo 1"]])
      (simp_all add: chok prod_eq_iff [symmetric] del: fst_conv, rule prod.collapse [symmetric])
  have "tx_inv (tp_init 0x10 ''can0'' 0)" using tp_reach_inv [OF init] by (simp add: tp_inv_def)
  then obtain st' where "start_cmdt_transfer (tp_init 0x10 ''can0'' 0) 0xF9 0xFECA (replicate 20 7) None (tk_demo 1) =
      (st', Inr (tx_frame ''can0'' (cm_id_to (tp_init 0x10 ''can0'' 0) 0xF9)
        (cm_payload TP_CTRL_RTS (replicate 20 7) 0xFECA) (tk_ns (tk_demo 1))))"
    "dget (tp_tx_sessions st') (tp_my_address (tp_init 0x10 ''can0'' 0), 0xF9, 0xFECA, ''can0'') = Some tx_session_demo"
    by (rule start_cmdt_ok [where data = "replicate 20 7" and pgn = "0xFECA" and channel_id = None
          and target = "0xF9" and now = "tk_demo 1"])
      (simp_all add: channel_demo ch MAX_TP_BYTES_def tx_session_demo_def)
  then show "dget (tp_tx_sessions tx_demo) (0x10, 0xF9, 0xFECA, ''can0'') = Some tx_session_demo"
    by (simp add: tx_demo_def tp_init_def)
qed

lemma tx_session_demo_fields:
  "ts_total_packets tx_session_demo = 3" "ts_next_sequence tx_session_demo = 1" "ts_state tx_session_demo = WAIT_CTS"
  "ts_hold_window_start tx_session_demo = 0" "ts_hold_count tx_session_demo = 0" "ts_data tx_session_demo = replicate 20 7"
  "ts_total_bytes tx_session_demo = 20" "ts_target_pgn tx_session_demo = 0xFECA"
  by (simp_all add: tx_session_demo_def new_tx_session_def)

theorem cts_grants_window_witness:
  "\<exists>s'. tx_cts tx_demo (0x10, 0xF9, 0xFECA, ''can0'') tx_session_demo 2 1 (tk_demo 2) =
      (store_tx (0x10, 0xF9, 0xFECA, ''can0'') s' tx_demo,
       Inr (map (\<lambda>q. dt_frame_of tx_demo tx_session_demo q (tk_demo 2))
         [1..min (1 + 2 - 1) (ts_total_packets tx_session_demo)], None)) \<and>
    ts_next_sequence s' = min (1 + 2 - 1) (ts_total_packets tx_session_demo) + 1 \<and>
    ts_state s' = (if 1 + 2 - 1 \<ge> ts_total_packets tx_session_demo then WAIT_ACK else WAIT_CTS) \<and>
    ts_data s' = ts_data tx_session_demo \<and> ts_hold_count s' = 0"
  by (rule cts_grants_window [OF reach_tx_demo])
    (simp_all add: tx_session_demo_fields MAX_REWIND_DEPTH_def MAX_CTS_PACKET_COUNT_def)

text \<open>
  A CTS that asks for packet 0, for one past the end or past the next one due, for more
  than 16 packets, or for more than two packets back ends the transfer: the session is gone and
  one abort goes to the peer, with no data.
\<close>

theorem cts_abuse_aborts:
  assumes "tp_reach st" "dget (tp_tx_sessions st) key = Some s"
    and "next_seq = 0 \<or> next_seq > ts_total_packets s \<or> next_seq > ts_next_sequence s \<or>
      count > MAX_CTS_PACKET_COUNT \<or> count \<noteq> 0 \<and> ts_next_sequence s - next_seq > MAX_REWIND_DEPTH"
  shows "\<exists>st' f. tx_cts st key s count next_seq now = (st', Inr ([], Some f)) \<and>
    tp_tx_sessions st' = dpop key (tp_tx_sessions st) \<and> tp_sends (tp_my_address st) TP_CTRL_ABORT f"
proof -
  have inv: "tx_inv st" using tp_reach_inv [OF assms(1)] by (simp add: tp_inv_def)
  have s: "tx_session_ok key s" by (rule tx_inv_session [OF inv assms(2)])
  obtain st' f where ab: "abort_tx st key s ABORT_REASON_UNEXPECTED_CONTROL now = (st', Inr ([], Some f))"
    "tp_tx_sessions st' = dpop key (tp_tx_sessions st)" "tp_sends (tp_my_address st) TP_CTRL_ABORT f"
    by (rule abort_tx_good [OF tx_inv_drop [OF inv], of s ABORT_REASON_UNEXPECTED_CONTROL key now])
      (use s in \<open>simp_all add: tx_session_ok_def tp_reasons\<close>)
  have "tx_cts st key s count next_seq now = abort_tx st key s ABORT_REASON_UNEXPECTED_CONTROL now"
    using assms(3) by (auto simp: tx_cts_def tx_grant_def MAX_REWIND_DEPTH_def)
  then show ?thesis using ab by auto
qed

theorem cts_abuse_aborts_witness:
  "\<exists>st' f. tx_cts tx_demo (0x10, 0xF9, 0xFECA, ''can0'') tx_session_demo 255 1 (tk_demo 2) = (st', Inr ([], Some f)) \<and>
    tp_tx_sessions st' = dpop (0x10, 0xF9, 0xFECA, ''can0'') (tp_tx_sessions tx_demo) \<and>
    tp_sends (tp_my_address tx_demo) TP_CTRL_ABORT f"
  by (rule cts_abuse_aborts [OF reach_tx_demo]) (simp add: MAX_CTS_PACKET_COUNT_def)

text \<open>
  Only the acknowledgement of the whole transfer closes it in silence: unless the session
  waits for it and the byte count, packet count and PGN are its own, the peer is sent an abort.
  Either way the session is gone.
\<close>

theorem ack_closes_transfer:
  assumes "tp_reach st" "dget (tp_tx_sessions st) key = Some s"
  shows "\<exists>st' err. tx_ack st key s d now = (st', Inr ([], err)) \<and>
    tp_tx_sessions st' = dpop key (tp_tx_sessions st) \<and>
    (err = None \<longleftrightarrow> ts_state s = WAIT_ACK \<and> from_le (py_slice d 1 3) = int (length (ts_data s)) \<and>
       byte_at d 3 = ts_total_packets s \<and> from_le (py_slice d 5 8) = ts_target_pgn s)"
proof -
  have inv: "tx_inv st" using tp_reach_inv [OF assms(1)] by (simp add: tp_inv_def)
  have s: "tx_session_ok key s" by (rule tx_inv_session [OF inv assms(2)])
  obtain st' f where ab: "abort_tx st key s ABORT_REASON_UNEXPECTED_CONTROL now = (st', Inr ([], Some f))"
    "tp_tx_sessions st' = dpop key (tp_tx_sessions st)"
    by (rule abort_tx_good [OF tx_inv_drop [OF inv], of s ABORT_REASON_UNEXPECTED_CONTROL key now])
      (use s in \<open>simp_all add: tx_session_ok_def tp_reasons\<close>)
  have "ts_total_bytes s = int (length (ts_data s))" using s by (simp add: tx_session_ok_def)
  then show ?thesis unfolding tx_ack_def ab(1) using ab(2) by (auto simp: drop_tx_def)
qed

theorem ack_closes_transfer_witness:
  "\<exists>st' err. tx_ack tx_demo (0x10, 0xF9, 0xFECA, ''can0'') tx_session_demo [0x13, 20, 0, 3, 0xFF, 0xCA, 0xFE, 0] (tk_demo 2) =
      (st', Inr ([], err)) \<and>
    tp_tx_sessions st' = dpop (0x10, 0xF9, 0xFECA, ''can0'') (tp_tx_sessions tx_demo) \<and>
    (err = None \<longleftrightarrow> ts_state tx_session_demo = WAIT_ACK \<and>
       from_le (py_slice [0x13, 20, 0, 3, 0xFF, 0xCA, 0xFE, 0] 1 3) = int (length (ts_data tx_session_demo)) \<and>
       byte_at [0x13, 20, 0, 3, 0xFF, 0xCA, 0xFE, 0] 3 = ts_total_packets tx_session_demo \<and>
       from_le (py_slice [0x13, 20, 0, 3, 0xFF, 0xCA, 0xFE, 0] 5 8) = ts_target_pgn tx_session_demo)"
  by (rule ack_closes_transfer [OF reach_tx_demo])

text \<open>A run of HOLDs (CTS for zero packets) on one session.\<close>

fun hold_run :: "tp \<Rightarrow> tx_key \<Rightarrow> tick list \<Rightarrow> tp" where
  "hold_run st key [] = st"
| "hold_run st key (t # ts) =
     (case dget (tp_tx_sessions st) key of
        None \<Rightarrow> hold_run st key ts
      | Some s \<Rightarrow> hold_run (fst (tx_hold st key s t)) key ts)"

lemma hold_run_gone: "dget (tp_tx_sessions st) key = None \<Longrightarrow> hold_run st key ts = st"
  by (induction ts) simp_all

lemma hold_run_count:
  assumes "w \<noteq> 0"
  shows "tx_inv st \<Longrightarrow> dget (tp_tx_sessions st) key = Some s \<Longrightarrow> ts_hold_window_start s = w \<Longrightarrow>
    ts_hold_count s = c \<Longrightarrow> (\<And>t. t \<in> set ts \<Longrightarrow> \<not> tk_now t - w > HOLD_WINDOW_S) \<Longrightarrow>
    dget (tp_tx_sessions (hold_run st key ts)) key \<noteq> None \<longleftrightarrow> c + int (length ts) \<le> MAX_HOLD_CTS"
proof (induction ts arbitrary: st s c)
  case Nil
  then show ?case using tx_inv_session [OF Nil(1,2)] by (simp add: tx_session_ok_def)
next
  case (Cons t ts)
  have s: "tx_session_ok key s" by (rule tx_inv_session [OF Cons.prems(1,2)])
  have good: "tx_good st (tx_hold st key s t)" by (rule tx_hold_good [OF Cons.prems(1,2)])
  define s2 where "s2 = s\<lparr>ts_hold_count := c + 1\<rparr>"
  have inside: "\<not> (ts_hold_window_start s = 0 \<or> tk_now t - ts_hold_window_start s > HOLD_WINDOW_S)"
    using Cons.prems(3,5) assms by simp
  have eq: "tx_hold st key s t = (if c + 1 > MAX_HOLD_CTS
      then abort_tx (store_tx key s2 st) key s2 ABORT_REASON_UNEXPECTED_CONTROL t
      else (store_tx key (s2\<lparr>ts_state := WAIT_CTS, ts_last_activity_time := tk_now t\<rparr>) st, Inr ([], None)))"
    unfolding tx_hold_def Let_def using inside Cons.prems(4) by (simp add: s2_def)
  show ?case
  proof (cases "c + 1 > MAX_HOLD_CTS")
    case True
    have "tx_inv (drop_tx key (store_tx key s2 st))"
      using tx_inv_drop [OF Cons.prems(1), of key] tx_inv_cong [of "drop_tx key (store_tx key s2 st)" "drop_tx key st"]
      by (simp add: drop_tx_def store_tx_def AList.delete_update_same)
    then obtain st' f where "abort_tx (store_tx key s2 st) key s2 ABORT_REASON_UNEXPECTED_CONTROL t = (st', Inr ([], Some f))"
      "tp_tx_sessions st' = dpop key (tp_tx_sessions (store_tx key s2 st))"
      by (rule abort_tx_good [where s = s2 and reason = ABORT_REASON_UNEXPECTED_CONTROL and now = t])
        (use s in \<open>simp_all add: s2_def tx_session_ok_def tp_reasons\<close>)
    then show ?thesis
      using True Cons.prems(2) by (simp add: eq hold_run_gone)
  next
    case False
    let ?s3 = "s2\<lparr>ts_state := WAIT_CTS, ts_last_activity_time := tk_now t\<rparr>"
    let ?st = "store_tx key ?s3 st"
    have inv: "tx_inv ?st" using good False by (simp add: eq tx_good_def)
    have "dget (tp_tx_sessions (hold_run ?st key ts)) key \<noteq> None \<longleftrightarrow> (c + 1) + int (length ts) \<le> MAX_HOLD_CTS"
      by (rule Cons.IH [OF inv, of ?s3]) (use Cons.prems in \<open>simp_all add: store_tx_def s2_def\<close>)
    then show ?thesis using False Cons.prems(2) by (simp add: eq add.assoc)
  qed
qed

text \<open>
  Holding the connection is bounded: of the HOLDs a peer sends within two seconds of the
  first, eight are taken and the ninth ends the transfer, so a peer cannot keep a session alive
  by holding it.
\<close>

theorem hold_storm_ends:
  assumes "tp_reach st" "dget (tp_tx_sessions st) key = Some s" "ts_hold_window_start s = 0"
    and "tk_now t0 \<noteq> 0" "\<And>t. t \<in> set ts \<Longrightarrow> \<not> tk_now t - tk_now t0 > HOLD_WINDOW_S"
  shows "dget (tp_tx_sessions (hold_run st key (t0 # ts))) key \<noteq> None \<longleftrightarrow> length (t0 # ts) \<le> 8"
proof -
  have inv: "tx_inv st" using tp_reach_inv [OF assms(1)] by (simp add: tp_inv_def)
  define s' where "s' = s\<lparr>ts_hold_window_start := tk_now t0, ts_hold_count := 1, ts_state := WAIT_CTS,
    ts_last_activity_time := tk_now t0\<rparr>"
  have eq: "tx_hold st key s t0 = (store_tx key s' st, Inr ([], None))"
    using assms(3) by (simp add: tx_hold_def s'_def MAX_HOLD_CTS_def)
  have "tx_inv (store_tx key s' st)" using tx_hold_good [OF inv assms(2), of t0] by (simp add: eq tx_good_def)
  then have "dget (tp_tx_sessions (hold_run (store_tx key s' st) key ts)) key \<noteq> None \<longleftrightarrow>
      1 + int (length ts) \<le> MAX_HOLD_CTS"
    by (rule hold_run_count [OF assms(4), where s = s']) (use assms(5) in \<open>simp_all add: store_tx_def s'_def\<close>)
  then show ?thesis by (simp add: assms(2) eq MAX_HOLD_CTS_def)
qed

theorem hold_storm_ends_witness:
  "dget (tp_tx_sessions (hold_run tx_demo (0x10, 0xF9, 0xFECA, ''can0'') (tk_demo 2 # map tk_demo [3..<11])))
      (0x10, 0xF9, 0xFECA, ''can0'') \<noteq> None \<longleftrightarrow> length (tk_demo 2 # map tk_demo [3..<11]) \<le> 8"
  by (rule hold_storm_ends [OF reach_tx_demo])
    (auto simp: tx_session_demo_fields tk_demo_def HOLD_WINDOW_S_def)

text \<open>
  The gate that protects a live session from a storm of announcements or requests for other
  PGNs lets exactly three replacements through per second and prefix.
\<close>

theorem collision_burst:
  assumes "dget m p = None" "\<And>t. t \<in> set ts \<Longrightarrow> \<not> t - t0 > PREFIX_COLLISION_WINDOW_S"
  shows "int (fst (gate_run check_prefix_collision_rate m p (t0 # ts))) = min (int (length (t0 # ts))) 3"
  using collision.gate_burst_bound [OF assms] by (simp add: PREFIX_COLLISION_BURST_def)

theorem collision_burst_witness:
  "int (fst (gate_run check_prefix_collision_rate [] (0x10, 0xF9, ''can0'') (0 # replicate 9 (1 / 2)))) =
     min (int (length (0 # replicate 9 (1 / 2 :: rat)))) 3"
  by (rule collision_burst) (simp_all add: PREFIX_COLLISION_WINDOW_S_def)

section \<open>Where the code falls short\<close>

text \<open>
  A sender that limits itself to fewer than 16 packets per CTS (byte 5 of its RTS) is
  granted that many, and after them nothing: the receiver issues its next CTS only at multiples
  of 16 packets. A transfer longer than the limit therefore stalls, although the receiver's
  comment says that follow-up grants keep a capped first grant from stalling.
\<close>

theorem small_cts_limit_stalls:
  assumes "rs_rx_cts_window s = 0" "1 \<le> rs_max_packets_per_cts s" "rs_max_packets_per_cts s < MAX_CTS_PACKET_COUNT"
    and "rs_max_packets_per_cts s < rs_total_packets s" "1 \<le> n" "n \<le> rs_max_packets_per_cts s"
  shows "first_grant s = rs_max_packets_per_cts s \<and>
    next_cts st frame (s\<lparr>rs_expected_sequence := n + 1\<rparr>) now = Inr None"
  using assms by (simp add: first_grant_def next_cts_def MAX_CTS_PACKET_COUNT_def)

theorem small_cts_limit_stalls_witness:
  "first_grant (rs_demo\<lparr>rs_total_packets := 10, rs_max_packets_per_cts := 8\<rparr>) = 8 \<and>
    next_cts (tp_init 2 ''can0'' 0) (tx_frame ''can0'' 0 [] 0)
      (rs_demo\<lparr>rs_total_packets := 10, rs_max_packets_per_cts := 8, rs_expected_sequence := 8 + 1\<rparr>) (tk_demo 1) = Inr None"
  using small_cts_limit_stalls [of "rs_demo\<lparr>rs_total_packets := 10, rs_max_packets_per_cts := 8\<rparr>" 8
      "tp_init 2 ''can0'' 0" "tx_frame ''can0'' 0 [] 0" "tk_demo 1"]
  by (simp add: rs_demo_def MAX_CTS_PACKET_COUNT_def)

text \<open>
  \<open>start_cmdt_transfer\<close> with a PGN of more than 24 bits raises OverflowError only after it
  has registered the session (and evicted another, if the table was full): the session stays in
  the table although no request was ever sent.
\<close>

theorem oversized_pgn_registers:
  assumes "tp_reach st" "2 ^ 24 \<le> pgn" "1 \<le> length data" "length data \<le> 1785"
  shows "\<exists>st'. start_cmdt_transfer st target pgn data channel_id now = (st', Inl OverflowError) \<and>
    dget (tp_tx_sessions st') (tp_my_address st, target, pgn, or_channel st channel_id) =
      Some (new_tx_session st target pgn data (or_channel st channel_id) (tk_now now))"
proof -
  let ?ch = "or_channel st channel_id"
  let ?s = "new_tx_session st target pgn data ?ch (tk_now now)"
  have inv: "tx_inv st" using tp_reach_inv [OF assms(1)] by (simp add: tp_inv_def)
  obtain st1 fs where reap: "reap_stale_tx_sessions st now = (st1, Inr fs)" "tx_inv st1"
    using reap_tx_good [OF inv, of now] by (auto simp: tx_frames_good_def split: prod.splits sum.splits)
  obtain st2 where ev: "evict_tx (queue_frames fs st1) now = (st2, Inr ())"
    by (rule evict_tx_ok [of "queue_frames fs st1" now]) (use reap(2) in simp_all)
  have "cm_bytes TP_CTRL_RTS data pgn = Inl OverflowError"
  proof -
    have "to_le 3 pgn = Inl OverflowError" using assms(2) by (simp add: to_le_def)
    moreover have "(int (length data) + 6) div 7 < 256" using assms(4) by simp
    ultimately show ?thesis using assms(4) by (simp add: cm_bytes_def to_le_def Let_def)
  qed
  then show ?thesis
    using assms(3,4)
    by (simp add: start_cmdt_transfer_def reap(1) ev MAX_TP_BYTES_def)
      (simp add: tx_key_def new_tx_session_def)
qed

theorem oversized_pgn_registers_witness:
  "\<exists>st'. start_cmdt_transfer (tp_init 0xF9 ''can0'' 0) 0x10 0x1000000 [1, 2, 3] None (tk_demo 1) = (st', Inl OverflowError) \<and>
    dget (tp_tx_sessions st') (tp_my_address (tp_init 0xF9 ''can0'' 0), 0x10, 0x1000000, or_channel (tp_init 0xF9 ''can0'' 0) None) =
      Some (new_tx_session (tp_init 0xF9 ''can0'' 0) 0x10 0x1000000 [1, 2, 3] (or_channel (tp_init 0xF9 ''can0'' 0) None) (tk_now (tk_demo 1)))"
  by (rule oversized_pgn_registers [OF reach_demo]) simp_all

lemma pace_due:
  "map snd (pace due interval False fs) = map (\<lambda>i. due + of_nat i * interval) [0..<length fs]"
proof (induction fs arbitrary: due)
  case (Cons f fs)
  have "map (\<lambda>i. due + of_nat i * interval) [Suc 0..<Suc (length fs)] =
      map (\<lambda>i. due + interval + of_nat i * interval) [0..<length fs]"
    by (simp add: map_Suc_upt [symmetric] del: upt_Suc map_Suc_upt) (simp add: algebra_simps)
  moreover have "[0..<Suc (length fs)] = 0 # [Suc 0..<Suc (length fs)]" by (simp add: upt_rec)
  ultimately show ?case by (simp add: Cons.IH del: upt_Suc)
qed simp

text \<open>
  The due times of a paced broadcast: the announcement and the first data packet are both
  due at once, and only from the second packet on does each wait for its predecessor. The
  docstring has every data packet due one interval after its predecessor, the first included.
\<close>

theorem paced_due_times:
  assumes "start_tp_bam_paced st pgn data channel_id interval_s now = Inr paced"
  shows "map snd paced = tk_now now # map (\<lambda>i. tk_now now + of_nat i *
      (case interval_s of None \<Rightarrow> tp_bam_pacing_interval_s st | Some i \<Rightarrow> i)) [0..<length paced - 1]"
proof -
  obtain frames where "start_tp_bam st pgn data channel_id now = Inr frames"
    and p: "paced = pace (tk_now now) (case interval_s of None \<Rightarrow> tp_bam_pacing_interval_s st | Some i \<Rightarrow> i) True frames"
    using assms by (auto simp: start_tp_bam_paced_def py_bind_Inr_iff Let_def split: if_splits)
  then obtain f fs where "frames = f # fs"
    by (auto simp: start_tp_bam_def py_bind_Inr_iff Let_def split: if_splits)
  moreover have "length (pace d i False fs) = length fs" for d i
    using arg_cong [OF pace_due, of length d i fs] by simp
  ultimately show ?thesis by (simp add: p pace_due)
qed

theorem paced_due_times_witness:
  "map snd (pace 1 (1 / 10) True (map (bam_frame (tp_init 0xF9 ''can0'' 0) 0xFECA (replicate 20 7) ''can0'' 1000000000) [0..<4])) =
     1 # map (\<lambda>i. 1 + of_nat i * (1 / 10)) [0..<3]"
proof -
  let ?fs = "map (bam_frame (tp_init 0xF9 ''can0'' 0) 0xFECA (replicate 20 7) ''can0'' 1000000000) [0..<4]"
  let ?now = "\<lparr>tk_now = 1, tk_ns = 1000000000\<rparr>"
  have ch: "or_channel (tp_init 0xF9 ''can0'' 0) None = ''can0''" by (simp add: or_channel_def tp_init_def)
  have "start_tp_bam (tp_init 0xF9 ''can0'' 0) 0xFECA (replicate 20 7) None ?now = Inr ?fs"
    by (subst start_tp_bam_eq) (simp_all add: ch channel_demo MAX_TP_BYTES_def bam_packet_count_def numeral_eq_Suc)
  then have "start_tp_bam_paced (tp_init 0xF9 ''can0'' 0) 0xFECA (replicate 20 7) None (Some (1 / 10)) ?now =
      Inr (pace 1 (1 / 10) True ?fs)"
    by (simp add: start_tp_bam_paced_def Let_def)
  from paced_due_times [OF this] show ?thesis by (simp add: eval_nat_numeral)
qed

end
