(* ===== verification/E2ECrc.thy ===== *)
theory E2ECrc
  imports PyDict
begin

text \<open>
  \<open>src/safety/e2e/crc.py\<close>: the CRC-8 routines of the end-to-end protection. Accumulators,
  table entries and message bytes are 8-bit words, on which the source's \<open>& 0xFF\<close> after each
  shift and exclusive-or is built in; \<open>poly\<close>, \<open>init_val\<close> and \<open>final_xor\<close> are Python ints that
  the code truncates to a byte. The lemmas show that the table-driven routines compute the
  bit-by-bit division, that both literal tables are the generated ones, that the memo of
  generated tables is transparent, and that a CRC with an odd polynomial detects every change
  confined to one byte.
\<close>

section \<open>Constants\<close>

definition POLYNOMIAL_0X1D :: int where "POLYNOMIAL_0X1D = 0x1D"
definition POLYNOMIAL_0X2F :: int where "POLYNOMIAL_0X2F = 0x2F"
definition DEFAULT_CRC_INIT :: int where "DEFAULT_CRC_INIT = 0xFF"
definition DEFAULT_CRC_XOR :: int where "DEFAULT_CRC_XOR = 0xFF"

section \<open>Tables\<close>

text \<open>One turn of the inner loop: the accumulator shifted left, reduced by the polynomial when
  its top bit was set; and the eight turns for one byte.\<close>

definition crc8_shift :: "byte \<Rightarrow> byte \<Rightarrow> byte" where
  "crc8_shift poly_byte acc =
     (if acc AND 0x80 \<noteq> 0 then push_bit 1 acc XOR poly_byte else push_bit 1 acc)"

definition crc8_byte :: "byte \<Rightarrow> byte \<Rightarrow> byte" where
  "crc8_byte poly_byte acc = (crc8_shift poly_byte ^^ 8) acc"

definition generate_crc8_table :: "int \<Rightarrow> byte list" where
  "generate_crc8_table poly =
     (let poly_byte = word_of_int poly in
      map (\<lambda>b. crc8_byte poly_byte (word_of_nat b)) [0..<256])"

definition CRC8_TABLE_0X1D :: "byte list" where
  "CRC8_TABLE_0X1D =
    [0x00, 0x1D, 0x3A, 0x27, 0x74, 0x69, 0x4E, 0x53, 0xE8, 0xF5, 0xD2, 0xCF, 0x9C, 0x81, 0xA6, 0xBB,
     0xCD, 0xD0, 0xF7, 0xEA, 0xB9, 0xA4, 0x83, 0x9E, 0x25, 0x38, 0x1F, 0x02, 0x51, 0x4C, 0x6B, 0x76,
     0x87, 0x9A, 0xBD, 0xA0, 0xF3, 0xEE, 0xC9, 0xD4, 0x6F, 0x72, 0x55, 0x48, 0x1B, 0x06, 0x21, 0x3C,
     0x4A, 0x57, 0x70, 0x6D, 0x3E, 0x23, 0x04, 0x19, 0xA2, 0xBF, 0x98, 0x85, 0xD6, 0xCB, 0xEC, 0xF1,
     0x13, 0x0E, 0x29, 0x34, 0x67, 0x7A, 0x5D, 0x40, 0xFB, 0xE6, 0xC1, 0xDC, 0x8F, 0x92, 0xB5, 0xA8,
     0xDE, 0xC3, 0xE4, 0xF9, 0xAA, 0xB7, 0x90, 0x8D, 0x36, 0x2B, 0x0C, 0x11, 0x42, 0x5F, 0x78, 0x65,
     0x94, 0x89, 0xAE, 0xB3, 0xE0, 0xFD, 0xDA, 0xC7, 0x7C, 0x61, 0x46, 0x5B, 0x08, 0x15, 0x32, 0x2F,
     0x59, 0x44, 0x63, 0x7E, 0x2D, 0x30, 0x17, 0x0A, 0xB1, 0xAC, 0x8B, 0x96, 0xC5, 0xD8, 0xFF, 0xE2,
     0x26, 0x3B, 0x1C, 0x01, 0x52, 0x4F, 0x68, 0x75, 0xCE, 0xD3, 0xF4, 0xE9, 0xBA, 0xA7, 0x80, 0x9D,
     0xEB, 0xF6, 0xD1, 0xCC, 0x9F, 0x82, 0xA5, 0xB8, 0x03, 0x1E, 0x39, 0x24, 0x77, 0x6A, 0x4D, 0x50,
     0xA1, 0xBC, 0x9B, 0x86, 0xD5, 0xC8, 0xEF, 0xF2, 0x49, 0x54, 0x73, 0x6E, 0x3D, 0x20, 0x07, 0x1A,
     0x6C, 0x71, 0x56, 0x4B, 0x18, 0x05, 0x22, 0x3F, 0x84, 0x99, 0xBE, 0xA3, 0xF0, 0xED, 0xCA, 0xD7,
     0x35, 0x28, 0x0F, 0x12, 0x41, 0x5C, 0x7B, 0x66, 0xDD, 0xC0, 0xE7, 0xFA, 0xA9, 0xB4, 0x93, 0x8E,
     0xF8, 0xE5, 0xC2, 0xDF, 0x8C, 0x91, 0xB6, 0xAB, 0x10, 0x0D, 0x2A, 0x37, 0x64, 0x79, 0x5E, 0x43,
     0xB2, 0xAF, 0x88, 0x95, 0xC6, 0xDB, 0xFC, 0xE1, 0x5A, 0x47, 0x60, 0x7D, 0x2E, 0x33, 0x14, 0x09,
     0x7F, 0x62, 0x45, 0x58, 0x0B, 0x16, 0x31, 0x2C, 0x97, 0x8A, 0xAD, 0xB0, 0xE3, 0xFE, 0xD9, 0xC4]"

definition CRC8_TABLE_0X2F :: "byte list" where
  "CRC8_TABLE_0X2F =
    [0x00, 0x2F, 0x5E, 0x71, 0xBC, 0x93, 0xE2, 0xCD, 0x57, 0x78, 0x09, 0x26, 0xEB, 0xC4, 0xB5, 0x9A,
     0xAE, 0x81, 0xF0, 0xDF, 0x12, 0x3D, 0x4C, 0x63, 0xF9, 0xD6, 0xA7, 0x88, 0x45, 0x6A, 0x1B, 0x34,
     0x73, 0x5C, 0x2D, 0x02, 0xCF, 0xE0, 0x91, 0xBE, 0x24, 0x0B, 0x7A, 0x55, 0x98, 0xB7, 0xC6, 0xE9,
     0xDD, 0xF2, 0x83, 0xAC, 0x61, 0x4E, 0x3F, 0x10, 0x8A, 0xA5, 0xD4, 0xFB, 0x36, 0x19, 0x68, 0x47,
     0xE6, 0xC9, 0xB8, 0x97, 0x5A, 0x75, 0x04, 0x2B, 0xB1, 0x9E, 0xEF, 0xC0, 0x0D, 0x22, 0x53, 0x7C,
     0x48, 0x67, 0x16, 0x39, 0xF4, 0xDB, 0xAA, 0x85, 0x1F, 0x30, 0x41, 0x6E, 0xA3, 0x8C, 0xFD, 0xD2,
     0x95, 0xBA, 0xCB, 0xE4, 0x29, 0x06, 0x77, 0x58, 0xC2, 0xED, 0x9C, 0xB3, 0x7E, 0x51, 0x20, 0x0F,
     0x3B, 0x14, 0x65, 0x4A, 0x87, 0xA8, 0xD9, 0xF6, 0x6C, 0x43, 0x32, 0x1D, 0xD0, 0xFF, 0x8E, 0xA1,
     0xE3, 0xCC, 0xBD, 0x92, 0x5F, 0x70, 0x01, 0x2E, 0xB4, 0x9B, 0xEA, 0xC5, 0x08, 0x27, 0x56, 0x79,
     0x4D, 0x62, 0x13, 0x3C, 0xF1, 0xDE, 0xAF, 0x80, 0x1A, 0x35, 0x44, 0x6B, 0xA6, 0x89, 0xF8, 0xD7,
     0x90, 0xBF, 0xCE, 0xE1, 0x2C, 0x03, 0x72, 0x5D, 0xC7, 0xE8, 0x99, 0xB6, 0x7B, 0x54, 0x25, 0x0A,
     0x3E, 0x11, 0x60, 0x4F, 0x82, 0xAD, 0xDC, 0xF3, 0x69, 0x46, 0x37, 0x18, 0xD5, 0xFA, 0x8B, 0xA4,
     0x05, 0x2A, 0x5B, 0x74, 0xB9, 0x96, 0xE7, 0xC8, 0x52, 0x7D, 0x0C, 0x23, 0xEE, 0xC1, 0xB0, 0x9F,
     0xAB, 0x84, 0xF5, 0xDA, 0x17, 0x38, 0x49, 0x66, 0xFC, 0xD3, 0xA2, 0x8D, 0x40, 0x6F, 0x1E, 0x31,
     0x76, 0x59, 0x28, 0x07, 0xCA, 0xE5, 0x94, 0xBB, 0x21, 0x0E, 0x7F, 0x50, 0x9D, 0xB2, 0xC3, 0xEC,
     0xD8, 0xF7, 0x86, 0xA9, 0x64, 0x4B, 0x3A, 0x15, 0x8F, 0xA0, 0xD1, 0xFE, 0x33, 0x1C, 0x6D, 0x42]"

section \<open>The routines\<close>

definition calculate_crc8_bitwise :: "bytes \<Rightarrow> int \<Rightarrow> int \<Rightarrow> int \<Rightarrow> byte" where
  "calculate_crc8_bitwise d poly init_val final_xor =
     (let poly_byte = word_of_int poly in
      fold (\<lambda>b crc. crc8_byte poly_byte (crc XOR b)) d (word_of_int init_val)
        XOR word_of_int final_xor)"

text \<open>\<open>for byte in data: crc = table[crc ^ byte]\<close>; a table that is too short raises IndexError.\<close>

fun crc8_loop :: "byte list \<Rightarrow> bytes \<Rightarrow> byte \<Rightarrow> byte py" where
  "crc8_loop tbl [] crc = Inr crc"
| "crc8_loop tbl (b # bs) crc = py_bind (py_get tbl (uint (crc XOR b))) (crc8_loop tbl bs)"

definition calculate_crc8_update :: "int \<Rightarrow> bytes \<Rightarrow> byte list \<Rightarrow> int \<Rightarrow> byte py" where
  "calculate_crc8_update current_crc d tbl final_xor =
     py_bind (crc8_loop tbl d (word_of_int current_crc XOR word_of_int final_xor))
       (\<lambda>crc. Inr (crc XOR word_of_int final_xor))"

text \<open>The module's memo \<open>_CRC8_TABLE_CACHE\<close> is threaded through \<open>calculate_crc8\<close>.\<close>

type_synonym crc8_cache = "(int, byte list) dict"

definition crc8_table_for :: "crc8_cache \<Rightarrow> int \<Rightarrow> byte list option \<Rightarrow> crc8_cache \<times> byte list" where
  "crc8_table_for cache poly tbl =
     (case tbl of Some t \<Rightarrow> (cache, t) | None \<Rightarrow>
       if poly = POLYNOMIAL_0X1D then (cache, CRC8_TABLE_0X1D)
       else if poly = POLYNOMIAL_0X2F then (cache, CRC8_TABLE_0X2F)
       else (case dget cache poly of
           Some cached \<Rightarrow> (cache, cached)
         | None \<Rightarrow> let cached = generate_crc8_table poly in (dset poly cached cache, cached)))"

definition calculate_crc8 ::
  "crc8_cache \<Rightarrow> bytes \<Rightarrow> int \<Rightarrow> int \<Rightarrow> int \<Rightarrow> byte list option \<Rightarrow> crc8_cache \<times> byte py" where
  "calculate_crc8 cache d poly init_val final_xor tbl =
     (case crc8_table_for cache poly tbl of (cache', t) \<Rightarrow>
       (cache', py_bind (crc8_loop t d (word_of_int init_val))
          (\<lambda>crc. Inr (crc XOR word_of_int final_xor))))"

definition calculate_crc8_0x1d :: "bytes \<Rightarrow> int \<Rightarrow> int \<Rightarrow> byte py" where
  "calculate_crc8_0x1d d init_val final_xor =
     py_bind (crc8_loop CRC8_TABLE_0X1D d (word_of_int init_val))
       (\<lambda>crc. Inr (crc XOR word_of_int final_xor))"

definition calculate_crc8_0x2f :: "bytes \<Rightarrow> int \<Rightarrow> int \<Rightarrow> byte py" where
  "calculate_crc8_0x2f d init_val final_xor =
     py_bind (crc8_loop CRC8_TABLE_0X2F d (word_of_int init_val))
       (\<lambda>crc. Inr (crc XOR word_of_int final_xor))"

definition calculate_crc8_sae_j1850 :: "bytes \<Rightarrow> byte py" where
  "calculate_crc8_sae_j1850 d = calculate_crc8_0x1d d 0xFF 0xFF"

section \<open>Table-driven division\<close>

text \<open>What the loop relies on: a table of 256 entries that tabulates one byte of the division.\<close>

locale crc_table =
  fixes tbl :: "byte list" and step :: "byte \<Rightarrow> byte"
  assumes table_length: "length tbl = 256"
    and table_entry: "tbl ! unat x = step x"
begin

lemma table_lookup: "py_get tbl (uint x) = Inr (step x)"
  using uint_byte_bounds(2) [of x] table_entry [of x] by (simp add: table_length)

lemma loop_fold: "crc8_loop tbl d crc = Inr (fold (\<lambda>b crc. step (crc XOR b)) d crc)"
  by (induction d arbitrary: crc) (simp_all add: table_lookup)

end

lemma byte_nat: "unat (x :: byte) < 256"
  using unsigned_less [of x] by simp

interpretation gen: crc_table "generate_crc8_table poly" "crc8_byte (word_of_int poly)" for poly
  by unfold_locales (simp_all add: generate_crc8_table_def Let_def byte_nat)

section \<open>The literal tables are the generated ones\<close>

text \<open>The division step is linear over exclusive-or, so a table is determined by its entries at
  the powers of two: \<open>xor_span\<close> rebuilds it from them.\<close>

lemma crc8_shift_alt: "crc8_shift p a = push_bit 1 a XOR (if bit a 7 then p else 0)"
proof -
  have "(a AND 0x80 \<noteq> 0) = bit a 7"
    using and_exp_eq_0_iff_not_bit [of a 7] by simp
  then show ?thesis by (simp add: crc8_shift_def)
qed

lemma crc8_shift_xor: "crc8_shift p (a XOR b) = crc8_shift p a XOR crc8_shift p b"
  unfolding crc8_shift_alt by (simp add: push_bit_xor bit_xor_iff ac_simps)

lemma crc8_byte_unroll:
  "crc8_byte p c = crc8_shift p (crc8_shift p (crc8_shift p (crc8_shift p
     (crc8_shift p (crc8_shift p (crc8_shift p (crc8_shift p c)))))))"
  by (simp add: crc8_byte_def eval_nat_numeral)

lemma crc8_byte_xor: "crc8_byte p (a XOR b) = crc8_byte p a XOR crc8_byte p b"
  by (simp add: crc8_byte_unroll crc8_shift_xor)

lemma crc8_byte_zero: "crc8_byte p 0 = 0"
  by (simp add: crc8_byte_unroll crc8_shift_alt)

lemma power_plus_xor: "i < 2 ^ n \<Longrightarrow> word_of_nat (2 ^ n + i) = (2 ^ n XOR word_of_nat i :: byte)"
proof -
  assume "i < 2 ^ n"
  then have "\<not> bit i n" by (metis bit_take_bit_iff order_less_irrefl take_bit_nat_eq_self)
  then have "2 ^ n AND i = 0" using and_exp_eq_0_iff_not_bit [of i n] by (simp add: ac_simps)
  then have "2 ^ n + i = 2 ^ n XOR i" by (rule disjunctive_add_eq_xor)
  then show ?thesis by (simp only: of_nat_xor_eq of_nat_power of_nat_numeral)
qed

fun xor_span :: "byte list \<Rightarrow> byte list" where
  "xor_span [] = [0]"
| "xor_span (b # bs) = xor_span bs @ map ((XOR) b) (xor_span bs)"

lemma xor_span_table:
  "xor_span (map (\<lambda>i. crc8_byte p (2 ^ i)) (rev [0..<n])) =
     map (\<lambda>i. crc8_byte p (word_of_nat i)) [0..<2 ^ n]"
proof (induction n)
  case 0
  then show ?case by (simp add: crc8_byte_zero)
next
  case (Suc n)
  have "[0..<2 ^ Suc n] = [0..<2 ^ n] @ [2 ^ n..<2 ^ n + 2 ^ n]"
    by (simp add: mult_2 upt_add_eq_append [of 0])
  also have "[2 ^ n..<2 ^ n + 2 ^ n] = map (\<lambda>i. i + 2 ^ n) [0..<2 ^ n]"
    by (rule map_add_upt [symmetric])
  finally have split: "[0..<2 ^ Suc n] = [0..<2 ^ n] @ map (\<lambda>i. 2 ^ n + i) [0..<2 ^ n]"
    by (simp only: add.commute)
  show ?case
    unfolding split using Suc by (simp add: crc8_byte_xor power_plus_xor del: of_nat_add)
qed

lemma generated_span:
  "generate_crc8_table poly =
     (let f = crc8_byte (word_of_int poly) in xor_span [f 128, f 64, f 32, f 16, f 8, f 4, f 2, f 1])"
proof -
  have "rev [0..<8] = [7, 6, 5, 4, 3, 2, 1, 0 :: nat]" by code_simp
  then show ?thesis
    using xor_span_table [of "word_of_int poly" 8] by (simp add: generate_crc8_table_def Let_def)
qed

lemma table_0x1d_generated: "CRC8_TABLE_0X1D = generate_crc8_table POLYNOMIAL_0X1D"
proof -
  have "map (crc8_byte 0x1D) [128, 64, 32, 16, 8, 4, 2, 1] =
      [0x26, 0x13, 0x87, 0xCD, 0xE8, 0x74, 0x3A, 0x1D]"
    by (simp add: crc8_byte_unroll crc8_shift_def)
  then show ?thesis
    unfolding generated_span by (simp add: POLYNOMIAL_0X1D_def CRC8_TABLE_0X1D_def)
qed

lemma table_0x2f_generated: "CRC8_TABLE_0X2F = generate_crc8_table POLYNOMIAL_0X2F"
proof -
  have "map (crc8_byte 0x2F) [128, 64, 32, 16, 8, 4, 2, 1] =
      [0xE3, 0xE6, 0x73, 0xAE, 0x57, 0xBC, 0x5E, 0x2F]"
    by (simp add: crc8_byte_unroll crc8_shift_def)
  then show ?thesis
    unfolding generated_span by (simp add: POLYNOMIAL_0X2F_def CRC8_TABLE_0X2F_def)
qed

interpretation j1850: crc_table CRC8_TABLE_0X1D "crc8_byte 0x1D"
  using gen.crc_table_axioms [of "0x1D"] by (simp add: table_0x1d_generated POLYNOMIAL_0X1D_def)

interpretation mqb: crc_table CRC8_TABLE_0X2F "crc8_byte 0x2F"
  using gen.crc_table_axioms [of "0x2F"] by (simp add: table_0x2f_generated POLYNOMIAL_0X2F_def)

section \<open>What the routines compute\<close>

text \<open>The division of a message: the reference the routines are compared with.\<close>

definition crc_div :: "byte \<Rightarrow> bytes \<Rightarrow> byte \<Rightarrow> byte" where
  "crc_div p d crc = fold (\<lambda>b crc. crc8_byte p (crc XOR b)) d crc"

lemma crc_div_simps [simp]:
  "crc_div p [] crc = crc"
  "crc_div p (b # d) crc = crc_div p d (crc8_byte p (crc XOR b))"
  "crc_div p (d @ d') crc = crc_div p d' (crc_div p d crc)"
  by (simp_all add: crc_div_def)

lemma bitwise_div:
  "calculate_crc8_bitwise d poly i x = crc_div (word_of_int poly) d (word_of_int i) XOR word_of_int x"
  by (simp add: calculate_crc8_bitwise_def crc_div_def Let_def)

lemmas loop_div = gen.loop_fold [folded crc_div_def] j1850.loop_fold [folded crc_div_def]
  mqb.loop_fold [folded crc_div_def]

lemma crc8_0x1d_bitwise: "calculate_crc8_0x1d d i x = Inr (calculate_crc8_bitwise d POLYNOMIAL_0X1D i x)"
  by (simp add: calculate_crc8_0x1d_def loop_div bitwise_div POLYNOMIAL_0X1D_def)

lemma crc8_0x2f_bitwise: "calculate_crc8_0x2f d i x = Inr (calculate_crc8_bitwise d POLYNOMIAL_0X2F i x)"
  by (simp add: calculate_crc8_0x2f_def loop_div bitwise_div POLYNOMIAL_0X2F_def)

text \<open>The memo holds generated tables only; the module starts with an empty one.\<close>

definition cache_ok :: "crc8_cache \<Rightarrow> bool" where
  "cache_ok cache \<longleftrightarrow> dall (\<lambda>poly tbl. tbl = generate_crc8_table poly) cache"

lemma cache_ok_empty [simp]: "cache_ok []"
  by (simp add: cache_ok_def)

lemma table_for_ok:
  assumes "cache_ok cache"
  shows "cache_ok (fst (crc8_table_for cache poly None)) \<and>
    snd (crc8_table_for cache poly None) = generate_crc8_table poly"
  using assms
  by (auto simp: crc8_table_for_def cache_ok_def table_0x1d_generated table_0x2f_generated Let_def
      dall_dset dest: dallD split: option.split)

lemma crc8_bitwise:
  assumes "cache_ok cache"
  shows "cache_ok (fst (calculate_crc8 cache d poly i x None))"
    "snd (calculate_crc8 cache d poly i x None) = Inr (calculate_crc8_bitwise d poly i x)"
proof -
  obtain cache' t where r: "crc8_table_for cache poly None = (cache', t)"
    by (cases "crc8_table_for cache poly None")
  then have ok: "cache_ok cache'" "t = generate_crc8_table poly"
    using table_for_ok [OF assms, of poly] by simp_all
  show "cache_ok (fst (calculate_crc8 cache d poly i x None))"
    by (simp add: calculate_crc8_def r ok)
  show "snd (calculate_crc8 cache d poly i x None) = Inr (calculate_crc8_bitwise d poly i x)"
    by (simp add: calculate_crc8_def r ok loop_div bitwise_div)
qed

section \<open>Detection\<close>

text \<open>With an odd polynomial one turn of the division loses nothing.\<close>

lemma crc8_shift_zero:
  assumes "odd p" "crc8_shift p c = 0"
  shows "c = 0"
proof (rule bit_word_eqI)
  fix n
  assume n: "n < LENGTH(8)"
  have odd_xor: "odd (u XOR v) \<longleftrightarrow> odd u \<noteq> odd v" for u v :: byte
    using bit_xor_iff [of u v 0] by (simp add: bit_0)
  have "odd (crc8_shift p c) = bit c 7"
    using assms(1) by (simp add: crc8_shift_alt odd_xor)
  then have top: "\<not> bit c 7" using assms(2) by simp
  then have "bit (crc8_shift p c) (Suc n) = (Suc n < 8 \<and> bit c n)"
    using n by (simp only: crc8_shift_alt if_False xor.right_neutral bit_push_bit_iff) auto
  then have "\<not> (Suc n < 8 \<and> bit c n)" using assms(2) by simp
  then show "bit c n = bit 0 n" using top n by (cases "n = 7") auto
qed

lemma xor_eq_zero: "(a XOR b = 0) \<longleftrightarrow> a = (b :: byte)"
  by (auto simp: bit_eq_iff bit_xor_iff)

lemma crc8_shift_inj: "odd p \<Longrightarrow> crc8_shift p a = crc8_shift p b \<longleftrightarrow> a = b"
  using crc8_shift_zero [of p "a XOR b"] by (auto simp: crc8_shift_xor xor_eq_zero)

lemma crc8_byte_inj: "odd p \<Longrightarrow> crc8_byte p a = crc8_byte p b \<longleftrightarrow> a = b"
  by (simp add: crc8_byte_unroll crc8_shift_inj)

lemma xor_right_cancel [simp]: "(a XOR c = b XOR c) \<longleftrightarrow> a = (b :: byte)"
  by (metis xor.assoc xor.right_neutral xor_self_eq)

lemma xor_left_cancel [simp]: "(c XOR a = c XOR b) \<longleftrightarrow> a = (b :: byte)"
  by (metis xor_right_cancel xor.commute)

lemma crc_div_inj: "odd p \<Longrightarrow> crc_div p d a = crc_div p d b \<longleftrightarrow> a = b"
  by (induction d arbitrary: a b) (simp_all add: crc8_byte_inj)

lemma crc_div_change:
  assumes "odd p" "i < length d" "b \<noteq> d ! i"
  shows "crc_div p (d[i := b]) c \<noteq> crc_div p d c"
proof -
  define l where "l = crc_div p (take i d) c"
  have "crc_div p d c = crc_div p (drop (Suc i) d) (crc8_byte p (l XOR d ! i))"
    using assms(2) crc_div_simps(3) [of p "take i d" "d ! i # drop (Suc i) d" c]
    by (simp only: id_take_nth_drop [symmetric] l_def crc_div_simps(2))
  moreover have "crc_div p (d[i := b]) c = crc_div p (drop (Suc i) d) (crc8_byte p (l XOR b))"
    using assms(2) by (simp add: upd_conv_take_nth_drop l_def)
  ultimately show ?thesis
    using assms by (simp add: crc_div_inj crc8_byte_inj)
qed

section \<open>Properties\<close>

text \<open>
  C40. The table-driven routines compute the bit-by-bit polynomial division for every message,
  start value and final exclusive-or; so does the routine for arbitrary polynomials, whatever
  valid tables earlier calls have memoised, and it leaves the memo valid.
\<close>

theorem table_crc_is_division:
  assumes "cache_ok cache"
  shows "calculate_crc8_0x1d d i x = Inr (calculate_crc8_bitwise d POLYNOMIAL_0X1D i x) \<and>
    calculate_crc8_0x2f d i x = Inr (calculate_crc8_bitwise d POLYNOMIAL_0X2F i x) \<and>
    calculate_crc8_sae_j1850 d =
      Inr (calculate_crc8_bitwise d POLYNOMIAL_0X1D DEFAULT_CRC_INIT DEFAULT_CRC_XOR) \<and>
    snd (calculate_crc8 cache d poly i x None) = Inr (calculate_crc8_bitwise d poly i x) \<and>
    cache_ok (fst (calculate_crc8 cache d poly i x None))"
  using crc8_bitwise [OF assms]
  by (simp add: crc8_0x1d_bitwise crc8_0x2f_bitwise calculate_crc8_sae_j1850_def
      DEFAULT_CRC_INIT_def DEFAULT_CRC_XOR_def)

theorem table_crc_is_division_witness:
  "snd (calculate_crc8 [(7, generate_crc8_table 7)] [0x31, 0x32] 7 0 0 None) =
     Inr (calculate_crc8_bitwise [0x31, 0x32] 7 0 0)"
proof -
  have "cache_ok [(7, generate_crc8_table 7)]"
    unfolding cache_ok_def dall_def by (simp only: map_of.simps fst_conv snd_conv) auto
  from table_crc_is_division [OF this] show ?thesis by blast
qed

text \<open>
  A checksum computed chunk by chunk, each call of \<open>calculate_crc8_update\<close> fed the previous
  result, is the one-shot checksum of the whole message, for any polynomial and final
  exclusive-or.
\<close>

theorem crc_update_chunks:
  "foldl (\<lambda>r chunk. py_bind r (\<lambda>crc.
       calculate_crc8_update (uint crc) chunk (generate_crc8_table poly) x))
     (Inr (calculate_crc8_bitwise [] poly i x)) chunks
   = Inr (calculate_crc8_bitwise (concat chunks) poly i x)"
proof (induction chunks rule: rev_induct)
  case (snoc chunk chunks)
  then show ?case
    by (simp add: calculate_crc8_update_def loop_div bitwise_div xor.assoc)
qed simp

text \<open>
  With an odd polynomial, as both built-in ones are, every change confined to one byte of a
  message changes its checksum.
\<close>

theorem crc_detects_byte_change:
  assumes "odd poly" "k < length d" "b \<noteq> d ! k"
  shows "calculate_crc8_bitwise (d[k := b]) poly i x \<noteq> calculate_crc8_bitwise d poly i x"
proof -
  have "odd (word_of_int poly :: byte)" using assms(1) by (simp add: even_word_iff bit_0 [symmetric] bit_word_of_int_iff)
  then show ?thesis using crc_div_change [OF _ assms(2,3)] by (simp add: bitwise_div)
qed

theorem crc_detects_byte_change_witness:
  "calculate_crc8_bitwise ([1, 2, 3][1 := 7]) POLYNOMIAL_0X2F 0xFF 0xFF \<noteq>
   calculate_crc8_bitwise [1, 2, 3] POLYNOMIAL_0X2F 0xFF 0xFF"
  by (rule crc_detects_byte_change) (simp_all add: POLYNOMIAL_0X2F_def)

end
