(* ===== verification/E2EProfiles.thy ===== *)
theory E2EProfiles
  imports CanFrame E2ECrc
begin

text \<open>
  \<open>src/safety/e2e/profiles.py\<close>: the protection profiles, the checks of
  \<open>E2EProfileConfig.__post_init__\<close>, the factories, the counter and checksum fields of a payload
  and \<open>compute_checksum\<close>. A bytearray the code mutates is a byte list returned changed; field
  values are Python ints. The module-wide memo of CRC tables is transparent
  (theory \<open>E2ECrc\<close>), so \<open>compute_checksum\<close> starts its CUSTOM branch from an empty one.
\<close>

section \<open>Configuration\<close>

datatype e2e_profile_type =
    AUTOSAR_PROFILE_1 | AUTOSAR_PROFILE_1A | AUTOSAR_PROFILE_1B | AUTOSAR_PROFILE_1C
  | AUTOSAR_PROFILE_2 | SAE_J1850 | TOYOTA | VAG_MQB | VOLVO | CUSTOM

datatype e2e_status =
    OK | REPEATED | SOME_LOST | WRONG_SEQUENCE | CRC_ERROR | INITIAL | LENGTH_ERROR

instantiation e2e_status :: enum
begin

definition enum_e2e_status :: "e2e_status list" where
  "enum_e2e_status =
     [OK, REPEATED, SOME_LOST, WRONG_SEQUENCE, CRC_ERROR, INITIAL, LENGTH_ERROR]"

definition enum_all_e2e_status :: "(e2e_status \<Rightarrow> bool) \<Rightarrow> bool" where
  "enum_all_e2e_status P \<longleftrightarrow> list_all P enum_class.enum"

definition enum_ex_e2e_status :: "(e2e_status \<Rightarrow> bool) \<Rightarrow> bool" where
  "enum_ex_e2e_status P \<longleftrightarrow> list_ex P enum_class.enum"

instance
proof
  show univ: "(UNIV :: e2e_status set) = set enum_class.enum"
    unfolding enum_e2e_status_def by (auto intro: e2e_status.exhaust)
  show "distinct (enum_class.enum :: e2e_status list)"
    unfolding enum_e2e_status_def by simp
  show "enum_class.enum_all P \<longleftrightarrow> Ball UNIV P" for P :: "e2e_status \<Rightarrow> bool"
    by (simp only: enum_all_e2e_status_def univ list_all_iff)
  show "enum_class.enum_ex P \<longleftrightarrow> Bex UNIV P" for P :: "e2e_status \<Rightarrow> bool"
    by (simp only: enum_ex_e2e_status_def univ list_ex_iff)
qed

end

record e2e_config =
  profile_type :: e2e_profile_type
  crc_byte_offset :: int
  counter_byte_offset :: int
  counter_bit_mask :: int
  counter_bit_shift :: int
  counter_modulo :: int
  max_delta_counter :: int
  data_id :: int
  data_id_mode :: string
  data_id_list :: "int list option"
  include_can_id_in_crc :: bool
  include_dlc_in_crc :: bool
  custom_polynomial :: int
  custom_init :: int
  custom_final_xor :: int
  max_payload_len :: int

text \<open>The dataclass defaults.\<close>

definition default_config :: "e2e_profile_type \<Rightarrow> e2e_config" where
  "default_config t =
    \<lparr>profile_type = t, crc_byte_offset = 0, counter_byte_offset = 1, counter_bit_mask = 0x0F,
     counter_bit_shift = 0, counter_modulo = 16, max_delta_counter = 2, data_id = 0,
     data_id_mode = ''1C'', data_id_list = None, include_can_id_in_crc = False,
     include_dlc_in_crc = True, custom_polynomial = POLYNOMIAL_0X1D,
     custom_init = DEFAULT_CRC_INIT, custom_final_xor = DEFAULT_CRC_XOR, max_payload_len = 8\<rparr>"

text \<open>\<open>__post_init__\<close>; \<open>profile_type\<close> being an enum member is its HOL type.\<close>

definition e2e_config_init :: "e2e_config \<Rightarrow> e2e_config py" where
  "e2e_config_init c =
     (if max_payload_len c \<notin> set [8, 12, 16, 20, 24, 32, 48, 64] then Inl ValueError
      else if counter_modulo c \<le> 0 then Inl ValueError
      else if max_delta_counter c \<le> 0 then Inl ValueError
      else if crc_byte_offset c < 0 then Inl ValueError
      else if counter_byte_offset c < 0 then Inl ValueError
      else if max (crc_byte_offset c) (counter_byte_offset c) \<ge> max_payload_len c
        then Inl ValueError
      else if crc_byte_offset c = counter_byte_offset c then Inl ValueError
      else if \<not> (0 \<le> counter_bit_shift c \<and> counter_bit_shift c \<le> 7) then Inl ValueError
      else if \<not> (1 \<le> counter_bit_mask c \<and> counter_bit_mask c \<le> 0xFF) then Inl ValueError
      else if counter_bit_mask c AND push_bit (nat (counter_bit_shift c)) 1 = 0
        then Inl ValueError
      else let shifted_mask = drop_bit (nat (counter_bit_shift c)) (counter_bit_mask c) in
        if shifted_mask AND (shifted_mask + 1) \<noteq> 0 then Inl ValueError
        else let max_representable = shifted_mask + 1 in
          if counter_modulo c > max_representable then Inl ValueError
          else Inr c)"

section \<open>Factories\<close>

text \<open>\<open>str.upper\<close> on the ASCII letters a variant is spelled with.\<close>

definition ascii_upper :: "char \<Rightarrow> char" where
  "ascii_upper ch =
     (let n = of_char ch :: nat in if 97 \<le> n \<and> n \<le> 122 then char_of (n - 32) else ch)"

definition py_upper :: "string \<Rightarrow> string" where
  "py_upper s = map ascii_upper s"

definition create_autosar_profile_1 ::
  "int \<Rightarrow> string \<Rightarrow> int \<Rightarrow> int \<Rightarrow> int \<Rightarrow> int \<Rightarrow> int \<Rightarrow> e2e_config py" where
  "create_autosar_profile_1 did variant counter_off crc_off mask_arg shift_arg delta =
     (let variant_upper = py_upper variant in
      py_bind
        (if variant_upper = ''1A'' then Inr (AUTOSAR_PROFILE_1A, 15)
         else if variant_upper = ''1B'' then Inr (AUTOSAR_PROFILE_1B, 16)
         else if variant_upper = ''1C'' then Inr (AUTOSAR_PROFILE_1C, 16)
         else Inl ValueError)
        (\<lambda>(p_type, counter_mod). e2e_config_init ((default_config p_type)
          \<lparr>crc_byte_offset := crc_off, counter_byte_offset := counter_off,
           counter_bit_mask := mask_arg, counter_bit_shift := shift_arg,
           counter_modulo := counter_mod, max_delta_counter := delta,
           data_id := did AND 0xFFFF, data_id_mode := variant_upper\<rparr>)))"

definition create_autosar_profile_2 ::
  "int list \<Rightarrow> int \<Rightarrow> int \<Rightarrow> int \<Rightarrow> int \<Rightarrow> int \<Rightarrow> e2e_config py" where
  "create_autosar_profile_2 dids counter_off crc_off mask_arg shift_arg delta =
     (if length dids \<noteq> 16 then Inl ValueError
      else e2e_config_init ((default_config AUTOSAR_PROFILE_2)
        \<lparr>crc_byte_offset := crc_off, counter_byte_offset := counter_off,
         counter_bit_mask := mask_arg, counter_bit_shift := shift_arg,
         counter_modulo := 16, max_delta_counter := delta,
         data_id_list := Some (map (\<lambda>d. d AND 0xFF) dids)\<rparr>))"

definition create_sae_j1850 ::
  "int \<Rightarrow> int \<Rightarrow> int \<Rightarrow> int \<Rightarrow> int \<Rightarrow> int \<Rightarrow> e2e_config py" where
  "create_sae_j1850 crc_off counter_off mask_arg shift_arg mod_arg delta =
     e2e_config_init ((default_config SAE_J1850)
       \<lparr>crc_byte_offset := crc_off, counter_byte_offset := counter_off,
        counter_bit_mask := mask_arg, counter_bit_shift := shift_arg,
        counter_modulo := mod_arg, max_delta_counter := delta\<rparr>)"

definition create_toyota ::
  "int \<Rightarrow> int \<Rightarrow> int \<Rightarrow> int \<Rightarrow> int \<Rightarrow> bool \<Rightarrow> bool \<Rightarrow> int \<Rightarrow> e2e_config py" where
  "create_toyota crc_off counter_off mask_arg shift_arg mod_arg can_id_arg dlc_arg delta =
     e2e_config_init ((default_config TOYOTA)
       \<lparr>crc_byte_offset := crc_off, counter_byte_offset := counter_off,
        counter_bit_mask := mask_arg, counter_bit_shift := shift_arg,
        counter_modulo := mod_arg, include_can_id_in_crc := can_id_arg,
        include_dlc_in_crc := dlc_arg, max_delta_counter := delta\<rparr>)"

definition create_vag_mqb ::
  "int \<Rightarrow> int \<Rightarrow> int \<Rightarrow> int \<Rightarrow> int \<Rightarrow> int \<Rightarrow> e2e_config py" where
  "create_vag_mqb did crc_off counter_off mask_arg shift_arg delta =
     e2e_config_init ((default_config VAG_MQB)
       \<lparr>crc_byte_offset := crc_off, counter_byte_offset := counter_off,
        counter_bit_mask := mask_arg, counter_bit_shift := shift_arg,
        counter_modulo := 16, max_delta_counter := delta, data_id := did AND 0xFFFF\<rparr>)"

definition create_volvo ::
  "int \<Rightarrow> int \<Rightarrow> int \<Rightarrow> int \<Rightarrow> int \<Rightarrow> int \<Rightarrow> e2e_config py" where
  "create_volvo crc_off counter_off mask_arg shift_arg mod_arg delta =
     e2e_config_init ((default_config VOLVO)
       \<lparr>crc_byte_offset := crc_off, counter_byte_offset := counter_off,
        counter_bit_mask := mask_arg, counter_bit_shift := shift_arg,
        counter_modulo := mod_arg, max_delta_counter := delta\<rparr>)"

section \<open>Fields of a payload\<close>

definition extract_counter :: "bytes \<Rightarrow> e2e_config \<Rightarrow> int py" where
  "extract_counter d c =
     (if int (length d) \<le> counter_byte_offset c then Inl ValueError
      else py_bind (py_get d (counter_byte_offset c)) (\<lambda>raw_byte.
        Inr (drop_bit (nat (counter_bit_shift c)) (uint raw_byte AND counter_bit_mask c))))"

definition inject_counter :: "bytes \<Rightarrow> int \<Rightarrow> e2e_config \<Rightarrow> bytes py" where
  "inject_counter d counter c =
     (if int (length d) \<le> counter_byte_offset c then Inl ValueError
      else let bounded_counter = counter mod counter_modulo c in
        py_bind (py_get d (counter_byte_offset c)) (\<lambda>current_byte.
          let cleared = uint current_byte AND (NOT (counter_bit_mask c) AND 0xFF);
              shifted = push_bit (nat (counter_bit_shift c)) bounded_counter AND counter_bit_mask c
          in py_bind (byte_of (cleared OR shifted)) (py_set d (counter_byte_offset c))))"

definition extract_crc :: "bytes \<Rightarrow> e2e_config \<Rightarrow> int py" where
  "extract_crc d c =
     (if int (length d) \<le> crc_byte_offset c then Inl ValueError
      else py_bind (py_get d (crc_byte_offset c)) (\<lambda>b. Inr (uint b)))"

definition inject_crc :: "bytes \<Rightarrow> int \<Rightarrow> e2e_config \<Rightarrow> bytes py" where
  "inject_crc d crc c =
     (if int (length d) \<le> crc_byte_offset c then Inl ValueError
      else py_set d (crc_byte_offset c) (word_of_int (crc AND 0xFF)))"

section \<open>The checksum\<close>

definition protected_data :: "int \<Rightarrow> bytes \<Rightarrow> bytes" where
  "protected_data crc_offset d = map (\<lambda>i. d ! i) (filter (\<lambda>i. int i \<noteq> crc_offset) [0..<length d])"

definition as_int :: "byte py \<Rightarrow> int py" where
  "as_int r = py_bind r (\<lambda>crc. Inr (uint crc))"

definition autosar_p1_checksum :: "e2e_config \<Rightarrow> bytes \<Rightarrow> int py" where
  "autosar_p1_checksum c buf =
     (let data_id_low = word_of_int (data_id c AND 0xFF);
          data_id_high = word_of_int (drop_bit 8 (data_id c) AND 0xFF);
          mode = (if data_id_mode c \<noteq> '''' then py_upper (data_id_mode c) else ''1C'') in
      as_int
        (if mode = ''1A'' then calculate_crc8_0x1d (buf @ [data_id_low]) 0xFF 0xFF
         else if mode = ''1B'' then
           py_bind (calculate_crc8_0x1d (data_id_low # buf) 0xFF 0xFF)
             (\<lambda>crc. Inr (crc XOR data_id_high))
         else calculate_crc8_0x1d (data_id_low # data_id_high # buf) 0xFF 0xFF))"

definition autosar_p2_checksum :: "bytes \<Rightarrow> e2e_config \<Rightarrow> bytes \<Rightarrow> int py" where
  "autosar_p2_checksum d c buf =
     (case data_id_list c of
        None \<Rightarrow> Inl ValueError
      | Some ids \<Rightarrow>
          if length ids \<noteq> 16 then Inl ValueError
          else py_bind (extract_counter d c) (\<lambda>counter.
            py_bind (py_get ids (counter mod 16)) (\<lambda>selected.
              as_int (calculate_crc8_0x2f (buf @ [word_of_int (selected AND 0xFF)]) 0xFF 0xFF))))"

definition toyota_checksum :: "e2e_config \<Rightarrow> bytes \<Rightarrow> int \<Rightarrow> int \<Rightarrow> int" where
  "toyota_checksum c buf arbitration_id effective_dlc =
     (sum_list (map uint buf)
       + (if include_can_id_in_crc c
          then (drop_bit 8 arbitration_id AND 0xFF) + (arbitration_id AND 0xFF) else 0)
       + (if include_dlc_in_crc c then effective_dlc AND 0xFF else 0)) AND 0xFF"

definition compute_checksum :: "bytes \<Rightarrow> e2e_config \<Rightarrow> int \<Rightarrow> int option \<Rightarrow> int py" where
  "compute_checksum d c arbitration_id dlc =
     (if length d = 0 then Inl ValueError
      else let buf = protected_data (crc_byte_offset c) d in
        case profile_type c of
          AUTOSAR_PROFILE_1 \<Rightarrow> autosar_p1_checksum c buf
        | AUTOSAR_PROFILE_1A \<Rightarrow> autosar_p1_checksum c buf
        | AUTOSAR_PROFILE_1B \<Rightarrow> autosar_p1_checksum c buf
        | AUTOSAR_PROFILE_1C \<Rightarrow> autosar_p1_checksum c buf
        | AUTOSAR_PROFILE_2 \<Rightarrow> autosar_p2_checksum d c buf
        | SAE_J1850 \<Rightarrow> as_int (calculate_crc8_sae_j1850 buf)
        | TOYOTA \<Rightarrow> Inr (toyota_checksum c buf arbitration_id
            (case dlc of Some n \<Rightarrow> n | None \<Rightarrow> int (length d)))
        | VAG_MQB \<Rightarrow> py_bind (to_le 2 (data_id c)) (\<lambda>data_id_bytes.
            as_int (calculate_crc8_0x2f (buf @ data_id_bytes) 0xFF 0xFF))
        | VOLVO \<Rightarrow> Inr (NOT (sum_list (map uint buf) AND 0xFF) AND 0xFF)
        | CUSTOM \<Rightarrow> as_int (snd (calculate_crc8 [] buf (custom_polynomial c) (custom_init c)
            (custom_final_xor c) None)))"

section \<open>Accepted configurations\<close>

text \<open>What \<open>__post_init__\<close> guarantees: offsets inside the payload and apart, and a counter field
  of \<open>k\<close> adjacent bits, from the shift up, that holds every counter below the modulus. Bits of
  the mask below the shift are not excluded.\<close>

definition config_wf :: "e2e_config \<Rightarrow> bool" where
  "config_wf c \<longleftrightarrow>
     max_payload_len c \<in> {8, 12, 16, 20, 24, 32, 48, 64} \<and>
     0 < counter_modulo c \<and> 0 < max_delta_counter c \<and>
     0 \<le> crc_byte_offset c \<and> crc_byte_offset c < max_payload_len c \<and>
     0 \<le> counter_byte_offset c \<and> counter_byte_offset c < max_payload_len c \<and>
     crc_byte_offset c \<noteq> counter_byte_offset c \<and>
     0 \<le> counter_bit_shift c \<and> counter_bit_shift c \<le> 7 \<and>
     0 < counter_bit_mask c \<and> counter_bit_mask c < 256 \<and>
     (\<exists>k. 0 < k \<and> drop_bit (nat (counter_bit_shift c)) (counter_bit_mask c) = 2 ^ k - 1 \<and>
       counter_modulo c \<le> 2 ^ k)"

definition contiguous_check :: "int \<Rightarrow> bool" where
  "contiguous_check m \<longleftrightarrow> (m AND (m + 1) = 0) = (m \<in> set [0, 1, 3, 7, 15, 31, 63, 127, 255])"

lemma contiguous_mask:
  fixes m :: int
  assumes "0 \<le> m" "m < 256"
  shows "m AND (m + 1) = 0 \<longleftrightarrow> (\<exists>k. m = 2 ^ k - 1)"
proof -
  have "list_all contiguous_check [0..255]" by code_simp
  from upto_all [OF this, of m] have chk: "contiguous_check m" using assms by simp
  have "k \<in> set [0..<9]" if "m = 2 ^ k - 1" for k :: nat
  proof -
    have "(2 :: int) ^ k < 2 ^ 9" using that assms by simp
    then have "k < 9" by (rule power_less_imp_less_exp [rotated]) simp
    then show ?thesis by simp
  qed
  then have "(\<exists>k. m = 2 ^ k - 1) \<longleftrightarrow> m \<in> set (map (\<lambda>k. 2 ^ k - 1) [0..<9])"
    unfolding set_map by blast
  also have "map (\<lambda>k. 2 ^ k - 1 :: int) [0..<9] = [0, 1, 3, 7, 15, 31, 63, 127, 255]"
    by code_simp
  finally show ?thesis using chk by (simp only: contiguous_check_def)
qed

lemma mask_and_bit: "mask_arg AND push_bit n 1 = 0 \<longleftrightarrow> even (drop_bit n (mask_arg :: int))"
  using and_exp_eq_0_iff_not_bit [of mask_arg n] by (simp add: bit_iff_odd_drop_bit)

lemma py_guard_Inr: "(if b then Inl e else r) = Inr x \<longleftrightarrow> \<not> b \<and> r = Inr x"
  by simp

lemma drop_bit_le: "0 \<le> x \<Longrightarrow> drop_bit n x \<le> (x :: int)"
  using zdiv_mono2 [of x 1 "2 ^ n"] by (simp add: drop_bit_eq_div)

lemma config_init_Inr: "e2e_config_init c = Inr g \<longleftrightarrow> g = c \<and> config_wf c"
proof -
  define sm where "sm = drop_bit (nat (counter_bit_shift c)) (counter_bit_mask c)"
  have range: "0 \<le> sm \<and> sm < 256" if "0 < counter_bit_mask c" "counter_bit_mask c < 256"
    using that drop_bit_le [of "counter_bit_mask c"] unfolding sm_def
    by (meson drop_bit_nonnegative_int_iff le_less_trans less_imp_le)
  have field: "odd sm \<and> sm AND (sm + 1) = 0 \<and> counter_modulo c \<le> sm + 1 \<longleftrightarrow>
      (\<exists>k. 0 < k \<and> sm = 2 ^ k - 1 \<and> counter_modulo c \<le> 2 ^ k)" if "0 \<le> sm" "sm < 256"
    using contiguous_mask [OF that] by (auto intro: gr0I)
  have init: "e2e_config_init c = Inr g \<longleftrightarrow> g = c \<and>
      max_payload_len c \<in> {8, 12, 16, 20, 24, 32, 48, 64} \<and>
      0 < counter_modulo c \<and> 0 < max_delta_counter c \<and>
      0 \<le> crc_byte_offset c \<and> crc_byte_offset c < max_payload_len c \<and>
      0 \<le> counter_byte_offset c \<and> counter_byte_offset c < max_payload_len c \<and>
      crc_byte_offset c \<noteq> counter_byte_offset c \<and>
      0 \<le> counter_bit_shift c \<and> counter_bit_shift c \<le> 7 \<and>
      0 < counter_bit_mask c \<and> counter_bit_mask c < 256 \<and>
      odd sm \<and> sm AND (sm + 1) = 0 \<and> counter_modulo c \<le> sm + 1"
    unfolding e2e_config_init_def mask_and_bit Let_def sm_def [symmetric]
    by (simp only: py_guard_Inr) (auto simp: not_le not_less)
  show ?thesis
    unfolding init config_wf_def sm_def [symmetric] using field range by blast
qed

lemma config_init_ok [simp]: "config_wf c \<Longrightarrow> e2e_config_init c = Inr c"
  by (simp add: config_init_Inr)

lemma config_wfE:
  assumes "config_wf c"
  obtains k a q s where "0 < k" "drop_bit s (counter_bit_mask c) = 2 ^ k - 1"
    "counter_modulo c \<le> 2 ^ k" "0 < counter_modulo c" "0 < max_delta_counter c"
    "crc_byte_offset c = int q" "counter_byte_offset c = int a" "q \<noteq> a" "a < 64" "q < 64"
    "counter_bit_shift c = int s" "0 < counter_bit_mask c" "counter_bit_mask c < 256"
proof -
  from assms obtain k where "0 < k" "counter_modulo c \<le> 2 ^ k"
    "drop_bit (nat (counter_bit_shift c)) (counter_bit_mask c) = 2 ^ k - 1"
    by (auto simp: config_wf_def)
  then show thesis
    using assms
    by (intro that [of k "nat (counter_bit_shift c)" "nat (crc_byte_offset c)"
          "nat (counter_byte_offset c)"]) (auto simp: config_wf_def)
qed

section \<open>The counter and checksum fields\<close>

text \<open>The byte \<open>inject_counter\<close> writes: the counter's bits over the old byte.\<close>

definition counter_byte :: "e2e_config \<Rightarrow> byte \<Rightarrow> int \<Rightarrow> byte" where
  "counter_byte c old n = word_of_int
     ((uint old AND (NOT (counter_bit_mask c) AND 0xFF)) OR
      (push_bit (nat (counter_bit_shift c)) (n mod counter_modulo c) AND counter_bit_mask c))"

lemma and_nonneg_le: "0 \<le> (m :: int) \<Longrightarrow> 0 \<le> x AND m \<and> x AND m \<le> m"
  by (simp add: AND_upper2)

lemma or_byte_bound: "0 \<le> x \<Longrightarrow> x < 256 \<Longrightarrow> 0 \<le> y \<Longrightarrow> y < 256 \<Longrightarrow> 0 \<le> x OR y \<and> x OR (y :: int) < 256"
  using OR_upper [of x 8 y] by simp

lemma counter_bits:
  assumes "config_wf c"
  shows "0 \<le> uint old AND (NOT (counter_bit_mask c) AND 0xFF) \<and>
      uint old AND (NOT (counter_bit_mask c) AND 0xFF) < 256"
    "0 \<le> push_bit s n AND counter_bit_mask c \<and> push_bit s n AND counter_bit_mask c < 256"
proof -
  have m: "0 \<le> counter_bit_mask c" "counter_bit_mask c < 256"
    using assms by (simp_all add: config_wf_def)
  have "0 \<le> NOT (counter_bit_mask c) AND 0xFF \<and> NOT (counter_bit_mask c) AND 0xFF \<le> 0xFF"
    by (rule and_nonneg_le) simp
  then show "0 \<le> uint old AND (NOT (counter_bit_mask c) AND 0xFF) \<and>
      uint old AND (NOT (counter_bit_mask c) AND 0xFF) < 256"
    using and_nonneg_le [of "NOT (counter_bit_mask c) AND 0xFF" "uint old"] by linarith
  show "0 \<le> push_bit s n AND counter_bit_mask c \<and> push_bit s n AND counter_bit_mask c < 256"
    using and_nonneg_le [of "counter_bit_mask c" "push_bit s n"] m by linarith
qed

lemma uint_counter_byte:
  assumes "config_wf c"
  shows "uint (counter_byte c old n) =
     (uint old AND (NOT (counter_bit_mask c) AND 0xFF)) OR
      (push_bit (nat (counter_bit_shift c)) (n mod counter_modulo c) AND counter_bit_mask c)"
  unfolding counter_byte_def
  using counter_bits [OF assms] or_byte_bound by (intro uint_of_int_byte) blast+

lemma inject_counter_eq:
  assumes "config_wf c" "nat (counter_byte_offset c) < length d"
  shows "inject_counter d n c =
    Inr (d[nat (counter_byte_offset c) := counter_byte c (d ! nat (counter_byte_offset c)) n])"
proof -
  have off: "0 \<le> counter_byte_offset c" "counter_byte_offset c < int (length d)"
    using assms by (auto simp: config_wf_def)
  have "byte_of ((uint old AND (NOT (counter_bit_mask c) AND 0xFF)) OR
      (push_bit (nat (counter_bit_shift c)) (n mod counter_modulo c) AND counter_bit_mask c)) =
      Inr (counter_byte c old n)" for old
    unfolding counter_byte_def
    using counter_bits [OF assms(1)] or_byte_bound by (intro byte_of_ok) blast+
  then show ?thesis using off by (simp add: inject_counter_def Let_def)
qed

lemma counter_byte_field:
  assumes "config_wf c"
  shows "drop_bit (nat (counter_bit_shift c)) (uint (counter_byte c old n) AND counter_bit_mask c)
    = n mod counter_modulo c"
proof -
  define s where "s = nat (counter_bit_shift c)"
  define m where "m = counter_bit_mask c"
  obtain k where k: "drop_bit s m = 2 ^ k - 1" "counter_modulo c \<le> 2 ^ k" "0 < counter_modulo c"
    using assms unfolding s_def m_def config_wf_def by blast
  have "(uint old AND (NOT m AND 0xFF)) AND m = 0"
    by (auto simp: bit_eq_iff bit_and_iff bit_not_iff simp del: and_masks)
  then have "uint (counter_byte c old n) AND m = push_bit s (n mod counter_modulo c) AND m"
    unfolding uint_counter_byte [OF assms] s_def [symmetric] m_def [symmetric]
    by (simp add: bit.conj_disj_distrib2 and.assoc)
  then have "drop_bit s (uint (counter_byte c old n) AND m) =
      n mod counter_modulo c AND (2 ^ k - 1)"
    by (simp add: k(1) push_bit_eq_mult [of s] drop_bit_eq_div [of s "_ * 2 ^ s"])
  also have "\<dots> = n mod counter_modulo c"
    using k pos_mod_bound [of "counter_modulo c" n] pos_mod_sign [of "counter_modulo c" n]
    unfolding and_mask_mod by (intro mod_pos_pos_trivial) linarith+
  finally show ?thesis unfolding s_def m_def .
qed

lemma extract_counter_eq:
  assumes "config_wf c" "nat (counter_byte_offset c) < length d"
  shows "extract_counter d c = Inr (drop_bit (nat (counter_bit_shift c))
    (uint (d ! nat (counter_byte_offset c)) AND counter_bit_mask c))"
  using assms by (auto simp: extract_counter_def config_wf_def)

lemma extract_crc_eq:
  assumes "config_wf c" "nat (crc_byte_offset c) < length d"
  shows "extract_crc d c = Inr (uint (d ! nat (crc_byte_offset c)))"
  using assms by (auto simp: extract_crc_def config_wf_def)

lemma inject_crc_eq:
  assumes "config_wf c" "nat (crc_byte_offset c) < length d"
  shows "inject_crc d crc c = Inr (d[nat (crc_byte_offset c) := word_of_int (crc AND 0xFF)])"
  using assms by (auto simp: inject_crc_def config_wf_def)

lemma counter_range:
  assumes "config_wf c" "extract_counter d c = Inr n"
  shows "0 \<le> n" "n < 256"
proof -
  have "0 \<le> uint b AND counter_bit_mask c \<and> uint b AND counter_bit_mask c < 256" for b :: byte
    using assms(1) and_nonneg_le [of "counter_bit_mask c" "uint b"]
    by (simp add: config_wf_def)
  moreover obtain b :: byte where
    "n = drop_bit (nat (counter_bit_shift c)) (uint b AND counter_bit_mask c)"
    using assms(2) by (auto simp: extract_counter_def py_bind_Inr_iff simp del: drop_bit_and split: if_splits)
  ultimately show "0 \<le> n" "n < 256"
    using drop_bit_le le_less_trans by (metis drop_bit_nonnegative_int_iff)+
qed

section \<open>The protected bytes\<close>

lemma protected_split:
  "protected_data (int q) d = take q d @ drop (Suc q) d"
proof (cases "q < length d")
  case True
  have "[0..<length d] = [0..<q] @ [q..<length d]"
    using True upt_add_eq_append [of 0 q "length d - q"] by simp
  then have "[0..<length d] = [0..<q] @ q # [Suc q..<length d]"
    using True by (simp add: upt_conv_Cons)
  then have "filter (\<lambda>i. int i \<noteq> int q) [0..<length d] = [0..<q] @ [Suc q..<length d]"
    by (simp add: filter_id_conv)
  moreover have "map ((!) d) ([0..<q] @ [Suc q..<length d]) = take q d @ drop (Suc q) d"
    using True by (intro nth_equalityI) (auto simp: nth_append)
  ultimately show ?thesis by (simp add: protected_data_def)
next
  case False
  then have "filter (\<lambda>i. int i \<noteq> int q) [0..<length d] = [0..<length d]"
    by (auto simp: filter_id_conv)
  then show ?thesis using False by (simp add: protected_data_def map_nth)
qed

lemma protected_crc_slot: "protected_data (int q) (d[q := x]) = protected_data (int q) d"
  by (simp add: protected_split)

lemma protected_change:
  assumes "k < length d" "k \<noteq> q"
  obtains j where "j < length (protected_data (int q) d)" "protected_data (int q) d ! j = d ! k"
    "\<And>b. protected_data (int q) (d[k := b]) = (protected_data (int q) d)[j := b]"
proof (cases "k < q")
  case True
  then show ?thesis
    using assms(1) by (intro that [of k])
      (auto simp: protected_split nth_append take_update_swap list_update_append min_def)
next
  case False
  then show ?thesis
    using assms by (intro that [of "k - 1"])
      (auto simp: protected_split nth_append drop_update_swap list_update_append min_def not_less
        dest: le_less_trans)
qed

section \<open>When a checksum is defined\<close>

definition checksum_ready :: "e2e_config \<Rightarrow> bool" where
  "checksum_ready c \<longleftrightarrow>
     (profile_type c = AUTOSAR_PROFILE_2 \<longrightarrow>
       (case data_id_list c of None \<Rightarrow> False | Some ids \<Rightarrow> length ids = 16)) \<and>
     (profile_type c = VAG_MQB \<longrightarrow> 0 \<le> data_id c \<and> data_id c < 65536)"

definition covers :: "bytes \<Rightarrow> e2e_config \<Rightarrow> bool" where
  "covers d c \<longleftrightarrow>
     crc_byte_offset c < int (length d) \<and> counter_byte_offset c < int (length d)"

lemma crc8_checksum_Inr [simp]:
  "as_int (calculate_crc8_0x1d d i x) = Inr (uint (calculate_crc8_bitwise d POLYNOMIAL_0X1D i x))"
  "as_int (calculate_crc8_0x2f d i x) = Inr (uint (calculate_crc8_bitwise d POLYNOMIAL_0X2F i x))"
  "as_int (calculate_crc8_sae_j1850 d) =
     Inr (uint (calculate_crc8_bitwise d POLYNOMIAL_0X1D DEFAULT_CRC_INIT DEFAULT_CRC_XOR))"
  "as_int (snd (calculate_crc8 [] d poly i x None)) = Inr (uint (calculate_crc8_bitwise d poly i x))"
  by (simp_all add: as_int_def crc8_0x1d_bitwise crc8_0x2f_bitwise crc8_bitwise
      calculate_crc8_sae_j1850_def DEFAULT_CRC_INIT_def DEFAULT_CRC_XOR_def)

text \<open>Profile 1, as a division of the protected bytes between constant ones.\<close>

lemma autosar_p1_form:
  "\<exists>pre post y. \<forall>buf. autosar_p1_checksum c buf =
     Inr (uint (calculate_crc8_bitwise (pre @ buf @ post) POLYNOMIAL_0X1D 0xFF 0xFF XOR y))"
proof -
  define lo :: byte where "lo = word_of_int (data_id c AND 0xFF)"
  define hi :: byte where "hi = word_of_int (drop_bit 8 (data_id c) AND 0xFF)"
  define mode where "mode = (if data_id_mode c \<noteq> '''' then py_upper (data_id_mode c) else ''1C'')"
  note unfold = autosar_p1_checksum_def Let_def lo_def [symmetric] hi_def [symmetric] mode_def [symmetric]
  consider "mode = ''1A''" | "mode = ''1B''" | "mode \<noteq> ''1A''" "mode \<noteq> ''1B''" by blast
  then show ?thesis
  proof cases
    case 1
    show ?thesis
      unfolding unfold by (rule exI [of _ "[]"], rule exI [of _ "[lo]"], rule exI [of _ 0]) (simp add: 1)
  next
    case 2
    show ?thesis
      unfolding unfold by (rule exI [of _ "[lo]"], rule exI [of _ "[]"], rule exI [of _ hi])
        (simp add: 2 crc8_0x1d_bitwise as_int_def)
  next
    case 3
    show ?thesis
      unfolding unfold by (rule exI [of _ "[lo, hi]"], rule exI [of _ "[]"], rule exI [of _ 0]) (simp add: 3)
  qed
qed

lemma autosar_p1_Inr: "\<exists>x. autosar_p1_checksum c buf = Inr x \<and> 0 \<le> x \<and> x < 256"
  using autosar_p1_form [of c] by (metis uint_byte_bounds(1,2))

lemma to_le_2_ok [simp]: "0 \<le> x \<Longrightarrow> x < 65536 \<Longrightarrow> to_le 2 x = Inr (le_bytes 2 x)"
  by (simp add: to_le_def)

lemma autosar_p2_Inr:
  assumes "data_id_list c = Some ids" "length ids = 16" "extract_counter d c = Inr n"
  shows "autosar_p2_checksum d c buf = Inr (uint (calculate_crc8_bitwise
    (buf @ [word_of_int (ids ! nat (n mod 16) AND 0xFF)]) POLYNOMIAL_0X2F 0xFF 0xFF))"
proof -
  have "0 \<le> n mod 16" "n mod 16 < int (length ids)" using assms(2) by simp_all
  then show ?thesis using assms by (simp add: autosar_p2_checksum_def del: and_masks)
qed

lemma checksum_total:
  assumes "config_wf c" "checksum_ready c" "covers d c"
  shows "\<exists>x. compute_checksum d c a dlc = Inr x \<and> 0 \<le> x \<and> x < 256"
proof -
  have ne: "d \<noteq> []" using assms by (auto simp: covers_def config_wf_def)
  have "\<exists>n. extract_counter d c = Inr n"
    using assms by (auto simp: covers_def config_wf_def extract_counter_def)
  then show ?thesis
    using ne assms(2) autosar_p1_Inr
    by (cases "profile_type c")
      (auto simp: compute_checksum_def Let_def checksum_ready_def autosar_p2_Inr toyota_checksum_def
        simp del: le_bytes_numeral_2 split: option.splits)
qed

lemma checksum_Inr_ready: "compute_checksum d c a dlc = Inr x \<Longrightarrow> checksum_ready c"
  by (auto simp: compute_checksum_def Let_def checksum_ready_def autosar_p2_checksum_def to_le_def
      split: if_splits option.splits)

text \<open>The checksum does not read the byte it is stored in.\<close>

lemma checksum_ignores_slot:
  assumes "config_wf c"
  shows "compute_checksum (d[nat (crc_byte_offset c) := x]) c a dlc = compute_checksum d c a dlc"
proof -
  obtain q a' where q: "crc_byte_offset c = int q" "counter_byte_offset c = int a'" "q \<noteq> a'"
    using config_wfE [OF assms] by metis
  have counter: "extract_counter (d[q := x]) c = extract_counter d c"
    using q by (simp add: extract_counter_def)
  have p2: "autosar_p2_checksum (d[q := x]) c = autosar_p2_checksum d c"
    unfolding autosar_p2_checksum_def counter by (rule refl)
  show ?thesis
    by (simp only: compute_checksum_def q(1) nat_int protected_crc_slot p2 length_list_update)
qed

section \<open>Changes of one byte\<close>

lemma sum_change:
  assumes "j < length p" "b \<noteq> p ! j"
  shows "sum_list (map uint (p[j := b])) mod 256 \<noteq> sum_list (map uint (p :: bytes)) mod 256"
proof -
  have "sum_list (map uint (p[j := b])) = sum_list (map uint p) + (uint b - uint (p ! j))"
    using assms(1) upd_conv_take_nth_drop [OF assms(1), of b]
      arg_cong [OF id_take_nth_drop [OF assms(1)], of "\<lambda>p. sum_list (map uint p)"]
    by simp
  moreover have "(uint b - uint (p ! j)) mod 256 \<noteq> 0"
  proof
    assume "(uint b - uint (p ! j)) mod 256 = 0"
    then obtain z where "uint b - uint (p ! j) = 256 * z" by (auto elim: dvdE)
    moreover have "uint b - uint (p ! j) < 256" "- 256 < uint b - uint (p ! j)"
      using uint_byte_bounds(1,2) [of b] uint_byte_bounds(1,2) [of "p ! j"] by linarith+
    ultimately have "uint b = uint (p ! j)" by simp
    then show False using assms(2) by (simp add: word_uint_eq_iff)
  qed
  ultimately show ?thesis
    by (simp only: mod_eq_dvd_iff add_diff_cancel_left' dvd_eq_mod_eq_0 not_False_eq_True)
qed

lemma mod_sum_change: "(x :: int) mod 256 \<noteq> y mod 256 \<Longrightarrow> (x + z) mod 256 \<noteq> (y + z) mod 256"
  by (metis add_diff_cancel_right' mod_diff_left_eq)

lemma crc_buffer_change:
  assumes "odd poly" "j < length p" "b \<noteq> p ! j"
  shows "calculate_crc8_bitwise (pre @ p[j := b] @ post) poly i x \<noteq>
    calculate_crc8_bitwise (pre @ p @ post) poly i x"
proof -
  define k where "k = length pre + j"
  have "pre @ p[j := b] @ post = (pre @ p @ post)[k := b]"
    using assms(2) by (simp add: k_def list_update_append)
  moreover have "(pre @ p @ post) ! k = p ! j" "k < length (pre @ p @ post)"
    using assms(2) by (simp_all add: k_def nth_append)
  moreover have "odd (word_of_int poly :: byte)"
    using assms(1) by (simp add: even_word_iff bit_0 [symmetric] bit_word_of_int_iff)
  ultimately show ?thesis
    using crc_div_change [of "word_of_int poly" k "pre @ p @ post" b] assms(3) by (simp add: bitwise_div)
qed

lemmas crc_prefix_change = crc_buffer_change [where pre = "[]", simplified]

text \<open>The profiles that expose every change of one protected byte: all but a CUSTOM polynomial
  without its constant term, and in profile 2 the counter byte, which also selects the data ID.\<close>

definition exposes_byte :: "e2e_config \<Rightarrow> nat \<Rightarrow> bool" where
  "exposes_byte c k \<longleftrightarrow>
     (profile_type c = AUTOSAR_PROFILE_2 \<longrightarrow> int k \<noteq> counter_byte_offset c) \<and>
     (profile_type c = CUSTOM \<longrightarrow> odd (custom_polynomial c))"

lemma complement_byte: "NOT (s AND 0xFF) AND 0xFF = 255 - s mod (256 :: int)"
  by (simp add: not_int_def) (smt (verit) mod_pos_pos_trivial mod_add_self2 pos_mod_bound pos_mod_sign)

lemma checksum_change:
  assumes wf: "config_wf c" and k: "k < length d" "int k \<noteq> crc_byte_offset c" "b \<noteq> d ! k"
    and ex: "exposes_byte c k"
    and old: "compute_checksum d c a dlc = Inr x"
    and new: "compute_checksum (d[k := b]) c a dlc = Inr y"
  shows "x \<noteq> y"
proof -
  obtain q where q: "crc_byte_offset c = int q" using config_wfE [OF wf] by metis
  define p where "p = protected_data (int q) d"
  obtain j where j: "j < length p" "p ! j = d ! k" "protected_data (int q) (d[k := b]) = p[j := b]"
    using protected_change [of k d q] k(1,2) q unfolding p_def by (metis of_nat_eq_iff)
  have ne: "d \<noteq> []" using k(1) by auto
  have jb: "b \<noteq> p ! j" using j(2) k(3) by simp
  have odd_polys: "odd POLYNOMIAL_0X1D" "odd POLYNOMIAL_0X2F"
    by (simp_all add: POLYNOMIAL_0X1D_def POLYNOMIAL_0X2F_def)
  note old' = old [unfolded compute_checksum_def q Let_def p_def [symmetric]]
  note new' = new [unfolded compute_checksum_def q Let_def j(3) length_list_update]
  have p1: "x \<noteq> y" if "autosar_p1_checksum c p = Inr x" "autosar_p1_checksum c (p[j := b]) = Inr y"
  proof -
    obtain pre post z where form: "\<And>buf. autosar_p1_checksum c buf =
        Inr (uint (calculate_crc8_bitwise (pre @ buf @ post) POLYNOMIAL_0X1D 0xFF 0xFF XOR z))"
      using autosar_p1_form [of c] by blast
    show ?thesis
      using that crc_buffer_change [OF odd_polys(1) j(1) jb, of pre post 255 255]
      by (auto simp: form word_uint_eq_iff [symmetric])
  qed
  have p2: "x \<noteq> y" if "profile_type c = AUTOSAR_PROFILE_2" "autosar_p2_checksum d c p = Inr x"
    "autosar_p2_checksum (d[k := b]) c (p[j := b]) = Inr y"
  proof -
    have "int k \<noteq> counter_byte_offset c" using ex that(1) by (simp add: exposes_byte_def)
    then have "extract_counter (d[k := b]) c = extract_counter d c"
      using wf by (cases "int (length d) \<le> counter_byte_offset c")
        (auto simp: extract_counter_def config_wf_def nth_list_update)
    then show ?thesis
      using that crc_prefix_change [OF odd_polys(2) j(1) jb, THEN not_sym]
      by (auto simp: autosar_p2_checksum_def py_bind_Inr_iff word_uint_eq_iff [symmetric]
          split: option.splits if_splits)
  qed
  have crc: "calculate_crc8_bitwise (p @ post) poly i z \<noteq> calculate_crc8_bitwise (p[j := b] @ post) poly i z"
    if "odd poly" for poly post i z
    using crc_prefix_change [OF that j(1) jb] by (rule not_sym)
  have sum: "sum_list (map uint p) mod 256 \<noteq> sum_list (map uint (p[j := b])) mod 256"
    using sum_change [OF j(1) jb] by (rule not_sym)
  show ?thesis
  proof (cases "profile_type c")
    case SAE_J1850
    then show ?thesis
      using old' new' ne crc [OF odd_polys(1), of "[]"] by (auto simp: word_uint_eq_iff [symmetric])
  next
    case TOYOTA
    then show ?thesis
      using old' new' ne mod_sum_change [OF sum] by (auto simp: toyota_checksum_def add.assoc)
  next
    case VAG_MQB
    then show ?thesis
      using old' new' ne crc [OF odd_polys(2)]
      by (auto simp: py_bind_Inr_iff word_uint_eq_iff [symmetric])
  next
    case VOLVO
    then show ?thesis
      using old' new' ne sum by (auto simp only: complement_byte sum.inject
          e2e_profile_type.case length_0_conv list_update_nonempty if_False)
  next
    case CUSTOM
    then show ?thesis
      using old' new' ne ex crc [of "custom_polynomial c" "[]"]
      by (auto simp: exposes_byte_def word_uint_eq_iff [symmetric])
  qed (use old' new' ne p1 p2 in simp_all)
qed

section \<open>Properties\<close>

text \<open>The configuration of the concrete examples: profile 2 with sixteen data IDs.\<close>

definition p2_demo :: e2e_config where
  "p2_demo = (default_config AUTOSAR_PROFILE_2)\<lparr>data_id_list := Some [0..15]\<rparr>"

lemma p2_demo_ok: "e2e_config_init p2_demo = Inr p2_demo"
  by code_simp

text \<open>
  Under an accepted configuration \<open>inject_counter\<close> and \<open>extract_counter\<close> are inverse up to the
  modulus: the counter read back is the one written, reduced; the length, every other byte and
  every bit of the counter byte outside the mask are kept.
\<close>

theorem counter_field_roundtrip:
  assumes "e2e_config_init c = Inr c" "covers d c"
  shows "\<exists>d'. inject_counter d n c = Inr d' \<and>
    extract_counter d' c = Inr (n mod counter_modulo c) \<and> length d' = length d \<and>
    (\<forall>i. int i \<noteq> counter_byte_offset c \<longrightarrow> d' ! i = d ! i) \<and>
    uint (d' ! nat (counter_byte_offset c)) AND NOT (counter_bit_mask c) =
      uint (d ! nat (counter_byte_offset c)) AND NOT (counter_bit_mask c)"
proof -
  have wf: "config_wf c" using assms(1) by (simp add: config_init_Inr)
  define i where "i = nat (counter_byte_offset c)"
  have i: "i < length d" "counter_byte_offset c = int i"
    using wf assms(2) by (auto simp: covers_def config_wf_def i_def)
  define d' where "d' = d[i := counter_byte c (d ! i) n]"
  have bits: "uint (counter_byte c x n) AND NOT (counter_bit_mask c) = uint x AND NOT (counter_bit_mask c)" for x
  proof -
    have "uint x AND 0xFF = uint x" using uint_byte_bounds by simp
    then have "(uint x AND (NOT m AND 0xFF)) AND NOT m = uint x AND NOT m" for m :: int
      by (metis and.assoc and.commute and.idem)
    moreover have "(y AND m) AND NOT m = 0" for y m :: int
      by (simp add: and.assoc)
    ultimately show ?thesis
      unfolding uint_counter_byte [OF wf] bit.conj_disj_distrib2 by simp
  qed
  have "inject_counter d n c = Inr d'"
    using inject_counter_eq [OF wf, of d n] i by (simp add: d'_def)
  moreover have "extract_counter d' c = Inr (n mod counter_modulo c)"
    using extract_counter_eq [OF wf, of d'] counter_byte_field [OF wf] i by (simp add: d'_def)
  ultimately show ?thesis
    using i bits by (intro exI [of _ d']) (auto simp: d'_def)
qed

theorem counter_field_roundtrip_witness:
  "\<exists>d'. inject_counter [1, 0xA5, 3] 21 p2_demo = Inr d' \<and>
    extract_counter d' p2_demo = Inr (21 mod counter_modulo p2_demo) \<and> length d' = length [1, 0xA5, 3 :: byte] \<and>
    (\<forall>i. int i \<noteq> counter_byte_offset p2_demo \<longrightarrow> d' ! i = [1, 0xA5, 3] ! i) \<and>
    uint (d' ! nat (counter_byte_offset p2_demo)) AND NOT (counter_bit_mask p2_demo) =
      uint ([1, 0xA5, 3 :: byte] ! nat (counter_byte_offset p2_demo)) AND NOT (counter_bit_mask p2_demo)"
  by (rule counter_field_roundtrip [OF p2_demo_ok]) (simp add: covers_def p2_demo_def default_config_def)

text \<open>
  For a payload that covers the offsets of an accepted configuration, a checksum exists
  exactly when profile 2 has its sixteen data IDs and a VAG data ID fits two bytes; it is then a
  byte. The configuration checks do not establish this, the factories do.
\<close>

theorem checksum_defined_iff:
  assumes "e2e_config_init c = Inr c" "covers d c"
  shows "(\<exists>x. compute_checksum d c a dlc = Inr x \<and> 0 \<le> x \<and> x < 256) \<longleftrightarrow> checksum_ready c"
proof -
  have wf: "config_wf c" using assms(1) by (simp add: config_init_Inr)
  show ?thesis using checksum_total [OF wf _ assms(2)] checksum_Inr_ready by blast
qed

theorem checksum_defined_iff_witness:
  "(\<exists>x. compute_checksum [1, 2] (p2_demo\<lparr>data_id_list := None\<rparr>) 0 None = Inr x \<and> 0 \<le> x \<and> x < 256)
   \<longleftrightarrow> checksum_ready (p2_demo\<lparr>data_id_list := None\<rparr>)"
proof (rule checksum_defined_iff)
  show "e2e_config_init (p2_demo\<lparr>data_id_list := None\<rparr>) = Inr (p2_demo\<lparr>data_id_list := None\<rparr>)"
    by code_simp
qed (simp add: covers_def p2_demo_def default_config_def)

text \<open>A configuration some factory built.\<close>

definition factory_config :: "e2e_config \<Rightarrow> bool" where
  "factory_config c \<longleftrightarrow>
     (\<exists>did v co cr m s dl. create_autosar_profile_1 did v co cr m s dl = Inr c) \<or>
     (\<exists>dids co cr m s dl. create_autosar_profile_2 dids co cr m s dl = Inr c) \<or>
     (\<exists>cr co m s md dl. create_sae_j1850 cr co m s md dl = Inr c) \<or>
     (\<exists>cr co m s md i l dl. create_toyota cr co m s md i l dl = Inr c) \<or>
     (\<exists>did cr co m s dl. create_vag_mqb did cr co m s dl = Inr c) \<or>
     (\<exists>cr co m s md dl. create_volvo cr co m s md dl = Inr c)"

lemma factory_ready: "factory_config c \<Longrightarrow> config_wf c \<and> checksum_ready c"
  unfolding factory_config_def
  by (elim disjE exE)
    (auto simp: create_autosar_profile_1_def create_autosar_profile_2_def create_sae_j1850_def
      create_toyota_def create_vag_mqb_def create_volvo_def checksum_ready_def default_config_def
      config_init_Inr Let_def py_bind_Inr_iff split: if_splits)

text \<open>
  Every configuration a factory builds passes the configuration checks and yields a checksum
  for each payload that covers its offsets.
\<close>

theorem factory_checksum_total:
  assumes "factory_config c" "covers d c"
  shows "e2e_config_init c = Inr c \<and> (\<exists>x. compute_checksum d c a dlc = Inr x \<and> 0 \<le> x \<and> x < 256)"
  using factory_ready [OF assms(1)] checksum_total [OF _ _ assms(2)] by simp

theorem factory_checksum_total_witness:
  "e2e_config_init (default_config VAG_MQB) = Inr (default_config VAG_MQB) \<and>
   (\<exists>x. compute_checksum [1, 2, 3] (default_config VAG_MQB) 0 None = Inr x \<and> 0 \<le> x \<and> x < 256)"
proof (rule factory_checksum_total)
  have "create_vag_mqb 0 0 1 0x0F 0 2 = Inr (default_config VAG_MQB)" by code_simp
  then show "factory_config (default_config VAG_MQB)" unfolding factory_config_def by blast
qed (simp add: covers_def default_config_def)

text \<open>
  The mask check does not do what its message says: a mask may have bits below the shift.
  \<open>inject_counter\<close> then clears those payload bits and \<open>extract_counter\<close> never reads them.
\<close>

theorem low_mask_bits_cleared:
  assumes "e2e_config_init c = Inr c" "covers d c"
    and "i < nat (counter_bit_shift c)" "bit (counter_bit_mask c) i"
  shows "\<exists>d'. inject_counter d n c = Inr d' \<and> \<not> bit (uint (d' ! nat (counter_byte_offset c))) i"
proof -
  have wf: "config_wf c" using assms(1) by (simp add: config_init_Inr)
  have off: "nat (counter_byte_offset c) < length d"
    using wf assms(2) by (auto simp: covers_def config_wf_def)
  have "\<not> bit (uint (counter_byte c old n)) i" for old
    using assms(3,4) unfolding uint_counter_byte [OF wf]
    by (auto simp: bit_or_iff bit_and_iff bit_not_iff bit_push_bit_iff simp del: and_masks)
  then show ?thesis using inject_counter_eq [OF wf off, of n] off by simp
qed

theorem low_mask_bits_cleared_witness:
  "\<exists>d'. inject_counter [0xFF, 0xFF] 3 (p2_demo\<lparr>counter_bit_shift := 1, counter_modulo := 8\<rparr>) = Inr d' \<and>
    \<not> bit (uint (d' ! nat (counter_byte_offset (p2_demo\<lparr>counter_bit_shift := 1, counter_modulo := 8\<rparr>)))) 0"
proof (rule low_mask_bits_cleared)
  show "e2e_config_init (p2_demo\<lparr>counter_bit_shift := 1, counter_modulo := 8\<rparr>) =
      Inr (p2_demo\<lparr>counter_bit_shift := 1, counter_modulo := 8\<rparr>)"
    by code_simp
qed (simp_all add: covers_def p2_demo_def default_config_def)

end
