(* ===== verification/E2EPackager.thy ===== *)
theory E2EPackager
  imports E2EProfiles
begin

text \<open>
  \<open>src/safety/e2e/packager.py\<close>: sealing of outgoing frames. The state is the dict of the last
  counter of each (channel, identifier) stream; what a call stored before it raised stays stored.
  The lock and the audit log are dropped; a counter being an \<open>int\<close> is its type.
\<close>

section \<open>State and padding\<close>

type_synonym stream_key = "string \<times> int"

record packager =
  pk_counters :: "(stream_key, int) dict"

definition packager_init :: packager where
  "packager_init = \<lparr>pk_counters = []\<rparr>"

definition E2E_PAD_BYTE :: byte where
  "E2E_PAD_BYTE = 0xCC"

definition ensure_min_len :: "bytes \<Rightarrow> int \<Rightarrow> bytes" where
  "ensure_min_len payload min_len =
     (if int (length payload) < min_len
      then payload @ replicate (nat (min_len - int (length payload))) E2E_PAD_BYTE
      else payload)"

section \<open>Counters\<close>

definition resolve_counter ::
  "packager \<Rightarrow> stream_key \<Rightarrow> e2e_config \<Rightarrow> int option \<Rightarrow> packager \<times> int py" where
  "resolve_counter st key profile counter =
     (case counter of
        None \<Rightarrow>
          let current_val = (case dget (pk_counters st) key of Some v \<Rightarrow> v | None \<Rightarrow> -1);
              counter_to_use = (current_val + 1) mod counter_modulo profile
          in (st\<lparr>pk_counters := dset key counter_to_use (pk_counters st)\<rparr>, Inr counter_to_use)
      | Some requested \<Rightarrow>
          let normalized = requested mod counter_modulo profile;
              store = (st\<lparr>pk_counters := dset key normalized (pk_counters st)\<rparr>, Inr normalized)
          in (case dget (pk_counters st) key of
                None \<Rightarrow> store
              | Some current \<Rightarrow>
                  let expected = (current + 1) mod counter_modulo profile in
                  if normalized \<noteq> expected \<and> normalized \<le> current \<and>
                     \<not> (current = counter_modulo profile - 1 \<and> normalized = 0)
                  then (st, Inl ValueError)
                  else store))"

section \<open>Sealing\<close>

definition package :: "packager \<Rightarrow> can_frame \<Rightarrow> e2e_config \<Rightarrow> int option \<Rightarrow> int option \<Rightarrow> int \<Rightarrow>
    packager \<times> can_frame py" where
  "package st frame profile counter timestamp_ns now =
     (let stream_key = (frame_channel_id frame, frame_arbitration_id frame);
          ts = (case timestamp_ns of Some t \<Rightarrow> t | None \<Rightarrow> frame_timestamp_ns frame) in
      act_bind (resolve_counter st stream_key profile counter) (\<lambda>st counter_to_use.
        let min_len = max (crc_byte_offset profile) (counter_byte_offset profile) + 1;
            payload = ensure_min_len (frame_data frame) min_len in
        (st,
         py_bind (inject_counter payload counter_to_use profile) (\<lambda>payload.
         let final_len = int (length payload) in
         py_bind (dlc_to_length (frame_dlc frame)) (\<lambda>capacity.
         py_bind (if final_len > capacity then length_to_dlc final_len else Inr (frame_dlc frame))
           (\<lambda>effective_dlc.
         py_bind (compute_checksum payload profile (frame_arbitration_id frame) (Some effective_dlc))
           (\<lambda>crc_val.
         py_bind (inject_crc payload crc_val profile) (\<lambda>sealed_data.
         can_frame_create (frame_channel_id frame) (frame_arbitration_id frame) sealed_data
           (Some (frame_is_extended frame)) (frame_is_fd frame) (frame_brs frame) (frame_esi frame)
           (Some effective_dlc) ''tx'' (Some ts) (frame_source frame) ''active'' now))))))))"

definition package_payload :: "packager \<Rightarrow> bytes \<Rightarrow> e2e_config \<Rightarrow> int \<Rightarrow> string \<Rightarrow> int option \<Rightarrow>
    int option \<Rightarrow> packager \<times> (bytes \<times> int \<times> int) py" where
  "package_payload st d profile arbitration_id channel_id dlc counter =
     (let stream_key = (channel_id, arbitration_id) in
      act_bind (resolve_counter st stream_key profile counter) (\<lambda>st counter_to_use.
        let min_len = max (crc_byte_offset profile) (counter_byte_offset profile) + 1;
            payload = ensure_min_len d min_len in
        (st,
         py_bind (inject_counter payload counter_to_use profile) (\<lambda>payload.
         py_bind (case dlc of Some n \<Rightarrow> Inr n | None \<Rightarrow> length_to_dlc (int (length payload)))
           (\<lambda>effective_dlc.
         py_bind (compute_checksum payload profile arbitration_id (Some effective_dlc)) (\<lambda>crc_val.
         py_bind (inject_crc payload crc_val profile) (\<lambda>sealed.
         Inr (sealed, counter_to_use, crc_val))))))))"

section \<open>Counter administration\<close>

definition get_counter :: "packager \<Rightarrow> string \<Rightarrow> int \<Rightarrow> int option" where
  "get_counter st channel_id arbitration_id = dget (pk_counters st) (channel_id, arbitration_id)"

definition set_counter :: "packager \<Rightarrow> string \<Rightarrow> int \<Rightarrow> int \<Rightarrow> packager \<times> unit py" where
  "set_counter st channel_id arbitration_id counter =
     (let key = (channel_id, arbitration_id) in
      case dget (pk_counters st) key of
        Some current \<Rightarrow>
          if counter < current then (st, Inl ValueError)
          else (st\<lparr>pk_counters := dset key counter (pk_counters st)\<rparr>, Inr ())
      | None \<Rightarrow> (st\<lparr>pk_counters := dset key counter (pk_counters st)\<rparr>, Inr ()))"

text \<open>The keys a reset names: all, one stream, one channel, one identifier.\<close>

definition stream_matches :: "string option \<Rightarrow> int option \<Rightarrow> stream_key \<Rightarrow> bool" where
  "stream_matches channel_id arbitration_id key =
     (case (channel_id, arbitration_id) of
        (None, None) \<Rightarrow> True
      | (Some ch, Some arb) \<Rightarrow> key = (ch, arb)
      | (Some ch, None) \<Rightarrow> fst key = ch
      | (None, Some arb) \<Rightarrow> snd key = arb)"

definition packager_reset :: "packager \<Rightarrow> string option \<Rightarrow> int option \<Rightarrow> packager" where
  "packager_reset st channel_id arbitration_id =
     (case (channel_id, arbitration_id) of
        (None, None) \<Rightarrow> st\<lparr>pk_counters := []\<rparr>
      | (Some ch, Some arb) \<Rightarrow> st\<lparr>pk_counters := dpop (ch, arb) (pk_counters st)\<rparr>
      | (Some ch, None) \<Rightarrow>
          st\<lparr>pk_counters := dpop_all (filter (\<lambda>k. fst k = ch) (dkeys (pk_counters st))) (pk_counters st)\<rparr>
      | (None, Some arb) \<Rightarrow>
          st\<lparr>pk_counters := dpop_all (filter (\<lambda>k. snd k = arb) (dkeys (pk_counters st))) (pk_counters st)\<rparr>)"

section \<open>Counters of a stream\<close>

definition next_counter :: "packager \<Rightarrow> stream_key \<Rightarrow> e2e_config \<Rightarrow> int" where
  "next_counter st key profile =
     ((case dget (pk_counters st) key of Some v \<Rightarrow> v | None \<Rightarrow> -1) + 1) mod counter_modulo profile"

lemma resolve_auto:
  "resolve_counter st key profile None =
     (st\<lparr>pk_counters := dset key (next_counter st key profile) (pk_counters st)\<rparr>,
      Inr (next_counter st key profile))"
  by (simp add: resolve_counter_def next_counter_def Let_def)

lemma resolve_Inr:
  assumes "resolve_counter st key profile counter = (st', Inr n)"
  shows "st' = st\<lparr>pk_counters := dset key n (pk_counters st)\<rparr>"
    "n = (case counter of None \<Rightarrow> next_counter st key profile | Some r \<Rightarrow> r mod counter_modulo profile)"
    "dget (pk_counters st) key = Some current \<Longrightarrow> n = (current + 1) mod counter_modulo profile \<or>
      current < n \<or> (current = counter_modulo profile - 1 \<and> n = 0)"
  using assms
  by (auto simp: resolve_counter_def next_counter_def Let_def split: option.splits if_splits)

lemma resolve_Inl:
  "resolve_counter st key profile counter = (st', Inl e) \<Longrightarrow> st' = st \<and> e = ValueError"
  by (auto simp: resolve_counter_def Let_def split: option.splits if_splits)

section \<open>Sealed payloads\<close>

text \<open>What the receiver checks: the stored checksum is the computed one and the counter field
  holds \<open>n\<close>.\<close>

definition sealed :: "e2e_config \<Rightarrow> int \<Rightarrow> int \<Rightarrow> bytes \<Rightarrow> int \<Rightarrow> bool" where
  "sealed c arb dlc d n \<longleftrightarrow>
     covers d c \<and> extract_counter d c = Inr n \<and>
     (\<exists>x. extract_crc d c = Inr x \<and> compute_checksum d c arb (Some dlc) = Inr x)"

lemma length_ensure [simp]:
  "int (length (ensure_min_len d n)) = max (int (length d)) n"
  by (simp add: ensure_min_len_def)

lemma ensure_covers:
  "covers (ensure_min_len d (max (crc_byte_offset c) (counter_byte_offset c) + 1)) c"
  by (simp add: covers_def max_def)

lemma ensure_prefix: "i < length d \<Longrightarrow> ensure_min_len d n ! i = d ! i"
  by (simp add: ensure_min_len_def nth_append)

lemma sealing_steps:
  assumes "config_wf c" "checksum_ready c" "covers d c"
  obtains p x s where "inject_counter d n c = Inr p" "length p = length d"
    "compute_checksum p c arb (Some dlc) = Inr x" "inject_crc p x c = Inr s"
    "length s = length d" "sealed c arb dlc s (n mod counter_modulo c)" "0 \<le> x" "x < 256"
    "extract_crc s c = Inr x"
    "\<And>i. int i \<noteq> crc_byte_offset c \<Longrightarrow> int i \<noteq> counter_byte_offset c \<Longrightarrow> s ! i = d ! i"
proof -
  define a where "a = nat (counter_byte_offset c)"
  define q where "q = nat (crc_byte_offset c)"
  have off: "counter_byte_offset c = int a" "crc_byte_offset c = int q" "a \<noteq> q"
    using assms(1) by (auto simp: config_wf_def a_def q_def)
  have len: "a < length d" "q < length d"
    using assms(3) by (auto simp: covers_def off)
  define p where "p = d[a := counter_byte c (d ! a) n]"
  have p: "inject_counter d n c = Inr p"
    using inject_counter_eq [OF assms(1), of d n] len by (simp add: off p_def)
  have "covers p c" using assms(3) by (simp add: p_def covers_def)
  then obtain x where x: "compute_checksum p c arb (Some dlc) = Inr x" "0 \<le> x" "x < 256"
    using checksum_total [OF assms(1,2)] by blast
  define s where "s = p[q := word_of_int x]"
  have "inject_crc p x c = Inr s"
    using inject_crc_eq [OF assms(1), of p x] len x(2,3) by (simp add: off p_def s_def)
  moreover have "sealed c arb dlc s (n mod counter_modulo c)" "extract_crc s c = Inr x"
  proof -
    have "extract_counter s c = Inr (n mod counter_modulo c)"
      using extract_counter_eq [OF assms(1), of s] counter_byte_field [OF assms(1), of "d ! a" n] len off
      by (simp add: s_def p_def)
    moreover show "extract_crc s c = Inr x"
      using extract_crc_eq [OF assms(1), of s] len x(2,3) by (simp add: off s_def p_def)
    moreover have "compute_checksum s c arb (Some dlc) = Inr x"
      using checksum_ignores_slot [OF assms(1), of p] x(1) by (simp add: s_def off)
    ultimately show "sealed c arb dlc s (n mod counter_modulo c)"
      using assms(3) by (simp add: sealed_def covers_def s_def p_def)
  qed
  ultimately show thesis
    using p x by (intro that [of p x s]) (auto simp: p_def s_def off)
qed

lemma package_payload_ok:
  assumes "config_wf c" "checksum_ready c" "resolve_counter st (ch, arb) c counter = (st', Inr n)"
    and dlc: "(case dlc of Some m \<Rightarrow> Inr m | None \<Rightarrow>
      length_to_dlc (max (int (length d)) (max (crc_byte_offset c) (counter_byte_offset c) + 1))) = Inr e"
  obtains s x where "package_payload st d c arb ch dlc counter = (st', Inr (s, n, x))"
    "sealed c arb e s (n mod counter_modulo c)" "extract_crc s c = Inr x"
    "int (length s) = max (int (length d)) (max (crc_byte_offset c) (counter_byte_offset c) + 1)"
    "\<And>i. i < length d \<Longrightarrow> int i \<noteq> crc_byte_offset c \<Longrightarrow> int i \<noteq> counter_byte_offset c \<Longrightarrow> s ! i = d ! i"
proof -
  define m where "m = max (crc_byte_offset c) (counter_byte_offset c) + 1"
  obtain p x s where steps: "inject_counter (ensure_min_len d m) n c = Inr p"
    "length p = length (ensure_min_len d m)"
    "compute_checksum p c arb (Some e) = Inr x" "inject_crc p x c = Inr s"
    "length s = length (ensure_min_len d m)" "sealed c arb e s (n mod counter_modulo c)"
    "extract_crc s c = Inr x"
    "\<And>i. int i \<noteq> crc_byte_offset c \<Longrightarrow> int i \<noteq> counter_byte_offset c \<Longrightarrow> s ! i = ensure_min_len d m ! i"
    using sealing_steps [OF assms(1,2) ensure_covers [of d c, folded m_def], of n arb e] by metis
  have "package_payload st d c arb ch dlc counter = (st', Inr (s, n, x))"
    using dlc by (cases dlc) (simp_all add: package_payload_def Let_def assms(3) m_def [symmetric] steps(1-4))
  then show thesis
    using steps by (intro that [of s x]) (simp_all add: ensure_prefix m_def)
qed

text \<open>The DLC of a sealed frame: kept when the payload still fits, else the least that holds it.\<close>

lemma sealed_dlc:
  assumes "frame_wf f" "dlc_to_length (frame_dlc f) = Inr cap" "int (length (frame_data f)) \<le> len"
    and "len \<le> (if frame_is_fd f then 64 else 8)" "0 < len"
  obtains e where
    "(if len > cap then length_to_dlc len else Inr (frame_dlc f)) = Inr e"
    "0 \<le> e" "e \<le> (if frame_is_fd f then 15 else 8)"
    "if e \<le> 8 then len = e else \<exists>m. dlc_to_length e = Inr m \<and> len \<le> m"
proof (cases "len > cap")
  case True
  obtain e where e: "length_to_dlc len = Inr e"
    using length_to_dlc_total [of len] assms(4,5) by (auto split: if_splits)
  obtain m where m: "dlc_to_length e = Inr m" "len \<le> m"
    using length_to_dlc_least(1) [OF e] by blast
  have range: "0 \<le> e" "e \<le> 15" using dlc_to_length_Inr_range [OF m(1)] by simp_all
  show thesis
  proof (cases "len \<le> 8")
    case small: True
    then have "e = len" using length_to_dlc_small [of len] e assms(5) by simp
    then show thesis using True e small range by (intro that [of e]) simp_all
  next
    case False
    have "8 < e" using dlc_to_length_small [of e] m range False by (cases "e \<le> 8") auto
    then show thesis
      using True e m range False assms(4) by (intro that [of e]) (auto split: if_splits)
  qed
next
  case False
  have dlc: "0 \<le> frame_dlc f" "frame_dlc f \<le> (if frame_is_fd f then 15 else 8)"
    using assms(1) by (simp_all add: frame_wf_def)
  have "len = frame_dlc f" if "frame_dlc f \<le> 8"
    using dlc_to_length_small [OF dlc(1) that] assms(1,2,3) False that by (simp add: frame_wf_def)
  then show thesis
    using False dlc assms(2) by (intro that [of "frame_dlc f"]) auto
qed

lemma package_ok:
  assumes "config_wf c" "checksum_ready c" "frame_wf f"
    and fits: "max (int (length (frame_data f))) (max (crc_byte_offset c) (counter_byte_offset c) + 1)
      \<le> (if frame_is_fd f then 64 else 8)"
    and res: "resolve_counter st (frame_channel_id f, frame_arbitration_id f) c counter = (st', Inr n)"
  obtains g where "package st f c counter ts now = (st', Inr g)" "frame_wf g"
    "frame_channel_id g = frame_channel_id f" "frame_arbitration_id g = frame_arbitration_id f"
    "frame_direction g = ''tx''"
    "sealed c (frame_arbitration_id f) (frame_dlc g) (frame_data g) (n mod counter_modulo c)"
    "int (length (frame_data g)) =
       max (int (length (frame_data f))) (max (crc_byte_offset c) (counter_byte_offset c) + 1)"
    "\<And>i. i < length (frame_data f) \<Longrightarrow> int i \<noteq> crc_byte_offset c \<Longrightarrow>
       int i \<noteq> counter_byte_offset c \<Longrightarrow> frame_data g ! i = frame_data f ! i"
proof -
  define m where "m = max (crc_byte_offset c) (counter_byte_offset c) + 1"
  define len where "len = max (int (length (frame_data f))) m"
  define t where "t = (case ts of Some t \<Rightarrow> t | None \<Rightarrow> frame_timestamp_ns f)"
  have m: "0 < m" using assms(1) by (auto simp: m_def config_wf_def)
  obtain cap where cap: "dlc_to_length (frame_dlc f) = Inr cap"
    using wf_capacity [OF assms(3)] .
  have len: "int (length (frame_data f)) \<le> len" "len \<le> (if frame_is_fd f then 64 else 8)" "0 < len"
    using fits m by (simp_all add: len_def m_def)
  obtain e where e: "(if len > cap then length_to_dlc len else Inr (frame_dlc f)) = Inr e"
    and dlc: "0 \<le> e" "e \<le> (if frame_is_fd f then 15 else 8)"
      "if e \<le> 8 then len = e else \<exists>m. dlc_to_length e = Inr m \<and> len \<le> m"
    using sealed_dlc [OF assms(3) cap len] .
  obtain p x s where steps: "inject_counter (ensure_min_len (frame_data f) m) n c = Inr p"
    "length p = length (ensure_min_len (frame_data f) m)"
    "compute_checksum p c (frame_arbitration_id f) (Some e) = Inr x" "inject_crc p x c = Inr s"
    "length s = length (ensure_min_len (frame_data f) m)"
    "sealed c (frame_arbitration_id f) e s (n mod counter_modulo c)"
    "\<And>i. int i \<noteq> crc_byte_offset c \<Longrightarrow> int i \<noteq> counter_byte_offset c \<Longrightarrow>
      s ! i = ensure_min_len (frame_data f) m ! i"
    using sealing_steps [OF assms(1,2) ensure_covers [of "frame_data f" c, folded m_def],
        of n "frame_arbitration_id f" e] by metis
  have lens: "int (length p) = len" "int (length s) = len"
    using steps(2,5) by (simp_all add: len_def)
  define g where "g = \<lparr>frame_channel_id = frame_channel_id f,
    frame_arbitration_id = frame_arbitration_id f, frame_dlc = e, frame_data = s,
    frame_is_extended = frame_is_extended f, frame_is_fd = frame_is_fd f, frame_brs = frame_brs f,
    frame_esi = frame_esi f, frame_direction = ''tx'', frame_timestamp_ns = t,
    frame_hardware_timestamp_ns = None, frame_host_timestamp_ns = None, frame_sequence = 0,
    frame_error_state = ''active'', frame_source = frame_source f\<rparr>"
  have "s \<noteq> []" using lens(2) len(3) by auto
  then have g: "frame_wf g"
    using assms(3) dlc lens(2)
    unfolding frame_wf_def g_def can_frame.simps VALID_DIRECTIONS_def VALID_ERROR_STATES_def
    by (simp split: if_splits)
  have "can_frame_create (frame_channel_id f) (frame_arbitration_id f) s
      (Some (frame_is_extended f)) (frame_is_fd f) (frame_brs f) (frame_esi f)
      (Some e) ''tx'' (Some t) (frame_source f) ''active'' now = Inr g"
    using g lens(2) len(2) by (auto simp: can_frame_create_def Let_def g_def [symmetric] split: if_splits)
  moreover have "(if int (length p) > cap then length_to_dlc (int (length p)) else Inr (frame_dlc f)) = Inr e"
    using e unfolding lens(1) .
  ultimately have "package st f c counter ts now = (st', Inr g)"
    by (simp add: package_def Let_def res m_def [symmetric] t_def [symmetric] steps(1,3,4) cap
        split del: if_split)
  then show thesis
    using g steps lens
    by (intro that [of g]) (simp_all add: g_def ensure_prefix len_def m_def)
qed

section \<open>Properties\<close>

text \<open>
  A counter the packager accepts is below the modulus and stored for its stream only; with a
  modulus of at least two it is never the stream's current counter again, so no two consecutive
  seals of a stream carry the same counter. A refused request changes nothing.
\<close>

theorem resolve_counter_fresh:
  assumes "0 < counter_modulo c" "resolve_counter st key c counter = (st', r)"
  shows "case r of Inl e \<Rightarrow> st' = st | Inr n \<Rightarrow>
    0 \<le> n \<and> n < counter_modulo c \<and>
    dget (pk_counters st') = (dget (pk_counters st))(key \<mapsto> n) \<and>
    (\<forall>current. dget (pk_counters st) key = Some current \<longrightarrow> 0 \<le> current \<longrightarrow>
       current < counter_modulo c \<longrightarrow> 2 \<le> counter_modulo c \<longrightarrow> n \<noteq> current)"
proof (cases r)
  case (Inl e)
  then show ?thesis using resolve_Inl [of st key c counter st'] assms(2) by simp
next
  case (Inr n)
  note res = assms(2) [unfolded Inr]
  have "n \<noteq> current" if "dget (pk_counters st) key = Some current" "0 \<le> current"
    "current < counter_modulo c" "2 \<le> counter_modulo c" for current
  proof -
    have "(current + 1) mod counter_modulo c = (if current + 1 = counter_modulo c then 0 else current + 1)"
      using that by simp
    then show ?thesis using resolve_Inr(3) [OF res that(1)] that by (auto split: if_splits)
  qed
  moreover have "0 \<le> n" "n < counter_modulo c"
    using resolve_Inr(2) [OF res] assms(1) by (simp_all add: next_counter_def split: option.split)
  ultimately show ?thesis using resolve_Inr(1) [OF res] Inr by simp
qed

theorem resolve_counter_fresh_witness:
  "case (Inr 15 :: int py) of Inl e \<Rightarrow> \<lparr>pk_counters = [((''can0'', 7), 9)]\<rparr> = \<lparr>pk_counters = [((''can0'', 7), 15)]\<rparr>
    | Inr n \<Rightarrow> 0 \<le> n \<and> n < counter_modulo p2_demo \<and>
    dget (pk_counters \<lparr>pk_counters = [((''can0'', 7), 15)]\<rparr>) =
      (dget (pk_counters \<lparr>pk_counters = [((''can0'', 7), 9)]\<rparr>))((''can0'', 7) \<mapsto> n) \<and>
    (\<forall>current. dget (pk_counters \<lparr>pk_counters = [((''can0'', 7), 9)]\<rparr>) (''can0'', 7) = Some current \<longrightarrow>
       0 \<le> current \<longrightarrow> current < counter_modulo p2_demo \<longrightarrow> 2 \<le> counter_modulo p2_demo \<longrightarrow> n \<noteq> current)"
  using resolve_counter_fresh [of p2_demo "\<lparr>pk_counters = [((''can0'', 7), 9)]\<rparr>" "(''can0'', 7)" "Some 31"
      "\<lparr>pk_counters = [((''can0'', 7), 15)]\<rparr>" "Inr 15"]
  by (simp add: p2_demo_def default_config_def resolve_counter_def Let_def)

end
