(* ===== verification/E2EValidator.thy ===== *)
theory E2EValidator
  imports E2EPackager
begin

text \<open>
  \<open>src/safety/e2e/validator.py\<close>: the receive-side validator. Its state is the bounded table of
  streams and the bounded ledger of evicted ones (a set and the queue that mirrors it). Clock
  readings are parameters; the lock is dropped. The last part relates the validator to an abstract
  monitor that knows, for each stream, only whether continuity is unknown, established or lost.
\<close>

section \<open>State\<close>

record e2e_result =
  verdict :: e2e_status
  expected_crc :: int
  actual_crc :: int
  result_counter :: int
  previous_counter :: "int option"
  delta :: int
  result_stream_key :: stream_key
  result_timestamp_ns :: int

definition is_ok :: "e2e_result \<Rightarrow> bool" where
  "is_ok r \<longleftrightarrow> verdict r = OK"

definition is_valid :: "e2e_result \<Rightarrow> bool" where
  "is_valid r \<longleftrightarrow> verdict r \<in> {OK, INITIAL, SOME_LOST}"

definition is_crc_valid :: "e2e_result \<Rightarrow> bool" where
  "is_crc_valid r \<longleftrightarrow> verdict r \<noteq> LENGTH_ERROR \<and> expected_crc r = actual_crc r"

definition is_sequence_valid :: "e2e_result \<Rightarrow> bool" where
  "is_sequence_valid r \<longleftrightarrow> verdict r \<in> {OK, INITIAL}"

record stream_rx =
  rx_channel_id :: string
  rx_arbitration_id :: int
  last_counter :: "int option"
  last_verdict :: "e2e_status option"
  total_frames :: nat
  valid_frames :: nat
  crc_errors :: nat
  sequence_errors :: nat
  repeated_frames :: nat
  dropped_frames_estimated :: int
  last_timestamp_ns :: int
  last_seen_monotonic_ns :: int

record validator =
  va_streams :: "(stream_key, stream_rx) dict"
  va_evicted :: "stream_key set"
  va_order :: "stream_key list"

definition MAX_TRACKED_STREAMS :: nat where
  "MAX_TRACKED_STREAMS = 1024"

definition MAX_TOMBSTONE_STREAMS :: nat where
  "MAX_TOMBSTONE_STREAMS = 2048"

definition validator_init :: validator where
  "validator_init = \<lparr>va_streams = [], va_evicted = {}, va_order = []\<rparr>"

section \<open>Tombstones\<close>

fun trim_tombstones :: "stream_key set \<Rightarrow> stream_key list \<Rightarrow> (stream_key set \<times> stream_key list) \<times> unit py"
where
  "trim_tombstones S [] = (if card S > MAX_TOMBSTONE_STREAMS then ((S, []), Inl IndexError) else ((S, []), Inr ()))"
| "trim_tombstones S (oldest # order) =
     (if card S > MAX_TOMBSTONE_STREAMS then trim_tombstones (S - {oldest}) order
      else ((S, oldest # order), Inr ()))"

definition record_tombstone :: "validator \<Rightarrow> stream_key \<Rightarrow> validator \<times> unit py" where
  "record_tombstone st key =
     (if key \<in> va_evicted st then (st, Inr ())
      else case trim_tombstones (insert key (va_evicted st)) (va_order st @ [key]) of
        ((S, order), r) \<Rightarrow> (st\<lparr>va_evicted := S, va_order := order\<rparr>, r))"

definition drop_tombstone :: "validator \<Rightarrow> stream_key \<Rightarrow> validator" where
  "drop_tombstone st key =
     st\<lparr>va_evicted := va_evicted st - {key}, va_order := remove1 key (va_order st)\<rparr>"

section \<open>Validation\<close>

definition new_stream :: "string \<Rightarrow> int \<Rightarrow> int \<Rightarrow> stream_rx" where
  "new_stream channel_id arbitration_id now_mono_ns =
    \<lparr>rx_channel_id = channel_id, rx_arbitration_id = arbitration_id, last_counter = None,
     last_verdict = None, total_frames = 0, valid_frames = 0, crc_errors = 0, sequence_errors = 0,
     repeated_frames = 0, dropped_frames_estimated = 0, last_timestamp_ns = 0,
     last_seen_monotonic_ns = now_mono_ns\<rparr>"

text \<open>The stream a frame belongs to is created when it is new; at the ceiling the least recently
  seen stream is evicted first and leaves a tombstone.\<close>

definition evict_stream :: "validator \<Rightarrow> validator \<times> unit py" where
  "evict_stream st =
     (if length (va_streams st) \<ge> MAX_TRACKED_STREAMS then
        (case oldest_key last_seen_monotonic_ns (va_streams st) of
           None \<Rightarrow> (st, Inl ValueError)
         | Some oldest \<Rightarrow>
             record_tombstone (st\<lparr>va_streams := dpop oldest (va_streams st)\<rparr>) oldest)
      else (st, Inr ()))"

definition open_stream :: "validator \<Rightarrow> string \<Rightarrow> int \<Rightarrow> int \<Rightarrow> validator \<times> unit py" where
  "open_stream st channel_id arbitration_id now_mono_ns =
     (let stream_key = (channel_id, arbitration_id) in
      if dget (va_streams st) stream_key \<noteq> None then (st, Inr ())
      else act_bind (evict_stream st) (\<lambda>st _.
        (st\<lparr>va_streams := dset stream_key (new_stream channel_id arbitration_id now_mono_ns)
             (va_streams st)\<rparr>, Inr ())))"

text \<open>The stream's state object is mutated in place: \<open>put_stream\<close> stores what it became.\<close>

definition put_stream :: "validator \<Rightarrow> stream_key \<Rightarrow> stream_rx \<Rightarrow> validator" where
  "put_stream st key s = st\<lparr>va_streams := dset key s (va_streams st)\<rparr>"

text \<open>Rolling-counter progression: the verdict, the distance and the stream's new state.\<close>

definition check_sequence :: "stream_rx \<Rightarrow> e2e_config \<Rightarrow> int \<Rightarrow> e2e_status \<times> int \<times> stream_rx" where
  "check_sequence s profile counter =
     (case last_counter s of
        None \<Rightarrow> (INITIAL, 0, s\<lparr>last_counter := Some counter, valid_frames := valid_frames s + 1,
          last_verdict := Some INITIAL\<rparr>)
      | Some prev \<Rightarrow>
          let d = (counter - prev) mod counter_modulo profile in
          if d = 1 then
            (OK, d, s\<lparr>last_counter := Some counter, valid_frames := valid_frames s + 1,
              last_verdict := Some OK\<rparr>)
          else if d = 0 then
            (REPEATED, d, s\<lparr>repeated_frames := repeated_frames s + 1,
              last_verdict := Some REPEATED\<rparr>)
          else if 2 \<le> d \<and> d \<le> max_delta_counter profile then
            (SOME_LOST, d, s\<lparr>dropped_frames_estimated := dropped_frames_estimated s + (d - 1),
              last_counter := Some counter, valid_frames := valid_frames s + 1,
              last_verdict := Some SOME_LOST\<rparr>)
          else
            (WRONG_SEQUENCE, d, s\<lparr>sequence_errors := sequence_errors s + 1,
              last_counter := Some counter, last_verdict := Some WRONG_SEQUENCE\<rparr>))"

definition rejected :: "e2e_status \<Rightarrow> int option \<Rightarrow> stream_key \<Rightarrow> int \<Rightarrow> e2e_result" where
  "rejected v prev key ts =
    \<lparr>verdict = v, expected_crc = -1, actual_crc = -1, result_counter = -1, previous_counter = prev,
     delta = -1, result_stream_key = key, result_timestamp_ns = ts\<rparr>"

text \<open>The frame that re-opens an evicted stream.\<close>

definition validate_tombstoned ::
  "validator \<Rightarrow> stream_key \<Rightarrow> stream_rx \<Rightarrow> bytes \<Rightarrow> e2e_config \<Rightarrow> int \<Rightarrow> validator \<times> e2e_result py" where
  "validate_tombstoned st key s0 d profile ts =
     (let s = s0\<lparr>sequence_errors := sequence_errors s0 + 1, last_verdict := Some WRONG_SEQUENCE\<rparr> in
      if int (length d) > counter_byte_offset profile then
        act_bind (put_stream (drop_tombstone st key) key s, extract_counter d profile) (\<lambda>st n.
          (put_stream st key (s\<lparr>last_counter := Some n\<rparr>), Inr (rejected WRONG_SEQUENCE None key ts)))
      else (put_stream st key s, Inr (rejected WRONG_SEQUENCE None key ts)))"

definition validate_tracked ::
  "validator \<Rightarrow> stream_key \<Rightarrow> stream_rx \<Rightarrow> int \<Rightarrow> bytes \<Rightarrow> e2e_config \<Rightarrow> int option \<Rightarrow> int \<Rightarrow>
   validator \<times> e2e_result py" where
  "validate_tracked st key s arbitration_id d profile dlc ts =
     (let min_len = max (crc_byte_offset profile) (counter_byte_offset profile) + 1 in
      if int (length d) < min_len then
        (put_stream st key (s\<lparr>last_verdict := Some LENGTH_ERROR\<rparr>),
         Inr (rejected LENGTH_ERROR (last_counter s) key ts))
      else
        act_bind (put_stream st key s, extract_crc d profile) (\<lambda>st actual.
        act_bind (st, extract_counter d profile) (\<lambda>st counter.
        act_bind (st, compute_checksum d profile arbitration_id dlc) (\<lambda>st expected.
        if actual \<noteq> expected then
          (put_stream st key (s\<lparr>crc_errors := crc_errors s + 1, last_verdict := Some CRC_ERROR\<rparr>),
           Inr \<lparr>verdict = CRC_ERROR, expected_crc = expected, actual_crc = actual,
             result_counter = counter, previous_counter = last_counter s, delta = -1,
             result_stream_key = key, result_timestamp_ns = ts\<rparr>)
        else case check_sequence s profile counter of (v, dlt, s') \<Rightarrow>
          (put_stream st key s',
           Inr \<lparr>verdict = v, expected_crc = expected, actual_crc = actual,
             result_counter = counter, previous_counter = last_counter s, delta = dlt,
             result_stream_key = key, result_timestamp_ns = ts\<rparr>)))))"

definition validate_raw ::
  "validator \<Rightarrow> string \<Rightarrow> int \<Rightarrow> bytes \<Rightarrow> e2e_config \<Rightarrow> int option \<Rightarrow> int option \<Rightarrow> int \<Rightarrow> int \<Rightarrow>
   validator \<times> e2e_result py" where
  "validate_raw st channel_id arbitration_id d profile dlc timestamp_ns time_ns now_mono_ns =
     (let stream_key = (channel_id, arbitration_id);
          ts = (case timestamp_ns of Some t \<Rightarrow> t | None \<Rightarrow> time_ns);
          tombstoned = stream_key \<in> va_evicted st in
      act_bind (open_stream st channel_id arbitration_id now_mono_ns) (\<lambda>st _.
        case dget (va_streams st) stream_key of
          None \<Rightarrow> (st, Inl KeyError)
        | Some s0 \<Rightarrow>
            let s = s0\<lparr>total_frames := total_frames s0 + 1, last_timestamp_ns := ts,
                       last_seen_monotonic_ns := now_mono_ns\<rparr> in
            if tombstoned then validate_tombstoned st stream_key s d profile ts
            else validate_tracked st stream_key s arbitration_id d profile dlc ts))"

definition validate :: "validator \<Rightarrow> can_frame \<Rightarrow> e2e_config \<Rightarrow> int \<Rightarrow> validator \<times> e2e_result py" where
  "validate st frame profile now_mono_ns =
     validate_raw st (frame_channel_id frame) (frame_arbitration_id frame) (frame_data frame) profile
       (Some (frame_dlc frame)) (Some (frame_timestamp_ns frame)) 0 now_mono_ns"

section \<open>Queries and reset\<close>

definition get_stream_state :: "validator \<Rightarrow> string \<Rightarrow> int \<Rightarrow> stream_rx option" where
  "get_stream_state st channel_id arbitration_id = dget (va_streams st) (channel_id, arbitration_id)"

definition get_all_states :: "validator \<Rightarrow> (stream_key, stream_rx option) dict" where
  "get_all_states st = map (\<lambda>(k, _). (k, get_stream_state st (fst k) (snd k))) (va_streams st)"

text \<open>\<open>for k in [k for k in self._evicted_streams if ...]: self._drop_tombstone(k)\<close>; each such key
  is taken off the queue once.\<close>

definition drop_tombstones :: "(stream_key \<Rightarrow> bool) \<Rightarrow> validator \<Rightarrow> validator" where
  "drop_tombstones P st =
     st\<lparr>va_evicted := {k \<in> va_evicted st. \<not> P k},
        va_order := fold remove1 (filter (\<lambda>k. P k \<and> k \<in> va_evicted st) (remdups (va_order st))) (va_order st)\<rparr>"

definition validator_reset :: "validator \<Rightarrow> string option \<Rightarrow> int option \<Rightarrow> validator" where
  "validator_reset st channel_id arbitration_id =
     (case (channel_id, arbitration_id) of
        (None, None) \<Rightarrow> st\<lparr>va_streams := [], va_evicted := {}, va_order := []\<rparr>
      | (Some ch, Some arb) \<Rightarrow>
          drop_tombstone (st\<lparr>va_streams := dpop (ch, arb) (va_streams st)\<rparr>) (ch, arb)
      | (Some ch, None) \<Rightarrow>
          drop_tombstones (\<lambda>k. fst k = ch)
            (st\<lparr>va_streams := dpop_all (filter (\<lambda>k. fst k = ch) (dkeys (va_streams st))) (va_streams st)\<rparr>)
      | (None, Some arb) \<Rightarrow>
          drop_tombstones (\<lambda>k. snd k = arb)
            (st\<lparr>va_streams := dpop_all (filter (\<lambda>k. snd k = arb) (dkeys (va_streams st))) (va_streams st)\<rparr>))"

section \<open>Invariant\<close>

definition val_inv :: "validator \<Rightarrow> bool" where
  "val_inv st \<longleftrightarrow> dwf (va_streams st) \<and> length (va_streams st) \<le> MAX_TRACKED_STREAMS \<and>
     distinct (va_order st) \<and> set (va_order st) = va_evicted st \<and>
     length (va_order st) \<le> MAX_TOMBSTONE_STREAMS"

lemma val_invD:
  assumes "val_inv st"
  shows "dwf (va_streams st)" "length (va_streams st) \<le> MAX_TRACKED_STREAMS"
    "distinct (va_order st)" "set (va_order st) = va_evicted st"
    "length (va_order st) \<le> MAX_TOMBSTONE_STREAMS" "card (va_evicted st) \<le> MAX_TOMBSTONE_STREAMS"
  using assms distinct_card [of "va_order st"] by (auto simp: val_inv_def)

lemma val_inv_init: "val_inv validator_init"
  by (simp add: val_inv_def validator_init_def)

text \<open>The ledger drops exactly its oldest entry, and only when it was full.\<close>

lemma record_tombstone_eq:
  assumes "val_inv st" "key \<notin> va_evicted st"
  shows "record_tombstone st key =
    (if length (va_order st) < MAX_TOMBSTONE_STREAMS
     then (st\<lparr>va_evicted := insert key (va_evicted st), va_order := va_order st @ [key]\<rparr>, Inr ())
     else (st\<lparr>va_evicted := insert key (va_evicted st) - {hd (va_order st)},
              va_order := tl (va_order st) @ [key]\<rparr>, Inr ()))"
proof -
  note inv = val_invD [OF assms(1)]
  have card: "card (insert key (va_evicted st)) = Suc (length (va_order st))"
    using inv(3,4) assms(2) by (metis List.finite_set card_insert_disjoint distinct_card)
  show ?thesis
  proof (cases "length (va_order st) < MAX_TOMBSTONE_STREAMS")
    case True
    then have "trim_tombstones (insert key (va_evicted st)) (va_order st @ [key]) =
        ((insert key (va_evicted st), va_order st @ [key]), Inr ())"
      using card by (cases "va_order st") auto
    then show ?thesis using True assms(2) by (simp add: record_tombstone_def)
  next
    case False
    then have len: "length (va_order st) = MAX_TOMBSTONE_STREAMS" using inv(5) by simp
    then obtain old rest where ord: "va_order st = old # rest"
      by (cases "va_order st") (auto simp: MAX_TOMBSTONE_STREAMS_def)
    have mem: "old \<in> va_evicted st" "finite (va_evicted st)" using ord inv(4) by (auto simp: inv(4) [symmetric])
    then have "card (insert key (va_evicted st) - {old}) = MAX_TOMBSTONE_STREAMS"
      using card len by simp
    then have "trim_tombstones (insert key (va_evicted st)) (va_order st @ [key]) =
        ((insert key (va_evicted st) - {old}, rest @ [key]), Inr ())"
      using card len by (cases rest) (simp_all add: ord)
    then show ?thesis using False assms(2) by (simp add: record_tombstone_def ord)
  qed
qed

lemma record_tombstone_streams [simp]: "va_streams (fst (record_tombstone st key)) = va_streams st"
  by (simp add: record_tombstone_def split: prod.split)

lemma record_tombstone_inv [inv_intro]: "val_inv st \<Longrightarrow> val_inv (fst (record_tombstone st key))"
proof (cases "key \<in> va_evicted st")
  case True
  then show "val_inv st \<Longrightarrow> val_inv (fst (record_tombstone st key))" by (simp add: record_tombstone_def)
next
  case False
  assume inv: "val_inv st"
  note facts = val_invD [OF inv]
  show "val_inv (fst (record_tombstone st key))"
  proof (cases "length (va_order st) < MAX_TOMBSTONE_STREAMS")
    case True
    then show ?thesis
      using record_tombstone_eq [OF inv False] facts False by (simp add: val_inv_def)
  next
    case full: False
    then obtain old rest where ord: "va_order st = old # rest"
      using facts(5) by (cases "va_order st") (auto simp: MAX_TOMBSTONE_STREAMS_def)
    then show ?thesis
      using record_tombstone_eq [OF inv False] facts False full by (auto simp: val_inv_def ord)
  qed
qed

lemma drop_tombstone_inv [inv_intro]: "val_inv st \<Longrightarrow> val_inv (drop_tombstone st key)"
  unfolding val_inv_def drop_tombstone_def
  by (auto simp: set_remove1_eq length_remove1)

lemma put_stream_inv [inv_intro]:
  "val_inv st \<Longrightarrow> dget (va_streams st) key \<noteq> None \<Longrightarrow> val_inv (put_stream st key s)"
  by (simp add: val_inv_def put_stream_def length_dset_old dict.wf_store domIff)

lemma evict_stream_cases:
  assumes "val_inv st"
  obtains (Room) "length (va_streams st) < MAX_TRACKED_STREAMS" "evict_stream st = (st, Inr ())"
  | (Evict) victim st1 where "length (va_streams st) = MAX_TRACKED_STREAMS"
      "oldest_key last_seen_monotonic_ns (va_streams st) = Some victim"
      "dget (va_streams st) victim \<noteq> None"
      "st1 = st\<lparr>va_streams := dpop victim (va_streams st)\<rparr>" "val_inv st1"
      "evict_stream st = (fst (record_tombstone st1 victim), Inr ())"
      "val_inv (fst (record_tombstone st1 victim))"
      "length (va_streams st1) < MAX_TRACKED_STREAMS"
proof (cases "length (va_streams st) < MAX_TRACKED_STREAMS")
  case True
  then show thesis by (intro Room) (simp_all add: evict_stream_def)
next
  case False
  note facts = val_invD [OF assms]
  have full: "length (va_streams st) = MAX_TRACKED_STREAMS" using False facts(2) by simp
  then have "va_streams st \<noteq> []" by (auto simp: MAX_TRACKED_STREAMS_def)
  then obtain victim where victim: "oldest_key last_seen_monotonic_ns (va_streams st) = Some victim"
    by (metis oldest_key_None option.exhaust)
  then have mem: "dget (va_streams st) victim \<noteq> None"
    using oldest_key_Some [OF victim facts(1)] by (metis option.distinct(1))
  define st1 where "st1 = st\<lparr>va_streams := dpop victim (va_streams st)\<rparr>"
  have small: "length (va_streams st1) < MAX_TRACKED_STREAMS"
    using dict.size_evict [OF facts(1), of victim] mem full by (simp add: st1_def domIff)
  have inv1: "val_inv st1"
    using facts small by (simp add: val_inv_def st1_def dict.wf_discard)
  have ok: "snd (record_tombstone st1 victim) = Inr ()"
    using record_tombstone_eq [OF inv1, of victim]
    by (cases "victim \<in> va_evicted st1") (auto simp: record_tombstone_def)
  show thesis
    by (rule Evict [OF full victim mem st1_def inv1])
      (use full victim ok small record_tombstone_inv [OF inv1] in
        \<open>simp_all add: evict_stream_def st1_def [symmetric] prod_eq_iff\<close>)
qed

section \<open>The abstract monitor\<close>

text \<open>What a stream's history amounts to: nothing accepted yet, continuity up to a counter, or
  continuity lost by an eviction. A frame is observed as its raw counter field, when it is long
  enough to have one, and the state of its seal.\<close>

datatype link = Fresh | At int | Broken

datatype seal = Short | Undefined | Corrupt | Good

definition seen :: "stream_rx \<Rightarrow> link" where
  "seen s = (case last_counter s of None \<Rightarrow> Fresh | Some n \<Rightarrow> At n)"

definition link :: "validator \<Rightarrow> stream_key \<Rightarrow> link" where
  "link st k =
     (if k \<in> va_evicted st then Broken
      else case dget (va_streams st) k of None \<Rightarrow> Fresh | Some s \<Rightarrow> seen s)"

definition raw_counter :: "e2e_config \<Rightarrow> bytes \<Rightarrow> int option" where
  "raw_counter c d = (case extract_counter d c of Inl _ \<Rightarrow> None | Inr n \<Rightarrow> Some n)"

definition seal_of :: "e2e_config \<Rightarrow> int \<Rightarrow> int option \<Rightarrow> bytes \<Rightarrow> seal" where
  "seal_of c arb dlc d =
     (if \<not> covers d c then Short
      else case compute_checksum d c arb dlc of
        Inl _ \<Rightarrow> Undefined
      | Inr x \<Rightarrow> if extract_crc d c = Inr x then Good else Corrupt)"

definition advance :: "e2e_config \<Rightarrow> int \<Rightarrow> int \<Rightarrow> link \<times> e2e_status" where
  "advance c p n =
     (let k = (n - p) mod counter_modulo c in
      if k = 1 then (At n, OK)
      else if k = 0 then (At p, REPEATED)
      else if k \<le> max_delta_counter c then (At n, SOME_LOST)
      else (At n, WRONG_SEQUENCE))"

fun link_step :: "e2e_config \<Rightarrow> link \<Rightarrow> int option \<Rightarrow> seal \<Rightarrow> link \<times> e2e_status option" where
  "link_step c Broken None q = (Broken, Some WRONG_SEQUENCE)"
| "link_step c Broken (Some n) q = (At n, Some WRONG_SEQUENCE)"
| "link_step c l _ Short = (l, Some LENGTH_ERROR)"
| "link_step c l _ Undefined = (l, None)"
| "link_step c l _ Corrupt = (l, Some CRC_ERROR)"
| "link_step c l None Good = (l, None)"
| "link_step c Fresh (Some n) Good = (At n, Some INITIAL)"
| "link_step c (At p) (Some n) Good = map_prod id Some (advance c p n)"

lemma link_put:
  "link (put_stream st key s) =
     (link st)(key := if key \<in> va_evicted st then Broken else seen s)"
  by (auto simp: link_def put_stream_def fun_eq_iff split: option.splits)

lemma link_drop_put:
  "link (put_stream (drop_tombstone st key) key s) =
     (link st)(key := seen s)"
  by (auto simp: link_def put_stream_def drop_tombstone_def fun_eq_iff split: option.splits)

lemma put_put [simp]: "put_stream (put_stream st key s) key s' = put_stream st key s'"
  by (simp add: put_stream_def)

text \<open>The stream an unknown one evicts.\<close>

definition evictee :: "validator \<Rightarrow> stream_key \<Rightarrow> stream_key option" where
  "evictee st key =
     (if dget (va_streams st) key = None \<and> length (va_streams st) \<ge> MAX_TRACKED_STREAMS
      then oldest_key last_seen_monotonic_ns (va_streams st) else None)"

text \<open>Opening a stream that costs no tombstone of another.\<close>

definition ledger_room :: "validator \<Rightarrow> stream_key \<Rightarrow> bool" where
  "ledger_room st key \<longleftrightarrow> evictee st key = None \<or> length (va_order st) < MAX_TOMBSTONE_STREAMS"

text \<open>The tombstone an eviction pushes off a full ledger.\<close>

definition forgotten :: "validator \<Rightarrow> stream_key \<Rightarrow> stream_key option" where
  "forgotten st key =
     (case evictee st key of
        None \<Rightarrow> None
      | Some victim \<Rightarrow>
          if victim \<notin> va_evicted st \<and> length (va_order st) \<ge> MAX_TOMBSTONE_STREAMS
          then Some (hd (va_order st)) else None)"

lemma forgotten_room: "ledger_room st key \<Longrightarrow> forgotten st key = None"
  by (auto simp: ledger_room_def forgotten_def split: option.split)

text \<open>What opening a stream does, whether the ledger has room or not.\<close>

definition opens :: "validator \<Rightarrow> stream_key \<Rightarrow> stream_rx \<Rightarrow> validator \<Rightarrow> bool" where
  "opens st key new st2 \<longleftrightarrow>
     (\<forall>k. dget (va_streams st2) k =
       (if k = key \<and> dget (va_streams st) key = None then Some new
        else if evictee st key = Some k then None else dget (va_streams st) k)) \<and>
     va_evicted st2 = (set_option (evictee st key) \<union> va_evicted st) - set_option (forgotten st key) \<and>
     (\<forall>v. evictee st key = Some v \<longrightarrow>
       v \<noteq> key \<and> dget (va_streams st) v \<noteq> None \<and> forgotten st key \<noteq> Some v) \<and>
     (\<forall>h. forgotten st key = Some h \<longrightarrow> h \<in> va_evicted st)"

lemma opensD:
  assumes "opens st key new st2"
  shows "dget (va_streams st2) k =
      (if k = key \<and> dget (va_streams st) key = None then Some new
       else if evictee st key = Some k then None else dget (va_streams st) k)"
    "va_evicted st2 = (set_option (evictee st key) \<union> va_evicted st) - set_option (forgotten st key)"
    "evictee st key = Some v \<Longrightarrow> v \<noteq> key \<and> dget (va_streams st) v \<noteq> None \<and> forgotten st key \<noteq> Some v"
    "forgotten st key = Some h \<Longrightarrow> h \<in> va_evicted st"
    "evictee st key \<noteq> Some key"
    "dget (va_streams st2) key = Some (case dget (va_streams st) key of None \<Rightarrow> new | Some s \<Rightarrow> s)"
proof -
  note o = assms [unfolded opens_def]
  show evn: "evictee st key \<noteq> Some key" using o by blast
  show look: "dget (va_streams st2) k =
      (if k = key \<and> dget (va_streams st) key = None then Some new
       else if evictee st key = Some k then None else dget (va_streams st) k)" for k
    using o by blast
  show "dget (va_streams st2) key = Some (case dget (va_streams st) key of None \<Rightarrow> new | Some s \<Rightarrow> s)"
    using evn by (cases "dget (va_streams st) key") (simp_all add: look)
qed (use assms in \<open>unfold opens_def, blast+\<close>)

lemma opens_known:
  assumes "dget (va_streams st) key = Some s0"
  shows "opens st key new st"
proof -
  have "evictee st key = None" "forgotten st key = None" using assms by (simp_all add: evictee_def forgotten_def)
  then show ?thesis using assms by (simp add: opens_def)
qed

lemma opens_evicting:
  assumes inv: "val_inv st" and none: "dget (va_streams st) key = None"
    and full: "length (va_streams st) = MAX_TRACKED_STREAMS"
    and victim: "oldest_key last_seen_monotonic_ns (va_streams st) = Some victim" "dget (va_streams st) victim \<noteq> None"
    and st1: "st1 = st\<lparr>va_streams := dpop victim (va_streams st)\<rparr>" "val_inv st1"
    and st2: "st2 = (fst (record_tombstone st1 victim))\<lparr>va_streams := dset key new (dpop victim (va_streams st))\<rparr>"
  shows "opens st key new st2"
proof -
  have ev: "evictee st key = Some victim" using none full victim(1) by (simp add: evictee_def)
  have ne: "victim \<noteq> key" using victim(2) none by auto
  have fg: "h = hd (va_order st) \<and> victim \<notin> va_evicted st \<and> MAX_TOMBSTONE_STREAMS \<le> length (va_order st)"
    if "forgotten st key = Some h" for h
    using that ev by (simp add: forgotten_def split: if_splits)
  have mem: "h \<in> va_evicted st" if "forgotten st key = Some h" for h
    using fg [OF that] val_invD(4) [OF inv] by (cases "va_order st") (auto simp: MAX_TOMBSTONE_STREAMS_def)
  have evicted: "va_evicted st2 = insert victim (va_evicted st) - set_option (forgotten st key)"
  proof (cases "victim \<in> va_evicted st")
    case True
    then have "forgotten st key = None" using ev by (simp add: forgotten_def)
    then show ?thesis using True st1(1) by (simp add: st2 record_tombstone_def insert_absorb)
  next
    case False
    then show ?thesis using record_tombstone_eq [OF st1(2), of victim] ev st1(1)
      by (simp add: st2 forgotten_def)
  qed
  have look: "dget (va_streams st2) k = (if k = key then Some new
      else if victim = k then None else dget (va_streams st) k)" for k
    by (simp add: st2 dict.lookup_store dict.lookup_discard)
  have "forgotten st key \<noteq> Some victim" using fg mem by blast
  then show ?thesis unfolding opens_def using ev evicted look mem ne none victim(2) by simp
qed

lemma open_stream_ok:
  assumes "val_inv st"
  shows "\<exists>st2. open_stream st ch arb now = (st2, Inr ()) \<and> val_inv st2 \<and> opens st (ch, arb) (new_stream ch arb now) st2"
proof (cases "dget (va_streams st) (ch, arb)")
  case (Some s0)
  then show ?thesis using assms opens_known [OF Some] by (simp add: open_stream_def)
next
  case None
  define new where "new = new_stream ch arb now"
  from assms show ?thesis
  proof (cases rule: evict_stream_cases)
    case Room
    define st2 where "st2 = st\<lparr>va_streams := dset (ch, arb) new (va_streams st)\<rparr>"
    have "val_inv st2"
      using assms Room None val_invD(1) [OF assms]
      by (auto simp: val_inv_def st2_def dict.wf_store length_dset_new domIff)
    moreover have "evictee st (ch, arb) = None" "forgotten st (ch, arb) = None"
      using Room by (simp_all add: evictee_def forgotten_def)
    then have "opens st (ch, arb) new st2" using None by (simp add: opens_def st2_def dict.lookup_store)
    ultimately show ?thesis using None Room by (simp add: open_stream_def Let_def new_def st2_def)
  next
    case (Evict victim st1)
    define st2 where "st2 = (fst (record_tombstone st1 victim))\<lparr>va_streams := dset (ch, arb) new (dpop victim (va_streams st))\<rparr>"
    have str: "va_streams (fst (record_tombstone st1 victim)) = dpop victim (va_streams st)"
      using Evict(4) by simp
    have "dget (dpop victim (va_streams st)) (ch, arb) = None" using None by (simp add: dict.lookup_discard)
    moreover have "dwf (dpop victim (va_streams st))" using val_invD(1) [OF Evict(5)] Evict(4) by simp
    moreover have "val_inv (fst (record_tombstone st1 victim))" "length (dpop victim (va_streams st)) < MAX_TRACKED_STREAMS"
      using Evict(4,7,8) by simp_all
    ultimately have "val_inv st2"
      unfolding val_inv_def st2_def by (simp add: dict.wf_store length_dset_new domIff del: dict.lookup_discard)
    moreover have "opens st (ch, arb) new st2"
      by (rule opens_evicting [OF assms None Evict(1-5) st2_def])
    ultimately show ?thesis using None Evict(6) by (simp add: open_stream_def Let_def new_def st2_def Evict(4))
  qed
qed

lemma covers_min_len:
  "covers d c \<longleftrightarrow> \<not> int (length d) < max (crc_byte_offset c) (counter_byte_offset c) + 1"
  by (auto simp: covers_def max_def)

text \<open>The verdict of a result; None when the call raised.\<close>

definition verdict_of :: "e2e_result py \<Rightarrow> e2e_status option" where
  "verdict_of r = (case r of Inl _ \<Rightarrow> None | Inr x \<Rightarrow> Some (verdict x))"

lemma seen_cong [simp]:
  "seen (s\<lparr>total_frames := a\<rparr>) = seen s" "seen (s\<lparr>last_timestamp_ns := x\<rparr>) = seen s"
  "seen (s\<lparr>last_seen_monotonic_ns := x\<rparr>) = seen s" "seen (s\<lparr>last_verdict := v\<rparr>) = seen s"
  "seen (s\<lparr>sequence_errors := a\<rparr>) = seen s" "seen (s\<lparr>crc_errors := a\<rparr>) = seen s"
  "seen (s\<lparr>valid_frames := a\<rparr>) = seen s" "seen (s\<lparr>repeated_frames := a\<rparr>) = seen s"
  "seen (s\<lparr>dropped_frames_estimated := x\<rparr>) = seen s" "seen (s\<lparr>last_counter := Some n\<rparr>) = At n"
  by (simp_all add: seen_def)

lemma check_sequence_step:
  assumes "config_wf c" "check_sequence s c n = (v, dlt, s')"
  shows "(seen s', Some v) = link_step c (seen s) (Some n) Good"
proof -
  show ?thesis
  proof (cases "last_counter s")
    case None
    then have "seen s = Fresh" by (simp add: seen_def)
    then show ?thesis using assms(2) None by (auto simp: check_sequence_def)
  next
    case (Some p)
    then have at: "seen s = At p" by (simp add: seen_def)
    define k where "k = (n - p) mod counter_modulo c"
    have "0 \<le> k" using assms(1) by (simp add: config_wf_def k_def)
    then consider "k = 1" | "k = 0" | "2 \<le> k" by linarith
    then show ?thesis
      using assms(2) Some at
      by cases (auto simp: check_sequence_def advance_def Let_def k_def [symmetric] split: if_splits)
  qed
qed

lemma validate_tracked_step:
  assumes "config_wf c" "validate_tracked st key s arb d c dlc ts = (st', r)"
  shows "verdict_of r = snd (link_step c (seen s) (raw_counter c d) (seal_of c arb dlc d)) \<and>
    (\<exists>s'. st' = put_stream st key s' \<and>
      seen s' = fst (link_step c (seen s) (raw_counter c d) (seal_of c arb dlc d)))"
proof (cases "covers d c")
  case False
  have "link_step c (seen s) (raw_counter c d) Short = (seen s, Some LENGTH_ERROR)"
    by (simp add: seen_def split: option.split)
  then show ?thesis
    using assms(2) False
    by (auto simp: validate_tracked_def Let_def covers_min_len seal_of_def verdict_of_def rejected_def)
next
  case True
  have off: "nat (crc_byte_offset c) < length d" "nat (counter_byte_offset c) < length d"
    using True assms(1) by (auto simp: covers_def config_wf_def)
  obtain x where x: "extract_crc d c = Inr x" using extract_crc_eq [OF assms(1) off(1)] by blast
  obtain n where n: "extract_counter d c = Inr n" using extract_counter_eq [OF assms(1) off(2)] by blast
  note run = assms(2) [unfolded validate_tracked_def Let_def covers_min_len [symmetric, THEN sym]]
  show ?thesis
  proof (cases "compute_checksum d c arb dlc")
    case (Inl e)
    have "link_step c (seen s) (raw_counter c d) Undefined = (seen s, None)"
      by (simp add: seen_def split: option.split)
    then show ?thesis
      using assms(2) True Inl x n
      by (auto simp: validate_tracked_def Let_def covers_min_len seal_of_def verdict_of_def)
  next
    case (Inr y)
    show ?thesis
    proof (cases "x = y")
      case False
      have "link_step c (seen s) (raw_counter c d) Corrupt = (seen s, Some CRC_ERROR)"
        by (simp add: seen_def split: option.split)
      then show ?thesis
        using assms(2) True Inr x n False
        by (auto simp: validate_tracked_def Let_def covers_min_len seal_of_def verdict_of_def)
    next
      case eq: True
      obtain v dlt s' where chk: "check_sequence s c n = (v, dlt, s')"
        by (cases "check_sequence s c n")
      have step: "link_step c (seen s) (raw_counter c d) (seal_of c arb dlc d) = (seen s', Some v)"
        using check_sequence_step [OF assms(1) chk] True Inr x n eq
        by (simp add: seal_of_def raw_counter_def)
      have "st' = put_stream st key s'" "verdict_of r = Some v"
        using assms(2) True Inr x n eq chk
        by (auto simp: validate_tracked_def Let_def covers_min_len verdict_of_def)
      then show ?thesis using step by auto
    qed
  qed
qed

lemma validate_tombstoned_step:
  assumes "config_wf c" "validate_tombstoned st key s d c ts = (st', r)"
  shows "verdict_of r = Some WRONG_SEQUENCE"
    "case raw_counter c d of
       None \<Rightarrow> (\<exists>s'. st' = put_stream st key s' \<and> seen s' = seen s)
     | Some n \<Rightarrow> (\<exists>s'. st' = put_stream (drop_tombstone st key) key s' \<and> seen s' = At n)"
proof -
  have "raw_counter c d = None \<longleftrightarrow> \<not> int (length d) > counter_byte_offset c"
    using assms(1) by (auto simp: raw_counter_def extract_counter_def config_wf_def)
  then show "verdict_of r = Some WRONG_SEQUENCE"
    "case raw_counter c d of
       None \<Rightarrow> (\<exists>s'. st' = put_stream st key s' \<and> seen s' = seen s)
     | Some n \<Rightarrow> (\<exists>s'. st' = put_stream (drop_tombstone st key) key s' \<and> seen s' = At n)"
    using assms(2)
    by (auto simp: validate_tombstoned_def Let_def verdict_of_def rejected_def raw_counter_def
        split: sum.splits if_splits)
qed

section \<open>The validator refines the monitor\<close>

lemma put_dom: "dget (va_streams st) key \<noteq> None \<Longrightarrow>
    dom (dget (va_streams (put_stream st key s))) = dom (dget (va_streams st))"
  by (auto simp: put_stream_def)

lemma forgotten_broken:
  assumes "val_inv st"
  shows "forgotten st key = Some k \<longrightarrow> link st k = Broken"
  using val_invD(4) [OF assms]
  by (cases "va_order st") (auto simp: forgotten_def link_def MAX_TOMBSTONE_STREAMS_def split: option.splits if_splits)

text \<open>The link of a stream after a call: its own moves as the monitor says, a tombstone of its own
  pushed off the ledger while the frame is too short for a counter leaves it Fresh; the evicted stream is
  Broken, the forgotten one as good as new.\<close>

definition links_after :: "validator \<Rightarrow> stream_key \<Rightarrow> link \<Rightarrow> stream_key \<Rightarrow> link" where
  "links_after st key l' k =
     (if k = key then (if forgotten st key = Some key \<and> l' = Broken then Fresh else l')
      else if evictee st key = Some k then Broken
      else if forgotten st key = Some k then Fresh
      else link st k)"

lemma links_after_room:
  "ledger_room st key \<Longrightarrow>
   links_after st key l' = (\<lambda>k. if k = key then l' else if evictee st key = Some k then Broken else link st k)"
  by (auto simp: links_after_def forgotten_room)

text \<open>A tombstoned stream that is tracked again has accepted nothing since.\<close>

definition masked :: "validator \<Rightarrow> bool" where
  "masked st \<longleftrightarrow> (\<forall>k \<in> va_evicted st. \<forall>s. dget (va_streams st) k = Some s \<longrightarrow> last_counter s = None)"

lemma seen_Fresh: "seen s = Fresh \<longleftrightarrow> last_counter s = None"
  by (simp add: seen_def split: option.split)

lemma seen_not_Broken [simp]: "seen s \<noteq> Broken"
  by (simp add: seen_def split: option.split)

lemma link_step_tracked: "l \<noteq> Broken \<Longrightarrow> fst (link_step c l raw q) \<noteq> Broken"
  by (cases l; cases raw; cases q) (auto simp: advance_def Let_def)

lemma validate_raw_step:
  assumes inv: "val_inv st" and wf: "config_wf c" and key: "key = (ch, arb)"
    and run: "validate_raw st ch arb d c dlc ts tm now = (st', r)"
    and step: "link_step c (link st key) (raw_counter c d) (seal_of c arb dlc d) = (l', v)"
  shows "val_inv st'" "verdict_of r = v"
    "masked st \<Longrightarrow> link st' = links_after st key l'"
    "va_evicted st' \<subseteq> va_evicted st \<union> dom (dget (va_streams st))"
    "dom (dget (va_streams st')) \<subseteq> insert key (dom (dget (va_streams st)))"
proof -
  obtain st2 where opened: "open_stream st ch arb now = (st2, Inr ())" "val_inv st2"
    and op: "opens st key (new_stream ch arb now) st2"
    using open_stream_ok [OF inv, of ch arb now] unfolding key by blast
  note look = opensD(1) [OF op] and ev = opensD(2) [OF op] and evk = opensD(3) [OF op] and fgk = opensD(4) [OF op]
    and evn = opensD(5) [OF op]
  define s0 where "s0 = (case dget (va_streams st) key of None \<Rightarrow> new_stream ch arb now | Some s \<Rightarrow> s)"
  have s0: "dget (va_streams st2) key = Some s0" using opensD(6) [OF op] by (simp add: s0_def)
  have seen0: "seen s0 = (case dget (va_streams st) key of None \<Rightarrow> Fresh | Some s \<Rightarrow> seen s)"
    by (auto simp: s0_def seen_def new_stream_def split: option.split)
  define t where "t = (case ts of Some t \<Rightarrow> t | None \<Rightarrow> tm)"
  define s where "s = s0\<lparr>total_frames := total_frames s0 + 1, last_timestamp_ns := t,
    last_seen_monotonic_ns := now\<rparr>"
  have seen_s: "seen s = seen s0" by (simp add: s_def)
  have run': "(if key \<in> va_evicted st then validate_tombstoned st2 key s d c t
      else validate_tracked st2 key s arb d c dlc t) = (st', r)"
    using run s0 by (simp add: validate_raw_def Let_def opened(1) key t_def s_def split: if_splits)
  have dom_drop: "dget (va_streams (drop_tombstone st2 key)) key \<noteq> None"
    using s0 by (simp add: drop_tombstone_def)
  have invs: "val_inv (put_stream st2 key s')" "val_inv (put_stream (drop_tombstone st2 key) key s')" for s'
    using opened(2) s0 dom_drop by (auto intro: inv_intro)
  have put_ev: "va_evicted (put_stream st2 key s') = va_evicted st2"
    "va_evicted (put_stream (drop_tombstone st2 key) key s') \<subseteq> va_evicted st2" for s'
    by (auto simp: put_stream_def drop_tombstone_def)
  have put_doms: "dom (dget (va_streams (put_stream st2 key s'))) = dom (dget (va_streams st2))"
    "dom (dget (va_streams (put_stream (drop_tombstone st2 key) key s'))) = dom (dget (va_streams st2))" for s'
    using s0 by (auto simp: put_stream_def drop_tombstone_def)
  have alt: "verdict_of r = v \<and>
      ((\<exists>s'. key \<notin> va_evicted st \<and> st' = put_stream st2 key s' \<and> seen s' = l') \<or>
       (\<exists>s'. key \<in> va_evicted st \<and> st' = put_stream st2 key s' \<and> seen s' = seen s0 \<and> l' = Broken) \<or>
       (\<exists>s'. key \<in> va_evicted st \<and> st' = put_stream (drop_tombstone st2 key) key s' \<and> seen s' = l'))"
  proof (cases "key \<in> va_evicted st")
    case True
    then have broken: "link st key = Broken" by (simp add: link_def)
    show ?thesis
      using validate_tombstoned_step [OF wf, of st2 key s d t st' r] run' True step seen_s
      by (cases "raw_counter c d") (auto simp: broken)
  next
    case False
    then have "link st key = seen s0" by (simp add: link_def seen0 split: option.split)
    then show ?thesis
      using validate_tracked_step [OF wf, of st2 key s arb d dlc t st' r] run' False step
      by (auto simp: seen_s)
  qed
  show "val_inv st'" using alt invs by blast
  show "verdict_of r = v" using alt by blast
  show "dom (dget (va_streams st')) \<subseteq> insert key (dom (dget (va_streams st)))"
  proof -
    have "dom (dget (va_streams st2)) \<subseteq> insert key (dom (dget (va_streams st)))"
      by (auto simp: look split: if_splits)
    then show ?thesis using alt put_doms by (elim conjE disjE exE) simp_all
  qed
  show "va_evicted st' \<subseteq> va_evicted st \<union> dom (dget (va_streams st))"
  proof -
    have "va_evicted st2 \<subseteq> va_evicted st \<union> dom (dget (va_streams st))"
      using evk by (auto simp: ev)
    then show ?thesis using alt put_ev by (elim conjE disjE exE) fast+
  qed
  assume masked: "masked st"
  have other: "link st2 k = links_after st key l' k" if "k \<noteq> key" for k
  proof -
    have "k \<in> va_evicted st" if "forgotten st key = Some k" using fgk that by blast
    moreover have "seen x = Fresh" if "k \<in> va_evicted st" "dget (va_streams st) k = Some x" for x
      using masked that by (simp add: masked_def seen_Fresh)
    moreover have "forgotten st key \<noteq> Some k" if "evictee st key = Some k" using evk that by blast
    ultimately show ?thesis using \<open>k \<noteq> key\<close>
      by (cases "evictee st key = Some k"; cases "forgotten st key = Some k"; cases "dget (va_streams st) k")
        (simp_all add: link_def links_after_def look ev)
  qed
  have fresh0: "seen s0 = Fresh" if "key \<in> va_evicted st"
    using that masked by (auto simp: seen0 masked_def seen_Fresh split: option.split)
  have own: "key \<in> va_evicted st2 \<longleftrightarrow> key \<in> va_evicted st \<and> forgotten st key \<noteq> Some key"
    using evn by (auto simp: ev)
  show "link st' = links_after st key l'"
  proof
    fix k
    show "link st' k = links_after st key l' k"
    proof (cases "k = key")
      case False
      then show ?thesis using alt other [OF False] by (elim conjE disjE exE) (simp_all add: link_put [of st2] link_drop_put [of st2])
    next
      case True
      have "l' \<noteq> Broken" if "seen s' = l'" for s' using that by auto
      then show ?thesis using alt True own fgk fresh0
        by (elim conjE disjE exE) (auto simp: link_put [of st2] link_drop_put [of st2] links_after_def)
    qed
  qed
qed

section \<open>Runs\<close>

text \<open>Every call keeps the invariant, whatever configuration it is given.\<close>

lemma validate_tracked_put: "\<exists>s'. fst (validate_tracked st key s arb d c dlc ts) = put_stream st key s'"
  by (cases "extract_crc d c"; cases "extract_counter d c"; cases "compute_checksum d c arb dlc")
    (auto simp: validate_tracked_def Let_def split: prod.split)

lemma validate_tombstoned_put:
  "\<exists>s'. fst (validate_tombstoned st key s d c ts) = put_stream st key s' \<or>
     fst (validate_tombstoned st key s d c ts) = put_stream (drop_tombstone st key) key s'"
  by (cases "extract_counter d c") (auto simp: validate_tombstoned_def Let_def)

lemma validate_raw_inv [inv_intro]:
  assumes "val_inv st"
  shows "val_inv (fst (validate_raw st ch arb d c dlc ts tm now))"
proof -
  obtain st2 s0 where opened: "open_stream st ch arb now = (st2, Inr ())" "val_inv st2"
      "dget (va_streams st2) (ch, arb) = Some s0"
    using open_stream_ok [OF assms, of ch arb now] opensD(6) by blast
  have "dget (va_streams (drop_tombstone st2 (ch, arb))) (ch, arb) \<noteq> None"
    using opened(3) by (simp add: drop_tombstone_def)
  then have put: "val_inv (put_stream st2 (ch, arb) s')"
      "val_inv (put_stream (drop_tombstone st2 (ch, arb)) (ch, arb) s')" for s'
    using opened(2,3) by (auto intro: inv_intro)
  have "val_inv (fst (validate_tombstoned st2 (ch, arb) s d c t))" for s t
    using validate_tombstoned_put [of st2 "(ch, arb)" s d c t] put by auto
  moreover have "val_inv (fst (validate_tracked st2 (ch, arb) s arb d c dlc t))" for s t
    using validate_tracked_put [of st2 "(ch, arb)" s arb d c dlc t] put by auto
  ultimately show ?thesis by (simp add: validate_raw_def Let_def opened(1,3))
qed

text \<open>And no call or reset lets a tombstoned stream accept anything.\<close>

lemma masked_init [simp]: "masked validator_init"
  by (simp add: masked_def validator_init_def)

lemma masked_sub:
  assumes "masked st" "va_evicted st' \<subseteq> va_evicted st"
    and "\<And>k s. dget (va_streams st') k = Some s \<Longrightarrow> dget (va_streams st) k = Some s"
  shows "masked st'"
  using assms unfolding masked_def by blast

lemma masked_put:
  "masked st \<Longrightarrow> key \<notin> va_evicted st \<or> last_counter s = None \<Longrightarrow> masked (put_stream st key s)"
  "masked st \<Longrightarrow> masked (put_stream (drop_tombstone st key) key s)"
  by (auto simp: masked_def put_stream_def drop_tombstone_def)

lemma validate_tombstoned_masked:
  assumes "masked st" "key \<in> va_evicted st \<longrightarrow> last_counter s = None"
  shows "masked (fst (validate_tombstoned st key s d c t))"
proof (cases "int (length d) > counter_byte_offset c")
  case True
  then show ?thesis using masked_put(2) [OF assms(1)]
    by (cases "extract_counter d c") (simp_all add: validate_tombstoned_def Let_def)
next
  case False
  then show ?thesis using masked_put(1) [OF assms(1)] assms(2) by (auto simp: validate_tombstoned_def Let_def)
qed

lemma validate_raw_masked:
  assumes "val_inv st" "masked st"
  shows "masked (fst (validate_raw st ch arb d c dlc ts tm now))"
proof -
  define key where "key = (ch, arb)"
  obtain st2 where opened: "open_stream st ch arb now = (st2, Inr ())"
    and op: "opens st key (new_stream ch arb now) st2"
    using open_stream_ok [OF assms(1), of ch arb now] unfolding key_def by blast
  note look = opensD(1) [OF op] and ev = opensD(2) [OF op] and evn = opensD(5) [OF op]
  have new: "last_counter (new_stream ch arb now) = None" by (simp add: new_stream_def)
  have m2: "masked st2"
    unfolding masked_def
  proof (intro ballI allI impI)
    fix k s assume k: "k \<in> va_evicted st2" "dget (va_streams st2) k = Some s"
    have "s = new_stream ch arb now \<or> evictee st key \<noteq> Some k \<and> dget (va_streams st) k = Some s"
      using k(2) look [of k] by (simp split: if_splits)
    moreover have "k \<in> va_evicted st" if "evictee st key \<noteq> Some k" using k(1) that by (auto simp: ev)
    ultimately show "last_counter s = None" using new assms(2) unfolding masked_def by blast
  qed
  obtain s0 where s0: "dget (va_streams st2) key = Some s0" using opensD(6) [OF op] by blast
  have blank: "key \<in> va_evicted st2 \<longrightarrow> last_counter s0 = None" using m2 s0 by (simp add: masked_def)
  have free: "key \<notin> va_evicted st2" if "key \<notin> va_evicted st" using that evn by (auto simp: ev)
  let ?s = "s0\<lparr>total_frames := total_frames s0 + 1,
    last_timestamp_ns := (case ts of Some t \<Rightarrow> t | None \<Rightarrow> tm), last_seen_monotonic_ns := now\<rparr>"
  have "masked (fst (validate_tombstoned st2 key ?s d c t))" for t
    by (rule validate_tombstoned_masked [OF m2]) (use blank in simp)
  moreover have "masked (fst (validate_tracked st2 key s arb d c dlc t))" if "key \<notin> va_evicted st" for s t
    using validate_tracked_put [of st2 key s arb d c dlc t] masked_put(1) [OF m2] free [OF that] by metis
  ultimately show ?thesis
    using s0 by (simp add: validate_raw_def Let_def opened key_def [symmetric] split: if_splits)
qed

lemma masked_drop: "masked st \<Longrightarrow> masked (drop_tombstone st key)" "masked st \<Longrightarrow> masked (drop_tombstones P st)"
  by (auto simp: masked_def drop_tombstone_def drop_tombstones_def)

lemma masked_pop:
  "masked st \<Longrightarrow> masked (st\<lparr>va_streams := dpop k (va_streams st)\<rparr>)"
  "masked st \<Longrightarrow> masked (st\<lparr>va_streams := dpop_all ks (va_streams st)\<rparr>)"
  by (auto simp: masked_def dict.lookup_discard split: if_splits)

lemma validator_reset_masked: "masked st \<Longrightarrow> masked (validator_reset st ch arb)"
  by (cases ch; cases arb)
    (auto simp: validator_reset_def masked_def [of "st\<lparr>va_streams := [], va_evicted := {}, va_order := []\<rparr>"]
      intro!: masked_drop masked_pop)

lemma drop_tombstones_inv [inv_intro]: "val_inv st \<Longrightarrow> val_inv (drop_tombstones P st)"
proof -
  assume inv: "val_inv st"
  define ys where "ys = filter (\<lambda>k. P k \<and> k \<in> va_evicted st) (remdups (va_order st))"
  have sub: "distinct (fold remove1 ys xs) \<and> set (fold remove1 ys xs) = set xs - set ys \<and>
      length (fold remove1 ys xs) \<le> length xs"
    if "distinct xs" for xs :: "stream_key list"
    using that
  proof (induction ys arbitrary: xs)
    case (Cons y ys)
    then show ?case
      using Cons.IH [of "remove1 y xs"] by (auto simp: set_remove1_eq length_remove1 intro: le_trans)
  qed simp
  show "val_inv (drop_tombstones P st)"
    using sub [of "va_order st"] val_invD [OF inv]
    by (auto simp: val_inv_def drop_tombstones_def ys_def [symmetric]) (auto simp: ys_def)
qed

lemma val_inv_streams: "val_inv st \<Longrightarrow> dwf d \<Longrightarrow> length d \<le> length (va_streams st) \<Longrightarrow> val_inv (st\<lparr>va_streams := d\<rparr>)"
  by (simp add: val_inv_def)

lemma validator_reset_inv [inv_intro]:
  assumes "val_inv st"
  shows "val_inv (validator_reset st ch arb)"
proof -
  have "val_inv (st\<lparr>va_streams := dpop_all ks (va_streams st)\<rparr>)"
    "val_inv (st\<lparr>va_streams := dpop k (va_streams st)\<rparr>)" for ks k
    using assms val_invD(1) [OF assms]
    by (auto intro!: val_inv_streams dwf_dpop_all dict.wf_discard length_dpop_all_le AList.length_delete_le)
  then show ?thesis
    by (cases ch; cases arb) (auto simp: validator_reset_def val_inv_def [of "st\<lparr>va_streams := [], va_evicted := {}, va_order := []\<rparr>"]
        intro: inv_intro)
qed

text \<open>A session with the validator: frames and resets; a call that raises yields no verdict.\<close>

datatype val_op =
    Frame string int bytes e2e_config "int option" "int option" int int
  | Reset "string option" "int option"

fun val_step :: "validator \<Rightarrow> val_op \<Rightarrow> validator \<times> (stream_key \<times> e2e_status) list" where
  "val_step st (Frame ch arb d c dlc ts tm now) =
     (case validate_raw st ch arb d c dlc ts tm now of
        (st', Inl _) \<Rightarrow> (st', [])
      | (st', Inr r) \<Rightarrow> (st', [((ch, arb), verdict r)]))"
| "val_step st (Reset ch arb) = (validator_reset st ch arb, [])"

fun val_run :: "validator \<Rightarrow> val_op list \<Rightarrow> validator \<times> (stream_key \<times> e2e_status) list" where
  "val_run st [] = (st, [])"
| "val_run st (x # xs) =
     (case val_step st x of (st1, out) \<Rightarrow> case val_run st1 xs of (st2, out') \<Rightarrow> (st2, out @ out'))"

lemma val_step_inv: "val_inv st \<Longrightarrow> val_inv (fst (val_step st x))"
proof (cases x)
  case (Frame ch arb d c dlc ts tm now)
  then show "val_inv st \<Longrightarrow> val_inv (fst (val_step st x))"
    using validate_raw_inv [of st ch arb d c dlc ts tm now] by (auto split: prod.splits sum.splits)
qed (simp add: validator_reset_inv)

lemma val_run_inv: "val_inv st \<Longrightarrow> val_inv (fst (val_run st xs))"
proof (induction xs arbitrary: st)
  case (Cons x xs)
  then show ?case
    using val_step_inv [OF Cons.prems, of x] by (auto split: prod.splits) (metis fst_conv)
qed simp

lemma val_step_masked: "val_inv st \<Longrightarrow> masked st \<Longrightarrow> masked (fst (val_step st x))"
proof (cases x)
  case (Frame ch arb d c dlc ts tm now)
  then show "val_inv st \<Longrightarrow> masked st \<Longrightarrow> masked (fst (val_step st x))"
    using validate_raw_masked [of st ch arb d c dlc ts tm now] by (auto split: prod.splits sum.splits)
qed (simp add: validator_reset_masked)

lemma val_run_masked: "val_inv st \<Longrightarrow> masked st \<Longrightarrow> masked (fst (val_run st xs))"
proof (induction xs arbitrary: st)
  case (Cons x xs)
  then show ?case
    using val_step_inv [OF Cons.prems(1), of x] val_step_masked [OF Cons.prems, of x]
    by (auto split: prod.splits) (metis fst_conv)
qed simp

section \<open>What a run can report\<close>

lemma link_step_initial:
  "link_step c l raw q = (l', v) \<Longrightarrow>
     (v = Some INITIAL \<longrightarrow> l = Fresh \<and> l' \<noteq> Fresh) \<and> (l \<noteq> Fresh \<longrightarrow> l' \<noteq> Fresh)"
  by (cases l; cases raw; cases q) (auto simp: advance_def Let_def split: if_splits)

text \<open>A frame whose configuration \<open>__post_init__\<close> accepted, and the stream it names.\<close>

fun accepted_frame :: "val_op \<Rightarrow> bool" where
  "accepted_frame (Frame ch arb d c dlc ts tm now) \<longleftrightarrow> e2e_config_init c = Inr c"
| "accepted_frame (Reset ch arb) \<longleftrightarrow> False"

fun frame_key :: "val_op \<Rightarrow> stream_key option" where
  "frame_key (Frame ch arb d c dlc ts tm now) = Some (ch, arb)"
| "frame_key (Reset ch arb) = None"

definition initials :: "stream_key \<Rightarrow> (stream_key \<times> e2e_status) list \<Rightarrow> nat" where
  "initials k out = length (filter (\<lambda>x. x = (k, INITIAL)) out)"

definition known_within :: "stream_key set \<Rightarrow> validator \<Rightarrow> bool" where
  "known_within K st \<longleftrightarrow> va_evicted st \<union> dom (dget (va_streams st)) \<subseteq> K"

lemma val_step_initials:
  assumes inv: "val_inv st" "masked st" and K: "known_within K st" "finite K" "card K < MAX_TOMBSTONE_STREAMS"
    and x: "accepted_frame x" "frame_key x = Some key" "key \<in> K"
    and run: "val_step st x = (st', out)"
  shows "known_within K st' \<and> initials k out \<le> (if link st k = Fresh then 1 else 0) \<and>
    (link st k \<noteq> Fresh \<or> initials k out = 1 \<longrightarrow> link st' k \<noteq> Fresh)"
proof -
  obtain ch arb d c dlc ts tm now where frame: "x = Frame ch arb d c dlc ts tm now"
    using x(1) by (cases x) auto
  have key: "key = (ch, arb)" and wf: "config_wf c"
    using x(1,2) by (simp_all add: frame config_init_Inr)
  obtain st1 r where res: "validate_raw st ch arb d c dlc ts tm now = (st1, r)"
    by (cases "validate_raw st ch arb d c dlc ts tm now")
  obtain l' v where step: "link_step c (link st key) (raw_counter c d) (seal_of c arb dlc d) = (l', v)"
    by (cases "link_step c (link st key) (raw_counter c d) (seal_of c arb dlc d)")
  have out: "st1 = st'" "out = (case v of None \<Rightarrow> [] | Some s \<Rightarrow> [(key, s)])"
    using run validate_raw_step(2) [OF inv(1) wf key res step]
    by (auto simp: frame res key verdict_of_def split: sum.splits)
  have "card (va_evicted st) \<le> card K"
    using K(1,2) by (auto simp: known_within_def intro: card_mono)
  then have "length (va_order st) < MAX_TOMBSTONE_STREAMS"
    using K(3) val_invD(3,4) [OF inv(1)] distinct_card by (metis le_less_trans)
  then have room: "ledger_room st key" by (simp add: ledger_room_def)
  note linked = validate_raw_step(3) [OF inv(1) wf key res step inv(2), unfolded links_after_room [OF room]]
  have "known_within K st'"
    using validate_raw_step(4,5) [OF inv(1) wf key res step]
      K(1) x(3) unfolding known_within_def out(1) by blast
  moreover have "initials k out = (if k = key \<and> v = Some INITIAL then 1 else 0)"
    by (cases v) (auto simp: initials_def out(2))
  ultimately show ?thesis
    using link_step_initial [OF step] linked by (auto simp: out(1) split: if_splits)
qed

lemma val_run_initials:
  assumes "val_inv st" "masked st" "known_within K st" "finite K" "card K < MAX_TOMBSTONE_STREAMS"
    and "\<And>x. x \<in> set xs \<Longrightarrow> accepted_frame x \<and> frame_key x \<in> Some ` K"
  shows "initials k (snd (val_run st xs)) \<le> (if link st k = Fresh then 1 else 0)"
  using assms(1-3,6)
proof (induction xs arbitrary: st)
  case (Cons x xs)
  obtain st1 out where one: "val_step st x = (st1, out)" by (cases "val_step st x")
  obtain key where key: "accepted_frame x" "frame_key x = Some key" "key \<in> K"
    using Cons.prems(4) [of x] by auto
  note step = val_step_initials [OF Cons.prems(1-3) assms(4,5) key one, of k]
  have "val_inv st1" "masked st1"
    using val_step_inv [OF Cons.prems(1), of x] val_step_masked [OF Cons.prems(1,2), of x] by (simp_all add: one)
  then have IH: "initials k (snd (val_run st1 xs)) \<le> (if link st1 k = Fresh then 1 else 0)"
    using Cons.IH [of st1] Cons.prems(4) step by auto
  have "initials k (snd (val_run st (x # xs))) = initials k out + initials k (snd (val_run st1 xs))"
    by (simp add: one initials_def split: prod.split)
  then show ?case using IH step by (auto split: if_splits)
qed (simp add: initials_def)

section \<open>Corruption\<close>

lemma seal_of_sealed: "sealed c arb dlc d n \<Longrightarrow> seal_of c arb (Some dlc) d = Good \<and> raw_counter c d = Some n"
  by (auto simp: sealed_def seal_of_def raw_counter_def)

lemma seal_of_changed:
  assumes wf: "config_wf c" and sl: "sealed c arb dlc d n" and k: "k < length d" "b \<noteq> d ! k"
    and ex: "int k = crc_byte_offset c \<or> exposes_byte c k"
  shows "seal_of c arb (Some dlc) (d[k := b]) = Corrupt"
proof -
  obtain x where x: "extract_crc d c = Inr x" "compute_checksum d c arb (Some dlc) = Inr x"
    and cov: "covers d c" using sl by (auto simp: sealed_def)
  have cov': "covers (d[k := b]) c" using cov by (simp add: covers_def)
  obtain y where y: "compute_checksum (d[k := b]) c arb (Some dlc) = Inr y"
    using checksum_total [OF wf checksum_Inr_ready [OF x(2)] cov'] by blast
  have off: "nat (crc_byte_offset c) < length d" "0 \<le> crc_byte_offset c"
    using wf cov by (auto simp: covers_def config_wf_def)
  have "extract_crc (d[k := b]) c \<noteq> Inr y"
  proof (cases "int k = crc_byte_offset c")
    case True
    then have "k = nat (crc_byte_offset c)" by simp
    moreover from this have "y = x" using checksum_ignores_slot [OF wf, of d b] x(2) y by simp
    ultimately show ?thesis
      using extract_crc_eq [OF wf, of d] extract_crc_eq [OF wf, of "d[k := b]"] off x(1) k
      by (simp add: word_uint_eq_iff)
  next
    case False
    then have "x \<noteq> y" using checksum_change [OF wf k(1) False k(2) _ x(2) y] ex by blast
    moreover have "extract_crc (d[k := b]) c = Inr x"
      using False x(1) off extract_crc_eq [OF wf, of d] extract_crc_eq [OF wf, of "d[k := b]"]
      by (simp add: nth_list_update)
    ultimately show ?thesis by simp
  qed
  then show ?thesis using cov' y by (simp add: seal_of_def)
qed

end
