(* ===== verification/E2ESpec.thy ===== *)
theory E2ESpec
  imports E2EValidator
begin

text \<open>
  The properties of the end-to-end protection as a whole: the validator's bounds and its
  refinement of the abstract monitor, at most one INITIAL verdict per stream, detection of a
  changed byte, the verdict for lost frames, and the path from the packager to the validator.
\<close>

section \<open>Sealing and receiving a stream\<close>

fun seal_all :: "packager \<Rightarrow> e2e_config \<Rightarrow> int \<Rightarrow> can_frame list \<Rightarrow> packager \<times> can_frame list py" where
  "seal_all st c now [] = (st, Inr [])"
| "seal_all st c now (f # fs) =
     act_bind (package st f c None None now) (\<lambda>st g.
       act_bind (seal_all st c now fs) (\<lambda>st gs. (st, Inr (g # gs))))"

fun receive_all :: "validator \<Rightarrow> e2e_config \<Rightarrow> int \<Rightarrow> can_frame list \<Rightarrow> validator \<times> e2e_status option list"
where
  "receive_all st c now [] = (st, [])"
| "receive_all st c now (g # gs) =
     (case validate st g c now of (st1, r) \<Rightarrow>
       case receive_all st1 c now gs of (st2, vs) \<Rightarrow> (st2, verdict_of r # vs))"

text \<open>A frame that can carry the profile's fields.\<close>

definition sealable :: "e2e_config \<Rightarrow> can_frame \<Rightarrow> bool" where
  "sealable c f \<longleftrightarrow> frame_wf f \<and>
     max (int (length (frame_data f))) (max (crc_byte_offset c) (counter_byte_offset c) + 1)
       \<le> (if frame_is_fd f then 64 else 8)"

text \<open>The verdict a stream expects next, and the packager's matching state.\<close>

definition in_step :: "e2e_config \<Rightarrow> packager \<Rightarrow> validator \<Rightarrow> stream_key \<Rightarrow> e2e_status \<Rightarrow> bool" where
  "in_step c pk st key v \<longleftrightarrow>
     (v = INITIAL \<and> link st key = Fresh) \<or>
     (v = OK \<and> (\<exists>p. link st key = At p \<and> dget (pk_counters pk) key = Some p))"

lemma own_link: "link st key \<noteq> Broken \<Longrightarrow> l' \<noteq> Broken \<Longrightarrow> links_after st key l' key = l'"
  by (simp add: links_after_def)

lemma seal_receive_one:
  assumes wf: "config_wf c" "checksum_ready c" "2 \<le> counter_modulo c"
    and f: "sealable c f" "key = (frame_channel_id f, frame_arbitration_id f)"
    and st: "val_inv st" "masked st" "in_step c pk st key v"
  obtains pk' g st' r where "package pk f c None None now = (pk', Inr g)"
    "frame_channel_id g = frame_channel_id f" "frame_arbitration_id g = frame_arbitration_id f"
    "frame_wf g"
    "validate st g c now' = (st', r)" "verdict_of r = Some v" "val_inv st'" "masked st'" "in_step c pk' st' key OK"
proof -
  define n where "n = next_counter pk key c"
  have n: "n mod counter_modulo c = n" by (simp add: n_def next_counter_def)
  define pk' where "pk' = pk\<lparr>pk_counters := dset key n (pk_counters pk)\<rparr>"
  have res: "resolve_counter pk (frame_channel_id f, frame_arbitration_id f) c None = (pk', Inr n)"
    by (simp add: resolve_auto pk'_def n_def f(2))
  obtain g where g: "package pk f c None None now = (pk', Inr g)" "frame_wf g"
    "frame_channel_id g = frame_channel_id f" "frame_arbitration_id g = frame_arbitration_id f"
    "sealed c (frame_arbitration_id f) (frame_dlc g) (frame_data g) (n mod counter_modulo c)"
    using package_ok [OF wf(1,2) _ _ res, of None now] f(1) unfolding sealable_def by metis
  note sl = seal_of_sealed [OF g(5) [unfolded n]]
  have step: "link_step c (link st key) (Some n) Good = (At n, Some v)"
    using st(3) unfolding in_step_def
  proof (elim disjE conjE exE)
    fix p
    assume p: "v = OK" "link st key = At p" "dget (pk_counters pk) key = Some p"
    have "(n - p) mod counter_modulo c = ((p + 1) - p) mod counter_modulo c"
      by (simp only: n_def next_counter_def p option.case mod_diff_left_eq)
    then have "(n - p) mod counter_modulo c = 1" using wf(3) by simp
    then show ?thesis by (simp add: p advance_def)
  qed simp
  obtain st' r where run: "validate st g c now' = (st', r)" by (cases "validate st g c now'")
  have raw: "validate_raw st (frame_channel_id f) (frame_arbitration_id f) (frame_data g) c
      (Some (frame_dlc g)) (Some (frame_timestamp_ns g)) 0 now' = (st', r)"
    using run by (simp add: validate_def g(3,4))
  have step': "link_step c (link st key) (raw_counter c (frame_data g))
      (seal_of c (frame_arbitration_id f) (Some (frame_dlc g)) (frame_data g)) = (At n, Some v)"
    using step sl by simp
  note after = validate_raw_step [OF st(1) wf(1) f(2) raw step']
  have "link st' key = At n" using after(3) [OF st(2)] by (simp add: links_after_def)
  then have "in_step c pk' st' key OK" by (simp add: in_step_def pk'_def)
  moreover have "masked st'" using validate_raw_masked [OF st(1,2)] raw by (metis fst_conv)
  ultimately show thesis using that g(1-4) run after(1,2) by blast
qed

lemma seal_receive_all:
  assumes wf: "config_wf c" "checksum_ready c" "2 \<le> counter_modulo c"
    and "\<forall>f\<in>set fs. sealable c f \<and> key = (frame_channel_id f, frame_arbitration_id f)"
    and "val_inv st" "masked st" "in_step c pk st key v"
  shows "\<exists>pk' gs. seal_all pk c now fs = (pk', Inr gs) \<and> length gs = length fs \<and>
    snd (receive_all st c now' gs) = map Some (take (length fs) (v # replicate (length fs - 1) OK))"
  using assms(4-7)
proof (induction fs arbitrary: st pk v)
  case (Cons f fs)
  have f: "sealable c f" "key = (frame_channel_id f, frame_arbitration_id f)"
    using Cons.prems(1) by simp_all
  obtain pk1 g st1 r where one: "package pk f c None None now = (pk1, Inr g)"
    "validate st g c now' = (st1, r)" "verdict_of r = Some v" "val_inv st1" "masked st1" "in_step c pk1 st1 key OK"
    using seal_receive_one [OF wf f Cons.prems(2-4)] by metis
  obtain pk2 gs where rest: "seal_all pk1 c now fs = (pk2, Inr gs)" "length gs = length fs"
    "snd (receive_all st1 c now' gs) = map Some (take (length fs) (OK # replicate (length fs - 1) OK))"
    using Cons.IH [OF _ one(4-6)] Cons.prems(1) by auto
  have ok: "take (length fs) (OK # replicate (length fs - 1) OK) = replicate (length fs) OK"
    by (cases "length fs") simp_all
  have "snd (receive_all st c now' (g # gs)) = map Some (v # replicate (length fs) OK)"
    using one(2,3) rest(3) [unfolded ok] by (cases "receive_all st1 c now' gs") simp
  then show ?case
    using one(1) rest(1,2) by (intro exI [of _ pk2] exI [of _ "g # gs"]) simp
qed simp

section \<open>Properties\<close>

text \<open>
  C38. The validator refines the abstract monitor: from every state a session can reach, the
  verdict of a frame is the one the monitor gives for the stream's link, the raw counter field and
  the state of the seal, and the links afterwards are the monitor's: the stream's own moves as the
  monitor says, a stream evicted for it becomes Broken, and a stream whose tombstone the eviction
  pushes off the full ledger goes from Broken to Fresh, every other link stays. Only when the forgotten
  tombstone is the stream's own and its frame has no counter field does the stream end Fresh instead of
  Broken (\<open>links_after\<close>).
\<close>

theorem validator_refines_monitor:
  assumes "st = fst (val_run validator_init ops)" "e2e_config_init c = Inr c"
    and "validate_raw st ch arb d c dlc ts tm now = (st', r)"
    and "link_step c (link st (ch, arb)) (raw_counter c d) (seal_of c arb dlc d) = (l', v)"
  shows "verdict_of r = v \<and> link st' = links_after st (ch, arb) l' \<and>
    (\<forall>k. forgotten st (ch, arb) = Some k \<longrightarrow> link st k = Broken)"
proof -
  have inv: "val_inv st" "masked st"
    using val_run_inv [OF val_inv_init, of ops] val_run_masked [OF val_inv_init, of ops] assms(1) by simp_all
  have "config_wf c" using assms(2) by (simp add: config_init_Inr)
  from validate_raw_step(2,3) [OF inv(1) this refl assms(3,4)]
  show ?thesis using inv(2) forgotten_broken [OF inv(1)] by blast
qed

text \<open>A sealed payload of the example configuration: counter 3, two data bytes.\<close>

definition demo_payload :: bytes where
  "demo_payload = [0x81, 3, 0x55, 0xAA]"

lemma demo_sealed: "sealed p2_demo 7 4 demo_payload 3"
proof -
  have "extract_counter demo_payload p2_demo = Inr 3" by code_simp
  moreover have "extract_crc demo_payload p2_demo = Inr 129" by code_simp
  moreover have "compute_checksum demo_payload p2_demo 7 (Some 4) = Inr 129" by code_simp
  ultimately show ?thesis by (simp add: sealed_def covers_def p2_demo_def default_config_def demo_payload_def)
qed

theorem validator_refines_monitor_witness:
  "verdict_of (snd (validate_raw validator_init ''can0'' 7 demo_payload p2_demo (Some 4) None 0 5)) =
     Some INITIAL"
proof -
  obtain st' r where run: "validate_raw validator_init ''can0'' 7 demo_payload p2_demo (Some 4) None 0 5 = (st', r)"
    by (cases "validate_raw validator_init ''can0'' 7 demo_payload p2_demo (Some 4) None 0 5")
  have "link validator_init (''can0'', 7) = Fresh" by (simp add: link_def validator_init_def)
  then have "link_step p2_demo (link validator_init (''can0'', 7)) (raw_counter p2_demo demo_payload)
      (seal_of p2_demo 7 (Some 4) demo_payload) = (At 3, Some INITIAL)"
    using seal_of_sealed [OF demo_sealed] by simp
  from validator_refines_monitor [OF _ p2_demo_ok run this, of "[]"] show ?thesis by (simp add: run)
qed

text \<open>
  Whatever frames and resets a session consists of, the validator tracks at most 1024
  streams and remembers at most 2048 evicted ones, and its queue lists exactly the remembered
  ones, once each.
\<close>

theorem validator_bounded:
  "let st = fst (val_run validator_init ops) in
     length (va_streams st) \<le> 1024 \<and> distinct (dkeys (va_streams st)) \<and>
     card (va_evicted st) \<le> 2048 \<and> distinct (va_order st) \<and> set (va_order st) = va_evicted st"
  using val_invD [OF val_run_inv [OF val_inv_init, of ops]]
  by (simp add: MAX_TRACKED_STREAMS_def MAX_TOMBSTONE_STREAMS_def Let_def)

text \<open>
  Among fewer than 2048 streams a stream is reported INITIAL at most once, however often it
  is evicted and returns: an eviction cannot be used to present it as new.
\<close>

theorem initial_at_most_once:
  assumes "\<forall>x\<in>set xs. accepted_frame x" "card (set (map frame_key xs)) < 2048"
  shows "initials k (snd (val_run validator_init xs)) \<le> 1"
proof -
  define K where "K = {k. Some k \<in> set (map frame_key xs)}"
  have keys: "frame_key x \<in> Some ` K" if "x \<in> set xs" for x
    using assms(1) that by (cases x) (force simp: K_def)+
  have sub: "Some ` K \<subseteq> set (map frame_key xs)" by (auto simp: K_def)
  then have "finite (Some ` K)" by (rule finite_subset) simp
  then have fin: "finite K" by (simp add: finite_image_iff)
  have "card K = card (Some ` K)" by (simp add: card_image)
  also have "\<dots> \<le> card (set (map frame_key xs))" using sub by (rule card_mono [rotated]) simp
  finally have "card K < MAX_TOMBSTONE_STREAMS" using assms(2) by (simp add: MAX_TOMBSTONE_STREAMS_def)
  moreover have "known_within K validator_init" by (simp add: known_within_def validator_init_def)
  ultimately have "initials k (snd (val_run validator_init xs)) \<le> (if link validator_init k = Fresh then 1 else 0)"
    using keys assms(1) fin by (intro val_run_initials [OF val_inv_init masked_init]) auto
  then show ?thesis by (simp split: if_splits)
qed

theorem initial_at_most_once_witness:
  "initials (''can0'', 7) (snd (val_run validator_init
     [Frame ''can0'' 7 demo_payload p2_demo (Some 4) None 0 5,
      Frame ''can0'' 7 demo_payload p2_demo (Some 4) None 0 6])) \<le> 1"
  by (rule initial_at_most_once) (simp_all add: p2_demo_ok)

text \<open>
  C39. A payload sealed under an accepted configuration, with one byte changed on the way, is
  reported CRC_ERROR and does not move the stream, whatever the validator has seen, provided the
  stream bears no tombstone (an evicted stream's next frame is WRONG_SEQUENCE whatever it holds).
  Excepted are the counter byte of profile 2, which selects the data ID, so that a change of it can
  pass, and every byte but the checksum's under a CUSTOM polynomial without constant term
  (\<open>exposes_byte\<close>).
\<close>

theorem corruption_detected:
  assumes "st = fst (val_run validator_init ops)" "e2e_config_init c = Inr c"
    and "sealed c arb dlc d n" "k < length d" "b \<noteq> d ! k"
    and "int k = crc_byte_offset c \<or> exposes_byte c k"
    and "(ch, arb) \<notin> va_evicted st"
    and "validate_raw st ch arb (d[k := b]) c (Some dlc) ts tm now = (st', r)"
  shows "verdict_of r = Some CRC_ERROR \<and> link st' (ch, arb) = link st (ch, arb)"
proof -
  have inv: "val_inv st" using val_run_inv [OF val_inv_init, of ops] assms(1) by simp
  have masked: "masked st" using val_run_masked [OF val_inv_init, of ops] assms(1) by simp
  have wf: "config_wf c" using assms(2) by (simp add: config_init_Inr)
  have "link st (ch, arb) \<noteq> Broken"
    using assms(7) by (auto simp: link_def seen_def split: option.splits)
  moreover from this have "link_step c (link st (ch, arb)) (raw_counter c (d[k := b]))
      (seal_of c arb (Some dlc) (d[k := b])) = (link st (ch, arb), Some CRC_ERROR)"
    using seal_of_changed [OF wf assms(3-6)] by (cases "link st (ch, arb)") simp_all
  note step = validate_raw_step [OF inv wf refl assms(8) this]
  ultimately show ?thesis using step(2,3) own_link masked by simp
qed

theorem corruption_detected_witness:
  "verdict_of (snd (validate_raw validator_init ''can0'' 7 (demo_payload[2 := 0x54]) p2_demo (Some 4)
     None 0 5)) = Some CRC_ERROR"
proof -
  obtain st' r where run: "validate_raw validator_init ''can0'' 7 (demo_payload[2 := 0x54]) p2_demo
      (Some 4) None 0 5 = (st', r)"
    by (cases "validate_raw validator_init ''can0'' 7 (demo_payload[2 := 0x54]) p2_demo (Some 4) None 0 5")
  have "exposes_byte p2_demo 2" by (simp add: exposes_byte_def p2_demo_def default_config_def)
  then have "verdict_of r = Some CRC_ERROR"
    using corruption_detected [OF _ p2_demo_ok demo_sealed _ _ _ _ run, of "[]"]
    by (simp add: demo_payload_def validator_init_def)
  then show ?thesis by (simp add: run)
qed

text \<open>
  When \<open>lost\<close> frames of a stream at counter \<open>p\<close> did not arrive, the next sealed frame is
  reported OK for none, SOME_LOST when fewer than \<open>max_delta_counter\<close>, WRONG_SEQUENCE when more
  but less than a cycle of the counter, and REPEATED when exactly a cycle short of one is gone.
\<close>

theorem gap_verdict:
  assumes "st = fst (val_run validator_init ops)" "e2e_config_init c = Inr c"
    and "link st (ch, arb) = At p" "sealed c arb dlc d ((p + 1 + int lost) mod counter_modulo c)"
    and "int lost < counter_modulo c" "2 \<le> counter_modulo c"
    and "validate_raw st ch arb d c (Some dlc) ts tm now = (st', r)"
  shows "verdict_of r = Some
    (if lost = 0 then OK
     else if int lost + 1 = counter_modulo c then REPEATED
     else if int lost < max_delta_counter c then SOME_LOST
     else WRONG_SEQUENCE)"
proof -
  have inv: "val_inv st" using val_run_inv [OF val_inv_init, of ops] assms(1) by simp
  have wf: "config_wf c" using assms(2) by (simp add: config_init_Inr)
  have "((p + 1 + int lost) mod counter_modulo c - p) mod counter_modulo c =
      ((p + 1 + int lost) - p) mod counter_modulo c"
    by (rule mod_diff_left_eq)
  also have "\<dots> = (if int lost + 1 = counter_modulo c then 0 else int lost + 1)"
    using assms(5) by (simp add: add.commute)
  finally have gap: "((p + 1 + int lost) mod counter_modulo c - p) mod counter_modulo c =
      (if int lost + 1 = counter_modulo c then 0 else int lost + 1)" .
  define l' v where "l' = fst (advance c p ((p + 1 + int lost) mod counter_modulo c))"
    and "v = snd (advance c p ((p + 1 + int lost) mod counter_modulo c))"
  have "link_step c (link st (ch, arb)) (raw_counter c d) (seal_of c arb (Some dlc) d) = (l', Some v)"
    using seal_of_sealed [OF assms(4)] by (simp add: assms(3) l'_def v_def map_prod_def split: prod.split)
  from validate_raw_step(2) [OF inv wf refl assms(7) this] show ?thesis
    using assms(6) by (auto simp: v_def advance_def gap Let_def)
qed

theorem gap_verdict_witness:
  "verdict_of (snd (validate_raw (fst (val_run validator_init
       [Frame ''can0'' 7 [0x9A, 1, 0x55, 0xAA] p2_demo (Some 4) None 0 5]))
     ''can0'' 7 demo_payload p2_demo (Some 4) None 0 6)) = Some SOME_LOST"
proof -
  define st where "st = fst (val_run validator_init
    [Frame ''can0'' 7 [0x9A, 1, 0x55, 0xAA] p2_demo (Some 4) None 0 5])"
  have "link st (''can0'', 7) = At 1" unfolding st_def by code_simp
  moreover have "sealed p2_demo 7 4 demo_payload ((1 + 1 + int 1) mod counter_modulo p2_demo)"
    using demo_sealed by (simp add: p2_demo_def default_config_def)
  moreover obtain st' r where run: "validate_raw st ''can0'' 7 demo_payload p2_demo (Some 4) None 0 6 = (st', r)"
    by (cases "validate_raw st ''can0'' 7 demo_payload p2_demo (Some 4) None 0 6")
  ultimately have "verdict_of r = Some SOME_LOST"
    using gap_verdict [OF st_def p2_demo_ok, of "''can0''" 7 1 4 demo_payload 1 None 0 6 st' r]
    by (simp add: p2_demo_def default_config_def)
  then show ?thesis unfolding st_def [symmetric] run snd_conv .
qed

text \<open>
  C37. Frames of one stream, packaged with automatic counters and validated in order, are sealed
  without error and all accepted: the first with the verdict the stream was due (INITIAL for a new
  one, OK for one the packager and the validator already agree on), the others OK. This needs a
  configuration whose checksum can be computed at all (\<open>checksum_ready\<close>: profile 2 has its data IDs, MQB
  a data ID of two bytes), a modulus of at least two, and frames that can carry the profile's fields
  (\<open>sealable\<close>).
\<close>

theorem packaged_stream_accepted:
  assumes "e2e_config_init c = Inr c" "checksum_ready c" "2 \<le> counter_modulo c"
    and "\<forall>f\<in>set fs. sealable c f \<and> key = (frame_channel_id f, frame_arbitration_id f)"
    and "st = fst (val_run validator_init ops)" "in_step c pk st key v"
  shows "\<exists>pk' gs. seal_all pk c now fs = (pk', Inr gs) \<and> length gs = length fs \<and>
    snd (receive_all st c now' gs) = map Some (take (length fs) (v # replicate (length fs - 1) OK))"
proof -
  have "val_inv st" "masked st"
    using val_run_inv [OF val_inv_init, of ops] val_run_masked [OF val_inv_init, of ops] assms(5) by simp_all
  moreover have "config_wf c" using assms(1) by (simp add: config_init_Inr)
  ultimately show ?thesis using seal_receive_all [OF _ assms(2-4) _ _ assms(6)] by blast
qed

theorem packaged_stream_accepted_witness:
  "\<exists>pk' gs. seal_all packager_init p2_demo 0 [fd_frame_demo, fd_frame_demo] = (pk', Inr gs) \<and>
    length gs = length [fd_frame_demo, fd_frame_demo] \<and>
    snd (receive_all validator_init p2_demo 0 gs) =
      map Some (take (length [fd_frame_demo, fd_frame_demo])
        (INITIAL # replicate (length [fd_frame_demo, fd_frame_demo] - 1) OK))"
proof (rule packaged_stream_accepted [OF p2_demo_ok])
  show "checksum_ready p2_demo" "2 \<le> counter_modulo p2_demo"
    by (simp_all add: checksum_ready_def p2_demo_def default_config_def)
  have "can_frame_init fd_frame_demo = Inr fd_frame_demo" by code_simp
  then have "frame_wf fd_frame_demo" by (simp only: can_frame_init_Inr)
  then show "\<forall>f\<in>set [fd_frame_demo, fd_frame_demo]. sealable p2_demo f \<and>
      (''can0'', 0x123) = (frame_channel_id f, frame_arbitration_id f)"
    by (simp add: sealable_def fd_frame_demo_def p2_demo_def default_config_def)
  show "validator_init = fst (val_run validator_init [])" by simp
  show "in_step p2_demo packager_init validator_init (''can0'', 0x123) INITIAL"
    by (simp add: in_step_def link_def validator_init_def)
qed

end
