(* ===== verification/PyText.thy ===== *)
theory PyText
  imports Prelude
begin

text \<open>
  The operations of Python's \<open>str\<close>, \<open>int\<close> and \<open>bytes\<close> that the authorization tokens are printed
  and parsed with: \<open>strip\<close>, \<open>split\<close>, \<open>str(n)\<close>, \<open>int(s)\<close>, \<open>int(s, 16)\<close>, \<open>bytes.hex\<close> and
  \<open>bytes.fromhex\<close>. A string is a list of 8-bit characters; the whitespace, digit and separator
  rules are those of CPython for these characters. The lemmas are the round trips the token
  theories need.
\<close>

section \<open>Characters\<close>

abbreviation code :: "char \<Rightarrow> nat" where
  "code c \<equiv> of_char c"

definition is_space :: "char \<Rightarrow> bool" where
  "is_space c \<longleftrightarrow> (9 \<le> code c \<and> code c \<le> 13) \<or> (28 \<le> code c \<and> code c \<le> 32) \<or>
     code c = 0x85 \<or> code c = 0xA0"

definition is_ascii_space :: "char \<Rightarrow> bool" where
  "is_ascii_space c \<longleftrightarrow> (9 \<le> code c \<and> code c \<le> 13) \<or> code c = 32"

definition hex_value :: "char \<Rightarrow> nat option" where
  "hex_value c =
     (if 48 \<le> code c \<and> code c \<le> 57 then Some (code c - 48)
      else if 97 \<le> code c \<and> code c \<le> 102 then Some (code c - 87)
      else if 65 \<le> code c \<and> code c \<le> 70 then Some (code c - 55)
      else None)"

definition digit_value :: "nat \<Rightarrow> char \<Rightarrow> nat option" where
  "digit_value radix c =
     (case hex_value c of None \<Rightarrow> None | Some v \<Rightarrow> if v < radix then Some v else None)"

definition hex_char :: "nat \<Rightarrow> char" where
  "hex_char n = char_of (if n < 10 then 48 + n else 87 + n)"

text \<open>Texts shown to people may hold any character; they are lists of code points.\<close>

type_synonym utext = "nat list"

definition utext :: "string \<Rightarrow> utext" where
  "utext s = map of_char s"

definition em_dash :: utext where
  "em_dash = [0x2014]"

section \<open>Strings\<close>

definition py_strip :: "string \<Rightarrow> string" where
  "py_strip s = rev (dropWhile is_space (rev (dropWhile is_space s)))"

fun py_split :: "char \<Rightarrow> string \<Rightarrow> string list" where
  "py_split sep [] = [[]]"
| "py_split sep (c # cs) =
     (if c = sep then [] # py_split sep cs
      else case py_split sep cs of [] \<Rightarrow> [[c]] | p # ps \<Rightarrow> (c # p) # ps)"

text \<open>Digits with single underscores between them, as an \<open>int\<close> literal allows; the flag says
  whether the previous character was a digit.\<close>

fun py_digits :: "nat \<Rightarrow> bool \<Rightarrow> nat \<Rightarrow> string \<Rightarrow> nat option" where
  "py_digits radix prev acc [] = (if prev then Some acc else None)"
| "py_digits radix prev acc (c # cs) =
     (case digit_value radix c of
        Some v \<Rightarrow> py_digits radix True (radix * acc + v) cs
      | None \<Rightarrow> if c = CHR ''_'' \<and> prev then py_digits radix False acc cs else None)"

definition py_sign :: "string \<Rightarrow> int \<times> string" where
  "py_sign s = (case s of
     c # cs \<Rightarrow> if c = CHR ''-'' then (-1, cs) else if c = CHR ''+'' then (1, cs) else (1, s)
   | [] \<Rightarrow> (1, []))"

text \<open>\<open>int(s)\<close>: ValueError is None; more than 4300 digits are refused.\<close>

definition py_int :: "string \<Rightarrow> int option" where
  "py_int s =
     (case py_sign (py_strip s) of (sg, body) \<Rightarrow>
       if length (filter (\<lambda>c. digit_value 10 c \<noteq> None) body) > 4300 then None
       else map_option (\<lambda>n. sg * int n) (py_digits 10 False 0 body))"

text \<open>\<open>int(s, 16)\<close> succeeds: an optional \<open>0x\<close> prefix, then hex digits.\<close>

definition py_int16_ok :: "string \<Rightarrow> bool" where
  "py_int16_ok s =
     (case py_sign (py_strip s) of (sg, body) \<Rightarrow>
       (case body of
          z # x # rest \<Rightarrow>
            if z = CHR ''0'' \<and> (x = CHR ''x'' \<or> x = CHR ''X'')
            then py_digits 16 False 0 (case rest of c # cs \<Rightarrow> if c = CHR ''_'' then cs else rest | [] \<Rightarrow> []) \<noteq> None
            else py_digits 16 False 0 body \<noteq> None
        | _ \<Rightarrow> py_digits 16 False 0 body \<noteq> None))"

fun dec_nat :: "nat \<Rightarrow> string" where
  "dec_nat n = (if n < 10 then [hex_char n] else dec_nat (n div 10) @ [hex_char (n mod 10)])"

declare dec_nat.simps [simp del]

definition py_str :: "int \<Rightarrow> string" where
  "py_str n = (if n < 0 then CHR ''-'' # dec_nat (nat (- n)) else dec_nat (nat n))"

section \<open>Bytes as hexadecimal text\<close>

fun py_hex :: "bytes \<Rightarrow> string" where
  "py_hex [] = []"
| "py_hex (b # bs) = hex_char (unat b div 16) # hex_char (unat b mod 16) # py_hex bs"

fun py_fromhex :: "string \<Rightarrow> bytes option" where
  "py_fromhex [] = Some []"
| "py_fromhex [c] = (if is_ascii_space c then Some [] else None)"
| "py_fromhex (c # c' # cs) =
     (if is_ascii_space c then py_fromhex (c' # cs)
      else case (hex_value c, hex_value c') of
        (Some h, Some l) \<Rightarrow> map_option (\<lambda>bs. word_of_nat (16 * h + l) # bs) (py_fromhex cs)
      | _ \<Rightarrow> None)"

section \<open>Round trips\<close>

lemma code_char_of [simp]: "n < 256 \<Longrightarrow> code (char_of n) = n"
  by (simp add: take_bit_eq_mod)

lemma hex_char_code [simp]: "n < 16 \<Longrightarrow> code (hex_char n) = (if n < 10 then 48 + n else 87 + n)"
  by (simp add: hex_char_def)

lemma hex_value_char [simp]: "n < 16 \<Longrightarrow> hex_value (hex_char n) = Some n"
  by (auto simp: hex_value_def)

lemma hex_char_not_space [simp]: "n < 16 \<Longrightarrow> \<not> is_space (hex_char n) \<and> \<not> is_ascii_space (hex_char n)"
  by (auto simp: is_space_def is_ascii_space_def)

lemma hex_char_neq: "n < 16 \<Longrightarrow> code c < 48 \<or> (57 < code c \<and> code c < 97) \<Longrightarrow> hex_char n \<noteq> c"
  by (auto split: if_splits)

lemma fromhex_hex [simp]: "py_fromhex (py_hex bs) = Some bs"
proof (induction bs)
  case (Cons b bs)
  have "unat b < 256" using unsigned_less [of b] by simp
  then have "unat b div 16 < 16" "unat b mod 16 < 16" by (simp_all add: less_mult_imp_div_less)
  then show ?case using Cons by (simp add: mult_div_mod_eq)
qed simp

lemma length_hex [simp]: "length (py_hex bs) = 2 * length bs"
  by (induction bs) simp_all

lemma hex_chars: "c \<in> set (py_hex bs) \<Longrightarrow> \<exists>n < 16. c = hex_char n"
proof (induction bs)
  case (Cons b bs)
  have "unat b < 256" using unsigned_less [of b] by simp
  then have "unat b div 16 < 16" "unat b mod 16 < 16" by (simp_all add: less_mult_imp_div_less)
  then show ?case using Cons unfolding py_hex.simps set_simps insert_iff by blast
qed simp

lemma dec_chars: "c \<in> set (dec_nat n) \<Longrightarrow> \<exists>d < 10. c = hex_char d"
proof (induction n rule: dec_nat.induct)
  case (1 n)
  show ?case
  proof (cases "n < 10")
    case True
    then show ?thesis using "1.prems" by (auto simp: dec_nat.simps [of n])
  next
    case False
    then have "c \<in> set (dec_nat (n div 10)) \<or> c = hex_char (n mod 10)"
      using "1.prems" by (simp add: dec_nat.simps [of n]) blast
    then show ?thesis using "1.IH" False by (auto intro: exI [of _ "n mod 10"])
  qed
qed

lemma dec_nonempty [simp]: "dec_nat n \<noteq> []"
  by (simp add: dec_nat.simps [of n])


lemma digits_dec: "py_digits 10 prev acc (dec_nat n @ s) = py_digits 10 True (acc * 10 ^ length (dec_nat n) + n) s"
proof (induction n arbitrary: s rule: dec_nat.induct)
  case (1 n)
  show ?case
  proof (cases "n < 10")
    case True
    then show ?thesis by (simp add: dec_nat.simps [of n] digit_value_def mult.commute)
  next
    case False
    have "py_digits 10 prev acc (dec_nat n @ s) =
        py_digits 10 True (acc * 10 ^ length (dec_nat (n div 10)) + n div 10) (hex_char (n mod 10) # s)"
      using "1.IH" False by (simp add: dec_nat.simps [of n])
    also have "\<dots> = py_digits 10 True (acc * 10 ^ length (dec_nat n) + n) s"
      using False by (simp add: digit_value_def dec_nat.simps [of n] algebra_simps)
    finally show ?thesis .
  qed
qed

lemma dec_length: "n < 10 ^ k \<Longrightarrow> 0 < k \<Longrightarrow> length (dec_nat n) \<le> k"
proof (induction k arbitrary: n)
  case (Suc k)
  show ?case
  proof (cases "n < 10")
    case False
    then have "n div 10 < 10 ^ k" "0 < k"
      using Suc.prems by (auto simp: less_mult_imp_div_less mult.commute intro: gr0I)
    then show ?thesis using Suc.IH False by (simp add: dec_nat.simps [of n])
  qed (simp add: dec_nat.simps [of n])
qed simp

text \<open>A string whose characters are all digits of some base.\<close>

definition plain :: "string \<Rightarrow> bool" where
  "plain s \<longleftrightarrow> s \<noteq> [] \<and> (\<forall>c\<in>set s. \<exists>n < 16. c = hex_char n)"

lemma plain_dec [simp]: "plain (dec_nat n)"
  unfolding plain_def
proof (intro conjI ballI dec_nonempty)
  fix c
  assume "c \<in> set (dec_nat n)"
  then obtain d where "d < 10" "c = hex_char d" using dec_chars by blast
  then show "\<exists>n < 16. c = hex_char n" by (intro exI [of _ d]) simp
qed

lemma plain_hex: "bs \<noteq> [] \<Longrightarrow> plain (py_hex bs)"
  unfolding plain_def using length_hex [of bs] hex_chars [of _ bs] by (metis length_0_conv mult_is_0 zero_neq_numeral)

lemma dropWhile_hd: "xs \<noteq> [] \<Longrightarrow> \<not> P (hd xs) \<Longrightarrow> dropWhile P (xs @ t) = xs @ t"
  by (cases xs) simp_all

lemma dropWhile_plain_end: "plain s \<Longrightarrow> dropWhile is_space (s @ t) = s @ t \<and> dropWhile is_space (rev s @ t) = rev s @ t"
proof -
  assume "plain s"
  then have "s \<noteq> []" "\<not> is_space (hd s)" "\<not> is_space (last s)"
    unfolding plain_def by (blast, metis hd_in_set hex_char_not_space, metis last_in_set hex_char_not_space)
  then show ?thesis by (simp add: dropWhile_hd hd_rev)
qed

lemma strip_plain_ends: "plain a \<Longrightarrow> plain b \<Longrightarrow> py_strip (a @ m @ b) = a @ m @ b"
  using dropWhile_plain_end [of a "m @ b"] dropWhile_plain_end [of b "rev m @ rev a"]
  by (simp add: py_strip_def)

lemma strip_plain [simp]: "plain s \<Longrightarrow> py_strip s = s"
  using dropWhile_plain_end [of s "[]"] by (simp add: py_strip_def)

lemma split_plain: "sep \<notin> set s \<Longrightarrow> py_split sep (s @ sep # t) = s # py_split sep t"
  by (induction s) auto

lemma split_last: "sep \<notin> set s \<Longrightarrow> py_split sep s = [s]"
  by (induction s) auto

lemma plain_no_sep: "plain s \<Longrightarrow> code sep < 48 \<or> (57 < code sep \<and> code sep < 97) \<Longrightarrow> sep \<notin> set s"
  unfolding plain_def by (metis hex_char_neq)

lemma int_dec: "n < 10 ^ 4300 \<Longrightarrow> py_int (dec_nat n) = Some (int n)"
proof -
  assume n: "n < 10 ^ 4300"
  obtain c cs where s: "dec_nat n = c # cs" by (cases "dec_nat n") simp_all
  then obtain d where d: "c = hex_char d" "d < 10" using dec_chars [of c n] by auto
  have "c \<noteq> CHR ''-''" "c \<noteq> CHR ''+''" using d hex_char_neq by simp_all
  then have sign: "py_sign (dec_nat n) = (1, dec_nat n)" by (simp add: py_sign_def s)
  have "length (filter P (dec_nat n)) \<le> 4300" for P
    by (rule order_trans [OF length_filter_le dec_length [OF n]]) simp
  then show ?thesis
    using digits_dec [of False 0 n "[]"] by (simp add: py_int_def sign not_less)
qed

section \<open>Hexadecimal digits\<close>

definition hexdigits :: "string \<Rightarrow> bool" where
  "hexdigits s \<longleftrightarrow> s \<noteq> [] \<and> (\<forall>c\<in>set s. hex_value c \<noteq> None)"

lemma plain_hexdigits: "plain s \<Longrightarrow> hexdigits s"
  unfolding plain_def hexdigits_def by (metis hex_value_char option.distinct(1))

lemma hex_value_not_space: "hex_value c \<noteq> None \<Longrightarrow> \<not> is_space c \<and> \<not> is_ascii_space c"
  by (auto simp: hex_value_def is_space_def is_ascii_space_def split: if_splits)

lemma strip_hexdigits [simp]: "hexdigits s \<Longrightarrow> py_strip s = s"
proof -
  assume s: "hexdigits s"
  then have "\<not> is_space (hd s)" "\<not> is_space (hd (rev s))"
    using hex_value_not_space unfolding hexdigits_def by (metis hd_in_set, metis hd_in_set rev_is_Nil_conv set_rev)
  then show "py_strip s = s"
    using s dropWhile_hd [of s is_space "[]"] dropWhile_hd [of "rev s" is_space "[]"]
    by (simp add: py_strip_def hexdigits_def)
qed

lemma digits_hexdigits: "\<forall>c\<in>set s. hex_value c \<noteq> None \<Longrightarrow> s \<noteq> [] \<or> prev \<Longrightarrow> py_digits 16 prev acc s \<noteq> None"
proof (induction s arbitrary: prev acc)
  case (Cons c s)
  then obtain v where v: "hex_value c = Some v" by auto
  then have "v < 16" by (auto simp: hex_value_def split: if_splits)
  then show ?case using Cons v by (simp add: digit_value_def)
qed simp

lemma int16_hexdigits [simp]: "hexdigits s \<Longrightarrow> py_int16_ok s"
proof -
  assume s: "hexdigits s"
  then obtain c cs where cs: "s = c # cs" by (cases s) (auto simp: hexdigits_def)
  have h: "\<forall>x\<in>set s. hex_value x \<noteq> None" using s by (simp add: hexdigits_def)
  have "hex_value (CHR ''-'') = None" "hex_value (CHR ''+'') = None" "hex_value (CHR ''x'') = None"
    "hex_value (CHR ''X'') = None" by (simp_all add: hex_value_def)
  then have no: "CHR ''-'' \<notin> set s" "CHR ''+'' \<notin> set s" "CHR ''x'' \<notin> set s" "CHR ''X'' \<notin> set s"
    using h by auto
  have sign: "py_sign (py_strip s) = (1, s)"
    using s no by (auto simp: py_sign_def cs)
  have d: "py_digits 16 False 0 s \<noteq> None" by (rule digits_hexdigits [OF h]) (simp add: cs)
  show "py_int16_ok s"
  proof (cases cs)
    case Nil
    then show ?thesis using d unfolding py_int16_ok_def sign by (simp add: cs)
  next
    case (Cons x rest)
    then have "x \<noteq> CHR ''x''" "x \<noteq> CHR ''X''" using no by (auto simp: cs)
    then show ?thesis using d unfolding py_int16_ok_def sign by (simp add: cs Cons)
  qed
qed

lemma fromhex_digits:
  "py_fromhex s = Some bs \<Longrightarrow> \<forall>c\<in>set s. \<not> is_ascii_space c \<Longrightarrow>
   length s = 2 * length bs \<and> (\<forall>c\<in>set s. hex_value c \<noteq> None)"
proof (induction s arbitrary: bs rule: py_fromhex.induct)
  case (3 c c' cs)
  then obtain h l ys where "hex_value c = Some h" "hex_value c' = Some l" "py_fromhex cs = Some ys"
    "bs = word_of_nat (16 * h + l) # ys"
    by (auto split: option.splits)
  then show ?case using "3.IH"(2) "3.prems" by auto
qed (auto split: if_splits)

section \<open>Formatted numbers\<close>

text \<open>\<open>f"{n:X}"\<close> and \<open>f"{n:0wX}"\<close>\<close>

fun hex_upper :: "nat \<Rightarrow> string" where
  "hex_upper n = (if n < 16 then [] else hex_upper (n div 16)) @
     [char_of (if n mod 16 < 10 then 48 + n mod 16 else 55 + n mod 16)]"

declare hex_upper.simps [simp del]

definition hex_padded :: "nat \<Rightarrow> int \<Rightarrow> string" where
  "hex_padded w n =
     (let sign = (if n < 0 then ''-'' else []); h = hex_upper (nat \<bar>n\<bar>) in
      sign @ replicate (w - length sign - length h) CHR ''0'' @ h)"

section \<open>Text to sign\<close>

text \<open>A Python string as the bytes of its UTF-8 encoding; every string signed here is ASCII.\<close>

definition encode :: "string \<Rightarrow> bytes" where
  "encode s = map (\<lambda>c. word_of_nat (of_char c)) s"

end
