(* ===== verification/Supervisor.thy ===== *)
theory Supervisor
  imports PyText
begin

text \<open>
  \<open>src/safety/state_machine.py\<close>: the safety supervisor that governs every transmit permission.
  Its state machine, the fault paths, the arm tokens (minting, verification, the ledger of spent
  tokens and its pruning) and the gates of \<open>arm_tx\<close> / \<open>activate_tx\<close>. Reasons are lists of code
  points, since the code appends an ellipsis that no 8-bit character represents. HMAC-SHA256 is the
  parameter \<open>mac\<close>, random nonces, clock readings, the clock's self-description and the state of
  the bound E-Stop are arguments. The calls made to listeners are logged in \<open>sv_calls\<close>; what a
  listener does is a later operation. The lock makes each phase below atomic.
\<close>

section \<open>Text of reasons\<close>

definition MAX_REASON_LEN :: nat where
  "MAX_REASON_LEN = 512"

definition sanitize_reason :: "utext \<Rightarrow> utext" where
  "sanitize_reason reason =
     (let reason = (if length reason > MAX_REASON_LEN
                    then take MAX_REASON_LEN reason @ 0x2026 # utext ''[truncated]'' else reason) in
      map (\<lambda>c. if c \<le> 0x1F \<or> c = 0x7F then of_char (CHR ''?'') else c) reason)"

section \<open>State\<close>

datatype safety_state = STARTUP | SAFE | PASSIVE | ARMED_TX | ACTIVE | FAULT

instantiation safety_state :: enum
begin

definition enum_safety_state :: "safety_state list" where
  "enum_safety_state = [STARTUP, SAFE, PASSIVE, ARMED_TX, ACTIVE, FAULT]"

definition enum_all_safety_state :: "(safety_state \<Rightarrow> bool) \<Rightarrow> bool" where
  "enum_all_safety_state P \<longleftrightarrow> list_all P enum_class.enum"

definition enum_ex_safety_state :: "(safety_state \<Rightarrow> bool) \<Rightarrow> bool" where
  "enum_ex_safety_state P \<longleftrightarrow> list_ex P enum_class.enum"

instance
proof
  show univ: "(UNIV :: safety_state set) = set enum_class.enum"
    unfolding enum_safety_state_def by (auto intro: safety_state.exhaust)
  show "distinct (enum_class.enum :: safety_state list)"
    unfolding enum_safety_state_def by simp
  show "enum_class.enum_all P \<longleftrightarrow> Ball UNIV P" for P :: "safety_state \<Rightarrow> bool"
    by (simp only: enum_all_safety_state_def univ list_all_iff)
  show "enum_class.enum_ex P \<longleftrightarrow> Bex UNIV P" for P :: "safety_state \<Rightarrow> bool"
    by (simp only: enum_ex_safety_state_def univ list_ex_iff)
qed

end

definition state_value :: "safety_state \<Rightarrow> string" where
  "state_value s = (case s of STARTUP \<Rightarrow> ''STARTUP'' | SAFE \<Rightarrow> ''SAFE'' | PASSIVE \<Rightarrow> ''PASSIVE''
     | ARMED_TX \<Rightarrow> ''ARMED_TX'' | ACTIVE \<Rightarrow> ''ACTIVE'' | FAULT \<Rightarrow> ''FAULT'')"

fun ALLOWED_TRANSITIONS :: "safety_state \<Rightarrow> safety_state set" where
  "ALLOWED_TRANSITIONS STARTUP = {SAFE, FAULT}"
| "ALLOWED_TRANSITIONS SAFE = {PASSIVE, FAULT}"
| "ALLOWED_TRANSITIONS PASSIVE = {ARMED_TX, SAFE, FAULT}"
| "ALLOWED_TRANSITIONS ARMED_TX = {ACTIVE, PASSIVE, FAULT}"
| "ALLOWED_TRANSITIONS ACTIVE = {ARMED_TX, PASSIVE, FAULT}"
| "ALLOWED_TRANSITIONS FAULT = {PASSIVE, SAFE}"

text \<open>One reading of the clocks: monotonic nanoseconds and wall time.\<close>

record instant =
  mono_ns :: int
  wall_ns :: int

record transition_record =
  from_state :: safety_state
  to_state :: safety_state
  tr_reason :: utext
  tr_epoch :: int
  monotonic_timestamp_ns :: int
  wall_time_utc :: int
  duration_ns :: int

record supervisor =
  sv_state :: safety_state
  sv_estop_bound :: bool
  sv_auth_secret :: "bytes option"
  sv_allow_unauthenticated :: bool
  sv_require_arm_auth :: bool
  sv_consumed :: "bytes list"
  sv_heap :: "(int \<times> bytes) list"
  sv_epoch :: int
  sv_change_ns :: int
  sv_last_duration_ns :: int
  sv_callbacks :: "nat list"
  sv_fault_reason :: utext
  sv_history :: "transition_record list"
  sv_fault_timestamps :: "int list"
  sv_fault_event_count :: nat
  sv_last_fault_event_ns :: int
  sv_calls :: "(nat \<times> safety_state \<times> safety_state \<times> utext) list"

text \<open>The constructor: its refusals in the source's order. \<open>estop_ok\<close> is None without an E-Stop,
  otherwise whether the object has \<open>is_engaged\<close>; \<open>test_mode\<close> is the environment flag.\<close>

definition supervisor_init ::
  "safety_state \<Rightarrow> bool option \<Rightarrow> bytes option \<Rightarrow> bool \<Rightarrow> bool \<Rightarrow> bool \<Rightarrow> instant \<Rightarrow> supervisor py" where
  "supervisor_init initial_state estop_ok auth_secret allow_unauth require_auth test_mode t =
     (if initial_state \<in> {ARMED_TX, ACTIVE} then Inl ValueError
      else if estop_ok = Some False then Inl TypeError
      else if allow_unauth \<and> \<not> test_mode then Inl RuntimeError
      else if require_auth \<and> allow_unauth then Inl ValueError
      else if require_auth \<and> auth_secret = None then Inl RuntimeError
      else Inr
        \<lparr>sv_state = initial_state, sv_estop_bound = (estop_ok \<noteq> None),
         sv_auth_secret = auth_secret, sv_allow_unauthenticated = allow_unauth,
         sv_require_arm_auth = require_auth, sv_consumed = [], sv_heap = [], sv_epoch = 0,
         sv_change_ns = mono_ns t, sv_last_duration_ns = 0, sv_callbacks = [],
         sv_fault_reason = [], sv_history = [], sv_fault_timestamps = [],
         sv_fault_event_count = 0, sv_last_fault_event_ns = 0, sv_calls = []\<rparr>)"

definition bind_estop :: "supervisor \<Rightarrow> bool \<Rightarrow> supervisor \<times> unit py" where
  "bind_estop st has_is_engaged =
     (if sv_estop_bound st then (st, Inl (SafetyError ''ESTOP_ALREADY_BOUND''))
      else if \<not> has_is_engaged then (st, Inl TypeError)
      else (st\<lparr>sv_estop_bound := True\<rparr>, Inr ()))"

section \<open>Accessors and listeners\<close>

definition is_tx_permitted :: "supervisor \<Rightarrow> bool" where
  "is_tx_permitted st \<longleftrightarrow> sv_state st \<in> {ARMED_TX, ACTIVE}"

definition is_passive :: "supervisor \<Rightarrow> bool" where
  "is_passive st \<longleftrightarrow> sv_state st = PASSIVE"

definition is_fault :: "supervisor \<Rightarrow> bool" where
  "is_fault st \<longleftrightarrow> sv_state st = FAULT"

definition state_duration_ns :: "supervisor \<Rightarrow> instant \<Rightarrow> int" where
  "state_duration_ns st t = max 0 (mono_ns t - sv_change_ns st)"

definition register_callback :: "supervisor \<Rightarrow> nat \<Rightarrow> supervisor" where
  "register_callback st cb =
     (if cb \<notin> set (sv_callbacks st) then st\<lparr>sv_callbacks := sv_callbacks st @ [cb]\<rparr> else st)"

definition unregister_callback :: "supervisor \<Rightarrow> nat \<Rightarrow> supervisor" where
  "unregister_callback st cb =
     (if cb \<in> set (sv_callbacks st) then st\<lparr>sv_callbacks := remove1 cb (sv_callbacks st)\<rparr> else st)"

section \<open>Transitions\<close>

definition HISTORY_MAXLEN :: nat where
  "HISTORY_MAXLEN = 10000"

text \<open>\<open>deque(maxlen=n).append\<close>\<close>

definition bounded_append :: "nat \<Rightarrow> 'a list \<Rightarrow> 'a \<Rightarrow> 'a list" where
  "bounded_append n xs x = (let ys = xs @ [x] in drop (length ys - n) ys)"

definition dispatch_callbacks ::
  "supervisor \<Rightarrow> safety_state \<Rightarrow> safety_state \<Rightarrow> utext \<Rightarrow> supervisor" where
  "dispatch_callbacks st old_state new_state reason =
     st\<lparr>sv_calls := sv_calls st @ map (\<lambda>cb. (cb, old_state, new_state, reason)) (sv_callbacks st)\<rparr>"

definition record_fault_event :: "supervisor \<Rightarrow> instant \<Rightarrow> supervisor" where
  "record_fault_event st t =
     st\<lparr>sv_fault_event_count := sv_fault_event_count st + 1, sv_last_fault_event_ns := mono_ns t\<rparr>"

text \<open>The state change itself: epoch, timestamps, history record.\<close>

definition enter_state :: "supervisor \<Rightarrow> safety_state \<Rightarrow> utext \<Rightarrow> instant \<Rightarrow> supervisor" where
  "enter_state st new_state reason t =
     st\<lparr>sv_state := new_state, sv_epoch := sv_epoch st + 1, sv_change_ns := mono_ns t,
        sv_last_duration_ns := 0,
        sv_history := bounded_append HISTORY_MAXLEN (sv_history st)
          \<lparr>from_state = sv_state st, to_state = new_state, tr_reason = reason,
           tr_epoch = sv_epoch st + 1, monotonic_timestamp_ns = mono_ns t,
           wall_time_utc = wall_ns t, duration_ns = max 0 (mono_ns t - sv_change_ns st)\<rparr>\<rparr>"

definition illegal_message :: "safety_state \<Rightarrow> safety_state \<Rightarrow> utext \<Rightarrow> utext" where
  "illegal_message old_state new_state reason =
     utext (''Illegal Safety State transition from '' @ [CHR 0x27] @ state_value old_state @ [CHR 0x27] @
       '' to '' @ [CHR 0x27] @ state_value new_state @ [CHR 0x27] @ ''. Reason: '')
       @ (if reason = [] then utext ''N/A'' else reason)"

definition transition_to ::
  "supervisor \<Rightarrow> bool \<Rightarrow> safety_state \<Rightarrow> utext \<Rightarrow> instant \<Rightarrow> supervisor \<times> unit py" where
  "transition_to st estop_engaged new_state reason0 t =
     (let reason = sanitize_reason reason0; old_state = sv_state st in
      if old_state = new_state then (st, Inr ())
      else if sv_estop_bound st \<and> estop_engaged \<and> new_state \<in> {PASSIVE, ARMED_TX, ACTIVE}
        then (st, Inl (SafetyError ''ESTOP_ENGAGED''))
      else if new_state \<notin> ALLOWED_TRANSITIONS old_state then
        let fault_reason = utext ''ILLEGAL_STATE_TRANSITION: '' @ illegal_message old_state new_state reason;
            st = enter_state (record_fault_event st t) FAULT fault_reason t;
            st = st\<lparr>sv_fault_reason := fault_reason\<rparr>
        in (dispatch_callbacks st old_state FAULT fault_reason,
            Inl (SafetyError ''ILLEGAL_SAFETY_TRANSITION''))
      else
        let st = enter_state st new_state reason t;
            st = (if new_state = FAULT then st\<lparr>sv_fault_reason := reason\<rparr>
                  else if old_state = FAULT \<and> new_state \<in> {PASSIVE, SAFE}
                    then st\<lparr>sv_fault_reason := []\<rparr>
                  else st)
        in (dispatch_callbacks st old_state new_state reason, Inr ()))"

definition enter_passive_mode :: "supervisor \<Rightarrow> bool \<Rightarrow> utext \<Rightarrow> instant \<Rightarrow> supervisor \<times> unit py" where
  "enter_passive_mode st estop_engaged reason t = transition_to st estop_engaged PASSIVE reason t"

definition FAULT_RATE_LIMIT_PER_SEC :: nat where
  "FAULT_RATE_LIMIT_PER_SEC = 5"

definition trigger_fault :: "supervisor \<Rightarrow> bool \<Rightarrow> utext \<Rightarrow> instant \<Rightarrow> supervisor \<times> unit py" where
  "trigger_fault st estop_engaged reason t =
     (let recent = dropWhile (\<lambda>ts. mono_ns t - ts \<ge> 1000000000) (sv_fault_timestamps st);
          storm = length recent \<ge> FAULT_RATE_LIMIT_PER_SEC;
          st = st\<lparr>sv_fault_timestamps :=
                   (if storm then recent else bounded_append 32 recent (mono_ns t))\<rparr>
      in transition_to (record_fault_event st t) estop_engaged FAULT reason t)"

definition force_fault :: "supervisor \<Rightarrow> utext \<Rightarrow> instant \<Rightarrow> supervisor" where
  "force_fault st reason0 t =
     (let reason = sanitize_reason reason0; old_state = sv_state st in
      if old_state = FAULT \<and> sv_fault_reason st = reason then st
      else dispatch_callbacks ((enter_state st FAULT reason t)\<lparr>sv_fault_reason := reason\<rparr>)
        old_state FAULT reason)"

section \<open>Arm tokens\<close>

definition issue_arm_token ::
  "(bytes \<Rightarrow> bytes \<Rightarrow> bytes) \<Rightarrow> supervisor \<Rightarrow> rat \<Rightarrow> bytes \<Rightarrow> instant \<Rightarrow> string py" where
  "issue_arm_token mac st ttl_s nonce t =
     (case sv_auth_secret st of
        None \<Rightarrow> Inl (SafetyError ''ARM_AUTH_NOT_CONFIGURED'')
      | Some secret \<Rightarrow>
          let expiry_ns = mono_ns t + \<lfloor>max 1 ttl_s * 1000000000\<rfloor> in
          py_bind (to_be 8 expiry_ns) (\<lambda>e.
            let payload = e @ nonce in
            Inr (py_str expiry_ns @ ''.'' @ py_hex nonce @ ''.'' @ py_hex (mac secret payload))))"

text \<open>The spent tokens: a queue and a heap of (expiry, payload), kept as the list in the order the
  heap pops (payloads start with the big-endian expiry, so that order is their numeric one).\<close>

definition record_consumed_arm_token :: "supervisor \<Rightarrow> bytes \<Rightarrow> supervisor" where
  "record_consumed_arm_token st payload =
     st\<lparr>sv_consumed := sv_consumed st @ [payload],
        sv_heap := insort_key (\<lambda>(e, p). from_be p) (from_be (take 8 payload), payload) (sv_heap st)\<rparr>"

fun prune_arm_tokens :: "int \<Rightarrow> (int \<times> bytes) list \<Rightarrow> bytes list \<Rightarrow> (int \<times> bytes) list \<times> bytes list" where
  "prune_arm_tokens now [] consumed = ([], consumed)"
| "prune_arm_tokens now ((expiry, payload) # heap) consumed =
     (if expiry < now then
        prune_arm_tokens now heap
          (case consumed of
             first # rest \<Rightarrow> if first = payload then rest else remove1 payload consumed
           | [] \<Rightarrow> [])
      else ((expiry, payload) # heap, consumed))"

definition prune_consumed_arm_tokens :: "supervisor \<Rightarrow> instant \<Rightarrow> supervisor" where
  "prune_consumed_arm_tokens st t =
     (case prune_arm_tokens (mono_ns t) (sv_heap st) (sv_consumed st) of
        (heap, consumed) \<Rightarrow> st\<lparr>sv_heap := heap, sv_consumed := consumed\<rparr>)"

text \<open>The three fields of a token; None stands for every ValueError of the parser.\<close>

definition parse_arm_token :: "string \<Rightarrow> (int \<times> bytes \<times> bytes) option" where
  "parse_arm_token auth_token =
     (case py_split (CHR ''.'') (py_strip auth_token) of
        [expiry_s, nonce_hex, mac_hex] \<Rightarrow>
          (case (py_int expiry_s, py_fromhex nonce_hex, py_fromhex mac_hex) of
             (Some e, Some n, Some m) \<Rightarrow> Some (e, n, m)
           | _ \<Rightarrow> None)
      | _ \<Rightarrow> None)"

definition verify_arm_token ::
  "(bytes \<Rightarrow> bytes \<Rightarrow> bytes) \<Rightarrow> supervisor \<Rightarrow> bytes \<Rightarrow> string \<Rightarrow> bool \<Rightarrow> instant \<Rightarrow>
   supervisor \<times> bytes option py" where
  "verify_arm_token mac st secret auth_token consume t =
     (case parse_arm_token auth_token of
        None \<Rightarrow> (st, Inl (SafetyError ''ARM_AUTH_INVALID''))
      | Some (expiry_ns, nonce, presented) \<Rightarrow>
          if \<not> (0 \<le> expiry_ns \<and> expiry_ns < 2 ^ 64) then (st, Inl (SafetyError ''ARM_AUTH_INVALID''))
          else if length nonce \<noteq> 16 \<or> length presented \<noteq> 32
            then (st, Inl (SafetyError ''ARM_AUTH_INVALID''))
          else act_bind (st, to_be 8 expiry_ns) (\<lambda>st e.
            let payload = e @ nonce in
            if presented \<noteq> mac secret payload then (st, Inl (SafetyError ''ARM_AUTH_INVALID''))
            else if mono_ns t > expiry_ns then (st, Inl (SafetyError ''ARM_AUTH_EXPIRED''))
            else let st = prune_consumed_arm_tokens st t in
              if payload \<in> set (sv_consumed st) then (st, Inl (SafetyError ''ARM_AUTH_REPLAYED''))
              else if consume then (record_consumed_arm_token st payload, Inr None)
              else (st, Inr (Some payload))))"

definition burn_arm_token :: "supervisor \<Rightarrow> bytes \<Rightarrow> instant \<Rightarrow> supervisor \<times> unit py" where
  "burn_arm_token st payload t =
     (let st = prune_consumed_arm_tokens st t in
      if payload \<in> set (sv_consumed st) then (st, Inl (SafetyError ''ARM_AUTH_REPLAYED''))
      else (record_consumed_arm_token st payload, Inr ()))"

definition require_arm_authorization ::
  "(bytes \<Rightarrow> bytes \<Rightarrow> bytes) \<Rightarrow> supervisor \<Rightarrow> string option \<Rightarrow> bool \<Rightarrow> instant \<Rightarrow>
   supervisor \<times> bytes option py" where
  "require_arm_authorization mac st auth_token consume t =
     (case sv_auth_secret st of
        Some secret \<Rightarrow>
          (case auth_token of
             None \<Rightarrow>
               if sv_allow_unauthenticated st then (st, Inr None)
               else (st, Inl (SafetyError ''ARM_AUTH_REQUIRED''))
           | Some tok \<Rightarrow> verify_arm_token mac st secret tok consume t)
      | None \<Rightarrow>
          if \<not> sv_require_arm_auth st then (st, Inr None)
          else (st, Inl (SafetyError ''ARM_AUTH_NOT_CONFIGURED'')))"

section \<open>Arming\<close>

text \<open>What the gates read from outside: the E-Stop's two flags and \<open>time.get_clock_info\<close>, or the
  text of the exception when that call fails. The resolution comes with its four-digit rendering.\<close>

record estop_view =
  ev_engaged :: bool
  ev_downgraded :: bool

record clock_info =
  ci_monotonic :: bool
  ci_adjustable :: bool
  ci_resolution :: rat
  ci_resolution_text :: utext

definition assert_estop_protection_intact :: "supervisor \<Rightarrow> estop_view \<Rightarrow> unit py" where
  "assert_estop_protection_intact st ev =
     (if sv_estop_bound st \<and> ev_downgraded ev then Inl (SafetyError ''ESTOP_PROTECTION_DOWNGRADED'')
      else Inr ())"

definition assert_clock_safety ::
  "supervisor \<Rightarrow> estop_view \<Rightarrow> (utext + clock_info) \<Rightarrow> instant \<Rightarrow> supervisor \<times> unit py" where
  "assert_clock_safety st ev info t =
     (let refuse = (\<lambda>reason. act_bind (trigger_fault st (ev_engaged ev) reason t)
        (\<lambda>st _. (st, Inl (SafetyError ''CLOCK_INTEGRITY_VIOLATION'')))) in
      case info of
        Inl exc \<Rightarrow> refuse (utext ''CLOCK_UNAVAILABLE: monotonic clock check failed ('' @ exc @ utext '')'')
      | Inr ci \<Rightarrow>
          if \<not> ci_monotonic ci then
            refuse (utext ''CLOCK_NOT_MONOTONIC: system clock reported non-monotonic'')
          else if ci_adjustable ci then refuse (utext ''CLOCK_ADJUSTABLE: system clock is adjustable'')
          else if ci_resolution ci > 5 / 100 then
            refuse (utext ''CLOCK_COARSE: resolution '' @ ci_resolution_text ci @ utext ''s > 0.050s'')
          else (st, Inr ()))"

text \<open>\<open>arm_tx\<close> and \<open>activate_tx\<close> differ in the target state. Their phases are separate critical
  sections: the gates, the transition, and the burning of the token.\<close>

definition arm_check ::
  "(bytes \<Rightarrow> bytes \<Rightarrow> bytes) \<Rightarrow> supervisor \<Rightarrow> estop_view \<Rightarrow> (utext + clock_info) \<Rightarrow> string option \<Rightarrow> instant \<Rightarrow>
   supervisor \<times> bytes option py" where
  "arm_check mac st ev info auth_token t =
     act_bind (st, assert_estop_protection_intact st ev) (\<lambda>st _.
       act_bind (assert_clock_safety st ev info t) (\<lambda>st _.
         require_arm_authorization mac st auth_token False t))"

definition arm_burn :: "supervisor \<Rightarrow> bytes option \<Rightarrow> instant \<Rightarrow> supervisor \<times> unit py" where
  "arm_burn st pending t =
     (case pending of None \<Rightarrow> (st, Inr ()) | Some payload \<Rightarrow> burn_arm_token st payload t)"

definition arm_to ::
  "(bytes \<Rightarrow> bytes \<Rightarrow> bytes) \<Rightarrow> safety_state \<Rightarrow> supervisor \<Rightarrow> estop_view \<Rightarrow> (utext + clock_info) \<Rightarrow> utext \<Rightarrow>
   string option \<Rightarrow> instant \<Rightarrow> supervisor \<times> unit py" where
  "arm_to mac target st ev info reason auth_token t =
     act_bind (arm_check mac st ev info auth_token t) (\<lambda>st pending.
       act_bind (transition_to st (ev_engaged ev) target reason t) (\<lambda>st _.
         arm_burn st pending t))"

definition arm_tx ::
  "(bytes \<Rightarrow> bytes \<Rightarrow> bytes) \<Rightarrow> supervisor \<Rightarrow> estop_view \<Rightarrow> (utext + clock_info) \<Rightarrow> utext \<Rightarrow> string option \<Rightarrow>
   instant \<Rightarrow> supervisor \<times> unit py" where
  "arm_tx mac st ev info reason auth_token t = arm_to mac ARMED_TX st ev info reason auth_token t"

definition activate_tx ::
  "(bytes \<Rightarrow> bytes \<Rightarrow> bytes) \<Rightarrow> supervisor \<Rightarrow> estop_view \<Rightarrow> (utext + clock_info) \<Rightarrow> utext \<Rightarrow> string option \<Rightarrow>
   instant \<Rightarrow> supervisor \<times> unit py" where
  "activate_tx mac st ev info reason auth_token t = arm_to mac ACTIVE st ev info reason auth_token t"

end
