(* ===== verification/EStop.thy ===== *)
theory EStop
  imports PyText PyDict
begin

text \<open>
  \<open>src/safety/estop.py\<close>: the emergency stop. Engagement, the challenge it issues, the tokens that
  answer it, the checks of \<open>reset\<close> in their order with the failure counter and its cool-down, the
  transmit fence, and the separate authority that mints tokens. HMAC-SHA256 is the parameter
  \<open>mac\<close>; clock readings, random bytes and what the bound secret provider answers are arguments.
  Denials carry the code \<open>ESTOP_RESET_DENIED\<close>; their texts, and logging, are dropped. Calls made to
  listeners and abort hooks are logged in the state.
\<close>

section \<open>Constants and data\<close>

definition DEFAULT_TOKEN_MAX_AGE_NS :: int where
  "DEFAULT_TOKEN_MAX_AGE_NS = 30000000000"

definition MAX_TOKEN_STRING_LEN :: nat where
  "MAX_TOKEN_STRING_LEN = 512"

definition NONCE_HEX_LEN :: nat where
  "NONCE_HEX_LEN = 32"

definition SIG_HEX_LEN :: nat where
  "SIG_HEX_LEN = 64"

definition ALLOWED_TOKEN_ACTIONS :: "string set" where
  "ALLOWED_TOKEN_ACTIONS = {''ESTOP_RESET''}"

definition MAX_TOKEN_EPOCH :: int where
  "MAX_TOKEN_EPOCH = 2 ^ 63 - 1"

definition MAX_TOKEN_TIMESTAMP_NS :: int where
  "MAX_TOKEN_TIMESTAMP_NS = 2 ^ 63 - 1"

definition MAX_CONSUMED_NONCES :: nat where
  "MAX_CONSUMED_NONCES = 1024"

datatype estop_trigger_source =
    USER_UI_BUTTON | BUS_OFF_DETECTED | KEEPALIVE_TIMEOUT | SPEED_INTERLOCK_BREACH
  | HARDWARE_DISCONNECT | RATE_LIMIT_OVERFLOW | UNAUTHORIZED_PAYLOAD | TEMPERATURE_OVERHEAT
  | PROCESS_TERMINATION | COMMUNICATION_TIMEOUT

text \<open>The speed recorded with an event; None is a NaN.\<close>

record estop_event =
  ee_trigger :: estop_trigger_source
  ee_reason :: utext
  ee_timestamp_ns :: int
  ee_speed_kmh :: "rat option"

record challenge =
  ch_epoch :: int
  ch_nonce :: bytes
  ch_timestamp_ns :: int
  ch_action :: string
  ch_max_age_ns :: int
  ch_wall_ns :: int

definition serialize_for_signature :: "challenge \<Rightarrow> bytes" where
  "serialize_for_signature c =
     encode (py_str (ch_epoch c) @ '':'' @ py_hex (ch_nonce c) @ '':'' @ py_str (ch_timestamp_ns c)
       @ '':'' @ ch_action c)"

record estop_token =
  tok_epoch :: int
  tok_nonce :: string
  tok_timestamp_ns :: int
  tok_action :: string
  tok_signature :: string

definition to_token_string :: "estop_token \<Rightarrow> string" where
  "to_token_string k =
     py_str (tok_epoch k) @ '':'' @ tok_nonce k @ '':'' @ py_str (tok_timestamp_ns k) @ '':''
       @ tok_action k @ '':'' @ tok_signature k"

text \<open>The shared field bounds: \<open>_is_hex\<close> is what \<open>int(value, 16)\<close> accepts.\<close>

definition token_fields_ok :: "estop_token \<Rightarrow> bool" where
  "token_fields_ok k \<longleftrightarrow> 0 \<le> tok_epoch k \<and> tok_epoch k \<le> MAX_TOKEN_EPOCH \<and>
     length (tok_nonce k) = NONCE_HEX_LEN \<and> py_int16_ok (tok_nonce k) \<and>
     0 \<le> tok_timestamp_ns k \<and> tok_timestamp_ns k \<le> MAX_TOKEN_TIMESTAMP_NS \<and>
     tok_action k \<in> ALLOWED_TOKEN_ACTIONS \<and>
     length (tok_signature k) = SIG_HEX_LEN \<and> py_int16_ok (tok_signature k)"

definition from_token_string :: "string \<Rightarrow> estop_token py" where
  "from_token_string token_str =
     (let raw = py_strip token_str in
      if length raw > MAX_TOKEN_STRING_LEN then Inl ValueError
      else case py_split (CHR '':'') raw of
        [epoch_s, nonce_hex, ts_s, action, sig] \<Rightarrow>
          (case (py_int epoch_s, py_int ts_s) of
             (Some epoch, Some ts) \<Rightarrow>
               let k = \<lparr>tok_epoch = epoch, tok_nonce = nonce_hex, tok_timestamp_ns = ts,
                        tok_action = action, tok_signature = sig\<rparr>
               in if token_fields_ok k then Inr k else Inl ValueError
           | _ \<Rightarrow> Inl ValueError)
      | _ \<Rightarrow> Inl ValueError)"

section \<open>State\<close>

text \<open>What the bound secret provider answers at one moment: its revision, the result of
  \<open>get_secret\<close>, its downgrade flag, and its protection level (None when it has no such method; then
  only whether it is the in-memory backend counts).\<close>

record provider =
  pv_revision :: int
  pv_get_secret :: "bytes py"
  pv_downgraded :: bool
  pv_level_ephemeral :: "bool option"
  pv_in_memory :: bool

definition ephemeral_backend :: "bytes \<Rightarrow> provider" where
  "ephemeral_backend secret =
     \<lparr>pv_revision = 0, pv_get_secret = Inr secret, pv_downgraded = False,
      pv_level_ephemeral = Some True, pv_in_memory = True\<rparr>"

record estop =
  es_max_token_age_ns :: int
  es_allow_self_reset :: bool
  es_explicit_ephemeral_ok :: bool
  es_protection_downgraded :: bool
  es_cached_secret :: "bytes option"
  es_cached_version :: int
  es_engaged :: bool
  es_last_event :: "estop_event option"
  es_callbacks :: "nat list"
  es_active_challenge :: "challenge option"
  es_consumed_nonces :: "(bytes, bool) dict"
  es_epoch :: int
  es_tx_fence :: int
  es_failed_attempts :: nat
  es_backoff_until_ns :: int
  es_abort_hooks :: "nat list"
  es_calls :: "(nat \<times> estop_event) list"
  es_aborts :: "nat list"

text \<open>One reading of the clocks.\<close>

record es_time =
  et_mono :: int
  et_wall :: int

section \<open>Engagement\<close>

definition challenge_expired :: "challenge \<Rightarrow> int \<Rightarrow> bool" where
  "challenge_expired c now_ns \<longleftrightarrow> now_ns - ch_timestamp_ns c > ch_max_age_ns c"

definition challenge_stale :: "estop \<Rightarrow> int \<Rightarrow> bool" where
  "challenge_stale st now_ns \<longleftrightarrow>
     (case es_active_challenge st of None \<Rightarrow> True | Some c \<Rightarrow> challenge_expired c now_ns)"

definition new_challenge :: "estop \<Rightarrow> bytes \<Rightarrow> es_time \<Rightarrow> challenge" where
  "new_challenge st nonce t =
     \<lparr>ch_epoch = es_epoch st, ch_nonce = nonce, ch_timestamp_ns = et_mono t,
      ch_action = ''ESTOP_RESET'', ch_max_age_ns = es_max_token_age_ns st, ch_wall_ns = et_wall t\<rparr>"

definition trigger :: "estop \<Rightarrow> estop_trigger_source \<Rightarrow> utext \<Rightarrow> rat option \<Rightarrow> bytes \<Rightarrow> es_time \<Rightarrow> estop" where
  "trigger st source reason speed nonce t =
     (let ev = \<lparr>ee_trigger = source, ee_reason = reason, ee_timestamp_ns = et_wall t, ee_speed_kmh = speed\<rparr>
      in st\<lparr>es_engaged := True,
            es_active_challenge :=
              (if \<not> es_engaged st \<or> challenge_stale st (et_mono t) then Some (new_challenge st nonce t)
               else es_active_challenge st),
            es_last_event := Some ev,
            es_tx_fence := es_tx_fence st + 1,
            es_calls := es_calls st @ map (\<lambda>cb. (cb, ev)) (es_callbacks st),
            es_aborts := es_aborts st @ es_abort_hooks st\<rparr>)"

definition advance_tx_fence :: "estop \<Rightarrow> estop" where
  "advance_tx_fence st = st\<lparr>es_tx_fence := es_tx_fence st + 1\<rparr>"

definition register_estop_callback :: "estop \<Rightarrow> nat \<Rightarrow> estop" where
  "register_estop_callback st cb = st\<lparr>es_callbacks := es_callbacks st @ [cb]\<rparr>"

definition register_abort_hook :: "estop \<Rightarrow> nat \<Rightarrow> estop" where
  "register_abort_hook st hook = st\<lparr>es_abort_hooks := es_abort_hooks st @ [hook]\<rparr>"

definition unregister_abort_hook :: "estop \<Rightarrow> nat \<Rightarrow> estop \<times> bool" where
  "unregister_abort_hook st hook =
     (if hook \<in> set (es_abort_hooks st)
      then (st\<lparr>es_abort_hooks := remove1 hook (es_abort_hooks st)\<rparr>, True) else (st, False))"

section \<open>Secrets and protection level\<close>

text \<open>Whatever \<open>get_secret\<close> raises becomes a denial.\<close>

definition load_secret :: "provider \<Rightarrow> bytes py" where
  "load_secret pv =
     (case pv_get_secret pv of
        Inr secret \<Rightarrow> Inr secret | Inl _ \<Rightarrow> Inl (SafetyError ''ESTOP_RESET_DENIED''))"

definition cached_secret :: "estop \<Rightarrow> bytes py" where
  "cached_secret st =
     (case es_cached_secret st of
        Some secret \<Rightarrow> Inr secret | None \<Rightarrow> Inl (SafetyError ''ESTOP_RESET_DENIED''))"

definition sync_protection :: "estop \<Rightarrow> provider \<Rightarrow> estop" where
  "sync_protection st pv =
     (if es_explicit_ephemeral_ok st then st
      else st\<lparr>es_protection_downgraded :=
             (if pv_downgraded pv then True
              else case pv_level_ephemeral pv of None \<Rightarrow> pv_in_memory pv | Some e \<Rightarrow> e)\<rparr>)"

definition refresh_secret :: "estop \<Rightarrow> provider \<Rightarrow> estop \<times> bytes py" where
  "refresh_secret st pv =
     act_bind (st, load_secret pv) (\<lambda>st fresh.
       (sync_protection (st\<lparr>es_cached_secret := Some fresh, es_cached_version := pv_revision pv\<rparr>) pv,
        Inr fresh))"

definition bind_secret_provider :: "estop \<Rightarrow> provider \<Rightarrow> estop \<times> unit py" where
  "bind_secret_provider st pv =
     act_bind (st, pv_get_secret pv) (\<lambda>st fresh.
       (sync_protection (st\<lparr>es_explicit_ephemeral_ok := False, es_cached_secret := Some fresh,
          es_cached_version := pv_revision pv\<rparr>) pv, Inr ()))"

definition assert_arm_permitted :: "estop \<Rightarrow> unit py" where
  "assert_arm_permitted st =
     (if es_protection_downgraded st then Inl (SafetyError ''ESTOP_PROTECTION_DOWNGRADED'') else Inr ())"

text \<open>The constructor. \<open>reset_secret\<close> wins over a given provider; \<open>stored\<close> is None when the provider
  already has the key, otherwise the outcome of storing a fresh one (the provider that then has it,
  or the text of the failure, which engages the stop on an in-memory fallback).\<close>

definition blank_estop :: "int \<Rightarrow> bool \<Rightarrow> bool \<Rightarrow> bool \<Rightarrow> bytes \<Rightarrow> int \<Rightarrow> estop" where
  "blank_estop max_age allow explicit_ok downgraded secret version =
     \<lparr>es_max_token_age_ns = max_age, es_allow_self_reset = allow,
      es_explicit_ephemeral_ok = explicit_ok, es_protection_downgraded = downgraded,
      es_cached_secret = Some secret, es_cached_version = version, es_engaged = False,
      es_last_event = None, es_callbacks = [], es_active_challenge = None, es_consumed_nonces = [],
      es_epoch = 0, es_tx_fence = 0, es_failed_attempts = 0, es_backoff_until_ns = 0,
      es_abort_hooks = [], es_calls = [], es_aborts = []\<rparr>"

definition estop_init ::
  "bytes option \<Rightarrow> provider \<Rightarrow> (utext + provider) option \<Rightarrow> bytes \<Rightarrow> int \<Rightarrow> bool \<Rightarrow> bytes \<Rightarrow> es_time \<Rightarrow>
   estop py" where
  "estop_init reset_secret pv stored fallback_key max_age_ns allow nonce t =
     (case reset_secret of
        Some secret \<Rightarrow> Inr (blank_estop max_age_ns allow True False secret 0)
      | None \<Rightarrow>
          (case stored of
             Some (Inl failure) \<Rightarrow>
               let pv = ephemeral_backend fallback_key;
                   st = sync_protection (blank_estop max_age_ns allow False True fallback_key 0) pv
               in Inr (trigger st UNAUTHORIZED_PAYLOAD
                    (utext ''Failed to persist initial E-Stop secret ('' @ failure @ utext '') '' @ em_dash @
                     utext '' fail-closed (ephemeral secret fallback prohibited without E-Stop engagement)'')
                    (Some 0) nonce t)
           | _ \<Rightarrow>
               let pv = (case stored of Some (Inr pv') \<Rightarrow> pv' | _ \<Rightarrow> pv) in
               py_bind (load_secret pv) (\<lambda>secret.
                 Inr (sync_protection (blank_estop max_age_ns allow False False secret (pv_revision pv)) pv))))"

section \<open>Challenges\<close>

definition get_reset_nonce :: "estop \<Rightarrow> bytes" where
  "get_reset_nonce st = (case es_active_challenge st of Some c \<Rightarrow> ch_nonce c | None \<Rightarrow> [])"

definition reissue_challenge :: "estop \<Rightarrow> bytes \<Rightarrow> es_time \<Rightarrow> estop \<times> challenge py" where
  "reissue_challenge st nonce t =
     (if \<not> es_engaged st then (st, Inl (SafetyError ''ESTOP_NOT_ENGAGED''))
      else let c = new_challenge st nonce t in (st\<lparr>es_active_challenge := Some c\<rparr>, Inr c))"

definition request_reset_challenge :: "estop \<Rightarrow> bytes \<Rightarrow> es_time \<Rightarrow> estop \<times> challenge option py" where
  "request_reset_challenge st nonce t =
     (if \<not> es_engaged st then (st, Inr None)
      else if challenge_stale st (et_mono t)
        then act_bind (reissue_challenge st nonce t) (\<lambda>st c. (st, Inr (Some c)))
      else (st, Inr (es_active_challenge st)))"

definition sign_challenge :: "(bytes \<Rightarrow> bytes \<Rightarrow> bytes) \<Rightarrow> bytes \<Rightarrow> challenge \<Rightarrow> estop_token" where
  "sign_challenge mac secret c =
     \<lparr>tok_epoch = ch_epoch c, tok_nonce = py_hex (ch_nonce c), tok_timestamp_ns = ch_timestamp_ns c,
      tok_action = ch_action c, tok_signature = py_hex (mac secret (serialize_for_signature c))\<rparr>"

definition create_reset_token ::
  "(bytes \<Rightarrow> bytes \<Rightarrow> bytes) \<Rightarrow> estop \<Rightarrow> bytes \<Rightarrow> es_time \<Rightarrow> estop \<times> estop_token option py" where
  "create_reset_token mac st nonce t =
     (if \<not> es_allow_self_reset st then (st, Inl (SafetyError ''ESTOP_MINT_DENIED''))
      else if \<not> es_engaged st then (st, Inr None)
      else
        act_bind (if challenge_stale st (et_mono t)
                  then act_bind (reissue_challenge st nonce t) (\<lambda>st c. (st, Inr ())) else (st, Inr ()))
          (\<lambda>st _. case es_active_challenge st of
             None \<Rightarrow> (st, Inr None)
           | Some c \<Rightarrow> act_bind (st, cached_secret st) (\<lambda>st secret.
               (st, Inr (Some (sign_challenge mac secret c))))))"

text \<open>\<open>compute_reset_token\<close>: the nonce argument is None, bytes, or a hex string.\<close>

definition compute_reset_token ::
  "(bytes \<Rightarrow> bytes \<Rightarrow> bytes) \<Rightarrow> estop \<Rightarrow> (bytes + string) option \<Rightarrow> int option \<Rightarrow> int option \<Rightarrow> string \<Rightarrow>
   bytes \<Rightarrow> es_time \<Rightarrow> estop \<times> string py" where
  "compute_reset_token mac st nonce epoch timestamp_ns action fresh t =
     (if \<not> es_allow_self_reset st then (st, Inl (SafetyError ''ESTOP_MINT_DENIED''))
      else act_bind (st, cached_secret st) (\<lambda>st secret.
        if es_active_challenge st \<noteq> None then
          act_bind (create_reset_token mac st fresh t) (\<lambda>st tok.
            (st, Inr (case tok of Some k \<Rightarrow> to_token_string k | None \<Rightarrow> [])))
        else case nonce of
          None \<Rightarrow> (st, Inr [])
        | Some n \<Rightarrow>
            (case (case n of Inl bs \<Rightarrow> Some bs | Inr s \<Rightarrow> py_fromhex s) of
               None \<Rightarrow> (st, Inl ValueError)
             | Some nonce_bytes \<Rightarrow>
                 if nonce_bytes = [] then (st, Inr [])
                 else (case (epoch, timestamp_ns) of
                   (Some e, Some ts) \<Rightarrow>
                     let payload = py_str e @ '':'' @ py_hex nonce_bytes @ '':'' @ py_str ts @ '':'' @ action
                     in (st, Inr (payload @ '':'' @ py_hex (mac secret (encode payload))))
                 | _ \<Rightarrow> (st, Inr (py_hex (mac secret nonce_bytes)))))))"

section \<open>Reset\<close>

datatype authorization = TokenObject estop_token | TokenText string | Unsupported

definition RESET_BACKOFF_BASE_NS :: int where
  "RESET_BACKOFF_BASE_NS = 200000000"

definition RESET_BACKOFF_CAP_NS :: int where
  "RESET_BACKOFF_CAP_NS = 5000000000"

text \<open>Count the failure; from the second on, arm the cool-down.\<close>

definition reset_failure :: "estop \<Rightarrow> int \<Rightarrow> estop \<times> 'a py" where
  "reset_failure st now_ns =
     (let attempts = es_failed_attempts st + 1;
          st = st\<lparr>es_failed_attempts := attempts\<rparr>
      in (if attempts \<ge> 2
          then st\<lparr>es_backoff_until_ns := now_ns +
                 min (RESET_BACKOFF_BASE_NS * 2 ^ min (attempts - 2) 5) RESET_BACKOFF_CAP_NS\<rparr>
          else st,
          Inl (SafetyError ''ESTOP_RESET_DENIED'')))"

definition looks_well_formed_signature :: "string \<Rightarrow> bool" where
  "looks_well_formed_signature sig \<longleftrightarrow>
     length (py_strip sig) = SIG_HEX_LEN \<and> py_int16_ok (py_strip sig)"

definition record_consumed_nonce :: "estop \<Rightarrow> bytes \<Rightarrow> estop" where
  "record_consumed_nonce st nonce =
     (let d = dset nonce True (es_consumed_nonces st)
      in st\<lparr>es_consumed_nonces := drop (length d - MAX_CONSUMED_NONCES) d\<rparr>)"

text \<open>The token fields \<open>reset\<close> works on; None is a parse failure. A text without a colon is a bare
  signature for the active challenge.\<close>

definition presented_token :: "authorization \<Rightarrow> challenge \<Rightarrow> estop_token option" where
  "presented_token auth c =
     (case auth of
        TokenObject k \<Rightarrow> if token_fields_ok k then Some k else None
      | TokenText text0 \<Rightarrow>
          let token_str = py_strip text0 in
          if token_str = [] \<or> length token_str > MAX_TOKEN_STRING_LEN then None
          else if CHR '':'' \<in> set token_str then
            (case from_token_string token_str of Inr k \<Rightarrow> Some k | Inl _ \<Rightarrow> None)
          else Some \<lparr>tok_epoch = ch_epoch c, tok_nonce = py_hex (ch_nonce c),
                 tok_timestamp_ns = ch_timestamp_ns c, tok_action = ch_action c, tok_signature = token_str\<rparr>
      | Unsupported \<Rightarrow> None)"

text \<open>The comparison of hex strings ignores case.\<close>

definition py_lower :: "string \<Rightarrow> string" where
  "py_lower = map (\<lambda>c. if 65 \<le> code c \<and> code c \<le> 90 then char_of (code c + 32) else c)"

text \<open>Phase 1, under the lock: every check in order, then the release. True asks for phase 2.\<close>

definition rotate_secret :: "estop \<Rightarrow> provider \<Rightarrow> estop \<times> unit py" where
  "rotate_secret st pv =
     (if pv_revision pv \<noteq> es_cached_version st
      then act_bind (st, load_secret pv) (\<lambda>st fresh.
        (st\<lparr>es_cached_secret := Some fresh, es_cached_version := pv_revision pv\<rparr>, Inr ()))
      else (st, Inr ()))"

definition disengage :: "estop \<Rightarrow> challenge \<Rightarrow> estop" where
  "disengage st c =
     (record_consumed_nonce st (ch_nonce c))
       \<lparr>es_engaged := False, es_active_challenge := None, es_epoch := es_epoch st + 1,
        es_failed_attempts := 0, es_backoff_until_ns := 0\<rparr>"

definition verify_token ::
  "(bytes \<Rightarrow> bytes \<Rightarrow> bytes) \<Rightarrow> estop \<Rightarrow> challenge \<Rightarrow> estop_token \<Rightarrow> int \<Rightarrow> estop \<times> bool py" where
  "verify_token mac st c k now =
     (if ch_nonce c \<in> set (dkeys (es_consumed_nonces st)) then reset_failure st now
      else if tok_epoch k \<noteq> ch_epoch c \<or> tok_epoch k \<noteq> es_epoch st then reset_failure st now
      else if tok_action k \<noteq> ''ESTOP_RESET'' then reset_failure st now
      else if py_lower (tok_nonce k) \<noteq> py_lower (py_hex (ch_nonce c)) then reset_failure st now
      else if now - ch_timestamp_ns c > ch_max_age_ns c \<or> now - ch_timestamp_ns c < 0
        then reset_failure (st\<lparr>es_active_challenge := None\<rparr>) now
      else if now - tok_timestamp_ns k > ch_max_age_ns c \<or> now - tok_timestamp_ns k < 0
        then reset_failure (st\<lparr>es_active_challenge := None\<rparr>) now
      else if now < es_backoff_until_ns st \<and> \<not> looks_well_formed_signature (tok_signature k)
        then reset_failure st now
      else act_bind (st, cached_secret st) (\<lambda>st secret.
        case py_fromhex (py_strip (tok_signature k)) of
          None \<Rightarrow> reset_failure st now
        | Some sig_bytes \<Rightarrow>
            if sig_bytes = mac secret (serialize_for_signature c) then (disengage st c, Inr True)
            else if now < es_backoff_until_ns st then reset_failure st now
            else reset_failure st now))"

definition reset_phase1 ::
  "(bytes \<Rightarrow> bytes \<Rightarrow> bytes) \<Rightarrow> estop \<Rightarrow> provider \<Rightarrow> authorization \<Rightarrow> int \<Rightarrow> estop \<times> bool py" where
  "reset_phase1 mac st pv auth now =
     act_bind (rotate_secret st pv) (\<lambda>st _.
       if \<not> es_engaged st then (st, Inr False)
       else case es_active_challenge st of
         None \<Rightarrow> reset_failure st now
       | Some c \<Rightarrow>
           (case presented_token auth c of
              None \<Rightarrow> reset_failure st now
            | Some k \<Rightarrow> verify_token mac st c k now))"

text \<open>Phase 2, under the send lock: publish the fence.\<close>

definition reset_phase2 :: "estop \<Rightarrow> bool \<Rightarrow> estop" where
  "reset_phase2 st needs_fence_bump = (if needs_fence_bump then st\<lparr>es_tx_fence := es_tx_fence st + 1\<rparr> else st)"

definition reset ::
  "(bytes \<Rightarrow> bytes \<Rightarrow> bytes) \<Rightarrow> estop \<Rightarrow> provider \<Rightarrow> authorization \<Rightarrow> int \<Rightarrow> estop \<times> unit py" where
  "reset mac st pv auth now =
     act_bind (reset_phase1 mac st pv auth now) (\<lambda>st bump. (reset_phase2 st bump, Inr ()))"

section \<open>The reset authority\<close>

text \<open>The authority's own provider; construction refuses a missing one or the enforcement object's.\<close>

definition authority_init :: "provider option \<Rightarrow> bool \<Rightarrow> provider py" where
  "authority_init pv same_as_estop =
     (case pv of
        None \<Rightarrow> Inl (SafetyError ''ESTOP_AUTHORITY_NOT_INDEPENDENT'')
      | Some p \<Rightarrow> if same_as_estop then Inl (SafetyError ''ESTOP_AUTHORITY_NOT_INDEPENDENT'') else Inr p)"

definition mint_reset_token ::
  "(bytes \<Rightarrow> bytes \<Rightarrow> bytes) \<Rightarrow> estop \<Rightarrow> provider \<Rightarrow> bytes \<Rightarrow> es_time \<Rightarrow> estop \<times> estop_token option py" where
  "mint_reset_token mac st authority nonce t =
     act_bind (request_reset_challenge st nonce t) (\<lambda>st challenge.
       case challenge of
         None \<Rightarrow> (st, Inr None)
       | Some c \<Rightarrow> act_bind (st, pv_get_secret authority) (\<lambda>st secret.
           (st, Inr (Some (sign_challenge mac secret c)))))"

definition reset_authority_provider :: "estop \<Rightarrow> provider py" where
  "reset_authority_provider st = py_bind (cached_secret st) (\<lambda>secret. Inr (ephemeral_backend secret))"

end
