(* ===== verification/Watchdog.thy ===== *)
theory Watchdog
  imports Supervisor EStop
begin

text \<open>
  \<open>src/safety/watchdog.py\<close> with the clock of \<open>src/core/contracts/ports.py\<close>: the transmit lease, its
  token-gated heartbeat and arm-time anchor, the monitor that revokes transmission when the lease
  runs out, start, stop and process teardown; composed with the supervisor that calls it back on
  state changes and the emergency stop it engages. Exceptions the code swallows cannot arise from
  the modelled callees. The text of a duration is the parameter \<open>fmt\<close>.
\<close>

section \<open>The clock\<close>

text \<open>\<open>SystemClockProvider.now_monotonic_ns\<close> clamps the platform's reading; the state is the last one.\<close>

definition now_monotonic_ns :: "int \<Rightarrow> int \<Rightarrow> int \<times> int" where
  "now_monotonic_ns last_ns raw_ns = (if raw_ns < last_ns then (last_ns, last_ns) else (raw_ns, raw_ns))"

definition validate_clock_safety :: "(utext + clock_info) \<Rightarrow> unit py" where
  "validate_clock_safety info =
     (case info of
        Inl exc \<Rightarrow> Inl RuntimeError
      | Inr ci \<Rightarrow>
          if \<not> ci_monotonic ci then Inl RuntimeError
          else if ci_adjustable ci then Inl RuntimeError
          else if ci_resolution ci > 5 / 100 then Inl RuntimeError
          else Inr ())"

section \<open>State\<close>

definition DEFAULT_TIMEOUT_MS :: rat where
  "DEFAULT_TIMEOUT_MS = 800"

definition CHECK_INTERVAL_SEC :: seconds where
  "CHECK_INTERVAL_SEC = 50 / 1000"

record watchdog =
  wd_timeout_sec :: seconds
  wd_last_heartbeat :: seconds
  wd_last_wall_ns :: int
  wd_is_running :: bool
  wd_started_once :: bool
  wd_thread_alive :: bool
  wd_heartbeat_token :: string
  wd_stop_event :: bool
  wd_teardown_registered :: bool

text \<open>One reading of every clock: the lease clock, its wall time, and those of the two partners.\<close>

record sys_time =
  now_lease :: seconds
  now_wall :: int
  now_sup :: instant
  now_es :: es_time
  fresh_nonce :: bytes

text \<open>The constructor refuses a virtual clock outside test mode and an unsafe system clock.\<close>

definition watchdog_init ::
  "bool \<Rightarrow> bool \<Rightarrow> (utext + clock_info) \<Rightarrow> rat \<Rightarrow> sys_time \<Rightarrow> watchdog py" where
  "watchdog_init virtual_clock test_mode info timeout_ms t =
     (if virtual_clock \<and> \<not> test_mode then Inl RuntimeError
      else py_bind (if virtual_clock then Inr () else validate_clock_safety info) (\<lambda>_.
        Inr \<lparr>wd_timeout_sec = max (50 / 1000) (timeout_ms / 1000), wd_last_heartbeat = now_lease t,
             wd_last_wall_ns = now_wall t, wd_is_running = False, wd_started_once = False,
             wd_thread_alive = False, wd_heartbeat_token = [], wd_stop_event = False,
             wd_teardown_registered = False\<rparr>))"

section \<open>The lease\<close>

definition elapsed :: "watchdog \<Rightarrow> sys_time \<Rightarrow> seconds" where
  "elapsed wd t = max 0 (now_lease t - wd_last_heartbeat wd)"

definition remaining_lease_sec :: "watchdog \<Rightarrow> sys_time \<Rightarrow> seconds" where
  "remaining_lease_sec wd t = max 0 (wd_timeout_sec wd - elapsed wd t)"

definition is_lease_valid :: "watchdog \<Rightarrow> sys_time \<Rightarrow> bool" where
  "is_lease_valid wd t \<longleftrightarrow> wd_is_running wd \<and> elapsed wd t \<le> wd_timeout_sec wd"

definition arm_heartbeat_token :: "watchdog \<Rightarrow> string \<Rightarrow> watchdog \<times> unit py" where
  "arm_heartbeat_token wd token =
     (if token = [] then (wd, Inl ValueError) else (wd\<lparr>wd_heartbeat_token := token\<rparr>, Inr ()))"

text \<open>\<open>hmac.compare_digest\<close> on strings raises TypeError unless both are ASCII.\<close>

definition compare_digest :: "string \<Rightarrow> string \<Rightarrow> bool py" where
  "compare_digest a b =
     (if \<exists>c \<in> set (a @ b). code c \<ge> 128 then Inl TypeError else Inr (a = b))"

definition token_is_valid :: "watchdog \<Rightarrow> string option \<Rightarrow> bool py" where
  "token_is_valid wd caller_token =
     (let presented = (case caller_token of Some s \<Rightarrow> s | None \<Rightarrow> []) in
      if wd_heartbeat_token wd = [] then Inr False
      else compare_digest presented (wd_heartbeat_token wd))"

definition re_anchor :: "watchdog \<Rightarrow> sys_time \<Rightarrow> watchdog" where
  "re_anchor wd t = wd\<lparr>wd_last_heartbeat := now_lease t, wd_last_wall_ns := now_wall t\<rparr>"

definition heartbeat :: "watchdog \<Rightarrow> string option \<Rightarrow> sys_time \<Rightarrow> watchdog \<times> unit py" where
  "heartbeat wd caller_token t =
     act_bind (wd, token_is_valid wd caller_token) (\<lambda>wd ok.
       if \<not> ok then (wd, Inl PermissionError) else (re_anchor wd t, Inr ()))"

definition anchor_lease_for_arm :: "watchdog \<Rightarrow> string option \<Rightarrow> sys_time \<Rightarrow> watchdog \<times> bool py" where
  "anchor_lease_for_arm wd caller_token t =
     act_bind (wd, token_is_valid wd caller_token) (\<lambda>wd ok.
       if \<not> ok then (wd, Inr False)
       else if \<not> wd_is_running wd then (wd, Inr False)
       else (if elapsed wd t \<le> wd_timeout_sec wd then wd else re_anchor wd t, Inr True))"

definition on_safety_state_changed :: "watchdog \<Rightarrow> safety_state \<Rightarrow> watchdog" where
  "on_safety_state_changed wd new_state =
     (if new_state \<notin> {FAULT, SAFE, STARTUP, PASSIVE} then wd
      else wd\<lparr>wd_last_heartbeat := wd_last_heartbeat wd - (wd_timeout_sec wd + 1),
              wd_last_wall_ns := wd_last_wall_ns wd - \<lfloor>(wd_timeout_sec wd + 1) * 1000000000\<rfloor>\<rparr>)"

section \<open>The three together\<close>

text \<open>The supervisor's listener 0 is the watchdog. \<open>sy_bound\<close> and \<open>sy_bound_token\<close> are what
  \<open>bind_watchdog\<close> leaves in the supervisor.\<close>

definition WATCHDOG :: nat where
  "WATCHDOG = 0"

record system =
  sy_sup :: supervisor
  sy_estop :: "estop option"
  sy_wd :: watchdog
  sy_bound :: bool
  sy_bound_token :: "string option"

text \<open>The calls a supervisor operation logged for the watchdog, delivered in order.\<close>

fun deliver_calls ::
  "(nat \<times> safety_state \<times> safety_state \<times> utext) list \<Rightarrow> watchdog \<Rightarrow> watchdog" where
  "deliver_calls [] wd = wd"
| "deliver_calls ((cb, old_state, new_state, reason) # calls) wd =
     deliver_calls calls (if cb = WATCHDOG then on_safety_state_changed wd new_state else wd)"

definition deliver :: "supervisor \<Rightarrow> supervisor \<Rightarrow> watchdog \<Rightarrow> watchdog" where
  "deliver before after wd = deliver_calls (drop (length (sv_calls before)) (sv_calls after)) wd"

definition with_sup :: "system \<Rightarrow> supervisor \<Rightarrow> system" where
  "with_sup sy sv = sy\<lparr>sy_sup := sv, sy_wd := deliver (sy_sup sy) sv (sy_wd sy)\<rparr>"

definition sys_engaged :: "system \<Rightarrow> bool" where
  "sys_engaged sy \<longleftrightarrow> (case sy_estop sy of None \<Rightarrow> False | Some es \<Rightarrow> es_engaged es)"

definition sys_trigger_fault :: "system \<Rightarrow> utext \<Rightarrow> sys_time \<Rightarrow> system" where
  "sys_trigger_fault sy reason t =
     with_sup sy (fst (trigger_fault (sy_sup sy) (sys_engaged sy) reason (now_sup t)))"

definition sys_engage :: "system \<Rightarrow> estop_trigger_source \<Rightarrow> utext \<Rightarrow> sys_time \<Rightarrow> system" where
  "sys_engage sy source reason t =
     sy\<lparr>sy_estop := map_option (\<lambda>es. trigger es source reason (Some 0) (fresh_nonce t) (now_es t)) (sy_estop sy)\<rparr>"

definition bind_watchdog :: "system \<Rightarrow> string option \<Rightarrow> system \<times> unit py" where
  "bind_watchdog sy heartbeat_token =
     (let sy = sy\<lparr>sy_bound := True, sy_bound_token := heartbeat_token\<rparr> in
      case heartbeat_token of
        Some tok \<Rightarrow>
          if tok = [] then (sy, Inr ())
          else act_bind (let (wd, r) = arm_heartbeat_token (sy_wd sy) tok in (sy\<lparr>sy_wd := wd\<rparr>, r))
                 (\<lambda>sy _. (sy, Inr ()))
      | None \<Rightarrow> (sy, Inr ()))"

definition current_watchdog_heartbeat_token :: "system \<Rightarrow> string option" where
  "current_watchdog_heartbeat_token sy =
     (case sy_bound_token sy of
        Some tok \<Rightarrow>
          if tok \<noteq> [] then Some tok
          else if wd_heartbeat_token (sy_wd sy) = [] then None else Some (wd_heartbeat_token (sy_wd sy))
      | None \<Rightarrow> if wd_heartbeat_token (sy_wd sy) = [] then None else Some (wd_heartbeat_token (sy_wd sy)))"

definition anchor_watchdog_lease_for_arm :: "system \<Rightarrow> sys_time \<Rightarrow> system \<times> unit py" where
  "anchor_watchdog_lease_for_arm sy t =
     (if \<not> sy_bound sy then (sy, Inr ())
      else case anchor_lease_for_arm (sy_wd sy) (current_watchdog_heartbeat_token sy) t of
        (wd, r) \<Rightarrow> act_bind (sy\<lparr>sy_wd := wd\<rparr>, r) (\<lambda>sy _. (sy, Inr ())))"

text \<open>\<open>arm_tx\<close> and \<open>activate_tx\<close> in full: the gates, the transition, the burn, then the lease.\<close>

definition estop_flags :: "system \<Rightarrow> estop_view" where
  "estop_flags sy =
     (case sy_estop sy of
        None \<Rightarrow> \<lparr>ev_engaged = False, ev_downgraded = False\<rparr>
      | Some es \<Rightarrow> \<lparr>ev_engaged = es_engaged es, ev_downgraded = es_protection_downgraded es\<rparr>)"

definition sys_arm ::
  "(bytes \<Rightarrow> bytes \<Rightarrow> bytes) \<Rightarrow> safety_state \<Rightarrow> system \<Rightarrow> (utext + clock_info) \<Rightarrow> utext \<Rightarrow>
   string option \<Rightarrow> sys_time \<Rightarrow> system \<times> unit py" where
  "sys_arm mac target sy info reason tok t =
     (case arm_to mac target (sy_sup sy) (estop_flags sy) info reason tok (now_sup t) of
        (sv, Inl e) \<Rightarrow> (with_sup sy sv, Inl e)
      | (sv, Inr _) \<Rightarrow> anchor_watchdog_lease_for_arm (with_sup sy sv) t)"

definition sys_transition ::
  "system \<Rightarrow> safety_state \<Rightarrow> utext \<Rightarrow> sys_time \<Rightarrow> system \<times> unit py" where
  "sys_transition sy new_state reason t =
     (case transition_to (sy_sup sy) (sys_engaged sy) new_state reason (now_sup t) of
        (sv, r) \<Rightarrow> (with_sup sy sv, r))"

section \<open>Supervision\<close>

definition watchdog_start :: "watchdog \<Rightarrow> sys_time \<Rightarrow> watchdog" where
  "watchdog_start wd t =
     (if wd_is_running wd then wd
      else if wd_thread_alive wd then wd
      else
        let wd = wd\<lparr>wd_stop_event := False, wd_is_running := True\<rparr>;
            wd = (if \<not> wd_started_once wd then (re_anchor wd t)\<lparr>wd_started_once := True\<rparr> else wd)
        in wd\<lparr>wd_thread_alive := True, wd_teardown_registered := True\<rparr>)"

text \<open>The suspend signature: wall time ran past the lease while the lease clock lagged behind.\<close>

definition elapsed_wall :: "watchdog \<Rightarrow> sys_time \<Rightarrow> seconds" where
  "elapsed_wall wd t = max 0 (of_int (now_wall t - wd_last_wall_ns wd) / 1000000000)"

definition suspend_detected :: "system \<Rightarrow> sys_time \<Rightarrow> bool" where
  "suspend_detected sy t \<longleftrightarrow>
     (let wd = sy_wd sy in
      wd_last_wall_ns wd > 0 \<and> is_tx_permitted (sy_sup sy) \<and> elapsed_wall wd t > wd_timeout_sec wd \<and>
      elapsed_wall wd t - elapsed wd t > wd_timeout_sec wd / 2)"

text \<open>\<open>t2\<close> is the second reading of the lease clock, just before the decision.\<close>

definition monitor_loop_once ::
  "(rat \<Rightarrow> string) \<Rightarrow> bool \<Rightarrow> system \<Rightarrow> sys_time \<Rightarrow> sys_time \<Rightarrow> system" where
  "monitor_loop_once fmt force sy t t2 =
     (let wd = sy_wd sy; suspend = suspend_detected sy t in
      if \<not> wd_is_running wd \<and> \<not> force then sy
      else if \<not> (is_tx_permitted (sy_sup sy) \<and> (elapsed wd t > wd_timeout_sec wd \<or> suspend)) then sy
      else if \<not> suspend \<and> elapsed wd t2 \<le> wd_timeout_sec wd then sy
      else
        let elapsed_ms = (if \<not> suspend then elapsed wd t else elapsed_wall wd t) * 1000;
            timeout_ms = wd_timeout_sec wd * 1000;
            reason = (if suspend
              then utext (''SUSPEND_DETECTED: OS sleep/suspend detected ('' @ fmt elapsed_ms @ ''ms wall gap) during TX lease'')
              else utext (''WATCHDOG_TIMEOUT: Lease expired after '' @ fmt elapsed_ms @ '' ms without heartbeat''))
        in sys_engage (sys_trigger_fault sy reason t2) KEEPALIVE_TIMEOUT
             (utext (''Watchdog lease expired ('' @ fmt elapsed_ms @ ''ms > '' @ fmt timeout_ms @ ''ms)'')) t2)"

definition poll_once :: "(rat \<Rightarrow> string) \<Rightarrow> system \<Rightarrow> sys_time \<Rightarrow> sys_time \<Rightarrow> system" where
  "poll_once fmt sy t t2 = monitor_loop_once fmt True sy t t2"

text \<open>The monitor thread ends: after a stop it just ends, otherwise it revokes transmission.\<close>

definition monitor_exit :: "system \<Rightarrow> sys_time \<Rightarrow> system" where
  "monitor_exit sy t =
     (let wd = sy_wd sy; sy1 = sy\<lparr>sy_wd := wd\<lparr>wd_thread_alive := False\<rparr>\<rparr> in
      if wd_is_running wd then
        sys_engage (sys_trigger_fault (sy\<lparr>sy_wd := wd\<lparr>wd_thread_alive := False, wd_is_running := False\<rparr>\<rparr>)
            (utext ''WATCHDOG_MONITOR_DIED: monitor thread exited unexpectedly'') t)
          KEEPALIVE_TIMEOUT (utext ''WATCHDOG_MONITOR_DIED: monitor thread exited unexpectedly'') t
      else sy1)"

text \<open>\<open>stop\<close>: \<open>joined\<close> says whether the monitor thread ends within the second it is given.\<close>

definition watchdog_stop :: "system \<Rightarrow> bool \<Rightarrow> sys_time \<Rightarrow> system" where
  "watchdog_stop sy joined t =
     (let wd = (sy_wd sy)\<lparr>wd_is_running := False, wd_stop_event := True\<rparr>;
          wedged = wd_thread_alive wd \<and> \<not> joined;
          sy = sy\<lparr>sy_wd := wd\<lparr>wd_thread_alive := wedged\<rparr>\<rparr>
      in if wedged then
           sys_engage (sys_trigger_fault sy
               (utext ''WATCHDOG_MONITOR_WEDGED: stop() join timed out '' @ em_dash @
                utext '' monitor thread stuck; revoking TX authorization'') t)
             KEEPALIVE_TIMEOUT (utext ''Watchdog monitor thread wedged during stop '' @ em_dash @ utext '' TX authorization revoked fail-safe'') t
         else sy)"

definition on_process_teardown :: "system \<Rightarrow> sys_time \<Rightarrow> system" where
  "on_process_teardown sy t =
     (let was_running = wd_is_running (sy_wd sy); reason =
        utext ''PROCESS_TERMINATION: watchdog supervisor torn down at process exit '' @ em_dash @
        utext '' TX authorization revoked fail-closed'' in
      if \<not> (was_running \<or> is_tx_permitted (sy_sup sy)) then sy
      else
        let sy = sys_engage sy PROCESS_TERMINATION reason t
        in if was_running then sys_trigger_fault sy reason t else sy)"

text \<open>The constructor's wiring: registration as a listener, then \<open>bind_watchdog(self)\<close> without a token.\<close>

definition system_init :: "supervisor \<Rightarrow> estop option \<Rightarrow> watchdog \<Rightarrow> system" where
  "system_init sv es wd =
     fst (bind_watchdog \<lparr>sy_sup = register_callback sv WATCHDOG, sy_estop = es, sy_wd = wd,
       sy_bound = False, sy_bound_token = None\<rparr> None)"

end
