(* ===== verification/SupervisorSpec.thy ===== *)
theory SupervisorSpec
  imports Supervisor "HOL-Library.Multiset"
begin

text \<open>
  What the supervisor guarantees. The sessions of a supervisor are runs of single critical sections
  in any interleaving (\<open>sv_step\<close>, \<open>sv_run\<close>, with a clock that never goes back): the graph of its
  state changes, the audit history, the fault path, the arm gate, the round trip of arm tokens and
  their single use.
\<close>

section \<open>One transition\<close>

definition same_auth :: "supervisor \<Rightarrow> supervisor \<Rightarrow> bool" where
  "same_auth st st' \<longleftrightarrow> sv_auth_secret st' = sv_auth_secret st \<and>
     sv_allow_unauthenticated st' = sv_allow_unauthenticated st \<and>
     sv_require_arm_auth st' = sv_require_arm_auth st"

definition same_ledger :: "supervisor \<Rightarrow> supervisor \<Rightarrow> bool" where
  "same_ledger st st' \<longleftrightarrow> sv_consumed st' = sv_consumed st \<and> sv_heap st' = sv_heap st"

lemma same_auth_refl [simp, intro]: "same_auth st st"
  by (simp add: same_auth_def)

lemma same_ledger_refl [simp, intro]: "same_ledger st st"
  by (simp add: same_ledger_def)

lemma same_auth_trans [trans]: "same_auth a b \<Longrightarrow> same_auth b c \<Longrightarrow> same_auth a c"
  by (simp add: same_auth_def)

lemma same_ledger_trans [trans]: "same_ledger a b \<Longrightarrow> same_ledger b c \<Longrightarrow> same_ledger a c"
  by (simp add: same_ledger_def)

lemmas sv_fields = enter_state_def record_fault_event_def dispatch_callbacks_def same_auth_def
  same_ledger_def

text \<open>What every entered state does to the audit trail.\<close>

definition entered :: "supervisor \<Rightarrow> supervisor \<Rightarrow> safety_state \<Rightarrow> utext \<Rightarrow> instant \<Rightarrow> bool" where
  "entered st st' s reason t \<longleftrightarrow> sv_state st' = s \<and> sv_epoch st' = sv_epoch st + 1 \<and>
     sv_history st' = bounded_append HISTORY_MAXLEN (sv_history st)
       \<lparr>from_state = sv_state st, to_state = s, tr_reason = reason, tr_epoch = sv_epoch st + 1,
        monotonic_timestamp_ns = mono_ns t, wall_time_utc = wall_ns t,
        duration_ns = max 0 (mono_ns t - sv_change_ns st)\<rparr> \<and>
     same_auth st st' \<and> same_ledger st st' \<and>
     sv_callbacks st' = sv_callbacks st \<and>
     sv_calls st' = sv_calls st @ map (\<lambda>cb. (cb, sv_state st, s, reason)) (sv_callbacks st) \<and>
     sv_fault_reason st' =
       (if s = FAULT then reason
        else if sv_state st = FAULT \<and> s \<in> {PASSIVE, SAFE} then [] else sv_fault_reason st)"

lemma transition_cases [consumes 1, case_names same blocked illegal legal]:
  assumes "transition_to st eng s reason t = (st', res)"
  obtains "sv_state st = s" "st' = st" "res = Inr ()"
  | "sv_state st \<noteq> s" "sv_estop_bound st" "eng" "s \<in> {PASSIVE, ARMED_TX, ACTIVE}" "st' = st"
    "res = Inl (SafetyError ''ESTOP_ENGAGED'')"
  | msg where "sv_state st \<noteq> s" "s \<notin> ALLOWED_TRANSITIONS (sv_state st)" "entered st st' FAULT msg t"
    "sv_fault_event_count st' = sv_fault_event_count st + 1"
    "res = Inl (SafetyError ''ILLEGAL_SAFETY_TRANSITION'')"
  | "sv_state st \<noteq> s" "s \<in> ALLOWED_TRANSITIONS (sv_state st)"
    "\<not> (sv_estop_bound st \<and> eng \<and> s \<in> {PASSIVE, ARMED_TX, ACTIVE})"
    "entered st st' s (sanitize_reason reason) t"
    "sv_fault_event_count st' = sv_fault_event_count st" "res = Inr ()"
proof (cases "sv_state st = s")
  case True
  have "(st', res) = (st, Inr ())"
    using assms [unfolded transition_to_def Let_def if_P [OF True]] by (rule sym)
  then show thesis using True that(1) by blast
next
  case ne: False
  show thesis
  proof (cases "sv_estop_bound st \<and> eng \<and> s \<in> {PASSIVE, ARMED_TX, ACTIVE}")
    case True
    have "(st', res) = (st, Inl (SafetyError ''ESTOP_ENGAGED''))"
      using assms [unfolded transition_to_def Let_def if_not_P [OF ne] if_P [OF True]] by (rule sym)
    then show thesis using True ne that(2) by blast
  next
    case False
    note step = assms [unfolded transition_to_def Let_def if_not_P [OF ne] if_not_P [OF False]]
    show thesis
    proof (cases "s \<in> ALLOWED_TRANSITIONS (sv_state st)")
      case legal: True
      note st = step [unfolded if_not_P [OF iffD2 [OF not_not legal]]]
      have "entered st st' s (sanitize_reason reason) t"
      proof (cases "s = FAULT")
        case True
        show ?thesis
          using st by (clarsimp simp: True entered_def sv_fields)
      next
        case nf: False
        show ?thesis
        proof (cases "sv_state st = FAULT \<and> s \<in> {PASSIVE, SAFE}")
          case True
          show ?thesis using st unfolding if_not_P [OF nf] if_P [OF True]
            by (clarsimp simp: entered_def sv_fields nf True simp del: insert_iff)
        next
          case F: False
          show ?thesis using st unfolding if_not_P [OF nf] if_not_P [OF F] entered_def
            by (clarsimp simp: sv_fields simp del: insert_iff)
        qed
      qed
      moreover have "sv_fault_event_count st' = sv_fault_event_count st" "res = Inr ()"
        using st by (auto simp: sv_fields split: if_splits)
      ultimately show thesis using that(4) ne False legal by blast
    next
      case illegal: False
      note st = step [unfolded if_P [OF illegal]]
      have "\<exists>msg. entered st st' FAULT msg t"
        "sv_fault_event_count st' = sv_fault_event_count st + 1"
        "res = Inl (SafetyError ''ILLEGAL_SAFETY_TRANSITION'')"
        using st by (auto simp: entered_def sv_fields)
      then show thesis using that(3) ne illegal by blast
    qed
  qed
qed

lemma entered_frame: "entered st st' s r t \<Longrightarrow> same_auth st st' \<and> same_ledger st st'"
  by (simp add: entered_def)

lemma transition_frame:
  assumes "transition_to st eng s r t = (st', res)"
  shows "same_auth st st' \<and> same_ledger st st' \<and> sv_fault_timestamps st' = sv_fault_timestamps st"
proof -
  have "same_auth st st' \<and> same_ledger st st'"
    using assms by (cases rule: transition_cases) (auto simp: entered_def)
  moreover have "sv_fault_timestamps st' = sv_fault_timestamps st"
    using arg_cong [OF assms, of "\<lambda>p. sv_fault_timestamps (fst p)"]
    by (simp add: transition_to_def Let_def sv_fields del: insert_iff split: if_splits)
  ultimately show ?thesis by blast
qed

lemma fault_allowed: "s \<noteq> FAULT \<Longrightarrow> FAULT \<in> ALLOWED_TRANSITIONS s"
  by (cases s) simp_all

text \<open>Requesting FAULT cannot fail.\<close>

lemma transition_fault:
  assumes "transition_to st eng FAULT r t = (st', res)"
  shows "res = Inr () \<and> sv_state st' = FAULT \<and>
    (if sv_state st = FAULT then st' = st else entered st st' FAULT (sanitize_reason r) t) \<and>
    sv_fault_event_count st' = sv_fault_event_count st"
  using assms
proof (cases rule: transition_cases)
  case (illegal msg)
  then show ?thesis using fault_allowed by fastforce
qed (auto simp: entered_def)

section \<open>Sessions\<close>

text \<open>One critical section at clock reading \<open>t\<close> with the E-Stop engaged or not; the phases of
  \<open>arm_tx\<close> are separate steps, so every interleaving of concurrent callers is a run.\<close>

inductive sv_step :: "(bytes \<Rightarrow> bytes \<Rightarrow> bytes) \<Rightarrow> bool \<Rightarrow> instant \<Rightarrow> supervisor \<Rightarrow> supervisor \<Rightarrow> bool"
  for mac eng t where
  Transition: "transition_to st eng s reason t = (st', res) \<Longrightarrow> sv_step mac eng t st st'"
| Trigger: "trigger_fault st eng reason t = (st', res) \<Longrightarrow> sv_step mac eng t st st'"
| Force: "sv_step mac eng t st (force_fault st reason t)"
| Listen: "sv_step mac eng t st (register_callback st cb)"
| Unlisten: "sv_step mac eng t st (unregister_callback st cb)"
| Bind: "sv_step mac eng t st (fst (bind_estop st has_is_engaged))"
| Check: "arm_check mac st \<lparr>ev_engaged = eng, ev_downgraded = down\<rparr> info tok t = (st', res) \<Longrightarrow>
    sv_step mac eng t st st'"
| Burn: "arm_burn st pending t = (st', res) \<Longrightarrow> sv_step mac eng t st st'"

inductive sv_run :: "(bytes \<Rightarrow> bytes \<Rightarrow> bytes) \<Rightarrow> int \<Rightarrow> supervisor \<Rightarrow> int \<Rightarrow> supervisor \<Rightarrow> bool"
  for mac T st where
  Start: "sv_run mac T st T st"
| Next: "sv_run mac T st T1 st1 \<Longrightarrow> T1 \<le> mono_ns t \<Longrightarrow> sv_step mac eng t st1 st2 \<Longrightarrow>
    sv_run mac T st (mono_ns t) st2"

inductive_cases sv_stepE: "sv_step mac eng t st st'"
inductive_simps sv_run_start: "sv_run mac T st T st"

text \<open>What a step does to the state: nothing, a transition of the table, or FAULT.\<close>

definition moved :: "bool \<Rightarrow> supervisor \<Rightarrow> supervisor \<Rightarrow> instant \<Rightarrow> bool" where
  "moved eng st st' t \<longleftrightarrow> (\<exists>s r. entered st st' s r t \<and>
     (s = FAULT \<or> s \<in> ALLOWED_TRANSITIONS (sv_state st)) \<and>
     (sv_estop_bound st \<and> eng \<longrightarrow> s \<notin> {PASSIVE, ARMED_TX, ACTIVE}))"

definition trail_kept :: "supervisor \<Rightarrow> supervisor \<Rightarrow> bool" where
  "trail_kept st st' \<longleftrightarrow> sv_state st' = sv_state st \<and> sv_epoch st' = sv_epoch st \<and>
     sv_history st' = sv_history st \<and> sv_fault_reason st' = sv_fault_reason st \<and> same_auth st st'"

lemma transition_moved:
  assumes "transition_to st eng s r t = (st', res)"
  shows "st' = st \<or> moved eng st st' t"
  using assms
  by (cases rule: transition_cases) (auto simp: moved_def)

lemma entered_cong:
  "sv_state a = sv_state b \<Longrightarrow> sv_epoch a = sv_epoch b \<Longrightarrow> sv_history a = sv_history b \<Longrightarrow>
   sv_change_ns a = sv_change_ns b \<Longrightarrow>
   sv_callbacks a = sv_callbacks b \<Longrightarrow> sv_calls a = sv_calls b \<Longrightarrow>
   sv_fault_reason a = sv_fault_reason b \<Longrightarrow> same_auth a b \<Longrightarrow> same_ledger a b \<Longrightarrow>
   entered a st' s r t \<Longrightarrow> entered b st' s r t"
  by (simp add: entered_def same_auth_def same_ledger_def del: insert_iff)

definition fault_logged :: "supervisor \<Rightarrow> instant \<Rightarrow> supervisor" where
  "fault_logged st t =
     (let recent = dropWhile (\<lambda>ts. mono_ns t - ts \<ge> 1000000000) (sv_fault_timestamps st)
      in record_fault_event (st\<lparr>sv_fault_timestamps :=
           (if length recent \<ge> FAULT_RATE_LIMIT_PER_SEC then recent
            else bounded_append 32 recent (mono_ns t))\<rparr>) t)"

lemma trigger_fault_eq: "trigger_fault st eng r t = transition_to (fault_logged st t) eng FAULT r t"
  by (simp add: trigger_fault_def fault_logged_def Let_def)

lemma fault_logged_fields [simp]:
  "sv_state (fault_logged st t) = sv_state st" "sv_epoch (fault_logged st t) = sv_epoch st"
  "sv_history (fault_logged st t) = sv_history st" "sv_change_ns (fault_logged st t) = sv_change_ns st"
  "sv_callbacks (fault_logged st t) = sv_callbacks st" "sv_calls (fault_logged st t) = sv_calls st"
  "sv_fault_reason (fault_logged st t) = sv_fault_reason st"
  "sv_estop_bound (fault_logged st t) = sv_estop_bound st"
  "sv_fault_event_count (fault_logged st t) = sv_fault_event_count st + 1"
  "same_auth st (fault_logged st t)" "same_ledger st (fault_logged st t)"
  by (simp_all add: fault_logged_def Let_def sv_fields)

text \<open>The fault path from any state.\<close>

lemma trigger_fault_outcome:
  assumes "trigger_fault st eng r t = (st', res)"
  shows "res = Inr ()" "sv_state st' = FAULT" "sv_fault_event_count st' = sv_fault_event_count st + 1"
    "same_auth st st'" "same_ledger st st'"
    "if sv_state st = FAULT then trail_kept st st' \<and> sv_calls st' = sv_calls st
     else sv_epoch st' = sv_epoch st + 1 \<and> sv_fault_reason st' = sanitize_reason r \<and>
       sv_calls st' = sv_calls st @ map (\<lambda>cb. (cb, sv_state st, FAULT, sanitize_reason r)) (sv_callbacks st) \<and>
       sv_history st' = bounded_append HISTORY_MAXLEN (sv_history st)
         \<lparr>from_state = sv_state st, to_state = FAULT, tr_reason = sanitize_reason r,
          tr_epoch = sv_epoch st + 1, monotonic_timestamp_ns = mono_ns t,
          wall_time_utc = wall_ns t, duration_ns = max 0 (mono_ns t - sv_change_ns st)\<rparr>"
proof -
  note step = assms [unfolded trigger_fault_eq]
  note out = transition_fault [OF step]
  show "res = Inr ()" "sv_state st' = FAULT"
    "sv_fault_event_count st' = sv_fault_event_count st + 1" using out by simp_all
  have f: "same_auth (fault_logged st t) st' \<and> same_ledger (fault_logged st t) st'"
    using transition_frame [OF step] by simp
  show "same_auth st st'" using f same_auth_trans fault_logged_fields(10) by blast
  then show "if sv_state st = FAULT then trail_kept st st' \<and> sv_calls st' = sv_calls st
     else sv_epoch st' = sv_epoch st + 1 \<and> sv_fault_reason st' = sanitize_reason r \<and>
       sv_calls st' = sv_calls st @ map (\<lambda>cb. (cb, sv_state st, FAULT, sanitize_reason r)) (sv_callbacks st) \<and>
       sv_history st' = bounded_append HISTORY_MAXLEN (sv_history st)
         \<lparr>from_state = sv_state st, to_state = FAULT, tr_reason = sanitize_reason r,
          tr_epoch = sv_epoch st + 1, monotonic_timestamp_ns = mono_ns t,
          wall_time_utc = wall_ns t, duration_ns = max 0 (mono_ns t - sv_change_ns st)\<rparr>"
    using out by (auto simp: trail_kept_def entered_def)
  show "same_ledger st st'" using f same_ledger_trans fault_logged_fields(11) by blast
qed


section \<open>The steps\<close>

lemma trail_kept_refl [simp]: "trail_kept st st"
  by (simp add: trail_kept_def)

lemma moved_trigger:
  assumes "trigger_fault st eng r t = (st', res)"
  shows "trail_kept st st' \<or> moved eng st st' t"
proof (cases "sv_state st = FAULT")
  case True
  then show ?thesis using trigger_fault_outcome(6) [OF assms] by simp
next
  case False
  have "entered (fault_logged st t) st' FAULT (sanitize_reason r) t"
    using transition_fault [OF assms [unfolded trigger_fault_eq]] False by simp
  then have "entered st st' FAULT (sanitize_reason r) t"
    by (rule entered_cong [rotated -1]) (simp_all add: same_auth_def same_ledger_def fault_logged_def Let_def record_fault_event_def)
  then show ?thesis unfolding moved_def by blast
qed

lemma force_fault_moved: "trail_kept st (force_fault st r t) \<or> moved eng st (force_fault st r t) t"
proof (cases "sv_state st = FAULT \<and> sv_fault_reason st = sanitize_reason r")
  case False
  have "entered st (force_fault st r t) FAULT (sanitize_reason r) t"
    using False unfolding force_fault_def Let_def if_not_P [OF False] entered_def
    by (simp add: sv_fields)
  then show ?thesis unfolding moved_def by blast
qed (simp add: force_fault_def Let_def)

lemma prune_fields [simp]:
  "trail_kept st (prune_consumed_arm_tokens st t)" "same_auth st (prune_consumed_arm_tokens st t)"
  "sv_calls (prune_consumed_arm_tokens st t) = sv_calls st"
  "sv_estop_bound (prune_consumed_arm_tokens st t) = sv_estop_bound st"
  by (simp_all add: prune_consumed_arm_tokens_def trail_kept_def same_auth_def split: prod.splits)

lemma record_consumed_fields [simp]:
  "trail_kept st (record_consumed_arm_token st p)" "same_auth st (record_consumed_arm_token st p)"
  "sv_calls (record_consumed_arm_token st p) = sv_calls st"
  by (simp_all add: record_consumed_arm_token_def trail_kept_def same_auth_def)

lemma trail_kept_trans [trans]: "trail_kept a b \<Longrightarrow> trail_kept b c \<Longrightarrow> trail_kept a c"
  by (simp add: trail_kept_def same_auth_def)

lemma verify_outcome:
  "fst (verify_arm_token mac st secret tok False t) = st \<or>
   fst (verify_arm_token mac st secret tok False t) = prune_consumed_arm_tokens st t"
  by (simp add: verify_arm_token_def act_bind_def Let_def split: option.splits prod.splits sum.splits)

lemma authorization_outcome:
  assumes "require_arm_authorization mac st tok False t = (st', res)"
  shows "st' = st \<or> st' = prune_consumed_arm_tokens st t"
  using assms verify_outcome [of mac st _ _ t]
  by (auto simp: require_arm_authorization_def split: option.splits if_splits) (metis fst_conv)+

lemma clock_outcome:
  assumes "assert_clock_safety st ev info t = (st', res)"
  shows "(st' = st \<and> res = Inr () \<and> (\<exists>ci. info = Inr ci \<and> ci_monotonic ci \<and> \<not> ci_adjustable ci \<and>
            ci_resolution ci \<le> 5 / 100)) \<or>
    ((\<exists>r. trigger_fault st (ev_engaged ev) r t = (st', Inr ())) \<and>
     res = Inl (SafetyError ''CLOCK_INTEGRITY_VIOLATION''))"
proof -
  have refuse: "act_bind (trigger_fault st (ev_engaged ev) r t)
      (\<lambda>st _. (st, Inl (SafetyError ''CLOCK_INTEGRITY_VIOLATION''))) = (st', res) \<Longrightarrow>
    (\<exists>r. trigger_fault st (ev_engaged ev) r t = (st', Inr ())) \<and>
     res = Inl (SafetyError ''CLOCK_INTEGRITY_VIOLATION'')" for r
  proof -
    obtain s u where f: "trigger_fault st (ev_engaged ev) r t = (s, u)" by fastforce
    then show "act_bind (trigger_fault st (ev_engaged ev) r t)
      (\<lambda>st _. (st, Inl (SafetyError ''CLOCK_INTEGRITY_VIOLATION''))) = (st', res) \<Longrightarrow> ?thesis"
      using trigger_fault_outcome(1) [OF f] by auto
  qed
  show ?thesis
    using assms refuse
    by (simp add: assert_clock_safety_def Let_def split: sum.splits if_splits)
qed

text \<open>The gates of \<open>arm_tx\<close> leave the state alone, or fault on an unsafe clock.\<close>

lemma arm_check_outcome:
  assumes "arm_check mac st ev info tok t = (st', res)"
  shows "(st' = st \<or> st' = prune_consumed_arm_tokens st t) \<or>
    ((\<exists>r. trigger_fault st (ev_engaged ev) r t = (st', Inr ())) \<and>
     res = Inl (SafetyError ''CLOCK_INTEGRITY_VIOLATION''))"
proof -
  obtain s1 r1 where c: "assert_clock_safety st ev info t = (s1, r1)" by fastforce
  show ?thesis
  proof (cases "assert_estop_protection_intact st ev")
    case (Inl e)
    then show ?thesis using assms by (simp add: arm_check_def)
  next
    case (Inr u)
    have "act_bind (s1, r1) (\<lambda>st _. require_arm_authorization mac st tok False t) = (st', res)"
      using assms by (simp add: arm_check_def Inr c)
    then show ?thesis using clock_outcome [OF c] authorization_outcome [of mac st tok t st' res]
      by (elim disjE conjE exE) (simp, simp, blast)
  qed
qed

lemma burn_outcome:
  assumes "arm_burn st pending t = (st', res)"
  shows "(pending = None \<and> st' = st \<and> res = Inr ()) \<or>
    (\<exists>p. pending = Some p \<and> p \<in> set (sv_consumed (prune_consumed_arm_tokens st t)) \<and>
       st' = prune_consumed_arm_tokens st t \<and> res = Inl (SafetyError ''ARM_AUTH_REPLAYED'')) \<or>
    (\<exists>p. pending = Some p \<and> p \<notin> set (sv_consumed (prune_consumed_arm_tokens st t)) \<and>
       st' = record_consumed_arm_token (prune_consumed_arm_tokens st t) p \<and> res = Inr ())"
  using assms by (auto simp: arm_burn_def burn_arm_token_def Let_def split: option.splits if_splits)

lemma burn_trail: "arm_burn st pending t = (st', res) \<Longrightarrow> trail_kept st st'"
  using burn_outcome [of st pending t st' res]
  by (auto intro: trail_kept_trans [OF prune_fields(1) record_consumed_fields(1)])

lemma sv_step_moves:
  assumes "sv_step mac eng t st st'"
  shows "trail_kept st st' \<or> moved eng st st' t"
  using assms
proof (cases rule: sv_step.cases)
  case (Transition s r res)
  then show ?thesis using transition_moved by fastforce
next
  case (Trigger r res)
  then show ?thesis by (rule moved_trigger)
next
  case (Force r)
  then show ?thesis using force_fault_moved by blast
next
  case (Check down info tok res)
  then show ?thesis using arm_check_outcome [OF Check] moved_trigger by fastforce
next
  case (Burn pending res)
  then show ?thesis using burn_trail by blast
qed (simp_all add: trail_kept_def same_auth_def register_callback_def unregister_callback_def bind_estop_def)

lemma sv_step_auth: "sv_step mac eng t st st' \<Longrightarrow> same_auth st st'"
  using sv_step_moves [of mac eng t st st'] by (auto simp: trail_kept_def moved_def entered_def)


section \<open>The audit history\<close>

text \<open>\<open>get_history\<close> is one path of the transition table: it never has a gap, its epochs count up by
  one, and it ends in the present state. Without the bound of 10000 records it would start at boot.\<close>

definition audit_ok :: "supervisor \<Rightarrow> bool" where
  "audit_ok st \<longleftrightarrow> length (sv_history st) \<le> HISTORY_MAXLEN \<and>
     int (length (sv_history st)) \<le> sv_epoch st \<and>
     (\<forall>r \<in> set (sv_history st). to_state r = FAULT \<or> to_state r \<in> ALLOWED_TRANSITIONS (from_state r)) \<and>
     (\<forall>i. Suc i < length (sv_history st) \<longrightarrow>
        from_state (sv_history st ! Suc i) = to_state (sv_history st ! i) \<and>
        tr_epoch (sv_history st ! Suc i) = tr_epoch (sv_history st ! i) + 1) \<and>
     (sv_history st \<noteq> [] \<longrightarrow> to_state (last (sv_history st)) = sv_state st \<and>
        tr_epoch (last (sv_history st)) = sv_epoch st) \<and>
     (sv_state st \<noteq> FAULT \<longrightarrow> sv_fault_reason st = [])"

lemma bounded_append_small: "length xs < n \<Longrightarrow> bounded_append n xs x = xs @ [x]"
  by (simp add: bounded_append_def Let_def)

lemma bounded_append_full: "length xs = n \<Longrightarrow> 0 < n \<Longrightarrow> bounded_append n xs x = tl xs @ [x]"
  by (cases xs) (simp_all add: bounded_append_def Let_def)

text \<open>A property of neighbours survives appending one that fits, and dropping the oldest.\<close>

lemma neighbours_snoc:
  assumes "\<forall>i. Suc i < length xs \<longrightarrow> P (xs ! i) (xs ! Suc i)" "xs \<noteq> [] \<Longrightarrow> P (last xs) x"
  shows "\<forall>i. Suc i < length (xs @ [x]) \<longrightarrow> P ((xs @ [x]) ! i) ((xs @ [x]) ! Suc i)"
proof (intro allI impI)
  fix i assume i: "Suc i < length (xs @ [x])"
  show "P ((xs @ [x]) ! i) ((xs @ [x]) ! Suc i)"
  proof (cases "Suc i < length xs")
    case True
    then show ?thesis using assms(1) by (simp add: nth_append)
  next
    case False
    then have e: "Suc i = length xs" using i by simp
    then have "xs \<noteq> []" by auto
    moreover have "last xs = xs ! i" using e \<open>xs \<noteq> []\<close> by (metis diff_Suc_1 last_conv_nth)
    ultimately show ?thesis using assms(2) e by (simp add: nth_append)
  qed
qed

lemma neighbours_tl:
  "\<forall>i. Suc i < length xs \<longrightarrow> P (xs ! i) (xs ! Suc i) \<Longrightarrow>
   \<forall>i. Suc i < length (tl xs) \<longrightarrow> P (tl xs ! i) (tl xs ! Suc i)"
  by (simp add: nth_tl)

lemma audit_entered:
  assumes ok: "audit_ok st" and e: "entered st st' s reason t"
    and s: "s = FAULT \<or> s \<in> ALLOWED_TRANSITIONS (sv_state st)"
  shows "audit_ok st'"
proof -
  let ?h = "sv_history st"
  define r where "r = \<lparr>from_state = sv_state st, to_state = s, tr_reason = reason,
    tr_epoch = sv_epoch st + 1, monotonic_timestamp_ns = mono_ns t, wall_time_utc = wall_ns t,
    duration_ns = max 0 (mono_ns t - sv_change_ns st)\<rparr>"
  define P :: "transition_record \<Rightarrow> transition_record \<Rightarrow> bool"
    where "P = (\<lambda>a b. from_state b = to_state a \<and> tr_epoch b = tr_epoch a + (1::int))"
  have st': "sv_state st' = s" "sv_epoch st' = sv_epoch st + 1"
    "sv_history st' = bounded_append HISTORY_MAXLEN ?h r"
    and reason: "s \<noteq> FAULT \<Longrightarrow> sv_state st \<noteq> FAULT \<Longrightarrow> sv_fault_reason st' = sv_fault_reason st"
      "s \<in> {PASSIVE, SAFE} \<Longrightarrow> sv_state st = FAULT \<Longrightarrow> sv_fault_reason st' = []"
    using e by (auto simp: entered_def r_def)
  obtain g where g: "sv_history st' = g @ [r]" "length g < HISTORY_MAXLEN" "length g \<le> length ?h"
    "set g \<subseteq> set ?h" "\<forall>i. Suc i < length g \<longrightarrow> P (g ! i) (g ! Suc i)" "g \<noteq> [] \<longrightarrow> last g = last ?h"
    "g \<noteq> [] \<longrightarrow> ?h \<noteq> []"
  proof (cases "length ?h < HISTORY_MAXLEN")
    case True
    then show thesis using that [of ?h] ok by (simp add: st' bounded_append_small audit_ok_def P_def)
  next
    case False
    then have full: "length ?h = HISTORY_MAXLEN" using ok by (simp add: audit_ok_def)
    have pos: "0 < HISTORY_MAXLEN" by (simp add: HISTORY_MAXLEN_def)
    have "\<forall>i. Suc i < length (tl ?h) \<longrightarrow> P (tl ?h ! i) (tl ?h ! Suc i)"
      by (rule neighbours_tl) (use ok in \<open>simp add: audit_ok_def P_def\<close>)
    then show thesis using that [of "tl ?h"] full pos
      by (simp add: st' bounded_append_full last_tl) (metis list.sel(2) list.set_sel(2) subsetI)
  qed
  have "\<forall>i. Suc i < length (g @ [r]) \<longrightarrow> P ((g @ [r]) ! i) ((g @ [r]) ! Suc i)"
    by (rule neighbours_snoc [OF g(5)]) (use g(6,7) ok in \<open>auto simp: P_def r_def audit_ok_def\<close>)
  moreover have "to_state r = FAULT \<or> to_state r \<in> ALLOWED_TRANSITIONS (from_state r)"
    using s by (simp add: r_def)
  moreover have "s \<noteq> FAULT \<longrightarrow> sv_fault_reason st' = []"
    using reason s ok by (cases "sv_state st = FAULT") (auto simp: audit_ok_def)
  ultimately show ?thesis
    using g(1-4) ok unfolding audit_ok_def st'(1,2) g(1) P_def by (auto simp: r_def)
qed

lemma audit_kept: "trail_kept st st' \<Longrightarrow> audit_ok st' \<longleftrightarrow> audit_ok st"
  by (simp add: trail_kept_def audit_ok_def)

lemma audit_step:
  assumes "audit_ok st" "sv_step mac eng t st st'"
  shows "audit_ok st'"
  using sv_step_moves [OF assms(2)]
proof
  assume "trail_kept st st'"
  then show ?thesis using audit_kept assms(1) by blast
next
  assume "moved eng st st' t"
  then show ?thesis unfolding moved_def using audit_entered [OF assms(1)] by blast
qed

lemma audit_run: "sv_run mac T st T' st' \<Longrightarrow> audit_ok st \<Longrightarrow> audit_ok st'"
  by (induction rule: sv_run.induct) (auto intro: audit_step)

lemma audit_init:
  "supervisor_init s0 ok sec al req tm t = Inr st \<Longrightarrow> audit_ok st"
  by (auto simp: supervisor_init_def audit_ok_def split: if_splits)

text \<open>C35. In every session from a constructed supervisor, however its critical sections interleave,
  the history is one gapless path of the transition table (or forced FAULTs) with consecutive epochs
  that ends in the present state, at most 10000 records long; outside FAULT no fault reason is left.\<close>

theorem audit_trail_gapless:
  assumes "supervisor_init s0 ok sec al req tm t = Inr st" "sv_run mac T st T' st'"
  shows "audit_ok st'"
  using audit_run [OF assms(2)] audit_init [OF assms(1)] by blast

text \<open>The states a critical section can reach: only FAULT from anywhere, otherwise one edge of
  the table; while the E-Stop is engaged never PASSIVE, ARMED_TX or ACTIVE; so transmission is never
  permitted again without an intermediate PASSIVE.\<close>

theorem supervisor_edges:
  assumes "sv_step mac eng t st st'"
  shows "(sv_state st' = sv_state st \<or> sv_state st' = FAULT \<or>
      sv_state st' \<in> ALLOWED_TRANSITIONS (sv_state st)) \<and>
    (sv_estop_bound st \<and> eng \<longrightarrow> sv_state st' = sv_state st \<or> sv_state st' \<in> {SAFE, FAULT}) \<and>
    (is_tx_permitted st' \<longrightarrow> is_tx_permitted st \<or> is_passive st)"
proof -
  have alt: "sv_state st' = sv_state st \<or>
     ((sv_state st' = FAULT \<or> sv_state st' \<in> ALLOWED_TRANSITIONS (sv_state st)) \<and>
     (sv_estop_bound st \<and> eng \<longrightarrow> sv_state st' \<notin> {PASSIVE, ARMED_TX, ACTIVE}))"
    using sv_step_moves [OF assms] unfolding moved_def trail_kept_def entered_def by blast
  have boot: "STARTUP \<notin> ALLOWED_TRANSITIONS s" for s
    by (cases s) simp_all
  have "sv_estop_bound st \<and> eng \<longrightarrow> sv_state st' = sv_state st \<or> sv_state st' \<in> {SAFE, FAULT}"
    using alt boot by (cases "sv_state st'") auto
  moreover have "is_tx_permitted st' \<longrightarrow> is_tx_permitted st \<or> is_passive st"
    using alt by (cases "sv_state st") (auto simp: is_tx_permitted_def is_passive_def)
  ultimately show ?thesis using alt by blast
qed


section \<open>The ledger of spent tokens\<close>

lemma consumed_pop:
  "(case consumed of first # rest \<Rightarrow> if first = payload then rest else remove1 payload consumed | [] \<Rightarrow> [])
   = remove1 payload consumed"
  by (cases consumed) auto

text \<open>Pruning pops the expired front of the heap and removes exactly those payloads.\<close>

lemma prune_spec:
  "prune_arm_tokens now heap consumed =
     (dropWhile (\<lambda>(e, p). e < now) heap,
      fold (\<lambda>(e, p). remove1 p) (takeWhile (\<lambda>(e, p). e < now) heap) consumed)"
  by (induction now heap consumed rule: prune_arm_tokens.induct)
    (simp_all add: consumed_pop del: list.case)

definition ledger_ok :: "supervisor \<Rightarrow> bool" where
  "ledger_ok st \<longleftrightarrow> mset (map snd (sv_heap st)) = mset (sv_consumed st) \<and> distinct (sv_consumed st) \<and>
     (\<forall>(e, p) \<in> set (sv_heap st). e = from_be (take 8 p))"

lemma fold_remove_mset:
  "mset (fold (\<lambda>(e, p). remove1 p) xs ys) = mset ys - mset (map snd xs)"
  by (induction xs arbitrary: ys) (auto simp: case_prod_beta)

lemma fold_remove_distinct: "distinct ys \<Longrightarrow> distinct (fold (\<lambda>(e, p). remove1 p) xs ys)"
  by (induction xs arbitrary: ys) (auto simp: case_prod_beta)

lemma prune_ledger:
  assumes "ledger_ok st"
  shows "ledger_ok (prune_consumed_arm_tokens st t) \<and>
    set (sv_consumed (prune_consumed_arm_tokens st t)) \<subseteq> set (sv_consumed st) \<and>
    (\<forall>p \<in> set (sv_consumed st). mono_ns t \<le> from_be (take 8 p) \<longrightarrow>
       p \<in> set (sv_consumed (prune_consumed_arm_tokens st t)))"
proof -
  let ?old = "\<lambda>(e, p). e < mono_ns t"
  let ?gone = "takeWhile ?old (sv_heap st)" and ?live = "dropWhile ?old (sv_heap st)"
  define st' where "st' = prune_consumed_arm_tokens st t"
  have st': "sv_heap st' = ?live"
    "sv_consumed st' = fold (\<lambda>(e, p). remove1 p) ?gone (sv_consumed st)"
    by (simp_all add: st'_def prune_consumed_arm_tokens_def prune_spec)
  have split: "mset (map snd ?gone) + mset (map snd ?live) = mset (sv_consumed st)"
    using assms unfolding ledger_ok_def
    by (metis map_append mset_append takeWhile_dropWhile_id)
  then have live: "mset (sv_consumed st') = mset (map snd ?live)"
    unfolding st' fold_remove_mset by (metis add_diff_cancel_left')
  have sub: "mset (sv_consumed st') \<subseteq># mset (sv_consumed st)"
    unfolding live using split by (metis mset_subset_eq_add_right)
  have "distinct (sv_consumed st')"
    unfolding st'(2) by (rule fold_remove_distinct) (use assms in \<open>simp add: ledger_ok_def\<close>)
  moreover have "\<forall>(e, p) \<in> set (sv_heap st'). e = from_be (take 8 p)"
    using assms set_dropWhileD unfolding ledger_ok_def st'(1) by fast
  moreover have "mset (map snd (sv_heap st')) = mset (sv_consumed st')" using live st'(1) by simp
  ultimately have "ledger_ok st'" by (simp add: ledger_ok_def)
  moreover have "p \<in> set (sv_consumed st')"
    if p: "p \<in> set (sv_consumed st)" "mono_ns t \<le> from_be (take 8 p)" for p
  proof -
    have "p \<notin> set (map snd ?gone)"
    proof
      assume "p \<in> set (map snd ?gone)"
      then obtain e where e: "(e, p) \<in> set ?gone" by auto
      then have "e < mono_ns t" using set_takeWhileD [OF e] by simp
      moreover have "e = from_be (take 8 p)"
        using assms set_takeWhileD [OF e] by (auto simp: ledger_ok_def)
      ultimately show False using p(2) by simp
    qed
    moreover have "p \<in># mset (map snd ?gone) + mset (map snd ?live)" using p(1) split by simp
    ultimately have "p \<in># mset (map snd ?live)" by simp
    then show ?thesis using live by (metis set_mset_mset)
  qed
  moreover have "set (sv_consumed st') \<subseteq> set (sv_consumed st)"
    using set_mset_mono [OF sub] by simp
  ultimately show ?thesis unfolding st'_def by blast
qed

lemma record_ledger:
  assumes "ledger_ok st" "p \<notin> set (sv_consumed st)"
  shows "ledger_ok (record_consumed_arm_token st p)"
proof -
  have "mset (insort_key k x xs) = add_mset x (mset xs)" for k :: "int \<times> bytes \<Rightarrow> int" and x xs
    by simp
  then show ?thesis using assms
    by (auto simp: ledger_ok_def record_consumed_arm_token_def set_insort_key)
qed

lemma same_ledger_ok: "same_ledger st st' \<Longrightarrow> ledger_ok st' \<longleftrightarrow> ledger_ok st"
  by (simp add: same_ledger_def ledger_ok_def)

text \<open>How a step touches the ledger.\<close>

lemma sv_step_ledger:
  assumes "sv_step mac eng t st st'"
  shows "same_ledger st st' \<or> st' = prune_consumed_arm_tokens st t \<or>
    (\<exists>p. p \<notin> set (sv_consumed (prune_consumed_arm_tokens st t)) \<and>
       st' = record_consumed_arm_token (prune_consumed_arm_tokens st t) p)"
  using assms
proof (cases rule: sv_step.cases)
  case (Transition s r res)
  then show ?thesis using transition_frame by blast
next
  case (Trigger r res)
  then show ?thesis using trigger_fault_outcome(5) by blast
next
  case (Force r)
  then show ?thesis by (simp add: force_fault_def Let_def same_ledger_def enter_state_def dispatch_callbacks_def)
next
  case (Check down info tok res)
  then show ?thesis using arm_check_outcome [OF Check] trigger_fault_outcome(5) by fastforce
next
  case (Burn pending res)
  then show ?thesis using burn_outcome [OF Burn] by auto
qed (simp_all add: same_ledger_def register_callback_def unregister_callback_def bind_estop_def)

lemma ledger_step: "ledger_ok st \<Longrightarrow> sv_step mac eng t st st' \<Longrightarrow> ledger_ok st'"
  using sv_step_ledger [of mac eng t st st'] same_ledger_ok prune_ledger [of st t] record_ledger
  by blast

text \<open>Once spent, a payload stays in the ledger until its expiry has passed.\<close>

definition spent :: "bytes \<Rightarrow> int \<Rightarrow> supervisor \<Rightarrow> bool" where
  "spent p T st \<longleftrightarrow> p \<in> set (sv_consumed st) \<or> from_be (take 8 p) < T"

lemma spent_step:
  assumes "ledger_ok st" "spent p T st" "T \<le> mono_ns t" "sv_step mac eng t st st'"
  shows "spent p (mono_ns t) st'"
  using sv_step_ledger [OF assms(4)] prune_ledger [OF assms(1), of t] assms(2,3)
  by (auto simp: spent_def same_ledger_def record_consumed_arm_token_def not_less)

lemma spent_run:
  assumes "sv_run mac T st T' st'" "ledger_ok st" "spent p T st"
  shows "ledger_ok st' \<and> spent p T' st' \<and> same_auth st st'"
  using assms
proof (induction rule: sv_run.induct)
  case (Next T1 st1 t eng st2)
  then show ?case
    using ledger_step spent_step sv_step_auth same_auth_trans by blast
qed simp

lemma ledger_run: "sv_run mac T st T' st' \<Longrightarrow> ledger_ok st \<Longrightarrow> ledger_ok st'"
  by (induction rule: sv_run.induct) (auto intro: ledger_step)

lemma ledger_init: "supervisor_init s0 ok sec al req tm t = Inr st \<Longrightarrow> ledger_ok st"
  by (auto simp: supervisor_init_def ledger_ok_def split: if_splits)


section \<open>The arm gate\<close>

text \<open>The eight expiry bytes of a payload, and the payload a token stands for.\<close>

abbreviation be8 :: "int \<Rightarrow> bytes" where
  "be8 e \<equiv> rev (le_bytes 8 e)"

lemma be8_facts:
  assumes "0 \<le> e" "e < 2 ^ 64"
  shows "to_be 8 e = Inr (be8 e)" "from_be (be8 e) = e" "take 8 (be8 e @ n) = be8 e"
  using assms by (simp_all add: to_be_def from_be_def from_le_le_bytes)

lemma prune_idem:
  assumes "ledger_ok st"
  shows "prune_consumed_arm_tokens (prune_consumed_arm_tokens st t) t = prune_consumed_arm_tokens st t"
proof -
  let ?old = "\<lambda>(e, p). e < mono_ns t"
  have "takeWhile ?old (dropWhile ?old xs) = [] \<and> dropWhile ?old (dropWhile ?old xs) = dropWhile ?old xs"
    for xs :: "(int \<times> bytes) list"
    by (induction xs) auto
  then show ?thesis by (simp add: prune_consumed_arm_tokens_def prune_spec)
qed

lemma prune_same:
  "same_ledger a b \<Longrightarrow>
   sv_consumed (prune_consumed_arm_tokens b t) = sv_consumed (prune_consumed_arm_tokens a t)"
  by (simp add: prune_consumed_arm_tokens_def same_ledger_def split: prod.splits)

lemma verify_accepts:
  "verify_arm_token mac st secret w False t = (st', Inr r) \<longleftrightarrow>
   (\<exists>e n. parse_arm_token w = Some (e, n, mac secret (be8 e @ n)) \<and> 0 \<le> e \<and> e < 2 ^ 64 \<and>
      length n = 16 \<and> length (mac secret (be8 e @ n)) = 32 \<and> mono_ns t \<le> e \<and>
      st' = prune_consumed_arm_tokens st t \<and> be8 e @ n \<notin> set (sv_consumed st') \<and>
      r = Some (be8 e @ n))" (is "?lhs \<longleftrightarrow> ?rhs")
proof
  assume l: ?lhs
  then obtain e n m where p: "parse_arm_token w = Some (e, n, m)"
    by (cases "parse_arm_token w") (auto simp: verify_arm_token_def)
  note v = l [unfolded verify_arm_token_def p option.case prod.case]
  have b: "0 \<le> e" "e < 2 ^ 64" using v by (simp_all split: if_splits)
  show ?rhs
    using v p b by (auto simp: be8_facts [OF b] Let_def split: if_splits)
next
  assume ?rhs
  then obtain e n where r: "parse_arm_token w = Some (e, n, mac secret (be8 e @ n))" "0 \<le> e"
    "e < 2 ^ 64" "length n = 16" "length (mac secret (be8 e @ n)) = 32" "mono_ns t \<le> e"
    "st' = prune_consumed_arm_tokens st t" "be8 e @ n \<notin> set (sv_consumed st')" "r = Some (be8 e @ n)"
    by blast
  then show ?lhs
    by (simp add: verify_arm_token_def be8_facts [OF r(2,3)] Let_def)
qed

text \<open>A token already spent, or expired by now, is refused.\<close>

lemma verify_refuses:
  assumes "parse_arm_token w = Some (e, n, m)" "spent (be8 e @ n) (mono_ns t) st" "ledger_ok st"
  shows "\<exists>err. snd (verify_arm_token mac st secret w False t) = Inl err"
proof (cases "snd (verify_arm_token mac st secret w False t)")
  case (Inr r)
  then have "verify_arm_token mac st secret w False t =
      (fst (verify_arm_token mac st secret w False t), Inr r)" by (metis prod.collapse)
  then obtain st' where v: "verify_arm_token mac st secret w False t = (st', Inr r)" by blast
  then have e: "0 \<le> e" "e < 2 ^ 64" "mono_ns t \<le> e"
    "be8 e @ n \<notin> set (sv_consumed (prune_consumed_arm_tokens st t))"
    using assms(1) by (auto simp: verify_accepts)
  have "from_be (take 8 (be8 e @ n)) = e"
    using be8_facts [OF e(1,2)] by simp
  then have "be8 e @ n \<in> set (sv_consumed st)" "mono_ns t \<le> from_be (take 8 (be8 e @ n))"
    using assms(2) e(3) by (auto simp: spent_def)
  then show ?thesis using prune_ledger [OF assms(3), of t] e(4) by blast
qed simp

lemma arm_check_accepts:
  "arm_check mac st ev info tok t = (st', Inr p) \<longleftrightarrow>
     \<not> (sv_estop_bound st \<and> ev_downgraded ev) \<and>
     assert_clock_safety st ev info t = (st, Inr ()) \<and>
     require_arm_authorization mac st tok False t = (st', Inr p)" (is "?l \<longleftrightarrow> ?r")
proof
  assume ?l
  then obtain s1 u where "assert_estop_protection_intact st ev = Inr ()"
    and c: "assert_clock_safety st ev info t = (s1, Inr u)"
    and "require_arm_authorization mac s1 tok False t = (st', Inr p)"
    by (auto simp: arm_check_def act_bind_Inr)
  moreover have "s1 = st" using clock_outcome [OF c] by auto
  ultimately show ?r by (auto simp: assert_estop_protection_intact_def split: if_splits)
qed (simp add: arm_check_def assert_estop_protection_intact_def)

lemma clock_accepts:
  "assert_clock_safety st ev info t = (st, Inr ()) \<longleftrightarrow>
     (\<exists>ci. info = Inr ci \<and> ci_monotonic ci \<and> \<not> ci_adjustable ci \<and> ci_resolution ci \<le> 5 / 100)"
  using clock_outcome [of st ev info t st "Inr ()"]
  by (auto simp: assert_clock_safety_def Let_def)

text \<open>C30. Only what the gates ask for arms: with an operator secret configured and without the opt-in
  \<open>allow_unauthenticated_arm\<close>, under which a call without a token arms, \<open>arm_tx\<close> and \<open>activate_tx\<close> succeed
  only on an unexpired, unspent token authenticated under that secret, on a sound clock, with the E-Stop
  neither engaged nor downgraded and along the transition table. The token is then in the ledger.\<close>

theorem arm_gate:
  assumes ok: "ledger_ok st" and secret: "sv_auth_secret st = Some secret" "\<not> sv_allow_unauthenticated st"
    and arm: "arm_to mac target st ev info reason tok t = (st', Inr ())"
  shows "\<exists>w e n. tok = Some w \<and> parse_arm_token w = Some (e, n, mac secret (be8 e @ n)) \<and>
    mono_ns t \<le> e \<and> e < 2 ^ 64 \<and> length n = 16 \<and>
    be8 e @ n \<notin> set (sv_consumed (prune_consumed_arm_tokens st t)) \<and>
    be8 e @ n \<in> set (sv_consumed st') \<and> sv_state st' = target \<and>
    (\<exists>ci. info = Inr ci \<and> ci_monotonic ci \<and> \<not> ci_adjustable ci \<and> ci_resolution ci \<le> 5 / 100) \<and>
    \<not> (sv_estop_bound st \<and> ev_downgraded ev) \<and>
    (sv_state st = target \<or> target \<in> ALLOWED_TRANSITIONS (sv_state st) \<and>
       \<not> (sv_estop_bound st \<and> ev_engaged ev \<and> target \<in> {PASSIVE, ARMED_TX, ACTIVE}))"
proof -
  obtain st1 pending st2 where c: "arm_check mac st ev info tok t = (st1, Inr pending)"
    and tr: "transition_to st1 (ev_engaged ev) target reason t = (st2, Inr ())"
    and b: "arm_burn st2 pending t = (st', Inr ())"
    using arm by (auto simp: arm_to_def act_bind_Inr)
  note chk = c [unfolded arm_check_accepts clock_accepts]
  then obtain w where w: "tok = Some w" "verify_arm_token mac st secret w False t = (st1, Inr pending)"
    using secret by (auto simp: require_arm_authorization_def split: option.splits)
  then obtain e n where v: "parse_arm_token w = Some (e, n, mac secret (be8 e @ n))" "0 \<le> e"
    "e < 2 ^ 64" "length n = 16" "mono_ns t \<le> e" "st1 = prune_consumed_arm_tokens st t"
    "be8 e @ n \<notin> set (sv_consumed st1)" "pending = Some (be8 e @ n)"
    by (auto simp: verify_accepts)
  have st1: "sv_state st1 = sv_state st" "sv_estop_bound st1 = sv_estop_bound st"
    unfolding v(6) by (simp_all add: prune_consumed_arm_tokens_def split: prod.splits)
  have "sv_state st2 = target" and path: "sv_state st = target \<or> target \<in> ALLOWED_TRANSITIONS (sv_state st) \<and>
       \<not> (sv_estop_bound st \<and> ev_engaged ev \<and> target \<in> {PASSIVE, ARMED_TX, ACTIVE})"
    using tr by (cases rule: transition_cases; simp add: st1 entered_def)+
  moreover have "sv_state st' = sv_state st2" using burn_trail [OF b] by (simp add: trail_kept_def)
  moreover have "be8 e @ n \<in> set (sv_consumed st')"
    using burn_outcome [OF b] v(8) by (auto simp: record_consumed_arm_token_def)
  ultimately show ?thesis using chk w(1) v by blast
qed


section \<open>Tokens: round trip and single use\<close>

lemma parse_printed:
  assumes "0 \<le> e" "e < 2 ^ 64" "n \<noteq> []" "m \<noteq> []"
  shows "parse_arm_token (py_str e @ ''.'' @ py_hex n @ ''.'' @ py_hex m) = Some (e, n, m)"
proof -
  let ?w = "dec_nat (nat e) @ CHR ''.'' # py_hex n @ CHR ''.'' # py_hex m"
  have w: "py_str e @ ''.'' @ py_hex n @ ''.'' @ py_hex m = ?w"
    using assms(1) by (simp add: py_str_def)
  have "py_strip (dec_nat (nat e) @ (CHR ''.'' # py_hex n @ [CHR ''.'']) @ py_hex m) =
      dec_nat (nat e) @ (CHR ''.'' # py_hex n @ [CHR ''.'']) @ py_hex m"
    by (rule strip_plain_ends [OF plain_dec plain_hex [OF assms(4)]])
  then have strip: "py_strip ?w = ?w" by simp
  have sep: "CHR ''.'' \<notin> set (dec_nat k)" "bs \<noteq> [] \<Longrightarrow> CHR ''.'' \<notin> set (py_hex bs)" for k bs
    by (rule plain_no_sep; simp add: plain_hex)+
  have split: "py_split (CHR ''.'') ?w = [dec_nat (nat e), py_hex n, py_hex m]"
    by (simp add: split_plain split_last sep assms)
  have big: "nat e < 10 ^ 4300"
  proof -
    have "nat e < 2 ^ 64" using assms(1,2) by (simp add: nat_less_iff)
    also have "(2::nat) ^ 64 \<le> 10 ^ 20" by simp
    also have "(10::nat) ^ 20 \<le> 10 ^ 4300" by (rule power_increasing) simp_all
    finally show ?thesis .
  qed
  have "py_int (dec_nat (nat e)) = Some e"
    using int_dec [OF big] unfolding int_nat_eq if_P [OF assms(1)] .
  then show ?thesis unfolding w parse_arm_token_def strip split by simp
qed

lemma arm_to_run:
  assumes "arm_to mac target st ev info reason tok t = (st', res)" "T \<le> mono_ns t"
  shows "sv_run mac T st (mono_ns t) st'"
proof -
  obtain eng down where ev: "ev = \<lparr>ev_engaged = eng, ev_downgraded = down\<rparr>"
    by (cases ev) auto
  obtain st1 r1 where c: "arm_check mac st ev info tok t = (st1, r1)" by fastforce
  have s1: "sv_run mac T st (mono_ns t) st1"
    using Next [OF Start assms(2)] Check c ev by blast
  show ?thesis
  proof (cases r1)
    case (Inl e)
    then show ?thesis using assms(1) s1 by (simp add: arm_to_def c)
  next
    case (Inr pending)
    obtain st2 r2 where tr: "transition_to st1 (ev_engaged ev) target reason t = (st2, r2)" by fastforce
    have s2: "sv_run mac T st (mono_ns t) st2"
      using Next [OF s1 order_refl] Transition [OF tr] by blast
    show ?thesis
    proof (cases r2)
      case (Inl e)
      then show ?thesis using assms(1) s2 by (simp add: arm_to_def c Inr tr)
    next
      case r2: (Inr u)
      have "arm_burn st2 pending t = (st', res)"
        using assms(1) by (simp add: arm_to_def c Inr tr r2)
      then show ?thesis using Next [OF s2 order_refl] Burn by blast
    qed
  qed
qed

lemma sv_run_auth: "sv_run mac T st T' st' \<Longrightarrow> same_auth st st'"
  by (induction rule: sv_run.induct) (auto intro: same_auth_trans sv_step_auth)

lemma arm_check_refuses:
  assumes ok: "ledger_ok st" and secret: "sv_auth_secret st = Some secret"
    and w: "parse_arm_token w = Some (e, n, m)" "spent (be8 e @ n) (mono_ns t) st"
  shows "\<exists>err. snd (arm_check mac st ev info (Some w) t) = Inl err"
proof (cases "snd (arm_check mac st ev info (Some w) t)")
  case (Inr p)
  then have "arm_check mac st ev info (Some w) t = (fst (arm_check mac st ev info (Some w) t), Inr p)"
    by (metis prod.collapse)
  then have "snd (verify_arm_token mac st secret w False t) = Inr p"
    unfolding arm_check_accepts by (simp add: require_arm_authorization_def secret)
  then show ?thesis using verify_refuses [OF w ok, of mac secret] by auto
qed simp

text \<open>C29. An arm token is spent once. From the moment an arming has burned it, in every continuation of
  the session and under every spelling of the same token: no caller gets it past the validation any more,
  so every arming that begins then is refused and leaves the state as it was or in FAULT; and a caller
  that got it past the validation before cannot burn it any more while the token is unexpired, so
  its \<open>arm_tx\<close> raises too. What such a caller can still do is transition before it learns of this
  (\<open>interleaved_arm_double_spend\<close>).\<close>

theorem arm_token_single_use:
  assumes "supervisor_init s0 ok sec al req tm t0 = Inr st0" "sv_run mac T0 st0 T st" "T \<le> mono_ns t"
    and "sv_auth_secret st = Some secret"
    and burned: "arm_burn st (Some (be8 e @ n)) t = (st1, Inr ())"
    and later: "sv_run mac (mono_ns t) st1 T2 st2" "T2 \<le> mono_ns t2"
    and again: "parse_arm_token w = Some (e, n, m)"
  shows "(\<exists>err. snd (arm_check mac st2 ev info (Some w) t2) = Inl err) \<and>
    (\<exists>err. snd (arm_to mac target st2 ev info reason (Some w) t2) = Inl err) \<and>
    sv_state (fst (arm_to mac target st2 ev info reason (Some w) t2)) \<in> {sv_state st2, FAULT} \<and>
    (0 \<le> e \<and> e < 2 ^ 64 \<and> mono_ns t2 \<le> e \<longrightarrow>
       snd (arm_burn st2 (Some (be8 e @ n)) t2) = Inl (SafetyError ''ARM_AUTH_REPLAYED''))"
proof -
  let ?p = "be8 e @ n"
  have ok: "ledger_ok st" using ledger_run [OF assms(2) ledger_init [OF assms(1)]] .
  have "spent ?p (mono_ns t) st1"
    using burn_outcome [OF burned] by (auto simp: spent_def record_consumed_arm_token_def)
  moreover have run: "sv_run mac T st (mono_ns t) st1" using Next [OF Start assms(3)] Burn [OF burned] by blast
  moreover have "ledger_ok st1" by (rule ledger_run [OF run ok])
  ultimately have now: "ledger_ok st2" "spent ?p T2 st2" "same_auth st1 st2"
    using spent_run [OF later(1)] by blast+
  have "sv_auth_secret st2 = Some secret"
    using now(3) sv_run_auth [OF run] assms(4) by (simp add: same_auth_def)
  moreover have spent2: "spent ?p (mono_ns t2) st2"
    using now(2) later(2) by (auto simp: spent_def)
  ultimately obtain err where err: "snd (arm_check mac st2 ev info (Some w) t2) = Inl err"
    using arm_check_refuses [OF now(1) _ again] by blast
  then obtain st3 where c3: "arm_check mac st2 ev info (Some w) t2 = (st3, Inl err)"
    by (metis prod.collapse)
  have "sv_state st3 \<in> {sv_state st2, FAULT}"
    using arm_check_outcome [OF c3] trigger_fault_outcome(2)
    by (auto simp: prune_consumed_arm_tokens_def split: prod.splits)
  moreover have "snd (arm_burn st2 (Some ?p) t2) = Inl (SafetyError ''ARM_AUTH_REPLAYED'')"
    if e: "0 \<le> e \<and> e < 2 ^ 64 \<and> mono_ns t2 \<le> e"
  proof -
    have "from_be (take 8 ?p) = e" using e be8_facts [of e] by simp
    then have "?p \<in> set (sv_consumed (prune_consumed_arm_tokens st2 t2))"
      using spent2 e prune_ledger [OF now(1), of t2] by (auto simp: spent_def)
    then show ?thesis by (simp add: arm_burn_def burn_arm_token_def Let_def)
  qed
  ultimately show ?thesis using err by (simp add: arm_to_def c3)
qed

text \<open>An arming in one go burns its token in its last critical section.\<close>

lemma arm_to_burns:
  assumes "arm_to mac target st ev info reason (Some w) t = (st1, Inr ())" "sv_auth_secret st = Some secret"
    and "parse_arm_token w = Some (e, n, m)" "T \<le> mono_ns t"
  obtains stb where "sv_run mac T st (mono_ns t) stb" "arm_burn stb (Some (be8 e @ n)) t = (st1, Inr ())"
proof -
  obtain sta pending stb where c: "arm_check mac st ev info (Some w) t = (sta, Inr pending)"
    and tr: "transition_to sta (ev_engaged ev) target reason t = (stb, Inr ())"
    and b: "arm_burn stb pending t = (st1, Inr ())"
    using assms(1) by (auto simp: arm_to_def act_bind_Inr)
  have "pending = Some (be8 e @ n)"
    using c assms(2,3) by (auto simp: arm_check_accepts require_arm_authorization_def verify_accepts)
  moreover obtain eng down where "ev = \<lparr>ev_engaged = eng, ev_downgraded = down\<rparr>" by (cases ev) auto
  then have "sv_run mac T st (mono_ns t) sta" using Next [OF Start assms(4)] Check c by blast
  then have "sv_run mac T st (mono_ns t) stb" using Next [OF _ order_refl] Transition [OF tr] by blast
  ultimately show thesis using that b by blast
qed

text \<open>What a minted token says, and that such a token arms.\<close>

lemma issue_parse:
  assumes "issue_arm_token mac st ttl nonce t = Inr w" "length nonce = 16" "0 \<le> mono_ns t"
    and mac: "sv_auth_secret st = Some secret" "\<And>x. length (mac secret x) = 32"
  defines "e \<equiv> mono_ns t + \<lfloor>max 1 ttl * 1000000000\<rfloor>"
  shows "0 \<le> e" "e < 2 ^ 64" "parse_arm_token w = Some (e, nonce, mac secret (be8 e @ nonce))"
proof -
  have e: "0 \<le> e" "e < 256 ^ 8" and w: "w = py_str e @ ''.'' @ py_hex nonce @ ''.'' @ py_hex (mac secret (be8 e @ nonce))"
    using assms(1) by (simp_all add: issue_arm_token_def mac to_be_def e_def py_bind_Inr_iff Let_def split: if_splits)
  show "0 \<le> e" by (rule e(1))
  show e64: "e < 2 ^ 64" using e(2) by simp
  have ne: "nonce \<noteq> []" "mac secret (be8 e @ nonce) \<noteq> []"
    using assms(2) mac(2) [of "be8 e @ nonce"] by auto
  show "parse_arm_token w = Some (e, nonce, mac secret (be8 e @ nonce))"
    unfolding w by (rule parse_printed [OF e(1) e64 ne])
qed

lemma arm_succeeds:
  assumes w: "parse_arm_token w = Some (e, n, mac secret (be8 e @ n))" "0 \<le> e" "e < 2 ^ 64"
      "length n = 16" "length (mac secret (be8 e @ n)) = 32" "mono_ns t \<le> e"
    and unspent: "be8 e @ n \<notin> set (sv_consumed st)" and ok: "ledger_ok st"
    and secret: "sv_auth_secret st = Some secret"
    and ci: "ci_monotonic ci" "\<not> ci_adjustable ci" "ci_resolution ci \<le> 5 / 100"
    and target: "target \<in> ALLOWED_TRANSITIONS (sv_state st)" "target \<noteq> sv_state st"
    and estop: "\<not> ev_engaged ev" "\<not> ev_downgraded ev"
  shows "\<exists>st2. arm_to mac target st ev (Inr ci) reason (Some w) t = (st2, Inr ()) \<and> sv_state st2 = target"
proof -
  define st1 where "st1 = prune_consumed_arm_tokens st t"
  have unspent1: "be8 e @ n \<notin> set (sv_consumed st1)"
    using prune_ledger [OF ok] unspent st1_def by blast
  have v: "verify_arm_token mac st secret w False t = (st1, Inr (Some (be8 e @ n)))"
    unfolding verify_accepts using w unspent1 st1_def by blast
  have c: "arm_check mac st ev (Inr ci) (Some w) t = (st1, Inr (Some (be8 e @ n)))"
    using ci estop by (simp add: arm_check_accepts clock_accepts require_arm_authorization_def secret v)
  have s1: "sv_state st1 = sv_state st" by (simp add: st1_def prune_consumed_arm_tokens_def split: prod.splits)
  obtain st2 res where tr: "transition_to st1 (ev_engaged ev) target reason t = (st2, res)" by fastforce
  have st2: "res = Inr ()" "sv_state st2 = target" "same_ledger st1 st2"
    using tr target estop s1 by (cases rule: transition_cases; simp add: entered_def)+
  have "sv_consumed (prune_consumed_arm_tokens st2 t) = sv_consumed (prune_consumed_arm_tokens st1 t)"
    using st2(3) by (rule prune_same)
  then have "sv_consumed (prune_consumed_arm_tokens st2 t) = sv_consumed st1"
    using prune_idem [OF ok, of t] by (simp add: st1_def)
  then have b: "arm_burn st2 (Some (be8 e @ n)) t =
      (record_consumed_arm_token (prune_consumed_arm_tokens st2 t) (be8 e @ n), Inr ())"
    using unspent1 by (simp add: arm_burn_def burn_arm_token_def Let_def)
  show ?thesis
    using st2(2) burn_trail [OF b]
    by (simp add: arm_to_def c tr st2(1) b trail_kept_def)
qed

text \<open>A minted token works: until it expires, in every continuation of the session in which its
  nonce was not spent, it arms a PASSIVE (or activates an armed) supervisor.\<close>

theorem minted_token_arms:
  assumes "issue_arm_token mac st ttl nonce t = Inr w" "length nonce = 16" "0 \<le> mono_ns t"
    and "sv_auth_secret st = Some secret" "\<And>x. length (mac secret x) = 32"
    and run: "sv_run mac T st T' st'"
    and fresh: "\<forall>p \<in> set (sv_consumed st'). drop 8 p \<noteq> nonce"
    and clock: "mono_ns t' \<le> mono_ns t + \<lfloor>max 1 ttl * 1000000000\<rfloor>" and "ledger_ok st'"
    and "ci_monotonic ci" "\<not> ci_adjustable ci" "ci_resolution ci \<le> 5 / 100"
    and "target \<in> ALLOWED_TRANSITIONS (sv_state st')" "target \<noteq> sv_state st'"
    and "\<not> ev_engaged ev" "\<not> ev_downgraded ev"
  shows "\<exists>st2. arm_to mac target st' ev (Inr ci) reason (Some w) t' = (st2, Inr ()) \<and> sv_state st2 = target"
proof -
  have secret: "sv_auth_secret st' = Some secret"
    using sv_run_auth [OF run] assms(4) by (simp add: same_auth_def)
  have "drop 8 (be8 e @ nonce) = nonce" for e by simp
  then have "be8 e @ nonce \<notin> set (sv_consumed st')" for e using fresh by blast
  then show ?thesis
    using arm_succeeds [where mac = mac and secret = secret and n = nonce, OF issue_parse(3,1,2) [OF assms(1-5)]
        assms(2,5) clock _ assms(9) secret assms(10-)] by blast
qed

section \<open>Refusals and the fault path\<close>

text \<open>A refused \<open>arm_tx\<close> or \<open>activate_tx\<close> spends no token: the ledger only loses expired
  entries, and the state stays or is FAULT.\<close>

theorem refused_arm_spends_nothing:
  assumes "ledger_ok st" "arm_to mac target st ev info reason tok t = (st', Inl err)"
  shows "set (sv_consumed st') \<subseteq> set (sv_consumed st) \<and> sv_state st' \<in> {sv_state st, FAULT}"
proof -
  obtain st1 r1 where c: "arm_check mac st ev info tok t = (st1, r1)" by fastforce
  have pruned: "set (sv_consumed (prune_consumed_arm_tokens st t)) \<subseteq> set (sv_consumed st)"
    "sv_state (prune_consumed_arm_tokens st t) = sv_state st"
    using prune_ledger [OF assms(1)] by (auto simp: prune_consumed_arm_tokens_def split: prod.splits)
  have st1: "set (sv_consumed st1) \<subseteq> set (sv_consumed st) \<and> sv_state st1 \<in> {sv_state st, FAULT}"
    using arm_check_outcome [OF c] pruned trigger_fault_outcome(2,5) by (auto simp: same_ledger_def)
  show ?thesis
  proof (cases r1)
    case (Inl e)
    then show ?thesis using assms(2) st1 by (simp add: arm_to_def c)
  next
    case (Inr pending)
    have auth: "require_arm_authorization mac st tok False t = (st1, Inr pending)"
      using c Inr by (simp add: arm_check_accepts)
    obtain st2 r2 where tr: "transition_to st1 (ev_engaged ev) target reason t = (st2, r2)" by fastforce
    have st2: "same_ledger st1 st2" using transition_frame [OF tr] by blast
    show ?thesis
    proof (cases r2)
      case (Inl e)
      have "sv_state st2 \<in> {sv_state st1, FAULT}"
        using tr by (cases rule: transition_cases) (auto simp: entered_def Inl)
      then show ?thesis using assms(2) st1 st2 Inl by (auto simp: arm_to_def c Inr tr same_ledger_def)
    next
      case r2: (Inr u)
      have b: "arm_burn st2 pending t = (st', Inl err)"
        using assms(2) by (simp add: arm_to_def c Inr tr r2)
      then obtain p where p: "pending = Some p"
        "p \<in> set (sv_consumed (prune_consumed_arm_tokens st2 t))" using burn_outcome [OF b] by auto
      have "st1 = prune_consumed_arm_tokens st t \<and> p \<notin> set (sv_consumed st1)"
        using auth p(1) by (auto simp: require_arm_authorization_def verify_accepts
            split: option.splits if_splits)
      then have "p \<notin> set (sv_consumed (prune_consumed_arm_tokens st2 t))"
        using prune_same [OF st2, of t] prune_idem [OF assms(1), of t] by auto
      then show ?thesis using p(2) by blast
    qed
  qed
qed

text \<open>The fault path cannot be suppressed: from every state, with the limiter in any condition and
  the E-Stop engaged or not, \<open>trigger_fault\<close> returns, revokes transmission, counts the event, and on
  entry stores the sanitised reason and tells every listener; a repeated fault changes nothing else.\<close>

theorem fault_always_enforced:
  shows "\<exists>st'. trigger_fault st eng r t = (st', Inr ()) \<and> is_fault st' \<and> \<not> is_tx_permitted st' \<and>
    sv_fault_event_count st' = sv_fault_event_count st + 1 \<and>
    (if sv_state st = FAULT
     then sv_epoch st' = sv_epoch st \<and> sv_fault_reason st' = sv_fault_reason st \<and> sv_calls st' = sv_calls st
     else sv_epoch st' = sv_epoch st + 1 \<and> sv_fault_reason st' = sanitize_reason r \<and>
       sv_calls st' = sv_calls st @ map (\<lambda>cb. (cb, sv_state st, FAULT, sanitize_reason r)) (sv_callbacks st))"
proof -
  obtain st' res where f: "trigger_fault st eng r t = (st', res)" by fastforce
  show ?thesis
    using trigger_fault_outcome [OF f] f
    by (cases "sv_state st = FAULT") (simp_all add: is_fault_def is_tx_permitted_def trail_kept_def)
qed

lemma sanitize_reason_clean:
  "\<forall>c \<in> set (sanitize_reason r). 0x1F < c \<and> c \<noteq> 0x7F" "length (sanitize_reason r) \<le> 524"
  by (auto simp: sanitize_reason_def Let_def MAX_REASON_LEN_def utext_def)

text \<open>C36. The validation and the burning of a token are separate critical sections. Two callers that
  both validated one token before either burned it both arm: the second one's burn raises
  ARM_AUTH_REPLAYED only after its transition, and transmission stays permitted.\<close>

theorem interleaved_arm_double_spend:
  assumes idle: "sv_state st = PASSIVE"
    and check: "arm_check mac st ev info tok t = (sta, Inr (Some p))"
    and ok: "ledger_ok st" and live: "mono_ns t \<le> from_be (take 8 p)"
    and "p \<notin> set (sv_consumed (prune_consumed_arm_tokens st t))"
  shows "let stb = fst (arm_check mac sta ev info tok t);
             st1 = fst (transition_to stb False ARMED_TX r t);
             st2 = fst (arm_burn st1 (Some p) t);
             st3 = fst (transition_to st2 False PASSIVE r t);
             st4 = fst (transition_to st3 False ARMED_TX r t)
         in arm_check mac sta ev info tok t = (stb, Inr (Some p)) \<and>
            snd (arm_burn st1 (Some p) t) = Inr () \<and>
            snd (arm_burn st4 (Some p) t) = Inl (SafetyError ''ARM_AUTH_REPLAYED'') \<and>
            is_tx_permitted (fst (arm_burn st4 (Some p) t))"
proof -
  have sta: "sta = prune_consumed_arm_tokens st t"
    using check by (auto simp: arm_check_accepts require_arm_authorization_def verify_accepts
        split: option.splits if_splits)
  have idem: "prune_consumed_arm_tokens sta t = sta" unfolding sta by (rule prune_idem [OF ok])
  have fields: "sv_state sta = PASSIVE" "same_auth st sta" "ledger_ok sta"
    using idle prune_ledger [OF ok, of t] prune_fields(2) [of st t]
    by (simp_all add: sta prune_consumed_arm_tokens_def split: prod.splits)
  have again: "arm_check mac sta ev info tok t = (sta, Inr (Some p))"
    using check fields(2) prune_fields(4) [of st t, folded sta] unfolding arm_check_accepts clock_accepts
    by (auto simp: require_arm_authorization_def verify_accepts same_auth_def idem sta [symmetric]
        split: option.splits if_splits)
  obtain st1 r1 where t1: "transition_to sta False ARMED_TX r t = (st1, r1)" by fastforce
  then have s1: "sv_state st1 = ARMED_TX" "same_ledger sta st1"
    using fields(1) by (cases rule: transition_cases; simp add: entered_def)+
  have "p \<notin> set (sv_consumed (prune_consumed_arm_tokens st1 t))"
    using prune_same [OF s1(2), of t] assms(5) by (simp add: idem sta [symmetric])
  then have b1: "arm_burn st1 (Some p) t =
      (record_consumed_arm_token (prune_consumed_arm_tokens st1 t) p, Inr ())"
    by (simp add: arm_burn_def burn_arm_token_def Let_def)
  define st2 where "st2 = record_consumed_arm_token (prune_consumed_arm_tokens st1 t) p"
  have s2: "sv_state st2 = ARMED_TX" "ledger_ok st2" "p \<in> set (sv_consumed st2)"
    using s1 fields(3) record_ledger prune_ledger [of st1 t] same_ledger_ok [OF s1(2)]
      \<open>p \<notin> set (sv_consumed (prune_consumed_arm_tokens st1 t))\<close>
    by (auto simp: st2_def record_consumed_arm_token_def prune_consumed_arm_tokens_def split: prod.splits)
  obtain st3 r3 where t3: "transition_to st2 False PASSIVE r t = (st3, r3)" by fastforce
  then have s3: "sv_state st3 = PASSIVE" "same_ledger st2 st3"
    using s2(1) by (cases rule: transition_cases; simp add: entered_def)+
  obtain st4 r4 where t4: "transition_to st3 False ARMED_TX r t = (st4, r4)" by fastforce
  then have s4: "sv_state st4 = ARMED_TX" "same_ledger st3 st4"
    using s3(1) by (cases rule: transition_cases; simp add: entered_def)+
  have led: "same_ledger st2 st4" using s3(2) s4(2) same_ledger_trans by blast
  have "p \<in> set (sv_consumed (prune_consumed_arm_tokens st4 t))"
    using prune_ledger [of st4 t] same_ledger_ok [OF led] s2(2,3) live led by (auto simp: same_ledger_def)
  then have b4: "arm_burn st4 (Some p) t =
      (prune_consumed_arm_tokens st4 t, Inl (SafetyError ''ARM_AUTH_REPLAYED''))"
    by (simp add: arm_burn_def burn_arm_token_def Let_def)
  have "is_tx_permitted (prune_consumed_arm_tokens st4 t)"
    using s4(1) by (simp add: is_tx_permitted_def prune_consumed_arm_tokens_def split: prod.splits)
  then show ?thesis
    by (simp add: again t1 b1 st2_def [symmetric] t3 t4 b4)
qed

text \<open>The public \<open>transition_to\<close> arms a PASSIVE supervisor without a token, whatever secret is
  configured: the token gate lives in \<open>arm_tx\<close>, not in the transition it protects.\<close>

theorem transition_bypasses_gate:
  assumes "sv_state st = PASSIVE" "\<not> (sv_estop_bound st \<and> eng)"
  shows "is_tx_permitted (fst (transition_to st eng ARMED_TX r t)) \<and>
    snd (transition_to st eng ARMED_TX r t) = Inr ()"
proof -
  obtain st' res where tr: "transition_to st eng ARMED_TX r t = (st', res)" by fastforce
  then have "sv_state st' = ARMED_TX \<and> res = Inr ()"
    using assms by (cases rule: transition_cases) (simp_all add: entered_def)
  then show ?thesis by (simp add: tr is_tx_permitted_def)
qed


section \<open>Concrete sessions\<close>

text \<open>A supervisor with a one-byte secret in PASSIVE, a sound clock, and a stand-in for HMAC of the
  right output length; a token minted at time 5 with nonce 1..16.\<close>

definition demo_mac :: "bytes \<Rightarrow> bytes \<Rightarrow> bytes" where
  "demo_mac secret msg = take 32 (secret @ rev msg @ replicate 32 0)"

definition demo_nonce :: bytes where
  "demo_nonce = map word_of_nat [1..<17]"

definition demo_at :: "int \<Rightarrow> instant" where
  "demo_at n = \<lparr>mono_ns = n, wall_ns = n\<rparr>"

definition demo_clock :: clock_info where
  "demo_clock = \<lparr>ci_monotonic = True, ci_adjustable = False, ci_resolution = 1 / 1000, ci_resolution_text = []\<rparr>"

definition demo_calm :: estop_view where
  "demo_calm = \<lparr>ev_engaged = False, ev_downgraded = False\<rparr>"

definition demo_sup :: supervisor where
  "demo_sup = (case supervisor_init PASSIVE (Some True) (Some [7]) False True False (demo_at 0) of Inr st \<Rightarrow> st)"

definition demo_token :: string where
  "demo_token = (case issue_arm_token demo_mac demo_sup 2 demo_nonce (demo_at 5) of Inr w \<Rightarrow> w)"

definition demo_arm :: "supervisor \<times> unit py" where
  "demo_arm = arm_to demo_mac ARMED_TX demo_sup demo_calm (Inr demo_clock) [] (Some demo_token) (demo_at 9)"

lemma demo_sup_init: "supervisor_init PASSIVE (Some True) (Some [7]) False True False (demo_at 0) = Inr demo_sup"
  by (simp add: demo_sup_def supervisor_init_def)

lemma demo_sup_fields [simp]:
  "sv_state demo_sup = PASSIVE" "sv_auth_secret demo_sup = Some [7]" "sv_consumed demo_sup = []"
  "\<not> sv_allow_unauthenticated demo_sup" "ledger_ok demo_sup"
  using ledger_init [OF demo_sup_init] by (simp_all add: demo_sup_def supervisor_init_def)

lemma demo_token_minted: "issue_arm_token demo_mac demo_sup 2 demo_nonce (demo_at 5) = Inr demo_token"
proof -
  have "\<exists>w. issue_arm_token demo_mac demo_sup 2 demo_nonce (demo_at 5) = Inr w"
    by (simp add: issue_arm_token_def Let_def to_be_def demo_at_def)
  then show ?thesis by (auto simp: demo_token_def)
qed

lemma demo_mac_length: "length (demo_mac [7] x) = 32"
  by (simp add: demo_mac_def)

lemmas demo_consts = demo_at_def demo_clock_def demo_calm_def demo_nonce_def

theorem minted_token_arms_witness:
  "\<exists>st2. arm_to demo_mac ARMED_TX demo_sup demo_calm (Inr demo_clock) [] (Some demo_token) (demo_at 9) = (st2, Inr ())
     \<and> sv_state st2 = ARMED_TX"
  by (rule minted_token_arms [OF demo_token_minted _ _ demo_sup_fields(2) demo_mac_length Start])
    (simp_all add: demo_consts)

lemma demo_basics [simp]: "length demo_nonce = 16" "mono_ns (demo_at n) = n" "0 \<le> mono_ns (demo_at 5)"
  by (simp_all add: demo_nonce_def demo_at_def)

lemma demo_token_parse:
  "parse_arm_token demo_token = Some (2000000005, demo_nonce, demo_mac [7] (be8 2000000005 @ demo_nonce))"
  using issue_parse(3) [OF demo_token_minted demo_basics(1,3) demo_sup_fields(2) demo_mac_length]
  by simp

lemma demo_arm_ok:
  "arm_to demo_mac ARMED_TX demo_sup demo_calm (Inr demo_clock) [] (Some demo_token) (demo_at 9)
     = (fst demo_arm, Inr ()) \<and> sv_state (fst demo_arm) = ARMED_TX"
proof -
  have "\<exists>st2. arm_to demo_mac ARMED_TX demo_sup demo_calm (Inr demo_clock) [] (Some demo_token) (demo_at 9)
      = (st2, Inr ()) \<and> sv_state st2 = ARMED_TX"
    by (rule arm_succeeds [where mac = demo_mac and secret = "[7]" and n = demo_nonce, OF demo_token_parse])
      (simp_all add: demo_consts demo_mac_length del: le_bytes.simps)
  then show ?thesis by (auto simp: demo_arm_def)
qed


lemma demo_run: "sv_run demo_mac 9 demo_sup 9 (fst demo_arm)"
  using arm_to_run [OF conjunct1 [OF demo_arm_ok], of 9] by simp

theorem audit_trail_gapless_witness: "audit_ok (fst demo_arm)"
  by (rule audit_trail_gapless [OF demo_sup_init demo_run])

theorem supervisor_edges_witness:
  "let st' = fst (transition_to demo_sup True ARMED_TX [] (demo_at 9)) in
     (sv_state st' = PASSIVE \<or> sv_state st' = FAULT \<or> sv_state st' \<in> ALLOWED_TRANSITIONS PASSIVE) \<and>
     (sv_estop_bound demo_sup \<and> True \<longrightarrow> sv_state st' = PASSIVE \<or> sv_state st' \<in> {SAFE, FAULT}) \<and>
     (is_tx_permitted st' \<longrightarrow> is_tx_permitted demo_sup \<or> is_passive demo_sup)"
  using supervisor_edges [OF Transition [of demo_sup True ARMED_TX "[]" "demo_at 9"
      "fst (transition_to demo_sup True ARMED_TX [] (demo_at 9))"
      "snd (transition_to demo_sup True ARMED_TX [] (demo_at 9))" demo_mac]]
  by (simp add: Let_def)

theorem arm_gate_witness:
  "\<exists>w e n. Some demo_token = Some w \<and> parse_arm_token w = Some (e, n, demo_mac [7] (be8 e @ n)) \<and> 9 \<le> e \<and>
    be8 e @ n \<in> set (sv_consumed (fst demo_arm))"
  using arm_gate [OF demo_sup_fields(5) demo_sup_fields(2) demo_sup_fields(4) conjunct1 [OF demo_arm_ok]]
  unfolding demo_basics by blast

theorem arm_token_single_use_witness:
  "(\<exists>err. snd (arm_to demo_mac ACTIVE (fst demo_arm) demo_calm (Inr demo_clock) [] (Some demo_token) (demo_at 12)) = Inl err)
    \<and> sv_state (fst (arm_to demo_mac ACTIVE (fst demo_arm) demo_calm (Inr demo_clock) [] (Some demo_token) (demo_at 12)))
        \<in> {sv_state (fst demo_arm), FAULT}
    \<and> snd (arm_burn (fst demo_arm) (Some (be8 2000000005 @ demo_nonce)) (demo_at 12)) = Inl (SafetyError ''ARM_AUTH_REPLAYED'')"
proof -
  obtain stb where b: "sv_run demo_mac 9 demo_sup (mono_ns (demo_at 9)) stb"
      "arm_burn stb (Some (be8 2000000005 @ demo_nonce)) (demo_at 9) = (fst demo_arm, Inr ())"
    by (rule arm_to_burns [where T = 9, OF conjunct1 [OF demo_arm_ok] demo_sup_fields(2) demo_token_parse]) simp_all
  have secret: "sv_auth_secret stb = Some [7]"
    using sv_run_auth [OF b(1)] demo_sup_fields(2) by (simp add: same_auth_def)
  have order: "mono_ns (demo_at 9) \<le> mono_ns (demo_at 9)" "mono_ns (demo_at 9) \<le> mono_ns (demo_at 12)" by simp_all
  note used = arm_token_single_use [OF demo_sup_init b(1) order(1) secret b(2) Start order(2) demo_token_parse]
  have "(0::int) \<le> 2000000005 \<and> (2000000005::int) < 2 ^ 64 \<and> mono_ns (demo_at 12) \<le> 2000000005" by simp
  then show ?thesis using used by blast
qed

theorem refused_arm_spends_nothing_witness:
  "set (sv_consumed (fst (arm_to demo_mac ARMED_TX demo_sup demo_calm (Inr demo_clock) [] None (demo_at 9))))
     \<subseteq> set (sv_consumed demo_sup) \<and>
   sv_state (fst (arm_to demo_mac ARMED_TX demo_sup demo_calm (Inr demo_clock) [] None (demo_at 9)))
     \<in> {sv_state demo_sup, FAULT}"
proof (rule refused_arm_spends_nothing [OF demo_sup_fields(5)])
  have "arm_check demo_mac demo_sup demo_calm (Inr demo_clock) None (demo_at 9)
      = (demo_sup, Inl (SafetyError ''ARM_AUTH_REQUIRED''))"
    by (simp add: arm_check_def assert_estop_protection_intact_def assert_clock_safety_def Let_def
        require_arm_authorization_def demo_clock_def demo_calm_def)
  then have "arm_to demo_mac ARMED_TX demo_sup demo_calm (Inr demo_clock) [] None (demo_at 9)
      = (demo_sup, Inl (SafetyError ''ARM_AUTH_REQUIRED''))" by (simp add: arm_to_def)
  then show "arm_to demo_mac ARMED_TX demo_sup demo_calm (Inr demo_clock) [] None (demo_at 9)
      = (fst (arm_to demo_mac ARMED_TX demo_sup demo_calm (Inr demo_clock) [] None (demo_at 9)),
         Inl (SafetyError ''ARM_AUTH_REQUIRED''))" by simp
qed

lemma demo_check:
  "arm_check demo_mac demo_sup demo_calm (Inr demo_clock) (Some demo_token) (demo_at 9)
     = (prune_consumed_arm_tokens demo_sup (demo_at 9), Inr (Some (be8 2000000005 @ demo_nonce)))"
proof -
  have "sv_consumed (prune_consumed_arm_tokens demo_sup (demo_at 9)) = []"
    using prune_ledger [OF demo_sup_fields(5), of "demo_at 9"] by simp
  then have "verify_arm_token demo_mac demo_sup [7] demo_token False (demo_at 9)
     = (prune_consumed_arm_tokens demo_sup (demo_at 9), Inr (Some (be8 2000000005 @ demo_nonce)))"
    unfolding verify_accepts using demo_token_parse demo_mac_length by simp
  then show ?thesis
    by (simp add: arm_check_accepts clock_accepts require_arm_authorization_def demo_clock_def demo_calm_def)
qed

theorem interleaved_arm_double_spend_witness:
  "let stb = fst (arm_check demo_mac (prune_consumed_arm_tokens demo_sup (demo_at 9)) demo_calm (Inr demo_clock)
               (Some demo_token) (demo_at 9));
       st1 = fst (transition_to stb False ARMED_TX [] (demo_at 9));
       st2 = fst (arm_burn st1 (Some (be8 2000000005 @ demo_nonce)) (demo_at 9));
       st3 = fst (transition_to st2 False PASSIVE [] (demo_at 9));
       st4 = fst (transition_to st3 False ARMED_TX [] (demo_at 9))
   in snd (arm_burn st4 (Some (be8 2000000005 @ demo_nonce)) (demo_at 9))
        = Inl (SafetyError ''ARM_AUTH_REPLAYED'') \<and>
      is_tx_permitted (fst (arm_burn st4 (Some (be8 2000000005 @ demo_nonce)) (demo_at 9)))"
proof -
  have u: "be8 2000000005 @ demo_nonce \<notin> set (sv_consumed (prune_consumed_arm_tokens demo_sup (demo_at 9)))"
    using prune_ledger [OF demo_sup_fields(5), of "demo_at 9"] by auto
  have "from_be (be8 2000000005) = 2000000005" by (rule be8_facts(2)) simp_all
  then have l: "mono_ns (demo_at 9) \<le> from_be (take 8 (be8 2000000005 @ demo_nonce))"
    by (simp del: le_bytes.simps)
  show ?thesis
    using interleaved_arm_double_spend [OF demo_sup_fields(1) demo_check demo_sup_fields(5) l u, of "[]"]
    unfolding Let_def by blast
qed

theorem transition_bypasses_gate_witness:
  "is_tx_permitted (fst (transition_to demo_sup False ARMED_TX [] (demo_at 9))) \<and>
    snd (transition_to demo_sup False ARMED_TX [] (demo_at 9)) = Inr ()"
  by (rule transition_bypasses_gate) simp_all

end
