(* ===== verification/EStopSpec.thy ===== *)
theory EStopSpec
  imports EStop
begin

text \<open>
  What the emergency stop guarantees: the invariant of its sessions, that only the credential of
  the current engagement releases it, that a valid credential always does (whatever failed before),
  single use of structured tokens, and the fence that invalidates frames validated earlier.
\<close>

section \<open>Steps\<close>

text \<open>One critical section at clock reading \<open>t\<close>; the phases of \<open>reset\<close> are separate steps. \<open>given\<close> is what
  the step was given to authorise a reset: the provider \<open>reset\<close> rotates the secret from and the token
  its caller presented, nothing for any other step.\<close>

type_synonym given = "(provider \<times> authorization) option"

inductive es_step :: "(bytes \<Rightarrow> bytes \<Rightarrow> bytes) \<Rightarrow> es_time \<Rightarrow> given \<Rightarrow> estop \<Rightarrow> estop \<Rightarrow> bool" for mac t where
  Engage: "es_step mac t None st (trigger st source reason speed nonce t)"
| Fence: "es_step mac t None st (advance_tx_fence st)"
| Callback: "es_step mac t None st (register_estop_callback st cb)"
| Hook: "es_step mac t None st (register_abort_hook st hook)"
| Unhook: "es_step mac t None st (fst (unregister_abort_hook st hook))"
| Refresh: "es_step mac t None st (fst (refresh_secret st pv))"
| Bind: "es_step mac t None st (fst (bind_secret_provider st pv))"
| Reissue: "es_step mac t None st (fst (reissue_challenge st nonce t))"
| Request: "es_step mac t None st (fst (request_reset_challenge st nonce t))"
| Create: "es_step mac t None st (fst (create_reset_token mac st nonce t))"
| Release: "reset_phase1 mac st pv auth (et_mono t) = (st', res) \<Longrightarrow> es_step mac t (Some (pv, auth)) st st'"
| Publish: "es_step mac t None st (reset_phase2 st bump)"

inductive es_run :: "(bytes \<Rightarrow> bytes \<Rightarrow> bytes) \<Rightarrow> estop \<Rightarrow> estop \<Rightarrow> bool" for mac st where
  Start: "es_run mac st st"
| Next: "es_run mac st st1 \<Longrightarrow> es_step mac t given st1 st2 \<Longrightarrow> es_run mac st st2"

inductive_cases es_runE: "es_run mac st st'"

section \<open>The invariant\<close>

definition challenge_ok :: "estop \<Rightarrow> challenge \<Rightarrow> bool" where
  "challenge_ok st c \<longleftrightarrow> ch_epoch c = es_epoch st \<and> ch_action c = ''ESTOP_RESET'' \<and>
     ch_max_age_ns c = es_max_token_age_ns st"

definition estop_ok :: "estop \<Rightarrow> bool" where
  "estop_ok st \<longleftrightarrow> 0 \<le> es_epoch st \<and> es_cached_secret st \<noteq> None \<and>
     (case es_active_challenge st of None \<Rightarrow> True | Some c \<Rightarrow> es_engaged st \<and> challenge_ok st c) \<and>
     dwf (es_consumed_nonces st) \<and> length (es_consumed_nonces st) \<le> MAX_CONSUMED_NONCES"

text \<open>What every operation but the release leaves alone.\<close>

definition held :: "estop \<Rightarrow> estop \<Rightarrow> bool" where
  "held st st' \<longleftrightarrow> es_epoch st' = es_epoch st \<and> es_consumed_nonces st' = es_consumed_nonces st \<and>
     es_max_token_age_ns st' = es_max_token_age_ns st \<and> es_tx_fence st \<le> es_tx_fence st' \<and>
     (es_engaged st \<longrightarrow> es_engaged st') \<and> (\<not> es_engaged st \<and> es_engaged st' \<longrightarrow> es_tx_fence st < es_tx_fence st') \<and>
     (es_cached_secret st \<noteq> None \<longrightarrow> es_cached_secret st' \<noteq> None) \<and>
     (case es_active_challenge st' of None \<Rightarrow> True
      | Some c \<Rightarrow> es_active_challenge st = Some c \<and> es_engaged st' = es_engaged st \<or> es_engaged st' \<and> challenge_ok st c)"

lemma held_ok: "estop_ok st \<Longrightarrow> held st st' \<Longrightarrow> estop_ok st'"
  by (auto simp: estop_ok_def held_def challenge_ok_def split: option.splits)

lemma held_refl [simp]: "held st st"
  by (simp add: held_def split: option.splits)

lemma held_trigger: "held st (trigger st source reason speed nonce t)"
  by (auto simp: held_def trigger_def Let_def challenge_ok_def new_challenge_def split: option.splits)

lemma held_reissue: "held st (fst (reissue_challenge st nonce t))"
  by (auto simp: held_def reissue_challenge_def Let_def challenge_ok_def new_challenge_def split: option.splits)

lemma held_request: "held st (fst (request_reset_challenge st nonce t))"
proof -
  have "reissue_challenge st nonce t = (fst (reissue_challenge st nonce t), snd (reissue_challenge st nonce t))"
    by simp
  then show ?thesis using held_reissue [of st nonce t]
    by (cases "snd (reissue_challenge st nonce t)")
      (auto simp: request_reset_challenge_def act_bind_def split: prod.splits)
qed

lemma held_create: "held st (fst (create_reset_token mac st nonce t))"
  using held_reissue [of st nonce t]
  by (auto simp: create_reset_token_def act_bind_def cached_secret_def
      split: prod.splits sum.splits option.splits)

lemma held_sync: "held st st' \<Longrightarrow> held st (sync_protection st' pv)"
  by (auto simp: held_def sync_protection_def challenge_ok_def split: option.splits)

lemma held_refresh: "held st (fst (refresh_secret st pv))"
  unfolding refresh_secret_def act_bind_def
  by (auto split: prod.splits sum.splits intro!: held_sync) (simp add: held_def split: option.splits)

lemma held_bind: "held st (fst (bind_secret_provider st pv))"
  unfolding bind_secret_provider_def act_bind_def
  by (auto split: prod.splits sum.splits intro!: held_sync) (simp add: held_def split: option.splits)

section \<open>The checks of a reset\<close>

lemma reset_failure_facts:
  "snd (reset_failure st now) = Inl (SafetyError ''ESTOP_RESET_DENIED'')"
  "held st (fst (reset_failure st now))" "es_engaged (fst (reset_failure st now)) = es_engaged st"
  by (simp_all add: reset_failure_def Let_def held_def split: option.splits)

lemma held_clear: "held (st\<lparr>es_active_challenge := None\<rparr>) st' \<Longrightarrow> es_engaged st' = es_engaged st \<Longrightarrow>
    es_active_challenge st' = None \<Longrightarrow> held st st'"
  by (simp add: held_def)

lemma failure_clears [simp]:
  "es_active_challenge (fst (reset_failure st now)) = es_active_challenge st"
  by (simp add: reset_failure_def Let_def)

text \<open>When \<open>verify_token\<close> releases, and that otherwise it only counts the failure.\<close>

definition credential :: "(bytes \<Rightarrow> bytes \<Rightarrow> bytes) \<Rightarrow> estop \<Rightarrow> challenge \<Rightarrow> estop_token \<Rightarrow> int \<Rightarrow> bool" where
  "credential mac st c k now \<longleftrightarrow>
     ch_nonce c \<notin> set (dkeys (es_consumed_nonces st)) \<and> tok_epoch k = ch_epoch c \<and>
     tok_epoch k = es_epoch st \<and> tok_action k = ''ESTOP_RESET'' \<and>
     py_lower (tok_nonce k) = py_lower (py_hex (ch_nonce c)) \<and>
     0 \<le> now - ch_timestamp_ns c \<and> now - ch_timestamp_ns c \<le> ch_max_age_ns c \<and>
     0 \<le> now - tok_timestamp_ns k \<and> now - tok_timestamp_ns k \<le> ch_max_age_ns c \<and>
     (\<exists>secret. es_cached_secret st = Some secret \<and>
        py_fromhex (py_strip (tok_signature k)) = Some (mac secret (serialize_for_signature c)))"

lemma verify_token_cases:
  assumes "verify_token mac st c k now = (st', res)"
  shows "(credential mac st c k now \<and> st' = disengage st c \<and> res = Inr True) \<or>
    (res = Inl (SafetyError ''ESTOP_RESET_DENIED'') \<and> held st st' \<and> es_engaged st' = es_engaged st)"
proof -
  define Q :: "estop \<times> bool py \<Rightarrow> bool" where
    "Q r \<longleftrightarrow> (credential mac st c k now \<and> r = (disengage st c, Inr True)) \<or>
      (snd r = Inl (SafetyError ''ESTOP_RESET_DENIED'') \<and> held st (fst r) \<and> es_engaged (fst r) = es_engaged st)"
    for r
  have guard: "(b \<Longrightarrow> Q x) \<Longrightarrow> (\<not> b \<Longrightarrow> Q y) \<Longrightarrow> Q (if b then x else y)" for b x y
    by simp
  have opt: "(v = None \<Longrightarrow> Q x) \<Longrightarrow> (\<And>a. v = Some a \<Longrightarrow> Q (f a)) \<Longrightarrow>
      Q (case v of None \<Rightarrow> x | Some a \<Rightarrow> f a)" for v :: "bytes option" and x f
    by (cases v) simp_all
  have deny: "Q (reset_failure st now)" by (simp add: Q_def reset_failure_facts)
  have clear: "Q (reset_failure (st\<lparr>es_active_challenge := None\<rparr>) now)"
  proof -
    have "held st (fst (reset_failure (st\<lparr>es_active_challenge := None\<rparr>) now :: estop \<times> bool py))"
      by (rule held_clear) (simp_all add: reset_failure_facts)
    then show ?thesis by (simp add: Q_def reset_failure_facts)
  qed
  have secret: "(es_cached_secret st = None \<Longrightarrow> Q (st, Inl (SafetyError ''ESTOP_RESET_DENIED''))) \<Longrightarrow>
      (\<And>s. es_cached_secret st = Some s \<Longrightarrow> Q (f st s)) \<Longrightarrow> Q (act_bind (st, cached_secret st) f)" for f
    by (simp add: cached_secret_def split: option.splits)
  have "Q (verify_token mac st c k now)"
    unfolding verify_token_def
    by (intro guard secret opt deny clear) (simp_all add: Q_def credential_def not_less)
  then show ?thesis using assms by (auto simp: Q_def)
qed


text \<open>Phase 1 after the secret check: a release with the current secret, or nothing but a counted
  failure (nothing at all when the stop is not engaged).\<close>

lemma rotate_held: "held st (fst (rotate_secret st pv))" "es_engaged (fst (rotate_secret st pv)) = es_engaged st"
    "es_active_challenge (fst (rotate_secret st pv)) = es_active_challenge st"
    "es_backoff_until_ns (fst (rotate_secret st pv)) = es_backoff_until_ns st"
    "es_tx_fence (fst (rotate_secret st pv)) = es_tx_fence st"
  by (simp_all add: rotate_secret_def act_bind_def held_def split: prod.splits sum.splits option.splits)

lemma held_trans_engaged:
  assumes "held a b" "held b c" "es_engaged a = es_engaged b" "es_engaged b = es_engaged c"
    and "es_active_challenge b = es_active_challenge a"
  shows "held a c"
  using assms by (auto simp: held_def challenge_ok_def split: option.splits)

lemma phase1_cases:
  assumes "reset_phase1 mac st pv auth now = (st', res)"
  obtains (released) c k str where "es_engaged st" "rotate_secret st pv = (str, Inr ())"
      "es_active_challenge st = Some c" "presented_token auth c = Some k" "credential mac str c k now"
      "st' = disengage str c" "res = Inr True"
  | (idle) "\<not> es_engaged st" "rotate_secret st pv = (st', Inr ())" "held st st'" "\<not> es_engaged st'" "res = Inr False"
  | (denied) "res = Inl (SafetyError ''ESTOP_RESET_DENIED'')" "held st st'" "es_engaged st' = es_engaged st"
proof -
  obtain str r where rot: "rotate_secret st pv = (str, r)" by fastforce
  have str: "held st str" "es_engaged str = es_engaged st" "es_active_challenge str = es_active_challenge st"
    using rotate_held [of st pv] rot by simp_all
  show thesis
  proof (cases r)
    case (Inl e)
    then have "e = SafetyError ''ESTOP_RESET_DENIED''"
      using rot by (auto simp: rotate_secret_def act_bind_def load_secret_def split: if_splits sum.splits)
    then show thesis using assms denied str by (simp add: reset_phase1_def rot Inl)
  next
    case (Inr u)
    show thesis
    proof (cases "es_engaged st")
      case False
      then show thesis using assms idle str by (simp add: reset_phase1_def rot Inr)
    next
      case True
      note step = assms [unfolded reset_phase1_def rot Inr act_bind_simps str]
      have lift: "held str st' \<Longrightarrow> es_engaged st' = es_engaged str \<Longrightarrow> held st st'"
        using held_trans_engaged [of st str st'] str by simp
      have fail: thesis if f: "reset_failure str now = (st', res)"
      proof -
        have "snd (st', res) = Inl (SafetyError ''ESTOP_RESET_DENIED'') \<and> held str (fst (st', res)) \<and>
            es_engaged (fst (st', res)) = es_engaged str"
          unfolding f [symmetric] by (simp add: reset_failure_facts)
        then show thesis using lift denied str(2) by simp
      qed
      show thesis
      proof (cases "es_active_challenge st")
        case None
        then show thesis using step True fail by simp
      next
        case (Some c)
        show thesis
        proof (cases "presented_token auth c")
          case None
          then show thesis using step True Some fail by simp
        next
          case tok: (Some k)
          have "verify_token mac str c k now = (st', res)" using step True Some tok by simp
          then show thesis
            using verify_token_cases released [of str c k] denied lift True rot Inr Some tok str(2) by fastforce
        qed
      qed
    qed
  qed
qed

lemma disengage_fields [simp]:
  "\<not> es_engaged (disengage st c)" "es_active_challenge (disengage st c) = None"
  "es_epoch (disengage st c) = es_epoch st + 1" "es_failed_attempts (disengage st c) = 0"
  "es_tx_fence (disengage st c) = es_tx_fence st" "es_cached_secret (disengage st c) = es_cached_secret st"
  "es_max_token_age_ns (disengage st c) = es_max_token_age_ns st"
  by (simp_all add: disengage_def record_consumed_nonce_def Let_def)

lemma dset_new: "k \<notin> fst ` set d \<Longrightarrow> dset k v d = d @ [(k, v)]"
  by (induction d) auto

lemma disengage_ok:
  assumes "estop_ok st"
  shows "estop_ok (disengage st c) \<and> ch_nonce c \<in> set (dkeys (es_consumed_nonces (disengage st c)))"
proof -
  let ?d = "dset (ch_nonce c) True (es_consumed_nonces st)"
  have con: "es_consumed_nonces (disengage st c) = drop (length ?d - MAX_CONSUMED_NONCES) ?d"
    by (simp add: disengage_def record_consumed_nonce_def Let_def)
  have d: "dwf ?d" using assms by (simp add: estop_ok_def distinct_update)
  have "dwf (drop n ?d)" for n using d by (simp add: drop_map [symmetric] distinct_drop)
  moreover have "ch_nonce c \<in> set (dkeys (drop (length ?d - MAX_CONSUMED_NONCES) ?d))"
  proof (cases "ch_nonce c \<in> dom (dget (es_consumed_nonces st))")
    case True
    then have "length ?d \<le> MAX_CONSUMED_NONCES"
      using assms by (simp add: length_dset_old estop_ok_def)
    then show ?thesis by (simp add: dom_update flip: dom_map_of_conv_image_fst)
  next
    case False
    then have "?d = es_consumed_nonces st @ [(ch_nonce c, True)]"
      by (simp add: dset_new dom_map_of_conv_image_fst)
    moreover have "length (es_consumed_nonces st) \<le> MAX_CONSUMED_NONCES"
      using assms by (simp add: estop_ok_def)
    ultimately show ?thesis by (simp add: MAX_CONSUMED_NONCES_def)
  qed
  ultimately show ?thesis
    using assms unfolding estop_ok_def con by (simp add: MAX_CONSUMED_NONCES_def)
qed


section \<open>Sessions\<close>

lemma held_hooks: "held st (advance_tx_fence st)" "held st (register_estop_callback st cb)"
    "held st (register_abort_hook st hook)" "held st (fst (unregister_abort_hook st hook))"
    "held st (reset_phase2 st bump)"
  by (simp_all add: held_def advance_tx_fence_def register_estop_callback_def register_abort_hook_def
      unregister_abort_hook_def reset_phase2_def split: option.splits)

text \<open>Every step either keeps the engagement or is the release by the credential it was given.\<close>

definition released_by ::
  "(bytes \<Rightarrow> bytes \<Rightarrow> bytes) \<Rightarrow> int \<Rightarrow> given \<Rightarrow> estop \<Rightarrow> estop \<Rightarrow> bool" where
  "released_by mac now given st st' \<longleftrightarrow> (\<exists>pv auth c k str. given = Some (pv, auth) \<and> es_engaged st \<and>
     rotate_secret st pv = (str, Inr ()) \<and> es_active_challenge st = Some c \<and>
     presented_token auth c = Some k \<and> credential mac str c k now \<and> st' = disengage str c)"

lemma es_step_cases:
  assumes "es_step mac t given st st'"
  shows "held st st' \<or> released_by mac (et_mono t) given st st'"
  using assms
proof (cases rule: es_step.cases)
  case (Release pv auth res)
  from Release(2) show ?thesis
  proof (cases rule: phase1_cases)
    case (released c k str)
    then show ?thesis using Release(1) unfolding released_by_def by blast
  qed simp_all
qed (simp_all add: held_trigger held_hooks held_refresh held_bind held_reissue held_request held_create)

lemma rotated_ok: "estop_ok st \<Longrightarrow> estop_ok (fst (rotate_secret st pv))"
  using rotate_held(1) held_ok by blast

lemma released_facts:
  assumes "released_by mac now given st st'" "estop_ok st"
  shows "estop_ok st'" "\<not> es_engaged st'" "es_epoch st' = es_epoch st + 1" "es_tx_fence st' = es_tx_fence st"
proof -
  obtain pv c str where r: "rotate_secret st pv = (str, Inr ())" "st' = disengage str c"
    using assms(1) by (auto simp: released_by_def)
  have str: "held st str" "es_tx_fence str = es_tx_fence st" "estop_ok str"
    using rotate_held [of st pv] rotated_ok [OF assms(2), of pv] r(1) by simp_all
  show "estop_ok st'" "\<not> es_engaged st'" "es_epoch st' = es_epoch st + 1" "es_tx_fence st' = es_tx_fence st"
    using disengage_ok [OF str(3)] str r(2) by (simp_all add: held_def)
qed

lemma es_step_ok: "estop_ok st \<Longrightarrow> es_step mac t given st st' \<Longrightarrow> estop_ok st'"
  using es_step_cases held_ok released_facts(1) by blast

lemma es_run_ok: "es_run mac st st' \<Longrightarrow> estop_ok st \<Longrightarrow> estop_ok st'"
  by (induction rule: es_run.induct) (auto intro: es_step_ok)

lemma estop_init_ok: "estop_init reset_secret pv stored key max_age allow nonce t = Inr st \<Longrightarrow> estop_ok st"
proof -
  have blank: "estop_ok (blank_estop max_age allow e d s v)" for e d s v
    by (simp add: blank_estop_def estop_ok_def)
  have sync: "estop_ok (sync_protection st pv)" if "estop_ok st" for st pv
    using that held_sync [OF held_refl] held_ok by blast
  show "estop_init reset_secret pv stored key max_age allow nonce t = Inr st \<Longrightarrow> estop_ok st"
    using blank sync held_ok [OF sync [OF blank] held_trigger]
    by (auto simp: estop_init_def Let_def py_bind_Inr_iff split: option.splits sum.splits)
qed

lemma es_run_epoch: "es_run mac st st' \<Longrightarrow> estop_ok st \<Longrightarrow> es_epoch st \<le> es_epoch st'"
proof (induction rule: es_run.induct)
  case (Next st1 t given st2)
  then have "estop_ok st1" using es_run_ok by blast
  then have "es_epoch st1 \<le> es_epoch st2"
    using es_step_cases [OF Next.hyps(2)] released_facts(3) by (auto simp: held_def)
  then show ?case using Next by linarith
qed simp

lemma es_run_fence:
  "es_run mac st st' \<Longrightarrow> estop_ok st \<Longrightarrow>
   es_tx_fence st \<le> es_tx_fence st' \<and> (\<not> es_engaged st \<and> es_engaged st' \<longrightarrow> es_tx_fence st < es_tx_fence st')"
proof (induction rule: es_run.induct)
  case (Next st1 t given st2)
  then have "estop_ok st1" using es_run_ok by blast
  then have "es_tx_fence st1 \<le> es_tx_fence st2"
    "\<not> es_engaged st1 \<Longrightarrow> es_engaged st2 \<Longrightarrow> es_tx_fence st1 < es_tx_fence st2"
    using es_step_cases [OF Next.hyps(2)] released_facts(2,4) by (auto simp: held_def)
  then show ?case using Next by fastforce
qed simp

text \<open>In every session the emergency stop keeps its invariant: a challenge exists only while it is
  engaged and carries the current epoch, the reset action and the configured age; at most 1024 nonces
  are remembered, each once.\<close>

theorem estop_session_ok:
  assumes "estop_init reset_secret pv stored key max_age allow nonce t = Inr st" "es_run mac st st'"
  shows "estop_ok st'"
  using es_run_ok [OF assms(2) estop_init_ok [OF assms(1)]] .

text \<open>C34. Only the credential of the current engagement releases the stop: whatever critical section
  ends an engagement, it is a reset, and the very authorisation its caller presented is a token that names
  the current epoch and nonce, is no older than the challenge allows, carries a nonce not used before,
  and has the signature of the challenge under the secret the provider of that call yields. The release
  advances the epoch and remembers the nonce.\<close>

theorem release_needs_credential:
  assumes "estop_ok st" "es_step mac t given st st'" "es_engaged st" "\<not> es_engaged st'"
  shows "\<exists>pv auth. given = Some (pv, auth) \<and> (\<exists>c k str. es_active_challenge st = Some c \<and>
    presented_token auth c = Some k \<and> rotate_secret st pv = (str, Inr ()) \<and> credential mac str c k (et_mono t) \<and>
    ch_epoch c = es_epoch st \<and> es_epoch st' = es_epoch st + 1 \<and> es_active_challenge st' = None \<and>
    ch_nonce c \<in> set (dkeys (es_consumed_nonces st')))"
proof -
  have "released_by mac (et_mono t) given st st'"
    using es_step_cases [OF assms(2)] assms(3,4) by (auto simp: held_def)
  then obtain pv auth c k str where g: "given = Some (pv, auth)" and r: "rotate_secret st pv = (str, Inr ())"
    "es_active_challenge st = Some c" "presented_token auth c = Some k" "credential mac str c k (et_mono t)"
    "st' = disengage str c" and e: "es_epoch st' = es_epoch st + 1"
    using released_facts(3) assms(1) unfolding released_by_def by blast
  have "estop_ok str" using rotated_ok [OF assms(1), of pv] r(1) by simp
  then have "ch_nonce c \<in> set (dkeys (es_consumed_nonces st'))" using disengage_ok r(5) by blast
  moreover have "ch_epoch c = es_epoch st" using assms(1) r(2) by (simp add: estop_ok_def challenge_ok_def)
  ultimately show ?thesis using g r e by auto
qed

text \<open>The fence detects every engagement: a frame validated while the stop was released carries a
  fence value that differs from the current one for ever after any later engagement, even when that
  engagement has been reset since.\<close>

theorem fence_detects_engagement:
  assumes "estop_ok st" "\<not> es_engaged st" "es_run mac st st1" "es_engaged st1" "es_run mac st1 st'"
  shows "es_tx_fence st < es_tx_fence st'"
  using es_run_fence [OF assms(3,1)] es_run_fence [OF assms(5) es_run_ok [OF assms(3,1)]] assms(2,4)
  by linarith

section \<open>Single use\<close>

definition structured :: "authorization \<Rightarrow> bool" where
  "structured auth \<longleftrightarrow> (case auth of TokenText w \<Rightarrow> CHR '':'' \<in> set (py_strip w) | _ \<Rightarrow> True)"

lemma structured_same: "structured auth \<Longrightarrow> presented_token auth c = presented_token auth c'"
  by (simp add: structured_def presented_token_def Let_def split: authorization.splits)

lemma reset_Inr:
  "reset mac st pv auth now = (st', Inr ()) \<longleftrightarrow>
   (\<exists>st1 bump. reset_phase1 mac st pv auth now = (st1, Inr bump) \<and> st' = reset_phase2 st1 bump)"
  by (auto simp: reset_def act_bind_Inr)

text \<open>A structured token (an object, or text with its fields) releases at most one engagement:
  after it has, it is denied on every later engagement of the session, whatever secret rotation,
  triggers and resets happened in between.\<close>

theorem reset_token_single_use:
  assumes "estop_ok st" "es_engaged st" "structured auth"
    and "reset mac st pv auth now = (st1, Inr ())"
    and "es_run mac st1 st2" "es_engaged st2"
  shows "snd (reset mac st2 pv' auth now') = Inl (SafetyError ''ESTOP_RESET_DENIED'') \<and>
    es_engaged (fst (reset mac st2 pv' auth now'))"
proof -
  obtain sta bump where p1: "reset_phase1 mac st pv auth now = (sta, Inr bump)" "st1 = reset_phase2 sta bump"
    using assms(4) by (auto simp: reset_Inr)
  from p1(1) obtain c k str where r: "rotate_secret st pv = (str, Inr ())" "presented_token auth c = Some k"
    "credential mac str c k now" "sta = disengage str c"
    using assms(2) by (cases rule: phase1_cases) auto
  have str: "estop_ok str" "es_epoch str = es_epoch st"
    using rotated_ok [OF assms(1), of pv] rotate_held(1) [of st pv] r(1) by (auto simp: held_def)
  have ok1: "estop_ok st1" "es_epoch st1 = es_epoch st + 1" "tok_epoch k = es_epoch st"
    using disengage_ok [OF str(1), of c] held_ok [OF _ held_hooks(5)] p1(2) r(3,4) str(2)
    by (auto simp: reset_phase2_def credential_def)
  have later: "tok_epoch k < es_epoch st2" using es_run_epoch [OF assms(5) ok1(1)] ok1 by linarith
  obtain stb res where p2: "reset_phase1 mac st2 pv' auth now' = (stb, res)" by fastforce
  then have "res = Inl (SafetyError ''ESTOP_RESET_DENIED'') \<and> es_engaged stb"
  proof (cases rule: phase1_cases)
    case (released c' k' str')
    have "k' = k" using released(4) r(2) structured_same [OF assms(3), of c' c] by simp
    moreover have "es_epoch str' = es_epoch st2" using rotate_held(1) [of st2 pv'] released(2) by (simp add: held_def)
    ultimately show ?thesis using released(5) later by (simp add: credential_def)
  qed (use assms(6) in simp_all)
  then show ?thesis by (simp add: reset_def p2)
qed


section \<open>A valid credential is never locked out\<close>

lemma parse_signed:
  assumes "0 \<le> ch_epoch c" "ch_epoch c \<le> MAX_TOKEN_EPOCH" "0 \<le> ch_timestamp_ns c"
    "ch_timestamp_ns c \<le> MAX_TOKEN_TIMESTAMP_NS" "length (ch_nonce c) = 16" "ch_action c = ''ESTOP_RESET''"
    "\<And>x. length (mac secret x) = 32"
  defines "k \<equiv> sign_challenge mac secret c"
  shows "token_fields_ok k" "from_token_string (to_token_string k) = Inr k"
    "py_strip (to_token_string k) = to_token_string k" "length (to_token_string k) \<le> MAX_TOKEN_STRING_LEN"
    "CHR '':'' \<in> set (to_token_string k)"
    "hexdigits (tok_signature k)" "length (tok_signature k) = 64"
    "py_fromhex (tok_signature k) = Some (mac secret (serialize_for_signature c))"
proof -
  define sig where "sig = mac secret (serialize_for_signature c)"
  have ne: "ch_nonce c \<noteq> []" "sig \<noteq> []" using assms(5) assms(7) [of "serialize_for_signature c"] by (auto simp: sig_def)
  have k: "tok_epoch k = ch_epoch c" "tok_nonce k = py_hex (ch_nonce c)" "tok_timestamp_ns k = ch_timestamp_ns c"
    "tok_action k = ''ESTOP_RESET''" "tok_signature k = py_hex sig"
    by (simp_all add: k_def sign_challenge_def sig_def assms(6))
  have hex: "hexdigits (py_hex (ch_nonce c))" "hexdigits (py_hex sig)"
    using plain_hexdigits plain_hex ne by blast+
  show "hexdigits (tok_signature k)" "length (tok_signature k) = 64"
    "py_fromhex (tok_signature k) = Some (mac secret (serialize_for_signature c))"
    using hex(2) assms(7) by (simp_all add: k sig_def)
  show fields: "token_fields_ok k"
    using assms(1-5) hex assms(7) [of "serialize_for_signature c"]
    by (simp add: token_fields_ok_def k NONCE_HEX_LEN_def SIG_HEX_LEN_def ALLOWED_TOKEN_ACTIONS_def sig_def)
  define e where "e = dec_nat (nat (ch_epoch c))"
  define ts where "ts = dec_nat (nat (ch_timestamp_ns c))"
  have w: "to_token_string k = e @ CHR '':'' # py_hex (ch_nonce c) @ CHR '':'' # ts @ CHR '':'' #
      ''ESTOP_RESET'' @ CHR '':'' # py_hex sig"
    using assms(1,3) by (simp add: to_token_string_def k py_str_def e_def ts_def)
  have "py_strip (e @ (CHR '':'' # py_hex (ch_nonce c) @ CHR '':'' # ts @ CHR '':'' # ''ESTOP_RESET'' @ [CHR '':'']) @ py_hex sig)
      = e @ (CHR '':'' # py_hex (ch_nonce c) @ CHR '':'' # ts @ CHR '':'' # ''ESTOP_RESET'' @ [CHR '':'']) @ py_hex sig"
    unfolding e_def by (rule strip_plain_ends [OF plain_dec plain_hex [OF ne(2)]])
  then show strip: "py_strip (to_token_string k) = to_token_string k" unfolding w by simp
  have small: "nat x < 10 ^ 20" if "x \<le> 2 ^ 63 - 1" for x :: int
    using that by simp
  have lens: "length e \<le> 20" "length ts \<le> 20"
    unfolding e_def ts_def
    by (rule dec_length; use assms(2,4) small in \<open>simp add: MAX_TOKEN_EPOCH_def MAX_TOKEN_TIMESTAMP_NS_def\<close>)+
  have siglen: "length sig = 32" using assms(7) by (simp add: sig_def)
  show len: "length (to_token_string k) \<le> MAX_TOKEN_STRING_LEN"
    using lens assms(5) siglen unfolding w by (simp add: MAX_TOKEN_STRING_LEN_def)
  show "CHR '':'' \<in> set (to_token_string k)" unfolding w by simp
  have sep: "CHR '':'' \<notin> set (dec_nat n)" "bs \<noteq> [] \<Longrightarrow> CHR '':'' \<notin> set (py_hex bs)" for n bs
    by (rule plain_no_sep; simp add: plain_hex)+
  have split: "py_split (CHR '':'') (to_token_string k) =
      [e, py_hex (ch_nonce c), ts, ''ESTOP_RESET'', py_hex sig]"
    unfolding w e_def ts_def
    by (simp add: split_plain split_last sep ne)
  have big: "n < 10 ^ 20 \<Longrightarrow> n < 10 ^ 4300" for n :: nat
    by (erule less_le_trans) (rule power_increasing; simp)
  have "py_int e = Some (int (nat (ch_epoch c)))" "py_int ts = Some (int (nat (ch_timestamp_ns c)))"
    unfolding e_def ts_def
    by (rule int_dec [OF big [OF small]]; use assms(2,4) in \<open>simp add: MAX_TOKEN_EPOCH_def MAX_TOKEN_TIMESTAMP_NS_def\<close>)+
  then have ints: "py_int e = Some (ch_epoch c)" "py_int ts = Some (ch_timestamp_ns c)"
    using assms(1,3) by simp_all
  have kk: "k = \<lparr>tok_epoch = ch_epoch c, tok_nonce = py_hex (ch_nonce c), tok_timestamp_ns = ch_timestamp_ns c,
      tok_action = ''ESTOP_RESET'', tok_signature = py_hex sig\<rparr>"
    using k by simp
  show "from_token_string (to_token_string k) = Inr k"
    using fields len unfolding from_token_string_def Let_def strip split
    by (simp add: ints kk [symmetric])
qed

lemma verify_token_complete:
  assumes "credential mac st c k now"
    and "now < es_backoff_until_ns st \<Longrightarrow> looks_well_formed_signature (tok_signature k)"
  shows "verify_token mac st c k now = (disengage st c, Inr True)"
  using assms unfolding verify_token_def credential_def
  by (auto simp: cached_secret_def)

text \<open>The three forms of a minted token.\<close>

definition forms :: "estop_token \<Rightarrow> authorization set" where
  "forms k = {TokenObject k, TokenText (to_token_string k), TokenText (tok_signature k)}"

lemma presented_forms:
  assumes "auth \<in> forms (sign_challenge mac secret c)"
    and "0 \<le> ch_epoch c" "ch_epoch c \<le> MAX_TOKEN_EPOCH" "0 \<le> ch_timestamp_ns c"
    "ch_timestamp_ns c \<le> MAX_TOKEN_TIMESTAMP_NS" "length (ch_nonce c) = 16" "ch_action c = ''ESTOP_RESET''"
    "\<And>x. length (mac secret x) = 32"
  shows "presented_token auth c = Some (sign_challenge mac secret c)"
proof -
  let ?k = "sign_challenge mac secret c"
  note p = parse_signed [where mac = mac and secret = secret, OF assms(2-8)]
  have "to_token_string ?k \<noteq> []" using p(5) by auto
  then have full: "presented_token (TokenText (to_token_string ?k)) c = Some ?k"
    using p(2-5) by (simp add: presented_token_def)
  have sig: "tok_signature ?k \<noteq> []" "CHR '':'' \<notin> set (tok_signature ?k)"
    using p(6) by (auto simp: hexdigits_def hex_value_def)
  have "presented_token (TokenText (tok_signature ?k)) c = Some ?k"
    using sig p(6,7) by (simp add: presented_token_def Let_def MAX_TOKEN_STRING_LEN_def)
      (simp add: sign_challenge_def)
  then show ?thesis using assms(1) full p(1) by (auto simp: forms_def presented_token_def)
qed

lemma signed_challenge_resets:
  assumes "es_engaged st" "es_active_challenge st = Some c" "es_cached_secret st = Some secret"
    and "pv_revision pv = es_cached_version st" "ch_epoch c = es_epoch st"
    and "ch_nonce c \<notin> set (dkeys (es_consumed_nonces st))"
    and "ch_timestamp_ns c \<le> now" "now \<le> ch_timestamp_ns c + ch_max_age_ns c"
    and "auth \<in> forms (sign_challenge mac secret c)"
    and bounds: "0 \<le> ch_epoch c" "ch_epoch c \<le> MAX_TOKEN_EPOCH" "0 \<le> ch_timestamp_ns c"
    "ch_timestamp_ns c \<le> MAX_TOKEN_TIMESTAMP_NS" "length (ch_nonce c) = 16" "ch_action c = ''ESTOP_RESET''"
    "\<And>x. length (mac secret x) = 32"
  shows "reset mac st pv auth now = (reset_phase2 (disengage st c) True, Inr ())"
proof -
  let ?k = "sign_challenge mac secret c"
  note p = parse_signed [where mac = mac and secret = secret, OF bounds]
  have "credential mac st c ?k now"
    using assms(3,5-8) bounds(6) p(6,8) by (simp add: credential_def sign_challenge_def)
  moreover have "looks_well_formed_signature (tok_signature ?k)"
    using p(6,7) by (simp add: looks_well_formed_signature_def SIG_HEX_LEN_def)
  ultimately have "verify_token mac st c ?k now = (disengage st c, Inr True)"
    by (rule verify_token_complete)
  then show ?thesis
    using presented_forms [OF assms(9) bounds] assms(1,2,4)
    by (simp add: reset_def reset_phase1_def rotate_secret_def)
qed

lemma mint_facts:
  assumes "mint_reset_token mac st authority nonce t = (st', Inr (Some k))" "pv_get_secret authority = Inr secret"
  shows "\<exists>c. es_active_challenge st' = Some c \<and> k = sign_challenge mac secret c"
  using assms
  by (auto simp: mint_reset_token_def act_bind_Inr request_reset_challenge_def reissue_challenge_def Let_def
      split: if_splits option.splits)

text \<open>What the authority mints, resets: while the challenge it signed is active and its age within
  the limit, the token is accepted in all its forms, as object, as text and as bare signature, no
  matter how many failed attempts, armed cool-downs and further triggers the session has seen. The
  release clears the failures and publishes a new fence.\<close>

theorem minted_reset_token_works:
  assumes "mint_reset_token mac st authority nonce t = (st1, Inr (Some k))" "pv_get_secret authority = Inr secret"
    and "estop_ok st" "es_run mac st1 st2" "es_engaged st2"
    and same: "es_active_challenge st2 = es_active_challenge st1" "es_active_challenge st1 = Some c"
    and "es_cached_secret st2 = Some secret" "pv_revision pv = es_cached_version st2"
    and "ch_nonce c \<notin> set (dkeys (es_consumed_nonces st2))" "length (ch_nonce c) = 16"
    and "0 \<le> ch_timestamp_ns c" "ch_timestamp_ns c \<le> MAX_TOKEN_TIMESTAMP_NS" "es_epoch st2 \<le> MAX_TOKEN_EPOCH"
    and "ch_timestamp_ns c \<le> now" "now \<le> ch_timestamp_ns c + ch_max_age_ns c"
    and mac: "\<And>x. length (mac secret x) = 32" and "auth \<in> forms k"
  shows "\<exists>st3. reset mac st2 pv auth now = (st3, Inr ()) \<and> \<not> es_engaged st3 \<and>
    es_failed_attempts st3 = 0 \<and> es_tx_fence st3 = es_tx_fence st2 + 1 \<and> es_epoch st3 = es_epoch st2 + 1"
proof -
  have k: "k = sign_challenge mac secret c" using mint_facts [OF assms(1,2)] same by auto
  have "held st st1"
    using assms(1) held_request [of st nonce t]
    by (auto simp: mint_reset_token_def act_bind_Inr split: option.splits)
  then have "estop_ok st2" using es_run_ok [OF assms(4) held_ok [OF assms(3)]] by blast
  then have c: "ch_epoch c = es_epoch st2" "0 \<le> ch_epoch c" "ch_action c = ''ESTOP_RESET''"
    using same by (auto simp: estop_ok_def challenge_ok_def)
  have "reset mac st2 pv auth now = (reset_phase2 (disengage st2 c) True, Inr ())"
    by (rule signed_challenge_resets [where secret = secret])
      (use assms c same k mac in auto)
  then show ?thesis by (simp add: reset_phase2_def)
qed


section \<open>The cool-down\<close>

lemma fromhex_tight:
  "py_fromhex s = Some bs \<Longrightarrow>
   2 * length bs \<le> length s \<and> (length s = 2 * length bs \<longrightarrow> (\<forall>c\<in>set s. hex_value c \<noteq> None))"
proof (induction s arbitrary: bs rule: py_fromhex.induct)
  case (3 c c' cs)
  show ?case
  proof (cases "is_ascii_space c")
    case True
    then have "2 * length bs \<le> length (c' # cs)" using "3.IH"(1) "3.prems" by simp
    then show ?thesis by simp
  next
    case False
    then obtain h l ys where "hex_value c = Some h" "hex_value c' = Some l" "py_fromhex cs = Some ys"
      "bs = word_of_nat (16 * h + l) # ys"
      using "3.prems" by (auto split: option.splits)
    then show ?thesis using "3.IH"(2) False "3.prems" by auto
  qed
qed (auto split: if_splits)

lemma strip_length: "length (py_strip s) \<le> length s"
  unfolding py_strip_def by (metis length_dropWhile_le length_rev order_trans)

lemma hexdigits_signature:
  assumes "py_fromhex (py_strip sig) = Some bs" "length bs = 32"
    and "\<forall>c\<in>set (py_strip sig). hex_value c \<noteq> None"
  shows "looks_well_formed_signature sig"
proof -
  have "py_strip sig \<noteq> []" using assms(1,2) by auto
  then have h: "hexdigits (py_strip sig)" using assms(3) by (simp add: hexdigits_def)
  have "\<forall>c\<in>set (py_strip sig). \<not> is_ascii_space c" using assms(3) hex_value_not_space by blast
  then have "length (py_strip sig) = 64" using fromhex_digits [OF assms(1)] assms(2) by simp
  then show ?thesis using h by (simp add: looks_well_formed_signature_def SIG_HEX_LEN_def)
qed

text \<open>Every credential looks well formed, unless it is a bare signature with blanks inside.\<close>

definition unspaced :: "authorization \<Rightarrow> bool" where
  "unspaced auth \<longleftrightarrow> (case auth of TokenText w \<Rightarrow> \<forall>c\<in>set (py_strip w). \<not> is_ascii_space c | _ \<Rightarrow> True)"

lemma from_token_fields: "from_token_string w = Inr k \<Longrightarrow> token_fields_ok k"
  by (auto simp: from_token_string_def Let_def split: if_splits list.splits option.splits)

lemma strip_set: "set (py_strip s) \<subseteq> set s"
  by (auto simp: py_strip_def dest!: set_dropWhileD)

lemma credential_looks:
  assumes "presented_token auth c = Some k" "credential mac st c k now" "unspaced auth"
    and mac: "\<And>s x. length (mac s x) = 32"
  shows "looks_well_formed_signature (tok_signature k)"
proof -
  obtain bs where bs: "py_fromhex (py_strip (tok_signature k)) = Some bs" "length bs = 32"
    using assms(2) mac by (auto simp: credential_def)
  have tight: "length (tok_signature k) = 64 \<Longrightarrow> \<forall>c\<in>set (py_strip (tok_signature k)). hex_value c \<noteq> None"
    using fromhex_tight [OF bs(1)] bs(2) strip_length [of "tok_signature k"] by simp
  have "token_fields_ok k \<or> (\<exists>w. auth = TokenText w \<and> tok_signature k = py_strip w)"
    using assms(1) from_token_fields
    by (auto simp: presented_token_def Let_def split: authorization.splits if_splits sum.splits)
  then show ?thesis
  proof
    assume "token_fields_ok k"
    then show ?thesis using hexdigits_signature [OF bs tight] by (simp add: token_fields_ok_def SIG_HEX_LEN_def)
  next
    assume "\<exists>w. auth = TokenText w \<and> tok_signature k = py_strip w"
    then obtain w where w: "auth = TokenText w" "tok_signature k = py_strip w" by blast
    have "set (py_strip (py_strip w)) \<subseteq> set (py_strip w)" by (rule strip_set)
    then have "\<forall>c\<in>set (py_strip (tok_signature k)). \<not> is_ascii_space c"
      using assms(3) w by (auto simp: unspaced_def)
    then show ?thesis using hexdigits_signature [OF bs] fromhex_digits [OF bs(1)] by blast
  qed
qed

lemma rotate_backoff:
  "rotate_secret (st\<lparr>es_backoff_until_ns := b\<rparr>) pv =
     ((fst (rotate_secret st pv))\<lparr>es_backoff_until_ns := b\<rparr>, snd (rotate_secret st pv))"
  by (cases "load_secret pv") (simp_all add: rotate_secret_def)

lemma credential_backoff: "credential mac (st\<lparr>es_backoff_until_ns := b\<rparr>) c k now \<longleftrightarrow> credential mac st c k now"
  by (simp add: credential_def)

lemma verify_outcome_credential:
  assumes "presented_token auth c = Some k" "unspaced auth" "\<And>s x. length (mac s x) = 32" "es_engaged st"
  shows "snd (verify_token mac st c k now) =
      (if credential mac st c k now then Inr True else Inl (SafetyError ''ESTOP_RESET_DENIED'')) \<and>
    (es_engaged (fst (verify_token mac st c k now)) \<longleftrightarrow> \<not> credential mac st c k now)"
proof (cases "credential mac st c k now")
  case True
  then show ?thesis
    using verify_token_complete [OF True] credential_looks [where mac = mac, OF assms(1) True assms(2,3)] by simp
next
  case False
  obtain st' res where v: "verify_token mac st c k now = (st', res)" by fastforce
  then show ?thesis using verify_token_cases [OF v] False assms(4) by simp
qed

text \<open>The cool-down decides nothing: for every token but a bare signature with blanks inside, a
  reset has the same outcome whatever the cool-down deadline is. It neither delays a valid operator
  nor throttles a guesser, who gets every guess checked.\<close>

theorem cooldown_decides_nothing:
  assumes "unspaced auth" "\<And>s x. length (mac s x) = 32"
  shows "snd (reset mac (st\<lparr>es_backoff_until_ns := b\<rparr>) pv auth now) = snd (reset mac st pv auth now) \<and>
    es_engaged (fst (reset mac (st\<lparr>es_backoff_until_ns := b\<rparr>) pv auth now)) =
    es_engaged (fst (reset mac st pv auth now))"
proof -
  obtain str r where rot: "rotate_secret st pv = (str, r)" by fastforce
  define stb where "stb = str\<lparr>es_backoff_until_ns := b\<rparr>"
  have rotb: "rotate_secret (st\<lparr>es_backoff_until_ns := b\<rparr>) pv = (stb, r)"
    by (simp add: rotate_backoff rot stb_def)
  have fields: "es_engaged stb = es_engaged str" "es_active_challenge stb = es_active_challenge str"
    by (simp_all add: stb_def)
  have pub: "es_engaged (reset_phase2 s bump) = es_engaged s" for s bump by (simp add: reset_phase2_def)
  have same: "snd (reset_phase1 mac (st\<lparr>es_backoff_until_ns := b\<rparr>) pv auth now) = snd (reset_phase1 mac st pv auth now) \<and>
    es_engaged (fst (reset_phase1 mac (st\<lparr>es_backoff_until_ns := b\<rparr>) pv auth now)) =
    es_engaged (fst (reset_phase1 mac st pv auth now))"
  proof (cases r)
    case (Inl e)
    then show ?thesis by (simp add: reset_phase1_def rot rotb fields)
  next
    case (Inr u)
    show ?thesis
    proof (cases "es_engaged str")
      case False
      then show ?thesis by (simp add: reset_phase1_def rot rotb Inr fields)
    next
      case True
      show ?thesis
      proof (cases "es_active_challenge str")
        case None
        then show ?thesis by (simp add: reset_phase1_def rot rotb Inr fields reset_failure_facts)
      next
        case (Some c)
        show ?thesis
        proof (cases "presented_token auth c")
          case None
          then show ?thesis using Some by (simp add: reset_phase1_def rot rotb Inr fields reset_failure_facts)
        next
          case tok: (Some k)
          then show ?thesis
            using verify_outcome_credential [where mac = mac and st = str and now = now, OF tok assms(1)]
              verify_outcome_credential [where mac = mac and st = stb and now = now, OF tok assms(1)]
              credential_backoff [where st = str and b = b and mac = mac] assms(2) True
            by (simp add: reset_phase1_def rot rotb Inr fields Some stb_def)
        qed
      qed
    qed
  qed
  have via: "snd (reset mac s pv auth now) = (case snd (reset_phase1 mac s pv auth now) of Inl e \<Rightarrow> Inl e | Inr _ \<Rightarrow> Inr ())"
    "es_engaged (fst (reset mac s pv auth now)) = es_engaged (fst (reset_phase1 mac s pv auth now))" for s
    by (simp_all add: reset_def act_bind_def pub split: prod.splits sum.splits)
  show ?thesis unfolding via using same by simp
qed

text \<open>A valid bare signature written with blanks between its bytes is refused while a cool-down is
  armed, although it is accepted otherwise.\<close>

lemma spaced_signature_refused:
  assumes "credential mac st c k now" "now < es_backoff_until_ns st"
    and "\<not> looks_well_formed_signature (tok_signature k)"
  shows "snd (verify_token mac st c k now) = Inl (SafetyError ''ESTOP_RESET_DENIED'')"
  using assms by (simp add: verify_token_def credential_def reset_failure_facts)


section \<open>Concrete sessions\<close>

definition es_demo_mac :: "bytes \<Rightarrow> bytes \<Rightarrow> bytes" where
  "es_demo_mac secret msg = take 32 (secret @ rev msg @ replicate 32 0)"

definition es_demo_nonce :: bytes where
  "es_demo_nonce = replicate 16 1"

definition es_demo_time :: es_time where
  "es_demo_time = \<lparr>et_mono = 5, et_wall = 0\<rparr>"

definition es_demo_idle :: estop where
  "es_demo_idle = blank_estop DEFAULT_TOKEN_MAX_AGE_NS False True False [7] 0"

definition es_demo_stop :: estop where
  "es_demo_stop = trigger es_demo_idle USER_UI_BUTTON [] (Some 0) es_demo_nonce es_demo_time"

definition es_demo_challenge :: challenge where
  "es_demo_challenge = new_challenge es_demo_idle es_demo_nonce es_demo_time"

definition es_demo_token :: estop_token where
  "es_demo_token = sign_challenge es_demo_mac [7] es_demo_challenge"

definition es_demo_free :: estop where
  "es_demo_free = reset_phase2 (disengage es_demo_stop es_demo_challenge) True"

lemma es_demo_mac_length: "length (es_demo_mac s x) = 32"
  by (simp add: es_demo_mac_def)

lemma es_demo_init: "estop_init (Some [7]) (ephemeral_backend [7]) None [] DEFAULT_TOKEN_MAX_AGE_NS False [] es_demo_time
    = Inr es_demo_idle"
  by (simp add: estop_init_def es_demo_idle_def)

lemma es_demo_idle_fields [simp]: "estop_ok es_demo_idle" "\<not> es_engaged es_demo_idle"
  "es_tx_fence es_demo_idle = 0"
  using estop_init_ok [OF es_demo_init] by (simp_all add: es_demo_idle_def blank_estop_def)

lemma es_demo_stop_fields [simp]:
  "es_engaged es_demo_stop" "es_active_challenge es_demo_stop = Some es_demo_challenge"
  "es_cached_secret es_demo_stop = Some [7]" "es_cached_version es_demo_stop = 0"
  "es_epoch es_demo_stop = 0" "es_consumed_nonces es_demo_stop = []" "es_tx_fence es_demo_stop = 1"
  by (simp_all add: es_demo_stop_def trigger_def Let_def es_demo_challenge_def es_demo_idle_def blank_estop_def)

lemma es_demo_challenge_fields [simp]:
  "ch_epoch es_demo_challenge = 0" "ch_timestamp_ns es_demo_challenge = 5"
  "ch_max_age_ns es_demo_challenge = DEFAULT_TOKEN_MAX_AGE_NS" "length (ch_nonce es_demo_challenge) = 16"
  "ch_action es_demo_challenge = ''ESTOP_RESET''"
  by (simp_all add: es_demo_challenge_def new_challenge_def es_demo_idle_def blank_estop_def
      es_demo_nonce_def es_demo_time_def)

lemma es_demo_run: "es_run es_demo_mac es_demo_idle es_demo_stop"
  unfolding es_demo_stop_def by (rule Next [OF Start Engage])

lemma es_demo_stop_ok: "estop_ok es_demo_stop"
  by (rule es_run_ok [OF es_demo_run]) simp

lemma es_demo_reset:
  "auth \<in> forms es_demo_token \<Longrightarrow>
   reset es_demo_mac es_demo_stop (ephemeral_backend [7]) auth 9 = (es_demo_free, Inr ())"
  unfolding es_demo_free_def es_demo_token_def
  by (rule signed_challenge_resets [where secret = "[7]"])
    (simp_all add: es_demo_mac_length ephemeral_backend_def MAX_TOKEN_EPOCH_def MAX_TOKEN_TIMESTAMP_NS_def
      DEFAULT_TOKEN_MAX_AGE_NS_def)

theorem estop_session_ok_witness: "estop_ok es_demo_stop"
  by (rule estop_session_ok [OF es_demo_init es_demo_run])

lemma es_demo_phase1:
  "reset_phase1 es_demo_mac es_demo_stop (ephemeral_backend [7]) (TokenObject es_demo_token) 9
     = (disengage es_demo_stop es_demo_challenge, Inr True)"
proof -
  have "reset es_demo_mac es_demo_stop (ephemeral_backend [7]) (TokenObject es_demo_token) 9 = (es_demo_free, Inr ())"
    by (rule es_demo_reset) (simp add: forms_def)
  then obtain st1 bump where p: "reset_phase1 es_demo_mac es_demo_stop (ephemeral_backend [7]) (TokenObject es_demo_token) 9
      = (st1, Inr bump)" by (auto simp: reset_Inr)
  then have "st1 = disengage es_demo_stop es_demo_challenge \<and> bump"
    by (cases rule: phase1_cases) (simp_all add: rotate_secret_def ephemeral_backend_def)
  then show ?thesis using p by simp
qed

theorem release_needs_credential_witness:
  "\<exists>c k str. es_active_challenge es_demo_stop = Some c \<and> presented_token (TokenObject es_demo_token) c = Some k \<and>
    rotate_secret es_demo_stop (ephemeral_backend [7]) = (str, Inr ()) \<and> credential es_demo_mac str c k 9 \<and>
    ch_epoch c = 0 \<and> es_epoch (disengage es_demo_stop es_demo_challenge) = 1"
proof -
  have "es_step es_demo_mac \<lparr>et_mono = 9, et_wall = 0\<rparr> (Some (ephemeral_backend [7], TokenObject es_demo_token))
      es_demo_stop (disengage es_demo_stop es_demo_challenge)"
    by (rule Release) (simp add: es_demo_phase1)
  from release_needs_credential [OF es_demo_stop_ok this] show ?thesis by simp blast
qed

theorem fence_detects_engagement_witness: "es_tx_fence es_demo_idle < es_tx_fence es_demo_stop"
  by (rule fence_detects_engagement [OF _ _ es_demo_run _ Start]) simp_all

theorem reset_token_single_use_witness:
  "snd (reset es_demo_mac (trigger es_demo_free USER_UI_BUTTON [] (Some 0) [] es_demo_time) (ephemeral_backend [7])
      (TokenObject es_demo_token) 11) = Inl (SafetyError ''ESTOP_RESET_DENIED'') \<and>
   es_engaged (fst (reset es_demo_mac (trigger es_demo_free USER_UI_BUTTON [] (Some 0) [] es_demo_time) (ephemeral_backend [7])
      (TokenObject es_demo_token) 11))"
  by (rule reset_token_single_use [OF es_demo_stop_ok _ _ es_demo_reset Next [OF Start Engage]])
    (simp_all add: structured_def forms_def trigger_def Let_def)

lemma es_demo_mint:
  "mint_reset_token es_demo_mac es_demo_stop (ephemeral_backend [7]) [] es_demo_time = (es_demo_stop, Inr (Some es_demo_token))"
  by (simp add: mint_reset_token_def request_reset_challenge_def challenge_stale_def challenge_expired_def
      es_demo_time_def DEFAULT_TOKEN_MAX_AGE_NS_def ephemeral_backend_def es_demo_token_def)

theorem minted_reset_token_works_witness:
  "\<exists>st3. reset es_demo_mac es_demo_stop (ephemeral_backend [7]) (TokenText (to_token_string es_demo_token)) 9 = (st3, Inr ()) \<and>
    \<not> es_engaged st3 \<and> es_failed_attempts st3 = 0 \<and> es_tx_fence st3 = es_tx_fence es_demo_stop + 1 \<and>
    es_epoch st3 = es_epoch es_demo_stop + 1"
  by (rule minted_reset_token_works [where secret = "[7]" and c = es_demo_challenge, OF es_demo_mint _ es_demo_stop_ok Start])
    (simp_all add: ephemeral_backend_def MAX_TOKEN_EPOCH_def MAX_TOKEN_TIMESTAMP_NS_def es_demo_mac_length
      DEFAULT_TOKEN_MAX_AGE_NS_def forms_def)

theorem cooldown_decides_nothing_witness:
  "snd (reset es_demo_mac (es_demo_stop\<lparr>es_backoff_until_ns := 100\<rparr>) (ephemeral_backend [7]) Unsupported 9)
     = snd (reset es_demo_mac es_demo_stop (ephemeral_backend [7]) Unsupported 9) \<and>
   es_engaged (fst (reset es_demo_mac (es_demo_stop\<lparr>es_backoff_until_ns := 100\<rparr>) (ephemeral_backend [7]) Unsupported 9))
     = es_engaged (fst (reset es_demo_mac es_demo_stop (ephemeral_backend [7]) Unsupported 9))"
  by (rule cooldown_decides_nothing) (simp_all add: unspaced_def es_demo_mac_length)

end
