(* ===== verification/WatchdogSpec.thy ===== *)
theory WatchdogSpec
  imports Watchdog SupervisorSpec EStopSpec
begin

text \<open>
  What supervisor, emergency stop and watchdog promise together: an expired lease or a suspended
  machine revokes transmission within one monitor period, every way out of a transmitting state
  kills the lease, and only a token holder, a completed arming or the first start moves the lease
  forward.
\<close>

section \<open>Delivery of state changes\<close>

lemma with_sup_fields [simp]:
  "sy_sup (with_sup sy sv) = sv" "sy_estop (with_sup sy sv) = sy_estop sy"
  "sy_bound (with_sup sy sv) = sy_bound sy" "sy_bound_token (with_sup sy sv) = sy_bound_token sy"
  "sy_wd (with_sup sy sv) = deliver (sy_sup sy) sv (sy_wd sy)"
  by (simp_all add: with_sup_def)

lemma state_changed_fields [simp]:
  "wd_timeout_sec (on_safety_state_changed wd s) = wd_timeout_sec wd"
  "wd_is_running (on_safety_state_changed wd s) = wd_is_running wd"
  "wd_started_once (on_safety_state_changed wd s) = wd_started_once wd"
  "wd_heartbeat_token (on_safety_state_changed wd s) = wd_heartbeat_token wd"
  "wd_thread_alive (on_safety_state_changed wd s) = wd_thread_alive wd"
  by (simp_all add: on_safety_state_changed_def)

lemma deliver_calls_fields:
  "wd_timeout_sec (deliver_calls calls wd) = wd_timeout_sec wd \<and>
   wd_is_running (deliver_calls calls wd) = wd_is_running wd \<and>
   wd_started_once (deliver_calls calls wd) = wd_started_once wd \<and>
   wd_heartbeat_token (deliver_calls calls wd) = wd_heartbeat_token wd \<and>
   wd_thread_alive (deliver_calls calls wd) = wd_thread_alive wd"
  by (induction calls wd rule: deliver_calls.induct) simp_all

lemma deliver_fields [simp]:
  "wd_timeout_sec (deliver a b wd) = wd_timeout_sec wd" "wd_is_running (deliver a b wd) = wd_is_running wd"
  "wd_started_once (deliver a b wd) = wd_started_once wd"
  "wd_heartbeat_token (deliver a b wd) = wd_heartbeat_token wd"
  "wd_thread_alive (deliver a b wd) = wd_thread_alive wd"
  by (simp_all add: deliver_def deliver_calls_fields)

text \<open>The lease never moves forward by a state change, and each one away from transmission that
  reaches the watchdog moves it back by more than its length.\<close>

lemma state_changed_lease:
  assumes "0 \<le> wd_timeout_sec wd"
  shows "wd_last_heartbeat (on_safety_state_changed wd s) \<le> wd_last_heartbeat wd"
    and "s \<notin> {ARMED_TX, ACTIVE} \<Longrightarrow>
     wd_last_heartbeat (on_safety_state_changed wd s) = wd_last_heartbeat wd - (wd_timeout_sec wd + 1)"
  using assms by (cases s; simp add: on_safety_state_changed_def)+

lemma deliver_calls_lease:
  "0 \<le> wd_timeout_sec wd \<Longrightarrow> wd_last_heartbeat (deliver_calls calls wd) \<le> wd_last_heartbeat wd"
proof (induction calls wd rule: deliver_calls.induct)
  case (2 cb old_state new_state reason calls wd)
  then show ?case using state_changed_lease(1) [of wd new_state] by fastforce
qed simp

lemma deliver_calls_kills:
  "0 \<le> wd_timeout_sec wd \<Longrightarrow> (WATCHDOG, old, s, r) \<in> set calls \<Longrightarrow> s \<notin> {ARMED_TX, ACTIVE} \<Longrightarrow>
   wd_last_heartbeat (deliver_calls calls wd) \<le> wd_last_heartbeat wd - (wd_timeout_sec wd + 1)"
proof (induction calls wd rule: deliver_calls.induct)
  case (2 cb old_state new_state reason calls wd)
  define w where "w = (if cb = WATCHDOG then on_safety_state_changed wd new_state else wd)"
  have w: "wd_timeout_sec w = wd_timeout_sec wd" "wd_last_heartbeat w \<le> wd_last_heartbeat wd"
    using state_changed_lease(1) [OF "2.prems"(1)] by (simp_all add: w_def)
  show ?case
  proof (cases "(cb, old_state, new_state, reason) = (WATCHDOG, old, s, r)")
    case True
    then have "wd_last_heartbeat w = wd_last_heartbeat wd - (wd_timeout_sec wd + 1)"
      using state_changed_lease(2) [OF "2.prems"(1,3)] by (simp add: w_def)
    moreover have "wd_last_heartbeat (deliver_calls calls w) \<le> wd_last_heartbeat w"
      by (rule deliver_calls_lease) (simp add: w(1) "2.prems"(1))
    ultimately show ?thesis by (simp add: w_def)
  next
    case False
    then have "(WATCHDOG, old, s, r) \<in> set calls" using "2.prems"(2) by auto
    moreover have "0 \<le> wd_timeout_sec w" using "2.prems"(1) w(1) by simp
    ultimately have "wd_last_heartbeat (deliver_calls calls w) \<le> wd_last_heartbeat w - (wd_timeout_sec w + 1)"
      using "2.IH" "2.prems"(3) unfolding w_def by blast
    then show ?thesis using w by (simp add: w_def [symmetric])
  qed
qed simp

lemma deliver_lease: "0 \<le> wd_timeout_sec wd \<Longrightarrow> wd_last_heartbeat (deliver a b wd) \<le> wd_last_heartbeat wd"
  unfolding deliver_def by (rule deliver_calls_lease)

lemma deliver_entered:
  assumes "entered a b s r t" "WATCHDOG \<in> set (sv_callbacks a)" "s \<notin> {ARMED_TX, ACTIVE}" "0 \<le> wd_timeout_sec wd"
  shows "wd_last_heartbeat (deliver a b wd) \<le> wd_last_heartbeat wd - (wd_timeout_sec wd + 1)"
proof -
  have "drop (length (sv_calls a)) (sv_calls b) = map (\<lambda>cb. (cb, sv_state a, s, r)) (sv_callbacks a)"
    using assms(1) by (simp add: entered_def)
  then show ?thesis unfolding deliver_def
    by (intro deliver_calls_kills [where old = "sv_state a" and s = s and r = r]) (use assms(2-4) in auto)
qed

lemma dead_lease:
  assumes "wd_last_heartbeat wd' \<le> h - (wd_timeout_sec wd' + 1)" "h \<le> now_lease t + 1"
    "0 \<le> wd_timeout_sec wd'" "h < now_lease t + 1"
  shows "\<not> is_lease_valid wd' t"
  using assms by (simp add: is_lease_valid_def elapsed_def max_def)

section \<open>The monitor\<close>

lemma sys_trigger_fault_facts:
  "is_fault (sy_sup (sys_trigger_fault sy r t))" "\<not> is_tx_permitted (sy_sup (sys_trigger_fault sy r t))"
  "sy_estop (sys_trigger_fault sy r t) = sy_estop sy"
  "wd_timeout_sec (sy_wd (sys_trigger_fault sy r t)) = wd_timeout_sec (sy_wd sy)"
  "wd_is_running (sy_wd (sys_trigger_fault sy r t)) = wd_is_running (sy_wd sy)"
  "sy_bound (sys_trigger_fault sy r t) = sy_bound sy"
proof -
  obtain st' res where f: "trigger_fault (sy_sup sy) (sys_engaged sy) r (now_sup t) = (st', res)" by fastforce
  show "is_fault (sy_sup (sys_trigger_fault sy r t))" "\<not> is_tx_permitted (sy_sup (sys_trigger_fault sy r t))"
    using trigger_fault_outcome(2) [OF f] by (simp_all add: sys_trigger_fault_def f is_fault_def is_tx_permitted_def)
qed (simp_all add: sys_trigger_fault_def)

lemma fault_kills_lease:
  assumes "is_tx_permitted (sy_sup sy)" "WATCHDOG \<in> set (sv_callbacks (sy_sup sy))" "0 \<le> wd_timeout_sec (sy_wd sy)"
  shows "wd_last_heartbeat (sy_wd (sys_trigger_fault sy r t))
    \<le> wd_last_heartbeat (sy_wd sy) - (wd_timeout_sec (sy_wd sy) + 1)"
proof -
  obtain st' res where f: "trigger_fault (sy_sup sy) (sys_engaged sy) r (now_sup t) = (st', res)" by fastforce
  have "sv_state (sy_sup sy) \<noteq> FAULT" using assms(1) by (auto simp: is_tx_permitted_def)
  then have "moved (sys_engaged sy) (sy_sup sy) st' (now_sup t)"
    using moved_trigger [OF f] trigger_fault_outcome(2) [OF f] by (auto simp: trail_kept_def)
  then obtain s r' where e: "entered (sy_sup sy) st' s r' (now_sup t)" by (auto simp: moved_def)
  moreover have "s = FAULT" using e trigger_fault_outcome(2) [OF f] by (simp add: entered_def)
  ultimately show ?thesis
    using deliver_entered [OF e assms(2) _ assms(3)] by (simp add: sys_trigger_fault_def f)
qed

lemma sys_engage_facts [simp]:
  "sy_sup (sys_engage sy s r t) = sy_sup sy" "sy_wd (sys_engage sy s r t) = sy_wd sy"
  "sy_estop sy \<noteq> None \<Longrightarrow> sys_engaged (sys_engage sy s r t)"
  "sys_engaged (sys_engage sy s r t) \<longleftrightarrow> sy_estop sy \<noteq> None"
  by (auto simp: sys_engage_def sys_engaged_def trigger_def Let_def split: option.splits)

text \<open>When the monitor acts, and what it then does.\<close>

definition lease_lost :: "system \<Rightarrow> sys_time \<Rightarrow> bool" where
  "lease_lost sy t \<longleftrightarrow> is_tx_permitted (sy_sup sy) \<and>
     (elapsed (sy_wd sy) t > wd_timeout_sec (sy_wd sy) \<or> suspend_detected sy t)"

lemma elapsed_mono: "now_lease t \<le> now_lease t2 \<Longrightarrow> elapsed wd t \<le> elapsed wd t2"
  by (simp add: elapsed_def)

lemma monitor_acts:
  assumes "wd_is_running (sy_wd sy) \<or> force" "lease_lost sy t" "now_lease t \<le> now_lease t2"
  shows "\<exists>reason text'. monitor_loop_once fmt force sy t t2 =
    sys_engage (sys_trigger_fault sy reason t2) KEEPALIVE_TIMEOUT text' t2"
proof -
  have "\<not> (\<not> suspend_detected sy t \<and> elapsed (sy_wd sy) t2 \<le> wd_timeout_sec (sy_wd sy))"
    using assms(2) elapsed_mono [OF assms(3), of "sy_wd sy"] by (auto simp: lease_lost_def)
  moreover have "\<not> (\<not> wd_is_running (sy_wd sy) \<and> \<not> force)" using assms(1) by blast
  moreover have "is_tx_permitted (sy_sup sy) \<and>
      (elapsed (sy_wd sy) t > wd_timeout_sec (sy_wd sy) \<or> suspend_detected sy t)"
    using assms(2) by (simp add: lease_lost_def)
  ultimately show ?thesis unfolding monitor_loop_once_def Let_def by (simp only: if_False simp_thms) blast
qed

lemma monitor_idle: "\<not> lease_lost sy t \<Longrightarrow> monitor_loop_once fmt force sy t t2 = sy"
  unfolding monitor_loop_once_def Let_def lease_lost_def by (simp only: if_True if_cancel simp_thms)

text \<open>C31. A lease that ran out while transmission is permitted, or a suspended machine, ends transmission:
  the next check of the monitor puts the supervisor into FAULT, engages the emergency stop if one is bound,
  and leaves a lease that is invalid at
  every later reading until it is anchored again.\<close>

theorem lease_expiry_revokes:
  assumes "wd_is_running (sy_wd sy) \<or> force" "lease_lost sy t" "now_lease t \<le> now_lease t2"
    and "0 \<le> wd_timeout_sec (sy_wd sy)" "wd_last_heartbeat (sy_wd sy) \<le> now_lease t"
  shows "let sy' = monitor_loop_once fmt force sy t t2 in
    is_fault (sy_sup sy') \<and> \<not> is_tx_permitted (sy_sup sy') \<and> (sys_engaged sy' \<longleftrightarrow> sy_estop sy \<noteq> None) \<and>
    (WATCHDOG \<in> set (sv_callbacks (sy_sup sy)) \<longrightarrow> (\<forall>t3. now_lease t \<le> now_lease t3 \<longrightarrow> \<not> is_lease_valid (sy_wd sy') t3))"
proof -
  obtain reason text' where m: "monitor_loop_once fmt force sy t t2 =
    sys_engage (sys_trigger_fault sy reason t2) KEEPALIVE_TIMEOUT text' t2"
    using monitor_acts [OF assms(1-3)] by blast
  have "\<not> is_lease_valid (sy_wd (sys_trigger_fault sy reason t2)) t3"
    if "WATCHDOG \<in> set (sv_callbacks (sy_sup sy))" "now_lease t \<le> now_lease t3" for t3
    using fault_kills_lease [of sy reason t2] assms(2,4,5) that
    by (intro dead_lease [where h = "wd_last_heartbeat (sy_wd sy)"])
      (simp_all add: lease_lost_def sys_trigger_fault_facts)
  then show ?thesis unfolding m Let_def
    by (simp add: sys_trigger_fault_facts)
qed


section \<open>Reaction time\<close>

text \<open>The monitor's checks at the given pairs of clock readings, with no heartbeat in between.\<close>

definition run_monitor :: "(rat \<Rightarrow> string) \<Rightarrow> system \<Rightarrow> (sys_time \<times> sys_time) list \<Rightarrow> system" where
  "run_monitor fmt sy ts = fold (\<lambda>(t, t2) sy. monitor_loop_once fmt False sy t t2) ts sy"

lemma monitor_keeps_fault:
  "\<not> is_tx_permitted (sy_sup sy) \<Longrightarrow> monitor_loop_once fmt force sy t t2 = sy"
  by (rule monitor_idle) (simp add: lease_lost_def)

lemma run_keeps_fault: "\<not> is_tx_permitted (sy_sup sy) \<Longrightarrow> run_monitor fmt sy ts = sy"
  by (induction ts) (auto simp: run_monitor_def monitor_keeps_fault)

lemma run_monitor_Cons: "run_monitor fmt sy ((t, t2) # ts) = run_monitor fmt (monitor_loop_once fmt False sy t t2) ts"
  by (simp add: run_monitor_def)

text \<open>A check either finds the lease alive and changes nothing, or ends transmission.\<close>

lemma check_outcome:
  assumes "wd_is_running (sy_wd sy)" "now_lease t \<le> now_lease t2"
  shows "monitor_loop_once fmt False sy t t2 = sy \<or>
    \<not> is_tx_permitted (sy_sup (monitor_loop_once fmt False sy t t2))"
proof (cases "lease_lost sy t")
  case True
  then show ?thesis using monitor_acts [of sy False t t2 fmt] assms by (auto simp: sys_trigger_fault_facts)
qed (simp add: monitor_idle)

lemma late_check_revokes:
  assumes "wd_is_running (sy_wd sy)" "now_lease t \<le> now_lease t2" "0 \<le> wd_timeout_sec (sy_wd sy)"
    and "wd_last_heartbeat (sy_wd sy) + wd_timeout_sec (sy_wd sy) < now_lease t"
  shows "\<not> is_tx_permitted (sy_sup (monitor_loop_once fmt False sy t t2))"
proof (cases "is_tx_permitted (sy_sup sy)")
  case True
  have "elapsed (sy_wd sy) t > wd_timeout_sec (sy_wd sy)"
    using assms(3,4) by (simp add: elapsed_def)
  then show ?thesis
    using monitor_acts [of sy False t t2 fmt] assms(1,2) True
    by (auto simp: lease_lost_def sys_trigger_fault_facts)
qed (simp add: monitor_keeps_fault)

text \<open>C32. Without heartbeats transmission ends within one check period after the lease: if the monitor
  runs and its checks are at most \<open>d\<close> apart and reach beyond the lease, then some check no later than
  \<open>d\<close> after the end of the lease leaves the supervisor without permission to transmit, and it stays so.\<close>

theorem monitor_reaction_bound:
  assumes "wd_is_running (sy_wd sy)" "0 \<le> wd_timeout_sec (sy_wd sy)"
    and "\<forall>(t, t2) \<in> set ts. now_lease t \<le> now_lease t2"
    and "ts \<noteq> []" "now_lease (fst (hd ts)) \<le> wd_last_heartbeat (sy_wd sy) + wd_timeout_sec (sy_wd sy) + d"
    and "\<forall>i. Suc i < length ts \<longrightarrow> now_lease (fst (ts ! Suc i)) \<le> now_lease (fst (ts ! i)) + d"
    and "wd_last_heartbeat (sy_wd sy) + wd_timeout_sec (sy_wd sy) < now_lease (fst (last ts))"
  shows "\<exists>i < length ts. now_lease (fst (ts ! i)) \<le> wd_last_heartbeat (sy_wd sy) + wd_timeout_sec (sy_wd sy) + d \<and>
    \<not> is_tx_permitted (sy_sup (run_monitor fmt sy (take (Suc i) ts))) \<and>
    \<not> is_tx_permitted (sy_sup (run_monitor fmt sy ts))"
  using assms(3-7)
proof (induction ts)
  case (Cons c ts)
  obtain t t2 where c: "c = (t, t2)" by (cases c)
  let ?sy1 = "monitor_loop_once fmt False sy t t2"
  have le: "now_lease t \<le> now_lease t2" using Cons.prems(1) c by auto
  show ?case
  proof (cases "is_tx_permitted (sy_sup ?sy1)")
    case False
    then show ?thesis using Cons.prems(3) c
      by (intro exI [of _ 0]) (simp add: run_monitor_Cons run_keeps_fault)
  next
    case True
    then have same: "?sy1 = sy" using check_outcome [OF assms(1) le, of fmt] by blast
    have early: "now_lease t \<le> wd_last_heartbeat (sy_wd sy) + wd_timeout_sec (sy_wd sy)"
      using late_check_revokes [OF assms(1) le assms(2), of fmt] True by linarith
    have ne: "ts \<noteq> []" using Cons.prems(5) early c by auto
    have hd_ts: "now_lease (fst (hd ts)) \<le> wd_last_heartbeat (sy_wd sy) + wd_timeout_sec (sy_wd sy) + d"
      using Cons.prems(4) [rule_format, of 0] early ne c by (simp add: hd_conv_nth)
    have gaps: "\<forall>i. Suc i < length ts \<longrightarrow> now_lease (fst (ts ! Suc i)) \<le> now_lease (fst (ts ! i)) + d"
      using Cons.prems(4) by auto
    from Cons.IH [OF _ ne hd_ts gaps] obtain i where i: "i < length ts"
      "now_lease (fst (ts ! i)) \<le> wd_last_heartbeat (sy_wd sy) + wd_timeout_sec (sy_wd sy) + d"
      "\<not> is_tx_permitted (sy_sup (run_monitor fmt sy (take (Suc i) ts)))"
      "\<not> is_tx_permitted (sy_sup (run_monitor fmt sy ts))"
      using Cons.prems(1,5) ne by auto
    then show ?thesis
      by (intro exI [of _ "Suc i"]) (simp add: c run_monitor_Cons same)
  qed
qed simp

section \<open>Who moves the lease\<close>

text \<open>The application forces the supervisor into FAULT when a rollback of its own fails.\<close>

definition sys_force_fault :: "system \<Rightarrow> utext \<Rightarrow> sys_time \<Rightarrow> system" where
  "sys_force_fault sy reason t = with_sup sy (force_fault (sy_sup sy) reason (now_sup t))"

text \<open>The steps of the three components together, at the clock readings \<open>t\<close>.\<close>

inductive sys_step ::
  "(bytes \<Rightarrow> bytes \<Rightarrow> bytes) \<Rightarrow> (rat \<Rightarrow> string) \<Rightarrow> sys_time \<Rightarrow> system \<Rightarrow> system \<Rightarrow> bool" for mac fmt t where
  Heartbeat: "sys_step mac fmt t sy (sy\<lparr>sy_wd := fst (heartbeat (sy_wd sy) tok t)\<rparr>)"
| Rotate: "sys_step mac fmt t sy (sy\<lparr>sy_wd := fst (arm_heartbeat_token (sy_wd sy) new_token)\<rparr>)"
| Bind: "sys_step mac fmt t sy (fst (bind_watchdog sy bound_token))"
| Arm: "target \<in> {ARMED_TX, ACTIVE} \<Longrightarrow> sys_step mac fmt t sy (fst (sys_arm mac target sy info reason auth t))"
| Transit: "sys_step mac fmt t sy (fst (sys_transition sy new_state reason t))"
| Fault: "sys_step mac fmt t sy (sys_trigger_fault sy reason t)"
| Force: "sys_step mac fmt t sy (sys_force_fault sy reason t)"
| Engage: "sys_step mac fmt t sy (sys_engage sy source reason t)"
| EStop: "es_step mac (now_es t) given es es' \<Longrightarrow> sy_estop sy = Some es \<Longrightarrow>
    sys_step mac fmt t sy (sy\<lparr>sy_estop := Some es'\<rparr>)"
| StartMonitor: "sys_step mac fmt t sy (sy\<lparr>sy_wd := watchdog_start (sy_wd sy) t\<rparr>)"
| StopMonitor: "sys_step mac fmt t sy (watchdog_stop sy joined t)"
| Check: "now_lease t \<le> now_lease t2 \<Longrightarrow> sys_step mac fmt t sy (monitor_loop_once fmt force sy t t2)"
| Exit: "sys_step mac fmt t sy (monitor_exit sy t)"
| Teardown: "sys_step mac fmt t sy (on_process_teardown sy t)"

text \<open>The lease only moved back.\<close>

definition lease_back :: "system \<Rightarrow> system \<Rightarrow> bool" where
  "lease_back sy sy' \<longleftrightarrow> wd_last_heartbeat (sy_wd sy') \<le> wd_last_heartbeat (sy_wd sy) \<and>
     wd_timeout_sec (sy_wd sy') = wd_timeout_sec (sy_wd sy)"

lemma lease_back_refl [simp]: "lease_back sy sy"
  by (simp add: lease_back_def)

lemma lease_back_wd [simp]:
  "lease_back sy (sy\<lparr>sy_wd := wd\<rparr>) \<longleftrightarrow>
     wd_last_heartbeat wd \<le> wd_last_heartbeat (sy_wd sy) \<and> wd_timeout_sec wd = wd_timeout_sec (sy_wd sy)"
  by (simp add: lease_back_def)

lemma lease_back_trans: "lease_back a b \<Longrightarrow> lease_back b c \<Longrightarrow> lease_back a c"
  by (simp add: lease_back_def)

lemma lease_back_sup: "0 \<le> wd_timeout_sec (sy_wd sy) \<Longrightarrow> lease_back sy (with_sup sy sv)"
  by (simp add: lease_back_def deliver_lease)

lemma lease_back_fault: "0 \<le> wd_timeout_sec (sy_wd sy) \<Longrightarrow> lease_back sy (sys_trigger_fault sy reason t)"
  unfolding sys_trigger_fault_def by (rule lease_back_sup)

lemma lease_back_engage: "lease_back sy (sys_engage sy source reason t)"
  by (simp add: lease_back_def)

lemma lease_back_monitor:
  assumes "0 \<le> wd_timeout_sec (sy_wd sy)"
  shows "lease_back sy (monitor_loop_once fmt force sy t t2)"
proof -
  have "lease_back sy (sys_engage (sys_trigger_fault sy r t2) s r' t2)" for r s r'
    by (rule lease_back_trans [OF lease_back_fault [OF assms] lease_back_engage])
  then show ?thesis by (simp add: monitor_loop_once_def Let_def)
qed

lemma lease_back_flags:
  "0 \<le> wd_timeout_sec (sy_wd sy) \<Longrightarrow> lease_back sy (watchdog_stop sy joined t)"
  "0 \<le> wd_timeout_sec (sy_wd sy) \<Longrightarrow> lease_back sy (monitor_exit sy t)"
  "0 \<le> wd_timeout_sec (sy_wd sy) \<Longrightarrow> lease_back sy (on_process_teardown sy t)"
proof -
  have via: "lease_back sy (sys_engage (sys_trigger_fault s1 r t) s r' t)"
    if "lease_back sy s1" "0 \<le> wd_timeout_sec (sy_wd s1)" for s1 r s r'
    using that lease_back_trans lease_back_fault lease_back_engage by blast
  assume ok: "0 \<le> wd_timeout_sec (sy_wd sy)"
  show "lease_back sy (watchdog_stop sy joined t)"
    unfolding watchdog_stop_def Let_def
    by (cases "wd_thread_alive (sy_wd sy) \<and> \<not> joined") (auto intro!: via simp: ok)
  show "lease_back sy (monitor_exit sy t)"
    unfolding monitor_exit_def Let_def
    by (cases "wd_is_running (sy_wd sy)") (auto intro!: via simp: ok)
  have "lease_back sy (sys_trigger_fault (sys_engage sy s r' t) r t)" for s r' r
    by (rule lease_back_trans [OF lease_back_engage lease_back_fault]) (simp add: ok)
  then show "lease_back sy (on_process_teardown sy t)"
    unfolding on_process_teardown_def Let_def using lease_back_engage by simp
qed

text \<open>What a re-anchoring needs.\<close>

definition renewed :: "sys_time \<Rightarrow> system \<Rightarrow> system \<Rightarrow> bool" where
  "renewed t sy sy' \<longleftrightarrow> wd_last_heartbeat (sy_wd sy') = now_lease t \<and>
     wd_last_wall_ns (sy_wd sy') = now_wall t \<and>
     ((\<exists>tok. token_is_valid (sy_wd sy) tok = Inr True) \<or>
      \<not> wd_started_once (sy_wd sy) \<and> wd_started_once (sy_wd sy'))"

lemma anchor_outcome:
  assumes "anchor_watchdog_lease_for_arm sy t = (sy', r)"
  shows "sy' = sy \<or> (sy' = sy\<lparr>sy_wd := re_anchor (sy_wd sy) t\<rparr> \<and> (\<exists>tok. token_is_valid (sy_wd sy) tok = Inr True))"
  using assms
  by (auto simp: anchor_watchdog_lease_for_arm_def anchor_lease_for_arm_def act_bind_def
      split: if_splits sum.splits prod.splits)

lemma token_is_valid_deliver [simp]: "token_is_valid (deliver a b wd) = token_is_valid wd"
  by (simp add: token_is_valid_def fun_eq_iff)

text \<open>Only a token holder, an arming on behalf of one, or the very first start of the monitor moves
  the lease forward, and then exactly to the present: every other step of supervisor, emergency stop
  and watchdog leaves it where it was or moves it back.\<close>

theorem lease_needs_token:
  assumes "sys_step mac fmt t sy sy'" "0 \<le> wd_timeout_sec (sy_wd sy)"
  shows "wd_last_heartbeat (sy_wd sy') \<le> wd_last_heartbeat (sy_wd sy) \<or> renewed t sy sy'"
  using assms(1)
proof (cases rule: sys_step.cases)
  case (Heartbeat tok)
  then show ?thesis
    by (cases "token_is_valid (sy_wd sy) tok") (auto simp: heartbeat_def re_anchor_def renewed_def)
next
  case (Arm target info reason auth)
  obtain sv r where a: "arm_to mac target (sy_sup sy) (estop_flags sy) info reason auth (now_sup t) = (sv, r)"
    by fastforce
  have older: "lease_back sy (with_sup sy sv)" by (rule lease_back_sup [OF assms(2)])
  show ?thesis
  proof (cases r)
    case (Inl e)
    then show ?thesis using older by (simp add: Arm sys_arm_def a lease_back_def)
  next
    case (Inr u)
    obtain sy2 r2 where an: "anchor_watchdog_lease_for_arm (with_sup sy sv) t = (sy2, r2)" by fastforce
    then have "sy' = sy2" by (simp add: Arm sys_arm_def a Inr)
    then show ?thesis using anchor_outcome [OF an] older
      by (auto simp: lease_back_def renewed_def re_anchor_def)
  qed
next
  case StartMonitor
  then show ?thesis by (auto simp: watchdog_start_def Let_def re_anchor_def renewed_def)
next
  case (Transit new_state reason)
  then show ?thesis using lease_back_sup [OF assms(2)]
    by (auto simp: sys_transition_def lease_back_def split: prod.splits)
next
  case (Bind bound_token)
  then show ?thesis
    by (auto simp: bind_watchdog_def arm_heartbeat_token_def act_bind_def Let_def split: option.splits)
next
  case (Rotate new_token)
  then show ?thesis by (simp add: arm_heartbeat_token_def)
next
  case (Fault reason)
  then show ?thesis using lease_back_fault [OF assms(2)] by (simp add: lease_back_def)
next
  case (Force reason)
  then show ?thesis using lease_back_sup [OF assms(2)] by (simp add: sys_force_fault_def lease_back_def)
next
  case (Check t2 force)
  then show ?thesis using lease_back_monitor [OF assms(2)] by (simp add: lease_back_def)
qed (use lease_back_flags [OF assms(2)] in \<open>simp_all add: lease_back_def\<close>)


section \<open>Every way out of transmission kills the lease\<close>

text \<open>The calls an operation logged, and that leaving the transmitting states is among them.\<close>

definition announced :: "supervisor \<Rightarrow> supervisor \<Rightarrow> bool" where
  "announced a b \<longleftrightarrow> sv_callbacks b = sv_callbacks a \<and>
     (\<exists>ys. sv_calls b = sv_calls a @ ys \<and>
       (is_tx_permitted a \<and> \<not> is_tx_permitted b \<and> WATCHDOG \<in> set (sv_callbacks a) \<longrightarrow>
        (\<exists>old s r. (WATCHDOG, old, s, r) \<in> set ys \<and> s \<notin> {ARMED_TX, ACTIVE})))"

lemma announced_same:
  "sv_state b = sv_state a \<Longrightarrow> sv_callbacks b = sv_callbacks a \<Longrightarrow> sv_calls b = sv_calls a \<Longrightarrow> announced a b"
  by (auto simp: announced_def is_tx_permitted_def)

lemma announced_refl [simp]: "announced a a"
  by (simp add: announced_same)

lemma announced_trans:
  assumes "announced a b" "announced b c"
  shows "announced a c"
proof -
  obtain ys where ys: "sv_calls b = sv_calls a @ ys"
    "is_tx_permitted a \<and> \<not> is_tx_permitted b \<and> WATCHDOG \<in> set (sv_callbacks a) \<longrightarrow>
        (\<exists>old s r. (WATCHDOG, old, s, r) \<in> set ys \<and> s \<notin> {ARMED_TX, ACTIVE})"
    using assms(1) by (auto simp: announced_def)
  obtain zs where zs: "sv_calls c = sv_calls b @ zs"
    "is_tx_permitted b \<and> \<not> is_tx_permitted c \<and> WATCHDOG \<in> set (sv_callbacks b) \<longrightarrow>
        (\<exists>old s r. (WATCHDOG, old, s, r) \<in> set zs \<and> s \<notin> {ARMED_TX, ACTIVE})"
    using assms(2) by (auto simp: announced_def)
  have "sv_callbacks b = sv_callbacks a" "sv_callbacks c = sv_callbacks b"
    using assms by (simp_all add: announced_def)
  then show ?thesis unfolding announced_def
    by (intro conjI exI [of _ "ys @ zs"]) (use ys zs in auto)
qed

lemma announced_entered: "entered a b s r t \<Longrightarrow> announced a b"
  unfolding announced_def entered_def is_tx_permitted_def
  by (intro conjI exI [of _ "map (\<lambda>cb. (cb, sv_state a, s, r)) (sv_callbacks a)"]) auto

lemma announced_transition: "transition_to st eng s r t = (st', res) \<Longrightarrow> announced st st'"
  using transition_moved [of st eng s r t st' res] announced_entered by (auto simp: moved_def)

lemma fault_logged_callbacks: "announced st (fault_logged st t)"
  by (rule announced_same) (simp_all add: fault_logged_def Let_def record_fault_event_def)

lemma announced_force: "announced st (force_fault st r t)"
proof (cases "sv_state st = FAULT \<and> sv_fault_reason st = sanitize_reason r")
  case False
  have "entered st (force_fault st r t) FAULT (sanitize_reason r) t"
    using False unfolding force_fault_def Let_def if_not_P [OF False] entered_def
    by (simp add: sv_fields)
  then show ?thesis by (rule announced_entered)
qed (simp add: force_fault_def Let_def)

lemma announced_fault: "trigger_fault st eng r t = (st', res) \<Longrightarrow> announced st st'"
  unfolding trigger_fault_eq using announced_transition announced_trans [OF fault_logged_callbacks] by blast

lemma announced_ledger: "announced st (prune_consumed_arm_tokens st t)" "announced st (record_consumed_arm_token st p)"
  by (rule announced_same;
      simp add: prune_consumed_arm_tokens_def record_consumed_arm_token_def split: prod.splits)+

lemma announced_arm:
  assumes "arm_to mac target st ev info reason tok t = (st', res)"
  shows "announced st st'"
proof -
  obtain st1 r1 where c: "arm_check mac st ev info tok t = (st1, r1)" by fastforce
  have a1: "announced st st1"
    using arm_check_outcome [OF c] announced_ledger(1) announced_fault by (auto simp: announced_refl)
  show ?thesis
  proof (cases r1)
    case (Inl e)
    then show ?thesis using assms a1 by (simp add: arm_to_def c)
  next
    case (Inr pending)
    obtain st2 r2 where tr: "transition_to st1 (ev_engaged ev) target reason t = (st2, r2)" by fastforce
    have a2: "announced st st2" by (rule announced_trans [OF a1 announced_transition [OF tr]])
    show ?thesis
    proof (cases r2)
      case (Inl e)
      then show ?thesis using assms a2 by (simp add: arm_to_def c Inr tr)
    next
      case r2: (Inr u)
      have b: "arm_burn st2 pending t = (st', res)" using assms by (simp add: arm_to_def c Inr tr r2)
      have "announced st2 st'"
        using burn_outcome [OF b] announced_ledger(1) [of st2 t]
          announced_trans [OF announced_ledger(1) announced_ledger(2)]
        by (elim disjE exE conjE) simp_all
      then show ?thesis using a2 announced_trans by blast
    qed
  qed
qed

text \<open>The lease after an announced departure.\<close>

definition lease_killed :: "system \<Rightarrow> system \<Rightarrow> bool" where
  "lease_killed sy sy' \<longleftrightarrow> wd_timeout_sec (sy_wd sy') = wd_timeout_sec (sy_wd sy) \<and>
     wd_last_heartbeat (sy_wd sy') \<le> wd_last_heartbeat (sy_wd sy) - (wd_timeout_sec (sy_wd sy) + 1)"

lemma killed_announced:
  assumes "announced (sy_sup sy) sv" "is_tx_permitted (sy_sup sy)" "\<not> is_tx_permitted sv"
    "WATCHDOG \<in> set (sv_callbacks (sy_sup sy))" "0 \<le> wd_timeout_sec (sy_wd sy)"
  shows "lease_killed sy (with_sup sy sv)"
proof -
  obtain ys old s r where "sv_calls sv = sv_calls (sy_sup sy) @ ys" "(WATCHDOG, old, s, r) \<in> set ys"
    "s \<notin> {ARMED_TX, ACTIVE}"
    using assms(1-4) unfolding announced_def by blast
  then show ?thesis using deliver_calls_kills [OF assms(5), of old s r ys]
    by (simp add: lease_killed_def deliver_def deliver_calls_fields)
qed

lemma killed_fault:
  "is_tx_permitted (sy_sup sy) \<Longrightarrow> WATCHDOG \<in> set (sv_callbacks (sy_sup sy)) \<Longrightarrow> 0 \<le> wd_timeout_sec (sy_wd sy) \<Longrightarrow>
   lease_killed sy (sys_trigger_fault sy r t)"
  using fault_kills_lease by (simp add: lease_killed_def sys_trigger_fault_facts)

lemma killed_via:
  "lease_killed s1 s2 \<Longrightarrow> wd_timeout_sec (sy_wd s1) = wd_timeout_sec (sy_wd s0) \<Longrightarrow>
   wd_last_heartbeat (sy_wd s1) = wd_last_heartbeat (sy_wd s0) \<Longrightarrow>
   lease_killed s0 (sys_engage s2 s r t)"
  by (simp add: lease_killed_def)

lemma leaving_kills:
  assumes "sys_step mac fmt t sy sy'" "is_tx_permitted (sy_sup sy)" "\<not> is_tx_permitted (sy_sup sy')"
    and reg: "WATCHDOG \<in> set (sv_callbacks (sy_sup sy))" and pos: "0 \<le> wd_timeout_sec (sy_wd sy)"
  shows "lease_killed sy sy'"
  using assms(1)
proof (cases rule: sys_step.cases)
  case (Arm target info reason auth)
  obtain sv r where a: "arm_to mac target (sy_sup sy) (estop_flags sy) info reason auth (now_sup t) = (sv, r)"
    by fastforce
  show ?thesis
  proof (cases r)
    case (Inl e)
    then have "sy' = with_sup sy sv" by (simp add: Arm sys_arm_def a)
    then show ?thesis using killed_announced [OF announced_arm [OF a] assms(2) _ reg pos] assms(3) by simp
  next
    case (Inr u)
    obtain sy2 r2 where an: "anchor_watchdog_lease_for_arm (with_sup sy sv) t = (sy2, r2)" by fastforce
    then have "sy' = sy2" by (simp add: Arm sys_arm_def a Inr)
    then have "sy_sup sy' = sv" using anchor_outcome [OF an] by auto
    moreover have "sv_state sv = target"
    proof -
      obtain st1 st2 pending where tr: "transition_to st1 (ev_engaged (estop_flags sy)) target reason (now_sup t) = (st2, Inr ())"
        and b: "arm_burn st2 pending (now_sup t) = (sv, Inr ())"
        using a Inr by (auto simp: arm_to_def act_bind_Inr)
      have "sv_state st2 = target" using tr by (cases rule: transition_cases) (simp_all add: entered_def)
      then show ?thesis using burn_trail [OF b] by (simp add: trail_kept_def)
    qed
    ultimately have False using assms(3) Arm by (auto simp: is_tx_permitted_def)
    then show ?thesis ..
  qed
next
  case (Transit new_state reason)
  obtain sv r where tr: "transition_to (sy_sup sy) (sys_engaged sy) new_state reason (now_sup t) = (sv, r)" by fastforce
  then have "sy' = with_sup sy sv" by (simp add: Transit sys_transition_def)
  then show ?thesis using killed_announced [OF announced_transition [OF tr] assms(2) _ reg pos] assms(3) by simp
next
  case (Fault reason)
  then show ?thesis using killed_fault [OF assms(2) reg pos] by simp
next
  case (Force reason)
  then have "sy' = with_sup sy (force_fault (sy_sup sy) reason (now_sup t))" by (simp add: sys_force_fault_def)
  then show ?thesis using killed_announced [OF announced_force assms(2) _ reg pos] assms(3) by simp
next
  case (StopMonitor joined)
  then show ?thesis
    using assms(2,3) reg pos unfolding watchdog_stop_def Let_def
    by (auto intro!: killed_via [OF killed_fault] split: if_splits)
next
  case Exit
  then show ?thesis
    using assms(2,3) reg pos unfolding monitor_exit_def Let_def
    by (auto intro!: killed_via [OF killed_fault] split: if_splits)
next
  case (Check t2 force)
  show ?thesis
  proof (cases "monitor_loop_once fmt force sy t t2 = sy")
    case True
    then show ?thesis using assms(2,3) Check by simp
  next
    case False
    then obtain r s r' where "monitor_loop_once fmt force sy t t2 = sys_engage (sys_trigger_fault sy r t2) s r' t2"
      unfolding monitor_loop_once_def Let_def by (auto split: if_splits)
    then show ?thesis using Check killed_via [OF killed_fault [OF assms(2) reg pos]] by simp
  qed
next
  case Teardown
  then show ?thesis
    using assms(2,3) reg pos killed_fault [of "sys_engage sy PROCESS_TERMINATION r t" for r]
    unfolding on_process_teardown_def Let_def
    by (auto simp: lease_killed_def split: if_splits)
qed (use assms(2,3) in \<open>simp_all add: bind_watchdog_def arm_heartbeat_token_def act_bind_def Let_def
  split: option.splits if_splits\<close>)


text \<open>C33. Every way out of the transmitting states kills the lease: a fault, a forced fault, an illegal
  request, the return to PASSIVE, an unsafe clock found while arming, the monitor itself, a wedged stop.
  The state the step leaves has a lease that is invalid at every reading not before its last heartbeat;
  so it stays until a heartbeat with the token, or an arming on behalf of its holder, anchors it anew
  (\<open>lease_needs_token\<close>).\<close>

theorem leaving_tx_kills_lease:
  assumes "sys_step mac fmt t sy sy'" "is_tx_permitted (sy_sup sy)" "\<not> is_tx_permitted (sy_sup sy')"
    and "WATCHDOG \<in> set (sv_callbacks (sy_sup sy))" "0 \<le> wd_timeout_sec (sy_wd sy)"
    and "wd_last_heartbeat (sy_wd sy) \<le> now_lease t3"
  shows "\<not> is_lease_valid (sy_wd sy') t3"
  using leaving_kills [OF assms(1-5)] assms(5,6)
  by (intro dead_lease [where h = "wd_last_heartbeat (sy_wd sy)"]) (simp_all add: lease_killed_def)

text \<open>A completed arming has a live lease exactly when the monitor runs: with the watchdog bound and
  its token registered, \<open>arm_tx\<close> or \<open>activate_tx\<close> leaves transmission permitted, and the lease valid if
  supervision is on; without supervision transmission is permitted but no lease is.\<close>

theorem armed_lease_valid:
  assumes "sys_arm mac target sy info reason tok t = (sy', Inr ())" "target \<in> {ARMED_TX, ACTIVE}"
    and "sy_bound sy" "wd_heartbeat_token (sy_wd sy) = token" "token \<noteq> []" "\<forall>c \<in> set token. code c < 128"
    and "sy_bound_token sy \<in> {None, Some [], Some token}" "0 \<le> wd_timeout_sec (sy_wd sy)"
  shows "is_tx_permitted (sy_sup sy') \<and> (is_lease_valid (sy_wd sy') t \<longleftrightarrow> wd_is_running (sy_wd sy))"
proof -
  obtain sv u where a: "arm_to mac target (sy_sup sy) (estop_flags sy) info reason tok (now_sup t) = (sv, Inr u)"
    and an: "anchor_watchdog_lease_for_arm (with_sup sy sv) t = (sy', Inr ())"
    using assms(1) by (auto simp: sys_arm_def split: prod.splits sum.splits)
  obtain st1 st2 pending where tr: "transition_to st1 (ev_engaged (estop_flags sy)) target reason (now_sup t) = (st2, Inr ())"
    and b: "arm_burn st2 pending (now_sup t) = (sv, Inr ())"
    using a by (auto simp: arm_to_def act_bind_Inr)
  have "sv_state st2 = target" using tr by (cases rule: transition_cases) (simp_all add: entered_def)
  then have "sv_state sv = target" using burn_trail [OF b] by (simp add: trail_kept_def)
  moreover have "sy_sup sy' = sv" using anchor_outcome [OF an] by auto
  ultimately have tx: "is_tx_permitted (sy_sup sy')" using assms(2) by (auto simp: is_tx_permitted_def)
  define wd where "wd = deliver (sy_sup sy) sv (sy_wd sy)"
  have wd: "wd_heartbeat_token wd = token" "wd_is_running wd = wd_is_running (sy_wd sy)"
    "wd_timeout_sec wd = wd_timeout_sec (sy_wd sy)"
    using assms(4) by (simp_all add: wd_def)
  have "current_watchdog_heartbeat_token (with_sup sy sv) = Some token"
    using assms(5,7) wd(1) by (auto simp: current_watchdog_heartbeat_token_def wd_def)
  moreover have "token_is_valid wd (Some token) = Inr True"
    using assms(5,6) wd(1) by (auto simp: token_is_valid_def compare_digest_def not_le)
  ultimately have "sy_wd sy' = (if wd_is_running wd \<and> elapsed wd t > wd_timeout_sec wd then re_anchor wd t else wd)"
    using an assms(3) by (auto simp: anchor_watchdog_lease_for_arm_def anchor_lease_for_arm_def wd_def [symmetric]
        split: if_splits)
  then have "is_lease_valid (sy_wd sy') t \<longleftrightarrow> wd_is_running (sy_wd sy)"
    using assms(8) wd by (auto simp: is_lease_valid_def re_anchor_def elapsed_def)
  then show ?thesis using tx by blast
qed

section \<open>Concrete sessions\<close>

definition wd_demo_time :: "rat \<Rightarrow> sys_time" where
  "wd_demo_time s = \<lparr>now_lease = s, now_wall = 0, now_sup = demo_at 9, now_es = es_demo_time,
     fresh_nonce = es_demo_nonce\<rparr>"

definition wd_demo :: watchdog where
  "wd_demo = \<lparr>wd_timeout_sec = 4 / 5, wd_last_heartbeat = 0, wd_last_wall_ns = 0, wd_is_running = True,
     wd_started_once = True, wd_thread_alive = True, wd_heartbeat_token = ''t'', wd_stop_event = False,
     wd_teardown_registered = True\<rparr>"

definition sys_demo :: "supervisor \<Rightarrow> system" where
  "sys_demo sv = \<lparr>sy_sup = register_callback sv WATCHDOG, sy_estop = Some es_demo_idle, sy_wd = wd_demo,
     sy_bound = True, sy_bound_token = None\<rparr>"

lemma sys_demo_fields [simp]:
  "sy_wd (sys_demo sv) = wd_demo" "sy_estop (sys_demo sv) = Some es_demo_idle"
  "sy_sup (sys_demo sv) = register_callback sv WATCHDOG" "sy_bound (sys_demo sv)"
  "sy_bound_token (sys_demo sv) = None"
  "WATCHDOG \<in> set (sv_callbacks (register_callback sv WATCHDOG))"
  "is_tx_permitted (register_callback sv cb) = is_tx_permitted sv"
  "sv_state (register_callback sv cb) = sv_state sv"
  by (simp_all add: sys_demo_def register_callback_def is_tx_permitted_def)

lemma wd_demo_fields [simp]:
  "wd_timeout_sec wd_demo = 4 / 5" "wd_last_heartbeat wd_demo = 0" "wd_is_running wd_demo"
  "wd_heartbeat_token wd_demo = ''t''" "now_lease (wd_demo_time s) = s" "elapsed wd_demo (wd_demo_time s) = max 0 s"
  by (simp_all add: wd_demo_def wd_demo_time_def elapsed_def)

lemma demo_armed [simp]: "is_tx_permitted (fst demo_arm)"
  using demo_arm_ok by (simp add: is_tx_permitted_def)

theorem lease_expiry_revokes_witness:
  "let sy' = monitor_loop_once (\<lambda>_. []) False (sys_demo (fst demo_arm)) (wd_demo_time 1) (wd_demo_time 1) in
    is_fault (sy_sup sy') \<and> \<not> is_tx_permitted (sy_sup sy') \<and> sys_engaged sy' \<and>
    \<not> is_lease_valid (sy_wd sy') (wd_demo_time 2)"
  using lease_expiry_revokes [of "sys_demo (fst demo_arm)" False "wd_demo_time 1" "wd_demo_time 1" "\<lambda>_. []"]
  by (simp add: lease_lost_def Let_def)

theorem monitor_reaction_bound_witness:
  "\<exists>i < length [(wd_demo_time (1 / 2), wd_demo_time (1 / 2)), (wd_demo_time 1, wd_demo_time 1)].
    \<not> is_tx_permitted (sy_sup (run_monitor (\<lambda>_. []) (sys_demo (fst demo_arm))
      (take (Suc i) [(wd_demo_time (1 / 2), wd_demo_time (1 / 2)), (wd_demo_time 1, wd_demo_time 1)])))"
  using monitor_reaction_bound [of "sys_demo (fst demo_arm)"
      "[(wd_demo_time (1 / 2), wd_demo_time (1 / 2)), (wd_demo_time 1, wd_demo_time 1)]" "1 / 2" "\<lambda>_. []"]
  by auto

theorem lease_needs_token_witness:
  "wd_last_heartbeat (sy_wd (sys_demo demo_sup\<lparr>sy_wd := fst (heartbeat wd_demo (Some ''t'') (wd_demo_time 1))\<rparr>)) \<le> 0 \<or>
   renewed (wd_demo_time 1) (sys_demo demo_sup)
     (sys_demo demo_sup\<lparr>sy_wd := fst (heartbeat wd_demo (Some ''t'') (wd_demo_time 1))\<rparr>)"
  using lease_needs_token [OF Heartbeat [of demo_mac "\<lambda>_. []" "wd_demo_time 1" "sys_demo demo_sup" "Some ''t''"]]
  by simp

theorem leaving_tx_kills_lease_witness:
  "\<not> is_lease_valid (sy_wd (sys_trigger_fault (sys_demo (fst demo_arm)) [] (wd_demo_time 0))) (wd_demo_time 0)"
  by (rule leaving_tx_kills_lease [OF Fault [of demo_mac "\<lambda>_. []"]])
    (simp_all add: sys_trigger_fault_facts)

lemma sys_demo_arms:
  "\<exists>sy'. sys_arm demo_mac ARMED_TX (sys_demo demo_sup) (Inr demo_clock) [] (Some demo_token) (wd_demo_time 3) = (sy', Inr ())"
proof -
  have sv: "sv_consumed (register_callback demo_sup WATCHDOG) = []"
    "sv_auth_secret (register_callback demo_sup WATCHDOG) = Some [7]"
    "ledger_ok (register_callback demo_sup WATCHDOG)"
    using same_ledger_ok [of demo_sup "register_callback demo_sup WATCHDOG"]
    by (simp_all add: register_callback_def same_ledger_def)
  have "\<exists>st2. arm_to demo_mac ARMED_TX (register_callback demo_sup WATCHDOG) (estop_flags (sys_demo demo_sup))
      (Inr demo_clock) [] (Some demo_token) (demo_at 9) = (st2, Inr ()) \<and> sv_state st2 = ARMED_TX"
    by (rule arm_succeeds [where mac = demo_mac and secret = "[7]" and n = demo_nonce, OF demo_token_parse])
      (simp_all add: demo_mac_length sv demo_clock_def estop_flags_def es_demo_idle_def blank_estop_def
        del: le_bytes.simps)
  then obtain st2 where arm: "arm_to demo_mac ARMED_TX (register_callback demo_sup WATCHDOG) (estop_flags (sys_demo demo_sup))
      (Inr demo_clock) [] (Some demo_token) (demo_at 9) = (st2, Inr ())" by blast
  have "wd_heartbeat_token (sy_wd (with_sup (sys_demo demo_sup) st2)) = ''t''" by simp
  then have "snd (anchor_watchdog_lease_for_arm (with_sup (sys_demo demo_sup) st2) (wd_demo_time 3)) = Inr ()"
    by (simp add: anchor_watchdog_lease_for_arm_def anchor_lease_for_arm_def token_is_valid_def compare_digest_def
        current_watchdog_heartbeat_token_def)
  then show ?thesis
    by (simp add: sys_arm_def arm wd_demo_time_def) (metis prod.collapse)
qed

theorem armed_lease_valid_witness:
  "is_tx_permitted (sy_sup (fst (sys_arm demo_mac ARMED_TX (sys_demo demo_sup) (Inr demo_clock) [] (Some demo_token) (wd_demo_time 3)))) \<and>
   (is_lease_valid (sy_wd (fst (sys_arm demo_mac ARMED_TX (sys_demo demo_sup) (Inr demo_clock) [] (Some demo_token) (wd_demo_time 3))))
      (wd_demo_time 3) \<longleftrightarrow> wd_is_running (sy_wd (sys_demo demo_sup)))"
proof -
  obtain sy' where s: "sys_arm demo_mac ARMED_TX (sys_demo demo_sup) (Inr demo_clock) [] (Some demo_token) (wd_demo_time 3)
      = (sy', Inr ())" using sys_demo_arms by blast
  show ?thesis
    using armed_lease_valid [OF s, of "''t''"] by (simp add: s)
qed

end
