(* ===== verification/IsoTp.thy ===== *)
theory IsoTp
  imports CanFrame
begin

text \<open>
  \<open>src/protocols/uds/isotp.py\<close>, ISO 15765-2 transport: the constants, the socket option block,
  the pacing byte, and the synchronous engine \<open>IsoTpTransport\<close> (segmentation, reassembly, flow
  control answers, the session table). A method that raises returns the state it had reached.
  Time is a parameter of each call: \<open>now\<close> stands for \<open>time.monotonic()\<close> and \<open>ns\<close> for the
  \<open>time.monotonic_ns()\<close> that stamps an emitted frame. The lock and the logging are dropped; the
  asynchronous state machines are in IsoTpAsync.
\<close>

section \<open>Constants\<close>

definition CAN_ISOTP_TX_PADDING :: int where "CAN_ISOTP_TX_PADDING = 0x004"
definition CAN_ISOTP_RX_PADDING :: int where "CAN_ISOTP_RX_PADDING = 0x008"
definition CAN_ISOTP_WAIT_TX_DONE :: int where "CAN_ISOTP_WAIT_TX_DONE = 0x400"

definition PCI_SINGLE_FRAME :: int where "PCI_SINGLE_FRAME = 0x0"
definition PCI_FIRST_FRAME :: int where "PCI_FIRST_FRAME = 0x1"
definition PCI_CONSECUTIVE_FRAME :: int where "PCI_CONSECUTIVE_FRAME = 0x2"
definition PCI_FLOW_CONTROL :: int where "PCI_FLOW_CONTROL = 0x3"

definition FS_CTS :: int where "FS_CTS = 0"
definition FS_WAIT :: int where "FS_WAIT = 1"
definition FS_OVERFLOW :: int where "FS_OVERFLOW = 2"

definition MAX_UDS_PAYLOAD_CLASSIC :: nat where "MAX_UDS_PAYLOAD_CLASSIC = 4096"
definition MAX_UDS_PAYLOAD_FD :: nat where "MAX_UDS_PAYLOAD_FD = 1048576"
definition MAX_RX_SESSIONS :: nat where "MAX_RX_SESSIONS = 512"
definition ISOTP_TIMEOUT_SEC :: seconds where "ISOTP_TIMEOUT_SEC = 1"

lemmas pci_defs = PCI_SINGLE_FRAME_def PCI_FIRST_FRAME_def PCI_CONSECUTIVE_FRAME_def
  PCI_FLOW_CONTROL_def

section \<open>The socket option block\<close>

text \<open>\<open>struct can_isotp_options\<close>, packed as \<open>=IIBBBB\<close>: two 32-bit fields in the byte order of the
  host, taken to be little-endian, and four bytes.\<close>

record isotp_opts =
  opt_flags :: int
  opt_frame_txtime :: int
  opt_ext_address :: int
  opt_txpad_content :: int
  opt_rxpad_content :: int
  opt_rx_ext_address :: int

definition opts_default :: isotp_opts where
  "opts_default = \<lparr>opt_flags = 0, opt_frame_txtime = 0, opt_ext_address = 0,
     opt_txpad_content = 0xCC, opt_rxpad_content = 0xCC, opt_rx_ext_address = 0\<rparr>"

definition STRUCT_SIZE :: nat where "STRUCT_SIZE = 12"

definition opts_pack :: "isotp_opts \<Rightarrow> bytes" where
  "opts_pack p =
     le_bytes 4 (opt_flags p AND 0xFFFFFFFF) @ le_bytes 4 (opt_frame_txtime p AND 0xFFFFFFFF) @
     [word_of_int (opt_ext_address p AND 0xFF), word_of_int (opt_txpad_content p AND 0xFF),
      word_of_int (opt_rxpad_content p AND 0xFF), word_of_int (opt_rx_ext_address p AND 0xFF)]"

definition opts_unpack :: "bytes \<Rightarrow> isotp_opts py" where
  "opts_unpack d =
     (if length d < STRUCT_SIZE then Inl ValueError
      else let s = take STRUCT_SIZE d in
        Inr \<lparr>opt_flags = from_le (take 4 s), opt_frame_txtime = from_le (take 4 (drop 4 s)),
             opt_ext_address = byte_at s 8, opt_txpad_content = byte_at s 9,
             opt_rxpad_content = byte_at s 10, opt_rx_ext_address = byte_at s 11\<rparr>)"

definition wait_flag :: "bool \<Rightarrow> int \<Rightarrow> int" where
  "wait_flag enable flags =
     (if enable then flags OR CAN_ISOTP_WAIT_TX_DONE else flags AND NOT CAN_ISOTP_WAIT_TX_DONE)"

definition with_wait_tx_done :: "isotp_opts \<Rightarrow> bool \<Rightarrow> isotp_opts" where
  "with_wait_tx_done p enable = p\<lparr>opt_flags := wait_flag enable (opt_flags p)\<rparr>"

text \<open>\<open>configure_socketcan_isotp_socket\<close>. What the source asks a socket object: an
  \<open>isotp.socket\<close> with \<open>set_opts\<close> and the \<open>optflag\<close> that \<open>get_opts\<close> yields, when it does; a socket
  with \<open>setsockopt\<close> and the bytes \<open>getsockopt\<close> yields, when it does; or neither. The result is what
  is written to the socket with the block the call returns.\<close>

datatype isotp_socket =
    Set_Opts "int option"
  | Set_Sock_Opt "bytes option"
  | Other_Object

record isotp_kwargs =
  kw_optflag :: int
  kw_frame_txtime :: "int option"
  kw_ext_address :: "int option"
  kw_txpad :: int
  kw_rxpad :: int
  kw_rx_ext_address :: "int option"

datatype isotp_written = Kwargs isotp_kwargs | Packed bytes

definition config_flags :: "bool \<Rightarrow> bool \<Rightarrow> bool \<Rightarrow> int \<Rightarrow> int" where
  "config_flags wait_done tx_padding rx_padding present =
     (let f = wait_flag wait_done present;
          f = (if tx_padding then f OR CAN_ISOTP_TX_PADDING else f)
      in if rx_padding then f OR CAN_ISOTP_RX_PADDING else f)"

definition configure_socketcan_isotp_socket ::
  "isotp_socket \<Rightarrow> bool \<Rightarrow> bool \<Rightarrow> bool \<Rightarrow> int \<Rightarrow> int option \<Rightarrow> int \<Rightarrow> int \<Rightarrow> int option \<Rightarrow>
   (isotp_written \<times> isotp_opts) py" where
  "configure_socketcan_isotp_socket sock wait_done tx_padding rx_padding txtime ext txpad rxpad rx_ext =
     (case sock of
        Set_Opts present \<Rightarrow>
          (let f = config_flags wait_done tx_padding rx_padding
                     (case present of Some x \<Rightarrow> x | None \<Rightarrow> 0) in
           Inr (Kwargs \<lparr>kw_optflag = f, kw_frame_txtime = (if txtime \<noteq> 0 then Some txtime else None),
                  kw_ext_address = ext, kw_txpad = txpad, kw_rxpad = rxpad, kw_rx_ext_address = rx_ext\<rparr>,
                \<lparr>opt_flags = f, opt_frame_txtime = txtime,
                 opt_ext_address = (case ext of Some a \<Rightarrow> a | None \<Rightarrow> 0),
                 opt_txpad_content = txpad, opt_rxpad_content = rxpad,
                 opt_rx_ext_address = (case rx_ext of Some a \<Rightarrow> a | None \<Rightarrow> 0)\<rparr>))
      | Set_Sock_Opt raw \<Rightarrow>
          (let existing = (case raw of None \<Rightarrow> opts_default
                           | Some bs \<Rightarrow> (case opts_unpack bs of Inr p \<Rightarrow> p | Inl _ \<Rightarrow> opts_default));
               p = \<lparr>opt_flags = config_flags wait_done tx_padding rx_padding (opt_flags existing),
                    opt_frame_txtime = (if txtime \<noteq> 0 then txtime else opt_frame_txtime existing),
                    opt_ext_address = (case ext of Some a \<Rightarrow> a | None \<Rightarrow> opt_ext_address existing),
                    opt_txpad_content = txpad, opt_rxpad_content = rxpad,
                    opt_rx_ext_address = (case rx_ext of Some a \<Rightarrow> a | None \<Rightarrow> opt_rx_ext_address existing)\<rparr>
           in Inr (Packed (opts_pack p), p))
      | Other_Object \<Rightarrow> Inl TypeError)"

section \<open>Pacing and padding\<close>

text \<open>\<open>decode_st_min\<close>, in milliseconds.\<close>

definition decode_st_min :: "int \<Rightarrow> rat" where
  "decode_st_min b =
     (if 0x00 \<le> b \<and> b \<le> 0x7F then of_int b
      else if 0xF1 \<le> b \<and> b \<le> 0xF9 then of_int (b - 0xF0) / 10
      else 10)"

definition normalize_can_payload :: "bytes \<Rightarrow> bool \<Rightarrow> int option \<Rightarrow> bytes py" where
  "normalize_can_payload d fd pad =
     (case pad of None \<Rightarrow> Inr d
      | Some p \<Rightarrow>
          (let n = int (length d) in
           if fd then
             py_bind (length_to_dlc n) (\<lambda>dlc. py_bind (dlc_to_length dlc) (\<lambda>expected_len.
               if n < expected_len
               then py_bind (byte_of p) (\<lambda>b. Inr (d @ replicate (nat (expected_len - n)) b))
               else Inr d))
           else if n < 8 then py_bind (byte_of p) (\<lambda>b. Inr (d @ replicate (nat (8 - n)) b))
           else Inr d))"

section \<open>The synchronous transport\<close>

datatype addressing_mode = NORMAL | EXTENDED | MIXED

record rx_session =
  rxs_rx_id :: int
  rxs_total_bytes :: int
  rxs_expected_sequence_number :: int
  rxs_received_bytes :: bytes
  rxs_block_size :: int
  rxs_st_min_ms :: rat
  rxs_last_activity_time :: seconds
  rxs_channel_id :: string
  rxs_tx_id :: int
  rxs_is_fd :: bool
  rxs_max_buffer_size :: int
  rxs_block_count :: int

type_synonym isotp_key = "int \<times> string"

record isotp =
  it_tx_id :: int
  it_rx_id :: int
  it_channel_id :: string
  it_pad_byte :: "int option"
  it_rx_block_size :: int
  it_rx_st_min :: int
  it_max_buffer_size :: int
  it_brs :: bool
  it_addressing_mode :: addressing_mode
  it_address_byte :: "int option"
  it_sessions :: "(isotp_key, rx_session) dict"

definition isotp_init ::
  "int \<Rightarrow> int \<Rightarrow> string \<Rightarrow> int option \<Rightarrow> int \<Rightarrow> int \<Rightarrow> int \<Rightarrow> addressing_mode \<Rightarrow> int option \<Rightarrow> bool \<Rightarrow>
   isotp py" where
  "isotp_init tx rx ch pad bs stmin cap mode addr brs =
     (let t = \<lparr>it_tx_id = tx, it_rx_id = rx, it_channel_id = ch, it_pad_byte = pad,
               it_rx_block_size = bs, it_rx_st_min = stmin, it_max_buffer_size = cap,
               it_brs = brs, it_addressing_mode = mode, it_address_byte = None,
               it_sessions = []\<rparr> in
      if mode = NORMAL then (if addr \<noteq> None then Inl ValueError else Inr t)
      else (case addr of None \<Rightarrow> Inl ValueError
            | Some a \<Rightarrow> Inr (t\<lparr>it_address_byte := Some (a AND 0xFF)\<rparr>)))"

text \<open>The compatibility property \<open>_rx_session\<close> and its setter, and \<open>clear_sessions\<close>.\<close>

definition get_rx_session :: "isotp \<Rightarrow> rx_session option" where
  "get_rx_session t =
     (case dget (it_sessions t) (it_rx_id t, it_channel_id t) of
        Some s \<Rightarrow> Some s
      | None \<Rightarrow> (case it_sessions t of [] \<Rightarrow> None | (k, s) # _ \<Rightarrow> Some s))"

definition set_rx_session :: "isotp \<Rightarrow> rx_session option \<Rightarrow> isotp" where
  "set_rx_session t val =
     (case val of
        None \<Rightarrow> t\<lparr>it_sessions := dpop (it_rx_id t, it_channel_id t) (it_sessions t)\<rparr>
      | Some s \<Rightarrow> t\<lparr>it_sessions := dset (rxs_rx_id s, rxs_channel_id s) s (it_sessions t)\<rparr>)"

definition clear_sessions :: "isotp \<Rightarrow> isotp \<times> nat" where
  "clear_sessions t = (t\<lparr>it_sessions := []\<rparr>, length (it_sessions t))"

definition session_stale :: "seconds \<Rightarrow> rx_session \<Rightarrow> bool" where
  "session_stale now s \<longleftrightarrow> now - rxs_last_activity_time s > ISOTP_TIMEOUT_SEC"

definition reap_stale_rx_sessions :: "isotp \<Rightarrow> seconds \<Rightarrow> isotp \<times> nat" where
  "reap_stale_rx_sessions t now =
     (let expired = dkeys_where (\<lambda>k s. session_stale now s) (it_sessions t)
      in (t\<lparr>it_sessions := dpop_all expired (it_sessions t)\<rparr>, length expired))"

definition wrap_npci :: "isotp \<Rightarrow> bytes \<Rightarrow> bytes" where
  "wrap_npci t npci = (case it_address_byte t of None \<Rightarrow> npci | Some a \<Rightarrow> word_of_int a # npci)"

definition pci_offset :: "isotp \<Rightarrow> nat" where
  "pci_offset t = (if it_addressing_mode t = NORMAL then 0 else 1)"

section \<open>Segmentation\<close>

text \<open>\<open>self.pad_byte if self.pad_byte is not None else 0xCC\<close>\<close>

definition pad_or_default :: "int option \<Rightarrow> int" where
  "pad_or_default pad = (case pad of Some p \<Rightarrow> p | None \<Rightarrow> 0xCC)"

text \<open>The constructor call of every emitted segment, with the padding before it.\<close>

definition tx_frame ::
  "string \<Rightarrow> int \<Rightarrow> int option \<Rightarrow> bool \<Rightarrow> bool \<Rightarrow> int \<Rightarrow> int \<Rightarrow> bytes \<Rightarrow> can_frame py" where
  "tx_frame ch arb pad fd bit_rate_switch ns dlc raw =
     py_bind (pad_payload raw dlc (pad_or_default pad)) (\<lambda>padded. can_frame_init
       \<lparr>frame_channel_id = ch, frame_arbitration_id = arb, frame_dlc = dlc, frame_data = padded,
        frame_is_extended = arb > 0x7FF, frame_is_fd = fd, frame_brs = bit_rate_switch,
        frame_esi = False, frame_direction = ''tx'', frame_timestamp_ns = ns,
        frame_hardware_timestamp_ns = None, frame_host_timestamp_ns = None,
        frame_sequence = 0, frame_error_state = ''active'', frame_source = ''physical''\<rparr>)"

definition segment_frame :: "isotp \<Rightarrow> bool \<Rightarrow> bool \<Rightarrow> int \<Rightarrow> int \<Rightarrow> bytes \<Rightarrow> can_frame py" where
  "segment_frame t fd bit_rate_switch ns dlc npci =
     tx_frame (it_channel_id t) (it_tx_id t) (it_pad_byte t) fd bit_rate_switch ns dlc
       (wrap_npci t npci)"

text \<open>The protocol control bytes in front of the data.\<close>

definition sf_pci :: "nat \<Rightarrow> bytes" where
  "sf_pci n = [word_of_int (push_bit 4 PCI_SINGLE_FRAME OR (int n AND 0x0F))]"

definition sf_escape_pci :: "nat \<Rightarrow> bytes" where
  "sf_escape_pci n = [0x00, word_of_int (int n)]"

definition ff_pci :: "nat \<Rightarrow> bytes" where
  "ff_pci n = [word_of_int (push_bit 4 PCI_FIRST_FRAME OR (drop_bit 8 (int n) AND 0x0F)),
               word_of_int (int n AND 0xFF)]"

definition ff_escape_pci :: "nat \<Rightarrow> bytes py" where
  "ff_escape_pci n = py_bind (to_be 4 (int n)) (\<lambda>len. Inr ([0x10, 0x00] @ len))"

definition cf_pci :: "int \<Rightarrow> bytes" where
  "cf_pci seq = [word_of_int (push_bit 4 PCI_CONSECUTIVE_FRAME OR (seq AND 0x0F))]"

text \<open>\<open>while bytes_sent < data_len\<close>: one frame for each chunk of at most \<open>cap\<close> bytes. The caller's
  capacity is positive; with none left the loop of the source would not advance.\<close>

function cf_loop ::
  "(bytes \<Rightarrow> can_frame py) \<Rightarrow> nat \<Rightarrow> bytes \<Rightarrow> nat \<Rightarrow> int \<Rightarrow> can_frame list py" where
  "cf_loop mk cap d sent seq =
     (if sent < length d \<and> 0 < cap then
        (let chunk = take cap (drop sent d) in
         py_bind (mk (cf_pci seq @ chunk)) (\<lambda>f.
         py_bind (cf_loop mk cap d (sent + length chunk) ((seq + 1) AND 0x0F)) (\<lambda>fs.
           Inr (f # fs))))
      else Inr [])"
  by pat_completeness auto
termination by (relation "measure (\<lambda>(mk, cap, d, sent, seq). length d - sent)") auto

declare cf_loop.simps [simp del]

text \<open>First frame and consecutive frames, on CAN FD and on classic CAN.\<close>

definition segment_fd :: "isotp \<Rightarrow> bytes \<Rightarrow> bool \<Rightarrow> int \<Rightarrow> can_frame list py" where
  "segment_fd t d rate_switch ns =
     (let n = length d; addr = pci_offset t in
      py_bind (if n \<le> 4095 then Inr (ff_pci n, 62 - addr)
               else py_bind (ff_escape_pci n) (\<lambda>pci. Inr (pci, 58 - addr))) (\<lambda>(pci, first).
      py_bind (segment_frame t True rate_switch ns 15 (pci @ take first d)) (\<lambda>ff.
      py_bind (cf_loop (segment_frame t True rate_switch ns 15) (63 - addr) d first 1) (\<lambda>cfs.
        Inr (ff # cfs)))))"

definition segment_classic :: "isotp \<Rightarrow> bytes \<Rightarrow> int \<Rightarrow> can_frame list py" where
  "segment_classic t d ns =
     (let n = length d; addr = pci_offset t in
      py_bind (if n \<le> 4095 then Inr (ff_pci n, 6 - addr)
               else if addr > 0 then Inl IsoTpError
               else py_bind (ff_escape_pci n) (\<lambda>pci. Inr (pci, 2))) (\<lambda>(pci, first).
      py_bind (segment_frame t False False ns 8 (pci @ take first d)) (\<lambda>ff.
      py_bind (cf_loop (segment_frame t False False ns 8) (7 - addr) d first 1) (\<lambda>cfs.
        Inr (ff # cfs)))))"

definition segment_message :: "isotp \<Rightarrow> bytes \<Rightarrow> bool \<Rightarrow> bool option \<Rightarrow> int \<Rightarrow> can_frame list py" where
  "segment_message t d fd brs_arg ns =
     (let n = length d;
          cap = (if fd then MAX_UDS_PAYLOAD_FD else MAX_UDS_PAYLOAD_CLASSIC);
          addr = pci_offset t;
          rate_switch = (case brs_arg of None \<Rightarrow> it_brs t | Some b \<Rightarrow> b)
      in
      if n = 0 then Inr []
      else if n > cap then Inl IsoTpPayloadTooLargeError
      else if n \<le> 7 - addr then
        (let npci = sf_pci n @ d; raw_len = int (length (wrap_npci t npci)) in
         py_bind (if fd then length_to_dlc (if raw_len > 8 then max raw_len 12 else 8) else Inr 8)
           (\<lambda>dlc. py_bind (segment_frame t fd (fd \<and> rate_switch) ns dlc npci) (\<lambda>f. Inr [f])))
      else if fd \<and> n \<le> 62 - addr then
        (let npci = sf_escape_pci n @ d in
         py_bind (length_to_dlc (int (length (wrap_npci t npci)))) (\<lambda>dlc.
         py_bind (segment_frame t True rate_switch ns dlc npci) (\<lambda>f. Inr [f])))
      else if fd then segment_fd t d rate_switch ns
      else segment_classic t d ns)"

section \<open>Reassembly\<close>

type_synonym rx_result = "bytes option \<times> can_frame option"

text \<open>The flow control answer: three protocol bytes padded to the eight bytes of a classic frame,
  less the address byte.\<close>

definition fc_data :: "isotp \<Rightarrow> bytes \<Rightarrow> bytes" where
  "fc_data t head = head @ replicate (8 - pci_offset t - length head) 0xCC"

definition create_fc :: "isotp \<Rightarrow> can_frame \<Rightarrow> bytes \<Rightarrow> int \<Rightarrow> can_frame py" where
  "create_fc t frame head ns =
     can_frame_create (frame_channel_id frame) (it_tx_id t) (wrap_npci t (fc_data t head))
       (Some (it_tx_id t > 0x7FF)) (frame_is_fd frame) False False None ''tx'' None
       ''physical'' ''active'' ns"

definition fc_overflow :: bytes where
  "fc_overflow = [word_of_int (push_bit 4 PCI_FLOW_CONTROL OR FS_OVERFLOW)]"

definition fc_cts :: "isotp \<Rightarrow> bytes" where
  "fc_cts t = [word_of_int (push_bit 4 PCI_FLOW_CONTROL OR FS_CTS),
     word_of_int (it_rx_block_size t AND 0xFF), word_of_int (it_rx_st_min t AND 0xFF)]"

definition answer :: "isotp \<Rightarrow> can_frame py \<Rightarrow> isotp \<times> rx_result py" where
  "answer t fc = (t, py_bind fc (\<lambda>f. Inr (None, Some f)))"

abbreviation ignored :: "isotp \<Rightarrow> isotp \<times> rx_result py" where
  "ignored t \<equiv> (t, Inr (None, None))"

abbreviation drop_session :: "isotp_key \<Rightarrow> isotp \<Rightarrow> isotp" where
  "drop_session key t \<equiv> t\<lparr>it_sessions := dpop key (it_sessions t)\<rparr>"

text \<open>The payload as \<open>handle_rx_frame\<close> reads it from the protocol byte on; None when the address
  byte does not match or nothing follows it.\<close>

definition npci_view :: "isotp \<Rightarrow> can_frame \<Rightarrow> bytes option" where
  "npci_view t frame =
     (let d = frame_data frame in
      if it_addressing_mode t \<noteq> NORMAL then
        (if Some (byte_at d 0) \<noteq> it_address_byte t then None
         else if length (drop 1 d) < 1 then None
         else Some (drop 1 d))
      else Some d)"

definition handle_single_frame ::
  "isotp \<Rightarrow> can_frame \<Rightarrow> bytes \<Rightarrow> isotp_key \<Rightarrow> isotp \<times> rx_result py" where
  "handle_single_frame t frame d key =
     (if byte_at d 0 AND 0x0F = 0 then
        (if \<not> frame_is_fd frame then ignored t
         else if length (frame_data frame) \<le> 8 then ignored t
         else if length d < 2 then ignored t
         else
           let sf_len = unat (d ! 1) in
           if sf_len < 8 \<or> sf_len > 62 then ignored t
           else if sf_len \<le> length d - 2
             then (drop_session key t, Inr (Some (take sf_len (drop 2 d)), None))
           else ignored t)
      else
        let sf_len = nat (byte_at d 0 AND 0x0F) in
        if 1 \<le> sf_len \<and> sf_len \<le> length d - 1
          then (drop_session key t, Inr (Some (take sf_len (drop 1 d)), None))
        else ignored t)"

text \<open>The announced length with the size of the header that announces it; None for a length that
  its form does not allow.\<close>

definition ff_length :: "bytes \<Rightarrow> (nat \<times> nat) option" where
  "ff_length d =
     (if length d \<ge> 6 \<and> d ! 0 = 0x10 \<and> d ! 1 = 0x00 then
        (let ff_dl = nat (from_be (take 4 (drop 2 d))) in
         if ff_dl \<le> 4095 then None else Some (ff_dl, 6))
      else
        (let ff_dl = nat (push_bit 8 (byte_at d 0 AND 0x0F) OR byte_at d 1) in
         if ff_dl < 8 then None else Some (ff_dl, 2)))"

definition new_rx_session :: "can_frame \<Rightarrow> nat \<Rightarrow> bytes \<Rightarrow> seconds \<Rightarrow> rx_session" where
  "new_rx_session frame ff_dl first now =
     \<lparr>rxs_rx_id = frame_arbitration_id frame, rxs_total_bytes = int ff_dl,
      rxs_expected_sequence_number = 1, rxs_received_bytes = first, rxs_block_size = 0,
      rxs_st_min_ms = 0, rxs_last_activity_time = now, rxs_channel_id = frame_channel_id frame,
      rxs_tx_id = 0x7E0, rxs_is_fd = frame_is_fd frame, rxs_max_buffer_size = 1048576,
      rxs_block_count = 0\<rparr>"

text \<open>Reaping, then eviction of the stalest session when the table is full and the key is new.\<close>

definition admit_rx_session :: "isotp \<Rightarrow> isotp_key \<Rightarrow> seconds \<Rightarrow> isotp" where
  "admit_rx_session t key now =
     (let t = fst (reap_stale_rx_sessions t now) in
      if dget (it_sessions t) key = None
      then t\<lparr>it_sessions := make_room MAX_RX_SESSIONS rxs_last_activity_time (it_sessions t)\<rparr>
      else t)"

definition handle_first_frame ::
  "isotp \<Rightarrow> can_frame \<Rightarrow> bytes \<Rightarrow> isotp_key \<Rightarrow> seconds \<Rightarrow> int \<Rightarrow> isotp \<times> rx_result py" where
  "handle_first_frame t frame d key now ns =
     (if length d < 2 then ignored t
      else (case ff_length d of None \<Rightarrow> ignored t
      | Some (ff_dl, header_len) \<Rightarrow>
          if int ff_dl > it_max_buffer_size t
            then answer (drop_session key t) (create_fc t frame fc_overflow ns)
          else
            let first = take ff_dl (drop header_len d);
                t = admit_rx_session t key now;
                t = t\<lparr>it_sessions := dset key (new_rx_session frame ff_dl first now) (it_sessions t)\<rparr>
            in if length first \<ge> ff_dl then (drop_session key t, Inr (Some (take ff_dl first), None))
               else answer t (create_fc t frame (fc_cts t) ns)))"

text \<open>What one accepted consecutive frame does to its session.\<close>

definition rx_append :: "rx_session \<Rightarrow> bytes \<Rightarrow> seconds \<Rightarrow> rx_session" where
  "rx_append s d now =
     (let needed = nat (rxs_total_bytes s - int (length (rxs_received_bytes s)));
          chunk_len = min needed (length d - 1) in
      s\<lparr>rxs_received_bytes := rxs_received_bytes s @ take chunk_len (drop 1 d),
        rxs_expected_sequence_number := (rxs_expected_sequence_number s + 1) AND 0x0F,
        rxs_last_activity_time := now\<rparr>)"

definition rx_window :: "isotp \<Rightarrow> can_frame \<Rightarrow> isotp_key \<Rightarrow> rx_session \<Rightarrow> int \<Rightarrow> isotp \<times> rx_result py" where
  "rx_window t frame key s ns =
     (if it_rx_block_size t > 0 then
        (let count = rxs_block_count s + 1 in
         if count \<ge> it_rx_block_size t
         then answer (t\<lparr>it_sessions := dset key (s\<lparr>rxs_block_count := 0\<rparr>) (it_sessions t)\<rparr>)
                (create_fc t frame (fc_cts t) ns)
         else ignored (t\<lparr>it_sessions := dset key (s\<lparr>rxs_block_count := count\<rparr>) (it_sessions t)\<rparr>))
      else ignored (t\<lparr>it_sessions := dset key s (it_sessions t)\<rparr>))"

definition handle_consecutive_frame ::
  "isotp \<Rightarrow> can_frame \<Rightarrow> bytes \<Rightarrow> isotp_key \<Rightarrow> seconds \<Rightarrow> int \<Rightarrow> isotp \<times> rx_result py" where
  "handle_consecutive_frame t frame d key now ns =
     (case dget (it_sessions t) key of None \<Rightarrow> ignored t
      | Some s \<Rightarrow>
          if rxs_channel_id s \<noteq> frame_channel_id frame then ignored t
          else if session_stale now s then ignored (drop_session key t)
          else if byte_at d 0 AND 0x0F \<noteq> rxs_expected_sequence_number s
            then ignored (drop_session key t)
          else
            let s = rx_append s d now in
            if int (length (rxs_received_bytes s)) \<ge> rxs_total_bytes s
            then (drop_session key t,
                  Inr (Some (py_prefix (rxs_received_bytes s) (rxs_total_bytes s)), None))
            else rx_window t frame key s ns)"

definition handle_rx_frame ::
  "isotp \<Rightarrow> can_frame \<Rightarrow> seconds \<Rightarrow> int \<Rightarrow> isotp \<times> rx_result py" where
  "handle_rx_frame t frame now ns =
     (if frame_arbitration_id frame \<noteq> it_rx_id t \<or> length (frame_data frame) < 2 then ignored t
      else (case npci_view t frame of None \<Rightarrow> ignored t
      | Some d \<Rightarrow>
          let pci_type = drop_bit 4 (byte_at d 0) AND 0x0F;
              key = (frame_arbitration_id frame, frame_channel_id frame) in
          if pci_type = PCI_SINGLE_FRAME then handle_single_frame t frame d key
          else if pci_type = PCI_FIRST_FRAME then handle_first_frame t frame d key now ns
          else if pci_type = PCI_CONSECUTIVE_FRAME
            then handle_consecutive_frame t frame d key now ns
          else ignored t))"

end
