(* ===== verification/IsoTpSpec.thy ===== *)
theory IsoTpSpec
  imports IsoTp
begin

text \<open>
  What the synchronous ISO-TP engine of IsoTp promises. The abstract segmentation \<open>pdus\<close> lists the
  protocol data units of a message in closed form; \<open>segment_message\<close> puts each of them into one
  legal frame, and a receiver that is fed frames which carry them (whatever the padding) answers
  with the flow control its block size asks for and delivers the message. The table of sessions
  stays bounded, no received frame raises, and the lengths no addressed engine can deliver are
  identified.
\<close>

section \<open>Protocol control bytes\<close>

lemma push_4 [simp]: "push_bit 4 (x :: int) = 16 * x"
  by (simp add: push_bit_eq_mult)

lemma or_nibble: "0 \<le> (y :: int) \<Longrightarrow> y < 16 \<Longrightarrow> 16 * x OR y = 16 * x + y"
  using push_or [of y 4 x] by (simp add: push_bit_eq_mult mult.commute)

lemma or_byte: "0 \<le> (y :: int) \<Longrightarrow> y < 256 \<Longrightarrow> push_bit 8 x OR y = 256 * x + y"
  using push_or [of y 8 x] by (simp add: mult.commute)

lemma sf_pci_byte: "n < 16 \<Longrightarrow> sf_pci n = [word_of_int (int n)]"
  by (simp add: sf_pci_def PCI_SINGLE_FRAME_def)

lemma cf_pci_byte: "0 \<le> q \<Longrightarrow> q < 16 \<Longrightarrow> cf_pci q = [word_of_int (32 + q)]"
  using or_nibble [of q 2] by (simp add: cf_pci_def PCI_CONSECUTIVE_FRAME_def)

lemma ff_pci_bytes:
  "n < 4096 \<Longrightarrow> ff_pci n = [word_of_int (16 + int n div 256), word_of_int (int n mod 256)]"
proof -
  assume "n < 4096"
  then have "int n div 256 < 16" by linarith
  then show ?thesis
    by (simp add: ff_pci_def PCI_FIRST_FRAME_def or_nibble drop_bit_eq_div
        or_nibble [of _ 1, simplified])
qed

section \<open>The abstract segmentation\<close>

text \<open>Consecutive PDUs: the \<open>k\<close>-th carries the \<open>k\<close>-th chunk of what the first frame left, under a
  sequence number that counts modulo 16 from \<open>i\<close>.\<close>

definition cf_pdus :: "nat \<Rightarrow> nat \<Rightarrow> bytes \<Rightarrow> bytes list" where
  "cf_pdus cap i rest =
     map (\<lambda>k. cf_pci (int ((i + k) mod 16)) @ take cap (drop (k * cap) rest))
       [0..<(length rest + cap - 1) div cap]"

definition can_dl :: "bool \<Rightarrow> nat" where
  "can_dl fd = (if fd then 64 else 8)"

definition ff_head :: "nat \<Rightarrow> bytes" where
  "ff_head n = (if n \<le> 4095 then ff_pci n else [0x10, 0x00] @ rev (le_bytes 4 (int n)))"

definition pdus :: "nat \<Rightarrow> bool \<Rightarrow> bytes \<Rightarrow> bytes list" where
  "pdus addr fd d =
     (let n = length d; first = can_dl fd - addr - length (ff_head n) in
      if n = 0 then []
      else if n \<le> 7 - addr then [sf_pci n @ d]
      else if fd \<and> n \<le> 62 - addr then [sf_escape_pci n @ d]
      else (ff_head n @ take first d) # cf_pdus (can_dl fd - addr - 1) 1 (drop first d))"

lemma cf_pdus_Nil [simp]: "cf_pdus cap i [] = []"
  by (cases cap) (simp_all add: cf_pdus_def)

lemma ceil_step: "0 < cap \<Longrightarrow> 0 < n \<Longrightarrow> (n + cap - 1) div cap = Suc ((n - cap + cap - 1) div cap)" for n :: nat
proof -
  assume a: "0 < cap" "0 < n"
  show ?thesis
  proof (cases "cap \<le> n")
    case True
    then have "n + cap - 1 = (n - 1) + cap" "n - cap + cap - 1 = n - 1" using a by simp_all
    then show ?thesis using a by (simp only: div_add_self2)
  next
    case False
    then have "(n + cap - 1) div cap = 1"
      using a by (intro div_nat_eqI) auto
    then show ?thesis using a False by simp
  qed
qed

lemma cf_pdus_Cons:
  assumes "0 < cap" "rest \<noteq> []"
  shows "cf_pdus cap i rest =
    (cf_pci (int (i mod 16)) @ take cap rest) # cf_pdus cap (Suc i) (drop cap rest)"
proof -
  have "(length rest + cap - 1) div cap = Suc ((length (drop cap rest) + cap - 1) div cap)"
    using ceil_step [of cap "length rest"] assms by simp
  then show ?thesis
    by (simp only: cf_pdus_def upt_conv_Cons zero_less_Suc map_Suc_upt [symmetric] list.map)
      (simp add: add.commute del: upt_Suc)
qed

text \<open>The loop of the source, run with a constructor that succeeds on every PDU, is that list.\<close>

lemma cf_loop_pdus:
  assumes cap: "0 < cap" and mk: "\<And>p. p \<in> set (cf_pdus cap i (drop sent d)) \<Longrightarrow> mk p = Inr (g p)"
    and seq: "seq = int (i mod 16)"
  shows "cf_loop mk cap d sent seq = Inr (map g (cf_pdus cap i (drop sent d)))"
  using mk seq
proof (induction "length d - sent" arbitrary: sent seq i rule: less_induct)
  case less
  show ?case
  proof (cases "sent < length d")
    case False
    then show ?thesis by (simp add: cf_loop.simps)
  next
    case True
    let ?chunk = "take cap (drop sent d)"
    have len: "0 < length ?chunk" using True cap by simp
    have cons: "cf_pdus cap i (drop sent d) =
        (cf_pci (int (i mod 16)) @ ?chunk) # cf_pdus cap (Suc i) (drop (sent + length ?chunk) d)"
      using cf_pdus_Cons [OF cap, of "drop sent d" i] True
      by (cases "cap \<le> length d - sent") (simp_all add: add.commute)
    have seq': "(seq + 1) AND 0x0F = int (Suc i mod 16)"
      using less.prems(2) by (simp add: zmod_int mod_simps add.commute)
    have "cf_loop mk cap d (sent + length ?chunk) ((seq + 1) AND 0x0F) =
        Inr (map g (cf_pdus cap (Suc i) (drop (sent + length ?chunk) d)))"
      by (rule less.hyps [OF _ less.prems(1) seq']) (use True len cons in auto)
    moreover have "mk (cf_pci seq @ ?chunk) = Inr (g (cf_pci seq @ ?chunk))"
      using less.prems cons by simp
    ultimately show ?thesis
      using True cap cons less.prems(2) by (subst cf_loop.simps) (simp add: Let_def)
  qed
qed

section \<open>Legal segments\<close>

definition isotp_wf :: "isotp \<Rightarrow> bool" where
  "isotp_wf t \<longleftrightarrow> (it_addressing_mode t = NORMAL \<longleftrightarrow> it_address_byte t = None) \<and>
     (\<forall>a. it_address_byte t = Some a \<longrightarrow> 0 \<le> a \<and> a < 256)"

definition isotp_ids_ok :: "isotp \<Rightarrow> bool" where
  "isotp_ids_ok t \<longleftrightarrow> channel_id_ok (it_channel_id t) \<and> 0 \<le> it_tx_id t \<and> it_tx_id t < 2 ^ 29 \<and>
     0 \<le> pad_or_default (it_pad_byte t) \<and> pad_or_default (it_pad_byte t) \<le> 255"

lemma isotp_init_wf: "isotp_init tx rx ch pad bs stmin cap mode addr b = Inr t \<Longrightarrow> isotp_wf t"
  by (auto simp: isotp_init_def isotp_wf_def Let_def split: if_splits option.splits)

lemma length_wrap [simp]: "isotp_wf t \<Longrightarrow> length (wrap_npci t p) = pci_offset t + length p"
  by (auto simp: wrap_npci_def pci_offset_def isotp_wf_def split: option.splits)

lemma pci_offset_le: "pci_offset t \<le> Suc 0"
  by (simp add: pci_offset_def)

text \<open>A frame that carries a PDU of \<open>t\<close>: on its identifier and channel, of the given format, with
  the PDU behind the address byte and any padding behind the PDU.\<close>

definition carries :: "isotp \<Rightarrow> bool \<Rightarrow> bytes \<Rightarrow> can_frame \<Rightarrow> bool" where
  "carries t fd p f \<longleftrightarrow> frame_wf f \<and> frame_channel_id f = it_channel_id t \<and>
     frame_arbitration_id f = it_tx_id t \<and> frame_is_extended f = (it_tx_id t > 0x7FF) \<and>
     frame_is_fd f = fd \<and> (\<exists>pad. frame_data f = wrap_npci t p @ pad)"

definition seg ::
  "string \<Rightarrow> int \<Rightarrow> int option \<Rightarrow> bool \<Rightarrow> bool \<Rightarrow> int \<Rightarrow> int \<Rightarrow> int \<Rightarrow> bytes \<Rightarrow> can_frame" where
  "seg ch arb pad fd bit_rate_switch ns dlc m raw =
     \<lparr>frame_channel_id = ch, frame_arbitration_id = arb, frame_dlc = dlc,
      frame_data = raw @ replicate (nat m - length raw) (word_of_int (pad_or_default pad)),
      frame_is_extended = arb > 0x7FF, frame_is_fd = fd, frame_brs = bit_rate_switch,
      frame_esi = False, frame_direction = ''tx'', frame_timestamp_ns = ns,
      frame_hardware_timestamp_ns = None, frame_host_timestamp_ns = None,
      frame_sequence = 0, frame_error_state = ''active'', frame_source = ''physical''\<rparr>"

lemma tx_frame_seg:
  assumes "channel_id_ok ch" "0 \<le> arb" "arb < 2 ^ 29"
    and "0 \<le> pad_or_default pad" "pad_or_default pad \<le> 255"
    and m: "dlc_to_length dlc = Inr m" and raw: "int (length raw) \<le> m" "raw \<noteq> []"
    and fmt: "fd \<or> dlc \<le> 8 \<and> \<not> bit_rate_switch"
  shows "tx_frame ch arb pad fd bit_rate_switch ns dlc raw =
      Inr (seg ch arb pad fd bit_rate_switch ns dlc m raw)"
    and "frame_wf (seg ch arb pad fd bit_rate_switch ns dlc m raw)"
proof -
  have dlc: "0 \<le> dlc" "dlc \<le> 15" using dlc_to_length_Inr_range [OF m] by simp_all
  have small: "dlc \<le> 8 \<Longrightarrow> m = dlc" using dlc_to_length_small [OF dlc(1)] m by simp
  have padded: "pad_payload raw dlc (pad_or_default pad) =
      Inr (raw @ replicate (nat m - length raw) (word_of_int (pad_or_default pad)))"
    using assms by (simp add: pad_payload_def Let_def nat_diff_distrib')
  have len: "int (length raw + (nat m - length raw)) = m" using raw by simp
  show wf: "frame_wf (seg ch arb pad fd bit_rate_switch ns dlc m raw)"
    unfolding frame_wf_def seg_def
    using assms dlc small len
    by (auto simp: VALID_DIRECTIONS_def VALID_ERROR_STATES_def VALID_SOURCES_def)
  show "tx_frame ch arb pad fd bit_rate_switch ns dlc raw =
      Inr (seg ch arb pad fd bit_rate_switch ns dlc m raw)"
    unfolding tx_frame_def padded py_bind_simps
    using can_frame_init_ok [OF wf] by (simp add: seg_def)
qed

definition sync_seg :: "isotp \<Rightarrow> bool \<Rightarrow> bool \<Rightarrow> int \<Rightarrow> int \<Rightarrow> int \<Rightarrow> bytes \<Rightarrow> can_frame" where
  "sync_seg t fd bit_rate_switch ns dlc m p =
     seg (it_channel_id t) (it_tx_id t) (it_pad_byte t) fd bit_rate_switch ns dlc m (wrap_npci t p)"

lemma segment_frame_ok:
  assumes "isotp_wf t" "isotp_ids_ok t" "dlc_to_length dlc = Inr m"
    and "int (pci_offset t + length p) \<le> m" "p \<noteq> []" "fd \<or> dlc \<le> 8 \<and> \<not> bit_rate_switch"
  shows "segment_frame t fd bit_rate_switch ns dlc p = Inr (sync_seg t fd bit_rate_switch ns dlc m p)"
    and "carries t fd p (sync_seg t fd bit_rate_switch ns dlc m p)"
proof -
  have ne: "wrap_npci t p \<noteq> []" using assms(5) by (simp add: wrap_npci_def split: option.splits)
  have len: "int (length (wrap_npci t p)) \<le> m" using assms(1,4) by simp
  note ids = assms(2) [unfolded isotp_ids_ok_def]
  note f = tx_frame_seg [where ch = "it_channel_id t" and arb = "it_tx_id t" and pad = "it_pad_byte t",
      OF _ _ _ _ _ assms(3) len ne assms(6)]
  show "segment_frame t fd bit_rate_switch ns dlc p = Inr (sync_seg t fd bit_rate_switch ns dlc m p)"
    unfolding segment_frame_def sync_seg_def by (rule f(1)) (use ids in simp_all)
  show "carries t fd p (sync_seg t fd bit_rate_switch ns dlc m p)"
    using f(2) ids unfolding carries_def sync_seg_def by (auto simp: seg_def)
qed

lemma dlc_15: "dlc_to_length 15 = Inr 64" and dlc_8: "dlc_to_length 8 = Inr 8"
  by (simp_all add: dlc_to_length_def DLC_TO_LENGTH_def)

lemma length_ff_head: "length (ff_head n) = (if n \<le> 4095 then 2 else 6)"
  by (simp add: ff_head_def ff_pci_def)

lemma ff_escape_head: "4095 < n \<Longrightarrow> n \<le> MAX_UDS_PAYLOAD_FD \<Longrightarrow> ff_escape_pci n = Inr (ff_head n)"
  by (simp add: ff_escape_pci_def ff_head_def to_be_def MAX_UDS_PAYLOAD_FD_def)

lemma cf_pdus_len: "p \<in> set (cf_pdus cap i rest) \<Longrightarrow> p \<noteq> [] \<and> length p \<le> Suc cap"
  by (auto simp: cf_pdus_def cf_pci_def)

section \<open>Segmentation emits the abstract PDUs\<close>

lemma bus_dlc:
  obtains dlc where "dlc = (if fd then 15 else 8)" "dlc_to_length dlc = Inr (int (can_dl fd))"
    "fd \<or> dlc \<le> 8 \<and> \<not> (fd \<and> rs)"
  by (cases fd) (simp_all add: can_dl_def dlc_15 dlc_8)

lemma multi_segment:
  assumes ok: "isotp_wf t" "isotp_ids_ok t" and dlc: "dlc_to_length dlc = Inr (int (can_dl fd))"
    "fd \<or> dlc \<le> 8 \<and> \<not> rs" and addr: "length (ff_head (length d)) + pci_offset t \<le> can_dl fd"
    and first: "first = can_dl fd - pci_offset t - length (ff_head (length d))"
    and cap: "cap = can_dl fd - pci_offset t - 1"
  shows "\<exists>frames. py_bind (segment_frame t fd rs ns dlc (ff_head (length d) @ take first d)) (\<lambda>ff.
        py_bind (cf_loop (segment_frame t fd rs ns dlc) cap d first 1) (\<lambda>cfs. Inr (ff # cfs))) = Inr frames \<and>
      list_all2 (carries t fd)
        ((ff_head (length d) @ take first d) # cf_pdus cap 1 (drop first d)) frames"
proof -
  let ?mk = "sync_seg t fd rs ns dlc (int (can_dl fd))"
  have head: "ff_head (length d) @ take first d \<noteq> []"
    using length_ff_head [of "length d"] by (auto split: if_splits)
  have len: "int (pci_offset t + length (ff_head (length d) @ take first d)) \<le> int (can_dl fd)"
    using addr first by simp
  note ff = segment_frame_ok [where ns = ns, OF ok dlc(1) len head dlc(2)]
  have cap_pos: "0 < cap" using cap by (simp add: can_dl_def pci_offset_def)
  have cf: "segment_frame t fd rs ns dlc p = Inr (?mk p) \<and> carries t fd p (?mk p)"
    if p: "p \<in> set (cf_pdus cap 1 (drop first d))" for p
  proof -
    have "int (pci_offset t + length p) \<le> int (can_dl fd)"
      using cf_pdus_len [OF p] cap cap_pos by linarith
    then show ?thesis using segment_frame_ok [OF ok dlc(1) _ _ dlc(2)] cf_pdus_len [OF p] by blast
  qed
  have "cf_loop (segment_frame t fd rs ns dlc) cap d first 1 = Inr (map ?mk (cf_pdus cap 1 (drop first d)))"
    by (rule cf_loop_pdus [OF cap_pos]) (use cf in auto)
  then show ?thesis
    using ff cf by (auto simp: list_all2_map2 list_all2_same)
qed

lemma single_segment:
  assumes "isotp_wf t" "isotp_ids_ok t" "dlc_to_length dlc = Inr m" "int (pci_offset t + length p) \<le> m"
    "p \<noteq> []" "fd \<or> dlc \<le> 8 \<and> \<not> rs"
  shows "\<exists>frames. py_bind (segment_frame t fd rs ns dlc p) (\<lambda>f. Inr [f]) = Inr frames \<and>
      list_all2 (carries t fd) [p] frames"
  using segment_frame_ok [OF assms] by simp

lemma segment_pdus:
  assumes ok: "isotp_wf t" "isotp_ids_ok t" and n: "d \<noteq> []"
    "length d \<le> (if fd then MAX_UDS_PAYLOAD_FD else MAX_UDS_PAYLOAD_CLASSIC)"
    and wide: "fd \<or> length d \<le> 4095 \<or> pci_offset t = 0"
  shows "\<exists>frames. segment_message t d fd b ns = Inr frames \<and>
      list_all2 (carries t fd) (pdus (pci_offset t) fd d) frames"
proof -
  let ?n = "length d" and ?addr = "pci_offset t"
  define rs where "rs = (case b of None \<Rightarrow> it_brs t | Some b \<Rightarrow> b)"
  have nz: "(?n = 0) = False" using n(1) by simp
  have fit: "(?n > (if fd then MAX_UDS_PAYLOAD_FD else MAX_UDS_PAYLOAD_CLASSIC)) = False"
    using n(2) by (simp del: MAX_UDS_PAYLOAD_FD_def)
  note unfold_seg = segment_message_def segment_fd_def segment_classic_def Let_def nz fit if_False rs_def [symmetric]
  consider (SF) "?n \<le> 7 - ?addr" | (Escape) "\<not> ?n \<le> 7 - ?addr" "fd" "?n \<le> 62 - ?addr"
    | (FD) "\<not> ?n \<le> 7 - ?addr" "fd" "\<not> ?n \<le> 62 - ?addr" | (Classic) "\<not> ?n \<le> 7 - ?addr" "\<not> fd"
    by blast
  then show ?thesis
  proof cases
    case SF
    have raw: "length (wrap_npci t (sf_pci ?n @ d)) \<le> 8"
      using SF ok(1) by (simp add: sf_pci_def pci_offset_def split: if_splits)
    have dlc: "(if fd then length_to_dlc (if int (length (wrap_npci t (sf_pci ?n @ d))) > 8
        then max (int (length (wrap_npci t (sf_pci ?n @ d)))) 12 else 8) else Inr 8) = Inr 8"
      using raw by simp
    have "int (pci_offset t + length (sf_pci ?n @ d)) \<le> 8" using raw ok(1) by simp
    from single_segment [OF ok dlc_8 this, of fd "fd \<and> rs" ns] show ?thesis
      unfolding unfold_seg dlc using SF n(1) by (simp add: pdus_def sf_pci_def)
  next
    case Escape
    let ?p = "sf_escape_pci ?n @ d"
    have raw: "length (wrap_npci t ?p) = ?addr + 2 + ?n" "length (wrap_npci t ?p) \<le> 64"
      using Escape ok(1) by (simp_all add: sf_escape_pci_def pci_offset_def split: if_splits)
    obtain dlc where dlc: "length_to_dlc (int (length (wrap_npci t ?p))) = Inr dlc"
      using length_to_dlc_total [of "int (length (wrap_npci t ?p))"] raw(2) by auto
    obtain m where m: "dlc_to_length dlc = Inr m" "int (length (wrap_npci t ?p)) \<le> m"
      using length_to_dlc_least(1) [OF dlc] by blast
    have "int (pci_offset t + length ?p) \<le> m" using m(2) ok(1) by simp
    from single_segment [OF ok m(1) this, of True rs ns] show ?thesis
      unfolding unfold_seg using Escape n(1) dlc by (simp add: pdus_def sf_escape_pci_def Let_def)
  next
    case FD
    have head: "(if ?n \<le> 4095 then Inr (ff_pci ?n, 62 - ?addr)
        else py_bind (ff_escape_pci ?n) (\<lambda>pci. Inr (pci, 58 - ?addr))) =
      Inr (ff_head ?n, 64 - ?addr - length (ff_head ?n))"
      using ff_escape_head [of ?n] n(2) FD(2) length_ff_head [of ?n] by (auto simp: ff_head_def)
    have addr: "length (ff_head ?n) + ?addr \<le> can_dl True"
      by (simp add: length_ff_head can_dl_def pci_offset_def)
    have dlc: "dlc_to_length 15 = Inr (int (can_dl True))" by (simp add: dlc_15 can_dl_def)
    show ?thesis
      using FD n(1) multi_segment [where rs = rs and ns = ns and d = d, OF ok dlc _ addr refl refl]
      unfolding unfold_seg head by (simp add: pdus_def Let_def can_dl_def)
  next
    case Classic
    have head: "(if ?n \<le> 4095 then Inr (ff_pci ?n, 6 - ?addr)
        else if ?addr > 0 then Inl IsoTpError
        else py_bind (ff_escape_pci ?n) (\<lambda>pci. Inr (pci, 2))) =
      Inr (ff_head ?n, 8 - ?addr - length (ff_head ?n))"
      using ff_escape_head [of ?n] n(2) Classic(2) length_ff_head [of ?n] wide
      by (auto simp: ff_head_def MAX_UDS_PAYLOAD_CLASSIC_def MAX_UDS_PAYLOAD_FD_def)
    have addr: "length (ff_head ?n) + ?addr \<le> can_dl False"
      by (simp add: length_ff_head can_dl_def pci_offset_def)
    have dlc: "dlc_to_length 8 = Inr (int (can_dl False))" by (simp add: dlc_8 can_dl_def)
    show ?thesis
      using Classic n(1) multi_segment [where rs = False and ns = ns and d = d, OF ok dlc _ addr refl refl]
      unfolding unfold_seg head by (simp add: pdus_def Let_def can_dl_def)
  qed
qed

section \<open>Reading a PDU back\<close>

definition mirrors :: "isotp \<Rightarrow> isotp \<Rightarrow> bool" where
  "mirrors r t \<longleftrightarrow> it_rx_id r = it_tx_id t \<and> it_addressing_mode r = it_addressing_mode t \<and>
     it_address_byte r = it_address_byte t"

lemma mirrors_offset: "mirrors r t \<Longrightarrow> pci_offset r = pci_offset t"
  by (simp add: mirrors_def pci_offset_def)

lemma frame_wf_capacity: "frame_wf f \<Longrightarrow> length (frame_data f) \<le> can_dl (frame_is_fd f)"
proof -
  assume wf: "frame_wf f"
  obtain m where m: "dlc_to_length (frame_dlc f) = Inr m" "int (length (frame_data f)) \<le> m"
    using wf_capacity [OF wf] .
  have dlc: "0 \<le> frame_dlc f" "frame_dlc f \<le> (if frame_is_fd f then 15 else 8)"
    using wf by (simp_all add: frame_wf_def)
  have "list_all (\<lambda>c. case dlc_to_length c of Inr m \<Rightarrow> m \<le> 64 \<and> (c \<le> 8 \<longrightarrow> m \<le> 8) | Inl _ \<Rightarrow> True) [0..15]"
    by code_simp
  from upto_all [OF this dlc(1)] have "m \<le> 64 \<and> (frame_dlc f \<le> 8 \<longrightarrow> m \<le> 8)"
    using dlc(2) m(1) by (simp split: if_splits)
  then show ?thesis using m(2) dlc(2) by (auto simp: can_dl_def split: if_splits)
qed

lemma view_wrapped:
  assumes "isotp_wf t" "mirrors r t" "frame_data f = wrap_npci t p @ pad" "p \<noteq> []"
  shows "npci_view r f = Some (p @ pad)"
proof (cases "it_address_byte t")
  case None
  then have "it_addressing_mode r = NORMAL" using assms(1,2) by (simp add: isotp_wf_def mirrors_def)
  then show ?thesis using None assms(3) by (simp add: npci_view_def wrap_npci_def)
next
  case (Some a)
  then have "it_addressing_mode r \<noteq> NORMAL" "it_address_byte r = Some a" "0 \<le> a" "a < 256"
    using assms(1,2) by (auto simp: isotp_wf_def mirrors_def)
  then show ?thesis
    using Some assms(3,4) by (cases p) (simp_all add: npci_view_def wrap_npci_def)
qed

lemma carries_view:
  assumes "isotp_wf t" "mirrors r t" "carries t fd p f" "p \<noteq> []"
  obtains pad where "npci_view r f = Some (p @ pad)" "frame_data f = wrap_npci t p @ pad"
  using assms view_wrapped by (auto simp: carries_def)

lemma carries_full:
  assumes "isotp_wf t" "mirrors r t" "carries t fd p f" "p \<noteq> []" "pci_offset t + length p = can_dl fd"
  shows "npci_view r f = Some p"
proof -
  obtain pad where pad: "npci_view r f = Some (p @ pad)" "frame_data f = wrap_npci t p @ pad"
    using carries_view [OF assms(1-4)] .
  have "length (frame_data f) \<le> can_dl fd"
    using assms(3) frame_wf_capacity [of f] by (auto simp: carries_def)
  then show ?thesis using pad assms(1,5) by simp
qed

section \<open>Flow control frames\<close>

definition answers_ok :: "isotp \<Rightarrow> bool" where
  "answers_ok r \<longleftrightarrow> isotp_wf r \<and> 0 \<le> it_tx_id r \<and> it_tx_id r < 2 ^ 29"

definition fc_frame :: "isotp \<Rightarrow> bytes \<Rightarrow> string \<Rightarrow> bool \<Rightarrow> int \<Rightarrow> can_frame" where
  "fc_frame r head ch fd ns =
     \<lparr>frame_channel_id = ch, frame_arbitration_id = it_tx_id r, frame_dlc = 8,
      frame_data = wrap_npci r (fc_data r head),
      frame_is_extended = it_tx_id r > 0x7FF, frame_is_fd = fd, frame_brs = False,
      frame_esi = False, frame_direction = ''tx'', frame_timestamp_ns = ns,
      frame_hardware_timestamp_ns = None, frame_host_timestamp_ns = None,
      frame_sequence = 0, frame_error_state = ''active'', frame_source = ''physical''\<rparr>"

lemma create_fc_ok:
  assumes r: "answers_ok r" and f: "frame_wf f" and head: "length head \<le> 3"
  shows "create_fc r f head ns = Inr (fc_frame r head (frame_channel_id f) (frame_is_fd f) ns)"
    and "frame_wf (fc_frame r head (frame_channel_id f) (frame_is_fd f) ns)"
proof -
  have "length (fc_data r head) = 8 - pci_offset r"
    using head pci_offset_le [of r] by (simp add: fc_data_def pci_offset_def)
  then have len: "length (wrap_npci r (fc_data r head)) = 8"
    using r by (simp add: answers_ok_def pci_offset_def)
  show wf: "frame_wf (fc_frame r head (frame_channel_id f) (frame_is_fd f) ns)"
    using r f len unfolding frame_wf_def fc_frame_def answers_ok_def
    by (simp add: VALID_DIRECTIONS_def VALID_ERROR_STATES_def VALID_SOURCES_def)
  show "create_fc r f head ns = Inr (fc_frame r head (frame_channel_id f) (frame_is_fd f) ns)"
    using can_frame_init_ok [OF wf] len
    by (simp add: create_fc_def can_frame_create_def fc_frame_def)
qed

lemma length_fc_heads [simp]: "length fc_overflow \<le> 3" "length (fc_cts r) \<le> 3"
  by (simp_all add: fc_overflow_def fc_cts_def)

lemma fc_data_sessions [simp]:
  "fc_frame (r\<lparr>it_sessions := x\<rparr>) = fc_frame r" "fc_cts (r\<lparr>it_sessions := x\<rparr>) = fc_cts r"
  "answers_ok (r\<lparr>it_sessions := x\<rparr>) = answers_ok r"
  by (simp_all add: fun_eq_iff fc_frame_def fc_cts_def fc_data_def wrap_npci_def pci_offset_def
      answers_ok_def isotp_wf_def)

lemma answer_ok:
  assumes "answers_ok r" "frame_wf f" "length head \<le> 3"
  shows "answer t (create_fc r f head ns) =
    (t, Inr (None, Some (fc_frame r head (frame_channel_id f) (frame_is_fd f) ns)))"
  by (simp add: answer_def create_fc_ok [OF assms])

section \<open>Each PDU at a receiver\<close>

lemma handle_view:
  assumes "frame_arbitration_id f = it_rx_id r" "2 \<le> length (frame_data f)" "npci_view r f = Some p"
  shows "handle_rx_frame r f now ns =
    (let key = (it_rx_id r, frame_channel_id f); pci_type = byte_at p 0 div 16 in
     if pci_type = 0 then handle_single_frame r f p key
     else if pci_type = 1 then handle_first_frame r f p key now ns
     else if pci_type = 2 then handle_consecutive_frame r f p key now ns
     else ignored r)"
proof -
  have "byte_at p 0 div 16 < 16" using uint_byte_bounds(2) [of "p ! 0"] by linarith
  then have "drop_bit 4 (byte_at p 0) AND 0x0F = byte_at p 0 div 16"
    by (simp add: drop_bit_eq_div mod_pos_pos_trivial pos_imp_zdiv_nonneg_iff)
  then show ?thesis
    using assms by (simp add: handle_rx_frame_def pci_defs Let_def)
qed

lemma rx_single:
  assumes "frame_arbitration_id f = it_rx_id r" "2 \<le> length (frame_data f)"
    and "npci_view r f = Some (sf_pci (length d) @ d @ pad)" "1 \<le> length d" "length d \<le> 7"
  shows "handle_rx_frame r f now ns =
    (drop_session (it_rx_id r, frame_channel_id f) r, Inr (Some d, None))"
proof -
  have u: "uint (word_of_nat (length d) :: byte) = int (length d)"
    using assms(5) by (simp add: uint_nat unat_of_nat)
  have ne: "d \<noteq> []" using assms(4) by auto
  have "handle_rx_frame r f now ns = handle_single_frame r f (sf_pci (length d) @ d @ pad)
      (it_rx_id r, frame_channel_id f)"
    using assms(4,5) u by (simp add: handle_view [OF assms(1-3)] sf_pci_byte Let_def)
  also have "\<dots> = (drop_session (it_rx_id r, frame_channel_id f) r, Inr (Some d, None))"
    using assms(4,5) u ne by (simp add: handle_single_frame_def sf_pci_byte Let_def)
  finally show ?thesis .
qed

lemma rx_escape:
  assumes "frame_arbitration_id f = it_rx_id r" "8 < length (frame_data f)" "frame_is_fd f"
    and "npci_view r f = Some (sf_escape_pci (length d) @ d @ pad)" "8 \<le> length d" "length d \<le> 62"
  shows "handle_rx_frame r f now ns =
    (drop_session (it_rx_id r, frame_channel_id f) r, Inr (Some d, None))"
proof -
  have two: "2 \<le> length (frame_data f)" using assms(2) by simp
  have u: "unat (word_of_int (int (length d)) :: byte) = length d"
    using assms(6) by (simp add: unat_of_nat)
  have "handle_rx_frame r f now ns = handle_single_frame r f (sf_escape_pci (length d) @ d @ pad)
      (it_rx_id r, frame_channel_id f)"
    by (simp add: handle_view [OF assms(1) two assms(4)] sf_escape_pci_def Let_def)
  also have "\<dots> = (drop_session (it_rx_id r, frame_channel_id f) r, Inr (Some d, None))"
    using assms u by (simp add: handle_single_frame_def sf_escape_pci_def Let_def)
  finally show ?thesis .
qed

lemma high_nibble: "0 \<le> h \<Longrightarrow> h < 16 \<Longrightarrow> (16 + h) mod 16 = h" "0 \<le> h \<Longrightarrow> h < 16 \<Longrightarrow> (16 + h) div 16 = 1"
  for h :: int
  by presburger+

lemma ff_length_head:
  assumes "8 \<le> n" "n < 2 ^ 32"
  shows "ff_length (ff_head n @ rest) = Some (n, length (ff_head n))"
    and "byte_at (ff_head n @ rest) 0 div 16 = 1"
proof -
  have "ff_length (ff_head n @ rest) = Some (n, length (ff_head n)) \<and> byte_at (ff_head n @ rest) 0 div 16 = 1"
  proof (cases "n \<le> 4095")
    case True
    have hi: "0 \<le> int n div 256" "int n div 256 < 16" using True by linarith+
    obtain b0 b1 :: byte where bytes: "ff_head n = [b0, b1]"
      and u: "uint b0 = 16 + int n div 256" "uint b1 = int n mod 256"
    proof
      show "ff_head n = [word_of_int (16 + int n div 256), word_of_int (int n mod 256)]"
        using True by (simp only: ff_head_def if_True ff_pci_bytes)
      show "uint (word_of_int (16 + int n div 256) :: byte) = 16 + int n div 256"
        by (rule uint_of_int_byte) (use hi in linarith)+
      show "uint (word_of_int (int n mod 256) :: byte) = int n mod 256"
        by (rule uint_of_int_byte) simp_all
    qed
    have zero: "\<not> (b0 = 0x10 \<and> b1 = 0x00)"
    proof
      assume "b0 = 0x10 \<and> b1 = 0x00"
      then have "uint b0 = 16" "uint b1 = 0" by simp_all
      then have "int n div 256 = 0" "int n mod 256 = 0" unfolding u by linarith+
      then show False using assms(1) by presburger
    qed
    have "(16 + int n div 256) mod 16 = int n div 256" by (rule high_nibble(1) [OF hi])
    then have dl: "push_bit 8 ((16 + int n div 256) mod 16) OR int n mod 256 = int n"
      using or_byte [of "int n mod 256" "int n div 256"] by simp
    have cond: "\<not> (length ([b0, b1] @ rest) \<ge> 6 \<and> ([b0, b1] @ rest) ! 0 = 0x10 \<and> ([b0, b1] @ rest) ! 1 = 0x00)"
      using zero by simp
    have announced: "nat (push_bit 8 (byte_at ([b0, b1] @ rest) 0 AND 0x0F) OR byte_at ([b0, b1] @ rest) 1) = n"
      using dl u by (simp only: append_Cons nth_Cons_0 One_nat_def nth_Cons_Suc and_masks nat_int)
    have "(16 + int n div 256) div 16 = 1" by (rule high_nibble(2) [OF hi])
    then show ?thesis
      using assms(1) u unfolding bytes ff_length_def if_not_P [OF cond] Let_def announced by simp
  next
    case False
    have "from_be (rev (le_bytes 4 (int n))) = int n"
      using assms(2) by (simp add: from_be_def from_le_le_bytes)
    then show ?thesis
      using False by (simp add: ff_head_def ff_length_def Let_def)
  qed
  then show "ff_length (ff_head n @ rest) = Some (n, length (ff_head n))"
    "byte_at (ff_head n @ rest) 0 div 16 = 1" by blast+
qed

text \<open>What a session under \<open>key\<close> has collected of \<open>d\<close>: the first \<open>k\<close> bytes, the next sequence
  number, the frames since the last grant and the time of the last frame.\<close>

definition collects :: "isotp \<Rightarrow> isotp_key \<Rightarrow> bytes \<Rightarrow> nat \<Rightarrow> nat \<Rightarrow> int \<Rightarrow> seconds \<Rightarrow> bool" where
  "collects r key d k i count now \<longleftrightarrow>
     (\<exists>s. dget (it_sessions r) key = Some s \<and> rxs_total_bytes s = int (length d) \<and>
        rxs_received_bytes s = take k d \<and> rxs_expected_sequence_number s = int (i mod 16) \<and>
        rxs_block_count s = count \<and> rxs_last_activity_time s = now \<and>
        rxs_channel_id s = snd key)"

text \<open>Two configurations that differ in their sessions only.\<close>

definition same_config :: "isotp \<Rightarrow> isotp \<Rightarrow> bool" where
  "same_config r r' \<longleftrightarrow> (\<exists>x. r' = r\<lparr>it_sessions := x\<rparr>)"

lemma same_config_refl [simp]: "same_config r r"
  by (auto simp: same_config_def intro: exI [of _ "it_sessions r"])

lemma same_config_upd [simp]: "same_config r (r\<lparr>it_sessions := x\<rparr>)"
  by (auto simp: same_config_def)

lemma same_config_trans: "same_config a b \<Longrightarrow> same_config b c \<Longrightarrow> same_config a c"
  by (auto simp: same_config_def)

lemma same_configD:
  assumes "same_config r r'"
  shows "mirrors r' t = mirrors r t" "answers_ok r' = answers_ok r" "fc_frame r' = fc_frame r"
    "fc_cts r' = fc_cts r" "it_rx_block_size r' = it_rx_block_size r" "it_rx_id r' = it_rx_id r"
    "it_max_buffer_size r' = it_max_buffer_size r"
  using assms by (auto simp: same_config_def mirrors_def)

lemma admit_config: "\<exists>x. admit_rx_session r key now = r\<lparr>it_sessions := x\<rparr>"
  by (auto simp: admit_rx_session_def reap_stale_rx_sessions_def Let_def)

text \<open>The grant a receiver sends on the channel of the transfer.\<close>

definition grant :: "isotp \<Rightarrow> string \<Rightarrow> bool \<Rightarrow> int \<Rightarrow> can_frame" where
  "grant r ch fd ns = fc_frame r (fc_cts r) ch fd ns"

lemma rx_first:
  assumes r: "answers_ok r" and f: "frame_wf f" "frame_arbitration_id f = it_rx_id r"
    and view: "npci_view r f = Some (ff_head (length d) @ take k d)" "2 \<le> length (frame_data f)"
    and d: "8 \<le> length d" "length d < 2 ^ 32" "int (length d) \<le> it_max_buffer_size r" "k < length d"
  shows "\<exists>r'. handle_rx_frame r f now ns =
      (r', Inr (None, Some (grant r (frame_channel_id f) (frame_is_fd f) ns))) \<and> same_config r r' \<and>
      collects r' (it_rx_id r, frame_channel_id f) d k 1 0 now"
proof -
  let ?key = "(it_rx_id r, frame_channel_id f)" and ?p = "ff_head (length d) @ take k d"
  let ?s = "new_rx_session f (length d) (take k d) now"
  note head = ff_length_head [OF d(1,2), of "take k d"]
  obtain x where x: "admit_rx_session r ?key now = r\<lparr>it_sessions := x\<rparr>" using admit_config by blast
  let ?r = "r\<lparr>it_sessions := dset ?key ?s x\<rparr>"
  have two: "\<not> length ?p < 2" using length_ff_head [of "length d"] by simp
  have "handle_rx_frame r f now ns = handle_first_frame r f ?p ?key now ns"
    by (simp add: handle_view [OF f(2) view(2,1)] head Let_def)
  also have "\<dots> = answer ?r (create_fc ?r f (fc_cts ?r) ns)"
    using two head d x unfolding handle_first_frame_def by (simp add: Let_def not_le)
  also have "\<dots> = (?r, Inr (None, Some (grant r (frame_channel_id f) (frame_is_fd f) ns)))"
    using answer_ok [OF _ f(1), of ?r "fc_cts ?r"] r by (simp add: grant_def)
  finally have "handle_rx_frame r f now ns =
    (?r, Inr (None, Some (grant r (frame_channel_id f) (frame_is_fd f) ns)))" .
  moreover have "collects ?r ?key d k 1 0 now"
    by (simp add: collects_def new_rx_session_def)
  ultimately show ?thesis by (intro exI conjI) (assumption | simp)+
qed

text \<open>The grants of a transfer: after the first frame and after every full block.\<close>

definition block_count_after :: "isotp \<Rightarrow> nat \<Rightarrow> int" where
  "block_count_after r j = (if it_rx_block_size r > 0 then int j mod it_rx_block_size r else 0)"

definition grant_due :: "isotp \<Rightarrow> nat \<Rightarrow> bool" where
  "grant_due r j \<longleftrightarrow> j = 0 \<or> it_rx_block_size r > 0 \<and> int j mod it_rx_block_size r = 0"

lemma block_count_step:
  assumes "b > 0"
  shows "(if int j mod b + 1 \<ge> b then 0 else int j mod b + 1) = int (Suc j) mod (b :: int)"
    and "int j mod b + 1 \<ge> b \<longleftrightarrow> int (Suc j) mod b = 0"
proof -
  have m: "0 \<le> int j mod b" "int j mod b < b" using assms by simp_all
  have "int (Suc j) mod b = (int j mod b + 1) mod b" by (simp add: mod_simps add.commute)
  moreover have "(int j mod b + 1) mod b = (if int j mod b + 1 \<ge> b then 0 else int j mod b + 1)"
  proof (cases "int j mod b + 1 \<ge> b")
    case True
    then have "int j mod b + 1 = b" using m by simp
    then show ?thesis by simp
  next
    case False
    then show ?thesis using m by (simp add: mod_pos_pos_trivial)
  qed
  ultimately show
    "(if int j mod b + 1 \<ge> b then 0 else int j mod b + 1) = int (Suc j) mod b"
    "int j mod b + 1 \<ge> b \<longleftrightarrow> int (Suc j) mod b = 0"
    using m by auto
qed

lemma cf_nibble: "0 \<le> q \<Longrightarrow> q < 16 \<Longrightarrow> (32 + q) div 16 = 2" "0 \<le> q \<Longrightarrow> q < 16 \<Longrightarrow> (32 + q) mod 16 = q"
  for q :: int
  by presburger+

lemma handle_cf:
  assumes "frame_arbitration_id f = it_rx_id r" "2 \<le> length (frame_data f)"
    and "npci_view r f = Some (cf_pci (int (i mod 16)) @ rest)"
    and s: "dget (it_sessions r) (it_rx_id r, frame_channel_id f) = Some s"
    and ok: "rxs_expected_sequence_number s = int (i mod 16)" "rxs_channel_id s = frame_channel_id f"
      "\<not> session_stale now s"
  shows "handle_rx_frame r f now ns =
    (let key = (it_rx_id r, frame_channel_id f); s = rx_append s (cf_pci (int (i mod 16)) @ rest) now in
     if int (length (rxs_received_bytes s)) \<ge> rxs_total_bytes s
     then (drop_session key r, Inr (Some (py_prefix (rxs_received_bytes s) (rxs_total_bytes s)), None))
     else rx_window r f key s ns)"
proof -
  let ?q = "int (i mod 16)" and ?p = "cf_pci (int (i mod 16)) @ rest"
  have q: "0 \<le> ?q" "?q < 16" by simp_all
  have head: "?p ! 0 = word_of_int (32 + ?q)" by (simp only: cf_pci_byte [OF q]) simp
  have u: "byte_at ?p 0 = 32 + ?q" unfolding head by (rule uint_of_int_byte) (use q in linarith)+
  have "(32 + ?q) div 16 = 2" "(32 + ?q) mod 16 = ?q" by (rule cf_nibble [OF q])+
  then have nib: "byte_at ?p 0 div 16 = 2" "byte_at ?p 0 AND 0x0F = ?q" by (simp_all only: u and_masks)
  have "handle_rx_frame r f now ns = handle_consecutive_frame r f ?p (it_rx_id r, frame_channel_id f) now ns"
    unfolding handle_view [OF assms(1-3)] Let_def nib by simp
  then show ?thesis
    unfolding handle_consecutive_frame_def s using ok nib(2) by (simp add: Let_def)
qed

lemma rx_append_fields:
  "rxs_total_bytes (rx_append s p now) = rxs_total_bytes s"
  "rxs_expected_sequence_number (rx_append s p now) = (rxs_expected_sequence_number s + 1) AND 0x0F"
  "rxs_block_count (rx_append s p now) = rxs_block_count s"
  "rxs_last_activity_time (rx_append s p now) = now"
  "rxs_channel_id (rx_append s p now) = rxs_channel_id s" "rxs_rx_id (rx_append s p now) = rxs_rx_id s"
  by (simp_all add: rx_append_def Let_def)

lemma rx_consecutive:
  assumes r: "answers_ok r" and f: "frame_wf f" "frame_arbitration_id f = it_rx_id r"
    and view: "npci_view r f = Some (cf_pci (int (i mod 16)) @ take cap (drop k d) @ pad)"
      "2 \<le> length (frame_data f)"
    and full: "pad = [] \<or> length d \<le> k + cap"
    and c: "collects r (it_rx_id r, frame_channel_id f) d k i (block_count_after r j) before" "k < length d"
    and now: "now - before \<le> ISOTP_TIMEOUT_SEC"
  shows "if length d \<le> k + cap
    then handle_rx_frame r f now ns = (drop_session (it_rx_id r, frame_channel_id f) r, Inr (Some d, None))
    else \<exists>r'. handle_rx_frame r f now ns = (r', Inr (None,
        if grant_due r (Suc j) then Some (grant r (frame_channel_id f) (frame_is_fd f) ns) else None)) \<and>
      same_config r r' \<and>
      collects r' (it_rx_id r, frame_channel_id f) d (k + cap) (Suc i) (block_count_after r (Suc j)) now"
proof -
  let ?key = "(it_rx_id r, frame_channel_id f)" and ?q = "int (i mod 16)"
  let ?chunk = "take cap (drop k d)"
  obtain s where s: "dget (it_sessions r) ?key = Some s" "rxs_total_bytes s = int (length d)"
    "rxs_received_bytes s = take k d" "rxs_expected_sequence_number s = ?q"
    "rxs_block_count s = block_count_after r j" "rxs_last_activity_time s = before"
    "rxs_channel_id s = frame_channel_id f"
    using c(1) by (auto simp: collects_def)
  have fresh: "\<not> session_stale now s" using now s(6) by (simp add: session_stale_def)
  define s1 where "s1 = rx_append s (cf_pci ?q @ ?chunk @ pad) now"
  have step: "(?q + 1) AND 0x0F = int (Suc i mod 16)" by (simp add: zmod_int mod_simps add.commute)
  have "min (length d - k) (length (?chunk @ pad)) = min cap (length d - k)"
    using full by auto
  moreover have "take (min cap (length d - k)) (?chunk @ pad) = ?chunk"
    using full by (cases "cap \<le> length d - k") auto
  moreover have "nat (int (length d) - int (length (take k d))) = length d - k" using c(2) by simp
  ultimately have recv: "rxs_received_bytes s1 = take (k + cap) d"
    using s(2,3) by (simp add: s1_def rx_append_def cf_pci_def take_add)
  have s1: "rxs_total_bytes s1 = int (length d)" "rxs_expected_sequence_number s1 = int (Suc i mod 16)"
    "rxs_block_count s1 = block_count_after r j" "rxs_last_activity_time s1 = now"
    "rxs_channel_id s1 = frame_channel_id f"
    by (simp_all only: s1_def rx_append_fields s step)
  note run = handle_cf [OF f(2) view(2,1) s(1,4,7) fresh, of ns, unfolded Let_def s1_def [symmetric] recv s1(1)]
  show ?thesis
  proof (cases "length d \<le> k + cap")
    case True
    then show ?thesis using run by simp
  next
    case False
    then have w: "handle_rx_frame r f now ns = rx_window r f ?key s1 ns" using run by simp
    have g: "answer t (create_fc r f (fc_cts r) ns) =
        (t, Inr (None, Some (grant r (frame_channel_id f) (frame_is_fd f) ns)))" for t
      using answer_ok [OF r f(1), of "fc_cts r"] by (simp add: grant_def)
    define c' where "c' = block_count_after r (Suc j)"
    have "handle_rx_frame r f now ns = (r\<lparr>it_sessions := dset ?key (s1\<lparr>rxs_block_count := c'\<rparr>) (it_sessions r)\<rparr>,
        Inr (None, if grant_due r (Suc j) then Some (grant r (frame_channel_id f) (frame_is_fd f) ns) else None))"
    proof (cases "it_rx_block_size r > 0")
      case b: True
      then show ?thesis
        using block_count_step [OF b, of j] unfolding w rx_window_def Let_def s1(3)
        by (simp add: g grant_due_def c'_def block_count_after_def split: if_splits)
    next
      case b: False
      have "s1\<lparr>rxs_block_count := c'\<rparr> = s1" using b s1(3) by (simp add: c'_def block_count_after_def)
      then show ?thesis using b unfolding w rx_window_def by (simp add: grant_due_def)
    qed
    moreover have "collects (r\<lparr>it_sessions := dset ?key (s1\<lparr>rxs_block_count := c'\<rparr>) (it_sessions r)\<rparr>)
        ?key d (k + cap) (Suc i) c' now"
      using s1 recv by (simp add: collects_def)
    ultimately show ?thesis using False unfolding c'_def by (metis same_config_upd)
  qed
qed

section \<open>A message is reassembled\<close>

fun isotp_run ::
  "isotp \<Rightarrow> (can_frame \<times> seconds \<times> int) list \<Rightarrow> isotp \<times> rx_result py list" where
  "isotp_run r [] = (r, [])"
| "isotp_run r ((f, now, ns) # evs) =
     (let (r1, x) = handle_rx_frame r f now ns; (r2, xs) = isotp_run r1 evs in (r2, x # xs))"

lemma isotp_run_Cons:
  "handle_rx_frame r f now ns = (r1, x) \<Longrightarrow>
   isotp_run r ((f, now, ns) # evs) = (fst (isotp_run r1 evs), x # snd (isotp_run r1 evs))"
  by (simp add: split_def Let_def)

text \<open>The results of receiving the frames \<open>j, ..., n - 1\<close> of a transfer: the message with the last
  one, before it the grants the block size asks for. \<open>ts j\<close> is the time of the \<open>j\<close>-th frame.\<close>

definition reception ::
  "isotp \<Rightarrow> string \<Rightarrow> bool \<Rightarrow> bytes \<Rightarrow> (nat \<Rightarrow> seconds \<times> int) \<Rightarrow> nat \<Rightarrow> nat \<Rightarrow> rx_result py list" where
  "reception r ch fd d ts j n =
     map (\<lambda>m. Inr (if Suc m = n then (Some d, None)
       else (None, if grant_due r m then Some (grant r ch fd (snd (ts m))) else None))) [j..<n]"

lemma reception_config: "same_config r r' \<Longrightarrow> reception r' = reception r"
  by (simp add: fun_eq_iff reception_def grant_def grant_due_def same_configD)

definition timed :: "can_frame list \<Rightarrow> (nat \<Rightarrow> seconds \<times> int) \<Rightarrow> nat \<Rightarrow> (can_frame \<times> seconds \<times> int) list" where
  "timed fs ts j = zip fs (map ts [j..<j + length fs])"

lemma timed_Nil [simp]: "timed [] ts j = []"
  by (simp add: timed_def)

lemma timed_Cons: "timed (f # fs) ts j = (f, ts j) # timed fs ts (Suc j)"
  by (simp add: timed_def upt_conv_Cons del: upt_Suc)

lemma cf_pdus_size:
  assumes "length p = Suc (length chunk)" "chunk = take cap (drop k d)" "cap = can_dl fd - addr - 1"
    and "addr \<le> 1" "\<not> length d \<le> k + cap"
  shows "addr + length p = can_dl fd"
  using assms by (simp add: can_dl_def split: if_splits)

lemma rx_rest:
  assumes t: "isotp_wf t" and ch: "it_channel_id t = ch"
    and gaps: "\<And>m. fst (ts (Suc m)) - fst (ts m) \<le> ISOTP_TIMEOUT_SEC"
    and cap: "cap = can_dl fd - pci_offset t - 1"
  shows "answers_ok r \<Longrightarrow> mirrors r t \<Longrightarrow>
    list_all2 (carries t fd) (cf_pdus cap i (drop k d)) fs \<Longrightarrow> k < length d \<Longrightarrow>
    collects r (it_rx_id r, ch) d k i (block_count_after r j) (fst (ts j)) \<Longrightarrow>
    snd (isotp_run r (timed fs ts (Suc j))) = reception r ch fd d ts (Suc j) (Suc j + length fs) \<and>
    dget (it_sessions (fst (isotp_run r (timed fs ts (Suc j))))) (it_rx_id r, ch) = None \<and>
    same_config r (fst (isotp_run r (timed fs ts (Suc j))))"
proof (induction "length d - k" arbitrary: r k i j fs rule: less_induct)
  case less
  let ?q = "int (i mod 16)" and ?chunk = "take cap (drop k d)"
  have cap_pos: "0 < cap" using cap by (simp add: can_dl_def pci_offset_def)
  have ne: "drop k d \<noteq> []" using less.prems(4) by simp
  have chunk: "?chunk \<noteq> []" using ne cap_pos by simp
  obtain f fs' where fs: "fs = f # fs'" "carries t fd (cf_pci ?q @ ?chunk) f"
    "list_all2 (carries t fd) (cf_pdus cap (Suc i) (drop (k + cap) d)) fs'"
    using less.prems(3) unfolding cf_pdus_Cons [OF cap_pos ne]
    by (auto simp: list_all2_Cons1 add.commute)
  have f: "frame_wf f" "frame_arbitration_id f = it_rx_id r" "frame_channel_id f = ch" "frame_is_fd f = fd"
    using fs(2) less.prems(2) ch by (auto simp: carries_def mirrors_def)
  have pne: "cf_pci ?q @ ?chunk \<noteq> []" using chunk by simp
  obtain pad where view: "npci_view r f = Some ((cf_pci ?q @ ?chunk) @ pad)"
    "frame_data f = wrap_npci t (cf_pci ?q @ ?chunk) @ pad"
    using carries_view [OF t less.prems(2) fs(2) pne] .
  have full: "pad = [] \<or> length d \<le> k + cap"
  proof (rule disjCI)
    assume "\<not> length d \<le> k + cap"
    then have "pci_offset t + length (cf_pci ?q @ ?chunk) = can_dl fd"
      by (intro cf_pdus_size [OF _ refl cap]) (simp_all add: cf_pci_def pci_offset_le)
    from carries_full [OF t less.prems(2) fs(2) pne this] show "pad = []" using view(1) by simp
  qed
  have two: "2 \<le> length (frame_data f)"
    using view(2) t chunk by (cases ?chunk) (simp_all add: cf_pci_def)
  have view': "npci_view r f = Some (cf_pci ?q @ ?chunk @ pad)" using view(1) by simp
  obtain now ns where now: "ts (Suc j) = (now, ns)" by fastforce
  have gap: "now - fst (ts j) \<le> ISOTP_TIMEOUT_SEC" using gaps [of j] now by simp
  note step = rx_consecutive [OF less.prems(1) f(1,2) view' two full less.prems(5) [folded f(3)] less.prems(4) gap,
      of ns, unfolded f(3,4)]
  show ?case
  proof (cases "length d \<le> k + cap")
    case True
    then have "fs' = []" using fs(3) by simp
    then show ?thesis
      using step True by (simp add: fs(1) timed_Cons now isotp_run_Cons reception_def)
  next
    case False
    obtain r' where r': "handle_rx_frame r f now ns =
        (r', Inr (None, if grant_due r (Suc j) then Some (grant r ch fd ns) else None))"
      "same_config r r'"
      "collects r' (it_rx_id r, ch) d (k + cap) (Suc i) (block_count_after r (Suc j)) now"
      using step False by auto
    note cfg = same_configD [OF r'(2)]
    have bca: "block_count_after r' = block_count_after r"
      using cfg(5) by (simp add: fun_eq_iff block_count_after_def)
    have IH: "snd (isotp_run r' (timed fs' ts (Suc (Suc j)))) =
          reception r' ch fd d ts (Suc (Suc j)) (Suc (Suc j) + length fs') \<and>
        dget (it_sessions (fst (isotp_run r' (timed fs' ts (Suc (Suc j)))))) (it_rx_id r', ch) = None \<and>
        same_config r' (fst (isotp_run r' (timed fs' ts (Suc (Suc j)))))"
      by (rule less.hyps [OF _ _ _ fs(3)])
        (use False less.prems cap_pos cfg bca r'(3) now in simp_all)
    have fs'_ne: "fs' \<noteq> []" using fs(3) False cf_pdus_Cons [OF cap_pos, of "drop (k + cap) d" "Suc i"] by auto
    then have out: "reception r ch fd d ts (Suc j) (Suc j + length fs) =
        Inr (None, if grant_due r (Suc j) then Some (grant r ch fd ns) else None) #
        reception r ch fd d ts (Suc (Suc j)) (Suc (Suc j) + length fs')"
      by (simp add: fs(1) reception_def now upt_conv_Cons del: upt_Suc)
    note run = fs(1) timed_Cons now isotp_run_Cons [OF r'(1)]
    show ?thesis
      unfolding out unfolding run fst_conv snd_conv
      using IH same_config_trans [OF r'(2)] cfg(6) by (simp add: reception_config [OF r'(2)])
  qed
qed

lemma run_single:
  "handle_rx_frame r f now ns = (r1, Inr (Some d, None)) \<Longrightarrow> ts j = (now, ns) \<Longrightarrow>
   isotp_run r (timed [f] ts j) = (r1, reception r ch fd d ts j (Suc j))"
  by (simp add: timed_Cons isotp_run_Cons reception_def)

text \<open>Which PDU comes first, and what follows it.\<close>

lemma pdus_cases:
  assumes "d \<noteq> []" "addr \<le> 1"
  obtains (Single) "length d \<le> 7 - addr" "pdus addr fd d = [sf_pci (length d) @ d]"
  | (Escape) "fd" "7 - addr < length d" "length d \<le> 62 - addr" "pdus addr fd d = [sf_escape_pci (length d) @ d]"
  | (Multi) k cap where "7 - addr < length d" "k < length d" "k = can_dl fd - addr - length (ff_head (length d))"
      "cap = can_dl fd - addr - 1"
      "pdus addr fd d = (ff_head (length d) @ take k d) # cf_pdus cap 1 (drop k d)"
proof (cases "length d \<le> 7 - addr")
  case True
  then show ?thesis using assms(1) by (intro Single) (simp_all add: pdus_def)
next
  case sf: False
  show ?thesis
  proof (cases "fd \<and> length d \<le> 62 - addr")
    case True
    then show ?thesis using sf assms(1) by (intro Escape) (simp_all add: pdus_def)
  next
    case False
    show ?thesis
    proof (rule Multi [OF _ _ refl refl])
      show "7 - addr < length d" using sf by simp
      show "can_dl fd - addr - length (ff_head (length d)) < length d"
        using sf False length_ff_head [of "length d"] by (auto simp: can_dl_def split: if_splits)
      show "pdus addr fd d = (ff_head (length d) @ take (can_dl fd - addr - length (ff_head (length d))) d) #
          cf_pdus (can_dl fd - addr - 1) 1 (drop (can_dl fd - addr - length (ff_head (length d))) d)"
        unfolding pdus_def Let_def if_not_P [OF sf] if_not_P [OF False] using assms(1) by simp
    qed
  qed
qed

lemma pdus_received:
  assumes t: "isotp_wf t" and r: "answers_ok r" "mirrors r t"
    and d: "d \<noteq> []" "length d < 2 ^ 32" "int (length d) \<le> it_max_buffer_size r"
    and seven: "\<not> (it_addressing_mode t \<noteq> NORMAL \<and> length d = 7)"
    and fs: "list_all2 (carries t fd) (pdus (pci_offset t) fd d) fs"
    and gaps: "\<And>m. fst (ts (Suc m)) - fst (ts m) \<le> ISOTP_TIMEOUT_SEC"
  shows "snd (isotp_run r (timed fs ts 0)) = reception r (it_channel_id t) fd d ts 0 (length fs) \<and>
    dget (it_sessions (fst (isotp_run r (timed fs ts 0)))) (it_rx_id r, it_channel_id t) = None \<and>
    same_config r (fst (isotp_run r (timed fs ts 0)))"
proof -
  let ?ch = "it_channel_id t"
  obtain now ns where now: "ts 0 = (now, ns)" by fastforce
  have off: "pci_offset t \<le> 1" using pci_offset_le [of t] by simp
  have frame: "frame_wf f \<and> frame_arbitration_id f = it_rx_id r \<and> frame_channel_id f = ?ch \<and> frame_is_fd f = fd"
    if "carries t fd p f" for p f using that r(2) by (auto simp: carries_def mirrors_def)
  from d(1) off show ?thesis
  proof (cases rule: pdus_cases [of d "pci_offset t" fd])
    case Single
    obtain f where f: "fs = [f]" "carries t fd (sf_pci (length d) @ d) f"
      using fs Single(2) by (auto simp: list_all2_Cons1)
    obtain pad where v: "npci_view r f = Some ((sf_pci (length d) @ d) @ pad)"
      "frame_data f = wrap_npci t (sf_pci (length d) @ d) @ pad"
      using carries_view [OF t r(2) f(2)] d(1) by blast
    have "2 \<le> length (frame_data f)" using v(2) t d(1) by (cases d) (simp_all add: sf_pci_def)
    then have "handle_rx_frame r f now ns = (drop_session (it_rx_id r, frame_channel_id f) r, Inr (Some d, None))"
      using v(1) frame [OF f(2)] Single(1) d(1) by (intro rx_single) (auto simp: Suc_le_eq)
    from run_single [where ts = ts and j = 0, OF this now, of ?ch fd] show ?thesis
      using f frame [OF f(2)] by simp
  next
    case Escape
    obtain f where f: "fs = [f]" "carries t fd (sf_escape_pci (length d) @ d) f"
      using fs Escape(4) by (auto simp: list_all2_Cons1)
    obtain pad where v: "npci_view r f = Some ((sf_escape_pci (length d) @ d) @ pad)"
      "frame_data f = wrap_npci t (sf_escape_pci (length d) @ d) @ pad"
      using carries_view [OF t r(2) f(2)] d(1) by blast
    have eight: "8 \<le> length d" using Escape(2) seven off by (auto simp: pci_offset_def split: if_splits)
    have "8 < length (frame_data f)" using v(2) t eight by (simp add: sf_escape_pci_def)
    then have "handle_rx_frame r f now ns = (drop_session (it_rx_id r, frame_channel_id f) r, Inr (Some d, None))"
      using v(1) frame [OF f(2)] Escape eight by (intro rx_escape) auto
    from run_single [where ts = ts and j = 0, OF this now, of ?ch fd] show ?thesis
      using f frame [OF f(2)] by simp
  next
    case (Multi k cap)
    obtain f fs' where f: "fs = f # fs'" "carries t fd (ff_head (length d) @ take k d) f"
      "list_all2 (carries t fd) (cf_pdus cap 1 (drop k d)) fs'"
      using fs Multi(5) by (auto simp: list_all2_Cons1)
    have eight: "8 \<le> length d" using Multi(1) seven off by (auto simp: pci_offset_def split: if_splits)
    have head: "2 \<le> length (ff_head (length d))" "length (ff_head (length d)) \<le> 6"
      by (simp_all add: length_ff_head)
    have ne: "ff_head (length d) @ take k d \<noteq> []" using head by auto
    have full: "pci_offset t + length (ff_head (length d) @ take k d) = can_dl fd"
      using Multi(2,3) head(2) off by (simp add: can_dl_def split: if_splits)
    note view = carries_full [OF t r(2) f(2) ne full]
    have two: "2 \<le> length (frame_data f)" using f(2) head t by (auto simp: carries_def)
    obtain r' where r': "handle_rx_frame r f now ns = (r', Inr (None, Some (grant r ?ch fd ns)))"
      "same_config r r'" "collects r' (it_rx_id r, ?ch) d k 1 0 now"
      using rx_first [OF r(1) _ _ view two eight d(2,3) Multi(2), of now ns] frame [OF f(2)] by auto
    note cfg = same_configD [OF r'(2)]
    have rest: "snd (isotp_run r' (timed fs' ts (Suc 0))) = reception r' ?ch fd d ts (Suc 0) (Suc 0 + length fs') \<and>
        dget (it_sessions (fst (isotp_run r' (timed fs' ts (Suc 0))))) (it_rx_id r', ?ch) = None \<and>
        same_config r' (fst (isotp_run r' (timed fs' ts (Suc 0))))"
      by (rule rx_rest [where ts = ts and j = 0 and i = 1 and k = k and d = d and cap = cap, OF t refl gaps Multi(4) _ _ f(3) Multi(2)])
        (use r cfg r'(3) now in \<open>simp_all add: block_count_after_def\<close>)
    have "fs' \<noteq> []" using f(3) Multi(2,4) cf_pdus_Cons [of cap "drop k d" 1] off
      by (auto simp: can_dl_def split: if_splits)
    then have out: "reception r ?ch fd d ts 0 (length fs) =
        Inr (None, Some (grant r ?ch fd ns)) # reception r ?ch fd d ts (Suc 0) (Suc 0 + length fs')"
      by (simp add: f(1) reception_def now upt_conv_Cons grant_due_def del: upt_Suc)
    note run = f(1) timed_Cons now isotp_run_Cons [OF r'(1)]
    show ?thesis
      unfolding out unfolding run fst_conv snd_conv
      using rest same_config_trans [OF r'(2)] cfg(6) by (simp add: reception_config [OF r'(2)])
  qed
qed

section \<open>The invariant of the session table\<close>

definition rx_session_ok :: "isotp \<Rightarrow> isotp_key \<Rightarrow> rx_session \<Rightarrow> bool" where
  "rx_session_ok r key s \<longleftrightarrow> key = (rxs_rx_id s, rxs_channel_id s) \<and> rxs_rx_id s = it_rx_id r \<and>
     int (length (rxs_received_bytes s)) < rxs_total_bytes s \<and>
     rxs_total_bytes s \<le> it_max_buffer_size r \<and>
     0 \<le> rxs_expected_sequence_number s \<and> rxs_expected_sequence_number s < 16"

definition rx_table_ok :: "isotp \<Rightarrow> (isotp_key, rx_session) dict \<Rightarrow> bool" where
  "rx_table_ok r x \<longleftrightarrow> dwf x \<and> dall (rx_session_ok r) x \<and> length x \<le> MAX_RX_SESSIONS"

definition isotp_inv :: "isotp \<Rightarrow> bool" where
  "isotp_inv r \<longleftrightarrow> rx_table_ok r (it_sessions r)"

lemma rx_session_ok_config: "same_config r r' \<Longrightarrow> rx_session_ok r' = rx_session_ok r"
  by (simp add: fun_eq_iff rx_session_ok_def same_configD)

lemma isotp_inv_upd: "isotp_inv (r\<lparr>it_sessions := x\<rparr>) \<longleftrightarrow> rx_table_ok r x"
  by (simp add: isotp_inv_def rx_table_ok_def rx_session_ok_config [OF same_config_upd])

lemma rx_table_ok_pop: "rx_table_ok r x \<Longrightarrow> rx_table_ok r (dpop key x)"
  using AList.length_delete_le [of key x]
  by (auto simp: rx_table_ok_def dict.wf_discard dall_dpop)

lemma rx_table_ok_replace:
  "rx_table_ok r x \<Longrightarrow> key \<in> dom (dget x) \<Longrightarrow> rx_session_ok r key s \<Longrightarrow> rx_table_ok r (dset key s x)"
  by (simp add: rx_table_ok_def dict.wf_store dall_dset length_dset_old)

lemma rx_table_ok_add:
  "rx_table_ok r x \<Longrightarrow> length x < MAX_RX_SESSIONS \<Longrightarrow> rx_session_ok r key s \<Longrightarrow> rx_table_ok r (dset key s x)"
  using length_dset_le [of key s x] by (simp add: rx_table_ok_def dict.wf_store dall_dset)

text \<open>After admission there is room for the key.\<close>

lemma admit_ok:
  assumes "isotp_inv r"
  obtains x where "admit_rx_session r key now = r\<lparr>it_sessions := x\<rparr>" "rx_table_ok r x"
    "key \<in> dom (dget x) \<or> length x < MAX_RX_SESSIONS"
proof -
  let ?y = "dpop_all (dkeys_where (\<lambda>k s. session_stale now s) (it_sessions r)) (it_sessions r)"
  have y: "rx_table_ok r ?y"
    using assms length_dpop_all_le [of "dkeys_where (\<lambda>k s. session_stale now s) (it_sessions r)" "it_sessions r"]
    by (simp add: isotp_inv_def rx_table_ok_def dall_dpop_all)
  have adm: "admit_rx_session r key now = r\<lparr>it_sessions := (if dget ?y key = None
      then make_room MAX_RX_SESSIONS rxs_last_activity_time ?y else ?y)\<rparr>"
    by (simp add: admit_rx_session_def reap_stale_rx_sessions_def Let_def)
  show thesis
  proof (cases "dget ?y key = None")
    case True
    let ?x = "make_room MAX_RX_SESSIONS rxs_last_activity_time ?y"
    have "length ?x < MAX_RX_SESSIONS"
      using y by (intro make_room_size) (simp_all add: rx_table_ok_def MAX_RX_SESSIONS_def)
    moreover have "rx_table_ok r ?x"
      using y calculation make_room_dget [of MAX_RX_SESSIONS rxs_last_activity_time ?y]
      unfolding rx_table_ok_def dall_def by (metis less_imp_le make_room_wf)
    ultimately show thesis using adm True by (intro that [of ?x]) simp_all
  next
    case False
    then show thesis using adm y by (intro that [of ?y]) auto
  qed
qed

text \<open>What receiving one frame may do, on every path: keep the invariant and the configuration,
  raise nothing, deliver a payload within the limits or answer with one flow control frame.\<close>

definition rx_outcome :: "isotp \<Rightarrow> can_frame \<Rightarrow> int \<Rightarrow> isotp \<times> rx_result py \<Rightarrow> bool" where
  "rx_outcome r f ns res \<longleftrightarrow> (\<exists>r' p fc. res = (r', Inr (p, fc)) \<and> same_config r r' \<and> isotp_inv r' \<and>
     (p = None \<or> fc = None) \<and>
     (\<forall>d. p = Some d \<longrightarrow> d \<noteq> [] \<and> int (length d) \<le> max 62 (it_max_buffer_size r)) \<and>
     (\<forall>g. fc = Some g \<longrightarrow> frame_wf g \<and>
        (\<exists>head\<in>{fc_overflow, fc_cts r}. g = fc_frame r head (frame_channel_id f) (frame_is_fd f) ns)))"

lemma outcome_silent:
  "rx_table_ok r x \<Longrightarrow> rx_outcome r f ns (r\<lparr>it_sessions := x\<rparr>, Inr (None, None))"
  by (simp add: rx_outcome_def isotp_inv_upd)

lemma outcome_same: "isotp_inv r \<Longrightarrow> rx_outcome r f ns (r, Inr (None, None))"
  by (simp add: rx_outcome_def)

lemma outcome_payload:
  "rx_table_ok r x \<Longrightarrow> d \<noteq> [] \<Longrightarrow> int (length d) \<le> max 62 (it_max_buffer_size r) \<Longrightarrow>
   rx_outcome r f ns (r\<lparr>it_sessions := x\<rparr>, Inr (Some d, None))"
  by (simp add: rx_outcome_def isotp_inv_upd)

lemma outcome_answer:
  assumes "answers_ok r" "frame_wf f" "rx_table_ok r x" "head = fc_overflow \<or> head = fc_cts r"
  shows "rx_outcome r f ns (answer (r\<lparr>it_sessions := x\<rparr>) (create_fc r f head ns))"
proof -
  have "length head \<le> 3" using assms(4) by auto
  note fc = create_fc_ok [OF assms(1,2) this, of ns]
  show ?thesis
    unfolding rx_outcome_def answer_def fc py_bind_simps
    using fc(2) assms(3,4) by (auto simp: isotp_inv_upd)
qed

lemma create_fc_sessions [simp]: "create_fc (r\<lparr>it_sessions := x\<rparr>) = create_fc r"
  by (simp add: fun_eq_iff create_fc_def wrap_npci_def fc_data_def pci_offset_def)

lemma inv_pop: "isotp_inv r \<Longrightarrow> rx_table_ok r (dpop key (it_sessions r))"
  by (simp add: isotp_inv_def rx_table_ok_pop)

lemma single_outcome:
  assumes "isotp_inv r"
  shows "rx_outcome r f ns (handle_single_frame r f p key)"
proof -
  note pop = inv_pop [OF assms, of key]
  have pay: "rx_outcome r f ns (drop_session key r, Inr (Some (take k (drop j p)), None))"
    if "1 \<le> k" "k \<le> length p - j" "k \<le> 62" for k j
    by (rule outcome_payload [OF pop]) (use that in auto)
  have nib: "nat (byte_at p 0 AND 0x0F) \<le> 62" by simp
  show ?thesis
    unfolding handle_single_frame_def Let_def
    using pay [of _ 2] pay [of _ 1] nib outcome_same [OF assms]
    by (auto simp del: and_masks)
qed

lemma ff_length_pos: "ff_length p = Some (n, h) \<Longrightarrow> 8 \<le> n \<and> (h = 2 \<or> h = 6)"
  by (auto simp: ff_length_def Let_def split: if_splits)

lemma first_outcome:
  assumes inv: "isotp_inv r" and r: "answers_ok r" and f: "frame_wf f"
    and key: "key = (it_rx_id r, frame_channel_id f)" "frame_arbitration_id f = it_rx_id r"
  shows "rx_outcome r f ns (handle_first_frame r f p key now ns)"
proof (cases "length p < 2")
  case True
  then show ?thesis by (simp add: handle_first_frame_def outcome_same [OF inv])
next
  case long: False
  show ?thesis
  proof (cases "ff_length p")
    case None
    then show ?thesis using long by (simp add: handle_first_frame_def outcome_same [OF inv])
  next
    case (Some nh)
    then obtain n h where nh: "ff_length p = Some (n, h)" by (cases nh) auto
    have n: "8 \<le> n" using ff_length_pos [OF nh] by simp
    show ?thesis
    proof (cases "int n > it_max_buffer_size r")
      case True
      have "rx_outcome r f ns (answer (drop_session key r) (create_fc r f fc_overflow ns))"
        by (rule outcome_answer [OF r f inv_pop [OF inv]]) simp
      then show ?thesis using long nh True by (simp add: handle_first_frame_def)
    next
      case False
      let ?first = "take n (drop h p)"
      let ?s = "new_rx_session f n ?first now"
      obtain x where x: "admit_rx_session r key now = r\<lparr>it_sessions := x\<rparr>" "rx_table_ok r x"
        "key \<in> dom (dget x) \<or> length x < MAX_RX_SESSIONS"
        using admit_ok [OF inv] .
      have eval: "handle_first_frame r f p key now ns =
          (if length ?first \<ge> n then (r\<lparr>it_sessions := dpop key (dset key ?s x)\<rparr>, Inr (Some ?first, None))
           else answer (r\<lparr>it_sessions := dset key ?s x\<rparr>) (create_fc r f (fc_cts r) ns))"
        using long nh False x(1) by (simp add: handle_first_frame_def Let_def)
      show ?thesis
      proof (cases "length ?first \<ge> n")
        case True
        have "rx_table_ok r (dpop key (dset key ?s x))"
        proof -
          have "dpop key (dset key ?s x) = dpop key x" by (induction x) auto
          then show ?thesis using rx_table_ok_pop [OF x(2), of key] by simp
        qed
        moreover have "?first \<noteq> []" "int (length ?first) \<le> max 62 (it_max_buffer_size r)"
          using True n False by auto
        ultimately show ?thesis unfolding eval if_P [OF True] by (rule outcome_payload)
      next
        case short: False
        then have "rx_session_ok r key ?s"
          using False key by (simp add: rx_session_ok_def new_rx_session_def)
        then have "rx_table_ok r (dset key ?s x)"
          using x(2,3) rx_table_ok_add rx_table_ok_replace by blast
        then show ?thesis unfolding eval if_not_P [OF short] by (intro outcome_answer [OF r f]) simp_all
      qed
    qed
  qed
qed

lemma rx_append_length:
  assumes "int (length (rxs_received_bytes s)) < rxs_total_bytes s"
  shows "int (length (rxs_received_bytes (rx_append s p now))) \<le> rxs_total_bytes s"
  using assms by (simp add: rx_append_def Let_def min_def) linarith

lemma window_outcome:
  assumes inv: "isotp_inv r" and r: "answers_ok r" and f: "frame_wf f"
    and key: "key \<in> dom (dget (it_sessions r))" "\<And>c. rx_session_ok r key (s\<lparr>rxs_block_count := c\<rparr>)"
  shows "rx_outcome r f ns (rx_window r f key s ns)"
proof -
  have put: "rx_table_ok r (dset key (s\<lparr>rxs_block_count := c\<rparr>) (it_sessions r))" for c
    using inv key by (simp add: isotp_inv_def rx_table_ok_replace)
  have put': "rx_table_ok r (dset key s (it_sessions r))"
    using put [of "rxs_block_count s"] by simp
  show ?thesis
    unfolding rx_window_def Let_def
    using outcome_silent [OF put] outcome_silent [OF put'] outcome_answer [OF r f put] by simp
qed

lemma consecutive_outcome:
  assumes inv: "isotp_inv r" and r: "answers_ok r" and f: "frame_wf f"
  shows "rx_outcome r f ns (handle_consecutive_frame r f p key now ns)"
proof (cases "dget (it_sessions r) key")
  case None
  then show ?thesis by (simp add: handle_consecutive_frame_def outcome_same [OF inv])
next
  case (Some s)
  have ok: "rx_session_ok r key s"
    using inv Some by (auto simp: isotp_inv_def rx_table_ok_def dest: dallD)
  let ?s = "rx_append s p now"
  note fields = rx_append_fields [of s p now]
  have dropped: "rx_outcome r f ns (ignored (drop_session key r))"
    by (rule outcome_silent [OF inv_pop [OF inv]])
  have len: "int (length (rxs_received_bytes ?s)) \<le> rxs_total_bytes s"
    by (rule rx_append_length) (use ok in \<open>simp add: rx_session_ok_def\<close>)
  have total_pos: "0 < rxs_total_bytes s" using ok by (simp add: rx_session_ok_def)
  have done_: "rx_outcome r f ns (drop_session key r,
      Inr (Some (py_prefix (rxs_received_bytes ?s) (rxs_total_bytes ?s)), None))"
    if "int (length (rxs_received_bytes ?s)) \<ge> rxs_total_bytes ?s"
  proof (rule outcome_payload [OF inv_pop [OF inv]])
    have full: "int (length (rxs_received_bytes ?s)) = rxs_total_bytes s" using that len fields by simp
    then have pre: "py_prefix (rxs_received_bytes ?s) (rxs_total_bytes ?s) = rxs_received_bytes ?s"
      using fields total_pos by simp
    show "py_prefix (rxs_received_bytes ?s) (rxs_total_bytes ?s) \<noteq> []"
      unfolding pre using full total_pos by auto
    show "int (length (py_prefix (rxs_received_bytes ?s) (rxs_total_bytes ?s))) \<le> max 62 (it_max_buffer_size r)"
      unfolding pre full using ok by (simp add: rx_session_ok_def le_max_iff_disj)
  qed
  have window: "rx_outcome r f ns (rx_window r f key ?s ns)"
    if "\<not> int (length (rxs_received_bytes ?s)) \<ge> rxs_total_bytes ?s"
  proof (rule window_outcome [OF inv r f])
    show "key \<in> dom (dget (it_sessions r))" using Some by auto
    show "rx_session_ok r key (?s\<lparr>rxs_block_count := c\<rparr>)" for c
      using that ok fields by (simp add: rx_session_ok_def)
  qed
  show ?thesis
    unfolding handle_consecutive_frame_def Some option.case Let_def
    using dropped done_ window outcome_same [OF inv] by simp
qed

lemma rx_frame_outcome:
  assumes inv: "isotp_inv r" and r: "answers_ok r" and f: "frame_wf f"
  shows "rx_outcome r f ns (handle_rx_frame r f now ns)"
proof (cases "frame_arbitration_id f \<noteq> it_rx_id r \<or> length (frame_data f) < 2")
  case True
  then show ?thesis by (auto simp: handle_rx_frame_def outcome_same [OF inv])
next
  case rel: False
  show ?thesis
  proof (cases "npci_view r f")
    case None
    then show ?thesis by (simp add: handle_rx_frame_def outcome_same [OF inv])
  next
    case (Some p)
    have rel': "frame_arbitration_id f = it_rx_id r" "2 \<le> length (frame_data f)" using rel by auto
    show ?thesis
      unfolding handle_view [OF rel' Some] Let_def
      using single_outcome [OF inv] first_outcome [OF inv r f refl rel'(1)]
        consecutive_outcome [OF inv r f] outcome_same [OF inv] by simp
  qed
qed

section \<open>Sequence errors\<close>

lemma consecutive_out_of_order:
  assumes "frame_arbitration_id f = it_rx_id r" "2 \<le> length (frame_data f)"
    and "npci_view r f = Some p" "byte_at p 0 div 16 = 2"
    and s: "dget (it_sessions r) (it_rx_id r, frame_channel_id f) = Some s"
      "rxs_channel_id s = frame_channel_id f"
    and bad: "byte_at p 0 mod 16 \<noteq> rxs_expected_sequence_number s \<or> session_stale now s"
  shows "handle_rx_frame r f now ns =
    (drop_session (it_rx_id r, frame_channel_id f) r, Inr (None, None))"
  unfolding handle_view [OF assms(1-3)] Let_def assms(4) handle_consecutive_frame_def s(1)
  using s(2) bad by auto

section \<open>Seven bytes under an address\<close>

lemma pdus_seven:
  assumes "length d = 7" "addr = 1"
  shows "pdus addr True d = [sf_escape_pci 7 @ d]"
    and "pdus addr False d = [ff_pci 7 @ take 5 d, cf_pci 1 @ drop 5 d]"
proof -
  have "drop 5 d \<noteq> []" using assms(1) by auto
  from cf_pdus_Cons [OF _ this, of 6 1] have "cf_pdus 6 (Suc 0) (drop 5 d) = [cf_pci 1 @ drop 5 d]"
    using assms(1) by (simp add: take_all drop_all)
  then show "pdus addr True d = [sf_escape_pci 7 @ d]"
    "pdus addr False d = [ff_pci 7 @ take 5 d, cf_pci 1 @ drop 5 d]"
    using assms by (simp_all add: pdus_def can_dl_def ff_head_def ff_pci_def Let_def)
qed

lemma run_ignored:
  "list_all (\<lambda>f. \<forall>now ns. handle_rx_frame r f now ns = ignored r) fs \<Longrightarrow>
   isotp_run r (timed fs ts j) = (r, replicate (length fs) (Inr (None, None)))"
proof (induction fs arbitrary: j)
  case (Cons f fs)
  then show ?case
    by (cases "ts j") (simp add: timed_Cons isotp_run_Cons [of r f _ _ r "Inr (None, None)"])
qed simp

lemma seven_ignored_fd:
  assumes "frame_arbitration_id f = it_rx_id r" "2 \<le> length (frame_data f)"
    and "npci_view r f = Some (sf_escape_pci 7 @ rest)"
  shows "handle_rx_frame r f now ns = ignored r"
  unfolding handle_view [OF assms]
  by (simp add: sf_escape_pci_def handle_single_frame_def Let_def)

lemma seven_ignored_first:
  assumes "frame_arbitration_id f = it_rx_id r" "2 \<le> length (frame_data f)"
    and "npci_view r f = Some (ff_pci 7 @ rest)"
  shows "handle_rx_frame r f now ns = ignored r"
proof -
  have bytes: "ff_pci 7 = [0x10, 7]" by (simp add: ff_pci_bytes)
  have "ff_length ([0x10, 7] @ rest) = None" by (simp add: ff_length_def Let_def)
  then show ?thesis
    unfolding handle_view [OF assms] bytes Let_def by (simp add: handle_first_frame_def)
qed

lemma orphan_ignored:
  assumes "frame_arbitration_id f = it_rx_id r" "2 \<le> length (frame_data f)"
    and "npci_view r f = Some (cf_pci 1 @ rest)" "dget (it_sessions r) (it_rx_id r, frame_channel_id f) = None"
  shows "handle_rx_frame r f now ns = ignored r"
  unfolding handle_view [OF assms(1-3)] using assms(4)
  by (simp add: cf_pci_byte handle_consecutive_frame_def Let_def)

section \<open>Sessions of the engine\<close>

datatype isotp_event = Rx_Frame can_frame seconds int | Drop_Own | Drop_All

fun isotp_step :: "isotp_event \<Rightarrow> isotp \<Rightarrow> isotp" where
  "isotp_step (Rx_Frame f now ns) r = fst (handle_rx_frame r f now ns)"
| "isotp_step Drop_Own r = set_rx_session r None"
| "isotp_step Drop_All r = fst (clear_sessions r)"

fun legal_event :: "isotp_event \<Rightarrow> bool" where
  "legal_event (Rx_Frame f now ns) = frame_wf f"
| "legal_event _ = True"

definition isotp_after :: "isotp_event list \<Rightarrow> isotp \<Rightarrow> isotp" where
  "isotp_after evs r = fold isotp_step evs r"

lemma step_inv:
  assumes "isotp_inv r" "answers_ok r" "legal_event e"
  shows "isotp_inv (isotp_step e r) \<and> same_config r (isotp_step e r)"
proof (cases e)
  case (Rx_Frame f now ns)
  then show ?thesis
    using rx_frame_outcome [OF assms(1,2), of f ns now] assms(3) by (auto simp: rx_outcome_def)
next
  case Drop_Own
  then show ?thesis using inv_pop [OF assms(1)] by (simp add: set_rx_session_def isotp_inv_upd)
next
  case Drop_All
  then show ?thesis by (simp add: clear_sessions_def isotp_inv_upd rx_table_ok_def)
qed

lemma after_inv:
  assumes "list_all legal_event evs"
  shows "isotp_inv r \<Longrightarrow> answers_ok r \<Longrightarrow> isotp_inv (isotp_after evs r) \<and> same_config r (isotp_after evs r)"
  using assms
proof (induction evs arbitrary: r)
  case (Cons e evs)
  note step = step_inv [OF Cons.prems(1,2), of e]
  have "isotp_inv (isotp_step e r)" "answers_ok (isotp_step e r)" "same_config r (isotp_step e r)"
    using step Cons.prems(2,3) by (auto simp: same_configD)
  then show ?case
    using Cons.IH [of "isotp_step e r"] Cons.prems(3) same_config_trans
    by (auto simp: isotp_after_def)
qed (simp add: isotp_after_def)

lemma isotp_init_ok:
  assumes "isotp_init tx rx ch pad bs stmin cap mode addr b = Inr r" "0 \<le> tx" "tx < 2 ^ 29"
  shows "answers_ok r" "isotp_inv r" "it_max_buffer_size r = cap" "it_rx_id r = rx" "it_tx_id r = tx"
proof -
  have "it_sessions r = [] \<and> it_tx_id r = tx \<and> it_max_buffer_size r = cap \<and> it_rx_id r = rx"
    using assms(1) by (auto simp: isotp_init_def Let_def split: if_splits option.splits)
  then show "answers_ok r" "isotp_inv r" "it_max_buffer_size r = cap" "it_rx_id r = rx" "it_tx_id r = tx"
    using isotp_init_wf [OF assms(1)] assms(2,3)
    by (simp_all add: answers_ok_def isotp_inv_def rx_table_ok_def)
qed

section \<open>Properties\<close>

definition it_tester :: isotp where
  "it_tester = \<lparr>it_tx_id = 0x7E0, it_rx_id = 0x7E8, it_channel_id = ''uds_ch0'', it_pad_byte = Some 0xCC,
     it_rx_block_size = 2, it_rx_st_min = 0, it_max_buffer_size = 1048576, it_brs = False,
     it_addressing_mode = NORMAL, it_address_byte = None, it_sessions = []\<rparr>"

definition it_ecu :: isotp where
  "it_ecu = it_tester\<lparr>it_tx_id := 0x7E8, it_rx_id := 0x7E0\<rparr>"

lemma it_demo_ok:
  "isotp_wf it_tester" "isotp_ids_ok it_tester" "answers_ok it_ecu" "mirrors it_ecu it_tester"
  by (simp_all add: isotp_wf_def isotp_ids_ok_def answers_ok_def mirrors_def it_ecu_def it_tester_def
      pad_or_default_def channel_id_ok_def CHANNEL_ID_CHARS_def)

text \<open>C24. What \<open>segment_message\<close> emits, a mirrored receiver in any state reassembles: fed the frames
  in order, each within N_Cr of the one before, it delivers exactly the payload with the last frame
  and nothing before it, grants a block after the first frame and after every full block, and
  forgets the session; other sessions change only by reaping and eviction. Excepted are payloads above
  the receiver's buffer and, under EXTENDED and MIXED addressing, payloads of seven bytes, which the
  receiver drops, and classic ones above 4095 bytes.\<close>

theorem isotp_roundtrip:
  assumes "isotp_wf t" "isotp_ids_ok t" "answers_ok r" "mirrors r t"
    and "d \<noteq> []" "length d \<le> (if fd then MAX_UDS_PAYLOAD_FD else MAX_UDS_PAYLOAD_CLASSIC)"
    and "fd \<or> length d \<le> 4095 \<or> it_addressing_mode t = NORMAL" "int (length d) \<le> it_max_buffer_size r"
    and "it_addressing_mode t = NORMAL \<or> length d \<noteq> 7"
    and "\<And>m. fst (ts (Suc m)) - fst (ts m) \<le> ISOTP_TIMEOUT_SEC"
  shows "\<exists>frames. segment_message t d fd brs_arg ns = Inr frames \<and>
    snd (isotp_run r (timed frames ts 0)) = reception r (it_channel_id t) fd d ts 0 (length frames) \<and>
    dget (it_sessions (fst (isotp_run r (timed frames ts 0)))) (it_tx_id t, it_channel_id t) = None"
proof -
  have "fd \<or> length d \<le> 4095 \<or> pci_offset t = 0" using assms(7) by (auto simp: pci_offset_def)
  then obtain frames where f: "segment_message t d fd brs_arg ns = Inr frames"
    "list_all2 (carries t fd) (pdus (pci_offset t) fd d) frames"
    using segment_pdus [OF assms(1,2,5,6)] by blast
  have "length d < 2 ^ 32"
    using assms(6) by (simp add: MAX_UDS_PAYLOAD_FD_def MAX_UDS_PAYLOAD_CLASSIC_def split: if_splits)
  then show ?thesis
    using f pdus_received [where ts = ts, OF assms(1,3,4,5) _ assms(8) _ f(2) assms(10)] assms(4,9)
    by (auto simp: mirrors_def)
qed

theorem isotp_roundtrip_witness:
  "\<exists>frames. segment_message it_tester (replicate 20 7) False None 5 = Inr frames \<and>
    snd (isotp_run it_ecu (timed frames (\<lambda>j. (of_nat j / 2, int j)) 0)) =
      reception it_ecu (it_channel_id it_tester) False (replicate 20 7) (\<lambda>j. (of_nat j / 2, int j)) 0 (length frames) \<and>
    dget (it_sessions (fst (isotp_run it_ecu (timed frames (\<lambda>j. (of_nat j / 2, int j)) 0))))
      (it_tx_id it_tester, it_channel_id it_tester) = None"
  by (rule isotp_roundtrip [OF it_demo_ok])
    (simp_all add: MAX_UDS_PAYLOAD_CLASSIC_def it_ecu_def it_tester_def ISOTP_TIMEOUT_SEC_def field_simps)

text \<open>\<open>segment_message\<close> is total: an empty payload gives no frame, one above the cap and a long
  classic one under an address are refused with their own errors, and every other payload becomes
  exactly the PDUs of the standard's segmentation, one to a frame, each frame legal, on the
  transport's identifier and channel and in the asked format.\<close>

theorem segmentation_outcome:
  assumes "isotp_wf t" "isotp_ids_ok t"
  shows "if d = [] then segment_message t d fd brs_arg ns = Inr []
    else if length d > (if fd then MAX_UDS_PAYLOAD_FD else MAX_UDS_PAYLOAD_CLASSIC)
      then segment_message t d fd brs_arg ns = Inl IsoTpPayloadTooLargeError
    else if \<not> fd \<and> it_addressing_mode t \<noteq> NORMAL \<and> length d > 4095
      then segment_message t d fd brs_arg ns = Inl IsoTpError
    else \<exists>frames. segment_message t d fd brs_arg ns = Inr frames \<and>
      list_all2 (carries t fd) (pdus (pci_offset t) fd d) frames"
proof -
  have "segment_message t d fd brs_arg ns = Inl IsoTpError"
    if "d \<noteq> []" "\<not> length d > (if fd then MAX_UDS_PAYLOAD_FD else MAX_UDS_PAYLOAD_CLASSIC)"
      "\<not> fd" "it_addressing_mode t \<noteq> NORMAL" "length d > 4095"
    using that by (simp add: segment_message_def segment_classic_def Let_def pci_offset_def)
  moreover have "\<exists>frames. segment_message t d fd brs_arg ns = Inr frames \<and>
      list_all2 (carries t fd) (pdus (pci_offset t) fd d) frames"
    if "d \<noteq> []" "\<not> length d > (if fd then MAX_UDS_PAYLOAD_FD else MAX_UDS_PAYLOAD_CLASSIC)"
      "\<not> (\<not> fd \<and> it_addressing_mode t \<noteq> NORMAL \<and> length d > 4095)"
  proof (rule segment_pdus [OF assms that(1)])
    show "length d \<le> (if fd then MAX_UDS_PAYLOAD_FD else MAX_UDS_PAYLOAD_CLASSIC)"
      using that(2) by (rule not_less [THEN iffD1])
    show "fd \<or> length d \<le> 4095 \<or> pci_offset t = 0" using that(3) by (auto simp: pci_offset_def)
  qed
  ultimately show ?thesis by (simp add: segment_message_def Let_def)
qed

theorem segmentation_outcome_witness:
  "\<exists>frames. segment_message it_tester (replicate 20 7) False None 5 = Inr frames \<and>
      list_all2 (carries it_tester False) (pdus (pci_offset it_tester) False (replicate 20 7)) frames"
  using segmentation_outcome [OF it_demo_ok(1,2), of "replicate 20 7" False None 5]
  by (simp add: MAX_UDS_PAYLOAD_CLASSIC_def)

text \<open>Whatever legal frames arrive and however often sessions are dropped, the engine holds at
  most 512 reassemblies, one per key, each on the identifier it listens to, never full and never
  announced above its buffer limit.\<close>

theorem isotp_sessions_bounded:
  assumes "isotp_init tx rx ch pad bs stmin cap mode addr b = Inr r0" "0 \<le> tx" "tx < 2 ^ 29"
    and "list_all legal_event evs"
  shows "length (it_sessions (isotp_after evs r0)) \<le> 512 \<and>
    distinct (map fst (it_sessions (isotp_after evs r0))) \<and>
    (\<forall>key s. dget (it_sessions (isotp_after evs r0)) key = Some s \<longrightarrow>
      key = (rx, rxs_channel_id s) \<and> int (length (rxs_received_bytes s)) < rxs_total_bytes s \<and>
      rxs_total_bytes s \<le> cap \<and> 0 \<le> rxs_expected_sequence_number s \<and> rxs_expected_sequence_number s < 16)"
proof -
  note init = isotp_init_ok [OF assms(1-3)]
  have inv: "isotp_inv (isotp_after evs r0)" "same_config r0 (isotp_after evs r0)"
    using after_inv [OF assms(4) init(2,1)] by simp_all
  have tab: "rx_table_ok (isotp_after evs r0) (it_sessions (isotp_after evs r0))"
    using inv(1) by (simp add: isotp_inv_def)
  have "key = (rx, rxs_channel_id s) \<and> int (length (rxs_received_bytes s)) < rxs_total_bytes s \<and>
      rxs_total_bytes s \<le> cap \<and> 0 \<le> rxs_expected_sequence_number s \<and> rxs_expected_sequence_number s < 16"
    if "dget (it_sessions (isotp_after evs r0)) key = Some s" for key s
  proof -
    have "rx_session_ok (isotp_after evs r0) key s"
      by (rule dallD [OF _ that]) (use tab in \<open>simp add: rx_table_ok_def\<close>)
    then show ?thesis using same_configD(6,7) [OF inv(2)] init(3,4) by (simp add: rx_session_ok_def)
  qed
  moreover have "length (it_sessions (isotp_after evs r0)) \<le> 512"
    "distinct (map fst (it_sessions (isotp_after evs r0)))"
    using tab by (simp_all add: rx_table_ok_def MAX_RX_SESSIONS_def)
  ultimately show ?thesis by blast
qed

definition it_frame :: "int \<Rightarrow> bytes \<Rightarrow> can_frame" where
  "it_frame arb d = seg ''uds_ch0'' arb None False False 0 8 8 d"

lemma it_frame_wf:
  "0 \<le> arb \<Longrightarrow> arb < 2 ^ 29 \<Longrightarrow> length d \<le> 8 \<Longrightarrow> d \<noteq> [] \<Longrightarrow> frame_wf (it_frame arb d)"
  unfolding it_frame_def
  by (rule tx_frame_seg) (simp_all add: dlc_8 pad_or_default_def channel_id_ok_def CHANNEL_ID_CHARS_def)

theorem isotp_sessions_bounded_witness:
  "\<exists>r0. isotp_init 0x7E8 0x7E0 ''uds_ch0'' None 2 0 4096 NORMAL None False = Inr r0 \<and>
    length (it_sessions (isotp_after [Rx_Frame (it_frame 0x7E0 [0x10, 20, 1, 2, 3, 4, 5, 6]) 0 0, Drop_Own] r0)) \<le> 512"
proof -
  obtain r0 where r0: "isotp_init 0x7E8 0x7E0 ''uds_ch0'' None 2 0 4096 NORMAL None False = Inr r0"
    by (simp add: isotp_init_def Let_def)
  have "list_all legal_event [Rx_Frame (it_frame 0x7E0 [0x10, 20, 1, 2, 3, 4, 5, 6]) 0 0, Drop_Own]"
    by (simp add: it_frame_wf)
  from isotp_sessions_bounded [OF r0 _ _ this] show ?thesis using r0 by auto
qed

text \<open>In every state the engine reaches, a legal frame raises nothing. It delivers a payload, not
  empty and within the limits, or causes at most one frame, which is legal, leaves on the frame's
  channel under the transport's own identifier and is either OVERFLOW or a grant with the
  configured block size and STmin.\<close>

theorem isotp_rx_total:
  assumes "isotp_init tx rx ch pad bs stmin cap mode addr b = Inr r0" "0 \<le> tx" "tx < 2 ^ 29"
    and "list_all legal_event evs" "r = isotp_after evs r0" "frame_wf f"
  shows "\<exists>r' p fc. handle_rx_frame r f now ns = (r', Inr (p, fc)) \<and> (p = None \<or> fc = None) \<and>
    (\<forall>d. p = Some d \<longrightarrow> d \<noteq> [] \<and> int (length d) \<le> max 62 cap) \<and>
    (\<forall>g. fc = Some g \<longrightarrow> frame_wf g \<and> frame_arbitration_id g = tx \<and> frame_channel_id g = frame_channel_id f \<and>
      (\<exists>head\<in>{fc_overflow, fc_cts r0}. frame_data g = wrap_npci r0 (fc_data r0 head)))"
proof -
  note init = isotp_init_ok [OF assms(1-3)]
  have inv: "isotp_inv r" "same_config r0 r"
    using after_inv [OF assms(4) init(2,1)] by (simp_all add: assms(5))
  note cfg = same_configD [OF inv(2)]
  have "answers_ok r" using cfg(2) init(1) by simp
  from rx_frame_outcome [OF inv(1) this assms(6), of ns now] obtain r' p fc where
    out: "handle_rx_frame r f now ns = (r', Inr (p, fc))" "p = None \<or> fc = None"
      "\<forall>d. p = Some d \<longrightarrow> d \<noteq> [] \<and> int (length d) \<le> max 62 (it_max_buffer_size r)"
      "\<forall>g. fc = Some g \<longrightarrow> frame_wf g \<and>
        (\<exists>head\<in>{fc_overflow, fc_cts r}. g = fc_frame r head (frame_channel_id f) (frame_is_fd f) ns)"
    unfolding rx_outcome_def by blast
  have "frame_arbitration_id g = tx \<and> frame_channel_id g = frame_channel_id f \<and>
      (\<exists>head\<in>{fc_overflow, fc_cts r0}. frame_data g = wrap_npci r0 (fc_data r0 head))" if "fc = Some g" for g
    using that out(4) cfg(3,4) init(5) by (auto simp: fc_frame_def)
  moreover have "it_max_buffer_size r = cap" using cfg(7) init(3) by simp
  ultimately show ?thesis
    using out by (intro exI [of _ r'] exI [of _ p] exI [of _ fc]) blast
qed

theorem isotp_rx_total_witness:
  "\<exists>r0 r' p fc. isotp_init 0x7E8 0x7E0 ''uds_ch0'' None 2 0 4096 NORMAL None False = Inr r0 \<and>
    handle_rx_frame (isotp_after [] r0) (it_frame 0x7E0 [0x10, 20, 1, 2, 3, 4, 5, 6]) 0 0 = (r', Inr (p, fc)) \<and>
    (p = None \<or> fc = None)"
proof -
  obtain r0 where r0: "isotp_init 0x7E8 0x7E0 ''uds_ch0'' None 2 0 4096 NORMAL None False = Inr r0"
    by (simp add: isotp_init_def Let_def)
  have "list_all legal_event []" "frame_wf (it_frame 0x7E0 [0x10, 20, 1, 2, 3, 4, 5, 6])"
    by (simp_all add: it_frame_wf)
  from isotp_rx_total [OF r0 _ _ this(1) refl this(2), of 0 0] show ?thesis using r0 by auto
qed

text \<open>The engine cannot deliver seven bytes under EXTENDED or MIXED addressing to its own mirror
  image: \<open>segment_message\<close> accepts them, and the receiver ignores every frame it emits, in both
  formats.\<close>

theorem seven_bytes_lost:
  assumes "isotp_wf t" "isotp_ids_ok t" "mirrors r t" "it_addressing_mode t \<noteq> NORMAL"
    and "length d = 7" "dget (it_sessions r) (it_tx_id t, it_channel_id t) = None"
  shows "\<exists>frames. segment_message t d fd brs_arg ns = Inr frames \<and> frames \<noteq> [] \<and>
    isotp_run r (timed frames ts 0) = (r, replicate (length frames) (Inr (None, None)))"
proof -
  have one: "pci_offset t = 1" using assms(4) by (simp add: pci_offset_def)
  obtain frames where f: "segment_message t d fd brs_arg ns = Inr frames"
    "list_all2 (carries t fd) (pdus 1 fd d) frames"
    using segment_pdus [OF assms(1,2), of d fd brs_arg ns] assms(5) one
    by (cases "d = []"; cases fd) (auto simp: MAX_UDS_PAYLOAD_FD_def MAX_UDS_PAYLOAD_CLASSIC_def)
  have ignored: "handle_rx_frame r g now ns = ignored r"
    if g0: "carries t fd (p @ x) g" "p = sf_escape_pci 7 \<or> p = ff_pci 7 \<or> p = cf_pci 1" for p x g now ns
  proof -
    have ne: "p @ x \<noteq> []" using g0(2) by (auto simp: sf_escape_pci_def ff_pci_def cf_pci_def)
    obtain pad where v: "npci_view r g = Some ((p @ x) @ pad)" "frame_data g = wrap_npci t (p @ x) @ pad"
      using carries_view [OF assms(1,3) g0(1) ne] .
    have g: "frame_arbitration_id g = it_rx_id r" "frame_channel_id g = it_channel_id t" "2 \<le> length (frame_data g)"
      using g0 v(2) assms(1,3) one by (auto simp: carries_def mirrors_def sf_escape_pci_def ff_pci_def cf_pci_def)
    show ?thesis
      using g0(2) seven_ignored_fd [OF g(1,3), of "x @ pad"] seven_ignored_first [OF g(1,3), of "x @ pad"]
        orphan_ignored [OF g(1,3), of "x @ pad"] v(1) assms(3,6) g(2) by (auto simp: mirrors_def)
  qed
  have "list_all (\<lambda>g. \<forall>now ns. handle_rx_frame r g now ns = ignored r) frames \<and> frames \<noteq> []"
  proof (cases fd)
    case True
    then have "list_all2 (carries t fd) [sf_escape_pci 7 @ d] frames"
      using f(2) pdus_seven(1) [OF assms(5) refl] by simp
    then show ?thesis using ignored [of "sf_escape_pci 7" d] by (auto simp: list_all2_Cons1)
  next
    case False
    then have "list_all2 (carries t fd) [ff_pci 7 @ take 5 d, cf_pci 1 @ drop 5 d] frames"
      using f(2) pdus_seven(2) [OF assms(5) refl] by simp
    then show ?thesis
      using ignored [of "ff_pci 7" "take 5 d"] ignored [of "cf_pci 1" "drop 5 d"]
      by (auto simp: list_all2_Cons1)
  qed
  then show ?thesis using f(1) run_ignored by blast
qed

definition it_mixed :: isotp where
  "it_mixed = it_tester\<lparr>it_addressing_mode := MIXED, it_address_byte := Some 0xF1\<rparr>"

theorem seven_bytes_lost_witness:
  "\<exists>frames. segment_message it_mixed [0x31, 1, 0xFF, 0, 1, 2, 3] False None 5 = Inr frames \<and> frames \<noteq> [] \<and>
    isotp_run (it_mixed\<lparr>it_tx_id := 0x7E8, it_rx_id := 0x7E0\<rparr>) (timed frames (\<lambda>j. (0, 0)) 0) =
      (it_mixed\<lparr>it_tx_id := 0x7E8, it_rx_id := 0x7E0\<rparr>, replicate (length frames) (Inr (None, None)))"
  by (rule seven_bytes_lost) (simp_all add: it_mixed_def isotp_wf_def isotp_ids_ok_def mirrors_def it_tester_def
      pad_or_default_def channel_id_ok_def CHANNEL_ID_CHARS_def)

end
