(* ===== verification/IsoTpAsync.thy ===== *)
theory IsoTpAsync
  imports IsoTp
begin

text \<open>
  \<open>src/protocols/uds/isotp.py\<close>: the asynchronous state machines \<open>IsoTpSender\<close> and
  \<open>IsoTpReceiver\<close>. What they await is an environment: the \<open>k\<close>-th reading of the clock, the \<open>k\<close>-th
  result of \<open>rx_sub.recv\<close> (None when its timeout ran out), what becomes of the \<open>k\<close>-th frame given to
  the port, and the stamp of the \<open>k\<close>-th frame built. A link counts what has been used of it and
  records what left: frames, pauses, the flow control frames that were obeyed. The loops that wait
  may not end, so they are partial functions: None is a call that never returns.
  Clock readings that only fill the text of an exception are not counted.
\<close>

section \<open>The environment\<close>

text \<open>A frame given to the port is transmitted in time, completed in the grace period after N_As,
  still stuck after it, or refused with an exception.\<close>

datatype port_result = Port_Done | Port_Late | Port_Stuck | Port_Raises py_error

record isotp_env =
  env_clock :: "nat \<Rightarrow> seconds"
  env_recv :: "nat \<Rightarrow> can_frame option"
  env_port :: "nat \<Rightarrow> port_result"
  env_stamp :: "nat \<Rightarrow> int"

datatype link_event = Sent can_frame | Paused rat | Flow can_frame

record link =
  lk_ticks :: nat
  lk_recvs :: nat
  lk_sends :: nat
  lk_trace :: "link_event list"

definition link_init :: link where
  "link_init = \<lparr>lk_ticks = 0, lk_recvs = 0, lk_sends = 0, lk_trace = []\<rparr>"

abbreviation tick :: "link \<Rightarrow> link" where
  "tick l \<equiv> l\<lparr>lk_ticks := Suc (lk_ticks l)\<rparr>"

abbreviation clock_now :: "isotp_env \<Rightarrow> link \<Rightarrow> seconds" where
  "clock_now env l \<equiv> env_clock env (lk_ticks l)"

abbreviation received :: "link \<Rightarrow> link" where
  "received l \<equiv> l\<lparr>lk_recvs := Suc (lk_recvs l)\<rparr>"

definition note_event :: "link_event \<Rightarrow> link \<Rightarrow> link" where
  "note_event e l = l\<lparr>lk_trace := lk_trace l @ [e]\<rparr>"

definition give_frame :: "can_frame \<Rightarrow> link \<Rightarrow> link" where
  "give_frame f l = (note_event (Sent f) l)\<lparr>lk_sends := Suc (lk_sends l)\<rparr>"

section \<open>The sender\<close>

record isotp_sender =
  sn_tx_id :: int
  sn_rx_id :: int
  sn_channel_id :: "string option"
  sn_is_fd :: bool
  sn_pad_byte :: "int option"
  sn_n_bs_timeout_s :: seconds
  sn_wft_max :: int

text \<open>\<open>self.channel_id or "uds_ch0"\<close>\<close>

definition out_channel :: "string option \<Rightarrow> string" where
  "out_channel ch = (case ch of None \<Rightarrow> ''uds_ch0'' | Some c \<Rightarrow> if c = '''' then ''uds_ch0'' else c)"

definition build_frame :: "isotp_sender \<Rightarrow> bytes \<Rightarrow> bool \<Rightarrow> int \<Rightarrow> can_frame py" where
  "build_frame s d fd ns =
     py_bind (if fd then length_to_dlc (int (length d)) else Inr 8) (\<lambda>dlc.
       tx_frame (out_channel (sn_channel_id s)) (sn_tx_id s) (sn_pad_byte s) fd False ns dlc d)"

definition send_with_n_as :: "isotp_env \<Rightarrow> can_frame \<Rightarrow> link \<Rightarrow> link \<times> unit py" where
  "send_with_n_as env f l =
     (give_frame f l,
      case env_port env (lk_sends l) of
        Port_Done \<Rightarrow> Inr ()
      | Port_Late \<Rightarrow> Inl (IsoTpTimeoutError ''N_As'')
      | Port_Stuck \<Rightarrow> Inl (IsoTpTimeoutError ''N_As'')
      | Port_Raises e \<Rightarrow> Inl e)"

text \<open>Building a frame and sending it, as every branch of \<open>send\<close> does.\<close>

definition emit :: "isotp_sender \<Rightarrow> isotp_env \<Rightarrow> bytes \<Rightarrow> bool \<Rightarrow> link \<Rightarrow> link \<times> unit py" where
  "emit s env d fd l =
     (case build_frame s d fd (env_stamp env (lk_sends l)) of
        Inl e \<Rightarrow> (l, Inl e)
      | Inr f \<Rightarrow> send_with_n_as env f l)"

text \<open>\<open>_apply_st_min\<close>: the pause in milliseconds, none for a zero byte.\<close>

definition st_min_pause :: "int \<Rightarrow> rat option" where
  "st_min_pause b =
     (if b = 0x00 then None
      else if 0x01 \<le> b \<and> b \<le> 0x7F then Some (of_int b)
      else if 0xF1 \<le> b \<and> b \<le> 0xF9 then Some (of_int ((b - 0xF0) * 100) / 1000)
      else Some (min (decode_st_min b) 10))"

definition apply_st_min :: "int \<Rightarrow> link \<Rightarrow> link" where
  "apply_st_min b l = (case st_min_pause b of None \<Rightarrow> l | Some ms \<Rightarrow> note_event (Paused ms) l)"

text \<open>Which frames \<open>_await_flow_control\<close> passes over.\<close>

definition fc_relevant :: "isotp_sender \<Rightarrow> can_frame \<Rightarrow> bool" where
  "fc_relevant s f \<longleftrightarrow> \<not> (frame_arbitration_id f \<noteq> sn_rx_id s \<or> length (frame_data f) < 3 \<or>
     (case sn_channel_id s of None \<Rightarrow> False | Some c \<Rightarrow> frame_channel_id f \<noteq> c))"

partial_function (option) await_fc_loop ::
  "isotp_sender \<Rightarrow> isotp_env \<Rightarrow> seconds \<Rightarrow> link \<Rightarrow> (link \<times> can_frame py) option" where
  "await_fc_loop s env start l =
     (let elapsed = clock_now env l - start;
          remaining = sn_n_bs_timeout_s s - elapsed;
          l = tick l
      in
      if remaining \<le> 0 then Some (l, Inl (IsoTpTimeoutError ''N_Bs''))
      else (case env_recv env (lk_recvs l) of
              None \<Rightarrow> Some (received l, Inl (IsoTpTimeoutError ''N_Bs''))
            | Some f \<Rightarrow>
                if \<not> fc_relevant s f then await_fc_loop s env start (received l)
                else if drop_bit 4 (byte_at (frame_data f) 0) = PCI_FLOW_CONTROL
                  then Some (note_event (Flow f) (received l), Inr f)
                else await_fc_loop s env start (received l)))"

definition await_flow_control :: "isotp_sender \<Rightarrow> isotp_env \<Rightarrow> link \<Rightarrow> (link \<times> can_frame py) option" where
  "await_flow_control s env l = await_fc_loop s env (clock_now env l) (tick l)"

text \<open>The consecutive frames of one grant: until the block is full or the payload is out.\<close>

definition max_cf_chunk :: "isotp_sender \<Rightarrow> nat" where
  "max_cf_chunk s = (if sn_is_fd s then 63 else 7)"

function block_loop ::
  "isotp_sender \<Rightarrow> isotp_env \<Rightarrow> bytes \<Rightarrow> int \<Rightarrow> int \<Rightarrow> link \<Rightarrow> nat \<Rightarrow> int \<Rightarrow> int \<Rightarrow> link \<times> (nat \<times> int) py" where
  "block_loop s env d bs st_min l bytes_sent seq_num block_count =
     (if bytes_sent < length d then
        (let l = apply_st_min st_min l;
             chunk = take (max_cf_chunk s) (drop bytes_sent d)
         in case emit s env (cf_pci seq_num @ chunk) (sn_is_fd s) l of
              (l, Inl e) \<Rightarrow> (l, Inl e)
            | (l, Inr _) \<Rightarrow>
                let bytes_sent = bytes_sent + length chunk;
                    seq_num = (seq_num + 1) AND 0x0F;
                    block_count = block_count + 1
                in if bs > 0 \<and> block_count \<ge> bs \<and> bytes_sent < length d
                   then (l, Inr (bytes_sent, seq_num))
                   else block_loop s env d bs st_min l bytes_sent seq_num block_count)
      else (l, Inr (bytes_sent, seq_num)))"
  by pat_completeness auto
termination
  by (relation "measure (\<lambda>(s, env, d, bs, st_min, l, bytes_sent, seq_num, block_count).
        length d - bytes_sent)") (auto simp: max_cf_chunk_def)

declare block_loop.simps [simp del]

partial_function (option) flow_loop ::
  "isotp_sender \<Rightarrow> isotp_env \<Rightarrow> bytes \<Rightarrow> link \<Rightarrow> nat \<Rightarrow> int \<Rightarrow> int \<Rightarrow> (link \<times> unit py) option" where
  "flow_loop s env d l bytes_sent seq_num wft_count =
     (if bytes_sent < length d then
        Option.bind (await_flow_control s env l) (\<lambda>(l, r). case r of
          Inl e \<Rightarrow> Some (l, Inl e)
        | Inr fc \<Rightarrow>
            let fs = byte_at (frame_data fc) 0 AND 0x0F in
            if fs = FS_OVERFLOW then Some (l, Inl IsoTpBufferOverflowError)
            else if fs = FS_WAIT then
              (if wft_count + 1 > sn_wft_max s then Some (l, Inl (IsoTpTimeoutError ''N_Bs''))
               else flow_loop s env d l bytes_sent seq_num (wft_count + 1))
            else if fs = FS_CTS then
              (case block_loop s env d (byte_at (frame_data fc) 1) (byte_at (frame_data fc) 2)
                      l bytes_sent seq_num 0 of
                 (l, Inl e) \<Rightarrow> Some (l, Inl e)
               | (l, Inr (bytes_sent, seq_num)) \<Rightarrow> flow_loop s env d l bytes_sent seq_num 0)
            else Some (l, Inl (IsoTpFlowControlError fs)))
      else Some (l, Inr ()))"

definition isotp_send :: "isotp_sender \<Rightarrow> isotp_env \<Rightarrow> bytes \<Rightarrow> link \<Rightarrow> (link \<times> unit py) option" where
  "isotp_send s env d l =
     (let n = length d; fd = sn_is_fd s;
          cap = (if fd then MAX_UDS_PAYLOAD_FD else MAX_UDS_PAYLOAD_CLASSIC)
      in
      if n = 0 then Some (l, Inr ())
      else if n > cap then Some (l, Inl IsoTpPayloadTooLargeError)
      else if n \<le> 7 then Some (emit s env (sf_pci n @ d) fd l)
      else if fd \<and> n \<le> 62 then Some (emit s env (sf_escape_pci n @ d) True l)
      else
        (case (if n \<le> 4095 then Inr (ff_pci n, if fd then 62 else 6)
               else py_bind (ff_escape_pci n) (\<lambda>pci. Inr (pci, if fd then 58 else 2))) of
           Inl e \<Rightarrow> Some (l, Inl e)
         | Inr (ff_header, ff_payload_size) \<Rightarrow>
             let ff_chunk = take ff_payload_size d in
             case emit s env (ff_header @ ff_chunk) fd l of
               (l, Inl e) \<Rightarrow> Some (l, Inl e)
             | (l, Inr _) \<Rightarrow> flow_loop s env d l (length ff_chunk) 1 0))"

section \<open>The receiver\<close>

record isotp_receiver =
  rc_tx_id :: int
  rc_rx_id :: int
  rc_channel_id :: "string option"
  rc_is_fd :: bool
  rc_block_size :: int
  rc_st_min :: int
  rc_pad_byte :: "int option"
  rc_max_buffer_size :: int
  rc_n_cr_timeout_s :: seconds

definition build_fc_frame :: "isotp_receiver \<Rightarrow> int \<Rightarrow> int \<Rightarrow> can_frame py" where
  "build_fc_frame r flow_status ns =
     py_bind (byte_of (pad_or_default (rc_pad_byte r))) (\<lambda>pad.
       can_frame_create (out_channel (rc_channel_id r)) (rc_tx_id r)
         ([word_of_int (push_bit 4 PCI_FLOW_CONTROL OR (flow_status AND 0x0F)),
           word_of_int (rc_block_size r AND 0xFF), word_of_int (rc_st_min r AND 0xFF)] @ replicate 5 pad)
         (Some (rc_tx_id r > 0x7FF)) (rc_is_fd r) False False None ''tx'' None
         ''physical'' ''active'' ns)"

text \<open>The receiver awaits the port without a limit: a late frame is a slow one.\<close>

definition send_fc :: "isotp_receiver \<Rightarrow> isotp_env \<Rightarrow> int \<Rightarrow> link \<Rightarrow> link \<times> unit py" where
  "send_fc r env flow_status l =
     (case build_fc_frame r flow_status (env_stamp env (lk_sends l)) of
        Inl e \<Rightarrow> (l, Inl e)
      | Inr f \<Rightarrow> (give_frame f l, case env_port env (lk_sends l) of Port_Raises e \<Rightarrow> Inl e | _ \<Rightarrow> Inr ()))"

text \<open>How the wait for consecutive frames ends: with the message, or with a single or first frame
  that resets the reception.\<close>

datatype cf_result = Complete bytes | Reset can_frame

definition cf_relevant :: "isotp_receiver \<Rightarrow> can_frame \<Rightarrow> bool" where
  "cf_relevant r f \<longleftrightarrow>
     (case rc_channel_id r of None \<Rightarrow> True | Some c \<Rightarrow> frame_channel_id f = c) \<and>
     frame_arbitration_id f = rc_rx_id r \<and> 2 \<le> length (frame_data f) \<and> frame_is_fd f = rc_is_fd r"

partial_function (option) reassembly_loop ::
  "isotp_receiver \<Rightarrow> isotp_env \<Rightarrow> seconds option \<Rightarrow> nat \<Rightarrow> can_frame \<Rightarrow> link \<Rightarrow> bytes \<Rightarrow> int \<Rightarrow> int \<Rightarrow>
   seconds \<Rightarrow> (link \<times> cf_result py) option" where
  "reassembly_loop r env deadline_outer ff_dl frame l buffer expected_sn block_count deadline_cr =
     (if \<not> length buffer < ff_dl then Some (l, Inr (Reset frame))
      else
        let now_mono = clock_now env l; l = tick l; remaining_cr = deadline_cr - now_mono in
        if (case deadline_outer of None \<Rightarrow> False | Some t \<Rightarrow> now_mono \<ge> t) then Some (l, Inl TimeoutError)
        else if remaining_cr \<le> 0 then Some (l, Inl (IsoTpTimeoutError ''N_Cr''))
        else (case env_recv env (lk_recvs l) of
          None \<Rightarrow> Some (received l, Inl (IsoTpTimeoutError ''N_Cr''))
        | Some f \<Rightarrow>
            let l = received l; pci = drop_bit 4 (byte_at (frame_data f) 0) in
            if \<not> cf_relevant r f then
              reassembly_loop r env deadline_outer ff_dl frame l buffer expected_sn block_count deadline_cr
            else if pci = PCI_SINGLE_FRAME \<or> pci = PCI_FIRST_FRAME then Some (l, Inr (Reset f))
            else if pci \<noteq> PCI_CONSECUTIVE_FRAME then
              reassembly_loop r env deadline_outer ff_dl frame l buffer expected_sn block_count deadline_cr
            else
              let sn = byte_at (frame_data f) 0 AND 0x0F in
              if sn \<noteq> expected_sn then Some (l, Inl (IsoTpSequenceError expected_sn sn))
              else
                let needed = ff_dl - length buffer;
                    c_len = min needed (length (frame_data f) - 1);
                    buffer = buffer @ take c_len (drop 1 (frame_data f));
                    deadline_cr = clock_now env l + rc_n_cr_timeout_s r;
                    l = tick l;
                    expected_sn = (expected_sn + 1) AND 0x0F;
                    block_count = block_count + 1
                in
                if length buffer \<ge> ff_dl then Some (l, Inr (Complete (take ff_dl buffer)))
                else if rc_block_size r > 0 \<and> block_count \<ge> rc_block_size r then
                  (case send_fc r env FS_CTS l of
                     (l, Inl e) \<Rightarrow> Some (l, Inl e)
                   | (l, Inr _) \<Rightarrow>
                       reassembly_loop r env deadline_outer ff_dl frame l buffer expected_sn 0 deadline_cr)
                else
                  reassembly_loop r env deadline_outer ff_dl frame l buffer expected_sn block_count
                    deadline_cr))"

definition receive_single :: "isotp_receiver \<Rightarrow> can_frame \<Rightarrow> bytes py" where
  "receive_single r f =
     (let d = frame_data f in
      if byte_at d 0 AND 0x0F = 0 then
        (if \<not> rc_is_fd r \<and> \<not> frame_is_fd f then Inl IsoTpInvalidPduError
         else if length d \<le> 8 then Inl IsoTpInvalidPduError
         else
           let sf_len = unat (d ! 1) in
           if sf_len < 8 \<or> sf_len > 62 then Inl IsoTpInvalidPduError
           else if sf_len > length d - 2 then Inl IsoTpInvalidPduError
           else Inr (take sf_len (drop 2 d)))
      else
        let sf_len = nat (byte_at d 0 AND 0x0F) in
        if sf_len > 7 \<or> sf_len > length d - 1 then Inl IsoTpInvalidPduError
        else Inr (take sf_len (drop 1 d)))"

definition receive_ff_length :: "can_frame \<Rightarrow> (nat \<times> nat) py" where
  "receive_ff_length f =
     (let d = frame_data f in
      if length d \<ge> 6 \<and> d ! 0 = 0x10 \<and> d ! 1 = 0x00 then
        (let ff_dl = nat (from_be (take 4 (drop 2 d))) in
         if ff_dl \<le> 4095 then Inl IsoTpInvalidPduError else Inr (ff_dl, 6))
      else
        (let ff_dl = nat (push_bit 8 (byte_at d 0 AND 0x0F) OR byte_at d 1) in
         if frame_is_fd f \<and> ff_dl \<le> 62 then Inl IsoTpInvalidPduError
         else if ff_dl < 8 then Inl IsoTpInvalidPduError
         else Inr (ff_dl, 2)))"

text \<open>What a first frame leads to: an exception, a message it carries whole, or the wait for
  consecutive frames after the grant.\<close>

definition receive_first ::
  "isotp_receiver \<Rightarrow> isotp_env \<Rightarrow> seconds option \<Rightarrow> can_frame \<Rightarrow> link \<Rightarrow> (link \<times> cf_result py) option" where
  "receive_first r env deadline_outer f l =
     (case receive_ff_length f of
        Inl e \<Rightarrow> Some (l, Inl e)
      | Inr (ff_dl, header_len) \<Rightarrow>
          if int ff_dl > rc_max_buffer_size r then
            (case send_fc r env FS_OVERFLOW l of
               (l, Inl e) \<Rightarrow> Some (l, Inl e)
             | (l, Inr _) \<Rightarrow> Some (l, Inl IsoTpBufferOverflowError))
          else
            let buffer = take ff_dl (drop header_len (frame_data f)) in
            if length buffer \<ge> ff_dl then Some (l, Inr (Complete (take ff_dl buffer)))
            else
              (case send_fc r env FS_CTS l of
                 (l, Inl e) \<Rightarrow> Some (l, Inl e)
               | (l, Inr _) \<Rightarrow>
                   reassembly_loop r env deadline_outer ff_dl f (tick l) buffer 1 0
                     (clock_now env l + rc_n_cr_timeout_s r)))"

definition rx_relevant :: "isotp_receiver \<Rightarrow> can_frame \<Rightarrow> bool" where
  "rx_relevant r f \<longleftrightarrow>
     (case rc_channel_id r of None \<Rightarrow> True | Some c \<Rightarrow> frame_channel_id f = c) \<and>
     frame_arbitration_id f = rc_rx_id r \<and> 2 \<le> length (frame_data f)"

text \<open>The outer loop; \<open>pending\<close> is the frame a reset left to be processed.\<close>

partial_function (option) receive_loop ::
  "isotp_receiver \<Rightarrow> isotp_env \<Rightarrow> seconds \<Rightarrow> seconds option \<Rightarrow> can_frame option \<Rightarrow> link \<Rightarrow>
   (link \<times> bytes py) option" where
  "receive_loop r env start timeout_s pending l =
     (let (l, expired, frame) =
        (case pending of
           Some f \<Rightarrow> (l, False, Some f)
         | None \<Rightarrow>
             (case timeout_s of
                None \<Rightarrow> (received l, False, env_recv env (lk_recvs l))
              | Some t \<Rightarrow>
                  if t - (clock_now env l - start) \<le> 0 then (tick l, True, None)
                  else (received (tick l), False, env_recv env (lk_recvs l))))
      in
      if expired then Some (l, Inl TimeoutError)
      else (case frame of
        None \<Rightarrow> Some (l, Inl TimeoutError)
      | Some f \<Rightarrow>
          if \<not> rx_relevant r f then receive_loop r env start timeout_s None l
          else
            let pci_type = drop_bit 4 (byte_at (frame_data f) 0) in
            if pci_type = PCI_SINGLE_FRAME then Some (l, receive_single r f)
            else if pci_type = PCI_FIRST_FRAME then
              (if frame_is_fd f \<noteq> rc_is_fd r then receive_loop r env start timeout_s None l
               else
                 Option.bind (receive_first r env (map_option (\<lambda>t. start + t) timeout_s) f l)
                   (\<lambda>(l, x). case x of
                      Inl e \<Rightarrow> Some (l, Inl e)
                    | Inr (Complete d) \<Rightarrow> Some (l, Inr d)
                    | Inr (Reset g) \<Rightarrow> receive_loop r env start timeout_s (Some g) l))
            else receive_loop r env start timeout_s None l))"

text \<open>The partial functions run: their equations are code equations.\<close>

declare await_fc_loop.simps [code] flow_loop.simps [code] reassembly_loop.simps [code] receive_loop.simps [code]

definition isotp_receive ::
  "isotp_receiver \<Rightarrow> isotp_env \<Rightarrow> seconds option \<Rightarrow> link \<Rightarrow> (link \<times> bytes py) option" where
  "isotp_receive r env timeout_s l = receive_loop r env (clock_now env l) timeout_s None (tick l)"

end
