(* ===== verification/IsoTpAsyncSpec.thy ===== *)
theory IsoTpAsyncSpec
  imports IsoTpSpec IsoTpAsync
begin

text \<open>
  What the asynchronous ISO-TP state machines of IsoTpAsync promise, for every environment: the
  sender emits a prefix of the PDUs of the message, all of them when it returns, inside the blocks
  and behind the pauses the peer granted; with a clock that advances it returns, after a number of
  flow control frames that the WAIT limit bounds; the receiver returns within its timeout, and
  delivers the message whose PDUs arrive in order.
\<close>

section \<open>What left the link\<close>

fun sents :: "link_event list \<Rightarrow> can_frame list" where
  "sents [] = []"
| "sents (Sent f # es) = f # sents es"
| "sents (Paused ms # es) = sents es"
| "sents (Flow f # es) = sents es"

fun flows :: "link_event list \<Rightarrow> can_frame list" where
  "flows [] = []"
| "flows (Flow f # es) = f # flows es"
| "flows (Sent f # es) = flows es"
| "flows (Paused ms # es) = flows es"

lemma sents_append [simp]: "sents (es @ es') = sents es @ sents es'"
  by (induction es rule: sents.induct) simp_all

lemma flows_append [simp]: "flows (es @ es') = flows es @ flows es'"
  by (induction es rule: flows.induct) simp_all

abbreviation wire :: "link \<Rightarrow> can_frame list" where
  "wire l \<equiv> sents (lk_trace l)"

text \<open>The discipline of a transfer, over its events: how many frames may still be sent, the pause
  that each needs before it, and whether that pause was made. A flow control frame that is not a
  grant allows nothing.\<close>

type_synonym pace = "nat option \<times> rat option \<times> bool"

definition allowance :: "can_frame \<Rightarrow> nat option" where
  "allowance f =
     (if byte_at (frame_data f) 0 AND 0x0F = FS_CTS
      then (if byte_at (frame_data f) 1 = 0 then None else Some (unat (frame_data f ! 1)))
      else Some 0)"

fun pace_step :: "link_event \<Rightarrow> pace option \<Rightarrow> pace option" where
  "pace_step e None = None"
| "pace_step (Paused ms) (Some (b, w, p)) = (if w = Some ms \<and> \<not> p then Some (b, w, True) else None)"
| "pace_step (Sent f) (Some (b, w, p)) =
     (if b \<noteq> Some 0 \<and> (w = None \<or> p) then Some (map_option (\<lambda>n. n - 1) b, w, False) else None)"
| "pace_step (Flow f) (Some (b, w, p)) =
     Some (allowance f, st_min_pause (byte_at (frame_data f) 2), False)"

definition pacing :: "link_event list \<Rightarrow> pace option" where
  "pacing es = fold pace_step es (Some (Some 1, None, False))"

lemma pacing_snoc [simp]: "pacing (es @ [e]) = pace_step e (pacing es)"
  by (simp add: pacing_def)

lemma link_fields [simp]:
  "lk_trace (note_event e l) = lk_trace l @ [e]" "lk_ticks (note_event e l) = lk_ticks l"
  "lk_sends (note_event e l) = lk_sends l" "lk_recvs (note_event e l) = lk_recvs l"
  "lk_trace (give_frame f l) = lk_trace l @ [Sent f]" "lk_ticks (give_frame f l) = lk_ticks l"
  "lk_recvs (give_frame f l) = lk_recvs l" "lk_sends (give_frame f l) = Suc (lk_sends l)"
  by (simp_all add: note_event_def give_frame_def)

text \<open>Pacing and \<open>decode_st_min\<close> agree, and no pause is longer than 127 ms.\<close>

lemma st_min_pause_decode: "st_min_pause b = (if b = 0 then None else Some (decode_st_min b))"
  by (simp add: st_min_pause_def decode_st_min_def field_simps min_def)

lemma decode_st_min_bounds: "0 \<le> decode_st_min b \<and> decode_st_min b \<le> 127"
proof -
  consider "0 \<le> b \<and> b \<le> 127" | "0xF1 \<le> b \<and> b \<le> 0xF9" | "\<not> (0 \<le> b \<and> b \<le> 127)" "\<not> (0xF1 \<le> b \<and> b \<le> 0xF9)"
    by blast
  then show ?thesis
  proof cases
    case 1
    then have "(of_int b :: rat) \<le> of_int 127" by (simp only: of_int_le_iff)
    then show ?thesis using 1 by (simp add: decode_st_min_def)
  next
    case 2
    then have "b - 0xF0 \<le> 9" by simp
    then have "(of_int (b - 0xF0) :: rat) \<le> of_int 9" by (simp only: of_int_le_iff)
    then show ?thesis using 2 by (simp add: decode_st_min_def)
  qed (auto simp: decode_st_min_def)
qed

section \<open>Emitting one PDU\<close>

definition sn_view :: "isotp_sender \<Rightarrow> isotp" where
  "sn_view s = \<lparr>it_tx_id = sn_tx_id s, it_rx_id = sn_rx_id s, it_channel_id = out_channel (sn_channel_id s),
     it_pad_byte = sn_pad_byte s, it_rx_block_size = 0, it_rx_st_min = 0, it_max_buffer_size = 0,
     it_brs = False, it_addressing_mode = NORMAL, it_address_byte = None, it_sessions = []\<rparr>"

definition sn_ok :: "isotp_sender \<Rightarrow> bool" where
  "sn_ok s \<longleftrightarrow> isotp_ids_ok (sn_view s)"

lemma sn_view_wf [simp]: "isotp_wf (sn_view s)" "pci_offset (sn_view s) = 0" "wrap_npci (sn_view s) p = p"
  by (simp_all add: sn_view_def isotp_wf_def pci_offset_def wrap_npci_def)

lemma build_frame_ok:
  assumes "sn_ok s" "p \<noteq> []" "length p \<le> can_dl fd"
  obtains f where "build_frame s p fd ns = Inr f" "carries (sn_view s) fd p f"
proof -
  note ids = assms(1) [unfolded sn_ok_def isotp_ids_ok_def]
  obtain dlc m where dlc: "(if fd then length_to_dlc (int (length p)) else Inr 8) = Inr dlc"
    "dlc_to_length dlc = Inr m" "int (length p) \<le> m" "fd \<or> dlc \<le> 8 \<and> \<not> False"
  proof (cases fd)
    case True
    then obtain c where c: "length_to_dlc (int (length p)) = Inr c"
      using length_to_dlc_total [of "int (length p)"] assms(3) by (auto simp: can_dl_def)
    show thesis using length_to_dlc_least(1) [OF c] that [of c] True c by auto
  next
    case False
    then show thesis using assms(3) that [of 8 8] dlc_8 by (simp add: can_dl_def)
  qed
  note seg = tx_frame_seg [where ch = "out_channel (sn_channel_id s)" and arb = "sn_tx_id s"
      and pad = "sn_pad_byte s" and ns = ns, OF _ _ _ _ _ dlc(2,3) assms(2) dlc(4)]
  have "build_frame s p fd ns = Inr (seg (out_channel (sn_channel_id s)) (sn_tx_id s) (sn_pad_byte s) fd False ns dlc m p)"
    using ids seg(1) by (simp add: build_frame_def dlc(1) sn_view_def)
  moreover have "carries (sn_view s) fd p (seg (out_channel (sn_channel_id s)) (sn_tx_id s) (sn_pad_byte s) fd False ns dlc m p)"
    using ids seg(2) by (auto simp: carries_def sn_view_def wrap_npci_def seg_def)
  ultimately show thesis by (rule that)
qed

lemma emit_ok:
  assumes "sn_ok s" "p \<noteq> []" "length p \<le> can_dl fd"
  obtains f x where "emit s env p fd l = (give_frame f l, x)" "carries (sn_view s) fd p f"
proof -
  obtain f where "build_frame s p fd (env_stamp env (lk_sends l)) = Inr f" "carries (sn_view s) fd p f"
    using build_frame_ok [OF assms] .
  then show thesis using that by (simp add: emit_def send_with_n_as_def)
qed

section \<open>Waiting for flow control\<close>

definition awaited :: "isotp_sender \<Rightarrow> link \<Rightarrow> link \<times> can_frame py \<Rightarrow> bool" where
  "awaited s l res \<longleftrightarrow> (case res of (l', x) \<Rightarrow>
     lk_ticks l < lk_ticks l' \<and> lk_sends l' = lk_sends l \<and>
     (case x of Inl e \<Rightarrow> e = IsoTpTimeoutError ''N_Bs'' \<and> lk_trace l' = lk_trace l
      | Inr f \<Rightarrow> fc_relevant s f \<and> drop_bit 4 (byte_at (frame_data f) 0) = PCI_FLOW_CONTROL \<and>
          lk_trace l' = lk_trace l @ [Flow f]))"

lemma awaited_later:
  "awaited s l2 res \<Longrightarrow> lk_ticks l \<le> lk_ticks l2 \<Longrightarrow> lk_sends l2 = lk_sends l \<Longrightarrow>
   lk_trace l2 = lk_trace l \<Longrightarrow> awaited s l res"
  by (auto simp: awaited_def split: prod.splits sum.splits)

lemma await_fc_loop_result:
  assumes "await_fc_loop s env start l = Some res"
  shows "awaited s l res"
proof (rule await_fc_loop.raw_induct [of "\<lambda>s env start l res. awaited s l res", OF _ assms], goal_cases)
  case (1 rec s env start l res)
  show ?case
  proof (cases "sn_n_bs_timeout_s s - (clock_now env l - start) \<le> 0")
    case True
    then show ?thesis using 1(2) by (auto simp: Let_def awaited_def)
  next
    case False
    show ?thesis
    proof (cases "env_recv env (lk_recvs l)")
      case None
      then show ?thesis using 1(2) False by (auto simp: Let_def awaited_def)
    next
      case (Some f)
      have loop: "rec s env start (received (tick l)) = Some res \<Longrightarrow> ?thesis"
        by (erule awaited_later [OF 1(1)]) simp_all
      show ?thesis
      proof (cases "fc_relevant s f \<and> drop_bit 4 (byte_at (frame_data f) 0) = PCI_FLOW_CONTROL")
        case True
        then show ?thesis using 1(2) False Some by (auto simp: Let_def awaited_def)
      next
        case irrelevant: False
        have "rec s env start (received (tick l)) = Some res"
          using 1(2) False Some irrelevant by (auto simp: Let_def split: if_splits)
        then show ?thesis by (rule loop)
      qed
    qed
  qed
qed

lemma await_result: "await_flow_control s env l = Some res \<Longrightarrow> awaited s l res"
  unfolding await_flow_control_def by (erule awaited_later [OF await_fc_loop_result]) simp_all

text \<open>A clock that reaches every time: after every reading there is one past any deadline.\<close>

definition clock_runs :: "isotp_env \<Rightarrow> bool" where
  "clock_runs env \<longleftrightarrow> (\<forall>T k. \<exists>j\<ge>k. env_clock env j \<ge> T)"

lemma await_fc_loop_returns:
  assumes "env_clock env j - start \<ge> sn_n_bs_timeout_s s"
  shows "lk_ticks l \<le> j \<Longrightarrow> \<exists>res. await_fc_loop s env start l = Some res"
proof (induction "j - lk_ticks l" arbitrary: l)
  case 0
  then have "lk_ticks l = j" by simp
  then show ?case using assms by (subst await_fc_loop.simps) (simp add: Let_def)
next
  case (Suc n)
  have "\<exists>res. await_fc_loop s env start (received (tick l)) = Some res"
    using Suc.hyps(2) by (intro Suc.hyps(1)) simp_all
  then show ?case by (subst await_fc_loop.simps) (auto simp: Let_def split: option.splits)
qed

lemma await_returns:
  assumes "clock_runs env"
  obtains res where "await_flow_control s env l = Some res"
proof -
  obtain j where j: "j \<ge> lk_ticks (tick l)" "env_clock env j \<ge> sn_n_bs_timeout_s s + clock_now env l"
    using assms unfolding clock_runs_def by blast
  then have "env_clock env j - clock_now env l \<ge> sn_n_bs_timeout_s s" by (simp add: algebra_simps)
  from await_fc_loop_returns [OF this j(1)] show thesis
    using that by (auto simp: await_flow_control_def)
qed

section \<open>One block\<close>

abbreviation sn_pdus :: "isotp_sender \<Rightarrow> bytes \<Rightarrow> bytes list" where
  "sn_pdus s d \<equiv> pdus 0 (sn_is_fd s) d"

definition emitted :: "isotp_sender \<Rightarrow> bytes \<Rightarrow> link_event list \<Rightarrow> nat \<Rightarrow> bool" where
  "emitted s d es k \<longleftrightarrow> k \<le> length (sn_pdus s d) \<and>
     list_all2 (carries (sn_view s) (sn_is_fd s)) (take k (sn_pdus s d)) (sents es)"

text \<open>\<open>k\<close> PDUs are out, \<open>b\<close> bytes with them; \<open>q\<close> is the next sequence number.\<close>

definition sending :: "isotp_sender \<Rightarrow> bytes \<Rightarrow> link_event list \<Rightarrow> nat \<Rightarrow> nat \<Rightarrow> int \<Rightarrow> bool" where
  "sending s d es k b q \<longleftrightarrow> emitted s d es k \<and>
     drop k (sn_pdus s d) = cf_pdus (max_cf_chunk s) k (drop b d) \<and> q = int (k mod 16)"

lemma max_cf_chunk: "0 < max_cf_chunk s" "Suc (max_cf_chunk s) = can_dl (sn_is_fd s)"
  by (simp_all add: max_cf_chunk_def can_dl_def)

lemma sending_done: "sending s d es k b q \<Longrightarrow> \<not> b < length d \<Longrightarrow> k = length (sn_pdus s d)"
  by (simp add: sending_def emitted_def)

text \<open>Sending the next chunk.\<close>

lemma sending_next:
  assumes "sending s d es k b q" "b < length d"
    and f: "carries (sn_view s) (sn_is_fd s) (cf_pci q @ take (max_cf_chunk s) (drop b d)) f"
    and es': "sents es' = sents es @ [f]"
  shows "sending s d es' (Suc k) (b + length (take (max_cf_chunk s) (drop b d))) ((q + 1) AND 0x0F)"
proof -
  have ne: "drop b d \<noteq> []" using assms(2) by simp
  note cons = cf_pdus_Cons [OF max_cf_chunk(1) ne, of s k]
  have k: "k < length (sn_pdus s d)" "sn_pdus s d ! k = cf_pci q @ take (max_cf_chunk s) (drop b d)"
    "drop (Suc k) (sn_pdus s d) = cf_pdus (max_cf_chunk s) (Suc k) (drop (max_cf_chunk s) (drop b d))"
    using assms(1) cons unfolding sending_def
    by (metis drop_eq_Nil2 leI list.distinct(1), metis hd_drop_conv_nth leI drop_eq_Nil2 list.sel(1) list.distinct(1),
        metis drop_Suc list.sel(3) tl_drop)
  have skip: "drop (b + length (take (max_cf_chunk s) (drop b d))) d = drop (max_cf_chunk s) (drop b d)"
    by (cases "max_cf_chunk s \<le> length d - b") (simp_all add: add.commute)
  have "take (Suc k) (sn_pdus s d) = take k (sn_pdus s d) @ [cf_pci q @ take (max_cf_chunk s) (drop b d)]"
    using k by (simp add: take_Suc_conv_app_nth)
  moreover have "(q + 1) AND 0x0F = int (Suc k mod 16)"
    using assms(1) by (simp add: sending_def zmod_int mod_simps add.commute)
  ultimately show ?thesis
    using assms(1) f k skip by (simp add: sending_def emitted_def es' list_all2_appendI)
qed

definition block_left :: "int \<Rightarrow> int \<Rightarrow> nat option" where
  "block_left bs count = (if bs > 0 then Some (nat (bs - count)) else None)"

definition block_result :: "isotp_sender \<Rightarrow> bytes \<Rightarrow> link \<Rightarrow> nat \<Rightarrow> nat \<Rightarrow> link \<times> (nat \<times> int) py \<Rightarrow> bool" where
  "block_result s d l k b res \<longleftrightarrow> (case res of (l', x) \<Rightarrow>
     (\<exists>k'>k. emitted s d (lk_trace l') k' \<and> pacing (lk_trace l') \<noteq> None \<and> flows (lk_trace l') = flows (lk_trace l) \<and>
       (case x of Inl e \<Rightarrow> True | Inr (b', q') \<Rightarrow> b < b' \<and> sending s d (lk_trace l') k' b' q')))"

lemma block_result_later:
  assumes "block_result s d l1 k1 b1 res" "k \<le> k1" "b \<le> b1" "flows (lk_trace l1) = flows (lk_trace l)"
  shows "block_result s d l k b res"
proof -
  obtain l' x where res: "res = (l', x)" by (cases res)
  obtain k' where "k1 < k'" "emitted s d (lk_trace l') k'" "pacing (lk_trace l') \<noteq> None"
    "flows (lk_trace l') = flows (lk_trace l1)"
    "case x of Inl e \<Rightarrow> True | Inr (b', q') \<Rightarrow> b1 < b' \<and> sending s d (lk_trace l') k' b' q'"
    using assms(1) unfolding block_result_def res by auto
  then show ?thesis
    using assms(2-4) unfolding block_result_def res
    by (auto intro!: exI [of _ k'] split: sum.splits)
qed

lemma block_loop_end: "\<not> b < length d \<Longrightarrow> block_loop s env d bs st_min l b q count = (l, Inr (b, q))"
  by (subst block_loop.simps) simp

lemma diff_nat_eq: "nat (x - y) - Suc 0 = nat (x - (y + 1))" for x y :: int
  by arith

lemma block_loop_result:
  assumes s: "sn_ok s"
  shows "b < length d \<Longrightarrow> sending s d (lk_trace l) k b q \<Longrightarrow>
    pacing (lk_trace l) = Some (block_left bs count, st_min_pause st_min, False) \<Longrightarrow>
    (0 < bs \<Longrightarrow> count < bs) \<Longrightarrow>
    block_result s d l k b (block_loop s env d bs st_min l b q count)"
proof (induction "length d - b" arbitrary: l k b q count rule: less_induct)
  case less
  let ?chunk = "take (max_cf_chunk s) (drop b d)"
  let ?l1 = "apply_st_min st_min l" and ?b' = "b + length ?chunk"
  have chunk: "0 < length ?chunk" using less.prems(1) max_cf_chunk(1) [of s] by simp
  have l1: "sents (lk_trace ?l1) = sents (lk_trace l)" "flows (lk_trace ?l1) = flows (lk_trace l)"
    "pacing (lk_trace ?l1) = Some (block_left bs count, st_min_pause st_min, st_min_pause st_min \<noteq> None)"
    using less.prems(3) by (auto simp: apply_st_min_def split: option.splits)
  have p: "cf_pci q @ ?chunk \<noteq> []" "length (cf_pci q @ ?chunk) \<le> can_dl (sn_is_fd s)"
    using max_cf_chunk(2) [of s] by (simp_all add: cf_pci_def)
  obtain f x where f: "emit s env (cf_pci q @ ?chunk) (sn_is_fd s) ?l1 = (give_frame f ?l1, x)"
    "carries (sn_view s) (sn_is_fd s) (cf_pci q @ ?chunk) f"
    using emit_ok [OF s p] .
  have next_: "sending s d (lk_trace (give_frame f ?l1)) (Suc k) ?b' ((q + 1) AND 0x0F)"
    by (rule sending_next [OF less.prems(2,1) f(2)]) (simp add: l1)
  have "block_left bs count \<noteq> Some 0" using less.prems(4) by (cases "0 < bs") (auto simp: block_left_def)
  moreover have "map_option (\<lambda>n. n - 1) (block_left bs count) = block_left bs (count + 1)"
    using diff_nat_eq by (simp add: block_left_def)
  ultimately have paced: "pacing (lk_trace (give_frame f ?l1)) = Some (block_left bs (count + 1), st_min_pause st_min, False)"
    using l1(3) by auto
  have stop: "block_result s d l k b (give_frame f ?l1, Inl e)"
    "block_result s d l k b (give_frame f ?l1, Inr (?b', (q + 1) AND 0x0F))" for e
    using next_ paced l1(2) chunk unfolding block_result_def sending_def
    by (auto intro!: exI [of _ "Suc k"])
  have unfold_loop: "block_loop s env d bs st_min l b q count =
      (case x of Inl e \<Rightarrow> (give_frame f ?l1, Inl e)
       | Inr _ \<Rightarrow> if bs > 0 \<and> count + 1 \<ge> bs \<and> ?b' < length d
           then (give_frame f ?l1, Inr (?b', (q + 1) AND 0x0F))
           else block_loop s env d bs st_min (give_frame f ?l1) ?b' ((q + 1) AND 0x0F) (count + 1))"
    using less.prems(1) f(1) by (subst block_loop.simps) (auto simp: Let_def split: sum.splits)
  show ?case
  proof (cases x)
    case (Inl e)
    then show ?thesis unfolding unfold_loop using stop(1) by simp
  next
    case Inr
    show ?thesis
    proof (cases "?b' < length d")
      case False
      have over: "block_loop s env d bs st_min (give_frame f ?l1) ?b' ((q + 1) AND 0x0F) (count + 1) =
          (give_frame f ?l1, Inr (?b', (q + 1) AND 0x0F))"
        by (rule block_loop_end [OF False])
      show ?thesis unfolding unfold_loop Inr sum.case over if_cancel by (rule stop(2))
    next
      case True
      show ?thesis
      proof (cases "bs > 0 \<and> count + 1 \<ge> bs")
        case full: True
        then have grant_used: "bs > 0 \<and> count + 1 \<ge> bs \<and> ?b' < length d" using True by blast
        show ?thesis unfolding unfold_loop Inr sum.case if_P [OF grant_used] by (rule stop(2))
      next
        case False
        have "block_result s d (give_frame f ?l1) (Suc k) ?b'
            (block_loop s env d bs st_min (give_frame f ?l1) ?b' ((q + 1) AND 0x0F) (count + 1))"
          by (rule less.hyps [OF _ True next_ paced]) (use less.prems(1) chunk False in auto)
        then have "block_result s d l k b
            (block_loop s env d bs st_min (give_frame f ?l1) ?b' ((q + 1) AND 0x0F) (count + 1))"
          by (rule block_result_later) (use l1(2) in simp_all)
        moreover have more: "\<not> (bs > 0 \<and> count + 1 \<ge> bs \<and> ?b' < length d)" using False by blast
        ultimately show ?thesis unfolding unfold_loop Inr sum.case if_not_P [OF more] by blast
      qed
    qed
  qed
qed

section \<open>The whole transfer\<close>

text \<open>Where a transfer stands between two waits, and how the loop may leave it.\<close>

definition in_transfer :: "isotp_sender \<Rightarrow> bytes \<Rightarrow> link \<Rightarrow> nat \<Rightarrow> nat \<Rightarrow> int \<Rightarrow> bool" where
  "in_transfer s d l k b q \<longleftrightarrow> sending s d (lk_trace l) k b q \<and> pacing (lk_trace l) \<noteq> None"

definition flow_result :: "isotp_sender \<Rightarrow> bytes \<Rightarrow> link \<Rightarrow> nat \<Rightarrow> int \<Rightarrow> link \<times> unit py \<Rightarrow> bool" where
  "flow_result s d l k wft res \<longleftrightarrow> (case res of (l', x) \<Rightarrow>
     (\<exists>k'\<ge>k. emitted s d (lk_trace l') k' \<and> pacing (lk_trace l') \<noteq> None \<and>
       (x = Inr () \<longrightarrow> k' = length (sn_pdus s d)) \<and>
       int (length (flows (lk_trace l'))) \<le> int (length (flows (lk_trace l))) +
         (sn_wft_max s + 1) * int (k' - k) + (sn_wft_max s + 1 - wft)))"

lemma flow_result_stop:
  assumes "in_transfer s d l k b q" "lk_trace l' = lk_trace l \<or> (\<exists>f. lk_trace l' = lk_trace l @ [Flow f])"
    and "x = Inr () \<longrightarrow> k = length (sn_pdus s d)" "0 \<le> wft" "wft \<le> sn_wft_max s"
  shows "flow_result s d l k wft (l', x)"
proof -
  obtain b0 w0 p0 where "pacing (lk_trace l) = Some (b0, w0, p0)"
    using assms(1) by (auto simp: in_transfer_def)
  then show ?thesis
    using assms unfolding flow_result_def in_transfer_def sending_def emitted_def
    by (auto intro!: exI [of _ k])
qed

lemma flow_result_wait:
  assumes "flow_result s d l1 k (wft + 1) res" "lk_trace l1 = lk_trace l @ [Flow f]"
  shows "flow_result s d l k wft res"
  using assms unfolding flow_result_def by (auto split: prod.splits)

lemma flow_result_block:
  assumes "flow_result s d l1 k1 0 res" "flows (lk_trace l1) = flows (lk_trace l) @ [f]" "k < k1"
    and "0 \<le> wft" "wft \<le> sn_wft_max s"
  shows "flow_result s d l k wft res"
proof -
  obtain l' x where res: "res = (l', x)" by (cases res)
  obtain k' where k': "k1 \<le> k'" "emitted s d (lk_trace l') k'" "pacing (lk_trace l') \<noteq> None"
    "x = Inr () \<longrightarrow> k' = length (sn_pdus s d)"
    "int (length (flows (lk_trace l'))) \<le> int (length (flows (lk_trace l1))) +
      (sn_wft_max s + 1) * int (k' - k1) + (sn_wft_max s + 1 - 0)"
    using assms(1) unfolding flow_result_def res by auto
  have "int (k' - k1) + 1 \<le> int (k' - k)" using k'(1) assms(3) by simp
  then have "(sn_wft_max s + 1) * (int (k' - k1) + 1) \<le> (sn_wft_max s + 1) * int (k' - k)"
    using assms(4,5) by (intro mult_left_mono) simp_all
  then have "int (length (flows (lk_trace l'))) \<le> int (length (flows (lk_trace l))) +
      (sn_wft_max s + 1) * int (k' - k) + (sn_wft_max s + 1 - wft)"
    using k'(5) assms(2,4,5) by (simp add: distrib_left)
  then show ?thesis using k' assms(3) unfolding flow_result_def res by (auto intro!: exI [of _ k'])
qed

lemma allowance_block:
  "byte_at (frame_data f) 0 AND 0x0F = FS_CTS \<Longrightarrow> allowance f = block_left (byte_at (frame_data f) 1) 0"
proof -
  assume cts: "byte_at (frame_data f) 0 AND 0x0F = FS_CTS"
  have "byte_at (frame_data f) 1 \<noteq> 0 \<longleftrightarrow> 0 < byte_at (frame_data f) 1"
    using uint_byte_bounds(1) [of "frame_data f ! 1"] by linarith
  then show ?thesis using cts unfolding allowance_def block_left_def by (simp add: nat_uint_eq)
qed

text \<open>The five ways an awaited flow control frame is taken.\<close>

lemma flow_loop_cases:
  assumes s: "sn_ok s" and tr: "in_transfer s d l k b q" and wft: "0 \<le> wft" "wft \<le> sn_wft_max s"
    and b: "b < length d" and fc: "await_flow_control s env l = Some (l1, Inr fc)"
  defines "fs \<equiv> byte_at (frame_data fc) 0 AND 0x0F"
  defines "blk \<equiv> block_loop s env d (byte_at (frame_data fc) 1) (byte_at (frame_data fc) 2) l1 b q 0"
  shows "flow_result s d l k wft (l1, Inl e)"
    and "in_transfer s d l1 k b q"
    and "fs = FS_CTS \<Longrightarrow> blk = (l2, Inl e) \<Longrightarrow> flow_result s d l k wft (l2, Inl e)"
    and "fs = FS_CTS \<Longrightarrow> blk = (l2, Inr (b', q')) \<Longrightarrow>
      b < b' \<and> (\<exists>k1>k. in_transfer s d l2 k1 b' q' \<and> flows (lk_trace l2) = flows (lk_trace l) @ [fc])"
proof -
  have aw: "lk_trace l1 = lk_trace l @ [Flow fc]"
    using await_result [OF fc] by (simp add: awaited_def)
  obtain b0 w0 p0 where p0: "pacing (lk_trace l) = Some (b0, w0, p0)"
    using tr by (auto simp: in_transfer_def)
  show "flow_result s d l k wft (l1, Inl e)" using aw by (intro flow_result_stop [OF tr _ _ wft]) auto
  show l1: "in_transfer s d l1 k b q"
    using tr p0 aw by (simp add: in_transfer_def sending_def emitted_def)
  let ?bs = "byte_at (frame_data fc) 1" and ?st = "byte_at (frame_data fc) 2"
  have res: "block_result s d l1 k b blk" if "fs = FS_CTS"
    unfolding blk_def
  proof (rule block_loop_result [OF s b])
    show "sending s d (lk_trace l1) k b q" using l1 by (simp add: in_transfer_def)
    show "pacing (lk_trace l1) = Some (block_left ?bs 0, st_min_pause ?st, False)"
      using that by (simp add: aw p0 allowance_block fs_def)
  qed auto
  show "flow_result s d l k wft (l2, Inl e)" if cts: "fs = FS_CTS" "blk = (l2, Inl e)"
  proof -
    obtain k1 where k1: "k1 > k" "emitted s d (lk_trace l2) k1" "pacing (lk_trace l2) \<noteq> None"
      "flows (lk_trace l2) = flows (lk_trace l1)"
      using res [OF cts(1)] unfolding block_result_def cts(2) by auto
    have "0 \<le> (sn_wft_max s + 1) * int (k1 - k)" using wft by simp
    then show ?thesis using k1 wft aw unfolding flow_result_def by (auto intro!: exI [of _ k1])
  qed
  show "b < b' \<and> (\<exists>k1>k. in_transfer s d l2 k1 b' q' \<and> flows (lk_trace l2) = flows (lk_trace l) @ [fc])"
    if "fs = FS_CTS" "blk = (l2, Inr (b', q'))"
    using res [OF that(1)] aw unfolding block_result_def that(2) in_transfer_def by auto
qed

lemma flow_loop_result:
  assumes "flow_loop s env d l b q wft = Some res" and s: "sn_ok s" and tr: "in_transfer s d l k b q"
    and wft: "0 \<le> wft" "wft \<le> sn_wft_max s"
  shows "flow_result s d l k wft res"
proof -
  have "\<forall>k. sn_ok s \<longrightarrow> in_transfer s d l k b q \<longrightarrow> 0 \<le> wft \<longrightarrow> wft \<le> sn_wft_max s \<longrightarrow>
      flow_result s d l k wft res"
  proof (rule flow_loop.raw_induct [of "\<lambda>s env d l b q wft res. \<forall>k. sn_ok s \<longrightarrow> in_transfer s d l k b q \<longrightarrow>
        0 \<le> wft \<longrightarrow> wft \<le> sn_wft_max s \<longrightarrow> flow_result s d l k wft res", OF _ assms(1)], goal_cases)
    case (1 rec s env d l b q wft res)
    note IH = 1(1) and run = 1(2)
    show ?case
    proof (intro allI impI)
      fix k
      assume a: "sn_ok s" "in_transfer s d l k b q" "0 \<le> wft" "wft \<le> sn_wft_max s"
      show "flow_result s d l k wft res"
      proof (cases "b < length d")
        case False
        then have "res = (l, Inr ())" using run by simp
        then show ?thesis
          using flow_result_stop [OF a(2) disjI1 [OF refl] _ a(3,4)] a(2) False sending_done
          unfolding in_transfer_def by blast
      next
        case b: True
        then obtain l1 x where aw: "await_flow_control s env l = Some (l1, x)"
          using run by (auto simp: bind_eq_Some_conv)
        show ?thesis
        proof (cases x)
          case (Inl e)
          then have "lk_trace l1 = lk_trace l" using await_result [OF aw] by (simp add: awaited_def)
          moreover have "res = (l1, Inl e)" using run b aw Inl by simp
          ultimately show ?thesis using flow_result_stop [OF a(2) _ _ a(3,4), of l1 "Inl e"] by simp
        next
          case (Inr fc)
          note cases4 = flow_loop_cases [OF a b aw [unfolded Inr]]
          let ?fs = "byte_at (frame_data fc) 0 AND 0x0F"
          have tr1: "lk_trace l1 = lk_trace l @ [Flow fc]"
            using await_result [OF aw] Inr by (simp add: awaited_def)
          obtain l2 y where blk: "block_loop s env d (byte_at (frame_data fc) 1) (byte_at (frame_data fc) 2)
              l1 b q 0 = (l2, y)" by fastforce
          have run': "(if ?fs = FS_OVERFLOW then Some (l1, Inl IsoTpBufferOverflowError)
              else if ?fs = FS_WAIT then
                (if wft + 1 > sn_wft_max s then Some (l1, Inl (IsoTpTimeoutError ''N_Bs''))
                 else rec s env d l1 b q (wft + 1))
              else if ?fs = FS_CTS then
                (case y of Inl e \<Rightarrow> Some (l2, Inl e) | Inr (b', q') \<Rightarrow> rec s env d l2 b' q' 0)
              else Some (l1, Inl (IsoTpFlowControlError ?fs))) = Some res"
            using run by (simp only: b if_True aw Inr Option.bind.simps prod.case sum.case Let_def blk)
          consider (Stop) e where "res = (l1, Inl e)"
            | (Wait) "?fs = FS_WAIT" "\<not> wft + 1 > sn_wft_max s" "rec s env d l1 b q (wft + 1) = Some res"
            | (Failed) e where "?fs = FS_CTS" "y = Inl e" "res = (l2, Inl e)"
            | (Block) b' q' where "?fs = FS_CTS" "y = Inr (b', q')" "rec s env d l2 b' q' 0 = Some res"
            using run' by (auto split: if_splits sum.splits)
          then show ?thesis
          proof cases
            case Stop
            then show ?thesis using cases4(1) by simp
          next
            case Wait
            then have "flow_result s d l1 k (wft + 1) res"
              using IH [OF Wait(3)] a cases4(2) by simp
            then show ?thesis using tr1 by (rule flow_result_wait)
          next
            case Failed
            then show ?thesis using cases4(3) blk by simp
          next
            case Block
            then obtain k1 where k1: "k1 > k" "in_transfer s d l2 k1 b' q'"
              "flows (lk_trace l2) = flows (lk_trace l) @ [fc]"
              using cases4(4) blk by blast
            have "flow_result s d l2 k1 0 res" using IH [OF Block(3)] a k1(2) by simp
            then show ?thesis using k1(3,1) a(3,4) by (rule flow_result_block)
          qed
        qed
      qed
    qed
  qed
  then show ?thesis using s tr wft by blast
qed

text \<open>Every wait ends, every refusal and every grant makes progress.\<close>

lemma flow_waits_return:
  assumes s: "sn_ok s" and clock: "clock_runs env"
    and later: "\<And>l k b' q. b < b' \<Longrightarrow> in_transfer s d l k b' q \<Longrightarrow> \<exists>res. flow_loop s env d l b' q 0 = Some res"
  shows "in_transfer s d l k b q \<Longrightarrow> 0 \<le> wft \<Longrightarrow> wft \<le> sn_wft_max s \<Longrightarrow>
    \<exists>res. flow_loop s env d l b q wft = Some res"
proof (induction "nat (sn_wft_max s - wft)" arbitrary: l wft rule: less_induct)
  case less
  show ?case
  proof (cases "b < length d")
    case False
    then show ?thesis by (subst flow_loop.simps) simp
  next
    case b: True
    obtain l1 x where aw: "await_flow_control s env l = Some (l1, x)"
      using await_returns [OF clock, of s l] by (metis surj_pair)
    show ?thesis
    proof (cases x)
      case (Inl e)
      then show ?thesis using b aw by (subst flow_loop.simps) simp
    next
      case (Inr fc)
      note cases4 = flow_loop_cases [OF s less.prems b aw [unfolded Inr]]
      have wait: "\<exists>res. flow_loop s env d l1 b q (wft + 1) = Some res" if "\<not> wft + 1 > sn_wft_max s"
        by (rule less.hyps [OF _ cases4(2)]) (use that less.prems(2) in simp_all)
      obtain l2 y where blk: "block_loop s env d (byte_at (frame_data fc) 1) (byte_at (frame_data fc) 2)
          l1 b q 0 = (l2, y)" by fastforce
      have block: "\<exists>res. flow_loop s env d l2 b' q' 0 = Some res"
        if "byte_at (frame_data fc) 0 AND 0x0F = FS_CTS" "y = Inr (b', q')" for b' q'
        using cases4(4) [OF that(1), of l2 b' q'] blk that(2) later by blast
      have "\<exists>res. (case y of Inl e \<Rightarrow> Some (l2, Inl e) | Inr (b', q') \<Rightarrow> flow_loop s env d l2 b' q' 0) = Some res"
        if "byte_at (frame_data fc) 0 AND 0x0F = FS_CTS"
        using block [OF that] by (cases y) auto
      then show ?thesis
        using wait
        by (subst flow_loop.simps)
          (simp only: b if_True aw Inr Option.bind.simps prod.case sum.case Let_def blk split: if_split, blast)
    qed
  qed
qed

lemma flow_loop_returns:
  assumes s: "sn_ok s" and clock: "clock_runs env"
  shows "in_transfer s d l k b q \<Longrightarrow> 0 \<le> wft \<Longrightarrow> wft \<le> sn_wft_max s \<Longrightarrow>
    \<exists>res. flow_loop s env d l b q wft = Some res"
proof (induction "length d - b" arbitrary: l k b q wft rule: less_induct)
  case less
  show ?case
  proof (cases "b < length d")
    case False
    then show ?thesis by (subst flow_loop.simps) simp
  next
    case True
    show ?thesis
    proof (rule flow_waits_return [OF s clock _ less.prems])
      fix l k b' q
      assume "b < b'" "in_transfer s d l k b' q"
      then show "\<exists>res. flow_loop s env d l b' q 0 = Some res"
        using less.prems(2,3) True by (intro less.hyps) auto
    qed
  qed
qed

section \<open>The sender\<close>

abbreviation sn_cap :: "isotp_sender \<Rightarrow> nat" where
  "sn_cap s \<equiv> (if sn_is_fd s then MAX_UDS_PAYLOAD_FD else MAX_UDS_PAYLOAD_CLASSIC)"

text \<open>\<open>send\<close> over the abstract segmentation: the first PDU, then the loop when there are more.\<close>

lemma isotp_send_pdus:
  assumes d: "d \<noteq> []" "length d \<le> sn_cap s"
  obtains (One) p where "sn_pdus s d = [p]" "isotp_send s env d l = Some (emit s env p (sn_is_fd s) l)"
    "p \<noteq> []" "length p \<le> can_dl (sn_is_fd s)"
  | (More) p k where "sn_pdus s d = p # cf_pdus (max_cf_chunk s) 1 (drop k d)" "k < length d"
    "p \<noteq> []" "length p \<le> can_dl (sn_is_fd s)"
    "isotp_send s env d l = (case emit s env p (sn_is_fd s) l of
       (l, Inl e) \<Rightarrow> Some (l, Inl e) | (l, Inr _) \<Rightarrow> flow_loop s env d l k 1 0)"
proof -
  let ?n = "length d" and ?fd = "sn_is_fd s"
  have nz: "(?n = 0) = False" and fit: "(?n > sn_cap s) = False" using d by auto
  note unfold_send = isotp_send_def Let_def nz fit if_False
  from d(1) zero_le_one show thesis
  proof (cases rule: pdus_cases [of d 0 ?fd])
    case Single
    show thesis
    proof (rule One [OF Single(2)])
      show "isotp_send s env d l = Some (emit s env (sf_pci ?n @ d) ?fd l)"
        unfolding unfold_send using Single(1) by simp
    qed (use Single(1) in \<open>simp_all add: sf_pci_def can_dl_def\<close>)
  next
    case Escape
    show thesis
    proof (rule One [OF Escape(4)])
      show "isotp_send s env d l = Some (emit s env (sf_escape_pci ?n @ d) ?fd l)"
        unfolding unfold_send using Escape(1-3) by simp
    qed (use Escape(1-3) in \<open>simp_all add: sf_escape_pci_def can_dl_def\<close>)
  next
    case (Multi k cap)
    have head: "(if ?n \<le> 4095 then Inr (ff_pci ?n, if ?fd then 62 else 6)
        else py_bind (ff_escape_pci ?n) (\<lambda>pci. Inr (pci, if ?fd then 58 else 2))) = Inr (ff_head ?n, k)"
      using Multi(3) ff_escape_head [of ?n] d(2) length_ff_head [of ?n]
      by (auto simp: ff_head_def can_dl_def MAX_UDS_PAYLOAD_CLASSIC_def MAX_UDS_PAYLOAD_FD_def split: if_splits)
    have long: "\<not> ?n \<le> 7" "\<not> (?fd \<and> ?n \<le> 62)"
      using Multi(1,2,3) length_ff_head [of ?n] by (auto simp: can_dl_def split: if_splits)
    have cap: "cap = max_cf_chunk s" using Multi(4) by (simp add: can_dl_def max_cf_chunk_def)
    show thesis
    proof (rule More [OF Multi(5) [unfolded cap] Multi(2)])
      show "ff_head ?n @ take k d \<noteq> []" "length (ff_head ?n @ take k d) \<le> can_dl ?fd"
        using length_ff_head [of ?n] Multi(2,3) by (auto simp: can_dl_def split: if_splits)
      show "isotp_send s env d l = (case emit s env (ff_head ?n @ take k d) ?fd l of
          (l, Inl e) \<Rightarrow> Some (l, Inl e) | (l, Inr _) \<Rightarrow> flow_loop s env d l k 1 0)"
        unfolding unfold_send head if_not_P [OF long(1)] if_not_P [OF long(2)]
        using Multi(2) by (simp add: min_def)
    qed
  qed
qed

definition send_result :: "isotp_sender \<Rightarrow> bytes \<Rightarrow> link \<times> unit py \<Rightarrow> bool" where
  "send_result s d res \<longleftrightarrow> (case res of (l', x) \<Rightarrow>
     (\<exists>k. emitted s d (lk_trace l') k \<and> pacing (lk_trace l') \<noteq> None \<and>
       (x = Inr () \<longrightarrow> k = length (sn_pdus s d)) \<and>
       int (length (flows (lk_trace l'))) \<le> (sn_wft_max s + 1) * int k))"

lemma send_result_first:
  assumes "carries (sn_view s) (sn_is_fd s) p f" "sn_pdus s d = p # ps" "lk_trace l = []"
    and "0 \<le> sn_wft_max s" "x = Inr () \<longrightarrow> ps = []"
  shows "send_result s d (give_frame f l, x)"
  using assms unfolding send_result_def
  by (auto simp: emitted_def pacing_def intro!: exI [of _ "Suc 0"])

lemma send_in_transfer:
  assumes "carries (sn_view s) (sn_is_fd s) p f" "lk_trace l = []"
    and "sn_pdus s d = p # cf_pdus (max_cf_chunk s) 1 (drop k d)"
  shows "in_transfer s d (give_frame f l) 1 k 1"
  using assms by (simp add: in_transfer_def sending_def emitted_def pacing_def)

lemma isotp_send_refused:
  "length d > sn_cap s \<Longrightarrow> isotp_send s env d l = Some (l, Inl IsoTpPayloadTooLargeError)"
  by (cases "d = []") (simp_all add: isotp_send_def Let_def)

lemma isotp_send_result:
  assumes s: "sn_ok s" "0 \<le> sn_wft_max s" and l: "lk_trace l = []"
    and run: "isotp_send s env d l = Some res"
  shows "send_result s d res \<or> length d > sn_cap s \<and> res = (l, Inl IsoTpPayloadTooLargeError)"
proof (cases "d = [] \<or> length d > sn_cap s")
  case True
  have "send_result s d (l, Inr ())" if "d = []"
    using that l by (auto simp: send_result_def emitted_def pdus_def pacing_def intro!: exI [of _ 0])
  moreover have "res = (l, Inl IsoTpPayloadTooLargeError)" if "length d > sn_cap s"
    using run isotp_send_refused [OF that] by simp
  moreover have "res = (l, Inr ())" if "d = []" using that run by (simp add: isotp_send_def)
  ultimately show ?thesis using True by blast
next
  case False
  then have d: "d \<noteq> []" "length d \<le> sn_cap s" by auto
  from d show ?thesis
  proof (cases rule: isotp_send_pdus [where env = env and l = l])
    case (One p)
    obtain f x where f: "emit s env p (sn_is_fd s) l = (give_frame f l, x)" "carries (sn_view s) (sn_is_fd s) p f"
      using emit_ok [OF s(1) One(3,4)] .
    then show ?thesis using send_result_first [OF f(2) One(1) l s(2), of x] One(2) run by simp
  next
    case (More p k)
    obtain f x where f: "emit s env p (sn_is_fd s) l = (give_frame f l, x)" "carries (sn_view s) (sn_is_fd s) p f"
      using emit_ok [OF s(1) More(3,4)] .
    show ?thesis
    proof (cases x)
      case (Inl e)
      then show ?thesis using send_result_first [OF f(2) More(1) l s(2), of x] More(5) f(1) run by simp
    next
      case Inr
      note tr = send_in_transfer [OF f(2) l More(1)]
      have "flow_loop s env d (give_frame f l) k 1 0 = Some res" using More(5) f(1) Inr run by simp
      from flow_loop_result [OF this s(1) tr order_refl s(2)] show ?thesis
        using l unfolding flow_result_def send_result_def by (auto simp: algebra_simps of_nat_diff)
    qed
  qed
qed

lemma isotp_send_returns:
  assumes s: "sn_ok s" "0 \<le> sn_wft_max s" and l: "lk_trace l = []" and clock: "clock_runs env"
  obtains res where "isotp_send s env d l = Some res"
proof (cases "d = [] \<or> length d > sn_cap s")
  case True
  then show ?thesis using that isotp_send_refused by (cases "d = []") (auto simp: isotp_send_def)
next
  case False
  then have d: "d \<noteq> []" "length d \<le> sn_cap s" by auto
  from d show ?thesis
  proof (cases rule: isotp_send_pdus [where env = env and l = l])
    case (One p)
    then show ?thesis using that by blast
  next
    case (More p k)
    obtain f x where f: "emit s env p (sn_is_fd s) l = (give_frame f l, x)" "carries (sn_view s) (sn_is_fd s) p f"
      using emit_ok [OF s(1) More(3,4)] .
    obtain res where "flow_loop s env d (give_frame f l) k 1 0 = Some res"
      using flow_loop_returns [OF s(1) clock send_in_transfer [OF f(2) l More(1)] order_refl s(2)] by blast
    then show ?thesis using that More(5) f(1) by (cases x) auto
  qed
qed

section \<open>The receiver returns\<close>

text \<open>\<open>expires env T j\<close>: from its \<open>j\<close>-th reading on the clock is past \<open>T\<close>.\<close>

definition expires :: "isotp_env \<Rightarrow> seconds \<Rightarrow> nat \<Rightarrow> bool" where
  "expires env T j \<longleftrightarrow> (\<forall>i\<ge>j. env_clock env i \<ge> T)"

definition clock_monotonic :: "isotp_env \<Rightarrow> bool" where
  "clock_monotonic env \<longleftrightarrow> (\<forall>k. env_clock env k \<le> env_clock env (Suc k))"

lemma monotonic_expires:
  assumes "clock_runs env" "clock_monotonic env"
  obtains j where "expires env T j"
proof -
  obtain j where j: "env_clock env j \<ge> T" using assms(1) unfolding clock_runs_def by blast
  have "env_clock env i \<ge> T" if "i \<ge> j" for i
    using that j by (rule dec_induct) (use assms(2) in \<open>auto simp: clock_monotonic_def intro: order_trans\<close>)
  then show thesis using that unfolding expires_def by blast
qed

text \<open>A wait that ends in a reset has read the clock before the deadline.\<close>

definition wait_ends :: "link \<Rightarrow> nat \<Rightarrow> (link \<times> cf_result py) option \<Rightarrow> bool" where
  "wait_ends l j out \<longleftrightarrow> (\<exists>l' x. out = Some (l', x) \<and> (\<forall>g. x = Inr (Reset g) \<longrightarrow> lk_ticks l < j \<and> lk_ticks l < lk_ticks l'))"

lemma wait_ends_now: "out = Some (l', x) \<Longrightarrow> (\<And>g. x \<noteq> Inr (Reset g)) \<Longrightarrow> wait_ends l j out"
  by (simp add: wait_ends_def)

lemma wait_ends_later: "wait_ends l1 j out \<Longrightarrow> lk_ticks l \<le> lk_ticks l1 \<Longrightarrow> wait_ends l j out"
  by (fastforce simp: wait_ends_def)

lemma reassembly_loop_ends:
  assumes T: "expires env T j"
  shows "length buffer < ff_dl \<Longrightarrow>
    wait_ends l j (reassembly_loop r env (Some T) ff_dl frame l buffer expected_sn block_count deadline_cr)"
proof (induction "j - lk_ticks l" arbitrary: l buffer expected_sn block_count deadline_cr rule: less_induct)
  case less
  let ?l = "received (tick l)"
  have open_: "\<not> \<not> length buffer < ff_dl" using less.prems by simp
  show ?case
  proof (cases "clock_now env l \<ge> T \<or> deadline_cr - clock_now env l \<le> 0")
    case True
    then show ?thesis
      unfolding reassembly_loop.simps [of r env "Some T" ff_dl frame l] if_not_P [OF open_] Let_def
      by (auto intro: wait_ends_now)
  next
    case False
    then have early: "lk_ticks l < j" using T unfolding expires_def by (meson not_le)
    have again: "wait_ends l j (reassembly_loop r env (Some T) ff_dl frame l1 buffer1 sn1 c1 t1)"
      if "length buffer1 < ff_dl" "lk_ticks l < lk_ticks l1" for l1 buffer1 sn1 c1 t1
      by (rule wait_ends_later [OF less.hyps [OF _ that(1)]]) (use early that(2) in simp_all)
    show ?thesis
    proof (cases "env_recv env (lk_recvs l)")
      case None
      then show ?thesis
        using False less.prems by (subst reassembly_loop.simps) (simp add: Let_def wait_ends_def)
    next
      case (Some f)
      let ?buf = "buffer @ take (min (ff_dl - length buffer) (length (frame_data f) - 1)) (drop 1 (frame_data f))"
      obtain l2 y where fc: "send_fc r env FS_CTS (tick ?l) = (l2, y)" by fastforce
      have l2: "lk_ticks l < lk_ticks l2"
        using fc by (auto simp: send_fc_def split: sum.splits)
      have rest: "wait_ends l j (case y of Inl e \<Rightarrow> Some (l2, Inl e)
          | Inr _ \<Rightarrow> reassembly_loop r env (Some T) ff_dl frame l2 ?buf ((expected_sn + 1) AND 0x0F) 0
              (clock_now env ?l + rc_n_cr_timeout_s r))" if "length ?buf < ff_dl"
        using again [OF that l2] by (cases y) (auto simp: wait_ends_def)
      show ?thesis
        using False Some less.prems again [of buffer "received (tick l)"] again [of ?buf "tick ?l"] rest early
        by (subst reassembly_loop.simps)
          (simp only: Let_def option.case not_True_eq_False if_False fc prod.case
            link.simps not_not split: if_split, auto simp: wait_ends_def)
    qed
  qed
qed

lemma receive_first_ends:
  assumes T: "expires env T j"
  shows "wait_ends l j (receive_first r env (Some T) f l)"
proof (cases "receive_ff_length f")
  case (Inl e)
  then show ?thesis by (simp add: receive_first_def wait_ends_def)
next
  case (Inr nh)
  obtain n h where nh: "nh = (n, h)" by (cases nh)
  let ?buf = "take n (drop h (frame_data f))"
  have ovf: "wait_ends l j (case send_fc r env FS_OVERFLOW l of (l, Inl e) \<Rightarrow> Some (l, Inl e)
      | (l, Inr _) \<Rightarrow> Some (l, Inl IsoTpBufferOverflowError))"
    by (auto simp: wait_ends_def split: prod.splits sum.splits)
  obtain l2 y where fc: "send_fc r env FS_CTS l = (l2, y)" by fastforce
  have l2: "lk_ticks l2 = lk_ticks l" using fc by (auto simp: send_fc_def split: sum.splits)
  have "wait_ends l j (case y of Inl e \<Rightarrow> Some (l2, Inl e)
      | Inr _ \<Rightarrow> reassembly_loop r env (Some T) n f (tick l2) ?buf 1 0 (clock_now env l2 + rc_n_cr_timeout_s r))"
    if "\<not> length ?buf \<ge> n"
    using wait_ends_later [OF reassembly_loop_ends [OF T, where l = "tick l2"], of ?buf n l] that l2
    by (cases y) (auto simp: wait_ends_def)
  then show ?thesis
    using ovf unfolding receive_first_def Inr nh sum.case prod.case Let_def fc
    by (simp add: wait_ends_def)
qed

lemma receive_loop_returns:
  assumes T: "expires env (start + t) j"
  shows "\<exists>res. receive_loop r env start (Some t) pending l = Some res"
proof (induction "2 * (j - lk_ticks l) + (if pending = None then 0 else 1)" arbitrary: pending l rule: less_induct)
  case less
  show ?case
  proof (cases pending)
    case None
    show ?thesis
    proof (cases "t - (clock_now env l - start) \<le> 0")
      case True
      then show ?thesis using None by (subst receive_loop.simps) simp
    next
      case False
      have early: "lk_ticks l < j"
      proof (rule ccontr)
        assume "\<not> lk_ticks l < j"
        then have "clock_now env l \<ge> start + t" using T by (simp add: expires_def)
        then show False using False by simp
      qed
      let ?l = "received (tick l)"
      have again: "\<exists>res. receive_loop r env start (Some t) p l1 = Some res" if "lk_ticks ?l \<le> lk_ticks l1" for p l1
      proof (rule less.hyps)
        have "j - lk_ticks l1 < j - lk_ticks l" using early that by simp
        then show "2 * (j - lk_ticks l1) + (if p = None then 0 else 1) <
            2 * (j - lk_ticks l) + (if pending = None then 0 else 1)" using None by simp
      qed
      have first: "\<exists>res. Option.bind (receive_first r env (map_option (\<lambda>t. start + t) (Some t)) f ?l)
          (\<lambda>(l, x). case x of Inl e \<Rightarrow> Some (l, Inl e) | Inr (Complete d) \<Rightarrow> Some (l, Inr d)
            | Inr (Reset g) \<Rightarrow> receive_loop r env start (Some t) (Some g) l) = Some res" for f
        using receive_first_ends [OF T, of ?l r f] again
        by (auto simp: wait_ends_def split: sum.splits cf_result.splits)
      show ?thesis
        using None False again [of ?l] first
        by (subst receive_loop.simps) (auto simp: Let_def split: option.split)
    qed
  next
    case (Some f)
    have none: "\<exists>res. receive_loop r env start (Some t) None l = Some res"
      by (rule less.hyps) (use Some in simp)
    have again: "\<exists>res. receive_loop r env start (Some t) (Some g) l1 = Some res"
      if "lk_ticks l < j" "lk_ticks l < lk_ticks l1" for g l1
      by (rule less.hyps) (use Some that in simp)
    have first: "\<exists>res. Option.bind (receive_first r env (map_option (\<lambda>t. start + t) (Some t)) f l)
        (\<lambda>(l, x). case x of Inl e \<Rightarrow> Some (l, Inl e) | Inr (Complete d) \<Rightarrow> Some (l, Inr d)
          | Inr (Reset g) \<Rightarrow> receive_loop r env start (Some t) (Some g) l) = Some res"
      using receive_first_ends [OF T, of l r f] again
      by (auto simp: wait_ends_def split: sum.splits cf_result.splits)
    show ?thesis
      using Some none first by (subst receive_loop.simps) (simp add: Let_def)
  qed
qed

section \<open>The receiver delivers\<close>

definition rc_ok :: "isotp_receiver \<Rightarrow> bool" where
  "rc_ok r \<longleftrightarrow> channel_id_ok (out_channel (rc_channel_id r)) \<and> 0 \<le> rc_tx_id r \<and> rc_tx_id r < 2 ^ 29 \<and>
     0 \<le> pad_or_default (rc_pad_byte r) \<and> pad_or_default (rc_pad_byte r) \<le> 255"

definition listens :: "isotp_receiver \<Rightarrow> isotp \<Rightarrow> bool" where
  "listens r t \<longleftrightarrow> rc_rx_id r = it_tx_id t \<and> (rc_channel_id r = None \<or> rc_channel_id r = Some (it_channel_id t))"

definition delivers :: "isotp_env \<Rightarrow> link \<Rightarrow> can_frame list \<Rightarrow> bool" where
  "delivers env l fs \<longleftrightarrow> (\<forall>m<length fs. env_recv env (lk_recvs l + m) = Some (fs ! m))"

text \<open>No two readings of the clock are N_Cr apart, none is past the deadline, and the port takes
  every frame.\<close>

definition prompt :: "isotp_env \<Rightarrow> seconds \<Rightarrow> seconds option \<Rightarrow> bool" where
  "prompt env n_cr deadline \<longleftrightarrow> (\<forall>k. env_clock env (Suc k) - env_clock env k < n_cr) \<and>
     (\<forall>T. deadline = Some T \<longrightarrow> (\<forall>k. env_clock env k < T)) \<and> (\<forall>k e. env_port env k \<noteq> Port_Raises e)"

lemma delivers_Cons:
  "delivers env l (f # fs) \<longleftrightarrow> env_recv env (lk_recvs l) = Some f \<and> delivers env (received l) fs"
proof
  assume d: "delivers env l (f # fs)"
  then have "env_recv env (lk_recvs l + 0) = Some f" unfolding delivers_def by fastforce
  moreover have "env_recv env (lk_recvs l + Suc m) = Some (fs ! m)" if "m < length fs" for m
    using d that unfolding delivers_def by fastforce
  ultimately show "env_recv env (lk_recvs l) = Some f \<and> delivers env (received l) fs"
    by (simp add: delivers_def)
next
  assume "env_recv env (lk_recvs l) = Some f \<and> delivers env (received l) fs"
  then show "delivers env l (f # fs)"
    by (auto simp: delivers_def nth_Cons split: nat.split)
qed

lemma delivers_recvs: "lk_recvs l' = lk_recvs l \<Longrightarrow> delivers env l' fs = delivers env l fs"
  by (simp add: delivers_def)

lemma normal_data:
  assumes "isotp_wf t" "it_addressing_mode t = NORMAL" "carries t fd p f"
  obtains pad where "frame_data f = p @ pad" "length p = can_dl fd \<longrightarrow> pad = []"
proof -
  have "wrap_npci t p = p" using assms(1,2) by (simp add: isotp_wf_def wrap_npci_def)
  then obtain pad where pad: "frame_data f = p @ pad" using assms(3) by (auto simp: carries_def)
  have "length (frame_data f) \<le> can_dl fd" using assms(3) frame_wf_capacity [of f] by (auto simp: carries_def)
  then have "length p = can_dl fd \<longrightarrow> pad = []" using pad by auto
  then show thesis using that [OF pad] by blast
qed

lemma send_fc_ok:
  assumes "rc_ok r" "\<forall>k e. env_port env k \<noteq> Port_Raises e"
  obtains f where "send_fc r env fs l = (give_frame f l, Inr ())"
proof -
  let ?d = "[word_of_int (push_bit 4 PCI_FLOW_CONTROL OR (fs AND 0x0F)),
      word_of_int (rc_block_size r AND 0xFF), word_of_int (rc_st_min r AND 0xFF)] @
      replicate 5 (word_of_int (pad_or_default (rc_pad_byte r)) :: byte)"
  have pad: "byte_of (pad_or_default (rc_pad_byte r)) = Inr (word_of_int (pad_or_default (rc_pad_byte r)))"
    using assms(1) by (simp add: rc_ok_def)
  have len: "length ?d = 8" by simp
  let ?g = "\<lambda>ns. \<lparr>frame_channel_id = out_channel (rc_channel_id r), frame_arbitration_id = rc_tx_id r,
      frame_dlc = 8, frame_data = ?d, frame_is_extended = rc_tx_id r > 0x7FF, frame_is_fd = rc_is_fd r,
      frame_brs = False, frame_esi = False, frame_direction = ''tx'', frame_timestamp_ns = ns,
      frame_hardware_timestamp_ns = None, frame_host_timestamp_ns = None, frame_sequence = 0,
      frame_error_state = ''active'', frame_source = ''physical''\<rparr>"
  have wf: "frame_wf (?g ns)" for ns
    using assms(1) len
    by (simp add: frame_wf_def rc_ok_def VALID_DIRECTIONS_def VALID_ERROR_STATES_def VALID_SOURCES_def)
  have "build_fc_frame r fs ns = Inr (?g ns)" for ns
    using can_frame_init_ok [OF wf] len
    by (simp add: build_fc_frame_def pad can_frame_create_def)
  then have "send_fc r env fs l = (give_frame (?g (env_stamp env (lk_sends l))) l, Inr ())"
    using assms(2) by (cases "env_port env (lk_sends l)") (simp_all add: send_fc_def)
  then show thesis by (rule that)
qed

lemma link_steps:
  "lk_recvs (tick l) = lk_recvs l" "lk_ticks (tick l) = Suc (lk_ticks l)"
  "lk_ticks (received l) = lk_ticks l" "lk_recvs (received l) = Suc (lk_recvs l)"
  by simp_all

text \<open>A consecutive frame in sequence.\<close>

lemma reassembly_step:
  assumes r: "rc_ok r" "prompt env (rc_n_cr_timeout_s r) deadline" and q: "0 \<le> q" "q < 16"
    and f: "env_recv env (lk_recvs l) = Some f" "cf_relevant r f" "frame_data f = cf_pci q @ rest"
    and open_: "length buffer < n" "clock_now env l < deadline_cr"
  shows "\<exists>l1 c1 t1. lk_recvs l1 = Suc (lk_recvs l) \<and> clock_now env l1 < t1 \<and>
    reassembly_loop r env deadline n frame l buffer q c deadline_cr =
      (let buffer = buffer @ take (min (n - length buffer) (length rest)) rest in
       if length buffer \<ge> n then Some (l1, Inr (Complete (take n buffer)))
       else reassembly_loop r env deadline n frame l1 buffer ((q + 1) AND 0x0F) c1 t1)"
proof -
  let ?l = "(tick l)\<lparr>lk_recvs := Suc (lk_recvs l), lk_ticks := Suc (Suc (lk_ticks l))\<rparr>"
  let ?t = "env_clock env (Suc (lk_ticks l)) + rc_n_cr_timeout_s r"
  have head: "frame_data f ! 0 = word_of_int (32 + q)" unfolding f(3) by (simp only: cf_pci_byte [OF q]) simp
  have u: "byte_at (frame_data f) 0 = 32 + q" unfolding head by (rule uint_of_int_byte) (use q in linarith)+
  have nib: "drop_bit 4 (byte_at (frame_data f) 0) = 2" "byte_at (frame_data f) 0 AND 0x0F = q"
    using cf_nibble [OF q] by (simp_all only: u and_masks drop_bit_eq_div) simp_all
  have split: "length (frame_data f) - 1 = length rest" "drop 1 (frame_data f) = rest"
    unfolding f(3) by (simp_all add: cf_pci_def)
  obtain g where g: "send_fc r env FS_CTS ?l = (give_frame g ?l, Inr ())"
    using send_fc_ok r by (metis prompt_def)
  have ontime: "\<not> (case deadline of None \<Rightarrow> False | Some T \<Rightarrow> clock_now env l \<ge> T)"
    using r(2) by (auto simp: prompt_def not_le split: option.splits)
  have next_: "clock_now env ?l < ?t" "clock_now env (give_frame g ?l) < ?t"
    using r(2) by (simp_all add: prompt_def algebra_simps)
  have conds: "(\<not> length buffer < n) = False" "(deadline_cr - clock_now env l \<le> 0) = False"
    "(case deadline of None \<Rightarrow> False | Some T \<Rightarrow> clock_now env l \<ge> T) = False" "(\<not> cf_relevant r f) = False"
    using open_ ontime f(2) by simp_all
  have pci: "((2 :: int) = PCI_SINGLE_FRAME \<or> 2 = PCI_FIRST_FRAME) = False" "((2 :: int) \<noteq> PCI_CONSECUTIVE_FRAME) = False"
    by (simp_all add: pci_defs)
  have eval: "reassembly_loop r env deadline n frame l buffer q c deadline_cr =
      (let buffer = buffer @ take (min (n - length buffer) (length rest)) rest in
       if length buffer \<ge> n then Some (?l, Inr (Complete (take n buffer)))
       else if rc_block_size r > 0 \<and> c + 1 \<ge> rc_block_size r
       then reassembly_loop r env deadline n frame (give_frame g ?l) buffer ((q + 1) AND 0x0F) 0 ?t
       else reassembly_loop r env deadline n frame ?l buffer ((q + 1) AND 0x0F) (c + 1) ?t)"
    unfolding reassembly_loop.simps [of r env deadline n frame l]
    by (simp only: Let_def conds link_steps f(1) option.case if_False nib split simp_thms(6) not_True_eq_False
        pci g prod.case sum.case)
  define B where "B = buffer @ take (min (n - length buffer) (length rest)) rest"
  note eval_B = eval [unfolded Let_def, folded B_def]
  have recvs: "lk_recvs ?l = Suc (lk_recvs l)" "lk_recvs (give_frame g ?l) = Suc (lk_recvs l)" by simp_all
  have "\<exists>l1 c1 t1. lk_recvs l1 = Suc (lk_recvs l) \<and> clock_now env l1 < t1 \<and>
      reassembly_loop r env deadline n frame l buffer q c deadline_cr =
      (if n \<le> length B then Some (l1, Inr (Complete (take n B)))
       else reassembly_loop r env deadline n frame l1 B (q + 1 AND 15) c1 t1)"
  proof (cases "n \<le> length B")
    case True
    show ?thesis unfolding eval_B if_P [OF True] using recvs(1) next_(1) by blast
  next
    case more: False
    show ?thesis
    proof (cases "rc_block_size r > 0 \<and> c + 1 \<ge> rc_block_size r")
      case True
      show ?thesis unfolding eval_B if_not_P [OF more] if_P [OF True] using recvs(2) next_(2) by blast
    next
      case False
      show ?thesis unfolding eval_B if_not_P [OF more] if_not_P [OF False] using recvs(1) next_(1) by blast
    qed
  qed
  then show ?thesis unfolding Let_def B_def .
qed

lemma listens_cf:
  assumes "listens r t" "carries t (rc_is_fd r) p f" "2 \<le> length (frame_data f)"
  shows "cf_relevant r f" "rx_relevant r f"
  using assms by (auto simp: listens_def carries_def cf_relevant_def rx_relevant_def split: option.splits)

lemma reassembly_delivers:
  assumes r: "rc_ok r" "prompt env (rc_n_cr_timeout_s r) deadline"
    and t: "isotp_wf t" "it_addressing_mode t = NORMAL" "listens r t" and cap: "cap = can_dl (rc_is_fd r) - 1"
  shows "list_all2 (carries t (rc_is_fd r)) (cf_pdus cap i (drop k d)) fs \<Longrightarrow> k < length d \<Longrightarrow>
    delivers env l fs \<Longrightarrow> clock_now env l < deadline_cr \<Longrightarrow>
    \<exists>l'. reassembly_loop r env deadline (length d) frame l (take k d) (int (i mod 16)) c deadline_cr =
      Some (l', Inr (Complete d))"
proof (induction "length d - k" arbitrary: l k i c deadline_cr fs rule: less_induct)
  case less
  let ?q = "int (i mod 16)" and ?chunk = "take cap (drop k d)"
  have cap_pos: "0 < cap" using cap by (simp add: can_dl_def)
  have ne: "drop k d \<noteq> []" using less.prems(2) by simp
  obtain f fs' where fs: "fs = f # fs'" "carries t (rc_is_fd r) (cf_pci ?q @ ?chunk) f"
    "list_all2 (carries t (rc_is_fd r)) (cf_pdus cap (Suc i) (drop (k + cap) d)) fs'"
    using less.prems(1) unfolding cf_pdus_Cons [OF cap_pos ne] by (auto simp: list_all2_Cons1 add.commute)
  obtain pad where pad: "frame_data f = (cf_pci ?q @ ?chunk) @ pad"
    "length (cf_pci ?q @ ?chunk) = can_dl (rc_is_fd r) \<longrightarrow> pad = []"
    using normal_data [OF t(1,2) fs(2)] .
  have full: "pad = [] \<or> length d \<le> k + cap"
    using pad(2) cap_pos cap by (cases "length d \<le> k + cap") (simp_all add: cf_pci_def)
  have two: "2 \<le> length (frame_data f)" using pad(1) ne cap_pos by (cases ?chunk) (simp_all add: cf_pci_def)
  have recv: "env_recv env (lk_recvs l) = Some f" "delivers env (received l) fs'"
    using less.prems(3) by (simp_all add: fs(1) delivers_Cons)
  have got: "take k d @ take (min (length d - length (take k d)) (length (?chunk @ pad))) (?chunk @ pad) = take (k + cap) d"
  proof -
    have "min (length d - k) (length (?chunk @ pad)) = min cap (length d - k)" using full by auto
    moreover have "take (min cap (length d - k)) (?chunk @ pad) = ?chunk"
      using full by (cases "cap \<le> length d - k") auto
    moreover have "length (take k d) = k" using less.prems(2) by simp
    ultimately show ?thesis by (simp only: take_add)
  qed
  have data: "frame_data f = cf_pci ?q @ (?chunk @ pad)" using pad(1) by simp
  have short: "length (take k d) < length d" using less.prems(2) by simp
  have q: "0 \<le> ?q" "?q < 16" by simp_all
  obtain l1 c1 t1 where step: "lk_recvs l1 = Suc (lk_recvs l)" "clock_now env l1 < t1"
    "reassembly_loop r env deadline (length d) frame l (take k d) ?q c deadline_cr =
      (if length d \<le> length (take (k + cap) d) then Some (l1, Inr (Complete (take (length d) (take (k + cap) d))))
       else reassembly_loop r env deadline (length d) frame l1 (take (k + cap) d) (?q + 1 AND 0x0F) c1 t1)"
    using reassembly_step [OF r q recv(1) listens_cf(1) [OF t(3) fs(2) two] data short less.prems(4), of frame c]
    unfolding got Let_def by blast
  show ?case
  proof (cases "length d \<le> k + cap")
    case True
    then show ?thesis unfolding step(3) by simp
  next
    case False
    have d1: "delivers env l1 fs'" using delivers_recvs [of l1 "received l" env fs'] recv(2) step(1) by simp
    have "\<exists>l'. reassembly_loop r env deadline (length d) frame l1 (take (k + cap) d) (int (Suc i mod 16)) c1 t1 =
        Some (l', Inr (Complete d))"
      by (rule less.hyps [OF _ fs(3) _ d1 step(2)]) (use False cap_pos less.prems(2) in simp_all)
    moreover have "?q + 1 AND 0x0F = int (Suc i mod 16)" by (simp add: zmod_int mod_simps add.commute)
    moreover have "\<not> length d \<le> length (take (k + cap) d)" using False by simp
    ultimately show ?thesis unfolding step(3) by (simp only: if_False)
  qed
qed

lemma receive_loop_step:
  assumes env: "env_recv env (lk_recvs l) = Some f" "rx_relevant r f"
    and timeout: "\<And>t. timeout_s = Some t \<Longrightarrow> clock_now env l < start + t"
  obtains l1 where "lk_recvs l1 = Suc (lk_recvs l)"
    "receive_loop r env start timeout_s None l =
      (let pci_type = drop_bit 4 (byte_at (frame_data f) 0) in
       if pci_type = PCI_SINGLE_FRAME then Some (l1, receive_single r f)
       else if pci_type = PCI_FIRST_FRAME then
         (if frame_is_fd f \<noteq> rc_is_fd r then receive_loop r env start timeout_s None l1
          else Option.bind (receive_first r env (map_option (\<lambda>t. start + t) timeout_s) f l1)
            (\<lambda>(l, x). case x of Inl e \<Rightarrow> Some (l, Inl e) | Inr (Complete d) \<Rightarrow> Some (l, Inr d)
               | Inr (Reset g) \<Rightarrow> receive_loop r env start timeout_s (Some g) l))
       else receive_loop r env start timeout_s None l1)"
proof (cases timeout_s)
  case None
  show thesis
    by (rule that [of "received l"])
      (use env in \<open>simp_all add: None receive_loop.simps [of r env start None None l] Let_def\<close>)
next
  case (Some t)
  have "(t - (clock_now env l - start) \<le> 0) = False" using timeout [OF Some] by simp
  then show thesis
    by (intro that [of "received (tick l)"])
      (use env in \<open>simp_all add: Some receive_loop.simps [of r env start "Some t" None l] Let_def\<close>)
qed

lemma receive_one_frame:
  assumes "env_recv env (lk_recvs (tick l)) = Some f" "rx_relevant r f"
    and "\<And>t. timeout_s = Some t \<Longrightarrow> clock_now env (tick l) < clock_now env l + t"
    and "drop_bit 4 (byte_at (frame_data f) 0) = PCI_SINGLE_FRAME" "receive_single r f = Inr d"
  shows "\<exists>l'. isotp_receive r env timeout_s l = Some (l', Inr d)"
proof -
  obtain l1 where "lk_recvs l1 = Suc (lk_recvs (tick l))"
    "receive_loop r env (clock_now env l) timeout_s None (tick l) = Some (l1, receive_single r f)"
    by (rule receive_loop_step [OF assms(1-3)]) (simp_all add: assms(4))
  then show ?thesis by (simp add: isotp_receive_def assms(5))
qed

lemma receive_delivers:
  assumes r: "rc_ok r" "prompt env (rc_n_cr_timeout_s r) (map_option (\<lambda>t. clock_now env l + t) timeout_s)"
    and t: "isotp_wf t" "it_addressing_mode t = NORMAL" "listens r t"
    and d: "d \<noteq> []" "length d < 2 ^ 32" "int (length d) \<le> rc_max_buffer_size r"
    and fs: "list_all2 (carries t (rc_is_fd r)) (pdus 0 (rc_is_fd r) d) fs" "delivers env l fs"
  shows "\<exists>l'. isotp_receive r env timeout_s l = Some (l', Inr d)"
proof -
  let ?fd = "rc_is_fd r" and ?start = "clock_now env l"
  have ontime: "clock_now env (tick l) < ?start + u" if "timeout_s = Some u" for u
    using r(2) that by (simp add: prompt_def)
  have ge2: "2 \<le> length (frame_data f)" if "carries t ?fd p f" "2 \<le> length p" for p f
    using that(2) normal_data [OF t(1,2) that(1)] by (metis length_append trans_le_add1)
  from d(1) zero_le_one show ?thesis
  proof (cases rule: pdus_cases [of d 0 ?fd])
    case Single
    obtain f where f: "fs = [f]" "carries t ?fd (sf_pci (length d) @ d) f"
      using fs(1) Single(2) by (auto simp: list_all2_Cons1)
    obtain pad where pad: "frame_data f = (sf_pci (length d) @ d) @ pad" using normal_data [OF t(1,2) f(2)] by blast
    have n: "1 \<le> length d" "length d \<le> 7" using d(1) Single(1) by (simp_all add: Suc_le_eq)
    have "2 \<le> length (frame_data f)" using ge2 [OF f(2)] n(1) by (simp add: sf_pci_def)
    note rel = listens_cf(2) [OF t(3) f(2) this]
    have recv: "env_recv env (lk_recvs (tick l)) = Some f" using fs(2) f(1) by (simp add: delivers_Cons)
    have u: "uint (word_of_nat (length d) :: byte) = int (length d)" using n by (simp add: uint_nat unat_of_nat)
    have nib: "drop_bit 4 (byte_at (frame_data f) 0) = PCI_SINGLE_FRAME"
      using n u by (simp add: pad sf_pci_byte pci_defs drop_bit_eq_div)
    have "receive_single r f = Inr d"
      using n u d(1) by (simp add: receive_single_def pad sf_pci_byte Let_def)
    with recv rel ontime nib show ?thesis by (intro receive_one_frame)
  next
    case Escape
    obtain f where f: "fs = [f]" "carries t ?fd (sf_escape_pci (length d) @ d) f"
      using fs(1) Escape(4) by (auto simp: list_all2_Cons1)
    obtain pad where pad: "frame_data f = (sf_escape_pci (length d) @ d) @ pad" using normal_data [OF t(1,2) f(2)] by blast
    have n: "8 \<le> length d" "length d \<le> 62" using Escape by simp_all
    have "2 \<le> length (frame_data f)" using ge2 [OF f(2)] n(1) by (simp add: sf_escape_pci_def)
    note rel = listens_cf(2) [OF t(3) f(2) this]
    have recv: "env_recv env (lk_recvs (tick l)) = Some f" using fs(2) f(1) by (simp add: delivers_Cons)
    have u: "unat (word_of_nat (length d) :: byte) = length d" using n(2) by (simp add: unat_of_nat)
    have nib: "drop_bit 4 (byte_at (frame_data f) 0) = PCI_SINGLE_FRAME"
      by (simp add: pad sf_escape_pci_def pci_defs)
    have "receive_single r f = Inr d"
      using n u Escape(1) by (simp add: receive_single_def pad sf_escape_pci_def Let_def)
    with recv rel ontime nib show ?thesis by (intro receive_one_frame)
  next
    case (Multi k cap)
    obtain f fs' where f: "fs = f # fs'" "carries t ?fd (ff_head (length d) @ take k d) f"
      "list_all2 (carries t ?fd) (cf_pdus cap 1 (drop k d)) fs'"
      using fs(1) Multi(5) by (auto simp: list_all2_Cons1)
    have head: "2 \<le> length (ff_head (length d))" "length (ff_head (length d)) \<le> 6" by (simp_all add: length_ff_head)
    have full: "length (ff_head (length d) @ take k d) = can_dl ?fd"
      using Multi(2,3) head by (simp add: can_dl_def split: if_splits)
    obtain pad where "frame_data f = (ff_head (length d) @ take k d) @ pad" "pad = []"
      using normal_data [OF t(1,2) f(2)] full by blast
    then have data: "frame_data f = ff_head (length d) @ take k d" by simp
    have n: "8 \<le> length d" "?fd \<Longrightarrow> 62 < length d"
      using Multi(1,2,3) length_ff_head [of "length d"] by (auto simp: can_dl_def split: if_splits)
    have "2 \<le> length (frame_data f)" using head(1) by (simp add: data)
    note rel = listens_cf(2) [OF t(3) f(2) this]
    have recv: "env_recv env (lk_recvs (tick l)) = Some f" "delivers env (received l) fs'"
      using fs(2) f(1) by (simp_all add: delivers_Cons)
    obtain l1 where l1: "lk_recvs l1 = Suc (lk_recvs (tick l))"
      "receive_loop r env ?start timeout_s None (tick l) =
        (let pci_type = drop_bit 4 (byte_at (frame_data f) 0) in
         if pci_type = PCI_SINGLE_FRAME then Some (l1, receive_single r f)
         else if pci_type = PCI_FIRST_FRAME then
           (if frame_is_fd f \<noteq> rc_is_fd r then receive_loop r env ?start timeout_s None l1
            else Option.bind (receive_first r env (map_option (\<lambda>t. ?start + t) timeout_s) f l1)
              (\<lambda>(l, x). case x of Inl e \<Rightarrow> Some (l, Inl e) | Inr (Complete d) \<Rightarrow> Some (l, Inr d)
                 | Inr (Reset g) \<Rightarrow> receive_loop r env ?start timeout_s (Some g) l))
         else receive_loop r env ?start timeout_s None l1)"
      using receive_loop_step [OF recv(1) rel ontime] .
    have nib: "drop_bit 4 (byte_at (frame_data f) 0) = 1"
      using ff_length_head(2) [OF n(1) d(2), of "take k d"] by (simp add: data drop_bit_eq_div)
    have fd: "frame_is_fd f = ?fd" using f(2) by (simp add: carries_def)
    have announced: "receive_ff_length f = Inr (length d, length (ff_head (length d)))"
      using ff_length_head(1) [OF n(1) d(2), of "take k d"] n(2) fd unfolding receive_ff_length_def ff_length_def data
      by (auto simp: Let_def simp del: and_masks split: if_splits)
    obtain g where g: "send_fc r env FS_CTS l1 = (give_frame g l1, Inr ())"
      using send_fc_ok r by (metis prompt_def)
    let ?l2 = "tick (give_frame g l1)"
    have cap: "cap = can_dl ?fd - 1" using Multi(4) by simp
    have "\<exists>l'. reassembly_loop r env (map_option (\<lambda>t. ?start + t) timeout_s) (length d) f ?l2 (take k d) (int (1 mod 16)) 0
        (clock_now env (give_frame g l1) + rc_n_cr_timeout_s r) = Some (l', Inr (Complete d))"
    proof (rule reassembly_delivers [OF r t cap f(3) Multi(2)])
      show "delivers env ?l2 fs'" using delivers_recvs [of ?l2 "received l" env fs'] recv(2) l1(1) by simp
      show "clock_now env ?l2 < clock_now env (give_frame g l1) + rc_n_cr_timeout_s r"
        using r(2) by (simp add: prompt_def algebra_simps)
    qed
    then obtain l' where "receive_first r env (map_option (\<lambda>t. ?start + t) timeout_s) f l1 = Some (l', Inr (Complete d))"
      using d(3) Multi(2) by (auto simp: receive_first_def announced g data Let_def not_less)
    then show ?thesis
      by (auto simp: isotp_receive_def l1(2) nib fd pci_defs)
  qed
qed

section \<open>Properties\<close>

text \<open>C25. The asynchronous sender returns in every environment whose clock reaches every time,
  whatever frames arrive and whatever the port does, and before it does it obeys at most
  \<open>wft_max + 1\<close> flow control frames for each frame it has emitted: a peer can neither hold it with
  irrelevant frames nor with WAIT.\<close>

theorem sender_terminates:
  assumes "sn_ok s" "0 \<le> sn_wft_max s" "lk_trace l = []" "clock_runs env"
  shows "\<exists>l' x. isotp_send s env d l = Some (l', x) \<and>
    int (length (flows (lk_trace l'))) \<le> (sn_wft_max s + 1) * int (length (wire l'))"
proof -
  obtain l' x where run: "isotp_send s env d l = Some (l', x)"
    using isotp_send_returns [OF assms] by (metis surj_pair)
  from isotp_send_result [OF assms(1-3) run] show ?thesis
  proof
    assume "send_result s d (l', x)"
    then obtain k where "k \<le> length (sn_pdus s d)"
      "list_all2 (carries (sn_view s) (sn_is_fd s)) (take k (sn_pdus s d)) (wire l')"
      "int (length (flows (lk_trace l'))) \<le> (sn_wft_max s + 1) * int k"
      by (auto simp: send_result_def emitted_def)
    moreover from this(1,2) have "length (wire l') = k"
      by (simp add: list_all2_lengthD [symmetric] min_def)
    ultimately show ?thesis using run by blast
  next
    assume "length d > sn_cap s \<and> (l', x) = (l, Inl IsoTpPayloadTooLargeError)"
    then show ?thesis using run assms(3) by auto
  qed
qed

text \<open>C26. The asynchronous sender is disciplined in every environment: the frames it gives to the
  port carry a prefix of the PDUs of the payload, all of them when it returns without an exception;
  no frame leaves without a grant or beyond the granted block, and each consecutive frame leaves
  behind the pause its grant demands.\<close>

theorem sender_disciplined:
  assumes "sn_ok s" "0 \<le> sn_wft_max s" "lk_trace l = []" "isotp_send s env d l = Some (l', x)"
  shows "\<exists>k. list_all2 (carries (sn_view s) (sn_is_fd s)) (take k (sn_pdus s d)) (wire l') \<and>
    pacing (lk_trace l') \<noteq> None \<and> (x = Inr () \<longrightarrow> length d \<le> sn_cap s \<and> k = length (sn_pdus s d))"
proof (cases "length d > sn_cap s")
  case True
  then have "(l', x) = (l, Inl IsoTpPayloadTooLargeError)" using assms(4) isotp_send_refused by simp
  then show ?thesis using assms(3) by (auto simp: pacing_def intro!: exI [of _ 0])
next
  case False
  then have "send_result s d (l', x)" using isotp_send_result [OF assms] by simp
  then show ?thesis using False unfolding send_result_def emitted_def by fastforce
qed

text \<open>C27. The two asynchronous machines fit together: when a send returns without an exception and
  the frames it emitted reach a listening receiver in order and in time, \<open>receive\<close> returns the
  payload.\<close>

theorem sender_to_receiver:
  assumes "sn_ok s" "0 \<le> sn_wft_max s" "lk_trace l = []" "isotp_send s env d l = Some (l', Inr ())"
    and "rc_ok r" "rc_is_fd r = sn_is_fd s" "listens r (sn_view s)" "d \<noteq> []"
    and "int (length d) \<le> rc_max_buffer_size r" "delivers env2 l2 (wire l')"
    and "prompt env2 (rc_n_cr_timeout_s r) (map_option (\<lambda>t. clock_now env2 l2 + t) timeout_s)"
  shows "\<exists>l3. isotp_receive r env2 timeout_s l2 = Some (l3, Inr d)"
proof (rule receive_delivers [OF assms(5,11) _ _ assms(7,8) _ assms(9) _ assms(10)])
  have fits: "\<not> length d > sn_cap s" using assms(4) isotp_send_refused [of s d env l] by auto
  then show "length d < 2 ^ 32"
    by (simp add: MAX_UDS_PAYLOAD_FD_def MAX_UDS_PAYLOAD_CLASSIC_def split: if_splits)
  have "send_result s d (l', Inr ())" using isotp_send_result [OF assms(1-4)] by simp
  then show "list_all2 (carries (sn_view s) (rc_is_fd r)) (pdus 0 (rc_is_fd r) d) (wire l')"
    by (auto simp: send_result_def emitted_def assms(6))
  show "isotp_wf (sn_view s)" "it_addressing_mode (sn_view s) = NORMAL" by (simp_all add: sn_view_def isotp_wf_def)
qed

text \<open>C28. \<open>receive\<close> with a timeout returns in every environment whose clock is monotonic and reaches
  every time, whatever frames arrive: neither irrelevant frames nor frames that reset the reception
  keep it waiting.\<close>

theorem receiver_terminates:
  assumes "clock_runs env" "clock_monotonic env"
  shows "\<exists>res. isotp_receive r env (Some t) l = Some res"
proof -
  obtain j where "expires env (clock_now env l + t) j" using monotonic_expires [OF assms] .
  from receive_loop_returns [OF this] show ?thesis unfolding isotp_receive_def by blast
qed

section \<open>Witnesses\<close>

definition sn_demo :: isotp_sender where
  "sn_demo = \<lparr>sn_tx_id = 0x7E0, sn_rx_id = 0x7E8, sn_channel_id = None, sn_is_fd = False,
     sn_pad_byte = Some 0xCC, sn_n_bs_timeout_s = 1, sn_wft_max = 16\<rparr>"

definition rc_demo :: isotp_receiver where
  "rc_demo = \<lparr>rc_tx_id = 0x7E8, rc_rx_id = 0x7E0, rc_channel_id = None, rc_is_fd = False,
     rc_block_size = 0, rc_st_min = 0, rc_pad_byte = None, rc_max_buffer_size = 4096, rc_n_cr_timeout_s = 1\<rparr>"

text \<open>A peer that grants everything; a link that is silent after the frames \<open>fs\<close>.\<close>

definition grant_demo :: can_frame where
  "grant_demo = \<lparr>frame_channel_id = ''uds_ch0'', frame_arbitration_id = 0x7E8, frame_dlc = 3,
     frame_data = [0x30, 0, 0], frame_is_extended = False, frame_is_fd = False, frame_brs = False,
     frame_esi = False, frame_direction = ''rx'', frame_timestamp_ns = 0,
     frame_hardware_timestamp_ns = None, frame_host_timestamp_ns = None, frame_sequence = 0,
     frame_error_state = ''active'', frame_source = ''physical''\<rparr>"

definition env_granting :: isotp_env where
  "env_granting = \<lparr>env_clock = (\<lambda>k. of_nat k), env_recv = (\<lambda>k. Some grant_demo),
     env_port = (\<lambda>k. Port_Done), env_stamp = (\<lambda>k. 0)\<rparr>"

definition env_frames :: "can_frame list \<Rightarrow> isotp_env" where
  "env_frames fs = \<lparr>env_clock = (\<lambda>k. 0), env_recv = (\<lambda>k. if k < length fs then Some (fs ! k) else None),
     env_port = (\<lambda>k. Port_Done), env_stamp = (\<lambda>k. 0)\<rparr>"

lemma sn_demo_ok: "sn_ok sn_demo" "0 \<le> sn_wft_max sn_demo" "lk_trace link_init = []"
  by (simp_all add: sn_ok_def isotp_ids_ok_def sn_view_def sn_demo_def out_channel_def pad_or_default_def
      channel_id_ok_def CHANNEL_ID_CHARS_def link_init_def)

lemma env_granting_clock: "clock_runs env_granting" "clock_monotonic env_granting"
proof -
  show "clock_runs env_granting" unfolding clock_runs_def
  proof (intro allI)
    fix T :: rat and k :: nat
    obtain n :: nat where "T \<le> of_nat n" using real_arch_simple [of T] by blast
    then have "T \<le> of_nat (max n k)" by (meson max.cobounded1 of_nat_mono order_trans)
    then show "\<exists>j\<ge>k. T \<le> env_clock env_granting j"
      by (intro exI [of _ "max n k"]) (simp add: env_granting_def)
  qed
qed (simp add: clock_monotonic_def env_granting_def)

theorem sender_terminates_witness:
  "\<exists>l' x. isotp_send sn_demo env_granting (replicate 20 7) link_init = Some (l', x) \<and>
    int (length (flows (lk_trace l'))) \<le> (sn_wft_max sn_demo + 1) * int (length (wire l'))"
  by (rule sender_terminates [OF sn_demo_ok env_granting_clock(1)])

theorem sender_disciplined_witness:
  "\<exists>l' x k. isotp_send sn_demo env_granting (replicate 20 7) link_init = Some (l', x) \<and>
    list_all2 (carries (sn_view sn_demo) (sn_is_fd sn_demo)) (take k (sn_pdus sn_demo (replicate 20 7))) (wire l') \<and>
    pacing (lk_trace l') \<noteq> None"
proof -
  obtain l' x where run: "isotp_send sn_demo env_granting (replicate 20 7) link_init = Some (l', x)"
    using isotp_send_returns [OF sn_demo_ok env_granting_clock(1)] by (metis surj_pair)
  from sender_disciplined [OF sn_demo_ok run] show ?thesis using run by blast
qed

text \<open>Twenty bytes, the rest granted at once after the first frame.\<close>

definition env_still :: isotp_env where
  "env_still = \<lparr>env_clock = (\<lambda>k. 0), env_recv = (\<lambda>k. Some grant_demo),
     env_port = (\<lambda>k. Port_Done), env_stamp = (\<lambda>k. 0)\<rparr>"

lemma sn_demo_trace:
  "case isotp_send sn_demo env_still (replicate 20 7) link_init of
     Some (l, Inr ()) \<Rightarrow> length (lk_trace l) = 4 | _ \<Rightarrow> False"
  by code_simp

lemma sn_demo_runs: "\<exists>l'. isotp_send sn_demo env_still (replicate 20 7) link_init = Some (l', Inr ())"
  using sn_demo_trace by (simp split: option.splits prod.splits sum.splits)

theorem sender_to_receiver_witness:
  "\<exists>l' l3. isotp_send sn_demo env_still (replicate 20 7) link_init = Some (l', Inr ()) \<and>
    isotp_receive rc_demo (env_frames (wire l')) (Some 5) link_init = Some (l3, Inr (replicate 20 7))"
proof -
  obtain l' where run: "isotp_send sn_demo env_still (replicate 20 7) link_init = Some (l', Inr ())"
    using sn_demo_runs by blast
  have "\<exists>l3. isotp_receive rc_demo (env_frames (wire l')) (Some 5) link_init = Some (l3, Inr (replicate 20 7))"
    by (rule sender_to_receiver [OF sn_demo_ok run])
      (simp_all add: rc_ok_def rc_demo_def sn_demo_def listens_def sn_view_def delivers_def env_frames_def
        prompt_def link_init_def out_channel_def pad_or_default_def channel_id_ok_def CHANNEL_ID_CHARS_def)
  then show ?thesis using run by blast
qed

theorem receiver_terminates_witness:
  "\<exists>res. isotp_receive rc_demo env_granting (Some 5) link_init = Some res"
  by (rule receiver_terminates [OF env_granting_clock])

end
