(* ===== verification/GatewayPolicy.thy ===== *)
theory GatewayPolicy
  imports CanFrame
begin

text \<open>
  What the transmit gateway decides from a frame alone: the catalogue of
  \<open>src/safety/criticality.py\<close>, the classification \<open>_frame_is_critical\<close> with the ISO-TP service byte
  and the J1939 request it reads (\<open>src/safety/gateway.py\<close>), the whitelist test and the mask breadth
  check, and the read-only session policy of \<open>src/safety/read_only_policy.py\<close>.
  The \<open>except\<close> clause of the classification is dropped: every index it uses is in range.
\<close>

section \<open>Catalogue of critical identities\<close>

definition CRITICAL_UDS_SIDS :: "int list" where
  "CRITICAL_UDS_SIDS =
     [0x04, 0x10, 0x11, 0x14, 0x27, 0x28, 0x29, 0x2C, 0x2E, 0x2F, 0x31, 0x34, 0x36, 0x37, 0x38,
      0x3B, 0x3D, 0x84, 0x85, 0x86, 0x87]"

definition REPLAY_ONLY_PROHIBITED_UDS_SIDS :: "int list" where
  "REPLAY_ONLY_PROHIBITED_UDS_SIDS = [0x3E, 0x35]"

definition PROHIBITED_UDS_SIDS :: "int list" where
  "PROHIBITED_UDS_SIDS = CRITICAL_UDS_SIDS @ REPLAY_ONLY_PROHIBITED_UDS_SIDS"

definition CRITICAL_J1939_PGNS :: "int list" where
  "CRITICAL_J1939_PGNS = [65235, 65228, 65240, 0, 1024]"

definition READONLY_DIAGNOSTIC_J1939_PGNS :: "int list" where
  "READONLY_DIAGNOSTIC_J1939_PGNS = [65226, 65227, 65229, 65230]"

definition J1939_REQUEST_PGN :: int where
  "J1939_REQUEST_PGN = 59904"

definition ISOTP_29BIT_PF :: int where
  "ISOTP_29BIT_PF = 0xDA"

definition ISOTP_29BIT_FUNCTIONAL_PF :: int where
  "ISOTP_29BIT_FUNCTIONAL_PF = 0xDB"

section \<open>Whitelist\<close>

definition mask_matches :: "int \<Rightarrow> int \<times> int \<Rightarrow> bool" where
  "mask_matches arb entry = (case entry of (v, m) \<Rightarrow> m \<noteq> 0 \<and> arb AND m = v)"

definition id_allowed :: "int list \<Rightarrow> (int \<times> int) list \<Rightarrow> int \<Rightarrow> bool" where
  "id_allowed ids masks arb \<longleftrightarrow> arb \<in> set ids \<or> list_ex (mask_matches arb) masks"

text \<open>\<open>bin(n).count("1")\<close>\<close>

fun ones :: "nat \<Rightarrow> nat" where
  "ones n = (if n = 0 then 0 else n mod 2 + ones (n div 2))"

declare ones.simps [simp del]

definition MASK_SUPERSET_LIMIT :: int where
  "MASK_SUPERSET_LIMIT = 65536"

definition matched_ids :: "int \<Rightarrow> int \<Rightarrow> int" where
  "matched_ids v m =
     (if m \<le> 0x7FF \<and> v \<le> 0x7FF then 2 ^ (11 - ones (nat m))
      else 2 ^ (29 - ones (nat (m AND 0x1FFFFFFF))))"

fun validate_mask_breadth :: "(int \<times> int) list \<Rightarrow> bool \<Rightarrow> unit py" where
  "validate_mask_breadth [] superset_allowed = Inr ()"
| "validate_mask_breadth ((v, m) # masks) superset_allowed =
     (if m = 0 then Inl ValueError
      else if m < 0 then Inl ValueError
      else if matched_ids v m > MASK_SUPERSET_LIMIT \<and> \<not> superset_allowed
        then Inl (SafetyError ''WHITELIST_SUPERSET_DENIED'')
      else validate_mask_breadth masks superset_allowed)"

section \<open>Criticality of a frame\<close>

definition iso_tp_service_byte :: "bytes \<Rightarrow> bool \<Rightarrow> int option" where
  "iso_tp_service_byte d fd =
     (if d = [] then None
      else
        let pci = byte_at d 0 div 16 in
        if pci = 0 then
          (if length d < 2 then None
           else if byte_at d 0 = 0 then
             (if \<not> fd then None
              else if byte_at d 1 = 0 then (if length d \<ge> 7 then Some (byte_at d 6) else None)
              else if 8 \<le> byte_at d 1 \<and> byte_at d 1 \<le> 62
                then (if length d \<ge> 3 then Some (byte_at d 2) else None)
              else None)
           else Some (byte_at d 1))
        else if pci = 1 then
          (if length d < 2 then None
           else if byte_at d 1 = 0 then
             (if \<not> fd then None
              else if length d \<ge> 7 then Some (byte_at d 6) else None)
           else if length d \<ge> 3 then Some (byte_at d 2) else None)
        else None)"

definition j1939_requested_pgn :: "bytes \<Rightarrow> int option" where
  "j1939_requested_pgn d =
     (if length d < 3 then None else Some (from_le (take 3 d)))"

definition is_critical_sid :: "int option \<Rightarrow> bool" where
  "is_critical_sid sid = (case sid of None \<Rightarrow> False | Some s \<Rightarrow> s \<in> set CRITICAL_UDS_SIDS)"

definition frame_is_critical :: "int list \<Rightarrow> (int \<times> int) list \<Rightarrow> can_frame \<Rightarrow> bool" where
  "frame_is_critical ids masks f =
     (let d = frame_data f; arb = frame_arbitration_id f in
      if d = [] then False
      else if \<not> frame_is_extended f then
        (if \<not> id_allowed ids masks arb then False
         else is_critical_sid (iso_tp_service_byte d (frame_is_fd f)))
      else if ids = [] \<and> masks = [] then False
      else
        let pf = drop_bit 16 arb AND 0xFF in
        if pf \<in> {ISOTP_29BIT_PF, ISOTP_29BIT_FUNCTIONAL_PF} then
          (case iso_tp_service_byte d (frame_is_fd f) of
             None \<Rightarrow> byte_at d 0 div 16 \<in> {0, 1}
           | Some sid \<Rightarrow> sid \<in> set CRITICAL_UDS_SIDS)
        else
          let pgn = drop_bit 8 arb AND 0x3FFFF in
          if pgn \<in> set CRITICAL_J1939_PGNS then True
          else if pgn = J1939_REQUEST_PGN then
            (case j1939_requested_pgn d of
               None \<Rightarrow> True
             | Some requested \<Rightarrow> requested \<in> set CRITICAL_J1939_PGNS)
          else False)"

section \<open>Read-only sessions\<close>

definition OBD_FUNCTIONAL_ID :: int where
  "OBD_FUNCTIONAL_ID = 0x7DF"

definition OBD_PHYSICAL_REQUEST_IDS :: "int set" where
  "OBD_PHYSICAL_REQUEST_IDS = {0x7E0..0x7E7}"

definition READ_ONLY_OBD_SERVICES :: "int list" where
  "READ_ONLY_OBD_SERVICES = [0x01, 0x02, 0x03, 0x06, 0x07, 0x09, 0x0A]"

definition FLOW_CONTROL_CONTINUE :: int where
  "FLOW_CONTROL_CONTINUE = 0x30"

definition READ_ONLY_J1939_REQUEST_PGNS :: "int list" where
  "READ_ONLY_J1939_REQUEST_PGNS =
     [65226, 65227, 65229, 65230, 65231, 65236, 54016, 65260, 65242, 65259]"

definition J1939_TP_RECEIVER_CONTROLS :: "int list" where
  "J1939_TP_RECEIVER_CONTROLS = [0x11, 0x13, 0xFF]"

definition J1939_TP_PGNS :: "int list" where
  "J1939_TP_PGNS = READ_ONLY_J1939_REQUEST_PGNS @ [41984]"

definition all_ff :: "bytes \<Rightarrow> bool" where
  "all_ff bs = list_all (\<lambda>b. uint b = 0xFF) bs"

text \<open>None: the frame is admitted; otherwise the reason it is not.\<close>

definition j1939_violation :: "can_frame \<Rightarrow> string option" where
  "j1939_violation f =
     (let arb = frame_arbitration_id f; d = frame_data f in
      if drop_bit 24 arb AND 0x03 \<noteq> 0 then Some ''READ_ONLY_ID''
      else
        let pf = drop_bit 16 arb AND 0xFF; da = drop_bit 8 arb AND 0xFF in
        if pf = 0xEA then
          (if length d < 3 \<or> \<not> all_ff (drop 3 d) then Some ''READ_ONLY_PAYLOAD''
           else if from_le (take 3 d) \<in> set READ_ONLY_J1939_REQUEST_PGNS then None
           else Some ''READ_ONLY_SERVICE'')
        else if pf = 0xE3 then
          (if length d \<noteq> 8 \<or> \<not> all_ff (drop 4 d) then Some ''READ_ONLY_PAYLOAD''
           else if byte_at d 0 \<noteq> 247 \<or> byte_at d 3 AND 0x1F \<noteq> 31 then Some ''READ_ONLY_SERVICE''
           else None)
        else if pf = 0xEC then
          (if da = 0xFF \<or> length d \<noteq> 8 \<or> byte_at d 0 \<notin> set J1939_TP_RECEIVER_CONTROLS
             then Some ''READ_ONLY_PAYLOAD''
           else if from_le (py_slice d 5 8) \<in> set J1939_TP_PGNS then None
           else Some ''READ_ONLY_PAYLOAD'')
        else Some ''READ_ONLY_ID'')"

record read_only_policy =
  rp_expires_ns :: int
  rp_reason :: string
  rp_j1939 :: bool

definition violation :: "read_only_policy \<Rightarrow> can_frame \<Rightarrow> int \<Rightarrow> string option" where
  "violation pol f now_ns =
     (let arb = frame_arbitration_id f; d = frame_data f in
      if now_ns \<ge> rp_expires_ns pol then Some ''READ_ONLY_EXPIRED''
      else if frame_is_fd f then Some ''READ_ONLY_ID''
      else if frame_is_extended f then
        (if rp_j1939 pol then j1939_violation f else Some ''READ_ONLY_ID'')
      else if arb \<noteq> OBD_FUNCTIONAL_ID \<and> arb \<notin> OBD_PHYSICAL_REQUEST_IDS then Some ''READ_ONLY_ID''
      else if d = [] then Some ''READ_ONLY_PAYLOAD''
      else
        let pci = byte_at d 0 div 16 in
        if pci = 0 then
          (let n = byte_at d 0 AND 0x0F in
           if \<not> (1 \<le> n \<and> n \<le> 7) \<or> int (length d) < 1 + n then Some ''READ_ONLY_PAYLOAD''
           else if byte_at d 1 \<in> set READ_ONLY_OBD_SERVICES then None
           else Some ''READ_ONLY_SERVICE'')
        else if pci = 3 then
          (if byte_at d 0 = FLOW_CONTROL_CONTINUE \<and> arb \<in> OBD_PHYSICAL_REQUEST_IDS then None
           else Some ''READ_ONLY_PAYLOAD'')
        else Some ''READ_ONLY_PAYLOAD'')"

end
