(* ===== verification/ReplayFilter.thy ===== *)
theory ReplayFilter
  imports PyText GatewayPolicy
begin

text \<open>
  \<open>src/hal/replay/safety_filter.py\<close>: the filter every recorded frame passes before it is replayed onto a
  live bus. Its tables, the service byte it reads, the ledger of ISO-TP sessions, the decision on one
  frame in the source's order of checks, and the counted filter over a sequence. A set is a list, the
  lock makes each call one step, and a blocked frame's reason is the source's text.
\<close>

section \<open>Tables\<close>

definition ADDRESS_CLAIM_PGNS :: "int list" where
  "ADDRESS_CLAIM_PGNS = [0x0EE00, 0x0FED8, 0x0EA00]"

definition DIAGNOSTIC_WRITE_PGNS :: "int list" where
  "DIAGNOSTIC_WRITE_PGNS = [0x0FECC, 0x0FECD, 0x0FECE, 0x0FED3]"

definition BLOCKED_PGNS :: "int list" where
  "BLOCKED_PGNS = ADDRESS_CLAIM_PGNS @ DIAGNOSTIC_WRITE_PGNS"

definition TRANSPORT_TUNNEL_PGNS :: "int list" where
  "TRANSPORT_TUNNEL_PGNS = [0x0EC00, 0x0EB00]"

definition ACTUATION_PGNS :: "int list" where
  "ACTUATION_PGNS = [0x00000, 0x00400]"

definition ACTUATOR_UDS_SIDS :: "int list" where
  "ACTUATOR_UDS_SIDS = [0x2F, 0x3D]"

definition DIAGNOSTIC_11BIT_IDS :: "int list" where
  "DIAGNOSTIC_11BIT_IDS =
     [0x7DF, 0x7E0, 0x7E1, 0x7E2, 0x7E3, 0x7E4, 0x7E5, 0x7E6, 0x7E7,
      0x7E8, 0x7E9, 0x7EA, 0x7EB, 0x7EC, 0x7ED, 0x7EE, 0x7EF]"

definition ECU_RESPONSE_11BIT_IDS :: "int list" where
  "ECU_RESPONSE_11BIT_IDS = [0x7E8, 0x7E9, 0x7EA, 0x7EB, 0x7EC, 0x7ED, 0x7EE, 0x7EF]"

definition UNKNOWN_SID :: int where
  "UNKNOWN_SID = -1"

section \<open>State\<close>

record replay_filter =
  rf_block_address_claim :: bool
  rf_block_diagnostic_write :: bool
  rf_block_actuator_routines :: bool
  rf_block_transport_tunneling :: bool
  rf_custom_blocked_ids :: "int list"
  rf_evaluated :: nat
  rf_passed :: nat
  rf_blocked :: nat
  rf_reasons :: "(string, nat) dict"
  rf_pending :: "(int, int \<times> int) dict"

definition replay_filter_init :: "bool \<Rightarrow> bool \<Rightarrow> bool \<Rightarrow> bool \<Rightarrow> int list \<Rightarrow> replay_filter" where
  "replay_filter_init claim write actuator tunneling custom =
     \<lparr>rf_block_address_claim = claim, rf_block_diagnostic_write = write,
      rf_block_actuator_routines = actuator, rf_block_transport_tunneling = tunneling,
      rf_custom_blocked_ids = custom, rf_evaluated = 0, rf_passed = 0, rf_blocked = 0,
      rf_reasons = [], rf_pending = []\<rparr>"

record replay_metrics =
  rm_evaluated :: nat
  rm_passed :: nat
  rm_blocked :: nat
  rm_reasons :: "(string, nat) dict"
  rm_sessions_pending :: nat

definition snapshot_metrics :: "replay_filter \<Rightarrow> replay_metrics" where
  "snapshot_metrics s =
     \<lparr>rm_evaluated = rf_evaluated s, rm_passed = rf_passed s, rm_blocked = rf_blocked s,
      rm_reasons = rf_reasons s, rm_sessions_pending = length (rf_pending s)\<rparr>"

definition reset_session_state :: "replay_filter \<Rightarrow> replay_filter" where
  "reset_session_state s = s\<lparr>rf_pending := []\<rparr>"

section \<open>ISO-TP\<close>

definition extract_uds_sid :: "can_frame \<Rightarrow> int option" where
  "extract_uds_sid f =
     (let d = frame_data f; n = length d in
      if n < 2 then None
      else
        let pci_type = drop_bit 4 (byte_at d 0) AND 0x0F in
        if pci_type = 0 then
          (let low_nibble = byte_at d 0 AND 0x0F in
           if frame_is_fd f \<and> n > 8 then
             (if low_nibble \<noteq> 0 then Some UNKNOWN_SID
              else if n < 3 then Some UNKNOWN_SID
              else
                let sf_dl = byte_at d 1 in
                if sf_dl < 8 \<or> sf_dl > 62 \<or> int n < sf_dl + 2 then Some UNKNOWN_SID
                else Some (byte_at d 2))
           else if low_nibble < 1 \<or> int n < low_nibble + 1 then Some UNKNOWN_SID
           else Some (byte_at d 1))
        else if pci_type = 1 then
          (if frame_is_fd f \<and> byte_at d 0 = 0x10 \<and> byte_at d 1 = 0x00 \<and> n \<ge> 6 then
             (if n < 7 then Some UNKNOWN_SID else Some (byte_at d 6))
           else if n \<ge> 3 then Some (byte_at d 2)
           else Some UNKNOWN_SID)
        else None)"

definition register_first_frame :: "replay_filter \<Rightarrow> can_frame \<Rightarrow> int \<Rightarrow> replay_filter" where
  "register_first_frame s f sid =
     (let d = frame_data f;
          is_fd_escape = frame_is_fd f \<and> byte_at d 0 = 0x10 \<and> byte_at d 1 = 0x00 \<and> length d \<ge> 6;
          (ff_dl, carried) =
            (if is_fd_escape then (from_be (py_slice d 2 6), 10)
             else (push_bit 8 (byte_at d 0 AND 0x0F) OR byte_at d 1, 6))
      in s\<lparr>rf_pending := dset (frame_arbitration_id f) (sid, max 0 (ff_dl - carried)) (rf_pending s)\<rparr>)"

definition prohibited_sid :: "replay_filter \<Rightarrow> int \<Rightarrow> bool" where
  "prohibited_sid s sid \<longleftrightarrow> sid = UNKNOWN_SID \<or> sid \<in> set PROHIBITED_UDS_SIDS \<or>
     rf_block_actuator_routines s \<and> sid \<in> set ACTUATOR_UDS_SIDS"

type_synonym verdict = "bool \<times> string"

definition check_iso_tp_cf_fc :: "replay_filter \<Rightarrow> can_frame \<Rightarrow> bool \<Rightarrow> replay_filter \<times> verdict" where
  "check_iso_tp_cf_fc s f is_diagnostic =
     (let d = frame_data f; arb = frame_arbitration_id f in
      if d = [] \<or> \<not> is_diagnostic then (s, True, [])
      else
        let pci_type = drop_bit 4 (byte_at d 0) AND 0x0F in
        if pci_type \<noteq> 2 \<and> pci_type \<noteq> 3 then (s, True, [])
        else if rf_block_transport_tunneling s
          then (s, False, ''BLOCKED_TP_TUNNEL: CF/FC on diagnostic ID 0x'' @ hex_padded 0 arb)
        else case dget (rf_pending s) arb of
          None \<Rightarrow> (s, True, [])
        | Some (sid, remaining) \<Rightarrow>
            if prohibited_sid s sid then (s, False, ''PROHIBITED_ISO_TP_SESSION_SID: 0x'' @ hex_padded 2 sid)
            else if pci_type = 2 then
              (let carried = int (length d) - 1 in
               if remaining - carried \<le> 0 then (s\<lparr>rf_pending := dpop arb (rf_pending s)\<rparr>, True, [])
               else (s\<lparr>rf_pending := dset arb (sid, remaining - carried) (rf_pending s)\<rparr>, True, []))
            else (s, True, []))"

section \<open>The decision on one frame\<close>

text \<open>The four readings of a 29-bit identifier's PGN: as it stands, without its destination, and both
  again without the extended data page bit.\<close>

definition pgn_readings :: "int \<Rightarrow> int list" where
  "pgn_readings arb =
     (let edp_masked_pgn = drop_bit 8 arb AND 0x1FFFF;
          edp_masked_pf = drop_bit 8 edp_masked_pgn AND 0xFF;
          edp_masked_norm = (if edp_masked_pf < 240 then edp_masked_pgn AND 0x1FF00 else edp_masked_pgn);
          pgn = drop_bit 8 arb AND 0x3FFFF;
          pdu_format = drop_bit 8 pgn AND 0xFF;
          masked_pgn = (if pdu_format < 240 then pgn AND 0x3FF00 else pgn)
      in [pgn, masked_pgn, edp_masked_pgn, edp_masked_norm])"

definition any_reading :: "int \<Rightarrow> int list \<Rightarrow> bool" where
  "any_reading arb table \<longleftrightarrow> list_ex (\<lambda>p. p \<in> set table) (pgn_readings arb)"

definition pgn_reason :: "string \<Rightarrow> int \<Rightarrow> string" where
  "pgn_reason head arb =
     (let pgn = drop_bit 8 arb AND 0x3FFFF in head @ py_str pgn @ '' (0x'' @ hex_padded 5 pgn @ '')'')"

definition is_diagnostic_29bit :: "int \<Rightarrow> bool" where
  "is_diagnostic_29bit arb \<longleftrightarrow>
     (let pgn = drop_bit 8 arb AND 0x3FFFF; edp_masked_pgn = drop_bit 8 arb AND 0x1FFFF in
      drop_bit 8 pgn AND 0xFF \<in> {0xDA, 0xDB} \<or> drop_bit 8 edp_masked_pgn AND 0xFF \<in> {0xDA, 0xDB})"

text \<open>The check both identifier formats share: consecutive frames and flow control, then the service
  byte, a first frame being registered before it is judged.\<close>

definition check_diagnostic :: "replay_filter \<Rightarrow> can_frame \<Rightarrow> string \<Rightarrow> string \<Rightarrow> replay_filter \<times> verdict" where
  "check_diagnostic s f prohibited truncated =
     (case check_iso_tp_cf_fc s f True of (s, safe, reason) \<Rightarrow>
      if \<not> safe then (s, False, reason)
      else if length (frame_data f) \<ge> 2 then
        (case extract_uds_sid f of
           None \<Rightarrow> (s, True, [])
         | Some sid \<Rightarrow>
             let s = (if drop_bit 4 (byte_at (frame_data f) 0) AND 0x0F = 1
                      then register_first_frame s f sid else s)
             in if prohibited_sid s sid then (s, False, prohibited @ hex_padded 2 sid) else (s, True, []))
      else (s, False, truncated))"

definition is_frame_safe :: "replay_filter \<Rightarrow> can_frame \<Rightarrow> replay_filter \<times> verdict" where
  "is_frame_safe s f =
     (let s = s\<lparr>rf_evaluated := rf_evaluated s + 1\<rparr>; arb = frame_arbitration_id f in
      if arb \<in> set (rf_custom_blocked_ids s) then (s, False, ''CUSTOM_BLOCKED_ID: 0x'' @ hex_padded 8 arb)
      else if frame_is_extended f then
        (if rf_block_address_claim s \<and> any_reading arb ADDRESS_CLAIM_PGNS
           then (s, False, pgn_reason ''BLOCKED_J1939_PGN: '' arb)
         else if rf_block_diagnostic_write s \<and> any_reading arb DIAGNOSTIC_WRITE_PGNS
           then (s, False, pgn_reason ''BLOCKED_DIAGNOSTIC_WRITE_PGN: '' arb)
         else if rf_block_actuator_routines s \<and> any_reading arb ACTUATION_PGNS
           then (s, False, pgn_reason ''BLOCKED_ACTUATION_PGN: '' arb)
         else if rf_block_transport_tunneling s \<and> any_reading arb TRANSPORT_TUNNEL_PGNS
           then (s, False, pgn_reason ''BLOCKED_TP_TUNNEL: '' arb)
         else if rf_block_diagnostic_write s \<and> is_diagnostic_29bit arb
           then check_diagnostic s f ''PROHIBITED_29BIT_UDS_SID: 0x'' ''TRUNCATED_29BIT_DIAGNOSTIC_PAYLOAD''
         else (s, True, []))
      else if rf_block_diagnostic_write s \<and> arb \<in> set ECU_RESPONSE_11BIT_IDS
        then (s, False, ''BLOCKED_ECU_RESPONSE_SPOOF: 0x'' @ hex_padded 0 arb)
      else if rf_block_diagnostic_write s \<and> arb \<in> set DIAGNOSTIC_11BIT_IDS
        then check_diagnostic s f ''PROHIBITED_11BIT_UDS_SID: 0x'' ''TRUNCATED_11BIT_DIAGNOSTIC_PAYLOAD''
      else (s, True, []))"

section \<open>Filtering\<close>

definition filter_frame :: "replay_filter \<Rightarrow> can_frame \<Rightarrow> replay_filter \<times> can_frame option" where
  "filter_frame s f =
     (case is_frame_safe s f of (s, safe, reason) \<Rightarrow>
      if \<not> safe then
        (s\<lparr>rf_blocked := rf_blocked s + 1,
           rf_reasons := dset reason ((case dget (rf_reasons s) reason of Some n \<Rightarrow> n | None \<Rightarrow> 0) + 1)
             (rf_reasons s)\<rparr>, None)
      else (s\<lparr>rf_passed := rf_passed s + 1\<rparr>, Some f))"

fun filter_sequence :: "replay_filter \<Rightarrow> can_frame list \<Rightarrow> replay_filter \<times> can_frame list" where
  "filter_sequence s [] = (s, [])"
| "filter_sequence s (f # fs) =
     (case filter_frame s f of (s, out) \<Rightarrow>
      case filter_sequence s fs of (s, kept) \<Rightarrow>
        (s, (case out of Some g \<Rightarrow> g # kept | None \<Rightarrow> kept)))"

end
