(* ===== verification/Gateway.thy ===== *)
theory Gateway
  imports Watchdog E2EPackager GatewayPolicy
begin

text \<open>
  \<open>src/safety/gateway.py\<close>: the transmit gateway every outgoing frame passes. Token buckets, the
  gateway's state, confirmation tokens, the stages of \<open>validate_and_transmit\<close> in the source's order,
  the reservation and its rollback, the fenced dispatch, link faults, the speed channel and
  reconfiguration; composed with the emergency stop, the supervisor and the watchdog it consults.
  HMAC-SHA256 and SHA-256 are the parameters \<open>mac\<close> and \<open>sha\<close>; clock readings, thread identifiers,
  random bytes and the texts of numbers are arguments. Python floats are rationals, a NaN is None.
\<close>

section \<open>Token buckets\<close>

record tx_budget =
  tb_capacity :: int
  tb_refill_per_sec :: rat
  tb_tokens :: rat
  tb_last_refill_ns :: int

definition tx_budget_init :: "int \<Rightarrow> rat \<Rightarrow> int \<Rightarrow> tx_budget" where
  "tx_budget_init cap refill now_ns =
     \<lparr>tb_capacity = cap, tb_refill_per_sec = refill, tb_tokens = of_int cap, tb_last_refill_ns = now_ns\<rparr>"

definition try_consume :: "tx_budget \<Rightarrow> rat \<Rightarrow> int \<Rightarrow> tx_budget \<times> bool" where
  "try_consume b n now_ns =
     (let elapsed_s = of_int (now_ns - tb_last_refill_ns b) / 1000000000;
          b = (if elapsed_s > 0
               then b\<lparr>tb_tokens := min (of_int (tb_capacity b)) (tb_tokens b + elapsed_s * tb_refill_per_sec b),
                      tb_last_refill_ns := now_ns\<rparr>
               else b)
      in if tb_tokens b \<ge> n then (b\<lparr>tb_tokens := tb_tokens b - n\<rparr>, True) else (b, False))"

definition refund :: "tx_budget \<Rightarrow> rat \<Rightarrow> tx_budget" where
  "refund b n = b\<lparr>tb_tokens := min (of_int (tb_capacity b)) (tb_tokens b + n)\<rparr>"

section \<open>Constants\<close>

definition MAX_TX_RATE_PER_SEC :: nat where
  "MAX_TX_RATE_PER_SEC = 100"

definition MAX_TOTAL_TX_PER_SEC :: nat where
  "MAX_TOTAL_TX_PER_SEC = 400"

definition RATE_LIMIT_WINDOW_NS :: int where
  "RATE_LIMIT_WINDOW_NS = 1000000000"

definition RATE_ESTOP_AFTER :: nat where
  "RATE_ESTOP_AFTER = 5"

definition WHITELIST_ESTOP_AFTER :: nat where
  "WHITELIST_ESTOP_AFTER = 5"

definition WHITELIST_MISS_STREAK_WINDOW_NS :: int where
  "WHITELIST_MISS_STREAK_WINDOW_NS = 1000000000"

definition SPEED_NOISE_THRESHOLD_KMH :: rat where
  "SPEED_NOISE_THRESHOLD_KMH = 1 / 2"

definition SPEED_MAX_PLAUSIBLE_KMH :: rat where
  "SPEED_MAX_PLAUSIBLE_KMH = 300"

definition SPEED_VALIDITY_TIMEOUT_NS :: int where
  "SPEED_VALIDITY_TIMEOUT_NS = 1000000000"

definition RATE_LOG_INTERVAL_NS :: int where
  "RATE_LOG_INTERVAL_NS = 1000000000"

definition CONSUMED_CONFIRMATIONS_MAX :: nat where
  "CONSUMED_CONFIRMATIONS_MAX = 1024"

definition CONFIRM_BASE_LEN :: nat where
  "CONFIRM_BASE_LEN = 28"

definition CONFIRM_BIND_LEN :: nat where
  "CONFIRM_BIND_LEN = 44"

definition BUDGETS :: "(string, int \<times> rat) dict" where
  "BUDGETS = [(''diagnostic'', (10, 10)), (''calibration'', (5, 5)), (''protocol_burst'', (255, 100)),
     (''simulation'', (500, 250)), (''default'', (100, 100))]"

definition LINK_FAULT_BUS_OFF :: string where
  "LINK_FAULT_BUS_OFF = ''bus_off''"

definition LINK_FAULT_DISCONNECT :: string where
  "LINK_FAULT_DISCONNECT = ''hardware_disconnect''"

definition LINK_FAULT_COMM_TIMEOUT :: string where
  "LINK_FAULT_COMM_TIMEOUT = ''communication_timeout''"

section \<open>State\<close>

text \<open>The bus as the gateway sees it: whether it is virtual, the flush primitives it offers by name,
  and those of the raw handle behind it.\<close>

record tx_bus =
  bus_virtual :: bool
  bus_hooks :: "(string, nat) dict"
  bus_raw_hooks :: "(string, nat) dict option"

text \<open>A reservation's identity: time, thread, sequence number.\<close>

type_synonym stamp = "int \<times> nat \<times> nat"

text \<open>\<open>gw_budget_gen\<close> tells the bucket objects of before a rebind from those after it: a reservation
  keeps a reference to the object it was charged to.\<close>

record gateway =
  gw_bus :: tx_bus
  gw_whitelist_ids :: "int list"
  gw_whitelist_masks :: "(int \<times> int) list"
  gw_superset_allowed :: bool
  gw_packager :: "packager option"
  gw_profiles :: "(int, e2e_config) dict"
  gw_bypass :: bool
  gw_secret :: "bytes option"
  gw_allow_legacy :: bool
  gw_consumed :: "(bytes, int) dict"
  gw_miss_streak :: nat
  gw_last_miss_ns :: int
  gw_link_latched :: "string set"
  gw_link_epoch :: int
  gw_tx_stamps :: "stamp list"
  gw_rate_streak :: nat
  gw_last_rate_log_ns :: int
  gw_rate_log_suppressed :: nat
  gw_stamp_seq :: nat
  gw_budgets :: "(string, tx_budget) dict"
  gw_budget_gen :: nat
  gw_physical_speed :: "rat option"
  gw_display_speed :: "rat option"
  gw_last_speed_ns :: int
  gw_total_stamps :: "stamp list"
  gw_total_streak :: nat
  gw_executor_shutdown :: bool
  gw_abort_hook :: "nat option"
  gw_read_only :: "read_only_policy option"

text \<open>An emergency stop decided under the gateway's lock, fired after its release.\<close>

type_synonym parked = "(estop_trigger_source \<times> utext \<times> rat option) list"

type_synonym gw_state = "gateway \<times> parked"

text \<open>What a caller asks for. A token is bytes or a hexadecimal string; a context given as text is its
  UTF-8 encoding.\<close>

record tx_request =
  rq_frame :: can_frame
  rq_critical :: bool
  rq_confirmed :: bool
  rq_category :: string
  rq_token :: "(bytes + string) option"
  rq_inbound :: bool
  rq_context :: "bytes option"

text \<open>The clock readings of one call and the thread that makes it.\<close>

record tx_clock =
  tc_now :: int
  tc_verify :: int
  tc_bucket :: int
  tc_burn :: int
  tc_thread :: nat

text \<open>What the safety components say when Stage 2 reads them.\<close>

record tx_view =
  vw_permitted :: bool
  vw_lease_valid :: bool
  vw_engaged :: bool

text \<open>A validated call on its way to the bus: the frame (sealed if a profile asks for it), its
  reservations, the token burned for it, and the emergency stop as it was at release of the lock.\<close>

record ticket =
  tk_frame :: can_frame
  tk_stamp :: "stamp option"
  tk_bucket :: "(string \<times> nat) option"
  tk_total :: "stamp option"
  tk_burned :: "bytes option"
  tk_engaged :: bool
  tk_fence :: int

section \<open>Construction\<close>

definition fresh_budgets :: "int \<Rightarrow> (string, tx_budget) dict" where
  "fresh_budgets now_ns = map (\<lambda>(name, cap, refill). (name, tx_budget_init cap refill now_ns)) BUDGETS"

fun validate_e2e_profiles :: "(int, e2e_config) dict \<Rightarrow> unit py" where
  "validate_e2e_profiles [] = Inr ()"
| "validate_e2e_profiles ((arb, cfg) # profiles) =
     py_bind (e2e_config_init cfg) (\<lambda>_. validate_e2e_profiles profiles)"

definition gateway_init ::
  "tx_bus \<Rightarrow> int list option \<Rightarrow> (int \<times> int) list option \<Rightarrow> packager option \<Rightarrow>
   (int, e2e_config) dict option \<Rightarrow> bytes option \<Rightarrow> bool \<Rightarrow> bool \<Rightarrow> int \<Rightarrow> int \<Rightarrow> gateway py" where
  "gateway_init bus ids masks pk profiles secret allow_legacy superset_allowed epoch now_ns =
     (let masks = (case masks of Some ms \<Rightarrow> ms | None \<Rightarrow> []);
          profiles = (case profiles of Some ps \<Rightarrow> ps | None \<Rightarrow> []) in
      py_bind (validate_mask_breadth masks superset_allowed) (\<lambda>_.
      py_bind (validate_e2e_profiles profiles) (\<lambda>_.
      Inr \<lparr>gw_bus = bus, gw_whitelist_ids = (case ids of Some xs \<Rightarrow> xs | None \<Rightarrow> []),
           gw_whitelist_masks = masks, gw_superset_allowed = superset_allowed,
           gw_packager = pk, gw_profiles = profiles, gw_bypass = False, gw_secret = secret,
           gw_allow_legacy = allow_legacy, gw_consumed = [], gw_miss_streak = 0,
           gw_last_miss_ns = 0, gw_link_latched = {}, gw_link_epoch = epoch, gw_tx_stamps = [],
           gw_rate_streak = 0, gw_last_rate_log_ns = 0, gw_rate_log_suppressed = 0,
           gw_stamp_seq = 0, gw_budgets = fresh_budgets now_ns, gw_budget_gen = 0,
           gw_physical_speed = Some 0, gw_display_speed = Some 0, gw_last_speed_ns = 0,
           gw_total_stamps = [], gw_total_streak = 0, gw_executor_shutdown = False,
           gw_abort_hook = None, gw_read_only = None\<rparr>)))"

definition for_testing :: "bool \<Rightarrow> tx_bus \<Rightarrow> int list option \<Rightarrow> int \<Rightarrow> int \<Rightarrow> gateway py" where
  "for_testing test_mode bus ids epoch now_ns =
     (if \<not> test_mode then Inl RuntimeError
      else py_bind (gateway_init bus ids None None None None False False epoch now_ns)
        (\<lambda>g. Inr (g\<lparr>gw_bypass := True\<rparr>)))"

definition register_e2e_profile :: "gateway \<Rightarrow> int \<Rightarrow> e2e_config \<Rightarrow> gateway \<times> unit py" where
  "register_e2e_profile g arb profile =
     act_bind (g, validate_e2e_profiles [(arb, profile)]) (\<lambda>g _.
       (g\<lparr>gw_packager := (case gw_packager g of None \<Rightarrow> Some packager_init | Some pk \<Rightarrow> Some pk),
          gw_profiles := dset arb profile (gw_profiles g)\<rparr>, Inr ()))"

section \<open>The speed channel\<close>

text \<open>A speed that is not finite is None.\<close>

definition update_vehicle_speed :: "gateway \<Rightarrow> rat option \<Rightarrow> bool \<Rightarrow> int \<Rightarrow> gateway" where
  "update_vehicle_speed g speed physical now_ns =
     (if \<not> physical then
        g\<lparr>gw_display_speed := (case speed of Some v \<Rightarrow> if v \<ge> 0 then Some v else None | None \<Rightarrow> None)\<rparr>
      else
        case speed of
          None \<Rightarrow> g\<lparr>gw_physical_speed := None, gw_display_speed := None, gw_last_speed_ns := 0\<rparr>
        | Some v \<Rightarrow>
            if v < 0 \<or> v > SPEED_MAX_PLAUSIBLE_KMH
            then g\<lparr>gw_physical_speed := None, gw_display_speed := None, gw_last_speed_ns := 0\<rparr>
            else g\<lparr>gw_physical_speed := Some v, gw_display_speed := Some v, gw_last_speed_ns := now_ns\<rparr>)"

definition update_physical_speed :: "gateway \<Rightarrow> rat option \<Rightarrow> int \<Rightarrow> gateway" where
  "update_physical_speed g speed now_ns = update_vehicle_speed g speed True now_ns"

definition record_synthetic_speed :: "gateway \<Rightarrow> rat option \<Rightarrow> int \<Rightarrow> gateway" where
  "record_synthetic_speed g speed now_ns = update_vehicle_speed g speed False now_ns"

definition is_speed_fresh_and_safe :: "gateway \<Rightarrow> int option \<Rightarrow> int \<Rightarrow> bool" where
  "is_speed_fresh_and_safe g max_age_ns now_ns =
     (let timeout = (case max_age_ns of Some a \<Rightarrow> a | None \<Rightarrow> SPEED_VALIDITY_TIMEOUT_NS) in
      if gw_last_speed_ns g = 0 then False
      else if now_ns - gw_last_speed_ns g > timeout then False
      else case gw_physical_speed g of None \<Rightarrow> False | Some v \<Rightarrow> v \<le> SPEED_NOISE_THRESHOLD_KMH)"

definition speed_interlock_state :: "gateway \<Rightarrow> int option \<Rightarrow> int \<Rightarrow> string \<times> rat option" where
  "speed_interlock_state g max_age_ns now_ns =
     (let timeout = (case max_age_ns of Some a \<Rightarrow> a | None \<Rightarrow> SPEED_VALIDITY_TIMEOUT_NS);
          speed = gw_physical_speed g in
      if gw_last_speed_ns g = 0 then (''stale'', speed)
      else if now_ns - gw_last_speed_ns g > timeout then (''stale'', speed)
      else case speed of
        None \<Rightarrow> (''stale'', speed)
      | Some v \<Rightarrow> if v > SPEED_NOISE_THRESHOLD_KMH then (''moving'', speed) else (''ok'', speed))"

section \<open>Confirmation tokens\<close>

definition confirmation_payload_hash :: "(bytes \<Rightarrow> bytes) \<Rightarrow> bytes \<Rightarrow> bytes" where
  "confirmation_payload_hash sha d = take 8 (sha d)"

definition confirmation_context_hash :: "(bytes \<Rightarrow> bytes) \<Rightarrow> bytes option \<Rightarrow> bytes" where
  "confirmation_context_hash sha context =
     (case context of None \<Rightarrow> replicate 8 0 | Some raw \<Rightarrow> take 8 (sha raw))"

definition has_confirmation_secret :: "gateway \<Rightarrow> bool" where
  "has_confirmation_secret g \<longleftrightarrow> gw_secret g \<noteq> None"

text \<open>\<open>bytes.ljust(8, b"\0")\<close>\<close>

definition ljust8 :: "bytes \<Rightarrow> bytes" where
  "ljust8 bs = bs @ replicate (8 - length bs) 0"

definition issue_confirmation_token ::
  "(bytes \<Rightarrow> bytes \<Rightarrow> bytes) \<Rightarrow> (bytes \<Rightarrow> bytes) \<Rightarrow> gateway \<Rightarrow> int \<Rightarrow> rat \<Rightarrow> bytes option \<Rightarrow> bytes option \<Rightarrow>
   bytes \<Rightarrow> int \<Rightarrow> bytes py" where
  "issue_confirmation_token mac sha g arb ttl_s payload_hash context nonce now_ns =
     (case gw_secret g of
        None \<Rightarrow> Inl (SafetyError ''CONFIRMATION_NOT_CONFIGURED'')
      | Some secret \<Rightarrow>
          let expiry_ns = now_ns + \<lfloor>max 1 ttl_s * 1000000000\<rfloor> in
          py_bind (to_be 4 arb) (\<lambda>a.
          py_bind (to_be 8 expiry_ns) (\<lambda>e.
          let payload = a @ e @ nonce in
          if context \<noteq> None \<and> payload_hash = None then Inl (SafetyError ''CONFIRMATION_PAYLOAD_UNBOUND'')
          else
            let payload = (case payload_hash of
                  None \<Rightarrow> payload
                | Some h \<Rightarrow> payload @ ljust8 (take 8 h) @ confirmation_context_hash sha context)
            in Inr (payload @ mac secret payload))))"

text \<open>The closure's defaults: 30 seconds, no binding.\<close>

definition create_confirmation_issuer ::
  "(bytes \<Rightarrow> bytes \<Rightarrow> bytes) \<Rightarrow> (bytes \<Rightarrow> bytes) \<Rightarrow> gateway \<Rightarrow> int \<Rightarrow> rat option \<Rightarrow> bytes option \<Rightarrow> bytes option \<Rightarrow>
   bytes \<Rightarrow> int \<Rightarrow> bytes py" where
  "create_confirmation_issuer mac sha g arb ttl_s payload_hash context nonce now_ns =
     issue_confirmation_token mac sha g arb (case ttl_s of Some t \<Rightarrow> t | None \<Rightarrow> 30) payload_hash context
       nonce now_ns"

definition confirmation_required :: "'a py" where
  "confirmation_required = Inl (SafetyError ''CONFIRMATION_REQUIRED'')"

definition raw_token :: "bytes + string \<Rightarrow> bytes py" where
  "raw_token tok =
     (case tok of
        Inl raw \<Rightarrow> Inr raw
      | Inr s \<Rightarrow> (case py_fromhex (py_strip s) of Some raw \<Rightarrow> Inr raw | None \<Rightarrow> confirmation_required))"

definition parse_confirmation_token ::
  "(bytes \<Rightarrow> bytes \<Rightarrow> bytes) \<Rightarrow> gateway \<Rightarrow> bytes + string \<Rightarrow> bytes py" where
  "parse_confirmation_token mac g tok =
     py_bind (raw_token tok) (\<lambda>raw.
       if length raw \<notin> {CONFIRM_BASE_LEN + 32, CONFIRM_BIND_LEN + 32} then confirmation_required
       else
         let payload = take (length raw - 32) raw; given_mac = drop (length raw - 32) raw in
         case gw_secret g of
           None \<Rightarrow> confirmation_required
         | Some secret \<Rightarrow>
             if given_mac \<noteq> mac secret payload then confirmation_required else Inr payload)"

text \<open>With \<open>consume=False\<close>: the payload to burn later and its expiry.\<close>

definition verify_confirmation_token ::
  "(bytes \<Rightarrow> bytes \<Rightarrow> bytes) \<Rightarrow> (bytes \<Rightarrow> bytes) \<Rightarrow> gateway \<Rightarrow> bytes + string \<Rightarrow> can_frame \<Rightarrow> bytes option \<Rightarrow> int \<Rightarrow>
   (bytes \<times> int) py" where
  "verify_confirmation_token mac sha g tok f expected_context now_ns =
     py_bind (parse_confirmation_token mac g tok) (\<lambda>payload.
       let arb = from_be (take 4 payload); expiry_ns = from_be (py_slice payload 4 12) in
       if arb \<noteq> frame_arbitration_id f then confirmation_required
       else if length payload = CONFIRM_BIND_LEN \<and>
               py_slice payload 28 36 \<noteq> confirmation_payload_hash sha (frame_data f)
         then confirmation_required
       else if length payload = CONFIRM_BIND_LEN \<and>
               (case expected_context of
                  None \<Rightarrow> True
                | Some c \<Rightarrow> py_slice payload 36 44 \<noteq> confirmation_context_hash sha (Some c))
         then confirmation_required
       else if length payload \<noteq> CONFIRM_BIND_LEN \<and> expected_context \<noteq> None then confirmation_required
       else if now_ns > expiry_ns then confirmation_required
       else if dget (gw_consumed g) payload \<noteq> None then confirmation_required
       else Inr (payload, expiry_ns))"

text \<open>The replay store: entries are dropped from the front while they have expired, then the new one
  is added, then the oldest are evicted.\<close>

definition prune_expired :: "(bytes, int) dict \<Rightarrow> int \<Rightarrow> (bytes, int) dict" where
  "prune_expired store now_ns = dropWhile (\<lambda>(p, expiry). expiry \<le> now_ns) store"

definition consume_confirmation :: "gateway \<Rightarrow> bytes \<Rightarrow> int \<Rightarrow> int \<Rightarrow> gateway" where
  "consume_confirmation g payload expiry_ns now_ns =
     (let store = dset payload expiry_ns (prune_expired (gw_consumed g) now_ns) in
      g\<lparr>gw_consumed := drop (length store - CONSUMED_CONFIRMATIONS_MAX) store\<rparr>)"

definition refund_confirmation :: "gateway \<Rightarrow> bytes option \<Rightarrow> gateway" where
  "refund_confirmation g payload =
     (case payload of None \<Rightarrow> g | Some p \<Rightarrow> g\<lparr>gw_consumed := dpop p (gw_consumed g)\<rparr>)"

section \<open>The stages under the lock\<close>

definition sanity_error :: "'a py" where
  "sanity_error = Inl (SafetyError ''INVALID_FRAME_SANITY'')"

text \<open>Stage 1; a frame being a \<open>CanFrame\<close> is its HOL type.\<close>

definition stage_sanity :: "can_frame \<Rightarrow> unit py" where
  "stage_sanity f =
     (let max_id = (if frame_is_extended f then 0x1FFFFFFF else 0x7FF); n = length (frame_data f) in
      if \<not> (0 \<le> frame_arbitration_id f \<and> frame_arbitration_id f \<le> max_id) then sanity_error
      else if \<not> frame_is_fd f \<and> n > 8 then sanity_error
      else if frame_is_fd f \<and> n > 64 then sanity_error
      else Inr ())"

text \<open>Stage 2\<close>

definition stage_safety_state :: "tx_view \<Rightarrow> unit py" where
  "stage_safety_state v =
     (if \<not> vw_permitted v then Inl (SafetyError ''SAFETY_STATE_BLOCKED'')
      else if \<not> vw_lease_valid v then Inl (SafetyError ''WATCHDOG_LEASE_EXPIRED'')
      else if vw_engaged v then Inl (SafetyError ''ESTOP_ACTIVE'')
      else Inr ())"

text \<open>Stage 2b\<close>

definition stage_read_only :: "gateway \<Rightarrow> can_frame \<Rightarrow> bool \<Rightarrow> int \<Rightarrow> unit py" where
  "stage_read_only g f critical now_ns =
     (case gw_read_only g of
        None \<Rightarrow> Inr ()
      | Some pol \<Rightarrow>
          if violation pol f now_ns \<noteq> None \<or> critical then Inl (SafetyError ''READ_ONLY_VIOLATION'')
          else Inr ())"

text \<open>Stage 3: a miss counts towards the streak, which only silence decays.\<close>

definition decay_whitelist_miss_streak :: "gateway \<Rightarrow> int \<Rightarrow> gateway" where
  "decay_whitelist_miss_streak g now_ns =
     (if gw_miss_streak g = 0 then g
      else if now_ns - gw_last_miss_ns g > WHITELIST_MISS_STREAK_WINDOW_NS then g\<lparr>gw_miss_streak := 0\<rparr>
      else g)"

definition count_miss :: "gateway \<Rightarrow> int \<Rightarrow> gateway" where
  "count_miss g now_ns =
     (let g = (if gw_last_miss_ns g = 0 then g\<lparr>gw_last_miss_ns := now_ns\<rparr> else g);
          g = decay_whitelist_miss_streak g now_ns
      in g\<lparr>gw_miss_streak := gw_miss_streak g + 1, gw_last_miss_ns := now_ns\<rparr>)"

definition stage_whitelist :: "gw_state \<Rightarrow> can_frame \<Rightarrow> int \<Rightarrow> gw_state \<times> unit py" where
  "stage_whitelist s f now_ns =
     (case s of (g, estops) \<Rightarrow>
      if gw_bypass g then (s, Inr ())
      else if gw_whitelist_ids g = [] \<and> gw_whitelist_masks g = []
        then (s, Inl (SafetyError ''WHITELIST_FAIL_CLOSED''))
      else if id_allowed (gw_whitelist_ids g) (gw_whitelist_masks g) (frame_arbitration_id f)
        then (s, Inr ())
      else
        let g = count_miss g now_ns;
            reason = utext (''TX to non-whitelisted ID: 0x'' @ hex_padded 8 (frame_arbitration_id f) @
              '' (streak '' @ py_str (int (gw_miss_streak g)) @ '')'')
        in ((g, if gw_miss_streak g \<ge> WHITELIST_ESTOP_AFTER
                then estops @ [(UNAUTHORIZED_PAYLOAD, reason, Some 0)] else estops),
            Inl (SafetyError ''WHITELIST_VIOLATION'')))"

text \<open>Stage 4. Python's \<open>>\<close> is false for a NaN.\<close>

definition stage_speed :: "(rat \<Rightarrow> string) \<Rightarrow> gw_state \<Rightarrow> bool \<Rightarrow> int \<Rightarrow> gw_state \<times> unit py" where
  "stage_speed fmt s critical now_ns =
     (case s of (g, estops) \<Rightarrow>
      if \<not> critical then (s, Inr ())
      else if gw_last_speed_ns g = 0 \<or> now_ns - gw_last_speed_ns g > SPEED_VALIDITY_TIMEOUT_NS then
        ((g, estops @ [(SPEED_INTERLOCK_BREACH,
            utext ''Critical command attempted with stale or missing vehicle speed telemetry'',
            gw_physical_speed g)]), Inl (SafetyError ''SPEED_DATA_STALE''))
      else case gw_physical_speed g of
        None \<Rightarrow> (s, Inr ())
      | Some v \<Rightarrow>
          if v > SPEED_NOISE_THRESHOLD_KMH then
            ((g, estops @ [(SPEED_INTERLOCK_BREACH,
                utext (''Critical command attempted while moving ('' @ fmt v @ '' km/h)''),
                gw_physical_speed g)]), Inl (SafetyError ''SPEED_INTERLOCK_ACTIVE''))
          else (s, Inr ()))"

text \<open>Stage 5: the validated token, to be burned at the no-return point.\<close>

definition stage_confirmation ::
  "(bytes \<Rightarrow> bytes \<Rightarrow> bytes) \<Rightarrow> (bytes \<Rightarrow> bytes) \<Rightarrow> gateway \<Rightarrow> tx_request \<Rightarrow> bool \<Rightarrow> int \<Rightarrow>
   (bytes \<times> int) option py" where
  "stage_confirmation mac sha g rq critical now_ns =
     (if \<not> critical then Inr None
      else
        py_bind
          (case rq_token rq of
             Some tok \<Rightarrow>
               if gw_secret g \<noteq> None
               then py_bind (verify_confirmation_token mac sha g tok (rq_frame rq) (rq_context rq) now_ns)
                      (\<lambda>pending. Inr (Some pending))
               else Inr None
           | None \<Rightarrow> Inr None)
          (\<lambda>pending.
             if \<not> rq_confirmed rq then confirmation_required
             else if gw_secret g \<noteq> None \<and> rq_token rq = None \<and> \<not> gw_allow_legacy g
               then confirmation_required
             else Inr pending))"

text \<open>Stage 6, the envelope over all lanes: expired stamps leave, a full window rejects and escalates,
  the simulation lane is checked, the stamp is appended.\<close>

definition rate_limited :: "'a py" where
  "rate_limited = Inl (SafetyError ''RATE_LIMIT_EXCEEDED'')"

definition drop_old :: "int \<Rightarrow> stamp list \<Rightarrow> stamp list" where
  "drop_old now_ns stamps = dropWhile (\<lambda>s. now_ns - fst s \<ge> RATE_LIMIT_WINDOW_NS) stamps"

definition stage_envelope :: "gw_state \<Rightarrow> tx_request \<Rightarrow> tx_clock \<Rightarrow> gw_state \<times> stamp py" where
  "stage_envelope s rq tc =
     (case s of (g, estops) \<Rightarrow>
      if dget (gw_budgets g) (rq_category rq) = None then (s, sanity_error)
      else
        let g = g\<lparr>gw_total_stamps := drop_old (tc_now tc) (gw_total_stamps g)\<rparr> in
        if length (gw_total_stamps g) \<ge> MAX_TOTAL_TX_PER_SEC then
          let g = g\<lparr>gw_total_streak := gw_total_streak g + 1\<rparr>;
              reason = utext (''Sustained global TX envelope overload ('' @
                py_str (int (gw_total_streak g)) @ '' consecutive rejections)'')
          in ((g, if gw_total_streak g \<ge> RATE_ESTOP_AFTER \<and> \<not> rq_inbound rq
                  then estops @ [(RATE_LIMIT_OVERFLOW, reason, Some 0)] else estops), rate_limited)
        else
          let g = g\<lparr>gw_total_streak := 0\<rparr> in
          if rq_category rq = ''simulation'' \<and>
             \<not> (bus_virtual (gw_bus g) \<and> frame_source (rq_frame rq) \<in> {''virtual'', ''synthetic''})
          then ((g, estops), sanity_error)
          else
            let g = g\<lparr>gw_stamp_seq := gw_stamp_seq g + 1\<rparr>;
                total_stamp = (tc_now tc, tc_thread tc, gw_stamp_seq g)
            in ((g\<lparr>gw_total_stamps := gw_total_stamps g @ [total_stamp]\<rparr>, estops), Inr total_stamp))"

text \<open>The backpressure log: one summary per interval.\<close>

definition log_rate_reject :: "gateway \<Rightarrow> int \<Rightarrow> gateway" where
  "log_rate_reject g now_ns =
     (if now_ns - gw_last_rate_log_ns g \<ge> RATE_LOG_INTERVAL_NS
      then g\<lparr>gw_last_rate_log_ns := now_ns, gw_rate_log_suppressed := 0\<rparr>
      else g\<lparr>gw_rate_log_suppressed := gw_rate_log_suppressed g + 1\<rparr>)"

text \<open>Stage 6, the caller's lane: the sliding window for \<open>default\<close>, else the category's bucket.\<close>

definition stage_window :: "gw_state \<Rightarrow> tx_request \<Rightarrow> tx_clock \<Rightarrow> gw_state \<times> stamp py" where
  "stage_window s rq tc =
     (case s of (g, estops) \<Rightarrow>
      let g = g\<lparr>gw_tx_stamps := drop_old (tc_now tc) (gw_tx_stamps g)\<rparr> in
      if length (gw_tx_stamps g) \<ge> MAX_TX_RATE_PER_SEC then
        let g = g\<lparr>gw_rate_streak := gw_rate_streak g + 1\<rparr>;
            reason = utext (''Sustained TX rate overload ('' @ py_str (int (gw_rate_streak g)) @
              '' consecutive rejections)'')
        in (if gw_rate_streak g \<ge> RATE_ESTOP_AFTER \<and> \<not> rq_inbound rq
            then ((g, estops @ [(RATE_LIMIT_OVERFLOW, reason, Some 0)]), rate_limited)
            else ((log_rate_reject g (tc_now tc), estops), rate_limited))
      else
        let g = g\<lparr>gw_rate_streak := 0, gw_stamp_seq := gw_stamp_seq g + 1\<rparr>;
            stamp = (tc_now tc, tc_thread tc, gw_stamp_seq g)
        in ((g\<lparr>gw_tx_stamps := gw_tx_stamps g @ [stamp]\<rparr>, estops), Inr stamp))"

definition stage_bucket :: "gw_state \<Rightarrow> tx_request \<Rightarrow> tx_clock \<Rightarrow> gw_state \<times> (string \<times> nat) py" where
  "stage_bucket s rq tc =
     (case s of (g, estops) \<Rightarrow>
      case dget (gw_budgets g) (rq_category rq) of
        None \<Rightarrow> (s, sanity_error)
      | Some b \<Rightarrow>
          (case try_consume b 1 (tc_bucket tc) of (b, ok) \<Rightarrow>
            ((g\<lparr>gw_budgets := dset (rq_category rq) b (gw_budgets g)\<rparr>, estops),
             if ok then Inr (rq_category rq, gw_budget_gen g) else rate_limited)))"

text \<open>What a lane reserved: a stamp of the window, or a token of a bucket object.\<close>

type_synonym lane = "stamp option \<times> (string \<times> nat) option"

definition stage_lane :: "gw_state \<Rightarrow> tx_request \<Rightarrow> tx_clock \<Rightarrow> gw_state \<times> lane py" where
  "stage_lane s rq tc =
     (if rq_category rq = ''default''
      then act_bind (stage_window s rq tc) (\<lambda>s stamp. (s, Inr (Some stamp, None)))
      else act_bind (stage_bucket s rq tc) (\<lambda>s bucket. (s, Inr (None, Some bucket))))"

section \<open>Reservation, rollback, dispatch\<close>

text \<open>A rollback removes exactly the caller's stamps, refunds its bucket object if it is still in use,
  and takes its token out of the replay store.\<close>

definition rollback_tx_reservation :: "gateway \<Rightarrow> lane \<Rightarrow> stamp option \<Rightarrow> bytes option \<Rightarrow> gateway" where
  "rollback_tx_reservation g reserved total_stamp burned =
     (let g = (case fst reserved of None \<Rightarrow> g | Some s \<Rightarrow> g\<lparr>gw_tx_stamps := remove1 s (gw_tx_stamps g)\<rparr>);
          g = (case total_stamp of None \<Rightarrow> g | Some s \<Rightarrow> g\<lparr>gw_total_stamps := remove1 s (gw_total_stamps g)\<rparr>);
          g = (case burned of None \<Rightarrow> g | Some p \<Rightarrow> g\<lparr>gw_consumed := dpop p (gw_consumed g)\<rparr>)
      in case snd reserved of
           None \<Rightarrow> g
         | Some (category, gen) \<Rightarrow>
             if gen \<noteq> gw_budget_gen g then g
             else (case dget (gw_budgets g) category of
                     None \<Rightarrow> g
                   | Some b \<Rightarrow> g\<lparr>gw_budgets := dset category (refund b 1) (gw_budgets g)\<rparr>))"

definition stage_e2e ::
  "gw_state \<Rightarrow> can_frame \<Rightarrow> lane \<Rightarrow> stamp \<Rightarrow> int \<Rightarrow> gw_state \<times> can_frame py" where
  "stage_e2e s f reserved total_stamp now_ns =
     (case s of (g, estops) \<Rightarrow>
      case (gw_packager g, dget (gw_profiles g) (frame_arbitration_id f)) of
        (Some pk, Some profile) \<Rightarrow>
          (case package pk f profile None None now_ns of
             (pk, Inr sealed_frame) \<Rightarrow> ((g\<lparr>gw_packager := Some pk\<rparr>, estops), Inr sealed_frame)
           | (pk, Inl _) \<Rightarrow>
               ((rollback_tx_reservation (g\<lparr>gw_packager := Some pk\<rparr>) reserved (Some total_stamp) None, estops),
                Inl (SafetyError ''E2E_STAMP_FAILED'')))
      | _ \<Rightarrow> (s, Inr f))"

definition burn :: "gateway \<Rightarrow> (bytes \<times> int) option \<Rightarrow> int \<Rightarrow> gateway" where
  "burn g pending now_ns =
     (case pending of None \<Rightarrow> g | Some (payload, expiry) \<Rightarrow> consume_confirmation g payload expiry now_ns)"

text \<open>Phase 1: all stages in their order. \<open>es\<close> is the emergency stop as read when the lock is about to
  be released.\<close>

definition derived_critical :: "gateway \<Rightarrow> tx_request \<Rightarrow> bool" where
  "derived_critical g rq \<longleftrightarrow>
     rq_critical rq \<or> frame_is_critical (gw_whitelist_ids g) (gw_whitelist_masks g) (rq_frame rq)"

definition admit ::
  "(bytes \<Rightarrow> bytes \<Rightarrow> bytes) \<Rightarrow> (bytes \<Rightarrow> bytes) \<Rightarrow> (rat \<Rightarrow> string) \<Rightarrow> gateway \<Rightarrow> tx_view \<Rightarrow> estop \<Rightarrow>
   tx_request \<Rightarrow> tx_clock \<Rightarrow> gw_state \<times> ticket py" where
  "admit mac sha fmt g v es rq tc =
     (let f = rq_frame rq; critical = derived_critical g rq in
      act_bind ((g, []), stage_sanity f) (\<lambda>s _.
      act_bind (s, stage_safety_state v) (\<lambda>s _.
      act_bind (s, stage_read_only (fst s) f critical (tc_now tc)) (\<lambda>s _.
      act_bind (stage_whitelist s f (tc_now tc)) (\<lambda>s _.
      act_bind (stage_speed fmt s critical (tc_now tc)) (\<lambda>s _.
      act_bind (s, stage_confirmation mac sha (fst s) rq critical (tc_verify tc)) (\<lambda>s pending.
      act_bind (stage_envelope s rq tc) (\<lambda>s total_stamp.
      act_bind (stage_lane s rq tc) (\<lambda>s reserved.
      act_bind (stage_e2e s f reserved total_stamp (tc_now tc)) (\<lambda>s sealed_frame.
        ((burn (fst s) pending (tc_burn tc), snd s),
         Inr \<lparr>tk_frame = sealed_frame, tk_stamp = fst reserved, tk_bucket = snd reserved,
              tk_total = Some total_stamp, tk_burned = map_option fst pending,
              tk_engaged = es_engaged es, tk_fence = es_tx_fence es\<rparr>)))))))))))"

definition rollback_ticket :: "gateway \<Rightarrow> ticket \<Rightarrow> gateway" where
  "rollback_ticket g tk =
     rollback_tx_reservation g (tk_stamp tk, tk_bucket tk) (tk_total tk) (tk_burned tk)"

text \<open>Phase 2, the guard after the release of the lock.\<close>

definition final_guard :: "gateway \<Rightarrow> estop \<Rightarrow> ticket \<Rightarrow> gateway \<times> unit py" where
  "final_guard g es tk =
     (if tk_engaged tk \<or> es_engaged es then (rollback_ticket g tk, Inl (SafetyError ''ESTOP_ACTIVE''))
      else (g, Inr ()))"

text \<open>Phase 3, under the send lock: the frames handed to the driver are returned.\<close>

definition fenced_dispatch :: "gateway \<Rightarrow> estop \<Rightarrow> ticket \<Rightarrow> unit py \<Rightarrow> gateway \<times> can_frame list \<times> unit py" where
  "fenced_dispatch g es tk driver =
     (if tk_fence tk \<noteq> es_tx_fence es \<or> es_engaged es
      then (rollback_ticket g tk, [], Inl (SafetyError ''ESTOP_TX_FENCE_INVALIDATED''))
      else (g, [tk_frame tk], driver))"

section \<open>The gateway among the safety components\<close>

text \<open>A gateway may be built without supervisor or watchdog. Its listener number, at the supervisor and
  at the emergency stop, is 1; the watchdog is listener 0.\<close>

definition GATEWAY :: nat where
  "GATEWAY = 1"

record plant =
  pl_gw :: gateway
  pl_es :: estop
  pl_sv :: "supervisor option"
  pl_wd :: "watchdog option"

definition gw_on_state :: "gateway \<Rightarrow> safety_state \<Rightarrow> gateway" where
  "gw_on_state g new_state =
     (let g = (if new_state = FAULT then g\<lparr>gw_tx_stamps := []\<rparr> else g) in
      if new_state \<in> {PASSIVE, SAFE, FAULT, STARTUP} then g\<lparr>gw_read_only := None\<rparr> else g)"

fun gw_deliver_calls ::
  "(nat \<times> safety_state \<times> safety_state \<times> utext) list \<Rightarrow> gateway \<Rightarrow> gateway" where
  "gw_deliver_calls [] g = g"
| "gw_deliver_calls ((cb, old_state, new_state, reason) # calls) g =
     gw_deliver_calls calls (if cb = GATEWAY then gw_on_state g new_state else g)"

text \<open>The supervisor moved to \<open>sv\<close>: its listeners hear the calls it logged.\<close>

definition put_sup :: "plant \<Rightarrow> supervisor \<Rightarrow> plant" where
  "put_sup p sv =
     (case pl_sv p of
        None \<Rightarrow> p
      | Some old \<Rightarrow>
          p\<lparr>pl_sv := Some sv, pl_wd := map_option (deliver old sv) (pl_wd p),
            pl_gw := gw_deliver_calls (drop (length (sv_calls old)) (sv_calls sv)) (pl_gw p)\<rparr>)"

definition plant_fault :: "plant \<Rightarrow> utext \<Rightarrow> sys_time \<Rightarrow> plant" where
  "plant_fault p reason t =
     (case pl_sv p of
        None \<Rightarrow> p
      | Some sv \<Rightarrow> put_sup p (fst (trigger_fault sv (es_engaged (pl_es p)) reason (now_sup t))))"

definition gw_on_estop_triggered :: "plant \<Rightarrow> sys_time \<Rightarrow> plant" where
  "gw_on_estop_triggered p t =
     (let p = (case pl_sv p of
                 None \<Rightarrow> p
               | Some sv \<Rightarrow>
                   if is_fault sv then p
                   else plant_fault p (utext ''E-Stop engagement triggered from hardware/software event'') t)
      in p\<lparr>pl_gw := (pl_gw p)\<lparr>gw_tx_stamps := [], gw_rate_streak := 0, gw_miss_streak := 0,
                               gw_last_miss_ns := 0\<rparr>\<rparr>)"

text \<open>An engagement: the trigger, then the gateway's callback if it is registered.\<close>

definition request_estop ::
  "plant \<Rightarrow> estop_trigger_source \<Rightarrow> utext \<Rightarrow> rat option \<Rightarrow> sys_time \<Rightarrow> plant" where
  "request_estop p source reason speed t =
     (let p = p\<lparr>pl_es := trigger (pl_es p) source reason speed (fresh_nonce t) (now_es t)\<rparr> in
      if GATEWAY \<in> set (es_callbacks (pl_es p)) then gw_on_estop_triggered p t else p)"

fun fire_estops :: "parked \<Rightarrow> plant \<Rightarrow> sys_time \<Rightarrow> plant" where
  "fire_estops [] p t = p"
| "fire_estops ((source, reason, speed) # estops) p t =
     fire_estops estops (request_estop p source reason speed t) t"

definition view_of :: "plant \<Rightarrow> sys_time \<Rightarrow> tx_view" where
  "view_of p t =
     \<lparr>vw_permitted = (case pl_sv p of None \<Rightarrow> True | Some sv \<Rightarrow> is_tx_permitted sv),
      vw_lease_valid = (case pl_wd p of None \<Rightarrow> True | Some wd \<Rightarrow> is_lease_valid wd t),
      vw_engaged = es_engaged (pl_es p)\<rparr>"

text \<open>What other threads do during one call: to the emergency stop while the stages run, to everything
  between the phases; and what the driver answers.\<close>

record interleaving =
  il_stages :: "estop \<Rightarrow> estop"
  il_guard :: "plant \<Rightarrow> plant"
  il_dispatch :: "plant \<Rightarrow> plant"
  il_driver :: "unit py"

text \<open>Phases 2 and 3 of a validated call; the frames handed to the driver are returned.\<close>

definition guarded_dispatch ::
  "plant \<Rightarrow> ticket \<Rightarrow> interleaving \<Rightarrow> (plant \<times> can_frame list) \<times> unit py" where
  "guarded_dispatch p tk il =
     (let p = il_guard il p in
      case final_guard (pl_gw p) (pl_es p) tk of
        (g, Inl e) \<Rightarrow> ((p\<lparr>pl_gw := g\<rparr>, []), Inl e)
      | (g, Inr _) \<Rightarrow>
          let p = il_dispatch il (p\<lparr>pl_gw := g\<rparr>) in
          (case fenced_dispatch (pl_gw p) (pl_es p) tk (il_driver il) of
             (g, sent, res) \<Rightarrow> ((p\<lparr>pl_gw := g\<rparr>, sent), res)))"

text \<open>\<open>_validate_and_transmit_locked\<close>: \<open>own\<close> says that it was called without a sink for parked
  stops, which it then fires itself, but only on the way to Phase 2.\<close>

definition transmit_locked ::
  "(bytes \<Rightarrow> bytes \<Rightarrow> bytes) \<Rightarrow> (bytes \<Rightarrow> bytes) \<Rightarrow> (rat \<Rightarrow> string) \<Rightarrow> bool \<Rightarrow> plant \<Rightarrow> tx_request \<Rightarrow>
   tx_clock \<Rightarrow> sys_time \<Rightarrow> interleaving \<Rightarrow> (plant \<times> can_frame list \<times> parked) \<times> unit py" where
  "transmit_locked mac sha fmt own p rq tc t il =
     (let es = il_stages il (pl_es p) in
      case admit mac sha fmt (pl_gw p) (view_of p t) es rq tc of
        ((g, estops), Inl e) \<Rightarrow> ((p\<lparr>pl_gw := g, pl_es := es\<rparr>, [], estops), Inl e)
      | ((g, estops), Inr tk) \<Rightarrow>
          let p = p\<lparr>pl_gw := g, pl_es := es\<rparr>;
              (p, estops) = (if own then (fire_estops estops p t, []) else (p, estops)) in
          (case guarded_dispatch p tk il of ((p, sent), res) \<Rightarrow> ((p, sent, estops), res)))"

definition validate_and_transmit ::
  "(bytes \<Rightarrow> bytes \<Rightarrow> bytes) \<Rightarrow> (bytes \<Rightarrow> bytes) \<Rightarrow> (rat \<Rightarrow> string) \<Rightarrow> plant \<Rightarrow> tx_request \<Rightarrow>
   tx_clock \<Rightarrow> sys_time \<Rightarrow> interleaving \<Rightarrow> (plant \<times> can_frame list) \<times> unit py" where
  "validate_and_transmit mac sha fmt p rq tc t il =
     (case transmit_locked mac sha fmt False p rq tc t il of
        ((p, sent, estops), res) \<Rightarrow> ((fire_estops estops p t, sent), res))"

text \<open>The asynchronous port: the executor is the gateway's own, and a retired one refuses.\<close>

definition gateway_send ::
  "(bytes \<Rightarrow> bytes \<Rightarrow> bytes) \<Rightarrow> (bytes \<Rightarrow> bytes) \<Rightarrow> (rat \<Rightarrow> string) \<Rightarrow> plant \<Rightarrow> tx_request \<Rightarrow>
   tx_clock \<Rightarrow> sys_time \<Rightarrow> interleaving \<Rightarrow> (plant \<times> can_frame list) \<times> unit py" where
  "gateway_send mac sha fmt p rq tc t il =
     (if gw_executor_shutdown (pl_gw p) then ((p, []), Inl (SafetyError ''TX_EXECUTOR_SHUT_DOWN''))
      else validate_and_transmit mac sha fmt p rq tc t il)"

definition gateway_shutdown :: "gateway \<Rightarrow> gateway" where
  "gateway_shutdown g = g\<lparr>gw_executor_shutdown := True\<rparr>"

section \<open>Link faults\<close>

definition notify_link_fault ::
  "plant \<Rightarrow> string \<Rightarrow> estop_trigger_source \<Rightarrow> utext \<Rightarrow> sys_time \<Rightarrow> plant \<times> bool" where
  "notify_link_fault p kind source reason t =
     (let g = pl_gw p;
          g = (if es_epoch (pl_es p) \<noteq> gw_link_epoch g
               then g\<lparr>gw_link_latched := {}, gw_link_epoch := es_epoch (pl_es p)\<rparr> else g) in
      if kind \<in> gw_link_latched g then (p\<lparr>pl_gw := g\<rparr>, False)
      else
        let p = p\<lparr>pl_gw := g\<lparr>gw_link_latched := insert kind (gw_link_latched g)\<rparr>\<rparr> in
        if es_engaged (pl_es p) then (p, False)
        else if \<not> vw_permitted (view_of p t) then (p, False)
        else (request_estop p source reason (Some 0) t, True))"

definition notify_bus_off :: "plant \<Rightarrow> utext \<Rightarrow> sys_time \<Rightarrow> plant \<times> bool" where
  "notify_bus_off p reason t = notify_link_fault p LINK_FAULT_BUS_OFF BUS_OFF_DETECTED reason t"

definition notify_hardware_disconnect :: "plant \<Rightarrow> utext \<Rightarrow> sys_time \<Rightarrow> plant \<times> bool" where
  "notify_hardware_disconnect p reason t =
     notify_link_fault p LINK_FAULT_DISCONNECT HARDWARE_DISCONNECT reason t"

definition notify_communication_timeout :: "plant \<Rightarrow> utext \<Rightarrow> sys_time \<Rightarrow> plant \<times> bool" where
  "notify_communication_timeout p reason t =
     notify_link_fault p LINK_FAULT_COMM_TIMEOUT COMMUNICATION_TIMEOUT reason t"

definition clear_link_fault :: "gateway \<Rightarrow> string \<Rightarrow> gateway" where
  "clear_link_fault g kind = g\<lparr>gw_link_latched := gw_link_latched g - {kind}\<rparr>"

section \<open>Reconfiguration\<close>

definition install_read_only_policy :: "gateway \<Rightarrow> read_only_policy \<Rightarrow> gateway" where
  "install_read_only_policy g pol = g\<lparr>gw_read_only := Some pol\<rparr>"

definition clear_read_only_policy :: "gateway \<Rightarrow> gateway" where
  "clear_read_only_policy g = g\<lparr>gw_read_only := None\<rparr>"

fun first_hook :: "string list \<Rightarrow> (string, nat) dict \<Rightarrow> nat option" where
  "first_hook [] hooks = None"
| "first_hook (name # names) hooks =
     (case dget hooks name of Some h \<Rightarrow> Some h | None \<Rightarrow> first_hook names hooks)"

definition resolve_driver_flush :: "tx_bus \<Rightarrow> nat option" where
  "resolve_driver_flush bus =
     (case first_hook [''flush_tx_buffer'', ''abort_tx'', ''flush'', ''abort''] (bus_hooks bus) of
        Some h \<Rightarrow> Some h
      | None \<Rightarrow>
          (case bus_raw_hooks bus of
             None \<Rightarrow> None
           | Some raw \<Rightarrow> first_hook [''flush_tx_buffer'', ''abort_tx''] raw))"

definition register_driver_abort_hook :: "plant \<Rightarrow> plant" where
  "register_driver_abort_hook p =
     (let p = (case gw_abort_hook (pl_gw p) of
                 None \<Rightarrow> p
               | Some h \<Rightarrow> p\<lparr>pl_es := fst (unregister_abort_hook (pl_es p) h),
                             pl_gw := (pl_gw p)\<lparr>gw_abort_hook := None\<rparr>\<rparr>)
      in case resolve_driver_flush (gw_bus (pl_gw p)) of
           None \<Rightarrow> p
         | Some h \<Rightarrow> p\<lparr>pl_es := register_abort_hook (pl_es p) h,
                       pl_gw := (pl_gw p)\<lparr>gw_abort_hook := Some h\<rparr>\<rparr>)"

text \<open>The end of the constructor: the wiring of a fresh gateway.\<close>

definition wire_gateway :: "gateway \<Rightarrow> estop \<Rightarrow> supervisor option \<Rightarrow> watchdog option \<Rightarrow> plant" where
  "wire_gateway g es sv wd =
     (let p = \<lparr>pl_gw = g, pl_es = register_estop_callback es GATEWAY, pl_sv = sv, pl_wd = wd\<rparr>;
          p = register_driver_abort_hook p
      in p\<lparr>pl_sv := map_option (\<lambda>sv. register_callback sv GATEWAY) (pl_sv p)\<rparr>)"

definition rebind_bus :: "plant \<Rightarrow> tx_bus \<Rightarrow> int \<Rightarrow> plant" where
  "rebind_bus p new_bus now_ns =
     register_driver_abort_hook
       (p\<lparr>pl_gw := (pl_gw p)\<lparr>gw_bus := new_bus, gw_tx_stamps := [], gw_rate_streak := 0,
            gw_miss_streak := 0, gw_last_miss_ns := 0, gw_total_stamps := [], gw_total_streak := 0,
            gw_budgets := fresh_budgets now_ns, gw_budget_gen := gw_budget_gen (pl_gw p) + 1\<rparr>,
          pl_es := advance_tx_fence (pl_es p)\<rparr>)"

text \<open>The identifiers are replaced before the masks are checked.\<close>

definition rebind_whitelist ::
  "plant \<Rightarrow> int list option \<Rightarrow> (int \<times> int) list option \<Rightarrow> plant \<times> unit py" where
  "rebind_whitelist p ids masks =
     (let g = pl_gw p;
          g = (case ids of None \<Rightarrow> g | Some xs \<Rightarrow> g\<lparr>gw_whitelist_ids := xs\<rparr>) in
      case (case masks of None \<Rightarrow> Inr g
            | Some ms \<Rightarrow> py_bind (validate_mask_breadth ms (gw_superset_allowed g))
                           (\<lambda>_. Inr (g\<lparr>gw_whitelist_masks := ms\<rparr>))) of
        Inl e \<Rightarrow> (p\<lparr>pl_gw := g\<rparr>, Inl e)
      | Inr g \<Rightarrow>
          (p\<lparr>pl_gw := g\<lparr>gw_miss_streak := 0, gw_last_miss_ns := 0\<rparr>,
             pl_es := advance_tx_fence (pl_es p)\<rparr>, Inr ()))"

end
