(* ===== verification/GatewaySpec.thy ===== *)
theory GatewaySpec
  imports Gateway EStopSpec
begin

text \<open>
  Properties of the transmit gateway: what a dispatched frame has passed (an abstract policy that
  \<open>validate_and_transmit\<close> implements, whatever other threads do between its phases), what a refusal
  costs, single use of confirmation tokens, the rate envelope, escalation, and where the
  classification of critical frames ends.
\<close>

section \<open>The stages that only decide\<close>

lemma sanity_ok: "stage_sanity f = Inr () \<longleftrightarrow>
    0 \<le> frame_arbitration_id f \<and>
    frame_arbitration_id f \<le> (if frame_is_extended f then 0x1FFFFFFF else 0x7FF) \<and>
    length (frame_data f) \<le> (if frame_is_fd f then 64 else 8)"
  by (auto simp: stage_sanity_def sanity_error_def Let_def)

lemma safety_state_ok: "stage_safety_state v = Inr () \<longleftrightarrow>
    vw_permitted v \<and> vw_lease_valid v \<and> \<not> vw_engaged v"
  by (simp add: stage_safety_state_def)

lemma read_only_ok: "stage_read_only g f critical now = Inr () \<longleftrightarrow>
    (\<forall>pol. gw_read_only g = Some pol \<longrightarrow> violation pol f now = None \<and> \<not> critical)"
  by (auto simp: stage_read_only_def split: option.splits)

definition listed :: "gateway \<Rightarrow> int \<Rightarrow> bool" where
  "listed g arb \<longleftrightarrow> gw_bypass g \<or> id_allowed (gw_whitelist_ids g) (gw_whitelist_masks g) arb"

lemma id_allowed_empty [simp]: "\<not> id_allowed [] [] arb"
  by (simp add: id_allowed_def)

lemma whitelist_ok:
  "stage_whitelist (g, estops) f now = (s, Inr ()) \<longleftrightarrow> s = (g, estops) \<and> listed g (frame_arbitration_id f)"
  by (auto simp: stage_whitelist_def listed_def Let_def)

text \<open>A speed that is not a number is never fresh.\<close>

definition speed_ok :: "gateway \<Rightarrow> bool" where
  "speed_ok g \<longleftrightarrow> (gw_physical_speed g = None \<longrightarrow> gw_last_speed_ns g = 0) \<and>
     (\<forall>v. gw_physical_speed g = Some v \<longrightarrow> 0 \<le> v \<and> v \<le> SPEED_MAX_PLAUSIBLE_KMH)"

lemma speed_ok_update: "speed_ok g \<Longrightarrow> speed_ok (update_vehicle_speed g speed physical now)"
  by (auto simp: speed_ok_def update_vehicle_speed_def split: option.splits)

lemma synthetic_keeps_interlock:
  "stage_speed fmt (record_synthetic_speed g speed now', estops) critical now =
   (case stage_speed fmt (g, estops) critical now of
      ((g1, es1), res) \<Rightarrow> ((record_synthetic_speed g1 speed now', es1), res))"
  by (simp add: stage_speed_def record_synthetic_speed_def update_vehicle_speed_def split: option.split)

lemma speed_stage_ok:
  assumes "speed_ok g"
  shows "stage_speed fmt (g, estops) critical now = (s, Inr ()) \<longleftrightarrow>
    s = (g, estops) \<and> (critical \<longrightarrow> is_speed_fresh_and_safe g None now)"
  using assms
  by (auto simp: stage_speed_def speed_ok_def is_speed_fresh_and_safe_def split: option.splits)

section \<open>Confirmation\<close>

text \<open>What a token must be to grant a frame: issued under the secret, for this identifier, not expired,
  not spent, and bound to payload and context if it is of the bound form.\<close>

definition grants ::
  "(bytes \<Rightarrow> bytes \<Rightarrow> bytes) \<Rightarrow> (bytes \<Rightarrow> bytes) \<Rightarrow> gateway \<Rightarrow> bytes \<Rightarrow> bytes + string \<Rightarrow> can_frame \<Rightarrow>
   bytes option \<Rightarrow> int \<Rightarrow> bytes \<Rightarrow> bool" where
  "grants mac sha g secret tok f context now payload \<longleftrightarrow>
     (\<exists>raw. raw_token tok = Inr raw \<and> payload = take (length raw - 32) raw \<and>
        drop (length raw - 32) raw = mac secret payload \<and>
        length raw \<in> {CONFIRM_BASE_LEN + 32, CONFIRM_BIND_LEN + 32}) \<and>
     from_be (take 4 payload) = frame_arbitration_id f \<and>
     now \<le> from_be (py_slice payload 4 12) \<and>
     dget (gw_consumed g) payload = None \<and>
     (case context of
        None \<Rightarrow> length payload = CONFIRM_BASE_LEN
      | Some c \<Rightarrow> length payload = CONFIRM_BIND_LEN \<and>
          py_slice payload 28 36 = confirmation_payload_hash sha (frame_data f) \<and>
          py_slice payload 36 44 = confirmation_context_hash sha (Some c))"

lemma parse_ok:
  assumes "gw_secret g = Some secret"
  shows "parse_confirmation_token mac g tok = Inr payload \<longleftrightarrow>
    (\<exists>raw. raw_token tok = Inr raw \<and> payload = take (length raw - 32) raw \<and>
        drop (length raw - 32) raw = mac secret payload \<and>
        length raw \<in> {CONFIRM_BASE_LEN + 32, CONFIRM_BIND_LEN + 32})"
  using assms
  by (cases "raw_token tok")
     (auto simp: parse_confirmation_token_def confirmation_required_def Let_def)

lemma verify_ok:
  assumes "gw_secret g = Some secret"
  shows "verify_confirmation_token mac sha g tok f context now = Inr (payload, expiry) \<longleftrightarrow>
    grants mac sha g secret tok f context now payload \<and> expiry = from_be (py_slice payload 4 12)"
proof -
  have len: "length payload \<in> {CONFIRM_BASE_LEN, CONFIRM_BIND_LEN}"
    if "parse_confirmation_token mac g tok = Inr payload" for payload
    using that by (auto simp: parse_ok [OF assms] CONFIRM_BASE_LEN_def CONFIRM_BIND_LEN_def)
  show ?thesis
  proof (cases "parse_confirmation_token mac g tok")
    case (Inl e)
    then have "\<not> grants mac sha g secret tok f context now payload"
      using parse_ok [OF assms, of mac tok payload] by (auto simp: grants_def)
    then show ?thesis by (simp add: verify_confirmation_token_def Inl)
  next
    case (Inr pl)
    note p = Inr [unfolded parse_ok [OF assms]]
    have grants: "grants mac sha g secret tok f context now payload \<longleftrightarrow> payload = pl \<and>
       from_be (take 4 pl) = frame_arbitration_id f \<and> now \<le> from_be (py_slice pl 4 12) \<and>
       dget (gw_consumed g) pl = None \<and>
       (case context of None \<Rightarrow> length pl = CONFIRM_BASE_LEN
        | Some c \<Rightarrow> length pl = CONFIRM_BIND_LEN \<and>
          py_slice pl 28 36 = confirmation_payload_hash sha (frame_data f) \<and>
          py_slice pl 36 44 = confirmation_context_hash sha (Some c))"
      using p unfolding grants_def by auto
    show ?thesis unfolding grants
      using len [OF Inr]
      by (cases "context") (auto simp: verify_confirmation_token_def Inr confirmation_required_def Let_def
          CONFIRM_BASE_LEN_def CONFIRM_BIND_LEN_def)
  qed
qed

lemma confirmation_ok:
  "stage_confirmation mac sha g rq critical now = Inr pending \<longleftrightarrow>
    (if \<not> critical then pending = None
     else rq_confirmed rq \<and>
       (case (gw_secret g, rq_token rq) of
          (Some secret, Some tok) \<Rightarrow>
            (\<exists>payload. grants mac sha g secret tok (rq_frame rq) (rq_context rq) now payload \<and>
               pending = Some (payload, from_be (py_slice payload 4 12)))
        | (Some secret, None) \<Rightarrow> gw_allow_legacy g \<and> pending = None
        | (None, _) \<Rightarrow> pending = None))"
proof (cases "\<exists>secret tok. gw_secret g = Some secret \<and> rq_token rq = Some tok")
  case True
  then obtain secret tok where s: "gw_secret g = Some secret" "rq_token rq = Some tok" by blast
  let ?v = "verify_confirmation_token mac sha g tok (rq_frame rq) (rq_context rq) now"
  have v: "grants mac sha g secret tok (rq_frame rq) (rq_context rq) now payload \<longleftrightarrow>
      ?v = Inr (payload, from_be (py_slice payload 4 12))" for payload
    by (simp add: verify_ok [OF s(1)])
  have e: "expiry = from_be (py_slice payload 4 12)" if "?v = Inr (payload, expiry)" for payload expiry
    using that by (simp add: verify_ok [OF s(1)])
  show ?thesis
    using e by (cases ?v) (auto simp: stage_confirmation_def s confirmation_required_def v)
next
  case False
  then show ?thesis
    by (cases "gw_secret g"; cases "rq_token rq")
       (auto simp: stage_confirmation_def confirmation_required_def)
qed

section \<open>Rate stages\<close>

definition envelope_room :: "gateway \<Rightarrow> tx_request \<Rightarrow> int \<Rightarrow> bool" where
  "envelope_room g rq now \<longleftrightarrow> dget (gw_budgets g) (rq_category rq) \<noteq> None \<and>
     length (drop_old now (gw_total_stamps g)) < MAX_TOTAL_TX_PER_SEC \<and>
     (rq_category rq = ''simulation'' \<longrightarrow>
        bus_virtual (gw_bus g) \<and> frame_source (rq_frame rq) \<in> {''virtual'', ''synthetic''})"

definition reserve_total :: "gateway \<Rightarrow> tx_clock \<Rightarrow> gateway" where
  "reserve_total g tc = g\<lparr>gw_total_streak := 0, gw_stamp_seq := gw_stamp_seq g + 1,
     gw_total_stamps := drop_old (tc_now tc) (gw_total_stamps g) @
       [(tc_now tc, tc_thread tc, gw_stamp_seq g + 1)]\<rparr>"

lemma envelope_ok: "stage_envelope (g, estops) rq tc = (s, Inr st) \<longleftrightarrow>
    envelope_room g rq (tc_now tc) \<and> s = (reserve_total g tc, estops) \<and>
    st = (tc_now tc, tc_thread tc, gw_stamp_seq g + 1)"
  unfolding stage_envelope_def envelope_room_def reserve_total_def sanity_error_def rate_limited_def
    Let_def prod.case
  by (auto simp: not_le)

definition lane_room :: "gateway \<Rightarrow> tx_request \<Rightarrow> tx_clock \<Rightarrow> bool" where
  "lane_room g rq tc \<longleftrightarrow>
     (if rq_category rq = ''default''
      then length (drop_old (tc_now tc) (gw_tx_stamps g)) < MAX_TX_RATE_PER_SEC
      else \<exists>b. dget (gw_budgets g) (rq_category rq) = Some b \<and> snd (try_consume b 1 (tc_bucket tc)))"

definition reserve_lane :: "gateway \<Rightarrow> tx_request \<Rightarrow> tx_clock \<Rightarrow> gateway \<times> lane" where
  "reserve_lane g rq tc =
     (if rq_category rq = ''default''
      then (g\<lparr>gw_rate_streak := 0, gw_stamp_seq := gw_stamp_seq g + 1,
              gw_tx_stamps := drop_old (tc_now tc) (gw_tx_stamps g) @
                [(tc_now tc, tc_thread tc, gw_stamp_seq g + 1)]\<rparr>,
            Some (tc_now tc, tc_thread tc, gw_stamp_seq g + 1), None)
      else (case dget (gw_budgets g) (rq_category rq) of
              None \<Rightarrow> (g, None, None)
            | Some b \<Rightarrow>
                (g\<lparr>gw_budgets := dset (rq_category rq) (fst (try_consume b 1 (tc_bucket tc))) (gw_budgets g)\<rparr>,
                 None, Some (rq_category rq, gw_budget_gen g))))"

lemma lane_ok: "stage_lane (g, estops) rq tc = (s, Inr reserved) \<longleftrightarrow>
    lane_room g rq tc \<and> s = (fst (reserve_lane g rq tc), estops) \<and> reserved = snd (reserve_lane g rq tc)"
proof (cases "rq_category rq = ''default''")
  case True
  then show ?thesis
    by (auto simp: stage_lane_def stage_window_def lane_room_def reserve_lane_def rate_limited_def Let_def)
next
  case False
  then show ?thesis
    by (cases "dget (gw_budgets g) (rq_category rq)")
       (auto simp: stage_lane_def stage_bucket_def lane_room_def reserve_lane_def rate_limited_def
          sanity_error_def split: prod.split)
qed

section \<open>Sealing\<close>

definition seal :: "gateway \<Rightarrow> can_frame \<Rightarrow> int \<Rightarrow> (gateway \<times> can_frame) option" where
  "seal g f now =
     (case (gw_packager g, dget (gw_profiles g) (frame_arbitration_id f)) of
        (Some pk, Some profile) \<Rightarrow>
          (case package pk f profile None None now of
             (pk, Inr f') \<Rightarrow> Some (g\<lparr>gw_packager := Some pk\<rparr>, f') | (pk, Inl _) \<Rightarrow> None)
      | _ \<Rightarrow> Some (g, f))"

lemma e2e_ok: "stage_e2e (g, estops) f reserved total_stamp now = (s, Inr f') \<longleftrightarrow>
    (\<exists>g'. seal g f now = Some (g', f') \<and> s = (g', estops))"
  unfolding stage_e2e_def seal_def prod.case
  by (auto split: option.split prod.split sum.split)

section \<open>Admission\<close>

text \<open>The policy a frame must satisfy, apart from the room left in its lane.\<close>

definition authorised ::
  "(bytes \<Rightarrow> bytes \<Rightarrow> bytes) \<Rightarrow> (bytes \<Rightarrow> bytes) \<Rightarrow> gateway \<Rightarrow> tx_view \<Rightarrow> tx_request \<Rightarrow> tx_clock \<Rightarrow> bool" where
  "authorised mac sha g v rq tc \<longleftrightarrow>
     (let f = rq_frame rq; critical = derived_critical g rq in
      stage_sanity f = Inr () \<and>
      vw_permitted v \<and> vw_lease_valid v \<and> \<not> vw_engaged v \<and>
      (\<forall>pol. gw_read_only g = Some pol \<longrightarrow> violation pol f (tc_now tc) = None \<and> \<not> critical) \<and>
      listed g (frame_arbitration_id f) \<and>
      (critical \<longrightarrow>
         is_speed_fresh_and_safe g None (tc_now tc) \<and> rq_confirmed rq \<and>
         (case (gw_secret g, rq_token rq) of
            (Some secret, Some tok) \<Rightarrow>
              \<exists>payload. grants mac sha g secret tok f (rq_context rq) (tc_verify tc) payload
          | (Some secret, None) \<Rightarrow> gw_allow_legacy g
          | (None, _) \<Rightarrow> True)))"

lemma admit_success:
  assumes "speed_ok g"
  shows "admit mac sha fmt g v es rq tc = (s, Inr tk) \<longleftrightarrow>
    stage_sanity (rq_frame rq) = Inr () \<and> stage_safety_state v = Inr () \<and>
    stage_read_only g (rq_frame rq) (derived_critical g rq) (tc_now tc) = Inr () \<and>
    listed g (frame_arbitration_id (rq_frame rq)) \<and>
    (derived_critical g rq \<longrightarrow> is_speed_fresh_and_safe g None (tc_now tc)) \<and>
    (\<exists>pending g3 f'.
       stage_confirmation mac sha g rq (derived_critical g rq) (tc_verify tc) = Inr pending \<and>
       envelope_room g rq (tc_now tc) \<and> lane_room (reserve_total g tc) rq tc \<and>
       seal (fst (reserve_lane (reserve_total g tc) rq tc)) (rq_frame rq) (tc_now tc) = Some (g3, f') \<and>
       s = (burn g3 pending (tc_burn tc), []) \<and>
       tk = \<lparr>tk_frame = f', tk_stamp = fst (snd (reserve_lane (reserve_total g tc) rq tc)),
             tk_bucket = snd (snd (reserve_lane (reserve_total g tc) rq tc)),
             tk_total = Some (tc_now tc, tc_thread tc, gw_stamp_seq g + 1),
             tk_burned = map_option fst pending, tk_engaged = es_engaged es, tk_fence = es_tx_fence es\<rparr>)"
proof -
  obtain r1 r2 where r: "snd (reserve_lane (reserve_total g tc) rq tc) = (r1, r2)" by fastforce
  show ?thesis
    unfolding admit_def Let_def
    by (simp add: act_bind_Inr whitelist_ok speed_stage_ok [OF assms] envelope_ok lane_ok e2e_ok r)
       blast
qed

section \<open>Dispatch\<close>

definition room :: "gateway \<Rightarrow> tx_request \<Rightarrow> tx_clock \<Rightarrow> bool" where
  "room g rq tc \<longleftrightarrow> envelope_room g rq (tc_now tc) \<and> lane_room g rq tc"

lemma lane_room_total [simp]: "lane_room (reserve_total g tc) rq tc = lane_room g rq tc"
  by (simp add: lane_room_def reserve_total_def)

lemma seal_frame:
  assumes "gw_packager g' = gw_packager g" "gw_profiles g' = gw_profiles g"
  shows "map_option snd (seal g' f now) = map_option snd (seal g f now)"
  using assms by (simp add: seal_def split: option.split prod.split sum.split)

lemma reserve_lane_seal [simp]:
  "gw_packager (fst (reserve_lane g rq tc)) = gw_packager g"
  "gw_profiles (fst (reserve_lane g rq tc)) = gw_profiles g"
  by (simp_all add: reserve_lane_def split: option.split)

lemma seal_reserved:
  "map_option snd (seal (fst (reserve_lane (reserve_total g tc) rq tc)) f now) = map_option snd (seal g f now)"
  by (rule seal_frame) (simp_all add: reserve_total_def)

text \<open>The frame that goes out for an admitted request, if it can be sealed.\<close>

definition outgoing :: "gateway \<Rightarrow> tx_request \<Rightarrow> tx_clock \<Rightarrow> can_frame option" where
  "outgoing g rq tc = map_option snd (seal g (rq_frame rq) (tc_now tc))"

lemma admit_outcome:
  assumes "speed_ok g" "admit mac sha fmt g v es rq tc = ((g1, estops), res)"
  shows "(\<exists>tk. res = Inr tk) \<longleftrightarrow> authorised mac sha g v rq tc \<and> room g rq tc \<and> outgoing g rq tc \<noteq> None"
    and "res = Inr tk \<Longrightarrow> outgoing g rq tc = Some (tk_frame tk) \<and> estops = [] \<and>
      tk_engaged tk = es_engaged es \<and> tk_fence tk = es_tx_fence es"
proof -
  let ?g = "fst (reserve_lane (reserve_total g tc) rq tc)"
  have out: "map_option snd (seal ?g (rq_frame rq) (tc_now tc)) = outgoing g rq tc"
    by (simp add: seal_reserved outgoing_def)
  have conf: "(\<exists>pending. stage_confirmation mac sha g rq critical now = Inr pending) \<longleftrightarrow>
      (critical \<longrightarrow> rq_confirmed rq \<and>
         (case (gw_secret g, rq_token rq) of
            (Some secret, Some tok) \<Rightarrow>
              \<exists>payload. grants mac sha g secret tok (rq_frame rq) (rq_context rq) now payload
          | (Some secret, None) \<Rightarrow> gw_allow_legacy g
          | (None, _) \<Rightarrow> True))" for critical now
    by (auto simp: confirmation_ok split: option.split)
  have "(\<exists>tk. res = Inr tk) \<longleftrightarrow> (\<exists>s tk. admit mac sha fmt g v es rq tc = (s, Inr tk))"
    using assms(2) by auto
  also have "\<dots> \<longleftrightarrow> authorised mac sha g v rq tc \<and> room g rq tc \<and>
      seal ?g (rq_frame rq) (tc_now tc) \<noteq> None"
    unfolding admit_success [OF assms(1)] authorised_def Let_def safety_state_ok read_only_ok room_def
    using conf [of "derived_critical g rq" "tc_verify tc"] by auto
  also have "seal ?g (rq_frame rq) (tc_now tc) \<noteq> None \<longleftrightarrow> outgoing g rq tc \<noteq> None"
    using out by (metis option.map_disc_iff)
  finally show "(\<exists>tk. res = Inr tk) \<longleftrightarrow> authorised mac sha g v rq tc \<and> room g rq tc \<and> outgoing g rq tc \<noteq> None" .
  show "outgoing g rq tc = Some (tk_frame tk) \<and> estops = [] \<and>
      tk_engaged tk = es_engaged es \<and> tk_fence tk = es_tx_fence es" if "res = Inr tk"
    using assms(2) that out unfolding admit_success [OF assms(1)]
    by (auto simp: admit_success [OF assms(1)])
qed

text \<open>The plant as Phase 2 and Phase 3 of the call find it.\<close>

definition at_guard ::
  "(bytes \<Rightarrow> bytes \<Rightarrow> bytes) \<Rightarrow> (bytes \<Rightarrow> bytes) \<Rightarrow> (rat \<Rightarrow> string) \<Rightarrow> plant \<Rightarrow> tx_request \<Rightarrow> tx_clock \<Rightarrow>
   sys_time \<Rightarrow> interleaving \<Rightarrow> plant" where
  "at_guard mac sha fmt p rq tc t il =
     (let es = il_stages il (pl_es p) in
      il_guard il (p\<lparr>pl_gw := fst (fst (admit mac sha fmt (pl_gw p) (view_of p t) es rq tc)), pl_es := es\<rparr>))"

definition at_dispatch ::
  "(bytes \<Rightarrow> bytes \<Rightarrow> bytes) \<Rightarrow> (bytes \<Rightarrow> bytes) \<Rightarrow> (rat \<Rightarrow> string) \<Rightarrow> plant \<Rightarrow> tx_request \<Rightarrow> tx_clock \<Rightarrow>
   sys_time \<Rightarrow> interleaving \<Rightarrow> plant" where
  "at_dispatch mac sha fmt p rq tc t il = il_dispatch il (at_guard mac sha fmt p rq tc t il)"

definition undisturbed ::
  "(bytes \<Rightarrow> bytes \<Rightarrow> bytes) \<Rightarrow> (bytes \<Rightarrow> bytes) \<Rightarrow> (rat \<Rightarrow> string) \<Rightarrow> plant \<Rightarrow> tx_request \<Rightarrow> tx_clock \<Rightarrow>
   sys_time \<Rightarrow> interleaving \<Rightarrow> bool" where
  "undisturbed mac sha fmt p rq tc t il \<longleftrightarrow>
     \<not> es_engaged (il_stages il (pl_es p)) \<and>
     \<not> es_engaged (pl_es (at_guard mac sha fmt p rq tc t il)) \<and>
     \<not> es_engaged (pl_es (at_dispatch mac sha fmt p rq tc t il)) \<and>
     es_tx_fence (pl_es (at_dispatch mac sha fmt p rq tc t il)) = es_tx_fence (il_stages il (pl_es p))"

lemma transmit_outcome:
  assumes "speed_ok (pl_gw p)" "validate_and_transmit mac sha fmt p rq tc t il = ((p', sent), res)"
  shows "sent = (if authorised mac sha (pl_gw p) (view_of p t) rq tc \<and> room (pl_gw p) rq tc \<and>
                    undisturbed mac sha fmt p rq tc t il
                 then (case outgoing (pl_gw p) rq tc of Some f \<Rightarrow> [f] | None \<Rightarrow> []) else [])"
    and "res = Inr () \<longleftrightarrow> sent \<noteq> [] \<and> il_driver il = Inr ()"
proof -
  let ?es = "il_stages il (pl_es p)"
  obtain g1 estops r where a: "admit mac sha fmt (pl_gw p) (view_of p t) ?es rq tc = ((g1, estops), r)"
    by (metis prod.collapse)
  note out = admit_outcome [OF assms(1) a]
  have "sent = (if authorised mac sha (pl_gw p) (view_of p t) rq tc \<and> room (pl_gw p) rq tc \<and>
                    undisturbed mac sha fmt p rq tc t il
                 then (case outgoing (pl_gw p) rq tc of Some f \<Rightarrow> [f] | None \<Rightarrow> []) else []) \<and>
        (res = Inr () \<longleftrightarrow> sent \<noteq> [] \<and> il_driver il = Inr ())"
  proof (cases r)
    case (Inl e)
    then have "sent = []" "res = Inl e"
      using assms(2) by (auto simp: validate_and_transmit_def transmit_locked_def a)
    then show ?thesis using out(1) Inl by (auto split: option.split)
  next
    case (Inr tk)
    let ?p1 = "p\<lparr>pl_gw := g1, pl_es := ?es\<rparr>"
    have p2: "at_guard mac sha fmt p rq tc t il = il_guard il ?p1"
      by (simp add: at_guard_def a)
    have adm: "authorised mac sha (pl_gw p) (view_of p t) rq tc" "room (pl_gw p) rq tc"
        "outgoing (pl_gw p) rq tc = Some (tk_frame tk)" "tk_engaged tk = es_engaged ?es"
        "tk_fence tk = es_tx_fence ?es"
      using out Inr by auto
    have "(sent, res) = (snd (fst (guarded_dispatch ?p1 tk il)), snd (guarded_dispatch ?p1 tk il))"
      using assms(2) by (auto simp: validate_and_transmit_def transmit_locked_def a Inr Let_def
          split: prod.splits)
    then show ?thesis
      using adm unfolding undisturbed_def at_dispatch_def p2
      by (auto simp: guarded_dispatch_def final_guard_def fenced_dispatch_def Let_def)
  qed
  then show "sent = (if authorised mac sha (pl_gw p) (view_of p t) rq tc \<and> room (pl_gw p) rq tc \<and>
                    undisturbed mac sha fmt p rq tc t il
                 then (case outgoing (pl_gw p) rq tc of Some f \<Rightarrow> [f] | None \<Rightarrow> []) else [])"
    "res = Inr () \<longleftrightarrow> sent \<noteq> [] \<and> il_driver il = Inr ()" by blast+
qed

section \<open>Emergency stops around a call\<close>

lemma on_estop_keeps_es [simp]: "pl_es (gw_on_estop_triggered p t) = pl_es p"
  by (simp add: gw_on_estop_triggered_def plant_fault_def put_sup_def Let_def split: option.split)

lemma request_estop_es:
  "pl_es (request_estop p source reason speed t) = trigger (pl_es p) source reason speed (fresh_nonce t) (now_es t)"
  by (simp add: request_estop_def Let_def)

lemma trigger_engages [simp]: "es_engaged (trigger es source reason speed nonce t)"
  by (simp add: trigger_def Let_def)

lemma fire_keeps: "es_engaged (pl_es p) \<Longrightarrow> es_engaged (pl_es (fire_estops estops p t))"
  by (induction estops p t rule: fire_estops.induct) (simp_all add: request_estop_es)

lemma fire_engages: "estops \<noteq> [] \<Longrightarrow> es_engaged (pl_es (fire_estops estops p t))"
proof (cases estops)
  case (Cons e es)
  obtain source reason speed where "e = (source, reason, speed)" by (metis prod.exhaust)
  then show ?thesis using fire_keeps [of "request_estop p source reason speed t" es t] Cons
    by (simp add: request_estop_es)
qed simp

text \<open>A stop parked by a stage is engaged when the call is over.\<close>

lemma parked_engages:
  assumes "admit mac sha fmt (pl_gw p) (view_of p t) (il_stages il (pl_es p)) rq tc = ((g, estops), Inl e)"
    and "estops \<noteq> []" "validate_and_transmit mac sha fmt p rq tc t il = ((p', sent), res)"
  shows "es_engaged (pl_es p')" "sent = []" "res = Inl e"
proof -
  have "p' = fire_estops estops (p\<lparr>pl_gw := g, pl_es := il_stages il (pl_es p)\<rparr>) t" "sent = []" "res = Inl e"
    using assms(1,3) by (auto simp: validate_and_transmit_def transmit_locked_def)
  then show "es_engaged (pl_es p')" "sent = []" "res = Inl e"
    using fire_engages [OF assms(2)] by auto
qed

lemma engaged_between:
  assumes "estop_ok es" "es_run mac es es1" "es_run mac (trigger es1 source reason speed nonce et) es2"
  shows "es_tx_fence es < es_tx_fence es2"
proof -
  have ok: "estop_ok es1" using es_run_ok [OF assms(2,1)] .
  have "estop_ok (trigger es1 source reason speed nonce et)" using es_step_ok [OF ok es_step.Engage] .
  then have "es_tx_fence (trigger es1 source reason speed nonce et) \<le> es_tx_fence es2"
    using es_run_fence [OF assms(3)] by blast
  moreover have "es_tx_fence es \<le> es_tx_fence es1" using es_run_fence [OF assms(2,1)] by blast
  ultimately show ?thesis by (simp add: trigger_def Let_def)
qed

section \<open>What a refusal costs\<close>

definition stamps_ok :: "gateway \<Rightarrow> bool" where
  "stamps_ok g \<longleftrightarrow>
     (\<forall>s \<in> set (gw_tx_stamps g) \<union> set (gw_total_stamps g). snd (snd s) \<le> gw_stamp_seq g)"

definition budgets_ok :: "gateway \<Rightarrow> bool" where
  "budgets_ok g \<longleftrightarrow> (\<forall>c b. dget (gw_budgets g) c = Some b \<longrightarrow> tb_tokens b \<le> of_int (tb_capacity b))"

lemma drop_old_subset: "s \<in> set (drop_old now xs) \<Longrightarrow> s \<in> set xs"
  unfolding drop_old_def using set_dropWhileD by fastforce

text \<open>A bucket after the time since its last refill.\<close>

definition refilled :: "tx_budget \<Rightarrow> int \<Rightarrow> tx_budget" where
  "refilled b now =
     (if now > tb_last_refill_ns b
      then b\<lparr>tb_tokens := min (of_int (tb_capacity b))
               (tb_tokens b + of_int (now - tb_last_refill_ns b) / 1000000000 * tb_refill_per_sec b),
             tb_last_refill_ns := now\<rparr>
      else b)"

lemma try_consume_refilled:
  "try_consume b n now =
     (if tb_tokens (refilled b now) \<ge> n
      then ((refilled b now)\<lparr>tb_tokens := tb_tokens (refilled b now) - n\<rparr>, True)
      else (refilled b now, False))"
proof -
  have "(of_int (now - tb_last_refill_ns b) / 1000000000 > (0::rat)) \<longleftrightarrow> now > tb_last_refill_ns b"
    by (simp add: zero_less_divide_iff)
  then show ?thesis by (simp add: try_consume_def refilled_def Let_def)
qed

lemma refilled_cap [simp]: "tb_capacity (refilled b now) = tb_capacity b"
  by (simp add: refilled_def)

lemma refilled_bound: "tb_tokens b \<le> of_int (tb_capacity b) \<Longrightarrow> tb_tokens (refilled b now) \<le> of_int (tb_capacity b)"
  by (simp add: refilled_def)

lemma refund_consumed:
  assumes "tb_tokens b \<le> of_int (tb_capacity b)" "snd (try_consume b n now)"
  shows "refund (fst (try_consume b n now)) n = refilled b now"
  using assms refilled_bound [OF assms(1), of now]
  by (simp add: refund_def try_consume_refilled split: if_splits)

lemma sublist_dget:
  assumes "dwf d" "set d' \<subseteq> set d" "dget d' k = Some e"
  shows "dget d k = Some e"
  using assms map_of_SomeD map_of_is_SomeI by (metis subsetD)

lemma prune_sub: "dwf d \<Longrightarrow> dget (prune_expired d now) k = Some e \<Longrightarrow> dget d k = Some e"
  by (rule sublist_dget [of d "prune_expired d now"])
     (auto simp: prune_expired_def dest: set_dropWhileD)

lemma prune_wf [simp]: "dwf d \<Longrightarrow> dwf (prune_expired d now)"
  unfolding prune_expired_def by (metis distinct_append map_append takeWhile_dropWhile_id)

lemma drop_dget: "dwf d \<Longrightarrow> dget (drop n d) k = Some e \<Longrightarrow> dget d k = Some e"
  by (rule sublist_dget [of d "drop n d"]) (auto dest: in_set_dropD)

lemma seal_same:
  "seal g f now = Some (g', f') \<Longrightarrow> \<exists>pk. g' = g\<lparr>gw_packager := pk\<rparr>"
proof -
  assume "seal g f now = Some (g', f')"
  then have "g' = g \<or> (\<exists>pk. g' = g\<lparr>gw_packager := pk\<rparr>)"
    by (auto simp: seal_def split: option.splits prod.splits sum.splits)
  moreover have "g = g\<lparr>gw_packager := gw_packager g\<rparr>" by simp
  ultimately show ?thesis by metis
qed

lemma rollback_fields [simp]:
  "gw_total_stamps (rollback_tx_reservation g reserved total_stamp burned) =
     (case total_stamp of None \<Rightarrow> gw_total_stamps g | Some s \<Rightarrow> remove1 s (gw_total_stamps g))"
  "gw_tx_stamps (rollback_tx_reservation g reserved total_stamp burned) =
     (case fst reserved of None \<Rightarrow> gw_tx_stamps g | Some s \<Rightarrow> remove1 s (gw_tx_stamps g))"
  "gw_consumed (rollback_tx_reservation g reserved total_stamp burned) =
     (case burned of None \<Rightarrow> gw_consumed g | Some p \<Rightarrow> dpop p (gw_consumed g))"
  "gw_stamp_seq (rollback_tx_reservation g reserved total_stamp burned) = gw_stamp_seq g"
  "gw_secret (rollback_tx_reservation g reserved total_stamp burned) = gw_secret g"
  "gw_budget_gen (rollback_tx_reservation g reserved total_stamp burned) = gw_budget_gen g"
  by (auto simp: rollback_tx_reservation_def Let_def split: option.split)

lemma rollback_budgets:
  "gw_budgets (rollback_tx_reservation g reserved total_stamp burned) =
     (case snd reserved of
        None \<Rightarrow> gw_budgets g
      | Some (c, gen) \<Rightarrow>
          if gen \<noteq> gw_budget_gen g then gw_budgets g
          else (case dget (gw_budgets g) c of
                  None \<Rightarrow> gw_budgets g | Some b \<Rightarrow> dset c (refund b 1) (gw_budgets g)))"
  by (auto simp: rollback_tx_reservation_def Let_def split: option.split)

lemma burn_fields [simp]:
  "gw_total_stamps (burn g pending now) = gw_total_stamps g"
  "gw_tx_stamps (burn g pending now) = gw_tx_stamps g"
  "gw_stamp_seq (burn g pending now) = gw_stamp_seq g"
  "gw_secret (burn g pending now) = gw_secret g"
  "gw_budgets (burn g pending now) = gw_budgets g"
  "gw_budget_gen (burn g pending now) = gw_budget_gen g"
  by (simp_all add: burn_def consume_confirmation_def Let_def split: option.split)

lemma burn_consumed:
  "gw_consumed (burn g pending now) =
     (case pending of
        None \<Rightarrow> gw_consumed g
      | Some (p, e) \<Rightarrow>
          (let store = dset p e (prune_expired (gw_consumed g) now)
           in drop (length store - CONSUMED_CONFIRMATIONS_MAX) store))"
  by (simp add: burn_def consume_confirmation_def Let_def split: option.split)

text \<open>The gateway an admission leaves, in terms of the one it found.\<close>

lemma admit_state:
  assumes "speed_ok g" "admit mac sha fmt g v es rq tc = ((g1, estops), Inr tk)"
  obtains pk pending where
    "g1 = burn ((fst (reserve_lane (reserve_total g tc) rq tc))\<lparr>gw_packager := pk\<rparr>) pending (tc_burn tc)"
    "stage_confirmation mac sha g rq (derived_critical g rq) (tc_verify tc) = Inr pending"
    "tk_burned tk = map_option fst pending"
    "tk_total tk = Some (tc_now tc, tc_thread tc, gw_stamp_seq g + 1)"
    "(tk_stamp tk, tk_bucket tk) = snd (reserve_lane (reserve_total g tc) rq tc)"
    "lane_room g rq tc" "length (drop_old (tc_now tc) (gw_total_stamps g)) < MAX_TOTAL_TX_PER_SEC"
    "tk_fence tk = es_tx_fence es" "\<not> es_engaged es \<longleftrightarrow> \<not> tk_engaged tk"
proof -
  from assms(2) obtain pending g3 f' where *:
    "stage_confirmation mac sha g rq (derived_critical g rq) (tc_verify tc) = Inr pending"
    "seal (fst (reserve_lane (reserve_total g tc) rq tc)) (rq_frame rq) (tc_now tc) = Some (g3, f')"
    "g1 = burn g3 pending (tc_burn tc)" "lane_room g rq tc" "envelope_room g rq (tc_now tc)"
    "tk_burned tk = map_option fst pending" "tk_total tk = Some (tc_now tc, tc_thread tc, gw_stamp_seq g + 1)"
    "(tk_stamp tk, tk_bucket tk) = snd (reserve_lane (reserve_total g tc) rq tc)"
    "tk_fence tk = es_tx_fence es" "tk_engaged tk = es_engaged es"
    unfolding admit_success [OF assms(1)] by auto
  obtain pk where pk: "g3 = (fst (reserve_lane (reserve_total g tc) rq tc))\<lparr>gw_packager := pk\<rparr>"
    using seal_same [OF *(2)] by blast
  show thesis
    by (rule that [of pk pending]) (use * pk in \<open>auto simp: envelope_room_def\<close>)
qed

lemma remove1_fresh: "x \<notin> set xs \<Longrightarrow> remove1 x (xs @ [x]) = xs"
  by (simp add: remove1_append)

lemma fresh_stamp:
  "stamps_ok g \<Longrightarrow> (n, th, gw_stamp_seq g + Suc k) \<notin> set (drop_old now (gw_total_stamps g)) \<union>
     set (drop_old now' (gw_tx_stamps g))"
proof -
  assume "stamps_ok g"
  then have "snd (snd s) \<le> gw_stamp_seq g"
    if "s \<in> set (drop_old now (gw_total_stamps g)) \<union> set (drop_old now' (gw_tx_stamps g))" for s
    using that drop_old_subset unfolding stamps_ok_def by blast
  from this [of "(n, th, gw_stamp_seq g + Suc k)"] show ?thesis by auto
qed

lemma rollback_windows:
  assumes "speed_ok g" "stamps_ok g" "admit mac sha fmt g v es rq tc = ((g1, estops), Inr tk)"
  shows "gw_total_stamps (rollback_ticket g1 tk) = drop_old (tc_now tc) (gw_total_stamps g)"
    and "gw_tx_stamps (rollback_ticket g1 tk) =
      (if rq_category rq = ''default'' then drop_old (tc_now tc) (gw_tx_stamps g) else gw_tx_stamps g)"
proof -
  obtain pk pending where g1: "g1 = burn ((fst (reserve_lane (reserve_total g tc) rq tc))\<lparr>gw_packager := pk\<rparr>) pending (tc_burn tc)"
    and t: "tk_total tk = Some (tc_now tc, tc_thread tc, gw_stamp_seq g + 1)"
      "(tk_stamp tk, tk_bucket tk) = snd (reserve_lane (reserve_total g tc) rq tc)"
    using admit_state [OF assms(1,3)] by metis
  have f: "(tc_now tc, tc_thread tc, gw_stamp_seq g + 1) \<notin> set (drop_old (tc_now tc) (gw_total_stamps g))"
    "(tc_now tc, tc_thread tc, gw_stamp_seq g + 2) \<notin> set (drop_old (tc_now tc) (gw_tx_stamps g))"
    using fresh_stamp [OF assms(2), of _ _ 0] fresh_stamp [OF assms(2), of _ _ 1] by auto
  have "gw_total_stamps g1 = drop_old (tc_now tc) (gw_total_stamps g) @ [(tc_now tc, tc_thread tc, gw_stamp_seq g + 1)]"
    unfolding g1 by (simp add: reserve_lane_def reserve_total_def split: option.split)
  then show "gw_total_stamps (rollback_ticket g1 tk) = drop_old (tc_now tc) (gw_total_stamps g)"
    using f(1) by (simp add: rollback_ticket_def t(1) remove1_fresh)
  show "gw_tx_stamps (rollback_ticket g1 tk) =
      (if rq_category rq = ''default'' then drop_old (tc_now tc) (gw_tx_stamps g) else gw_tx_stamps g)"
  proof (cases "rq_category rq = ''default''")
    case True
    then have "tk_stamp tk = Some (tc_now tc, tc_thread tc, gw_stamp_seq g + 2)"
      "gw_tx_stamps g1 = drop_old (tc_now tc) (gw_tx_stamps g) @ [(tc_now tc, tc_thread tc, gw_stamp_seq g + 2)]"
      using t(2) unfolding g1 by (simp_all add: reserve_lane_def reserve_total_def)
    then show ?thesis using True f(2) by (simp add: rollback_ticket_def remove1_fresh)
  next
    case False
    then have "tk_stamp tk = None" "gw_tx_stamps g1 = gw_tx_stamps g"
      using t(2) unfolding g1 by (auto simp: reserve_lane_def reserve_total_def split: option.splits)
    then show ?thesis using False by (simp add: rollback_ticket_def)
  qed
qed

lemma rollback_buckets:
  assumes "speed_ok g" "budgets_ok g" "admit mac sha fmt g v es rq tc = ((g1, estops), Inr tk)"
  shows "dget (gw_budgets (rollback_ticket g1 tk)) c =
      (if c = rq_category rq \<and> c \<noteq> ''default''
       then map_option (\<lambda>b. refilled b (tc_bucket tc)) (dget (gw_budgets g) c)
       else dget (gw_budgets g) c)"
proof -
  obtain pk pending where g1: "g1 = burn ((fst (reserve_lane (reserve_total g tc) rq tc))\<lparr>gw_packager := pk\<rparr>) pending (tc_burn tc)"
    and t: "(tk_stamp tk, tk_bucket tk) = snd (reserve_lane (reserve_total g tc) rq tc)"
    and room: "lane_room g rq tc"
    using admit_state [OF assms(1,3)] by metis
  show ?thesis
  proof (cases "rq_category rq = ''default''")
    case True
    then have "tk_bucket tk = None" "gw_budgets g1 = gw_budgets g"
      using t unfolding g1 by (simp_all add: reserve_lane_def reserve_total_def)
    then show ?thesis using True by (simp add: rollback_ticket_def rollback_budgets)
  next
    case False
    then obtain b where b: "dget (gw_budgets g) (rq_category rq) = Some b" "snd (try_consume b 1 (tc_bucket tc))"
      using room by (auto simp: lane_room_def)
    have "tk_bucket tk = Some (rq_category rq, gw_budget_gen g)" "gw_budget_gen g1 = gw_budget_gen g"
      "gw_budgets g1 = dset (rq_category rq) (fst (try_consume b 1 (tc_bucket tc))) (gw_budgets g)"
      using t False b(1) unfolding g1 by (simp_all add: reserve_lane_def reserve_total_def)
    moreover have "refund (fst (try_consume b 1 (tc_bucket tc))) 1 = refilled b (tc_bucket tc)"
      using assms(2) b by (intro refund_consumed) (auto simp: budgets_ok_def)
    ultimately show ?thesis using False b(1)
      by (simp add: rollback_ticket_def rollback_budgets dict.lookup_store)
  qed
qed

lemma rollback_grants:
  assumes "speed_ok g" "dwf (gw_consumed g)" "admit mac sha fmt g v es rq tc = ((g1, estops), Inr tk)"
    and "grants mac sha g secret tok f context now payload"
  shows "grants mac sha (rollback_ticket g1 tk) secret tok f context now payload"
proof -
  obtain pk pending where g1: "g1 = burn ((fst (reserve_lane (reserve_total g tc) rq tc))\<lparr>gw_packager := pk\<rparr>) pending (tc_burn tc)"
    and b: "tk_burned tk = map_option fst pending"
    using admit_state [OF assms(1,3)] by metis
  have store: "gw_consumed (fst (reserve_lane (reserve_total g tc) rq tc)) = gw_consumed g"
    by (simp add: reserve_lane_def reserve_total_def split: option.split)
  have "dget (gw_consumed (rollback_ticket g1 tk)) payload = None"
  proof (cases pending)
    case None
    then show ?thesis using assms(4) b store by (simp add: rollback_ticket_def g1 burn_consumed grants_def)
  next
    case (Some pe)
    obtain p e where pe: "pe = (p, e)" by (cases pe)
    let ?store = "dset p e (prune_expired (gw_consumed g) (tc_burn tc))"
    have wf: "dwf ?store" by (simp add: assms(2) dict.wf_store)
    have "dget (dpop p (drop n ?store)) payload = None" for n
    proof (rule ccontr)
      assume "dget (dpop p (drop n ?store)) payload \<noteq> None"
      then obtain e' where "dget (drop n ?store) payload = Some e'" "payload \<noteq> p"
        by (auto simp: dict.lookup_discard split: if_splits)
      then have "dget (prune_expired (gw_consumed g) (tc_burn tc)) payload = Some e'"
        using drop_dget [OF wf, of n payload e'] by (simp add: dict.lookup_store)
      then show False using prune_sub [OF assms(2)] assms(4) by (simp add: grants_def)
    qed
    then show ?thesis using Some b store
      by (simp add: rollback_ticket_def g1 burn_consumed Let_def pe)
  qed
  then show ?thesis using assms(4) by (simp add: grants_def)
qed

text \<open>C7. A call that passed every stage but meets the engaged emergency stop in its second phase is
  refused and costs the caller nothing: the aggregate window and the default lane's window are as if it
  had never been made, up to the removal of stamps that had left the window; its lane's bucket has only
  been refilled for the time passed and all others are untouched; and every confirmation token that could
  grant a frame before, the one the call had spent included, can still grant it. For the replay store
  this is one direction only: what the spending pruned or evicted from it does not come back, so
  a token spent by another call may be forgotten.\<close>

theorem refused_call_costs_nothing:
  assumes "speed_ok g" "stamps_ok g" "budgets_ok g" "dwf (gw_consumed g)"
    and "admit mac sha fmt g v es rq tc = ((g1, estops), Inr tk)" "es_engaged es \<or> es_engaged es2"
    and "final_guard g1 es2 tk = (g', res)"
  shows "res = Inl (SafetyError ''ESTOP_ACTIVE'') \<and>
    gw_total_stamps g' = drop_old (tc_now tc) (gw_total_stamps g) \<and>
    gw_tx_stamps g' =
      (if rq_category rq = ''default'' then drop_old (tc_now tc) (gw_tx_stamps g) else gw_tx_stamps g) \<and>
    (\<forall>c. dget (gw_budgets g') c =
      (if c = rq_category rq \<and> c \<noteq> ''default''
       then map_option (\<lambda>b. refilled b (tc_bucket tc)) (dget (gw_budgets g) c)
       else dget (gw_budgets g) c)) \<and>
    (\<forall>secret tok f context now payload.
       grants mac sha g secret tok f context now payload \<longrightarrow>
       grants mac sha g' secret tok f context now payload)"
proof -
  have "tk_engaged tk = es_engaged es" using admit_outcome(2) [OF assms(1,5)] by blast
  then have "g' = rollback_ticket g1 tk" "res = Inl (SafetyError ''ESTOP_ACTIVE'')"
    using assms(6,7) by (auto simp: final_guard_def split: if_splits)
  then show ?thesis
    using rollback_windows [OF assms(1,2,5)] rollback_buckets [OF assms(1,3,5)]
      rollback_grants [OF assms(1,4,5)] by blast
qed

text \<open>C1. \<open>validate_and_transmit\<close> implements the policy: whatever other threads do meanwhile, it hands a
  frame to the driver exactly when the request is authorised (sane frame, transmission permitted with
  a live lease and no engaged stop, nothing a read-only session forbids, a listed identifier, and for a
  critical frame a fresh physical speed of at most 0.5 km/h, the operator's confirmation and a granting
  token), its lane has room, the frame can be sealed, and from the end of the stages to the dispatch
  the emergency stop was not engaged and its fence did not move; and then it hands over that one frame.
  It returns exactly when the driver accepted it.\<close>

theorem transmit_implements_policy:
  assumes "speed_ok (pl_gw p)" "validate_and_transmit mac sha fmt p rq tc t il = ((p', sent), res)"
  shows "sent = (if authorised mac sha (pl_gw p) (view_of p t) rq tc \<and> room (pl_gw p) rq tc \<and>
                    undisturbed mac sha fmt p rq tc t il
                 then (case outgoing (pl_gw p) rq tc of Some f \<Rightarrow> [f] | None \<Rightarrow> []) else []) \<and>
    (res = Inr () \<longleftrightarrow> sent \<noteq> [] \<and> il_driver il = Inr ())"
  using transmit_outcome [OF assms] by blast

text \<open>C2. A frame does not survive an engagement the gateway can see: if the emergency stop is engaged when
  the gateway takes its snapshot at the end of the first phase, or if after that snapshot it goes through
  any session of its own that contains a trigger, resets before and after it included, the frame is not
  handed to the driver and the call raises. An engagement that is over and reset again before the
  snapshot is outside: the stages read the stop once, at their start, and the snapshot then shows the
  stop as free.\<close>

theorem engagement_stops_frame:
  assumes "speed_ok (pl_gw p)" "estop_ok (il_stages il (pl_es p))"
    and "es_engaged (il_stages il (pl_es p)) \<or> (\<exists>es1 source reason speed nonce et.
      es_run mac' (il_stages il (pl_es p)) es1 \<and>
      es_run mac' (trigger es1 source reason speed nonce et) (pl_es (at_dispatch mac sha fmt p rq tc t il)))"
    and "validate_and_transmit mac sha fmt p rq tc t il = ((p', sent), res)"
  shows "sent = [] \<and> res \<noteq> Inr ()"
proof -
  have "\<not> undisturbed mac sha fmt p rq tc t il"
    using engaged_between [OF assms(2)] assms(3) unfolding undisturbed_def by (metis less_irrefl)
  then show ?thesis using transmit_outcome [OF assms(1,4)] by simp
qed

section \<open>A gateway with one listed identifier\<close>

lemma fresh_budgets_ok: "dget (fresh_budgets now) c = Some b \<Longrightarrow> tb_tokens b \<le> of_int (tb_capacity b)"
  by (auto simp: fresh_budgets_def BUDGETS_def tx_budget_init_def split: if_splits)

definition gw_demo_start :: gateway where
  "gw_demo_start =
     \<lparr>gw_bus = \<lparr>bus_virtual = False, bus_hooks = [], bus_raw_hooks = None\<rparr>, gw_whitelist_ids = [0x7E0],
      gw_whitelist_masks = [], gw_superset_allowed = False, gw_packager = None, gw_profiles = [],
      gw_bypass = False, gw_secret = Some [1], gw_allow_legacy = False, gw_consumed = [],
      gw_miss_streak = 0, gw_last_miss_ns = 0, gw_link_latched = {}, gw_link_epoch = 0, gw_tx_stamps = [],
      gw_rate_streak = 0, gw_last_rate_log_ns = 0, gw_rate_log_suppressed = 0, gw_stamp_seq = 0,
      gw_budgets = fresh_budgets 0, gw_budget_gen = 0, gw_physical_speed = Some 0,
      gw_display_speed = Some 0, gw_last_speed_ns = 0, gw_total_stamps = [], gw_total_streak = 0,
      gw_executor_shutdown = False, gw_abort_hook = None, gw_read_only = None\<rparr>"

lemma gw_demo_init:
  "gateway_init \<lparr>bus_virtual = False, bus_hooks = [], bus_raw_hooks = None\<rparr> (Some [0x7E0]) None None None
     (Some [1]) False False 0 0 = Inr gw_demo_start"
  by (simp add: gateway_init_def gw_demo_start_def)

text \<open>The vehicle stands still.\<close>

definition gw_demo :: gateway where
  "gw_demo = update_physical_speed gw_demo_start (Some 0) 50"

definition gw_demo_mac :: "bytes \<Rightarrow> bytes \<Rightarrow> bytes" where
  "gw_demo_mac secret payload = replicate 32 0"

definition gw_demo_sha :: "bytes \<Rightarrow> bytes" where
  "gw_demo_sha d = replicate 32 0"

definition gw_demo_fmt :: "rat \<Rightarrow> string" where
  "gw_demo_fmt v = []"

definition gw_demo_payload :: bytes where
  "gw_demo_payload = [0, 0, 7, 0xE0] @ [0, 0, 0, 0, 0, 0, 0, 100] @ replicate 16 9"

text \<open>WriteDataByIdentifier with a token for it.\<close>

definition gw_demo_frame :: can_frame where
  "gw_demo_frame = fd_frame_demo\<lparr>frame_arbitration_id := 0x7E0, frame_dlc := 8,
     frame_data := [3, 0x2E, 0xF1, 0x90, 0, 0, 0, 0], frame_is_fd := False, frame_brs := False\<rparr>"

definition gw_demo_rq :: tx_request where
  "gw_demo_rq = \<lparr>rq_frame = gw_demo_frame, rq_critical = False, rq_confirmed = True,
     rq_category = ''diagnostic'', rq_token = Some (Inl (gw_demo_payload @ replicate 32 0)),
     rq_inbound = False, rq_context = None\<rparr>"

definition gw_demo_tc :: tx_clock where
  "gw_demo_tc = \<lparr>tc_now = 60, tc_verify = 61, tc_bucket = 62, tc_burn = 63, tc_thread = 1\<rparr>"

definition gw_demo_view :: tx_view where
  "gw_demo_view = \<lparr>vw_permitted = True, vw_lease_valid = True, vw_engaged = False\<rparr>"

lemma gw_demo_fields:
  "gw_whitelist_ids gw_demo = [0x7E0]" "gw_whitelist_masks gw_demo = []" "gw_bypass gw_demo = False"
  "gw_secret gw_demo = Some [1]" "gw_consumed gw_demo = []" "gw_packager gw_demo = None"
  "gw_read_only gw_demo = None" "gw_tx_stamps gw_demo = []" "gw_total_stamps gw_demo = []"
  "gw_budgets gw_demo = fresh_budgets 0" "gw_physical_speed gw_demo = Some 0" "gw_last_speed_ns gw_demo = 50"
  "gw_miss_streak gw_demo = 0"
  by (simp_all add: gw_demo_def gw_demo_start_def update_physical_speed_def update_vehicle_speed_def
      SPEED_MAX_PLAUSIBLE_KMH_def)

lemma gw_demo_ok: "speed_ok gw_demo" "stamps_ok gw_demo" "budgets_ok gw_demo" "dwf (gw_consumed gw_demo)"
  using fresh_budgets_ok
  by (simp_all add: speed_ok_def stamps_ok_def budgets_ok_def gw_demo_fields SPEED_MAX_PLAUSIBLE_KMH_def)

lemma gw_demo_critical: "derived_critical gw_demo gw_demo_rq"
  by (simp add: derived_critical_def gw_demo_fields gw_demo_rq_def gw_demo_frame_def fd_frame_demo_def
      frame_is_critical_def id_allowed_def iso_tp_service_byte_def is_critical_sid_def CRITICAL_UDS_SIDS_def)

lemma gw_demo_lanes: "dget (fresh_budgets 0) ''diagnostic'' = Some (tx_budget_init 10 10 0)"
  "dget (fresh_budgets 0) ''default'' = Some (tx_budget_init 100 100 0)"
  by (simp_all add: fresh_budgets_def BUDGETS_def)

lemma gw_demo_grants:
  "grants gw_demo_mac gw_demo_sha gw_demo [1] (Inl (gw_demo_payload @ replicate 32 0)) gw_demo_frame None 61
     gw_demo_payload"
proof -
  have "length gw_demo_payload = CONFIRM_BASE_LEN" by (simp add: gw_demo_payload_def CONFIRM_BASE_LEN_def)
  moreover have "from_be (take 4 gw_demo_payload) = 0x7E0" "from_be (py_slice gw_demo_payload 4 12) = 100"
    by code_simp+
  ultimately show ?thesis
    by (auto simp: grants_def raw_token_def gw_demo_fields gw_demo_mac_def gw_demo_frame_def)
qed

lemma gw_demo_authorised: "authorised gw_demo_mac gw_demo_sha gw_demo gw_demo_view gw_demo_rq gw_demo_tc"
proof -
  have "stage_sanity gw_demo_frame = Inr ()"
    by (simp add: sanity_ok gw_demo_frame_def fd_frame_demo_def)
  moreover have "listed gw_demo (frame_arbitration_id gw_demo_frame)"
    by (simp add: listed_def id_allowed_def gw_demo_fields gw_demo_frame_def)
  moreover have "is_speed_fresh_and_safe gw_demo None 60"
    by (simp add: is_speed_fresh_and_safe_def gw_demo_fields SPEED_VALIDITY_TIMEOUT_NS_def SPEED_NOISE_THRESHOLD_KMH_def)
  ultimately show ?thesis using gw_demo_grants
    by (auto simp: authorised_def gw_demo_view_def gw_demo_rq_def gw_demo_tc_def gw_demo_fields)
qed

lemma gw_demo_room: "room gw_demo gw_demo_rq gw_demo_tc"
proof -
  have "snd (try_consume (tx_budget_init 10 10 0) 1 62)"
    by (simp add: try_consume_def tx_budget_init_def Let_def)
  then show ?thesis
    by (simp add: room_def envelope_room_def lane_room_def gw_demo_rq_def gw_demo_tc_def gw_demo_fields gw_demo_lanes
        drop_old_def MAX_TOTAL_TX_PER_SEC_def)
qed

lemma gw_demo_outgoing: "outgoing gw_demo gw_demo_rq gw_demo_tc = Some gw_demo_frame"
  by (simp add: outgoing_def seal_def gw_demo_fields gw_demo_rq_def)


lemma gw_demo_admitted:
  obtains g1 tk where "admit gw_demo_mac gw_demo_sha gw_demo_fmt gw_demo gw_demo_view es gw_demo_rq gw_demo_tc = ((g1, []), Inr tk)"
    "tk_engaged tk = es_engaged es" "tk_fence tk = es_tx_fence es" "tk_frame tk = gw_demo_frame"
    "tk_burned tk = Some gw_demo_payload"
proof -
  obtain g1 estops res where a: "admit gw_demo_mac gw_demo_sha gw_demo_fmt gw_demo gw_demo_view es gw_demo_rq gw_demo_tc = ((g1, estops), res)"
    by (metis prod.collapse)
  obtain tk where tk: "res = Inr tk"
    using admit_outcome(1) [OF gw_demo_ok(1) a] gw_demo_authorised gw_demo_room gw_demo_outgoing by auto
  note out = admit_outcome(2) [OF gw_demo_ok(1) a tk]
  obtain pending where p: "stage_confirmation gw_demo_mac gw_demo_sha gw_demo gw_demo_rq True 61 = Inr pending"
      "tk_burned tk = map_option fst pending"
    using a tk unfolding admit_success [OF gw_demo_ok(1)] by (auto simp: gw_demo_critical gw_demo_tc_def admit_success [OF gw_demo_ok(1)])
  have "fst (the pending) = gw_demo_payload" "pending \<noteq> None"
    using p(1) by (auto simp: confirmation_ok gw_demo_fields gw_demo_rq_def grants_def raw_token_def)
  then show thesis using that a tk out p(2) gw_demo_outgoing by auto
qed

definition gw_demo_plant :: plant where
  "gw_demo_plant = \<lparr>pl_gw = gw_demo, pl_es = es_demo_idle, pl_sv = None, pl_wd = None\<rparr>"

definition gw_demo_time :: sys_time where
  "gw_demo_time = \<lparr>now_lease = 0, now_wall = 0, now_sup = \<lparr>mono_ns = 0, wall_ns = 0\<rparr>, now_es = es_demo_time, fresh_nonce = es_demo_nonce\<rparr>"

definition alone :: interleaving where
  "alone = \<lparr>il_stages = (\<lambda>es. es), il_guard = (\<lambda>p. p), il_dispatch = (\<lambda>p. p), il_driver = Inr ()\<rparr>"

lemma gw_demo_view_of: "view_of gw_demo_plant gw_demo_time = gw_demo_view"
  by (simp add: view_of_def gw_demo_plant_def gw_demo_view_def)

theorem transmit_implements_policy_witness:
  "\<exists>p'. validate_and_transmit gw_demo_mac gw_demo_sha gw_demo_fmt gw_demo_plant gw_demo_rq gw_demo_tc
     gw_demo_time alone = ((p', [gw_demo_frame]), Inr ())"
proof -
  obtain p' sent res where v: "validate_and_transmit gw_demo_mac gw_demo_sha gw_demo_fmt gw_demo_plant gw_demo_rq
      gw_demo_tc gw_demo_time alone = ((p', sent), res)"
    by (metis prod.collapse)
  have "undisturbed gw_demo_mac gw_demo_sha gw_demo_fmt gw_demo_plant gw_demo_rq gw_demo_tc gw_demo_time alone"
    by (simp add: undisturbed_def at_dispatch_def at_guard_def alone_def gw_demo_plant_def)
  then have "sent = [gw_demo_frame]" "res = Inr ()"
    using transmit_implements_policy [OF _ v] gw_demo_ok(1) gw_demo_authorised gw_demo_room gw_demo_outgoing
    by (simp_all add: gw_demo_view_of, simp_all add: gw_demo_plant_def alone_def)
  then show ?thesis using v by blast
qed


text \<open>While the call waits between its phases, the stop is engaged and reset again.\<close>

definition stopped_meanwhile :: interleaving where
  "stopped_meanwhile = alone\<lparr>il_guard := (\<lambda>p. p\<lparr>pl_es := es_demo_free\<rparr>)\<rparr>"

lemma es_demo_free_run: "es_run es_demo_mac es_demo_stop es_demo_free"
proof -
  have "es_step es_demo_mac \<lparr>et_mono = 9, et_wall = 0\<rparr> (Some (ephemeral_backend [7], TokenObject es_demo_token))
      es_demo_stop (disengage es_demo_stop es_demo_challenge)"
    by (rule Release) (simp add: es_demo_phase1)
  then show ?thesis
    unfolding es_demo_free_def by (rule es_run.Next [OF es_run.Next [OF es_run.Start] Publish])
qed

theorem engagement_stops_frame_witness:
  "\<exists>p' res. validate_and_transmit gw_demo_mac gw_demo_sha gw_demo_fmt gw_demo_plant gw_demo_rq gw_demo_tc
     gw_demo_time stopped_meanwhile = ((p', []), res) \<and> res \<noteq> Inr () \<and>
   \<not> es_engaged (pl_es (at_dispatch gw_demo_mac gw_demo_sha gw_demo_fmt gw_demo_plant gw_demo_rq gw_demo_tc
     gw_demo_time stopped_meanwhile))"
proof -
  obtain p' sent res where v: "validate_and_transmit gw_demo_mac gw_demo_sha gw_demo_fmt gw_demo_plant gw_demo_rq
      gw_demo_tc gw_demo_time stopped_meanwhile = ((p', sent), res)"
    by (metis prod.collapse)
  have d: "pl_es (at_dispatch gw_demo_mac gw_demo_sha gw_demo_fmt gw_demo_plant gw_demo_rq gw_demo_tc
      gw_demo_time stopped_meanwhile) = es_demo_free"
    by (simp add: at_dispatch_def at_guard_def stopped_meanwhile_def alone_def)
  have "sent = [] \<and> res \<noteq> Inr ()"
  proof (rule engagement_stops_frame [OF _ _ disjI2 v, where mac' = es_demo_mac])
    have "es_run es_demo_mac (il_stages stopped_meanwhile (pl_es gw_demo_plant)) es_demo_idle"
      by (simp add: stopped_meanwhile_def alone_def gw_demo_plant_def es_run.Start)
    moreover have "es_run es_demo_mac (trigger es_demo_idle USER_UI_BUTTON [] (Some 0) es_demo_nonce es_demo_time)
        (pl_es (at_dispatch gw_demo_mac gw_demo_sha gw_demo_fmt gw_demo_plant gw_demo_rq gw_demo_tc
          gw_demo_time stopped_meanwhile))"
      unfolding d using es_demo_free_run by (simp add: es_demo_stop_def)
    ultimately show "\<exists>es1 source reason speed nonce et.
        es_run es_demo_mac (il_stages stopped_meanwhile (pl_es gw_demo_plant)) es1 \<and>
        es_run es_demo_mac (trigger es1 source reason speed nonce et)
          (pl_es (at_dispatch gw_demo_mac gw_demo_sha gw_demo_fmt gw_demo_plant gw_demo_rq gw_demo_tc
            gw_demo_time stopped_meanwhile))" by blast
  qed (simp_all add: gw_demo_plant_def gw_demo_ok stopped_meanwhile_def alone_def)
  moreover have "\<not> es_engaged es_demo_free"
    by (simp add: es_demo_free_def reset_phase2_def disengage_def Let_def)
  ultimately show ?thesis using v d by auto
qed

theorem refused_call_costs_nothing_witness:
  "\<exists>g1 tk g'. admit gw_demo_mac gw_demo_sha gw_demo_fmt gw_demo gw_demo_view es_demo_idle gw_demo_rq gw_demo_tc = ((g1, []), Inr tk) \<and>
    tk_burned tk = Some gw_demo_payload \<and>
    final_guard g1 es_demo_stop tk = (g', Inl (SafetyError ''ESTOP_ACTIVE'')) \<and>
    gw_total_stamps g' = [] \<and>
    grants gw_demo_mac gw_demo_sha g' [1] (Inl (gw_demo_payload @ replicate 32 0)) gw_demo_frame None 61 gw_demo_payload"
proof -
  obtain g1 tk where a: "admit gw_demo_mac gw_demo_sha gw_demo_fmt gw_demo gw_demo_view es_demo_idle gw_demo_rq gw_demo_tc = ((g1, []), Inr tk)"
    "tk_burned tk = Some gw_demo_payload" by (rule gw_demo_admitted)
  obtain g' res where f: "final_guard g1 es_demo_stop tk = (g', res)" by (metis prod.collapse)
  have "es_engaged es_demo_idle \<or> es_engaged es_demo_stop" by simp
  from refused_call_costs_nothing [OF gw_demo_ok a(1) this f] show ?thesis
    using a f gw_demo_grants by (auto simp: gw_demo_fields drop_old_def)
qed


end
