(* ===== verification/GatewayCritical.thy ===== *)
theory GatewayCritical
  imports GatewaySpec IsoTpSpec J1939Id
begin

text \<open>
  How far the classification of critical frames reaches: which diagnostic requests and J1939 messages it
  recognises, which pass as harmless, and why a read-only session needs neither interlock nor token.
\<close>

section \<open>Diagnostic requests\<close>

lemma is_critical_Some [simp]: "is_critical_sid (Some s) \<longleftrightarrow> s \<in> set CRITICAL_UDS_SIDS"
  by (simp add: is_critical_sid_def)

lemma is_critical_None [simp]: "\<not> is_critical_sid None"
  by (simp add: is_critical_sid_def)

text \<open>The service byte the gateway reads from the first frame of a segmented payload.\<close>

lemma first_pdu_sid:
  assumes "d \<noteq> []" "\<not> fd \<Longrightarrow> length d \<le> 4096" "p = hd (pdus 0 fd d)"
  shows "iso_tp_service_byte (p @ pad) fd =
    (let n = length d in
     if n \<le> 7 \<or> fd \<and> n \<le> 62 \<or> n \<le> 4095 \<and> n mod 256 \<noteq> 0 then Some (byte_at d 0)
     else if \<not> fd then None
     else if n \<le> 4095 then Some (byte_at d 4)
     else Some (byte_at d 0))"
proof -
  let ?n = "length d"
  obtain d0 ds where d: "d = d0 # ds" using assms(1) by (cases d) auto
  consider (SF) "?n \<le> 7" | (Escape) "\<not> ?n \<le> 7" "fd" "?n \<le> 62" | (FF) "\<not> ?n \<le> 7" "\<not> (fd \<and> ?n \<le> 62)" "?n \<le> 4095"
    | (Long) "?n > 4095" "\<not> (fd \<and> ?n \<le> 62)" by linarith
  then show ?thesis
  proof cases
    case SF
    have p: "p = word_of_int (int ?n) # d"
      using SF assms(1) by (simp add: assms(3) pdus_def Let_def sf_pci_def PCI_SINGLE_FRAME_def)
    have "0 < ?n" "int ?n div 16 = 0" using SF assms(1) by simp_all
    moreover have "uint (word_of_int (int ?n) :: byte) = int ?n" using SF by (intro uint_of_int_byte) simp_all
    ultimately show ?thesis using SF
      by (simp only: p iso_tp_service_byte_def Let_def append_Cons) (simp add: d)
  next
    case Escape
    have p: "p = 0 # word_of_int (int ?n) # d"
      using Escape assms(1) by (simp add: assms(3) pdus_def Let_def sf_escape_pci_def)
    have "uint (word_of_int (int ?n) :: byte) = int ?n" using Escape by (intro uint_of_int_byte) simp_all
    then show ?thesis using Escape
      by (simp only: p iso_tp_service_byte_def Let_def append_Cons) (simp add: d)
  next
    case FF
    let ?hi = "16 + int ?n div 256" and ?lo = "int ?n mod 256"
    obtain m where m: "p = word_of_int ?hi # word_of_int ?lo # take m d" "6 \<le> m"
    proof
      show "p = word_of_int ?hi # word_of_int ?lo # take (if fd then 62 else 6) d"
        using FF assms(1) by (simp add: assms(3) pdus_def Let_def ff_head_def ff_pci_bytes can_dl_def)
    qed simp
    have bytes: "uint (word_of_int ?hi :: byte) = ?hi" "uint (word_of_int ?lo :: byte) = ?lo"
      using FF(3) by (intro uint_of_int_byte; linarith)+
    have lo: "?lo = 0 \<longleftrightarrow> ?n mod 256 = 0" by presburger
    have hi: "?hi div 16 = 1" using FF(3) by linarith
    have len: "length (p @ pad) \<ge> 8" and i: "(p @ pad) ! 0 = word_of_int ?hi" "(p @ pad) ! 1 = word_of_int ?lo"
        "(p @ pad) ! 2 = d ! 0"
      using m FF(1) by (simp_all add: d nth_append numeral_2_eq_2)
    have "(p @ pad) ! 6 = d ! 4" if "?n mod 256 = 0"
    proof -
      have "?n \<ge> 256" using that assms(1) by (metis gr0I length_0_conv mod_less not_less)
      then show ?thesis using m by (simp add: nth_append numeral_eq_Suc)
    qed
    moreover have "iso_tp_service_byte (p @ pad) fd =
        (if ?lo = 0 then (if \<not> fd then None else Some (byte_at (p @ pad) 6)) else Some (byte_at (p @ pad) 2))"
    proof -
      have "(p @ pad = []) = False" "(length (p @ pad) < 2) = False" "(length (p @ pad) \<ge> 7) = True"
          "(length (p @ pad) \<ge> 3) = True"
        using len by auto
      then show ?thesis unfolding iso_tp_service_byte_def Let_def i bytes hi
        by (simp del: append_is_Nil_conv length_append)
    qed
    ultimately show ?thesis using FF lo i(3) by (simp add: Let_def)
  next
    case Long
    obtain b0 b1 b2 b3 where b: "rev (le_bytes 4 (int ?n)) = [b0, b1, b2, b3]"
      by (simp add: numeral_eq_Suc)
    obtain m where m: "p = 0x10 # 0 # b0 # b1 # b2 # b3 # take m d" "2 \<le> m"
    proof
      show "p = 0x10 # 0 # b0 # b1 # b2 # b3 # take (if fd then 58 else 2) d"
        using Long assms(1) by (simp add: assms(3) pdus_def Let_def ff_head_def b can_dl_def)
    qed simp
    then obtain m' where m': "m = Suc m'" by (cases m) auto
    have "\<not> fd \<Longrightarrow> ?n mod 256 = 0" using Long(1) assms(2) by (cases "?n = 4096") auto
    then show ?thesis
      using Long m(1) by (auto simp: iso_tp_service_byte_def Let_def d m')
  qed
qed

lemma pdus_ne: "d \<noteq> [] \<Longrightarrow> pdus a fd d \<noteq> []"
  by (simp add: pdus_def Let_def)

lemma first_pdu_ne: "d \<noteq> [] \<Longrightarrow> hd (pdus a fd d) \<noteq> []"
  by (simp add: pdus_def Let_def ff_head_def ff_pci_def)

lemma first_pdu_pci:
  assumes "d \<noteq> []" "\<not> length d \<le> 7" "\<not> (fd \<and> length d \<le> 62)" "length d < 2 ^ 32" "p = hd (pdus 0 fd d)"
  shows "p \<noteq> [] \<and> byte_at (p @ pad) 0 div 16 = 1"
proof -
  have p: "p = ff_head (length d) @ take (can_dl fd - length (ff_head (length d))) d"
    using assms by (auto simp: pdus_def Let_def)
  have "byte_at (ff_head (length d) @ take (can_dl fd - length (ff_head (length d))) d @ pad) 0 div 16 = 1"
    by (rule ff_length_head(2)) (use assms in auto)
  then show ?thesis using assms(1) by (simp add: p ff_head_def ff_pci_def)
qed

text \<open>C8. The first frame of a diagnostic request whose service is critical, sent in normal addressing on a listed
  11-bit identifier or, with any list, in the 29-bit diagnostic format, is recognised as critical, whatever the format, the length and the
  padding, with one exception: a first frame whose announced length is a multiple of 256 has a zero low
  length byte and is taken for an escape. On an 11-bit identifier the classic request then passes as
  harmless; the FD request is judged by its fifth payload byte. In extended and mixed addressing the first
  payload byte is an address, and the gateway does not look behind it.\<close>

theorem critical_request_recognised:
  assumes "isotp_wf t" "isotp_ids_ok t" "it_addressing_mode t = NORMAL" "d \<noteq> []"
    and "length d \<le> (if fd then MAX_UDS_PAYLOAD_FD else MAX_UDS_PAYLOAD_CLASSIC)"
    and "byte_at d 0 \<in> set CRITICAL_UDS_SIDS"
    and "if it_tx_id t \<le> 0x7FF then id_allowed ids masks (it_tx_id t)
      else (ids \<noteq> [] \<or> masks \<noteq> []) \<and> drop_bit 16 (it_tx_id t) AND 0xFF \<in> {ISOTP_29BIT_PF, ISOTP_29BIT_FUNCTIONAL_PF}"
  shows "\<exists>f fs. segment_message t d fd brs_arg ns = Inr (f # fs) \<and>
    (frame_is_critical ids masks f \<longleftrightarrow>
      \<not> (length d mod 256 = 0 \<and>
         (if fd then length d < 4096 \<and> byte_at d 4 \<notin> set CRITICAL_UDS_SIDS else it_tx_id t \<le> 0x7FF)))"
proof -
  have off: "pci_offset t = 0" "wrap_npci t q = q" for q
    using assms(1,3) by (simp_all add: pci_offset_def wrap_npci_def isotp_wf_def)
  obtain frames where f: "segment_message t d fd brs_arg ns = Inr frames" "list_all2 (carries t fd) (pdus 0 fd d) frames"
    using segment_pdus [OF assms(1,2,4,5), of brs_arg ns] off by auto
  obtain p ps where p: "pdus 0 fd d = p # ps" by (cases "pdus 0 fd d") (use assms(4) pdus_ne [of d 0 fd] in auto)
  then obtain g gs where g: "frames = g # gs" "carries t fd p g" using f(2) by (auto simp: list_all2_Cons1)
  then obtain pad where pad: "frame_data g = p @ pad" "frame_arbitration_id g = it_tx_id t" "frame_is_fd g = fd"
      "frame_is_extended g = (it_tx_id t > 0x7FF)"
    using off by (auto simp: carries_def)
  have pos: "0 < length d" using assms(4) by simp
  have sid: "iso_tp_service_byte (p @ pad) fd =
    (let n = length d in
     if n \<le> 7 \<or> fd \<and> n \<le> 62 \<or> n \<le> 4095 \<and> n mod 256 \<noteq> 0 then Some (byte_at d 0)
     else if \<not> fd then None
     else if n \<le> 4095 then Some (byte_at d 4)
     else Some (byte_at d 0))"
    by (rule first_pdu_sid) (use assms(4,5) p in \<open>auto simp: MAX_UDS_PAYLOAD_CLASSIC_def\<close>)
  have ne: "p @ pad \<noteq> []" using pad(1) first_pdu_ne [OF assms(4), of 0 fd] p by simp
  have pci: "byte_at (p @ pad) 0 div 16 \<in> {0, 1}" if "iso_tp_service_byte (p @ pad) fd = None"
  proof -
    have "\<not> length d \<le> 7" "\<not> (fd \<and> length d \<le> 62)" using that sid by (auto simp: Let_def split: if_splits)
    moreover have "length d < 2 ^ 32"
      using assms(5) by (simp add: MAX_UDS_PAYLOAD_FD_def MAX_UDS_PAYLOAD_CLASSIC_def split: if_splits)
    ultimately show ?thesis using first_pdu_pci [OF assms(4), of fd p pad] p by simp
  qed
  have mult: "256 \<le> length d" if "length d mod 256 = 0"
    using that pos by (metis gr0I mod_less neq0_conv not_less)
  have "frame_is_critical ids masks g \<longleftrightarrow>
      (if it_tx_id t \<le> 0x7FF then is_critical_sid (iso_tp_service_byte (p @ pad) fd)
       else iso_tp_service_byte (p @ pad) fd = None \<or> is_critical_sid (iso_tp_service_byte (p @ pad) fd))"
  proof (cases "it_tx_id t \<le> 0x7FF")
    case True
    then show ?thesis using assms(7) ne pad by (simp add: frame_is_critical_def Let_def del: append_is_Nil_conv)
  next
    case False
    then have "\<not> (ids = [] \<and> masks = [])"
        "drop_bit 16 (frame_arbitration_id g) AND 0xFF \<in> {ISOTP_29BIT_PF, ISOTP_29BIT_FUNCTIONAL_PF}"
      using assms(7) pad(2) by simp_all
    then show ?thesis using False ne pad pci
      by (cases "iso_tp_service_byte (p @ pad) fd"; cases "ids = []")
        (simp_all add: frame_is_critical_def Let_def del: append_is_Nil_conv)
  qed
  moreover have "length d \<le> 7 \<or> fd \<and> length d \<le> 62 \<or> length d \<le> 4095 \<and> length d mod 256 \<noteq> 0 \<longleftrightarrow>
      \<not> (length d mod 256 = 0 \<and> (fd \<longrightarrow> length d < 4096)) \<and> (length d \<le> 4095 \<or> \<not> fd)"
    using mult assms(5) by (cases "length d = 4096") (auto simp: MAX_UDS_PAYLOAD_CLASSIC_def)
  ultimately show ?thesis using f(1) g(1) assms(6) mult
    by (auto simp: sid Let_def split: if_splits)
qed

theorem critical_request_recognised_witness:
  "\<exists>f fs. segment_message it_tester (0x2E # replicate 255 0) False None 5 = Inr (f # fs) \<and>
    (frame_is_critical [0x7E0] [] f \<longleftrightarrow>
      \<not> (length (0x2E # replicate 255 0 :: bytes) mod 256 = 0 \<and>
         (if False then length (0x2E # replicate 255 0 :: bytes) < 4096 \<and>
            byte_at (0x2E # replicate 255 0) 4 \<notin> set CRITICAL_UDS_SIDS else it_tx_id it_tester \<le> 0x7FF)))"
  by (rule critical_request_recognised [OF it_demo_ok(1,2)])
    (simp_all add: MAX_UDS_PAYLOAD_CLASSIC_def it_tester_def id_allowed_def CRITICAL_UDS_SIDS_def)

section \<open>J1939 commands\<close>

lemma last_byte: "0 \<le> ps \<Longrightarrow> ps < 256 \<Longrightarrow> x * 256 + ps = c \<longleftrightarrow> x = c div 256 \<and> ps = c mod 256" for x ps c :: int
  by auto

lemma pgn_with_destination:
  fixes e d pf ps :: int
  assumes "0 \<le> pf" "pf < 240" "0 \<le> ps" "ps < 256"
    and "c \<in> insert J1939_REQUEST_PGN (set CRITICAL_J1939_PGNS)"
  shows "e * 131072 + d * 65536 + pf * 256 + ps = c \<longleftrightarrow> ps = 0 \<and> e * 131072 + d * 65536 + pf * 256 = c"
proof -
  let ?x = "(e * 2 + d) * 256 + pf"
  have x: "e * 131072 + d * 65536 + pf * 256 = ?x * 256" by (simp add: algebra_simps)
  have "c mod 256 = 0 \<or> c div 256 = 254"
    using assms(5) by (auto simp: J1939_REQUEST_PGN_def CRITICAL_J1939_PGNS_def)
  moreover have "?x mod 256 = pf" using assms(1,2) by (simp only: mod_mult_self3) simp
  moreover have "?x * 256 + ps = c \<longleftrightarrow> ?x = c div 256 \<and> ps = c mod 256" "?x * 256 = c \<longleftrightarrow> ?x = c div 256 \<and> 0 = c mod 256"
    using last_byte [OF assms(3,4), of ?x c] last_byte [of 0 ?x c] by simp_all
  moreover have "?x \<noteq> 254"
  proof
    assume "?x = 254"
    then have "254 mod 256 = pf" using calculation(2) by (simp only:)
    then show False using assms(2) by simp
  qed
  ultimately show ?thesis unfolding x by auto
qed

lemma destination_eq: "P = (ps = 0 \<and> x = c) \<Longrightarrow> pgn = x \<Longrightarrow> da = Some ps \<Longrightarrow> P = ((da = None \<or> da = Some 0) \<and> pgn = c)"
  by simp

lemma mod_digit: "0 \<le> c \<Longrightarrow> n = b * c \<Longrightarrow> (x :: int) mod n = b * (x div b mod c) + x mod b"
  by (simp only: zmod_zmult2_eq)

lemma div_digit: "0 \<le> c \<Longrightarrow> n = b * c \<Longrightarrow> (x :: int) div n = x div b div c"
  by (simp only: zdiv_zmult2_eq)

lemma pgn_field: "drop_bit 8 arb AND 0x3FFFF =
    arb div 33554432 mod 2 * 131072 + arb div 16777216 mod 2 * 65536 + arb div 65536 mod 256 * 256 + arb div 256 mod 256"
  for arb :: int
proof -
  have "drop_bit 8 arb AND 0x3FFFF = arb div 256 mod 262144"
    by (simp only: drop_bit_eq_div and_masks) simp
  moreover have "arb div 33554432 = arb div 256 div 131072" "arb div 16777216 = arb div 256 div 65536"
      "arb div 65536 = arb div 256 div 256"
    by (rule div_digit; simp)+
  moreover have "y mod 262144 = 131072 * (y div 131072 mod 2) + y mod 131072"
      "y mod 131072 = 65536 * (y div 65536 mod 2) + y mod 65536"
      "y mod 65536 = 256 * (y div 256 mod 256) + y mod 256" for y :: int
    by (rule mod_digit; simp)+
  ultimately show ?thesis
    by (simp only: mult.commute [of 131072] mult.commute [of 65536] mult.commute [of 256] add.assoc)
qed

text \<open>C9. A J1939 message outside the diagnostic transport is judged by its PGN (and a request by the PGN it
  asks for) only if it is a broadcast or is addressed to the controller with address 0: the gateway
  compares the PGN together with the destination byte, so the same command or request to any other
  address, the global address 255 included, passes as harmless.\<close>

theorem j1939_critical_by_destination:
  assumes "frame_is_extended f" "frame_data f \<noteq> []" "ids \<noteq> [] \<or> masks \<noteq> []" "0 \<le> frame_arbitration_id f"
    and "drop_bit 16 (frame_arbitration_id f) AND 0xFF \<notin> {ISOTP_29BIT_PF, ISOTP_29BIT_FUNCTIONAL_PF}"
    and "parse_j1939_id (frame_arbitration_id f) = (pgn, sa, da, prio)"
  shows "frame_is_critical ids masks f \<longleftrightarrow> (da = None \<or> da = Some 0) \<and>
    (pgn \<in> set CRITICAL_J1939_PGNS \<or> pgn = J1939_REQUEST_PGN \<and>
       (\<forall>requested. j1939_requested_pgn (frame_data f) = Some requested \<longrightarrow> requested \<in> set CRITICAL_J1939_PGNS))"
proof -
  let ?arb = "frame_arbitration_id f"
  let ?e = "?arb div 33554432 mod 2" and ?d = "?arb div 16777216 mod 2"
    and ?pf = "?arb div 65536 mod 256" and ?ps = "?arb div 256 mod 256"
  have gw: "drop_bit 8 ?arb AND 0x3FFFF = ?e * 131072 + ?d * 65536 + ?pf * 256 + ?ps"
    by (rule pgn_field)
  have parsed: "if ?pf < 240 then pgn = ?e * 131072 + ?d * 65536 + ?pf * 256 \<and> da = Some ?ps
      else pgn = ?e * 131072 + ?d * 65536 + ?pf * 256 + ?ps \<and> da = None"
    using assms(6) by (auto simp: parse_arith Let_def split: if_splits)
  have eq: "drop_bit 8 ?arb AND 0x3FFFF = c \<longleftrightarrow> (da = None \<or> da = Some 0) \<and> pgn = c"
    if c: "c \<in> insert J1939_REQUEST_PGN (set CRITICAL_J1939_PGNS)" for c
  proof (cases "?pf < 240")
    case True
    then have "pgn = ?e * 131072 + ?d * 65536 + ?pf * 256" "da = Some ?ps" using parsed by simp_all
    moreover have "0 \<le> ?pf" "0 \<le> ?ps" "?ps < 256" by simp_all
    note split_off = pgn_with_destination [OF this(1) True this(2,3) c, of ?e ?d]
    ultimately show ?thesis unfolding gw by (intro destination_eq [OF split_off])
  next
    case False
    then have "pgn = ?e * 131072 + ?d * 65536 + ?pf * 256 + ?ps" "da = None" using parsed by simp_all
    then show ?thesis unfolding gw by blast
  qed
  have crit: "drop_bit 8 ?arb AND 0x3FFFF \<in> set CRITICAL_J1939_PGNS \<longleftrightarrow>
      (da = None \<or> da = Some 0) \<and> pgn \<in> set CRITICAL_J1939_PGNS"
    using eq by (metis insertI2)
  show ?thesis using assms(1-3,5) crit eq [of J1939_REQUEST_PGN]
    unfolding frame_is_critical_def Let_def
    by (auto split: option.split simp del: and_masks)
qed

text \<open>DM11 (clear all trouble codes) requested from all controllers.\<close>

definition clear_request_demo :: can_frame where
  "clear_request_demo = fd_frame_demo\<lparr>frame_arbitration_id := 0x18EAFFF9, frame_dlc := 3,
     frame_data := [0xD3, 0xFE, 0x00], frame_is_extended := True, frame_is_fd := False, frame_brs := False\<rparr>"

lemma clear_request_demo_fields:
  "frame_is_extended clear_request_demo" "frame_data clear_request_demo \<noteq> []"
  "frame_arbitration_id clear_request_demo = 0x18EAFFF9"
  by (simp_all add: clear_request_demo_def)

lemma clear_request_demo_pgn: "parse_j1939_id (frame_arbitration_id clear_request_demo) = (59904, 0xF9, Some 0xFF, 6)"
  by (simp add: clear_request_demo_fields parse_arith)

theorem j1939_critical_by_destination_witness:
  "frame_is_critical [0x18EAFFF9] [] clear_request_demo \<longleftrightarrow> (Some 0xFF = (None :: int option) \<or> Some 0xFF = Some (0 :: int)) \<and>
    (59904 \<in> set CRITICAL_J1939_PGNS \<or> 59904 = J1939_REQUEST_PGN \<and>
       (\<forall>requested. j1939_requested_pgn (frame_data clear_request_demo) = Some requested \<longrightarrow>
          requested \<in> set CRITICAL_J1939_PGNS))"
  by (rule j1939_critical_by_destination [OF clear_request_demo_fields(1,2) _ _ _ clear_request_demo_pgn])
    (simp_all add: clear_request_demo_fields drop_bit_eq_div ISOTP_29BIT_PF_def ISOTP_29BIT_FUNCTIONAL_PF_def)

section \<open>Read-only sessions\<close>

lemma read_only_service_harmless:
  "s \<in> set READ_ONLY_OBD_SERVICES \<Longrightarrow> s \<notin> set CRITICAL_UDS_SIDS"
  by (auto simp: READ_ONLY_OBD_SERVICES_def CRITICAL_UDS_SIDS_def)

lemma read_only_request_harmless:
  "r \<in> set READ_ONLY_J1939_REQUEST_PGNS \<Longrightarrow> r \<notin> set CRITICAL_J1939_PGNS"
  by (auto simp: READ_ONLY_J1939_REQUEST_PGNS_def CRITICAL_J1939_PGNS_def)

lemma violation_none_11bit:
  assumes "violation pol f now = None" "\<not> frame_is_extended f"
  shows "frame_data f \<noteq> [] \<and>
    (byte_at (frame_data f) 0 div 16 = 3 \<or>
     byte_at (frame_data f) 0 div 16 = 0 \<and> byte_at (frame_data f) 0 \<noteq> 0 \<and> 2 \<le> length (frame_data f) \<and>
       byte_at (frame_data f) 1 \<in> set READ_ONLY_OBD_SERVICES)"
proof -
  have "byte_at (frame_data f) 0 \<noteq> 0" if "1 \<le> byte_at (frame_data f) 0 AND 0x0F" using that by auto
  then show ?thesis using assms
    by (auto simp: violation_def Let_def not_less split: if_splits)
qed

lemma violation_none_29bit:
  assumes "violation pol f now = None" "frame_is_extended f"
  shows "frame_arbitration_id f div 16777216 mod 4 = 0 \<and>
    (frame_arbitration_id f div 65536 mod 256 \<in> {0xE3, 0xEC} \<or>
     frame_arbitration_id f div 65536 mod 256 = 0xEA \<and>
       (\<exists>requested \<in> set READ_ONLY_J1939_REQUEST_PGNS. j1939_requested_pgn (frame_data f) = Some requested))"
proof -
  have j: "j1939_violation f = None"
    using assms by (auto simp: violation_def Let_def split: if_splits)
  have m: "x AND 0x03 = x mod 4" for x :: int using and_mask_mod [of x 2] by simp
  show ?thesis using j unfolding j1939_violation_def Let_def drop_bit_eq_div m and_masks
    by (auto simp: j1939_requested_pgn_def not_less split: if_splits)
qed

lemma digit_zero: "x mod 4 = 0 \<Longrightarrow> x div 2 mod 2 = 0 \<and> x mod 2 = 0" for x :: int
  by presburger

lemma critical_29bit:
  assumes "frame_is_critical ids masks f" "frame_is_extended f"
    and "drop_bit 16 (frame_arbitration_id f) AND 0xFF \<notin> {ISOTP_29BIT_PF, ISOTP_29BIT_FUNCTIONAL_PF}"
  shows "drop_bit 8 (frame_arbitration_id f) AND 0x3FFFF \<in> set CRITICAL_J1939_PGNS \<or>
    drop_bit 8 (frame_arbitration_id f) AND 0x3FFFF = J1939_REQUEST_PGN \<and>
    (\<forall>r. j1939_requested_pgn (frame_data f) = Some r \<longrightarrow> r \<in> set CRITICAL_J1939_PGNS)"
  using assms unfolding frame_is_critical_def Let_def
  by (auto simp del: and_masks split: if_splits option.splits)

text \<open>C10. What a read-only session admits is never critical, whatever the whitelist: neither the diagnostic
  services and requests it lists nor the flow control and transport frames that go with them need the
  speed interlock or a confirmation.\<close>

theorem read_only_never_critical:
  assumes "violation pol f now = None"
  shows "\<not> frame_is_critical ids masks f"
proof (cases "frame_is_extended f")
  case False
  note v = violation_none_11bit [OF assms False]
  have "\<not> is_critical_sid (iso_tp_service_byte (frame_data f) (frame_is_fd f))"
  proof (cases "byte_at (frame_data f) 0 div 16 = 3")
    case True
    then show ?thesis by (auto simp: iso_tp_service_byte_def Let_def)
  next
    case False
    then have "iso_tp_service_byte (frame_data f) (frame_is_fd f) = Some (byte_at (frame_data f) 1)"
      using v by (auto simp: iso_tp_service_byte_def Let_def)
    then show ?thesis using v False read_only_service_harmless by auto
  qed
  then show ?thesis using False v by (simp add: frame_is_critical_def Let_def)
next
  case True
  let ?arb = "frame_arbitration_id f" and ?pf = "frame_arbitration_id f div 65536 mod 256"
  note v = violation_none_29bit [OF assms True]
  have d: "?arb div 33554432 mod 2 = 0 \<and> ?arb div 16777216 mod 2 = 0"
    using digit_zero [of "?arb div 16777216"] v zdiv_zmult2_eq [of 2 ?arb 16777216] by simp
  have pgn: "drop_bit 8 ?arb AND 0x3FFFF = ?pf * 256 + ?arb div 256 mod 256"
    unfolding pgn_field [of ?arb] using d by simp
  have pf: "drop_bit 16 ?arb AND 0xFF = ?pf" by (simp only: drop_bit_eq_div and_masks) simp
  have ps: "0 \<le> ?arb div 256 mod 256" "?arb div 256 mod 256 < 256" by simp_all
  have range: "?pf \<in> {0xE3, 0xEC, 0xEA}" using v by blast
  then have harmless: "?pf * 256 + ?arb div 256 mod 256 \<notin> set CRITICAL_J1939_PGNS"
    using ps by (auto simp: CRITICAL_J1939_PGNS_def)
  have request: "?pf * 256 + ?arb div 256 mod 256 = J1939_REQUEST_PGN \<Longrightarrow> ?pf = 0xEA"
    using range ps by (auto simp: J1939_REQUEST_PGN_def)
  show ?thesis
  proof
    assume crit: "frame_is_critical ids masks f"
    have "?pf \<notin> {ISOTP_29BIT_PF, ISOTP_29BIT_FUNCTIONAL_PF}"
      using range by (auto simp: ISOTP_29BIT_PF_def ISOTP_29BIT_FUNCTIONAL_PF_def)
    from critical_29bit [OF crit True, unfolded pf pgn, OF this]
    have "?pf * 256 + ?arb div 256 mod 256 = J1939_REQUEST_PGN"
      "\<forall>r. j1939_requested_pgn (frame_data f) = Some r \<longrightarrow> r \<in> set CRITICAL_J1939_PGNS"
      using harmless by blast+
    moreover from request [OF this(1)] have "\<exists>requested \<in> set READ_ONLY_J1939_REQUEST_PGNS.
        j1939_requested_pgn (frame_data f) = Some requested"
      using v by auto
    ultimately show False using read_only_request_harmless by blast
  qed
qed

definition read_pol_demo :: read_only_policy where
  "read_pol_demo = \<lparr>rp_expires_ns = 100, rp_reason = [], rp_j1939 = False\<rparr>"

definition pid_request_demo :: can_frame where
  "pid_request_demo = fd_frame_demo\<lparr>frame_arbitration_id := 0x7DF, frame_dlc := 8,
     frame_data := [2, 1, 0x0C, 0, 0, 0, 0, 0], frame_is_fd := False, frame_brs := False\<rparr>"

theorem read_only_never_critical_witness:
  "violation read_pol_demo pid_request_demo 5 = None \<and> \<not> frame_is_critical [0x7DF] [] pid_request_demo"
proof -
  have v: "violation read_pol_demo pid_request_demo 5 = None"
    by (simp add: violation_def Let_def read_pol_demo_def pid_request_demo_def fd_frame_demo_def OBD_FUNCTIONAL_ID_def
        READ_ONLY_OBD_SERVICES_def)
  show ?thesis using v read_only_never_critical [OF v] by blast
qed


end
