(* ===== verification/ReplaySpec.thy ===== *)
theory ReplaySpec
  imports ReplayFilter IsoTpSpec GatewayCritical
begin

text \<open>
  What the replay filter guarantees: it blocks whatever the transmit gateway would treat as critical, and
  no recording that passed it makes a controller on a diagnostic identifier assemble a prohibited request.
\<close>

section \<open>One frame\<close>

abbreviation passes :: "replay_filter \<Rightarrow> can_frame \<Rightarrow> bool" where
  "passes s f \<equiv> fst (snd (is_frame_safe s f))"

definition same_policy :: "replay_filter \<Rightarrow> replay_filter \<Rightarrow> bool" where
  "same_policy s s' \<longleftrightarrow> rf_block_address_claim s' = rf_block_address_claim s \<and>
     rf_block_diagnostic_write s' = rf_block_diagnostic_write s \<and>
     rf_block_actuator_routines s' = rf_block_actuator_routines s \<and>
     rf_block_transport_tunneling s' = rf_block_transport_tunneling s \<and>
     rf_custom_blocked_ids s' = rf_custom_blocked_ids s"

lemma same_policy_trans: "same_policy a b \<Longrightarrow> same_policy b c \<Longrightarrow> same_policy a c"
  by (simp add: same_policy_def)

lemma policy_cf_fc: "same_policy s (fst (check_iso_tp_cf_fc s f b))"
  by (simp add: check_iso_tp_cf_fc_def Let_def same_policy_def split: option.split)

lemma policy_register: "same_policy s (register_first_frame s f sid)"
  by (simp add: register_first_frame_def Let_def same_policy_def)

lemma policy_diagnostic: "same_policy s (fst (check_diagnostic s f p t))"
proof -
  obtain s1 safe reason where c: "check_iso_tp_cf_fc s f True = (s1, safe, reason)" by (metis prod.collapse)
  have "same_policy s s1" using policy_cf_fc [of s f True] by (simp add: c)
  then show ?thesis
    using policy_register same_policy_trans
    by (simp add: check_diagnostic_def c Let_def split: option.split)
qed

lemma policy_safe: "same_policy s (fst (is_frame_safe s f))"
proof -
  define t where "t = s\<lparr>rf_evaluated := rf_evaluated s + 1\<rparr>"
  have st: "same_policy s t" by (simp add: t_def same_policy_def)
  then have d: "same_policy s (fst (check_diagnostic t f p e))" for p e
    using policy_diagnostic same_policy_trans by blast
  show ?thesis unfolding is_frame_safe_def Let_def t_def [symmetric] using st d by simp
qed

lemma pci_nibble: "drop_bit 4 (byte_at d 0) AND 0x0F = byte_at d 0 div 16"
proof -
  have "byte_at d 0 div 16 < 16" using uint_byte_bounds(2) [of "d ! 0"] by linarith
  then show ?thesis by (simp add: drop_bit_eq_div mod_pos_pos_trivial pos_imp_zdiv_nonneg_iff)
qed

text \<open>The identifiers of diagnostic requests and responses.\<close>

definition diagnostic_id :: "bool \<Rightarrow> int \<Rightarrow> bool" where
  "diagnostic_id extended arb \<longleftrightarrow>
     (if extended then is_diagnostic_29bit arb else arb \<in> set DIAGNOSTIC_11BIT_IDS)"

lemma passes_diagnostic:
  assumes "passes s f" "rf_block_diagnostic_write s" "diagnostic_id (frame_is_extended f) (frame_arbitration_id f)"
  shows "2 \<le> length (frame_data f)"
    and "extract_uds_sid f = Some sid \<Longrightarrow> sid \<noteq> UNKNOWN_SID \<and> sid \<notin> set PROHIBITED_UDS_SIDS"
    and "rf_block_transport_tunneling s \<Longrightarrow> byte_at (frame_data f) 0 div 16 \<noteq> 2"
proof -
  let ?s = "s\<lparr>rf_evaluated := rf_evaluated s + 1\<rparr>"
  obtain p t where d: "fst (snd (check_diagnostic ?s f p t))"
    using assms unfolding is_frame_safe_def Let_def diagnostic_id_def
    by (auto split: if_splits)
  obtain s1 safe reason where c: "check_iso_tp_cf_fc ?s f True = (s1, safe, reason)" by (metis prod.collapse)
  have safe: safe and len: "2 \<le> length (frame_data f)"
    using d [unfolded check_diagnostic_def c prod.case] by (auto split: if_splits)
  show "2 \<le> length (frame_data f)" by (rule len)
  show "sid \<noteq> UNKNOWN_SID \<and> sid \<notin> set PROHIBITED_UDS_SIDS" if "extract_uds_sid f = Some sid"
    using d [unfolded check_diagnostic_def c prod.case] safe len that
    by (auto simp: Let_def prohibited_sid_def split: if_splits)
  show "byte_at (frame_data f) 0 div 16 \<noteq> 2" if "rf_block_transport_tunneling s"
    using c safe that len unfolding check_iso_tp_cf_fc_def Let_def pci_nibble by (auto split: if_splits)
qed

section \<open>The filter and the gateway\<close>

lemma pf_readings:
  "drop_bit 8 (drop_bit 8 arb AND 0x3FFFF) AND 0xFF = drop_bit 16 arb AND 0xFF"
  "drop_bit 8 (drop_bit 8 arb AND 0x1FFFF) AND 0xFF = drop_bit 16 arb AND 0xFF" for arb :: int
proof -
  have m: "drop_bit 8 0x3FFFF AND 0xFF = (0xFF :: int)" "drop_bit 8 0x1FFFF AND 0xFF = (0xFF :: int)"
    by code_simp+
  have "drop_bit 8 (drop_bit 8 arb) = drop_bit 16 arb" by (simp add: drop_bit_drop_bit)
  then show "drop_bit 8 (drop_bit 8 arb AND 0x3FFFF) AND 0xFF = drop_bit 16 arb AND 0xFF"
    "drop_bit 8 (drop_bit 8 arb AND 0x1FFFF) AND 0xFF = drop_bit 16 arb AND 0xFF"
    by (simp_all only: drop_bit_and and.assoc m)
qed

lemma any_readingI: "drop_bit 8 arb AND 0x3FFFF \<in> set table \<Longrightarrow> any_reading arb table"
  by (simp add: any_reading_def pgn_readings_def Let_def)

text \<open>A first frame the gateway reads at the wrong place.\<close>

definition misread_first_frame :: "can_frame \<Rightarrow> bool" where
  "misread_first_frame f \<longleftrightarrow>
     (let d = frame_data f in byte_at d 0 div 16 = 1 \<and> byte_at d 1 = 0 \<and>
       \<not> (frame_is_fd f \<and> byte_at d 0 = 0x10 \<and> 6 \<le> length d))"

text \<open>The service byte the filter reads and the one the gateway reads.\<close>

lemma same_service_byte:
  assumes "iso_tp_service_byte (frame_data f) (frame_is_fd f) = Some sid" "2 \<le> length (frame_data f)"
    and "\<not> misread_first_frame f"
  shows "extract_uds_sid f \<in> {Some sid, Some UNKNOWN_SID}"
  using assms unfolding iso_tp_service_byte_def extract_uds_sid_def misread_first_frame_def Let_def pci_nibble
  by (auto split: if_splits)

lemma unread_service_byte:
  assumes "iso_tp_service_byte (frame_data f) (frame_is_fd f) = None" "2 \<le> length (frame_data f)"
    and "byte_at (frame_data f) 0 div 16 \<in> {0, 1}" "\<not> misread_first_frame f"
  shows "extract_uds_sid f = Some UNKNOWN_SID"
  using assms unfolding iso_tp_service_byte_def extract_uds_sid_def misread_first_frame_def Let_def pci_nibble
  by (auto split: if_splits)

lemma critical_on_isotp:
  assumes "frame_is_critical ids masks f"
    and "frame_is_extended f \<Longrightarrow> drop_bit 16 (frame_arbitration_id f) AND 0xFF \<in> {ISOTP_29BIT_PF, ISOTP_29BIT_FUNCTIONAL_PF}"
  shows "(\<exists>sid \<in> set CRITICAL_UDS_SIDS. iso_tp_service_byte (frame_data f) (frame_is_fd f) = Some sid) \<or>
    iso_tp_service_byte (frame_data f) (frame_is_fd f) = None \<and> byte_at (frame_data f) 0 div 16 \<in> {0, 1}"
  using assms unfolding frame_is_critical_def Let_def
  by (auto simp: is_critical_sid_def simp del: and_masks split: if_splits option.splits)

lemma diagnostic_pf: "is_diagnostic_29bit arb \<longleftrightarrow> drop_bit 16 arb AND 0xFF \<in> {0xDA, 0xDB}"
  unfolding is_diagnostic_29bit_def Let_def pf_readings by blast

text \<open>C6. The replay filter is at least as strict as the transmit gateway: with its default policy, whatever the
  ledger holds and whichever identifiers the gateway lists, every frame that the gateway's classification
  finds critical on a 29-bit identifier or on a standard diagnostic identifier is blocked, except first
  frames whose service byte the gateway reads at the wrong place.\<close>

theorem replay_covers_gateway:
  assumes "rf_block_address_claim s" "rf_block_diagnostic_write s" "rf_block_actuator_routines s"
    and "frame_is_extended f \<or> frame_arbitration_id f \<in> set DIAGNOSTIC_11BIT_IDS"
    and "frame_is_critical ids masks f" "\<not> misread_first_frame f"
  shows "\<not> passes s f"
proof
  assume pass: "passes s f"
  let ?arb = "frame_arbitration_id f"
  show False
  proof (cases "diagnostic_id (frame_is_extended f) ?arb")
    case True
    note ok = passes_diagnostic [OF pass assms(2) True]
    have "(\<exists>sid \<in> set CRITICAL_UDS_SIDS. iso_tp_service_byte (frame_data f) (frame_is_fd f) = Some sid) \<or>
        iso_tp_service_byte (frame_data f) (frame_is_fd f) = None \<and> byte_at (frame_data f) 0 div 16 \<in> {0, 1}"
      by (rule critical_on_isotp [OF assms(5)])
        (use True in \<open>simp add: diagnostic_id_def diagnostic_pf ISOTP_29BIT_PF_def ISOTP_29BIT_FUNCTIONAL_PF_def\<close>)
    then show False
    proof (elim disjE bexE conjE)
      fix sid assume "sid \<in> set CRITICAL_UDS_SIDS" "iso_tp_service_byte (frame_data f) (frame_is_fd f) = Some sid"
      then show False
        using ok(2) [of sid] ok(2) [of UNKNOWN_SID] same_service_byte [OF _ ok(1) assms(6)]
        by (auto simp: PROHIBITED_UDS_SIDS_def)
    next
      assume "iso_tp_service_byte (frame_data f) (frame_is_fd f) = None" "byte_at (frame_data f) 0 div 16 \<in> {0, 1}"
      then show False using unread_service_byte [OF _ ok(1) _ assms(6)] ok(2) by blast
    qed
  next
    case False
    then have ext: "frame_is_extended f" using assms(4) by (auto simp: diagnostic_id_def split: if_splits)
    then have "drop_bit 16 ?arb AND 0xFF \<notin> {ISOTP_29BIT_PF, ISOTP_29BIT_FUNCTIONAL_PF}"
      using False by (simp add: diagnostic_id_def diagnostic_pf ISOTP_29BIT_PF_def ISOTP_29BIT_FUNCTIONAL_PF_def del: and_masks)
    from critical_29bit [OF assms(5) ext this]
    have "any_reading ?arb ADDRESS_CLAIM_PGNS \<or> any_reading ?arb DIAGNOSTIC_WRITE_PGNS \<or> any_reading ?arb ACTUATION_PGNS"
      using any_readingI [of ?arb ADDRESS_CLAIM_PGNS] any_readingI [of ?arb DIAGNOSTIC_WRITE_PGNS]
        any_readingI [of ?arb ACTUATION_PGNS]
      by (auto simp: CRITICAL_J1939_PGNS_def J1939_REQUEST_PGN_def ADDRESS_CLAIM_PGNS_def DIAGNOSTIC_WRITE_PGNS_def
          ACTUATION_PGNS_def simp del: and_masks)
    then show False using pass assms(1-3) ext
      unfolding is_frame_safe_def Let_def by (auto split: if_splits)
  qed
qed

section \<open>The filter and a receiving controller\<close>

















lemma filtered_step:
  "filter_frame s f = (s1, out) \<Longrightarrow> same_policy s s1 \<and> out = (if passes s f then Some f else None)"
proof -
  assume f: "filter_frame s f = (s1, out)"
  obtain s2 safe reason where v: "is_frame_safe s f = (s2, safe, reason)" by (metis prod.collapse)
  have "same_policy s s2" using policy_safe [of s f] by (simp add: v)
  then show ?thesis using f by (auto simp: filter_frame_def v same_policy_def split: if_splits)
qed


section \<open>A request that gets through\<close>

text \<open>The filter took the first frame of the transfer for a request of service 0.\<close>

definition fooled :: "replay_filter \<Rightarrow> int \<Rightarrow> bool" where
  "fooled s arb \<longleftrightarrow> rf_block_diagnostic_write s \<and> \<not> rf_block_transport_tunneling s \<and>
     arb \<notin> set (rf_custom_blocked_ids s) \<and> (\<forall>sid n. dget (rf_pending s) arb = Some (sid, n) \<longrightarrow> sid = 0)"

lemma service_zero: "\<not> prohibited_sid s 0"
  by (simp add: prohibited_sid_def UNKNOWN_SID_def PROHIBITED_UDS_SIDS_def CRITICAL_UDS_SIDS_def
      REPLAY_ONLY_PROHIBITED_UDS_SIDS_def ACTUATOR_UDS_SIDS_def)

lemma consecutive_passes:
  assumes "fooled s arb" "frame_arbitration_id f = arb" "\<not> frame_is_extended f"
    and "arb \<in> set DIAGNOSTIC_11BIT_IDS" "arb \<notin> set ECU_RESPONSE_11BIT_IDS"
    and "2 \<le> length (frame_data f)" "byte_at (frame_data f) 0 div 16 = 2"
  shows "passes s f" "fooled (fst (filter_frame s f)) arb"
proof -
  let ?s = "s\<lparr>rf_evaluated := rf_evaluated s + 1\<rparr>"
  have ne: "frame_data f \<noteq> []" using assms(6) by auto
  have sid: "extract_uds_sid f = None"
    using assms(6) unfolding extract_uds_sid_def Let_def pci_nibble assms(7) by simp
  obtain s1 where c: "check_iso_tp_cf_fc ?s f True = (s1, True, [])" "fooled s1 arb"
  proof (cases "dget (rf_pending s) arb")
    case None
    show thesis
      by (rule that [of ?s]) (use None assms ne in \<open>simp_all add: check_iso_tp_cf_fc_def Let_def pci_nibble fooled_def\<close>)
  next
    case (Some entry)
    then obtain n where e: "dget (rf_pending s) arb = Some (0, n)" using assms(1) by (cases entry) (auto simp: fooled_def)
    let ?carried = "int (length (frame_data f)) - 1"
    let ?s1 = "if n - ?carried \<le> 0 then ?s\<lparr>rf_pending := dpop arb (rf_pending ?s)\<rparr>
        else ?s\<lparr>rf_pending := dset arb (0, n - ?carried) (rf_pending ?s)\<rparr>"
    show thesis
    proof (rule that [of ?s1])
      show "check_iso_tp_cf_fc ?s f True = (?s1, True, [])"
        using e assms(1,2) ne service_zero unfolding check_iso_tp_cf_fc_def Let_def pci_nibble assms(7)
        by (simp add: fooled_def)
      show "fooled ?s1 arb" using assms(1) by (auto simp: fooled_def dict.lookup_store dict.lookup_discard)
    qed
  qed
  have v: "is_frame_safe s f = (s1, True, [])"
    using assms c(1) sid by (simp add: is_frame_safe_def Let_def check_diagnostic_def fooled_def)
  then show "passes s f" "fooled (fst (filter_frame s f)) arb"
    using c(2) by (simp_all add: filter_frame_def fooled_def)
qed

lemma consecutive_all_pass:
  assumes "fooled s arb" "arb \<in> set DIAGNOSTIC_11BIT_IDS" "arb \<notin> set ECU_RESPONSE_11BIT_IDS"
    and "\<forall>f \<in> set fs. frame_arbitration_id f = arb \<and> \<not> frame_is_extended f \<and> 2 \<le> length (frame_data f) \<and>
      byte_at (frame_data f) 0 div 16 = 2"
  shows "snd (filter_sequence s fs) = fs"
  using assms(1,4)
proof (induction fs arbitrary: s)
  case (Cons f fs)
  obtain s1 out where f: "filter_frame s f = (s1, out)" by (metis prod.collapse)
  note p = consecutive_passes [OF Cons.prems(1) _ _ assms(2,3), of f]
  have "out = Some f" "fooled s1 arb"
    using p filtered_step [OF f] Cons.prems(2) f by auto
  moreover then have "snd (filter_sequence s1 fs) = fs" using Cons by auto
  ultimately show ?case by (simp add: f split: prod.split) (metis snd_conv)
qed simp

lemma escape_first_passes:
  assumes "rf_block_diagnostic_write s" "\<not> rf_block_transport_tunneling s" "arb \<notin> set (rf_custom_blocked_ids s)"
    and "frame_arbitration_id f = arb" "\<not> frame_is_extended f"
    and "arb \<in> set DIAGNOSTIC_11BIT_IDS" "arb \<notin> set ECU_RESPONSE_11BIT_IDS"
    and "\<not> frame_is_fd f" "frame_data f = 0x10 # 0 # 0 # rest"
  shows "passes s f" "fooled (fst (filter_frame s f)) arb"
proof -
  let ?s = "s\<lparr>rf_evaluated := rf_evaluated s + 1\<rparr>"
  have pci: "byte_at (frame_data f) 0 div 16 = 1" "byte_at (frame_data f) 0 \<noteq> 0" "2 \<le> length (frame_data f)"
    using assms(9) by simp_all
  have sid: "extract_uds_sid f = Some 0"
    unfolding extract_uds_sid_def Let_def pci_nibble pci(1) using assms(8,9) by simp
  have c: "check_iso_tp_cf_fc ?s f True = (?s, True, [])"
    unfolding check_iso_tp_cf_fc_def Let_def pci_nibble pci(1) by simp
  have v: "is_frame_safe s f = (register_first_frame ?s f 0, True, [])"
    using assms(1-7) sid pci(3) service_zero
    unfolding is_frame_safe_def Let_def check_diagnostic_def c prod.case pci_nibble pci(1)
    by (simp add: c)
  moreover have "fooled (register_first_frame ?s f 0) arb"
    using assms(1-4) by (auto simp: fooled_def register_first_frame_def Let_def dict.lookup_store)
  ultimately show "passes s f" "fooled (fst (filter_frame s f)) arb"
    by (simp_all add: filter_frame_def fooled_def)
qed

lemma cf_pdu_start:
  assumes "q \<in> set (cf_pdus 7 i rest)"
  shows "2 \<le> length q \<and> byte_at q 0 div 16 = 2"
proof -
  obtain k where k: "k < (length rest + 6) div 7" "q = cf_pci (int ((i + k) mod 16)) @ take 7 (drop (k * 7) rest)"
    using assms by (auto simp: cf_pdus_def add.commute)
  define n where "n = int ((i + k) mod 16)"
  have n: "0 \<le> n" "n < 16" by (simp_all add: n_def)
  have "k * 7 < length rest" using k(1) by linarith
  then have "take 7 (drop (k * 7) rest) \<noteq> []" by simp
  then have len: "1 \<le> length (take 7 (drop (k * 7) rest))" by (metis One_nat_def Suc_leI length_greater_0_conv)
  have head: "q = word_of_int (32 + n) # take 7 (drop (k * 7) rest)"
    using k(2) cf_pci_byte [OF n] by (simp add: n_def)
  have "byte_at q 0 = 32 + n" unfolding head nth_Cons_0 by (rule uint_of_int_byte) (use n in linarith)+
  then show ?thesis using cf_nibble(1) [OF n] len head by simp
qed

text \<open>With transport tunnelling allowed, the longest classic request passes whatever its service: the frames
  the engine itself emits for 4096 bytes on an 11-bit request identifier are all passed on, since the filter
  takes a length byte of the escaped first frame for the service.\<close>

theorem longest_request_passes:
  assumes "rf_block_diagnostic_write s" "\<not> rf_block_transport_tunneling s" "it_tx_id t \<notin> set (rf_custom_blocked_ids s)"
    and "isotp_wf t" "isotp_ids_ok t" "it_addressing_mode t = NORMAL"
    and "it_tx_id t \<in> set DIAGNOSTIC_11BIT_IDS" "it_tx_id t \<notin> set ECU_RESPONSE_11BIT_IDS"
    and "length d = 4096"
  shows "\<exists>frames. segment_message t d False brs_arg ns = Inr frames \<and> snd (filter_sequence s frames) = frames"
proof -
  have off: "pci_offset t = 0" "wrap_npci t q = q" for q
    using assms(4,6) by (simp_all add: pci_offset_def wrap_npci_def isotp_wf_def)
  have ne: "d \<noteq> []" using assms(9) by auto
  obtain frames where f: "segment_message t d False brs_arg ns = Inr frames" "list_all2 (carries t False) (pdus 0 False d) frames"
    using segment_pdus [OF assms(4,5) ne, of False brs_arg ns] assms(9) off by (auto simp: MAX_UDS_PAYLOAD_CLASSIC_def)
  have "int 4096 = 4096" by simp
  have head: "ff_head 4096 = [0x10, 0x00] @ rev (le_bytes 4 4096)" by (simp add: ff_head_def)
  have le: "rev (le_bytes 4 4096) = [0, 0, 16, 0]" by code_simp
  have pd: "pdus 0 False d = ([0x10, 0, 0, 0, 16, 0] @ take 2 d) # cf_pdus 7 1 (drop 2 d)"
    using assms(9) ne head le by (simp add: pdus_def Let_def can_dl_def)
  obtain g gs where g: "frames = g # gs" "carries t False ([0x10, 0, 0, 0, 16, 0] @ take 2 d) g"
      "list_all2 (carries t False) (cf_pdus 7 1 (drop 2 d)) gs"
    using f(2) unfolding pd by (auto simp: list_all2_Cons1)
  have std: "\<not> it_tx_id t > 0x7FF" using assms(7) by (auto simp: DIAGNOSTIC_11BIT_IDS_def)
  obtain rest where gd: "frame_data g = 0x10 # 0 # 0 # rest" "frame_arbitration_id g = it_tx_id t"
      "\<not> frame_is_extended g" "\<not> frame_is_fd g"
    using g(2) std off by (auto simp: carries_def)
  note first = escape_first_passes [OF assms(1-3) gd(2,3) assms(7,8) gd(4,1)]
  have cfs: "\<forall>h \<in> set gs. frame_arbitration_id h = it_tx_id t \<and> \<not> frame_is_extended h \<and> 2 \<le> length (frame_data h) \<and>
      byte_at (frame_data h) 0 div 16 = 2"
  proof
    fix h assume "h \<in> set gs"
    then obtain q where q: "q \<in> set (cf_pdus 7 1 (drop 2 d))" "carries t False q h"
      using g(3) by (metis in_set_conv_nth list_all2_conv_all_nth)
    note c = cf_pdu_start [OF q(1)]
    obtain pad where "frame_data h = q @ pad" using q(2) off by (auto simp: carries_def)
    then show "frame_arbitration_id h = it_tx_id t \<and> \<not> frame_is_extended h \<and> 2 \<le> length (frame_data h) \<and>
        byte_at (frame_data h) 0 div 16 = 2"
      using q(2) c std by (auto simp: carries_def nth_append)
  qed
  obtain s1 out where s1: "filter_frame s g = (s1, out)" by (metis prod.collapse)
  have "out = Some g" "fooled s1 (it_tx_id t)" using first filtered_step [OF s1] s1 by auto
  moreover from this(2) have "snd (filter_sequence s1 gs) = gs" by (rule consecutive_all_pass [OF _ assms(7,8) cfs])
  ultimately have "snd (filter_sequence s frames) = frames"
    by (simp add: g(1) s1 split: prod.split) (metis snd_conv)
  then show ?thesis using f(1) by blast
qed

section \<open>Examples\<close>

definition replay_demo :: replay_filter where
  "replay_demo = replay_filter_init True True True True []"

text \<open>ECUReset on 0x7E0.\<close>

definition reset_demo :: can_frame where
  "reset_demo = fd_frame_demo\<lparr>frame_arbitration_id := 0x7E0, frame_dlc := 8,
     frame_data := [2, 0x11, 1, 0, 0, 0, 0, 0], frame_is_fd := False, frame_brs := False\<rparr>"

theorem replay_covers_gateway_witness:
  "frame_is_critical [0x7E0] [] reset_demo \<and> \<not> passes replay_demo reset_demo"
proof -
  have c: "frame_is_critical [0x7E0] [] reset_demo"
    by (simp add: reset_demo_def fd_frame_demo_def frame_is_critical_def id_allowed_def iso_tp_service_byte_def
        is_critical_sid_def CRITICAL_UDS_SIDS_def)
  have "\<not> passes replay_demo reset_demo"
    by (rule replay_covers_gateway [OF _ _ _ _ c])
      (simp_all add: replay_demo_def replay_filter_init_def reset_demo_def misread_first_frame_def
        DIAGNOSTIC_11BIT_IDS_def)
  then show ?thesis using c by blast
qed






text \<open>RequestDownload of 4096 bytes, with tunnelling allowed.\<close>

theorem longest_request_passes_witness:
  "\<exists>frames. segment_message it_tester (0x34 # replicate 4095 0) False None 5 = Inr frames \<and>
    snd (filter_sequence (replay_filter_init True True True False []) frames) = frames"
  by (rule longest_request_passes [OF _ _ _ it_demo_ok(1,2)])
    (simp_all add: replay_filter_init_def it_tester_def DIAGNOSTIC_11BIT_IDS_def ECU_RESPONSE_11BIT_IDS_def)

end
