(* ===== verification/GatewayRun.thy ===== *)
theory GatewayRun
  imports GatewaySpec
begin

text \<open>
  Sessions of the transmit gateway: any number of calls in flight, each between its admission and its
  dispatch, while the emergency stop, the speed feed, the link observers and the operator act in any
  order. What holds in every session: a confirmation token authorises one frame, and no more frames
  leave in a second than the envelope allows.
\<close>

section \<open>What one step does to the rate state and the replay store\<close>

text \<open>\<open>advanced now g g'\<close>: stamps leave a window only when they are a window old, new ones carry new
  numbers, the envelope is not overfilled, and the replay store stays.\<close>

definition fresh_in :: "nat \<Rightarrow> nat \<Rightarrow> stamp \<Rightarrow> bool" where
  "fresh_in lo hi s \<longleftrightarrow> lo < snd (snd s) \<and> snd (snd s) \<le> hi"

definition expired_at :: "int \<Rightarrow> stamp \<Rightarrow> bool" where
  "expired_at now s \<longleftrightarrow> now - fst s \<ge> RATE_LIMIT_WINDOW_NS"

definition advanced :: "int \<Rightarrow> gateway \<Rightarrow> gateway \<Rightarrow> bool" where
  "advanced now g g' \<longleftrightarrow>
     gw_consumed g' = gw_consumed g \<and> gw_stamp_seq g \<le> gw_stamp_seq g' \<and>
     (\<forall>s \<in> set (gw_total_stamps g). s \<in> set (gw_total_stamps g') \<or> expired_at now s) \<and>
     (\<forall>s \<in> set (gw_total_stamps g'). s \<in> set (gw_total_stamps g) \<or> fresh_in (gw_stamp_seq g) (gw_stamp_seq g') s) \<and>
     (\<forall>s \<in> set (gw_tx_stamps g'). s \<in> set (gw_tx_stamps g) \<or> fresh_in (gw_stamp_seq g) (gw_stamp_seq g') s) \<and>
     (length (gw_total_stamps g) \<le> MAX_TOTAL_TX_PER_SEC \<longrightarrow> length (gw_total_stamps g') \<le> MAX_TOTAL_TX_PER_SEC) \<and>
     (budgets_ok g \<longrightarrow> budgets_ok g') \<and> (speed_ok g \<longrightarrow> speed_ok g')"

lemma advanced_refl [simp]: "advanced now g g"
  by (simp add: advanced_def)

lemma advanced_stamps: "advanced now g g' \<Longrightarrow> stamps_ok g \<Longrightarrow> stamps_ok g'"
proof -
  assume a: "advanced now g g'" and st: "stamps_ok g"
  have "snd (snd s) \<le> gw_stamp_seq g'" if "s \<in> set (gw_tx_stamps g') \<union> set (gw_total_stamps g')" for s
  proof -
    have "s \<in> set (gw_tx_stamps g) \<union> set (gw_total_stamps g) \<or> fresh_in (gw_stamp_seq g) (gw_stamp_seq g') s"
      using a that unfolding advanced_def by blast
    then show ?thesis using st a unfolding stamps_ok_def advanced_def fresh_in_def by (meson le_trans)
  qed
  then show ?thesis unfolding stamps_ok_def by blast
qed

lemma drop_old_keeps: "s \<in> set xs \<Longrightarrow> s \<in> set (drop_old now xs) \<or> expired_at now s"
  unfolding drop_old_def expired_at_def by (induction xs) auto

lemma drop_old_length: "length (drop_old now xs) \<le> length xs"
  by (simp add: drop_old_def length_dropWhile_le)

text \<open>The fields the rate state consists of are untouched.\<close>

definition quiet :: "gateway \<Rightarrow> gateway \<Rightarrow> bool" where
  "quiet g g' \<longleftrightarrow> gw_consumed g' = gw_consumed g \<and> gw_stamp_seq g' = gw_stamp_seq g \<and>
     gw_total_stamps g' = gw_total_stamps g \<and> set (gw_tx_stamps g') \<subseteq> set (gw_tx_stamps g) \<and>
     gw_budgets g' = gw_budgets g \<and> (speed_ok g \<longrightarrow> speed_ok g')"

lemma quiet_refl [simp]: "quiet g g"
  by (simp add: quiet_def)

lemma quiet_advanced: "quiet g g' \<Longrightarrow> advanced now g g'"
  by (auto simp: quiet_def advanced_def budgets_ok_def)

lemma quiet_trans: "quiet g1 g2 \<Longrightarrow> quiet g2 g3 \<Longrightarrow> quiet g1 g3"
  by (auto simp: quiet_def)

lemma speed_ok_cong:
  "gw_physical_speed g' = gw_physical_speed g \<Longrightarrow> gw_last_speed_ns g' = gw_last_speed_ns g \<Longrightarrow>
   speed_ok g' = speed_ok g"
  by (simp add: speed_ok_def)

lemma quiet_miss: "quiet g (count_miss g now)"
proof -
  have "speed_ok (count_miss g now) = speed_ok g"
    by (rule speed_ok_cong) (simp_all add: count_miss_def decay_whitelist_miss_streak_def Let_def)
  then show ?thesis
    by (simp add: quiet_def) (simp add: count_miss_def decay_whitelist_miss_streak_def Let_def)
qed

lemma quiet_whitelist: "quiet g (fst (fst (stage_whitelist (g, estops) f now)))"
  by (simp add: stage_whitelist_def Let_def quiet_miss)

lemma speed_state [simp]: "fst (fst (stage_speed fmt (g, estops) critical now)) = g"
  by (simp add: stage_speed_def split: option.split)

lemma budgets_ok_dset:
  "budgets_ok g \<Longrightarrow> tb_tokens b \<le> of_int (tb_capacity b) \<Longrightarrow> budgets_ok (g\<lparr>gw_budgets := dset c b (gw_budgets g)\<rparr>)"
  by (auto simp: budgets_ok_def dict.lookup_store)

lemma budgets_ok_cong: "gw_budgets g' = gw_budgets g \<Longrightarrow> budgets_ok g' = budgets_ok g"
  by (simp add: budgets_ok_def)

text \<open>One step on the windows: each is kept or pruned, then extended by fresh stamps.\<close>

definition kept :: "int \<Rightarrow> stamp list \<Rightarrow> stamp list \<Rightarrow> bool" where
  "kept now xs xs' \<longleftrightarrow> xs' = xs \<or> xs' = drop_old now xs"

lemma keptD:
  assumes "kept now xs xs'"
  shows "s \<in> set xs \<Longrightarrow> s \<in> set xs' \<or> expired_at now s" "s \<in> set xs' \<Longrightarrow> s \<in> set xs"
    "length xs' \<le> length xs"
  using assms drop_old_keeps [of s xs now] drop_old_subset [of s now xs] drop_old_length [of now xs]
  unfolding kept_def by auto

lemma advancedI:
  assumes "gw_consumed g' = gw_consumed g" "gw_stamp_seq g \<le> gw_stamp_seq g'"
    and tot: "kept now (gw_total_stamps g) total0" "gw_total_stamps g' = total0 @ new_total"
    and tx: "kept now (gw_tx_stamps g) tx0" "gw_tx_stamps g' = tx0 @ new_tx"
    and new: "\<And>s. s \<in> set new_total \<union> set new_tx \<Longrightarrow> fresh_in (gw_stamp_seq g) (gw_stamp_seq g') s"
    and len: "new_total = [] \<or> length total0 + length new_total \<le> MAX_TOTAL_TX_PER_SEC"
    and "budgets_ok g \<Longrightarrow> budgets_ok g'" "speed_ok g \<Longrightarrow> speed_ok g'"
  shows "advanced now g g'"
  unfolding advanced_def
proof (intro conjI ballI impI)
  show "s \<in> set (gw_total_stamps g') \<or> expired_at now s" if "s \<in> set (gw_total_stamps g)" for s
    using keptD(1) [OF tot(1) that] tot(2) by auto
  show "s \<in> set (gw_total_stamps g) \<or> fresh_in (gw_stamp_seq g) (gw_stamp_seq g') s"
    if "s \<in> set (gw_total_stamps g')" for s
    using that keptD(2) [OF tot(1)] tot(2) new by (metis Un_iff set_append)
  show "s \<in> set (gw_tx_stamps g) \<or> fresh_in (gw_stamp_seq g) (gw_stamp_seq g') s"
    if "s \<in> set (gw_tx_stamps g')" for s
    using that keptD(2) [OF tx(1)] tx(2) new by (metis Un_iff set_append)
  show "length (gw_total_stamps g') \<le> MAX_TOTAL_TX_PER_SEC"
    if "length (gw_total_stamps g) \<le> MAX_TOTAL_TX_PER_SEC"
    using that keptD(3) [OF tot(1)] len tot(2) by auto
qed (use assms in simp_all)

lemma kept_simps [simp]: "kept now xs xs" "kept now xs (drop_old now xs)"
  by (simp_all add: kept_def)

lemma advanced_envelope: "advanced (tc_now tc) g (fst (fst (stage_envelope (g, estops) rq tc)))"
proof (cases "\<exists>s st. stage_envelope (g, estops) rq tc = (s, Inr st)")
  case True
  then obtain s st where e: "stage_envelope (g, estops) rq tc = (s, Inr st)" by blast
  then have s: "fst (fst (stage_envelope (g, estops) rq tc)) = reserve_total g tc"
      "length (drop_old (tc_now tc) (gw_total_stamps g)) < MAX_TOTAL_TX_PER_SEC"
    using e [unfolded envelope_ok] by (simp_all add: envelope_room_def)
  show ?thesis unfolding s(1)
    by (rule advancedI [where ?total0.0 = "drop_old (tc_now tc) (gw_total_stamps g)"
          and new_total = "[(tc_now tc, tc_thread tc, gw_stamp_seq g + 1)]"
          and ?tx0.0 = "gw_tx_stamps g" and new_tx = "[]"])
       (use s(2) in \<open>simp_all add: reserve_total_def fresh_in_def budgets_ok_def speed_ok_def\<close>)
next
  case False
  then have no_room: "\<not> envelope_room g rq (tc_now tc)" by (simp add: envelope_ok)
  have "fst (fst (stage_envelope (g, estops) rq tc)) = g \<or>
      (\<exists>k. fst (fst (stage_envelope (g, estops) rq tc)) =
        g\<lparr>gw_total_stamps := drop_old (tc_now tc) (gw_total_stamps g), gw_total_streak := k\<rparr>)"
  proof (cases "dget (gw_budgets g) (rq_category rq) = None")
    case True
    then show ?thesis by (simp add: stage_envelope_def)
  next
    case False
    then obtain b where known: "dget (gw_budgets g) (rq_category rq) = Some b" by blast
    show ?thesis
    proof (cases "length (drop_old (tc_now tc) (gw_total_stamps g)) \<ge> MAX_TOTAL_TX_PER_SEC")
      case True
      then show ?thesis using known
        by (intro disjI2 exI [of _ "gw_total_streak g + 1"]) (simp add: stage_envelope_def Let_def)
    next
      case False
      then have sim: "rq_category rq = ''simulation'' \<and>
          \<not> (bus_virtual (gw_bus g) \<and> frame_source (rq_frame rq) \<in> {''virtual'', ''synthetic''})"
        using no_room known unfolding envelope_room_def not_le not_less by simp
      then show ?thesis using known False
        by (intro disjI2 exI [of _ 0]) (simp add: stage_envelope_def Let_def)
    qed
  qed
  then show ?thesis
  proof (elim disjE exE)
    fix k
    assume k: "fst (fst (stage_envelope (g, estops) rq tc)) =
        g\<lparr>gw_total_stamps := drop_old (tc_now tc) (gw_total_stamps g), gw_total_streak := k\<rparr>"
    show ?thesis unfolding k
      by (rule advancedI [where ?total0.0 = "drop_old (tc_now tc) (gw_total_stamps g)" and new_total = "[]"
            and ?tx0.0 = "gw_tx_stamps g" and new_tx = "[]"])
         (simp_all add: budgets_ok_def speed_ok_def)
  qed simp
qed

lemma advanced_trans:
  assumes "advanced now g1 g2" "advanced now g2 g3"
  shows "advanced now g1 g3"
proof -
  have seq: "gw_stamp_seq g1 \<le> gw_stamp_seq g2" "gw_stamp_seq g2 \<le> gw_stamp_seq g3"
    using assms by (simp_all add: advanced_def)
  have fresh: "fresh_in (gw_stamp_seq g1) (gw_stamp_seq g3) s"
    if "fresh_in (gw_stamp_seq g1) (gw_stamp_seq g2) s \<or> fresh_in (gw_stamp_seq g2) (gw_stamp_seq g3) s" for s
    using that seq by (auto simp: fresh_in_def)
  note a = assms [unfolded advanced_def]
  show ?thesis unfolding advanced_def
  proof (intro conjI)
    show "\<forall>s \<in> set (gw_total_stamps g1). s \<in> set (gw_total_stamps g3) \<or> expired_at now s"
      using a by blast
    show "\<forall>s \<in> set (gw_total_stamps g3). s \<in> set (gw_total_stamps g1) \<or>
        fresh_in (gw_stamp_seq g1) (gw_stamp_seq g3) s"
      using a fresh by blast
    show "\<forall>s \<in> set (gw_tx_stamps g3). s \<in> set (gw_tx_stamps g1) \<or>
        fresh_in (gw_stamp_seq g1) (gw_stamp_seq g3) s"
      using a fresh by blast
  qed (use a in simp_all)
qed

lemma log_quiet: "quiet g (log_rate_reject g now)"
  by (simp add: quiet_def log_rate_reject_def speed_ok_def)

lemma advanced_window: "advanced (tc_now tc) g (fst (fst (stage_window (g, estops) rq tc)))"
proof (cases "length (drop_old (tc_now tc) (gw_tx_stamps g)) \<ge> MAX_TX_RATE_PER_SEC")
  case True
  let ?g = "g\<lparr>gw_tx_stamps := drop_old (tc_now tc) (gw_tx_stamps g), gw_rate_streak := gw_rate_streak g + 1\<rparr>"
  have q: "quiet g ?g" using drop_old_subset by (fastforce simp: quiet_def speed_ok_def)
  have "fst (fst (stage_window (g, estops) rq tc)) = ?g \<or>
      fst (fst (stage_window (g, estops) rq tc)) = log_rate_reject ?g (tc_now tc)"
    using True by (simp add: stage_window_def Let_def)
  then show ?thesis
  proof
    assume "fst (fst (stage_window (g, estops) rq tc)) = ?g"
    then show ?thesis using quiet_advanced [OF q] by simp
  next
    assume "fst (fst (stage_window (g, estops) rq tc)) = log_rate_reject ?g (tc_now tc)"
    then show ?thesis using quiet_advanced [OF quiet_trans [OF q log_quiet]] by simp
  qed
next
  case False
  let ?g = "g\<lparr>gw_rate_streak := 0, gw_stamp_seq := gw_stamp_seq g + 1,
      gw_tx_stamps := drop_old (tc_now tc) (gw_tx_stamps g) @ [(tc_now tc, tc_thread tc, gw_stamp_seq g + 1)]\<rparr>"
  have "fst (fst (stage_window (g, estops) rq tc)) = ?g"
    using False by (simp add: stage_window_def Let_def)
  moreover have "advanced (tc_now tc) g ?g"
    by (rule advancedI [where ?total0.0 = "gw_total_stamps g" and new_total = "[]"
          and ?tx0.0 = "drop_old (tc_now tc) (gw_tx_stamps g)"
          and new_tx = "[(tc_now tc, tc_thread tc, gw_stamp_seq g + 1)]"])
       (simp_all add: fresh_in_def budgets_ok_def speed_ok_def)
  ultimately show ?thesis by simp
qed

lemma advanced_bucket: "advanced now g (fst (fst (stage_bucket (g, estops) rq tc)))"
proof (cases "dget (gw_budgets g) (rq_category rq)")
  case (Some b)
  let ?b = "fst (try_consume b 1 (tc_bucket tc))"
  have "budgets_ok g \<longrightarrow> tb_tokens ?b \<le> of_int (tb_capacity ?b)"
    using Some refilled_bound [of b "tc_bucket tc"]
    by (auto simp: try_consume_refilled budgets_ok_def)
  then have "advanced now g (g\<lparr>gw_budgets := dset (rq_category rq) ?b (gw_budgets g)\<rparr>)"
    using budgets_ok_dset [of g ?b "rq_category rq"] by (simp add: advanced_def speed_ok_def)
  then show ?thesis
    by (cases "try_consume b 1 (tc_bucket tc)") (simp add: stage_bucket_def Some)
qed (simp add: stage_bucket_def)

lemma advanced_lane: "advanced (tc_now tc) g (fst (fst (stage_lane (g, estops) rq tc)))"
proof (cases "rq_category rq = ''default''")
  case True
  then have "fst (fst (stage_lane (g, estops) rq tc)) = fst (fst (stage_window (g, estops) rq tc))"
    by (simp add: stage_lane_def act_bind_def split: prod.split sum.split)
  then show ?thesis using advanced_window by simp
next
  case False
  then have "fst (fst (stage_lane (g, estops) rq tc)) = fst (fst (stage_bucket (g, estops) rq tc))"
    by (simp add: stage_lane_def act_bind_def split: prod.split sum.split)
  then show ?thesis using advanced_bucket by simp
qed

lemma advanced_reserve:
  assumes "room g rq tc"
  shows "advanced (tc_now tc) g (fst (reserve_lane (reserve_total g tc) rq tc))"
proof -
  have "stage_envelope (g, []) rq tc = ((reserve_total g tc, []), Inr (tc_now tc, tc_thread tc, gw_stamp_seq g + 1))"
    using assms by (simp add: envelope_ok room_def)
  then have 1: "advanced (tc_now tc) g (reserve_total g tc)"
    using advanced_envelope [of tc g "[]" rq] by simp
  have "stage_lane (reserve_total g tc, []) rq tc =
      ((fst (reserve_lane (reserve_total g tc) rq tc), []), Inr (snd (reserve_lane (reserve_total g tc) rq tc)))"
    using assms by (simp add: lane_ok room_def)
  then have 2: "advanced (tc_now tc) (reserve_total g tc) (fst (reserve_lane (reserve_total g tc) rq tc))"
    using advanced_lane [of tc "reserve_total g tc" "[]" rq] by simp
  show ?thesis using advanced_trans [OF 1 2] .
qed

lemma act_bind_Inl:
  "act_bind m f = (s, Inl e) \<longleftrightarrow> m = (s, Inl e) \<or> (\<exists>s1 x. m = (s1, Inr x) \<and> f s1 x = (s, Inl e))"
  by (auto simp: act_bind_def split: prod.splits sum.splits)

lemma refund_cap: "tb_tokens (refund b n) \<le> of_int (tb_capacity (refund b n))"
  by (simp add: refund_def)

lemma rollback_budgets_ok: "budgets_ok g \<Longrightarrow> budgets_ok (rollback_tx_reservation g reserved total_stamp burned)"
  unfolding budgets_ok_def rollback_budgets
  by (auto simp: dict.lookup_store refund_cap split: option.splits if_splits)

lemma rollback_speed: "speed_ok (rollback_tx_reservation g reserved total_stamp burned) = speed_ok g"
  by (rule speed_ok_cong) (auto simp: rollback_tx_reservation_def Let_def split: option.split)

lemma advanced_undone:
  assumes "stamps_ok g" "room g rq tc"
  shows "advanced (tc_now tc) g
    (rollback_tx_reservation ((fst (reserve_lane (reserve_total g tc) rq tc))\<lparr>gw_packager := pk\<rparr>)
       (snd (reserve_lane (reserve_total g tc) rq tc)) (Some (tc_now tc, tc_thread tc, gw_stamp_seq g + 1)) None)"
    (is "advanced _ _ ?g1")
proof -
  let ?g3 = "fst (reserve_lane (reserve_total g tc) rq tc)"
  have adv: "advanced (tc_now tc) g ?g3" using advanced_reserve [OF assms(2)] .
  have f: "(tc_now tc, tc_thread tc, gw_stamp_seq g + 1) \<notin> set (drop_old (tc_now tc) (gw_total_stamps g))"
    "(tc_now tc, tc_thread tc, gw_stamp_seq g + 2) \<notin> set (drop_old (tc_now tc) (gw_tx_stamps g))"
    using fresh_stamp [OF assms(1), of _ _ 0] fresh_stamp [OF assms(1), of _ _ 1] by auto
  have tot: "gw_total_stamps ?g1 = drop_old (tc_now tc) (gw_total_stamps g) @ []"
    using f(1) by (simp add: reserve_lane_def reserve_total_def remove1_fresh split: option.split)
  have tx: "gw_tx_stamps ?g1 = (if rq_category rq = ''default'' then drop_old (tc_now tc) (gw_tx_stamps g)
      else gw_tx_stamps g) @ []"
    using f(2) by (simp add: reserve_lane_def reserve_total_def remove1_fresh split: option.split)
  show ?thesis
  proof (rule advancedI [OF _ _ _ tot _ tx])
    show "gw_consumed ?g1 = gw_consumed g" "gw_stamp_seq g \<le> gw_stamp_seq ?g1"
      using adv by (simp_all add: advanced_def)
    show "budgets_ok ?g1" if "budgets_ok g"
    proof (rule rollback_budgets_ok)
      have "budgets_ok ?g3" using adv that by (simp only: advanced_def simp_thms)
      then show "budgets_ok (?g3\<lparr>gw_packager := pk\<rparr>)" by (simp add: budgets_ok_def)
    qed
    show "speed_ok ?g1" if "speed_ok g"
    proof -
      have "speed_ok ?g3" using adv that by (simp only: advanced_def simp_thms)
      then have "speed_ok (?g3\<lparr>gw_packager := pk\<rparr>)" by (simp add: speed_ok_def)
      then show ?thesis by (simp only: rollback_speed)
    qed
  qed simp_all
qed

text \<open>A refused admission.\<close>

lemma refused_state:
  assumes "speed_ok g" "stamps_ok g" "admit mac sha fmt g v es rq tc = ((g1, estops), Inl e)"
  shows "advanced (tc_now tc) g g1"
proof -
  let ?g2 = "reserve_total g tc"
  let ?g3 = "fst (reserve_lane ?g2 rq tc)"
  from assms(3) have "g1 = g \<or> (\<exists>s. stage_whitelist (g, []) (rq_frame rq) (tc_now tc) = (s, Inl e) \<and> fst s = g1) \<or>
      (\<exists>s. stage_speed fmt (g, []) (derived_critical g rq) (tc_now tc) = (s, Inl e) \<and> fst s = g1) \<or>
      (\<exists>s. stage_envelope (g, []) rq tc = (s, Inl e) \<and> fst s = g1) \<or>
      (envelope_room g rq (tc_now tc) \<and> (\<exists>s. stage_lane (?g2, []) rq tc = (s, Inl e) \<and> fst s = g1)) \<or>
      (room g rq tc \<and> (\<exists>s. stage_e2e (?g3, []) (rq_frame rq) (snd (reserve_lane ?g2 rq tc))
          (tc_now tc, tc_thread tc, gw_stamp_seq g + 1) (tc_now tc) = (s, Inl e) \<and> fst s = g1))"
    unfolding admit_def Let_def
    by (elim act_bind_Inl [THEN iffD1, THEN disjE] exE conjE)
       (auto simp: whitelist_ok speed_stage_ok [OF assms(1)] envelope_ok lane_ok room_def)
  then show ?thesis
  proof (elim disjE exE conjE)
    assume "g1 = g"
    then show ?thesis by simp
  next
    fix s assume s: "stage_whitelist (g, []) (rq_frame rq) (tc_now tc) = (s, Inl e)" "fst s = g1"
    then have "g1 = fst (fst (stage_whitelist (g, []) (rq_frame rq) (tc_now tc)))" by simp
    then show ?thesis using quiet_advanced [OF quiet_whitelist] by simp
  next
    fix s assume s: "stage_speed fmt (g, []) (derived_critical g rq) (tc_now tc) = (s, Inl e)" "fst s = g1"
    then have "g1 = fst (fst (stage_speed fmt (g, []) (derived_critical g rq) (tc_now tc)))" by simp
    then show ?thesis by simp
  next
    fix s assume s: "stage_envelope (g, []) rq tc = (s, Inl e)" "fst s = g1"
    then show ?thesis using advanced_envelope [of tc g "[]" rq] by simp
  next
    fix s assume s: "envelope_room g rq (tc_now tc)" "stage_lane (?g2, []) rq tc = (s, Inl e)" "fst s = g1"
    have "stage_envelope (g, []) rq tc = ((?g2, []), Inr (tc_now tc, tc_thread tc, gw_stamp_seq g + 1))"
      using s(1) by (simp add: envelope_ok)
    then have "advanced (tc_now tc) g ?g2" using advanced_envelope [of tc g "[]" rq] by simp
    moreover have "advanced (tc_now tc) ?g2 g1"
      using advanced_lane [of tc ?g2 "[]" rq] s(2,3) by simp
    ultimately show ?thesis by (rule advanced_trans)
  next
    fix s assume s: "room g rq tc" "stage_e2e (?g3, []) (rq_frame rq) (snd (reserve_lane ?g2 rq tc))
          (tc_now tc, tc_thread tc, gw_stamp_seq g + 1) (tc_now tc) = (s, Inl e)" "fst s = g1"
    then obtain pk where g1: "g1 = rollback_tx_reservation (?g3\<lparr>gw_packager := pk\<rparr>)
        (snd (reserve_lane ?g2 rq tc)) (Some (tc_now tc, tc_thread tc, gw_stamp_seq g + 1)) None"
      by (auto simp: stage_e2e_def split: option.splits prod.splits sum.splits)
    show ?thesis unfolding g1 by (rule advanced_undone [OF assms(2) s(1)])
  qed
qed

section \<open>Sessions\<close>

text \<open>The calls admitted and not taken back, those of them whose frame went to the driver, the time of
  the last clock reading, the fence at the last change of the bus, the number of tokens spent so far,
  and the tokens that were verified in the very nanosecond of their expiry.\<close>

record txworld =
  tw_gw :: gateway
  tw_es :: estop
  tw_live :: "ticket list"
  tw_sent :: "ticket list"
  tw_now :: int
  tw_mark :: int
  tw_spent :: nat
  tw_edge :: "bytes set"

definition expiry_of :: "bytes \<Rightarrow> int" where
  "expiry_of payload = from_be (py_slice payload 4 12)"

text \<open>The tokens verified at their expiry, after one more admission.\<close>

definition edge_of :: "tx_clock \<Rightarrow> ticket \<Rightarrow> bytes set" where
  "edge_of tc tk = (case tk_burned tk of None \<Rightarrow> {} | Some p \<Rightarrow> if tc_verify tc = expiry_of p then {p} else {})"

text \<open>What happens to the gateway besides calls.\<close>

inductive gw_event :: "gateway \<Rightarrow> gateway \<Rightarrow> bool" where
  Speed: "gw_event g (update_vehicle_speed g speed physical now)"
| State: "gw_event g (gw_on_state g st)"
| Install: "gw_event g (install_read_only_policy g pol)"
| ClearPolicy: "gw_event g (clear_read_only_policy g)"
| Relink: "gw_event g (clear_link_fault g kind)"
| Register: "gw_event g (fst (register_e2e_profile g arb profile))"
| Shutdown: "gw_event g (gateway_shutdown g)"
| Engaged: "gw_event (pl_gw p) (pl_gw (gw_on_estop_triggered p t))"
| Link: "gw_event (pl_gw p) (pl_gw (fst (notify_link_fault p kind source reason t)))"
| Relist: "gw_event (pl_gw p) (pl_gw (fst (rebind_whitelist p ids masks)))"

text \<open>The steps of a session. The clock does not go back, but it may give the same reading several
  times, to one call and to calls after it. A call may reach its dispatch without the guard of Phase 2; the driver's answer is arbitrary.\<close>

inductive gw_step ::
  "(bytes \<Rightarrow> bytes \<Rightarrow> bytes) \<Rightarrow> (bytes \<Rightarrow> bytes) \<Rightarrow> (rat \<Rightarrow> string) \<Rightarrow> txworld \<Rightarrow> txworld \<Rightarrow> bool"
  for mac sha fmt where
  Admit: "tw_now w \<le> tc_now tc \<Longrightarrow> tc_now tc \<le> tc_verify tc \<Longrightarrow> tc_verify tc \<le> tc_burn tc \<Longrightarrow>
    admit mac sha fmt (tw_gw w) v (tw_es w) rq tc = ((g, estops), Inr tk) \<Longrightarrow>
    gw_step mac sha fmt w (w\<lparr>tw_gw := g, tw_live := tk # tw_live w, tw_now := tc_burn tc,
      tw_spent := tw_spent w + (if tk_burned tk = None then 0 else 1), tw_edge := edge_of tc tk \<union> tw_edge w\<rparr>)"
| Refuse: "tw_now w \<le> tc_now tc \<Longrightarrow> tc_now tc \<le> tc_verify tc \<Longrightarrow> tc_verify tc \<le> tc_burn tc \<Longrightarrow>
    admit mac sha fmt (tw_gw w) v (tw_es w) rq tc = ((g, estops), Inl e) \<Longrightarrow>
    gw_step mac sha fmt w (w\<lparr>tw_gw := g, tw_now := tc_burn tc\<rparr>)"
| Guarded: "tk \<in> set (tw_live w) - set (tw_sent w) \<Longrightarrow> final_guard (tw_gw w) (tw_es w) tk = (g, Inl e) \<Longrightarrow>
    gw_step mac sha fmt w (w\<lparr>tw_gw := g, tw_live := remove1 tk (tw_live w)\<rparr>)"
| Fenced: "tk \<in> set (tw_live w) - set (tw_sent w) \<Longrightarrow>
    fenced_dispatch (tw_gw w) (tw_es w) tk driver = (g, [], res) \<Longrightarrow>
    gw_step mac sha fmt w (w\<lparr>tw_gw := g, tw_live := remove1 tk (tw_live w)\<rparr>)"
| Dispatch: "tk \<in> set (tw_live w) - set (tw_sent w) \<Longrightarrow>
    fenced_dispatch (tw_gw w) (tw_es w) tk driver = (g, [f], res) \<Longrightarrow>
    gw_step mac sha fmt w (w\<lparr>tw_gw := g, tw_sent := tk # tw_sent w\<rparr>)"
| EStop: "es_tx_fence (tw_es w) \<le> es_tx_fence es \<Longrightarrow> gw_step mac sha fmt w (w\<lparr>tw_es := es\<rparr>)"
| Event: "gw_event (tw_gw w) g \<Longrightarrow> gw_step mac sha fmt w (w\<lparr>tw_gw := g\<rparr>)"
| Rebind: "pl_gw p = tw_gw w \<Longrightarrow> pl_es p = tw_es w \<Longrightarrow>
    gw_step mac sha fmt w (w\<lparr>tw_gw := pl_gw (rebind_bus p bus now), tw_es := pl_es (rebind_bus p bus now),
      tw_mark := es_tx_fence (pl_es (rebind_bus p bus now))\<rparr>)"

inductive gw_run ::
  "(bytes \<Rightarrow> bytes \<Rightarrow> bytes) \<Rightarrow> (bytes \<Rightarrow> bytes) \<Rightarrow> (rat \<Rightarrow> string) \<Rightarrow> txworld \<Rightarrow> txworld \<Rightarrow> bool"
  for mac sha fmt where
  Start: "gw_run mac sha fmt w w"
| Next: "gw_run mac sha fmt w w1 \<Longrightarrow> gw_step mac sha fmt w1 w2 \<Longrightarrow> gw_run mac sha fmt w w2"

definition world_init :: "txworld \<Rightarrow> bool" where
  "world_init w \<longleftrightarrow> (\<exists>bus ids masks pk profiles secret legacy superset epoch now.
     gateway_init bus ids masks pk profiles secret legacy superset epoch now = Inr (tw_gw w)) \<and>
     tw_live w = [] \<and> tw_sent w = [] \<and> tw_mark w = es_tx_fence (tw_es w) \<and> tw_spent w = 0 \<and> tw_edge w = {}"

section \<open>Events keep the rate state\<close>

lemma quiet_state: "quiet g (gw_on_state g st)"
  by (auto simp: quiet_def gw_on_state_def Let_def speed_ok_def)

lemma quiet_calls: "quiet g (gw_deliver_calls calls g)"
  by (induction calls g rule: gw_deliver_calls.induct) (auto intro: quiet_trans quiet_state)

lemma quiet_put_sup: "quiet (pl_gw p) (pl_gw (put_sup p sv))"
  by (simp add: put_sup_def quiet_calls split: option.split)

lemma quiet_engaged: "quiet (pl_gw p) (pl_gw (gw_on_estop_triggered p t))"
proof -
  have "quiet (pl_gw p) (pl_gw (plant_fault p r t))" for r
    by (simp add: plant_fault_def quiet_put_sup split: option.split)
  moreover have "quiet g (g\<lparr>gw_tx_stamps := [], gw_rate_streak := 0, gw_miss_streak := 0, gw_last_miss_ns := 0\<rparr>)" for g
    by (simp add: quiet_def speed_ok_def)
  ultimately show ?thesis
    unfolding gw_on_estop_triggered_def Let_def
    by (auto intro: quiet_trans split: option.split)
qed

lemma quiet_request: "quiet (pl_gw p) (pl_gw (request_estop p source reason speed t))"
  using quiet_engaged [of "p\<lparr>pl_es := trigger (pl_es p) source reason speed (fresh_nonce t) (now_es t)\<rparr>" t]
  by (simp add: request_estop_def Let_def)

lemma quiet_link: "quiet (pl_gw p) (pl_gw (fst (notify_link_fault p kind source reason t)))"
proof -
  have upd: "quiet g (g\<lparr>gw_link_epoch := b, gw_link_latched := a\<rparr>)" "quiet g (g\<lparr>gw_link_latched := a\<rparr>)" for g a b
    by (simp_all add: quiet_def speed_ok_def)
  have req: "quiet (pl_gw p) (pl_gw (request_estop (p\<lparr>pl_gw := g\<rparr>) source reason s t))"
    if "quiet (pl_gw p) g" for g s
    using quiet_request [of "p\<lparr>pl_gw := g\<rparr>"] quiet_trans [OF that] by simp
  show ?thesis
    unfolding notify_link_fault_def Let_def
    by (auto simp: upd intro!: req)
qed

lemma quiet_relist: "quiet (pl_gw p) (pl_gw (fst (rebind_whitelist p ids masks)))"
  by (auto simp: rebind_whitelist_def quiet_def speed_ok_def Let_def py_bind_def split: option.split sum.split)

lemma quiet_event: "gw_event g g' \<Longrightarrow> quiet g g'"
proof (induction rule: gw_event.induct)
  case (Speed g speed physical now)
  then show ?case using speed_ok_update [of g speed physical now]
    by (auto simp: quiet_def update_vehicle_speed_def split: option.split)
next
  case (Register g arb profile)
  then show ?case by (auto simp: register_e2e_profile_def quiet_def speed_ok_def act_bind_def split: sum.split)
qed (simp_all add: quiet_state quiet_engaged quiet_link quiet_relist,
     simp_all add: quiet_def speed_ok_def install_read_only_policy_def clear_read_only_policy_def
       clear_link_fault_def gateway_shutdown_def)

section \<open>The envelope in every session\<close>

definition ticket_ok :: "gateway \<Rightarrow> int \<Rightarrow> int \<Rightarrow> int \<Rightarrow> ticket \<Rightarrow> bool" where
  "ticket_ok g fence mark now tk \<longleftrightarrow> tk_fence tk \<le> fence \<and>
     (\<exists>s. tk_total tk = Some s \<and> snd (snd s) \<le> gw_stamp_seq g \<and>
       (mark \<le> tk_fence tk \<longrightarrow> s \<in> set (gw_total_stamps g) \<or> expired_at now s))"

definition rate_inv :: "txworld \<Rightarrow> bool" where
  "rate_inv w \<longleftrightarrow> (speed_ok (tw_gw w) \<and> stamps_ok (tw_gw w) \<and> budgets_ok (tw_gw w)) \<and>
     length (gw_total_stamps (tw_gw w)) \<le> MAX_TOTAL_TX_PER_SEC \<and>
     tw_mark w \<le> es_tx_fence (tw_es w) \<and>
     set (tw_sent w) \<subseteq> set (tw_live w) \<and> distinct (tw_sent w) \<and> distinct (map tk_total (tw_live w)) \<and>
     (\<forall>tk \<in> set (tw_live w). ticket_ok (tw_gw w) (es_tx_fence (tw_es w)) (tw_mark w) (tw_now w) tk)"

lemma expired_mono: "expired_at now s \<Longrightarrow> now \<le> now' \<Longrightarrow> expired_at now' s"
  by (simp add: expired_at_def)

lemma ticket_advanced:
  assumes "advanced t g g'" "t \<le> now'" "now \<le> now'" "fence \<le> fence'" "ticket_ok g fence mark now tk"
  shows "ticket_ok g' fence' mark now' tk"
proof -
  obtain s where s: "tk_fence tk \<le> fence" "tk_total tk = Some s" "snd (snd s) \<le> gw_stamp_seq g"
      "mark \<le> tk_fence tk \<Longrightarrow> s \<in> set (gw_total_stamps g) \<or> expired_at now s"
    using assms(5) by (auto simp: ticket_ok_def)
  have "snd (snd s) \<le> gw_stamp_seq g'" using s(3) assms(1) by (simp add: advanced_def)
  moreover have "s \<in> set (gw_total_stamps g') \<or> expired_at now' s" if "mark \<le> tk_fence tk"
    using s(4) [OF that] assms(1-3) expired_mono unfolding advanced_def by blast
  ultimately show ?thesis using s(1,2) assms(4) unfolding ticket_ok_def by auto
qed

lemma ticket_same_window:
  assumes "ticket_ok g fence mark now tk"
    and "gw_total_stamps g' = gw_total_stamps g" "gw_stamp_seq g' = gw_stamp_seq g"
  shows "ticket_ok g' fence mark now tk"
  using assms by (simp add: ticket_ok_def)

lemma rate_inv_advanced:
  assumes "rate_inv w" "advanced t (tw_gw w) g" "t \<le> now" "tw_now w \<le> now" "es_tx_fence (tw_es w) \<le> es_tx_fence es"
  shows "rate_inv (w\<lparr>tw_gw := g, tw_es := es, tw_now := now\<rparr>)"
proof -
  have "speed_ok g \<and> stamps_ok g \<and> budgets_ok g" "length (gw_total_stamps g) \<le> MAX_TOTAL_TX_PER_SEC"
    using assms(1) advanced_stamps [OF assms(2)] assms(2) by (simp_all only: rate_inv_def advanced_def)
  then show ?thesis
    using assms(1,5) ticket_advanced [OF assms(2-5)] unfolding rate_inv_def by simp
qed

lemma remove1_live:
  assumes "distinct (map tk_total live)" "tk \<in> set live"
  shows "distinct (map tk_total (remove1 tk live))" "set (remove1 tk live) = set live - {tk}"
    "tk' \<in> set (remove1 tk live) \<Longrightarrow> tk_total tk' \<noteq> tk_total tk"
proof -
  have d: "distinct live" "inj_on tk_total (set live)" using assms(1) by (simp_all add: distinct_map)
  then show set: "set (remove1 tk live) = set live - {tk}" by simp
  show "distinct (map tk_total (remove1 tk live))"
    using d by (auto simp: distinct_map intro: inj_on_subset)
  show "tk' \<in> set (remove1 tk live) \<Longrightarrow> tk_total tk' \<noteq> tk_total tk"
    using d(2) assms(2) by (auto simp: set inj_on_def)
qed

lemma rate_inv_rollback:
  assumes "rate_inv w" "tk \<in> set (tw_live w) - set (tw_sent w)"
  shows "rate_inv (w\<lparr>tw_gw := rollback_ticket (tw_gw w) tk, tw_live := remove1 tk (tw_live w)\<rparr>)"
proof -
  note inv = assms(1) [unfolded rate_inv_def]
  have live: "distinct (map tk_total (tw_live w))" "tk \<in> set (tw_live w)" using inv assms(2) by auto
  obtain s where s: "tk_total tk = Some s" using inv assms(2) by (auto simp: ticket_ok_def)
  let ?g = "rollback_ticket (tw_gw w) tk"
  have g: "gw_total_stamps ?g = remove1 s (gw_total_stamps (tw_gw w))" "gw_stamp_seq ?g = gw_stamp_seq (tw_gw w)"
    "set (gw_tx_stamps ?g) \<subseteq> set (gw_tx_stamps (tw_gw w))"
    by (auto simp: rollback_ticket_def s set_remove1_subset split: option.split dest: notin_set_remove1)
  have "speed_ok ?g" "budgets_ok ?g"
    using inv by (simp_all add: rollback_ticket_def rollback_speed rollback_budgets_ok)
  moreover have "stamps_ok ?g"
    using inv g set_remove1_subset [of s "gw_total_stamps (tw_gw w)"] unfolding stamps_ok_def by auto
  moreover have "length (gw_total_stamps ?g) \<le> MAX_TOTAL_TX_PER_SEC"
    using inv by (simp add: g length_remove1 split: if_split) linarith
  moreover have "ticket_ok ?g (es_tx_fence (tw_es w)) (tw_mark w) (tw_now w) tk'"
    if "tk' \<in> set (remove1 tk (tw_live w))" for tk'
  proof -
    have "tk' \<in> set (tw_live w)" using that remove1_live(2) [OF live] by simp
    then have ok: "ticket_ok (tw_gw w) (es_tx_fence (tw_es w)) (tw_mark w) (tw_now w) tk'" using inv by blast
    have "tk_total tk' \<noteq> Some s" using remove1_live(3) [OF live that] s by simp
    then show ?thesis using ok by (auto simp: ticket_ok_def g in_set_remove1)
  qed
  ultimately show ?thesis
    using inv assms(2) remove1_live(1,2) [OF live] unfolding rate_inv_def by auto
qed

lemma rate_inv_admit:
  assumes "rate_inv w" "tw_now w \<le> tc_now tc" "tc_now tc \<le> tc_burn tc"
    and "admit mac sha fmt (tw_gw w) v (tw_es w) rq tc = ((g, estops), Inr tk)"
  shows "rate_inv (w\<lparr>tw_gw := g, tw_live := tk # tw_live w, tw_now := tc_burn tc, tw_spent := spent,
    tw_edge := edge\<rparr>)"
proof -
  note inv = assms(1) [unfolded rate_inv_def]
  then have sp: "speed_ok (tw_gw w)" by blast
  let ?st = "(tc_now tc, tc_thread tc, gw_stamp_seq (tw_gw w) + 1)"
  let ?g3 = "fst (reserve_lane (reserve_total (tw_gw w) tc) rq tc)"
  obtain pk pending where g: "g = burn (?g3\<lparr>gw_packager := pk\<rparr>) pending (tc_burn tc)"
    and tk: "tk_total tk = Some ?st" "tk_fence tk = es_tx_fence (tw_es w)"
    using admit_state [OF sp assms(4)] by metis
  have "room (tw_gw w) rq tc" using admit_outcome(1) [OF sp assms(4)] by auto
  then have adv: "advanced (tc_now tc) (tw_gw w) ?g3" by (rule advanced_reserve)
  have same: "gw_total_stamps g = gw_total_stamps ?g3" "gw_stamp_seq g = gw_stamp_seq ?g3"
    "gw_tx_stamps g = gw_tx_stamps ?g3" "gw_budgets g = gw_budgets ?g3"
    by (simp_all add: g)
  have base: "rate_inv (w\<lparr>tw_gw := ?g3, tw_es := tw_es w, tw_now := tc_burn tc\<rparr>)"
    by (rule rate_inv_advanced [OF assms(1) adv assms(3)]) (use assms(2,3) in simp_all)
  note b = base [unfolded rate_inv_def, simplified]
  have speed: "gw_physical_speed g = gw_physical_speed ?g3" "gw_last_speed_ns g = gw_last_speed_ns ?g3"
    by (simp_all add: g burn_def consume_confirmation_def Let_def split: option.split)
  have "speed_ok g" "stamps_ok g" "budgets_ok g" "length (gw_total_stamps g) \<le> MAX_TOTAL_TX_PER_SEC"
    using b speed_ok_cong [OF speed] budgets_ok_cong [OF same(4)] by (simp_all add: stamps_ok_def same)
  moreover have "?st \<in> set (gw_total_stamps g)" "snd (snd ?st) \<le> gw_stamp_seq g"
    unfolding same by (auto simp: reserve_lane_def reserve_total_def split: option.split)
  then have "ticket_ok g (es_tx_fence (tw_es w)) (tw_mark w) (tc_burn tc) tk"
    by (simp add: ticket_ok_def tk)
  moreover have "ticket_ok g (es_tx_fence (tw_es w)) (tw_mark w) (tc_burn tc) tk'" if "tk' \<in> set (tw_live w)" for tk'
    using b that ticket_same_window [OF _ same(1,2)] by blast
  moreover have "tk_total tk \<notin> tk_total ` set (tw_live w)"
    using inv by (auto simp: ticket_ok_def tk)
  ultimately show ?thesis using inv unfolding rate_inv_def by auto
qed

lemma guard_rollback: "final_guard g es tk = (g', Inl e) \<Longrightarrow> g' = rollback_ticket g tk"
  by (auto simp: final_guard_def split: if_splits)

lemma fence_rollback: "fenced_dispatch g es tk driver = (g', [], res) \<Longrightarrow> g' = rollback_ticket g tk"
  by (auto simp: fenced_dispatch_def split: if_splits)

lemma fence_dispatch:
  "fenced_dispatch g es tk driver = (g', [f], res) \<Longrightarrow> g' = g \<and> tk_fence tk = es_tx_fence es \<and> f = tk_frame tk"
  by (auto simp: fenced_dispatch_def split: if_splits)

lemma hook_fields [simp]:
  "es_tx_fence (pl_es (register_driver_abort_hook p)) = es_tx_fence (pl_es p)"
  "gw_total_stamps (pl_gw (register_driver_abort_hook p)) = gw_total_stamps (pl_gw p)"
  "gw_tx_stamps (pl_gw (register_driver_abort_hook p)) = gw_tx_stamps (pl_gw p)"
  "gw_stamp_seq (pl_gw (register_driver_abort_hook p)) = gw_stamp_seq (pl_gw p)"
  "gw_budgets (pl_gw (register_driver_abort_hook p)) = gw_budgets (pl_gw p)"
  "gw_consumed (pl_gw (register_driver_abort_hook p)) = gw_consumed (pl_gw p)"
  "speed_ok (pl_gw (register_driver_abort_hook p)) = speed_ok (pl_gw p)"
  by (auto simp: register_driver_abort_hook_def unregister_abort_hook_def register_abort_hook_def Let_def
      speed_ok_def split: option.split)

lemma rate_inv_rebind:
  assumes "rate_inv w" "pl_gw p = tw_gw w" "pl_es p = tw_es w"
  shows "rate_inv (w\<lparr>tw_gw := pl_gw (rebind_bus p bus now), tw_es := pl_es (rebind_bus p bus now),
      tw_mark := es_tx_fence (pl_es (rebind_bus p bus now))\<rparr>)"
proof -
  note inv = assms(1) [unfolded rate_inv_def]
  let ?g = "pl_gw (rebind_bus p bus now)"
  have f: "es_tx_fence (pl_es (rebind_bus p bus now)) = es_tx_fence (tw_es w) + 1"
    by (simp add: rebind_bus_def advance_tx_fence_def assms)
  have "speed_ok ?g" "stamps_ok ?g" "budgets_ok ?g" "gw_total_stamps ?g = []" "gw_stamp_seq ?g = gw_stamp_seq (tw_gw w)"
    using inv fresh_budgets_ok
    by (simp_all add: rebind_bus_def assms stamps_ok_def budgets_ok_def) (simp add: speed_ok_def)
  then show ?thesis
    using inv unfolding rate_inv_def by (auto simp: f ticket_ok_def)
qed

lemma rate_inv_step: "gw_step mac sha fmt w w' \<Longrightarrow> rate_inv w \<Longrightarrow> rate_inv w'"
proof (induction rule: gw_step.induct)
  case (Admit w tc v rq g estops tk)
  from rate_inv_admit [OF Admit(5,1) _ Admit(4)] show ?case using Admit(2,3) by simp
next
  case (Refuse w tc v rq g estops e)
  then have "speed_ok (tw_gw w)" "stamps_ok (tw_gw w)" by (simp_all add: rate_inv_def)
  from refused_state [OF this Refuse(4)] show ?case
    using rate_inv_advanced [OF Refuse(5), of "tc_now tc" g "tc_burn tc" "tw_es w"] Refuse(1-3) by simp
next
  case (Guarded tk w g e)
  then show ?case using rate_inv_rollback guard_rollback by metis
next
  case (Fenced tk w driver g res)
  then show ?case using rate_inv_rollback fence_rollback by metis
next
  case (Dispatch tk w driver g f res)
  then show ?case using fence_dispatch [OF Dispatch(2)] by (auto simp: rate_inv_def)
next
  case (EStop w es)
  then show ?case using rate_inv_advanced [OF EStop(2) advanced_refl, of "tw_now w" "tw_now w" es] by simp
next
  case (Event w g)
  from rate_inv_advanced [OF Event(2) quiet_advanced [OF quiet_event [OF Event(1)]], of "tw_now w" "tw_now w" "tw_es w"]
  show ?case by simp
next
  case (Rebind p w bus now)
  then show ?case using rate_inv_rebind by simp
qed

lemma gateway_init_fields:
  assumes "gateway_init bus ids masks pk profiles secret legacy superset epoch now = Inr g"
  shows "speed_ok g" "gw_tx_stamps g = []" "gw_total_stamps g = []" "gw_budgets g = fresh_budgets now"
    "gw_consumed g = []"
  using assms
  by (auto simp: gateway_init_def Let_def py_bind_Inr_iff speed_ok_def SPEED_MAX_PLAUSIBLE_KMH_def)

lemma world_init_gw:
  assumes "world_init w"
  obtains now where "speed_ok (tw_gw w)" "gw_tx_stamps (tw_gw w) = []" "gw_total_stamps (tw_gw w) = []"
    "gw_budgets (tw_gw w) = fresh_budgets now" "gw_consumed (tw_gw w) = []"
  using assms gateway_init_fields unfolding world_init_def by metis

lemma rate_inv_init: "world_init w \<Longrightarrow> rate_inv w"
proof -
  assume w: "world_init w"
  obtain now where "speed_ok (tw_gw w)" "gw_tx_stamps (tw_gw w) = []" "gw_total_stamps (tw_gw w) = []"
      "gw_budgets (tw_gw w) = fresh_budgets now"
    using world_init_gw [OF w] by metis
  then show ?thesis using w fresh_budgets_ok by (auto simp: rate_inv_def world_init_def stamps_ok_def budgets_ok_def)
qed

lemma rate_inv_run: "gw_run mac sha fmt w w' \<Longrightarrow> rate_inv w \<Longrightarrow> rate_inv w'"
  by (induction rule: gw_run.induct) (auto intro: rate_inv_step)


text \<open>The frames dispatched on the present bus whose call was admitted in the last second.\<close>

definition in_last_second :: "txworld \<Rightarrow> ticket list" where
  "in_last_second w = filter (\<lambda>tk. tw_mark w \<le> tk_fence tk \<and>
     (\<exists>s. tk_total tk = Some s \<and> \<not> expired_at (tw_now w) s)) (tw_sent w)"

text \<open>C3. In every session, however many calls are in flight, in whatever order they are validated,
  refused, taken back and dispatched, whatever lanes they choose and whatever engagements, state
  changes and reconfigurations come between them: of the frames that went out on the present bus, at
  most 400 belong to calls admitted in the last second.\<close>

theorem envelope_bounds_rate:
  assumes "world_init w0" "gw_run mac sha fmt w0 w"
  shows "length (in_last_second w) \<le> MAX_TOTAL_TX_PER_SEC"
proof -
  note inv = rate_inv_run [OF assms(2) rate_inv_init [OF assms(1)], unfolded rate_inv_def]
  let ?ts = "in_last_second w"
  have sub: "set ?ts \<subseteq> set (tw_live w)" "distinct ?ts"
    using inv by (auto simp: in_last_second_def)
  have "inj_on tk_total (set ?ts)"
    using inv sub(1) by (auto simp: distinct_map intro: inj_on_subset)
  then have "length ?ts = card (tk_total ` set ?ts)"
    using sub(2) by (simp add: card_image distinct_card)
  moreover have "tk_total ` set ?ts \<subseteq> Some ` set (gw_total_stamps (tw_gw w))"
  proof
    fix x assume "x \<in> tk_total ` set ?ts"
    then obtain tk s where tk: "tk \<in> set ?ts" "x = Some s" "tk_total tk = Some s" "tw_mark w \<le> tk_fence tk"
        "\<not> expired_at (tw_now w) s"
      by (auto simp: in_last_second_def)
    then have "s \<in> set (gw_total_stamps (tw_gw w))"
      using inv sub(1) by (fastforce simp: ticket_ok_def)
    then show "x \<in> Some ` set (gw_total_stamps (tw_gw w))" using tk(2) by blast
  qed
  then have "card (tk_total ` set ?ts) \<le> length (gw_total_stamps (tw_gw w))"
    by (meson card_image_le card_length card_mono finite_imageI finite_set le_trans)
  ultimately show ?thesis using inv by linarith
qed

section \<open>Confirmation tokens in every session\<close>

definition spent :: "gateway \<Rightarrow> int \<Rightarrow> bytes \<Rightarrow> bool" where
  "spent g now p \<longleftrightarrow> dget (gw_consumed g) p \<noteq> None \<or> expiry_of p \<le> now"

definition all_spent :: "gateway \<Rightarrow> int \<Rightarrow> ticket set \<Rightarrow> bool" where
  "all_spent g now tks \<longleftrightarrow> (\<forall>tk \<in> tks. \<forall>p. tk_burned tk = Some p \<longrightarrow> spent g now p)"

definition unique_tokens :: "bytes set \<Rightarrow> ticket set \<Rightarrow> bool" where
  "unique_tokens edge tks \<longleftrightarrow>
     (\<forall>tk \<in> tks. \<forall>tk' \<in> tks. \<forall>p. p \<notin> edge \<and> tk_burned tk = Some p \<and> tk_burned tk' = Some p \<longrightarrow> tk = tk')"

lemma all_spent_step:
  assumes "all_spent g now tks" "tks' \<subseteq> insert tk tks"
    and "\<And>p t. t \<in> tks' \<Longrightarrow> tk_burned t = Some p \<Longrightarrow> spent g now p \<Longrightarrow> spent g' now' p"
    and "\<And>p. tk \<in> tks' \<Longrightarrow> tk_burned tk = Some p \<Longrightarrow> spent g' now' p"
  shows "all_spent g' now' tks'"
  using assms unfolding all_spent_def by blast

lemma unique_subset:
  "unique_tokens edge tks \<Longrightarrow> tks' \<subseteq> tks \<Longrightarrow> edge \<subseteq> edge' \<Longrightarrow> unique_tokens edge' tks'"
  unfolding unique_tokens_def by blast

lemma unique_insert:
  assumes "unique_tokens edge tks" "edge \<subseteq> edge'"
    and "\<And>t p. t \<in> tks \<Longrightarrow> p \<notin> edge' \<Longrightarrow> tk_burned t = Some p \<Longrightarrow> tk_burned tk \<noteq> Some p"
  shows "unique_tokens edge' (insert tk tks)"
  using assms unfolding unique_tokens_def by blast

lemma insert_without_token:
  assumes "tk_burned tk = None"
  shows "all_spent g now (insert tk tks) = all_spent g now tks" "unique_tokens edge (insert tk tks) = unique_tokens edge tks"
    "edge_of tc tk = {}"
  using assms by (auto simp: all_spent_def unique_tokens_def edge_of_def)

definition token_inv :: "txworld \<Rightarrow> bool" where
  "token_inv w \<longleftrightarrow> dwf (gw_consumed (tw_gw w)) \<and> length (gw_consumed (tw_gw w)) \<le> tw_spent w \<and>
     (\<forall>p e. dget (gw_consumed (tw_gw w)) p = Some e \<longrightarrow> e = expiry_of p) \<and>
     (\<forall>p \<in> tw_edge w. expiry_of p \<le> tw_now w) \<and>
     (tw_spent w \<le> CONSUMED_CONFIRMATIONS_MAX \<longrightarrow>
        all_spent (tw_gw w) (tw_now w) (set (tw_live w)) \<and> unique_tokens (tw_edge w) (set (tw_live w)))"

lemma token_inv_consumed:
  assumes "token_inv w" "gw_consumed g = gw_consumed (tw_gw w)" "tw_now w \<le> now"
  shows "token_inv (w\<lparr>tw_gw := g, tw_now := now\<rparr>)"
proof -
  have "all_spent g now tks" if "all_spent (tw_gw w) (tw_now w) tks" for tks
    using that assms(2,3) unfolding all_spent_def spent_def by fastforce
  moreover have "\<forall>p \<in> tw_edge w. expiry_of p \<le> now"
    using assms(1,3) unfolding token_inv_def by fastforce
  ultimately show ?thesis
    using assms(1) unfolding token_inv_def by (simp add: assms(2))
qed

lemma prune_keeps:
  "dget d p = Some e \<Longrightarrow> dget (prune_expired d now) p = Some e \<or> (\<exists>e'. (p, e') \<in> set d \<and> e' \<le> now)"
  unfolding prune_expired_def by (induction d) (auto split: if_splits)

lemma prune_length: "length (prune_expired d now) \<le> length d"
  by (simp add: prune_expired_def length_dropWhile_le)

lemma dset_length: "length (dset k v d) \<le> Suc (length d)"
  by (induction d) auto

text \<open>Spending a token while the store has room.\<close>

lemma burn_spends:
  assumes "dwf (gw_consumed g)" "\<forall>p e. dget (gw_consumed g) p = Some e \<longrightarrow> e = expiry_of p"
    and "length (gw_consumed g) \<le> n" and g': "g' = burn g (Some (q, expiry_of q)) now"
  shows "dwf (gw_consumed g')" "dget (gw_consumed g') p = Some e \<Longrightarrow> e = expiry_of p"
    "length (gw_consumed g') \<le> Suc n"
    "n < CONSUMED_CONFIRMATIONS_MAX \<Longrightarrow> spent g now p \<or> p = q \<Longrightarrow> spent g' now p"
proof -
  let ?store = "dset q (expiry_of q) (prune_expired (gw_consumed g) now)"
  let ?n = "length ?store - CONSUMED_CONFIRMATIONS_MAX"
  have c: "gw_consumed g' = drop ?n ?store" by (simp add: g' burn_consumed Let_def)
  have wf: "dwf ?store" using assms(1) by (simp add: dict.wf_store)
  then show "dwf (gw_consumed g')" unfolding c by (metis distinct_drop drop_map)
  have len: "length ?store \<le> Suc n"
    using dset_length [of q "expiry_of q" "prune_expired (gw_consumed g) now"]
      prune_length [of "gw_consumed g" now] assms(3) by linarith
  then show "length (gw_consumed g') \<le> Suc n" by (simp add: c)
  show "e = expiry_of p" if "dget (gw_consumed g') p = Some e"
  proof -
    have "dget ?store p = Some e" using drop_dget [OF wf] that by (simp add: c)
    then show ?thesis
      using prune_sub [OF assms(1), of now p e] assms(2) by (auto simp: dict.lookup_store split: if_splits)
  qed
  assume room: "n < CONSUMED_CONFIRMATIONS_MAX" and was: "spent g now p \<or> p = q"
  have store: "gw_consumed g' = ?store" using len room by (simp add: c)
  show "spent g' now p"
  proof (cases "p = q \<or> expiry_of p \<le> now")
    case True
    then show ?thesis by (auto simp: spent_def store dict.lookup_store)
  next
    case False
    then obtain e where e: "dget (gw_consumed g) p = Some e" using was by (auto simp: spent_def)
    then have exp: "e = expiry_of p" using assms(2) by blast
    then have "\<not> (\<exists>e'. (p, e') \<in> set (gw_consumed g) \<and> e' \<le> now)"
      using False e map_of_is_SomeI [OF assms(1)] by force
    then show ?thesis
      using prune_keeps [OF e, of now] False by (auto simp: spent_def store dict.lookup_store)
  qed
qed

lemma pending_granted:
  assumes "stage_confirmation mac sha g rq critical now = Inr (Some (q, e))"
  shows "dget (gw_consumed g) q = None" "now \<le> expiry_of q" "e = expiry_of q"
  using assms unfolding confirmation_ok
  by (auto simp: grants_def expiry_of_def split: if_splits option.splits)

lemma token_inv_admit:
  assumes "token_inv w" "rate_inv w" "tw_now w \<le> tc_now tc" "tc_now tc \<le> tc_verify tc" "tc_verify tc \<le> tc_burn tc"
    and "admit mac sha fmt (tw_gw w) v (tw_es w) rq tc = ((g, estops), Inr tk)"
  shows "token_inv (w\<lparr>tw_gw := g, tw_live := tk # tw_live w, tw_now := tc_burn tc,
    tw_spent := tw_spent w + (if tk_burned tk = None then 0 else 1), tw_edge := edge_of tc tk \<union> tw_edge w\<rparr>)"
proof -
  note inv = assms(1) [unfolded token_inv_def]
  let ?g3 = "fst (reserve_lane (reserve_total (tw_gw w) tc) rq tc)"
  have sp: "speed_ok (tw_gw w)" using assms(2) by (simp add: rate_inv_def)
  obtain pk pending where g: "g = burn (?g3\<lparr>gw_packager := pk\<rparr>) pending (tc_burn tc)"
    and conf: "stage_confirmation mac sha (tw_gw w) rq (derived_critical (tw_gw w) rq) (tc_verify tc) = Inr pending"
    and b: "tk_burned tk = map_option fst pending"
    using admit_state [OF sp assms(6)] by metis
  have store: "gw_consumed (?g3\<lparr>gw_packager := pk\<rparr>) = gw_consumed (tw_gw w)"
    by (simp add: reserve_lane_def reserve_total_def split: option.split)
  show ?thesis
  proof (cases pending)
    case None
    then have "gw_consumed g = gw_consumed (tw_gw w)" "tk_burned tk = None"
      using store b by (simp_all add: g burn_consumed)
    moreover have "token_inv (w\<lparr>tw_gw := g, tw_now := tc_burn tc\<rparr>)"
      using token_inv_consumed [OF assms(1) calculation(1)] assms(3-5) by simp
    ultimately show ?thesis unfolding token_inv_def by (simp add: insert_without_token)
  next
    case (Some pe)
    obtain q e where pe: "pe = (q, e)" by (cases pe)
    have q: "dget (gw_consumed (tw_gw w)) q = None" "tc_verify tc \<le> expiry_of q" "e = expiry_of q"
      using pending_granted [OF conf [unfolded Some pe]] by simp_all
    have g': "g = burn (?g3\<lparr>gw_packager := pk\<rparr>) (Some (q, expiry_of q)) (tc_burn tc)" "tk_burned tk = Some q"
      using g b Some pe q(3) by simp_all
    have val: "\<forall>p e. dget (gw_consumed (?g3\<lparr>gw_packager := pk\<rparr>)) p = Some e \<longrightarrow> e = expiry_of p"
      using inv store by simp
    have wf: "dwf (gw_consumed (?g3\<lparr>gw_packager := pk\<rparr>))"
        "length (gw_consumed (?g3\<lparr>gw_packager := pk\<rparr>)) \<le> tw_spent w"
      using inv store by simp_all
    note burnt = burn_spends [OF wf(1) val wf(2) g'(1)]
    have q_new: "\<not> spent (tw_gw w) (tw_now w) q" if "q \<notin> edge_of tc tk"
      using that q(1,2) assms(3,4) g'(2) by (auto simp: spent_def edge_of_def split: if_splits)
    have still: "spent g (tc_burn tc) p" if "tw_spent w < CONSUMED_CONFIRMATIONS_MAX"
        "spent (tw_gw w) (tw_now w) p \<or> p = q" for p
    proof (rule burnt(4) [OF that(1)])
      show "spent (?g3\<lparr>gw_packager := pk\<rparr>) (tc_burn tc) p \<or> p = q"
        using that(2) assms(3-5) store by (auto simp: spent_def)
    qed
    have live: "all_spent g (tc_burn tc) (insert tk (set (tw_live w)))" "unique_tokens (edge_of tc tk \<union> tw_edge w) (insert tk (set (tw_live w)))"
      if n: "tw_spent w < CONSUMED_CONFIRMATIONS_MAX"
    proof -
      have old: "all_spent (tw_gw w) (tw_now w) (set (tw_live w))" "unique_tokens (tw_edge w) (set (tw_live w))"
        using inv n by simp_all
      show "all_spent g (tc_burn tc) (insert tk (set (tw_live w)))"
        by (rule all_spent_step [OF old(1) order_refl]) (use still [OF n] g'(2) in auto)
      show "unique_tokens (edge_of tc tk \<union> tw_edge w) (insert tk (set (tw_live w)))"
        by (rule unique_insert [OF old(2)]) (use old(1) q_new g'(2) in \<open>auto simp: all_spent_def\<close>)
    qed
    have "\<forall>p \<in> edge_of tc tk \<union> tw_edge w. expiry_of p \<le> tc_burn tc"
      using inv assms(3-5) by (fastforce simp: edge_of_def split: option.splits if_splits)
    then show ?thesis
      unfolding token_inv_def using burnt(1-3) live by (simp add: g'(2))
  qed
qed

lemma token_inv_rollback:
  assumes "token_inv w" "rate_inv w" "tk \<in> set (tw_live w)"
  shows "token_inv (w\<lparr>tw_gw := rollback_ticket (tw_gw w) tk, tw_live := remove1 tk (tw_live w)\<rparr>)"
proof -
  note inv = assms(1) [unfolded token_inv_def]
  let ?g = "rollback_ticket (tw_gw w) tk"
  have "distinct (map tk_total (tw_live w))" using assms(2) by (simp add: rate_inv_def)
  note live = remove1_live(2) [OF this assms(3)]
  have c: "gw_consumed ?g = (case tk_burned tk of None \<Rightarrow> gw_consumed (tw_gw w)
      | Some p \<Rightarrow> dpop p (gw_consumed (tw_gw w)))"
    by (simp add: rollback_ticket_def)
  have wf: "dwf (gw_consumed ?g)" "length (gw_consumed ?g) \<le> tw_spent w"
    using inv AList.length_delete_le [of _ "gw_consumed (tw_gw w)"]
    by (auto simp: c dict.wf_discard split: option.split intro: le_trans)
  have val: "\<forall>p e. dget (gw_consumed ?g) p = Some e \<longrightarrow> e = expiry_of p"
    using inv by (auto simp: c dict.lookup_discard split: option.splits if_splits)
  have still: "spent ?g (tw_now w) p" if "spent (tw_gw w) (tw_now w) p" "tk_burned tk \<noteq> Some p" for p
    using that by (auto simp: spent_def c dict.lookup_discard split: option.splits)
  have "all_spent ?g (tw_now w) (set (tw_live w) - {tk})" "unique_tokens (tw_edge w) (set (tw_live w) - {tk})"
    if "tw_spent w \<le> CONSUMED_CONFIRMATIONS_MAX"
  proof -
    have old: "all_spent (tw_gw w) (tw_now w) (set (tw_live w))" "unique_tokens (tw_edge w) (set (tw_live w))"
      using inv that by simp_all
    then show "unique_tokens (tw_edge w) (set (tw_live w) - {tk})" by (meson Diff_subset order_refl unique_subset)
    have "spent ?g (tw_now w) p" if t: "t \<in> set (tw_live w) - {tk}" "tk_burned t = Some p" for t p
    proof (cases "p \<in> tw_edge w")
      case True
      then show ?thesis using inv by (simp add: spent_def)
    next
      case False
      then have "tk_burned tk \<noteq> Some p" using t old(2) assms(3) unfolding unique_tokens_def by blast
      then show ?thesis using still t old(1) unfolding all_spent_def by blast
    qed
    then show "all_spent ?g (tw_now w) (set (tw_live w) - {tk})" unfolding all_spent_def by blast
  qed
  then show ?thesis
    unfolding token_inv_def using wf val live inv by simp
qed

lemma token_inv_step: "gw_step mac sha fmt w w' \<Longrightarrow> token_inv w \<Longrightarrow> rate_inv w \<Longrightarrow> token_inv w'"
proof (induction rule: gw_step.induct)
  case (Admit w tc v rq g estops tk)
  then show ?case by (intro token_inv_admit)
next
  case (Refuse w tc v rq g estops e)
  then have "speed_ok (tw_gw w)" "stamps_ok (tw_gw w)" by (simp_all add: rate_inv_def)
  from refused_state [OF this Refuse(4)] show ?case
    using token_inv_consumed [OF Refuse(5)] Refuse(1-3) by (simp add: advanced_def)
next
  case (Guarded tk w g e)
  then show ?case using token_inv_rollback guard_rollback by (metis Diff_iff)
next
  case (Fenced tk w driver g res)
  then show ?case using token_inv_rollback fence_rollback by (metis Diff_iff)
next
  case (Dispatch tk w driver g f res)
  then show ?case using fence_dispatch [OF Dispatch(2)] by (simp add: token_inv_def)
next
  case (EStop w es)
  then show ?case by (simp add: token_inv_def)
next
  case (Event w g)
  then have "gw_consumed g = gw_consumed (tw_gw w)" using quiet_event by (simp add: quiet_def)
  from token_inv_consumed [OF Event(2) this, of "tw_now w"] show ?case by simp
next
  case (Rebind p w bus now)
  then have "gw_consumed (pl_gw (rebind_bus p bus now)) = gw_consumed (tw_gw w)" by (simp add: rebind_bus_def)
  from token_inv_consumed [OF Rebind(3) this, of "tw_now w"] show ?case by (simp add: token_inv_def)
qed

lemma token_inv_run: "gw_run mac sha fmt w w' \<Longrightarrow> rate_inv w \<Longrightarrow> token_inv w \<Longrightarrow> token_inv w'"
  by (induction rule: gw_run.induct) (auto intro: token_inv_step rate_inv_run)

lemma token_inv_init: "world_init w \<Longrightarrow> token_inv w"
proof -
  assume w: "world_init w"
  then have "gw_consumed (tw_gw w) = []" by (metis world_init_gw)
  then show ?thesis using w by (simp add: token_inv_def world_init_def all_spent_def unique_tokens_def)
qed

text \<open>C4. A confirmation token authorises one frame: in every session in which at most 1024 tokens were
  spent, whatever engagements, rollbacks and refusals happen between the calls in flight, no two
  dispatched calls burned the same token, in any spelling, unless an admitted call presented it in the
  very nanosecond of its expiry (\<open>tw_edge\<close>). For such a call there is no bar: the prune drops a token
  at the reading at which \<open>_verify_confirmation_token\<close> still accepts it, see \<open>edge_token_reusable\<close>.\<close>

theorem confirmation_single_use:
  assumes "world_init w0" "gw_run mac sha fmt w0 w" "tw_spent w \<le> CONSUMED_CONFIRMATIONS_MAX" "p \<notin> tw_edge w"
    and "tk \<in> set (tw_sent w)" "tk' \<in> set (tw_sent w)" "tk_burned tk = Some p" "tk_burned tk' = Some p"
  shows "tk = tk'"
proof -
  have "rate_inv w" "token_inv w"
    using rate_inv_run [OF assms(2)] token_inv_run [OF assms(2)] rate_inv_init token_inv_init assms(1) by blast+
  then have "set (tw_sent w) \<subseteq> set (tw_live w)" "unique_tokens (tw_edge w) (set (tw_live w))"
    using assms(3) by (simp_all add: rate_inv_def token_inv_def)
  then show ?thesis using assms(4-8) unfolding unique_tokens_def by blast
qed

text \<open>What happens to a token spent in the nanosecond of its expiry: another consumption at the same
  reading drops it from the store, and the token is accepted once more.\<close>

lemma edge_token_reusable:
  assumes "gw_consumed g = [(p, now)]" "p \<noteq> q" "now < expiry_of q"
    and g': "g' = consume_confirmation g q (expiry_of q) now"
    and "grants mac sha (g\<lparr>gw_consumed := []\<rparr>) secret tok f ctx now p"
  shows "\<not> grants mac sha g secret tok f ctx now p" "grants mac sha g' secret tok f ctx now p"
proof -
  have "gw_consumed g' = [(q, expiry_of q)]"
    using assms(1-3) by (simp add: g' consume_confirmation_def prune_expired_def CONSUMED_CONFIRMATIONS_MAX_def Let_def)
  then show "grants mac sha g' secret tok f ctx now p" using assms(2,5) by (simp add: grants_def)
  show "\<not> grants mac sha g secret tok f ctx now p" using assms(1) by (simp add: grants_def)
qed

lemma gw_demo_payload_expiry: "expiry_of gw_demo_payload = 100"
  by (simp add: expiry_of_def gw_demo_payload_def) code_simp

definition gw_demo_world :: txworld where
  "gw_demo_world = \<lparr>tw_gw = gw_demo_start, tw_es = es_demo_idle, tw_live = [], tw_sent = [], tw_now = 55,
     tw_mark = 0, tw_spent = 0, tw_edge = {}\<rparr>"

lemma gw_demo_world_init: "world_init gw_demo_world"
  unfolding world_init_def
proof (intro conjI)
  show "\<exists>bus ids masks pk profiles secret legacy superset epoch now.
      gateway_init bus ids masks pk profiles secret legacy superset epoch now = Inr (tw_gw gw_demo_world)"
    unfolding gw_demo_world_def gateway.simps txworld.simps by (intro exI) (rule gw_demo_init)
qed (simp_all add: gw_demo_world_def)

text \<open>The speed is reported, the call admitted and its frame dispatched.\<close>

lemma gw_demo_session:
  obtains w tk where "gw_run gw_demo_mac gw_demo_sha gw_demo_fmt gw_demo_world w" "tw_sent w = [tk]"
    "tk_burned tk = Some gw_demo_payload" "tw_spent w = 1" "gw_demo_payload \<notin> tw_edge w"
proof -
  let ?w = "gw_demo_world\<lparr>tw_gw := gw_demo\<rparr>"
  have 1: "gw_step gw_demo_mac gw_demo_sha gw_demo_fmt gw_demo_world ?w"
    unfolding gw_demo_def update_physical_speed_def
    by (rule gw_step.Event) (simp add: gw_demo_world_def gw_event.Speed)
  obtain g1 tk where a: "admit gw_demo_mac gw_demo_sha gw_demo_fmt gw_demo gw_demo_view es_demo_idle gw_demo_rq gw_demo_tc = ((g1, []), Inr tk)"
    "tk_burned tk = Some gw_demo_payload" "tk_engaged tk = es_engaged es_demo_idle" "tk_fence tk = es_tx_fence es_demo_idle"
    by (rule gw_demo_admitted)
  let ?w2 = "?w\<lparr>tw_gw := g1, tw_live := tk # tw_live ?w, tw_now := tc_burn gw_demo_tc,
      tw_spent := tw_spent ?w + (if tk_burned tk = None then 0 else 1), tw_edge := edge_of gw_demo_tc tk \<union> tw_edge ?w\<rparr>"
  have 2: "gw_step gw_demo_mac gw_demo_sha gw_demo_fmt ?w ?w2"
    by (rule gw_step.Admit) (use a in \<open>simp_all add: gw_demo_world_def gw_demo_tc_def\<close>)
  have 3: "gw_step gw_demo_mac gw_demo_sha gw_demo_fmt ?w2 (?w2\<lparr>tw_gw := g1, tw_sent := tk # tw_sent ?w2\<rparr>)"
    by (rule gw_step.Dispatch [where driver = "Inr ()" and f = "tk_frame tk"])
      (use a in \<open>simp_all add: gw_demo_world_def fenced_dispatch_def\<close>)
  show thesis
    by (rule that [OF gw_run.Next [OF gw_run.Next [OF gw_run.Next [OF gw_run.Start 1] 2] 3]])
      (use a in \<open>simp_all add: gw_demo_world_def edge_of_def gw_demo_payload_expiry gw_demo_tc_def\<close>)
qed

theorem envelope_bounds_rate_witness:
  "\<exists>w. gw_run gw_demo_mac gw_demo_sha gw_demo_fmt gw_demo_world w \<and> tw_sent w \<noteq> [] \<and>
     length (in_last_second w) \<le> MAX_TOTAL_TX_PER_SEC"
proof -
  obtain w tk where "gw_run gw_demo_mac gw_demo_sha gw_demo_fmt gw_demo_world w" "tw_sent w = [tk]"
    by (rule gw_demo_session)
  then show ?thesis using envelope_bounds_rate [OF gw_demo_world_init] by auto
qed

theorem confirmation_single_use_witness:
  "\<exists>w tk. gw_run gw_demo_mac gw_demo_sha gw_demo_fmt gw_demo_world w \<and> tk \<in> set (tw_sent w) \<and>
     tk_burned tk = Some gw_demo_payload \<and>
     (\<forall>tk' \<in> set (tw_sent w). tk_burned tk' = Some gw_demo_payload \<longrightarrow> tk' = tk)"
proof -
  obtain w tk where w: "gw_run gw_demo_mac gw_demo_sha gw_demo_fmt gw_demo_world w" "tw_sent w = [tk]"
    "tk_burned tk = Some gw_demo_payload" "tw_spent w = 1" "gw_demo_payload \<notin> tw_edge w" by (rule gw_demo_session)
  have "tk' = tk" if "tk' \<in> set (tw_sent w)" "tk_burned tk' = Some gw_demo_payload" for tk'
    by (rule confirmation_single_use [OF gw_demo_world_init w(1) _ w(5) that(1) _ that(2) w(3)])
      (use w in \<open>simp_all add: CONSUMED_CONFIRMATIONS_MAX_def\<close>)
  then show ?thesis using w by auto
qed

end
