(* ===== verification/GatewayLimits.thy ===== *)
theory GatewayLimits
  imports GatewayRun
begin

text \<open>
  Where the gateway's bookkeeping ends: when a spent token is forgotten, what a rejected frame costs the
  other lanes, and how whitelist misses escalate.
\<close>

section \<open>The replay store\<close>

lemma consume_full:
  assumes "gw_consumed g = (p, e) # rest" "length (gw_consumed g) = CONSUMED_CONFIRMATIONS_MAX"
    and "now < e" "dget (gw_consumed g) q = None"
  shows "gw_consumed (consume_confirmation g q e' now) = rest @ [(q, e')]"
proof -
  have prune: "prune_expired (gw_consumed g) now = (p, e) # rest"
    using assms(1,3) by (simp add: prune_expired_def)
  have "dset q e' d = d @ [(q, e')]" if "dget d q = None" for d :: "(bytes, int) dict"
    using that by (induction d) (auto split: if_splits)
  moreover have "dget ((p, e) # rest) q = None" using assms(1,4) by (simp only:)
  ultimately have "dset q e' ((p, e) # rest) = (p, e) # rest @ [(q, e')]" by auto
  moreover have "length ((p, e) # rest @ [(q, e')]) - CONSUMED_CONFIRMATIONS_MAX = 1" using assms(1,2) by simp
  ultimately show ?thesis unfolding consume_confirmation_def Let_def prune by (simp only: append_Cons) simp
qed

text \<open>C13. The replay store forgets a live token: when it holds 1024 entries and the oldest has not expired,
  spending one more token evicts the oldest, although entries behind it may have expired, which all
  stay; and the forgotten token grants its frame once more.\<close>

theorem live_token_replayable:
  assumes "dwf (gw_consumed g)" "gw_consumed g = (p, e) # rest"
    and "length (gw_consumed g) = CONSUMED_CONFIRMATIONS_MAX" "now < e" "dget (gw_consumed g) q = None"
    and "grants mac sha (g\<lparr>gw_consumed := []\<rparr>) secret tok f context now' p"
  shows "grants mac sha (consume_confirmation g q e' now) secret tok f context now' p \<and>
    set rest \<subseteq> set (gw_consumed (consume_confirmation g q e' now))"
proof -
  note c = consume_full [OF assms(2-5), of e']
  have "dget (rest @ [(q, e')]) p = None"
    using assms(1,2,5) by (auto simp: map_of_eq_None_iff)
  then show ?thesis using assms(6) c by (auto simp: grants_def)
qed

section \<open>Rejections and the other lanes\<close>

text \<open>Calls offered one after the other: the gateway they leave, the stops they park, and how many of
  them were admitted.\<close>

type_synonym tx_call = "tx_view \<times> estop \<times> tx_request \<times> tx_clock"

fun offer ::
  "(bytes \<Rightarrow> bytes \<Rightarrow> bytes) \<Rightarrow> (bytes \<Rightarrow> bytes) \<Rightarrow> (rat \<Rightarrow> string) \<Rightarrow> tx_call list \<Rightarrow> gateway \<Rightarrow>
   gateway \<times> parked \<times> nat" where
  "offer mac sha fmt [] g = (g, [], 0)"
| "offer mac sha fmt ((v, es, rq, tc) # calls) g =
     (case admit mac sha fmt g v es rq tc of
        ((g, estops), res) \<Rightarrow>
          (case offer mac sha fmt calls g of
             (g, estops', n) \<Rightarrow> (g, estops @ estops', n + (case res of Inl _ \<Rightarrow> 0 | Inr _ \<Rightarrow> 1))))"

text \<open>A call that reaches the rate stages without a confirmation.\<close>

definition plain :: "gateway \<Rightarrow> tx_view \<Rightarrow> tx_request \<Rightarrow> tx_clock \<Rightarrow> bool" where
  "plain g v rq tc \<longleftrightarrow> stage_sanity (rq_frame rq) = Inr () \<and> stage_safety_state v = Inr () \<and>
     stage_read_only g (rq_frame rq) False (tc_now tc) = Inr () \<and> listed g (frame_arbitration_id (rq_frame rq)) \<and>
     \<not> derived_critical g rq"

lemma plain_admit:
  assumes "plain g v rq tc" "gw_packager g = None"
  shows "admit mac sha fmt g v es rq tc =
    act_bind (stage_envelope (g, []) rq tc) (\<lambda>s total_stamp.
    act_bind (stage_lane s rq tc) (\<lambda>s reserved.
    act_bind (stage_e2e s (rq_frame rq) reserved total_stamp (tc_now tc)) (\<lambda>s sealed_frame.
      (s, Inr \<lparr>tk_frame = sealed_frame, tk_stamp = fst reserved, tk_bucket = snd reserved,
              tk_total = Some total_stamp, tk_burned = None, tk_engaged = es_engaged es,
              tk_fence = es_tx_fence es\<rparr>))))"
proof -
  have w: "stage_whitelist (g, []) (rq_frame rq) (tc_now tc) = ((g, []), Inr ())"
    using assms(1) by (simp add: plain_def whitelist_ok)
  show ?thesis using assms(1) unfolding admit_def Let_def plain_def
    by (simp add: w stage_speed_def stage_confirmation_def burn_def)
qed

text \<open>The gateway after \<open>n\<close> calls of the default lane within a second from \<open>T\<close>.\<close>

definition flooded :: "int \<Rightarrow> nat \<Rightarrow> gateway \<Rightarrow> gateway \<Rightarrow> bool" where
  "flooded T n g0 g \<longleftrightarrow> length (gw_total_stamps g) = n \<and> length (gw_tx_stamps g) = min n MAX_TX_RATE_PER_SEC \<and>
     (\<forall>s \<in> set (gw_total_stamps g) \<union> set (gw_tx_stamps g). T \<le> fst s) \<and>
     gw_packager g = None \<and> gw_budgets g = gw_budgets g0 \<and> gw_whitelist_ids g = gw_whitelist_ids g0 \<and>
     gw_whitelist_masks g = gw_whitelist_masks g0 \<and> gw_bypass g = gw_bypass g0 \<and>
     gw_read_only g = gw_read_only g0 \<and> speed_ok g"

lemma drop_old_none: "\<forall>s \<in> set xs. T \<le> fst s \<Longrightarrow> now < T + RATE_LIMIT_WINDOW_NS \<Longrightarrow> drop_old now xs = xs"
  by (cases xs) (auto simp: drop_old_def)

lemma plain_cong:
  "flooded T n g0 g \<Longrightarrow> plain g v rq tc = plain g0 v rq tc"
  by (simp add: flooded_def plain_def stage_read_only_def listed_def derived_critical_def)

definition flooding :: "int \<Rightarrow> gateway \<Rightarrow> tx_call \<Rightarrow> bool" where
  "flooding T g call \<longleftrightarrow> (case call of (v, es, rq, tc) \<Rightarrow> plain g v rq tc \<and> rq_category rq = ''default'' \<and>
     rq_inbound rq \<and> T \<le> tc_now tc \<and> tc_now tc < T + RATE_LIMIT_WINDOW_NS)"

lemma flood_step:
  assumes "flooded T n g0 g" "n < MAX_TOTAL_TX_PER_SEC" "flooding T g0 (v, es, rq, tc)"
    and "dget (gw_budgets g0) ''default'' \<noteq> None"
  obtains g' res where "admit mac sha fmt g v es rq tc = ((g', []), res)" "flooded T (Suc n) g0 g'"
    "(\<exists>tk. res = Inr tk) \<longleftrightarrow> n < MAX_TX_RATE_PER_SEC"
proof -
  have c: "plain g v rq tc" "rq_category rq = ''default''" "rq_inbound rq" "T \<le> tc_now tc"
      "tc_now tc < T + RATE_LIMIT_WINDOW_NS" "gw_packager g = None" "dget (gw_budgets g) ''default'' \<noteq> None"
    using assms(1,3,4) plain_cong [OF assms(1)] by (auto simp: flooding_def flooded_def)
  note fl = assms(1) [unfolded flooded_def]
  have keep: "drop_old (tc_now tc) (gw_total_stamps g) = gw_total_stamps g"
      "drop_old (tc_now tc) (gw_tx_stamps g) = gw_tx_stamps g"
    using fl by (auto intro!: drop_old_none [OF _ c(5)])
  have env: "stage_envelope (g, []) rq tc = ((reserve_total g tc, []), Inr (tc_now tc, tc_thread tc, gw_stamp_seq g + 1))"
    using c(2,7) fl assms(2) by (simp add: envelope_ok envelope_room_def keep)
  have tx: "gw_tx_stamps (reserve_total g tc) = gw_tx_stamps g" by (simp add: reserve_total_def)
  have e2e: "stage_e2e (h, []) f reserved total_stamp now = ((h, []), Inr f)"
    if "gw_packager h = None" for h f reserved total_stamp now
    using that by (simp add: stage_e2e_def)
  show thesis
  proof (cases "n < MAX_TX_RATE_PER_SEC")
    case True
    let ?g = "(reserve_total g tc)\<lparr>gw_rate_streak := 0, gw_stamp_seq := gw_stamp_seq g + 2,
        gw_tx_stamps := gw_tx_stamps g @ [(tc_now tc, tc_thread tc, gw_stamp_seq g + 2)]\<rparr>"
    have lane: "stage_lane (reserve_total g tc, []) rq tc =
        ((?g, []), Inr (Some (tc_now tc, tc_thread tc, gw_stamp_seq g + 2), None))"
      using True fl c(2) by (simp add: stage_lane_def stage_window_def Let_def tx keep) (simp add: reserve_total_def)
    have "gw_packager ?g = None" using c(6) by (simp add: reserve_total_def)
    then have "\<exists>tk. admit mac sha fmt g v es rq tc = ((?g, []), Inr tk)"
      by (simp add: plain_admit [OF c(1,6)] env lane e2e)
    moreover have "flooded T (Suc n) g0 ?g"
      using fl c(4) True by (auto simp: flooded_def reserve_total_def keep speed_ok_def)
    ultimately show thesis using that True by blast
  next
    case False
    let ?g = "log_rate_reject ((reserve_total g tc)\<lparr>gw_tx_stamps := gw_tx_stamps g,
        gw_rate_streak := gw_rate_streak g + 1\<rparr>) (tc_now tc)"
    have lane: "stage_lane (reserve_total g tc, []) rq tc = ((?g, []), rate_limited)"
      using False fl c(2,3) by (simp add: stage_lane_def stage_window_def Let_def tx keep)
        (simp add: reserve_total_def rate_limited_def)
    have "admit mac sha fmt g v es rq tc = ((?g, []), rate_limited)"
      by (simp add: plain_admit [OF c(1,6)] env lane) (simp add: rate_limited_def)
    moreover have "flooded T (Suc n) g0 ?g"
      using fl c(4) False by (auto simp: flooded_def reserve_total_def log_rate_reject_def keep speed_ok_def)
    ultimately show thesis using that [of ?g rate_limited] False by (simp add: rate_limited_def)
  qed
qed

lemma flood_run:
  assumes "flooded T n g0 g" "n + length calls \<le> MAX_TOTAL_TX_PER_SEC" "\<forall>call \<in> set calls. flooding T g0 call"
    and "dget (gw_budgets g0) ''default'' \<noteq> None"
  shows "\<exists>g' k. offer mac sha fmt calls g = (g', [], k) \<and> flooded T (n + length calls) g0 g' \<and>
    min n MAX_TX_RATE_PER_SEC + k = min (n + length calls) MAX_TX_RATE_PER_SEC"
  using assms
proof (induction calls arbitrary: n g)
  case (Cons call calls)
  obtain v es rq tc where call: "call = (v, es, rq, tc)" by (cases call) auto
  obtain g1 res where s: "admit mac sha fmt g v es rq tc = ((g1, []), res)" "flooded T (Suc n) g0 g1"
      "(\<exists>tk. res = Inr tk) \<longleftrightarrow> n < MAX_TX_RATE_PER_SEC"
    by (rule flood_step [OF Cons.prems(1), of v es rq tc mac sha fmt]) (use Cons.prems call in auto)
  obtain g2 k where r: "offer mac sha fmt calls g1 = (g2, [], k)" "flooded T (Suc n + length calls) g0 g2"
      "min (Suc n) MAX_TX_RATE_PER_SEC + k = min (Suc n + length calls) MAX_TX_RATE_PER_SEC"
    using Cons.IH [OF s(2)] Cons.prems by auto
  have "offer mac sha fmt (call # calls) g = (g2, [], k + (case res of Inl _ \<Rightarrow> 0 | Inr _ \<Rightarrow> 1))"
    by (simp add: call s(1) r(1))
  moreover have "min n MAX_TX_RATE_PER_SEC + (k + (case res of Inl _ \<Rightarrow> 0 | Inr _ \<Rightarrow> 1)) =
      min (Suc n + length calls) MAX_TX_RATE_PER_SEC"
    using r(3) s(3) by (cases res) auto
  ultimately show ?case using r(2) by auto
qed simp

text \<open>C12. A rejected call still costs the other lanes: of 400 harmless calls on the default lane within a
  second 100 are admitted and 300 rejected, but the stamps the rejected ones put into the aggregate window
  stay, so until the second is over no call of any lane is admitted. The calls are answers to received
  frames (\<open>rq_inbound\<close>), for which no emergency stop is parked; of other calls the fifth rejection in a row
  would engage it.\<close>

theorem rejections_starve_other_lanes:
  assumes "gw_total_stamps g = []" "gw_tx_stamps g = []" "gw_packager g = None" "speed_ok g"
    and "dget (gw_budgets g) ''default'' \<noteq> None"
    and "length calls = MAX_TOTAL_TX_PER_SEC" "\<forall>call \<in> set calls. flooding T g call"
  shows "\<exists>g'. offer mac sha fmt calls g = (g', [], MAX_TX_RATE_PER_SEC) \<and>
    (\<forall>v es rq tc s tk. T \<le> tc_now tc \<and> tc_now tc < T + RATE_LIMIT_WINDOW_NS \<longrightarrow>
       admit mac sha fmt g' v es rq tc \<noteq> (s, Inr tk))"
proof -
  have "flooded T 0 g g" using assms(1-4) by (simp add: flooded_def)
  from flood_run [OF this _ assms(7,5), of mac sha fmt] obtain g' k where r: "offer mac sha fmt calls g = (g', [], k)"
      "flooded T MAX_TOTAL_TX_PER_SEC g g'" "k = min MAX_TOTAL_TX_PER_SEC MAX_TX_RATE_PER_SEC"
    using assms(6) by auto
  have "\<not> envelope_room g' rq now" if "now < T + RATE_LIMIT_WINDOW_NS" for rq now
    using r(2) drop_old_none [OF _ that, of "gw_total_stamps g'"] by (auto simp: envelope_room_def flooded_def)
  moreover have "speed_ok g'" using r(2) by (simp add: flooded_def)
  moreover have "k = MAX_TX_RATE_PER_SEC" using r(3) by (simp add: MAX_TOTAL_TX_PER_SEC_def MAX_TX_RATE_PER_SEC_def)
  ultimately show ?thesis using r(1) by (auto simp: admit_success)
qed

section \<open>Whitelist misses\<close>

text \<open>A call whose frame reaches the whitelist and is not on it.\<close>

definition missing :: "gateway \<Rightarrow> tx_call \<Rightarrow> bool" where
  "missing g call \<longleftrightarrow> (case call of (v, es, rq, tc) \<Rightarrow>
     stage_sanity (rq_frame rq) = Inr () \<and> stage_safety_state v = Inr () \<and>
     stage_read_only g (rq_frame rq) (derived_critical g rq) (tc_now tc) = Inr () \<and>
     \<not> listed g (frame_arbitration_id (rq_frame rq)))"

text \<open>Nothing that concerns the whitelist changes.\<close>

definition same_list :: "gateway \<Rightarrow> gateway \<Rightarrow> bool" where
  "same_list g g' \<longleftrightarrow> gw_whitelist_ids g' = gw_whitelist_ids g \<and> gw_whitelist_masks g' = gw_whitelist_masks g \<and>
     gw_bypass g' = gw_bypass g \<and> gw_read_only g' = gw_read_only g"

definition same_streak :: "gateway \<Rightarrow> gateway \<Rightarrow> bool" where
  "same_streak g g' \<longleftrightarrow> same_list g g' \<and> gw_miss_streak g' = gw_miss_streak g \<and> gw_last_miss_ns g' = gw_last_miss_ns g"

lemma same_streak_trans: "same_streak g1 g2 \<Longrightarrow> same_streak g2 g3 \<Longrightarrow> same_streak g1 g3"
  by (simp add: same_streak_def same_list_def)

lemma act_bind_keeps:
  assumes "same_streak g (fst (fst m))" "\<And>s x. same_streak g (fst s) \<Longrightarrow> same_streak g (fst (fst (f s x)))"
  shows "same_streak g (fst (fst (act_bind m f)))"
  using assms by (auto simp: act_bind_def split: prod.split sum.split)

lemma same_streak_window: "same_streak g (fst (fst (stage_window (g, estops) rq tc)))"
  by (simp add: stage_window_def Let_def same_streak_def same_list_def log_rate_reject_def)

lemma same_streak_bucket: "same_streak g (fst (fst (stage_bucket (g, estops) rq tc)))"
  by (simp add: stage_bucket_def same_streak_def same_list_def split: option.split prod.split)

lemma same_streak_lane: "same_streak g (fst s) \<Longrightarrow> same_streak g (fst (fst (stage_lane s rq tc)))"
  unfolding stage_lane_def
  by (cases s) (auto intro!: act_bind_keeps intro: same_streak_trans same_streak_window same_streak_bucket)

lemma same_streak_envelope: "same_streak g (fst s) \<Longrightarrow> same_streak g (fst (fst (stage_envelope s rq tc)))"
  by (cases s) (simp add: stage_envelope_def Let_def same_streak_def same_list_def sanity_error_def)

lemma same_streak_rollback: "same_streak g (rollback_tx_reservation g reserved total_stamp burned)"
  by (auto simp: rollback_tx_reservation_def Let_def same_streak_def same_list_def split: option.split)

lemma same_streak_e2e:
  "same_streak g (fst s) \<Longrightarrow> same_streak g (fst (fst (stage_e2e s f reserved total_stamp now)))"
proof -
  assume g: "same_streak g (fst s)"
  have "same_streak (fst s) (fst (fst (stage_e2e s f reserved total_stamp now)))"
    by (cases s) (auto simp: stage_e2e_def same_streak_def same_list_def rollback_tx_reservation_def Let_def
        split: option.split prod.split sum.split)
  then show ?thesis using same_streak_trans g by blast
qed

lemma same_streak_burn: "same_streak g (burn g pending now)"
  by (simp add: burn_def consume_confirmation_def Let_def same_streak_def same_list_def split: option.split)

lemma same_streak_refl [simp]: "same_streak g g"
  by (simp add: same_streak_def same_list_def)

text \<open>Admission: everything but a miss leaves the streak.\<close>

lemma admit_streak:
  assumes "admit mac sha fmt g v es rq tc = ((g', estops), res)"
  shows "if missing g (v, es, rq, tc) \<and> (gw_whitelist_ids g \<noteq> [] \<or> gw_whitelist_masks g \<noteq> [])
    then g' = count_miss g (tc_now tc) \<and> res = Inl (SafetyError ''WHITELIST_VIOLATION'') \<and>
      (if gw_miss_streak g' \<ge> WHITELIST_ESTOP_AFTER
       then \<exists>reason. estops = [(UNAUTHORIZED_PAYLOAD, reason, Some 0)] else estops = [])
    else same_streak g g'"
proof -
  let ?f = "rq_frame rq" and ?crit = "derived_critical g rq" and ?m = "admit mac sha fmt g v es rq tc"
  let ?reach = "stage_sanity ?f = Inr () \<and> stage_safety_state v = Inr () \<and> stage_read_only g ?f ?crit (tc_now tc) = Inr ()"
  let ?rest = "\<lambda>s. act_bind (stage_speed fmt s ?crit (tc_now tc)) (\<lambda>s _.
      act_bind (s, stage_confirmation mac sha (fst s) rq ?crit (tc_verify tc)) (\<lambda>s pending.
      act_bind (stage_envelope s rq tc) (\<lambda>s total_stamp.
      act_bind (stage_lane s rq tc) (\<lambda>s reserved.
      act_bind (stage_e2e s ?f reserved total_stamp (tc_now tc)) (\<lambda>s sealed_frame.
        ((burn (fst s) pending (tc_burn tc), snd s),
         Inr \<lparr>tk_frame = sealed_frame, tk_stamp = fst reserved, tk_bucket = snd reserved,
              tk_total = Some total_stamp, tk_burned = map_option fst pending,
              tk_engaged = es_engaged es, tk_fence = es_tx_fence es\<rparr>))))))"
  have rest: "same_streak g (fst (fst (?rest s)))" if "same_streak g (fst s)" for s
  proof (intro act_bind_keeps)
    show "same_streak g (fst (fst (stage_speed fmt s ?crit (tc_now tc))))"
      using that speed_state [of fmt "fst s" "snd s"] by simp
  qed (auto intro: same_streak_envelope same_streak_lane same_streak_e2e same_streak_trans same_streak_burn)
  have chain: "?m = act_bind (stage_whitelist (g, []) ?f (tc_now tc)) (\<lambda>s _. ?rest s)" if ?reach
    using that by (simp add: admit_def Let_def)
  show ?thesis
  proof (cases ?reach)
    case False
    then have "fst ?m = (g, [])"
      by (auto simp: admit_def Let_def act_bind_def split: sum.split prod.split)
    then show ?thesis using assms False by (auto simp: missing_def)
  next
    case True
    note m = chain [OF True]
    show ?thesis
    proof (cases "listed g (frame_arbitration_id ?f)")
      case listed: True
      then have "stage_whitelist (g, []) ?f (tc_now tc) = ((g, []), Inr ())" by (simp add: whitelist_ok)
      then have "g' = fst (fst (?rest (g, [])))" using assms m by simp
      then show ?thesis using rest [of "(g, [])"] listed by (simp add: missing_def)
    next
      case False
      then show ?thesis using assms m True
        by (auto simp: missing_def stage_whitelist_def listed_def Let_def split: if_splits)
    qed
  qed
qed

lemma count_miss_now:
  assumes "0 < T" "T \<le> now" "now \<le> T + WHITELIST_MISS_STREAK_WINDOW_NS"
    and "gw_miss_streak g \<noteq> 0 \<longrightarrow> T \<le> gw_last_miss_ns g"
  shows "gw_miss_streak (count_miss g now) = Suc (gw_miss_streak g)" "gw_last_miss_ns (count_miss g now) = now"
    "same_list g (count_miss g now)"
  using assms by (auto simp: count_miss_def decay_whitelist_miss_streak_def Let_def same_list_def
      WHITELIST_MISS_STREAK_WINDOW_NS_def)

lemma missing_cong: "same_list g g' \<Longrightarrow> missing g' call = missing g call"
  by (auto simp: missing_def same_list_def stage_read_only_def listed_def derived_critical_def split: prod.split)

text \<open>Whole calls one after the other: all three phases, and the stops the call parked are fired. What
  other threads do meanwhile is up to each call's interleaving; a calm one keeps their hands off the miss
  streak and the whitelist between the phases.\<close>

type_synonym full_call = "tx_request \<times> tx_clock \<times> sys_time \<times> interleaving"

definition after_call ::
  "(bytes \<Rightarrow> bytes \<Rightarrow> bytes) \<Rightarrow> (bytes \<Rightarrow> bytes) \<Rightarrow> (rat \<Rightarrow> string) \<Rightarrow> plant \<Rightarrow> full_call \<Rightarrow> plant" where
  "after_call mac sha fmt p call =
     (case call of (rq, tc, t, il) \<Rightarrow> fst (fst (validate_and_transmit mac sha fmt p rq tc t il)))"

fun tx_calls ::
  "(bytes \<Rightarrow> bytes \<Rightarrow> bytes) \<Rightarrow> (bytes \<Rightarrow> bytes) \<Rightarrow> (rat \<Rightarrow> string) \<Rightarrow> plant \<Rightarrow> full_call list \<Rightarrow> plant list" where
  "tx_calls mac sha fmt p [] = []"
| "tx_calls mac sha fmt p (call # calls) =
     after_call mac sha fmt p call # tx_calls mac sha fmt (after_call mac sha fmt p call) calls"

definition misses_at :: "plant \<Rightarrow> full_call \<Rightarrow> bool" where
  "misses_at p call \<longleftrightarrow> (case call of (rq, tc, t, il) \<Rightarrow> missing (pl_gw p) (view_of p t, pl_es p, rq, tc))"

fun misses ::
  "(bytes \<Rightarrow> bytes \<Rightarrow> bytes) \<Rightarrow> (bytes \<Rightarrow> bytes) \<Rightarrow> (rat \<Rightarrow> string) \<Rightarrow> plant \<Rightarrow> full_call list \<Rightarrow> nat" where
  "misses mac sha fmt p [] = 0"
| "misses mac sha fmt p (call # calls) =
     (if misses_at p call then 1 else 0) + misses mac sha fmt (after_call mac sha fmt p call) calls"

definition calm :: "interleaving \<Rightarrow> bool" where
  "calm il \<longleftrightarrow> (\<forall>p. same_streak (pl_gw p) (pl_gw (il_guard il p)) \<and> same_streak (pl_gw p) (pl_gw (il_dispatch il p)))"

definition in_window :: "int \<Rightarrow> full_call \<Rightarrow> bool" where
  "in_window T call \<longleftrightarrow> (case call of (rq, tc, t, il) \<Rightarrow>
     calm il \<and> T \<le> tc_now tc \<and> tc_now tc \<le> T + WHITELIST_MISS_STREAK_WINDOW_NS)"

lemma missing_view: "missing g (v, es, rq, tc) = missing g (v, es', rq, tc)"
  by (simp add: missing_def)

lemma same_streak_dispatch:
  assumes "calm il"
  shows "same_streak (pl_gw p) (pl_gw (fst (fst (guarded_dispatch p tk il))))"
proof -
  let ?p = "il_guard il p"
  have guard: "same_streak g (fst (final_guard g es tk))" for g es
    by (auto simp: final_guard_def rollback_ticket_def same_streak_rollback)
  have fence: "same_streak g (fst (fenced_dispatch g es tk driver))" for g es driver
    by (auto simp: fenced_dispatch_def rollback_ticket_def same_streak_rollback)
  obtain g r where fg: "final_guard (pl_gw ?p) (pl_es ?p) tk = (g, r)" by (metis prod.collapse)
  have 1: "same_streak (pl_gw p) g"
    using assms guard [of "pl_gw ?p" "pl_es ?p"] same_streak_trans unfolding calm_def fg by fastforce
  show ?thesis
  proof (cases r)
    case (Inl e)
    then show ?thesis using 1 by (simp add: guarded_dispatch_def fg Let_def)
  next
    case (Inr u)
    let ?q = "il_dispatch il (?p\<lparr>pl_gw := g\<rparr>)"
    have "same_streak g (pl_gw ?q)" using assms unfolding calm_def by (metis plant.select_convs(1) plant.surjective plant.update_convs(1))
    then have "same_streak (pl_gw p) (fst (fenced_dispatch (pl_gw ?q) (pl_es ?q) tk (il_driver il)))"
      using 1 fence same_streak_trans by blast
    then show ?thesis using Inr
      by (cases "fenced_dispatch (pl_gw ?q) (pl_es ?q) tk (il_driver il)") (simp add: guarded_dispatch_def fg Let_def)
  qed
qed

text \<open>A call that leaves the emergency stop free counts a miss exactly if it missed.\<close>

lemma call_streak:
  assumes "in_window T (rq, tc, t, il)" "\<not> es_engaged (pl_es (after_call mac sha fmt p (rq, tc, t, il)))"
    and "gw_whitelist_ids (pl_gw p) \<noteq> [] \<or> gw_whitelist_masks (pl_gw p) \<noteq> []"
  shows "if misses_at p (rq, tc, t, il)
    then pl_gw (after_call mac sha fmt p (rq, tc, t, il)) = count_miss (pl_gw p) (tc_now tc)
    else same_streak (pl_gw p) (pl_gw (after_call mac sha fmt p (rq, tc, t, il)))"
proof -
  let ?es = "il_stages il (pl_es p)" and ?p' = "after_call mac sha fmt p (rq, tc, t, il)"
  obtain g estops res where a: "admit mac sha fmt (pl_gw p) (view_of p t) ?es rq tc = ((g, estops), res)"
    by (metis prod.collapse)
  have step: "if misses_at p (rq, tc, t, il) then g = count_miss (pl_gw p) (tc_now tc) \<and> res = Inl (SafetyError ''WHITELIST_VIOLATION'')
      else same_streak (pl_gw p) g"
    using admit_streak [OF a] assms(3) missing_view [of "pl_gw p" "view_of p t" ?es rq tc "pl_es p"]
    unfolding misses_at_def prod.case by (simp split: if_splits)
  show ?thesis
  proof (cases res)
    case (Inl e)
    then have p': "?p' = fire_estops estops (p\<lparr>pl_gw := g, pl_es := ?es\<rparr>) t"
      by (simp add: after_call_def validate_and_transmit_def transmit_locked_def a Let_def)
    then have "estops = []" using assms(2) fire_engages by metis
    then show ?thesis using p' step by simp
  next
    case (Inr tk)
    let ?q = "p\<lparr>pl_gw := g, pl_es := ?es\<rparr>"
    have p': "?p' = fire_estops estops (fst (fst (guarded_dispatch ?q tk il))) t"
      using Inr by (simp add: after_call_def validate_and_transmit_def transmit_locked_def a Let_def split: prod.split)
    then have "estops = []" using assms(2) fire_engages by metis
    moreover have "same_streak g (pl_gw (fst (fst (guarded_dispatch ?q tk il))))"
      using same_streak_dispatch [of il ?q tk] assms(1) by (simp add: in_window_def)
    ultimately show ?thesis using p' step Inr same_streak_trans by (auto split: if_splits)
  qed
qed

lemma calls_streak:
  assumes "0 < T" "gw_whitelist_ids g0 \<noteq> [] \<or> gw_whitelist_masks g0 \<noteq> []"
    and "same_list g0 (pl_gw p)" "gw_miss_streak (pl_gw p) \<noteq> 0 \<longrightarrow> T \<le> gw_last_miss_ns (pl_gw p)"
    and "\<forall>call \<in> set calls. in_window T call" "\<forall>q \<in> set (tx_calls mac sha fmt p calls). \<not> es_engaged (pl_es q)"
    and "q = last (p # tx_calls mac sha fmt p calls)"
  shows "same_list g0 (pl_gw q) \<and> gw_miss_streak (pl_gw q) = gw_miss_streak (pl_gw p) + misses mac sha fmt p calls \<and>
    (gw_miss_streak (pl_gw q) \<noteq> 0 \<longrightarrow> T \<le> gw_last_miss_ns (pl_gw q))"
  using assms(3-7)
proof (induction calls arbitrary: p)
  case (Cons call calls)
  obtain rq tc t il where call: "call = (rq, tc, t, il)" by (cases call) auto
  let ?p = "after_call mac sha fmt p call"
  have win: "T \<le> tc_now tc" "tc_now tc \<le> T + WHITELIST_MISS_STREAK_WINDOW_NS"
    using Cons.prems(3) by (simp_all add: call in_window_def)
  have list: "gw_whitelist_ids (pl_gw p) \<noteq> [] \<or> gw_whitelist_masks (pl_gw p) \<noteq> []"
    using assms(2) Cons.prems(1) by (simp add: same_list_def)
  have step: "if misses_at p call then pl_gw ?p = count_miss (pl_gw p) (tc_now tc) else same_streak (pl_gw p) (pl_gw ?p)"
    unfolding call by (rule call_streak [where T = T]) (use Cons.prems(3,4) list call in auto)
  have "same_list g0 (pl_gw ?p) \<and>
      gw_miss_streak (pl_gw ?p) = gw_miss_streak (pl_gw p) + (if misses_at p call then 1 else 0) \<and>
      (gw_miss_streak (pl_gw ?p) \<noteq> 0 \<longrightarrow> T \<le> gw_last_miss_ns (pl_gw ?p))"
  proof (cases "misses_at p call")
    case True
    then show ?thesis using step count_miss_now [OF assms(1) win Cons.prems(2)] win Cons.prems(1)
      by (simp add: same_list_def)
  next
    case False
    then show ?thesis using step Cons.prems(1,2) by (simp add: same_streak_def same_list_def)
  qed
  moreover have "q = last (?p # tx_calls mac sha fmt ?p calls)" using Cons.prems(5) by simp
  ultimately show ?case using Cons.IH [of ?p] Cons.prems(3,4) by auto
qed simp

text \<open>C11. Probing of the whitelist escalates: of calls made one after the other within a second, accepted
  or not, each with all its phases and the stops it parks, a call whose frame is not listed is refused,
  the first four times without consequence, and at the fifth the emergency stop is engaged when the call
  returns. This counts from a streak of zero, as long as no call engages the emergency stop before and no
  other thread resets the streak between the phases of a call: an engagement and a change of the bus or
  the whitelist start the count anew.\<close>

theorem fifth_miss_engages:
  assumes "gw_miss_streak (pl_gw p) = 0" "gw_whitelist_ids (pl_gw p) \<noteq> [] \<or> gw_whitelist_masks (pl_gw p) \<noteq> []"
    and "0 < T" "\<forall>call \<in> set calls. in_window T call"
    and "\<forall>q \<in> set (tx_calls mac sha fmt p calls). \<not> es_engaged (pl_es q)"
    and "q = last (p # tx_calls mac sha fmt p calls)"
    and "misses_at q (rq, tc, t, il)" "in_window T (rq, tc, t, il)"
    and "validate_and_transmit mac sha fmt q rq tc t il = ((p', sent), res)"
  shows "sent = [] \<and> res = Inl (SafetyError ''WHITELIST_VIOLATION'') \<and>
    (if misses mac sha fmt p calls \<ge> 4 then es_engaged (pl_es p') else pl_es p' = il_stages il (pl_es q))"
proof -
  let ?g = "pl_gw q" and ?n = "misses mac sha fmt p calls"
  have "same_list (pl_gw p) (pl_gw p)" by (simp add: same_list_def)
  then have s: "same_list (pl_gw p) ?g" "gw_miss_streak ?g = ?n" "gw_miss_streak ?g \<noteq> 0 \<longrightarrow> T \<le> gw_last_miss_ns ?g"
    using calls_streak [OF assms(3,2) _ _ assms(4-6)] assms(1) by auto
  obtain g2 parked r where a: "admit mac sha fmt ?g (view_of q t) (il_stages il (pl_es q)) rq tc = ((g2, parked), r)"
    by (metis prod.collapse)
  have miss: "missing ?g (view_of q t, il_stages il (pl_es q), rq, tc)"
      "gw_whitelist_ids ?g \<noteq> [] \<or> gw_whitelist_masks ?g \<noteq> []"
    using assms(2,7) s(1) by (simp_all add: same_list_def missing_def misses_at_def)
  have win: "T \<le> tc_now tc" "tc_now tc \<le> T + WHITELIST_MISS_STREAK_WINDOW_NS"
    using assms(8) by (simp_all add: in_window_def)
  have g2: "g2 = count_miss ?g (tc_now tc)" "r = Inl (SafetyError ''WHITELIST_VIOLATION'')"
      "if gw_miss_streak g2 \<ge> WHITELIST_ESTOP_AFTER then parked \<noteq> [] else parked = []"
    using admit_streak [OF a] miss by auto
  have streak: "gw_miss_streak g2 = Suc ?n" using count_miss_now(1) [OF assms(3) win s(3)] g2(1) s(2) by simp
  have res: "p' = fire_estops parked (q\<lparr>pl_gw := g2, pl_es := il_stages il (pl_es q)\<rparr>) t" "sent = []"
      "res = Inl (SafetyError ''WHITELIST_VIOLATION'')"
    using assms(9) g2(2) by (auto simp: validate_and_transmit_def transmit_locked_def a)
  show ?thesis
  proof (cases "4 \<le> ?n")
    case True
    then have "parked \<noteq> []" using g2(3) streak by (simp add: WHITELIST_ESTOP_AFTER_def)
    then show ?thesis using True res fire_engages by auto
  next
    case False
    then have "parked = []" using g2(3) streak by (simp add: WHITELIST_ESTOP_AFTER_def)
    then show ?thesis using False res by simp
  qed
qed

text \<open>1023 expired entries behind a live one.\<close>

definition expired_demo :: "nat \<Rightarrow> (bytes, int) dict" where
  "expired_demo n = map (\<lambda>i. (replicate (i + 100) 0, 0)) [0..<n]"

lemma expired_demo_keys: "dwf (expired_demo n)" "length (expired_demo n) = n"
  "length p < 100 \<Longrightarrow> p \<notin> fst ` set (expired_demo n)"
proof -
  have "inj_on (\<lambda>i. replicate (i + 100) (0 :: byte)) A" for A
    by (rule inj_onI) (metis add_right_cancel length_replicate)
  then show "dwf (expired_demo n)" by (simp add: expired_demo_def distinct_map o_def)
  show "length (expired_demo n) = n" by (simp add: expired_demo_def)
  show "p \<notin> fst ` set (expired_demo n)" if "length p < 100"
    using that by (auto simp: expired_demo_def)
qed

definition full_store_demo :: "(bytes, int) dict" where
  "full_store_demo = (gw_demo_payload, 100) # expired_demo 1023"

lemma full_store_demo_ok: "dwf full_store_demo" "length full_store_demo = CONSUMED_CONFIRMATIONS_MAX"
  "dget full_store_demo [] = None"
proof -
  have len: "length gw_demo_payload = 28" by (simp add: gw_demo_payload_def)
  show "dwf full_store_demo"
    using expired_demo_keys(1,3) len by (simp add: full_store_demo_def)
  show "length full_store_demo = CONSUMED_CONFIRMATIONS_MAX"
    by (simp add: full_store_demo_def CONSUMED_CONFIRMATIONS_MAX_def expired_demo_keys)
  show "dget full_store_demo [] = None"
    using expired_demo_keys(3) [of "[]"] by (auto simp: full_store_demo_def map_of_eq_None_iff gw_demo_payload_def)
qed

theorem live_token_replayable_witness:
  "grants gw_demo_mac gw_demo_sha (consume_confirmation (gw_demo\<lparr>gw_consumed := full_store_demo\<rparr>) [] 200 61) [1]
     (Inl (gw_demo_payload @ replicate 32 0)) gw_demo_frame None 61 gw_demo_payload \<and>
   \<not> grants gw_demo_mac gw_demo_sha (gw_demo\<lparr>gw_consumed := full_store_demo\<rparr>) [1]
     (Inl (gw_demo_payload @ replicate 32 0)) gw_demo_frame None 61 gw_demo_payload"
proof -
  let ?g = "gw_demo\<lparr>gw_consumed := full_store_demo\<rparr>"
  have "gw_demo\<lparr>gw_consumed := []\<rparr> = gw_demo"
    by (simp add: gw_demo_def gw_demo_start_def update_physical_speed_def update_vehicle_speed_def)
  then have "?g\<lparr>gw_consumed := []\<rparr> = gw_demo" by simp
  then have "grants gw_demo_mac gw_demo_sha (?g\<lparr>gw_consumed := []\<rparr>) [1] (Inl (gw_demo_payload @ replicate 32 0))
      gw_demo_frame None 61 gw_demo_payload" using gw_demo_grants by (simp only:)
  moreover have "gw_consumed ?g = (gw_demo_payload, 100) # expired_demo 1023"
    by (simp add: full_store_demo_def)
  moreover have "dwf (gw_consumed ?g)" "length (gw_consumed ?g) = CONSUMED_CONFIRMATIONS_MAX"
      "dget (gw_consumed ?g) [] = None" "(61 :: int) < 100"
    using full_store_demo_ok by simp_all
  ultimately have "grants gw_demo_mac gw_demo_sha (consume_confirmation ?g [] 200 61) [1]
      (Inl (gw_demo_payload @ replicate 32 0)) gw_demo_frame None 61 gw_demo_payload"
    using live_token_replayable by blast
  moreover have "\<not> grants gw_demo_mac gw_demo_sha ?g [1] (Inl (gw_demo_payload @ replicate 32 0)) gw_demo_frame None 61 gw_demo_payload"
    by (simp add: grants_def full_store_demo_def)
  ultimately show ?thesis by blast
qed

text \<open>A read request answered on the default lane.\<close>

definition gw_demo_read :: tx_request where
  "gw_demo_read = gw_demo_rq\<lparr>rq_frame := gw_demo_frame\<lparr>frame_data := [3, 0x22, 0xF1, 0x90, 0, 0, 0, 0]\<rparr>,
     rq_category := ''default'', rq_inbound := True\<rparr>"

lemma gw_demo_plain: "plain gw_demo gw_demo_view gw_demo_read gw_demo_tc"
  by (simp add: plain_def sanity_ok safety_state_ok read_only_ok listed_def derived_critical_def id_allowed_def
      gw_demo_fields gw_demo_view_def gw_demo_read_def gw_demo_rq_def gw_demo_frame_def fd_frame_demo_def
      frame_is_critical_def iso_tp_service_byte_def is_critical_sid_def CRITICAL_UDS_SIDS_def)

theorem rejections_starve_other_lanes_witness:
  "\<exists>g'. offer gw_demo_mac gw_demo_sha gw_demo_fmt
      (replicate MAX_TOTAL_TX_PER_SEC (gw_demo_view, es_demo_idle, gw_demo_read, gw_demo_tc)) gw_demo =
      (g', [], MAX_TX_RATE_PER_SEC) \<and>
    (\<forall>v es rq tc s tk. 60 \<le> tc_now tc \<and> tc_now tc < 60 + RATE_LIMIT_WINDOW_NS \<longrightarrow>
       admit gw_demo_mac gw_demo_sha gw_demo_fmt g' v es rq tc \<noteq> (s, Inr tk))"
  by (rule rejections_starve_other_lanes)
    (use gw_demo_plain in \<open>auto simp: gw_demo_fields gw_demo_lanes gw_demo_ok flooding_def gw_demo_read_def gw_demo_tc_def
       RATE_LIMIT_WINDOW_NS_def\<close>)

text \<open>Five calls on an identifier that is not listed.\<close>

definition gw_demo_probe :: tx_request where
  "gw_demo_probe = gw_demo_read\<lparr>rq_frame := gw_demo_frame\<lparr>frame_arbitration_id := 0x123\<rparr>\<rparr>"

lemma gw_demo_missing: "missing gw_demo (gw_demo_view, es, gw_demo_probe, gw_demo_tc)"
  by (simp add: missing_def sanity_ok safety_state_ok read_only_ok listed_def id_allowed_def
      gw_demo_fields gw_demo_view_def gw_demo_probe_def gw_demo_read_def gw_demo_rq_def gw_demo_frame_def fd_frame_demo_def)

text \<open>Four calls on it leave the emergency stop free, and the fifth engages it.\<close>

definition gw_demo_probes :: "nat \<Rightarrow> full_call list" where
  "gw_demo_probes n = replicate n (gw_demo_probe, gw_demo_tc, gw_demo_time, alone)"

lemma gw_demo_calm: "in_window 60 (gw_demo_probe, gw_demo_tc, gw_demo_time, alone)"
  by (simp add: in_window_def calm_def alone_def gw_demo_tc_def WHITELIST_MISS_STREAK_WINDOW_NS_def)

lemma probe_call:
  assumes "same_list gw_demo (pl_gw p)" "gw_miss_streak (pl_gw p) < 4" "gw_miss_streak (pl_gw p) \<noteq> 0 \<longrightarrow> gw_last_miss_ns (pl_gw p) = 60"
    and "pl_es p = pl_es gw_demo_plant" "pl_sv p = pl_sv gw_demo_plant" "pl_wd p = pl_wd gw_demo_plant"
  shows "misses_at p (gw_demo_probe, gw_demo_tc, gw_demo_time, alone)"
    "after_call gw_demo_mac gw_demo_sha gw_demo_fmt p (gw_demo_probe, gw_demo_tc, gw_demo_time, alone) =
      p\<lparr>pl_gw := count_miss (pl_gw p) 60\<rparr>"
proof -
  let ?call = "(gw_demo_probe, gw_demo_tc, gw_demo_time, alone)"
  have view: "view_of p gw_demo_time = gw_demo_view"
    using gw_demo_view_of assms(4-6) by (simp add: view_of_def)
  then show m: "misses_at p ?call"
    using gw_demo_missing missing_cong [OF assms(1)] by (simp add: misses_at_def)
  obtain g estops res where a: "admit gw_demo_mac gw_demo_sha gw_demo_fmt (pl_gw p) (view_of p gw_demo_time) (pl_es p)
      gw_demo_probe gw_demo_tc = ((g, estops), res)"
    by (metis prod.collapse)
  have list: "gw_whitelist_ids (pl_gw p) \<noteq> [] \<or> gw_whitelist_masks (pl_gw p) \<noteq> []"
    using assms(1) by (simp add: same_list_def gw_demo_fields)
  have now: "tc_now gw_demo_tc = 60" by (simp add: gw_demo_tc_def)
  have g: "g = count_miss (pl_gw p) 60 \<and> res = Inl (SafetyError ''WHITELIST_VIOLATION'') \<and>
      (if gw_miss_streak g \<ge> WHITELIST_ESTOP_AFTER then \<exists>reason. estops = [(UNAUTHORIZED_PAYLOAD, reason, Some 0)] else estops = [])"
    using admit_streak [OF a] m list now by (auto simp: misses_at_def)
  have "gw_miss_streak g = Suc (gw_miss_streak (pl_gw p))"
    using count_miss_now(1) [of 60 60 "pl_gw p"] g assms(3) by (simp add: WHITELIST_MISS_STREAK_WINDOW_NS_def)
  then have "estops = []" using g assms(2) by (simp add: WHITELIST_ESTOP_AFTER_def)
  then show "after_call gw_demo_mac gw_demo_sha gw_demo_fmt p ?call = p\<lparr>pl_gw := count_miss (pl_gw p) 60\<rparr>"
    using g a by (simp add: after_call_def validate_and_transmit_def transmit_locked_def alone_def)
qed

lemma probes_free:
  assumes "same_list gw_demo (pl_gw p)" "gw_miss_streak (pl_gw p) + n \<le> 4" "gw_miss_streak (pl_gw p) \<noteq> 0 \<longrightarrow> gw_last_miss_ns (pl_gw p) = 60"
    and "pl_es p = pl_es gw_demo_plant" "pl_sv p = pl_sv gw_demo_plant" "pl_wd p = pl_wd gw_demo_plant"
  shows "let ps = tx_calls gw_demo_mac gw_demo_sha gw_demo_fmt p (gw_demo_probes n); q = last (p # ps) in
    misses gw_demo_mac gw_demo_sha gw_demo_fmt p (gw_demo_probes n) = n \<and> (\<forall>q \<in> set ps. \<not> es_engaged (pl_es q)) \<and>
    same_list gw_demo (pl_gw q) \<and> view_of q gw_demo_time = gw_demo_view"
  using assms
proof (induction n arbitrary: p)
  case 0
  then show ?case using gw_demo_view_of by (simp add: gw_demo_probes_def view_of_def)
next
  case (Suc n)
  let ?call = "(gw_demo_probe, gw_demo_tc, gw_demo_time, alone)" and ?p = "p\<lparr>pl_gw := count_miss (pl_gw p) 60\<rparr>"
  have call: "misses_at p ?call" "after_call gw_demo_mac gw_demo_sha gw_demo_fmt p ?call = ?p"
    by (rule probe_call; use Suc.prems in simp)+
  note c = count_miss_now [of 60 60 "pl_gw p"]
  have free: "\<not> es_engaged (pl_es p)" using Suc.prems(4) by (simp add: gw_demo_plant_def)
  have "same_list gw_demo (pl_gw ?p)" "gw_miss_streak (pl_gw ?p) + n \<le> 4" "gw_last_miss_ns (pl_gw ?p) = 60"
    using c Suc.prems(1-3) by (simp_all add: same_list_def WHITELIST_MISS_STREAK_WINDOW_NS_def)
  then show ?case
    using Suc.IH [of ?p] Suc.prems(4-6) call free by (simp add: gw_demo_probes_def Let_def)
qed

theorem fifth_miss_engages_witness:
  "let q = last (gw_demo_plant # tx_calls gw_demo_mac gw_demo_sha gw_demo_fmt gw_demo_plant (gw_demo_probes 4));
       r = validate_and_transmit gw_demo_mac gw_demo_sha gw_demo_fmt q gw_demo_probe gw_demo_tc gw_demo_time alone
   in \<not> es_engaged (pl_es q) \<and> es_engaged (pl_es (fst (fst r))) \<and> snd (fst r) = []"
proof -
  let ?ps = "tx_calls gw_demo_mac gw_demo_sha gw_demo_fmt gw_demo_plant (gw_demo_probes 4)"
  let ?q = "last (gw_demo_plant # ?ps)"
  obtain p' sent res where v: "validate_and_transmit gw_demo_mac gw_demo_sha gw_demo_fmt ?q gw_demo_probe
      gw_demo_tc gw_demo_time alone = ((p', sent), res)"
    by (metis prod.collapse)
  have gw: "pl_gw gw_demo_plant = gw_demo" "gw_miss_streak gw_demo = 0"
    by (simp_all add: gw_demo_plant_def gw_demo_fields)
  have run: "misses gw_demo_mac gw_demo_sha gw_demo_fmt gw_demo_plant (gw_demo_probes 4) = 4"
      "\<forall>q \<in> set ?ps. \<not> es_engaged (pl_es q)" "same_list gw_demo (pl_gw ?q)" "view_of ?q gw_demo_time = gw_demo_view"
    using probes_free [of gw_demo_plant 4] gw by (simp_all add: Let_def same_list_def)
  have m: "misses_at ?q (gw_demo_probe, gw_demo_tc, gw_demo_time, alone)"
    using gw_demo_missing missing_cong [OF run(3)] run(4) by (simp add: misses_at_def)
  have "sent = [] \<and> res = Inl (SafetyError ''WHITELIST_VIOLATION'') \<and>
    (if misses gw_demo_mac gw_demo_sha gw_demo_fmt gw_demo_plant (gw_demo_probes 4) \<ge> 4 then es_engaged (pl_es p')
     else pl_es p' = il_stages alone (pl_es ?q))"
    by (rule fifth_miss_engages [OF _ _ _ _ run(2) refl m gw_demo_calm v])
      (use gw gw_demo_calm in \<open>simp_all add: gw_demo_fields gw_demo_probes_def\<close>)
  moreover have "\<not> es_engaged (pl_es gw_demo_plant)" by (simp add: gw_demo_plant_def)
  ultimately show ?thesis using v run(1,2) by (simp add: Let_def)
qed

end
