(* ===== verification/AddressClaim.thy ===== *)
theory AddressClaim
  imports J1939Id
begin

text \<open>
  \<open>src/protocols/j1939/address_claim.py\<close>, the J1939-81 address claiming engine: the 64-bit NAME,
  the expiring address table, and every operation of \<open>AddressClaimEngine\<close>. Each clock reading is
  an argument. The confirmation timer is the generation its callback was given; that a callback
  runs is a call of \<open>confirm_claimed_guarded\<close> with that generation, at any later time, cancelled
  or not (a callback already waiting for the lock cannot be cancelled).
\<close>

section \<open>NAME\<close>

definition PGN_ADDRESS_CLAIM :: int where "PGN_ADDRESS_CLAIM = 60928"
definition PGN_REQUEST_PGN :: int where "PGN_REQUEST_PGN = 59904"
definition PGN_COMMANDED_ADDRESS :: int where "PGN_COMMANDED_ADDRESS = 65240"
definition NULL_ADDRESS :: int where "NULL_ADDRESS = 254"
definition GLOBAL_ADDRESS :: int where "GLOBAL_ADDRESS = 255"

lemmas claim_pgns = PGN_ADDRESS_CLAIM_def PGN_REQUEST_PGN_def PGN_COMMANDED_ADDRESS_def
lemmas claim_addresses = NULL_ADDRESS_def GLOBAL_ADDRESS_def

datatype claim_state = UNINITIALIZED | CLAIMING | CLAIMED | CANNOT_CLAIM

record j1939_name =
  arbitrary_address_capable :: bool
  industry_group :: int
  vehicle_system_instance :: int
  vehicle_system :: int
  name_reserved :: int
  name_function :: int
  function_instance :: int
  ecu_instance :: int
  manufacturer_code :: int
  identity_number :: int

text \<open>\<open>NAME_FIELD_WIDTHS\<close>, each width beside the accessor \<open>getattr\<close> finds by the field's name.\<close>

definition NAME_FIELD_WIDTHS :: "((j1939_name \<Rightarrow> int) \<times> nat) list" where
  "NAME_FIELD_WIDTHS =
     [(industry_group, 3), (vehicle_system_instance, 4), (vehicle_system, 7), (name_reserved, 1),
      (name_function, 8), (function_instance, 5), (ecu_instance, 3), (manufacturer_code, 11),
      (identity_number, 21)]"

text \<open>\<open>__post_init__\<close>; that the fields are a bool and ints is their type.\<close>

definition name_init :: "j1939_name \<Rightarrow> j1939_name py" where
  "name_init n =
     (if list_all (\<lambda>(field, width). 0 \<le> field n \<and> field n \<le> push_bit width 1 - 1) NAME_FIELD_WIDTHS
      then Inr n else Inl ValueError)"

definition name_to_int64 :: "j1939_name \<Rightarrow> int" where
  "name_to_int64 n =
     (let val = 0;
          val = val OR push_bit 63 (if arbitrary_address_capable n then 1 else 0);
          val = val OR push_bit 60 (industry_group n AND 0x07);
          val = val OR push_bit 56 (vehicle_system_instance n AND 0x0F);
          val = val OR push_bit 49 (vehicle_system n AND 0x7F);
          val = val OR push_bit 48 (name_reserved n AND 0x01);
          val = val OR push_bit 40 (name_function n AND 0xFF);
          val = val OR push_bit 35 (function_instance n AND 0x1F);
          val = val OR push_bit 32 (ecu_instance n AND 0x07);
          val = val OR push_bit 21 (manufacturer_code n AND 0x07FF) in
      val OR (identity_number n AND 0x1FFFFF))"

definition name_to_bytes :: "j1939_name \<Rightarrow> bytes py" where
  "name_to_bytes n = to_le 8 (name_to_int64 n)"

definition name_from_int64 :: "int \<Rightarrow> j1939_name py" where
  "name_from_int64 val =
     name_init
       \<lparr>arbitrary_address_capable = (drop_bit 63 val AND 0x01 \<noteq> 0),
        industry_group = drop_bit 60 val AND 0x07,
        vehicle_system_instance = drop_bit 56 val AND 0x0F,
        vehicle_system = drop_bit 49 val AND 0x7F,
        name_reserved = drop_bit 48 val AND 0x01,
        name_function = drop_bit 40 val AND 0xFF,
        function_instance = drop_bit 35 val AND 0x1F,
        ecu_instance = drop_bit 32 val AND 0x07,
        manufacturer_code = drop_bit 21 val AND 0x07FF,
        identity_number = val AND 0x1FFFFF\<rparr>"

definition name_from_bytes :: "bytes \<Rightarrow> j1939_name py" where
  "name_from_bytes data =
     (if length data < 8 then Inl ValueError else name_from_int64 (from_le (py_slice data 0 8)))"

section \<open>The expiring address table\<close>

text \<open>The dict behind the view holds (NAME, expiry) pairs; \<open>_unwrap\<close> is then \<open>fst\<close>. Every read
  of the view prunes first, so it returns the table it leaves behind.\<close>

type_synonym address_data = "(int, j1939_name \<times> seconds) dict"

definition ADDRESS_TABLE_TTL_S :: seconds where "ADDRESS_TABLE_TTL_S = 60"

definition table_prune :: "seconds \<Rightarrow> address_data \<Rightarrow> address_data" where
  "table_prune now d =
     dpop_all (dkeys_where (\<lambda>sa (name, expiry). expiry \<le> now) d) d"

definition table_contains :: "seconds \<Rightarrow> int \<Rightarrow> address_data \<Rightarrow> address_data \<times> bool" where
  "table_contains now key d = (let d = table_prune now d in (d, dget d key \<noteq> None))"

definition table_get :: "seconds \<Rightarrow> int \<Rightarrow> j1939_name option \<Rightarrow> address_data \<Rightarrow>
    address_data \<times> j1939_name option" where
  "table_get now key dflt d =
     (let d = table_prune now d in
      (d, case dget d key of None \<Rightarrow> dflt | Some (name, _) \<Rightarrow> Some name))"

definition table_getitem :: "seconds \<Rightarrow> int \<Rightarrow> address_data \<Rightarrow> address_data \<times> j1939_name py" where
  "table_getitem now key d =
     (let d = table_prune now d in
      (d, case dget d key of None \<Rightarrow> Inl KeyError | Some (name, _) \<Rightarrow> Inr name))"

definition table_setitem :: "seconds \<Rightarrow> int \<Rightarrow> j1939_name + j1939_name \<times> seconds \<Rightarrow> address_data \<Rightarrow>
    address_data" where
  "table_setitem now key v d =
     (case v of Inl name \<Rightarrow> dset key (name, now + ADDRESS_TABLE_TTL_S) d | Inr entry \<Rightarrow> dset key entry d)"

definition table_keys :: "seconds \<Rightarrow> address_data \<Rightarrow> address_data \<times> int list" where
  "table_keys now d = (let d = table_prune now d in (d, dkeys d))"

definition table_len :: "seconds \<Rightarrow> address_data \<Rightarrow> address_data \<times> nat" where
  "table_len now d = (let d = table_prune now d in (d, length d))"

definition table_items :: "seconds \<Rightarrow> address_data \<Rightarrow> address_data \<times> (int \<times> j1939_name) list" where
  "table_items now d = (let d = table_prune now d in (d, map (\<lambda>(sa, (name, _)). (sa, name)) d))"

definition table_values :: "seconds \<Rightarrow> address_data \<Rightarrow> address_data \<times> j1939_name list" where
  "table_values now d = (let d = table_prune now d in (d, map (\<lambda>(_, (name, _)). name) d))"

section \<open>The engine\<close>

record claim_engine =
  ce_name :: j1939_name
  ce_preferred_address :: int
  ce_current_address :: int
  ce_channel_id :: string
  ce_state :: claim_state
  ce_address_table :: address_data
  ce_claim_rate :: "(int, seconds \<times> int) dict"
  ce_claim_timer :: "int option"
  ce_claim_generation :: int
  ce_claim_window_deadline_ns :: int

definition DEFAULT_PREFERRED_ADDRESS :: int where "DEFAULT_PREFERRED_ADDRESS = 0xF9"
definition FALLBACK_ADDRESS_RANGE :: "int list" where "FALLBACK_ADDRESS_RANGE = [128..247]"
definition CLAIM_RATE_LIMIT_PER_SA :: int where "CLAIM_RATE_LIMIT_PER_SA = 8"
definition CLAIM_RATE_WINDOW_S :: seconds where "CLAIM_RATE_WINDOW_S = 1"

text \<open>\<open>CLAIM_CONFIRM_WINDOW_MS * 1_000_000\<close> and the tolerance of the callback.\<close>

definition CLAIM_CONFIRM_WINDOW_NS :: int where "CLAIM_CONFIRM_WINDOW_NS = 250000000"
definition TIMER_TOLERANCE_NS :: int where "TIMER_TOLERANCE_NS = 25000000"

text \<open>The clock readings of one call, in no order the model relies on: \<open>now\<close> of the received
  frame, the two of the fallback scan, the one that arms the timer, the frame's time stamp.\<close>

record claim_clock =
  cc_now :: seconds
  cc_scan :: seconds
  cc_view :: seconds
  cc_arm_ns :: int
  cc_frame_ns :: int

definition claim_init :: "j1939_name \<Rightarrow> int \<Rightarrow> string \<Rightarrow> claim_engine" where
  "claim_init name preferred ch =
     \<lparr>ce_name = name, ce_preferred_address = preferred, ce_current_address = preferred,
      ce_channel_id = ch, ce_state = UNINITIALIZED, ce_address_table = [], ce_claim_rate = [],
      ce_claim_timer = None, ce_claim_generation = 0, ce_claim_window_deadline_ns = 0\<rparr>"

definition is_address_claimed :: "claim_engine \<Rightarrow> bool" where
  "is_address_claimed e \<longleftrightarrow> ce_state e = CLAIMED \<and> ce_current_address e \<noteq> NULL_ADDRESS"

text \<open>The claim frame every path builds, \<open>0x18EEFF00 | (address & 0xFF)\<close> with the NAME.\<close>

definition claim_frame :: "claim_engine \<Rightarrow> int \<Rightarrow> int \<Rightarrow> can_frame py" where
  "claim_frame e address ns =
     py_bind (name_to_bytes (ce_name e)) (\<lambda>data. create_tx (ce_channel_id e) (0x18EEFF00 OR address) data ns)"

definition arm_claim_confirmation_timer :: "int \<Rightarrow> claim_engine \<Rightarrow> claim_engine" where
  "arm_claim_confirmation_timer ns e =
     (let generation = ce_claim_generation e + 1 in
      e\<lparr>ce_claim_generation := generation,
        ce_claim_window_deadline_ns := ns + CLAIM_CONFIRM_WINDOW_NS,
        ce_claim_timer := Some generation\<rparr>)"

definition cancel_pending_claim_timer :: "claim_engine \<Rightarrow> claim_engine" where
  "cancel_pending_claim_timer e =
     e\<lparr>ce_claim_generation := ce_claim_generation e + 1, ce_claim_timer := None\<rparr>"

definition start_claiming :: "bool \<Rightarrow> claim_clock \<Rightarrow> claim_engine \<Rightarrow> claim_engine \<times> can_frame py" where
  "start_claiming auto_arm_timer c e =
     (let e = e\<lparr>ce_current_address := ce_preferred_address e, ce_state := CLAIMING\<rparr> in
      case claim_frame e (ce_current_address e AND 0xFF) (cc_frame_ns c) of
        Inl err \<Rightarrow> (e, Inl err)
      | Inr frame \<Rightarrow>
          (if auto_arm_timer then arm_claim_confirmation_timer (cc_arm_ns c) e else e, Inr frame))"

definition on_claim_transmitted :: "int \<Rightarrow> claim_engine \<Rightarrow> claim_engine" where
  "on_claim_transmitted ns e =
     (if ce_state e = CLAIMING then arm_claim_confirmation_timer ns e else e)"

definition on_claim_transmission_failed :: "claim_engine \<Rightarrow> claim_engine" where
  "on_claim_transmission_failed e =
     (let e = cancel_pending_claim_timer e in
      if ce_state e = CLAIMING then e\<lparr>ce_state := UNINITIALIZED\<rparr> else e)"

definition finalize_claim :: "claim_engine \<Rightarrow> claim_engine" where
  "finalize_claim e =
     (if ce_state e = CLAIMING \<and> ce_current_address e \<noteq> NULL_ADDRESS
      then e\<lparr>ce_state := CLAIMED\<rparr> else e)"

definition confirm_claimed :: "int \<Rightarrow> claim_engine \<Rightarrow> claim_engine" where
  "confirm_claimed ns e =
     (if ns < ce_claim_window_deadline_ns e then e else finalize_claim e)"

definition confirm_claimed_guarded :: "int \<Rightarrow> int \<Rightarrow> claim_engine \<Rightarrow> claim_engine" where
  "confirm_claimed_guarded generation ns e =
     (if generation \<noteq> ce_claim_generation e then e
      else if ns < ce_claim_window_deadline_ns e - TIMER_TOLERANCE_NS then e
      else finalize_claim e)"

section \<open>Received frames\<close>

definition prune_address_table :: "seconds \<Rightarrow> claim_engine \<Rightarrow> claim_engine" where
  "prune_address_table now e =
     (let expired = dkeys_where (\<lambda>sa (name, expiry). expiry \<le> now) (ce_address_table e);
          stale_after = 2 * CLAIM_RATE_WINDOW_S;
          stale_sas = dkeys_where (\<lambda>sa (start, count). now - start > stale_after) (ce_claim_rate e) in
      e\<lparr>ce_address_table := dpop_all expired (ce_address_table e),
        ce_claim_rate := dpop_all stale_sas (ce_claim_rate e)\<rparr>)"

definition check_claim_rate_limit :: "int \<Rightarrow> seconds \<Rightarrow> claim_engine \<Rightarrow> claim_engine \<times> bool" where
  "check_claim_rate_limit sa now e =
     (case dget (ce_claim_rate e) sa of
        None \<Rightarrow> (e\<lparr>ce_claim_rate := dset sa (now, 1) (ce_claim_rate e)\<rparr>, True)
      | Some (window_start, count) \<Rightarrow>
          if now - window_start > CLAIM_RATE_WINDOW_S
          then (e\<lparr>ce_claim_rate := dset sa (now, 1) (ce_claim_rate e)\<rparr>, True)
          else if count \<ge> CLAIM_RATE_LIMIT_PER_SA then (e, False)
          else (e\<lparr>ce_claim_rate := dset sa (window_start, count + 1) (ce_claim_rate e)\<rparr>, True))"

text \<open>\<open>_live_address_table\<close> prunes with one reading, then lists the view, which prunes with
  another.\<close>

definition live_address_table :: "seconds \<Rightarrow> seconds \<Rightarrow> claim_engine \<Rightarrow>
    claim_engine \<times> (int \<times> j1939_name) list" where
  "live_address_table now view e =
     (let e = prune_address_table now e;
          (d, live) = table_items view (ce_address_table e) in
      (e\<lparr>ce_address_table := d\<rparr>, live))"

text \<open>\<open>current_address = NULL_ADDRESS\<close>, state CANNOT_CLAIM, and the Cannot Claim broadcast.\<close>

definition give_up :: "claim_clock \<Rightarrow> claim_engine \<Rightarrow> claim_engine \<times> can_frame option py" where
  "give_up c e =
     (let e = e\<lparr>ce_current_address := NULL_ADDRESS, ce_state := CANNOT_CLAIM\<rparr> in
      (e, py_bind (claim_frame e NULL_ADDRESS (cc_frame_ns c)) (\<lambda>f. Inr (Some f))))"

definition handle_contention_locked :: "claim_clock \<Rightarrow> int \<Rightarrow> j1939_name \<Rightarrow> claim_engine \<Rightarrow>
    claim_engine \<times> can_frame option py" where
  "handle_contention_locked c source_address other_name e =
     (if source_address \<noteq> ce_current_address e \<or> source_address = NULL_ADDRESS then (e, Inr None)
      else
        let e = cancel_pending_claim_timer e;
            my_val = name_to_int64 (ce_name e);
            other_val = name_to_int64 other_name in
        if my_val < other_val then
          let e = arm_claim_confirmation_timer (cc_arm_ns c) e in
          (e, py_bind (claim_frame e (ce_current_address e AND 0xFF) (cc_frame_ns c)) (\<lambda>f. Inr (Some f)))
        else if arbitrary_address_capable (ce_name e) then
          let (e, live_table) = live_address_table (cc_scan c) (cc_view c) e in
          case find (\<lambda>sa. dget live_table sa = None) FALLBACK_ADDRESS_RANGE of
            Some candidate_sa \<Rightarrow>
              let e = e\<lparr>ce_current_address := candidate_sa, ce_state := CLAIMING\<rparr>;
                  e = arm_claim_confirmation_timer (cc_arm_ns c) e in
              (e, py_bind (claim_frame e (candidate_sa AND 0xFF) (cc_frame_ns c)) (\<lambda>f. Inr (Some f)))
          | None \<Rightarrow> give_up c e
        else give_up c e)"

text \<open>A Request PGN: answered by a claimed node, and by one that holds no address.\<close>

definition answer_request :: "claim_clock \<Rightarrow> int option \<Rightarrow> bytes \<Rightarrow> claim_engine \<Rightarrow> can_frame option py" where
  "answer_request c da data e =
     (if from_le (py_slice data 0 3) \<noteq> PGN_ADDRESS_CLAIM then Inr None
      else if da \<notin> {None, Some GLOBAL_ADDRESS, Some (ce_current_address e)} then Inr None
      else if ce_state e = CLAIMED
        then py_bind (claim_frame e (ce_current_address e AND 0xFF) (cc_frame_ns c)) (\<lambda>f. Inr (Some f))
      else if ce_state e = CANNOT_CLAIM
        then py_bind (claim_frame e NULL_ADDRESS (cc_frame_ns c)) (\<lambda>f. Inr (Some f))
      else Inr None)"

definition handle_claim :: "claim_clock \<Rightarrow> int \<Rightarrow> bytes \<Rightarrow> claim_engine \<Rightarrow>
    claim_engine \<times> can_frame option py" where
  "handle_claim c source_address data e =
     (case name_from_bytes data of Inl err \<Rightarrow> (e, Inl err)
      | Inr other_name \<Rightarrow>
        if name_to_int64 other_name = name_to_int64 (ce_name e) then (e, Inr None)
        else
          (case check_claim_rate_limit source_address (cc_now c) e of
             (e, False) \<Rightarrow> (e, Inr None)
           | (e, True) \<Rightarrow>
               let e = prune_address_table (cc_now c) e;
                   e = e\<lparr>ce_address_table :=
                     dset source_address (other_name, cc_now c + ADDRESS_TABLE_TTL_S) (ce_address_table e)\<rparr> in
               handle_contention_locked c source_address other_name e))"

definition claim_rx_frame :: "claim_clock \<Rightarrow> can_frame \<Rightarrow> claim_engine \<Rightarrow>
    claim_engine \<times> can_frame option py" where
  "claim_rx_frame c frame e =
     (let data = frame_data frame in
      if \<not> frame_is_extended frame \<or> length data < 3 then (e, Inr None)
      else
        let (pgn, source_address, da, priority) = parse_j1939_id (frame_arbitration_id frame) in
        if pgn = PGN_REQUEST_PGN \<and> length data \<ge> 3 then (e, answer_request c da data e)
        else if length data < 8 then (e, Inr None)
        else if pgn = PGN_COMMANDED_ADDRESS \<and> length data = 9 then
          (case name_from_bytes (py_slice data 0 8) of Inl err \<Rightarrow> (e, Inl err)
           | Inr commanded_name \<Rightarrow>
             if name_to_int64 commanded_name \<noteq> name_to_int64 (ce_name e) then (e, Inr None)
             else
               let new_address = byte_at data 8 in
               if \<not> (0 \<le> new_address \<and> new_address \<le> 0xFD) then (e, Inr None)
               else
                 case start_claiming True c (e\<lparr>ce_preferred_address := new_address\<rparr>) of
                   (e, r) \<Rightarrow> (e, py_bind r (\<lambda>f. Inr (Some f))))
        else if pgn \<noteq> PGN_ADDRESS_CLAIM then (e, Inr None)
        else handle_claim c source_address data e)"

end
