(* ===== verification/AddressClaimSpec.thy ===== *)
theory AddressClaimSpec
  imports AddressClaim
begin

text \<open>
  Properties of one address claiming engine (\<open>src/protocols/j1939/address_claim.py\<close>): the NAME and
  its 64-bit number determine each other, what a claim frame on the wire says, when an engine moves,
  and that it considers an address its own only after a quiet window.
\<close>

section \<open>NAME and number\<close>

definition name_ok :: "j1939_name \<Rightarrow> bool" where
  "name_ok n \<longleftrightarrow> name_init n = Inr n"

lemma name_init_ok: "name_init n = Inr m \<longleftrightarrow> m = n \<and> name_ok n"
  by (auto simp: name_ok_def name_init_def)

lemma name_ok_fields:
  "name_ok n \<longleftrightarrow>
     (0 \<le> industry_group n \<and> industry_group n < 8) \<and>
     (0 \<le> vehicle_system_instance n \<and> vehicle_system_instance n < 16) \<and>
     (0 \<le> vehicle_system n \<and> vehicle_system n < 128) \<and>
     (0 \<le> name_reserved n \<and> name_reserved n < 2) \<and>
     (0 \<le> name_function n \<and> name_function n < 256) \<and>
     (0 \<le> function_instance n \<and> function_instance n < 32) \<and>
     (0 \<le> ecu_instance n \<and> ecu_instance n < 8) \<and>
     (0 \<le> manufacturer_code n \<and> manufacturer_code n < 2048) \<and>
     (0 \<le> identity_number n \<and> identity_number n < 2097152)"
  by (simp add: name_ok_def name_init_def NAME_FIELD_WIDTHS_def push_bit_eq_mult)

text \<open>The number of a NAME, digit by digit.\<close>

definition name_number :: "int \<Rightarrow> int \<Rightarrow> int \<Rightarrow> int \<Rightarrow> int \<Rightarrow> int \<Rightarrow> int \<Rightarrow> int \<Rightarrow> int \<Rightarrow> int \<Rightarrow> int" where
  "name_number a g i v r f fi e m d =
     ((((((((a * 8 + g) * 16 + i) * 128 + v) * 2 + r) * 256 + f) * 32 + fi) * 8 + e) * 2048 + m) * 2097152 + d"

lemma name_masks:
  "(x :: int) AND 0x7F = x mod 128" "x AND 0x07FF = x mod 2048" "x AND 0x1FFFFF = x mod 2097152"
  using and_mask_mod [of x 7] and_mask_mod [of x 11] and_mask_mod [of x 21] by simp_all

lemma pack_name:
  assumes "0 \<le> g" "g < 8" "0 \<le> i" "i < 16" "0 \<le> v" "v < 128" "0 \<le> r" "r < 2" "0 \<le> f" "f < 256"
    "0 \<le> fi" "fi < 32" "0 \<le> e" "e < 8" "0 \<le> m" "m < 2048" "0 \<le> d" "d < 2097152"
  shows "push_bit 63 a OR (push_bit 60 g OR (push_bit 56 i OR (push_bit 49 v OR (push_bit 48 r OR
    (push_bit 40 f OR (push_bit 35 fi OR (push_bit 32 e OR (push_bit 21 m OR d)))))))) =
    name_number a g i v r f fi e m d"
proof -
  define q9 where "q9 = m * 2097152 + d"
  define q8 where "q8 = e * 2 ^ 32 + q9"
  define q7 where "q7 = fi * 2 ^ 35 + q8"
  define q6 where "q6 = f * 2 ^ 40 + q7"
  define q5 where "q5 = r * 2 ^ 48 + q6"
  define q4 where "q4 = v * 2 ^ 49 + q5"
  define q3 where "q3 = i * 2 ^ 56 + q4"
  define q2 where "q2 = g * 2 ^ 60 + q3"
  note b = assms
  have r9: "0 \<le> q9 \<and> q9 < 2 ^ 32" using b by (simp add: q9_def)
  have r8: "0 \<le> q8 \<and> q8 < 2 ^ 35" using b r9 by (simp add: q8_def)
  have r7: "0 \<le> q7 \<and> q7 < 2 ^ 40" using b r8 by (simp add: q7_def)
  have r6: "0 \<le> q6 \<and> q6 < 2 ^ 48" using b r7 by (simp add: q6_def)
  have r5: "0 \<le> q5 \<and> q5 < 2 ^ 49" using b r6 by (simp add: q5_def)
  have r4: "0 \<le> q4 \<and> q4 < 2 ^ 56" using b r5 by (simp add: q4_def)
  have r3: "0 \<le> q3 \<and> q3 < 2 ^ 60" using b r4 by (simp add: q3_def)
  have r2: "0 \<le> q2 \<and> q2 < 2 ^ 63" using b r3 by (simp add: q2_def)
  have 9: "push_bit 21 m OR d = q9" using push_or [of d 21 m] b by (simp add: q9_def)
  have 8: "push_bit 32 e OR q9 = q8" using push_or [of q9 32 e] r9 by (simp add: q8_def)
  have 7: "push_bit 35 fi OR q8 = q7" using push_or [of q8 35 fi] r8 by (simp add: q7_def)
  have 6: "push_bit 40 f OR q7 = q6" using push_or [of q7 40 f] r7 by (simp add: q6_def)
  have 5: "push_bit 48 r OR q6 = q5" using push_or [of q6 48 r] r6 by (simp add: q5_def)
  have 4: "push_bit 49 v OR q5 = q4" using push_or [of q5 49 v] r5 by (simp add: q4_def)
  have 3: "push_bit 56 i OR q4 = q3" using push_or [of q4 56 i] r4 by (simp add: q3_def)
  have 2: "push_bit 60 g OR q3 = q2" using push_or [of q3 60 g] r3 by (simp add: q2_def)
  have 1: "push_bit 63 a OR q2 = a * 2 ^ 63 + q2" using push_or [of q2 63 a] r2 by simp
  show ?thesis unfolding 9 8 7 6 5 4 3 2 1
    by (simp add: name_number_def q2_def q3_def q4_def q5_def q6_def q7_def q8_def q9_def)
qed

lemma drop_digit: "0 \<le> l \<Longrightarrow> l < 2 ^ n \<Longrightarrow> drop_bit n (h * 2 ^ n + l) = (h :: int)"
  by (simp add: drop_bit_eq_div)

lemma drop_more: "drop_bit k x = y \<Longrightarrow> drop_bit (n + k) (x :: int) = drop_bit n y"
  using drop_bit_drop_bit [of n k x] by simp

lemma name_digits:
  assumes "0 \<le> g" "g < 8" "0 \<le> i" "i < 16" "0 \<le> v" "v < 128" "0 \<le> r" "r < 2" "0 \<le> f" "f < 256"
    "0 \<le> fi" "fi < 32" "0 \<le> e" "e < 8" "0 \<le> m" "m < 2048" "0 \<le> d" "d < 2097152"
    and x: "x = name_number a g i v r f fi e m d"
  shows "drop_bit 63 x = a" "drop_bit 60 x mod 8 = g" "drop_bit 56 x mod 16 = i"
    "drop_bit 49 x mod 128 = v" "drop_bit 48 x mod 2 = r" "drop_bit 40 x mod 256 = f"
    "drop_bit 35 x mod 32 = fi" "drop_bit 32 x mod 8 = e" "drop_bit 21 x mod 2048 = m"
    "x mod 2097152 = d"
proof -
  define h1 where "h1 = a * 8 + g"
  define h2 where "h2 = h1 * 16 + i"
  define h3 where "h3 = h2 * 128 + v"
  define h4 where "h4 = h3 * 2 + r"
  define h5 where "h5 = h4 * 256 + f"
  define h6 where "h6 = h5 * 32 + fi"
  define h7 where "h7 = h6 * 8 + e"
  define h8 where "h8 = h7 * 2048 + m"
  note b = assms(1-18)
  have x: "x = h8 * 2097152 + d"
    by (simp add: x name_number_def h8_def h7_def h6_def h5_def h4_def h3_def h2_def h1_def)
  have 21: "drop_bit 21 x = h8" using drop_digit [of d 21 h8] b by (simp add: x)
  have 32: "drop_bit 32 x = h7"
    using drop_more [OF 21, of 11] drop_digit [of m 11 h7] b by (simp add: h8_def)
  have 35: "drop_bit 35 x = h6"
    using drop_more [OF 32, of 3] drop_digit [of e 3 h6] b by (simp add: h7_def)
  have 40: "drop_bit 40 x = h5"
    using drop_more [OF 35, of 5] drop_digit [of fi 5 h5] b by (simp add: h6_def)
  have 48: "drop_bit 48 x = h4"
    using drop_more [OF 40, of 8] drop_digit [of f 8 h4] b by (simp add: h5_def)
  have 49: "drop_bit 49 x = h3"
    using drop_more [OF 48, of 1] drop_digit [of r 1 h3] b by (simp add: h4_def)
  have 56: "drop_bit 56 x = h2"
    using drop_more [OF 49, of 7] drop_digit [of v 7 h2] b by (simp add: h3_def)
  have 60: "drop_bit 60 x = h1"
    using drop_more [OF 56, of 4] drop_digit [of i 4 h1] b by (simp add: h2_def)
  show "drop_bit 63 x = a"
    using drop_more [OF 60, of 3] drop_digit [of g 3 a] b by (simp add: h1_def)
  show "drop_bit 60 x mod 8 = g" "drop_bit 56 x mod 16 = i" "drop_bit 49 x mod 128 = v"
    "drop_bit 48 x mod 2 = r" "drop_bit 40 x mod 256 = f" "drop_bit 35 x mod 32 = fi"
    "drop_bit 32 x mod 8 = e" "drop_bit 21 x mod 2048 = m" "x mod 2097152 = d"
    unfolding 60 56 49 48 40 35 32 21 unfolding x h1_def h2_def h3_def h4_def h5_def h6_def h7_def h8_def
    by (rule peel(2); use b in simp)+
qed

lemma name_cases [case_names fields]:
  assumes "name_ok n"
  obtains a g i v r f fi e m d where
    "n = \<lparr>arbitrary_address_capable = a, industry_group = g, vehicle_system_instance = i,
      vehicle_system = v, name_reserved = r, name_function = f, function_instance = fi,
      ecu_instance = e, manufacturer_code = m, identity_number = d\<rparr>"
    "0 \<le> g" "g < 8" "0 \<le> i" "i < 16" "0 \<le> v" "v < 128" "0 \<le> r" "r < 2" "0 \<le> f" "f < 256"
    "0 \<le> fi" "fi < 32" "0 \<le> e" "e < 8" "0 \<le> m" "m < 2048" "0 \<le> d" "d < 2097152"
  using assms unfolding name_ok_fields by (cases n) (metis j1939_name.select_convs(2-10))

lemma name_to_int64_number:
  assumes "name_ok n"
  shows "name_to_int64 n =
    name_number (of_bool (arbitrary_address_capable n)) (industry_group n) (vehicle_system_instance n)
      (vehicle_system n) (name_reserved n) (name_function n) (function_instance n) (ecu_instance n)
      (manufacturer_code n) (identity_number n)"
  using assms
proof (cases rule: name_cases)
  case (fields a g i v r f fi e m d)
  have masks: "g AND 0x07 = g" "i AND 0x0F = i" "v AND 0x7F = v" "r AND 0x01 = r" "f AND 0xFF = f"
    "fi AND 0x1F = fi" "e AND 0x07 = e" "m AND 0x07FF = m" "d AND 0x1FFFFF = d"
    using fields(2-) by (simp_all only: and_masks name_masks mod_pos_pos_trivial)
  show ?thesis
    unfolding name_to_int64_def Let_def fields(1)
    by (simp only: j1939_name.simps masks or.left_neutral or.assoc of_bool_def [symmetric]
        pack_name [OF fields(2-)])
qed

lemma name_from_int64_number:
  assumes "name_ok n"
  shows "name_from_int64 (name_to_int64 n) = Inr n"
  using assms
proof (cases rule: name_cases)
  case (fields a g i v r f fi e m d)
  note x = name_to_int64_number [OF assms, unfolded fields(1) j1939_name.simps]
  have top: "((of_bool a :: int) mod 2 \<noteq> 0) = a" by (cases a) simp_all
  have "name_from_int64 (name_to_int64 n) = name_init n"
    unfolding name_from_int64_def and_masks(1-5) name_masks
      name_digits [OF fields(2-) x [folded fields(1)]] top by (simp only: fields(1))
  then show ?thesis using assms by (simp add: name_ok_def)
qed

lemma name_to_int64_range: "name_ok n \<Longrightarrow> 0 \<le> name_to_int64 n \<and> name_to_int64 n < 2 ^ 64"
  by (simp add: name_to_int64_number name_ok_fields name_number_def)

lemma name_to_int64_inj:
  "name_ok n \<Longrightarrow> name_ok m \<Longrightarrow> name_to_int64 n = name_to_int64 m \<longleftrightarrow> n = m"
  by (metis name_from_int64_number sum.inject(2))

section \<open>NAME and bytes\<close>

definition name_wire :: "j1939_name \<Rightarrow> bytes" where
  "name_wire n = le_bytes 8 (name_to_int64 n)"

lemma length_name_wire [simp]: "length (name_wire n) = 8"
  by (simp add: name_wire_def)

lemma name_to_bytes_ok: "name_ok n \<Longrightarrow> name_to_bytes n = Inr (name_wire n)"
  using name_to_int64_range [of n] by (simp add: name_to_bytes_def name_wire_def to_le_def)

lemma name_from_wire: "name_ok n \<Longrightarrow> name_from_bytes (name_wire n @ rest) = Inr n"
  using name_to_int64_range [of n]
  by (simp add: name_from_bytes_def py_slice_def name_wire_def from_le_le_bytes name_from_int64_number)

lemma drop_join:
  assumes "j = n + k" "b = 2 ^ n"
  shows "drop_bit j v * b + drop_bit k v mod b = drop_bit k (v :: int)"
proof -
  have "drop_bit j v = drop_bit k v div b"
    unfolding assms drop_bit_drop_bit [of n k v, symmetric] by (rule drop_bit_eq_div)
  then show ?thesis by (simp only: div_mult_mod_eq)
qed

lemma name_number_digits:
  "name_number (drop_bit 63 x) (drop_bit 60 x mod 8) (drop_bit 56 x mod 16) (drop_bit 49 x mod 128)
    (drop_bit 48 x mod 2) (drop_bit 40 x mod 256) (drop_bit 35 x mod 32) (drop_bit 32 x mod 8)
    (drop_bit 21 x mod 2048) (x mod 2097152) = x"
proof -
  have joins: "drop_bit 63 x * 8 + drop_bit 60 x mod 8 = drop_bit 60 x"
    "drop_bit 60 x * 16 + drop_bit 56 x mod 16 = drop_bit 56 x"
    "drop_bit 56 x * 128 + drop_bit 49 x mod 128 = drop_bit 49 x"
    "drop_bit 49 x * 2 + drop_bit 48 x mod 2 = drop_bit 48 x"
    "drop_bit 48 x * 256 + drop_bit 40 x mod 256 = drop_bit 40 x"
    "drop_bit 40 x * 32 + drop_bit 35 x mod 32 = drop_bit 35 x"
    "drop_bit 35 x * 8 + drop_bit 32 x mod 8 = drop_bit 32 x"
    "drop_bit 32 x * 2048 + drop_bit 21 x mod 2048 = drop_bit 21 x"
    by (rule drop_join [where n = 3] drop_join [where n = 4] drop_join [where n = 7]
        drop_join [where n = 1] drop_join [where n = 8] drop_join [where n = 5]
        drop_join [where n = 11]; simp; fail)+
  have low: "drop_bit 21 x * 2097152 + x mod 2097152 = x"
    using div_mult_mod_eq [of x 2097152] by (simp add: drop_bit_eq_div)
  show ?thesis by (simp only: name_number_def joins low)
qed

lemma name_from_int64_total:
  assumes "0 \<le> x" "x < 2 ^ 64"
  shows "\<exists>n. name_from_int64 x = Inr n \<and> name_ok n \<and> name_to_int64 n = x"
proof -
  define n where "n = \<lparr>arbitrary_address_capable = (drop_bit 63 x mod 2 \<noteq> 0),
    industry_group = drop_bit 60 x mod 8, vehicle_system_instance = drop_bit 56 x mod 16,
    vehicle_system = drop_bit 49 x mod 128, name_reserved = drop_bit 48 x mod 2,
    name_function = drop_bit 40 x mod 256, function_instance = drop_bit 35 x mod 32,
    ecu_instance = drop_bit 32 x mod 8, manufacturer_code = drop_bit 21 x mod 2048,
    identity_number = x mod 2097152\<rparr>"
  have ok: "name_ok n" by (simp add: n_def name_ok_fields)
  have "drop_bit 63 x \<in> {0, 1}"
    using assms by (auto simp: drop_bit_eq_div div_less_iff_less_mult pos_imp_zdiv_nonneg_iff)
  then have top: "of_bool (drop_bit 63 x mod 2 \<noteq> 0) = drop_bit 63 x" by auto
  have "name_from_int64 x = Inr n"
    using ok unfolding name_from_int64_def and_masks(1-5) name_masks n_def [symmetric] by (simp add: name_ok_def)
  moreover have "name_to_int64 n = x"
    unfolding name_to_int64_number [OF ok] unfolding n_def j1939_name.simps top by (rule name_number_digits)
  ultimately show ?thesis using ok by blast
qed

lemma name_from_bytes_total:
  assumes "8 \<le> length bs"
  shows "\<exists>n. name_from_bytes bs = Inr n \<and> name_ok n \<and> take 8 bs = name_wire n"
proof -
  have len: "length (take 8 bs) = 8" using assms by simp
  have "from_le (take 8 bs) < 2 ^ 64" using from_le_bound [of "take 8 bs"] len by simp
  then obtain n where n: "name_from_int64 (from_le (take 8 bs)) = Inr n" "name_ok n"
      "name_to_int64 n = from_le (take 8 bs)"
    using name_from_int64_total from_le_nonneg by blast
  moreover have "take 8 bs = name_wire n"
    using le_bytes_from_le [of "take 8 bs"] unfolding name_wire_def n(3) len by (rule sym)
  ultimately show ?thesis using assms by (auto simp: name_from_bytes_def py_slice_def)
qed

section \<open>Claims on the wire\<close>

text \<open>A frame that announces a NAME at an address.\<close>

definition announces :: "can_frame \<Rightarrow> j1939_name \<Rightarrow> int \<Rightarrow> bool" where
  "announces f n a \<longleftrightarrow> frame_is_extended f \<and> take 8 (frame_data f) = name_wire n \<and>
     fst (parse_j1939_id (frame_arbitration_id f)) = PGN_ADDRESS_CLAIM \<and>
     fst (snd (parse_j1939_id (frame_arbitration_id f))) = a"

definition engine_ok :: "claim_engine \<Rightarrow> bool" where
  "engine_ok e \<longleftrightarrow> name_ok (ce_name e) \<and> channel_id_ok (ce_channel_id e) \<and>
     0 \<le> ce_current_address e \<and> ce_current_address e < 256 \<and>
     0 \<le> ce_preferred_address e \<and> ce_preferred_address e < 256"

lemma claim_id_or: "0 \<le> a \<Longrightarrow> a < 256 \<Longrightarrow> 0x18EEFF00 OR (a :: int) = 0x18EEFF00 + a"
  using push_or [of a 8 "0x18EEFF"] by (simp add: push_bit_eq_mult)

lemma parse_claim_id:
  "0 \<le> a \<Longrightarrow> a < 256 \<Longrightarrow> parse_j1939_id (0x18EEFF00 + a) = (PGN_ADDRESS_CLAIM, a, Some 255, 6)"
  using parse_id_of [of 0 0 "0xEE" "0xFF" a 6]
  by (simp add: id_of_def pgn_of_def PGN_ADDRESS_CLAIM_def)

lemma claim_frame_ok:
  assumes "name_ok (ce_name e)" "channel_id_ok (ce_channel_id e)" "0 \<le> a" "a < 256"
  shows "\<exists>f. claim_frame e a ns = Inr f \<and> announces f (ce_name e) a"
proof -
  have "0 \<le> (0x18EEFF00 :: int) + a" "0x18EEFF00 + a < (2 :: int) ^ 29" using assms(3,4) by simp_all
  from create_tx_ok [OF assms(2) this, of "name_wire (ce_name e)" ns] show ?thesis
    using assms by (simp add: claim_frame_def name_to_bytes_ok claim_id_or announces_def parse_claim_id)
qed

lemma announces_unique:
  "announces f n a \<Longrightarrow> announces f m b \<Longrightarrow> name_ok n \<Longrightarrow> name_ok m \<Longrightarrow> n = m \<and> a = b"
  using name_from_wire [of n "[]"] name_from_wire [of m "[]"] by (auto simp: announces_def)

section \<open>What a received frame does\<close>

text \<open>Two engines that differ in their tables alone.\<close>

definition same_core :: "claim_engine \<Rightarrow> claim_engine \<Rightarrow> bool" where
  "same_core e e' \<longleftrightarrow> ce_name e' = ce_name e \<and> ce_preferred_address e' = ce_preferred_address e \<and>
    ce_current_address e' = ce_current_address e \<and> ce_channel_id e' = ce_channel_id e \<and>
    ce_state e' = ce_state e \<and> ce_claim_timer e' = ce_claim_timer e \<and>
    ce_claim_generation e' = ce_claim_generation e \<and>
    ce_claim_window_deadline_ns e' = ce_claim_window_deadline_ns e"

lemma same_core_refl [simp]: "same_core e e"
  by (simp add: same_core_def)

lemma same_core_trans: "same_core e e' \<Longrightarrow> same_core e' e'' \<Longrightarrow> same_core e e''"
  by (simp add: same_core_def)

lemma same_core_table [simp]: "same_core e (e'\<lparr>ce_address_table := t\<rparr>) = same_core e e'"
  by (simp add: same_core_def)

lemma prune_core [simp]: "same_core e (prune_address_table now e)"
  by (simp add: same_core_def prune_address_table_def Let_def)

lemma live_core: "live_address_table now view e = (e', live) \<Longrightarrow> same_core e e'"
  using prune_core [of e now] by (auto simp: live_address_table_def table_items_def Let_def)

lemma gate_core: "check_claim_rate_limit sa now e = (e', b) \<Longrightarrow> same_core e e'"
  by (auto simp: check_claim_rate_limit_def same_core_def split: option.splits if_splits)

text \<open>A claim the gate admits: the engine with the peer recorded, as the arbitration sees it.\<close>

definition recorded :: "claim_clock \<Rightarrow> int \<Rightarrow> j1939_name \<Rightarrow> claim_engine \<Rightarrow> claim_engine" where
  "recorded c sa n e =
     (let e = prune_address_table (cc_now c) (fst (check_claim_rate_limit sa (cc_now c) e)) in
      e\<lparr>ce_address_table := dset sa (n, cc_now c + ADDRESS_TABLE_TTL_S) (ce_address_table e)\<rparr>)"

lemma recorded_core [simp]: "same_core e (recorded c sa n e)"
  using gate_core [of sa "cc_now c" e] same_core_trans [OF _ prune_core]
  by (cases "check_claim_rate_limit sa (cc_now c) e") (simp add: recorded_def Let_def)

abbreviation admits :: "claim_engine \<Rightarrow> claim_clock \<Rightarrow> int \<Rightarrow> bool" where
  "admits e c sa \<equiv> snd (check_claim_rate_limit sa (cc_now c) e)"

lemma rx_announcement:
  assumes "announces f n a" "name_ok n" "engine_ok e"
  shows "claim_rx_frame c f e =
    (if n = ce_name e \<or> \<not> admits e c a then (e, Inr None)
     else handle_contention_locked c a n (recorded c a n e))"
proof -
  obtain da prio where id: "parse_j1939_id (frame_arbitration_id f) = (PGN_ADDRESS_CLAIM, a, da, prio)"
    using assms(1) by (cases "parse_j1939_id (frame_arbitration_id f)") (auto simp: announces_def)
  have data: "take 8 (frame_data f) = name_wire n" using assms(1) by (simp add: announces_def)
  then have len: "8 \<le> length (frame_data f)" by (metis length_name_wire length_take min.absorb_iff2)
  have "frame_data f = name_wire n @ drop 8 (frame_data f)" using data by (metis append_take_drop_id)
  then have name: "name_from_bytes (frame_data f) = Inr n" using name_from_wire [OF assms(2)] by metis
  have ids: "name_to_int64 n = name_to_int64 (ce_name e) \<longleftrightarrow> n = ce_name e"
    using assms(2,3) by (simp add: name_to_int64_inj engine_ok_def)
  have rx: "claim_rx_frame c f e = handle_claim c a (frame_data f) e"
    using assms(1) len by (simp add: claim_rx_frame_def id announces_def claim_pgns)
  obtain e1 b where g: "check_claim_rate_limit a (cc_now c) e = (e1, b)"
    by (cases "check_claim_rate_limit a (cc_now c) e")
  have refused: "\<not> b \<Longrightarrow> e1 = e"
    using g by (auto simp: check_claim_rate_limit_def split: option.splits if_splits)
  show ?thesis
    using refused by (cases b) (simp_all add: rx handle_claim_def name ids g recorded_def Let_def)
qed

lemmas claim_timer_defs = arm_claim_confirmation_timer_def cancel_pending_claim_timer_def Let_def

definition can_announce :: "claim_engine \<Rightarrow> claim_engine \<Rightarrow> bool" where
  "can_announce e e1 \<longleftrightarrow> engine_ok e \<and> ce_name e1 = ce_name e \<and> ce_channel_id e1 = ce_channel_id e"

lemma can_announce_frame:
  "can_announce e e1 \<Longrightarrow> 0 \<le> b \<Longrightarrow> b < 256 \<Longrightarrow>
    \<exists>f. claim_frame e1 b ns = Inr f \<and> announces f (ce_name e) b"
  using claim_frame_ok [of e1 b ns] by (simp add: can_announce_def engine_ok_def)

lemma give_up_ok:
  "can_announce e e1 \<Longrightarrow> \<exists>f. give_up c e1 =
      (e1\<lparr>ce_current_address := NULL_ADDRESS, ce_state := CANNOT_CLAIM\<rparr>, Inr (Some f)) \<and>
    announces f (ce_name e) NULL_ADDRESS"
  using can_announce_frame [of e "e1\<lparr>ce_current_address := NULL_ADDRESS, ce_state := CANNOT_CLAIM\<rparr>"
      NULL_ADDRESS "cc_frame_ns c"]
  by (auto simp: give_up_def can_announce_def claim_addresses)

lemma contention_won:
  assumes "engine_ok e" "name_to_int64 (ce_name e) < name_to_int64 n"
    "a = ce_current_address e" "a \<noteq> NULL_ADDRESS"
  shows "\<exists>f. handle_contention_locked c a n e =
      (arm_claim_confirmation_timer (cc_arm_ns c) (cancel_pending_claim_timer e), Inr (Some f)) \<and>
    announces f (ce_name e) a"
proof -
  let ?e1 = "arm_claim_confirmation_timer (cc_arm_ns c) (cancel_pending_claim_timer e)"
  have a: "0 \<le> a" "a < 256" using assms(1,3) by (simp_all add: engine_ok_def)
  have "can_announce e ?e1" using assms(1) by (simp add: can_announce_def claim_timer_defs)
  from can_announce_frame [OF this a] obtain f where
    "claim_frame ?e1 a (cc_frame_ns c) = Inr f" "announces f (ce_name e) a" by blast
  then show ?thesis using assms a by (simp add: handle_contention_locked_def claim_timer_defs)
qed

text \<open>The fallback address: the first of the range that no live peer holds.\<close>

definition fallback :: "claim_clock \<Rightarrow> claim_engine \<Rightarrow> int option" where
  "fallback c e =
     find (\<lambda>sa. dget (snd (live_address_table (cc_scan c) (cc_view c) e)) sa = None) FALLBACK_ADDRESS_RANGE"

lemma fallback_range: "fallback c e = Some b \<Longrightarrow> 128 \<le> b \<and> b \<le> 247"
proof -
  assume "fallback c e = Some b"
  then have "b \<in> set FALLBACK_ADDRESS_RANGE"
    unfolding fallback_def find_Some_iff by (metis nth_mem)
  then show ?thesis by (simp only: FALLBACK_ADDRESS_RANGE_def set_upto atLeastAtMost_iff)
qed

lemma contention_moved:
  assumes "engine_ok e" "name_to_int64 n \<le> name_to_int64 (ce_name e)"
    "a = ce_current_address e" "a \<noteq> NULL_ADDRESS"
    and "arbitrary_address_capable (ce_name e)" "fallback c (cancel_pending_claim_timer e) = Some b"
  shows "\<exists>e1 f. handle_contention_locked c a n e =
      (arm_claim_confirmation_timer (cc_arm_ns c) (e1\<lparr>ce_current_address := b, ce_state := CLAIMING\<rparr>),
        Inr (Some f)) \<and>
    same_core (cancel_pending_claim_timer e) e1 \<and> announces f (ce_name e) b"
proof -
  let ?e0 = "cancel_pending_claim_timer e"
  obtain e1 live where live: "live_address_table (cc_scan c) (cc_view c) ?e0 = (e1, live)"
    by (cases "live_address_table (cc_scan c) (cc_view c) ?e0")
  have b: "0 \<le> b" "b < 256" using fallback_range [OF assms(6)] by simp_all
  have core: "same_core ?e0 e1" by (rule live_core [OF live])
  let ?e2 = "arm_claim_confirmation_timer (cc_arm_ns c) (e1\<lparr>ce_current_address := b, ce_state := CLAIMING\<rparr>)"
  have "can_announce e ?e2"
    using assms(1) core by (simp add: can_announce_def same_core_def claim_timer_defs)
  from can_announce_frame [OF this b] obtain f where
    "claim_frame ?e2 b (cc_frame_ns c) = Inr f" "announces f (ce_name e) b" by blast
  then have "handle_contention_locked c a n e = (?e2, Inr (Some f))"
    using assms live b by (simp add: handle_contention_locked_def fallback_def Let_def
        cancel_pending_claim_timer_def [of e])
  then show ?thesis using core \<open>announces f _ _\<close> by blast
qed

lemma contention_lost:
  assumes "engine_ok e" "name_to_int64 n \<le> name_to_int64 (ce_name e)"
    "a = ce_current_address e" "a \<noteq> NULL_ADDRESS"
    and "\<not> arbitrary_address_capable (ce_name e) \<or> fallback c (cancel_pending_claim_timer e) = None"
  shows "\<exists>e1 f. handle_contention_locked c a n e =
      (e1\<lparr>ce_current_address := NULL_ADDRESS, ce_state := CANNOT_CLAIM\<rparr>, Inr (Some f)) \<and>
    same_core (cancel_pending_claim_timer e) e1 \<and> announces f (ce_name e) NULL_ADDRESS"
proof -
  let ?e0 = "cancel_pending_claim_timer e"
  obtain e1 live where live: "live_address_table (cc_scan c) (cc_view c) ?e0 = (e1, live)"
    by (cases "live_address_table (cc_scan c) (cc_view c) ?e0")
  have core: "same_core ?e0 e1" by (rule live_core [OF live])
  have ann: "can_announce e ?e0" "can_announce e e1"
    using assms(1) core by (simp_all add: can_announce_def same_core_def claim_timer_defs)
  show ?thesis
  proof (cases "arbitrary_address_capable (ce_name e)")
    case True
    then have "handle_contention_locked c a n e = give_up c e1"
      using assms live by (simp add: handle_contention_locked_def fallback_def Let_def
          cancel_pending_claim_timer_def [of e])
    then show ?thesis using give_up_ok [OF ann(2), of c] core by metis
  next
    case False
    then have "handle_contention_locked c a n e = give_up c ?e0"
      using assms by (simp add: handle_contention_locked_def Let_def cancel_pending_claim_timer_def [of e])
    then show ?thesis using give_up_ok [OF ann(1), of c] same_core_refl by metis
  qed
qed

text \<open>The four outcomes of an admitted claim of another NAME.\<close>

lemma contention_cases [consumes 1, case_names aloof defend move yield]:
  assumes "engine_ok e"
  obtains "a \<noteq> ce_current_address e \<or> a = NULL_ADDRESS"
      "handle_contention_locked c a n e = (e, Inr None)"
  | f where "a = ce_current_address e" "a \<noteq> NULL_ADDRESS" "name_to_int64 (ce_name e) < name_to_int64 n"
      "handle_contention_locked c a n e =
        (arm_claim_confirmation_timer (cc_arm_ns c) (cancel_pending_claim_timer e), Inr (Some f))"
      "announces f (ce_name e) a"
  | f b e1 where "a = ce_current_address e" "a \<noteq> NULL_ADDRESS"
      "name_to_int64 n \<le> name_to_int64 (ce_name e)"
      "128 \<le> b" "b \<le> 247" "same_core (cancel_pending_claim_timer e) e1"
      "handle_contention_locked c a n e = (arm_claim_confirmation_timer (cc_arm_ns c)
        (e1\<lparr>ce_current_address := b, ce_state := CLAIMING\<rparr>), Inr (Some f))"
      "announces f (ce_name e) b"
  | f e1 where "a = ce_current_address e" "a \<noteq> NULL_ADDRESS"
      "name_to_int64 n \<le> name_to_int64 (ce_name e)" "same_core (cancel_pending_claim_timer e) e1"
      "handle_contention_locked c a n e =
        (e1\<lparr>ce_current_address := NULL_ADDRESS, ce_state := CANNOT_CLAIM\<rparr>, Inr (Some f))"
      "announces f (ce_name e) NULL_ADDRESS"
proof (cases "a \<noteq> ce_current_address e \<or> a = NULL_ADDRESS")
  case True
  then show thesis using that(1) by (simp add: handle_contention_locked_def)
next
  case own: False
  show thesis
  proof (cases "name_to_int64 (ce_name e) < name_to_int64 n")
    case True
    then show thesis using contention_won [OF assms, of n a c] own that(2) by blast
  next
    case False
    then show thesis
      using contention_moved [OF assms, of n a c] contention_lost [OF assms, of n a c] own that(3,4)
        fallback_range [of c "cancel_pending_claim_timer e"]
      by (cases "fallback c (cancel_pending_claim_timer e)"; metis not_le)
  qed
qed

section \<open>The calls of an engine as events\<close>

text \<open>\<open>SetPreferred\<close> is the assignment the desktop application makes before it starts a claim;
  \<open>Look\<close> is the property \<open>address_table\<close>.\<close>

datatype claim_event =
    StartClaim bool claim_clock | Transmitted int | Failed | TimerFires int int | ConfirmClaim int
  | Hear claim_clock can_frame | SetPreferred int | Look seconds seconds | CancelTimer

fun claim_step :: "claim_event \<Rightarrow> claim_engine \<Rightarrow> claim_engine \<times> can_frame option py" where
  "claim_step (StartClaim auto c) e =
     (case start_claiming auto c e of (e, r) \<Rightarrow> (e, py_bind r (\<lambda>f. Inr (Some f))))"
| "claim_step (Transmitted ns) e = (on_claim_transmitted ns e, Inr None)"
| "claim_step Failed e = (on_claim_transmission_failed e, Inr None)"
| "claim_step (TimerFires generation ns) e = (confirm_claimed_guarded generation ns e, Inr None)"
| "claim_step (ConfirmClaim ns) e = (confirm_claimed ns e, Inr None)"
| "claim_step (Hear c f) e = claim_rx_frame c f e"
| "claim_step (SetPreferred p) e = (e\<lparr>ce_preferred_address := p\<rparr>, Inr None)"
| "claim_step (Look now view) e = (fst (live_address_table now view e), Inr None)"
| "claim_step CancelTimer e = (cancel_pending_claim_timer e, Inr None)"

fun event_ok :: "claim_event \<Rightarrow> bool" where
  "event_ok (SetPreferred p) \<longleftrightarrow> 0 \<le> p \<and> p < 256"
| "event_ok _ \<longleftrightarrow> True"

lemma start_ok:
  assumes "engine_ok e"
  shows "\<exists>f. start_claiming auto c e =
      ((if auto then arm_claim_confirmation_timer (cc_arm_ns c) else id)
         (e\<lparr>ce_current_address := ce_preferred_address e, ce_state := CLAIMING\<rparr>), Inr f) \<and>
    announces f (ce_name e) (ce_preferred_address e)"
proof -
  let ?e1 = "e\<lparr>ce_current_address := ce_preferred_address e, ce_state := CLAIMING\<rparr>"
  have p: "0 \<le> ce_preferred_address e" "ce_preferred_address e < 256"
    using assms by (simp_all add: engine_ok_def)
  have "can_announce e ?e1" using assms by (simp add: can_announce_def)
  from can_announce_frame [OF this p] obtain f where
    "claim_frame ?e1 (ce_preferred_address e) (cc_frame_ns c) = Inr f"
    "announces f (ce_name e) (ce_preferred_address e)" by blast
  then show ?thesis using p by (simp add: start_claiming_def Let_def)
qed

lemma answer_cases:
  assumes "engine_ok e"
  obtains "answer_request c da data e = Inr None"
  | f a where "answer_request c da data e = Inr (Some f)" "announces f (ce_name e) a"
      "ce_state e = CLAIMED \<and> a = ce_current_address e \<or> ce_state e = CANNOT_CLAIM \<and> a = NULL_ADDRESS"
proof -
  have cur: "0 \<le> ce_current_address e" "ce_current_address e < 256"
    using assms by (simp_all add: engine_ok_def)
  have "can_announce e e" using assms by (simp add: can_announce_def)
  note ann = can_announce_frame [OF this]
  obtain f where f: "claim_frame e (ce_current_address e) (cc_frame_ns c) = Inr f"
      "announces f (ce_name e) (ce_current_address e)" using ann [OF cur] by blast
  obtain g where g: "claim_frame e NULL_ADDRESS (cc_frame_ns c) = Inr g" "announces g (ce_name e) NULL_ADDRESS"
    using ann [of NULL_ADDRESS] by (auto simp: claim_addresses)
  show thesis
  proof (cases "answer_request c da data e = Inr None")
    case True
    then show ?thesis by (rule that(1))
  next
    case False
    then have "ce_state e = CLAIMED \<and> answer_request c da data e = Inr (Some f) \<or>
        ce_state e = CANNOT_CLAIM \<and> answer_request c da data e = Inr (Some g)"
      using f(1) g(1) cur by (auto simp: answer_request_def split: if_splits)
    then show ?thesis using that(2) f(2) g(2) by blast
  qed
qed

lemma hear_cases [consumes 1, case_names quiet answer contend command]:
  assumes "engine_ok e"
  obtains "claim_rx_frame c f e = (e, Inr None)"
  | g a where "claim_rx_frame c f e = (e, Inr (Some g))" "announces g (ce_name e) a"
      "ce_state e = CLAIMED \<and> a = ce_current_address e \<or> ce_state e = CANNOT_CLAIM \<and> a = NULL_ADDRESS"
  | n a where "announces f n a" "name_ok n" "n \<noteq> ce_name e" "admits e c a"
      "claim_rx_frame c f e = handle_contention_locked c a n (recorded c a n e)"
  | q where "0 \<le> q" "q < 254"
      "claim_rx_frame c f e = claim_step (StartClaim True c) (e\<lparr>ce_preferred_address := q\<rparr>)"
proof -
  obtain pgn sa da prio where id: "parse_j1939_id (frame_arbitration_id f) = (pgn, sa, da, prio)"
    by (metis prod_cases4)
  let ?d = "frame_data f"
  note rx = claim_rx_frame_def [of c f e, unfolded id Let_def prod.case]
  consider "\<not> frame_is_extended f \<or> length ?d < 3 \<or> pgn \<noteq> PGN_REQUEST_PGN \<and> length ?d < 8"
    | "frame_is_extended f" "length ?d \<ge> 3" "pgn = PGN_REQUEST_PGN"
    | "frame_is_extended f" "length ?d \<ge> 8" "pgn \<noteq> PGN_REQUEST_PGN" by linarith
  then show thesis
  proof cases
    case 1
    then show ?thesis by (intro that(1)) (auto simp: rx)
  next
    case 2
    then show ?thesis using that(1,2) by (cases rule: answer_cases [OF assms, of c da ?d]) (auto simp: rx)
  next
    case 3
    obtain n where n: "name_from_bytes ?d = Inr n" "name_ok n" "take 8 ?d = name_wire n"
      using name_from_bytes_total [of ?d] 3 by blast
    have n8: "name_from_bytes (py_slice ?d 0 8) = Inr n"
      using name_from_wire [OF n(2), of "[]"] n(3) by (simp add: py_slice_def)
    show ?thesis
    proof (cases "pgn = PGN_COMMANDED_ADDRESS")
      case True
      then have "claim_rx_frame c f e = (e, Inr None) \<or> byte_at ?d 8 < 254 \<and>
          claim_rx_frame c f e = claim_step (StartClaim True c) (e\<lparr>ce_preferred_address := byte_at ?d 8\<rparr>)"
        using 3 by (simp add: rx claim_pgns n8)
      then show ?thesis using that(1,4) uint_byte_bounds(1) by blast
    next
      case False
      have "pgn = PGN_ADDRESS_CLAIM \<Longrightarrow> announces f n sa" using 3 n id by (simp add: announces_def)
      moreover have "pgn \<noteq> PGN_ADDRESS_CLAIM \<Longrightarrow> claim_rx_frame c f e = (e, Inr None)"
        using 3 False by (simp add: rx)
      ultimately show ?thesis
        using that(1,3) n(2) rx_announcement [OF _ n(2) assms, of f sa c] by metis
    qed
  qed
qed

section \<open>What every event keeps\<close>

definition holds :: "claim_engine \<Rightarrow> int \<Rightarrow> bool" where
  "holds e a \<longleftrightarrow> ce_state e \<in> {CLAIMING, CLAIMED} \<and> ce_current_address e = a \<and> a \<noteq> NULL_ADDRESS"

text \<open>A step leaves the engine sound, emits nothing but announcements of its own NAME, and holds
  no address it did not hold before without announcing it.\<close>

definition sound_step :: "claim_engine \<Rightarrow> claim_engine \<Rightarrow> can_frame option \<Rightarrow> bool" where
  "sound_step e e' out \<longleftrightarrow> engine_ok e' \<and> ce_name e' = ce_name e \<and>
     (\<forall>f. out = Some f \<longrightarrow> (\<exists>a. announces f (ce_name e) a)) \<and>
     (\<forall>a. holds e' a \<longrightarrow> holds e a \<or> (\<exists>f. out = Some f \<and> announces f (ce_name e) a))"

lemma sound_idle: "engine_ok e \<Longrightarrow> same_core e e' \<Longrightarrow> sound_step e e' None"
  by (simp add: sound_step_def same_core_def engine_ok_def holds_def)

lemma sound_emit:
  assumes "engine_ok e" "ce_name e' = ce_name e" "ce_channel_id e' = ce_channel_id e"
    "0 \<le> ce_current_address e'" "ce_current_address e' < 256"
    "0 \<le> ce_preferred_address e'" "ce_preferred_address e' < 256"
    "announces f (ce_name e) b" "ce_current_address e' = b \<or> holds e (ce_current_address e')"
  shows "sound_step e e' (Some f)"
  using assms by (auto simp: sound_step_def engine_ok_def holds_def)

text \<open>The same for a peer's admitted claim, which the engine also answers wherever it goes on to
  hold the address claimed.\<close>

lemma contention_sound:
  assumes "engine_ok e" "same_core e e0"
  shows "\<exists>e' out. handle_contention_locked c a n e0 = (e', Inr out) \<and> sound_step e e' out \<and>
    (holds e' a \<longrightarrow> (\<exists>f. out = Some f \<and> announces f (ce_name e) a))"
proof -
  have ok: "engine_ok e0" and core: "ce_name e0 = ce_name e" "ce_channel_id e0 = ce_channel_id e"
      "ce_preferred_address e0 = ce_preferred_address e" "ce_current_address e0 = ce_current_address e"
    using assms by (simp_all add: engine_ok_def same_core_def)
  have pref: "0 \<le> ce_preferred_address e" "ce_preferred_address e < 256"
    "0 \<le> ce_current_address e" "ce_current_address e < 256"
    using assms(1) by (simp_all add: engine_ok_def)
  show ?thesis using ok
  proof (cases rule: contention_cases [where a = a and c = c and n = n])
    case aloof
    then show ?thesis using sound_idle [OF assms] by (auto simp: holds_def)
  next
    case (defend f)
    then show ?thesis
      using core pref by (auto intro!: sound_emit [OF assms(1)] simp: claim_timer_defs)
  next
    case (move f b e1)
    then show ?thesis
      using core pref by (auto intro!: sound_emit [OF assms(1)] simp: claim_timer_defs same_core_def holds_def)
  next
    case (yield f e1)
    then show ?thesis
      using core pref
      by (auto intro!: sound_emit [OF assms(1)] simp: claim_timer_defs same_core_def holds_def claim_addresses)
  qed
qed

lemma start_sound:
  assumes "engine_ok e" "0 \<le> p" "p < 256"
  shows "\<exists>e' f. claim_step (StartClaim auto c) (e\<lparr>ce_preferred_address := p\<rparr>) = (e', Inr (Some f)) \<and>
    sound_step e e' (Some f)"
proof -
  have "engine_ok (e\<lparr>ce_preferred_address := p\<rparr>)" using assms by (simp add: engine_ok_def)
  from start_ok [OF this, of auto c] obtain f where f: "announces f (ce_name e) p"
    "start_claiming auto c (e\<lparr>ce_preferred_address := p\<rparr>) =
      ((if auto then arm_claim_confirmation_timer (cc_arm_ns c) else id)
        (e\<lparr>ce_preferred_address := p, ce_current_address := p, ce_state := CLAIMING\<rparr>), Inr f)"
    by auto
  show ?thesis
    using assms f by (auto intro!: sound_emit [OF assms(1)] simp: claim_timer_defs)
qed

lemma step_sound:
  assumes "engine_ok e" "event_ok ev"
  shows "\<exists>e' out. claim_step ev e = (e', Inr out) \<and> sound_step e e' out"
proof (cases ev)
  case (StartClaim auto c)
  have "0 \<le> ce_preferred_address e" "ce_preferred_address e < 256" using assms(1) by (simp_all add: engine_ok_def)
  from start_sound [OF assms(1) this, of auto c] show ?thesis by (auto simp: StartClaim)
next
  case (Hear c f)
  show ?thesis using assms(1)
  proof (cases rule: hear_cases [where c = c and f = f])
    case quiet
    then show ?thesis using sound_idle [OF assms(1)] by (simp add: Hear)
  next
    case (answer g a)
    then show ?thesis using assms(1) by (auto simp: Hear sound_step_def)
  next
    case (contend n a)
    then show ?thesis 
      using contention_sound [OF assms(1) recorded_core [of e c a n], of c a n] by (auto simp: Hear)
  next
    case (command q)
    then show ?thesis using start_sound [OF assms(1), of q True c] by (auto simp: Hear)
  qed
next
  case (Look now view)
  obtain e' live where "live_address_table now view e = (e', live)" by (metis surj_pair)
  then show ?thesis using sound_idle [OF assms(1) live_core] by (auto simp: Look)
qed (use assms in \<open>auto simp: sound_step_def engine_ok_def holds_def on_claim_transmitted_def
    on_claim_transmission_failed_def confirm_claimed_guarded_def confirm_claimed_def finalize_claim_def
    claim_timer_defs\<close>)

section \<open>The claim window\<close>

fun event_ns :: "claim_event \<Rightarrow> int option" where
  "event_ns (StartClaim auto c) = Some (cc_arm_ns c)"
| "event_ns (Transmitted ns) = Some ns"
| "event_ns (TimerFires generation ns) = Some ns"
| "event_ns (ConfirmClaim ns) = Some ns"
| "event_ns (Hear c f) = Some (cc_arm_ns c)"
| "event_ns _ = None"

fun arms_timer :: "claim_event \<Rightarrow> bool" where
  "arms_timer (StartClaim auto c) \<longleftrightarrow> auto"
| "arms_timer _ \<longleftrightarrow> True"

text \<open>Sessions of one engine: its events in the order of their clock readings, and the frames it
  handed out, newest first, with the reading of the event.\<close>

inductive claim_run :: "claim_engine \<Rightarrow> (int \<times> can_frame) list \<Rightarrow> int \<Rightarrow> bool" where
  Begin: "name_init name = Inr name \<Longrightarrow> channel_id_ok ch \<Longrightarrow> 0 \<le> p \<Longrightarrow> p < 256 \<Longrightarrow>
    claim_run (claim_init name p ch) [] t"
| Next: "claim_run e sent t \<Longrightarrow> event_ok ev \<Longrightarrow> arms_timer ev \<Longrightarrow> t \<le> t' \<Longrightarrow> event_ns ev \<in> {None, Some t'} \<Longrightarrow>
    claim_step ev e = (e', Inr out) \<Longrightarrow>
    claim_run e' ((case out of None \<Rightarrow> [] | Some f \<Rightarrow> [(t', f)]) @ sent) t'"

text \<open>How an engine comes to be claiming, and to have claimed.\<close>

definition bid_step :: "int \<Rightarrow> claim_engine \<Rightarrow> claim_engine \<Rightarrow> can_frame option \<Rightarrow> bool" where
  "bid_step t e e' out \<longleftrightarrow> (case out of
     None \<Rightarrow> ce_state e = CLAIMING \<and> ce_current_address e' = ce_current_address e \<and>
       ce_claim_window_deadline_ns e' \<in> {ce_claim_window_deadline_ns e, t + CLAIM_CONFIRM_WINDOW_NS}
   | Some f \<Rightarrow> announces f (ce_name e) (ce_current_address e') \<and>
       ce_claim_window_deadline_ns e' = t + CLAIM_CONFIRM_WINDOW_NS)"

definition claim_matures :: "int \<Rightarrow> claim_engine \<Rightarrow> claim_engine \<Rightarrow> can_frame option \<Rightarrow> bool" where
  "claim_matures t e e' out \<longleftrightarrow> out = None \<and> ce_state e = CLAIMING \<and>
     ce_current_address e' = ce_current_address e \<and>
     ce_claim_window_deadline_ns e - TIMER_TOLERANCE_NS \<le> t"

definition window_step :: "int \<Rightarrow> claim_engine \<Rightarrow> claim_engine \<Rightarrow> can_frame option \<Rightarrow> bool" where
  "window_step t e e' out \<longleftrightarrow> (ce_state e' = CLAIMING \<longrightarrow> bid_step t e e' out) \<and>
     (is_address_claimed e' \<and> \<not> is_address_claimed e \<longrightarrow> claim_matures t e e' out)"

lemmas window_defs = window_step_def bid_step_def claim_matures_def is_address_claimed_def

lemma contention_window:
  assumes "engine_ok e" "same_core e e0" "handle_contention_locked c a n e0 = (e', Inr out)"
  shows "window_step (cc_arm_ns c) e e' out"
proof -
  have ok: "engine_ok e0" and core: "ce_name e0 = ce_name e" "ce_current_address e0 = ce_current_address e"
      "ce_state e0 = ce_state e" "ce_claim_window_deadline_ns e0 = ce_claim_window_deadline_ns e"
    using assms(1,2) by (simp_all add: engine_ok_def same_core_def)
  show ?thesis using ok
    by (cases rule: contention_cases [where a = a and c = c and n = n])
      (use assms(3) core in \<open>auto simp: window_defs same_core_def claim_timer_defs\<close>)
qed

lemma start_window:
  assumes "engine_ok e" "0 \<le> p" "p < 256"
    and "claim_step (StartClaim True c) (e\<lparr>ce_preferred_address := p\<rparr>) = (e', Inr out)"
  shows "window_step (cc_arm_ns c) e e' out"
proof -
  have "engine_ok (e\<lparr>ce_preferred_address := p\<rparr>)" using assms by (simp add: engine_ok_def)
  from start_ok [OF this, of True c] show ?thesis
    using assms(4) by (auto simp: window_defs claim_timer_defs)
qed

lemma step_window:
  assumes "engine_ok e" "arms_timer ev" "claim_step ev e = (e', Inr out)" "event_ns ev \<in> {None, Some t}"
  shows "window_step t e e' out"
proof (cases ev)
  case (StartClaim auto c)
  have "0 \<le> ce_preferred_address e" "ce_preferred_address e < 256" using assms(1) by (simp_all add: engine_ok_def)
  from start_window [OF assms(1) this, of c e' out] show ?thesis using assms by (simp add: StartClaim)
next
  case (Hear c f)
  then have t: "cc_arm_ns c = t" and rx: "claim_rx_frame c f e = (e', Inr out)" using assms(3,4) by simp_all
  show ?thesis using assms(1)
  proof (cases rule: hear_cases [where c = c and f = f])
    case (contend n a)
    then show ?thesis
      using contention_window [OF assms(1) recorded_core [of e c a n], of c a n e' out] rx t by simp
  next
    case (command q)
    then show ?thesis using start_window [OF assms(1), of q c e' out] rx t by simp
  qed (use rx in \<open>auto simp: window_defs\<close>)
next
  case (Look now view)
  then have "same_core e e'" "out = None"
    using assms(3) live_core [of now view e] by (auto simp: prod_eq_iff)
  then show ?thesis by (simp add: window_defs same_core_def)
qed (use assms in \<open>auto simp: window_defs on_claim_transmitted_def on_claim_transmission_failed_def
    confirm_claimed_guarded_def confirm_claimed_def finalize_claim_def claim_timer_defs
    TIMER_TOLERANCE_NS_def split: if_splits\<close>)

definition window_inv :: "claim_engine \<Rightarrow> (int \<times> can_frame) list \<Rightarrow> int \<Rightarrow> bool" where
  "window_inv e sent t \<longleftrightarrow> engine_ok e \<and> (\<forall>(s, f) \<in> set sent. s \<le> t) \<and>
     (ce_state e = CLAIMING \<longrightarrow> (\<exists>s f rest. sent = (s, f) # rest \<and>
       announces f (ce_name e) (ce_current_address e) \<and>
       s + CLAIM_CONFIRM_WINDOW_NS \<le> ce_claim_window_deadline_ns e))"

lemma claim_run_inv: "claim_run e sent t \<Longrightarrow> window_inv e sent t"
proof (induction rule: claim_run.induct)
  case (Begin name ch p t)
  then show ?case by (simp add: window_inv_def engine_ok_def name_ok_def claim_init_def)
next
  case (Next e sent t ev t' e' out)
  then have ok: "engine_ok e" and old: "\<forall>(s, f) \<in> set sent. s \<le> t'"
    by (auto simp: window_inv_def)
  have e': "engine_ok e'" "ce_name e' = ce_name e"
    using step_sound [OF ok Next.hyps(2)] Next.hyps(6) by (auto simp: sound_step_def)
  have "window_step t' e e' out" by (rule step_window [OF ok Next.hyps(3,6,5)])
  then show ?case
    using Next.IH e' old
    by (cases out) (auto simp: window_inv_def window_step_def bid_step_def)
qed

section \<open>The tables\<close>

definition tables_ok :: "claim_engine \<Rightarrow> bool" where
  "tables_ok e \<longleftrightarrow> dwf (ce_address_table e) \<and> dwf (ce_claim_rate e)"

lemma tables_ok_fields [simp]:
  "tables_ok (e\<lparr>ce_state := st\<rparr>) = tables_ok e" "tables_ok (e\<lparr>ce_current_address := a\<rparr>) = tables_ok e"
  "tables_ok (e\<lparr>ce_preferred_address := a\<rparr>) = tables_ok e"
  "tables_ok (arm_claim_confirmation_timer ns e) = tables_ok e"
  "tables_ok (cancel_pending_claim_timer e) = tables_ok e"
  by (simp_all add: tables_ok_def claim_timer_defs)

lemma tables_ok_prune [simp]: "tables_ok e \<Longrightarrow> tables_ok (prune_address_table now e)"
  by (simp add: tables_ok_def prune_address_table_def Let_def)

lemma tables_ok_live [simp]: "tables_ok e \<Longrightarrow> tables_ok (fst (live_address_table now view e))"
  using tables_ok_prune [of e now]
  by (simp add: live_address_table_def table_items_def table_prune_def Let_def tables_ok_def)

lemma tables_ok_gate: "tables_ok e \<Longrightarrow> tables_ok (fst (check_claim_rate_limit sa now e))"
  by (auto simp: check_claim_rate_limit_def tables_ok_def dict.wf_store split: option.split)

lemma tables_ok_recorded [simp]: "tables_ok e \<Longrightarrow> tables_ok (recorded c sa n e)"
  using tables_ok_prune [OF tables_ok_gate [of e sa "cc_now c"], of "cc_now c"]
  by (simp add: recorded_def Let_def tables_ok_def dict.wf_store)

lemma tables_ok_contention: "tables_ok e \<Longrightarrow> tables_ok (fst (handle_contention_locked c a n e))"
  using tables_ok_live [of "cancel_pending_claim_timer e" "cc_scan c" "cc_view c"]
  by (cases "live_address_table (cc_scan c) (cc_view c) (cancel_pending_claim_timer e)")
    (simp add: handle_contention_locked_def Let_def give_up_def split: option.split)

lemma tables_ok_start: "tables_ok e \<Longrightarrow> tables_ok (fst (start_claiming auto c e))"
  by (simp add: start_claiming_def Let_def split: sum.split)

lemma tables_ok_step:
  assumes "engine_ok e" "tables_ok e"
  shows "tables_ok (fst (claim_step ev e))"
proof (cases ev)
  case (Hear c f)
  show ?thesis using assms(1)
  proof (cases rule: hear_cases [where c = c and f = f])
    case (contend n a)
    then show ?thesis using tables_ok_contention assms(2) by (simp add: Hear)
  next
    case (command q)
    then show ?thesis
      using tables_ok_start [of "e\<lparr>ce_preferred_address := q\<rparr>" True c] assms(2) by (simp add: Hear case_prod_beta)
  qed (use assms in \<open>simp_all add: Hear\<close>)
next
  case (StartClaim auto c)
  then show ?thesis using tables_ok_start [OF assms(2), of auto c] by (simp add: case_prod_beta)
qed (use assms in \<open>simp_all add: on_claim_transmitted_def on_claim_transmission_failed_def Let_def
    confirm_claimed_guarded_def confirm_claimed_def finalize_claim_def\<close>)

lemma claim_run_tables: "claim_run e sent t \<Longrightarrow> tables_ok e"
proof (induction rule: claim_run.induct)
  case (Begin name ch p t)
  then show ?case by (simp add: tables_ok_def claim_init_def)
next
  case (Next e sent t ev t' e' out)
  then have "engine_ok e" using claim_run_inv by (auto simp: window_inv_def)
  from tables_ok_step [OF this Next.IH, of ev] show ?case using Next.hyps(6) by simp
qed

text \<open>An address the fallback scan passes over: its claim is on record and has expired at neither
  reading.\<close>

definition heard :: "claim_clock \<Rightarrow> claim_engine \<Rightarrow> int \<Rightarrow> bool" where
  "heard c e x \<longleftrightarrow> (case dget (ce_address_table e) x of None \<Rightarrow> False
     | Some (n, expiry) \<Rightarrow> cc_scan c < expiry \<and> cc_view c < expiry)"

lemma dget_view: "dget (map (\<lambda>(sa, (name, _)). (sa, name)) d) x = map_option fst (dget d x)"
  by (induction d) auto

lemma dget_live:
  assumes "tables_ok e"
  shows "dget (snd (live_address_table (cc_scan c) (cc_view c) e)) x = None \<longleftrightarrow> \<not> heard c e x"
proof -
  have tab: "dwf (ce_address_table e)" using assms by (simp add: tables_ok_def)
  let ?old = "\<lambda>t sa (name :: j1939_name, expiry :: seconds). expiry \<le> t"
  define t1 where "t1 = ce_address_table (prune_address_table (cc_scan c) e)"
  have wf1: "dwf t1" using tables_ok_prune [OF assms] by (simp add: tables_ok_def t1_def)
  have 1: "dget t1 x = (case dget (ce_address_table e) x of None \<Rightarrow> None
      | Some v \<Rightarrow> if ?old (cc_scan c) x v then None else Some v)"
    by (simp add: t1_def prune_address_table_def Let_def dget_sweep [OF tab] del: dget_dpop_all)
  have 2: "dget (table_prune (cc_view c) t1) x = (case dget t1 x of None \<Rightarrow> None
      | Some v \<Rightarrow> if ?old (cc_view c) x v then None else Some v)"
    unfolding table_prune_def by (rule dget_sweep [OF wf1])
  have "dget (snd (live_address_table (cc_scan c) (cc_view c) e)) x =
      map_option fst (dget (table_prune (cc_view c) t1) x)"
    by (simp add: live_address_table_def table_items_def Let_def t1_def dget_view)
  then show ?thesis
    unfolding 2 1 heard_def by (auto split: option.split prod.split)
qed

lemma find_upto_Some:
  assumes "find P [lo..hi] = Some b"
  shows "b \<in> {lo..hi} \<and> P b \<and> (\<forall>x \<in> {lo..<b}. \<not> P x)"
proof -
  obtain i where i: "i < length [lo..hi]" "P ([lo..hi] ! i)" "b = [lo..hi] ! i" "\<forall>j<i. \<not> P ([lo..hi] ! j)"
    using assms unfolding find_Some_iff by blast
  have b: "b = lo + int i" "b \<le> hi" using i(1,3) by (simp_all add: nth_upto)
  have "\<not> P x" if x: "x \<in> {lo..<b}" for x
  proof -
    have j: "nat (x - lo) < i" "lo + int (nat (x - lo)) \<le> hi" using x b by auto
    then have "\<not> P ([lo..hi] ! nat (x - lo))" using i(4) by blast
    then show ?thesis using x nth_upto [OF j(2)] by simp
  qed
  then show ?thesis using i(2,3) b by auto
qed

text \<open>Which address the fallback scan finds.\<close>

lemma fallback_first:
  assumes "tables_ok e"
  shows "(case fallback c e of
      None \<Rightarrow> \<forall>x \<in> {128..247}. heard c e x
    | Some b \<Rightarrow> b \<in> {128..247} \<and> \<not> heard c e b \<and> (\<forall>x \<in> {128..<b}. heard c e x))"
proof (cases "fallback c e")
  case None
  then have "\<forall>x \<in> set FALLBACK_ADDRESS_RANGE. heard c e x"
    unfolding fallback_def find_None_iff by (simp only: dget_live [OF assms]) blast
  then show ?thesis using None by (simp only: FALLBACK_ADDRESS_RANGE_def set_upto option.case)
next
  case (Some b)
  then have "find (\<lambda>x. \<not> heard c e x) [128..247] = Some b"
    unfolding fallback_def FALLBACK_ADDRESS_RANGE_def dget_live [OF assms] .
  from find_upto_Some [OF this] show ?thesis by (simp only: Some option.case) blast
qed

section \<open>Properties\<close>

text \<open>
  C18. NAMEs and eight-byte payloads determine each other: every NAME the constructor accepts is
  encoded in eight bytes that decode to it, and every eight bytes decode to an accepted NAME whose
  encoding they are. No field is truncated on the way.
\<close>

theorem name_roundtrip:
  assumes "name_init n = Inr n" "length bs = 8"
  shows "(\<exists>w. name_to_bytes n = Inr w \<and> length w = 8 \<and> name_from_bytes w = Inr n) \<and>
    (\<exists>m. name_from_bytes bs = Inr m \<and> name_init m = Inr m \<and> name_to_bytes m = Inr bs)"
proof
  have n: "name_ok n" using assms(1) by (simp add: name_ok_def)
  show "\<exists>w. name_to_bytes n = Inr w \<and> length w = 8 \<and> name_from_bytes w = Inr n"
    using name_to_bytes_ok [OF n] name_from_wire [OF n, of "[]"] by simp
  from name_from_bytes_total [of bs] assms(2)
  obtain m where "name_from_bytes bs = Inr m" "name_ok m" "bs = name_wire m" by auto
  then show "\<exists>m. name_from_bytes bs = Inr m \<and> name_init m = Inr m \<and> name_to_bytes m = Inr bs"
    using name_to_bytes_ok [of m] by (auto simp: name_ok_def)
qed

definition tool_name :: "int \<Rightarrow> j1939_name" where
  "tool_name identity =
     \<lparr>arbitrary_address_capable = True, industry_group = 1, vehicle_system_instance = 0,
      vehicle_system = 0, name_reserved = 0, name_function = 0, function_instance = 0,
      ecu_instance = 0, manufacturer_code = 100, identity_number = identity\<rparr>"

lemma tool_name_inj [simp]: "tool_name j = tool_name k \<longleftrightarrow> j = k"
  by (simp add: tool_name_def)

lemma tool_name_ok: "0 \<le> k \<Longrightarrow> k < 2097152 \<Longrightarrow> name_ok (tool_name k)"
  by (simp add: tool_name_def name_ok_fields)

theorem name_roundtrip_witness:
  "(\<exists>w. name_to_bytes (tool_name 1) = Inr w \<and> length w = 8 \<and> name_from_bytes w = Inr (tool_name 1)) \<and>
    (\<exists>m. name_from_bytes [1, 2, 3, 4, 5, 6, 7, 0xF8] = Inr m \<and> name_init m = Inr m \<and>
      name_to_bytes m = Inr [1, 2, 3, 4, 5, 6, 7, 0xF8])"
  using name_roundtrip [of "tool_name 1" "[1, 2, 3, 4, 5, 6, 7, 0xF8]"] tool_name_ok [of 1]
  by (simp add: name_ok_def)

text \<open>A peer's claim, and the readings of one instant, for the examples below.\<close>

definition peer_claim :: "int \<Rightarrow> int \<Rightarrow> can_frame" where
  "peer_claim k a =
     \<lparr>frame_channel_id = ''can0'', frame_arbitration_id = 0x18EEFF00 + a, frame_dlc = 8,
      frame_data = name_wire (tool_name k), frame_is_extended = True, frame_is_fd = False,
      frame_brs = False, frame_esi = False, frame_direction = ''rx'', frame_timestamp_ns = 0,
      frame_hardware_timestamp_ns = None, frame_host_timestamp_ns = None,
      frame_sequence = 0, frame_error_state = ''active'', frame_source = ''physical''\<rparr>"

lemma peer_claim_announces:
  "0 \<le> a \<Longrightarrow> a < 256 \<Longrightarrow> announces (peer_claim k a) (tool_name k) a"
  by (simp add: announces_def peer_claim_def parse_claim_id)

definition at_ns :: "int \<Rightarrow> claim_clock" where
  "at_ns ns = (let s = of_int ns / 1000000000 in
     \<lparr>cc_now = s, cc_scan = s, cc_view = s, cc_arm_ns = ns, cc_frame_ns = ns\<rparr>)"

abbreviation tool :: claim_engine where
  "tool \<equiv> claim_init (tool_name 100) 249 ''can0''"

text \<open>
  C15. An engine becomes CLAIMED only at an expiry of its claim window: whenever an event of a session
  whose starts arm the timer turns it into a node that holds a claimed address, the last frame it
  handed out was the claim for just that address, at least 225 ms before (250 ms less the tolerance
  for the timer), and nothing is sent with the change. Late, cancelled and repeated timer callbacks,
  commanded addresses and traffic of any kind in between make no difference.
\<close>

theorem claimed_needs_quiet_window:
  assumes "claim_run e sent t" "event_ok ev" "arms_timer ev" "t \<le> t'" "event_ns ev \<in> {None, Some t'}"
    and "claim_step ev e = (e', Inr out)" "is_address_claimed e'" "\<not> is_address_claimed e"
  shows "\<exists>s f earlier. sent = (s, f) # earlier \<and> announces f (ce_name e) (ce_current_address e') \<and>
    s + 225000000 \<le> t' \<and> out = None"
proof -
  have inv: "window_inv e sent t" by (rule claim_run_inv [OF assms(1)])
  then have "window_step t' e e' out" by (intro step_window [OF _ assms(3,6,5)]) (simp add: window_inv_def)
  then show ?thesis
    using inv assms(7,8)
    by (auto simp: window_step_def claim_matures_def window_inv_def TIMER_TOLERANCE_NS_def
        CLAIM_CONFIRM_WINDOW_NS_def)
qed

lemma tool_claiming:
  "\<exists>e f. claim_step (StartClaim True (at_ns 0)) tool = (e, Inr (Some f)) \<and> claim_run e [(0, f)] 0 \<and>
    announces f (tool_name 100) 249 \<and>
    e = tool\<lparr>ce_state := CLAIMING, ce_claim_generation := 1, ce_claim_timer := Some 1,
      ce_claim_window_deadline_ns := 250000000\<rparr>"
proof -
  have ch: "channel_id_ok ''can0''" by (simp add: channel_id_ok_def CHANNEL_ID_CHARS_def)
  have name: "name_ok (tool_name 100)" by (rule tool_name_ok) simp_all
  have "engine_ok tool" using ch name by (simp add: engine_ok_def claim_init_def)
  from start_ok [OF this, of True "at_ns 0"] obtain f where f: "announces f (tool_name 100) 249"
      "start_claiming True (at_ns 0) tool = (tool\<lparr>ce_state := CLAIMING, ce_claim_generation := 1,
        ce_claim_timer := Some 1, ce_claim_window_deadline_ns := 250000000\<rparr>, Inr f)"
    by (auto simp: claim_init_def claim_timer_defs CLAIM_CONFIRM_WINDOW_NS_def at_ns_def)
  have "claim_run tool [] 0" using name ch by (intro claim_run.Begin) (simp_all add: name_ok_def)
  from claim_run.Next [OF this, of "StartClaim True (at_ns 0)" 0] f
  show ?thesis by (simp add: at_ns_def)
qed

theorem claimed_needs_quiet_window_witness:
  "\<exists>e f e'. claim_run e [(0, f)] 0 \<and> claim_step (TimerFires 1 225000000) e = (e', Inr None) \<and>
    is_address_claimed e' \<and> announces f (ce_name e) 249"
proof -
  obtain e f where e: "claim_run e [(0, f)] 0"
      "e = tool\<lparr>ce_state := CLAIMING, ce_claim_generation := 1, ce_claim_timer := Some 1,
        ce_claim_window_deadline_ns := 250000000\<rparr>"
    using tool_claiming by blast
  let ?e' = "e\<lparr>ce_state := CLAIMED\<rparr>"
  have step: "claim_step (TimerFires 1 225000000) e = (?e', Inr None)" "is_address_claimed ?e'"
      "\<not> is_address_claimed e" "ce_current_address ?e' = 249"
    by (simp_all add: e(2) confirm_claimed_guarded_def finalize_claim_def claim_init_def
        TIMER_TOLERANCE_NS_def NULL_ADDRESS_def is_address_claimed_def)
  have "announces f (ce_name e) 249"
    using claimed_needs_quiet_window [OF e(1) _ _ _ _ step(1-3), of 225000000] step(4) by auto
  then show ?thesis using e(1) step(1,2) by blast
qed

text \<open>
  C16. Contention is decided by the NAMEs. When an engine hears another node claim its own address
  and the rate gate admits the claim, it always answers with a claim: the lower number keeps the
  address (and its state), the higher number leaves it, for the first address of 128..247 nobody
  has been heard to hold if it is arbitrary address capable and there is one, starting a claim of
  its own there, and otherwise for the Null Address, as CANNOT_CLAIM.
\<close>

theorem contention_decided_by_name:
  assumes "claim_run e sent t" "name_init n = Inr n" "n \<noteq> ce_name e" "announces f n a"
    and "a = ce_current_address e" "a \<noteq> NULL_ADDRESS" "admits e c a"
  shows "\<exists>e' g b. claim_rx_frame c f e = (e', Inr (Some g)) \<and> announces g (ce_name e) b \<and>
    ce_current_address e' = b \<and>
    (if name_to_int64 (ce_name e) < name_to_int64 n then b = a \<and> ce_state e' = ce_state e
     else if arbitrary_address_capable (ce_name e) \<and> (\<exists>x \<in> {128..247}. \<not> heard c (recorded c a n e) x)
     then ce_state e' = CLAIMING \<and> b \<in> {128..247} \<and> \<not> heard c (recorded c a n e) b \<and>
       (\<forall>x \<in> {128..<b}. heard c (recorded c a n e) x)
     else ce_state e' = CANNOT_CLAIM \<and> b = NULL_ADDRESS)"
proof -
  let ?e1 = "recorded c a n e"
  have ok: "engine_ok e" using claim_run_inv [OF assms(1)] by (simp add: window_inv_def)
  have name: "name_ok n" using assms(2) by (simp add: name_ok_def)
  have rx: "claim_rx_frame c f e = handle_contention_locked c a n ?e1"
    using rx_announcement [OF assms(4) name ok, of c] assms(3,7) by simp
  have core: "same_core e ?e1" by simp
  then have ok1: "engine_ok ?e1" "a = ce_current_address ?e1" "ce_name ?e1 = ce_name e" "ce_state ?e1 = ce_state e"
    using ok assms(5) by (simp_all add: engine_ok_def same_core_def)
  have tab: "tables_ok (cancel_pending_claim_timer ?e1)"
    using claim_run_tables [OF assms(1)] by simp
  have same: "heard c (cancel_pending_claim_timer ?e1) = heard c ?e1"
    by (rule ext) (simp add: heard_def cancel_pending_claim_timer_def)
  note first = fallback_first [OF tab, of c, unfolded same]
  consider (won) "name_to_int64 (ce_name e) < name_to_int64 n"
    | (moved) b where "name_to_int64 n \<le> name_to_int64 (ce_name e)" "arbitrary_address_capable (ce_name e)"
        "fallback c (cancel_pending_claim_timer ?e1) = Some b"
    | (lost) "name_to_int64 n \<le> name_to_int64 (ce_name e)" "\<not> arbitrary_address_capable (ce_name e) \<or>
        fallback c (cancel_pending_claim_timer ?e1) = None"
    by (cases "name_to_int64 (ce_name e) < name_to_int64 n";
        cases "fallback c (cancel_pending_claim_timer ?e1)") (auto simp: not_less)
  then show ?thesis
  proof cases
    case won
    then show ?thesis
      using contention_won [OF ok1(1) _ ok1(2) assms(6), of n c] ok1(2-4) by (auto simp: rx claim_timer_defs)
  next
    case moved
    then obtain e2 g where m: "claim_rx_frame c f e = (arm_claim_confirmation_timer (cc_arm_ns c)
        (e2\<lparr>ce_current_address := b, ce_state := CLAIMING\<rparr>), Inr (Some g))" "announces g (ce_name e) b"
      using contention_moved [OF ok1(1) _ ok1(2) assms(6), of n c b] ok1(3) rx by auto
    have free: "b \<in> {128..247}" "\<not> heard c ?e1 b" "\<forall>x \<in> {128..<b}. heard c ?e1 x"
      using first moved(3) by simp_all
    then have "\<exists>x \<in> {128..247}. \<not> heard c ?e1 x" by blast
    then show ?thesis using m free moved(1,2) by (simp add: not_less [symmetric] claim_timer_defs)
  next
    case lost
    then show ?thesis
      using contention_lost [OF ok1(1) _ ok1(2) assms(6), of n c] ok1(2-4) first
      by (auto simp: rx)
  qed
qed

lemma tool_number: "0 \<le> k \<Longrightarrow> k < 2097152 \<Longrightarrow> name_to_int64 (tool_name k) = 0x900000000C800000 + k"
  by (subst name_to_int64_number [OF tool_name_ok]) (simp_all add: name_number_def tool_name_def)

theorem contention_decided_by_name_witness:
  "\<exists>e f e' g. claim_run e [(0, f)] 0 \<and> ce_current_address e = 249 \<and>
    claim_rx_frame (at_ns 1000) (peer_claim 7 249) e = (e', Inr (Some g)) \<and>
    announces g (ce_name e) 128 \<and> ce_current_address e' = 128 \<and> ce_state e' = CLAIMING"
proof -
  let ?c = "at_ns 1000"
  obtain e f where e: "claim_run e [(0, f)] 0"
      "e = tool\<lparr>ce_state := CLAIMING, ce_claim_generation := 1, ce_claim_timer := Some 1,
        ce_claim_window_deadline_ns := 250000000\<rparr>"
    using tool_claiming by blast
  have fields: "ce_name e = tool_name 100" "ce_current_address e = 249" "ce_address_table e = []"
      "ce_claim_rate e = []" by (simp_all add: e(2) claim_init_def)
  let ?r = "recorded ?c 249 (tool_name 7) e"
  have table: "ce_address_table ?r = [(249, tool_name 7, cc_now ?c + ADDRESS_TABLE_TTL_S)]"
    by (simp add: recorded_def check_claim_rate_limit_def prune_address_table_def dkeys_where_def fields Let_def)
  have free: "\<not> heard ?c ?r x" if "x \<in> {128..247}" for x
    using that by (simp add: heard_def table)
  have high: "(name_to_int64 (ce_name e) < name_to_int64 (tool_name 7)) = False"
    by (simp add: fields tool_number)
  have room: "(arbitrary_address_capable (ce_name e) \<and> (\<exists>x \<in> {128..247}. \<not> heard ?c ?r x)) = True"
    using free [of 128] by (simp add: fields tool_name_def) (rule bexI [of _ 128]; simp)
  have name: "name_init (tool_name 7) = Inr (tool_name 7)"
    using tool_name_ok [of 7] by (simp add: name_ok_def)
  have rest: "tool_name 7 \<noteq> ce_name e" "announces (peer_claim 7 249) (tool_name 7) 249"
      "249 = ce_current_address e" "(249 :: int) \<noteq> NULL_ADDRESS" "admits e ?c 249"
    by (simp_all add: fields peer_claim_announces NULL_ADDRESS_def check_claim_rate_limit_def)
  obtain e' g b where m: "claim_rx_frame ?c (peer_claim 7 249) e = (e', Inr (Some g))"
      "announces g (ce_name e) b" "ce_current_address e' = b" "ce_state e' = CLAIMING"
      "b \<in> {128..247}" "\<forall>x \<in> {128..<b}. heard ?c ?r x"
    using contention_decided_by_name [OF e(1) name rest, unfolded high room if_False if_True] by blast
  have "b = 128" using m(5,6) free [of 128] by (cases "b = 128") auto
  then show ?thesis using e(1) fields(2) m by blast
qed

text \<open>Hearing frames one after the other; the replies are the gateway's business.\<close>

definition hear_all :: "(claim_clock \<times> can_frame) list \<Rightarrow> claim_engine \<Rightarrow> claim_engine" where
  "hear_all fs e = fold (\<lambda>(c, f) e. fst (claim_rx_frame c f e)) fs e"

text \<open>An engine at its claimed address with \<open>k\<close> claims for it counted since \<open>t0\<close>.\<close>

definition besieged :: "seconds \<Rightarrow> int \<Rightarrow> claim_engine \<Rightarrow> claim_engine \<Rightarrow> bool" where
  "besieged t0 k e0 e \<longleftrightarrow> engine_ok e \<and> tables_ok e \<and> is_address_claimed e \<and> ce_name e = ce_name e0 \<and>
     ce_current_address e = ce_current_address e0 \<and>
     dget (ce_claim_rate e) (ce_current_address e0) = (if k = 0 then None else Some (t0, k))"

definition forged :: "seconds \<Rightarrow> claim_engine \<Rightarrow> claim_clock \<times> can_frame \<Rightarrow> bool" where
  "forged t0 e cf \<longleftrightarrow> (case cf of (c, f) \<Rightarrow> t0 \<le> cc_now c \<and> cc_now c \<le> t0 + 1 \<and>
     (\<exists>m. name_ok m \<and> name_to_int64 (ce_name e) < name_to_int64 m \<and>
       announces f m (ce_current_address e)))"

lemma besieged_step:
  assumes "besieged t0 k e0 e" "0 \<le> k" "k < 8" "forged t0 e0 (c, f)" "k = 0 \<Longrightarrow> cc_now c = t0"
  shows "besieged t0 (k + 1) e0 (fst (claim_rx_frame c f e))"
proof -
  let ?a = "ce_current_address e0"
  have e: "engine_ok e" "tables_ok e" "is_address_claimed e" "ce_name e = ce_name e0"
      "ce_current_address e = ?a" and rate: "dget (ce_claim_rate e) ?a = (if k = 0 then None else Some (t0, k))"
    using assms(1) by (simp_all add: besieged_def)
  obtain m where m: "name_ok m" "name_to_int64 (ce_name e0) < name_to_int64 m" "announces f m ?a"
      "t0 \<le> cc_now c" "cc_now c \<le> t0 + 1"
    using assms(4) by (auto simp: forged_def)
  define e1 where "e1 = recorded c ?a m e"
  define g where "g = fst (check_claim_rate_limit ?a (cc_now c) e)"
  have tab: "tables_ok g" unfolding g_def by (rule tables_ok_gate [OF e(2)])
  have gate: "admits e c ?a" "dget (ce_claim_rate g) ?a = Some (t0, k + 1)"
    using rate assms(2,3,5) m(4,5)
    by (auto simp: g_def check_claim_rate_limit_def CLAIM_RATE_WINDOW_S_def CLAIM_RATE_LIMIT_PER_SA_def)
  have "dget (ce_claim_rate (prune_address_table (cc_now c) g)) ?a = Some (t0, k + 1)"
    using gate tab m(5) by (simp add: prune_address_table_def Let_def dget_sweep tables_ok_def
        CLAIM_RATE_WINDOW_S_def del: dget_dpop_all)
  then have rate1: "dget (ce_claim_rate e1) ?a = Some (t0, k + 1)"
    by (simp add: e1_def recorded_def g_def [symmetric] Let_def)
  have core: "same_core e e1" "tables_ok e1" by (simp_all add: e1_def e(2))
  have ok1: "engine_ok e1" "name_to_int64 (ce_name e1) < name_to_int64 m" "?a = ce_current_address e1"
      "?a \<noteq> NULL_ADDRESS" "is_address_claimed e1"
    using core e m(2) by (auto simp: same_core_def engine_ok_def is_address_claimed_def)
  have "fst (claim_rx_frame c f e) =
      arm_claim_confirmation_timer (cc_arm_ns c) (cancel_pending_claim_timer e1)"
    using rx_announcement [OF m(3,1) e(1), of c] m(2) e(4) gate(1) contention_won [OF ok1(1-4), of c]
    by (auto simp: e1_def)
  then show ?thesis
    using core ok1 rate1 e assms(2)
    by (simp add: besieged_def same_core_def engine_ok_def tables_ok_def is_address_claimed_def claim_timer_defs)
qed

lemma besieged_run:
  assumes "besieged t0 k e0 e" "1 \<le> k" "k + int (length fs) \<le> 8" "\<forall>cf \<in> set fs. forged t0 e0 cf"
  shows "besieged t0 (k + int (length fs)) e0 (hear_all fs e)"
  using assms
proof (induction fs arbitrary: k e)
  case Nil
  then show ?case by (simp add: hear_all_def)
next
  case (Cons cf fs)
  obtain c f where cf: "cf = (c, f)" by (cases cf)
  have "besieged t0 (k + 1) e0 (fst (claim_rx_frame c f e))"
    using besieged_step [OF Cons.prems(1), of c f] Cons.prems cf by simp
  from Cons.IH [OF this] Cons.prems show ?case by (simp add: hear_all_def cf add.assoc)
qed

text \<open>
  C17. The rate gate can hide the rightful owner of an address. Eight claims for the address of a
  claimed engine, with NAMEs it outranks and within a second, fill the gate: it defends itself against
  each, and then a claim by the node with the lower NAME, in the same second, changes nothing. The
  engine neither yields nor answers and goes on holding the address as CLAIMED.
\<close>

theorem rightful_claim_masked:
  assumes "claim_run e sent t" "is_address_claimed e" "a = ce_current_address e"
    and "dget (ce_claim_rate e) a = None"
    and "length fs = 8" "\<forall>cf \<in> set fs. forged (cc_now (fst (hd fs))) e cf"
    and "announces f n a" "name_init n = Inr n" "name_to_int64 n < name_to_int64 (ce_name e)"
    and "cc_now c \<le> cc_now (fst (hd fs)) + 1"
  shows "claim_rx_frame c f (hear_all fs e) = (hear_all fs e, Inr None) \<and>
    is_address_claimed (hear_all fs e) \<and> ce_current_address (hear_all fs e) = a"
proof -
  define t0 where "t0 = cc_now (fst (hd fs))"
  obtain c1 f1 fs' where fs: "fs = (c1, f1) # fs'" "length fs' = 7"
    using assms(5) by (cases fs) auto
  have t0: "cc_now c1 = t0" "cc_now c \<le> t0 + 1" using assms(10) by (simp_all add: t0_def fs(1))
  have forged: "forged t0 e (c1, f1)" "\<forall>cf \<in> set fs'. forged t0 e cf"
    using assms(6) unfolding t0_def [symmetric] by (simp_all add: fs(1))
  have ok: "engine_ok e" using claim_run_inv [OF assms(1)] by (simp add: window_inv_def)
  have "besieged t0 0 e e"
    using ok assms(2-4) claim_run_tables [OF assms(1)] by (simp add: besieged_def)
  then have "besieged t0 1 e (fst (claim_rx_frame c1 f1 e))"
    using besieged_step [of t0 0 e e c1 f1] forged(1) t0(1) by simp
  from besieged_run [OF this _ _ forged(2)] have e8: "besieged t0 8 e (hear_all fs e)"
    by (simp add: fs hear_all_def)
  have n: "name_ok n" using assms(8) by (simp add: name_ok_def)
  have "\<not> admits (hear_all fs e) c a"
    using e8 assms(3) t0(2) by (simp add: besieged_def check_claim_rate_limit_def CLAIM_RATE_WINDOW_S_def
        CLAIM_RATE_LIMIT_PER_SA_def)
  then show ?thesis
    using e8 rx_announcement [OF assms(7) n, of "hear_all fs e" c] assms(3) by (simp add: besieged_def)
qed

lemma tool_claimed:
  "\<exists>e g. claim_run e [(0, g)] 225000000 \<and> is_address_claimed e \<and> ce_current_address e = 249 \<and>
    ce_name e = tool_name 100 \<and> ce_claim_rate e = []"
proof -
  obtain e f where e: "claim_run e [(0, f)] 0"
      "e = tool\<lparr>ce_state := CLAIMING, ce_claim_generation := 1, ce_claim_timer := Some 1,
        ce_claim_window_deadline_ns := 250000000\<rparr>"
    using tool_claiming by blast
  have "claim_step (TimerFires 1 225000000) e = (e\<lparr>ce_state := CLAIMED\<rparr>, Inr None)"
    by (simp add: e(2) confirm_claimed_guarded_def finalize_claim_def claim_init_def
        TIMER_TOLERANCE_NS_def NULL_ADDRESS_def)
  from claim_run.Next [OF e(1) _ _ _ _ this, of 225000000]
  have "claim_run (e\<lparr>ce_state := CLAIMED\<rparr>) [(0, f)] 225000000" by simp
  moreover have "is_address_claimed (e\<lparr>ce_state := CLAIMED\<rparr>)" "ce_current_address e = 249"
      "ce_name e = tool_name 100" "ce_claim_rate e = []"
    by (simp_all add: e(2) claim_init_def is_address_claimed_def NULL_ADDRESS_def)
  ultimately show ?thesis by (intro exI [of _ "e\<lparr>ce_state := CLAIMED\<rparr>"] exI [of _ f]) simp
qed

theorem rightful_claim_masked_witness:
  "\<exists>e. is_address_claimed e \<and> (let e8 = hear_all (replicate 8 (at_ns 0, peer_claim 200 249)) e in
    claim_rx_frame (at_ns 500000000) (peer_claim 7 249) e8 = (e8, Inr None) \<and> is_address_claimed e8)"
proof -
  obtain e g where e: "claim_run e [(0, g)] 225000000" "is_address_claimed e" "ce_current_address e = 249"
      "ce_name e = tool_name 100" "ce_claim_rate e = []"
    using tool_claimed by blast
  let ?fs = "replicate 8 (at_ns 0, peer_claim 200 249)"
  have hd: "hd ?fs = (at_ns 0, peer_claim 200 249)" by simp
  have "forged (cc_now (fst (hd ?fs))) e (at_ns 0, peer_claim 200 249)"
    unfolding hd using tool_name_ok [of 200] peer_claim_announces [of 249 200]
    by (auto simp: forged_def e tool_number intro!: exI [of _ "tool_name 200"])
  then have "\<forall>cf \<in> set ?fs. forged (cc_now (fst (hd ?fs))) e cf" by (intro ballI) (simp only: in_set_replicate)
  from rightful_claim_masked [OF e(1,2) e(3) [symmetric] _ _ this peer_claim_announces [of 249 7],
      of "at_ns 500000000"]
  show ?thesis
    using e(2) tool_name_ok [of 7]
    by (intro exI [of _ e]) (simp add: Let_def e(4,5) tool_number name_ok_def at_ns_def)
qed

section \<open>Starting and not starting\<close>

text \<open>An engine that was never started arbitrates all the same: a claim of its preferred address by
  a lower NAME makes an arbitrary address capable one claim a fallback address, which it holds as
  CLAIMED once the timer has fired.\<close>

lemma unstarted_engine_bids:
  assumes "engine_ok e" "ce_state e = UNINITIALIZED" "arbitrary_address_capable (ce_name e)"
    and "announces f n (ce_current_address e)" "name_ok n" "ce_current_address e \<noteq> NULL_ADDRESS"
    and "name_to_int64 n < name_to_int64 (ce_name e)" "ce_claim_rate e = []"
    and "fallback c (cancel_pending_claim_timer (recorded c (ce_current_address e) n e)) = Some b"
  shows "\<exists>e' g. claim_rx_frame c f e = (e', Inr (Some g)) \<and> announces g (ce_name e) b \<and>
    is_address_claimed (confirm_claimed_guarded (ce_claim_generation e') (cc_arm_ns c + 225000000) e')"
proof -
  let ?a = "ce_current_address e"
  let ?e1 = "recorded c ?a n e"
  have core: "same_core e ?e1" by simp
  then have ok1: "engine_ok ?e1" "?a = ce_current_address ?e1" "ce_name ?e1 = ce_name e"
    using assms(1) by (simp_all add: engine_ok_def same_core_def)
  have rx: "claim_rx_frame c f e = handle_contention_locked c ?a n ?e1"
    using rx_announcement [OF assms(4,5,1), of c] assms(7,8) by (auto simp: check_claim_rate_limit_def)
  obtain e2 g where "claim_rx_frame c f e = (arm_claim_confirmation_timer (cc_arm_ns c)
      (e2\<lparr>ce_current_address := b, ce_state := CLAIMING\<rparr>), Inr (Some g))" "announces g (ce_name e) b"
    using contention_moved [OF ok1(1) _ ok1(2) assms(6) _ assms(9), of n] assms(3,7) ok1(3) rx by auto
  then show ?thesis
    using fallback_range [OF assms(9)]
    by (simp add: confirm_claimed_guarded_def finalize_claim_def claim_timer_defs TIMER_TOLERANCE_NS_def
        CLAIM_CONFIRM_WINDOW_NS_def is_address_claimed_def NULL_ADDRESS_def)
qed

text \<open>A start that leaves the timer to \<open>on_claim_transmitted\<close> does not withdraw the timer of the
  start before it: that timer confirms the new claim, however little time it has been out.\<close>

lemma stale_timer_confirms:
  assumes "engine_ok e" "ce_preferred_address e \<noteq> NULL_ADDRESS"
    and "start_claiming True c e = (e1, Inr f1)" "0 \<le> p" "p < 256" "p \<noteq> NULL_ADDRESS"
    and "start_claiming False c2 (e1\<lparr>ce_preferred_address := p\<rparr>) = (e2, Inr f2)"
  shows "is_address_claimed (confirm_claimed_guarded (ce_claim_generation e1) (cc_arm_ns c + 225000000) e2) \<and>
    ce_current_address e2 = p"
proof -
  have e1: "e1 = arm_claim_confirmation_timer (cc_arm_ns c)
      (e\<lparr>ce_current_address := ce_preferred_address e, ce_state := CLAIMING\<rparr>)"
    using start_ok [OF assms(1), of True c] assms(3) by auto
  then have "engine_ok (e1\<lparr>ce_preferred_address := p\<rparr>)"
    using assms(1,4,5) by (simp add: engine_ok_def claim_timer_defs)
  from start_ok [OF this, of False c2] assms(7) show ?thesis
    using assms(6) by (auto simp: e1 confirm_claimed_guarded_def finalize_claim_def claim_timer_defs
        TIMER_TOLERANCE_NS_def CLAIM_CONFIRM_WINDOW_NS_def is_address_claimed_def)
qed

end
