(* ===== verification/AddressNet.thy ===== *)
theory AddressNet
  imports AddressClaimSpec
begin

text \<open>
  Several address claiming engines on one bus. Every frame an engine hands out is on its way to
  each of the others until it is delivered, in any order and after any time; in between the engines
  do whatever else they can, and the bus may carry any other traffic. Once nothing is on its way
  any more, no two engines hold one address.
\<close>

section \<open>The network\<close>

record claim_net =
  net_node :: "nat \<Rightarrow> claim_engine"
  net_flight :: "(nat \<times> can_frame) list"

definition broadcast :: "nat \<Rightarrow> nat \<Rightarrow> can_frame option \<Rightarrow> (nat \<times> can_frame) list" where
  "broadcast N i out =
     (case out of None \<Rightarrow> [] | Some f \<Rightarrow> map (\<lambda>j. (j, f)) (filter (\<lambda>j. j \<noteq> i) [0..<N]))"

definition frame_source_address :: "can_frame \<Rightarrow> int" where
  "frame_source_address f = fst (snd (parse_j1939_id (frame_arbitration_id f)))"

text \<open>\<open>Act\<close>: any call, the reception of a frame from outside included. \<open>Deliver\<close>: a frame on its way
  arrives and the rate gate does not drop it.\<close>

inductive net_run :: "nat \<Rightarrow> claim_net \<Rightarrow> bool" for N where
  Begin: "(\<And>i. i < N \<Longrightarrow> engine_ok (e i) \<and> ce_state (e i) = UNINITIALIZED) \<Longrightarrow>
    inj_on (\<lambda>i. ce_name (e i)) {..<N} \<Longrightarrow> net_run N \<lparr>net_node = e, net_flight = []\<rparr>"
| Act: "net_run N s \<Longrightarrow> i < N \<Longrightarrow> event_ok ev \<Longrightarrow> claim_step ev (net_node s i) = (e', Inr out) \<Longrightarrow>
    net_run N \<lparr>net_node = (net_node s)(i := e'), net_flight = net_flight s @ broadcast N i out\<rparr>"
| Deliver: "net_run N s \<Longrightarrow> net_flight s = xs @ (i, f) # ys \<Longrightarrow> i < N \<Longrightarrow>
    admits (net_node s i) c (frame_source_address f) \<Longrightarrow>
    claim_step (Hear c f) (net_node s i) = (e', Inr out) \<Longrightarrow>
    net_run N \<lparr>net_node = (net_node s)(i := e'), net_flight = xs @ ys @ broadcast N i out\<rparr>"

section \<open>The invariant\<close>

text \<open>Where two engines hold one address, a claim of it by one of them is on its way to the other.\<close>

definition on_its_way :: "claim_net \<Rightarrow> nat \<Rightarrow> nat \<Rightarrow> int \<Rightarrow> bool" where
  "on_its_way s i j a \<longleftrightarrow> (\<exists>f. (j, f) \<in> set (net_flight s) \<and> announces f (ce_name (net_node s i)) a)"

definition net_inv :: "nat \<Rightarrow> claim_net \<Rightarrow> bool" where
  "net_inv N s \<longleftrightarrow>
     (\<forall>i<N. engine_ok (net_node s i)) \<and> inj_on (\<lambda>i. ce_name (net_node s i)) {..<N} \<and>
     (\<forall>i<N. \<forall>j<N. \<forall>a. i \<noteq> j \<longrightarrow> holds (net_node s i) a \<longrightarrow> holds (net_node s j) a \<longrightarrow>
        on_its_way s i j a \<or> on_its_way s j i a)"

lemma broadcast_Some: "j < N \<Longrightarrow> j \<noteq> i \<Longrightarrow> (j, f) \<in> set (broadcast N i (Some f))"
  by (simp add: broadcast_def)

text \<open>A step of engine \<open>i\<close> keeps the invariant when it takes at most frames for \<open>i\<close> off the bus, and
  answers those that claim an address it goes on to hold.\<close>

lemma net_inv_update:
  assumes inv: "net_inv N s" and i: "i < N" and snd: "sound_step (net_node s i) e' out"
    and kept: "\<And>j f. j \<noteq> i \<Longrightarrow> (j, f) \<in> set (net_flight s) \<Longrightarrow> (j, f) \<in> set rest"
    and taken: "\<And>k f a. (i, f) \<in> set (net_flight s) \<Longrightarrow> (i, f) \<notin> set rest \<Longrightarrow> k < N \<Longrightarrow> k \<noteq> i \<Longrightarrow>
      announces f (ce_name (net_node s k)) a \<Longrightarrow> holds e' a \<Longrightarrow>
      \<exists>g. out = Some g \<and> announces g (ce_name (net_node s i)) a"
  shows "net_inv N \<lparr>net_node = (net_node s)(i := e'), net_flight = rest @ broadcast N i out\<rparr>"
    (is "net_inv N ?s'")
proof -
  have e': "engine_ok e'" "ce_name e' = ce_name (net_node s i)" using snd by (simp_all add: sound_step_def)
  have names: "ce_name (net_node ?s' j) = ce_name (net_node s j)" for j using e' by simp
  have emitted: "on_its_way ?s' i j a" if "out = Some g" "announces g (ce_name (net_node s i)) a" "j < N" "j \<noteq> i"
    for g j a
    using that broadcast_Some [of j N i g] by (auto simp: on_its_way_def e')
  have with_i: "on_its_way ?s' i j a \<or> on_its_way ?s' j i a"
    if j: "j < N" "j \<noteq> i" and h: "holds e' a" "holds (net_node s j) a" for j a
  proof (cases "\<exists>g. out = Some g \<and> announces g (ce_name (net_node s i)) a")
    case True
    then show ?thesis using emitted j by blast
  next
    case False
    then have "holds (net_node s i) a" using snd h(1) by (auto simp: sound_step_def)
    then consider f where "(j, f) \<in> set (net_flight s)" "announces f (ce_name (net_node s i)) a"
      | f where "(i, f) \<in> set (net_flight s)" "announces f (ce_name (net_node s j)) a"
      using inv i j h(2) unfolding net_inv_def on_its_way_def by metis
    then show ?thesis
    proof cases
      case 1
      then have "(j, f) \<in> set rest" using kept j by blast
      then show ?thesis using 1 e' by (auto simp: on_its_way_def)
    next
      case 2
      then have "(i, f) \<in> set rest" using taken [of f j a] j h(1) False by blast
      then show ?thesis using 2 j by (auto simp: on_its_way_def)
    qed
  qed
  have without_i: "on_its_way ?s' j k a" if "on_its_way s j k a" "k \<noteq> i" for j k a
    using that kept e' by (auto simp: on_its_way_def)
  show ?thesis
    unfolding net_inv_def
  proof (intro conjI allI impI)
    fix j assume "j < N"
    then show "engine_ok (net_node ?s' j)" using inv e' by (simp add: net_inv_def)
  next
    show "inj_on (\<lambda>j. ce_name (net_node ?s' j)) {..<N}" using inv by (simp only: names net_inv_def)
  next
    fix j k a
    assume jk: "j < N" "k < N" "j \<noteq> k" and h: "holds (net_node ?s' j) a" "holds (net_node ?s' k) a"
    consider "j = i" | "k = i" | "j \<noteq> i" "k \<noteq> i" by blast
    then show "on_its_way ?s' j k a \<or> on_its_way ?s' k j a"
    proof cases
      case 3
      then have "on_its_way s j k a \<or> on_its_way s k j a" using inv jk h by (simp add: net_inv_def)
      then show ?thesis using without_i 3 by blast
    qed (use with_i [of k a] with_i [of j a] jk h in auto)
  qed
qed

lemma hear_answers:
  assumes "engine_ok e" "admits e c (frame_source_address f)" "announces f n a" "name_ok n" "n \<noteq> ce_name e"
    and "claim_step (Hear c f) e = (e', Inr out)" "holds e' a"
  shows "\<exists>g. out = Some g \<and> announces g (ce_name e) a"
proof -
  have "frame_source_address f = a" using assms(3) by (simp add: frame_source_address_def announces_def)
  then have "handle_contention_locked c a n (recorded c a n e) = (e', Inr out)"
    using rx_announcement [OF assms(3,4,1), of c] assms(2,5,6) by simp
  then show ?thesis
    using contention_sound [OF assms(1) recorded_core [of e c a n], of c a n] assms(7) by auto
qed

lemma net_run_inv: "net_run N s \<Longrightarrow> net_inv N s"
proof (induction rule: net_run.induct)
  case (Begin e)
  then show ?case by (auto simp: net_inv_def holds_def)
next
  case (Act s i ev e' out)
  then have "sound_step (net_node s i) e' out"
    using step_sound [of "net_node s i" ev] by (auto simp: net_inv_def)
  then show ?case by (rule net_inv_update [OF Act.IH Act.hyps(2)]) simp_all
next
  case (Deliver s xs i f ys c e' out)
  have ok: "engine_ok (net_node s i)" using Deliver.IH Deliver.hyps(3) by (simp add: net_inv_def)
  have snd: "sound_step (net_node s i) e' out"
    using step_sound [OF ok, of "Hear c f"] Deliver.hyps(5) by auto
  have "net_inv N \<lparr>net_node = (net_node s)(i := e'), net_flight = (xs @ ys) @ broadcast N i out\<rparr>"
  proof (rule net_inv_update [OF Deliver.IH Deliver.hyps(3) snd])
    fix j g assume "j \<noteq> i" "(j, g) \<in> set (net_flight s)"
    then show "(j, g) \<in> set (xs @ ys)" using Deliver.hyps(2) by auto
  next
    fix k g a
    assume g: "(i, g) \<in> set (net_flight s)" "(i, g) \<notin> set (xs @ ys)" "k < N" "k \<noteq> i"
      "announces g (ce_name (net_node s k)) a" "holds e' a"
    then have "g = f" using Deliver.hyps(2) by auto
    moreover have "name_ok (ce_name (net_node s k))" "ce_name (net_node s k) \<noteq> ce_name (net_node s i)"
      using Deliver.IH g(3,4) Deliver.hyps(3) by (auto simp: net_inv_def engine_ok_def dest: inj_onD)
    ultimately show "\<exists>h. out = Some h \<and> announces h (ce_name (net_node s i)) a"
      using hear_answers [OF ok Deliver.hyps(4) _ _ _ Deliver.hyps(5) g(6)] g(5) by blast
  qed
  then show ?case by simp
qed

section \<open>Properties\<close>

text \<open>
  C14. In a network of engines with different NAMEs that starts with none of them claiming, and in
  which every claim handed out reaches the others, in any order and after any delay, without being
  dropped by their rate gates, two engines hold one address (as CLAIMING or CLAIMED) only as long as
  a claim of it by one of them is on its way to the other. In between each engine may start, fail to
  send, be commanded, time out and hear foreign traffic of any kind.
\<close>

theorem shared_address_contested:
  assumes "net_run N s" "i < N" "j < N" "i \<noteq> j"
    and "holds (net_node s i) a" "holds (net_node s j) a"
  shows "\<exists>f. (j, f) \<in> set (net_flight s) \<and> announces f (ce_name (net_node s i)) a \<or>
    (i, f) \<in> set (net_flight s) \<and> announces f (ce_name (net_node s j)) a"
  using net_run_inv [OF assms(1)] assms(2-6) unfolding net_inv_def on_its_way_def by metis

text \<open>Two tools that start at one address, before either has heard the other.\<close>

theorem shared_address_contested_witness:
  "\<exists>s f. net_run 2 s \<and> holds (net_node s 0) 249 \<and> holds (net_node s 1) 249 \<and>
    ((1, f) \<in> set (net_flight s) \<and> announces f (tool_name 7) 249 \<or>
     (0, f) \<in> set (net_flight s) \<and> announces f (tool_name 100) 249)"
proof -
  define e where "e = (\<lambda>i :: nat. claim_init (tool_name (if i = 0 then 7 else 100)) 249 ''can0'')"
  have ok: "engine_ok (e i) \<and> ce_state (e i) = UNINITIALIZED" for i
    using tool_name_ok [of 7] tool_name_ok [of 100]
    by (simp add: e_def engine_ok_def claim_init_def channel_id_ok_def CHANNEL_ID_CHARS_def)
  have "inj_on (\<lambda>i. ce_name (e i)) {..<2}"
    by (auto simp: inj_on_def e_def claim_init_def less_Suc_eq numeral_2_eq_2)
  then have 0: "net_run 2 \<lparr>net_node = e, net_flight = []\<rparr>" using ok by (intro net_run.Begin)
  define started where "started = (\<lambda>i. (e i)\<lparr>ce_state := CLAIMING\<rparr>)"
  have start: "\<exists>f. claim_step (StartClaim False (at_ns 0)) (e i) = (started i, Inr (Some f))" for i
    using start_ok [of "e i" False "at_ns 0"] ok by (auto simp: e_def claim_init_def started_def)
  have step: "\<exists>s'. net_run 2 s' \<and> net_node s' = (net_node s)(i := started i)"
    if s: "net_run 2 s" "i < 2" "net_node s i = e i" for s i
  proof -
    obtain f where "claim_step (StartClaim False (at_ns 0)) (net_node s i) = (started i, Inr (Some f))"
      using start s(3) by metis
    from net_run.Act [OF s(1,2) _ this] show ?thesis by fastforce
  qed
  obtain s1 where s1: "net_run 2 s1" "net_node s1 = e(0 := started 0)" using step [OF 0, of 0] by auto
  obtain s where s: "net_run 2 s" "net_node s = e(0 := started 0, 1 := started 1)"
    using step [OF s1(1), of 1] s1(2) by auto
  have h: "holds (net_node s 0) 249" "holds (net_node s 1) 249"
      "ce_name (net_node s 0) = tool_name 7" "ce_name (net_node s 1) = tool_name 100"
    by (simp_all add: s(2) holds_def started_def e_def claim_init_def NULL_ADDRESS_def)
  show ?thesis using shared_address_contested [OF s(1) _ _ _ h(1,2)] s(1) h by auto
qed

text \<open>Once the bus is quiet every address has one holder.\<close>

lemma quiet_network_unique:
  assumes "net_run N s" "net_flight s = []" "i < N" "j < N"
    and "holds (net_node s i) a" "holds (net_node s j) a"
  shows "i = j"
  using net_run_inv [OF assms(1)] assms(2-6) unfolding net_inv_def on_its_way_def by auto

end
