(* ===== verification/EvidenceChain.thy ===== *)
theory EvidenceChain
  imports PyText
begin

text \<open>
  \<open>src/security/audit/evidence_chain.py\<close>: the hash chain of audit entries, its Merkle tree and the
  signed checkpoints. HMAC-SHA256 and SHA-256 are the parameters \<open>mac\<close> (key, message) and \<open>sha\<close>;
  \<open>hmac.compare_digest\<close> is equality. The clock provider's reading is an argument of each call. The
  callback for a broken chain is client code whose exceptions are swallowed: the state counts how
  often it ran.
\<close>

section \<open>Entries\<close>

record evidence_entry =
  ee_sequence :: int
  ee_timestamp_ns :: int
  ee_payload :: bytes
  ee_prev_hash :: bytes
  ee_entry_hash :: bytes

definition GENESIS_PREV_HASH :: bytes where
  "GENESIS_PREV_HASH = replicate 32 0"

text \<open>The formats of \<open>struct.pack\<close> the source uses: \<open>>Q\<close> and \<open>>I\<close> raise for a value that does not
  fit, \<open>32s\<close> cuts or pads with zero bytes.\<close>

definition pack_uint :: "nat \<Rightarrow> int \<Rightarrow> bytes py" where
  "pack_uint n x = (case to_be n x of Inl e \<Rightarrow> Inl StructError | Inr bs \<Rightarrow> Inr bs)"

definition pack_32s :: "bytes \<Rightarrow> bytes" where
  "pack_32s bs = take 32 bs @ replicate (32 - length bs) 0"

definition entry_serialize :: "evidence_entry \<Rightarrow> bytes py" where
  "entry_serialize e =
     py_bind (pack_uint 8 (ee_sequence e)) (\<lambda>s.
     py_bind (pack_uint 8 (ee_timestamp_ns e)) (\<lambda>t.
     py_bind (pack_uint 4 (int (length (ee_payload e)))) (\<lambda>n.
       Inr ((s @ t @ pack_32s (ee_prev_hash e) @ pack_32s (ee_entry_hash e) @ n) @ ee_payload e))))"

definition header_size :: int where "header_size = 84"

definition entry_deserialize :: "bytes \<Rightarrow> evidence_entry py" where
  "entry_deserialize d =
     (if int (length d) < header_size then Inl (SecurityError ''EVIDENCE_CORRUPT'')
      else
        let payload_len = from_be (py_slice d 80 84);
            payload = py_slice d header_size (header_size + payload_len) in
        if int (length payload) \<noteq> payload_len then Inl (SecurityError ''EVIDENCE_CORRUPT'')
        else Inr \<lparr>ee_sequence = from_be (py_slice d 0 8), ee_timestamp_ns = from_be (py_slice d 8 16),
          ee_payload = payload, ee_prev_hash = py_slice d 16 48, ee_entry_hash = py_slice d 48 80\<rparr>)"

definition compute_entry_hash ::
  "(bytes \<Rightarrow> bytes \<Rightarrow> bytes) \<Rightarrow> bytes \<Rightarrow> bytes \<Rightarrow> int \<Rightarrow> int \<Rightarrow> bytes \<Rightarrow> bytes py" where
  "compute_entry_hash mac key prev_hash seq ts_ns payload =
     py_bind (pack_uint 8 seq) (\<lambda>s. py_bind (pack_uint 8 ts_ns) (\<lambda>t.
       Inr (mac key ((prev_hash @ s @ t) @ payload))))"

section \<open>The Merkle tree\<close>

definition hash_pair :: "(bytes \<Rightarrow> bytes) \<Rightarrow> bytes \<Rightarrow> bytes \<Rightarrow> bytes" where
  "hash_pair sha left right = sha ([1] @ left @ right)"

text \<open>One level above; the last of an odd number of nodes is paired with itself.\<close>

fun next_level :: "(bytes \<Rightarrow> bytes) \<Rightarrow> bytes list \<Rightarrow> bytes list" where
  "next_level sha [] = []"
| "next_level sha [left] = [hash_pair sha left left]"
| "next_level sha (left # right # rest) = hash_pair sha left right # next_level sha rest"

lemma length_next_level: "length (next_level sha xs) = (length xs + 1) div 2"
  by (induction sha xs rule: next_level.induct) simp_all

function top_level :: "(bytes \<Rightarrow> bytes) \<Rightarrow> bytes list \<Rightarrow> bytes list" where
  "top_level sha level = (if length level > 1 then top_level sha (next_level sha level) else level)"
  by pat_completeness auto

termination top_level
  by (relation "measure (\<lambda>(sha, level). length level)") (auto simp: length_next_level)

declare top_level.simps [simp del]

definition compute_root :: "(bytes \<Rightarrow> bytes) \<Rightarrow> bytes list \<Rightarrow> bytes" where
  "compute_root sha leaves = (if leaves = [] then replicate 32 0 else hd (top_level sha leaves))"

text \<open>A proof step is the sibling and whether it stands to the right.\<close>

type_synonym merkle_proof = "(bytes \<times> bool) list"

definition proof_step :: "bytes list \<Rightarrow> nat \<Rightarrow> bytes \<times> bool" where
  "proof_step level idx =
     (if idx mod 2 = 0
      then (if idx + 1 < length level then level ! (idx + 1) else level ! idx, True)
      else (level ! (idx - 1), False))"

function proof_steps :: "(bytes \<Rightarrow> bytes) \<Rightarrow> bytes list \<Rightarrow> nat \<Rightarrow> merkle_proof" where
  "proof_steps sha level idx =
     (if length level > 1 then proof_step level idx # proof_steps sha (next_level sha level) (idx div 2)
      else [])"
  by pat_completeness auto

termination proof_steps
  by (relation "measure (\<lambda>(sha, level, idx). length level)") (auto simp: length_next_level)

declare proof_steps.simps [simp del]

definition generate_proof :: "(bytes \<Rightarrow> bytes) \<Rightarrow> bytes list \<Rightarrow> int \<Rightarrow> merkle_proof py" where
  "generate_proof sha leaves index =
     (if \<not> (0 \<le> index \<and> index < int (length leaves)) then Inl IndexError
      else Inr (proof_steps sha leaves (nat index)))"

fun climb :: "(bytes \<Rightarrow> bytes) \<Rightarrow> bytes \<Rightarrow> merkle_proof \<Rightarrow> bytes" where
  "climb sha current [] = current"
| "climb sha current ((sibling, is_right) # steps) =
     climb sha (if is_right then hash_pair sha current sibling else hash_pair sha sibling current) steps"

definition verify_proof :: "(bytes \<Rightarrow> bytes) \<Rightarrow> bytes \<Rightarrow> merkle_proof \<Rightarrow> bytes \<Rightarrow> bool" where
  "verify_proof sha leaf steps root_hash \<longleftrightarrow> climb sha leaf steps = root_hash"

section \<open>The chain\<close>

record evidence_chain =
  ec_key :: bytes
  ec_on_broken_chain :: bool
  ec_entries :: "evidence_entry list"
  ec_is_broken :: bool
  ec_alarms :: nat

definition chain_init :: "bytes \<Rightarrow> bool \<Rightarrow> evidence_chain py" where
  "chain_init secret_key callback =
     (if length secret_key < 16 then Inl (SecurityError ''INSUFFICIENT_KEY_LENGTH'')
      else Inr \<lparr>ec_key = secret_key, ec_on_broken_chain = callback, ec_entries = [],
        ec_is_broken = False, ec_alarms = 0\<rparr>)"

definition trigger_fail_closed :: "evidence_chain \<Rightarrow> evidence_chain \<times> 'a py" where
  "trigger_fail_closed ec =
     (ec\<lparr>ec_is_broken := True, ec_alarms := ec_alarms ec + (if ec_on_broken_chain ec then 1 else 0)\<rparr>,
      Inl (SecurityError ''EVIDENCE_CHAIN_BROKEN''))"

definition chain_append :: "(bytes \<Rightarrow> bytes \<Rightarrow> bytes) \<Rightarrow> bytes \<Rightarrow> int \<Rightarrow> evidence_chain \<Rightarrow>
    evidence_chain \<times> evidence_entry py" where
  "chain_append mac payload now_ns ec =
     (if ec_is_broken ec then (ec, Inl (SecurityError ''EVIDENCE_CHAIN_LATCHED''))
      else if now_ns \<le> 0 then trigger_fail_closed ec
      else
        let seq = int (length (ec_entries ec)) in
        if seq \<noteq> 0 \<and> now_ns < ee_timestamp_ns (last (ec_entries ec)) then trigger_fail_closed ec
        else
          let prev_hash = (if seq = 0 then GENESIS_PREV_HASH else ee_entry_hash (last (ec_entries ec))) in
          case compute_entry_hash mac (ec_key ec) prev_hash seq now_ns payload of
            Inl err \<Rightarrow> (ec, Inl err)
          | Inr entry_hash \<Rightarrow>
              let entry = \<lparr>ee_sequence = seq, ee_timestamp_ns = now_ns, ee_payload = payload,
                ee_prev_hash = prev_hash, ee_entry_hash = entry_hash\<rparr> in
              (ec\<lparr>ec_entries := ec_entries ec @ [entry]\<rparr>, Inr entry))"

text \<open>The loop of \<open>verify_chain\<close>: index, hash expected next, last time stamp.\<close>

fun verify_loop :: "(bytes \<Rightarrow> bytes \<Rightarrow> bytes) \<Rightarrow> evidence_chain \<Rightarrow> int \<Rightarrow> bytes \<Rightarrow> int \<Rightarrow>
    evidence_entry list \<Rightarrow> evidence_chain \<times> bool py" where
  "verify_loop mac ec i expected_prev last_ts [] = (ec, Inr True)"
| "verify_loop mac ec i expected_prev last_ts (e # es) =
     (if ee_sequence e \<noteq> i then trigger_fail_closed ec
      else if ee_timestamp_ns e < last_ts then trigger_fail_closed ec
      else if ee_prev_hash e \<noteq> expected_prev then trigger_fail_closed ec
      else case compute_entry_hash mac (ec_key ec) (ee_prev_hash e) (ee_sequence e) (ee_timestamp_ns e)
          (ee_payload e) of
        Inl err \<Rightarrow> (ec, Inl err)
      | Inr recomputed \<Rightarrow>
          if ee_entry_hash e \<noteq> recomputed then trigger_fail_closed ec
          else verify_loop mac ec (i + 1) (ee_entry_hash e) (ee_timestamp_ns e) es)"

definition verify_chain :: "(bytes \<Rightarrow> bytes \<Rightarrow> bytes) \<Rightarrow> evidence_chain \<Rightarrow> evidence_chain \<times> bool py" where
  "verify_chain mac ec =
     (if ec_entries ec = [] then (ec, Inr True)
      else verify_loop mac ec 0 GENESIS_PREV_HASH (-1) (ec_entries ec))"

definition compute_merkle_root :: "(bytes \<Rightarrow> bytes) \<Rightarrow> evidence_chain \<Rightarrow> bytes" where
  "compute_merkle_root sha ec = compute_root sha (map ee_entry_hash (ec_entries ec))"

definition generate_inclusion_proof :: "(bytes \<Rightarrow> bytes) \<Rightarrow> evidence_chain \<Rightarrow> int \<Rightarrow> merkle_proof py" where
  "generate_inclusion_proof sha ec sequence = generate_proof sha (map ee_entry_hash (ec_entries ec)) sequence"

record checkpoint =
  cp_format :: string
  cp_operator_id :: string
  cp_entry_count :: nat
  cp_merkle_root_hex :: string
  cp_latest_entry_hash_hex :: string
  cp_checkpoint_timestamp_ns :: int
  cp_signature_hex :: string

definition create_checkpoint :: "(bytes \<Rightarrow> bytes \<Rightarrow> bytes) \<Rightarrow> (bytes \<Rightarrow> bytes) \<Rightarrow> string \<Rightarrow> int \<Rightarrow>
    evidence_chain \<Rightarrow> evidence_chain \<times> checkpoint py" where
  "create_checkpoint mac sha operator_id ts_ns ec =
     act_bind (verify_chain mac ec) (\<lambda>ec ok.
       let root_hash = compute_merkle_root sha ec;
           count = length (ec_entries ec);
           last_hash = py_hex (if ec_entries ec = [] then GENESIS_PREV_HASH
             else ee_entry_hash (last (ec_entries ec)));
           manifest_bytes = encode (''RFC4998-ERS-V1'' @ '':'' @ py_str (int count) @ '':'' @ py_hex root_hash
             @ '':'' @ py_str ts_ns) in
       (ec, Inr \<lparr>cp_format = ''RFC4998-ERS-V1'', cp_operator_id = operator_id, cp_entry_count = count,
         cp_merkle_root_hex = py_hex root_hash, cp_latest_entry_hash_hex = last_hash,
         cp_checkpoint_timestamp_ns = ts_ns,
         cp_signature_hex = py_hex (mac (ec_key ec) manifest_bytes)\<rparr>))"

end
