(* ===== verification/EvidenceSpec.thy ===== *)
theory EvidenceSpec
  imports EvidenceChain
begin

text \<open>
  Properties of the audit chain (\<open>src/security/audit/evidence_chain.py\<close>). Nothing is assumed of
  HMAC-SHA256 and SHA-256 but the length of their digests: where the code relies on the absence of
  collisions, the theorems name two colliding messages computed from the data at hand.
\<close>

section \<open>Merkle proofs\<close>

definition node_above :: "(bytes \<Rightarrow> bytes) \<Rightarrow> bytes \<Rightarrow> bytes \<times> bool \<Rightarrow> bytes" where
  "node_above sha current step =
     (case step of (sibling, is_right) \<Rightarrow>
        if is_right then hash_pair sha current sibling else hash_pair sha sibling current)"

lemma climb_Cons [simp]: "climb sha current (step # steps) = climb sha (node_above sha current step) steps"
  by (cases step) (simp add: node_above_def)

definition right_of :: "bytes list \<Rightarrow> nat \<Rightarrow> bytes" where
  "right_of level j = (if 2 * j + 1 < length level then level ! (2 * j + 1) else level ! (2 * j))"

lemma nth_next_level:
  "2 * j < length level \<Longrightarrow> next_level sha level ! j = hash_pair sha (level ! (2 * j)) (right_of level j)"
proof (induction sha level arbitrary: j rule: next_level.induct)
  case (3 sha l r rest)
  then show ?case by (cases j) (auto simp: right_of_def)
qed (auto simp: right_of_def)

lemma node_above_step:
  assumes "i < length level"
  shows "node_above sha (level ! i) (proof_step level i) = next_level sha level ! (i div 2)"
proof (cases "even i")
  case True
  then obtain j where "i = 2 * j" by blast
  then show ?thesis using assms nth_next_level [of j level sha] by (simp add: node_above_def proof_step_def right_of_def)
next
  case False
  then obtain j where "i = 2 * j + 1" by (metis oddE)
  then show ?thesis using assms nth_next_level [of j level sha] by (simp add: node_above_def proof_step_def right_of_def)
qed

lemma next_level_Nil [simp]: "next_level sha level = [] \<longleftrightarrow> level = []"
  by (cases "(sha, level)" rule: next_level.cases) simp_all

lemma top_level_step: "length level > 1 \<Longrightarrow> top_level sha level = top_level sha (next_level sha level)"
  by (simp add: top_level.simps [of sha level])

lemma climb_proof:
  "i < length level \<Longrightarrow> climb sha (level ! i) (proof_steps sha level i) = hd (top_level sha level)"
proof (induction sha level i rule: proof_steps.induct)
  case (1 sha level i)
  show ?case
  proof (cases "length level > 1")
    case True
    have "i div 2 < length (next_level sha level)" using 1(2) by (simp add: length_next_level)
    from 1(1) [OF True this] show ?thesis
      using True 1(2) node_above_step [of i level sha]
      by (simp add: proof_steps.simps [of sha level] top_level_step)
  next
    case False
    then have "i = 0" using 1(2) by simp
    then show ?thesis using False 1(2)
      by (simp add: proof_steps.simps [of sha level] top_level.simps [of sha level]) (cases level; simp)
  qed
qed

text \<open>The depth of a tree, the length of every proof of it.\<close>

lemma length_proof: "length (proof_steps sha level i) = length (proof_steps sha level j)"
proof (induction sha level i arbitrary: j rule: proof_steps.induct)
  case (1 sha level i)
  then show ?case by (cases "length level > 1") (simp_all add: proof_steps.simps [of sha level])
qed

section \<open>Locating a proved leaf\<close>

text \<open>Where in the tree an accepted proof leads, or else two different messages with one digest.\<close>

fun locate :: "(bytes \<Rightarrow> bytes) \<Rightarrow> bytes list \<Rightarrow> bytes \<Rightarrow> merkle_proof \<Rightarrow> bytes \<times> bytes + nat" where
  "locate sha level current [] = Inr 0"
| "locate sha level current ((sibling, is_right) # steps) =
     (case locate sha (next_level sha level) (node_above sha current (sibling, is_right)) steps of
        Inl collision \<Rightarrow> Inl collision
      | Inr j \<Rightarrow>
          let mine = [1] @ (if is_right then current @ sibling else sibling @ current);
              theirs = [1] @ level ! (2 * j) @ right_of level j in
          if mine \<noteq> theirs then Inl (mine, theirs)
          else Inr (if is_right \<or> 2 * j + 1 \<ge> length level then 2 * j else 2 * j + 1))"

lemma next_level_digest: "x \<in> set (next_level sha level) \<Longrightarrow> \<exists>m. x = sha m"
  by (induction sha level rule: next_level.induct) (auto simp: hash_pair_def)

lemma locate_sound:
  "\<lbrakk>\<forall>m. length (sha m) = 32; level \<noteq> []; \<forall>x \<in> set level. length x = 32; length current = 32;
    length steps = length (proof_steps sha level 0); climb sha current steps = hd (top_level sha level)\<rbrakk>
   \<Longrightarrow> (case locate sha level current steps of
       Inl (x, y) \<Rightarrow> x \<noteq> y \<and> sha x = sha y
     | Inr i \<Rightarrow> i < length level \<and> level ! i = current)"
proof (induction sha level current steps rule: locate.induct)
  case (1 sha level current)
  then have "\<not> length level > 1" by (simp add: proof_steps.simps [of sha level] split: if_splits)
  then have "top_level sha level = level" by (simp add: top_level.simps [of sha level])
  then show ?case using 1 \<open>\<not> length level > 1\<close> by (cases level) auto
next
  case (2 sha level current sibling is_right steps)
  have long: "length level > 1" using "2.prems"(5) by (simp add: proof_steps.simps [of sha level] split: if_splits)
  let ?up = "next_level sha level"
  let ?node = "node_above sha current (sibling, is_right)"
  have IH: "case locate sha ?up ?node steps of Inl (x, y) \<Rightarrow> x \<noteq> y \<and> sha x = sha y
      | Inr j \<Rightarrow> j < length ?up \<and> ?up ! j = ?node"
  proof (rule "2.IH" [OF "2.prems"(1)])
    show "?up \<noteq> []" using long by auto
    show "\<forall>x \<in> set ?up. length x = 32" using next_level_digest "2.prems"(1) by metis
    show "length ?node = 32" using "2.prems"(1) by (simp add: node_above_def hash_pair_def)
    show "length steps = length (proof_steps sha ?up 0)"
      using "2.prems"(5) long by (simp add: proof_steps.simps [of sha level])
    show "climb sha ?node steps = hd (top_level sha ?up)"
      using "2.prems"(6) long by (simp add: top_level_step)
  qed
  show ?case
  proof (cases "locate sha ?up ?node steps")
    case (Inl col)
    then show ?thesis using IH by simp
  next
    case (Inr j)
    then have j: "j < length ?up" "?up ! j = ?node" using IH by simp_all
    have j2: "2 * j < length level" using j(1) by (simp add: length_next_level)
    have len: "length (level ! (2 * j)) = 32" "length (right_of level j) = 32"
      using "2.prems"(3) j2 by (auto simp: right_of_def)
    have digests: "sha ([1] @ (if is_right then current @ sibling else sibling @ current)) =
        sha ([1] @ level ! (2 * j) @ right_of level j)"
      using nth_next_level [OF j2, of sha] j(2) by (simp add: node_above_def hash_pair_def split: if_splits)
    show ?thesis
    proof (cases "(if is_right then current @ sibling else sibling @ current) = level ! (2 * j) @ right_of level j")
      case False
      then show ?thesis using digests by (simp add: Inr Let_def)
    next
      case True
      then have "if is_right then current = level ! (2 * j) else current = right_of level j"
        using len "2.prems"(4) by (auto simp: append_eq_append_conv split: if_splits)
      then show ?thesis using True j2 by (auto simp: Inr Let_def right_of_def split: if_splits)
    qed
  qed
qed

section \<open>Chained entries\<close>

text \<open>What \<open>verify_chain\<close> accepts, as a predicate.\<close>

fun linked :: "(bytes \<Rightarrow> bytes \<Rightarrow> bytes) \<Rightarrow> bytes \<Rightarrow> int \<Rightarrow> bytes \<Rightarrow> int \<Rightarrow> evidence_entry list \<Rightarrow> bool" where
  "linked mac key i prev last_ts [] \<longleftrightarrow> True"
| "linked mac key i prev last_ts (e # es) \<longleftrightarrow>
     ee_sequence e = i \<and> last_ts \<le> ee_timestamp_ns e \<and> ee_prev_hash e = prev \<and>
     compute_entry_hash mac key prev i (ee_timestamp_ns e) (ee_payload e) = Inr (ee_entry_hash e) \<and>
     linked mac key (i + 1) (ee_entry_hash e) (ee_timestamp_ns e) es"

definition genuine :: "(bytes \<Rightarrow> bytes \<Rightarrow> bytes) \<Rightarrow> bytes \<Rightarrow> evidence_entry list \<Rightarrow> bool" where
  "genuine mac key es \<longleftrightarrow> linked mac key 0 GENESIS_PREV_HASH (-1) es"

lemma verify_loop_linked:
  "verify_loop mac ec i prev t es = (ec', Inr b) \<longleftrightarrow> ec' = ec \<and> b \<and> linked mac (ec_key ec) i prev t es"
  by (induction mac ec i prev t es rule: verify_loop.induct)
    (auto simp: trigger_fail_closed_def split: sum.splits)

lemma verify_chain_genuine:
  "verify_chain mac ec = (ec', Inr b) \<longleftrightarrow> ec' = ec \<and> b \<and> genuine mac (ec_key ec) (ec_entries ec)"
  by (auto simp: verify_chain_def genuine_def verify_loop_linked)

lemma verify_loop_refuses:
  "verify_loop mac ec i prev t es = (ec', Inl err) \<Longrightarrow>
    err = StructError \<and> ec' = ec \<or> trigger_fail_closed ec = (ec', (Inl err :: bool py))"
  by (induction mac ec i prev t es rule: verify_loop.induct)
    (auto simp: trigger_fail_closed_def compute_entry_hash_def pack_uint_def py_bind_Inl_iff
      split: sum.splits if_splits)

text \<open>The hash a chain ends in, and the next time stamp allowed.\<close>

definition chain_head :: "bytes \<Rightarrow> evidence_entry list \<Rightarrow> bytes" where
  "chain_head prev es = (if es = [] then prev else ee_entry_hash (last es))"

lemma linked_snoc:
  "linked mac key i prev t (es @ [e]) \<longleftrightarrow> linked mac key i prev t es \<and>
     ee_sequence e = i + int (length es) \<and>
     (if es = [] then t else ee_timestamp_ns (last es)) \<le> ee_timestamp_ns e \<and>
     ee_prev_hash e = chain_head prev es \<and>
     compute_entry_hash mac key (chain_head prev es) (i + int (length es)) (ee_timestamp_ns e) (ee_payload e) =
       Inr (ee_entry_hash e)"
  by (induction es arbitrary: i prev t) (auto simp: chain_head_def add.assoc)

lemmas genuine_snoc = linked_snoc [where i = 0 and prev = GENESIS_PREV_HASH and t = "-1",
    folded genuine_def, simplified]

lemma genuine_Nil [simp]: "genuine mac key []"
  by (simp add: genuine_def)

lemmas genuine_single = genuine_snoc [where es = "[]", simplified]

section \<open>Sessions\<close>

text \<open>Any calls, refused ones included; the entries are changed by \<open>append\<close> alone.\<close>

inductive chain_run :: "(bytes \<Rightarrow> bytes \<Rightarrow> bytes) \<Rightarrow> (bytes \<Rightarrow> bytes) \<Rightarrow> evidence_chain \<Rightarrow> bool"
  for mac sha where
  Init: "chain_init key callback = Inr ec \<Longrightarrow> chain_run mac sha ec"
| Append: "chain_run mac sha ec \<Longrightarrow> chain_append mac payload now_ns ec = (ec', r) \<Longrightarrow> chain_run mac sha ec'"
| Verify: "chain_run mac sha ec \<Longrightarrow> verify_chain mac ec = (ec', b) \<Longrightarrow> chain_run mac sha ec'"
| Checkpoint: "chain_run mac sha ec \<Longrightarrow> create_checkpoint mac sha operator_id ts_ns ec = (ec', c) \<Longrightarrow>
    chain_run mac sha ec'"

lemma append_genuine:
  assumes "genuine mac (ec_key ec) (ec_entries ec)" "chain_append mac payload now_ns ec = (ec', r)"
  shows "genuine mac (ec_key ec') (ec_entries ec')"
  using assms
  by (auto simp: chain_append_def trigger_fail_closed_def genuine_snoc genuine_single chain_head_def Let_def
      split: if_splits sum.splits)

lemma genuine_verifies: "genuine mac (ec_key ec) (ec_entries ec) \<Longrightarrow> verify_chain mac ec = (ec, Inr True)"
  by (simp add: verify_chain_genuine)

lemma chain_run_genuine: "chain_run mac sha ec \<Longrightarrow> genuine mac (ec_key ec) (ec_entries ec)"
proof (induction rule: chain_run.induct)
  case (Init key callback ec)
  then show ?case by (auto simp: chain_init_def genuine_def split: if_splits)
next
  case (Append ec payload now_ns ec' r)
  then show ?case using append_genuine by blast
next
  case (Verify ec ec' b)
  then show ?case using genuine_verifies by fastforce
next
  case (Checkpoint ec operator_id ts_ns ec' c)
  then show ?case by (auto simp: create_checkpoint_def genuine_verifies Let_def)
qed

section \<open>Two histories with one head\<close>

text \<open>The message whose digest an entry carries, and the first difference from the end of two chains.\<close>

definition entry_message :: "evidence_entry \<Rightarrow> bytes" where
  "entry_message e = ee_prev_hash e @ rev (le_bytes 8 (ee_sequence e)) @
     rev (le_bytes 8 (ee_timestamp_ns e)) @ ee_payload e"

fun last_difference :: "evidence_entry list \<Rightarrow> evidence_entry list \<Rightarrow> (bytes \<times> bytes) option" where
  "last_difference (e # es) (f # fs) =
     (if entry_message e \<noteq> entry_message f then Some (entry_message e, entry_message f)
      else last_difference es fs)"
| "last_difference _ _ = None"

lemma compute_entry_hash_Inr:
  "compute_entry_hash mac key prev seq ts p = Inr h \<longleftrightarrow> 0 \<le> seq \<and> seq < 2 ^ 64 \<and> 0 \<le> ts \<and> ts < 2 ^ 64 \<and>
     h = mac key (prev @ rev (le_bytes 8 seq) @ rev (le_bytes 8 ts) @ p)"
  by (auto simp: compute_entry_hash_def pack_uint_def to_be_def py_bind_Inr_iff)

lemma le_bytes_inj: "0 \<le> x \<Longrightarrow> x < 256 ^ n \<Longrightarrow> 0 \<le> y \<Longrightarrow> y < 256 ^ n \<Longrightarrow> le_bytes n x = le_bytes n y \<longleftrightarrow> x = y"
  by (metis from_le_le_bytes)

text \<open>An entry of a genuine chain, and its digest, as its message.\<close>

definition entry_ok :: "(bytes \<Rightarrow> bytes \<Rightarrow> bytes) \<Rightarrow> bytes \<Rightarrow> evidence_entry \<Rightarrow> bool" where
  "entry_ok mac key e \<longleftrightarrow> length (ee_prev_hash e) = 32 \<and>
     0 \<le> ee_sequence e \<and> ee_sequence e < 2 ^ 64 \<and> 0 \<le> ee_timestamp_ns e \<and> ee_timestamp_ns e < 2 ^ 64 \<and>
     ee_entry_hash e = mac key (entry_message e)"

lemma chain_head_32:
  assumes "\<forall>m. length (mac key m) = 32" "genuine mac key es"
  shows "length (chain_head GENESIS_PREV_HASH es) = 32"
  using assms by (cases es rule: rev_cases)
    (auto simp: chain_head_def GENESIS_PREV_HASH_def genuine_snoc compute_entry_hash_Inr)

lemma genuine_snoc_entry:
  assumes "\<forall>m. length (mac key m) = 32"
  shows "genuine mac key (es @ [e]) \<Longrightarrow> entry_ok mac key e \<and> genuine mac key es \<and>
    ee_prev_hash e = chain_head GENESIS_PREV_HASH es \<and> ee_sequence e = int (length es)"
  using chain_head_32 [of mac key es, OF assms]
  by (auto simp: genuine_snoc entry_ok_def compute_entry_hash_Inr entry_message_def)

lemma message_determines:
  assumes "entry_ok mac key e" "entry_ok mac key f" "entry_message e = entry_message f"
  shows "e = f"
proof -
  have "ee_prev_hash e = ee_prev_hash f" "ee_sequence e = ee_sequence f"
    "ee_timestamp_ns e = ee_timestamp_ns f" "ee_payload e = ee_payload f"
    using assms by (auto simp: entry_ok_def entry_message_def le_bytes_inj)
  moreover have "ee_entry_hash e = ee_entry_hash f" using assms by (simp add: entry_ok_def)
  ultimately show ?thesis by simp
qed

lemma same_head_same_chain:
  assumes mac: "\<forall>m. length (mac key m) = 32"
  shows "\<lbrakk>genuine mac key es; genuine mac key fs; es \<noteq> []; fs \<noteq> [];
      ee_entry_hash (last es) = ee_entry_hash (last fs)\<rbrakk> \<Longrightarrow>
    (case last_difference (rev es) (rev fs) of
       None \<Rightarrow> es = fs
     | Some (m, m') \<Rightarrow> m \<noteq> m' \<and> mac key m = mac key m')"
proof (induction es arbitrary: fs rule: rev_induct)
  case (snoc e es)
  from snoc.prems(4) obtain f fs' where fs: "fs = fs' @ [f]" by (cases fs rule: rev_cases) auto
  note e = genuine_snoc_entry [OF mac snoc.prems(1)]
  note f = genuine_snoc_entry [OF mac snoc.prems(2) [unfolded fs]]
  have hash: "mac key (entry_message e) = mac key (entry_message f)"
    using e f snoc.prems(5) by (simp add: fs entry_ok_def)
  show ?case
  proof (cases "entry_message e = entry_message f")
    case True
    then have ef: "e = f" using message_determines e f by blast
    then have len: "length es = length fs'" using e f by simp
    show ?thesis
    proof (cases "es = []")
      case True
      then show ?thesis using len ef by (simp add: fs)
    next
      case False
      then have "fs' \<noteq> []" using len by auto
      moreover from this have "ee_entry_hash (last es) = ee_entry_hash (last fs')"
        using e f ef False by (simp add: chain_head_def)
      ultimately have "case last_difference (rev es) (rev fs') of None \<Rightarrow> es = fs'
          | Some (m, m') \<Rightarrow> m \<noteq> m' \<and> mac key m = mac key m'"
        using e f False by (intro snoc.IH) simp_all
      then show ?thesis using ef by (auto simp: fs split: option.splits prod.splits)
    qed
  next
    case False
    then show ?thesis using hash by (simp add: fs)
  qed
qed simp

section \<open>Serialized entries\<close>

lemma from_be_take: "0 \<le> x \<Longrightarrow> x < 256 ^ n \<Longrightarrow> from_be (rev (le_bytes n x)) = x"
  by (simp add: from_be_def from_le_le_bytes)

lemma slice_at: "py_slice (xs @ ys @ zs) (int (length xs)) (int (length xs) + int (length ys)) = ys"
  by (simp add: py_slice_def)

lemma entry_bytes_roundtrip:
  assumes "entry_serialize e = Inr bs" "length (ee_prev_hash e) = 32" "length (ee_entry_hash e) = 32"
  shows "entry_deserialize (bs @ rest) = Inr e"
proof -
  let ?s = "rev (le_bytes 8 (ee_sequence e))" and ?t = "rev (le_bytes 8 (ee_timestamp_ns e))"
  let ?n = "rev (le_bytes 4 (int (length (ee_payload e))))"
  have r: "0 \<le> ee_sequence e" "ee_sequence e < 256 ^ 8" "0 \<le> ee_timestamp_ns e" "ee_timestamp_ns e < 256 ^ 8"
      "int (length (ee_payload e)) < 256 ^ 4"
    and bs: "bs = ?s @ ?t @ ee_prev_hash e @ ee_entry_hash e @ ?n @ ee_payload e"
    using assms by (auto simp: entry_serialize_def pack_uint_def to_be_def pack_32s_def py_bind_Inr_iff
        split: if_splits)
  have parts: "py_slice (bs @ rest) 0 8 = ?s" "py_slice (bs @ rest) 8 16 = ?t"
    "py_slice (bs @ rest) 16 48 = ee_prev_hash e" "py_slice (bs @ rest) 48 80 = ee_entry_hash e"
    "py_slice (bs @ rest) 80 84 = ?n"
    "py_slice (bs @ rest) 84 (84 + int (length (ee_payload e))) = ee_payload e"
    using assms(2,3) by (simp_all add: bs py_slice_def)
  have "84 \<le> length (bs @ rest)" using assms(2,3) by (simp add: bs)
  then show ?thesis
    using r from_be_take [of "int (length (ee_payload e))" 4]
    by (simp add: entry_deserialize_def header_size_def parts from_be_take Let_def)
qed

section \<open>Properties\<close>

definition flat_mac :: "bytes \<Rightarrow> bytes \<Rightarrow> bytes" where
  "flat_mac key m = replicate 32 1"

definition flat_sha :: "bytes \<Rightarrow> bytes" where
  "flat_sha m = replicate 32 2"

definition demo_chain :: "bytes list \<Rightarrow> evidence_chain" where
  "demo_chain payloads =
     fold (\<lambda>p ec. fst (chain_append flat_mac p 5 ec)) payloads
       \<lparr>ec_key = replicate 16 9, ec_on_broken_chain = True, ec_entries = [], ec_is_broken = False,
        ec_alarms = 0\<rparr>"

text \<open>
  A chain that only the class itself has touched is always accepted: after any calls, refused
  ones included, \<open>verify_chain\<close> returns True and changes nothing, and the inclusion proof generated
  for any entry verifies against the Merkle root.
\<close>

theorem honest_chain_accepted:
  assumes "chain_run mac sha ec"
  shows "verify_chain mac ec = (ec, Inr True) \<and>
    (\<forall>i. 0 \<le> i \<and> i < int (length (ec_entries ec)) \<longrightarrow>
      (\<exists>steps. generate_inclusion_proof sha ec i = Inr steps \<and>
        verify_proof sha (ee_entry_hash (ec_entries ec ! nat i)) steps (compute_merkle_root sha ec)))"
proof (intro conjI allI impI)
  show "verify_chain mac ec = (ec, Inr True)" by (rule genuine_verifies [OF chain_run_genuine [OF assms]])
  fix i assume i: "0 \<le> i \<and> i < int (length (ec_entries ec))"
  let ?leaves = "map ee_entry_hash (ec_entries ec)"
  have k: "nat i < length ?leaves" using i by (simp add: nat_less_iff)
  from climb_proof [OF this, of sha] show "\<exists>steps. generate_inclusion_proof sha ec i = Inr steps \<and>
      verify_proof sha (ee_entry_hash (ec_entries ec ! nat i)) steps (compute_merkle_root sha ec)"
    using i by (auto simp: generate_inclusion_proof_def generate_proof_def verify_proof_def
        compute_merkle_root_def compute_root_def)
qed

lemma demo_chain_run: "chain_run flat_mac flat_sha (demo_chain ps)"
proof -
  have "chain_run flat_mac flat_sha ec \<Longrightarrow>
      chain_run flat_mac flat_sha (fold (\<lambda>p ec. fst (chain_append flat_mac p 5 ec)) ps ec)" for ec
    by (induction ps arbitrary: ec) (auto intro: chain_run.Append surjective_pairing)
  moreover have "chain_run flat_mac flat_sha \<lparr>ec_key = replicate 16 9, ec_on_broken_chain = True,
      ec_entries = [], ec_is_broken = False, ec_alarms = 0\<rparr>"
    by (rule chain_run.Init [of "replicate 16 9" True]) (simp add: chain_init_def)
  ultimately show ?thesis by (simp add: demo_chain_def)
qed

lemma demo_length: "length (ec_entries (demo_chain [[1], [2], [3]])) = 3"
  by code_simp

theorem honest_chain_accepted_witness:
  "verify_chain flat_mac (demo_chain [[1], [2], [3]]) = (demo_chain [[1], [2], [3]], Inr True) \<and>
    length (ec_entries (demo_chain [[1], [2], [3]])) = 3 \<and>
    (\<exists>steps. generate_inclusion_proof flat_sha (demo_chain [[1], [2], [3]]) 2 = Inr steps)"
proof -
  have "0 \<le> (2 :: int)" "2 < int (length (ec_entries (demo_chain [[1], [2], [3]])))"
    unfolding demo_length by simp_all
  then show ?thesis using honest_chain_accepted [OF demo_chain_run, of "[[1], [2], [3]]"] demo_length by blast
qed

text \<open>
  The digest of its last entry pins a whole chain. Two chains under one key that \<open>verify_chain\<close>
  accepts and that end in the same digest have the same entries, in number, order and every field;
  or else \<open>last_difference\<close> finds in them two different messages with the same HMAC.
\<close>

theorem accepted_head_pins_history:
  assumes "\<forall>m. length (mac key m) = 32" "ec_key ec1 = key" "ec_key ec2 = key"
    and "verify_chain mac ec1 = (ec1', Inr b1)" "verify_chain mac ec2 = (ec2', Inr b2)"
    and "ec_entries ec1 \<noteq> []" "ec_entries ec2 \<noteq> []"
    and "ee_entry_hash (last (ec_entries ec1)) = ee_entry_hash (last (ec_entries ec2))"
  shows "case last_difference (rev (ec_entries ec1)) (rev (ec_entries ec2)) of
       None \<Rightarrow> ec_entries ec1 = ec_entries ec2
     | Some (m, m') \<Rightarrow> m \<noteq> m' \<and> mac key m = mac key m'"
  using assms by (intro same_head_same_chain) (simp_all add: verify_chain_genuine)

theorem accepted_head_pins_history_witness:
  "case last_difference (rev (ec_entries (demo_chain [[1], [2], [3]]))) (rev (ec_entries (demo_chain [[7], [3]]))) of
     None \<Rightarrow> ec_entries (demo_chain [[1], [2], [3]]) = ec_entries (demo_chain [[7], [3]])
   | Some (m, m') \<Rightarrow> m \<noteq> m' \<and> flat_mac (replicate 16 9) m = flat_mac (replicate 16 9) m'"
proof -
  have acc: "verify_chain flat_mac (demo_chain ps) = (demo_chain ps, Inr True)" for ps
    using genuine_verifies [OF chain_run_genuine [OF demo_chain_run]] .
  have keys: "ec_key (demo_chain [[1], [2], [3]]) = replicate 16 9" "ec_key (demo_chain [[7], [3]]) = replicate 16 9"
    "ec_entries (demo_chain [[1], [2], [3]]) \<noteq> []" "ec_entries (demo_chain [[7], [3]]) \<noteq> []"
    "ee_entry_hash (last (ec_entries (demo_chain [[1], [2], [3]]))) =
      ee_entry_hash (last (ec_entries (demo_chain [[7], [3]])))"
    by code_simp+
  have "\<forall>m. length (flat_mac (replicate 16 9) m) = 32" by (simp add: flat_mac_def)
  from accepted_head_pins_history [OF this keys(1,2) acc acc keys(3-5)] show ?thesis .
qed

text \<open>
  An accepted inclusion proof of the depth of the tree proves inclusion: \<open>locate\<close> computes from it
  the position at which the leaf stands, whatever siblings and directions it lists, or else two
  different messages with the same SHA-256 digest.
\<close>

theorem accepted_proof_located:
  assumes "\<forall>m. length (sha m) = 32" "leaves \<noteq> []" "\<forall>x \<in> set leaves. length x = 32" "length leaf = 32"
    and "generate_proof sha leaves 0 = Inr honest" "length steps = length honest"
    and "verify_proof sha leaf steps (compute_root sha leaves)"
  shows "case locate sha leaves leaf steps of
       Inl (x, y) \<Rightarrow> x \<noteq> y \<and> sha x = sha y
     | Inr i \<Rightarrow> i < length leaves \<and> leaves ! i = leaf"
  using assms by (intro locate_sound) (simp_all add: generate_proof_def verify_proof_def compute_root_def)

theorem accepted_proof_located_witness:
  "case locate flat_sha [replicate 32 1, replicate 32 3] (replicate 32 7) [(replicate 32 3, True)] of
     Inl (x, y) \<Rightarrow> x \<noteq> y \<and> flat_sha x = flat_sha y
   | Inr i \<Rightarrow> i < 2 \<and> [replicate 32 1, replicate 32 3] ! i = replicate 32 (7 :: byte)"
proof -
  let ?leaves = "[replicate 32 1, replicate 32 3] :: bytes list"
  obtain honest where h: "generate_proof flat_sha ?leaves 0 = Inr honest" "length honest = 1"
    by (simp add: generate_proof_def proof_steps.simps [of flat_sha ?leaves] proof_steps.simps [of flat_sha "[_]"])
  have "verify_proof flat_sha (replicate 32 7) [(replicate 32 3, True)] (compute_root flat_sha ?leaves)"
    by (simp add: verify_proof_def compute_root_def top_level.simps [of flat_sha ?leaves]
        top_level.simps [of flat_sha "[_]"] hash_pair_def flat_sha_def node_above_def)
  from accepted_proof_located [OF _ _ _ _ h(1) _ this] h(2) show ?thesis by (simp add: flat_sha_def)
qed

section \<open>What a chain does not prove\<close>

text \<open>The newest entries can be removed without a trace in the chain: any beginning of an accepted
  chain is accepted.\<close>

lemma truncation_accepted:
  assumes "verify_chain mac ec = (ec', Inr b)"
  shows "verify_chain mac (ec\<lparr>ec_entries := take n (ec_entries ec)\<rparr>) =
    (ec\<lparr>ec_entries := take n (ec_entries ec)\<rparr>, Inr True)"
proof -
  have "linked mac key i prev t es \<Longrightarrow> linked mac key i prev t (take n es)" for key i prev t es
    by (induction es arbitrary: i prev t n) (auto simp: take_Cons split: nat.split)
  then show ?thesis using assms by (simp add: verify_chain_genuine genuine_def)
qed

text \<open>The Merkle root does not say how many leaves there are: repeating the last of an odd number
  keeps it.\<close>

lemma repeated_leaf_same_root:
  assumes "odd (length leaves)" "length leaves > 1"
  shows "compute_root sha (leaves @ [last leaves]) = compute_root sha leaves"
proof -
  have "odd (length xs) \<Longrightarrow> next_level sha (xs @ [last xs]) = next_level sha xs" for xs
    by (induction sha xs rule: next_level.induct) auto
  then show ?thesis using assms top_level_step [of leaves sha] top_level_step [of "leaves @ [last leaves]" sha]
    by (auto simp: compute_root_def)
qed

text \<open>The signature of a checkpoint does not cover the operator it names.\<close>

lemma checkpoint_operator_unsigned:
  assumes "create_checkpoint mac sha operator_id ts ec = (ec1, Inr c)"
  shows "create_checkpoint mac sha other ts ec = (ec1, Inr (c\<lparr>cp_operator_id := other\<rparr>))"
  using assms by (auto simp: create_checkpoint_def act_bind_Inr Let_def)

text \<open>A chain latched by a clock rollback still verifies, and still issues signed checkpoints.\<close>

lemma latched_chain_signs:
  assumes "chain_run mac sha ec" "ec_entries ec \<noteq> []" "\<not> ec_is_broken ec"
    and "0 < now" "now < ee_timestamp_ns (last (ec_entries ec))"
  shows "\<exists>ec' c. chain_append mac payload now ec = (ec', Inl (SecurityError ''EVIDENCE_CHAIN_BROKEN'')) \<and>
    ec_is_broken ec' \<and> chain_append mac p now' ec' = (ec', Inl (SecurityError ''EVIDENCE_CHAIN_LATCHED'')) \<and>
    verify_chain mac ec' = (ec', Inr True) \<and> create_checkpoint mac sha operator_id ts ec' = (ec', Inr c)"
proof -
  obtain ec' where ec': "chain_append mac payload now ec = (ec', Inl (SecurityError ''EVIDENCE_CHAIN_BROKEN''))"
      "ec_is_broken ec'"
    using assms by (auto simp: chain_append_def trigger_fail_closed_def Let_def)
  from chain_run.Append [OF assms(1) ec'(1)] have "verify_chain mac ec' = (ec', Inr True)"
    by (intro genuine_verifies chain_run_genuine)
  then show ?thesis using ec' by (auto simp: chain_append_def create_checkpoint_def Let_def)
qed

end
