(* ===== verification/Spec2Isabelle.thy ===== *)
theory Spec2Isabelle
  imports FastPacket TransportSpec E2ESpec WatchdogSpec IsoTpAsyncSpec ReplaySpec GatewayLimits AddressNet EvidenceSpec
begin

text \<open>
  A model of the protocol and safety core of UCANLAB (\<open>src/src/\<close>), a vehicle diagnosis platform in
  Python. Received CAN frames enter the protocol engines, which reassemble payloads and answer with
  frames of their own; every outgoing frame passes the transmit gateway, which consults the
  supervisor, the watchdog and the emergency stop before it hands the frame to the bus; recorded
  traffic passes the replay filter before it is played back.

  Which theory models what:

  \<^item> Prelude, PyDict, PyText: Python's values. Bytes are lists of 8-bit words, \<open>int\<close> is HOL's, float
    seconds and speeds are rationals, a dict is an association list in insertion order. A call that
    can raise returns \<open>py_error + 'a\<close>; a stateful call returns the new state with its result, so that
    what it changed before it raised stays changed. PyDict holds the interface \<open>keyed_table\<close>, the
    contract of the session tables, proved for association lists.
  \<^item> CanFrame (\<open>core/models/can_frame.py\<close>): the frame with the checks of its constructor. J1939Id
    (\<open>protocols/j1939/oem/registry.py\<close>, \<open>pgn.py\<close>): identifiers packed and unpacked.
  \<^item> AddressClaim, AddressClaimSpec, AddressNet (\<open>protocols/j1939/address_claim.py\<close>): NAMEs, the
    expiring address table and the claiming engine; what decides a contention and when an address
    counts as claimed; networks of engines, in which a shared address is always contested.
  \<^item> FastPacket with RateGate (\<open>protocols/nmea2000/fast_packet.py\<close>): NMEA 2000 reassembly.
  \<^item> TpTable, Transport, TransportRx, TransportTx, TransportRun, TransportFlow, TransportSpec
    (\<open>protocols/j1939/transport.py\<close>): the session tables, the receiver and the sender of J1939-21, runs
    of the engine, and the properties: bounded sessions, lossless transfer, flow control.
  \<^item> IsoTp, IsoTpSpec, IsoTpAsync, IsoTpAsyncSpec (\<open>protocols/uds/isotp.py\<close>): segmentation and the
    synchronous transport, then the asynchronous sender and receiver as partial functions of an
    environment that supplies clock readings and frames. Loops that wait are
    \<open>partial_function (option)\<close>; termination is proved for every environment whose clock advances.
  \<^item> E2ECrc, E2EProfiles, E2EPackager, E2EValidator, E2ESpec (\<open>safety/e2e/\<close>): checksums, profile
    configurations, sealing and validation; E2ESpec relates the validator to an abstract monitor,
    evictions and forgotten tombstones included.
  \<^item> Supervisor, SupervisorSpec (\<open>safety/state_machine.py\<close>), EStop, EStopSpec (\<open>safety/estop.py\<close>),
    Watchdog, WatchdogSpec (\<open>safety/watchdog.py\<close>): the state machine with its arm tokens, the
    emergency stop with its reset tokens, the transmit lease, and their composition.
  \<^item> GatewayPolicy, Gateway (\<open>safety/gateway.py\<close>, \<open>criticality.py\<close>, \<open>read_only_policy.py\<close>): what is
    critical, what a read-only session admits, and the gateway's state, stages, tokens and dispatch.
    GatewaySpec shows that one call implements an authorisation policy and that an engagement of the
    stop in between prevents the dispatch; GatewayRun has sessions of overlapping calls, with the
    rate envelope and the single use of confirmations, on a clock that may repeat readings;
    GatewayCritical relates the classification to
    what ISO-TP and J1939 put on the bus; GatewayLimits has the whitelist streak and the limits of
    the token store and of the lanes.
  \<^item> ReplayFilter, ReplaySpec (\<open>hal/replay/safety_filter.py\<close>): the filter with its session ledger;
    it covers what the gateway calls critical, and no receiver assembles a prohibited request from
    what it lets through.
  \<^item> EvidenceChain, EvidenceSpec (\<open>security/audit/evidence_chain.py\<close>): the hash chain of audit
    entries with its Merkle tree; an honest chain verifies, an accepted head pins the history up to
    a collision, an accepted inclusion proof is located.

  Fuel is used nowhere. Random bytes, clock readings, thread identifiers and the outcome of a driver
  call are arguments; HMAC-SHA256 and SHA-256 are parameters with no assumption but, where a theorem
  needs it, the length of their results.

  Not modelled: logging and the texts of exceptions; locks as such (each critical section is one
  step, and what other threads do between two sections is an arbitrary argument or a step of the
  session relation); rounding of floats; the UDS client and flasher, OBD polling, OEM decoders,
  diagnosis, discovery, drivers, storage, licences, user interface and the AI engine, whose code is
  string processing, tables, file, network and device access or orchestration of the parts above.
\<close>

end
